(* ===== verification/Py_Prelude.thy ===== *)
theory Py_Prelude
  imports Main "HOL-Library.Word"
begin

text \<open>
  The part of the Python language and of its standard library that the modelled modules use:
  exceptions as values, sequence indexing and slicing with Python's treatment of negative and
  out-of-range positions, the bytes of fixed-width integers, and the windows that
  \<^verbatim>\<open>struct.pack_into\<close> and \<^verbatim>\<open>struct.unpack_from\<close> address.  A Python \<^verbatim>\<open>int\<close> is an
  \<^typ>\<open>int\<close>, a \<^verbatim>\<open>bytes\<close> or \<^verbatim>\<open>bytearray\<close> value is a list of \<^typ>\<open>8 word\<close>.

  A method that changes its object and may raise is a function from the object to a result
  \<^emph>\<open>and\<close> the object after the call, so that a mutation that happens before the exception is
  visible in the model.
\<close>

unbundle bit_operations_syntax

section \<open>Exceptions as values\<close>

datatype py_error =
    ValueError
  | IndexError
  | KeyError
  | TypeError
  | RuntimeError
  | OverflowError
  | ZeroDivisionError
  | StructError
  | MemoryErr
  | TableErr
  | ChecksumErr
  | ConnectionErr
  | AttributeErr
  | SyntaxErr
  | IPErr
  | WebSocketErr
  | WebSocketClosed
  | WebSocketProtocolErr
  | UDPErr
  | UDPPortErr
  | QueueTimeout
  | DNSErr
  | DNSTimeoutErr
  | DNSResolverErr
  | InvalidStateErr

type_synonym byte = "8 word"
type_synonym bytes = "byte list"
type_synonym 'a result = "py_error + 'a"

text \<open>Sequencing of computations that may raise.\<close>

definition res_bind :: "'a result \<Rightarrow> ('a \<Rightarrow> 'b result) \<Rightarrow> 'b result" where
  "res_bind r f = (case r of Inl e \<Rightarrow> Inl e | Inr x \<Rightarrow> f x)"

named_theorems py_simps \<open>evaluation of the Python primitives inside their bounds\<close>
named_theorems py_defs \<open>definitions that unfold a method into the Python primitives\<close>

lemma res_bind_Inl [simp]: "res_bind (Inl e) f = Inl e"
  by (simp add: res_bind_def)

lemma res_bind_Inr [simp]: "res_bind (Inr x) f = f x"
  by (simp add: res_bind_def)

lemma res_bind_eq_Inr:
  "res_bind r f = Inr y \<longleftrightarrow> (\<exists>x. r = Inr x \<and> f x = Inr y)"
  by (cases r) auto

section \<open>Sequences\<close>

abbreviation ilen :: "'a list \<Rightarrow> int" where
  "ilen xs \<equiv> int (length xs)"

text \<open>\<^verbatim>\<open>xs[i]\<close>: a negative position counts from the end.\<close>

definition py_index :: "'a list \<Rightarrow> int \<Rightarrow> 'a result" where
  "py_index xs i =
     (let j = (if i < 0 then i + ilen xs else i)
      in if 0 \<le> j \<and> j < ilen xs then Inr (xs ! nat j) else Inl IndexError)"

text \<open>\<^verbatim>\<open>xs[i] = v\<close>.\<close>

definition py_update :: "'a list \<Rightarrow> int \<Rightarrow> 'a \<Rightarrow> 'a list result" where
  "py_update xs i v =
     (let j = (if i < 0 then i + ilen xs else i)
      in if 0 \<le> j \<and> j < ilen xs then Inr (xs[nat j := v]) else Inl IndexError)"

text \<open>A bound of a slice, brought into \<open>0 .. len\<close> the way Python does.\<close>

definition py_clamp :: "nat \<Rightarrow> int \<Rightarrow> nat" where
  "py_clamp n i = nat (if i < 0 then max 0 (i + int n) else min i (int n))"

text \<open>\<^verbatim>\<open>xs[a:b]\<close>.\<close>

definition py_slice :: "'a list \<Rightarrow> int \<Rightarrow> int \<Rightarrow> 'a list" where
  "py_slice xs a b =
     (let lo = py_clamp (length xs) a; hi = py_clamp (length xs) b
      in take (hi - lo) (drop lo xs))"

text \<open>\<^verbatim>\<open>xs[a:b] = ys\<close>: the slice is replaced, whatever the length of \<open>ys\<close>.\<close>

definition py_slice_assign :: "'a list \<Rightarrow> int \<Rightarrow> int \<Rightarrow> 'a list \<Rightarrow> 'a list" where
  "py_slice_assign xs a b ys =
     (let lo = py_clamp (length xs) a; hi = max lo (py_clamp (length xs) b)
      in take lo xs @ ys @ drop hi xs)"

text \<open>\<^verbatim>\<open>[v] * n\<close>: a count below zero gives the empty list.\<close>

definition py_repeat :: "'a \<Rightarrow> int \<Rightarrow> 'a list" where
  "py_repeat v n = replicate (nat n) v"

lemma py_index_in [py_simps]:
  "0 \<le> i \<Longrightarrow> i < ilen xs \<Longrightarrow> py_index xs i = Inr (xs ! nat i)"
  by (simp add: py_index_def)

lemma py_index_beyond [py_simps]: "ilen xs \<le> i \<Longrightarrow> py_index xs i = Inl IndexError"
  by (simp add: py_index_def)

lemma py_index_append [simp]: "py_index (xs @ y # ys) (ilen xs) = Inr y"
  by (simp add: py_index_def)

lemma py_index_neg:
  "1 \<le> i \<Longrightarrow> i \<le> ilen xs \<Longrightarrow> py_index xs (- i) = Inr (rev xs ! nat (i - 1))"
  by (auto simp: py_index_def rev_nth nat_diff_distrib intro!: arg_cong [of _ _ "(!) xs"])

lemma py_update_in [py_simps]:
  "0 \<le> i \<Longrightarrow> i < ilen xs \<Longrightarrow> py_update xs i v = Inr (xs[nat i := v])"
  by (simp add: py_update_def)

lemma py_slice_in [py_simps]:
  "0 \<le> a \<Longrightarrow> a \<le> b \<Longrightarrow> b \<le> ilen xs \<Longrightarrow>
   py_slice xs a b = take (nat (b - a)) (drop (nat a) xs)"
  by (simp add: py_slice_def py_clamp_def Let_def nat_diff_distrib)

lemma py_slice_assign_in [py_simps]:
  "0 \<le> a \<Longrightarrow> a \<le> b \<Longrightarrow> b \<le> ilen xs \<Longrightarrow>
   py_slice_assign xs a b ys = take (nat a) xs @ ys @ drop (nat b) xs"
  by (simp add: py_slice_assign_def py_clamp_def Let_def)

lemma length_py_repeat [simp]: "length (py_repeat v n) = nat n"
  by (simp add: py_repeat_def)

text \<open>
  Overwriting a run of a list: what a slice assignment or a \<^verbatim>\<open>pack_into\<close> with a payload of the
  slice's length does.
\<close>

definition overwrite :: "'a list \<Rightarrow> nat \<Rightarrow> 'a list \<Rightarrow> 'a list" where
  "overwrite xs i ys = take i xs @ ys @ drop (i + length ys) xs"

lemma length_overwrite [simp]:
  "i + length ys \<le> length xs \<Longrightarrow> length (overwrite xs i ys) = length xs"
  by (simp add: overwrite_def)

lemma nth_overwrite:
  "i + length ys \<le> length xs \<Longrightarrow> k < length xs \<Longrightarrow>
   overwrite xs i ys ! k = (if i \<le> k \<and> k < i + length ys then ys ! (k - i) else xs ! k)"
  by (auto simp: overwrite_def nth_append min_def add.commute)

lemma overwrite_read_same:
  "i + length ys \<le> length xs \<Longrightarrow> take (length ys) (drop i (overwrite xs i ys)) = ys"
  by (simp add: overwrite_def min_def)

lemma overwrite_read_disjoint:
  assumes "i + length ys \<le> length xs" and "j + n \<le> length xs"
    and "j + n \<le> i \<or> i + length ys \<le> j"
  shows "take n (drop j (overwrite xs i ys)) = take n (drop j xs)"
  using assms by (auto intro!: nth_equalityI simp: nth_overwrite)

lemma overwrite_Nil [simp]: "overwrite xs i [] = xs"
  by (simp add: overwrite_def)

lemma overwrite_twice:
  "i + length ys \<le> length xs \<Longrightarrow> length zs = length ys \<Longrightarrow>
   overwrite (overwrite xs i ys) i zs = overwrite xs i zs"
  by (auto intro!: nth_equalityI simp: nth_overwrite)

lemma py_slice_assign_overwrite:
  "0 \<le> a \<Longrightarrow> a + ilen ys \<le> ilen xs \<Longrightarrow>
   py_slice_assign xs a (a + ilen ys) ys = overwrite xs (nat a) ys"
  by (simp add: py_slice_assign_in overwrite_def nat_add_distrib)

section \<open>Loops\<close>

text \<open>
  \<^verbatim>\<open>for i in is: body\<close>, where the body updates a state and may raise: the state reached so far
  stays when it does.
\<close>

fun for_loop :: "('i \<Rightarrow> 's \<Rightarrow> 's result) \<Rightarrow> 'i list \<Rightarrow> 's \<Rightarrow> unit result \<times> 's" where
  "for_loop f [] s = (Inr (), s)"
| "for_loop f (i # is) s = (case f i s of Inl e \<Rightarrow> (Inl e, s) | Inr s' \<Rightarrow> for_loop f is s')"

text \<open>\<^verbatim>\<open>range(n)\<close>.\<close>

definition py_range :: "int \<Rightarrow> int list" where
  "py_range n = map int [0..<nat n]"

lemma for_loop_append:
  "for_loop f (is @ js) s =
    (case for_loop f is s of (Inl e, s') \<Rightarrow> (Inl e, s') | (Inr _, s') \<Rightarrow> for_loop f js s')"
  by (induction "is" arbitrary: s) (auto split: sum.split)

text \<open>
  A loop that keeps an invariant about how many rounds are done never raises and ends with the
  invariant for the whole list.
\<close>

lemma for_loop_invariant:
  assumes "P 0 s"
    and "\<And>k s. k < length is \<Longrightarrow> P k s \<Longrightarrow> \<exists>s'. f (is ! k) s = Inr s' \<and> P (Suc k) s'"
  shows "\<exists>s'. for_loop f is s = (Inr (), s') \<and> P (length is) s'"
  using assms
proof (induction "is" arbitrary: s P)
  case (Cons i "is")
  from Cons.prems(2) [of 0 s] Cons.prems(1) obtain s1 where s1: "f i s = Inr s1" "P (Suc 0) s1"
    by auto
  have "\<exists>s'. for_loop f is s1 = (Inr (), s') \<and> P (Suc (length is)) s'"
    using Cons.prems(2) [of "Suc _"] s1(2) by (intro Cons.IH [of "\<lambda>k. P (Suc k)"]) auto
  then show ?case using s1(1) by simp
qed simp

section \<open>Fixed-width integers as bytes\<close>

primrec le_bytes :: "nat \<Rightarrow> int \<Rightarrow> bytes" where
  "le_bytes 0 v = []"
| "le_bytes (Suc n) v = word_of_int v # le_bytes n (v div 256)"

primrec le_int :: "bytes \<Rightarrow> int" where
  "le_int [] = 0"
| "le_int (b # bs) = uint b + 256 * le_int bs"

lemma length_le_bytes [simp]: "length (le_bytes n v) = n"
  by (induction n arbitrary: v) auto

lemma uint_byte_bounds [simp]: "0 \<le> uint (b :: byte)" "uint (b :: byte) < 256"
  using uint_lt2p [of b] by simp_all

lemma le_int_bounds: "0 \<le> le_int bs \<and> le_int bs < 256 ^ length bs"
proof (induction bs)
  case (Cons b bs)
  have "uint b < 256" by simp
  moreover from Cons have "256 * le_int bs + 256 \<le> 256 * 256 ^ length bs" by linarith
  ultimately have "uint b + 256 * le_int bs < 256 * 256 ^ length bs" by linarith
  with Cons show ?case by simp
qed simp

lemma le_int_le_bytes: "le_int (le_bytes n v) = v mod 256 ^ n"
proof (induction n arbitrary: v)
  case (Suc n)
  have "uint (word_of_int v :: byte) = v mod 256"
    by (simp add: uint_word_of_int)
  moreover have "v mod (256 * 256 ^ n) = 256 * (v div 256 mod 256 ^ n) + v mod 256"
    by (rule zmod_zmult2_eq) simp
  ultimately show ?case
    by (simp add: Suc)
qed simp

lemma le_bytes_le_int: "le_bytes (length bs) (le_int bs) = bs"
proof (induction bs)
  case (Cons b bs)
  have "uint b < 256" "0 \<le> uint b" by simp_all
  then have "(uint b + 256 * le_int bs) div 256 = le_int bs" by simp
  moreover have "word_of_int (uint b + 256 * le_int bs) = b"
    by (rule word_uint_eqI, simp only: uint_word_of_int) (simp add: \<open>uint b < 256\<close>)
  ultimately show ?case using Cons by simp
qed simp

section \<open>Bit operations on unbounded integers\<close>

lemma and_127 [simp]: "(x :: int) AND 0x7F = x mod 128"
  using take_bit_eq_mask [of 7 x] by (simp add: take_bit_eq_mod mask_eq_exp_minus_1)

lemma and_255 [simp]: "(x :: int) AND 0xFF = x mod 256"
  using take_bit_eq_mask [of 8 x] by (simp add: take_bit_eq_mod mask_eq_exp_minus_1)

lemma and_mask_mod:
  "(x :: int) AND 0xFFFF = x mod 2 ^ 16"
  "(x :: int) AND 0xFFFFFFFF = x mod 2 ^ 32"
  "(x :: int) AND 0xFFFFFFFFFFFFFFFF = x mod 2 ^ 64"
  using take_bit_eq_mask [of 16 x] take_bit_eq_mask [of 32 x] take_bit_eq_mask [of 64 x]
  by (simp_all add: take_bit_eq_mod mask_eq_exp_minus_1)

lemma and_exp_eq_0_iff_mod: "(x :: int) AND 2 ^ n = 0 \<longleftrightarrow> x mod 2 ^ Suc n < 2 ^ n"
proof -
  have "x mod 2 ^ Suc n = 2 ^ n * (x div 2 ^ n mod 2) + x mod 2 ^ n"
    using zmod_zmult2_eq [of 2 x "2 ^ n"] by (simp add: mult.commute)
  moreover have "x mod 2 ^ n < 2 ^ n" "\<not> x mod 2 ^ n < 0" by (simp_all add: not_less)
  moreover have "x div 2 ^ n mod 2 = 0 \<or> x div 2 ^ n mod 2 = 1" by presburger
  ultimately show ?thesis
    by (auto simp: and_exp_eq_0_iff_not_bit bit_iff_odd even_iff_mod_2_eq_zero)
qed

lemma and_64_eq_0: "(x :: int) AND 0x40 = 0 \<longleftrightarrow> x mod 128 < 64"
  using and_exp_eq_0_iff_mod [of x 6] by simp

lemma and_128_eq_0: "(x :: int) AND 0x80 = 0 \<longleftrightarrow> x mod 256 < 128"
  using and_exp_eq_0_iff_mod [of x 7] by simp

lemma or_push_bit_add:
  assumes "0 \<le> acc" and "acc < 2 ^ n"
  shows "acc OR push_bit n x = acc + 2 ^ n * (x :: int)"
proof -
  have "take_bit n acc = acc" using assms by (simp add: take_bit_int_eq_self)
  then show ?thesis
    using concat_bit_eq [of n acc x] by (simp add: concat_bit_def push_bit_eq_mult mult.commute)
qed

lemma or_high_bits:
  assumes "0 \<le> x" and "x < 256"
  shows "x OR 0xFFFFFF00 = x + (0xFFFFFF00 :: int)"
    and "x OR 0xFFFFFFFFFFFFFF00 = x + (0xFFFFFFFFFFFFFF00 :: int)"
  using or_push_bit_add [of x 8 "0xFFFFFF"] or_push_bit_add [of x 8 "0xFFFFFFFFFFFFFF"] assms
  by (simp_all add: push_bit_eq_mult)

lemma or_not_mask_sub:
  assumes "0 \<le> acc" and "acc < 2 ^ n"
  shows "acc OR NOT (push_bit n 1 - 1) = acc - (2 ^ n :: int)"
proof -
  have "NOT (push_bit n 1 - 1) = push_bit n (- 1 :: int)"
    by (simp add: push_bit_eq_mult not_int_def)
  then show ?thesis using or_push_bit_add [OF assms, of "- 1"] by simp
qed

end
