(* ===== verification/Py_State.thy ===== *)
theory Py_State
  imports Py_Prelude
begin

text \<open>
  Methods that change a state and may raise, and methods that besides may not return.  The first
  are functions from the state to a result and the state afterwards; the second give \<^const>\<open>None\<close>
  when they do not return.
\<close>

type_synonym ('s, 'a) st = "'s \<Rightarrow> 'a result \<times> 's"
type_synonym ('s, 'a) dv = "'s \<Rightarrow> ('a result \<times> 's) option"

definition st_return :: "'a \<Rightarrow> ('s, 'a) st" where
  "st_return x s = (Inr x, s)"

definition st_raise :: "py_error \<Rightarrow> ('s, 'a) st" where
  "st_raise e s = (Inl e, s)"

text \<open>An expression that does not change the state.\<close>

definition st_result :: "'a result \<Rightarrow> ('s, 'a) st" where
  "st_result r s = (r, s)"

definition st_update :: "('s \<Rightarrow> 's) \<Rightarrow> ('s, unit) st" where
  "st_update f s = (Inr (), f s)"

definition st_get :: "('s \<Rightarrow> 'a) \<Rightarrow> ('s, 'a) st" where
  "st_get f s = (Inr (f s), s)"

definition st_bind :: "('s, 'a) st \<Rightarrow> ('a \<Rightarrow> ('s, 'b) st) \<Rightarrow> ('s, 'b) st" where
  "st_bind m f s = (case m s of (Inl e, s') \<Rightarrow> (Inl e, s') | (Inr x, s') \<Rightarrow> f x s')"

text \<open>A \<^verbatim>\<open>for\<close> loop over a list.\<close>

fun st_for :: "'i list \<Rightarrow> ('i \<Rightarrow> ('s, unit) st) \<Rightarrow> ('s, unit) st" where
  "st_for [] body = st_return ()"
| "st_for (i # is) body = st_bind (body i) (\<lambda>_. st_for is body)"

definition dv_lift :: "('s, 'a) st \<Rightarrow> ('s, 'a) dv" where
  "dv_lift m s = Some (m s)"

definition dv_bind :: "('s, 'a) dv \<Rightarrow> ('a \<Rightarrow> ('s, 'b) dv) \<Rightarrow> ('s, 'b) dv" where
  "dv_bind m f s =
     (case m s of
        None \<Rightarrow> None
      | Some (Inl e, s') \<Rightarrow> Some (Inl e, s')
      | Some (Inr x, s') \<Rightarrow> f x s')"

lemma st_simps [simp]:
  "st_return x s = (Inr x, s)" "st_raise e s = (Inl e, s)" "st_result r s = (r, s)"
  "st_update f s = (Inr (), f s)" "st_get g s = (Inr (g s), s)"
  by (simp_all add: st_return_def st_raise_def st_result_def st_update_def st_get_def)

lemma st_bind_Inr [simp]: "m s = (Inr x, s') \<Longrightarrow> st_bind m f s = f x s'"
  by (simp add: st_bind_def)

lemma st_bind_Inl [simp]: "m s = (Inl e, s') \<Longrightarrow> st_bind m f s = (Inl e, s')"
  by (simp add: st_bind_def)

lemma dv_lift_apply [simp]: "dv_lift m s = Some (m s)"
  by (simp add: dv_lift_def)

lemma dv_bind_Inr [simp]: "m s = Some (Inr x, s') \<Longrightarrow> dv_bind m f s = f x s'"
  by (simp add: dv_bind_def)

lemma dv_bind_Inl [simp]: "m s = Some (Inl e, s') \<Longrightarrow> dv_bind m f s = Some (Inl e, s')"
  by (simp add: dv_bind_def)

lemma dv_bind_None [simp]: "m s = None \<Longrightarrow> dv_bind m f s = None"
  by (simp add: dv_bind_def)

lemma st_bind_assoc: "st_bind (st_bind m f) g = st_bind m (\<lambda>x. st_bind (f x) g)"
  by (rule ext) (auto simp: st_bind_def split: prod.split sum.split)

lemma dv_lift_bind: "dv_bind (dv_lift m) (\<lambda>x. dv_lift (f x)) = dv_lift (st_bind m f)"
  by (rule ext) (auto simp: st_bind_def dv_bind_def split: prod.split sum.split)

end
