(* ===== verification/Py_Struct.thy ===== *)
theory Py_Struct
  imports Py_Prelude
begin

text \<open>
  The integer formats of Python's \<^verbatim>\<open>struct\<close> module, in both byte orders (\<open>big = True\<close> for
  the prefixes \<^verbatim>\<open>!\<close> and \<^verbatim>\<open>>\<close>, \<open>False\<close> for \<^verbatim>\<open><\<close>), and the windows of a buffer that
  \<^verbatim>\<open>pack_into\<close> and \<^verbatim>\<open>unpack_from\<close> address.  The last section is the interface of a
  self-delimiting binary codec; the modules that encode values interpret it.
\<close>

section \<open>Packing and unpacking one integer\<close>

definition byte_order :: "bool \<Rightarrow> bytes \<Rightarrow> bytes" where
  "byte_order big bs = (if big then rev bs else bs)"

text \<open>Unsigned formats (\<^verbatim>\<open>B\<close>, \<^verbatim>\<open>H\<close>, \<^verbatim>\<open>I\<close>, \<^verbatim>\<open>Q\<close>) refuse what does not fit.\<close>

definition pack_uint :: "bool \<Rightarrow> nat \<Rightarrow> int \<Rightarrow> bytes result" where
  "pack_uint big n v =
     (if 0 \<le> v \<and> v < 256 ^ n then Inr (byte_order big (le_bytes n v)) else Inl StructError)"

text \<open>Signed formats (\<^verbatim>\<open>b\<close>, \<^verbatim>\<open>h\<close>, \<^verbatim>\<open>i\<close>, \<^verbatim>\<open>q\<close>): two's complement, range checked.\<close>

definition pack_sint :: "bool \<Rightarrow> nat \<Rightarrow> int \<Rightarrow> bytes result" where
  "pack_sint big n v =
     (if - (256 ^ n div 2) \<le> v \<and> v < 256 ^ n div 2
      then Inr (byte_order big (le_bytes n v)) else Inl StructError)"

definition unpack_uint :: "bool \<Rightarrow> bytes \<Rightarrow> int" where
  "unpack_uint big bs = le_int (byte_order big bs)"

definition unpack_sint :: "bool \<Rightarrow> bytes \<Rightarrow> int" where
  "unpack_sint big bs =
     (let u = le_int (byte_order big bs); m = 256 ^ length bs
      in if u < m div 2 then u else u - m)"

lemma length_byte_order [simp]: "length (byte_order big bs) = length bs"
  by (simp add: byte_order_def)

lemma byte_order_twice [simp]: "byte_order big (byte_order big bs) = bs"
  by (simp add: byte_order_def)

lemma pack_uint_length: "pack_uint big n v = Inr bs \<Longrightarrow> length bs = n"
  by (auto simp: pack_uint_def split: if_splits)

lemma pack_sint_length: "pack_sint big n v = Inr bs \<Longrightarrow> length bs = n"
  by (auto simp: pack_sint_def split: if_splits)

lemma unpack_uint_bounds: "0 \<le> unpack_uint big bs" "unpack_uint big bs < 256 ^ length bs"
  using le_int_bounds [of "byte_order big bs"] by (simp_all add: unpack_uint_def)

lemma even_256_power: "0 < n \<Longrightarrow> 2 * (256 ^ n div 2) = (256 ^ n :: int)"
  by (cases n) simp_all

lemma unpack_sint_bounds:
  assumes "bs \<noteq> []"
  shows "- (256 ^ length bs div 2) \<le> unpack_sint big bs"
    and "unpack_sint big bs < 256 ^ length bs div 2"
proof -
  let ?u = "le_int (byte_order big bs)" and ?m = "256 ^ length bs :: int"
  have u: "0 \<le> ?u" "?u < ?m"
    using le_int_bounds [of "byte_order big bs"] by simp_all
  have m: "2 * (?m div 2) = ?m"
    using assms by (intro even_256_power) simp
  have v: "unpack_sint big bs = (if ?u < ?m div 2 then ?u else ?u - ?m)"
    by (simp add: unpack_sint_def)
  show "- (?m div 2) \<le> unpack_sint big bs" and "unpack_sint big bs < ?m div 2"
    unfolding v using u m by (cases "?u < ?m div 2"; simp only: if_True if_False; linarith)+
qed

lemma unpack_pack_uint: "pack_uint big n v = Inr bs \<Longrightarrow> unpack_uint big bs = v"
  by (auto simp: pack_uint_def unpack_uint_def le_int_le_bytes split: if_splits)

lemma pack_unpack_uint: "pack_uint big (length bs) (unpack_uint big bs) = Inr bs"
proof -
  have "le_bytes (length bs) (le_int (byte_order big bs)) = byte_order big bs"
    using le_bytes_le_int [of "byte_order big bs"] by simp
  with unpack_uint_bounds [of big bs] show ?thesis
    by (simp add: pack_uint_def unpack_uint_def)
qed

lemma unpack_pack_sint:
  assumes "0 < n" and "pack_sint big n v = Inr bs"
  shows "unpack_sint big bs = v"
proof -
  let ?m = "256 ^ n :: int"
  from assms have v: "- (?m div 2) \<le> v" "v < ?m div 2"
    and bs: "bs = byte_order big (le_bytes n v)"
    by (auto simp: pack_sint_def split: if_splits)
  have m: "2 * (?m div 2) = ?m" using assms(1) by (rule even_256_power)
  have "v mod ?m = (if v < 0 then v + ?m else v)"
  proof (cases "v < 0")
    case True
    then have "(v + ?m) mod ?m = v + ?m"
      using v m by (intro mod_pos_pos_trivial) linarith+
    then show ?thesis using True by simp
  next
    case False
    then show ?thesis using v m by simp
  qed
  then show ?thesis
    using v m by (simp add: unpack_sint_def bs le_int_le_bytes Let_def)
qed

text \<open>The signed and the unsigned reading of the same bytes agree modulo the width.\<close>

lemma unpack_sint_mod:
  "bs \<noteq> [] \<Longrightarrow> unpack_sint big bs mod 256 ^ length bs = unpack_uint big bs"
  using unpack_uint_bounds [of big bs]
  by (auto simp: unpack_sint_def unpack_uint_def Let_def mod_pos_pos_trivial)

section \<open>Windows of a buffer\<close>

text \<open>
  The first position of the \<open>n\<close> bytes at \<open>off\<close>: a negative offset counts from the end and
  must leave room for the whole window.
\<close>

definition struct_start :: "bytes \<Rightarrow> int \<Rightarrow> nat \<Rightarrow> nat result" where
  "struct_start buf off n =
     (let off' = (if off < 0 then off + ilen buf else off)
      in if off < 0 \<and> (0 < off + int n \<or> off' < 0) then Inl StructError
         else if ilen buf - off' < int n then Inl StructError
         else Inr (nat off'))"

definition unpack_from :: "bytes \<Rightarrow> int \<Rightarrow> nat \<Rightarrow> bytes result" where
  "unpack_from buf off n = res_bind (struct_start buf off n) (\<lambda>i. Inr (take n (drop i buf)))"

text \<open>
  The fields of a format, each with its size and its encoding (or the error its value raises).
  CPython clears the whole window and then writes the fields one after the other, so that a field
  that does not fit leaves the fields before it in the buffer and zeros from there on.
\<close>

fun pack_items :: "(nat \<times> bytes result) list \<Rightarrow> unit result \<times> bytes" where
  "pack_items [] = (Inr (), [])"
| "pack_items ((n, Inl e) # items) = (Inl e, replicate (n + sum_list (map fst items)) 0)"
| "pack_items ((n, Inr bs) # items) = (let (r, rest) = pack_items items in (r, bs @ rest))"

text \<open>\<^verbatim>\<open>struct.pack\<close>: the bytes, or the error.\<close>

definition struct_pack :: "(nat \<times> bytes result) list \<Rightarrow> bytes result" where
  "struct_pack items = (let (r, bs) = pack_items items in res_bind r (\<lambda>_. Inr bs))"

text \<open>\<^verbatim>\<open>struct.pack_into\<close>: how it ends and the buffer afterwards.\<close>

definition pack_into :: "bytes \<Rightarrow> int \<Rightarrow> (nat \<times> bytes result) list \<Rightarrow> unit result \<times> bytes" where
  "pack_into buf off items =
     (case struct_start buf off (sum_list (map fst items)) of
        Inl e \<Rightarrow> (Inl e, buf)
      | Inr i \<Rightarrow> let (r, bs) = pack_items items in (r, overwrite buf i bs))"

lemma unpack_from_in [py_simps]:
  "0 \<le> off \<Longrightarrow> off + int n \<le> ilen buf \<Longrightarrow>
   unpack_from buf off n = Inr (take n (drop (nat off) buf))"
  by (simp add: unpack_from_def struct_start_def)

lemma unpack_from_beyond [py_simps]:
  "0 \<le> off \<Longrightarrow> ilen buf < off + int n \<Longrightarrow> unpack_from buf off n = Inl StructError"
  by (simp add: unpack_from_def struct_start_def)

definition items_sized :: "(nat \<times> bytes result) list \<Rightarrow> bool" where
  "items_sized items \<longleftrightarrow> (\<forall>(n, r) \<in> set items. \<forall>bs. r = Inr bs \<longrightarrow> length bs = n)"

lemma length_pack_items:
  "items_sized items \<Longrightarrow> length (snd (pack_items items)) = sum_list (map fst items)"
  by (induction items rule: pack_items.induct) (auto simp: items_sized_def split: prod.split)

lemma pack_into_in [py_simps]:
  "0 \<le> off \<Longrightarrow> off + int (sum_list (map fst items)) \<le> ilen buf \<Longrightarrow>
   pack_into buf off items =
     (fst (pack_items items), overwrite buf (nat off) (snd (pack_items items)))"
  by (simp add: pack_into_def struct_start_def split: prod.split)

lemma length_pack_into:
  "items_sized items \<Longrightarrow> length (snd (pack_into buf off items)) = length buf"
  using length_pack_items [of items]
  by (auto simp: pack_into_def struct_start_def Let_def split: prod.split sum.split if_splits)

lemma items_sized_sint [simp]: "items_sized [(n, pack_sint big n v)]"
  by (auto simp: items_sized_def pack_sint_def)

lemma items_sized_uint [simp]: "items_sized [(n, pack_uint big n v)]"
  by (auto simp: items_sized_def pack_uint_def)

lemma unpack_from_append:
  "length p = n \<Longrightarrow> unpack_from (pre @ p @ post) (ilen pre) n = Inr p"
  by (simp add: unpack_from_in)

section \<open>Formats with several fields\<close>

lemma struct_pack_Nil [simp]: "struct_pack [] = Inr []"
  by (simp add: struct_pack_def)

lemma struct_pack_Cons [simp]:
  "struct_pack ((n, r) # items) =
    (case r of Inl e \<Rightarrow> Inl e | Inr bs \<Rightarrow> res_bind (struct_pack items) (\<lambda>rest. Inr (bs @ rest)))"
  by (cases r) (auto simp: struct_pack_def res_bind_def split: prod.split sum.split)

lemma pack_uint_Inr:
  "pack_uint True n v = Inr bs \<longleftrightarrow> 0 \<le> v \<and> v < 256 ^ n \<and> bs = rev (le_bytes n v)"
  by (auto simp: pack_uint_def byte_order_def)

lemma pack_uint_tag: "0 \<le> t \<Longrightarrow> t < 256 \<Longrightarrow> pack_uint True (Suc 0) t = Inr [word_of_int t]"
  by (simp add: pack_uint_def byte_order_def)

lemma be_words: "0 \<le> v \<Longrightarrow> v < 256 ^ n \<Longrightarrow> unpack_uint True (rev (le_bytes n v)) = v"
  by (simp add: unpack_uint_def byte_order_def le_int_le_bytes)

lemma pack_sint_Inr:
  "pack_sint True n v = Inr bs \<Longrightarrow> 0 < n \<Longrightarrow> unpack_sint True bs = v \<and> length bs = n"
  using unpack_pack_sint [of n True v bs] pack_sint_length [of True n v bs] by simp

lemma unpack_at:
  "length w = n \<Longrightarrow> unpack_from (pre @ w @ post) (ilen pre) n = Inr w"
  by (rule unpack_from_append)

lemma slice_at: "py_slice (pre @ xs @ post) (ilen pre) (ilen pre + ilen xs) = xs"
  by (simp add: py_slice_in)

section \<open>Self-delimiting codecs\<close>

text \<open>Decoding \<open>n\<close> values one after the other, threading the offset.\<close>

fun decode_many :: "(bytes \<Rightarrow> int \<Rightarrow> ('a \<times> int) result) \<Rightarrow> nat \<Rightarrow> bytes \<Rightarrow> int \<Rightarrow> ('a list \<times> int) result"
where
  "decode_many dec 0 buf off = Inr ([], off)"
| "decode_many dec (Suc n) buf off =
     res_bind (dec buf off) (\<lambda>(x, off').
     res_bind (decode_many dec n buf off') (\<lambda>(xs, off'').
     Inr (x # xs, off'')))"

text \<open>Decoding a sequence of encoded values, each with what the decoder makes of it.\<close>

lemma decode_many_map:
  assumes "\<And>x pre post. x \<in> set xs \<Longrightarrow> dec (pre @ enc x @ post) (ilen pre) = Inr (f x, ilen pre + ilen (enc x))"
  shows "decode_many dec (length xs) (pre @ concat (map enc xs) @ post) (ilen pre) =
    Inr (map f xs, ilen pre + ilen (concat (map enc xs)))"
  using assms
proof (induction xs arbitrary: pre)
  case (Cons x xs)
  have "dec (pre @ enc x @ concat (map enc xs) @ post) (ilen pre) = Inr (f x, ilen pre + ilen (enc x))"
    using Cons.prems by simp
  moreover have "decode_many dec (length xs) ((pre @ enc x) @ concat (map enc xs) @ post) (ilen (pre @ enc x)) =
      Inr (map f xs, ilen (pre @ enc x) + ilen (concat (map enc xs)))"
    using Cons.prems by (intro Cons.IH) simp
  ultimately show ?case by simp
qed simp

text \<open>
  What a client of a codec relies on: at the position where an encoded value starts, whatever
  surrounds it, the decoder gives the value back and stops right behind it.
\<close>

locale codec =
  fixes enc :: "'a \<Rightarrow> bytes"
    and dec :: "bytes \<Rightarrow> int \<Rightarrow> ('a \<times> int) result"
    and valid :: "'a \<Rightarrow> bool"
  assumes dec_enc:
    "valid x \<Longrightarrow> dec (pre @ enc x @ post) (ilen pre) = Inr (x, ilen pre + ilen (enc x))"
begin

lemma dec_enc_whole: "valid x \<Longrightarrow> dec (enc x) 0 = Inr (x, ilen (enc x))"
  using dec_enc [of x "[]" "[]"] by simp

lemma enc_prefix_free:
  assumes "valid x" and "valid y" and "enc x @ p = enc y @ q"
  shows "x = y \<and> p = q"
proof -
  have "x = y"
    using dec_enc [OF assms(1), of "[]" p] dec_enc [OF assms(2), of "[]" q] assms(3) by simp
  with assms(3) show ?thesis by simp
qed

lemma enc_inj: "valid x \<Longrightarrow> valid y \<Longrightarrow> enc x = enc y \<Longrightarrow> x = y"
  using enc_prefix_free [of x y "[]" "[]"] by simp

lemma decode_many_concat:
  assumes "list_all valid xs"
  shows "decode_many dec (length xs) (pre @ concat (map enc xs) @ post) (ilen pre) =
    Inr (xs, ilen pre + ilen (concat (map enc xs)))"
  using decode_many_map [of xs dec enc "\<lambda>x. x"] dec_enc assms by (simp add: list_all_iff)

end

end
