(* ===== verification/Region.thy ===== *)
theory Region
  imports Py_Prelude
begin

text \<open>
  The interface of an addressable region: a run of cells that is read and written in windows.  The
  linear memory, the tables and the pages of the database are such regions; each theory interprets
  the locale on its own read and write operations, and the laws of reading after writing come from
  here.
\<close>

definition window :: "'a list \<Rightarrow> int \<Rightarrow> int \<Rightarrow> 'a list" where
  "window xs a n = take (nat n) (drop (nat a) xs)"

definition in_region :: "'a list \<Rightarrow> int \<Rightarrow> int \<Rightarrow> bool" where
  "in_region xs a n \<longleftrightarrow> 0 \<le> a \<and> 0 \<le> n \<and> a + n \<le> ilen xs"

lemma in_region_overwrite [simp]:
  "in_region xs a (ilen ys) \<Longrightarrow> in_region (overwrite xs (nat a) ys) b n = in_region xs b n"
  by (auto simp: in_region_def)

lemma window_overwrite_same:
  "in_region xs a (ilen ys) \<Longrightarrow> window (overwrite xs (nat a) ys) a (ilen ys) = ys"
  using overwrite_read_same [of "nat a" ys xs] by (auto simp: in_region_def window_def)

lemma window_overwrite_disjoint:
  "in_region xs a (ilen ys) \<Longrightarrow> in_region xs b n \<Longrightarrow> b + n \<le> a \<or> a + ilen ys \<le> b \<Longrightarrow>
   window (overwrite xs (nat a) ys) b n = window xs b n"
  unfolding window_def by (rule overwrite_read_disjoint) (auto simp: in_region_def)

lemma overwrite_commute:
  assumes "in_region xs a (ilen ys)" and "in_region xs b (ilen zs)"
    and "b + ilen zs \<le> a \<or> a + ilen ys \<le> b"
  shows "overwrite (overwrite xs (nat a) ys) (nat b) zs =
    overwrite (overwrite xs (nat b) zs) (nat a) ys"
  using assms by (intro nth_equalityI) (auto simp: nth_overwrite in_region_def)

lemma overwrite_window: "in_region xs a n \<Longrightarrow> overwrite xs (nat a) (window xs a n) = xs"
  by (intro nth_equalityI) (auto simp: nth_overwrite in_region_def window_def)

lemma length_window [simp]: "in_region xs a n \<Longrightarrow> ilen (window xs a n) = n"
  by (auto simp: in_region_def window_def)

lemma nth_window: "in_region xs a n \<Longrightarrow> int k < n \<Longrightarrow> window xs a n ! k = xs ! (nat a + k)"
  by (auto simp: in_region_def window_def)

lemma py_index_window:
  "in_region xs a n \<Longrightarrow> int k < n \<Longrightarrow> py_index xs (a + int k) = Inr (window xs a n ! k)"
  by (subst py_index_in) (auto simp: nth_window nat_add_distrib in_region_def)

lemma nat_length_window: "in_region xs a n \<Longrightarrow> length (window xs a n) = nat n"
  using length_window [of xs a n] by linarith

locale region =
  fixes wf :: "'s \<Rightarrow> bool"
    and content :: "'s \<Rightarrow> 'a list"
    and rd :: "'s \<Rightarrow> int \<Rightarrow> int \<Rightarrow> 'a list result"
    and wr :: "'s \<Rightarrow> int \<Rightarrow> 'a list \<Rightarrow> unit result \<times> 's"
  assumes rd_in: "wf s \<Longrightarrow> in_region (content s) a n \<Longrightarrow> rd s a n = Inr (window (content s) a n)"
    and wr_in: "wf s \<Longrightarrow> in_region (content s) a (ilen ys) \<Longrightarrow>
      fst (wr s a ys) = Inr () \<and> wf (snd (wr s a ys)) \<and>
      content (snd (wr s a ys)) = overwrite (content s) (nat a) ys"
begin

lemma read_back:
  "wf s \<Longrightarrow> in_region (content s) a (ilen ys) \<Longrightarrow> rd (snd (wr s a ys)) a (ilen ys) = Inr ys"
  by (simp add: rd_in wr_in window_overwrite_same)

lemma read_other:
  "wf s \<Longrightarrow> in_region (content s) a (ilen ys) \<Longrightarrow> in_region (content s) b n \<Longrightarrow>
   b + n \<le> a \<or> a + ilen ys \<le> b \<Longrightarrow> rd (snd (wr s a ys)) b n = rd s b n"
  by (simp add: rd_in wr_in window_overwrite_disjoint)

lemma write_order:
  "wf s \<Longrightarrow> in_region (content s) a (ilen ys) \<Longrightarrow> in_region (content s) b (ilen zs) \<Longrightarrow>
   b + ilen zs \<le> a \<or> a + ilen ys \<le> b \<Longrightarrow>
   content (snd (wr (snd (wr s a ys)) b zs)) = content (snd (wr (snd (wr s b zs)) a ys))"
  by (simp add: wr_in) (rule overwrite_commute)

lemma write_back_read:
  "wf s \<Longrightarrow> in_region (content s) a n \<Longrightarrow> rd s a n = Inr ys \<Longrightarrow>
   content (snd (wr s a ys)) = content s"
  by (auto simp: rd_in wr_in overwrite_window)

lemma write_length:
  "wf s \<Longrightarrow> in_region (content s) a (ilen ys) \<Longrightarrow>
   length (content (snd (wr s a ys))) = length (content s)"
  by (auto simp: wr_in in_region_def)

end

end
