(* ===== verification/DbPage.thy ===== *)
theory DbPage
  imports Py_Struct Region
begin

text \<open>
  The pages of the database, \<^verbatim>\<open>database/src/storage/page.py\<close>: page identifiers, the page header and
  the data area.  A page is a record with the attributes of the class; \<^verbatim>\<open>__repr__\<close> is left out.
\<close>

section \<open>Page types and identifiers\<close>

datatype page_type =
    FREE | BTREE_NODE | BTREE_LEAF | BTREE_INTERNAL | BTREE_ROOT | CATALOG | WAL_PAGE | CHECKPOINT
  | OVERFLOW | VECTOR_PAGE | DOCUMENT_PAGE | META_PAGE

fun page_type_code :: "page_type \<Rightarrow> int" where
  "page_type_code FREE = 0"
| "page_type_code BTREE_NODE = 1"
| "page_type_code BTREE_LEAF = 2"
| "page_type_code BTREE_INTERNAL = 3"
| "page_type_code BTREE_ROOT = 4"
| "page_type_code CATALOG = 5"
| "page_type_code WAL_PAGE = 6"
| "page_type_code CHECKPOINT = 7"
| "page_type_code OVERFLOW = 8"
| "page_type_code VECTOR_PAGE = 9"
| "page_type_code DOCUMENT_PAGE = 10"
| "page_type_code META_PAGE = 11"

text \<open>\<^verbatim>\<open>PageType(n)\<close>.\<close>

definition page_type_of :: "int \<Rightarrow> page_type result" where
  "page_type_of n =
     (case find (\<lambda>t. page_type_code t = n)
        [FREE, BTREE_NODE, BTREE_LEAF, BTREE_INTERNAL, BTREE_ROOT, CATALOG, WAL_PAGE, CHECKPOINT,
         OVERFLOW, VECTOR_PAGE, DOCUMENT_PAGE, META_PAGE] of
        None \<Rightarrow> Inl ValueError
      | Some t \<Rightarrow> Inr t)"

record page_id =
  pid_page_num :: int
  pid_table_id :: int

definition page_id_to_bytes :: "page_id \<Rightarrow> bytes result" where
  "page_id_to_bytes pid =
     struct_pack [(4, pack_uint True 4 (pid_table_id pid)), (4, pack_uint True 4 (pid_page_num pid))]"

definition page_id_from_bytes :: "bytes \<Rightarrow> int \<Rightarrow> (page_id \<times> int) result" where
  "page_id_from_bytes data offset =
     res_bind (unpack_from data offset 8) (\<lambda>w.
       Inr (\<lparr>pid_page_num = unpack_uint True (take 4 (drop 4 w)), pid_table_id = unpack_uint True (take 4 w)\<rparr>,
            offset + 8))"

section \<open>Pages\<close>

record page =
  pg_id :: page_id
  pg_type :: page_type
  pg_size :: int
  pg_dirty :: bool
  pg_pin_count :: int
  pg_flags :: int
  pg_version :: int
  pg_data :: bytes
  pg_free_offset :: int

definition HEADER_SIZE :: int where
  "HEADER_SIZE = 24"

text \<open>The fields of \<^verbatim>\<open>HEADER_FORMAT = "!IIHHII"\<close>, twenty bytes.\<close>

definition header_items :: "page \<Rightarrow> (nat \<times> bytes result) list" where
  "header_items p =
     [(4, pack_uint True 4 (pid_page_num (pg_id p))),
      (4, pack_uint True 4 (pid_table_id (pg_id p))),
      (2, pack_uint True 2 (page_type_code (pg_type p))),
      (2, pack_uint True 2 (pg_free_offset p)),
      (4, pack_uint True 4 (pg_flags p)),
      (4, pack_uint True 4 (pg_version p))]"

definition write_header :: "page \<Rightarrow> unit result \<times> page" where
  "write_header p =
     (let (r, data) = pack_into (pg_data p) 0 (header_items p) in (r, p\<lparr>pg_data := data\<rparr>))"

definition read_header :: "page \<Rightarrow> unit result \<times> page" where
  "read_header p =
     (case unpack_from (pg_data p) 0 20 of
        Inl e \<Rightarrow> (Inl e, p)
      | Inr h \<Rightarrow>
          let p' = p\<lparr>pg_free_offset := unpack_uint True (take 2 (drop 10 h)),
                     pg_flags := unpack_uint True (take 4 (drop 12 h)),
                     pg_version := unpack_uint True (take 4 (drop 16 h)),
                     pg_id := \<lparr>pid_page_num = unpack_uint True (take 4 h),
                               pid_table_id = unpack_uint True (take 4 (drop 4 h))\<rparr>\<rparr>
          in (case page_type_of (unpack_uint True (take 2 (drop 8 h))) of
                Inl e \<Rightarrow> (Inl e, p')
              | Inr t \<Rightarrow> (Inr (), p'\<lparr>pg_type := t\<rparr>)))"

text \<open>\<^verbatim>\<open>bytearray(n)\<close> refuses a negative size.\<close>

definition page_new :: "page_id \<Rightarrow> page_type \<Rightarrow> int \<Rightarrow> page result" where
  "page_new pid ptype psize =
     (if psize < 0 then Inl ValueError
      else
        let (r, p) = write_header
          \<lparr>pg_id = pid, pg_type = ptype, pg_size = psize, pg_dirty = False, pg_pin_count = 0,
           pg_flags = 0, pg_version = 1, pg_data = py_repeat 0 psize, pg_free_offset = HEADER_SIZE\<rparr>
        in res_bind r (\<lambda>_. Inr p))"

text \<open>
  \<^verbatim>\<open>cls.__new__(cls)\<close> leaves the attributes that the header will set undefined; the placeholder
  values here are overwritten by \<^verbatim>\<open>_read_header\<close> before the page is returned.
\<close>

definition page_from_bytes :: "bytes \<Rightarrow> int \<Rightarrow> page result" where
  "page_from_bytes data psize =
     (let (r, p) = read_header
        \<lparr>pg_id = \<lparr>pid_page_num = 0, pid_table_id = 0\<rparr>, pg_type = FREE, pg_size = psize,
         pg_dirty = False, pg_pin_count = 0, pg_flags = 0, pg_version = 0, pg_data = data,
         pg_free_offset = 0\<rparr>
      in res_bind r (\<lambda>_. Inr p))"

definition page_to_bytes :: "page \<Rightarrow> bytes result \<times> page" where
  "page_to_bytes p = (let (r, p') = write_header p in (res_bind r (\<lambda>_. Inr (pg_data p')), p'))"

definition free_space :: "page \<Rightarrow> int" where
  "free_space p = pg_size p - pg_free_offset p"

definition set_free_offset :: "page \<Rightarrow> int \<Rightarrow> page" where
  "set_free_offset p offset = p\<lparr>pg_free_offset := offset, pg_dirty := True\<rparr>"

definition write_data :: "page \<Rightarrow> int \<Rightarrow> bytes \<Rightarrow> unit result \<times> page" where
  "write_data p offset data =
     (let end_pos = offset + ilen data
      in if end_pos > pg_size p then (Inl ValueError, p)
         else (Inr (), p\<lparr>pg_data := py_slice_assign (pg_data p) offset end_pos data, pg_dirty := True\<rparr>))"

definition read_data :: "page \<Rightarrow> int \<Rightarrow> int \<Rightarrow> bytes result" where
  "read_data p offset len =
     (let end_pos = offset + len
      in if end_pos > pg_size p then Inl ValueError
         else Inr (py_slice (pg_data p) offset end_pos))"

definition append_data :: "page \<Rightarrow> bytes \<Rightarrow> int result \<times> page" where
  "append_data p data =
     (if ilen data > free_space p then (Inl ValueError, p)
      else
        let offset = pg_free_offset p
        in (Inr offset,
            p\<lparr>pg_data := py_slice_assign (pg_data p) offset (offset + ilen data) data,
              pg_free_offset := pg_free_offset p + ilen data, pg_dirty := True\<rparr>))"

definition page_clear :: "page \<Rightarrow> page" where
  "page_clear p =
     p\<lparr>pg_data := py_slice_assign (pg_data p) HEADER_SIZE (ilen (pg_data p))
                   (py_repeat 0 (pg_size p - HEADER_SIZE)),
       pg_free_offset := HEADER_SIZE, pg_dirty := True\<rparr>"

definition pin :: "page \<Rightarrow> page" where
  "pin p = p\<lparr>pg_pin_count := pg_pin_count p + 1\<rparr>"

definition unpin :: "page \<Rightarrow> page" where
  "unpin p = (if pg_pin_count p > 0 then p\<lparr>pg_pin_count := pg_pin_count p - 1\<rparr> else p)"

definition is_pinned :: "page \<Rightarrow> bool" where
  "is_pinned p \<longleftrightarrow> pg_pin_count p > 0"

section \<open>The data area as a region\<close>

definition page_sized :: "page \<Rightarrow> bool" where
  "page_sized p \<longleftrightarrow> ilen (pg_data p) = pg_size p"

interpretation pg: region page_sized pg_data read_data write_data
proof unfold_locales
  fix p :: page and a n :: int
  assume "page_sized p" "in_region (pg_data p) a n"
  then show "read_data p a n = Inr (window (pg_data p) a n)"
    by (simp add: read_data_def page_sized_def in_region_def py_slice_in window_def)
next
  fix p :: page and a :: int and bs :: bytes
  assume "page_sized p" "in_region (pg_data p) a (ilen bs)"
  then show "fst (write_data p a bs) = Inr () \<and> page_sized (snd (write_data p a bs)) \<and>
      pg_data (snd (write_data p a bs)) = overwrite (pg_data p) (nat a) bs"
    by (auto simp: write_data_def page_sized_def in_region_def py_slice_assign_overwrite)
qed

section \<open>The header\<close>

lemma page_type_of_code [simp]: "page_type_of (page_type_code t) = Inr t"
  by (cases t) (simp_all add: page_type_of_def)

lemma page_type_code_bounds: "0 \<le> page_type_code t" "page_type_code t < 256 ^ 2"
  by (cases t; simp)+

text \<open>The values that fit the header fields.\<close>

definition header_fits :: "page \<Rightarrow> bool" where
  "header_fits p \<longleftrightarrow>
     0 \<le> pid_page_num (pg_id p) \<and> pid_page_num (pg_id p) < 2 ^ 32 \<and>
     0 \<le> pid_table_id (pg_id p) \<and> pid_table_id (pg_id p) < 2 ^ 32 \<and>
     0 \<le> pg_free_offset p \<and> pg_free_offset p < 2 ^ 16 \<and>
     0 \<le> pg_flags p \<and> pg_flags p < 2 ^ 32 \<and> 0 \<le> pg_version p \<and> pg_version p < 2 ^ 32"

definition header_bytes :: "page \<Rightarrow> bytes" where
  "header_bytes p =
     rev (le_bytes 4 (pid_page_num (pg_id p))) @ rev (le_bytes 4 (pid_table_id (pg_id p))) @
     rev (le_bytes 2 (page_type_code (pg_type p))) @ rev (le_bytes 2 (pg_free_offset p)) @
     rev (le_bytes 4 (pg_flags p)) @ rev (le_bytes 4 (pg_version p))"

lemma length_header_bytes [simp]: "length (header_bytes p) = 20"
  by (simp add: header_bytes_def)

lemma pack_items_header:
  "header_fits p \<Longrightarrow> pack_items (header_items p) = (Inr (), header_bytes p)"
  using page_type_code_bounds [of "pg_type p"]
  by (simp add: header_items_def header_bytes_def header_fits_def pack_uint_def byte_order_def)

lemma header_items_size [simp]: "sum_list (map fst (header_items p)) = 20"
  by (simp add: header_items_def)

lemma write_header_eq:
  "header_fits p \<Longrightarrow> 20 \<le> length (pg_data p) \<Longrightarrow>
   write_header p = (Inr (), p\<lparr>pg_data := overwrite (pg_data p) 0 (header_bytes p)\<rparr>)"
  by (simp add: write_header_def pack_into_in pack_items_header)

lemma be_uint: "0 \<le> v \<Longrightarrow> v < 256 ^ n \<Longrightarrow> unpack_uint True (rev (le_bytes n v)) = v"
  by (simp add: unpack_uint_def byte_order_def le_int_le_bytes)

lemma header_fields:
  "take 4 (header_bytes p) = rev (le_bytes 4 (pid_page_num (pg_id p)))"
  "take 4 (drop 4 (header_bytes p)) = rev (le_bytes 4 (pid_table_id (pg_id p)))"
  "take 2 (drop 8 (header_bytes p)) = rev (le_bytes 2 (page_type_code (pg_type p)))"
  "take 2 (drop 10 (header_bytes p)) = rev (le_bytes 2 (pg_free_offset p))"
  "take 4 (drop 12 (header_bytes p)) = rev (le_bytes 4 (pg_flags p))"
  "take 4 (drop 16 (header_bytes p)) = rev (le_bytes 4 (pg_version p))"
  by (simp_all add: header_bytes_def)

text \<open>What a page in memory and a page read back from its bytes have in common.\<close>

definition reloaded :: "page \<Rightarrow> int \<Rightarrow> bytes \<Rightarrow> page" where
  "reloaded p psize data = p\<lparr>pg_size := psize, pg_dirty := False, pg_pin_count := 0, pg_data := data\<rparr>"

lemma page_from_header_bytes:
  assumes "header_fits p" and "20 \<le> length data" and "take 20 data = header_bytes p"
  shows "page_from_bytes data psize = Inr (reloaded p psize data)"
proof -
  have "unpack_from data 0 20 = Inr (header_bytes p)"
    using assms(2,3) by (simp add: unpack_from_in)
  then show ?thesis
    using assms(1) page_type_code_bounds [of "pg_type p"]
    by (simp add: page_from_bytes_def read_header_def header_fields be_uint header_fits_def reloaded_def)
qed

text \<open>
  Page round trip: a page whose fields fit the header serialises to a buffer of its own length,
  changes nothing but its first twenty bytes, and \<^verbatim>\<open>from_bytes\<close> on that buffer restores
  identifier, type, free offset, flags, version and data, clean and unpinned.
\<close>
theorem page_roundtrip:
  assumes "header_fits p" and "page_sized p" and "20 \<le> pg_size p"
  shows "\<exists>bs. fst (page_to_bytes p) = Inr bs \<and> ilen bs = pg_size p \<and> drop 20 bs = drop 20 (pg_data p) \<and>
    page_from_bytes bs (pg_size p) = Inr (p\<lparr>pg_dirty := False, pg_pin_count := 0, pg_data := bs\<rparr>)"
proof -
  let ?bs = "overwrite (pg_data p) 0 (header_bytes p)"
  have len: "20 \<le> length (pg_data p)" using assms(2,3) by (simp add: page_sized_def)
  have "fst (page_to_bytes p) = Inr ?bs"
    using write_header_eq [OF assms(1) len] by (simp add: page_to_bytes_def)
  moreover have "ilen ?bs = pg_size p" using len assms(2) by (simp add: page_sized_def)
  moreover have "drop 20 ?bs = drop 20 (pg_data p)" by (simp add: overwrite_def)
  moreover have "page_from_bytes ?bs (pg_size p) = Inr (reloaded p (pg_size p) ?bs)"
    using len by (intro page_from_header_bytes [OF assms(1)]) (simp_all add: overwrite_def)
  ultimately show ?thesis by (auto simp: reloaded_def)
qed

theorem page_roundtrip_witness:
  "\<exists>bs. page_from_bytes bs 20 = Inr \<lparr>pg_id = \<lparr>pid_page_num = 7, pid_table_id = 3\<rparr>,
     pg_type = CATALOG, pg_size = 20, pg_dirty = False, pg_pin_count = 0, pg_flags = 0,
     pg_version = 1, pg_data = bs, pg_free_offset = 20\<rparr>"
  using page_roundtrip [of "\<lparr>pg_id = \<lparr>pid_page_num = 7, pid_table_id = 3\<rparr>, pg_type = CATALOG,
     pg_size = 20, pg_dirty = True, pg_pin_count = 2, pg_flags = 0, pg_version = 1,
     pg_data = replicate 20 0, pg_free_offset = 20\<rparr>"]
  by (auto simp: header_fits_def page_sized_def)

section \<open>Appending\<close>

definition page_inv :: "page \<Rightarrow> bool" where
  "page_inv p \<longleftrightarrow> page_sized p \<and> HEADER_SIZE \<le> pg_free_offset p \<and> pg_free_offset p \<le> pg_size p"

lemma append_data_eq:
  assumes "page_inv p"
  shows "append_data p data =
    (if ilen data \<le> free_space p
     then (Inr (pg_free_offset p),
       p\<lparr>pg_data := overwrite (pg_data p) (nat (pg_free_offset p)) data,
         pg_free_offset := pg_free_offset p + ilen data, pg_dirty := True\<rparr>)
     else (Inl ValueError, p))"
  using assms
  by (auto simp: append_data_def page_inv_def page_sized_def free_space_def HEADER_SIZE_def
      py_slice_assign_overwrite Let_def)

lemma append_data_inv: "page_inv p \<Longrightarrow> page_inv (snd (append_data p data))"
  by (auto simp: append_data_eq) (auto simp: page_inv_def page_sized_def free_space_def HEADER_SIZE_def)

text \<open>Appending a list of records, with the offset each call returned.\<close>

fun append_all :: "bytes list \<Rightarrow> page \<Rightarrow> int list result \<times> page" where
  "append_all [] p = (Inr [], p)"
| "append_all (r # rs) p =
     (case append_data p r of
        (Inl e, p') \<Rightarrow> (Inl e, p')
      | (Inr off, p') \<Rightarrow>
          (case append_all rs p' of (res, p'') \<Rightarrow> (res_bind res (\<lambda>offs. Inr (off # offs)), p'')))"

text \<open>
  Later appends keep what lies below the free offset; every record is found at its own offset.
\<close>

lemma append_all_keeps:
  assumes "page_inv p" and "append_all rs p = (Inr offs, p')"
  shows "page_inv p' \<and> pg_size p' = pg_size p \<and> pg_free_offset p \<le> pg_free_offset p' \<and>
    take (nat (pg_free_offset p)) (pg_data p') = take (nat (pg_free_offset p)) (pg_data p) \<and>
    length offs = length rs \<and>
    (\<forall>i < length rs. read_data p' (offs ! i) (ilen (rs ! i)) = Inr (rs ! i) \<and>
       pg_free_offset p \<le> offs ! i \<and> offs ! i + ilen (rs ! i) \<le> pg_free_offset p')"
  using assms
proof (induction rs arbitrary: p offs)
  case (Cons r rs)
  define off where "off = pg_free_offset p"
  define q where "q = snd (append_data p r)"
  have fits: "ilen r \<le> free_space p"
    using Cons.prems by (auto simp: append_data_eq split: if_splits)
  then have ap: "append_data p r = (Inr off, q)"
    using Cons.prems(1) by (simp add: append_data_eq q_def off_def)
  have q: "pg_data q = overwrite (pg_data p) (nat off) r" "pg_free_offset q = off + ilen r"
      "pg_size q = pg_size p"
    using Cons.prems(1) fits by (simp_all add: append_data_eq q_def off_def)
  have off: "0 \<le> off" "nat off + length r \<le> length (pg_data p)"
    using Cons.prems(1) fits
    by (auto simp: page_inv_def page_sized_def off_def HEADER_SIZE_def free_space_def)
  have qi: "page_inv q" unfolding q_def by (rule append_data_inv [OF Cons.prems(1)])
  from Cons.prems(2) ap obtain offs' where offs: "offs = off # offs'" "append_all rs q = (Inr offs', p')"
    by (auto simp: res_bind_eq_Inr split: prod.splits)
  note IH = Cons.IH [OF qi offs(2)]
  have upto: "take (nat off + length r) (pg_data p') = take (nat off) (pg_data p) @ r"
  proof -
    have "nat (pg_free_offset q) = nat off + length r" using off(1) q(2) by simp
    then have "take (nat off + length r) (pg_data p') = take (nat off + length r) (pg_data q)"
      using IH by simp
    also have "\<dots> = take (nat off) (pg_data p) @ r"
      using off(2) unfolding q(1) overwrite_def by simp
    finally show ?thesis .
  qed
  have low: "take (nat off) (pg_data p') = take (nat off) (pg_data p)"
    using arg_cong [OF upto, of "take (nat off)"] off(2) by simp
  have hd: "read_data p' off (ilen r) = Inr r"
  proof -
    have w: "in_region (pg_data p') off (ilen r)"
      using IH q off(1) by (auto simp: in_region_def page_inv_def page_sized_def)
    have "window (pg_data p') off (ilen r) = drop (nat off) (take (nat off + length r) (pg_data p'))"
      by (simp add: window_def drop_take)
    also have "\<dots> = r" using upto off(2) by simp
    finally show ?thesis using pg.rd_in [OF _ w] IH by (simp add: page_inv_def)
  qed
  show ?case
    using IH low hd q offs(1) unfolding off_def [symmetric]
    by (auto simp: nth_Cons' less_Suc_eq_0_disj)
qed auto

lemma append_all_result:
  "page_inv p \<Longrightarrow>
   (\<not> ilen (concat rs) \<le> free_space p \<longrightarrow> fst (append_all rs p) = Inl ValueError) \<and>
   (ilen (concat rs) \<le> free_space p \<longrightarrow> (\<exists>offs. fst (append_all rs p) = Inr offs))"
proof (induction rs arbitrary: p)
  case (Cons r rs)
  show ?case
  proof (cases "ilen r \<le> free_space p")
    case True
    define q where "q = snd (append_data p r)"
    have ap: "append_data p r = (Inr (pg_free_offset p), q)"
      using True Cons.prems by (simp add: append_data_eq q_def)
    have fs: "free_space q = free_space p - ilen r"
      using True Cons.prems by (simp add: append_data_eq q_def free_space_def)
    have "page_inv q" unfolding q_def by (rule append_data_inv [OF Cons.prems])
    from Cons.IH [OF this] show ?thesis
      using ap fs by (cases "append_all rs q") (auto simp: algebra_simps split: if_splits)
  next
    case False
    then show ?thesis using Cons.prems by (auto simp: append_data_eq)
  qed
qed (simp add: page_inv_def free_space_def)

text \<open>
  The page as an append-only log: a run of \<^verbatim>\<open>append_data\<close> calls succeeds exactly when the
  records fit in the free space together, and then every record can be read back at the offset its
  call returned, behind the header and below the new free offset; when they do not fit, the first
  record that is too long raises \<^verbatim>\<open>ValueError\<close>.  The page invariant holds afterwards.
\<close>
theorem append_data_log:
  assumes "page_inv p"
  shows "if ilen (concat rs) \<le> free_space p
    then \<exists>offs p'. append_all rs p = (Inr offs, p') \<and> page_inv p' \<and> length offs = length rs \<and>
      (\<forall>i < length rs. read_data p' (offs ! i) (ilen (rs ! i)) = Inr (rs ! i) \<and>
        HEADER_SIZE \<le> offs ! i \<and> offs ! i + ilen (rs ! i) \<le> pg_free_offset p')
    else fst (append_all rs p) = Inl ValueError"
proof (cases "ilen (concat rs) \<le> free_space p")
  case True
  with append_all_result [OF assms, of rs] obtain offs p' where ap: "append_all rs p = (Inr offs, p')"
    by (metis prod.collapse)
  from append_all_keeps [OF assms ap] ap assms True show ?thesis
    by (fastforce simp: page_inv_def)
next
  case False
  then show ?thesis using append_all_result [OF assms, of rs] by simp
qed

theorem append_data_log_witness:
  "\<exists>offs p'. append_all [[1, 2], [3]] \<lparr>pg_id = \<lparr>pid_page_num = 7, pid_table_id = 3\<rparr>,
     pg_type = CATALOG, pg_size = 32, pg_dirty = False, pg_pin_count = 0, pg_flags = 0,
     pg_version = 1, pg_data = replicate 32 0, pg_free_offset = 24\<rparr> = (Inr offs, p') \<and>
     read_data p' (offs ! 1) 1 = Inr [3]"
proof -
  let ?p = "\<lparr>pg_id = \<lparr>pid_page_num = 7, pid_table_id = 3\<rparr>,
     pg_type = CATALOG, pg_size = 32, pg_dirty = False, pg_pin_count = 0, pg_flags = 0,
     pg_version = 1, pg_data = replicate 32 0, pg_free_offset = 24\<rparr>"
  let ?rs = "[[1, 2], [3]] :: bytes list"
  have inv: "page_inv ?p" "ilen (concat ?rs) \<le> free_space ?p"
    by (simp_all add: page_inv_def page_sized_def HEADER_SIZE_def free_space_def)
  have "\<exists>offs p'. append_all ?rs ?p = (Inr offs, p') \<and> page_inv p' \<and>
      length offs = length ?rs \<and>
      (\<forall>i < length ?rs.
        read_data p' (offs ! i) (ilen (?rs ! i)) = Inr (?rs ! i) \<and>
        HEADER_SIZE \<le> offs ! i \<and> offs ! i + ilen (?rs ! i) \<le> pg_free_offset p')"
    using append_data_log [OF inv(1), of ?rs] by (simp only: inv(2) if_True)
  then obtain offs p' where "append_all ?rs ?p = (Inr offs, p')"
    "\<forall>i < length ?rs.
      read_data p' (offs ! i) (ilen (?rs ! i)) = Inr (?rs ! i) \<and>
      HEADER_SIZE \<le> offs ! i \<and> offs ! i + ilen (?rs ! i) \<le> pg_free_offset p'"
    by (elim exE conjE)
  moreover from spec [OF this(2), of 1] have "read_data p' (offs ! 1) 1 = Inr [3]" by simp
  ultimately show ?thesis by blast
qed

end
