(* ===== verification/BufferPool.thy ===== *)
theory BufferPool
  imports DbPage "HOL-Library.AList"
begin

text \<open>
  The buffer pool of the database, \<^verbatim>\<open>database/src/storage/buffer.py\<close>: the page cache with
  CLOCK-sweep replacement.  All methods run under the pool's re-entrant lock, so each call is one
  atomic step.  The page objects are shared with the callers; the slots of the model hold their
  current contents, and a caller's own change of a page is a step of its own (see the step relation).
  The dictionary of page identifiers is an association list in insertion order; the set of dirty
  slots is a set, and the order in which \<^verbatim>\<open>flush_all\<close> enumerates it is an argument.  The float
  \<^verbatim>\<open>hit_ratio\<close> and \<^verbatim>\<open>__repr__\<close> are left out.
\<close>

section \<open>State and operations\<close>

record pool_stats =
  st_hits :: int
  st_misses :: int
  st_evictions :: int
  st_reads :: int
  st_writes :: int

record pool =
  bp_capacity :: int
  bp_page_size :: int
  bp_pages :: "page option list"
  bp_page_ids :: "(page_id \<times> int) list"
  bp_clock_hand :: int
  bp_clock_refs :: "bool list"
  bp_dirty_pages :: "int set"
  bp_stats :: pool_stats

definition pool_new :: "int \<Rightarrow> int \<Rightarrow> pool" where
  "pool_new capacity page_size =
     \<lparr>bp_capacity = capacity, bp_page_size = page_size, bp_pages = py_repeat None capacity,
      bp_page_ids = [], bp_clock_hand = 0, bp_clock_refs = py_repeat False capacity,
      bp_dirty_pages = {},
      bp_stats = \<lparr>st_hits = 0, st_misses = 0, st_evictions = 0, st_reads = 0, st_writes = 0\<rparr>\<rparr>"

definition pool_size :: "pool \<Rightarrow> int" where
  "pool_size s = ilen (bp_page_ids s)"

definition pool_hits :: "pool \<Rightarrow> int" where
  "pool_hits s = st_hits (bp_stats s)"

definition pool_misses :: "pool \<Rightarrow> int" where
  "pool_misses s = st_misses (bp_stats s)"

text \<open>The page object in a slot has changed.\<close>

definition put_page :: "pool \<Rightarrow> int \<Rightarrow> page option \<Rightarrow> pool" where
  "put_page s idx p = s\<lparr>bp_pages := (bp_pages s)[nat idx := p]\<rparr>"

definition count_hit :: "pool \<Rightarrow> pool" where
  "count_hit s = s\<lparr>bp_stats := (bp_stats s)\<lparr>st_hits := st_hits (bp_stats s) + 1\<rparr>\<rparr>"

definition count_miss :: "pool \<Rightarrow> pool" where
  "count_miss s = s\<lparr>bp_stats := (bp_stats s)\<lparr>st_misses := st_misses (bp_stats s) + 1\<rparr>\<rparr>"

definition count_eviction :: "pool \<Rightarrow> pool" where
  "count_eviction s = s\<lparr>bp_stats := (bp_stats s)\<lparr>st_evictions := st_evictions (bp_stats s) + 1\<rparr>\<rparr>"

definition count_read :: "pool \<Rightarrow> pool" where
  "count_read s = s\<lparr>bp_stats := (bp_stats s)\<lparr>st_reads := st_reads (bp_stats s) + 1\<rparr>\<rparr>"

definition count_write :: "pool \<Rightarrow> pool" where
  "count_write s = s\<lparr>bp_stats := (bp_stats s)\<lparr>st_writes := st_writes (bp_stats s) + 1\<rparr>\<rparr>"

definition fetch_page :: "pool \<Rightarrow> page_id \<Rightarrow> page option result \<times> pool" where
  "fetch_page s pid =
     (case map_of (bp_page_ids s) pid of
        None \<Rightarrow> (Inr None, count_miss s)
      | Some idx \<Rightarrow>
          (case py_update (bp_clock_refs s) idx True of
             Inl e \<Rightarrow> (Inl e, s)
           | Inr refs \<Rightarrow>
               let s1 = s\<lparr>bp_clock_refs := refs\<rparr>
               in (case py_index (bp_pages s1) idx of
                     Inl e \<Rightarrow> (Inl e, s1)
                   | Inr None \<Rightarrow> (Inr None, count_miss s1)
                   | Inr (Some p) \<Rightarrow> (Inr (Some (pin p)), count_hit (put_page s1 idx (Some (pin p)))))))"

definition get_page :: "pool \<Rightarrow> page_id \<Rightarrow> page option result" where
  "get_page s pid =
     (case map_of (bp_page_ids s) pid of
        None \<Rightarrow> Inr None
      | Some idx \<Rightarrow> py_index (bp_pages s) idx)"

text \<open>One round of the \<^verbatim>\<open>while True\<close> of \<^verbatim>\<open>_evict_page\<close>: go on, or leave the loop.\<close>

datatype evict_outcome = Continue pool | Done "unit result" pool

definition evict_step :: "pool \<Rightarrow> evict_outcome" where
  "evict_step s =
     (let idx = bp_clock_hand s
      in if bp_capacity s = 0 then Done (Inl ZeroDivisionError) s
         else
           let s1 = s\<lparr>bp_clock_hand := (bp_clock_hand s + 1) mod bp_capacity s\<rparr>
           in (case py_index (bp_pages s1) idx of
                 Inl e \<Rightarrow> Done (Inl e) s1
               | Inr None \<Rightarrow> Done (Inr ()) s1
               | Inr (Some p) \<Rightarrow>
                   if is_pinned p then Continue s1
                   else
                     (case py_index (bp_clock_refs s1) idx of
                        Inl e \<Rightarrow> Done (Inl e) s1
                      | Inr True \<Rightarrow> Continue (s1\<lparr>bp_clock_refs := (bp_clock_refs s1)[nat idx := False]\<rparr>)
                      | Inr False \<Rightarrow>
                          let s2 = (if pg_dirty p then count_write s1 else s1);
                              s3 = s2\<lparr>bp_page_ids := AList.delete (pg_id p) (bp_page_ids s2)\<rparr>;
                              s4 = put_page s3 idx None;
                              s5 = s4\<lparr>bp_dirty_pages := bp_dirty_pages s4 - {idx}\<rparr>
                          in Done (Inr ()) (count_eviction s5))))"

text \<open>The loop; \<^const>\<open>None\<close> stands for not returning.\<close>

partial_function (option) evict_page :: "pool \<Rightarrow> (unit result \<times> pool) option" where
  "evict_page s =
     (case evict_step s of
        Continue s' \<Rightarrow> evict_page s'
      | Done r s' \<Rightarrow> Some (r, s'))"

fun find_slot_loop :: "int list \<Rightarrow> pool \<Rightarrow> int result" where
  "find_slot_loop [] s = Inl RuntimeError"
| "find_slot_loop (i # is) s =
     (case py_index (bp_pages s) i of
        Inl e \<Rightarrow> Inl e
      | Inr None \<Rightarrow> Inr i
      | Inr (Some _) \<Rightarrow> find_slot_loop is s)"

definition find_slot :: "pool \<Rightarrow> int result" where
  "find_slot s = find_slot_loop (map int [0..<nat (bp_capacity s)]) s"

definition insert_page :: "pool \<Rightarrow> page \<Rightarrow> (page result \<times> pool) option" where
  "insert_page s p =
     (if map_of (bp_page_ids s) (pg_id p) \<noteq> None then Some (Inl ValueError, s)
      else
        case (if pool_size s \<ge> bp_capacity s then evict_page s else Some (Inr (), s)) of
          None \<Rightarrow> None
        | Some (Inl e, s1) \<Rightarrow> Some (Inl e, s1)
        | Some (Inr _, s1) \<Rightarrow>
            (case find_slot s1 of
               Inl e \<Rightarrow> Some (Inl e, s1)
             | Inr idx \<Rightarrow>
                 let s2 = put_page s1 idx (Some (pin p));
                     s3 = s2\<lparr>bp_page_ids := AList.update (pg_id p) idx (bp_page_ids s2)\<rparr>
                 in (case py_update (bp_clock_refs s3) idx True of
                       Inl e \<Rightarrow> Some (Inl e, s3)
                     | Inr refs \<Rightarrow> Some (Inr (pin p), count_read (s3\<lparr>bp_clock_refs := refs\<rparr>)))))"

definition unpin_page :: "pool \<Rightarrow> page_id \<Rightarrow> unit result \<times> pool" where
  "unpin_page s pid =
     (case map_of (bp_page_ids s) pid of
        None \<Rightarrow> (Inr (), s)
      | Some idx \<Rightarrow>
          (case py_index (bp_pages s) idx of
             Inl e \<Rightarrow> (Inl e, s)
           | Inr None \<Rightarrow> (Inr (), s)
           | Inr (Some p) \<Rightarrow> (Inr (), put_page s idx (Some (unpin p)))))"

definition mark_dirty :: "pool \<Rightarrow> page_id \<Rightarrow> unit result \<times> pool" where
  "mark_dirty s pid =
     (case map_of (bp_page_ids s) pid of
        None \<Rightarrow> (Inr (), s)
      | Some idx \<Rightarrow>
          let s1 = s\<lparr>bp_dirty_pages := insert idx (bp_dirty_pages s)\<rparr>
          in (case py_index (bp_pages s1) idx of
                Inl e \<Rightarrow> (Inl e, s1)
              | Inr None \<Rightarrow> (Inr (), s1)
              | Inr (Some p) \<Rightarrow> (Inr (), put_page s1 idx (Some (p\<lparr>pg_dirty := True\<rparr>)))))"

definition flush_page :: "pool \<Rightarrow> page_id \<Rightarrow> bytes option result \<times> pool" where
  "flush_page s pid =
     (case map_of (bp_page_ids s) pid of
        None \<Rightarrow> (Inr None, s)
      | Some idx \<Rightarrow>
          if idx \<notin> bp_dirty_pages s then (Inr None, s)
          else
            (case py_index (bp_pages s) idx of
               Inl e \<Rightarrow> (Inl e, s)
             | Inr None \<Rightarrow> (Inr None, s)
             | Inr (Some p) \<Rightarrow>
                 if \<not> pg_dirty p then (Inr None, s)
                 else
                   let s1 = count_write (s\<lparr>bp_dirty_pages := bp_dirty_pages s - {idx}\<rparr>);
                       (r, p') = page_to_bytes (p\<lparr>pg_dirty := False\<rparr>)
                   in (res_bind r (\<lambda>bs. Inr (Some bs)), put_page s1 idx (Some p'))))"

text \<open>The loop of \<^verbatim>\<open>flush_all\<close> over the enumeration of the dirty slots.\<close>

fun flush_loop :: "int list \<Rightarrow> pool \<Rightarrow> (page_id \<times> bytes) list result \<times> pool" where
  "flush_loop [] s = (Inr [], s)"
| "flush_loop (idx # is) s =
     (case py_index (bp_pages s) idx of
        Inl e \<Rightarrow> (Inl e, s)
      | Inr None \<Rightarrow> flush_loop is s
      | Inr (Some p) \<Rightarrow>
          if \<not> pg_dirty p then flush_loop is s
          else
            (case page_to_bytes (p\<lparr>pg_dirty := False\<rparr>) of
               (Inl e, p') \<Rightarrow> (Inl e, put_page (count_write s) idx (Some p'))
             | (Inr bs, p') \<Rightarrow>
                 (case flush_loop is (put_page (count_write s) idx (Some p')) of
                    (r, s') \<Rightarrow> (res_bind r (\<lambda>rest. Inr ((pg_id p, bs) # rest)), s'))))"

definition flush_all :: "int list \<Rightarrow> pool \<Rightarrow> (page_id \<times> bytes) list result \<times> pool" where
  "flush_all order s =
     (case flush_loop order s of
        (Inl e, s') \<Rightarrow> (Inl e, s')
      | (Inr xs, s') \<Rightarrow> (Inr xs, s'\<lparr>bp_dirty_pages := {}\<rparr>))"

definition remove_page :: "pool \<Rightarrow> page_id \<Rightarrow> bytes option result \<times> pool" where
  "remove_page s pid =
     (case map_of (bp_page_ids s) pid of
        None \<Rightarrow> (Inr None, s)
      | Some idx \<Rightarrow>
          let s1 = s\<lparr>bp_page_ids := AList.delete pid (bp_page_ids s)\<rparr>
          in (case py_index (bp_pages s1) idx of
                Inl e \<Rightarrow> (Inl e, s1)
              | Inr pg \<Rightarrow>
                  let s2 = put_page s1 idx None
                  in (case py_update (bp_clock_refs s2) idx False of
                        Inl e \<Rightarrow> (Inl e, s2)
                      | Inr refs \<Rightarrow>
                          let s3 = s2\<lparr>bp_clock_refs := refs, bp_dirty_pages := bp_dirty_pages s2 - {idx}\<rparr>
                          in (case pg of
                                None \<Rightarrow> (Inr None, s3)
                              | Some p \<Rightarrow>
                                  if pg_dirty p
                                  then (res_bind (fst (page_to_bytes (p\<lparr>pg_dirty := False\<rparr>))) (\<lambda>bs. Inr (Some bs)),
                                        count_write s3)
                                  else (Inr None, s3)))))"

definition get_stats :: "pool \<Rightarrow> pool_stats" where
  "get_stats s = bp_stats s"

definition reset_stats :: "pool \<Rightarrow> pool" where
  "reset_stats s =
     s\<lparr>bp_stats := \<lparr>st_hits = 0, st_misses = 0, st_evictions = 0, st_reads = 0, st_writes = 0\<rparr>\<rparr>"

section \<open>The invariant\<close>

lemma counters_keep [simp]:
  "bp_pages (count_hit s) = bp_pages s" "bp_page_ids (count_hit s) = bp_page_ids s"
  "bp_capacity (count_hit s) = bp_capacity s" "bp_clock_hand (count_hit s) = bp_clock_hand s"
  "bp_clock_refs (count_hit s) = bp_clock_refs s" "bp_dirty_pages (count_hit s) = bp_dirty_pages s"
  "bp_pages (count_miss s) = bp_pages s" "bp_page_ids (count_miss s) = bp_page_ids s"
  "bp_capacity (count_miss s) = bp_capacity s" "bp_clock_hand (count_miss s) = bp_clock_hand s"
  "bp_clock_refs (count_miss s) = bp_clock_refs s" "bp_dirty_pages (count_miss s) = bp_dirty_pages s"
  "bp_pages (count_eviction s) = bp_pages s" "bp_page_ids (count_eviction s) = bp_page_ids s"
  "bp_capacity (count_eviction s) = bp_capacity s" "bp_clock_hand (count_eviction s) = bp_clock_hand s"
  "bp_clock_refs (count_eviction s) = bp_clock_refs s"
  "bp_dirty_pages (count_eviction s) = bp_dirty_pages s"
  "bp_pages (count_read s) = bp_pages s" "bp_page_ids (count_read s) = bp_page_ids s"
  "bp_capacity (count_read s) = bp_capacity s" "bp_clock_hand (count_read s) = bp_clock_hand s"
  "bp_clock_refs (count_read s) = bp_clock_refs s" "bp_dirty_pages (count_read s) = bp_dirty_pages s"
  "bp_pages (count_write s) = bp_pages s" "bp_page_ids (count_write s) = bp_page_ids s"
  "bp_capacity (count_write s) = bp_capacity s" "bp_clock_hand (count_write s) = bp_clock_hand s"
  "bp_clock_refs (count_write s) = bp_clock_refs s" "bp_dirty_pages (count_write s) = bp_dirty_pages s"
  by (simp_all add: count_hit_def count_miss_def count_eviction_def count_read_def count_write_def)

lemma put_page_keeps [simp]:
  "bp_page_ids (put_page s i p) = bp_page_ids s" "bp_capacity (put_page s i p) = bp_capacity s"
  "bp_clock_hand (put_page s i p) = bp_clock_hand s" "bp_clock_refs (put_page s i p) = bp_clock_refs s"
  "bp_dirty_pages (put_page s i p) = bp_dirty_pages s"
  "bp_pages (put_page s i p) = (bp_pages s)[nat i := p]"
  by (simp_all add: put_page_def)

text \<open>Slot \<open>i\<close> holds the page with identifier \<open>pid\<close>.\<close>

definition slot_holds :: "page option list \<Rightarrow> page_id \<Rightarrow> int \<Rightarrow> bool" where
  "slot_holds pages pid i \<longleftrightarrow>
     0 \<le> i \<and> i < ilen pages \<and> (\<exists>p. pages ! nat i = Some p \<and> pg_id p = pid)"

text \<open>
  The dictionary and the slots agree, no page is cached twice, only occupied slots are dirty, and
  the clock hand points at a slot.
\<close>

definition pool_inv :: "pool \<Rightarrow> bool" where
  "pool_inv s \<longleftrightarrow>
     0 < bp_capacity s \<and> ilen (bp_pages s) = bp_capacity s \<and> ilen (bp_clock_refs s) = bp_capacity s \<and>
     0 \<le> bp_clock_hand s \<and> bp_clock_hand s < bp_capacity s \<and>
     distinct (map fst (bp_page_ids s)) \<and>
     (\<forall>pid i. map_of (bp_page_ids s) pid = Some i \<longleftrightarrow> slot_holds (bp_pages s) pid i) \<and>
     (\<forall>i \<in> bp_dirty_pages s. \<exists>pid. slot_holds (bp_pages s) pid i)"

lemma pool_inv_cong:
  "bp_capacity s' = bp_capacity s \<Longrightarrow> bp_pages s' = bp_pages s \<Longrightarrow> bp_page_ids s' = bp_page_ids s \<Longrightarrow>
   bp_clock_hand s' = bp_clock_hand s \<Longrightarrow> length (bp_clock_refs s') = length (bp_clock_refs s) \<Longrightarrow>
   bp_dirty_pages s' = bp_dirty_pages s \<Longrightarrow> pool_inv s' = pool_inv s"
  by (simp add: pool_inv_def)

lemma pool_inv_iff:
  "pool_inv s \<Longrightarrow> map_of (bp_page_ids s) pid = Some i \<longleftrightarrow> slot_holds (bp_pages s) pid i"
  unfolding pool_inv_def by blast

lemma pool_inv_dirty: "pool_inv s \<Longrightarrow> i \<in> bp_dirty_pages s \<Longrightarrow> \<exists>pid. slot_holds (bp_pages s) pid i"
  unfolding pool_inv_def by blast

lemma pool_inv_basic:
  assumes "pool_inv s"
  shows "0 < bp_capacity s" and "ilen (bp_pages s) = bp_capacity s"
    and "ilen (bp_clock_refs s) = bp_capacity s" and "0 \<le> bp_clock_hand s"
    and "bp_clock_hand s < bp_capacity s" and "distinct (map fst (bp_page_ids s))"
  using assms unfolding pool_inv_def by blast+

lemma pool_invI:
  assumes "0 < bp_capacity s" and "ilen (bp_pages s) = bp_capacity s"
    and "ilen (bp_clock_refs s) = bp_capacity s" and "0 \<le> bp_clock_hand s"
    and "bp_clock_hand s < bp_capacity s" and "distinct (map fst (bp_page_ids s))"
    and "\<And>pid i. map_of (bp_page_ids s) pid = Some i \<longleftrightarrow> slot_holds (bp_pages s) pid i"
    and "\<And>i. i \<in> bp_dirty_pages s \<Longrightarrow> \<exists>pid. slot_holds (bp_pages s) pid i"
  shows "pool_inv s"
  using assms unfolding pool_inv_def by blast

lemma pool_inv_new: "0 < capacity \<Longrightarrow> pool_inv (pool_new capacity page_size)"
  by (auto simp: pool_inv_def pool_new_def slot_holds_def py_repeat_def)

lemma pool_inv_lookup:
  assumes "pool_inv s" and "map_of (bp_page_ids s) pid = Some i"
  obtains p where "0 \<le> i" and "i < ilen (bp_pages s)" and "i < ilen (bp_clock_refs s)"
    and "bp_pages s ! nat i = Some p" and "pg_id p = pid"
  using assms that by (auto simp: pool_inv_def slot_holds_def)

lemma slot_holds_update:
  "0 \<le> i \<Longrightarrow> slot_holds (pages[nat i := Some p]) pid j \<longleftrightarrow>
    (if j = i then i < ilen pages \<and> pg_id p = pid else slot_holds pages pid j)"
  by (cases "j = i") (auto simp: slot_holds_def nth_list_update)

lemma slot_holds_clear:
  "0 \<le> i \<Longrightarrow> slot_holds (pages[nat i := None]) pid j \<longleftrightarrow> j \<noteq> i \<and> slot_holds pages pid j"
  by (cases "j = i") (auto simp: slot_holds_def nth_list_update)

text \<open>Changing the content of a cached page, but not its identifier.\<close>

lemma pool_inv_put:
  assumes "pool_inv s" and "slot_holds (bp_pages s) (pg_id p) i"
  shows "pool_inv (put_page s i (Some p))"
proof -
  have i: "0 \<le> i" "i < ilen (bp_pages s)" using assms(2) by (auto simp: slot_holds_def)
  have "slot_holds ((bp_pages s)[nat i := Some p]) pid j = slot_holds (bp_pages s) pid j" for pid j
    using assms(2) i by (cases "j = i") (auto simp: slot_holds_update [OF i(1)], auto simp: slot_holds_def)
  then show ?thesis using assms(1) by (simp add: pool_inv_def)
qed

text \<open>Emptying a slot and forgetting its page.\<close>

lemma pool_inv_drop:
  assumes "pool_inv s" and "slot_holds (bp_pages s) pid i"
    and "bp_capacity s' = bp_capacity s" and "bp_pages s' = (bp_pages s)[nat i := None]"
    and "bp_page_ids s' = AList.delete pid (bp_page_ids s)"
    and "0 \<le> bp_clock_hand s'" and "bp_clock_hand s' < bp_capacity s"
    and "length (bp_clock_refs s') = length (bp_clock_refs s)"
    and "bp_dirty_pages s' = bp_dirty_pages s - {i}"
  shows "pool_inv s'"
proof -
  have i: "0 \<le> i" using assms(2) by (simp add: slot_holds_def)
  have "map_of (bp_page_ids s) pid = Some i" using assms(2) by (simp only: pool_inv_iff [OF assms(1)])
  then have only: "slot_holds (bp_pages s) pid j \<Longrightarrow> j = i" for j
    by (simp only: pool_inv_iff [OF assms(1), symmetric] option.inject)
  have same: "slot_holds (bp_pages s) q i \<Longrightarrow> q = pid" for q
    using assms(2) by (auto simp: slot_holds_def)
  show ?thesis
  proof (rule pool_invI)
    show "map_of (bp_page_ids s') q = Some j \<longleftrightarrow> slot_holds (bp_pages s') q j" for q j
    proof (cases "q = pid")
      case True
      then show ?thesis using only by (auto simp: assms(4,5) delete_conv slot_holds_clear [OF i])
    next
      case False
      then show ?thesis
        using same pool_inv_iff [OF assms(1), of q j]
        by (auto simp: assms(4,5) delete_conv slot_holds_clear [OF i])
    qed
    show "distinct (map fst (bp_page_ids s'))"
      using pool_inv_basic(6) [OF assms(1)] by (simp add: assms(5) distinct_delete)
    show "\<exists>q. slot_holds (bp_pages s') q j" if "j \<in> bp_dirty_pages s'" for j
      using that pool_inv_dirty [OF assms(1), of j] by (simp add: assms(4,9) slot_holds_clear [OF i])
  qed (use assms(3-9) pool_inv_basic [OF assms(1)] in simp_all)
qed

text \<open>Filling an empty slot with a page that is not cached yet.\<close>

lemma pool_inv_fill:
  assumes "pool_inv s" and "0 \<le> i" and "i < bp_capacity s" and "bp_pages s ! nat i = None"
    and "map_of (bp_page_ids s) (pg_id p) = None"
    and "bp_capacity s' = bp_capacity s" and "bp_pages s' = (bp_pages s)[nat i := Some p]"
    and "bp_page_ids s' = AList.update (pg_id p) i (bp_page_ids s)"
    and "bp_clock_hand s' = bp_clock_hand s"
    and "length (bp_clock_refs s') = length (bp_clock_refs s)"
    and "bp_dirty_pages s' = bp_dirty_pages s"
  shows "pool_inv s'"
proof -
  have len: "i < ilen (bp_pages s)" using assms(1,3) by (simp add: pool_inv_def)
  have none: "\<not> slot_holds (bp_pages s) q i" for q using assms(4) by (simp add: slot_holds_def)
  have fresh: "\<not> slot_holds (bp_pages s) (pg_id p) j" for j
    using assms(5) pool_inv_iff [OF assms(1), of "pg_id p" j] by simp
  show ?thesis
  proof (rule pool_invI)
    show "map_of (bp_page_ids s') q = Some j \<longleftrightarrow> slot_holds (bp_pages s') q j" for q j
      using none [of q] fresh [of j] len pool_inv_iff [OF assms(1), of q j]
      by (auto simp: assms(7,8) update_conv' slot_holds_update [OF assms(2)])
    show "distinct (map fst (bp_page_ids s'))"
      using pool_inv_basic(6) [OF assms(1)] by (simp add: assms(8) distinct_update)
    show "\<exists>q. slot_holds (bp_pages s') q j" if dirty: "j \<in> bp_dirty_pages s'" for j
    proof -
      obtain q where q: "slot_holds (bp_pages s) q j"
        using dirty pool_inv_dirty [OF assms(1), of j] assms(11) by auto
      with none have "j \<noteq> i" by blast
      with q have "slot_holds (bp_pages s') q j" by (simp add: assms(7) slot_holds_update [OF assms(2)])
      then show ?thesis by blast
    qed
  qed (use assms(6-11) pool_inv_basic [OF assms(1)] in simp_all)
qed

section \<open>Full pools\<close>

definition slot_page :: "pool \<Rightarrow> int \<Rightarrow> page option" where
  "slot_page s i = (if 0 \<le> i \<and> i < bp_capacity s then bp_pages s ! nat i else None)"

lemma slot_holds_slot_page:
  "pool_inv s \<Longrightarrow> slot_holds (bp_pages s) pid i \<longleftrightarrow> (\<exists>p. slot_page s i = Some p \<and> pg_id p = pid)"
  using pool_inv_basic(2) [of s] by (auto simp: slot_holds_def slot_page_def)

text \<open>The dictionary has as many entries as there are occupied slots.\<close>

lemma occupied_slots:
  assumes "pool_inv s"
  shows "snd ` set (bp_page_ids s) = {i. slot_page s i \<noteq> None}"
    and "card {i. slot_page s i \<noteq> None} = length (bp_page_ids s)"
    and "{i. slot_page s i \<noteq> None} \<subseteq> {0..<bp_capacity s}"
proof -
  note d = pool_inv_basic(6) [OF assms]
  have entry: "(pid, i) \<in> set (bp_page_ids s) \<longleftrightarrow> (\<exists>p. slot_page s i = Some p \<and> pg_id p = pid)" for pid i
    using pool_inv_iff [OF assms, of pid i] d slot_holds_slot_page [OF assms, of pid i]
    by (simp add: map_of_eq_Some_iff)
  then show img: "snd ` set (bp_page_ids s) = {i. slot_page s i \<noteq> None}"
    by (force simp: image_iff)
  have "inj_on snd (set (bp_page_ids s))"
    by (rule inj_onI) (auto simp: entry)
  then have "card (snd ` set (bp_page_ids s)) = card (set (bp_page_ids s))" by (rule card_image)
  also have "\<dots> = length (bp_page_ids s)"
    using d by (intro distinct_card) (simp add: distinct_map)
  finally show "card {i. slot_page s i \<noteq> None} = length (bp_page_ids s)" by (simp only: img)
  show "{i. slot_page s i \<noteq> None} \<subseteq> {0..<bp_capacity s}"
    by (auto simp: slot_page_def split: if_splits)
qed

lemma pool_size_bound: "pool_inv s \<Longrightarrow> pool_size s \<le> bp_capacity s"
proof -
  assume inv: "pool_inv s"
  have "card {i. slot_page s i \<noteq> None} \<le> card {0..<bp_capacity s}"
    by (intro card_mono occupied_slots(3) [OF inv]) simp
  then show ?thesis using occupied_slots(2) [OF inv] pool_inv_basic(1) [OF inv]
    by (simp add: pool_size_def)
qed

lemma pool_full_iff:
  assumes "pool_inv s"
  shows "bp_capacity s \<le> pool_size s \<longleftrightarrow> (\<forall>i. 0 \<le> i \<and> i < bp_capacity s \<longrightarrow> slot_page s i \<noteq> None)"
proof
  assume "bp_capacity s \<le> pool_size s"
  then have "card {0..<bp_capacity s} \<le> card {i. slot_page s i \<noteq> None}"
    using occupied_slots(2) [OF assms] by (simp add: pool_size_def)
  then have "{i. slot_page s i \<noteq> None} = {0..<bp_capacity s}"
    by (intro card_seteq occupied_slots(3) [OF assms]) simp
  then show "\<forall>i. 0 \<le> i \<and> i < bp_capacity s \<longrightarrow> slot_page s i \<noteq> None" by auto
next
  assume "\<forall>i. 0 \<le> i \<and> i < bp_capacity s \<longrightarrow> slot_page s i \<noteq> None"
  then have "{0..<bp_capacity s} \<subseteq> {i. slot_page s i \<noteq> None}" by auto
  then have "{i. slot_page s i \<noteq> None} = {0..<bp_capacity s}"
    using occupied_slots(3) [OF assms] by blast
  then show "bp_capacity s \<le> pool_size s"
    using occupied_slots(2) [OF assms] pool_inv_basic(1) [OF assms] by (simp add: pool_size_def)
qed

lemma find_slot_loop_first:
  assumes "\<forall>i \<in> set is. 0 \<le> i \<and> i < ilen (bp_pages s)"
  shows "find_slot_loop is s =
    (case find (\<lambda>i. bp_pages s ! nat i = None) is of None \<Rightarrow> Inl RuntimeError | Some i \<Rightarrow> Inr i)"
  using assms by (induction "is") (auto simp: py_index_in split: option.splits)

lemma find_slot_room:
  assumes "pool_inv s" and "0 \<le> i" and "i < bp_capacity s" and "slot_page s i = None"
  obtains j where "find_slot s = Inr j" and "0 \<le> j" and "j < bp_capacity s" and "slot_page s j = None"
proof -
  let ?is = "map int [0..<nat (bp_capacity s)]"
  have len: "ilen (bp_pages s) = bp_capacity s" by (rule pool_inv_basic(2) [OF assms(1)])
  have eq: "find_slot s = (case find (\<lambda>i. bp_pages s ! nat i = None) ?is of
      None \<Rightarrow> Inl RuntimeError | Some i \<Rightarrow> Inr i)"
    unfolding find_slot_def
    by (rule find_slot_loop_first) (auto simp: len zless_nat_eq_int_zless)
  have "i \<in> set ?is" using assms(2,3) by (auto intro!: image_eqI [of _ _ "nat i"])
  moreover have "bp_pages s ! nat i = None" using assms by (simp add: slot_page_def)
  ultimately obtain j where j: "find (\<lambda>i. bp_pages s ! nat i = None) ?is = Some j"
    by (metis (mono_tags, lifting) find_None_iff not_None_eq)
  then have "j \<in> set ?is" "bp_pages s ! nat j = None" by (auto simp: find_Some_iff)
  then show thesis using that [of j] eq j by (auto simp: slot_page_def)
qed

section \<open>The clock sweep\<close>

text \<open>One round on a slot that holds a page.\<close>

lemma evict_step_occupied:
  assumes "pool_inv s" and "slot_page s (bp_clock_hand s) = Some p"
  defines "h \<equiv> bp_clock_hand s"
  defines "s1 \<equiv> s\<lparr>bp_clock_hand := (h + 1) mod bp_capacity s\<rparr>"
  shows "evict_step s =
    (if is_pinned p then Continue s1
     else if bp_clock_refs s ! nat h
     then Continue (s1\<lparr>bp_clock_refs := (bp_clock_refs s)[nat h := False]\<rparr>)
     else Done (Inr ()) (count_eviction
       (let s3 = (if pg_dirty p then count_write s1 else s1)
                   \<lparr>bp_page_ids := AList.delete (pg_id p) (bp_page_ids s)\<rparr>
        in (put_page s3 h None)\<lparr>bp_dirty_pages := bp_dirty_pages s - {h}\<rparr>)))"
proof -
  note b = pool_inv_basic [OF assms(1)]
  have pages: "py_index (bp_pages s) h = Inr (Some p)"
    using assms(2) b by (simp add: py_index_in slot_page_def h_def)
  have refs: "py_index (bp_clock_refs s) h = Inr (bp_clock_refs s ! nat h)"
    using b by (simp add: py_index_in h_def)
  show ?thesis
    using b(1) pages refs
    by (cases "bp_clock_refs s ! nat h") (simp_all add: evict_step_def Let_def s1_def h_def)
qed

text \<open>Rounds until the hand reaches slot \<open>u\<close>, and until it evicts it at the latest.\<close>

definition clock_distance :: "int \<Rightarrow> int \<Rightarrow> int \<Rightarrow> int" where
  "clock_distance c u h = (if h \<le> u then u - h else u - h + c)"

definition sweep_bound :: "pool \<Rightarrow> int \<Rightarrow> nat" where
  "sweep_bound s u = nat ((if bp_clock_refs s ! nat u then bp_capacity s else 0) +
     clock_distance (bp_capacity s) u (bp_clock_hand s))"

lemma clock_distance_next:
  assumes "0 \<le> u" and "u < c" and "0 \<le> h" and "h < c"
  shows "clock_distance c u ((h + 1) mod c) = (if u = h then c - 1 else clock_distance c u h - 1)"
proof -
  have "(h + 1) mod c = (if h + 1 = c then 0 else h + 1)" using assms by (auto simp: mod_pos_pos_trivial)
  then show ?thesis using assms by (auto simp: clock_distance_def)
qed

lemma clock_distance_nonneg: "u < c \<Longrightarrow> 0 \<le> h \<Longrightarrow> h < c \<Longrightarrow> 0 \<le> u \<Longrightarrow> 0 \<le> clock_distance c u h"
  by (simp add: clock_distance_def)

lemma pool_inv_sweep:
  assumes "pool_inv s" and "0 \<le> h" and "h < bp_capacity s" and "length refs = length (bp_clock_refs s)"
  shows "pool_inv (s\<lparr>bp_clock_hand := h, bp_clock_refs := refs\<rparr>)"
  using pool_inv_basic [OF assms(1)] pool_inv_iff [OF assms(1)] pool_inv_dirty [OF assms(1)] assms
  by (intro pool_invI) simp_all

text \<open>
  What an eviction does: some unpinned page leaves its slot and the dictionary; its slot is no
  longer dirty; all other slots are untouched.
\<close>

definition evicted :: "pool \<Rightarrow> pool \<Rightarrow> bool" where
  "evicted s s' \<longleftrightarrow>
     (\<exists>v p. slot_page s v = Some p \<and> \<not> is_pinned p \<and>
       bp_pages s' = (bp_pages s)[nat v := None] \<and>
       bp_page_ids s' = AList.delete (pg_id p) (bp_page_ids s) \<and>
       bp_dirty_pages s' = bp_dirty_pages s - {v} \<and> bp_capacity s' = bp_capacity s) \<and>
     pool_inv s'"

lemma evicted_cong:
  "bp_pages t = bp_pages s \<Longrightarrow> bp_page_ids t = bp_page_ids s \<Longrightarrow>
   bp_dirty_pages t = bp_dirty_pages s \<Longrightarrow> bp_capacity t = bp_capacity s \<Longrightarrow>
   evicted t s' = evicted s s'"
  by (simp add: evicted_def slot_page_def)

lemma evict_page_terminates:
  assumes "pool_inv s" and "\<And>i. 0 \<le> i \<Longrightarrow> i < bp_capacity s \<Longrightarrow> slot_page s i \<noteq> None"
    and "slot_page s u = Some pu" and "\<not> is_pinned pu"
  shows "\<exists>s'. evict_page s = Some (Inr (), s') \<and> evicted s s'"
  using assms
proof (induction "sweep_bound s u" arbitrary: s rule: less_induct)
  case less
  define h c where "h = bp_clock_hand s" and "c = bp_capacity s"
  note b = pool_inv_basic [OF less.prems(1), folded h_def c_def]
  have u: "0 \<le> u" "u < c" using less.prems(3) by (auto simp: slot_page_def c_def split: if_splits)
  obtain p where p: "slot_page s h = Some p" using less.prems(2) [of h] b(4,5) by (auto simp: c_def)
  let ?h' = "(h + 1) mod c"
  have h': "0 \<le> ?h'" "?h' < c" using b(1) by simp_all
  note step = evict_step_occupied [OF less.prems(1), folded h_def c_def, OF p]
  have dist: "clock_distance c u ?h' = (if u = h then c - 1 else clock_distance c u h - 1)"
    using clock_distance_next [OF u b(4,5)] .
  have nn: "0 \<le> clock_distance c u h" using clock_distance_nonneg [OF u(2) b(4,5) u(1)] .
  have go_on: "\<exists>s'. evict_page s = Some (Inr (), s') \<and> evicted s s'"
    if "evict_step s = Continue (s\<lparr>bp_clock_hand := ?h', bp_clock_refs := refs\<rparr>)"
      and "length refs = length (bp_clock_refs s)"
      and "sweep_bound (s\<lparr>bp_clock_hand := ?h', bp_clock_refs := refs\<rparr>) u < sweep_bound s u" for refs
  proof -
    let ?t = "s\<lparr>bp_clock_hand := ?h', bp_clock_refs := refs\<rparr>"
    have inv: "pool_inv ?t" using less.prems(1) h' that(2) by (intro pool_inv_sweep) (simp_all add: c_def)
    have sp: "slot_page ?t i = slot_page s i" for i by (simp add: slot_page_def)
    have "\<exists>s'. evict_page ?t = Some (Inr (), s') \<and> evicted ?t s'"
      using less.prems by (intro less.hyps [OF that(3) inv]) (simp_all add: sp)
    moreover have "evict_page s = evict_page ?t" by (subst evict_page.simps) (simp add: that(1))
    moreover have "evicted ?t s' = evicted s s'" for s' by (rule evicted_cong) simp_all
    ultimately show ?thesis by simp
  qed
  show ?case
  proof (cases "is_pinned p")
    case True
    then have "u \<noteq> h" using p less.prems(3,4) by auto
    then have "sweep_bound (s\<lparr>bp_clock_hand := ?h', bp_clock_refs := bp_clock_refs s\<rparr>) u < sweep_bound s u"
      using dist nn b(1) clock_distance_nonneg [OF u(2) h' u(1)]
      by (simp add: sweep_bound_def flip: h_def c_def)
    then show ?thesis using step True by (intro go_on [of "bp_clock_refs s"]) simp_all
  next
    case unpinned: False
    show ?thesis
    proof (cases "bp_clock_refs s ! nat h")
      case True
      let ?refs = "(bp_clock_refs s)[nat h := False]"
      have "sweep_bound (s\<lparr>bp_clock_hand := ?h', bp_clock_refs := ?refs\<rparr>) u < sweep_bound s u"
      proof (cases "u = h")
        case same: True
        have "?refs ! nat u = False" using b same by simp
        then show ?thesis using dist b(1) True same nn
          by (simp add: sweep_bound_def clock_distance_def flip: h_def c_def)
      next
        case False
        then have "?refs ! nat u = bp_clock_refs s ! nat u" using u b(4) by (simp add: nat_eq_iff)
        then show ?thesis using dist False nn b(1) clock_distance_nonneg [OF u(2) h' u(1)]
          by (simp add: sweep_bound_def flip: h_def c_def)
      qed
      then show ?thesis using step True unpinned by (intro go_on [of ?refs]) simp_all
    next
      case False
      define s' where "s' = count_eviction
        (let s3 = (if pg_dirty p then count_write (s\<lparr>bp_clock_hand := ?h'\<rparr>) else s\<lparr>bp_clock_hand := ?h'\<rparr>)
                    \<lparr>bp_page_ids := AList.delete (pg_id p) (bp_page_ids s)\<rparr>
         in (put_page s3 h None)\<lparr>bp_dirty_pages := bp_dirty_pages s - {h}\<rparr>)"
      have leaves: "evict_step s = Done (Inr ()) s'" using step False unpinned by (simp add: s'_def)
      have fields: "bp_pages s' = (bp_pages s)[nat h := None]"
        "bp_page_ids s' = AList.delete (pg_id p) (bp_page_ids s)"
        "bp_dirty_pages s' = bp_dirty_pages s - {h}" "bp_capacity s' = c"
        "bp_clock_hand s' = ?h'" "bp_clock_refs s' = bp_clock_refs s"
        by (simp_all add: s'_def Let_def c_def)
      have "slot_holds (bp_pages s) (pg_id p) h"
        using p by (auto simp: slot_holds_slot_page [OF less.prems(1)])
      then have "pool_inv s'"
        using fields h' by (intro pool_inv_drop [OF less.prems(1), of "pg_id p" h]) (simp_all add: c_def)
      then have "evicted s s'" using fields p unpinned unfolding evicted_def c_def by blast
      moreover have "evict_page s = Some (Inr (), s')" by (subst evict_page.simps) (simp add: leaves)
      ultimately show ?thesis by blast
    qed
  qed
qed

text \<open>With every page pinned the loop never leaves.\<close>

lemma evict_page_diverges:
  assumes "pool_inv s" and "\<And>i. 0 \<le> i \<Longrightarrow> i < bp_capacity s \<Longrightarrow> \<exists>p. slot_page s i = Some p \<and> is_pinned p"
  shows "evict_page s = None"
proof -
  have "\<not> (pool_inv s \<and> (\<forall>i. 0 \<le> i \<and> i < bp_capacity s \<longrightarrow> (\<exists>p. slot_page s i = Some p \<and> is_pinned p)))"
    if returns: "evict_page s = Some r" for s r
  proof (rule evict_page.raw_induct [OF _ returns])
    fix ev s r
    assume IH: "\<And>s r. ev s = Some r \<Longrightarrow> \<not> (pool_inv s \<and>
        (\<forall>i. 0 \<le> i \<and> i < bp_capacity s \<longrightarrow> (\<exists>p. slot_page s i = Some p \<and> is_pinned p)))"
      and body: "(case evict_step s of Continue s' \<Rightarrow> ev s' | Done r s' \<Rightarrow> Some (r, s')) = Some r"
    show "\<not> (pool_inv s \<and> (\<forall>i. 0 \<le> i \<and> i < bp_capacity s \<longrightarrow> (\<exists>p. slot_page s i = Some p \<and> is_pinned p)))"
    proof
      assume A: "pool_inv s \<and> (\<forall>i. 0 \<le> i \<and> i < bp_capacity s \<longrightarrow> (\<exists>p. slot_page s i = Some p \<and> is_pinned p))"
      note b = pool_inv_basic [OF conjunct1 [OF A]]
      from A b obtain p where p: "slot_page s (bp_clock_hand s) = Some p" "is_pinned p" by blast
      let ?t = "s\<lparr>bp_clock_hand := (bp_clock_hand s + 1) mod bp_capacity s\<rparr>"
      have step: "evict_step s = Continue ?t"
        using evict_step_occupied [OF conjunct1 [OF A] p(1)] p(2) by simp
      have "ev ?t = Some r" using body unfolding step by simp
      from IH [OF this] have "\<not> (pool_inv ?t \<and>
        (\<forall>i. 0 \<le> i \<and> i < bp_capacity ?t \<longrightarrow> (\<exists>p. slot_page ?t i = Some p \<and> is_pinned p)))" .
      moreover have "pool_inv ?t"
        using pool_inv_sweep [OF conjunct1 [OF A], of "(bp_clock_hand s + 1) mod bp_capacity s" "bp_clock_refs s"] b(1)
        by simp
      ultimately show False using A by (auto simp: slot_page_def)
    qed
  qed
  with assms show ?thesis by (cases "evict_page s") blast+
qed

section \<open>Every operation keeps the invariant\<close>

lemma pin_id [simp]: "pg_id (pin p) = pg_id p"
  by (simp add: pin_def)

lemma unpin_id [simp]: "pg_id (unpin p) = pg_id p"
  by (simp add: unpin_def)

lemma page_to_bytes_id [simp]: "pg_id (snd (page_to_bytes p)) = pg_id p"
  by (simp add: page_to_bytes_def write_header_def split: prod.split)

lemma pool_inv_counters [simp]:
  "pool_inv (count_hit s) = pool_inv s" "pool_inv (count_miss s) = pool_inv s"
  "pool_inv (count_eviction s) = pool_inv s" "pool_inv (count_read s) = pool_inv s"
  "pool_inv (count_write s) = pool_inv s" "pool_inv (reset_stats s) = pool_inv s"
  by (rule pool_inv_cong; simp add: reset_stats_def)+

lemma pool_inv_refs:
  "pool_inv s \<Longrightarrow> length refs = length (bp_clock_refs s) \<Longrightarrow> pool_inv (s\<lparr>bp_clock_refs := refs\<rparr>)"
  by (subst pool_inv_cong [of _ s]) simp_all

lemma pool_inv_dirty_pages:
  assumes "pool_inv s" and "\<And>i. i \<in> d \<Longrightarrow> \<exists>pid. slot_holds (bp_pages s) pid i"
  shows "pool_inv (s\<lparr>bp_dirty_pages := d\<rparr>)"
  using pool_inv_basic [OF assms(1)] pool_inv_iff [OF assms(1)] assms(2)
  by (intro pool_invI) simp_all

lemma lookup_holds:
  "pool_inv s \<Longrightarrow> map_of (bp_page_ids s) pid = Some i \<Longrightarrow>
   slot_holds (bp_pages s) pid i \<and> py_index (bp_pages s) i = Inr (Some (the (bp_pages s ! nat i))) \<and>
   pg_id (the (bp_pages s ! nat i)) = pid \<and>
   py_update (bp_clock_refs s) i v = Inr ((bp_clock_refs s)[nat i := v])"
  using pool_inv_lookup [of s pid i]
  by (metis option.sel pool_inv_iff py_index_in py_update_in)

lemma fetch_page_inv: "pool_inv s \<Longrightarrow> pool_inv (snd (fetch_page s pid))"
proof (cases "map_of (bp_page_ids s) pid")
  case (Some i)
  assume inv: "pool_inv s"
  note l = lookup_holds [OF inv Some]
  have "pool_inv (put_page (s\<lparr>bp_clock_refs := (bp_clock_refs s)[nat i := True]\<rparr>) i
      (Some (pin (the (bp_pages s ! nat i)))))"
    using l inv by (intro pool_inv_put pool_inv_refs) simp_all
  then show ?thesis using l [of True] Some by (simp add: fetch_page_def)
qed (simp add: fetch_page_def)

lemma unpin_page_inv: "pool_inv s \<Longrightarrow> pool_inv (snd (unpin_page s pid))"
proof (cases "map_of (bp_page_ids s) pid")
  case (Some i)
  assume inv: "pool_inv s"
  note l = lookup_holds [OF inv Some]
  have "pool_inv (put_page s i (Some (unpin (the (bp_pages s ! nat i)))))"
    using l inv by (intro pool_inv_put) simp_all
  then show ?thesis using l Some by (simp add: unpin_page_def)
qed (simp add: unpin_page_def)

lemma mark_dirty_inv: "pool_inv s \<Longrightarrow> pool_inv (snd (mark_dirty s pid))"
proof (cases "map_of (bp_page_ids s) pid")
  case (Some i)
  assume inv: "pool_inv s"
  note l = lookup_holds [OF inv Some]
  have "pool_inv (s\<lparr>bp_dirty_pages := insert i (bp_dirty_pages s)\<rparr>)"
    using l pool_inv_dirty [OF inv] by (intro pool_inv_dirty_pages [OF inv]) auto
  then have "pool_inv (put_page (s\<lparr>bp_dirty_pages := insert i (bp_dirty_pages s)\<rparr>) i
      (Some ((the (bp_pages s ! nat i))\<lparr>pg_dirty := True\<rparr>)))"
    using l by (intro pool_inv_put) simp_all
  then show ?thesis using l Some by (simp add: mark_dirty_def)
qed (simp add: mark_dirty_def)

lemma flush_page_inv: "pool_inv s \<Longrightarrow> pool_inv (snd (flush_page s pid))"
proof (cases "map_of (bp_page_ids s) pid")
  case (Some i)
  assume inv: "pool_inv s"
  note l = lookup_holds [OF inv Some]
  let ?p = "the (bp_pages s ! nat i)"
  let ?p' = "snd (page_to_bytes (?p\<lparr>pg_dirty := False\<rparr>))"
  have "pool_inv (s\<lparr>bp_dirty_pages := bp_dirty_pages s - {i}\<rparr>)"
    using pool_inv_dirty [OF inv] by (intro pool_inv_dirty_pages [OF inv]) auto
  then have "pool_inv (put_page (count_write (s\<lparr>bp_dirty_pages := bp_dirty_pages s - {i}\<rparr>)) i (Some ?p'))"
    using l by (intro pool_inv_put) simp_all
  then show ?thesis
    using l Some inv
    by (cases "page_to_bytes (?p\<lparr>pg_dirty := False\<rparr>)") (simp add: flush_page_def)
qed (simp add: flush_page_def)

lemma flush_loop_inv:
  "pool_inv s \<Longrightarrow> set is \<subseteq> bp_dirty_pages s \<Longrightarrow> pool_inv (snd (flush_loop is s))"
proof (induction "is" arbitrary: s)
  case (Cons i "is")
  obtain pid where "slot_holds (bp_pages s) pid i"
    using Cons.prems pool_inv_dirty [OF Cons.prems(1), of i] by auto
  then obtain p where p: "0 \<le> i" "i < ilen (bp_pages s)" "bp_pages s ! nat i = Some p"
    by (auto simp: slot_holds_def)
  then have idx: "py_index (bp_pages s) i = Inr (Some p)" by (simp add: py_index_in)
  obtain r p' where pb: "page_to_bytes (p\<lparr>pg_dirty := False\<rparr>) = (r, p')" by fastforce
  have "pg_id p' = pg_id p" using page_to_bytes_id [of "p\<lparr>pg_dirty := False\<rparr>"] pb by simp
  then have inv: "pool_inv (put_page (count_write s) i (Some p'))"
    using Cons.prems(1) p by (intro pool_inv_put) (auto simp: slot_holds_def)
  then have rest: "pool_inv (snd (flush_loop is (put_page (count_write s) i (Some p'))))"
    using Cons.prems(2) by (intro Cons.IH) simp_all
  have skipped: "pool_inv (snd (flush_loop is s))" using Cons.prems by (intro Cons.IH) simp_all
  show ?case
    using inv idx pb rest skipped by (cases r) (auto simp: case_prod_beta)
qed simp

lemma flush_all_inv:
  assumes "pool_inv s" and "set order \<subseteq> bp_dirty_pages s"
  shows "pool_inv (snd (flush_all order s))"
proof -
  obtain r s' where f: "flush_loop order s = (r, s')" by fastforce
  then have "pool_inv s'" using flush_loop_inv [OF assms] by simp
  moreover from this have "pool_inv (s'\<lparr>bp_dirty_pages := {}\<rparr>)" by (rule pool_inv_dirty_pages) simp
  ultimately show ?thesis by (cases r) (simp_all add: flush_all_def f)
qed

lemma remove_page_inv: "pool_inv s \<Longrightarrow> pool_inv (snd (remove_page s pid))"
proof (cases "map_of (bp_page_ids s) pid")
  case (Some i)
  assume inv: "pool_inv s"
  note l = lookup_holds [OF inv Some]
  let ?s3 = "(put_page (s\<lparr>bp_page_ids := AList.delete pid (bp_page_ids s)\<rparr>) i None)
    \<lparr>bp_clock_refs := (bp_clock_refs s)[nat i := False], bp_dirty_pages := bp_dirty_pages s - {i}\<rparr>"
  have "pool_inv ?s3"
    using l pool_inv_basic [OF inv] by (intro pool_inv_drop [OF inv, of pid i]) simp_all
  then show ?thesis using l [of False] Some by (simp add: remove_page_def Let_def)
qed (simp add: remove_page_def)

text \<open>
  Inserting a page that is not cached: it returns when there is room or some page can be evicted.
\<close>

definition can_insert :: "pool \<Rightarrow> bool" where
  "can_insert s \<longleftrightarrow>
     pool_size s < bp_capacity s \<or> (\<exists>i p. slot_page s i = Some p \<and> \<not> is_pinned p)"

lemma insert_after_room:
  assumes "pool_inv s1" and "map_of (bp_page_ids s1) (pg_id p) = None"
    and "0 \<le> i" and "i < bp_capacity s1" and "slot_page s1 i = None"
  obtains s' j where
    "(case find_slot s1 of
        Inl e \<Rightarrow> Some (Inl e, s1)
      | Inr idx \<Rightarrow>
          let s2 = put_page s1 idx (Some (pin p));
              s3 = s2\<lparr>bp_page_ids := AList.update (pg_id p) idx (bp_page_ids s2)\<rparr>
          in (case py_update (bp_clock_refs s3) idx True of
                Inl e \<Rightarrow> Some (Inl e, s3)
              | Inr refs \<Rightarrow> Some (Inr (pin p), count_read (s3\<lparr>bp_clock_refs := refs\<rparr>)))) =
     Some (Inr (pin p), s')"
    and "pool_inv s'" and "slot_page s1 j = None" and "0 \<le> j" and "j < bp_capacity s1"
    and "bp_pages s' = (bp_pages s1)[nat j := Some (pin p)]" and "bp_capacity s' = bp_capacity s1"
    and "bp_page_ids s' = AList.update (pg_id p) j (bp_page_ids s1)"
proof -
  obtain j where j: "find_slot s1 = Inr j" "0 \<le> j" "j < bp_capacity s1" "slot_page s1 j = None"
    by (rule find_slot_room [OF assms(1,3,4,5)])
  note b = pool_inv_basic [OF assms(1)]
  let ?refs = "(bp_clock_refs s1)[nat j := True]"
  let ?s' = "count_read ((put_page s1 j (Some (pin p)))
    \<lparr>bp_page_ids := AList.update (pg_id p) j (bp_page_ids s1), bp_clock_refs := ?refs\<rparr>)"
  have "py_update (bp_clock_refs s1) j True = Inr ?refs" using j b by (simp add: py_update_in)
  moreover have "pool_inv ?s'"
    using j b assms(2) by (intro pool_inv_fill [OF assms(1), of j "pin p"]) (simp_all add: slot_page_def)
  ultimately show thesis using j by (intro that [of ?s' j]) (simp_all add: Let_def)
qed

text \<open>The first half of the call makes room.\<close>

lemma insert_makes_room:
  assumes "pool_inv s" and "can_insert s"
  obtains s1 i where
    "(if pool_size s \<ge> bp_capacity s then evict_page s else Some (Inr (), s)) = Some (Inr (), s1)"
    and "pool_inv s1" and "\<And>q. map_of (bp_page_ids s) q = None \<Longrightarrow> map_of (bp_page_ids s1) q = None"
    and "0 \<le> i" and "i < bp_capacity s1" and "slot_page s1 i = None" and "bp_capacity s1 = bp_capacity s"
    and "\<forall>j q. slot_page s j = Some q \<and> is_pinned q \<longrightarrow> slot_page s1 j = Some q"
proof (cases "bp_capacity s \<le> pool_size s")
  case True
  note b = pool_inv_basic [OF assms(1)]
  from True assms(2) obtain u pu where u: "slot_page s u = Some pu" "\<not> is_pinned pu"
    by (auto simp: can_insert_def)
  from True pool_full_iff [OF assms(1)]
  have full: "\<And>i. 0 \<le> i \<Longrightarrow> i < bp_capacity s \<Longrightarrow> slot_page s i \<noteq> None" by blast
  obtain s1 where s1: "evict_page s = Some (Inr (), s1)" "evicted s s1"
    using evict_page_terminates [OF assms(1) full u] by blast
  then obtain v r where v: "slot_page s v = Some r" "\<not> is_pinned r" "pool_inv s1"
    "bp_pages s1 = (bp_pages s)[nat v := None]" "bp_capacity s1 = bp_capacity s"
    "bp_page_ids s1 = AList.delete (pg_id r) (bp_page_ids s)"
    unfolding evicted_def by blast
  have range: "0 \<le> v" "v < bp_capacity s" using v(1) by (auto simp: slot_page_def split: if_splits)
  have pg: "slot_page s1 j = (if j = v then None else slot_page s j)" for j
    using range b(2) by (auto simp: slot_page_def v(4,5) nth_list_update nat_eq_iff)
  have "map_of (bp_page_ids s) q = None \<Longrightarrow> map_of (bp_page_ids s1) q = None" for q
    by (simp add: v(6) delete_conv del: map_of_eq_None_iff)
  then show thesis using True s1(1) v range pg by (intro that [of s1 v]) auto
next
  case False
  with pool_full_iff [OF assms(1)] obtain i where "0 \<le> i" "i < bp_capacity s" "slot_page s i = None"
    by blast
  then show thesis using False assms(1) by (intro that [of s i]) auto
qed

lemma insert_page_ok:
  assumes "pool_inv s" and "map_of (bp_page_ids s) (pg_id p) = None" and "can_insert s"
  shows "\<exists>s'. insert_page s p = Some (Inr (pin p), s') \<and> pool_inv s' \<and>
    get_page s' (pg_id p) = Inr (Some (pin p)) \<and>
    (\<forall>i q. slot_page s i = Some q \<and> is_pinned q \<longrightarrow> slot_page s' i = Some q) \<and>
    (\<forall>q. q \<noteq> pg_id p \<and> map_of (bp_page_ids s) q = None \<longrightarrow> map_of (bp_page_ids s') q = None)"
proof -
  obtain s1 i where
    e: "(if pool_size s \<ge> bp_capacity s then evict_page s else Some (Inr (), s)) = Some (Inr (), s1)"
    and inv1: "pool_inv s1"
    and forgot: "\<And>q. map_of (bp_page_ids s) q = None \<Longrightarrow> map_of (bp_page_ids s1) q = None"
    and s1: "0 \<le> i" "i < bp_capacity s1" "slot_page s1 i = None"
    and keep: "bp_capacity s1 = bp_capacity s"
      "\<forall>j q. slot_page s j = Some q \<and> is_pinned q \<longrightarrow> slot_page s1 j = Some q"
    by (rule insert_makes_room [OF assms(1,3)]) blast
  obtain s' j where
    body: "(case find_slot s1 of
        Inl e \<Rightarrow> Some (Inl e, s1)
      | Inr idx \<Rightarrow>
          let s2 = put_page s1 idx (Some (pin p));
              s3 = s2\<lparr>bp_page_ids := AList.update (pg_id p) idx (bp_page_ids s2)\<rparr>
          in (case py_update (bp_clock_refs s3) idx True of
                Inl e \<Rightarrow> Some (Inl e, s3)
              | Inr refs \<Rightarrow> Some (Inr (pin p), count_read (s3\<lparr>bp_clock_refs := refs\<rparr>)))) =
     Some (Inr (pin p), s')"
    and s': "pool_inv s'" "slot_page s1 j = None" "0 \<le> j" "j < bp_capacity s1"
      "bp_pages s' = (bp_pages s1)[nat j := Some (pin p)]" "bp_capacity s' = bp_capacity s1"
      "bp_page_ids s' = AList.update (pg_id p) j (bp_page_ids s1)"
    by (rule insert_after_room [OF inv1 forgot [OF assms(2)] s1])
  have "insert_page s p = Some (Inr (pin p), s')"
    using assms(2) unfolding insert_page_def e by (simp add: body del: map_of_eq_None_iff)
  moreover have "get_page s' (pg_id p) = Inr (Some (pin p))"
    using s' pool_inv_basic(2) [OF inv1] by (simp add: get_page_def update_conv py_index_in)
  moreover have "slot_page s' k = Some q" if "slot_page s k = Some q" "is_pinned q" for k q
  proof -
    from keep(2) that have "slot_page s1 k = Some q" by blast
    moreover from this s'(2) have "k \<noteq> j" by auto
    moreover have "0 \<le> k" using that by (auto simp: slot_page_def split: if_splits)
    ultimately show "slot_page s' k = Some q"
      using s'(3,5,6) by (auto simp: slot_page_def nat_eq_iff split: if_splits)
  qed
  moreover have "map_of (bp_page_ids s') q = None"
    if "q \<noteq> pg_id p" "map_of (bp_page_ids s) q = None" for q
    using forgot [OF that(2)] that(1) by (simp add: s'(7) update_conv del: map_of_eq_None_iff)
  ultimately show ?thesis using s'(1) by blast
qed

lemma insert_page_inv:
  assumes "pool_inv s" and "insert_page s p = Some (r, s')"
  shows "pool_inv s'"
proof (cases "map_of (bp_page_ids s) (pg_id p) = None \<and> can_insert s")
  case True
  then show ?thesis
    using insert_page_ok [OF assms(1) conjunct1 [OF True] conjunct2 [OF True]] assms(2) by auto
next
  case False
  show ?thesis
  proof (cases "map_of (bp_page_ids s) (pg_id p) = None")
    case True
    with False have none: "\<not> can_insert s" by simp
    then have "bp_capacity s \<le> pool_size s" by (simp add: can_insert_def)
    moreover from this have "\<And>i. 0 \<le> i \<Longrightarrow> i < bp_capacity s \<Longrightarrow> \<exists>q. slot_page s i = Some q \<and> is_pinned q"
      using pool_full_iff [OF assms(1)] none by (fastforce simp: can_insert_def)
    then have "evict_page s = None" by (rule evict_page_diverges [OF assms(1)])
    ultimately show ?thesis using assms(2) True by (simp add: insert_page_def)
  qed (use assms in \<open>auto simp: insert_page_def\<close>)
qed

section \<open>What a call does to one cached page\<close>

text \<open>The pool after the page with the identifier of \<open>p\<close> has become \<open>p\<close>; no other page changed.\<close>

definition updates :: "pool \<Rightarrow> page \<Rightarrow> pool \<Rightarrow> bool" where
  "updates s p s' \<longleftrightarrow>
     pool_inv s' \<and> bp_page_ids s' = bp_page_ids s \<and> bp_capacity s' = bp_capacity s \<and>
     (\<forall>q. get_page s' q = (if q = pg_id p then Inr (Some p) else get_page s q))"

lemma updatesD:
  assumes "updates s p s'"
  shows "pool_inv s'" and "bp_page_ids s' = bp_page_ids s" and "get_page s' (pg_id p) = Inr (Some p)"
    and "q \<noteq> pg_id p \<Longrightarrow> get_page s' q = get_page s q" and "bp_capacity s' = bp_capacity s"
  using assms by (auto simp: updates_def)

lemma get_page_cong:
  "bp_pages s' = bp_pages s \<Longrightarrow> bp_page_ids s' = bp_page_ids s \<Longrightarrow> get_page s' q = get_page s q"
  by (simp add: get_page_def cong: option.case_cong)

lemma cached_holds:
  assumes "pool_inv s" and "get_page s pid = Inr (Some p)"
  obtains i where "map_of (bp_page_ids s) pid = Some i" and "slot_holds (bp_pages s) pid i"
    and "0 \<le> i" and "i < ilen (bp_pages s)" and "bp_pages s ! nat i = Some p" and "pg_id p = pid"
proof -
  from assms(2) obtain i where i: "map_of (bp_page_ids s) pid = Some i"
    and idx: "py_index (bp_pages s) i = Inr (Some p)"
    by (auto simp: get_page_def split: option.splits)
  obtain q where "0 \<le> i" "i < ilen (bp_pages s)" "bp_pages s ! nat i = Some q" "pg_id q = pid"
    by (rule pool_inv_lookup [OF assms(1) i])
  then show thesis using i idx by (intro that [of i]) (auto simp: slot_holds_def py_index_in)
qed

lemma put_updates:
  assumes "pool_inv s" and "map_of (bp_page_ids s) (pg_id p) = Some i"
  shows "updates s p (put_page s i (Some p))"
proof -
  note l = lookup_holds [OF assms]
  have i: "0 \<le> i" "i < ilen (bp_pages s)" using l by (auto simp: slot_holds_def)
  have "get_page (put_page s i (Some p)) q = get_page s q" if "q \<noteq> pg_id p" for q
  proof (cases "map_of (bp_page_ids s) q")
    case (Some j)
    with lookup_holds [OF assms(1) Some] l that have "j \<noteq> i" "0 \<le> j" "j < ilen (bp_pages s)"
      by (auto simp: slot_holds_def)
    then show ?thesis using i Some by (simp add: get_page_def py_index_in nat_eq_iff)
  qed (simp add: get_page_def)
  then show ?thesis
    using assms l i by (auto simp: updates_def get_page_def py_index_in intro: pool_inv_put)
qed

lemma updates_cong:
  "bp_pages t = bp_pages s \<Longrightarrow> bp_page_ids t = bp_page_ids s \<Longrightarrow> bp_capacity t = bp_capacity s \<Longrightarrow> updates t p s' = updates s p s'"
  by (simp only: updates_def get_page_cong [of t s])

lemma fetch_cached:
  assumes "pool_inv s" and "get_page s pid = Inr (Some p)"
  obtains s' where "fetch_page s pid = (Inr (Some (pin p)), s')" and "updates s (pin p) s'"
proof -
  obtain i where i: "map_of (bp_page_ids s) pid = Some i" "slot_holds (bp_pages s) pid i" "0 \<le> i"
      "i < ilen (bp_pages s)" "bp_pages s ! nat i = Some p" "pg_id p = pid"
    by (rule cached_holds [OF assms])
  let ?s1 = "s\<lparr>bp_clock_refs := (bp_clock_refs s)[nat i := True]\<rparr>"
  let ?s2 = "put_page ?s1 i (Some (pin p))"
  have "updates ?s1 (pin p) ?s2" using assms(1) i by (intro put_updates pool_inv_refs) simp_all
  then have "updates s (pin p) ?s2" by (simp add: updates_cong [of ?s1 s])
  then have "updates s (pin p) (count_hit ?s2)"
    by (simp add: updates_def get_page_cong [of "count_hit ?s2" ?s2])
  moreover have "fetch_page s pid = (Inr (Some (pin p)), count_hit ?s2)"
    using i lookup_holds [OF assms(1) i(1), of True] by (simp add: fetch_page_def py_index_in)
  ultimately show thesis by (rule that [rotated])
qed

lemma unpin_cached:
  assumes "pool_inv s" and "get_page s pid = Inr (Some p)"
  obtains s' where "unpin_page s pid = (Inr (), s')" and "updates s (unpin p) s'"
proof -
  obtain i where i: "map_of (bp_page_ids s) pid = Some i" "slot_holds (bp_pages s) pid i" "0 \<le> i"
      "i < ilen (bp_pages s)" "bp_pages s ! nat i = Some p" "pg_id p = pid"
    by (rule cached_holds [OF assms])
  have "updates s (unpin p) (put_page s i (Some (unpin p)))"
    using assms(1) i by (intro put_updates) simp_all
  moreover have "unpin_page s pid = (Inr (), put_page s i (Some (unpin p)))"
    using i by (simp add: unpin_page_def py_index_in)
  ultimately show thesis by (rule that [rotated])
qed

lemma fetch_absent:
  "map_of (bp_page_ids s) pid = None \<Longrightarrow> fetch_page s pid = (Inr None, count_miss s)"
  by (simp add: fetch_page_def)

text \<open>With room, inserting touches no other page.\<close>

lemma insert_page_room:
  assumes "pool_inv s" and "map_of (bp_page_ids s) (pg_id p) = None" and "pool_size s < bp_capacity s"
  obtains s' where "insert_page s p = Some (Inr (pin p), s')" and "pool_inv s'"
    and "get_page s' (pg_id p) = Inr (Some (pin p))"
    and "\<And>q. q \<noteq> pg_id p \<Longrightarrow> get_page s' q = get_page s q"
proof -
  obtain i where i: "0 \<le> i" "i < bp_capacity s" "slot_page s i = None"
    using assms(3) pool_full_iff [OF assms(1)] by auto
  obtain s' j where
    body: "(case find_slot s of
        Inl e \<Rightarrow> Some (Inl e, s)
      | Inr idx \<Rightarrow>
          let s2 = put_page s idx (Some (pin p));
              s3 = s2\<lparr>bp_page_ids := AList.update (pg_id p) idx (bp_page_ids s2)\<rparr>
          in (case py_update (bp_clock_refs s3) idx True of
                Inl e \<Rightarrow> Some (Inl e, s3)
              | Inr refs \<Rightarrow> Some (Inr (pin p), count_read (s3\<lparr>bp_clock_refs := refs\<rparr>)))) =
     Some (Inr (pin p), s')"
    and s': "pool_inv s'" "slot_page s j = None" "0 \<le> j" "j < bp_capacity s"
      "bp_pages s' = (bp_pages s)[nat j := Some (pin p)]" "bp_capacity s' = bp_capacity s"
      "bp_page_ids s' = AList.update (pg_id p) j (bp_page_ids s)"
    by (rule insert_after_room [OF assms(1,2) i])
  have "insert_page s p = Some (Inr (pin p), s')"
    using assms(2,3) by (simp add: insert_page_def body del: map_of_eq_None_iff)
  moreover have "get_page s' (pg_id p) = Inr (Some (pin p))"
    using s' pool_inv_basic(2) [OF assms(1)] by (simp add: get_page_def update_conv py_index_in)
  moreover have "get_page s' q = get_page s q" if "q \<noteq> pg_id p" for q
  proof (cases "map_of (bp_page_ids s) q")
    case (Some k)
    then have "slot_holds (bp_pages s) q k" using lookup_holds [OF assms(1) Some] by blast
    with s'(2-4) have "k \<noteq> j" "0 \<le> k" "k < ilen (bp_pages s)"
      by (auto simp: slot_holds_def slot_page_def)
    then show ?thesis
      using that Some s'(3,5,7) by (simp add: get_page_def update_conv py_index_in nat_eq_iff)
  qed (use that s'(7) in \<open>simp add: get_page_def update_conv\<close>)
  ultimately show thesis using s'(1) by (intro that)
qed

section \<open>Properties\<close>

text \<open>
  One call of a method of the pool, or a change that a caller makes to a page object it obtained
  from the pool (anything but renaming the page).
\<close>

inductive pool_step :: "pool \<Rightarrow> pool \<Rightarrow> bool" where
  pool_fetch: "pool_step s (snd (fetch_page s pid))"
| pool_insert: "insert_page s p = Some (r, s') \<Longrightarrow> pool_step s s'"
| pool_unpin: "pool_step s (snd (unpin_page s pid))"
| pool_mark: "pool_step s (snd (mark_dirty s pid))"
| pool_flush: "pool_step s (snd (flush_page s pid))"
| pool_flush_all: "set order = bp_dirty_pages s \<Longrightarrow> pool_step s (snd (flush_all order s))"
| pool_remove: "pool_step s (snd (remove_page s pid))"
| pool_reset: "pool_step s (reset_stats s)"
| pool_client: "slot_page s i = Some p \<Longrightarrow> pg_id p' = pg_id p \<Longrightarrow> pool_step s (put_page s i (Some p'))"

inductive pool_reach :: "int \<Rightarrow> pool \<Rightarrow> bool" where
  pool_start: "0 < capacity \<Longrightarrow> pool_reach capacity (pool_new capacity page_size)"
| pool_next: "pool_reach capacity s \<Longrightarrow> pool_step s s' \<Longrightarrow> pool_reach capacity s'"

inductive_cases pool_stepE: "pool_step s s'"

lemma pool_step_inv: "pool_step s s' \<Longrightarrow> pool_inv s \<Longrightarrow> pool_inv s'"
proof (induction rule: pool_step.induct)
  case (pool_client s i p p')
  then show ?case by (intro pool_inv_put) (simp_all add: slot_holds_slot_page)
qed (simp_all add: fetch_page_inv insert_page_inv unpin_page_inv mark_dirty_inv flush_page_inv
    flush_all_inv remove_page_inv)

text \<open>
  C31. The buffer pool's bookkeeping: from an empty pool of positive capacity, after any sequence of
  calls that return and any changes callers make to the pages they hold, the dictionary and the
  slots agree (a page is cached in at most one slot), only occupied slots are marked dirty, the
  clock hand stays in range, and no more pages are cached than the capacity allows.
\<close>
theorem buffer_pool_invariant:
  assumes "pool_reach capacity s"
  shows "pool_inv s \<and> pool_size s \<le> bp_capacity s"
proof -
  have "pool_inv s"
    using assms by (induction rule: pool_reach.induct) (auto intro: pool_inv_new pool_step_inv)
  then show ?thesis using pool_size_bound by blast
qed

theorem buffer_pool_invariant_witness:
  "pool_size (snd (fetch_page (pool_new 2 8192) \<lparr>pid_page_num = 1, pid_table_id = 0\<rparr>)) \<le> 2"
proof -
  have "pool_reach 2 (snd (fetch_page (pool_new 2 8192) \<lparr>pid_page_num = 1, pid_table_id = 0\<rparr>))"
    by (rule pool_next [OF pool_start pool_fetch]) simp
  from buffer_pool_invariant [OF this] show ?thesis
    by (simp add: fetch_page_def pool_new_def count_miss_def)
qed

text \<open>A pool of one slot, for the examples below.\<close>

definition sample_page :: "int \<Rightarrow> int \<Rightarrow> bool \<Rightarrow> page" where
  "sample_page n pins dirty =
     \<lparr>pg_id = \<lparr>pid_page_num = n, pid_table_id = 0\<rparr>, pg_type = FREE, pg_size = 32, pg_dirty = dirty,
      pg_pin_count = pins, pg_flags = 0, pg_version = 1, pg_data = replicate 32 0, pg_free_offset = 24\<rparr>"

definition sample_pool :: "page \<Rightarrow> pool" where
  "sample_pool p =
     (pool_new 1 32)\<lparr>bp_pages := [Some p], bp_page_ids := [(pg_id p, 0)]\<rparr>"

lemma sample_pool_inv: "pool_inv (sample_pool p)"
proof (rule pool_invI)
  show "map_of (bp_page_ids (sample_pool p)) pid = Some i \<longleftrightarrow>
      slot_holds (bp_pages (sample_pool p)) pid i" for pid i
    by (cases "i = 0") (auto simp: sample_pool_def slot_holds_def)
qed (simp_all add: sample_pool_def pool_new_def py_repeat_def)

text \<open>
  Inserting: for a page that is not cached yet, \<^verbatim>\<open>insert_page\<close> returns if and only if the pool
  has room or some cached page is unpinned; then the page is cached, pinned once more, and every
  page that was pinned is still in its slot, unchanged.  With all slots holding pinned pages the
  CLOCK sweep runs for ever (while it holds the lock).  A page that is cached already is refused.
\<close>
theorem insert_page_behaviour:
  assumes "pool_inv s"
  shows "if map_of (bp_page_ids s) (pg_id p) \<noteq> None
    then insert_page s p = Some (Inl ValueError, s)
    else if can_insert s
    then \<exists>s'. insert_page s p = Some (Inr (pin p), s') \<and> pool_inv s' \<and>
      get_page s' (pg_id p) = Inr (Some (pin p)) \<and>
      (\<forall>i q. slot_page s i = Some q \<and> is_pinned q \<longrightarrow> slot_page s' i = Some q)
    else insert_page s p = None"
proof -
  have "insert_page s p = None" if "map_of (bp_page_ids s) (pg_id p) = None" "\<not> can_insert s"
  proof -
    have full: "bp_capacity s \<le> pool_size s" using that(2) by (simp add: can_insert_def)
    then have "\<And>i. 0 \<le> i \<Longrightarrow> i < bp_capacity s \<Longrightarrow> \<exists>q. slot_page s i = Some q \<and> is_pinned q"
      using pool_full_iff [OF assms] that(2) by (fastforce simp: can_insert_def)
    then have "evict_page s = None" by (rule evict_page_diverges [OF assms])
    then show ?thesis using that(1) full by (simp add: insert_page_def)
  qed
  moreover have "insert_page s p = Some (Inl ValueError, s)"
    if "map_of (bp_page_ids s) (pg_id p) \<noteq> None"
    using that by (simp add: insert_page_def)
  ultimately show ?thesis using insert_page_ok [OF assms, of p] by (metis (no_types, lifting))
qed

theorem insert_page_behaviour_witness:
  "insert_page (sample_pool (sample_page 1 1 False)) (sample_page 2 0 False) = None"
proof -
  have "\<not> can_insert (sample_pool (sample_page 1 1 False))"
    by (auto simp: can_insert_def sample_pool_def sample_page_def pool_new_def pool_size_def
        slot_page_def is_pinned_def split: if_splits)
  moreover have "map_of (bp_page_ids (sample_pool (sample_page 1 1 False)))
      (pg_id (sample_page 2 0 False)) = None"
    by (simp add: sample_pool_def sample_page_def)
  ultimately show ?thesis
    using insert_page_behaviour [OF sample_pool_inv [of "sample_page 1 1 False"], of "sample_page 2 0 False"]
    by simp
qed

text \<open>
  Eviction loses modifications: when the sweep reaches an unpinned, unreferenced, dirty page,
  the page is dropped, the number of writes is counted up, but the bytes are returned to nobody: the
  caller of \<^verbatim>\<open>insert_page\<close> gets only the new page, and the evicted one can no longer be fetched.
\<close>
theorem eviction_drops_dirty_page:
  assumes "pool_inv s" and "bp_capacity s \<le> pool_size s"
    and "slot_page s (bp_clock_hand s) = Some d" and "\<not> is_pinned d" and "pg_dirty d"
    and "\<not> bp_clock_refs s ! nat (bp_clock_hand s)"
    and "map_of (bp_page_ids s) (pg_id p) = None"
  shows "\<exists>s'. insert_page s p = Some (Inr (pin p), s') \<and>
    st_writes (bp_stats s') = st_writes (bp_stats s) + 1 \<and>
    fst (fetch_page s' (pg_id d)) = Inr None"
proof -
  define h where "h = bp_clock_hand s"
  define s1 where "s1 = count_eviction
    (let s3 = (count_write (s\<lparr>bp_clock_hand := (h + 1) mod bp_capacity s\<rparr>))
                \<lparr>bp_page_ids := AList.delete (pg_id d) (bp_page_ids s)\<rparr>
     in (put_page s3 h None)\<lparr>bp_dirty_pages := bp_dirty_pages s - {h}\<rparr>)"
  note b = pool_inv_basic [OF assms(1), folded h_def]
  have "evict_step s = Done (Inr ()) s1"
    using evict_step_occupied [OF assms(1,3)] assms(4-6) by (simp add: s1_def h_def)
  then have ev: "evict_page s = Some (Inr (), s1)" by (subst evict_page.simps) simp
  have f: "bp_pages s1 = (bp_pages s)[nat h := None]" "bp_capacity s1 = bp_capacity s"
    "bp_page_ids s1 = AList.delete (pg_id d) (bp_page_ids s)"
    "bp_clock_refs s1 = bp_clock_refs s" "bp_dirty_pages s1 = bp_dirty_pages s - {h}"
    "bp_clock_hand s1 = (h + 1) mod bp_capacity s" "st_writes (bp_stats s1) = st_writes (bp_stats s) + 1"
    by (simp_all add: s1_def Let_def) (simp add: count_eviction_def count_write_def put_page_def)
  have "slot_holds (bp_pages s) (pg_id d) h"
    using assms(3) by (auto simp: slot_holds_slot_page [OF assms(1)] h_def)
  then have inv: "pool_inv s1"
    using f b by (intro pool_inv_drop [OF assms(1), of "pg_id d" h]) simp_all
  obtain j where j: "find_slot s1 = Inr j" "0 \<le> j" "j < bp_capacity s1" "slot_page s1 j = None"
    by (rule find_slot_room [OF inv, of h]) (use b f in \<open>simp_all add: slot_page_def\<close>)
  let ?s' = "count_read ((put_page s1 j (Some (pin p)))
    \<lparr>bp_page_ids := AList.update (pg_id p) j (bp_page_ids s1),
     bp_clock_refs := (bp_clock_refs s1)[nat j := True]\<rparr>)"
  have "py_update (bp_clock_refs s1) j True = Inr ((bp_clock_refs s1)[nat j := True])"
    using j pool_inv_basic [OF inv] by (simp add: py_update_in)
  then have "insert_page s p = Some (Inr (pin p), ?s')"
    using assms(2,7) ev j by (simp add: insert_page_def Let_def del: map_of_eq_None_iff)
  moreover have "st_writes (bp_stats ?s') = st_writes (bp_stats s) + 1"
    by (simp add: count_read_def put_page_def f(7))
  moreover have "pg_id p \<noteq> pg_id d"
  proof
    assume "pg_id p = pg_id d"
    with assms(7) pool_inv_iff [OF assms(1), of "pg_id d" h]
    show False using \<open>slot_holds (bp_pages s) (pg_id d) h\<close> by simp
  qed
  then have "map_of (bp_page_ids ?s') (pg_id d) = None"
    by (simp add: f(3) update_conv delete_conv del: map_of_eq_None_iff)
  then have "fst (fetch_page ?s' (pg_id d)) = Inr None"
    by (simp add: fetch_page_def del: map_of_eq_None_iff)
  ultimately show ?thesis by blast
qed

theorem eviction_drops_dirty_page_witness:
  "\<exists>s'. insert_page (sample_pool (sample_page 1 0 True)) (sample_page 2 0 False) =
      Some (Inr (pin (sample_page 2 0 False)), s') \<and>
    fst (fetch_page s' (pg_id (sample_page 1 0 True))) = Inr None"
  using eviction_drops_dirty_page [OF sample_pool_inv, of "sample_page 1 0 True" "sample_page 1 0 True"
      "sample_page 2 0 False"]
  by (auto simp: sample_pool_def sample_page_def pool_new_def pool_size_def slot_page_def is_pinned_def
      py_repeat_def)

end
