(* ===== verification/Py_Float.thy ===== *)
theory Py_Float
  imports Py_Struct
begin

text \<open>
  Python floats, as far as the modelled modules look inside them: a float is its IEEE 754 binary64
  bit pattern.  \<^verbatim>\<open>struct\<close> stores the pattern as it is in the format \<^verbatim>\<open>d\<close> and converts to and
  from binary32 in the format \<^verbatim>\<open>f\<close>: widening is exact, narrowing rounds to nearest, ties to even,
  and raises \<^verbatim>\<open>OverflowError\<close> when a finite number rounds beyond the largest binary32 number.  A
  NaN keeps the upper bits of its payload and becomes quiet.
\<close>

type_synonym pyfloat = "64 word"
type_synonym float32 = "32 word"

fun bit_len :: "nat \<Rightarrow> nat" where
  "bit_len n = (if n = 0 then 0 else Suc (bit_len (n div 2)))"

declare bit_len.simps [simp del]

text \<open>Widening: sign, exponent and significand of the binary32 pattern moved into binary64.\<close>

definition f64_of_f32 :: "float32 \<Rightarrow> pyfloat" where
  "f64_of_f32 w =
     (let n = unat w; s = n div 2 ^ 31; e = n div 2 ^ 23 mod 2 ^ 8; m = n mod 2 ^ 23
      in word_of_nat (s * 2 ^ 63 +
        (if e = 255 then 2047 * 2 ^ 52 + (if m = 0 then 0 else 2 ^ 51 + m * 2 ^ 29 mod 2 ^ 51)
         else if e \<noteq> 0 then (e + 896) * 2 ^ 52 + m * 2 ^ 29
         else if m = 0 then 0
         else let k = bit_len m - 1 in (k + 874) * 2 ^ 52 + (m - 2 ^ k) * 2 ^ (52 - k))))"

text \<open>Division by a power of two, rounded to nearest, ties to even.\<close>

definition round_half_even :: "nat \<Rightarrow> nat \<Rightarrow> nat" where
  "round_half_even m sh =
     (let q = m div 2 ^ sh; r = m mod 2 ^ sh
      in if 2 * r > 2 ^ sh \<or> (2 * r = 2 ^ sh \<and> odd q) then q + 1 else q)"

definition f32_of_f64 :: "pyfloat \<Rightarrow> float32 result" where
  "f32_of_f64 d =
     (let n = unat d; s = n div 2 ^ 63; e = n div 2 ^ 52 mod 2 ^ 11; m = n mod 2 ^ 52
      in if e = 2047
         then Inr (word_of_nat (s * 2 ^ 31 + 255 * 2 ^ 23 +
                (if m = 0 then 0 else 2 ^ 22 + m div 2 ^ 29 mod 2 ^ 22)))
         else
           let M = (if e = 0 then m else 2 ^ 52 + m); E = max e 1;
               bits = (if 897 \<le> E then (E - 897) * 2 ^ 23 + round_half_even M 29
                       else round_half_even M (29 + (897 - E)))
           in if 255 * 2 ^ 23 \<le> bits then Inl OverflowError
              else Inr (word_of_nat (s * 2 ^ 31 + bits)))"

definition f32_is_nan :: "float32 \<Rightarrow> bool" where
  "f32_is_nan w \<longleftrightarrow> unat w div 2 ^ 23 mod 2 ^ 8 = 255 \<and> unat w mod 2 ^ 23 \<noteq> 0"

text \<open>The formats \<^verbatim>\<open>d\<close> and \<^verbatim>\<open>f\<close>.\<close>

definition pack_d :: "bool \<Rightarrow> pyfloat \<Rightarrow> bytes" where
  "pack_d big d = byte_order big (le_bytes 8 (uint d))"

definition unpack_d :: "bool \<Rightarrow> bytes \<Rightarrow> pyfloat" where
  "unpack_d big bs = word_of_int (le_int (byte_order big bs))"

definition pack_f :: "bool \<Rightarrow> pyfloat \<Rightarrow> bytes result" where
  "pack_f big d = res_bind (f32_of_f64 d) (\<lambda>w. Inr (byte_order big (le_bytes 4 (uint w))))"

definition unpack_f :: "bool \<Rightarrow> bytes \<Rightarrow> pyfloat" where
  "unpack_f big bs = f64_of_f32 (word_of_int (le_int (byte_order big bs)))"

text \<open>\<^verbatim>\<open>struct.unpack('f', struct.pack('f', x))[0]\<close>.\<close>

definition round_f32 :: "pyfloat \<Rightarrow> pyfloat result" where
  "round_f32 x = res_bind (f32_of_f64 x) (\<lambda>w. Inr (f64_of_f32 w))"

text \<open>
  \<^verbatim>\<open>float(n)\<close> for an integer: rounded to nearest, ties to even, and \<^verbatim>\<open>OverflowError\<close> beyond the
  largest double; and \<^verbatim>\<open>int(x)\<close> for a float: truncated towards zero, with an exception for the
  infinities and the NaNs.
\<close>

definition float_of_int :: "int \<Rightarrow> pyfloat result" where
  "float_of_int n =
     (let s = (if n < 0 then 1 else 0); a = nat \<bar>n\<bar>; len = bit_len a
      in if a = 0 then Inr 0
         else
           let mant = (if len \<le> 53 then a * 2 ^ (53 - len) else round_half_even a (len - 53));
               bits = (len + 1021) * 2 ^ 52 + mant
           in if 2047 * 2 ^ 52 \<le> bits then Inl OverflowError
              else Inr (word_of_nat (s * 2 ^ 63 + bits)))"

definition int_of_float :: "pyfloat \<Rightarrow> int result" where
  "int_of_float d =
     (let n = unat d; s = n div 2 ^ 63; e = n div 2 ^ 52 mod 2 ^ 11; m = n mod 2 ^ 52
      in if e = 2047 then Inl (if m = 0 then OverflowError else ValueError)
         else
           let M = (if e = 0 then m else 2 ^ 52 + m); E = max e 1;
               a = (if 1075 \<le> E then M * 2 ^ (E - 1075) else M div 2 ^ (1075 - E))
           in Inr (if s = 1 then - int a else int a))"

text \<open>
  Comparison: patterns without the sign bit order the magnitudes, the two zeros are equal, and a NaN is
  neither equal to nor less than anything.
\<close>

definition float_is_nan :: "pyfloat \<Rightarrow> bool" where
  "float_is_nan d \<longleftrightarrow> 2047 * 2 ^ 52 < unat d mod 2 ^ 63"

definition float_key :: "pyfloat \<Rightarrow> int" where
  "float_key d = (if unat d div 2 ^ 63 = 0 then int (unat d) else - int (unat d mod 2 ^ 63))"

definition float_less :: "pyfloat \<Rightarrow> pyfloat \<Rightarrow> bool" where
  "float_less x y \<longleftrightarrow> \<not> float_is_nan x \<and> \<not> float_is_nan y \<and> float_key x < float_key y"

definition float_eq :: "pyfloat \<Rightarrow> pyfloat \<Rightarrow> bool" where
  "float_eq x y \<longleftrightarrow> \<not> float_is_nan x \<and> \<not> float_is_nan y \<and> float_key x = float_key y"

section \<open>Narrowing undoes widening\<close>

lemma bit_len_bounds: "0 < n \<Longrightarrow> 2 ^ (bit_len n - 1) \<le> n \<and> n < 2 ^ bit_len n \<and> 0 < bit_len n"
proof (induction n rule: less_induct)
  case (less n)
  show ?case
  proof (cases "n = 1")
    case True
    then show ?thesis by (simp add: bit_len.simps [of "Suc 0"] bit_len.simps [of 0])
  next
    case False
    with less.prems have "n div 2 < n" "0 < n div 2" by auto
    with less.IH [of "n div 2"] have
      IH: "2 ^ (bit_len (n div 2) - 1) \<le> n div 2" "n div 2 < 2 ^ bit_len (n div 2)"
        "0 < bit_len (n div 2)" by auto
    have "(2 :: nat) ^ bit_len (n div 2) = 2 * 2 ^ (bit_len (n div 2) - 1)"
      using IH(3) by (cases "bit_len (n div 2)") simp_all
    then have "2 ^ bit_len (n div 2) \<le> n" using IH(1) by linarith
    moreover have "n < 2 * 2 ^ bit_len (n div 2)" using IH(2) by linarith
    ultimately show ?thesis
      using less.prems by (simp add: bit_len.simps [of n])
  qed
qed

lemma round_half_even_exact: "round_half_even (m * 2 ^ sh) sh = m"
  by (simp add: round_half_even_def)

lemma unat_of_nat_64: "N < 2 ^ 64 \<Longrightarrow> unat (word_of_nat N :: 64 word) = N"
  by (simp add: unsigned_of_nat take_bit_nat_eq_self)

text \<open>A bit pattern as three fields, of widths given by \<open>A\<close> (lowest) and \<open>B\<close>.\<close>

lemma field_split:
  fixes A B e m s :: nat
  assumes "e < B" and "m < A"
  shows "((s * B + e) * A + m) mod A = m"
    and "((s * B + e) * A + m) div A mod B = e"
    and "((s * B + e) * A + m) div (A * B) = s"
  using assms by (simp_all add: div_mult2_eq)

lemma field_join: "(n div (A * B) * B + n div A mod B) * A + n mod A = (n :: nat)"
  by (simp add: div_mult2_eq)

lemma f64_fields:
  assumes "s < 2" and "e < 2048" and "m < 2 ^ 52"
  defines "n \<equiv> unat (word_of_nat ((s * 2 ^ 11 + e) * 2 ^ 52 + m) :: pyfloat)"
  shows "n div 2 ^ 63 = s" and "n div 2 ^ 52 mod 2 ^ 11 = e" and "n mod 2 ^ 52 = m"
proof -
  have "(s * 2 ^ 11 + e) * 2 ^ 52 + m < 2 ^ 64" using assms(1-3) by simp
  then have n: "n = (s * 2 ^ 11 + e) * 2 ^ 52 + m"
    unfolding n_def by (rule unat_of_nat_64)
  have e: "e < 2 ^ 11" using assms(2) by simp
  show "n div 2 ^ 63 = s"
    using field_split(3) [OF e assms(3), of s] by (simp only: n power_add [symmetric]) simp
  show "n div 2 ^ 52 mod 2 ^ 11 = e" and "n mod 2 ^ 52 = m"
    unfolding n by (rule field_split [OF e assms(3)])+
qed

lemma f32_of_f64_fields:
  assumes "s < 2" and "e < 2048" and "m < 2 ^ 52"
  shows "f32_of_f64 (word_of_nat ((s * 2 ^ 11 + e) * 2 ^ 52 + m)) =
     (if e = 2047
      then Inr (word_of_nat (s * 2 ^ 31 + 255 * 2 ^ 23 +
             (if m = 0 then 0 else 2 ^ 22 + m div 2 ^ 29 mod 2 ^ 22)))
      else
        let M = (if e = 0 then m else 2 ^ 52 + m); E = max e 1;
            bits = (if 897 \<le> E then (E - 897) * 2 ^ 23 + round_half_even M 29
                    else round_half_even M (29 + (897 - E)))
        in if 255 * 2 ^ 23 \<le> bits then Inl OverflowError
           else Inr (word_of_nat (s * 2 ^ 31 + bits)))"
  unfolding f32_of_f64_def by (simp only: f64_fields [OF assms] Let_def)

lemma narrow_subnormal:
  assumes "0 < m" and "m < 2 ^ 23"
  defines "k \<equiv> bit_len m - 1"
  shows "k \<le> 22" and "2 ^ 52 + (m - 2 ^ k) * 2 ^ (52 - k) = m * 2 ^ (52 - k)"
    and "(m - 2 ^ k) * 2 ^ (52 - k) < (2 :: nat) ^ 52"
proof -
  have k: "2 ^ k \<le> m" "m < 2 ^ Suc k"
    using bit_len_bounds [OF assms(1)] by (simp_all add: k_def)
  have "(2 :: nat) ^ k < 2 ^ 23" using k(1) assms(2) by linarith
  then show k22: "k \<le> 22" using power_less_imp_less_exp [of "2 :: nat" k 23] by simp
  have p: "2 ^ k * 2 ^ (52 - k) = (2 :: nat) ^ 52" using k22 by (simp flip: power_add)
  show "2 ^ 52 + (m - 2 ^ k) * 2 ^ (52 - k) = m * 2 ^ (52 - k)"
    using k(1) p by (simp only: diff_mult_distrib) (metis le_add_diff_inverse mult_le_mono1)
  have "(m - 2 ^ k) * 2 ^ (52 - k) < 2 ^ k * 2 ^ (52 - k)" using k by simp
  then show "(m - 2 ^ k) * 2 ^ (52 - k) < (2 :: nat) ^ 52" by (simp only: p)
qed

text \<open>
  The four kinds of binary32 pattern that are not a NaN: infinite, normal, zero and subnormal.
\<close>

lemma f32_of_f64_of_f32:
  assumes "\<not> f32_is_nan w"
  shows "f32_of_f64 (f64_of_f32 w) = Inr w"
proof -
  define n where "n = unat w"
  define s e m where sem: "s = n div 2 ^ 31" "e = n div 2 ^ 23 mod 2 ^ 8" "m = n mod 2 ^ 23"
  have "n < 2 ^ 32" unfolding n_def using unsigned_less [of w] by simp
  then have s2: "s < 2" by (simp add: sem(1))
  have e8: "e < 256" and m23: "m < 2 ^ 23" by (simp_all add: sem)
  have "(s * 2 ^ 8 + e) * 2 ^ 23 + m = n"
    using field_join [of n "2 ^ 23" "2 ^ 8"] by (simp add: sem)
  then have w: "word_of_nat ((s * 2 ^ 8 + e) * 2 ^ 23 + m) = w" by (simp only: n_def) simp
  have d: "f64_of_f32 w = word_of_nat (s * 2 ^ 63 +
        (if e = 255 then 2047 * 2 ^ 52 + (if m = 0 then 0 else 2 ^ 51 + m * 2 ^ 29 mod 2 ^ 51)
         else if e \<noteq> 0 then (e + 896) * 2 ^ 52 + m * 2 ^ 29
         else if m = 0 then 0
         else let k = bit_len m - 1 in (k + 874) * 2 ^ 52 + (m - 2 ^ k) * 2 ^ (52 - k)))"
    by (simp only: f64_of_f32_def Let_def n_def sem)
  consider (inf) "e = 255" "m = 0" | (normal) "e \<noteq> 0" "e \<noteq> 255" | (zero) "e = 0" "m = 0" | (sub) "e = 0" "m \<noteq> 0"
    using assms unfolding f32_is_nan_def n_def [symmetric] sem [symmetric] by blast
  then show ?thesis
  proof cases
    case inf
    have "f64_of_f32 w = word_of_nat ((s * 2 ^ 11 + 2047) * 2 ^ 52 + 0)"
      unfolding d using inf by (simp add: algebra_simps)
    then have "f32_of_f64 (f64_of_f32 w) = Inr (word_of_nat (s * 2 ^ 31 + 255 * 2 ^ 23 + 0))"
      using f32_of_f64_fields [OF s2, of 2047 0] by simp
    also have "s * 2 ^ 31 + 255 * 2 ^ 23 + 0 = (s * 2 ^ 8 + e) * 2 ^ 23 + m" using inf by simp
    finally show ?thesis by (simp only: w)
  next
    case normal
    have m29: "m * 2 ^ 29 < 2 ^ 52" using m23 by simp
    have "2 ^ 52 + m * 2 ^ 29 = (2 ^ 23 + m) * (2 :: nat) ^ 29" by simp
    then have r: "round_half_even (2 ^ 52 + m * 2 ^ 29) 29 = 2 ^ 23 + m"
      by (simp only: round_half_even_exact)
    have b: "(e + 896 - 897) * 2 ^ 23 + (2 ^ 23 + m) = e * 2 ^ 23 + m" using normal by (cases e) simp_all
    have e11: "e + 896 < 2048" using e8 by simp
    have small: "\<not> 255 * 2 ^ 23 \<le> e * 2 ^ 23 + m" using normal e8 m23 by simp
    have cond: "(e + 896 = 2047) = False" "(e + 896 = 0) = False" "max (e + 896) 1 = e + 896"
        "(897 \<le> e + 896) = True"
      using normal e8 by auto
    have "f64_of_f32 w = word_of_nat ((s * 2 ^ 11 + (e + 896)) * 2 ^ 52 + m * 2 ^ 29)"
      unfolding d using normal by (simp add: algebra_simps)
    then have "f32_of_f64 (f64_of_f32 w) = Inr (word_of_nat (s * 2 ^ 31 + (e * 2 ^ 23 + m)))"
      using small by (simp only: f32_of_f64_fields [OF s2 e11 m29] Let_def cond r b if_True if_False)
    also have "s * 2 ^ 31 + (e * 2 ^ 23 + m) = (s * 2 ^ 8 + e) * 2 ^ 23 + m" by simp
    finally show ?thesis by (simp only: w)
  next
    case zero
    have "f64_of_f32 w = word_of_nat ((s * 2 ^ 11 + 0) * 2 ^ 52 + 0)"
      unfolding d using zero by simp
    then have "f32_of_f64 (f64_of_f32 w) = Inr (word_of_nat (s * 2 ^ 31 + 0))"
      using f32_of_f64_fields [OF s2, of 0 0] by (simp add: round_half_even_def Let_def)
    also have "s * 2 ^ 31 + 0 = (s * 2 ^ 8 + e) * 2 ^ 23 + m" using zero by simp
    finally show ?thesis by (simp only: w)
  next
    case sub
    define k where "k = bit_len m - 1"
    note ns = narrow_subnormal [OF _ m23, folded k_def]
    have m0: "0 < m" using sub by simp
    have k11: "k + 874 < 2048" using ns(1) [OF m0] by simp
    have cond: "29 + (897 - (k + 874)) = 52 - k" "(k + 874 = 2047) = False" "(k + 874 = 0) = False"
        "max (k + 874) 1 = k + 874" "(897 \<le> k + 874) = False" "(255 * 2 ^ 23 \<le> m) = False"
      using ns(1) [OF m0] m23 by auto
    have "f64_of_f32 w = word_of_nat ((s * 2 ^ 11 + (k + 874)) * 2 ^ 52 + (m - 2 ^ k) * 2 ^ (52 - k))"
      unfolding d using sub by (simp add: algebra_simps Let_def k_def)
    then have "f32_of_f64 (f64_of_f32 w) = Inr (word_of_nat (s * 2 ^ 31 + m))"
      by (simp only: f32_of_f64_fields [OF s2 k11 ns(3) [OF m0]] Let_def cond ns(2) [OF m0]
          round_half_even_exact if_True if_False)
    also have "s * 2 ^ 31 + m = (s * 2 ^ 8 + e) * 2 ^ 23 + m" using sub by simp
    finally show ?thesis by (simp only: w)
  qed
qed

lemma unpack_pack_d: "unpack_d big (pack_d big d) = d"
proof -
  have "uint d mod 256 ^ 8 = uint d" using uint_lt2p [of d] by simp
  then show ?thesis by (simp add: unpack_d_def pack_d_def le_int_le_bytes)
qed

lemma unpack_pack_f:
  "f32_of_f64 d = Inr w \<Longrightarrow>
   pack_f big d = Inr (byte_order big (le_bytes 4 (uint w))) \<and>
   unpack_f big (byte_order big (le_bytes 4 (uint w))) = f64_of_f32 w"
proof -
  assume "f32_of_f64 d = Inr w"
  moreover have "uint w mod 256 ^ 4 = uint w" using uint_lt2p [of w] by simp
  ultimately show ?thesis by (simp add: unpack_f_def pack_f_def le_int_le_bytes)
qed

lemma pack_f_length: "pack_f big d = Inr bs \<Longrightarrow> length bs = 4"
  by (auto simp: pack_f_def res_bind_eq_Inr)

lemma pack_d_length [simp]: "length (pack_d big d) = 8"
  by (simp add: pack_d_def)

section \<open>Integers as floats\<close>

lemma normalised_mantissa:
  assumes "0 < a" and "a < 2 ^ 53"
  defines "len \<equiv> bit_len a"
  shows "0 < len" and "len \<le> 53" and "2 ^ 52 \<le> a * 2 ^ (53 - len)" and "a * 2 ^ (53 - len) < 2 * 2 ^ 52"
proof -
  have b: "2 ^ (len - 1) \<le> a" "a < 2 ^ len" "0 < len"
    using bit_len_bounds [OF assms(1)] by (simp_all add: len_def)
  then show "0 < len" by simp
  have "(2 :: nat) ^ (len - 1) < 2 ^ 53" using b(1) assms(2) by linarith
  then have "len - 1 < 53" using power_less_imp_less_exp [of "2 :: nat" "len - 1" 53] by simp
  then show len: "len \<le> 53" by simp
  have "2 ^ (len - 1) * 2 ^ (53 - len) \<le> a * 2 ^ (53 - len)" using b(1) by simp
  moreover have "2 ^ (len - 1) * 2 ^ (53 - len) = (2 :: nat) ^ 52"
    using b(3) len by (simp flip: power_add)
  ultimately show "2 ^ 52 \<le> a * 2 ^ (53 - len)" by (simp only:)
  have "a * 2 ^ (53 - len) < 2 ^ len * 2 ^ (53 - len)" using b(2) by simp
  moreover have "2 ^ len * 2 ^ (53 - len) = (2 :: nat) * 2 ^ 52"
    using len by (simp flip: power_add power_Suc)
  ultimately show "a * 2 ^ (53 - len) < 2 * 2 ^ 52" by (simp only:)
qed

lemma int_of_float_of_int:
  assumes "\<bar>n\<bar> < 2 ^ 53"
  shows "\<exists>d. float_of_int n = Inr d \<and> int_of_float d = Inr n"
proof (cases "n = 0")
  case True
  then show ?thesis by (simp add: float_of_int_def int_of_float_def bit_len.simps)
next
  case False
  define a s where "a = nat \<bar>n\<bar>" and "s = (if n < 0 then 1 else 0 :: nat)"
  define len where "len = bit_len a"
  have a: "0 < a" "a < 2 ^ 53" using False assms by (auto simp: a_def)
  note nm = normalised_mantissa [OF a, folded len_def]
  define m where "m = a * 2 ^ (53 - len) - 2 ^ 52"
  have m: "a * 2 ^ (53 - len) = 2 ^ 52 + m" "m < 2 ^ 52" using nm(3,4) by (auto simp: m_def)
  define e where "e = len + 1022"
  have e: "e < 2048" "e \<noteq> 0" "e \<noteq> 2047" "max e 1 = e" using nm(2) by (auto simp: e_def)
  have bits: "(len + 1021) * 2 ^ 52 + a * 2 ^ (53 - len) = e * 2 ^ 52 + m"
    unfolding m(1) e_def by simp
  have small: "\<not> 2047 * 2 ^ 52 \<le> e * 2 ^ 52 + m"
  proof -
    have "e * 2 ^ 52 \<le> 1075 * (2 :: nat) ^ 52" using nm(2) by (simp add: e_def)
    with m(2) show ?thesis by simp
  qed
  have s2: "s < 2" by (simp add: s_def)
  have "float_of_int n = Inr (word_of_nat (s * 2 ^ 63 + (e * 2 ^ 52 + m)))"
    using a nm(2) small unfolding float_of_int_def Let_def
    by (simp only: a_def [symmetric] s_def [symmetric] len_def [symmetric] bits if_True if_False)
      simp
  also have "s * 2 ^ 63 + (e * 2 ^ 52 + m) = (s * 2 ^ 11 + e) * 2 ^ 52 + m" by simp
  finally have fl: "float_of_int n = Inr (word_of_nat ((s * 2 ^ 11 + e) * 2 ^ 52 + m))" .
  have mag: "(if 1075 \<le> e then (2 ^ 52 + m) * 2 ^ (e - 1075) else (2 ^ 52 + m) div 2 ^ (1075 - e)) = a"
  proof -
    have eqs: "1075 - e = 53 - len" "e - 1075 = 0" using nm(2) by (simp_all add: e_def)
    have "1075 \<le> e \<Longrightarrow> 53 - len = 0" by (simp add: e_def)
    then show ?thesis unfolding m(1) [symmetric] eqs by simp
  qed
  have "int_of_float (word_of_nat ((s * 2 ^ 11 + e) * 2 ^ 52 + m)) =
      Inr (if s = 1 then - int a else int a)"
    unfolding int_of_float_def Let_def f64_fields [OF s2 e(1) m(2)]
    using e by (simp only: mag if_False if_True)
  moreover have "(if s = 1 then - int a else int a) = n" by (simp add: s_def a_def)
  ultimately show ?thesis using fl by simp
qed

end
