(* ===== verification/Py_Utf8.thy ===== *)
theory Py_Utf8
  imports Py_Prelude
begin

text \<open>
  \<^verbatim>\<open>str.encode("utf-8")\<close> and \<^verbatim>\<open>bytes.decode("utf-8")\<close> with strict error handling.  A Python
  \<^verbatim>\<open>str\<close> is the list of its code points; a surrogate cannot be encoded, and the decoder refuses
  truncated, overlong, surrogate and out-of-range sequences (\<^verbatim>\<open>UnicodeError\<close>, a \<^verbatim>\<open>ValueError\<close>).
\<close>

type_synonym pystr = "nat list"

definition surrogate :: "nat \<Rightarrow> bool" where
  "surrogate c \<longleftrightarrow> 0xD800 \<le> c \<and> c \<le> 0xDFFF"

definition utf8_char :: "nat \<Rightarrow> nat list result" where
  "utf8_char c =
     (if c < 0x80 then Inr [c]
      else if c < 0x800 then Inr [0xC0 + c div 64, 0x80 + c mod 64]
      else if surrogate c then Inl ValueError
      else if c < 0x10000 then Inr [0xE0 + c div 64 div 64, 0x80 + c div 64 mod 64, 0x80 + c mod 64]
      else if c < 0x110000
      then Inr [0xF0 + c div 64 div 64 div 64, 0x80 + c div 64 div 64 mod 64, 0x80 + c div 64 mod 64, 0x80 + c mod 64]
      else Inl ValueError)"

fun utf8_encode_nats :: "pystr \<Rightarrow> nat list result" where
  "utf8_encode_nats [] = Inr []"
| "utf8_encode_nats (c # cs) =
     res_bind (utf8_char c) (\<lambda>bs. res_bind (utf8_encode_nats cs) (\<lambda>rest. Inr (bs @ rest)))"

definition utf8_encode :: "pystr \<Rightarrow> bytes result" where
  "utf8_encode s = res_bind (utf8_encode_nats s) (\<lambda>bs. Inr (map word_of_nat bs))"

definition cont :: "nat \<Rightarrow> bool" where
  "cont b \<longleftrightarrow> 0x80 \<le> b \<and> b < 0xC0"

text \<open>The first character of a byte list and the bytes behind it.\<close>

definition utf8_next :: "nat list \<Rightarrow> (nat \<times> nat list) result" where
  "utf8_next bs =
     (case bs of
        [] \<Rightarrow> Inl ValueError
      | b0 # r0 \<Rightarrow>
          if b0 < 0x80 then Inr (b0, r0)
          else if b0 < 0xC2 then Inl ValueError
          else (case r0 of
             [] \<Rightarrow> Inl ValueError
           | b1 # r1 \<Rightarrow>
               if \<not> cont b1 then Inl ValueError
               else if b0 < 0xE0 then Inr ((b0 - 0xC0) * 64 + (b1 - 0x80), r1)
               else (case r1 of
                  [] \<Rightarrow> Inl ValueError
                | b2 # r2 \<Rightarrow>
                    if \<not> cont b2 then Inl ValueError
                    else if b0 < 0xF0
                    then let c = ((b0 - 0xE0) * 64 + (b1 - 0x80)) * 64 + (b2 - 0x80)
                         in if c < 0x800 \<or> surrogate c then Inl ValueError else Inr (c, r2)
                    else (case r2 of
                       [] \<Rightarrow> Inl ValueError
                     | b3 # r3 \<Rightarrow>
                         if \<not> cont b3 \<or> 0xF5 \<le> b0 then Inl ValueError
                         else let c = (((b0 - 0xF0) * 64 + (b1 - 0x80)) * 64 + (b2 - 0x80)) * 64 + (b3 - 0x80)
                              in if c < 0x10000 \<or> 0x110000 \<le> c then Inl ValueError else Inr (c, r3)))))"

lemma utf8_next_shorter: "utf8_next bs = Inr (c, rest) \<Longrightarrow> length rest < length bs"
  by (auto simp: utf8_next_def Let_def split: list.splits if_splits)

function utf8_decode_nats :: "nat list \<Rightarrow> pystr result" where
  "utf8_decode_nats bs =
     (if bs = [] then Inr []
      else case utf8_next bs of
          Inl e \<Rightarrow> Inl e
        | Inr (c, rest) \<Rightarrow> res_bind (utf8_decode_nats rest) (\<lambda>cs. Inr (c # cs)))"
  by pat_completeness auto
termination
  by (relation "measure length") (auto dest: utf8_next_shorter)

declare utf8_decode_nats.simps [simp del]

definition utf8_decode :: "bytes \<Rightarrow> pystr result" where
  "utf8_decode bs = utf8_decode_nats (map unat bs)"

lemma split_64: "(c :: nat) div 64 * 64 + c mod 64 = c"
  by simp

lemma utf8_next_char:
  assumes "utf8_char c = Inr bs"
  shows "utf8_next (bs @ rest) = Inr (c, rest)"
proof -
  have m: "c mod 64 < 64" "c div 64 mod 64 < 64" "c div 64 div 64 mod 64 < 64" by simp_all
  have s2: "c div 64 div 64 * 64 + c div 64 mod 64 = c div 64" by (rule split_64)
  have s3: "c div 64 div 64 div 64 * 64 + c div 64 div 64 mod 64 = c div 64 div 64" by (rule split_64)
  consider (one) "c < 0x80" | (two) "0x80 \<le> c" "c < 0x800"
    | (three) "0x800 \<le> c" "c < 0x10000" "\<not> surrogate c"
    | (four) "0x10000 \<le> c" "c < 0x110000"
    using assms by (auto simp: utf8_char_def split: if_splits)
  then show ?thesis
  proof cases
    case one
    then show ?thesis using assms by (auto simp: utf8_char_def utf8_next_def)
  next
    case two
    then have "2 \<le> c div 64" "c div 64 < 32" by (simp_all add: div_le_mono less_mult_imp_div_less le_div_geq)
    then show ?thesis using assms two m by (auto simp: utf8_char_def utf8_next_def cont_def)
  next
    case three
    have "c div 64 div 64 < 16" using three(2) by (simp add: less_mult_imp_div_less)
    then show ?thesis using assms three m s2
      by (auto simp: utf8_char_def utf8_next_def cont_def Let_def)
  next
    case four
    have q: "c div 64 div 64 div 64 < 5"
      using four(2) by (simp add: less_mult_imp_div_less flip: div_mult2_eq)
    have "\<not> surrogate c" using four(1) by (simp add: surrogate_def)
    then show ?thesis using assms four m s2 s3 q
      by (auto simp: utf8_char_def utf8_next_def cont_def Let_def)
  qed
qed

lemma utf8_char_bounds: "utf8_char c = Inr bs \<Longrightarrow> bs \<noteq> [] \<and> (\<forall>b \<in> set bs. b < 256)"
proof -
  assume a: "utf8_char c = Inr bs"
  have "c < 0x800 \<Longrightarrow> c div 64 < 32" "c < 0x10000 \<Longrightarrow> c div 64 div 64 < 16"
    "c < 0x110000 \<Longrightarrow> c div 64 div 64 div 64 < 5"
    by (simp_all add: less_mult_imp_div_less flip: div_mult2_eq)
  moreover have "c mod 64 < 64" "c div 64 mod 64 < 64" "c div 64 div 64 mod 64 < 64" by simp_all
  ultimately show ?thesis using a by (auto simp: utf8_char_def split: if_splits)
qed

lemma utf8_decode_encode_nats:
  "utf8_encode_nats s = Inr bs \<Longrightarrow> utf8_decode_nats bs = Inr s \<and> (\<forall>b \<in> set bs. b < 256)"
proof (induction s arbitrary: bs)
  case Nil
  then show ?case by (simp add: utf8_decode_nats.simps)
next
  case (Cons c s)
  from Cons.prems obtain b0 rest where b: "utf8_char c = Inr b0" "utf8_encode_nats s = Inr rest"
    "bs = b0 @ rest"
    by (auto simp: res_bind_eq_Inr)
  then show ?case
    using utf8_char_bounds [OF b(1)] Cons.IH [OF b(2)] utf8_next_char [OF b(1), of rest]
    by (subst utf8_decode_nats.simps) auto
qed

lemma utf8_decode_encode:
  assumes "utf8_encode s = Inr bs"
  shows "utf8_decode bs = Inr s"
proof -
  from assms obtain ns where ns: "utf8_encode_nats s = Inr ns" "bs = map word_of_nat ns"
    by (auto simp: utf8_encode_def res_bind_eq_Inr)
  have "map unat (map word_of_nat ns :: bytes) = ns"
    using utf8_decode_encode_nats [OF ns(1)]
    by (simp add: map_idI unsigned_of_nat take_bit_nat_eq_self)
  then show ?thesis using utf8_decode_encode_nats [OF ns(1)] by (simp add: utf8_decode_def ns(2))
qed

section \<open>Decoding that does not fail\<close>

text \<open>
  \<^verbatim>\<open>bytes.decode("utf-8", errors=...)\<close>: bytes that cannot start or continue a character become U+FFFD with
  \<^verbatim>\<open>"replace"\<close> and nothing with \<^verbatim>\<open>"ignore"\<close>.  What is substituted at once is the longest start of a character
  that is there, at least one byte.
\<close>

definition second_byte :: "nat \<Rightarrow> nat \<Rightarrow> bool" where
  "second_byte b0 b1 \<longleftrightarrow> cont b1 \<and> (b0 = 0xE0 \<longrightarrow> 0xA0 \<le> b1) \<and> (b0 = 0xED \<longrightarrow> b1 < 0xA0) \<and>
     (b0 = 0xF0 \<longrightarrow> 0x90 \<le> b1) \<and> (b0 = 0xF4 \<longrightarrow> b1 < 0x90)"

definition invalid_span :: "nat list \<Rightarrow> nat" where
  "invalid_span bs =
     (case bs of
        b0 # b1 # r \<Rightarrow>
          if b0 < 0xC2 \<or> 0xF5 \<le> b0 \<or> \<not> second_byte b0 b1 then 1
          else (case r of
             [] \<Rightarrow> 2
           | b2 # _ \<Rightarrow> if cont b2 then 3 else 2)
      | _ \<Rightarrow> 1)"

lemma invalid_span_pos: "0 < invalid_span bs"
  by (simp add: invalid_span_def split: list.split)

function lenient_nats :: "pystr \<Rightarrow> nat list \<Rightarrow> pystr" where
  "lenient_nats substitute bs =
     (if bs = [] then []
      else case utf8_next bs of
          Inl _ \<Rightarrow> substitute @ lenient_nats substitute (drop (invalid_span bs) bs)
        | Inr (c, rest) \<Rightarrow> c # lenient_nats substitute rest)"
  by pat_completeness auto
termination
  by (relation "measure (\<lambda>(_, bs). length bs)") (auto dest: utf8_next_shorter simp: invalid_span_pos)

declare lenient_nats.simps [simp del]

definition utf8_replace :: "bytes \<Rightarrow> pystr" where
  "utf8_replace bs = lenient_nats [0xFFFD] (map unat bs)"

definition utf8_ignore :: "bytes \<Rightarrow> pystr" where
  "utf8_ignore bs = lenient_nats [] (map unat bs)"

lemma lenient_nats_encode: "utf8_encode_nats s = Inr bs \<Longrightarrow> lenient_nats substitute bs = s"
proof (induction s arbitrary: bs)
  case Nil
  then show ?case by (simp add: lenient_nats.simps)
next
  case (Cons c s)
  from Cons.prems obtain b0 rest where b: "utf8_char c = Inr b0" "utf8_encode_nats s = Inr rest"
    "bs = b0 @ rest"
    by (auto simp: res_bind_eq_Inr)
  then show ?case
    using utf8_char_bounds [OF b(1)] Cons.IH [OF b(2)] utf8_next_char [OF b(1), of rest]
    by (subst lenient_nats.simps) auto
qed

lemma utf8_lenient_encode:
  assumes "utf8_encode s = Inr bs"
  shows "utf8_replace bs = s" "utf8_ignore bs = s"
proof -
  from assms obtain ns where ns: "utf8_encode_nats s = Inr ns" "bs = map word_of_nat ns"
    by (auto simp: utf8_encode_def res_bind_eq_Inr)
  have "map unat (map word_of_nat ns :: bytes) = ns"
    using utf8_decode_encode_nats [OF ns(1)]
    by (simp add: map_idI unsigned_of_nat take_bit_nat_eq_self)
  then show "utf8_replace bs = s" "utf8_ignore bs = s"
    using lenient_nats_encode [OF ns(1)] by (simp_all add: utf8_replace_def utf8_ignore_def ns(2))
qed

end
