(* ===== verification/DbSerializer.thy ===== *)
theory DbSerializer
  imports Py_Float Py_Utf8
begin

text \<open>
  The value format of the database, the class \<^verbatim>\<open>Serializer\<close> of
  \<^verbatim>\<open>database/src/utils/serializer.py\<close>: tagged values, rows and key-value slots.  What the code
  takes from \<^verbatim>\<open>pickle\<close>, \<^verbatim>\<open>datetime\<close> and \<^verbatim>\<open>numpy\<close> is an argument of the model, the record
  \<^verbatim>\<open>env\<close>.  \<^verbatim>\<open>ObjectSerializer\<close> is not modelled.
\<close>

section \<open>Values\<close>

text \<open>
  An array of \<^verbatim>\<open>numpy\<close> is its type of elements (\<^verbatim>\<open>dtype.str\<close>), its shape and its bytes.
\<close>

datatype ('d, 'o) db_value =
    VNull
  | VBool bool
  | VInt int
  | VFloat pyfloat
  | VStr pystr
  | VBytes bytes
  | VDatetime 'd
  | VDate int
  | VList 'o
  | VDict 'o
  | VArray string "int list" bytes
  | VOther 'o

record ('d, 'o) env =
  pickle_dumps :: "('d, 'o) db_value \<Rightarrow> bytes result"
  pickle_loads :: "bytes \<Rightarrow> ('d, 'o) db_value result"
  dt_timestamp :: "'d \<Rightarrow> pyfloat"
  dt_fromtimestamp :: "pyfloat \<Rightarrow> 'd result"
  np_float32_array :: "int list \<Rightarrow> bytes \<Rightarrow> bytes result"

text \<open>\<^verbatim>\<open>np.float32\<close>, on a little-endian machine.\<close>

definition float32_dtype :: string where
  "float32_dtype = ''<f4''"

text \<open>The type tags, \<^verbatim>\<open>Serializer.TYPE_NULL\<close> and so on.\<close>

abbreviation (input) "TYPE_NULL \<equiv> 0 :: int"
abbreviation (input) "TYPE_INT \<equiv> 1 :: int"
abbreviation (input) "TYPE_FLOAT \<equiv> 2 :: int"
abbreviation (input) "TYPE_STR \<equiv> 3 :: int"
abbreviation (input) "TYPE_BYTES \<equiv> 4 :: int"
abbreviation (input) "TYPE_BOOL \<equiv> 5 :: int"
abbreviation (input) "TYPE_LIST \<equiv> 6 :: int"
abbreviation (input) "TYPE_DICT \<equiv> 7 :: int"
abbreviation (input) "TYPE_FLOAT32 \<equiv> 8 :: int"
abbreviation (input) "TYPE_FLOAT64 \<equiv> 9 :: int"
abbreviation (input) "TYPE_INT64 \<equiv> 10 :: int"
abbreviation (input) "TYPE_DATETIME \<equiv> 11 :: int"
abbreviation (input) "TYPE_DATE \<equiv> 12 :: int"

text \<open>\<^verbatim>\<open>struct.pack("!BI", tag, len(data)) + data\<close>.\<close>

definition tagged_block :: "int \<Rightarrow> bytes \<Rightarrow> bytes result" where
  "tagged_block tag data =
     res_bind (struct_pack [(1, pack_uint True 1 tag), (4, pack_uint True 4 (ilen data))])
       (\<lambda>h. Inr (h @ data))"

fun encode :: "('d, 'o) env \<Rightarrow> ('d, 'o) db_value \<Rightarrow> bytes result" where
  "encode env VNull = struct_pack [(1, pack_uint True 1 TYPE_NULL)]"
| "encode env (VBool b) =
     struct_pack [(1, pack_uint True 1 TYPE_BOOL), (1, pack_uint True 1 (if b then 1 else 0))]"
| "encode env (VInt n) =
     struct_pack [(1, pack_uint True 1 TYPE_INT64), (8, pack_sint True 8 n)]"
| "encode env (VFloat x) =
     struct_pack [(1, pack_uint True 1 TYPE_FLOAT64), (8, Inr (pack_d True x))]"
| "encode env (VStr s) = res_bind (utf8_encode s) (tagged_block TYPE_STR)"
| "encode env (VBytes bs) = tagged_block TYPE_BYTES bs"
| "encode env (VDatetime d) =
     struct_pack [(1, pack_uint True 1 TYPE_DATETIME), (8, Inr (pack_d True (dt_timestamp env d)))]"
| "encode env (VDate days) =
     struct_pack [(1, pack_uint True 1 TYPE_DATE), (4, pack_sint True 4 days)]"
| "encode env (VList x) = res_bind (pickle_dumps env (VList x)) (tagged_block TYPE_LIST)"
| "encode env (VDict x) = res_bind (pickle_dumps env (VDict x)) (tagged_block TYPE_DICT)"
| "encode env (VArray dtype shape data) =
     res_bind (struct_pack [(1, pack_uint True 1 TYPE_FLOAT32), (1, pack_uint True 1 (ilen shape)),
                            (4, pack_uint True 4 (ilen data))]) (\<lambda>header.
     res_bind (struct_pack (map (\<lambda>n. (4, pack_uint True 4 n)) shape)) (\<lambda>shape_data.
       Inr (header @ shape_data @ data)))"
| "encode env (VOther x) = res_bind (pickle_dumps env (VOther x)) (tagged_block TYPE_DICT)"

text \<open>\<^verbatim>\<open>struct.unpack_from("!nI", data, offset)\<close>.\<close>

fun words_of :: "nat \<Rightarrow> bytes \<Rightarrow> int list" where
  "words_of 0 bs = []"
| "words_of (Suc n) bs = unpack_uint True (take 4 bs) # words_of n (drop 4 bs)"

definition unpack_words :: "nat \<Rightarrow> bytes \<Rightarrow> int \<Rightarrow> int list result" where
  "unpack_words n data offset = res_bind (unpack_from data offset (4 * n)) (\<lambda>bs. Inr (words_of n bs))"

text \<open>A length field at the offset, then that many bytes through a conversion.\<close>

definition decode_block ::
  "(bytes \<Rightarrow> ('d, 'o) db_value result) \<Rightarrow> bytes \<Rightarrow> int \<Rightarrow> (('d, 'o) db_value \<times> int) result" where
  "decode_block conv data offset =
     res_bind (unpack_from data offset 4) (\<lambda>w.
       let len = unpack_uint True w; offset' = offset + 4
       in res_bind (conv (py_slice data offset' (offset' + len))) (\<lambda>v. Inr (v, offset' + len)))"

definition date_fromordinal :: "int \<Rightarrow> ('d, 'o) db_value result" where
  "date_fromordinal days = (if 1 \<le> days \<and> days \<le> 3652059 then Inr (VDate days) else Inl ValueError)"

text \<open>The branches of \<^verbatim>\<open>decode\<close>, with the offset behind the type byte.\<close>

definition decode_tagged ::
  "('d, 'o) env \<Rightarrow> int \<Rightarrow> bytes \<Rightarrow> int \<Rightarrow> (('d, 'o) db_value \<times> int) result" where
  "decode_tagged env type_byte data offset =
         (if type_byte = TYPE_NULL then Inr (VNull, offset)
          else if type_byte = TYPE_BOOL
          then res_bind (unpack_from data offset 1) (\<lambda>w. Inr (VBool (unpack_uint True w \<noteq> 0), offset + 1))
          else if type_byte = TYPE_INT
          then res_bind (unpack_from data offset 4) (\<lambda>w. Inr (VInt (unpack_sint True w), offset + 4))
          else if type_byte = TYPE_INT64
          then res_bind (unpack_from data offset 8) (\<lambda>w. Inr (VInt (unpack_sint True w), offset + 8))
          else if type_byte = TYPE_FLOAT
          then res_bind (unpack_from data offset 4) (\<lambda>w. Inr (VFloat (unpack_f True w), offset + 4))
          else if type_byte = TYPE_FLOAT64
          then res_bind (unpack_from data offset 8) (\<lambda>w. Inr (VFloat (unpack_d True w), offset + 8))
          else if type_byte = TYPE_STR
          then decode_block (\<lambda>bs. res_bind (utf8_decode bs) (\<lambda>s. Inr (VStr s))) data offset
          else if type_byte = TYPE_BYTES then decode_block (\<lambda>bs. Inr (VBytes bs)) data offset
          else if type_byte = TYPE_LIST then decode_block (pickle_loads env) data offset
          else if type_byte = TYPE_DICT then decode_block (pickle_loads env) data offset
          else if type_byte = TYPE_FLOAT32
          then
            res_bind (unpack_from data offset 1) (\<lambda>w1.
            res_bind (unpack_from data (offset + 1) 4) (\<lambda>w2.
              let ndim = unpack_uint True w1; len = unpack_uint True w2; offset' = offset + 5
              in res_bind (unpack_words (nat ndim) data offset') (\<lambda>shape.
                   let start = offset' + 4 * ndim
                   in res_bind (np_float32_array env shape (py_slice data start (start + len)))
                        (\<lambda>arr. Inr (VArray float32_dtype shape arr, start + len)))))
          else if type_byte = TYPE_DATETIME
          then res_bind (unpack_from data offset 8) (\<lambda>w.
               res_bind (dt_fromtimestamp env (unpack_d True w)) (\<lambda>d. Inr (VDatetime d, offset + 8)))
          else if type_byte = TYPE_DATE
          then res_bind (unpack_from data offset 4) (\<lambda>w.
               res_bind (date_fromordinal (unpack_sint True w)) (\<lambda>v. Inr (v, offset + 4)))
          else Inl ValueError)"

definition decode :: "('d, 'o) env \<Rightarrow> bytes \<Rightarrow> int \<Rightarrow> (('d, 'o) db_value \<times> int) result" where
  "decode env data offset =
     res_bind (py_index data offset) (\<lambda>b. decode_tagged env (uint b) data (offset + 1))"

section \<open>Rows and slots\<close>

fun encode_values :: "('d, 'o) env \<Rightarrow> ('d, 'o) db_value list \<Rightarrow> bytes list result" where
  "encode_values env [] = Inr []"
| "encode_values env (v # vs) =
     res_bind (encode env v) (\<lambda>bs. res_bind (encode_values env vs) (\<lambda>rest. Inr (bs # rest)))"

definition encode_row :: "('d, 'o) env \<Rightarrow> ('d, 'o) db_value list \<Rightarrow> bytes result" where
  "encode_row env values =
     res_bind (encode_values env values) (\<lambda>encoded_values.
     res_bind (struct_pack ((2, pack_uint True 2 (ilen values)) #
         map (\<lambda>ev. (4, pack_uint True 4 (ilen ev))) encoded_values)) (\<lambda>header.
       Inr (header @ concat encoded_values)))"

fun decode_values :: "('d, 'o) env \<Rightarrow> bytes \<Rightarrow> int \<Rightarrow> int list \<Rightarrow> (('d, 'o) db_value list \<times> int) result" where
  "decode_values env data offset [] = Inr ([], offset)"
| "decode_values env data offset (len # lengths) =
     res_bind (decode env data offset) (\<lambda>(val, _).
     res_bind (decode_values env data (offset + len) lengths) (\<lambda>(vals, offset').
       Inr (val # vals, offset')))"

definition decode_row :: "('d, 'o) env \<Rightarrow> bytes \<Rightarrow> int \<Rightarrow> (('d, 'o) db_value list \<times> int) result" where
  "decode_row env data offset =
     res_bind (unpack_from data offset 2) (\<lambda>w.
       let num_values = unpack_uint True w; offset' = offset + 2
       in res_bind (unpack_words (nat num_values) data offset') (\<lambda>lengths.
            decode_values env data (offset' + 4 * num_values) lengths))"

definition encode_slot :: "('d, 'o) env \<Rightarrow> ('d, 'o) db_value \<Rightarrow> ('d, 'o) db_value \<Rightarrow> bytes result" where
  "encode_slot env key value =
     res_bind (encode env key) (\<lambda>key_data.
     res_bind (encode env value) (\<lambda>val_data.
     res_bind (struct_pack [(4, pack_uint True 4 (ilen key_data)), (4, pack_uint True 4 (ilen val_data))])
       (\<lambda>h. Inr (h @ key_data @ val_data))))"

definition decode_slot ::
  "('d, 'o) env \<Rightarrow> bytes \<Rightarrow> int \<Rightarrow> (('d, 'o) db_value \<times> ('d, 'o) db_value \<times> int) result" where
  "decode_slot env data offset =
     res_bind (unpack_from data offset 8) (\<lambda>h.
       let key_len = unpack_uint True (take 4 h); val_len = unpack_uint True (take 4 (drop 4 h));
           offset' = offset + 8
       in res_bind (decode env data offset') (\<lambda>(key, _).
          res_bind (decode env data (offset' + key_len)) (\<lambda>(val, _).
            Inr (key, val, offset' + key_len + val_len))))"

section \<open>Decoding what was encoded\<close>

text \<open>
  What the code relies on for one value: the pickle of an object loads as that object, a moment's
  timestamp converts back to it, a date is in the calendar's range, and an array has elements of single
  precision and its bytes make that array again.
\<close>

fun storable :: "('d, 'o) env \<Rightarrow> ('d, 'o) db_value \<Rightarrow> bool" where
  "storable env (VDatetime d) \<longleftrightarrow> dt_fromtimestamp env (dt_timestamp env d) = Inr d"
| "storable env (VDate days) \<longleftrightarrow> 1 \<le> days \<and> days \<le> 3652059"
| "storable env (VList x) \<longleftrightarrow>
     (\<forall>bs. pickle_dumps env (VList x) = Inr bs \<longrightarrow> pickle_loads env bs = Inr (VList x))"
| "storable env (VDict x) \<longleftrightarrow>
     (\<forall>bs. pickle_dumps env (VDict x) = Inr bs \<longrightarrow> pickle_loads env bs = Inr (VDict x))"
| "storable env (VOther x) \<longleftrightarrow>
     (\<forall>bs. pickle_dumps env (VOther x) = Inr bs \<longrightarrow> pickle_loads env bs = Inr (VOther x))"
| "storable env (VArray dtype shape data) \<longleftrightarrow> dtype = float32_dtype \<and> np_float32_array env shape data = Inr data"
| "storable env _ \<longleftrightarrow> True"

lemma decode_block_at:
  assumes "ilen data < 256 ^ 4" and "conv data = Inr v"
  shows "decode_block conv (pre @ rev (le_bytes 4 (ilen data)) @ data @ post) (ilen pre) =
    Inr (v, ilen pre + 4 + ilen data)"
proof -
  have "py_slice ((pre @ rev (le_bytes 4 (ilen data))) @ data @ post)
      (ilen (pre @ rev (le_bytes 4 (ilen data)))) (ilen (pre @ rev (le_bytes 4 (ilen data))) + ilen data) = data"
    by (rule slice_at)
  then show ?thesis
    using assms unpack_at [of "rev (le_bytes 4 (ilen data))" 4 pre "data @ post"]
    by (simp add: decode_block_def be_words)
qed

lemma decode_head:
  "decode env (pre @ (b # body) @ post) (ilen pre) =
   decode_tagged env (uint b) ((pre @ [b]) @ body @ post) (ilen (pre @ [b]))"
  by (simp add: decode_def add.commute)

lemma tagged_block_Inr:
  "0 \<le> tag \<Longrightarrow> tag < 256 \<Longrightarrow> tagged_block tag data = Inr bs \<longleftrightarrow>
   ilen data < 256 ^ 4 \<and> bs = word_of_int tag # rev (le_bytes 4 (ilen data)) @ data"
  by (auto simp: tagged_block_def pack_uint_tag pack_uint_def byte_order_def split: if_splits)

lemma tag_uint: "0 \<le> t \<Longrightarrow> t < 256 \<Longrightarrow> uint (word_of_int t :: byte) = t"
  by (simp add: uint_word_of_int)

lemma decode_tagged_block:
  assumes "tagged_block tag data = Inr bs" and "0 \<le> tag" and "tag < 256" and "conv data = Inr v"
    and "\<And>buf off. decode_tagged env tag buf off = decode_block conv buf off"
  shows "decode env (pre @ bs @ post) (ilen pre) = Inr (v, ilen pre + ilen bs)"
proof -
  from assms(1) have bs: "ilen data < 256 ^ 4" "bs = word_of_int tag # rev (le_bytes 4 (ilen data)) @ data"
    by (simp_all only: tagged_block_Inr [OF assms(2,3)])
  show ?thesis
    using decode_block_at [of data conv v "pre @ [word_of_int tag]" post] bs(1) assms(4)
    unfolding bs(2) decode_head by (simp add: assms(5) tag_uint assms(2,3))
qed

lemma words_of_encoded:
  "struct_pack (map (\<lambda>n. (4, pack_uint True 4 (f n))) xs) = Inr bs \<Longrightarrow>
   words_of (length xs) bs = map f xs \<and> length bs = 4 * length xs"
  by (induction xs arbitrary: bs)
    (auto simp: res_bind_eq_Inr pack_uint_Inr be_words split: sum.splits)

lemma decode_fixed:
  assumes "length w = n" and "0 \<le> tag" and "tag < 256"
    and "\<And>buf off. decode_tagged env tag buf off =
      res_bind (unpack_from buf off n) (\<lambda>w. res_bind (conv w) (\<lambda>v. Inr (v, off + int n)))"
    and "conv w = Inr v"
  shows "decode env (pre @ (word_of_int tag # w) @ post) (ilen pre) =
    Inr (v, ilen pre + ilen (word_of_int tag # w :: bytes))"
  using unpack_at [OF assms(1), of "pre @ [word_of_int tag]" post] assms
  unfolding decode_head by (simp add: tag_uint)

text \<open>The bytes of an array come back as elements of single precision, whatever they were.\<close>

lemma array_decode:
  assumes "encode env (VArray dtype shape data) = Inr bs"
  shows "decode env (pre @ bs @ post) (ilen pre) =
    res_bind (np_float32_array env shape data) (\<lambda>d. Inr (VArray float32_dtype shape d, ilen pre + ilen bs))"
proof -
  from assms obtain sd where
    sd: "struct_pack (map (\<lambda>n. (4, pack_uint True 4 n)) shape) = Inr sd"
    and len: "ilen shape < 256" "ilen data < 256 ^ 4"
    and bs: "bs = word_of_int 8 # rev (le_bytes 1 (ilen shape)) @ rev (le_bytes 4 (ilen data)) @ sd @ data"
    by (auto simp: res_bind_eq_Inr pack_uint_tag pack_uint_def byte_order_def split: if_splits)
  have ws: "words_of (length shape) sd = shape" "length sd = 4 * length shape"
    using words_of_encoded [of "\<lambda>n. n" shape sd] sd by simp_all
  let ?p1 = "pre @ [word_of_int 8]"
  let ?p2 = "?p1 @ rev (le_bytes 1 (ilen shape))"
  let ?p3 = "?p2 @ rev (le_bytes 4 (ilen data))"
  let ?buf = "pre @ bs @ post"
  have u1: "unpack_from ?buf (ilen ?p1) 1 = Inr (rev (le_bytes 1 (ilen shape)))"
    using unpack_at [of "rev (le_bytes 1 (ilen shape))" 1 ?p1 "rev (le_bytes 4 (ilen data)) @ sd @ data @ post"]
    by (simp add: bs)
  have u2: "unpack_from ?buf (ilen ?p2) 4 = Inr (rev (le_bytes 4 (ilen data)))"
    using unpack_at [of "rev (le_bytes 4 (ilen data))" 4 ?p2 "sd @ data @ post"] by (simp add: bs)
  have u3: "unpack_words (length shape) ?buf (ilen ?p3) = Inr shape"
    using unpack_at [of sd "4 * length shape" ?p3 "data @ post"] ws by (simp add: bs unpack_words_def)
  have u4: "py_slice ?buf (ilen (?p3 @ sd)) (ilen (?p3 @ sd) + ilen data) = data"
    using slice_at [of "?p3 @ sd" data post] by (simp add: bs)
  have "decode env ?buf (ilen pre) = decode_tagged env 8 ?buf (ilen ?p1)"
    using decode_head [of env pre "word_of_int 8"
        "rev (le_bytes 1 (ilen shape)) @ rev (le_bytes 4 (ilen data)) @ sd @ data" post] by (simp add: bs)
  also have "\<dots> = res_bind (np_float32_array env shape data) (\<lambda>d. Inr (VArray float32_dtype shape d, ilen pre + ilen bs))"
    using be_words [of "ilen shape" 1] u1 u2 u3 u4 len ws(2)
    by (simp add: decode_tagged_def be_words Let_def bs algebra_simps)
  finally show ?thesis .
qed

lemma encode_decode:
  assumes "encode env v = Inr bs" and "storable env v"
  shows "decode env (pre @ bs @ post) (ilen pre) = Inr (v, ilen pre + ilen bs)"
proof (cases v)
  case VNull
  then show ?thesis using assms(1)
    by (auto simp: pack_uint_tag decode_def decode_tagged_def)
next
  case (VBool b)
  with assms(1) have bs: "bs = word_of_int 5 # rev (le_bytes 1 (if b then 1 else 0))"
    by (cases b) (auto simp: pack_uint_def byte_order_def)
  show ?thesis unfolding bs VBool
    by (rule decode_fixed [where conv = "\<lambda>w. Inr (VBool (unpack_uint True w \<noteq> 0))" and n = 1])
      (auto simp: decode_tagged_def unpack_uint_def byte_order_def)
next
  case (VInt n)
  with assms(1) obtain w where w: "pack_sint True 8 n = Inr w" "bs = word_of_int 10 # w"
    by (auto simp: pack_uint_tag split: sum.splits)
  show ?thesis unfolding w(2) VInt using pack_sint_Inr [OF w(1)]
    by (intro decode_fixed [where conv = "\<lambda>w. Inr (VInt (unpack_sint True w))" and n = 8])
      (auto simp: decode_tagged_def)
next
  case (VFloat x)
  with assms(1) have bs: "bs = word_of_int 9 # pack_d True x" by (auto simp: pack_uint_tag)
  show ?thesis unfolding bs VFloat
    by (rule decode_fixed [where conv = "\<lambda>w. Inr (VFloat (unpack_d True w))" and n = 8])
      (auto simp: decode_tagged_def unpack_pack_d)
next
  case (VStr s)
  with assms(1) obtain data where d: "utf8_encode s = Inr data" "tagged_block 3 data = Inr bs"
    by (auto simp: res_bind_eq_Inr)
  show ?thesis unfolding VStr
    by (rule decode_tagged_block [OF d(2), where conv = "\<lambda>bs. res_bind (utf8_decode bs) (\<lambda>s. Inr (VStr s))"])
      (auto simp: decode_tagged_def utf8_decode_encode [OF d(1)])
next
  case (VBytes data)
  with assms(1) have "tagged_block 4 data = Inr bs" by simp
  then show ?thesis unfolding VBytes
    by (rule decode_tagged_block [where conv = "\<lambda>bs. Inr (VBytes bs)"]) (auto simp: decode_tagged_def)
next
  case (VDatetime d)
  with assms(1) have bs: "bs = word_of_int 11 # pack_d True (dt_timestamp env d)"
    by (auto simp: pack_uint_tag)
  show ?thesis unfolding bs VDatetime using assms(2) VDatetime
    by (intro decode_fixed [where conv = "\<lambda>w. res_bind (dt_fromtimestamp env (unpack_d True w))
        (\<lambda>d. Inr (VDatetime d))" and n = 8])
      (auto simp: decode_tagged_def unpack_pack_d res_bind_def split: sum.splits)
next
  case (VDate n)
  with assms(1) obtain w where w: "pack_sint True 4 n = Inr w" "bs = word_of_int 12 # w"
    by (auto simp: pack_uint_tag split: sum.splits)
  show ?thesis unfolding w(2) VDate using pack_sint_Inr [OF w(1)] assms(2) VDate
    by (intro decode_fixed [where conv = "\<lambda>w. date_fromordinal (unpack_sint True w)" and n = 4])
      (auto simp: decode_tagged_def date_fromordinal_def)
next
  case (VList x)
  with assms(1) obtain data where d: "pickle_dumps env (VList x) = Inr data" "tagged_block 6 data = Inr bs"
    by (auto simp: res_bind_eq_Inr)
  show ?thesis unfolding VList using assms(2) VList d(1)
    by (intro decode_tagged_block [OF d(2), where conv = "pickle_loads env"]) (auto simp: decode_tagged_def)
next
  case (VDict x)
  with assms(1) obtain data where d: "pickle_dumps env (VDict x) = Inr data" "tagged_block 7 data = Inr bs"
    by (auto simp: res_bind_eq_Inr)
  show ?thesis unfolding VDict using assms(2) VDict d(1)
    by (intro decode_tagged_block [OF d(2), where conv = "pickle_loads env"]) (auto simp: decode_tagged_def)
next
  case (VOther x)
  with assms(1) obtain data where d: "pickle_dumps env (VOther x) = Inr data" "tagged_block 7 data = Inr bs"
    by (auto simp: res_bind_eq_Inr)
  show ?thesis unfolding VOther using assms(2) VOther d(1)
    by (intro decode_tagged_block [OF d(2), where conv = "pickle_loads env"]) (auto simp: decode_tagged_def)
next
  case (VArray dtype shape data)
  then show ?thesis using array_decode [of env dtype shape data bs pre post] assms by simp
qed

section \<open>The serializer as a codec\<close>

definition ser_bytes :: "('d, 'o) env \<Rightarrow> ('d, 'o) db_value \<Rightarrow> bytes" where
  "ser_bytes env v = (case encode env v of Inl _ \<Rightarrow> [] | Inr bs \<Rightarrow> bs)"

definition ser_valid :: "('d, 'o) env \<Rightarrow> ('d, 'o) db_value \<Rightarrow> bool" where
  "ser_valid env v \<longleftrightarrow> storable env v \<and> (\<exists>bs. encode env v = Inr bs)"

interpretation ser: codec "ser_bytes env" "decode env" "ser_valid env" for env :: "('d, 'o) env"
  by unfold_locales (auto simp: ser_valid_def ser_bytes_def encode_decode)

lemma encode_values_eq:
  "encode_values env vs = Inr bss \<longleftrightarrow> (\<forall>v \<in> set vs. \<exists>bs. encode env v = Inr bs) \<and> bss = map (ser_bytes env) vs"
  by (induction vs arbitrary: bss) (auto simp: res_bind_eq_Inr ser_bytes_def)

lemma decode_values_at:
  "list_all (ser_valid env) vs \<Longrightarrow>
   decode_values env (pre @ concat (map (ser_bytes env) vs) @ post) (ilen pre)
     (map (\<lambda>v. ilen (ser_bytes env v)) vs) =
   Inr (vs, ilen pre + ilen (concat (map (ser_bytes env) vs)))"
proof (induction vs arbitrary: pre)
  case (Cons v vs)
  have "decode env (pre @ ser_bytes env v @ concat (map (ser_bytes env) vs) @ post) (ilen pre) =
      Inr (v, ilen pre + ilen (ser_bytes env v))"
    using Cons.prems by (intro ser.dec_enc) simp
  moreover have "decode_values env ((pre @ ser_bytes env v) @ concat (map (ser_bytes env) vs) @ post)
      (ilen (pre @ ser_bytes env v)) (map (\<lambda>v. ilen (ser_bytes env v)) vs) =
      Inr (vs, ilen (pre @ ser_bytes env v) + ilen (concat (map (ser_bytes env) vs)))"
    using Cons.prems by (intro Cons.IH) simp
  ultimately show ?case by simp
qed simp

text \<open>
  C37. Serializer round trip: a value that \<^verbatim>\<open>encode\<close> accepts (integers within 64 bits, text
  without surrogates, lengths within 32 bits) and that is \<open>storable\<close> is returned by \<^verbatim>\<open>decode\<close> from wherever its
  bytes stand, together with the offset behind them, and no encoding of such a value is a proper prefix of another.
  Storable is every null, truth value, number, text and byte string; a date of the calendar; a pickled object and a
  moment for which the library's own round trip holds; and an array with elements of single precision.  For an
  array of any other element type the bytes are written without the type and read as single precision: what comes
  back, if anything, is another array.
\<close>
theorem serializer_roundtrip:
  assumes "encode env v = Inr bs"
  shows "(storable env v \<longrightarrow>
      decode env (pre @ bs @ post) (ilen pre) = Inr (v, ilen pre + ilen bs) \<and>
      (\<forall>v' bs' p q. encode env v' = Inr bs' \<and> storable env v' \<and> bs @ p = bs' @ q \<longrightarrow> v = v' \<and> p = q)) \<and>
    (\<forall>dtype shape data. v = VArray dtype shape data \<longrightarrow>
      decode env (pre @ bs @ post) (ilen pre) =
        res_bind (np_float32_array env shape data) (\<lambda>d. Inr (VArray float32_dtype shape d, ilen pre + ilen bs)) \<and>
      (dtype \<noteq> float32_dtype \<longrightarrow> (\<forall>offset. decode env (pre @ bs @ post) (ilen pre) \<noteq> Inr (v, offset))))"
proof (intro conjI impI allI; (elim conjE)?)
  show "decode env (pre @ bs @ post) (ilen pre) = Inr (v, ilen pre + ilen bs)" if "storable env v"
    by (rule encode_decode [OF assms that])
  fix v' bs' p q
  assume "storable env v" "encode env v' = Inr bs'" "storable env v'" "bs @ p = bs' @ q"
  with assms have "v = v' \<and> p = q"
    by (intro ser.enc_prefix_free [of env]) (auto simp: ser_valid_def ser_bytes_def)
  then show "v = v'" "p = q" by simp_all
next
  fix dtype shape data
  assume v: "v = VArray dtype shape data"
  have dec: "decode env (pre @ bs @ post) (ilen pre) =
      res_bind (np_float32_array env shape data) (\<lambda>d. Inr (VArray float32_dtype shape d, ilen pre + ilen bs))"
    using array_decode [of env dtype shape data bs pre post] assms v by simp
  then show "decode env (pre @ bs @ post) (ilen pre) =
      res_bind (np_float32_array env shape data) (\<lambda>d. Inr (VArray float32_dtype shape d, ilen pre + ilen bs))" .
  show "decode env (pre @ bs @ post) (ilen pre) \<noteq> Inr (v, offset)" if "dtype \<noteq> float32_dtype" for offset
    using that by (auto simp: dec v res_bind_eq_Inr)
qed

text \<open>A library for the examples: it knows no pickles, and a moment is its timestamp.\<close>

definition plain_env :: "(pyfloat, unit) env" where
  "plain_env =
     \<lparr>pickle_dumps = (\<lambda>_. Inl TypeError), pickle_loads = (\<lambda>_. Inl ValueError),
      dt_timestamp = (\<lambda>t. t), dt_fromtimestamp = (\<lambda>t. Inr t),
      np_float32_array = (\<lambda>shape data. Inr data)\<rparr>"

theorem serializer_roundtrip_witness:
  "(\<exists>bs. encode plain_env (VStr [0x48, 0xE9, 0x1F600]) = Inr bs \<and>
    decode plain_env ([7] @ bs @ [9]) 1 = Inr (VStr [0x48, 0xE9, 0x1F600], 1 + ilen bs)) \<and>
   (\<exists>bs. encode plain_env (VArray ''<f8'' [1] [0, 0, 0, 0, 0, 0, 240, 63]) = Inr bs \<and>
    decode plain_env ([7] @ bs @ [9]) 1 = Inr (VArray ''<f4'' [1] [0, 0, 0, 0, 0, 0, 240, 63], 1 + ilen bs))"
proof
  obtain bs where bs: "encode plain_env (VStr [0x48, 0xE9, 0x1F600]) = Inr bs"
    by (simp add: utf8_encode_def utf8_char_def surrogate_def tagged_block_def pack_uint_tag
        pack_uint_def [of True 4])
  have "decode plain_env ([7] @ bs @ [9]) (ilen [7 :: byte]) =
      Inr (VStr [0x48, 0xE9, 0x1F600], ilen [7 :: byte] + ilen bs)"
    using serializer_roundtrip [OF bs, of "[7]" "[9]"] by simp
  then show "\<exists>bs. encode plain_env (VStr [0x48, 0xE9, 0x1F600]) = Inr bs \<and>
      decode plain_env ([7] @ bs @ [9]) 1 = Inr (VStr [0x48, 0xE9, 0x1F600], 1 + ilen bs)"
    using bs by simp
  obtain bs where bs: "encode plain_env (VArray ''<f8'' [1] [0, 0, 0, 0, 0, 0, 240, 63]) = Inr bs"
    by (simp add: pack_uint_tag pack_uint_def [of True 4] pack_uint_def [of True 1])
  have "decode plain_env ([7] @ bs @ [9]) (ilen [7 :: byte]) =
      Inr (VArray ''<f4'' [1] [0, 0, 0, 0, 0, 0, 240, 63], ilen [7 :: byte] + ilen bs)"
    using serializer_roundtrip [OF bs, of "[7]" "[9]"] by (simp add: plain_env_def float32_dtype_def)
  then show "\<exists>bs. encode plain_env (VArray ''<f8'' [1] [0, 0, 0, 0, 0, 0, 240, 63]) = Inr bs \<and>
      decode plain_env ([7] @ bs @ [9]) 1 = Inr (VArray ''<f4'' [1] [0, 0, 0, 0, 0, 0, 240, 63], 1 + ilen bs)"
    using bs by simp
qed

text \<open>
  Row and slot round trip: \<^verbatim>\<open>decode_row\<close> returns exactly the values of a row that
  \<^verbatim>\<open>encode_row\<close> accepted, and \<^verbatim>\<open>decode_slot\<close> key and value of a slot, each with the offset behind
  the record, wherever it stands in the buffer.
\<close>
theorem row_slot_roundtrip:
  "(encode_row env vs = Inr row \<and> list_all (storable env) vs \<longrightarrow>
      decode_row env (pre @ row @ post) (ilen pre) = Inr (vs, ilen pre + ilen row)) \<and>
   (encode_slot env k v = Inr slot \<and> storable env k \<and> storable env v \<longrightarrow>
      decode_slot env (pre @ slot @ post) (ilen pre) = Inr (k, v, ilen pre + ilen slot))"
proof (intro conjI impI)
  assume a: "encode_row env vs = Inr row \<and> list_all (storable env) vs"
  then obtain h where enc: "\<forall>v \<in> set vs. \<exists>bs. encode env v = Inr bs"
    and n: "ilen vs < 256 ^ 2"
    and h: "struct_pack (map (\<lambda>ev. (4, pack_uint True 4 (ilen ev))) (map (ser_bytes env) vs)) = Inr h"
    and row: "row = rev (le_bytes 2 (ilen vs)) @ h @ concat (map (ser_bytes env) vs)"
    by (auto simp: encode_row_def res_bind_eq_Inr encode_values_eq pack_uint_def [of True 2]
        byte_order_def split: if_splits)
  have valid: "list_all (ser_valid env) vs"
    using a enc by (auto simp: list_all_iff ser_valid_def)
  have ws: "words_of (length vs) h = map (\<lambda>v. ilen (ser_bytes env v)) vs" "length h = 4 * length vs"
    using words_of_encoded [of ilen "map (ser_bytes env) vs" h] h by (simp_all add: comp_def)
  let ?p1 = "pre @ rev (le_bytes 2 (ilen vs))"
  let ?buf = "pre @ row @ post"
  have u1: "unpack_from ?buf (ilen pre) 2 = Inr (rev (le_bytes 2 (ilen vs)))"
    using unpack_at [of "rev (le_bytes 2 (ilen vs))" 2 pre] by (simp add: row)
  have u2: "unpack_words (length vs) ?buf (ilen ?p1) = Inr (map (\<lambda>v. ilen (ser_bytes env v)) vs)"
    using unpack_at [of h "4 * length vs" ?p1] ws by (simp add: row unpack_words_def)
  have u3: "decode_values env ?buf (ilen (?p1 @ h)) (map (\<lambda>v. ilen (ser_bytes env v)) vs) =
      Inr (vs, ilen (?p1 @ h) + ilen (concat (map (ser_bytes env) vs)))"
    using decode_values_at [OF valid, of "?p1 @ h" post] by (simp add: row)
  show "decode_row env ?buf (ilen pre) = Inr (vs, ilen pre + ilen row)"
    using u1 u2 u3 n ws(2)
    by (simp add: decode_row_def be_words Let_def row algebra_simps)
next
  assume a: "encode_slot env k v = Inr slot \<and> storable env k \<and> storable env v"
  then obtain kd vd where e: "encode env k = Inr kd" "encode env v = Inr vd"
    and len: "ilen kd < 256 ^ 4" "ilen vd < 256 ^ 4"
    and slot: "slot = rev (le_bytes 4 (ilen kd)) @ rev (le_bytes 4 (ilen vd)) @ kd @ vd"
    by (auto simp: encode_slot_def res_bind_eq_Inr pack_uint_def byte_order_def split: if_splits)
  let ?h = "rev (le_bytes 4 (ilen kd)) @ rev (le_bytes 4 (ilen vd))"
  let ?buf = "pre @ slot @ post"
  have u1: "unpack_from ?buf (ilen pre) 8 = Inr ?h"
    using unpack_at [of ?h 8 pre] by (simp add: slot)
  have u2: "decode env ?buf (ilen (pre @ ?h)) = Inr (k, ilen (pre @ ?h) + ilen kd)"
    using encode_decode [OF e(1), of "pre @ ?h" "vd @ post"] a by (simp add: slot)
  have u3: "decode env ?buf (ilen (pre @ ?h @ kd)) = Inr (v, ilen (pre @ ?h @ kd) + ilen vd)"
    using encode_decode [OF e(2), of "pre @ ?h @ kd" post] a by (simp add: slot)
  show "decode_slot env ?buf (ilen pre) = Inr (k, v, ilen pre + ilen slot)"
    using u1 u2 u3 len by (simp add: decode_slot_def be_words Let_def slot algebra_simps)
qed

theorem row_slot_roundtrip_witness:
  "\<exists>row. encode_row plain_env [VInt (- 5), VNull] = Inr row \<and>
    decode_row plain_env row 0 = Inr ([VInt (- 5), VNull], ilen row)"
proof -
  obtain row where "encode_row plain_env [VInt (- 5), VNull] = Inr row"
    by (simp add: encode_row_def pack_uint_def pack_sint_def)
  then show ?thesis
    using row_slot_roundtrip [of plain_env "[VInt (- 5), VNull]" row "[]" "[]" VNull VNull "[]"] by simp
qed

end
