(* ===== verification/Wal.thy ===== *)
theory Wal
  imports DbPage DbSerializer "HOL-Library.AList"
begin

text \<open>
  The write-ahead log of the database, \<^verbatim>\<open>database/src/storage/wal.py\<close>: log records with their
  binary form, and the log with its in-memory index and its files.  The directory is an association
  list from file numbers to contents (the file names are the zero-padded numbers, so they sort like
  the numbers); input and output do not fail in the model.  The recovery callback is represented by
  the list of records it is called with.
\<close>

section \<open>Log records\<close>

datatype log_type =
    LogBEGIN | LogCOMMIT | LogABORT | LogINSERT | LogDELETE | LogUPDATE
  | LogCHECKPOINT_BEGIN | LogCHECKPOINT_END | LogCLR

fun log_type_code :: "log_type \<Rightarrow> int" where
  "log_type_code LogBEGIN = 0"
| "log_type_code LogCOMMIT = 1"
| "log_type_code LogABORT = 2"
| "log_type_code LogINSERT = 3"
| "log_type_code LogDELETE = 4"
| "log_type_code LogUPDATE = 5"
| "log_type_code LogCHECKPOINT_BEGIN = 6"
| "log_type_code LogCHECKPOINT_END = 7"
| "log_type_code LogCLR = 8"

definition log_type_of :: "int \<Rightarrow> log_type result" where
  "log_type_of n =
     (case find (\<lambda>t. log_type_code t = n)
        [LogBEGIN, LogCOMMIT, LogABORT, LogINSERT, LogDELETE, LogUPDATE, LogCHECKPOINT_BEGIN,
         LogCHECKPOINT_END, LogCLR] of
        None \<Rightarrow> Inl ValueError
      | Some t \<Rightarrow> Inr t)"

text \<open>\<^verbatim>\<open>None\<close> as key or value is the database value \<^const>\<open>VNull\<close>.\<close>

record ('d, 'o) log_record =
  lr_lsn :: int
  lr_log_type :: log_type
  lr_transaction_id :: int
  lr_page_id :: "page_id option"
  lr_key :: "('d, 'o) db_value"
  lr_old_value :: "('d, 'o) db_value"
  lr_new_value :: "('d, 'o) db_value"
  lr_prev_lsn :: int
  lr_table_id :: int

definition log_record_new ::
  "log_type \<Rightarrow> int \<Rightarrow> page_id option \<Rightarrow> ('d, 'o) db_value \<Rightarrow> ('d, 'o) db_value \<Rightarrow> ('d, 'o) db_value \<Rightarrow>
   ('d, 'o) log_record" where
  "log_record_new log_type transaction_id pid key old_value new_value =
     \<lparr>lr_lsn = 0, lr_log_type = log_type, lr_transaction_id = transaction_id, lr_page_id = pid,
      lr_key = key, lr_old_value = old_value, lr_new_value = new_value, lr_prev_lsn = 0,
      lr_table_id = 0\<rparr>"

text \<open>\<^verbatim>\<open>struct.calcsize("!QIBIIIQQ")\<close>.\<close>

definition LOG_HEADER_SIZE :: nat where
  "LOG_HEADER_SIZE = 41"

definition encode_optional :: "('d, 'o) env \<Rightarrow> ('d, 'o) db_value \<Rightarrow> bytes result" where
  "encode_optional env v = (if v \<noteq> VNull then encode env v else Inr [])"

definition serialize :: "('d, 'o) env \<Rightarrow> ('d, 'o) log_record \<Rightarrow> bytes result" where
  "serialize env r =
     (let page_num = (case lr_page_id r of None \<Rightarrow> - 1 | Some pid \<Rightarrow> pid_page_num pid);
          page_table_id = (case lr_page_id r of None \<Rightarrow> lr_table_id r | Some pid \<Rightarrow> pid_table_id pid)
      in res_bind (encode_optional env (lr_key r)) (\<lambda>key_data.
         res_bind (encode_optional env (lr_old_value r)) (\<lambda>old_data.
         res_bind (encode_optional env (lr_new_value r)) (\<lambda>new_data.
         res_bind (struct_pack
           [(8, pack_uint True 8 (lr_lsn r)),
            (4, pack_uint True 4 (log_type_code (lr_log_type r))),
            (1, pack_uint True 1 (lr_transaction_id r)),
            (4, pack_uint True 4 page_num),
            (4, pack_uint True 4 page_table_id),
            (4, pack_uint True 4 (lr_prev_lsn r)),
            (8, pack_uint True 8 (ilen key_data)),
            (8, pack_uint True 8 (ilen old_data))]) (\<lambda>header.
         res_bind (struct_pack [(4, pack_uint True 4 (ilen new_data))]) (\<lambda>trailer.
           Inr (header @ key_data @ old_data @ new_data @ trailer)))))))"

text \<open>A field that is present when its length is positive: the value and the next offset.\<close>

definition decode_optional ::
  "('d, 'o) env \<Rightarrow> bytes \<Rightarrow> int \<Rightarrow> int \<Rightarrow> (('d, 'o) db_value \<times> int) result" where
  "decode_optional env data offset len =
     (if len > 0
      then res_bind (decode env data offset) (\<lambda>(v, _). Inr (v, offset + len))
      else Inr (VNull, offset))"

definition deserialize :: "('d, 'o) env \<Rightarrow> bytes \<Rightarrow> int \<Rightarrow> (('d, 'o) log_record \<times> int) result" where
  "deserialize env data offset =
     res_bind (unpack_from data offset LOG_HEADER_SIZE) (\<lambda>h.
       let lsn = unpack_uint True (take 8 h);
           log_type_int = unpack_uint True (take 4 (drop 8 h));
           transaction_id = unpack_uint True (take 1 (drop 12 h));
           page_num = unpack_uint True (take 4 (drop 13 h));
           page_table_id = unpack_uint True (take 4 (drop 17 h));
           prev_lsn = unpack_uint True (take 4 (drop 21 h));
           key_len = unpack_uint True (take 8 (drop 25 h));
           old_len = unpack_uint True (take 8 (drop 33 h));
           offset1 = offset + int LOG_HEADER_SIZE
       in res_bind (unpack_from data offset1 4) (\<lambda>w.
          let new_len = unpack_uint True w; offset2 = offset1 + 4
          in res_bind (decode_optional env data offset2 key_len) (\<lambda>(key, offset3).
             res_bind (decode_optional env data offset3 old_len) (\<lambda>(old_value, offset4).
             res_bind (decode_optional env data offset4 new_len) (\<lambda>(new_value, offset5).
             res_bind (log_type_of log_type_int) (\<lambda>log_type.
               Inr (\<lparr>lr_lsn = lsn, lr_log_type = log_type, lr_transaction_id = transaction_id,
                     lr_page_id = (if page_num \<ge> 0
                       then Some \<lparr>pid_page_num = page_num, pid_table_id = page_table_id\<rparr> else None),
                     lr_key = key, lr_old_value = old_value, lr_new_value = new_value,
                     lr_prev_lsn = prev_lsn, lr_table_id = page_table_id\<rparr>, offset5)))))))"

section \<open>The log\<close>

record ('d, 'o) wal =
  wal_current_lsn :: int
  wal_flushed_lsn :: int
  wal_log_file_num :: int
  wal_log_file :: "int option"
  wal_records :: "(int \<times> ('d, 'o) log_record) list"
  wal_max_file_size :: int
  wal_disk :: "(int \<times> bytes) list"

definition MAX_FILE_SIZE :: int where
  "MAX_FILE_SIZE = 64 * 1024 * 1024"

definition file_content :: "(int \<times> bytes) list \<Rightarrow> int \<Rightarrow> bytes" where
  "file_content disk n = (case map_of disk n of None \<Rightarrow> [] | Some bs \<Rightarrow> bs)"

text \<open>Opening in mode \<^verbatim>\<open>"ab"\<close> creates a missing file and keeps an existing one.\<close>

definition open_log_file :: "('d, 'o) wal \<Rightarrow> ('d, 'o) wal" where
  "open_log_file w =
     (let n = wal_log_file_num w
      in w\<lparr>wal_log_file := Some n, wal_log_file_num := n + 1,
           wal_disk := AList.update n (file_content (wal_disk w) n) (wal_disk w)\<rparr>)"

definition wal_new :: "(int \<times> bytes) list \<Rightarrow> ('d, 'o) wal" where
  "wal_new disk =
     open_log_file \<lparr>wal_current_lsn = 0, wal_flushed_lsn = 0, wal_log_file_num = 0,
       wal_log_file = None, wal_records = [], wal_max_file_size = MAX_FILE_SIZE, wal_disk = disk\<rparr>"

definition rotate_log :: "('d, 'o) wal \<Rightarrow> ('d, 'o) wal" where
  "rotate_log w =
     (case wal_log_file w of
        None \<Rightarrow> w
      | Some n \<Rightarrow> if ilen (file_content (wal_disk w) n) \<ge> wal_max_file_size w then open_log_file w else w)"

definition write_log :: "('d, 'o) wal \<Rightarrow> bytes \<Rightarrow> ('d, 'o) wal" where
  "write_log w data =
     (case wal_log_file w of
        None \<Rightarrow> w
      | Some n \<Rightarrow> w\<lparr>wal_disk := AList.update n (file_content (wal_disk w) n @ data) (wal_disk w)\<rparr>)"

definition append_record :: "('d, 'o) env \<Rightarrow> ('d, 'o) wal \<Rightarrow> ('d, 'o) log_record \<Rightarrow> int result \<times> ('d, 'o) wal" where
  "append_record env w record =
     (let lsn = wal_current_lsn w + 1;
          record' = record\<lparr>lr_lsn := lsn\<rparr>;
          w1 = w\<lparr>wal_current_lsn := lsn, wal_records := AList.update lsn record' (wal_records w)\<rparr>
      in case serialize env record' of
           Inl e \<Rightarrow> (Inl e, w1)
         | Inr data \<Rightarrow>
             let w2 = write_log w1 data;
                 w3 = w2\<lparr>wal_flushed_lsn := wal_current_lsn w2\<rparr>
             in (Inr lsn, rotate_log w3))"

definition begin_transaction :: "('d, 'o) env \<Rightarrow> ('d, 'o) wal \<Rightarrow> int \<Rightarrow> int result \<times> ('d, 'o) wal" where
  "begin_transaction env w txn = append_record env w (log_record_new LogBEGIN txn None VNull VNull VNull)"

definition commit_transaction :: "('d, 'o) env \<Rightarrow> ('d, 'o) wal \<Rightarrow> int \<Rightarrow> int result \<times> ('d, 'o) wal" where
  "commit_transaction env w txn = append_record env w (log_record_new LogCOMMIT txn None VNull VNull VNull)"

definition abort_transaction :: "('d, 'o) env \<Rightarrow> ('d, 'o) wal \<Rightarrow> int \<Rightarrow> int result \<times> ('d, 'o) wal" where
  "abort_transaction env w txn = append_record env w (log_record_new LogABORT txn None VNull VNull VNull)"

definition log_insert ::
  "('d, 'o) env \<Rightarrow> ('d, 'o) wal \<Rightarrow> int \<Rightarrow> page_id \<Rightarrow> ('d, 'o) db_value \<Rightarrow> ('d, 'o) db_value \<Rightarrow>
   int result \<times> ('d, 'o) wal" where
  "log_insert env w txn pid key val =
     append_record env w (log_record_new LogINSERT txn (Some pid) key VNull val)"

definition log_delete ::
  "('d, 'o) env \<Rightarrow> ('d, 'o) wal \<Rightarrow> int \<Rightarrow> page_id \<Rightarrow> ('d, 'o) db_value \<Rightarrow> ('d, 'o) db_value \<Rightarrow>
   int result \<times> ('d, 'o) wal" where
  "log_delete env w txn pid key old =
     append_record env w (log_record_new LogDELETE txn (Some pid) key old VNull)"

definition log_update ::
  "('d, 'o) env \<Rightarrow> ('d, 'o) wal \<Rightarrow> int \<Rightarrow> page_id \<Rightarrow> ('d, 'o) db_value \<Rightarrow> ('d, 'o) db_value \<Rightarrow>
   ('d, 'o) db_value \<Rightarrow> int result \<times> ('d, 'o) wal" where
  "log_update env w txn pid key old new =
     append_record env w (log_record_new LogUPDATE txn (Some pid) key old new)"

definition get_record :: "('d, 'o) wal \<Rightarrow> int \<Rightarrow> ('d, 'o) log_record option" where
  "get_record w lsn = map_of (wal_records w) lsn"

definition get_records_since :: "('d, 'o) wal \<Rightarrow> int \<Rightarrow> ('d, 'o) log_record list" where
  "get_records_since w lsn =
     map snd (filter (\<lambda>(l, _). l > lsn) (sort_key fst (wal_records w)))"

definition truncate :: "('d, 'o) wal \<Rightarrow> int \<Rightarrow> ('d, 'o) wal" where
  "truncate w up_to_lsn = w\<lparr>wal_records := filter (\<lambda>(l, _). l > up_to_lsn) (wal_records w)\<rparr>"

text \<open>
  The inner loop of \<^verbatim>\<open>replay\<close> over one file, with the records handed to the callback.  Errors of
  the listed classes end the loop, any other ends \<^verbatim>\<open>replay\<close>.
\<close>

definition swallowed :: "py_error \<Rightarrow> bool" where
  "swallowed e \<longleftrightarrow> e \<in> {StructError, ValueError, IndexError}"

definition note_record :: "('d, 'o) wal \<Rightarrow> ('d, 'o) log_record \<Rightarrow> ('d, 'o) wal" where
  "note_record w r =
     w\<lparr>wal_records := AList.update (lr_lsn r) r (wal_records w),
       wal_current_lsn := max (wal_current_lsn w) (lr_lsn r)\<rparr>"

lemma decode_optional_offset:
  "decode_optional env data off len = Inr (v, off') \<Longrightarrow> 0 \<le> len \<Longrightarrow> off' = off + len"
  by (auto simp: decode_optional_def res_bind_eq_Inr split: if_splits)

lemma deserialize_advances: "deserialize env data offset = Inr (r, offset') \<Longrightarrow> offset < offset'"
  apply (clarsimp simp: deserialize_def Let_def res_bind_eq_Inr LOG_HEADER_SIZE_def)
  apply (drule decode_optional_offset, rule unpack_uint_bounds)+
  apply (simp add: unpack_uint_bounds add_pos_nonneg)
  done

function replay_file ::
  "('d, 'o) env \<Rightarrow> bytes \<Rightarrow> int \<Rightarrow> ('d, 'o) wal \<Rightarrow> ('d, 'o) log_record list \<times> unit result \<times> ('d, 'o) wal"
where
  "replay_file env data offset w =
     (if \<not> offset < ilen data then ([], Inr (), w)
      else case deserialize env data offset of
          Inl e \<Rightarrow> ([], if swallowed e then Inr () else Inl e, w)
        | Inr (r, offset') \<Rightarrow>
            (let (rs, res, w') = replay_file env data offset' (note_record w r) in (r # rs, res, w')))"
  by pat_completeness auto
termination
  by (relation "measure (\<lambda>(_, data, offset, _). nat (ilen data - offset))")
    (auto dest: deserialize_advances)

declare replay_file.simps [simp del]

fun replay_files ::
  "('d, 'o) env \<Rightarrow> bytes list \<Rightarrow> ('d, 'o) wal \<Rightarrow> ('d, 'o) log_record list \<times> unit result \<times> ('d, 'o) wal"
where
  "replay_files env [] w = ([], Inr (), w)"
| "replay_files env (data # files) w =
     (case replay_file env data 0 w of
        (rs, Inl e, w') \<Rightarrow> (rs, Inl e, w')
      | (rs, Inr _, w') \<Rightarrow>
          (let (rs', res, w'') = replay_files env files w' in (rs @ rs', res, w'')))"

definition replay ::
  "('d, 'o) env \<Rightarrow> ('d, 'o) wal \<Rightarrow> ('d, 'o) log_record list \<times> unit result \<times> ('d, 'o) wal" where
  "replay env w =
     (case replay_files env (map snd (sort_key fst (wal_disk w))) w of
        (rs, Inl e, w') \<Rightarrow> (rs, Inl e, w')
      | (rs, Inr _, w') \<Rightarrow> (rs, Inr (), w'\<lparr>wal_flushed_lsn := wal_current_lsn w'\<rparr>))"

definition wal_close :: "('d, 'o) wal \<Rightarrow> ('d, 'o) wal" where
  "wal_close w = w\<lparr>wal_log_file := None\<rparr>"

section \<open>Appending\<close>

lemma rotate_log_keeps [simp]:
  "wal_current_lsn (rotate_log w) = wal_current_lsn w"
  "wal_flushed_lsn (rotate_log w) = wal_flushed_lsn w"
  "wal_records (rotate_log w) = wal_records w"
  by (simp_all add: rotate_log_def open_log_file_def Let_def split: option.split)

lemma write_log_keeps [simp]:
  "wal_current_lsn (write_log w d) = wal_current_lsn w"
  "wal_records (write_log w d) = wal_records w"
  "wal_flushed_lsn (write_log w d) = wal_flushed_lsn w"
  "wal_log_file (write_log w d) = wal_log_file w"
  by (simp_all add: write_log_def split: option.split)

lemma file_content_update [simp]:
  "file_content (AList.update n bs disk) k = (if k = n then bs else file_content disk k)"
  by (simp add: file_content_def update_conv')

lemma file_content_rotate [simp]: "file_content (wal_disk (rotate_log w)) k = file_content (wal_disk w) k"
  by (simp add: rotate_log_def open_log_file_def Let_def split: option.split)

text \<open>
  What holds of a log between calls: a record is filed under its own sequence number, no number is
  used twice, numbers run up to the current one, and nothing beyond it counts as flushed.
\<close>

definition wal_inv :: "('d, 'o) wal \<Rightarrow> bool" where
  "wal_inv w \<longleftrightarrow>
     wal_flushed_lsn w \<le> wal_current_lsn w \<and> distinct (map fst (wal_records w)) \<and>
     (\<forall>l r. map_of (wal_records w) l = Some r \<longrightarrow> lr_lsn r = l \<and> l \<le> wal_current_lsn w)"

lemma wal_inv_file:
  assumes "wal_inv w" and "lr_lsn r = l" and "wal_current_lsn w' = max (wal_current_lsn w) l"
    and "wal_records w' = AList.update l r (wal_records w)" and "wal_flushed_lsn w' \<le> wal_current_lsn w'"
  shows "wal_inv w'"
proof -
  have "distinct (map fst (wal_records w'))"
    using assms(1) by (simp add: wal_inv_def assms(4) distinct_update)
  moreover have "lr_lsn q = k \<and> k \<le> wal_current_lsn w'" if "map_of (wal_records w') k = Some q" for k q
    using that assms(1,2,3) by (fastforce simp: assms(4) update_conv wal_inv_def split: if_splits)
  ultimately show ?thesis using assms(5) by (auto simp: wal_inv_def)
qed

lemma append_effect:
  "wal_records (snd (append_record env w r)) =
     AList.update (wal_current_lsn w + 1) (r\<lparr>lr_lsn := wal_current_lsn w + 1\<rparr>) (wal_records w)"
  "wal_current_lsn (snd (append_record env w r)) = wal_current_lsn w + 1"
  by (simp_all add: append_record_def Let_def split: sum.split)

lemma append_inv: "wal_inv w \<Longrightarrow> wal_inv (snd (append_record env w r))"
proof (rule wal_inv_file [of w "r\<lparr>lr_lsn := wal_current_lsn w + 1\<rparr>" "wal_current_lsn w + 1"])
  assume "wal_inv w"
  then show "wal_flushed_lsn (snd (append_record env w r)) \<le> wal_current_lsn (snd (append_record env w r))"
    by (auto simp: append_record_def Let_def wal_inv_def split: sum.split)
qed (simp_all add: append_effect)

lemma map_of_filter_key:
  "map_of (filter (\<lambda>(l, _). P l) xs) l = (if P l then map_of xs l else None)"
  by (induction xs) auto

lemma truncate_inv: "wal_inv w \<Longrightarrow> wal_inv (truncate w l)"
  by (auto simp: wal_inv_def truncate_def map_of_filter_key distinct_map_filter split: if_splits)

lemma note_record_inv: "wal_inv w \<Longrightarrow> wal_inv (note_record w r)"
  by (rule wal_inv_file [of w r "lr_lsn r"]) (auto simp: note_record_def wal_inv_def)

lemma replay_file_inv: "wal_inv w \<Longrightarrow> wal_inv (snd (snd (replay_file env data off w)))"
proof (induction env data off w rule: replay_file.induct)
  case (1 env data offset w)
  show ?case
  proof (cases "offset < ilen data \<and> (\<exists>p. deserialize env data offset = Inr p)")
    case True
    then obtain r off' where d: "deserialize env data offset = Inr (r, off')" by auto
    have "wal_inv (snd (snd (replay_file env data off' (note_record w r))))"
      using "1.IH" [of "(r, off')" r off'] True d note_record_inv [OF "1.prems"] by simp
    then show ?thesis using True d by (subst replay_file.simps) (simp add: case_prod_beta Let_def)
  next
    case False
    then show ?thesis using "1.prems" by (subst replay_file.simps) (auto split: sum.split)
  qed
qed

lemma replay_files_inv: "wal_inv w \<Longrightarrow> wal_inv (snd (snd (replay_files env files w)))"
proof (induction files arbitrary: w)
  case (Cons data files)
  obtain rs res w1 where f: "replay_file env data 0 w = (rs, res, w1)" by (cases "replay_file env data 0 w") auto
  then have "wal_inv w1" using replay_file_inv [OF Cons.prems, of env data 0] by simp
  with Cons.IH [of w1] f show ?case by (cases res) (auto simp: case_prod_beta Let_def)
qed simp

lemma replay_inv: "wal_inv w \<Longrightarrow> wal_inv (snd (snd (replay env w)))"
proof -
  assume w: "wal_inv w"
  obtain rs res w1 where f: "replay_files env (map snd (sort_key fst (wal_disk w))) w = (rs, res, w1)"
    by (cases "replay_files env (map snd (sort_key fst (wal_disk w))) w") auto
  then have "wal_inv w1" using replay_files_inv [OF w] by (metis snd_conv)
  then show ?thesis using f by (cases res) (auto simp: replay_def wal_inv_def)
qed

section \<open>The binary form of a record\<close>

definition log_fits :: "('d, 'o) log_record \<Rightarrow> page_id \<Rightarrow> bool" where
  "log_fits r pid \<longleftrightarrow>
     lr_page_id r = Some pid \<and> 0 \<le> lr_lsn r \<and> lr_lsn r < 256 ^ 8 \<and>
     0 \<le> lr_transaction_id r \<and> lr_transaction_id r < 256 \<and>
     0 \<le> pid_page_num pid \<and> pid_page_num pid < 256 ^ 4 \<and>
     0 \<le> pid_table_id pid \<and> pid_table_id pid < 256 ^ 4 \<and> 0 \<le> lr_prev_lsn r \<and> lr_prev_lsn r < 256 ^ 4"

definition log_header :: "('d, 'o) log_record \<Rightarrow> page_id \<Rightarrow> int \<Rightarrow> int \<Rightarrow> bytes" where
  "log_header r pid key_len old_len =
     rev (le_bytes 8 (lr_lsn r)) @ rev (le_bytes 4 (log_type_code (lr_log_type r))) @
     rev (le_bytes 1 (lr_transaction_id r)) @ rev (le_bytes 4 (pid_page_num pid)) @
     rev (le_bytes 4 (pid_table_id pid)) @ rev (le_bytes 4 (lr_prev_lsn r)) @
     rev (le_bytes 8 key_len) @ rev (le_bytes 8 old_len)"

lemma length_log_header [simp]: "length (log_header r pid k l) = 41"
  by (simp add: log_header_def)

lemma log_type_of_code [simp]: "log_type_of (log_type_code t) = Inr t"
  by (cases t) (simp_all add: log_type_of_def)

lemma log_type_code_bounds: "0 \<le> log_type_code t" "log_type_code t < 256 ^ 4"
  by (cases t; simp)+

lemma pack_uint_in: "0 \<le> v \<Longrightarrow> v < 256 ^ n \<Longrightarrow> pack_uint True n v = Inr (rev (le_bytes n v))"
  by (simp add: pack_uint_def byte_order_def)

lemma log_header_fields:
  "take 8 (log_header r pid k l) = rev (le_bytes 8 (lr_lsn r))"
  "take 4 (drop 8 (log_header r pid k l)) = rev (le_bytes 4 (log_type_code (lr_log_type r)))"
  "take 1 (drop 12 (log_header r pid k l)) = rev (le_bytes 1 (lr_transaction_id r))"
  "take 4 (drop 13 (log_header r pid k l)) = rev (le_bytes 4 (pid_page_num pid))"
  "take 4 (drop 17 (log_header r pid k l)) = rev (le_bytes 4 (pid_table_id pid))"
  "take 4 (drop 21 (log_header r pid k l)) = rev (le_bytes 4 (lr_prev_lsn r))"
  "take 8 (drop 25 (log_header r pid k l)) = rev (le_bytes 8 k)"
  "take 8 (drop 33 (log_header r pid k l)) = rev (le_bytes 8 l)"
  by (simp_all add: log_header_def)

lemma serialize_eq:
  assumes "log_fits r pid" and "encode_optional env (lr_key r) = Inr kd"
    and "encode_optional env (lr_old_value r) = Inr od" and "encode_optional env (lr_new_value r) = Inr nd"
    and "ilen kd < 256 ^ 8" and "ilen od < 256 ^ 8" and "ilen nd < 256 ^ 4"
  shows "serialize env r =
    Inr (log_header r pid (ilen kd) (ilen od) @ kd @ od @ nd @ rev (le_bytes 4 (ilen nd)))"
  using assms log_type_code_bounds [of "lr_log_type r"]
  by (simp add: serialize_def log_fits_def pack_uint_in log_header_def del: le_bytes.simps)

text \<open>What the parser makes of a header: everything behind it is read from the wrong place on.\<close>

lemma deserialize_at:
  fixes pre post w :: bytes
  assumes "log_fits r pid" and "0 \<le> k" and "k < 256 ^ 8" and "0 \<le> l" and "l < 256 ^ 8"
    and "length w = 4"
  defines "buf \<equiv> pre @ log_header r pid k l @ w @ post"
  shows "deserialize env buf (ilen pre) =
    res_bind (decode_optional env buf (ilen pre + 45) k) (\<lambda>(key, o3).
    res_bind (decode_optional env buf o3 l) (\<lambda>(old, o4).
    res_bind (decode_optional env buf o4 (unpack_uint True w)) (\<lambda>(new, o5).
      Inr (r\<lparr>lr_key := key, lr_old_value := old, lr_new_value := new, lr_table_id := pid_table_id pid\<rparr>, o5))))"
proof -
  have h: "unpack_from buf (ilen pre) 41 = Inr (log_header r pid k l)"
    unfolding buf_def by (rule unpack_at) simp
  have n: "unpack_from buf (ilen pre + 41) 4 = Inr w"
    using unpack_at [OF assms(6), of "pre @ log_header r pid k l" post] by (simp add: buf_def)
  have pid: "lr_page_id r = Some pid" "\<lparr>pid_page_num = pid_page_num pid, pid_table_id = pid_table_id pid\<rparr> = pid"
    using assms(1) by (simp_all add: log_fits_def)
  have rec: "\<lparr>lr_lsn = lr_lsn r, lr_log_type = lr_log_type r,
      lr_transaction_id = lr_transaction_id r,
      lr_page_id = Some \<lparr>pid_page_num = pid_page_num pid, pid_table_id = pid_table_id pid\<rparr>,
      lr_key = key, lr_old_value = old, lr_new_value = new, lr_prev_lsn = lr_prev_lsn r,
      lr_table_id = pid_table_id pid\<rparr> =
    r\<lparr>lr_key := key, lr_old_value := old, lr_new_value := new, lr_table_id := pid_table_id pid\<rparr>"
    for key old new
    using pid by (cases r) simp
  show ?thesis
    using assms(1-5) log_type_code_bounds [of "lr_log_type r"] pid(1)
    unfolding deserialize_def LOG_HEADER_SIZE_def h res_bind_Inr Let_def log_header_fields of_nat_numeral n
    by (simp add: be_words log_fits_def rec add.commute del: le_bytes.simps)
qed

lemma le_bytes_split: "le_bytes (a + b) v = le_bytes a v @ le_bytes b (v div 256 ^ a)"
proof (induction a arbitrary: v)
  case (Suc a)
  have "v div 256 div 256 ^ a = v div 256 ^ Suc a"
    by (simp add: zdiv_zmult2_eq)
  then show ?case using Suc [of "v div 256"] by simp
qed simp

lemma be_small:
  assumes "0 \<le> n" and "n < 256 ^ 4"
  shows "rev (le_bytes 8 n) = [0, 0, 0, 0] @ rev (le_bytes 4 n)"
proof -
  have "le_bytes 4 (n div 256 ^ 4) = [0, 0, 0, 0]"
    using assms by (simp add: div_pos_pos_trivial eval_nat_numeral)
  then show ?thesis using le_bytes_split [of 4 4 n] by (simp del: le_bytes.simps)
qed

section \<open>Properties\<close>

text \<open>One call on the log; \<^verbatim>\<open>replay\<close> may read whatever the directory holds.\<close>

inductive wal_step :: "('d, 'o) env \<Rightarrow> ('d, 'o) wal \<Rightarrow> ('d, 'o) wal \<Rightarrow> bool" where
  wal_append: "wal_step env w (snd (append_record env w r))"
| wal_truncate: "wal_step env w (truncate w lsn)"
| wal_replay: "wal_step env w (snd (snd (replay env w)))"
| wal_closing: "wal_step env w (wal_close w)"

inductive wal_reach :: "('d, 'o) env \<Rightarrow> ('d, 'o) wal \<Rightarrow> bool" where
  wal_start: "wal_reach env (wal_new disk)"
| wal_next: "wal_reach env w \<Longrightarrow> wal_step env w w' \<Longrightarrow> wal_reach env w'"

lemma wal_inv_new: "wal_inv (wal_new disk)"
  by (simp add: wal_inv_def wal_new_def open_log_file_def Let_def)

lemma wal_step_inv: "wal_step env w w' \<Longrightarrow> wal_inv w \<Longrightarrow> wal_inv w'"
  by (induction rule: wal_step.induct)
    (simp_all add: append_inv truncate_inv replay_inv, simp add: wal_inv_def wal_close_def)

lemma wal_reach_inv: "wal_reach env w \<Longrightarrow> wal_inv w"
  by (induction rule: wal_reach.induct) (auto intro: wal_inv_new wal_step_inv)

lemma sorted_distinct_strict: "sorted xs \<Longrightarrow> distinct xs \<Longrightarrow> sorted_wrt (<) (xs :: int list)"
  by (induction xs) (auto simp: less_le)

text \<open>
  The index of the log: after any calls on a log, successful or not, every record is filed under
  its own sequence number, none beyond the current one, the flushed number is at most the current
  one, and \<^verbatim>\<open>get_records_since\<close> returns exactly the records with a larger number, in strictly
  increasing order.
\<close>
theorem wal_index_ordered:
  assumes "wal_reach env w"
  shows "wal_inv w \<and>
    sorted_wrt (<) (map lr_lsn (get_records_since w lsn)) \<and>
    set (get_records_since w lsn) = {r. get_record w (lr_lsn r) = Some r \<and> lr_lsn r > lsn}"
proof -
  note inv = wal_reach_inv [OF assms]
  then have d: "distinct (map fst (wal_records w))" by (simp add: wal_inv_def)
  have own: "lr_lsn r = l" if "(l, r) \<in> set (wal_records w)" for l r
    using that inv map_of_is_SomeI [OF d that] by (simp add: wal_inv_def)
  define xs where "xs = filter (\<lambda>(l, _). l > lsn) (sort_key fst (wal_records w))"
  have sub: "set xs \<subseteq> set (wal_records w)" by (auto simp: xs_def)
  have "sorted (map fst xs)" unfolding xs_def by (intro sorted_filter) simp
  moreover have "distinct (map fst (sort_key fst (wal_records w)))"
    using d by (simp add: distinct_map)
  then have "distinct (map fst xs)" unfolding xs_def by (rule distinct_map_filter)
  ultimately have strict: "sorted_wrt (<) (map fst xs)" by (rule sorted_distinct_strict)
  have "map lr_lsn (map snd xs) = map fst xs"
    using own subsetD [OF sub] by (auto intro!: map_cong)
  with strict have "sorted_wrt (<) (map lr_lsn (map snd xs))" by (simp only:)
  then have "sorted_wrt (<) (map lr_lsn (get_records_since w lsn))"
    unfolding get_records_since_def xs_def [symmetric] .
  moreover have "set (get_records_since w lsn) = {r. get_record w (lr_lsn r) = Some r \<and> lr_lsn r > lsn}"
  proof (intro set_eqI iffI)
    fix r
    assume "r \<in> set (get_records_since w lsn)"
    then obtain l where "(l, r) \<in> set (wal_records w)" "l > lsn"
      by (auto simp: get_records_since_def)
    then show "r \<in> {r. get_record w (lr_lsn r) = Some r \<and> lr_lsn r > lsn}"
      using own [of l r] d by (simp add: get_record_def)
  next
    fix r
    assume "r \<in> {r. get_record w (lr_lsn r) = Some r \<and> lr_lsn r > lsn}"
    then have "(lr_lsn r, r) \<in> set xs"
      by (auto simp: xs_def get_record_def dest: map_of_SomeD)
    then have "r \<in> set (map snd xs)" using image_eqI [of r snd "(lr_lsn r, r)" "set xs"] by simp
    then show "r \<in> set (get_records_since w lsn)"
      unfolding get_records_since_def xs_def .
  qed
  ultimately show ?thesis using inv by simp
qed

theorem wal_index_ordered_witness:
  "let w = snd (append_record plain_env (wal_new [(0, [])])
       (log_record_new LogINSERT 1 (Some \<lparr>pid_page_num = 2, pid_table_id = 3\<rparr>) VNull VNull (VBool True)))
   in wal_inv w \<and> sorted_wrt (<) (map lr_lsn (get_records_since w 0)) \<and>
     set (get_records_since w 0) = {r. get_record w (lr_lsn r) = Some r \<and> lr_lsn r > 0}"
  unfolding Let_def by (rule wal_index_ordered) (rule wal_next [OF wal_start wal_append])

text \<open>
  Appending: the record is filed under the next sequence number and earlier records stay; if its
  binary form exists, the bytes are added at the end of the open file, all other files are
  unchanged, and the flushed number is the new number; otherwise the call raises with the number used
  up and the record filed, though nothing was written.
\<close>
theorem wal_append_behaviour:
  fixes r :: "('d, 'o) log_record" and env :: "('d, 'o) env" and w :: "('d, 'o) wal"
  assumes "wal_log_file w = Some n"
  defines "lsn \<equiv> wal_current_lsn w + 1"
  defines "rec' \<equiv> r\<lparr>lr_lsn := lsn\<rparr>" and "w' \<equiv> snd (append_record env w r)"
  shows "wal_current_lsn w' = lsn \<and> get_record w' lsn = Some rec' \<and>
    (\<forall>k. k \<noteq> lsn \<longrightarrow> get_record w' k = get_record w k) \<and>
    (case serialize env rec' of
       Inr data \<Rightarrow> fst (append_record env w r) = Inr lsn \<and> wal_flushed_lsn w' = lsn \<and>
         (\<forall>k. file_content (wal_disk w') k = file_content (wal_disk w) k @ (if k = n then data else []))
     | Inl e \<Rightarrow> fst (append_record env w r) = Inl e \<and> wal_flushed_lsn w' = wal_flushed_lsn w \<and>
         wal_disk w' = wal_disk w)"
  using append_effect [of env w r] assms
  by (auto simp: get_record_def update_conv lsn_def rec'_def w'_def append_record_def Let_def write_log_def
      split: sum.split)

theorem wal_append_behaviour_witness:
  "get_record (snd (append_record plain_env (wal_new []) (log_record_new LogBEGIN 1 None VNull VNull VNull))) 1 =
    Some ((log_record_new LogBEGIN 1 None VNull VNull VNull)\<lparr>lr_lsn := 1\<rparr>)"
  using wal_append_behaviour [of "wal_new []" 0 plain_env "log_record_new LogBEGIN 1 None VNull VNull VNull"]
  by (simp add: wal_new_def open_log_file_def Let_def)

lemma marker_append:
  "append_record env w (log_record_new t txn None VNull VNull VNull) =
    (Inl StructError, w\<lparr>wal_current_lsn := wal_current_lsn w + 1, wal_records :=
      AList.update (wal_current_lsn w + 1) ((log_record_new t txn None VNull VNull VNull)
        \<lparr>lr_lsn := wal_current_lsn w + 1\<rparr>) (wal_records w)\<rparr>)"
proof -
  have neg: "pack_uint True n (- 1) = Inl StructError" for n by (simp add: pack_uint_def)
  have err: "pack_uint True n v = Inl e \<Longrightarrow> e = StructError" for n v e
    by (simp add: pack_uint_def split: if_splits)
  have "serialize env ((log_record_new t txn None VNull VNull VNull)\<lparr>lr_lsn := l\<rparr>) = Inl StructError" for l
    by (auto simp: serialize_def log_record_new_def encode_optional_def neg dest: err split: sum.split)
  then show ?thesis by (simp add: append_record_def Let_def)
qed

definition marker_rejected :: "('d, 'o) wal \<Rightarrow> int result \<times> ('d, 'o) wal \<Rightarrow> bool" where
  "marker_rejected w p \<longleftrightarrow>
     fst p = Inl StructError \<and> wal_current_lsn (snd p) = wal_current_lsn w + 1 \<and>
     wal_flushed_lsn (snd p) = wal_flushed_lsn w \<and> wal_disk (snd p) = wal_disk w"

text \<open>
  The markers of transactions cannot be written: a record without a page packs the page number
  \<open>-1\<close> into an unsigned field, so \<^verbatim>\<open>begin_transaction\<close>, \<^verbatim>\<open>commit_transaction\<close> and
  \<^verbatim>\<open>abort_transaction\<close> raise \<^verbatim>\<open>struct.error\<close> for every transaction, leaving the files unchanged
  but one more sequence number used.
\<close>
theorem wal_markers_rejected:
  "marker_rejected w (begin_transaction env w txn) \<and>
   marker_rejected w (commit_transaction env w txn) \<and>
   marker_rejected w (abort_transaction env w txn)"
  by (simp add: marker_rejected_def begin_transaction_def commit_transaction_def abort_transaction_def
      marker_append)

section \<open>What recovery reads back\<close>

definition int_value :: "int \<Rightarrow> bytes" where
  "int_value n = [10, 0, 0, 0, 0] @ rev (le_bytes 4 n)"

lemma encode_int_value:
  "0 \<le> n \<Longrightarrow> n < 256 ^ 4 \<Longrightarrow> encode_optional env (VInt n) = Inr (int_value n)"
  by (simp add: encode_optional_def int_value_def be_small pack_sint_def byte_order_def pack_uint_tag
      del: le_bytes.simps)

lemma length_int_value [simp]: "length (int_value n) = 9"
  by (simp add: int_value_def del: le_bytes.simps)

definition plain_record :: "('d, 'o) log_record \<Rightarrow> page_id \<Rightarrow> ('d, 'o) log_record" where
  "plain_record r pid =
     r\<lparr>lr_key := VNull, lr_old_value := VNull, lr_new_value := VNull, lr_table_id := pid_table_id pid\<rparr>"

lemma record_without_payload:
  assumes "log_fits r pid" and "lr_key r = VNull" "lr_old_value r = VNull" "lr_new_value r = VNull"
    and "serialize env r = Inr bs"
  shows "deserialize env (pre @ bs @ post) (ilen pre) = Inr (plain_record r pid, ilen pre + ilen bs)"
proof -
  have bs: "bs = log_header r pid 0 0 @ rev (le_bytes 4 0)"
    using serialize_eq [OF assms(1), of env "[]" "[]" "[]"] assms(2-5)
    by (simp add: encode_optional_def del: le_bytes.simps)
  have "unpack_uint True (rev (le_bytes 4 0)) = 0" by (rule be_words) simp_all
  with deserialize_at [OF assms(1), of 0 0 "rev (le_bytes 4 0)" env pre post] show ?thesis
    unfolding bs by (simp add: decode_optional_def plain_record_def assms(2-4) del: le_bytes.simps)
qed

lemma decode_null_at:
  "xs = pre @ 0 # post \<Longrightarrow> off = ilen pre \<Longrightarrow> decode env xs off = Inr (VNull, off + 1)"
  by (simp add: decode_def decode_tagged_def)

lemma record_with_integers:
  assumes fits: "log_fits r pid" and r: "lr_key r = VInt n" "lr_old_value r = VNull" "lr_new_value r = VInt m"
    and n: "0 \<le> n" "n < 256 ^ 4" and m: "0 \<le> m" "m < 256 ^ 4" and s: "serialize env r = Inr bs"
  shows "ilen bs = 63 \<and>
    deserialize env (pre @ bs @ post) (ilen pre) = Inr (plain_record r pid, ilen pre + 54 + 0x0A000000)"
proof -
  have bs: "bs = log_header r pid 9 0 @ int_value n @ int_value m @ rev (le_bytes 4 9)"
    using serialize_eq [OF fits, of env "int_value n" "[]" "int_value m"] s
    by (simp add: r encode_int_value [OF n] encode_int_value [OF m] del: le_bytes.simps)
      (simp add: encode_optional_def)
  define tail where "tail = rev (le_bytes 4 n) @ int_value m @ rev (le_bytes 4 9) @ post"
  have buf: "pre @ bs @ post = pre @ log_header r pid 9 0 @ [10, 0, 0, 0] @ (0 # tail)"
    by (simp add: bs int_value_def tail_def del: le_bytes.simps)
  have k: "decode env (pre @ bs @ post) (ilen pre + 45) = Inr (VNull, ilen pre + 45 + 1)"
    by (rule decode_null_at [of _ "pre @ log_header r pid 9 0 @ [10, 0, 0, 0]" tail]) (simp_all add: buf)
  have v: "decode env (pre @ bs @ post) (ilen pre + 54) = Inr (VNull, ilen pre + 54 + 1)"
    by (rule decode_null_at [of _ "pre @ log_header r pid 9 0 @ int_value n @ [10, 0, 0, 0]"
          "rev (le_bytes 4 m) @ rev (le_bytes 4 9) @ post"])
      (simp_all add: bs int_value_def del: le_bytes.simps)
  have w: "unpack_uint True [10, 0, 0, 0] = 0x0A000000"
    by (simp add: unpack_uint_def byte_order_def)
  show ?thesis
    using deserialize_at [OF fits, of 9 0 "[10, 0, 0, 0]" env pre "0 # tail"] k v
    unfolding buf [symmetric] w
    by (simp add: decode_optional_def plain_record_def r bs add.assoc del: le_bytes.simps)
qed

text \<open>A small negative key: the fifth of its nine bytes is read as the type of the key, and it is no type.\<close>

lemma encode_negative:
  assumes "- (256 ^ 4) \<le> n" and "n < 0"
  shows "encode_optional env (VInt n) = Inr ([10, 255, 255, 255, 255] @ rev (le_bytes 4 n))"
proof -
  have "n div 256 ^ 4 = - 1" using assms by (simp add: int_div_less_self zdiv_mono1 div_eq_minus1 flip: minus_div_mult_eq_mod)
  moreover have "le_bytes 4 (- 1) = [255, 255, 255, 255]" by code_simp
  ultimately have "rev (le_bytes 8 n) = [255, 255, 255, 255] @ rev (le_bytes 4 n)"
    using le_bytes_split [of 4 4 n] by (simp del: le_bytes.simps)
  then show ?thesis
    using assms by (simp add: encode_optional_def pack_sint_def byte_order_def pack_uint_tag del: le_bytes.simps)
qed

lemma struct_pack_fields: "struct_pack fs = Inr bs \<Longrightarrow> (n, f) \<in> set fs \<Longrightarrow> \<exists>b. f = Inr b"
  by (induction fs arbitrary: bs) (auto simp: res_bind_eq_Inr split: sum.splits)

lemma serialize_parts:
  assumes "serialize env r = Inr bs"
  obtains kd od nd where "encode_optional env (lr_key r) = Inr kd" "encode_optional env (lr_old_value r) = Inr od"
    "encode_optional env (lr_new_value r) = Inr nd" "ilen od < 256 ^ 8" "ilen nd < 256 ^ 4"
proof -
  from assms obtain kd od nd h tr where parts: "encode_optional env (lr_key r) = Inr kd"
    "encode_optional env (lr_old_value r) = Inr od" "encode_optional env (lr_new_value r) = Inr nd"
    and packed: "struct_pack [(8, pack_uint True 8 (lr_lsn r)), (4, pack_uint True 4 (log_type_code (lr_log_type r))),
      (1, pack_uint True 1 (lr_transaction_id r)),
      (4, pack_uint True 4 (case lr_page_id r of None \<Rightarrow> - 1 | Some pid \<Rightarrow> pid_page_num pid)),
      (4, pack_uint True 4 (case lr_page_id r of None \<Rightarrow> lr_table_id r | Some pid \<Rightarrow> pid_table_id pid)),
      (4, pack_uint True 4 (lr_prev_lsn r)), (8, pack_uint True 8 (ilen kd)), (8, pack_uint True 8 (ilen od))] = Inr h"
    "struct_pack [(4, pack_uint True 4 (ilen nd))] = Inr tr"
    unfolding serialize_def Let_def res_bind_eq_Inr by blast
  have "\<exists>b. pack_uint True 8 (ilen od) = Inr b" by (rule struct_pack_fields [OF packed(1), of 8]) simp
  moreover have "\<exists>b. pack_uint True 4 (ilen nd) = Inr b" by (rule struct_pack_fields [OF packed(2), of 4]) simp
  ultimately show thesis using parts by (intro that) (auto simp: pack_uint_Inr)
qed

lemma record_with_negative_key:
  assumes fits: "log_fits r pid" and key: "lr_key r = VInt n" "- (256 ^ 4) \<le> n" "n < 0" and s: "serialize env r = Inr bs"
  shows "deserialize env (pre @ bs @ post) (ilen pre) = Inl ValueError"
proof -
  obtain kd od nd where parts: "encode_optional env (lr_key r) = Inr kd" "encode_optional env (lr_old_value r) = Inr od"
    "encode_optional env (lr_new_value r) = Inr nd" "ilen od < 256 ^ 8" "ilen nd < 256 ^ 4" by (rule serialize_parts [OF s])
  have kd: "kd = [10, 255, 255, 255, 255] @ rev (le_bytes 4 n)"
    using parts(1) encode_negative [OF key(2,3), of env] by (simp add: key(1) del: le_bytes.simps)
  have len: "ilen kd = 9" by (simp add: kd del: le_bytes.simps)
  define tail where "tail = rev (le_bytes 4 n) @ od @ nd @ rev (le_bytes 4 (ilen nd)) @ post"
  have buf: "pre @ bs @ post = pre @ log_header r pid 9 (ilen od) @ [10, 255, 255, 255] @ (255 # tail)"
    using serialize_eq [OF fits parts(1,2,3)] parts(4,5) s len by (simp add: kd tail_def del: le_bytes.simps)
  have "decode env (pre @ bs @ post) (ilen pre + 45) = Inl ValueError"
    using decode_head [of env "pre @ log_header r pid 9 (ilen od) @ [10, 255, 255, 255]" 255 tail "[]"]
    by (simp add: buf decode_tagged_def)
  then show ?thesis
    using deserialize_at [OF fits, of 9 "ilen od" "[10, 255, 255, 255]" env pre "255 # tail"] parts(4)
    unfolding buf [symmetric] by (simp add: decode_optional_def)
qed

text \<open>
  C35. Recovery and the layout of a record: \<^verbatim>\<open>serialize\<close> puts the length of the new value at the end,
  \<^verbatim>\<open>deserialize\<close> looks for it behind the header.  A record without key and values is read back with
  its exact length.  An insert whose key and value are integers from 0 to \<open>2 ^ 32 - 1\<close> comes back without either, at
  an offset of more than 160 megabytes, so that for a file of at most that size \<^verbatim>\<open>replay\<close> hands only this stripped
  record to its callback and silently ignores every later record.  A record whose key is a negative integer down to
  \<open>- 2 ^ 32\<close> cannot be read at all: \<^verbatim>\<open>deserialize\<close> raises \<^verbatim>\<open>ValueError\<close>, and \<^verbatim>\<open>replay\<close> silently ignores it and every later
  record.  The page, the transaction and the other fields of the header are within their width.
\<close>
theorem wal_record_recovery:
  assumes "log_fits r pid" and "serialize env r = Inr bs"
  shows "(lr_key r = VNull \<and> lr_old_value r = VNull \<and> lr_new_value r = VNull \<longrightarrow>
      deserialize env (pre @ bs @ post) (ilen pre) = Inr (plain_record r pid, ilen pre + ilen bs)) \<and>
    (lr_key r = VInt n \<and> lr_old_value r = VNull \<and> lr_new_value r = VInt m \<and>
      n \<in> {0..<256 ^ 4} \<and> m \<in> {0..<256 ^ 4} \<and> ilen (bs @ post) \<le> 0x0A000000 \<longrightarrow>
      replay_file env (bs @ post) 0 w = ([plain_record r pid], Inr (), note_record w (plain_record r pid))) \<and>
    (lr_key r = VInt n \<and> n \<in> {- (256 ^ 4)..<0} \<longrightarrow>
      deserialize env (pre @ bs @ post) (ilen pre) = Inl ValueError \<and>
      replay_file env (bs @ post) 0 w = ([], Inr (), w))"
proof (intro conjI impI; elim conjE)
  assume "lr_key r = VNull" "lr_old_value r = VNull" "lr_new_value r = VNull"
  then show "deserialize env (pre @ bs @ post) (ilen pre) = Inr (plain_record r pid, ilen pre + ilen bs)"
    by (rule record_without_payload [OF assms(1) _ _ _ assms(2)])
next
  assume r: "lr_key r = VInt n" "lr_old_value r = VNull" "lr_new_value r = VInt m"
    and nm: "n \<in> {0..<256 ^ 4}" "m \<in> {0..<256 ^ 4}" and small: "ilen (bs @ post) \<le> 0x0A000000"
  have "deserialize env (bs @ post) 0 = Inr (plain_record r pid, 54 + 0x0A000000) \<and> ilen bs = 63"
    using record_with_integers [OF assms(1) r _ _ _ _ assms(2), of "[]" post] nm by simp
  moreover from this have "replay_file env (bs @ post) (54 + 0x0A000000) w' = ([], Inr (), w')" for w'
    using small by (subst replay_file.simps) simp
  ultimately show "replay_file env (bs @ post) 0 w =
      ([plain_record r pid], Inr (), note_record w (plain_record r pid))"
    by (subst replay_file.simps) simp
next
  assume n: "lr_key r = VInt n" "n \<in> {- (256 ^ 4)..<0}"
  have fails: "deserialize env (pre' @ bs @ post) (ilen pre') = Inl ValueError" for pre'
    using record_with_negative_key [OF assms(1) n(1) _ _ assms(2)] n(2) by simp
  from fails [of pre] show "deserialize env (pre @ bs @ post) (ilen pre) = Inl ValueError" .
  show "replay_file env (bs @ post) 0 w = ([], Inr (), w)"
    using fails [of "[]"] by (subst replay_file.simps) (simp add: swallowed_def)
qed

definition sample_record :: "(pyfloat, unit) log_record" where
  "sample_record =
     (log_record_new LogINSERT 1 (Some \<lparr>pid_page_num = 2, pid_table_id = 3\<rparr>) (VInt 7) VNull (VInt 8))
       \<lparr>lr_lsn := 1\<rparr>"

theorem wal_record_recovery_witness:
  "\<exists>bs. serialize plain_env sample_record = Inr bs \<and>
     replay_file plain_env (bs @ bs) 0 (wal_new []) =
       ([plain_record sample_record \<lparr>pid_page_num = 2, pid_table_id = 3\<rparr>], Inr (),
        note_record (wal_new []) (plain_record sample_record \<lparr>pid_page_num = 2, pid_table_id = 3\<rparr>))"
proof -
  let ?pid = "\<lparr>pid_page_num = 2, pid_table_id = 3\<rparr>"
  have r: "lr_key sample_record = VInt 7" "lr_old_value sample_record = VNull"
    "lr_new_value sample_record = VInt 8"
    by (simp_all add: sample_record_def log_record_new_def)
  have fits: "log_fits sample_record ?pid"
    by (simp add: log_fits_def sample_record_def log_record_new_def)
  obtain bs where bs: "serialize plain_env sample_record = Inr bs"
    using serialize_eq [OF fits, of plain_env "int_value 7" "[]" "int_value 8"]
      encode_int_value [of 7 plain_env] encode_int_value [of 8 plain_env]
    by (simp add: r) (simp add: encode_optional_def)
  have "ilen bs = 63"
    using record_with_integers [OF fits r _ _ _ _ bs, of "[]" "[]"] by simp
  then show ?thesis
    using wal_record_recovery [OF fits bs, of "[]" bs 7 8 "wal_new []"] bs r by simp
qed

end
