(* ===== verification/BTree.thy ===== *)
theory BTree
  imports Py_State BufferPool DbSerializer Wal
begin

text \<open>
  The B+ tree index, \<^verbatim>\<open>database/src/storage/btree.py\<close>: nodes with their form on a page, and the tree
  over a buffer pool.  The page object of a node is shared with the pool; the model finds it there
  by its identifier, which is never used twice, and falls back to the copy in the node when the page
  has been evicted (a write to it is then seen by nobody).  Keys are of any type, so their
  comparisons are an argument of the model; so is the pickled form of a page identifier that ends up
  among the values of a leaf.  A generator is modelled by the list it yields when it is exhausted.
\<close>

section \<open>Nodes\<close>

datatype 'v slot = Val 'v | Child page_id

type_synonym ('d, 'o) key = "('d, 'o) db_value"
type_synonym ('d, 'o) slots = "('d, 'o) db_value slot list"

record ('d, 'o) node =
  nd_page :: page
  nd_order :: int
  nd_is_leaf :: bool
  nd_keys :: "('d, 'o) key list"
  nd_values :: "('d, 'o) slots"
  nd_next_leaf :: "page_id option"
  nd_prev_leaf :: "page_id option"
  nd_parent :: "page_id option"

text \<open>What the code takes from the keys and from the libraries.\<close>

record ('d, 'o) tree_env =
  te_env :: "('d, 'o) env"
  key_ge :: "('d, 'o) key \<Rightarrow> ('d, 'o) key \<Rightarrow> bool result"
  key_gt :: "('d, 'o) key \<Rightarrow> ('d, 'o) key \<Rightarrow> bool result"
  key_eq :: "('d, 'o) key \<Rightarrow> ('d, 'o) key \<Rightarrow> bool result"
  pickled_page_id :: "page_id \<Rightarrow> bytes result"

abbreviation (input) page_number :: "int \<Rightarrow> page_id" where
  "page_number n \<equiv> \<lparr>pid_page_num = n, pid_table_id = 0\<rparr>"

text \<open>The loops of \<^verbatim>\<open>_deserialize\<close>; an error of the listed classes ends the loop.\<close>

fun read_keys :: "('d, 'o) env \<Rightarrow> bytes \<Rightarrow> nat \<Rightarrow> int \<Rightarrow> (('d, 'o) key list \<times> int) result" where
  "read_keys env data 0 offset = Inr ([], offset)"
| "read_keys env data (Suc n) offset =
     (case decode env data offset of
        Inl e \<Rightarrow> if swallowed e then Inr ([], offset) else Inl e
      | Inr (key, offset') \<Rightarrow>
          res_bind (read_keys env data n offset') (\<lambda>(keys, off). Inr (key # keys, off)))"

fun read_leaf_values :: "('d, 'o) env \<Rightarrow> bytes \<Rightarrow> nat \<Rightarrow> int \<Rightarrow> ('d, 'o) slots result" where
  "read_leaf_values env data 0 offset = Inr []"
| "read_leaf_values env data (Suc n) offset =
     (case decode env data offset of
        Inl e \<Rightarrow>
          if swallowed e
          then res_bind (read_leaf_values env data n offset) (\<lambda>vs. Inr (Val VNull # vs)) else Inl e
      | Inr (v, offset') \<Rightarrow> res_bind (read_leaf_values env data n offset') (\<lambda>vs. Inr (Val v # vs)))"

fun read_children :: "bytes \<Rightarrow> nat \<Rightarrow> int \<Rightarrow> ('d, 'o) slots" where
  "read_children data 0 offset = []"
| "read_children data (Suc n) offset =
     (case unpack_from data offset 4 of
        Inl e \<Rightarrow> []
      | Inr w \<Rightarrow> Child (page_number (unpack_sint True w)) # read_children data n (offset + 4))"

definition node_deserialize :: "('d, 'o) env \<Rightarrow> ('d, 'o) node \<Rightarrow> ('d, 'o) node result" where
  "node_deserialize env nd =
     (let data = pg_data (nd_page nd); offset = HEADER_SIZE in
      if offset + 5 > ilen data then Inr nd
      else
        res_bind (py_index data offset) (\<lambda>flag.
        res_bind (unpack_from data (offset + 1) 4) (\<lambda>w1. let num_keys = unpack_uint True w1 in
        res_bind (unpack_from data (offset + 5) 4) (\<lambda>w2. let next_id = unpack_sint True w2 in
        res_bind (unpack_from data (offset + 9) 4) (\<lambda>w3. let prev_id = unpack_sint True w3 in
        res_bind (read_keys env data (nat num_keys) (offset + 13)) (\<lambda>(keys, offset').
        res_bind (if uint flag \<noteq> 0 then read_leaf_values env data (length keys) offset'
                  else Inr (read_children data (length keys + 1) offset')) (\<lambda>values.
          Inr (nd\<lparr>nd_is_leaf := uint flag \<noteq> 0,
                  nd_next_leaf := (if next_id \<ge> 0 then Some (page_number next_id) else None),
                  nd_prev_leaf := (if prev_id \<ge> 0 then Some (page_number prev_id) else None),
                  nd_keys := keys, nd_values := values\<rparr>))))))))"

definition node_new :: "('d, 'o) env \<Rightarrow> page \<Rightarrow> int \<Rightarrow> bool \<Rightarrow> ('d, 'o) node result" where
  "node_new env p order is_leaf =
     node_deserialize env
       \<lparr>nd_page = p, nd_order = order, nd_is_leaf = is_leaf, nd_keys = [], nd_values = [],
        nd_next_leaf = None, nd_prev_leaf = None, nd_parent = None\<rparr>"

text \<open>The bytes that \<^verbatim>\<open>serialize\<close> builds.\<close>

definition link_bytes :: "page_id option \<Rightarrow> bytes result" where
  "link_bytes l = struct_pack [(4, pack_sint True 4 (case l of None \<Rightarrow> - 1 | Some pid \<Rightarrow> pid_page_num pid))]"

definition slot_bytes :: "('d, 'o) tree_env \<Rightarrow> bool \<Rightarrow> ('d, 'o) db_value slot \<Rightarrow> bytes result" where
  "slot_bytes K is_leaf v =
     (if is_leaf
      then (case v of Val x \<Rightarrow> encode (te_env K) x
                    | Child pid \<Rightarrow> res_bind (pickled_page_id K pid) (tagged_block 7))
      else (case v of Val x \<Rightarrow> Inl AttributeErr
                    | Child pid \<Rightarrow> struct_pack [(4, pack_sint True 4 (pid_page_num pid))]))"

fun concat_results :: "bytes result list \<Rightarrow> bytes result" where
  "concat_results [] = Inr []"
| "concat_results (r # rs) = res_bind r (\<lambda>bs. res_bind (concat_results rs) (\<lambda>rest. Inr (bs @ rest)))"

definition node_bytes :: "('d, 'o) tree_env \<Rightarrow> ('d, 'o) node \<Rightarrow> bytes result" where
  "node_bytes K nd =
     res_bind (struct_pack [(4, pack_uint True 4 (ilen (nd_keys nd)))]) (\<lambda>n.
     res_bind (link_bytes (nd_next_leaf nd)) (\<lambda>next_link.
     res_bind (link_bytes (nd_prev_leaf nd)) (\<lambda>prev_link.
     res_bind (concat_results (map (encode (te_env K)) (nd_keys nd))) (\<lambda>keys.
     res_bind (concat_results (map (slot_bytes K (nd_is_leaf nd)) (nd_values nd))) (\<lambda>values.
       Inr ((if nd_is_leaf nd then 1 else 0) # n @ next_link @ prev_link @ keys @ values))))))"

definition is_full :: "('d, 'o) node \<Rightarrow> bool" where
  "is_full nd \<longleftrightarrow> ilen (nd_keys nd) \<ge> 2 * nd_order nd"

definition is_underflow :: "('d, 'o) node \<Rightarrow> bool" where
  "is_underflow nd \<longleftrightarrow> ilen (nd_keys nd) < nd_order nd"

definition node_id :: "('d, 'o) node \<Rightarrow> page_id" where
  "node_id nd = pg_id (nd_page nd)"

section \<open>The tree\<close>

record btree =
  bt_order :: int
  bt_pool :: pool
  bt_root :: "page_id option"
  bt_page_count :: int
  bt_size :: int

definition on_pool :: "(pool \<Rightarrow> 'a result \<times> pool) \<Rightarrow> (btree, 'a) st" where
  "on_pool f t = (let (r, p) = f (bt_pool t) in (r, t\<lparr>bt_pool := p\<rparr>))"

text \<open>The page object of a node, and a change of it.\<close>

definition live_page :: "btree \<Rightarrow> page \<Rightarrow> page" where
  "live_page t p = (case get_page (bt_pool t) (pg_id p) of Inr (Some q) \<Rightarrow> q | _ \<Rightarrow> p)"

definition store_page :: "page \<Rightarrow> btree \<Rightarrow> btree" where
  "store_page p t =
     (case map_of (bp_page_ids (bt_pool t)) (pg_id p) of
        None \<Rightarrow> t
      | Some idx \<Rightarrow> t\<lparr>bt_pool := put_page (bt_pool t) idx (Some p)\<rparr>)"

definition node_serialize :: "('d, 'o) tree_env \<Rightarrow> ('d, 'o) node \<Rightarrow> (btree, unit) st" where
  "node_serialize K nd t =
     (let p = page_clear (live_page t (nd_page nd))
      in case node_bytes K nd of
           Inl e \<Rightarrow> (Inl e, store_page p t)
         | Inr bs \<Rightarrow> (let (r, p') = write_data p HEADER_SIZE bs in (r, store_page p' t)))"

definition get_node :: "('d, 'o) tree_env \<Rightarrow> page_id \<Rightarrow> (btree, ('d, 'o) node) st" where
  "get_node K pid =
     st_bind (on_pool (\<lambda>s. fetch_page s pid)) (\<lambda>pg.
       case pg of
         None \<Rightarrow> st_raise ValueError
       | Some p \<Rightarrow> st_bind (st_get bt_order) (\<lambda>order. st_result (node_new (te_env K) p order True)))"

text \<open>The same for an entry of the values; a value that is no page identifier is not in the pool.\<close>

definition unhashable :: "('d, 'o) db_value \<Rightarrow> bool" where
  "unhashable v \<longleftrightarrow> (case v of VList _ \<Rightarrow> True | VDict _ \<Rightarrow> True | VArray _ _ _ \<Rightarrow> True | _ \<Rightarrow> False)"

definition get_child :: "('d, 'o) tree_env \<Rightarrow> ('d, 'o) db_value slot \<Rightarrow> (btree, ('d, 'o) node) st" where
  "get_child K c =
     (case c of
        Child pid \<Rightarrow> get_node K pid
      | Val v \<Rightarrow>
          if unhashable v then st_raise TypeError
          else st_bind (on_pool (\<lambda>s. (Inr (), count_miss s))) (\<lambda>_. st_raise ValueError))"

definition release_node :: "('d, 'o) node \<Rightarrow> (btree, unit) st" where
  "release_node nd = on_pool (\<lambda>s. unpin_page s (node_id nd))"

definition allocate_page_num :: "(btree, int) st" where
  "allocate_page_num t = (Inr (bt_page_count t + 1), t\<lparr>bt_page_count := bt_page_count t + 1\<rparr>)"

text \<open>
  A new page in the pool and a node on it.  The default page size is 8192; \<^verbatim>\<open>insert_page\<close> pins the
  page object that the node then wraps.
\<close>

definition pool_insert :: "page \<Rightarrow> (btree, page) dv" where
  "pool_insert p t =
     (case insert_page (bt_pool t) p of
        None \<Rightarrow> None
      | Some (r, s) \<Rightarrow> Some (r, t\<lparr>bt_pool := s\<rparr>))"

definition new_node ::
  "('d, 'o) tree_env \<Rightarrow> page_type \<Rightarrow> bool \<Rightarrow> (btree, ('d, 'o) node) dv" where
  "new_node K ptype is_leaf =
     dv_bind (dv_lift allocate_page_num) (\<lambda>n.
     dv_bind (dv_lift (st_result (page_new (page_number n) ptype 8192))) (\<lambda>p.
     dv_bind (pool_insert p) (\<lambda>p'.
     dv_bind (dv_lift (st_get bt_order)) (\<lambda>order.
       dv_lift (st_result (node_new (te_env K) p' order is_leaf))))))"

definition create_root :: "('d, 'o) tree_env \<Rightarrow> (btree, unit) dv" where
  "create_root K =
     dv_bind (dv_lift allocate_page_num) (\<lambda>n.
     dv_bind (dv_lift (st_result (page_new (page_number n) BTREE_ROOT 8192))) (\<lambda>p.
     dv_bind (pool_insert p) (\<lambda>p'. dv_lift (
     st_bind (st_update (\<lambda>t. t\<lparr>bt_root := Some (pg_id p')\<rparr>)) (\<lambda>_.
     st_bind (st_get bt_order) (\<lambda>order.
     st_bind (st_result (node_new (te_env K) p' order True)) (\<lambda>nd.
     st_bind (node_serialize K nd) (\<lambda>_.
       st_update (\<lambda>t. t\<lparr>bt_size := 0\<rparr>)))))))))"

definition btree_new ::
  "('d, 'o) tree_env \<Rightarrow> pool \<Rightarrow> int \<Rightarrow> page_id option \<Rightarrow> (unit result \<times> btree) option" where
  "btree_new K s order root =
     (let t = \<lparr>bt_order = order, bt_pool = s, bt_root = root, bt_page_count = 0, bt_size = 0\<rparr>
      in if root = None then create_root K t else Some (Inr (), t))"

section \<open>Finding\<close>

text \<open>The number of leading keys that pass a test.\<close>

fun skip_keys :: "(('d, 'o) key \<Rightarrow> bool result) \<Rightarrow> ('d, 'o) key list \<Rightarrow> nat result" where
  "skip_keys test [] = Inr 0"
| "skip_keys test (k # ks) =
     res_bind (test k) (\<lambda>b. if b then res_bind (skip_keys test ks) (\<lambda>n. Inr (Suc n)) else Inr 0)"

definition descend :: "('d, 'o) tree_env \<Rightarrow> ('d, 'o) key \<Rightarrow> ('d, 'o) node \<Rightarrow> (btree, ('d, 'o) node) st" where
  "descend K key nd =
     st_bind (st_result (skip_keys (key_ge K key) (nd_keys nd))) (\<lambda>idx.
     st_bind (st_result (py_index (nd_values nd) (int idx))) (\<lambda>child.
     st_bind (release_node nd) (\<lambda>_. get_child K child)))"

partial_function (option) find_leaf_loop ::
  "('d, 'o) tree_env \<Rightarrow> ('d, 'o) key \<Rightarrow> ('d, 'o) node \<Rightarrow> btree \<Rightarrow> (('d, 'o) node result \<times> btree) option"
where
  "find_leaf_loop K key nd t =
     (if nd_is_leaf nd then Some (Inr nd, t)
      else case descend K key nd t of
          (Inl e, t') \<Rightarrow> Some (Inl e, t')
        | (Inr nd', t') \<Rightarrow> find_leaf_loop K key nd' t')"

definition find_leaf :: "('d, 'o) tree_env \<Rightarrow> ('d, 'o) key \<Rightarrow> (btree, ('d, 'o) node) dv" where
  "find_leaf K key =
     dv_bind (dv_lift (st_get bt_root)) (\<lambda>root.
       case root of
         None \<Rightarrow> dv_lift (st_raise ValueError)
       | Some pid \<Rightarrow> dv_bind (dv_lift (get_node K pid)) (find_leaf_loop K key))"

text \<open>The first index whose key equals the given one.\<close>

fun find_key :: "('d, 'o) tree_env \<Rightarrow> ('d, 'o) key \<Rightarrow> ('d, 'o) key list \<Rightarrow> nat option result" where
  "find_key K key [] = Inr None"
| "find_key K key (k # ks) =
     res_bind (key_eq K k key) (\<lambda>b.
       if b then Inr (Some 0) else res_bind (find_key K key ks) (\<lambda>i. Inr (map_option Suc i)))"

definition search ::
  "('d, 'o) tree_env \<Rightarrow> ('d, 'o) key \<Rightarrow> (btree, ('d, 'o) db_value slot option) dv" where
  "search K key =
     dv_bind (dv_lift (st_get bt_root)) (\<lambda>root.
       if root = None then dv_lift (st_return None)
       else
         dv_bind (find_leaf K key) (\<lambda>leaf. dv_lift (
         st_bind (st_result (find_key K key (nd_keys leaf))) (\<lambda>hit.
           case hit of
             None \<Rightarrow> st_bind (release_node leaf) (\<lambda>_. st_return None)
           | Some i \<Rightarrow>
               st_bind (st_result (py_index (nd_values leaf) (int i))) (\<lambda>v.
               st_bind (release_node leaf) (\<lambda>_. st_return (Some v)))))))"

section \<open>Inserting\<close>

definition py_insert :: "nat \<Rightarrow> 'a \<Rightarrow> 'a list \<Rightarrow> 'a list" where
  "py_insert i x xs = take i xs @ x # drop i xs"

text \<open>Children get a new parent: each is fetched, written back and released.\<close>

definition set_parent :: "('d, 'o) tree_env \<Rightarrow> page_id \<Rightarrow> ('d, 'o) db_value slot \<Rightarrow> (btree, unit) st" where
  "set_parent K parent child =
     st_bind (get_child K child) (\<lambda>nd.
     st_bind (node_serialize K (nd\<lparr>nd_parent := Some parent\<rparr>)) (\<lambda>_. release_node nd))"

definition create_new_root ::
  "('d, 'o) tree_env \<Rightarrow> ('d, 'o) key \<Rightarrow> page_id \<Rightarrow> page_id \<Rightarrow> (btree, unit) dv" where
  "create_new_root K key left_child right_child =
     dv_bind (new_node K BTREE_ROOT False) (\<lambda>nd. dv_lift (
       let new_root = nd\<lparr>nd_keys := [key], nd_values := [Child left_child, Child right_child]\<rparr> in
       st_bind (node_serialize K new_root) (\<lambda>_.
       st_bind (st_for [Child left_child, Child right_child] (set_parent K (node_id new_root))) (\<lambda>_.
       st_bind (st_update (\<lambda>t. t\<lparr>bt_root := Some (node_id new_root)\<rparr>)) (\<lambda>_.
         release_node new_root)))))"

text \<open>\<^verbatim>\<open>_split_internal\<close> up to the insertion into the parent.\<close>

definition split_internal ::
  "('d, 'o) tree_env \<Rightarrow> ('d, 'o) node \<Rightarrow> (btree, ('d, 'o) key \<times> page_id \<times> ('d, 'o) node) dv" where
  "split_internal K nd =
     dv_bind (new_node K BTREE_INTERNAL False) (\<lambda>fresh. dv_lift (
       let split_idx = length (nd_keys nd) div 2 in
       st_bind (st_result (py_index (nd_keys nd) (int split_idx))) (\<lambda>promoted_key.
         let fresh' = fresh\<lparr>nd_keys := drop (split_idx + 1) (nd_keys nd),
                            nd_values := drop (split_idx + 1) (nd_values nd)\<rparr>;
             nd' = nd\<lparr>nd_keys := take split_idx (nd_keys nd), nd_values := take (split_idx + 1) (nd_values nd)\<rparr> in
         st_bind (node_serialize K nd') (\<lambda>_.
         st_bind (node_serialize K fresh') (\<lambda>_.
         st_bind (st_for (nd_values fresh') (set_parent K (node_id fresh'))) (\<lambda>_.
         st_bind (release_node fresh') (\<lambda>_.
           st_return (promoted_key, node_id fresh', nd'))))))))"

definition insert_into_parent ::
  "('d, 'o) tree_env \<Rightarrow> ('d, 'o) key \<Rightarrow> page_id \<Rightarrow> page_id \<Rightarrow> (btree, ('d, 'o) node) st" where
  "insert_into_parent K key new_child parent_id =
     st_bind (get_node K parent_id) (\<lambda>parent.
     st_bind (st_result (skip_keys (key_gt K key) (nd_keys parent))) (\<lambda>idx.
       let parent' = parent\<lparr>nd_keys := py_insert idx key (nd_keys parent),
                            nd_values := py_insert (idx + 1) (Child new_child) (nd_values parent)\<rparr> in
       st_bind (node_serialize K parent') (\<lambda>_.
       st_bind (release_node parent') (\<lambda>_. st_return parent'))))"

text \<open>
  \<^verbatim>\<open>_insert_internal\<close> and \<^verbatim>\<open>_split_internal\<close> call each other; the end of the latter, which makes a
  new root or inserts into the parent, is the beginning of the former.
\<close>

partial_function (option) insert_internal ::
  "('d, 'o) tree_env \<Rightarrow> ('d, 'o) key \<Rightarrow> page_id \<Rightarrow> ('d, 'o) node \<Rightarrow> btree \<Rightarrow> (unit result \<times> btree) option"
where
  "insert_internal K key new_child left_node t =
     (case nd_parent left_node of
        None \<Rightarrow> create_new_root K key (node_id left_node) new_child t
      | Some parent_id \<Rightarrow>
          (case insert_into_parent K key new_child parent_id t of
             (Inl e, t1) \<Rightarrow> Some (Inl e, t1)
           | (Inr parent, t1) \<Rightarrow>
               if is_full parent
               then Option.bind (split_internal K parent t1) (\<lambda>(r, t2).
                      case r of
                        Inl e \<Rightarrow> Some (Inl e, t2)
                      | Inr (promoted_key, new_id, nd) \<Rightarrow> insert_internal K promoted_key new_id nd t2)
               else Some (Inr (), t1)))"

definition split_leaf :: "('d, 'o) tree_env \<Rightarrow> ('d, 'o) node \<Rightarrow> (btree, unit) dv" where
  "split_leaf K leaf =
     dv_bind (new_node K BTREE_LEAF True) (\<lambda>fresh.
       let split_idx = length (nd_keys leaf) div 2;
           fresh' = fresh\<lparr>nd_keys := drop split_idx (nd_keys leaf), nd_values := drop split_idx (nd_values leaf),
                          nd_next_leaf := nd_next_leaf leaf, nd_prev_leaf := Some (node_id leaf)\<rparr>;
           leaf' = leaf\<lparr>nd_keys := take split_idx (nd_keys leaf), nd_values := take split_idx (nd_values leaf),
                        nd_next_leaf := Some (node_id fresh)\<rparr> in
       dv_bind (dv_lift (
         st_bind (node_serialize K leaf') (\<lambda>_.
         st_bind (node_serialize K fresh') (\<lambda>_.
         st_bind (release_node fresh') (\<lambda>_. st_result (py_index (nd_keys fresh') 0)))))) (\<lambda>split_key.
         insert_internal K split_key (node_id fresh') leaf'))"

text \<open>The change of the leaf, with the flag that says whether a key was added.\<close>

definition put_entry ::
  "('d, 'o) tree_env \<Rightarrow> ('d, 'o) key \<Rightarrow> ('d, 'o) db_value \<Rightarrow> ('d, 'o) node \<Rightarrow> (bool \<times> ('d, 'o) node) result" where
  "put_entry K key val leaf =
     res_bind (skip_keys (key_gt K key) (nd_keys leaf)) (\<lambda>idx.
     res_bind (if idx < length (nd_keys leaf) then key_eq K key (nd_keys leaf ! idx) else Inr False) (\<lambda>present.
       if present
       then res_bind (py_update (nd_values leaf) (int idx) (Val val)) (\<lambda>vs. Inr (False, leaf\<lparr>nd_values := vs\<rparr>))
       else Inr (True, leaf\<lparr>nd_keys := py_insert idx key (nd_keys leaf),
                            nd_values := py_insert idx (Val val) (nd_values leaf)\<rparr>)))"

definition bt_insert ::
  "('d, 'o) tree_env \<Rightarrow> ('d, 'o) key \<Rightarrow> ('d, 'o) db_value \<Rightarrow> (btree, unit) dv" where
  "bt_insert K key val =
     dv_bind (dv_lift (st_get bt_root)) (\<lambda>root.
     dv_bind (if root = None then create_root K else dv_lift (st_return ())) (\<lambda>_.
     dv_bind (find_leaf K key) (\<lambda>leaf.
     dv_bind (dv_lift (
       st_bind (st_result (put_entry K key val leaf)) (\<lambda>(added, leaf').
       st_bind (st_update (\<lambda>t. if added then t\<lparr>bt_size := bt_size t + 1\<rparr> else t)) (\<lambda>_.
       st_bind (node_serialize K leaf') (\<lambda>_.
       st_bind (release_node leaf') (\<lambda>_. st_return leaf')))))) (\<lambda>leaf'.
       if is_full leaf' then split_leaf K leaf' else dv_lift (st_return ())))))"

section \<open>Deleting\<close>

definition py_pop :: "int \<Rightarrow> 'a list \<Rightarrow> ('a \<times> 'a list) result" where
  "py_pop i xs =
     (let j = (if i < 0 then i + ilen xs else i) in
      if 0 \<le> j \<and> j < ilen xs then Inr (xs ! nat j, take (nat j) xs @ drop (nat j + 1) xs)
      else Inl IndexError)"

definition serialize_all :: "('d, 'o) tree_env \<Rightarrow> ('d, 'o) node list \<Rightarrow> (btree, unit) st" where
  "serialize_all K nds = st_for nds (node_serialize K)"

definition redistribute_right ::
  "('d, 'o) tree_env \<Rightarrow> ('d, 'o) node \<Rightarrow> ('d, 'o) node \<Rightarrow> ('d, 'o) node \<Rightarrow> int \<Rightarrow> (btree, unit) st" where
  "redistribute_right K left right parent parent_idx =
     st_bind (st_result (py_pop (- 1) (nd_keys left))) (\<lambda>(key, left_keys).
     st_bind (st_result (py_pop (- 1) (nd_values left))) (\<lambda>(val, left_values).
       let left' = left\<lparr>nd_keys := left_keys, nd_values := left_values\<rparr> in
       if nd_is_leaf left
       then
         let right' = right\<lparr>nd_keys := key # nd_keys right, nd_values := val # nd_values right\<rparr> in
         st_bind (st_result (py_update (nd_keys parent) parent_idx key)) (\<lambda>ks.
           serialize_all K [left', right', parent\<lparr>nd_keys := ks\<rparr>])
       else
         st_bind (st_result (py_index (nd_keys parent) parent_idx)) (\<lambda>separator.
         let right' = right\<lparr>nd_keys := separator # nd_keys right, nd_values := val # nd_values right\<rparr> in
         st_bind (st_result (py_update (nd_keys parent) parent_idx key)) (\<lambda>ks.
         st_bind (set_parent K (node_id right) val) (\<lambda>_.
           serialize_all K [left', right', parent\<lparr>nd_keys := ks\<rparr>])))))"

definition redistribute_left ::
  "('d, 'o) tree_env \<Rightarrow> ('d, 'o) node \<Rightarrow> ('d, 'o) node \<Rightarrow> ('d, 'o) node \<Rightarrow> int \<Rightarrow> (btree, unit) st" where
  "redistribute_left K left right parent parent_idx =
     st_bind (st_result (py_pop 0 (nd_keys right))) (\<lambda>(key, right_keys).
     st_bind (st_result (py_pop 0 (nd_values right))) (\<lambda>(val, right_values).
       let right' = right\<lparr>nd_keys := right_keys, nd_values := right_values\<rparr> in
       if nd_is_leaf left
       then
         let left' = left\<lparr>nd_keys := nd_keys left @ [key], nd_values := nd_values left @ [val]\<rparr> in
         st_bind (st_result (py_index right_keys 0)) (\<lambda>first.
         st_bind (st_result (py_update (nd_keys parent) parent_idx first)) (\<lambda>ks.
           serialize_all K [left', right', parent\<lparr>nd_keys := ks\<rparr>]))
       else
         st_bind (st_result (py_index (nd_keys parent) parent_idx)) (\<lambda>separator.
         let left' = left\<lparr>nd_keys := nd_keys left @ [separator], nd_values := nd_values left @ [val]\<rparr> in
         st_bind (st_result (py_update (nd_keys parent) parent_idx key)) (\<lambda>ks.
         st_bind (set_parent K (node_id left) val) (\<lambda>_.
           serialize_all K [left', right', parent\<lparr>nd_keys := ks\<rparr>])))))"

definition merge_nodes ::
  "('d, 'o) tree_env \<Rightarrow> ('d, 'o) node \<Rightarrow> ('d, 'o) node \<Rightarrow> ('d, 'o) node \<Rightarrow> int \<Rightarrow> (btree, unit) st" where
  "merge_nodes K left right parent parent_idx =
     st_bind
       (if nd_is_leaf left
        then st_return (left\<lparr>nd_keys := nd_keys left @ nd_keys right, nd_values := nd_values left @ nd_values right,
                             nd_next_leaf := nd_next_leaf right\<rparr>)
        else
          st_bind (st_result (py_index (nd_keys parent) parent_idx)) (\<lambda>separator.
          st_bind (st_for (nd_values right) (set_parent K (node_id left))) (\<lambda>_.
            st_return (left\<lparr>nd_keys := nd_keys left @ [separator] @ nd_keys right,
                            nd_values := nd_values left @ nd_values right\<rparr>)))) (\<lambda>left'.
     st_bind (st_result (py_pop parent_idx (nd_keys parent))) (\<lambda>(_, ks).
     st_bind (st_result (py_pop (parent_idx + 1) (nd_values parent))) (\<lambda>(_, vs).
     st_bind (serialize_all K [left', parent\<lparr>nd_keys := ks, nd_values := vs\<rparr>]) (\<lambda>_.
     st_bind (on_pool (\<lambda>s. remove_page s (node_id right))) (\<lambda>_. st_return ())))))"

text \<open>The position of a child among the values, 0 if it is not there.\<close>

definition child_position :: "page_id \<Rightarrow> ('d, 'o) slots \<Rightarrow> nat" where
  "child_position pid vs =
     (case find (\<lambda>i. vs ! i = Child pid) [0..<length vs] of None \<Rightarrow> 0 | Some i \<Rightarrow> i)"

text \<open>The attempts to borrow from a sibling: whether one succeeded.\<close>

definition borrow_left ::
  "('d, 'o) tree_env \<Rightarrow> ('d, 'o) node \<Rightarrow> ('d, 'o) node \<Rightarrow> nat \<Rightarrow> (btree, bool) st" where
  "borrow_left K nd parent pos =
     (if pos > 0
      then
        st_bind (get_child K (nd_values parent ! (pos - 1))) (\<lambda>left.
        st_bind (st_get bt_order) (\<lambda>order.
          if ilen (nd_keys left) > order
          then st_bind (redistribute_right K left nd parent (int pos - 1)) (\<lambda>_.
               st_bind (release_node left) (\<lambda>_. st_bind (release_node parent) (\<lambda>_. st_return True)))
          else st_bind (release_node left) (\<lambda>_. st_return False)))
      else st_return False)"

definition borrow_right ::
  "('d, 'o) tree_env \<Rightarrow> ('d, 'o) node \<Rightarrow> ('d, 'o) node \<Rightarrow> nat \<Rightarrow> (btree, bool) st" where
  "borrow_right K nd parent pos =
     (if int pos < ilen (nd_values parent) - 1
      then
        st_bind (get_child K (nd_values parent ! (pos + 1))) (\<lambda>right.
        st_bind (st_get bt_order) (\<lambda>order.
          if ilen (nd_keys right) > order
          then st_bind (redistribute_left K nd right parent (int pos)) (\<lambda>_.
               st_bind (release_node right) (\<lambda>_. st_bind (release_node parent) (\<lambda>_. st_return True)))
          else st_bind (release_node right) (\<lambda>_. st_return False)))
      else st_return False)"

definition merge_with_sibling ::
  "('d, 'o) tree_env \<Rightarrow> ('d, 'o) node \<Rightarrow> ('d, 'o) node \<Rightarrow> nat \<Rightarrow> (btree, unit) st" where
  "merge_with_sibling K nd parent pos =
     (if pos > 0
      then
        st_bind (get_child K (nd_values parent ! (pos - 1))) (\<lambda>left.
        st_bind (merge_nodes K left nd parent (int pos - 1)) (\<lambda>_. release_node left))
      else if int pos < ilen (nd_values parent) - 1
      then
        st_bind (get_child K (nd_values parent ! (pos + 1))) (\<lambda>right.
        st_bind (merge_nodes K nd right parent (int pos)) (\<lambda>_. release_node right))
      else st_return ())"

text \<open>The root loses its last key: its only child becomes the root.\<close>

definition shrink_root :: "('d, 'o) tree_env \<Rightarrow> ('d, 'o) node \<Rightarrow> (btree, unit) st" where
  "shrink_root K nd =
     (case nd_values nd of
        [child] \<Rightarrow>
          st_bind (get_child K child) (\<lambda>child_node.
          st_bind (st_update (\<lambda>t. store_page ((live_page t (nd_page child_node))\<lparr>pg_type := BTREE_ROOT\<rparr>) t)) (\<lambda>_.
          st_bind (node_serialize K (child_node\<lparr>nd_parent := None\<rparr>)) (\<lambda>_.
          st_bind (st_update (\<lambda>t. t\<lparr>bt_root := Some (node_id child_node)\<rparr>)) (\<lambda>_.
            release_node child_node))))
      | _ \<Rightarrow> st_return ())"

definition handle_underflow :: "('d, 'o) tree_env \<Rightarrow> ('d, 'o) node \<Rightarrow> (btree, unit) st" where
  "handle_underflow K nd =
     (if \<not> is_underflow nd then st_return ()
      else
        case nd_parent nd of
          None \<Rightarrow> if \<not> nd_is_leaf nd \<and> nd_keys nd = [] then shrink_root K nd else st_return ()
        | Some parent_id \<Rightarrow>
            st_bind (get_node K parent_id) (\<lambda>parent.
              let pos = child_position (node_id nd) (nd_values parent) in
              st_bind (borrow_left K nd parent pos) (\<lambda>moved.
                if moved then st_return ()
                else
                  st_bind (borrow_right K nd parent pos) (\<lambda>moved.
                    if moved then st_return ()
                    else
                      st_bind (merge_with_sibling K nd parent pos) (\<lambda>_. release_node parent)))))"

definition bt_delete :: "('d, 'o) tree_env \<Rightarrow> ('d, 'o) key \<Rightarrow> (btree, bool) dv" where
  "bt_delete K key =
     dv_bind (dv_lift (st_get bt_root)) (\<lambda>root.
       if root = None then dv_lift (st_return False)
       else
         dv_bind (find_leaf K key) (\<lambda>leaf. dv_lift (
         st_bind (st_result (find_key K key (nd_keys leaf))) (\<lambda>hit.
           case hit of
             None \<Rightarrow> st_bind (release_node leaf) (\<lambda>_. st_return False)
           | Some i \<Rightarrow>
               st_bind (st_result (py_pop (int i) (nd_keys leaf))) (\<lambda>(_, ks).
               st_bind (st_result (py_pop (int i) (nd_values leaf))) (\<lambda>(_, vs).
                 let leaf' = leaf\<lparr>nd_keys := ks, nd_values := vs\<rparr> in
                 st_bind (node_serialize K leaf') (\<lambda>_.
                 st_bind (st_update (\<lambda>t. t\<lparr>bt_size := bt_size t - 1\<rparr>)) (\<lambda>_.
                 st_bind (release_node leaf') (\<lambda>_.
                 st_bind (handle_underflow K leaf') (\<lambda>_. st_return True))))))))))"

section \<open>Scanning\<close>

text \<open>The pairs of a leaf from the start of the range on, and whether the end was reached.\<close>

fun scan_leaf ::
  "('d, 'o) tree_env \<Rightarrow> ('d, 'o) key \<Rightarrow> ('d, 'o) key option \<Rightarrow> ('d, 'o) key list \<Rightarrow> ('d, 'o) slots \<Rightarrow>
   (bool \<times> (('d, 'o) key \<times> ('d, 'o) db_value slot) list) result" where
  "scan_leaf K start_key end_key [] vs = Inr (False, [])"
| "scan_leaf K start_key end_key (k # ks) vs =
     res_bind (key_ge K k start_key) (\<lambda>from.
       if from
       then
         res_bind (case end_key of None \<Rightarrow> Inr False | Some e \<Rightarrow> key_ge K k e) (\<lambda>stop.
           if stop then Inr (True, [])
           else
             res_bind (py_index vs 0) (\<lambda>v.
             res_bind (scan_leaf K start_key end_key ks (tl vs)) (\<lambda>(stop, rest). Inr (stop, (k, v) # rest))))
       else scan_leaf K start_key end_key ks (tl vs))"

partial_function (option) scan_leaves ::
  "('d, 'o) tree_env \<Rightarrow> ('d, 'o) key \<Rightarrow> ('d, 'o) key option \<Rightarrow> ('d, 'o) node \<Rightarrow>
   (('d, 'o) key \<times> ('d, 'o) db_value slot) list \<Rightarrow> btree \<Rightarrow>
   ((('d, 'o) key \<times> ('d, 'o) db_value slot) list result \<times> btree) option"
where
  "scan_leaves K start_key end_key leaf out t =
     (case scan_leaf K start_key end_key (nd_keys leaf) (nd_values leaf) of
        Inl e \<Rightarrow> Some (Inl e, t)
      | Inr (stop, pairs) \<Rightarrow>
          (case release_node leaf t of
             (Inl e, t1) \<Rightarrow> Some (Inl e, t1)
           | (Inr _, t1) \<Rightarrow>
               if stop \<or> nd_next_leaf leaf = None then Some (Inr (out @ pairs), t1)
               else
                 (case get_node K (the (nd_next_leaf leaf)) t1 of
                    (Inl e, t2) \<Rightarrow> Some (Inl e, t2)
                  | (Inr leaf', t2) \<Rightarrow> scan_leaves K start_key end_key leaf' (out @ pairs) t2)))"

definition range_scan ::
  "('d, 'o) tree_env \<Rightarrow> ('d, 'o) key \<Rightarrow> ('d, 'o) key option \<Rightarrow>
   (btree, (('d, 'o) key \<times> ('d, 'o) db_value slot) list) dv" where
  "range_scan K start_key end_key =
     dv_bind (dv_lift (st_get bt_root)) (\<lambda>root.
       if root = None then dv_lift (st_return [])
       else dv_bind (find_leaf K start_key) (\<lambda>leaf. scan_leaves K start_key end_key leaf []))"

text \<open>The leaf at one end: always the child at the given index.\<close>

partial_function (option) edge_leaf ::
  "('d, 'o) tree_env \<Rightarrow> int \<Rightarrow> ('d, 'o) node \<Rightarrow> btree \<Rightarrow> (('d, 'o) node result \<times> btree) option"
where
  "edge_leaf K i nd t =
     (if nd_is_leaf nd then Some (Inr nd, t)
      else case st_bind (st_result (py_index (nd_values nd) i)) (\<lambda>child.
                st_bind (release_node nd) (\<lambda>_. get_child K child)) t of
          (Inl e, t') \<Rightarrow> Some (Inl e, t')
        | (Inr nd', t') \<Rightarrow> edge_leaf K i nd' t')"

definition edge_key :: "('d, 'o) tree_env \<Rightarrow> int \<Rightarrow> (btree, ('d, 'o) key option) dv" where
  "edge_key K i =
     dv_bind (dv_lift (st_get bt_root)) (\<lambda>root.
       case root of
         None \<Rightarrow> dv_lift (st_return None)
       | Some pid \<Rightarrow>
           dv_bind (dv_lift (get_node K pid)) (\<lambda>nd.
           dv_bind (edge_leaf K i nd) (\<lambda>leaf. dv_lift (
           st_bind (st_result (if nd_keys leaf = [] then Inr None
                               else res_bind (py_index (nd_keys leaf) i) (\<lambda>k. Inr (Some k)))) (\<lambda>k.
           st_bind (release_node leaf) (\<lambda>_. st_return k))))))"

definition get_min_key :: "('d, 'o) tree_env \<Rightarrow> (btree, ('d, 'o) key option) dv" where
  "get_min_key K = edge_key K 0"

definition get_max_key :: "('d, 'o) tree_env \<Rightarrow> (btree, ('d, 'o) key option) dv" where
  "get_max_key K = edge_key K (- 1)"

text \<open>All pairs: every key counts as inside the range.\<close>

definition scan_all ::
  "('d, 'o) tree_env \<Rightarrow> (btree, (('d, 'o) key \<times> ('d, 'o) db_value slot) list) dv" where
  "scan_all K =
     dv_bind (dv_lift (st_get bt_root)) (\<lambda>root.
       case root of
         None \<Rightarrow> dv_lift (st_return [])
       | Some pid \<Rightarrow>
           dv_bind (dv_lift (get_node K pid)) (\<lambda>nd.
           dv_bind (edge_leaf K 0 nd) (\<lambda>leaf.
             scan_leaves (K\<lparr>key_ge := \<lambda>_ _. Inr True\<rparr>) VNull None leaf [])))"

definition bt_contains :: "('d, 'o) tree_env \<Rightarrow> ('d, 'o) key \<Rightarrow> (btree, bool) dv" where
  "bt_contains K key =
     dv_bind (search K key) (\<lambda>v. dv_lift (st_return (v \<noteq> None \<and> v \<noteq> Some (Val VNull))))"

end
