(* ===== verification/BTree_Facts.thy ===== *)
theory BTree_Facts
  imports BTree
begin

text \<open>
  What the B+ tree of \<^theory_text>\<open>BTree\<close> does: a new tree, the form of a node on its page, and inserting.
\<close>

section \<open>A page without entries\<close>

definition blank :: "page \<Rightarrow> bool" where
  "blank p \<longleftrightarrow> pg_size p = 8192 \<and> length (pg_data p) = 8192 \<and> drop 24 (pg_data p) = replicate 8168 0"

definition blank_node :: "page \<Rightarrow> int \<Rightarrow> ('d, 'o) node" where
  "blank_node p order =
     \<lparr>nd_page = p, nd_order = order, nd_is_leaf = False, nd_keys = [], nd_values = [Child (page_number 0)],
      nd_next_leaf = Some (page_number 0), nd_prev_leaf = Some (page_number 0), nd_parent = None\<rparr>"

lemma blank_nth: "blank p \<Longrightarrow> 24 \<le> i \<Longrightarrow> i < 8192 \<Longrightarrow> pg_data p ! i = 0"
  using nth_drop [of 24 "pg_data p" "i - 24"] by (simp add: blank_def)

lemma blank_window:
  assumes "blank p" and "24 \<le> off" and "off + int n \<le> 8192"
  shows "unpack_from (pg_data p) off n = Inr (replicate n 0)"
proof -
  have "take n (drop (nat off) (pg_data p)) = replicate n 0"
    using assms by (intro nth_equalityI) (auto simp: blank_nth blank_def nat_add_distrib)
  then show ?thesis using assms by (simp add: unpack_from_in blank_def)
qed

lemma le_int_zeros [simp]: "le_int (replicate n 0) = 0"
  by (induction n) simp_all

lemma unpack_zeros [simp]:
  "unpack_uint True (replicate n 0) = 0" "0 < n \<Longrightarrow> unpack_sint True (replicate n 0) = 0"
proof -
  show "unpack_uint True (replicate n 0) = 0" by (simp add: unpack_uint_def byte_order_def)
  assume "0 < n"
  then have "(0 :: int) < 256 ^ n div 2" by (cases n) simp_all
  then show "unpack_sint True (replicate n 0) = 0" by (simp add: unpack_sint_def byte_order_def Let_def)
qed

text \<open>Such a page reads as an inner node whose only child is page 0.\<close>

lemma node_new_blank:
  assumes "blank p"
  shows "node_new env p order leaf = Inr (blank_node p order)"
proof -
  have "length (pg_data p) = 8192" using assms by (simp add: blank_def)
  then show ?thesis
    using assms
    by (simp add: node_new_def node_deserialize_def HEADER_SIZE_def blank_window blank_nth py_index_in
        blank_node_def Let_def)
qed

lemma node_id_blank [simp]: "node_id (blank_node p order) = pg_id p"
  by (simp add: node_id_def blank_node_def)

lemma node_bytes_blank: "node_bytes K (blank_node p order) = Inr (replicate 17 0)"
  by (simp add: node_bytes_def blank_node_def link_bytes_def slot_bytes_def pack_uint_def pack_sint_def
      byte_order_def numeral_eq_Suc)

lemma drop_overwrite_zeros:
  assumes "drop k xs = replicate (length xs - k) z" and "k \<le> i" and "i + n \<le> length xs"
  shows "overwrite xs i (replicate n z) = xs"
proof (rule nth_equalityI)
  fix j assume "j < length (overwrite xs i (replicate n z))"
  moreover have "xs ! j = z" if "i \<le> j" "j < length xs"
    using that assms(1,2) nth_drop [of k xs "j - k"] by simp
  ultimately show "overwrite xs i (replicate n z) ! j = xs ! j"
    using assms(3) by (auto simp: nth_overwrite)
qed (use assms(3) in simp)

lemma page_clear_data:
  assumes "page_sized p" and "HEADER_SIZE \<le> pg_size p"
  shows "pg_data (page_clear p) = take 24 (pg_data p) @ replicate (length (pg_data p) - 24) 0"
    and "page_sized (page_clear p)" and "pg_size (page_clear p) = pg_size p" and "pg_id (page_clear p) = pg_id p"
proof -
  have len: "24 \<le> length (pg_data p)" using assms by (simp add: page_sized_def HEADER_SIZE_def)
  then show d: "pg_data (page_clear p) = take 24 (pg_data p) @ replicate (length (pg_data p) - 24) 0"
    using assms by (simp add: page_clear_def page_sized_def HEADER_SIZE_def py_slice_assign_in py_repeat_def
        nat_diff_distrib)
  show "page_sized (page_clear p)" using assms(1) len d
    by (simp add: page_sized_def) (simp add: page_clear_def)
  show "pg_size (page_clear p) = pg_size p" "pg_id (page_clear p) = pg_id p" by (simp_all add: page_clear_def)
qed

lemma page_clear_blank:
  "page_sized p \<Longrightarrow> pg_size p = 8192 \<Longrightarrow> blank (page_clear p)"
  using page_clear_data [of p] by (simp add: blank_def HEADER_SIZE_def page_sized_def)

lemma blank_sized: "blank p \<Longrightarrow> page_sized p \<and> pg_size p = 8192"
  by (simp add: blank_def page_sized_def)

lemma pins_keep [simp]:
  "pg_data (pin p) = pg_data p" "pg_size (pin p) = pg_size p" "page_sized (pin p) = page_sized p"
  "pg_data (unpin p) = pg_data p" "pg_size (unpin p) = pg_size p" "page_sized (unpin p) = page_sized p"
  by (simp_all add: pin_def unpin_def page_sized_def)

lemma write_zeros_blank:
  "blank p \<Longrightarrow> \<exists>q. write_data p HEADER_SIZE (replicate 17 0) = (Inr (), q) \<and> blank q \<and> pg_id q = pg_id p"
  using drop_overwrite_zeros [of 24 "pg_data p" 0 24 17]
    py_slice_assign_overwrite [of 24 "replicate 17 0" "pg_data p"]
  by (simp add: write_data_def blank_def HEADER_SIZE_def)

lemma page_new_blank:
  assumes "0 \<le> n" and "n < 2 ^ 32"
  shows "\<exists>p. page_new (page_number n) ptype 8192 = Inr p \<and> blank p \<and> pg_id p = page_number n"
proof -
  define p where "p = \<lparr>pg_id = page_number n, pg_type = ptype, pg_size = 8192, pg_dirty = False,
    pg_pin_count = 0, pg_flags = 0, pg_version = 1, pg_data = py_repeat 0 8192, pg_free_offset = HEADER_SIZE\<rparr>"
  have "header_fits p" using assms by (simp add: header_fits_def p_def HEADER_SIZE_def)
  then have "write_header p = (Inr (), p\<lparr>pg_data := overwrite (pg_data p) 0 (header_bytes p)\<rparr>)"
    by (rule write_header_eq) (simp add: p_def)
  then show ?thesis
    by (simp add: page_new_def p_def [symmetric]) (simp add: blank_def p_def overwrite_def py_repeat_def)
qed


section \<open>Nodes through the pool\<close>

lemma on_pool_apply: "f (bt_pool t) = (r, s) \<Longrightarrow> on_pool f t = (r, t\<lparr>bt_pool := s\<rparr>)"
  by (simp add: on_pool_def)

lemma get_node_cached:
  assumes "pool_inv (bt_pool t)" and "get_page (bt_pool t) pid = Inr (Some p)"
  obtains s where "get_node K pid t = (node_new (te_env K) (pin p) (bt_order t) True, t\<lparr>bt_pool := s\<rparr>)"
    and "updates (bt_pool t) (pin p) s"
proof -
  obtain s where s: "fetch_page (bt_pool t) pid = (Inr (Some (pin p)), s)" "updates (bt_pool t) (pin p) s"
    by (rule fetch_cached [OF assms])
  then have "on_pool (\<lambda>s. fetch_page s pid) t = (Inr (Some (pin p)), t\<lparr>bt_pool := s\<rparr>)"
    by (intro on_pool_apply)
  then show thesis using s(2) by (intro that [of s]) (simp_all add: get_node_def)
qed

lemma get_node_absent:
  assumes "map_of (bp_page_ids (bt_pool t)) pid = None"
  shows "get_node K pid t = (Inl ValueError, t\<lparr>bt_pool := count_miss (bt_pool t)\<rparr>)"
proof -
  have "on_pool (\<lambda>s. fetch_page s pid) t = (Inr None, t\<lparr>bt_pool := count_miss (bt_pool t)\<rparr>)"
    using fetch_absent [OF assms] by (intro on_pool_apply)
  then show ?thesis by (simp add: get_node_def)
qed

lemma release_node_cached:
  assumes "pool_inv (bt_pool t)" and "get_page (bt_pool t) (node_id nd) = Inr (Some p)"
  obtains s where "release_node nd t = (Inr (), t\<lparr>bt_pool := s\<rparr>)" and "updates (bt_pool t) (unpin p) s"
proof -
  obtain s where "unpin_page (bt_pool t) (node_id nd) = (Inr (), s)" "updates (bt_pool t) (unpin p) s"
    by (rule unpin_cached [OF assms])
  then show thesis by (intro that [of s]) (simp_all add: release_node_def on_pool_apply)
qed

lemma store_page_cached:
  assumes "pool_inv (bt_pool t)" and "get_page (bt_pool t) (pg_id p) = Inr (Some q)"
  obtains s where "store_page p t = t\<lparr>bt_pool := s\<rparr>" and "updates (bt_pool t) p s"
proof -
  obtain i where i: "map_of (bp_page_ids (bt_pool t)) (pg_id p) = Some i"
    by (rule cached_holds [OF assms])
  then show thesis using put_updates [OF assms(1) i] by (intro that) (simp_all add: store_page_def)
qed

lemma live_page_cached: "get_page (bt_pool t) (pg_id p) = Inr (Some q) \<Longrightarrow> live_page t p = q"
  by (simp add: live_page_def)

lemma blank_pins [simp]: "blank (pin p) = blank p" "blank (unpin p) = blank p"
  by (simp_all add: blank_def pin_def unpin_def)

lemma btree_pool_same [simp]: "t\<lparr>bt_pool := bt_pool t\<rparr> = t"
  by simp

section \<open>A new tree\<close>

text \<open>The root page is blank, and there is no page 0.\<close>

definition stuck :: "btree \<Rightarrow> bool" where
  "stuck t \<longleftrightarrow>
     pool_inv (bt_pool t) \<and> map_of (bp_page_ids (bt_pool t)) (page_number 0) = None \<and>
     (\<exists>r p. bt_root t = Some r \<and> get_page (bt_pool t) r = Inr (Some p) \<and> pg_id p = r \<and> blank p)"

lemma stuck_update:
  assumes "stuck t" and "bt_root t = Some (pg_id p)" and "updates (bt_pool t) p s" and "blank p"
  shows "stuck (t\<lparr>bt_pool := s\<rparr>)"
  using assms updatesD(1-3) [OF assms(3)] by (auto simp: stuck_def)

lemma stuck_miss: "stuck t \<Longrightarrow> stuck (t\<lparr>bt_pool := count_miss (bt_pool t)\<rparr>)"
  by (auto simp: stuck_def get_page_cong [of "count_miss (bt_pool t)" "bt_pool t"])

text \<open>From the root every path ends after one step.\<close>

lemma stuck_path:
  fixes K :: "('d, 'o) tree_env"
  assumes "stuck t"
  obtains r q nd t1 s where "bt_root t = Some r" and "nd = blank_node q (bt_order t)"
    and "get_node K r t = (Inr nd, t1)"
    and "st_bind (release_node nd) (\<lambda>_. get_child K (Child (page_number 0))) t1 =
      (Inl ValueError, t\<lparr>bt_pool := s\<rparr>)"
    and "stuck (t\<lparr>bt_pool := s\<rparr>)"
proof -
  obtain p where p: "bt_root t = Some (pg_id p)" "get_page (bt_pool t) (pg_id p) = Inr (Some p)" "blank p"
    and inv: "pool_inv (bt_pool t)"
    using assms by (auto simp: stuck_def)
  let ?nd = "blank_node (pin p) (bt_order t) :: ('d, 'o) node"
  obtain s1 where s1: "get_node K (pg_id p) t = (Inr ?nd, t\<lparr>bt_pool := s1\<rparr>)" "updates (bt_pool t) (pin p) s1"
    using get_node_cached [OF inv p(2)] p(3) by (metis blank_pins(1) node_new_blank)
  let ?t1 = "t\<lparr>bt_pool := s1\<rparr>"
  have stuck1: "stuck ?t1" using s1(2) p by (intro stuck_update [OF assms, of "pin p"]) simp_all
  have root1: "get_page (bt_pool ?t1) (node_id ?nd) = Inr (Some (pin p))"
    using updatesD(3) [OF s1(2)] by (simp add: node_id_def blank_node_def)
  obtain s2 where s2: "release_node ?nd ?t1 = (Inr (), ?t1\<lparr>bt_pool := s2\<rparr>)"
      "updates (bt_pool ?t1) (unpin (pin p)) s2"
    by (rule release_node_cached [OF _ root1]) (use stuck1 in \<open>simp add: stuck_def\<close>)
  let ?t2 = "t\<lparr>bt_pool := s2\<rparr>"
  have stuck2: "stuck ?t2"
    using stuck_update [OF stuck1 _ s2(2)] p by simp
  then have "get_child K (Child (page_number 0)) ?t2 = (Inl ValueError, ?t2\<lparr>bt_pool := count_miss s2\<rparr>)"
    using get_node_absent [of ?t2 "page_number 0" K] by (simp add: stuck_def get_child_def)
  then show thesis
    using p(1) s1(1) s2(1) stuck_miss [OF stuck2] by (intro that [of "pg_id p" ?nd "pin p" ?t1 "count_miss s2"]) simp_all
qed

text \<open>Every operation walks from the root.\<close>

lemma stuck_find_leaf:
  assumes "stuck t"
  shows "\<exists>s. find_leaf K key t = Some (Inl ValueError, t\<lparr>bt_pool := s\<rparr>) \<and> stuck (t\<lparr>bt_pool := s\<rparr>)"
proof -
  obtain r q nd t1 s where p: "bt_root t = Some r" "get_node K r t = (Inr nd, t1)"
    "st_bind (release_node nd) (\<lambda>_. get_child K (Child (page_number 0))) t1 =
      (Inl ValueError, t\<lparr>bt_pool := s\<rparr>)" "stuck (t\<lparr>bt_pool := s\<rparr>)"
    and nd: "nd_values nd = [Child (page_number 0)]" "nd_keys nd = []" "\<not> nd_is_leaf nd"
    by (rule stuck_path [OF assms, of K]) (simp add: blank_node_def)
  have "descend K key nd t1 = (Inl ValueError, t\<lparr>bt_pool := s\<rparr>)"
    using p(3) by (simp add: descend_def nd py_index_in)
  then have "find_leaf_loop K key nd t1 = Some (Inl ValueError, t\<lparr>bt_pool := s\<rparr>)"
    by (subst find_leaf_loop.simps) (simp add: nd)
  then have "find_leaf K key t = Some (Inl ValueError, t\<lparr>bt_pool := s\<rparr>)"
    using p(1,2) by (simp add: find_leaf_def)
  then show ?thesis using p(4) by blast
qed

lemma stuck_edge_leaf:
  assumes "stuck t" and "i = 0 \<or> i = - 1"
  shows "\<exists>r nd t1 s. bt_root t = Some r \<and> get_node K r t = (Inr nd, t1) \<and>
    edge_leaf K i nd t1 = Some (Inl ValueError, t\<lparr>bt_pool := s\<rparr>) \<and> stuck (t\<lparr>bt_pool := s\<rparr>)"
proof -
  obtain r q nd t1 s where p: "bt_root t = Some r" "get_node K r t = (Inr nd, t1)"
    "st_bind (release_node nd) (\<lambda>_. get_child K (Child (page_number 0))) t1 =
      (Inl ValueError, t\<lparr>bt_pool := s\<rparr>)" "stuck (t\<lparr>bt_pool := s\<rparr>)"
    and nd: "nd_values nd = [Child (page_number 0)]" "nd_keys nd = []" "\<not> nd_is_leaf nd"
    by (rule stuck_path [OF assms(1), of K]) (simp add: blank_node_def)
  have "py_index (nd_values nd) i = Inr (Child (page_number 0))"
    using assms(2) by (auto simp: nd py_index_def)
  then have "edge_leaf K i nd t1 = Some (Inl ValueError, t\<lparr>bt_pool := s\<rparr>)"
    using p(3) nd(3) by (subst edge_leaf.simps) simp
  then show ?thesis using p(1,2,4) by blast
qed

text \<open>One call of a public method that returns, with what it raised, if anything.\<close>

definition outcome :: "'a result \<Rightarrow> py_error option" where
  "outcome r = (case r of Inl e \<Rightarrow> Some e | Inr _ \<Rightarrow> None)"

inductive tree_call :: "('d, 'o) tree_env \<Rightarrow> btree \<Rightarrow> (py_error option \<times> btree) option \<Rightarrow> bool" where
  call_search: "tree_call K t (map_option (apfst outcome) (search K key t))"
| call_insert: "tree_call K t (map_option (apfst outcome) (bt_insert K key val t))"
| call_delete: "tree_call K t (map_option (apfst outcome) (bt_delete K key t))"
| call_range: "tree_call K t (map_option (apfst outcome) (range_scan K start_key end_key t))"
| call_scan: "tree_call K t (map_option (apfst outcome) (scan_all K t))"
| call_min: "tree_call K t (map_option (apfst outcome) (get_min_key K t))"
| call_max: "tree_call K t (map_option (apfst outcome) (get_max_key K t))"
| call_contains: "tree_call K t (map_option (apfst outcome) (bt_contains K key t))"

inductive tree_run :: "('d, 'o) tree_env \<Rightarrow> btree \<Rightarrow> btree \<Rightarrow> bool" where
  run_start: "tree_run K t t"
| run_next: "tree_run K t t' \<Longrightarrow> tree_call K t' (Some (e, t'')) \<Longrightarrow> tree_run K t t''"

lemma stuck_call:
  assumes "tree_call K t out" and "stuck t"
  shows "\<exists>s. out = Some (Some ValueError, t\<lparr>bt_pool := s\<rparr>) \<and> stuck (t\<lparr>bt_pool := s\<rparr>)"
proof -
  have root: "bt_root t \<noteq> None" using assms(2) by (auto simp: stuck_def)
  note leaf = stuck_find_leaf [OF assms(2), of K]
  note edge = stuck_edge_leaf [OF assms(2), of _ K]
  have search: "\<exists>s. search K key t = Some (Inl ValueError, t\<lparr>bt_pool := s\<rparr>) \<and> stuck (t\<lparr>bt_pool := s\<rparr>)" for key
    using leaf [of key] root by (auto simp: search_def)
  from assms(1) show ?thesis
  proof cases
    case (call_search key)
    then show ?thesis using search [of key] by (auto simp: outcome_def)
  next
    case (call_insert key val)
    then show ?thesis using leaf [of key] root by (auto simp: bt_insert_def outcome_def)
  next
    case (call_delete key)
    then show ?thesis using leaf [of key] root by (auto simp: bt_delete_def outcome_def)
  next
    case (call_range start_key end_key)
    then show ?thesis using leaf [of start_key] root by (auto simp: range_scan_def outcome_def)
  next
    case call_scan
    then show ?thesis using edge [of 0] by (auto simp: scan_all_def outcome_def)
  next
    case call_min
    then show ?thesis using edge [of 0] by (auto simp: get_min_key_def edge_key_def outcome_def)
  next
    case call_max
    then show ?thesis using edge [of "- 1"] by (auto simp: get_max_key_def edge_key_def outcome_def)
  next
    case (call_contains key)
    then show ?thesis using search [of key] by (auto simp: bt_contains_def outcome_def)
  qed
qed

lemma stuck_run: "tree_run K t t' \<Longrightarrow> stuck t \<Longrightarrow> stuck t' \<and> bt_size t' = bt_size t"
proof (induction rule: tree_run.induct)
  case (run_next K t t' e t'')
  then show ?case using stuck_call [OF run_next.hyps(2)] by auto
qed simp

lemma create_root_stuck:
  assumes "pool_inv s" and "can_insert s" and "bt_page_count t = 0" and "bt_pool t = s"
    and "map_of (bp_page_ids s) (page_number 1) = None" and "map_of (bp_page_ids s) (page_number 0) = None"
  shows "\<exists>t'. create_root K t = Some (Inr (), t') \<and> stuck t' \<and> bt_size t' = 0"
proof -
  obtain p where p: "page_new (page_number 1) BTREE_ROOT 8192 = Inr p" "blank p" "pg_id p = page_number 1"
    using page_new_blank [of 1 BTREE_ROOT] by auto
  obtain s1 where s1: "insert_page s p = Some (Inr (pin p), s1)" "pool_inv s1"
      "get_page s1 (pg_id p) = Inr (Some (pin p))" "map_of (bp_page_ids s1) (page_number 0) = None"
    using insert_page_ok [OF assms(1) _ assms(2), of p] assms(5,6) p(3) by (auto simp del: map_of_eq_None_iff)
  let ?nd = "blank_node (pin p) (bt_order t)"
  define t1 where "t1 = t\<lparr>bt_page_count := 1, bt_pool := s1, bt_root := Some (pg_id p)\<rparr>"
  obtain q where q: "write_data (page_clear (pin p)) HEADER_SIZE (replicate 17 0) = (Inr (), q)" "blank q"
      "pg_id q = pg_id p"
    using page_clear_blank [of "pin p"] write_zeros_blank [of "page_clear (pin p)"] blank_sized [OF p(2)]
      page_clear_data(4) [of "pin p"] by (auto simp: HEADER_SIZE_def)
  have live: "live_page t1 (pin p) = pin p" using s1(3) by (intro live_page_cached) (simp add: t1_def)
  obtain s2 where s2: "store_page q t1 = t1\<lparr>bt_pool := s2\<rparr>" "updates (bt_pool t1) q s2"
    by (rule store_page_cached [of t1 q "pin p"]) (use s1 q(3) in \<open>simp_all add: t1_def\<close>)
  have "node_serialize K ?nd t1 = (Inr (), t1\<lparr>bt_pool := s2\<rparr>)"
    using q(1) live s2(1) by (simp add: node_serialize_def node_bytes_blank Let_def) (simp add: blank_node_def)
  then have "create_root K t = Some (Inr (), t1\<lparr>bt_pool := s2, bt_size := 0\<rparr>)"
    using assms(3,4) p s1(1)
    by (simp add: create_root_def allocate_page_num_def pool_insert_def node_new_blank t1_def)
  moreover have "stuck (t1\<lparr>bt_pool := s2, bt_size := 0\<rparr>)"
    using updatesD(1-3) [OF s2(2)] s1(4) q(2,3) by (auto simp: stuck_def t1_def)
  ultimately show ?thesis by auto
qed

text \<open>
  C33. A new tree is dead: the constructor creates the root page and never fails (given room in the
  pool and pages 0 and 1 not in it), but the root it writes reads back as an inner node without keys
  whose child is page 0, which does not exist.  After any number of calls of the public methods,
  every further call raises \<^verbatim>\<open>ValueError\<close>, and the size stays 0.
\<close>
theorem new_tree_unusable:
  assumes "pool_inv s" and "can_insert s"
    and "map_of (bp_page_ids s) (page_number 0) = None" and "map_of (bp_page_ids s) (page_number 1) = None"
  shows "\<exists>t. btree_new K s order None = Some (Inr (), t) \<and>
    (\<forall>t'. tree_run K t t' \<longrightarrow> bt_size t' = 0 \<and>
       (\<forall>out. tree_call K t' out \<longrightarrow> (\<exists>t''. out = Some (Some ValueError, t''))))"
proof -
  obtain t where t: "btree_new K s order None = Some (Inr (), t)" "stuck t" "bt_size t = 0"
    using create_root_stuck [OF assms(1,2) _ _ assms(4,3), of
        "\<lparr>bt_order = order, bt_pool = s, bt_root = None, bt_page_count = 0, bt_size = 0\<rparr>" K]
    by (auto simp: btree_new_def)
  moreover have "\<exists>t''. out = Some (Some ValueError, t'')" if "tree_run K t t'" "tree_call K t' out" for t' out
    using stuck_call [OF that(2)] stuck_run [OF that(1) t(2)] by blast
  ultimately show ?thesis using stuck_run [of K t] by auto
qed

text \<open>An environment for the examples: keys are integers, page identifiers are not pickled.\<close>

definition int_keys :: "(int \<Rightarrow> int \<Rightarrow> bool) \<Rightarrow> ('d, 'o) key \<Rightarrow> ('d, 'o) key \<Rightarrow> bool result" where
  "int_keys f a b = (case (a, b) of (VInt x, VInt y) \<Rightarrow> Inr (f x y) | _ \<Rightarrow> Inl TypeError)"

definition int_tree_env :: "(pyfloat, unit) tree_env" where
  "int_tree_env =
     \<lparr>te_env = plain_env, key_ge = int_keys (\<ge>), key_gt = int_keys (>), key_eq = int_keys (=),
      pickled_page_id = (\<lambda>_. Inl TypeError)\<rparr>"

theorem new_tree_unusable_witness:
  "\<exists>t t'. btree_new int_tree_env (pool_new 4 8192) 4 None = Some (Inr (), t) \<and>
    map_option (apfst outcome) (bt_insert int_tree_env (VInt 5) (VInt 6) t) = Some (Some ValueError, t')"
proof -
  have "can_insert (pool_new 4 8192)" by (simp add: can_insert_def pool_size_def pool_new_def)
  then obtain t where t: "btree_new int_tree_env (pool_new 4 8192) 4 None = Some (Inr (), t)"
    and run: "\<forall>t'. tree_run int_tree_env t t' \<longrightarrow> bt_size t' = 0 \<and>
       (\<forall>out. tree_call int_tree_env t' out \<longrightarrow> (\<exists>t''. out = Some (Some ValueError, t'')))"
    using new_tree_unusable [OF pool_inv_new, of 4 8192 int_tree_env 4] by (auto simp: pool_new_def)
  show ?thesis using t run run_start call_insert [of int_tree_env t "VInt 5" "VInt 6"] by blast
qed

section \<open>A node and its page\<close>

text \<open>What a node may hold for its page to tell it all.\<close>

definition link_storable :: "page_id option \<Rightarrow> bool" where
  "link_storable l \<longleftrightarrow> (\<forall>pid. l = Some pid \<longrightarrow> 0 \<le> pid_page_num pid \<and> pid_table_id pid = 0)"

definition node_storable :: "('d, 'o) env \<Rightarrow> ('d, 'o) node \<Rightarrow> bool" where
  "node_storable env nd \<longleftrightarrow>
     list_all (storable env) (nd_keys nd) \<and> link_storable (nd_next_leaf nd) \<and> link_storable (nd_prev_leaf nd) \<and>
     (if nd_is_leaf nd
      then \<exists>vs. nd_values nd = map Val vs \<and> length vs = length (nd_keys nd) \<and> list_all (storable env) vs
      else \<exists>ns. nd_values nd = map (\<lambda>n. Child (page_number n)) ns \<and> length ns = length (nd_keys nd) + 1)"

lemma link_bytes_Inr:
  assumes "link_bytes l = Inr bs"
  shows "length bs = 4" and "unpack_sint True bs = (case l of None \<Rightarrow> - 1 | Some pid \<Rightarrow> pid_page_num pid)"
  using assms pack_sint_Inr [of 4 "case l of None \<Rightarrow> - 1 | Some pid \<Rightarrow> pid_page_num pid"]
  by (auto simp: link_bytes_def split: sum.splits)

lemma link_read:
  assumes "link_bytes l = Inr bs" and "link_storable l"
  shows "(if 0 \<le> unpack_sint True bs then Some (page_number (unpack_sint True bs)) else None) = l"
  using link_bytes_Inr(2) [OF assms(1)] assms(2) by (cases l) (auto simp: link_storable_def)

lemma read_keys_at:
  assumes "concat_results (map (encode env) ks) = Inr bs" and "list_all (storable env) ks"
  shows "read_keys env (pre @ bs @ post) (length ks) (ilen pre) = Inr (ks, ilen pre + ilen bs)"
  using assms
proof (induction ks arbitrary: pre bs)
  case (Cons k ks)
  then obtain b rest where b: "encode env k = Inr b" "concat_results (map (encode env) ks) = Inr rest"
      "bs = b @ rest"
    by (auto simp: res_bind_eq_Inr)
  have "decode env (pre @ b @ rest @ post) (ilen pre) = Inr (k, ilen pre + ilen b)"
    using Cons.prems(2) by (intro encode_decode [OF b(1)]) simp
  moreover have "read_keys env ((pre @ b) @ rest @ post) (length ks) (ilen (pre @ b)) =
      Inr (ks, ilen (pre @ b) + ilen rest)"
    using Cons.prems(2) by (intro Cons.IH b(2)) simp
  ultimately show ?case by (simp add: b(3))
qed simp

lemma slot_bytes_simps [simp]:
  "slot_bytes K True (Val v) = encode (te_env K) v"
  "slot_bytes K False (Child pid) = pack_sint True 4 (pid_page_num pid)"
  by (auto simp: slot_bytes_def split: sum.split)

lemma read_leaf_values_at:
  assumes "concat_results (map (slot_bytes K True) (map Val vs)) = Inr bs"
    and "list_all (storable (te_env K)) vs"
  shows "read_leaf_values (te_env K) (pre @ bs @ post) (length vs) (ilen pre) = Inr (map Val vs)"
  using assms
proof (induction vs arbitrary: pre bs)
  case (Cons v vs)
  then obtain b rest where b: "encode (te_env K) v = Inr b"
      "concat_results (map (slot_bytes K True) (map Val vs)) = Inr rest" "bs = b @ rest"
    by (auto simp: res_bind_eq_Inr)
  have "decode (te_env K) (pre @ b @ rest @ post) (ilen pre) = Inr (v, ilen pre + ilen b)"
    using Cons.prems(2) by (intro encode_decode [OF b(1)]) simp
  moreover have "read_leaf_values (te_env K) ((pre @ b) @ rest @ post) (length vs) (ilen (pre @ b)) =
      Inr (map Val vs)"
    using Cons.prems(2) by (intro Cons.IH b(2)) simp
  ultimately show ?case by (simp add: b(3))
qed simp

lemma read_children_at:
  fixes K :: "('d, 'o) tree_env"
  assumes "concat_results (map (slot_bytes K False) (map (\<lambda>n. Child (page_number n)) ns)) = Inr bs"
  shows "read_children (pre @ bs @ post) (length ns) (ilen pre) =
    (map (\<lambda>n. Child (page_number n)) ns :: ('d, 'o) slots)"
  using assms
proof (induction ns arbitrary: pre bs)
  case (Cons n ns)
  then obtain b rest where b: "pack_sint True 4 n = Inr b"
      "concat_results (map (slot_bytes K False) (map (\<lambda>n. Child (page_number n)) ns)) = Inr rest"
      "bs = b @ rest"
    by (auto simp: res_bind_eq_Inr)
  have four: "length b = 4" "unpack_sint True b = n" using pack_sint_Inr [OF b(1)] by simp_all
  have "unpack_from (pre @ b @ rest @ post) (ilen pre) 4 = Inr b" using four by (intro unpack_at)
  moreover have "read_children ((pre @ b) @ rest @ post) (length ns) (ilen (pre @ b)) =
      (map (\<lambda>n. Child (page_number n)) ns :: ('d, 'o) slots)"
    by (intro Cons.IH b(2))
  ultimately show ?case using four by (simp add: b(3))
qed simp

text \<open>The parts of a node's bytes.\<close>

lemma node_bytes_parts:
  assumes "node_bytes K nd = Inr bs"
  obtains n nl pl ks vs where "bs = (if nd_is_leaf nd then 1 else 0) # n @ nl @ pl @ ks @ vs"
    and "length n = 4" and "unpack_uint True n = ilen (nd_keys nd)"
    and "link_bytes (nd_next_leaf nd) = Inr nl" and "link_bytes (nd_prev_leaf nd) = Inr pl"
    and "concat_results (map (encode (te_env K)) (nd_keys nd)) = Inr ks"
    and "concat_results (map (slot_bytes K (nd_is_leaf nd)) (nd_values nd)) = Inr vs"
proof -
  obtain n nl pl ks vs where n: "struct_pack [(4, pack_uint True 4 (ilen (nd_keys nd)))] = Inr n"
    and rest: "link_bytes (nd_next_leaf nd) = Inr nl" "link_bytes (nd_prev_leaf nd) = Inr pl"
      "concat_results (map (encode (te_env K)) (nd_keys nd)) = Inr ks"
      "concat_results (map (slot_bytes K (nd_is_leaf nd)) (nd_values nd)) = Inr vs"
      "bs = (if nd_is_leaf nd then 1 else 0) # n @ nl @ pl @ ks @ vs"
    using assms unfolding node_bytes_def res_bind_eq_Inr by (metis sum.inject(2))
  from n have "pack_uint True 4 (ilen (nd_keys nd)) = Inr n" by (auto split: sum.splits)
  then show thesis
    using rest unpack_pack_uint [of True 4 "ilen (nd_keys nd)" n] pack_uint_length [of True 4 _ n]
    by (intro that [of n nl pl ks vs]) simp_all
qed

text \<open>Reading a page on which a node's bytes stand.\<close>

lemma node_new_reads:
  assumes "node_bytes K nd = Inr bs" and "node_storable (te_env K) nd"
    and "pg_data q = pre @ bs @ post" and "length pre = 24"
  shows "node_new (te_env K) q order leaf =
    Inr (nd\<lparr>nd_page := q, nd_order := order, nd_parent := None\<rparr>)"
proof -
  obtain n nl pl ks vs where bs: "bs = (if nd_is_leaf nd then 1 else 0) # n @ nl @ pl @ ks @ vs"
    and n: "length n = 4" "unpack_uint True n = ilen (nd_keys nd)"
    and nl: "link_bytes (nd_next_leaf nd) = Inr nl" and pl: "link_bytes (nd_prev_leaf nd) = Inr pl"
    and ks: "concat_results (map (encode (te_env K)) (nd_keys nd)) = Inr ks"
    and vs: "concat_results (map (slot_bytes K (nd_is_leaf nd)) (nd_values nd)) = Inr vs"
    by (rule node_bytes_parts [OF assms(1)])
  define flag :: byte where "flag = (if nd_is_leaf nd then 1 else 0)"
  let ?data = "pg_data q"
  let ?p1 = "pre @ [flag]"
  have data: "?data = pre @ flag # n @ nl @ pl @ ks @ vs @ post" by (simp add: assms(3) bs flag_def)
  note len = n(1) link_bytes_Inr(1) [OF nl] link_bytes_Inr(1) [OF pl] assms(4)
  have u: "py_index ?data 24 = Inr flag" "unpack_from ?data 25 4 = Inr n"
    "unpack_from ?data 29 4 = Inr nl" "unpack_from ?data 33 4 = Inr pl"
    using py_index_append [of pre flag "n @ nl @ pl @ ks @ vs @ post"]
      unpack_at [of n 4 ?p1 "nl @ pl @ ks @ vs @ post"]
      unpack_at [of nl 4 "?p1 @ n" "pl @ ks @ vs @ post"]
      unpack_at [of pl 4 "?p1 @ n @ nl" "ks @ vs @ post"] len
    by (simp_all add: data)
  let ?p5 = "?p1 @ n @ nl @ pl"
  have p5: "ilen ?p5 = 37" using len by simp
  have keys: "read_keys (te_env K) ?data (length (nd_keys nd)) 37 = Inr (nd_keys nd, 37 + ilen ks)"
    using read_keys_at [OF ks, of ?p5 "vs @ post"] assms(2) p5 by (simp add: data node_storable_def)
  have leaf_values: "read_leaf_values (te_env K) ?data (length (nd_keys nd)) (37 + ilen ks) = Inr (nd_values nd)"
    if leaf: "nd_is_leaf nd"
  proof -
    obtain xs where xs: "nd_values nd = map Val xs" "length xs = length (nd_keys nd)"
        "list_all (storable (te_env K)) xs"
      using leaf assms(2) by (auto simp: node_storable_def)
    have "concat_results (map (slot_bytes K True) (map Val xs)) = Inr vs" using vs leaf xs(1) by simp
    from read_leaf_values_at [OF this xs(3), of "?p5 @ ks" post] show ?thesis
      using xs(1,2) len by (simp add: data)
  qed
  have child_values: "read_children ?data (length (nd_keys nd) + 1) (37 + ilen ks) = nd_values nd"
    if inner: "\<not> nd_is_leaf nd"
  proof -
    obtain ns where ns: "nd_values nd = map (\<lambda>n. Child (page_number n)) ns" "length ns = length (nd_keys nd) + 1"
      using inner assms(2) by (auto simp: node_storable_def)
    have "concat_results (map (slot_bytes K False) (map (\<lambda>n. Child (page_number n)) ns)) = Inr vs"
      using vs inner ns(1) by simp
    from read_children_at [OF this, of "?p5 @ ks" post] show ?thesis
      using ns len by (simp add: data)
  qed
  have links: "link_storable (nd_next_leaf nd)" "link_storable (nd_prev_leaf nd)"
    using assms(2) by (simp_all add: node_storable_def)
  have "\<not> 29 > ilen ?data" using len by (simp add: data)
  then show ?thesis
    using u keys leaf_values child_values n(2) link_read [OF nl links(1)] link_read [OF pl links(2)]
    by (auto simp: node_new_def node_deserialize_def HEADER_SIZE_def Let_def flag_def)
qed

text \<open>Writing a node's bytes to the page that the pool holds.\<close>

definition on_page :: "btree \<Rightarrow> ('d, 'o) node \<Rightarrow> page \<Rightarrow> bool" where
  "on_page t nd p \<longleftrightarrow>
     pool_inv (bt_pool t) \<and> get_page (bt_pool t) (node_id nd) = Inr (Some p) \<and> page_sized p \<and>
     HEADER_SIZE \<le> pg_size p"

lemma on_page_id: "on_page t nd p \<Longrightarrow> pg_id p = node_id nd"
  by (auto simp: on_page_def elim: cached_holds)

lemma node_serialize_ok:
  assumes "on_page t nd p" and "node_bytes K nd = Inr bs" and "HEADER_SIZE + ilen bs \<le> pg_size p"
  obtains s q where "node_serialize K nd t = (Inr (), t\<lparr>bt_pool := s\<rparr>)" and "updates (bt_pool t) q s"
    and "pg_id q = node_id nd" and "pg_size q = pg_size p" and "page_sized q"
    and "\<exists>pre post. pg_data q = pre @ bs @ post \<and> length pre = 24"
proof -
  note c = page_clear_data [of p]
  have sized: "page_sized p" "HEADER_SIZE \<le> pg_size p" using assms(1) by (simp_all add: on_page_def)
  have room: "in_region (pg_data (page_clear p)) HEADER_SIZE (ilen bs)"
    using assms(3) c(2,3) [OF sized] by (simp add: in_region_def page_sized_def HEADER_SIZE_def)
  define q where "q = snd (write_data (page_clear p) HEADER_SIZE bs)"
  have w: "write_data (page_clear p) HEADER_SIZE bs = (Inr (), q)" "page_sized q"
      "pg_data q = overwrite (pg_data (page_clear p)) 24 bs"
    using pg.wr_in [OF c(2) [OF sized] room] by (simp_all add: q_def HEADER_SIZE_def prod_eq_iff)
  have id: "pg_id q = node_id nd" "pg_size q = pg_size p"
    using c(3,4) [OF sized] on_page_id [OF assms(1)]
    by (simp_all add: q_def write_data_def Let_def)
  obtain s where s: "store_page q t = t\<lparr>bt_pool := s\<rparr>" "updates (bt_pool t) q s"
    by (rule store_page_cached [of t q p]) (use assms(1) id in \<open>simp_all add: on_page_def\<close>)
  have "live_page t (nd_page nd) = p"
    using assms(1) by (intro live_page_cached) (simp add: on_page_def node_id_def)
  then have "node_serialize K nd t = (Inr (), t\<lparr>bt_pool := s\<rparr>)"
    using assms(2) w(1) s(1) by (simp add: node_serialize_def)
  moreover have "pg_data q = take 24 (pg_data (page_clear p)) @ bs @ drop (24 + length bs) (pg_data (page_clear p))"
    by (simp add: w(3) overwrite_def)
  moreover have "length (take 24 (pg_data (page_clear p))) = 24"
    using sized c(2,3) [OF sized] by (simp add: page_sized_def HEADER_SIZE_def)
  ultimately show thesis using s(2) id w(2) by (intro that) blast+
qed

text \<open>
  Node round trip: a node whose bytes fit its cached page is written without an error, and
  fetching the page again gives the same node (kind, keys, values, links), except that the reference
  to its parent is lost: it is not stored.
\<close>
theorem node_roundtrip:
  assumes "on_page t nd p" and "node_bytes K nd = Inr bs" and "HEADER_SIZE + ilen bs \<le> pg_size p"
    and "node_storable (te_env K) nd"
  shows "\<exists>t1 t2 q. node_serialize K nd t = (Inr (), t1) \<and>
    get_node K (node_id nd) t1 = (Inr (nd\<lparr>nd_page := q, nd_order := bt_order t, nd_parent := None\<rparr>), t2)"
proof -
  obtain s q pre post where s: "node_serialize K nd t = (Inr (), t\<lparr>bt_pool := s\<rparr>)" "updates (bt_pool t) q s"
      "pg_id q = node_id nd" "pg_data q = pre @ bs @ post" "length pre = 24"
    by (rule node_serialize_ok [OF assms(1-3)]) blast
  let ?t1 = "t\<lparr>bt_pool := s\<rparr>"
  have "get_page (bt_pool ?t1) (node_id nd) = Inr (Some q)" using updatesD(3) [OF s(2)] s(3) by simp
  then obtain s2 where "get_node K (node_id nd) ?t1 =
      (node_new (te_env K) (pin q) (bt_order ?t1) True, ?t1\<lparr>bt_pool := s2\<rparr>)"
    by (rule get_node_cached [rotated]) (use updatesD(1) [OF s(2)] in simp_all)
  moreover have "node_new (te_env K) (pin q) (bt_order t) True =
      Inr (nd\<lparr>nd_page := pin q, nd_order := bt_order t, nd_parent := None\<rparr>)"
    using s(4,5) by (intro node_new_reads [OF assms(2,4)]) simp_all
  ultimately show ?thesis using s(1) by auto
qed

text \<open>A tree of one leaf for the examples, on a page of 8192 bytes.\<close>

definition example_page :: page where
  "example_page = (sample_page 1 0 False)\<lparr>pg_size := 8192, pg_data := replicate 8192 0\<rparr>"

definition example_leaf :: "int \<Rightarrow> (pyfloat, unit) node" where
  "example_leaf order =
     \<lparr>nd_page = example_page, nd_order = order, nd_is_leaf = True, nd_keys = [VInt 5, VInt 7],
      nd_values = [Val (VInt 6), Val VNull], nd_next_leaf = None, nd_prev_leaf = None, nd_parent = None\<rparr>"

definition example_tree :: "int \<Rightarrow> btree" where
  "example_tree order =
     \<lparr>bt_order = order, bt_pool = (sample_pool example_page)\<lparr>bp_capacity := 2, bp_pages := [Some example_page, None],
        bp_clock_refs := [False, False]\<rparr>,
      bt_root = Some (page_number 1), bt_page_count = 1, bt_size = 2\<rparr>"

lemma example_tree_inv: "pool_inv (bt_pool (example_tree order))"
proof (rule pool_invI)
  show "map_of (bp_page_ids (bt_pool (example_tree order))) pid = Some i \<longleftrightarrow>
      slot_holds (bp_pages (bt_pool (example_tree order))) pid i" for pid i
  proof (cases "i = 0 \<or> i = 1")
    case False
    then show ?thesis by (auto simp: example_tree_def sample_pool_def slot_holds_def)
  qed (auto simp: example_tree_def sample_pool_def slot_holds_def)
qed (simp_all add: example_tree_def sample_pool_def pool_new_def py_repeat_def)

lemma example_on_page: "on_page (example_tree order) (example_leaf order) example_page"
  using example_tree_inv
  by (simp add: on_page_def example_tree_def sample_pool_def get_page_def py_index_in node_id_def
      example_leaf_def example_page_def page_sized_def HEADER_SIZE_def)

lemma example_bytes: "\<exists>bs. node_bytes int_tree_env (example_leaf order) = Inr bs \<and> ilen bs = 41"
  by (simp add: node_bytes_def example_leaf_def link_bytes_def int_tree_env_def pack_uint_tag
      pack_uint_def [of True 4] pack_sint_def)

lemma example_storable: "node_storable (te_env int_tree_env) (example_leaf order)"
  by (auto simp: node_storable_def example_leaf_def link_storable_def
      intro!: exI [of _ "[VInt 6, VNull]"])

theorem node_roundtrip_witness:
  "\<exists>t1 t2 q. node_serialize int_tree_env (example_leaf 1) (example_tree 1) = (Inr (), t1) \<and>
    get_node int_tree_env (page_number 1) t1 = (Inr ((example_leaf 1)\<lparr>nd_page := q\<rparr>), t2)"
proof -
  obtain bs where bs: "node_bytes int_tree_env (example_leaf 1) = Inr bs" "ilen bs = 41"
    using example_bytes by blast
  have id: "node_id (example_leaf 1) = page_number 1"
    by (simp add: node_id_def example_leaf_def example_page_def sample_page_def)
  show ?thesis
    using node_roundtrip [OF example_on_page bs(1) _ example_storable] bs(2)
    by (simp add: id HEADER_SIZE_def) (simp add: example_page_def example_leaf_def example_tree_def)
qed

section \<open>Writes that fail\<close>

lemma node_serialize_fails:
  assumes "on_page t nd p"
    and "node_bytes K nd = Inl e \<or>
      (\<exists>bs. node_bytes K nd = Inr bs \<and> pg_size p < HEADER_SIZE + ilen bs \<and> e = ValueError)"
  obtains s where "node_serialize K nd t = (Inl e, t\<lparr>bt_pool := s\<rparr>)"
    and "updates (bt_pool t) (page_clear p) s"
proof -
  have sized: "page_sized p" "HEADER_SIZE \<le> pg_size p" using assms(1) by (simp_all add: on_page_def)
  note c = page_clear_data [OF sized]
  have id: "pg_id (page_clear p) = node_id nd" using c(4) on_page_id [OF assms(1)] by simp
  obtain s where s: "store_page (page_clear p) t = t\<lparr>bt_pool := s\<rparr>" "updates (bt_pool t) (page_clear p) s"
    by (rule store_page_cached [of t "page_clear p" p]) (use assms(1) id in \<open>simp_all add: on_page_def\<close>)
  have live: "live_page t (nd_page nd) = p"
    using assms(1) by (intro live_page_cached) (simp add: on_page_def node_id_def)
  from assms(2) have "node_serialize K nd t = (Inl e, t\<lparr>bt_pool := s\<rparr>)"
    using live s(1) c(3) by (auto simp: node_serialize_def write_data_def)
  then show thesis using s(2) by (rule that)
qed

text \<open>
  A failing write destroys the node: \<^verbatim>\<open>serialize\<close> clears the page before it encodes, so when a
  key or value cannot be encoded, or the bytes do not fit, it raises, and the page then reads as an
  inner node without keys whose child is page 0; the entries the page held are gone.
\<close>
theorem node_write_failure:
  assumes "on_page t nd p" and "pg_size p = 8192"
    and "node_bytes K nd = Inl e \<or>
      (\<exists>bs. node_bytes K nd = Inr bs \<and> pg_size p < HEADER_SIZE + ilen bs \<and> e = ValueError)"
  shows "\<exists>t1 t2 q. node_serialize K nd t = (Inl e, t1) \<and>
    get_node K (node_id nd) t1 = (Inr (blank_node q (bt_order t)), t2)"
proof -
  obtain s where s: "node_serialize K nd t = (Inl e, t\<lparr>bt_pool := s\<rparr>)" "updates (bt_pool t) (page_clear p) s"
    by (rule node_serialize_fails [OF assms(1,3)])
  have blank: "blank (page_clear p)"
    using assms(1,2) by (intro page_clear_blank) (simp_all add: on_page_def)
  have "pg_id (page_clear p) = node_id nd" using on_page_id [OF assms(1)] by (simp add: page_clear_def)
  then have "get_page s (node_id nd) = Inr (Some (page_clear p))" using updatesD(3) [OF s(2)] by simp
  then obtain s2 where "get_node K (node_id nd) (t\<lparr>bt_pool := s\<rparr>) =
      (node_new (te_env K) (pin (page_clear p)) (bt_order t) True, t\<lparr>bt_pool := s2\<rparr>)"
    using get_node_cached [of "t\<lparr>bt_pool := s\<rparr>" "node_id nd" "page_clear p" K] updatesD(1) [OF s(2)] by auto
  then show ?thesis using s(1) blank by (auto simp: node_new_blank)
qed

theorem node_write_failure_witness:
  "\<exists>t1 t2 q. node_serialize int_tree_env ((example_leaf 1)\<lparr>nd_values := [Val (VInt 6), Val (VInt (2 ^ 63))]\<rparr>) (example_tree 1) =
      (Inl StructError, t1) \<and>
    get_node int_tree_env (page_number 1) t1 = (Inr (blank_node q 1), t2)"
proof -
  let ?nd = "(example_leaf 1)\<lparr>nd_values := [Val (VInt 6), Val (VInt (2 ^ 63))]\<rparr>"
  have "node_bytes int_tree_env ?nd = Inl StructError"
    by (simp add: node_bytes_def example_leaf_def link_bytes_def int_tree_env_def pack_uint_tag
      pack_uint_def [of True 4] pack_sint_def)
  moreover have "on_page (example_tree 1) ?nd example_page"
    using example_on_page by (simp add: on_page_def node_id_def)
  ultimately show ?thesis
    using node_write_failure [of "example_tree 1" ?nd example_page int_tree_env StructError]
    by (simp add: example_page_def example_leaf_def example_tree_def node_id_def sample_page_def)
qed

section \<open>Splitting a leaf\<close>

lemma concat_results_append:
  "concat_results (rs @ rs') = res_bind (concat_results rs) (\<lambda>a. res_bind (concat_results rs') (\<lambda>b. Inr (a @ b)))"
  by (induction rs) (simp_all add: res_bind_def split: sum.split)

lemma concat_results_take:
  assumes "concat_results rs = Inr bs"
  obtains b c where "concat_results (take n rs) = Inr b" and "concat_results (drop n rs) = Inr c" and "bs = b @ c"
proof -
  have "concat_results (take n rs @ drop n rs) = Inr bs" using assms by simp
  then show thesis unfolding concat_results_append by (auto simp: res_bind_eq_Inr intro: that)
qed

lemma link_bytes_some:
  assumes "- (2 ^ 31) \<le> pid_page_num pid" and "pid_page_num pid < 2 ^ 31"
  shows "\<exists>bs. link_bytes (Some pid) = Inr bs \<and> length bs = 4"
  using assms by (simp add: link_bytes_def pack_sint_def)

text \<open>The first half of a leaf fits where the leaf fitted.\<close>

lemma half_leaf_bytes:
  assumes "node_bytes K leaf = Inr bs" and "link_bytes (Some pid) = Inr nl"
  shows "\<exists>bs'. node_bytes K (leaf\<lparr>nd_keys := take n (nd_keys leaf), nd_values := take n (nd_values leaf),
      nd_next_leaf := Some pid\<rparr>) = Inr bs' \<and> ilen bs' \<le> ilen bs"
proof -
  obtain m nl0 pl ks vs where bs: "bs = (if nd_is_leaf leaf then 1 else 0) # m @ nl0 @ pl @ ks @ vs"
    and m: "length m = 4" "unpack_uint True m = ilen (nd_keys leaf)"
    and nl0: "link_bytes (nd_next_leaf leaf) = Inr nl0" and pl: "link_bytes (nd_prev_leaf leaf) = Inr pl"
    and ks: "concat_results (map (encode (te_env K)) (nd_keys leaf)) = Inr ks"
    and vs: "concat_results (map (slot_bytes K (nd_is_leaf leaf)) (nd_values leaf)) = Inr vs"
    by (rule node_bytes_parts [OF assms(1)])
  obtain k1 k2 where k: "concat_results (map (encode (te_env K)) (take n (nd_keys leaf))) = Inr k1" "ks = k1 @ k2"
    by (rule concat_results_take [OF ks, of n]) (simp add: take_map)
  obtain v1 v2 where v: "concat_results (map (slot_bytes K (nd_is_leaf leaf)) (take n (nd_values leaf))) = Inr v1"
      "vs = v1 @ v2"
    by (rule concat_results_take [OF vs, of n]) (simp add: take_map)
  have "ilen (nd_keys leaf) < 256 ^ 4" using unpack_uint_bounds(2) [of True m] m by simp
  then have "pack_uint True 4 (ilen (take n (nd_keys leaf))) =
      Inr (rev (le_bytes 4 (ilen (take n (nd_keys leaf)))))"
    by (simp add: pack_uint_def byte_order_def)
  then show ?thesis
    using k v pl assms(2) m(1) link_bytes_Inr(1) [OF nl0] link_bytes_Inr(1) [OF assms(2)]
    by (simp add: node_bytes_def bs)
qed

text \<open>The fresh node of a split is no leaf, so it cannot hold the values of one.\<close>

lemma fresh_half_bytes:
  assumes "node_bytes K leaf = Inr bs" and "nd_values leaf = map Val xs" and "length xs = length (nd_keys leaf)"
    and "n < length xs" and "\<not> nd_is_leaf nd" and "nd_keys nd = drop n (nd_keys leaf)"
    and "nd_values nd = drop n (nd_values leaf)" and "nd_next_leaf nd = nd_next_leaf leaf"
    and "link_bytes (nd_prev_leaf nd) = Inr pl"
  shows "node_bytes K nd = Inl AttributeErr"
proof -
  obtain m nl0 pl0 ks where m: "length m = 4" "unpack_uint True m = ilen (nd_keys leaf)"
    and nl0: "link_bytes (nd_next_leaf leaf) = Inr nl0"
    and ks: "concat_results (map (encode (te_env K)) (nd_keys leaf)) = Inr ks"
    by (rule node_bytes_parts [OF assms(1)])
  obtain k1 k2 where k: "concat_results (map (encode (te_env K)) (drop n (nd_keys leaf))) = Inr k2"
    by (rule concat_results_take [OF ks, of n]) (simp add: drop_map)
  have "ilen (nd_keys leaf) < 256 ^ 4" using unpack_uint_bounds(2) [of True m] m by simp
  then have "pack_uint True 4 (ilen (drop n (nd_keys leaf))) =
      Inr (rev (le_bytes 4 (ilen (drop n (nd_keys leaf)))))"
    by (simp add: pack_uint_def byte_order_def)
  moreover have "concat_results (map (slot_bytes K False) (drop n (map Val xs))) = Inl AttributeErr"
    using assms(4) by (simp add: Cons_nth_drop_Suc [symmetric] slot_bytes_def)
  ultimately show ?thesis
    using assms(2,5-9) nl0 k by (simp add: node_bytes_def)
qed

lemma new_node_room:
  fixes K :: "('d, 'o) tree_env"
  assumes "pool_inv (bt_pool t)" and "pool_size (bt_pool t) < bp_capacity (bt_pool t)"
    and "0 \<le> bt_page_count t" and "bt_page_count t < 2 ^ 31 - 1"
    and "map_of (bp_page_ids (bt_pool t)) (page_number (bt_page_count t + 1)) = None"
  obtains p s where "new_node K ptype leaf t = Some (Inr (blank_node p (bt_order t) :: ('d, 'o) node),
      t\<lparr>bt_page_count := bt_page_count t + 1, bt_pool := s\<rparr>)"
    and "pool_inv s" and "blank p" and "pg_id p = page_number (bt_page_count t + 1)"
    and "get_page s (pg_id p) = Inr (Some p)"
    and "\<And>q. q \<noteq> pg_id p \<Longrightarrow> get_page s q = get_page (bt_pool t) q"
proof -
  let ?n = "bt_page_count t + 1"
  obtain p where p: "page_new (page_number ?n) ptype 8192 = Inr p" "blank p" "pg_id p = page_number ?n"
    using page_new_blank [of ?n ptype] assms(3,4) by auto
  have none: "map_of (bp_page_ids (bt_pool t)) (pg_id p) = None" using assms(5) by (simp only: p(3))
  obtain s where s: "insert_page (bt_pool t) p = Some (Inr (pin p), s)" "pool_inv s"
      "get_page s (pg_id p) = Inr (Some (pin p))" "\<And>q. q \<noteq> pg_id p \<Longrightarrow> get_page s q = get_page (bt_pool t) q"
    by (rule insert_page_room [OF assms(1) none assms(2)]) blast
  have "new_node K ptype leaf t = Some (Inr (blank_node (pin p) (bt_order t)),
      t\<lparr>bt_page_count := ?n, bt_pool := s\<rparr>)"
    using p s(1) by (simp add: new_node_def allocate_page_num_def pool_insert_def node_new_blank)
  then show thesis using p s by (intro that [of "pin p" s]) simp_all
qed

lemma on_page_cong:
  "on_page t nd p \<Longrightarrow> pool_inv (bt_pool t') \<Longrightarrow> node_id nd' = node_id nd \<Longrightarrow>
   get_page (bt_pool t') (node_id nd) = get_page (bt_pool t) (node_id nd) \<Longrightarrow> on_page t' nd' p"
  by (simp add: on_page_def)

text \<open>Reading a node whose bytes stand on its cached page.\<close>

lemma get_node_reads:
  assumes "pool_inv (bt_pool t)" and "get_page (bt_pool t) (node_id nd) = Inr (Some q)"
    and "node_bytes K nd = Inr bs" and "node_storable (te_env K) nd"
    and "\<exists>pre post. pg_data q = pre @ bs @ post \<and> length pre = 24"
  obtains s where "get_node K (node_id nd) t =
      (Inr (nd\<lparr>nd_page := pin q, nd_order := bt_order t, nd_parent := None\<rparr>), t\<lparr>bt_pool := s\<rparr>)"
    and "updates (bt_pool t) (pin q) s"
proof -
  obtain pre post where data: "pg_data (pin q) = pre @ bs @ post" "length pre = 24" using assms(5) by auto
  obtain s where "get_node K (node_id nd) t = (node_new (te_env K) (pin q) (bt_order t) True, t\<lparr>bt_pool := s\<rparr>)"
      "updates (bt_pool t) (pin q) s"
    by (rule get_node_cached [OF assms(1,2)])
  then show thesis using node_new_reads [OF assms(3,4) data] by (intro that) simp_all
qed

text \<open>The leaf as it stands on its page after the split.\<close>

definition left_half :: "('d, 'o) node \<Rightarrow> page_id \<Rightarrow> ('d, 'o) node" where
  "left_half leaf pid =
     (let n = length (nd_keys leaf) div 2
      in leaf\<lparr>nd_keys := take n (nd_keys leaf), nd_values := take n (nd_values leaf), nd_next_leaf := Some pid\<rparr>)"

lemma left_half_storable:
  assumes "node_storable env leaf" and "nd_is_leaf leaf" and "0 \<le> n"
  shows "node_storable env (left_half leaf (page_number n))"
proof -
  from assms obtain vs where vs: "nd_values leaf = map Val vs" "length vs = length (nd_keys leaf)"
      "list_all (storable env) vs"
    by (auto simp: node_storable_def)
  let ?h = "length (nd_keys leaf) div 2"
  have "list_all (storable env) (take ?h vs)" "list_all (storable env) (take ?h (nd_keys leaf))"
    using assms(1) vs(3) by (auto simp: node_storable_def list_all_iff dest: in_set_takeD)
  then show ?thesis
    using assms vs by (auto simp: node_storable_def left_half_def link_storable_def take_map Let_def
        intro!: exI [of _ "take ?h vs"])
qed

lemma split_leaf_raises:
  fixes K :: "('d, 'o) tree_env"
  assumes "on_page t leaf pl" and "node_bytes K leaf = Inr bs" and "HEADER_SIZE + ilen bs \<le> pg_size pl"
    and "nd_is_leaf leaf" and "node_storable (te_env K) leaf" and "nd_keys leaf \<noteq> []"
    and "pid_page_num (node_id leaf) \<in> {0..<2 ^ 31}"
    and "pool_size (bt_pool t) < bp_capacity (bt_pool t)"
    and "0 \<le> bt_page_count t" and "bt_page_count t < 2 ^ 31 - 1"
    and "map_of (bp_page_ids (bt_pool t)) (page_number (bt_page_count t + 1)) = None"
  defines "fresh_id \<equiv> page_number (bt_page_count t + 1)"
  obtains s q p bs' where "split_leaf K leaf t =
      Some (Inl AttributeErr, t\<lparr>bt_page_count := bt_page_count t + 1, bt_pool := s\<rparr>)"
    and "pool_inv s" and "get_page s (node_id leaf) = Inr (Some q)" and "page_sized q" and "pg_size q = pg_size pl"
    and "node_bytes K (left_half leaf fresh_id) = Inr bs'"
    and "\<exists>pre post. pg_data q = pre @ bs' @ post \<and> length pre = 24"
    and "get_page s fresh_id = Inr (Some p)" and "blank p"
proof -
  have inv: "pool_inv (bt_pool t)" using assms(1) by (simp add: on_page_def)
  obtain p0 s0 where fresh: "new_node K BTREE_LEAF True t = Some (Inr (blank_node p0 (bt_order t) :: ('d, 'o) node),
      t\<lparr>bt_page_count := bt_page_count t + 1, bt_pool := s0\<rparr>)"
    and s0: "pool_inv s0" "blank p0" "pg_id p0 = fresh_id" "get_page s0 (pg_id p0) = Inr (Some p0)"
      "\<And>q. q \<noteq> pg_id p0 \<Longrightarrow> get_page s0 q = get_page (bt_pool t) q"
    unfolding fresh_id_def by (rule new_node_room [OF inv assms(8-11)]) blast
  let ?n = "length (nd_keys leaf) div 2"
  let ?t0 = "t\<lparr>bt_page_count := bt_page_count t + 1, bt_pool := s0\<rparr>"
  have other: "node_id leaf \<noteq> pg_id p0"
    using assms(1,11) s0(3) by (auto simp: on_page_def fresh_id_def get_page_def)
  have page0: "on_page ?t0 (left_half leaf fresh_id) pl"
    using assms(1) s0(1) s0(5) [OF other]
    by (intro on_page_cong [OF assms(1)]) (simp_all add: left_half_def node_id_def Let_def)
  obtain nl where nl: "link_bytes (Some fresh_id) = Inr nl"
    using link_bytes_some [of fresh_id] assms(9,10) by (auto simp: fresh_id_def)
  obtain bs' where bs': "node_bytes K (left_half leaf fresh_id) = Inr bs'" "ilen bs' \<le> ilen bs"
    using half_leaf_bytes [OF assms(2) nl, of ?n] by (auto simp: left_half_def Let_def)
  have id: "node_id (left_half leaf fresh_id) = node_id leaf" by (simp add: left_half_def node_id_def Let_def)
  obtain s1 q where s1: "node_serialize K (left_half leaf fresh_id) ?t0 = (Inr (), ?t0\<lparr>bt_pool := s1\<rparr>)"
      "updates (bt_pool ?t0) q s1" "pg_id q = node_id leaf" "page_sized q" "pg_size q = pg_size pl"
      "\<exists>pre post. pg_data q = pre @ bs' @ post \<and> length pre = 24"
    by (rule node_serialize_ok [OF page0 bs'(1)]) (use assms(3) bs'(2) id in auto)
  let ?t1 = "t\<lparr>bt_page_count := bt_page_count t + 1, bt_pool := s1\<rparr>"
  define right where "right = (blank_node p0 (bt_order t) :: ('d, 'o) node)\<lparr>nd_keys := drop ?n (nd_keys leaf),
    nd_values := drop ?n (nd_values leaf), nd_next_leaf := nd_next_leaf leaf, nd_prev_leaf := Some (node_id leaf)\<rparr>"
  have rid: "node_id right = pg_id p0" by (simp add: right_def node_id_def blank_node_def)
  have page1: "on_page ?t1 right p0"
    using updatesD [OF s1(2)] s0(2,4) other s1(3) blank_sized [OF s0(2)]
    by (simp add: on_page_def rid HEADER_SIZE_def)
  obtain xs where xs: "nd_values leaf = map Val xs" "length xs = length (nd_keys leaf)"
    using assms(4,5) by (auto simp: node_storable_def)
  obtain pl' where pl': "link_bytes (Some (node_id leaf)) = Inr pl'"
    using link_bytes_some [of "node_id leaf"] assms(7) by auto
  have "node_bytes K right = Inl AttributeErr"
    using assms(6) xs pl' by (intro fresh_half_bytes [OF assms(2) xs, of ?n]) (simp_all add: right_def blank_node_def)
  then obtain s2 where s2: "node_serialize K right ?t1 = (Inl AttributeErr, ?t1\<lparr>bt_pool := s2\<rparr>)"
      "updates (bt_pool ?t1) (page_clear p0) s2"
    using node_serialize_fails [OF page1, of K AttributeErr] by blast
  have "split_leaf K leaf t = Some (Inl AttributeErr, t\<lparr>bt_page_count := bt_page_count t + 1, bt_pool := s2\<rparr>)"
    using fresh s1(1) s2(1) s0(3)
    by (simp add: split_leaf_def Let_def left_half_def right_def [symmetric])
  moreover have clear: "pg_id (page_clear p0) = fresh_id" "blank (page_clear p0)"
    using s0(3) page_clear_blank [of p0] blank_sized [OF s0(2)] by (simp_all add: page_clear_def)
  moreover have "get_page s2 (node_id leaf) = Inr (Some q)"
    using updatesD(4) [OF s2(2), of "node_id leaf"] updatesD(3) [OF s1(2)] clear(1) other s1(3) s0(3) by simp
  ultimately show thesis
    using updatesD(1,3) [OF s2(2)] bs'(1) s1(4-6) by (intro that [of s2 q bs' "page_clear p0"]) simp_all
qed

end
