(* ===== verification/BTree_Leaf.thy ===== *)
theory BTree_Leaf
  imports BTree_Facts
begin

text \<open>
  A B+ tree whose root is a leaf, such as one opened on an existing page: searching, inserting and
  deleting are the operations of a finite map, until the leaf is full and has to be split.
\<close>

section \<open>Keys and values side by side\<close>

definition entries :: "('d, 'o) node \<Rightarrow> ('d, 'o) key \<rightharpoonup> ('d, 'o) db_value slot" where
  "entries nd = map_of (zip (nd_keys nd) (nd_values nd))"

lemma map_of_insert_middle:
  "k \<notin> fst ` set xs \<Longrightarrow> map_of (xs @ (k, v) # ys) = (map_of (xs @ ys))(k \<mapsto> v)"
  by (induction xs) (auto simp: fun_eq_iff)

lemma zip_py_insert:
  "length ks = length vs \<Longrightarrow> zip (py_insert i k ks) (py_insert i v vs) =
    take i (zip ks vs) @ (k, v) # drop i (zip ks vs)"
  by (simp add: py_insert_def take_zip drop_zip)

lemma map_of_py_insert:
  assumes "length ks = length vs" and "k \<notin> set ks"
  shows "map_of (zip (py_insert i k ks) (py_insert i v vs)) = (map_of (zip ks vs))(k \<mapsto> v)"
proof -
  have "k \<notin> fst ` set (take i (zip ks vs))"
    using assms by (auto dest!: in_set_takeD elim!: in_set_zipE)
  from map_of_insert_middle [OF this, of v "drop i (zip ks vs)"]
  show ?thesis by (simp add: zip_py_insert [OF assms(1)])
qed

lemma map_of_zip_update:
  "distinct ks \<Longrightarrow> length ks = length vs \<Longrightarrow> i < length ks \<Longrightarrow>
   map_of (zip ks (vs[i := v])) = (map_of (zip ks vs))(ks ! i \<mapsto> v)"
proof (induction ks arbitrary: vs i)
  case (Cons k ks)
  then obtain w ws where vs: "vs = w # ws" by (cases vs) auto
  show ?case
  proof (cases i)
    case (Suc j)
    then have "ks ! j \<noteq> k" using Cons.prems vs by auto
    then show ?thesis using Cons Suc vs by (auto simp: fun_eq_iff)
  qed (simp add: vs fun_eq_iff)
qed simp

lemma map_of_zip_remove:
  "distinct ks \<Longrightarrow> length ks = length vs \<Longrightarrow> i < length ks \<Longrightarrow>
   map_of (zip (take i ks @ drop (i + 1) ks) (take i vs @ drop (i + 1) vs)) = (map_of (zip ks vs))(ks ! i := None)"
proof (induction ks arbitrary: vs i)
  case (Cons k ks)
  then obtain w ws where vs: "vs = w # ws" by (cases vs) auto
  show ?case
  proof (cases i)
    case 0
    have "map_of (zip ks ws) k = None" using Cons.prems vs by (simp add: map_of_zip_is_None del: map_of_eq_None_iff)
    then show ?thesis using 0 vs by (auto simp: fun_eq_iff)
  next
    case (Suc j)
    then have "ks ! j \<noteq> k" using Cons.prems vs by auto
    then show ?thesis using Cons Suc vs by (auto simp: fun_eq_iff)
  qed
qed simp

lemma map_of_take_le:
  assumes "distinct ks" and "length vs = length ks"
  shows "map_of (zip (take n ks) (take n vs)) \<subseteq>\<^sub>m map_of (zip ks vs)"
proof -
  have "zip ks vs = zip (take n ks) (take n vs) @ zip (drop n ks) (drop n vs)"
    using assms(2) by (simp add: take_zip [symmetric] drop_zip [symmetric])
  moreover have "dom (map_of (zip (drop n ks) (drop n vs))) \<inter> dom (map_of (zip (take n ks) (take n vs))) = {}"
    using assms set_take_disj_set_drop_if_distinct [OF assms(1), of n n] by (auto simp: dom_map_of_zip)
  ultimately show ?thesis by (auto simp: map_le_def map_add_def dom_def split: option.split)
qed

section \<open>The bytes of a leaf\<close>

definition total_size :: "('d, 'o) env \<Rightarrow> ('d, 'o) db_value list \<Rightarrow> int" where
  "total_size env vs = (\<Sum>v\<leftarrow>vs. ilen (ser_bytes env v))"

definition encodable :: "('d, 'o) env \<Rightarrow> ('d, 'o) db_value list \<Rightarrow> bool" where
  "encodable env vs \<longleftrightarrow> list_all (ser_valid env) vs"

lemma total_size_simps [simp]:
  "total_size env [] = 0" "total_size env (v # vs) = ilen (ser_bytes env v) + total_size env vs"
  "total_size env (xs @ ys) = total_size env xs + total_size env ys"
  by (simp_all add: total_size_def)

lemma total_size_nonneg [simp]: "0 \<le> total_size env vs"
  unfolding total_size_def by (rule sum_list_nonneg) auto

lemma total_size_split: "total_size env (take i vs) + total_size env (drop i vs) = total_size env vs"
  using total_size_simps(3) [of env "take i vs" "drop i vs"] by simp

lemma concat_encoded: "encodable env vs \<Longrightarrow>
    \<exists>bs. concat_results (map (encode env) vs) = Inr bs \<and> ilen bs = total_size env vs"
  by (induction vs) (auto simp: encodable_def ser_valid_def ser_bytes_def)

lemma ser_bytes_nonempty: "ser_valid env v \<Longrightarrow> 1 \<le> length (ser_bytes env v)"
  using encode_decode [of env v "[]" "[]" "[]"]
  by (cases "ser_bytes env v") (auto simp: ser_valid_def ser_bytes_def decode_def py_index_def)

lemma encodable_count: "encodable env vs \<Longrightarrow> ilen vs \<le> total_size env vs"
  by (induction vs) (auto simp: encodable_def dest: ser_bytes_nonempty)

text \<open>A leaf whose bytes take at most the given part of the page.\<close>

definition leaf_fits :: "('d, 'o) tree_env \<Rightarrow> ('d, 'o) node \<Rightarrow> int \<Rightarrow> bool" where
  "leaf_fits K nd used \<longleftrightarrow>
     nd_is_leaf nd \<and> link_storable (nd_next_leaf nd) \<and> link_storable (nd_prev_leaf nd) \<and>
     (\<exists>bs. link_bytes (nd_next_leaf nd) = Inr bs) \<and> (\<exists>bs. link_bytes (nd_prev_leaf nd) = Inr bs) \<and>
     encodable (te_env K) (nd_keys nd) \<and> used \<le> 8192 \<and>
     (\<exists>vs. nd_values nd = map Val vs \<and> length vs = length (nd_keys nd) \<and> encodable (te_env K) vs \<and>
       37 + total_size (te_env K) (nd_keys nd) + total_size (te_env K) vs \<le> used)"

lemma leaf_fits_bytes:
  assumes "leaf_fits K nd used"
  shows "node_storable (te_env K) nd" and "\<exists>bs. node_bytes K nd = Inr bs \<and> HEADER_SIZE + ilen bs \<le> used"
proof -
  from assms obtain vs nl pl where l: "nd_is_leaf nd" "link_storable (nd_next_leaf nd)" "link_storable (nd_prev_leaf nd)"
      "link_bytes (nd_next_leaf nd) = Inr nl" "link_bytes (nd_prev_leaf nd) = Inr pl"
      "encodable (te_env K) (nd_keys nd)" "used \<le> 8192"
    and vs: "nd_values nd = map Val vs" "length vs = length (nd_keys nd)" "encodable (te_env K) vs"
      "37 + total_size (te_env K) (nd_keys nd) + total_size (te_env K) vs \<le> used"
    by (auto simp: leaf_fits_def)
  have "list_all (storable (te_env K)) (nd_keys nd)" "list_all (storable (te_env K)) vs"
    using l(6) vs(3) by (auto simp: encodable_def ser_valid_def list_all_iff)
  then show "node_storable (te_env K) nd" using l(1-3) vs(1,2) by (auto simp: node_storable_def)
  obtain ks where ks: "concat_results (map (encode (te_env K)) (nd_keys nd)) = Inr ks"
      "ilen ks = total_size (te_env K) (nd_keys nd)"
    using concat_encoded [OF l(6)] by blast
  obtain ws where ws: "concat_results (map (slot_bytes K True) (map Val vs)) = Inr ws"
      "ilen ws = total_size (te_env K) vs"
    using concat_encoded [OF vs(3)] by (auto simp: comp_def)
  have "ilen (nd_keys nd) \<le> 8192"
    using encodable_count [OF l(6)] vs(4) l(7) total_size_nonneg [of "te_env K" vs] by linarith
  then have n: "pack_uint True 4 (ilen (nd_keys nd)) = Inr (rev (le_bytes 4 (ilen (nd_keys nd))))"
    by (simp add: pack_uint_def byte_order_def)
  show "\<exists>bs. node_bytes K nd = Inr bs \<and> HEADER_SIZE + ilen bs \<le> used"
    using n ks ws l(1,4,5) vs(1,4) link_bytes_Inr(1) [OF l(4)] link_bytes_Inr(1) [OF l(5)]
    by (simp add: node_bytes_def HEADER_SIZE_def)
qed

lemma encodable_parts [simp]:
  "encodable env (xs @ ys) = (encodable env xs \<and> encodable env ys)"
  "encodable env (v # vs) = (ser_valid env v \<and> encodable env vs)" "encodable env []"
  by (simp_all add: encodable_def)

lemma encodable_take_drop: "encodable env vs \<Longrightarrow> encodable env (take i vs) \<and> encodable env (drop i vs)"
  by (auto simp: encodable_def list_all_iff dest: in_set_takeD in_set_dropD)

lemma leaf_fits_change:
  assumes "leaf_fits K nd used" and "encodable (te_env K) ks" and "encodable (te_env K) vs"
    and "length vs = length ks" and "37 + total_size (te_env K) ks + total_size (te_env K) vs \<le> used'"
    and "used' \<le> 8192" and "ws = map Val vs"
  shows "leaf_fits K (nd\<lparr>nd_keys := ks, nd_values := ws\<rparr>) used'"
  using assms by (auto simp: leaf_fits_def)

lemma leaf_fits_insert:
  assumes "leaf_fits K nd used" and "ser_valid (te_env K) k" and "ser_valid (te_env K) v"
    and "used + ilen (ser_bytes (te_env K) k) + ilen (ser_bytes (te_env K) v) \<le> 8192"
  shows "leaf_fits K (nd\<lparr>nd_keys := py_insert i k (nd_keys nd), nd_values := py_insert i (Val v) (nd_values nd)\<rparr>)
    (used + ilen (ser_bytes (te_env K) k) + ilen (ser_bytes (te_env K) v))"
proof -
  let ?e = "te_env K"
  from assms(1) obtain vs where vs: "nd_values nd = map Val vs" "length vs = length (nd_keys nd)" "encodable ?e vs"
      "37 + total_size ?e (nd_keys nd) + total_size ?e vs \<le> used"
    by (auto simp: leaf_fits_def)
  have "py_insert i (Val v) (nd_values nd) = map Val (py_insert i v vs)"
    by (simp add: py_insert_def vs(1) take_map drop_map)
  moreover have "encodable ?e (py_insert i v vs)" "encodable ?e (py_insert i k (nd_keys nd))"
    using assms(1-3) vs(3) encodable_take_drop [of ?e vs i] encodable_take_drop [of ?e "nd_keys nd" i]
    by (simp_all add: py_insert_def leaf_fits_def)
  moreover have "total_size ?e (py_insert i v vs) = total_size ?e vs + ilen (ser_bytes ?e v)"
      "total_size ?e (py_insert i k (nd_keys nd)) = total_size ?e (nd_keys nd) + ilen (ser_bytes ?e k)"
    using total_size_split [of ?e i vs] total_size_split [of ?e i "nd_keys nd"] by (simp_all add: py_insert_def)
  moreover have "length (py_insert i v vs) = length (py_insert i k (nd_keys nd))"
    using vs(2) by (simp add: py_insert_def)
  ultimately show ?thesis using assms(1,4) vs(4) by (auto simp: leaf_fits_def)
qed

lemma leaf_fits_update:
  assumes "leaf_fits K nd used" and "ser_valid (te_env K) v" and "i < length (nd_keys nd)"
    and "used + ilen (ser_bytes (te_env K) v) \<le> 8192"
  shows "leaf_fits K (nd\<lparr>nd_values := (nd_values nd)[i := Val v]\<rparr>) (used + ilen (ser_bytes (te_env K) v))"
proof -
  let ?e = "te_env K"
  from assms(1) obtain vs where vs: "nd_values nd = map Val vs" "length vs = length (nd_keys nd)" "encodable ?e vs"
      "37 + total_size ?e (nd_keys nd) + total_size ?e vs \<le> used"
    by (auto simp: leaf_fits_def)
  have upd: "vs[i := v] = take i vs @ v # drop (Suc i) vs"
    using assms(3) vs(2) by (simp add: upd_conv_take_nth_drop)
  have "total_size ?e (drop (Suc i) vs) \<le> total_size ?e (drop i vs)"
    using assms(3) vs(2) by (simp add: Cons_nth_drop_Suc [symmetric])
  then have "total_size ?e (vs[i := v]) \<le> total_size ?e vs + ilen (ser_bytes ?e v)"
    using total_size_split [of ?e i vs] by (simp add: upd)
  moreover have "encodable ?e (vs[i := v])"
    using assms(2) vs(3) encodable_take_drop [of ?e vs] by (simp add: upd)
  moreover have "(nd_values nd)[i := Val v] = map Val (vs[i := v])" by (simp add: vs(1) map_update)
  moreover have "length (vs[i := v]) = length (nd_keys nd)" using vs(2) by simp
  ultimately show ?thesis using assms(1,4) vs(4) by (fastforce simp: leaf_fits_def)
qed

lemma leaf_fits_remove:
  assumes "leaf_fits K nd used" and "i < length (nd_keys nd)"
  shows "leaf_fits K (nd\<lparr>nd_keys := take i (nd_keys nd) @ drop (i + 1) (nd_keys nd),
    nd_values := take i (nd_values nd) @ drop (i + 1) (nd_values nd)\<rparr>) used"
proof -
  let ?e = "te_env K"
  from assms(1) obtain vs where vs: "nd_values nd = map Val vs" "length vs = length (nd_keys nd)" "encodable ?e vs"
      "37 + total_size ?e (nd_keys nd) + total_size ?e vs \<le> used"
    by (auto simp: leaf_fits_def)
  let ?vs = "take i vs @ drop (i + 1) vs"
  have "total_size ?e (take i xs @ drop (i + 1) xs) \<le> total_size ?e xs" if "i < length xs" for xs
    using that total_size_split [of ?e i xs] by (simp add: Cons_nth_drop_Suc [symmetric])
  then have "total_size ?e ?vs \<le> total_size ?e vs"
      "total_size ?e (take i (nd_keys nd) @ drop (i + 1) (nd_keys nd)) \<le> total_size ?e (nd_keys nd)"
    using assms(2) vs(2) by simp_all
  moreover have "encodable ?e ?vs" "encodable ?e (take i (nd_keys nd) @ drop (i + 1) (nd_keys nd))"
    using assms(1) vs(3) encodable_take_drop [of ?e] by (simp_all add: leaf_fits_def)
  moreover have "take i (nd_values nd) @ drop (i + 1) (nd_values nd) = map Val ?vs"
    by (simp add: vs(1) take_map drop_map)
  moreover have "length ?vs = length (take i (nd_keys nd) @ drop (i + 1) (nd_keys nd))" using vs(2) by simp
  moreover have "used \<le> 8192" using assms(1) by (simp add: leaf_fits_def)
  ultimately show ?thesis using vs(4) by (intro leaf_fits_change [OF assms(1), of _ ?vs]) simp_all
qed

section \<open>A tree whose root is a leaf\<close>

definition leaf_page :: "('d, 'o) tree_env \<Rightarrow> btree \<Rightarrow> ('d, 'o) node \<Rightarrow> int \<Rightarrow> bool" where
  "leaf_page K t nd used \<longleftrightarrow>
     bt_root t = Some (node_id nd) \<and> 0 \<le> pid_page_num (node_id nd) \<and> pid_page_num (node_id nd) < 2 ^ 31 \<and>
     nd_order nd = bt_order t \<and> nd_parent nd = None \<and> leaf_fits K nd used \<and>
     (\<exists>p bs. on_page t nd p \<and> pg_size p = 8192 \<and> node_bytes K nd = Inr bs \<and>
       (\<exists>pre post. pg_data p = pre @ bs @ post \<and> length pre = 24))"

lemma leaf_fits_page [simp]: "leaf_fits K (nd\<lparr>nd_page := q\<rparr>) used = leaf_fits K nd used"
  by (simp add: leaf_fits_def)

lemma node_bytes_page [simp]: "node_bytes K (nd\<lparr>nd_page := q\<rparr>) = node_bytes K nd"
  by (simp add: node_bytes_def)

lemma leaf_page_again:
  assumes "leaf_page K t nd used" and "node_id nd' = node_id nd" and "nd_order nd' = nd_order nd"
    and "nd_parent nd' = None" and "leaf_fits K nd' used'" and "node_bytes K nd' = Inr bs"
    and "on_page (t') nd' p" and "pg_size p = 8192"
    and "\<exists>pre post. pg_data p = pre @ bs @ post \<and> length pre = 24"
    and "bt_root t' = bt_root t" and "bt_order t' = bt_order t"
  shows "leaf_page K (t') nd' used'"
proof -
  from assms(1) have "bt_root t = Some (node_id nd)" "0 \<le> pid_page_num (node_id nd)"
      "pid_page_num (node_id nd) < 2 ^ 31" "nd_order nd = bt_order t"
    by (simp_all add: leaf_page_def)
  moreover have "\<exists>p bs. on_page (t') nd' p \<and> pg_size p = 8192 \<and> node_bytes K nd' = Inr bs \<and>
      (\<exists>pre post. pg_data p = pre @ bs @ post \<and> length pre = 24)"
    using assms(6-9) by blast
  ultimately show ?thesis unfolding leaf_page_def using assms(2-5,10,11) by simp
qed

lemma leaf_page_find:
  assumes "leaf_page K t nd used"
  obtains q s where "find_leaf K key t = Some (Inr (nd\<lparr>nd_page := q\<rparr>), t\<lparr>bt_pool := s\<rparr>)"
    and "leaf_page K (t\<lparr>bt_pool := s\<rparr>) (nd\<lparr>nd_page := q\<rparr>) used"
    and "bp_page_ids s = bp_page_ids (bt_pool t) \<and> bp_capacity s = bp_capacity (bt_pool t)"
proof -
  from assms obtain p bs where p: "on_page t nd p" "pg_size p = 8192" "node_bytes K nd = Inr bs"
      "\<exists>pre post. pg_data p = pre @ bs @ post \<and> length pre = 24"
    and l: "bt_root t = Some (node_id nd)" "nd_order nd = bt_order t" "nd_parent nd = None" "leaf_fits K nd used"
    by (auto simp: leaf_page_def)
  obtain s where s: "get_node K (node_id nd) t =
      (Inr (nd\<lparr>nd_page := pin p, nd_order := bt_order t, nd_parent := None\<rparr>), t\<lparr>bt_pool := s\<rparr>)"
      "updates (bt_pool t) (pin p) s"
    by (rule get_node_reads [OF _ _ p(3) leaf_fits_bytes(1) [OF l(4)] p(4), of t])
      (use p(1) in \<open>simp_all add: on_page_def\<close>)
  let ?nd = "nd\<lparr>nd_page := pin p\<rparr>"
  have nd: "nd\<lparr>nd_page := pin p, nd_order := bt_order t, nd_parent := None\<rparr> = ?nd"
    using l(2,3) by simp
  have leaf: "nd_is_leaf ?nd" using l(4) by (simp add: leaf_fits_def)
  have "find_leaf_loop K key ?nd (t\<lparr>bt_pool := s\<rparr>) = Some (Inr ?nd, t\<lparr>bt_pool := s\<rparr>)"
    using leaf by (subst find_leaf_loop.simps) simp
  then have "find_leaf K key t = Some (Inr ?nd, t\<lparr>bt_pool := s\<rparr>)"
    using l(1) s(1) nd by (simp add: find_leaf_def)
  moreover have id: "node_id ?nd = node_id nd" "pg_id p = node_id nd"
    using on_page_id [OF p(1)] by (simp_all add: node_id_def)
  moreover have "on_page (t\<lparr>bt_pool := s\<rparr>) ?nd (pin p)"
    using p(1) updatesD(1,3) [OF s(2)] id by (simp add: on_page_def)
  then have "leaf_page K (t\<lparr>bt_pool := s\<rparr>) ?nd used"
    using l p(2-4) id by (intro leaf_page_again [OF assms, of _ _ bs "t\<lparr>bt_pool := s\<rparr>" "pin p"]) simp_all
  ultimately show thesis using conjI [OF updatesD(2,5) [OF s(2)]] by (intro that)
qed

lemma leaf_page_release:
  assumes "leaf_page K t nd used"
  obtains s where "release_node nd t = (Inr (), t\<lparr>bt_pool := s\<rparr>)" and "leaf_page K (t\<lparr>bt_pool := s\<rparr>) nd used"
    and "bp_page_ids s = bp_page_ids (bt_pool t) \<and> bp_capacity s = bp_capacity (bt_pool t)"
proof -
  from assms obtain p bs where p: "on_page t nd p" "pg_size p = 8192" "node_bytes K nd = Inr bs"
      "\<exists>pre post. pg_data p = pre @ bs @ post \<and> length pre = 24"
    and l: "nd_parent nd = None" "leaf_fits K nd used"
    by (auto simp: leaf_page_def)
  obtain s where s: "release_node nd t = (Inr (), t\<lparr>bt_pool := s\<rparr>)" "updates (bt_pool t) (unpin p) s"
    by (rule release_node_cached [of t nd p]) (use p(1) in \<open>simp_all add: on_page_def\<close>)
  have "on_page (t\<lparr>bt_pool := s\<rparr>) nd (unpin p)"
    using p(1) updatesD(1,3) [OF s(2)] on_page_id [OF p(1)] by (simp add: on_page_def)
  then have "leaf_page K (t\<lparr>bt_pool := s\<rparr>) nd used"
    using l p(2-4) by (intro leaf_page_again [OF assms, of _ _ bs "t\<lparr>bt_pool := s\<rparr>" "unpin p"]) simp_all
  then show thesis using s(1) conjI [OF updatesD(2,5) [OF s(2)]] by (intro that)
qed

lemma leaf_page_write:
  assumes "leaf_page K t nd used" and "leaf_fits K nd' used'" and "nd_page nd' = nd_page nd"
    and "nd_order nd' = nd_order nd" and "nd_parent nd' = None"
  obtains s where "node_serialize K nd' t = (Inr (), t\<lparr>bt_pool := s\<rparr>)"
    and "leaf_page K (t\<lparr>bt_pool := s\<rparr>) nd' used'"
    and "bp_page_ids s = bp_page_ids (bt_pool t) \<and> bp_capacity s = bp_capacity (bt_pool t)"
proof -
  from assms(1) obtain p where p: "on_page t nd p" "pg_size p = 8192"
    by (auto simp: leaf_page_def)
  have id: "node_id nd' = node_id nd" using assms(3) by (simp add: node_id_def)
  have page: "on_page t nd' p" using p(1) id by (simp add: on_page_def)
  obtain bs where bs: "node_bytes K nd' = Inr bs" "HEADER_SIZE + ilen bs \<le> used'"
    using leaf_fits_bytes(2) [OF assms(2)] by blast
  have "HEADER_SIZE + ilen bs \<le> pg_size p" using bs(2) assms(2) p(2) by (simp add: leaf_fits_def)
  then obtain s q where s: "node_serialize K nd' t = (Inr (), t\<lparr>bt_pool := s\<rparr>)" "updates (bt_pool t) q s"
      "pg_id q = node_id nd'" "pg_size q = pg_size p" "page_sized q"
      "\<exists>pre post. pg_data q = pre @ bs @ post \<and> length pre = 24"
    by (rule node_serialize_ok [OF page bs(1)]) blast
  have "on_page (t\<lparr>bt_pool := s\<rparr>) nd' q"
    using updatesD(1,3) [OF s(2)] s(3-5) p by (simp add: on_page_def HEADER_SIZE_def)
  then have "leaf_page K (t\<lparr>bt_pool := s\<rparr>) nd' used'"
    using assms(2-5) p(2) id bs(1) s(4,6) by (intro leaf_page_again [OF assms(1), of _ _ bs "t\<lparr>bt_pool := s\<rparr>" q]) simp_all
  then show thesis using s(1) conjI [OF updatesD(2,5) [OF s(2)]] by (intro that)
qed

lemma leaf_page_size [simp]:
  "leaf_page K (t\<lparr>bt_size := n\<rparr>) nd used = leaf_page K t nd used"
  "leaf_page K (t\<lparr>bt_size := n, bt_pool := s\<rparr>) nd used = leaf_page K (t\<lparr>bt_pool := s\<rparr>) nd used"
  by (simp_all add: leaf_page_def on_page_def)

lemma leaf_fits_mono: "leaf_fits K nd used \<Longrightarrow> used \<le> used' \<Longrightarrow> used' \<le> 8192 \<Longrightarrow> leaf_fits K nd used'"
  by (fastforce simp: leaf_fits_def)

lemma put_entry_fits:
  assumes "put_entry K k v nd = Inr (added, nd')" and "leaf_fits K nd used"
    and "ser_valid (te_env K) k" and "ser_valid (te_env K) v"
    and "used + ilen (ser_bytes (te_env K) k) + ilen (ser_bytes (te_env K) v) \<le> 8192"
  shows "leaf_fits K nd' (used + ilen (ser_bytes (te_env K) k) + ilen (ser_bytes (te_env K) v)) \<and>
    nd_page nd' = nd_page nd \<and> nd_order nd' = nd_order nd \<and> nd_parent nd' = nd_parent nd"
proof -
  from assms(1) obtain i present where put: "(if present
       then res_bind (py_update (nd_values nd) (int i) (Val v)) (\<lambda>vs. Inr (False, nd\<lparr>nd_values := vs\<rparr>))
       else Inr (True, nd\<lparr>nd_keys := py_insert i k (nd_keys nd), nd_values := py_insert i (Val v) (nd_values nd)\<rparr>))
     = Inr (added, nd')"
    unfolding put_entry_def res_bind_eq_Inr by blast
  have len: "length (nd_values nd) = length (nd_keys nd)" using assms(2) by (auto simp: leaf_fits_def)
  show ?thesis
  proof (cases present)
    case True
    then obtain vs where vs: "py_update (nd_values nd) (int i) (Val v) = Inr vs" "nd' = nd\<lparr>nd_values := vs\<rparr>"
      using put by (auto simp: res_bind_eq_Inr)
    then have i: "i < length (nd_keys nd)" "vs = (nd_values nd)[i := Val v]"
      using len by (simp_all add: py_update_def split: if_splits)
    have "leaf_fits K (nd\<lparr>nd_values := (nd_values nd)[i := Val v]\<rparr>)
        (used + ilen (ser_bytes (te_env K) k) + ilen (ser_bytes (te_env K) v))"
      using assms(5) by (intro leaf_fits_mono [OF leaf_fits_update [OF assms(2,4) i(1)]]) simp_all
    then show ?thesis by (simp add: vs(2) i(2))
  next
    case False
    then show ?thesis using put leaf_fits_insert [OF assms(2-5), of i] by auto
  qed
qed

lemma leaf_fits_half:
  assumes "leaf_fits K nd used" and "0 \<le> n" and "n < 2 ^ 31"
  shows "leaf_fits K (left_half nd (page_number n)) used"
proof -
  let ?e = "te_env K" and ?h = "length (nd_keys nd) div 2"
  from assms(1) obtain vs where vs: "nd_values nd = map Val vs" "length vs = length (nd_keys nd)" "encodable ?e vs"
      "37 + total_size ?e (nd_keys nd) + total_size ?e vs \<le> used"
    by (auto simp: leaf_fits_def)
  have "37 + total_size ?e (take ?h (nd_keys nd)) + total_size ?e (take ?h vs) \<le> used"
    using vs(4) total_size_split [of ?e ?h vs] total_size_split [of ?e ?h "nd_keys nd"]
      total_size_nonneg [of ?e "drop ?h vs"] total_size_nonneg [of ?e "drop ?h (nd_keys nd)"] by linarith
  moreover have "\<exists>bs. link_bytes (Some (page_number n)) = Inr bs"
    using link_bytes_some [of "page_number n"] assms(2,3) by auto
  moreover have "take ?h (nd_values nd) = map Val (take ?h vs)" by (simp add: vs(1) take_map)
  moreover have "length (take ?h vs) = length (take ?h (nd_keys nd))" using vs(2) by simp
  ultimately show ?thesis
    using assms encodable_take_drop [of ?e vs ?h] vs(3) encodable_take_drop [of ?e "nd_keys nd" ?h]
    by (auto simp: leaf_fits_def left_half_def Let_def link_storable_def)
qed

text \<open>Underflow of a root leaf is ignored.\<close>

lemma handle_underflow_leaf: "nd_is_leaf nd \<Longrightarrow> nd_parent nd = None \<Longrightarrow> handle_underflow K nd t = (Inr (), t)"
  by (simp add: handle_underflow_def)

lemma py_pop_in: "i < length xs \<Longrightarrow> py_pop (int i) xs = Inr (xs ! i, take i xs @ drop (i + 1) xs)"
  by (simp add: py_pop_def)

section \<open>Ordered keys\<close>

definition keys_sorted :: "('k \<Rightarrow> bool) \<Rightarrow> ('k \<Rightarrow> 'r :: linorder) \<Rightarrow> 'k list \<Rightarrow> bool" where
  "keys_sorted ok rank ks \<longleftrightarrow> list_all ok ks \<and> sorted_wrt (\<lambda>a b. rank a < rank b) ks"

text \<open>What the tree relies on: the comparisons of the keys it is given are those of a linear order.\<close>

locale key_order =
  fixes K :: "('d, 'o) tree_env"
    and ok :: "('d, 'o) key \<Rightarrow> bool"
    and rank :: "('d, 'o) key \<Rightarrow> 'r :: linorder"
  assumes ge: "ok a \<Longrightarrow> ok b \<Longrightarrow> key_ge K a b = Inr (rank b \<le> rank a)"
    and gt: "ok a \<Longrightarrow> ok b \<Longrightarrow> key_gt K a b = Inr (rank b < rank a)"
    and eq: "ok a \<Longrightarrow> ok b \<Longrightarrow> key_eq K a b = Inr (a = b)"
    and rank_inj: "ok a \<Longrightarrow> ok b \<Longrightarrow> rank a = rank b \<Longrightarrow> a = b"
begin

lemma skip_greater:
  "ok k \<Longrightarrow> list_all ok ks \<Longrightarrow>
   skip_keys (key_gt K k) ks = Inr (length (takeWhile (\<lambda>x. rank x < rank k) ks))"
  by (induction ks) (simp_all add: gt)

lemma find_key_absent: "ok k \<Longrightarrow> list_all ok ks \<Longrightarrow> k \<notin> set ks \<Longrightarrow> find_key K k ks = Inr None"
  by (induction ks) (auto simp: eq)

lemma find_key_present:
  "ok k \<Longrightarrow> list_all ok ks \<Longrightarrow> k \<in> set ks \<Longrightarrow> \<exists>i < length ks. ks ! i = k \<and> find_key K k ks = Inr (Some i)"
proof (induction ks)
  case (Cons x ks)
  show ?case
  proof (cases "x = k")
    case True
    then show ?thesis using Cons.prems by (auto simp: eq)
  next
    case False
    then obtain i where "i < length ks" "ks ! i = k" "find_key K k ks = Inr (Some i)"
      using Cons by auto
    then show ?thesis using Cons.prems False by (intro exI [of _ "Suc i"]) (simp add: eq)
  qed
qed simp

text \<open>The position at which a key belongs in a sorted list.\<close>

lemma position_sorted:
  fixes k :: "('d, 'o) key"
  assumes "sorted_wrt (\<lambda>a b. rank a < rank b) ks"
  defines "i \<equiv> length (takeWhile (\<lambda>x. rank x < rank k) ks)"
  shows "\<forall>x \<in> set (take i ks). rank x < rank k" and "\<forall>x \<in> set (drop i ks). rank k \<le> rank x"
proof -
  have i: "take i ks = takeWhile (\<lambda>x. rank x < rank k) ks" "drop i ks = dropWhile (\<lambda>x. rank x < rank k) ks"
    by (simp_all add: i_def takeWhile_eq_take [symmetric] dropWhile_eq_drop [symmetric])
  then show "\<forall>x \<in> set (take i ks). rank x < rank k" by (auto dest: set_takeWhileD)
  show "\<forall>x \<in> set (drop i ks). rank k \<le> rank x"
  proof (cases "drop i ks")
    case (Cons y ys)
    have "sorted_wrt (\<lambda>a b. rank a < rank b) (y # ys)"
      using assms(1) Cons sorted_wrt_drop [of "\<lambda>a b. rank a < rank b" ks i] by simp
    moreover have "\<not> rank y < rank k"
      using Cons i(2) hd_dropWhile [of "\<lambda>x. rank x < rank k" ks] by (metis list.distinct(1) list.sel(1))
    ultimately show ?thesis using Cons by auto
  qed simp
qed

abbreviation sorted_keys :: "('d, 'o) key list \<Rightarrow> bool" where
  "sorted_keys \<equiv> keys_sorted ok rank"

lemma position_member:
  assumes "sorted_wrt (\<lambda>a b. rank a < rank b) ks" and "k \<in> set ks"
  defines "i \<equiv> length (takeWhile (\<lambda>x. rank x < rank k) ks)"
  shows "i < length ks \<and> ks ! i = k"
proof -
  note p = position_sorted [OF assms(1), of k, folded i_def]
  have "k \<notin> set (take i ks)" using p(1) by auto
  moreover have "k \<in> set (take i ks) \<or> k \<in> set (drop i ks)"
    using assms(2) by (metis Un_iff append_take_drop_id set_append)
  ultimately have k: "k \<in> set (drop i ks)" by blast
  then obtain y ys where y: "drop i ks = y # ys" by (cases "drop i ks") auto
  then have "sorted_wrt (\<lambda>a b. rank a < rank b) (y # ys)"
    using assms(1) sorted_wrt_drop [of "\<lambda>a b. rank a < rank b" ks i] by simp
  moreover have "rank k \<le> rank y" using p(2) y by simp
  ultimately have "k = y" using k y by auto
  moreover have "i < length ks" using y by (metis drop_eq_Nil list.distinct(1) not_le)
  ultimately show ?thesis using y by (simp add: nth_via_drop)
qed

lemma sorted_keys_distinct: "sorted_keys ks \<Longrightarrow> distinct ks"
  unfolding keys_sorted_def
  by (induction ks) auto

lemma sorted_keys_insert:
  assumes "sorted_keys ks" and "ok k" and "k \<notin> set ks"
  defines "i \<equiv> length (takeWhile (\<lambda>x. rank x < rank k) ks)"
  shows "sorted_keys (py_insert i k ks)"
proof -
  note p = position_sorted [of ks k, folded i_def]
  have s: "sorted_wrt (\<lambda>a b. rank a < rank b) ks" "list_all ok ks" using assms(1) by (simp_all add: keys_sorted_def)
  have "rank k \<noteq> rank x" if "x \<in> set ks" for x
    using that s(2) assms(2,3) rank_inj [of k x] by (auto simp: list_all_iff)
  then have "rank k < rank x" if "x \<in> set (drop i ks)" for x
    using that p(2) [OF s(1)] in_set_dropD [OF that] by (metis order_le_less)
  then have "sorted_wrt (\<lambda>a b. rank a < rank b) (take i ks @ k # drop i ks)"
    using p(1) [OF s(1)] s(1) by (fastforce simp: sorted_wrt_append sorted_wrt_take sorted_wrt_drop)
  moreover have "list_all ok (take i ks @ k # drop i ks)"
    using s(2) assms(2) by (auto simp: list_all_iff dest: in_set_takeD in_set_dropD)
  ultimately show ?thesis by (simp add: keys_sorted_def py_insert_def)
qed

lemma sorted_keys_remove: "sorted_keys ks \<Longrightarrow> sorted_keys (take i ks @ drop (Suc i) ks)"
proof (induction ks arbitrary: i)
  case (Cons k ks)
  then have "sorted_keys (take j ks @ drop (Suc j) ks)" for j by (simp add: keys_sorted_def)
  then show ?case
    using Cons.prems by (cases i) (auto simp: keys_sorted_def dest!: in_set_takeD in_set_dropD)
qed (simp add: keys_sorted_def)

text \<open>Putting an entry into the leaf updates the map.\<close>

lemma put_entry_map:
  assumes "sorted_keys (nd_keys nd)" and "length (nd_values nd) = length (nd_keys nd)" and "ok k"
  obtains nd' where "put_entry K k v nd = Inr (k \<notin> set (nd_keys nd), nd')"
    and "sorted_keys (nd_keys nd')" and "length (nd_values nd') = length (nd_keys nd')"
    and "entries nd' = (entries nd)(k \<mapsto> Val v)"
proof -
  let ?ks = "nd_keys nd"
  let ?i = "length (takeWhile (\<lambda>x. rank x < rank k) ?ks)"
  have s: "sorted_wrt (\<lambda>a b. rank a < rank b) ?ks" "list_all ok ?ks"
    using assms(1) by (simp_all add: keys_sorted_def)
  note p = position_sorted [OF s(1), of k]
  have skip: "skip_keys (key_gt K k) ?ks = Inr ?i" using assms(3) s(2) by (rule skip_greater)
  show thesis
  proof (cases "k \<in> set ?ks")
    case True
    have i: "?i < length ?ks" "?ks ! ?i = k"
      using position_member [OF s(1) True] by simp_all
    let ?nd' = "nd\<lparr>nd_values := (nd_values nd)[?i := Val v]\<rparr>"
    have "put_entry K k v nd = Inr (False, ?nd')"
      using i assms(2,3) by (simp add: put_entry_def skip eq py_update_in)
    moreover have "entries ?nd' = (entries nd)(k \<mapsto> Val v)"
      using map_of_zip_update [OF sorted_keys_distinct [OF assms(1)], of "nd_values nd" ?i "Val v"] i assms(2)
      by (simp add: entries_def)
    ultimately show thesis using True assms(1,2) by (intro that [of ?nd']) simp_all
  next
    case False
    let ?nd' = "nd\<lparr>nd_keys := py_insert ?i k ?ks, nd_values := py_insert ?i (Val v) (nd_values nd)\<rparr>"
    have "key_eq K k (?ks ! ?i) = Inr False" if "?i < length ?ks"
    proof -
      have "?ks ! ?i \<in> set ?ks" using that by (rule nth_mem)
      then have "ok (?ks ! ?i)" "k \<noteq> ?ks ! ?i" using s(2) False by (auto simp: list_all_iff)
      then show ?thesis by (simp add: eq assms(3))
    qed
    then have "put_entry K k v nd = Inr (True, ?nd')" by (simp add: put_entry_def skip)
    moreover have "entries ?nd' = (entries nd)(k \<mapsto> Val v)"
      using map_of_py_insert [of ?ks "nd_values nd" k ?i "Val v"] False assms(2) by (simp add: entries_def)
    moreover have "sorted_keys (nd_keys ?nd')" using sorted_keys_insert [OF assms(1,3) False] by simp
    ultimately show thesis using False assms(2) by (intro that [of ?nd']) (simp_all add: py_insert_def)
  qed
qed

text \<open>The map that a leaf holds.\<close>

lemma card_entries:
  assumes "sorted_keys (nd_keys nd)" and "length (nd_values nd) = length (nd_keys nd)"
  shows "card (dom (entries nd)) = length (nd_keys nd)"
  using assms distinct_card [OF sorted_keys_distinct [OF assms(1)]]
  by (simp add: entries_def dom_map_of_zip)

lemma entries_present:
  assumes "sorted_keys (nd_keys nd)" and "length (nd_values nd) = length (nd_keys nd)" and "i < length (nd_keys nd)"
  shows "entries nd (nd_keys nd ! i) = Some (nd_values nd ! i)"
  using assms sorted_keys_distinct [OF assms(1)] by (simp add: entries_def map_of_zip_nth)

lemma entries_absent:
  "length (nd_values nd) = length (nd_keys nd) \<Longrightarrow> entries nd k = None \<longleftrightarrow> k \<notin> set (nd_keys nd)"
  by (simp add: entries_def map_of_zip_is_None del: map_of_eq_None_iff)

end

definition leaf_map ::
  "('d, 'o) tree_env \<Rightarrow> (('d, 'o) key \<Rightarrow> bool) \<Rightarrow> (('d, 'o) key \<Rightarrow> 'r :: linorder) \<Rightarrow> btree \<Rightarrow>
   (('d, 'o) key \<rightharpoonup> ('d, 'o) db_value slot) \<Rightarrow> int \<Rightarrow> bool" where
  "leaf_map K ok rank t m used \<longleftrightarrow>
     (\<exists>nd. leaf_page K t nd used \<and> keys_sorted ok rank (nd_keys nd) \<and> entries nd = m)"

lemma leaf_mapI:
  "leaf_page K t nd used \<Longrightarrow> keys_sorted ok rank (nd_keys nd) \<Longrightarrow> entries nd = m \<Longrightarrow>
   leaf_map K ok rank t m used"
  by (auto simp: leaf_map_def)

lemma entries_page [simp]: "entries (nd\<lparr>nd_page := q\<rparr>) = entries nd"
  by (simp add: entries_def)

lemma leaf_page_values: "leaf_page K t nd used \<Longrightarrow> length (nd_values nd) = length (nd_keys nd)"
  by (auto simp: leaf_page_def leaf_fits_def)

context key_order
begin

lemma search_map:
  assumes "leaf_map K ok rank t m used" and "ok k"
  shows "\<exists>s. search K k t = Some (Inr (m k), t\<lparr>bt_pool := s\<rparr>) \<and> leaf_map K ok rank (t\<lparr>bt_pool := s\<rparr>) m used"
proof -
  obtain nd0 where nd0: "leaf_page K t nd0 used" "sorted_keys (nd_keys nd0)" "entries nd0 = m"
    using assms(1) by (auto simp: leaf_map_def)
  obtain q s where find: "find_leaf K k t = Some (Inr (nd0\<lparr>nd_page := q\<rparr>), t\<lparr>bt_pool := s\<rparr>)"
    and page: "leaf_page K (t\<lparr>bt_pool := s\<rparr>) (nd0\<lparr>nd_page := q\<rparr>) used"
    by (rule leaf_page_find [OF nd0(1)])
  define nd where "nd = nd0\<lparr>nd_page := q\<rparr>"
  note find = find [folded nd_def] and page = page [folded nd_def]
  have nd: "sorted_keys (nd_keys nd)" "entries nd = m" using nd0 by (simp_all add: nd_def)
  note len = leaf_page_values [OF page]
  obtain s2 where rel: "release_node nd (t\<lparr>bt_pool := s\<rparr>) = (Inr (), t\<lparr>bt_pool := s2\<rparr>)"
    and page2: "leaf_page K (t\<lparr>bt_pool := s2\<rparr>) nd used"
    using leaf_page_release [OF page] by auto
  obtain r where root: "bt_root t = Some r" using nd0(1) by (simp add: leaf_page_def)
  have oks: "list_all ok (nd_keys nd)" using nd(1) by (simp add: keys_sorted_def)
  have "search K k t = Some (Inr (m k), t\<lparr>bt_pool := s2\<rparr>)"
  proof (cases "k \<in> set (nd_keys nd)")
    case True
    then obtain i where i: "i < length (nd_keys nd)" "nd_keys nd ! i = k" "find_key K k (nd_keys nd) = Inr (Some i)"
      using find_key_present [OF assms(2) oks] by blast
    then have "py_index (nd_values nd) (int i) = Inr (nd_values nd ! i)" using len by (simp add: py_index_in)
    moreover have "m k = Some (nd_values nd ! i)" using entries_present [OF nd(1) len i(1)] i(2) nd(2) by simp
    ultimately show ?thesis using root find i rel by (simp add: search_def)
  next
    case False
    then have "find_key K k (nd_keys nd) = Inr None" by (rule find_key_absent [OF assms(2) oks])
    moreover have "m k = None" using entries_absent [OF len, of k] False nd(2) by simp
    ultimately show ?thesis using root find rel by (simp add: search_def)
  qed
  then show ?thesis using leaf_mapI [OF page2 nd] by blast
qed

lemma delete_map:
  assumes "leaf_map K ok rank t m used" and "ok k"
  shows "\<exists>t'. bt_delete K k t = Some (Inr (m k \<noteq> None), t') \<and> leaf_map K ok rank t' (m(k := None)) used \<and>
    bt_size t' = bt_size t - (if m k = None then 0 else 1)"
proof -
  obtain nd0 where nd0: "leaf_page K t nd0 used" "sorted_keys (nd_keys nd0)" "entries nd0 = m"
    using assms(1) by (auto simp: leaf_map_def)
  obtain q s where find: "find_leaf K k t = Some (Inr (nd0\<lparr>nd_page := q\<rparr>), t\<lparr>bt_pool := s\<rparr>)"
    and page: "leaf_page K (t\<lparr>bt_pool := s\<rparr>) (nd0\<lparr>nd_page := q\<rparr>) used"
    by (rule leaf_page_find [OF nd0(1)])
  define nd where "nd = nd0\<lparr>nd_page := q\<rparr>"
  note find = find [folded nd_def] and page = page [folded nd_def]
  have nd: "sorted_keys (nd_keys nd)" "entries nd = m" using nd0 by (simp_all add: nd_def)
  note len = leaf_page_values [OF page]
  obtain r where root: "bt_root t = Some r" using nd0(1) by (simp add: leaf_page_def)
  have oks: "list_all ok (nd_keys nd)" using nd(1) by (simp add: keys_sorted_def)
  show ?thesis
  proof (cases "k \<in> set (nd_keys nd)")
    case True
    then obtain i where i: "i < length (nd_keys nd)" "nd_keys nd ! i = k" "find_key K k (nd_keys nd) = Inr (Some i)"
      using find_key_present [OF assms(2) oks] by blast
    define nd' where "nd' = nd\<lparr>nd_keys := take i (nd_keys nd) @ drop (Suc i) (nd_keys nd),
      nd_values := take i (nd_values nd) @ drop (Suc i) (nd_values nd)\<rparr>"
    have fits: "leaf_fits K nd' used" and parent: "nd_parent nd' = None"
      using page leaf_fits_remove [of K nd used i] i(1) by (simp_all add: leaf_page_def nd'_def)
    obtain s2 where w: "node_serialize K nd' (t\<lparr>bt_pool := s\<rparr>) = (Inr (), t\<lparr>bt_pool := s2\<rparr>)"
        "leaf_page K (t\<lparr>bt_pool := s2\<rparr>) nd' used"
      using leaf_page_write [OF page fits] parent by (auto simp: nd'_def)
    let ?t2 = "t\<lparr>bt_pool := s2, bt_size := bt_size t - 1\<rparr>"
    obtain s3 where r: "release_node nd' ?t2 = (Inr (), ?t2\<lparr>bt_pool := s3\<rparr>)" "leaf_page K (?t2\<lparr>bt_pool := s3\<rparr>) nd' used"
      using leaf_page_release [of K ?t2 nd' used] w(2) by auto
    have "nd_is_leaf nd'" using fits by (simp add: leaf_fits_def)
    then have "bt_delete K k t = Some (Inr True, ?t2\<lparr>bt_pool := s3\<rparr>)"
      using root find i len w(1) r(1) parent
      by (simp add: bt_delete_def py_pop_in nd'_def [symmetric] handle_underflow_leaf)
    moreover have "m k \<noteq> None" using entries_absent [OF len, of k] True nd(2) by simp
    moreover have "entries nd' = m(k := None)"
      using map_of_zip_remove [OF sorted_keys_distinct [OF nd(1)] len [symmetric] i(1)] i(2) nd(2)
      by (simp add: entries_def nd'_def)
    moreover have "sorted_keys (nd_keys nd')"
      using nd(1) sorted_keys_remove by (simp add: nd'_def)
    ultimately show ?thesis using leaf_mapI [OF r(2), of ok rank "m(k := None)"] by auto
  next
    case False
    then have "find_key K k (nd_keys nd) = Inr None" by (rule find_key_absent [OF assms(2) oks])
    moreover have "m k = None" using entries_absent [OF len, of k] False nd(2) by simp
    moreover obtain s2 where "release_node nd (t\<lparr>bt_pool := s\<rparr>) = (Inr (), t\<lparr>bt_pool := s2\<rparr>)"
        "leaf_page K (t\<lparr>bt_pool := s2\<rparr>) nd used"
      using leaf_page_release [OF page] by auto
    moreover have "m(k := None) = m" using \<open>m k = None\<close> by auto
    ultimately show ?thesis using root find leaf_mapI [of K _ nd used ok rank m] nd by (simp add: bt_delete_def)
  qed
qed

text \<open>The part of an insertion before the leaf may have to be split.\<close>

lemma insert_leaf:
  assumes "leaf_map K ok rank t m used" and "ok k"
    and "ser_valid (te_env K) k" and "ser_valid (te_env K) v"
    and "used + ilen (ser_bytes (te_env K) k) + ilen (ser_bytes (te_env K) v) \<le> 8192"
  obtains s nd where
    "bt_insert K k v t = (if is_full nd then split_leaf K nd else dv_lift (st_return ()))
       (t\<lparr>bt_size := bt_size t + (if m k = None then 1 else 0), bt_pool := s\<rparr>)"
    and "leaf_page K (t\<lparr>bt_size := bt_size t + (if m k = None then 1 else 0), bt_pool := s\<rparr>) nd
      (used + ilen (ser_bytes (te_env K) k) + ilen (ser_bytes (te_env K) v))"
    and "sorted_keys (nd_keys nd)" and "entries nd = m(k \<mapsto> Val v)"
    and "bp_page_ids s = bp_page_ids (bt_pool t) \<and> bp_capacity s = bp_capacity (bt_pool t)"
proof -
  let ?used = "used + ilen (ser_bytes (te_env K) k) + ilen (ser_bytes (te_env K) v)"
  let ?n = "bt_size t + (if m k = None then 1 else 0)"
  obtain nd0 where nd0: "leaf_page K t nd0 used" "sorted_keys (nd_keys nd0)" "entries nd0 = m"
    using assms(1) by (auto simp: leaf_map_def)
  obtain q s where find: "find_leaf K k t = Some (Inr (nd0\<lparr>nd_page := q\<rparr>), t\<lparr>bt_pool := s\<rparr>)"
    and page: "leaf_page K (t\<lparr>bt_pool := s\<rparr>) (nd0\<lparr>nd_page := q\<rparr>) used"
    and ids: "bp_page_ids s = bp_page_ids (bt_pool t) \<and> bp_capacity s = bp_capacity (bt_pool t)"
    by (rule leaf_page_find [OF nd0(1)])
  define nd where "nd = nd0\<lparr>nd_page := q\<rparr>"
  note find = find [folded nd_def] and page = page [folded nd_def]
  have nd: "sorted_keys (nd_keys nd)" "entries nd = m" using nd0 by (simp_all add: nd_def)
  note len = leaf_page_values [OF page]
  obtain r where root: "bt_root t = Some r" using nd0(1) by (simp add: leaf_page_def)
  obtain nd' where nd': "put_entry K k v nd = Inr (k \<notin> set (nd_keys nd), nd')" "sorted_keys (nd_keys nd')"
      "entries nd' = (entries nd)(k \<mapsto> Val v)"
    by (rule put_entry_map [OF nd(1) len assms(2)])
  have "leaf_fits K nd used" using page by (simp add: leaf_page_def)
  from put_entry_fits [OF nd'(1) this assms(3-5)] have fits: "leaf_fits K nd' ?used"
    and same: "nd_page nd' = nd_page nd" "nd_order nd' = nd_order nd" "nd_parent nd' = None"
    using page by (simp_all add: leaf_page_def)
  have added: "m k = None \<longleftrightarrow> k \<notin> set (nd_keys nd)" using entries_absent [OF len, of k] nd(2) by simp
  let ?t1 = "t\<lparr>bt_size := ?n, bt_pool := s\<rparr>"
  have page1: "leaf_page K ?t1 nd used" using page by (simp only: leaf_page_size)
  obtain s2 where w: "node_serialize K nd' ?t1 = (Inr (), ?t1\<lparr>bt_pool := s2\<rparr>)"
      "leaf_page K (?t1\<lparr>bt_pool := s2\<rparr>) nd' ?used"
      "bp_page_ids s2 = bp_page_ids (bt_pool ?t1) \<and> bp_capacity s2 = bp_capacity (bt_pool ?t1)"
    by (rule leaf_page_write [OF page1 fits same]) blast
  obtain s3 where rel: "release_node nd' (?t1\<lparr>bt_pool := s2\<rparr>) = (Inr (), ?t1\<lparr>bt_pool := s3\<rparr>)"
      "leaf_page K (?t1\<lparr>bt_pool := s3\<rparr>) nd' ?used"
      "bp_page_ids s3 = bp_page_ids s2 \<and> bp_capacity s3 = bp_capacity s2"
    using leaf_page_release [OF w(2)] by auto
  have upd: "(\<lambda>t. if k \<notin> set (nd_keys nd) then t\<lparr>bt_size := bt_size t + 1\<rparr> else t) (t\<lparr>bt_pool := s\<rparr>) = ?t1"
    using added by simp
  have "bt_insert K k v t = (if is_full nd' then split_leaf K nd' else dv_lift (st_return ())) (?t1\<lparr>bt_pool := s3\<rparr>)"
    using root find nd'(1) w(1) rel(1) upd by (simp add: bt_insert_def)
  then show thesis using rel(2,3) nd'(2,3) w(3) ids nd(2) by (intro that [of nd' s3]) simp_all
qed

lemma insert_map:
  assumes "leaf_map K ok rank t m used" and "ok k"
    and "ser_valid (te_env K) k" and "ser_valid (te_env K) v"
    and "used + ilen (ser_bytes (te_env K) k) + ilen (ser_bytes (te_env K) v) \<le> 8192"
    and "int (card (dom (m(k \<mapsto> Val v)))) < 2 * bt_order t"
  shows "\<exists>t'. bt_insert K k v t = Some (Inr (), t') \<and>
    leaf_map K ok rank t' (m(k \<mapsto> Val v)) (used + ilen (ser_bytes (te_env K) k) + ilen (ser_bytes (te_env K) v)) \<and>
    bt_size t' = bt_size t + (if m k = None then 1 else 0)"
proof -
  obtain s nd where ins: "bt_insert K k v t = (if is_full nd then split_leaf K nd else dv_lift (st_return ()))
       (t\<lparr>bt_size := bt_size t + (if m k = None then 1 else 0), bt_pool := s\<rparr>)"
    and nd: "leaf_page K (t\<lparr>bt_size := bt_size t + (if m k = None then 1 else 0), bt_pool := s\<rparr>) nd
      (used + ilen (ser_bytes (te_env K) k) + ilen (ser_bytes (te_env K) v))"
      "sorted_keys (nd_keys nd)" "entries nd = m(k \<mapsto> Val v)"
    by (rule insert_leaf [OF assms(1-5)])
  have "\<not> is_full nd"
    using nd(1) assms(6) card_entries [OF nd(2) leaf_page_values [OF nd(1)]] nd(3)
    by (simp add: is_full_def leaf_page_def)
  then show ?thesis using ins leaf_mapI [OF nd] by simp
qed

text \<open>A full leaf: the split raises, and only the lower half is left.\<close>

lemma insert_full:
  assumes "leaf_map K ok rank t m used" and "ok k"
    and "ser_valid (te_env K) k" and "ser_valid (te_env K) v"
    and "used + ilen (ser_bytes (te_env K) k) + ilen (ser_bytes (te_env K) v) \<le> 8192"
    and "2 * bt_order t \<le> int (card (dom (m(k \<mapsto> Val v))))"
    and "pool_size (bt_pool t) < bp_capacity (bt_pool t)"
    and "0 \<le> bt_page_count t" and "bt_page_count t < 2 ^ 31 - 1"
    and "map_of (bp_page_ids (bt_pool t)) (page_number (bt_page_count t + 1)) = None"
  shows "\<exists>t' m'. bt_insert K k v t = Some (Inl AttributeErr, t') \<and>
    leaf_map K ok rank t' m' (used + ilen (ser_bytes (te_env K) k) + ilen (ser_bytes (te_env K) v)) \<and>
    m' \<subseteq>\<^sub>m m(k \<mapsto> Val v) \<and> card (dom m') = card (dom (m(k \<mapsto> Val v))) div 2"
proof -
  let ?used = "used + ilen (ser_bytes (te_env K) k) + ilen (ser_bytes (te_env K) v)"
  let ?n = "bt_size t + (if m k = None then 1 else 0)"
  obtain s nd where ins: "bt_insert K k v t = (if is_full nd then split_leaf K nd else dv_lift (st_return ()))
       (t\<lparr>bt_size := ?n, bt_pool := s\<rparr>)"
    and nd: "leaf_page K (t\<lparr>bt_size := ?n, bt_pool := s\<rparr>) nd ?used"
      "sorted_keys (nd_keys nd)" "entries nd = m(k \<mapsto> Val v)"
    and ids: "bp_page_ids s = bp_page_ids (bt_pool t) \<and> bp_capacity s = bp_capacity (bt_pool t)"
    by (rule insert_leaf [OF assms(1-5)])
  let ?t1 = "t\<lparr>bt_size := ?n, bt_pool := s\<rparr>"
  let ?pid = "page_number (bt_page_count t + 1)"
  note len = leaf_page_values [OF nd(1)]
  have card: "card (dom (m(k \<mapsto> Val v))) = length (nd_keys nd)" using card_entries [OF nd(2) len] nd(3) by simp
  then have full: "is_full nd" using nd(1) assms(6) by (simp add: is_full_def leaf_page_def)
  have "k \<in> dom (m(k \<mapsto> Val v))" by simp
  then have nonempty: "nd_keys nd \<noteq> []"
    using nd(3) entries_absent [OF len, of k] by auto
  obtain p bs where p: "on_page ?t1 nd p" "pg_size p = 8192" "node_bytes K nd = Inr bs"
    and l: "leaf_fits K nd ?used" "0 \<le> pid_page_num (node_id nd)" "pid_page_num (node_id nd) < 2 ^ 31"
    and parent: "nd_parent nd = None"
    using nd(1) by (auto simp: leaf_page_def)
  have bytes: "HEADER_SIZE + ilen bs \<le> pg_size p"
    using leaf_fits_bytes(2) [OF l(1)] p(2,3) l(1) by (auto simp: leaf_fits_def)
  have leaf: "nd_is_leaf nd" using l(1) by (simp add: leaf_fits_def)
  have room: "pool_size (bt_pool ?t1) < bp_capacity (bt_pool ?t1)" using assms(7) ids by (simp add: pool_size_def)
  have count: "0 \<le> bt_page_count ?t1" "bt_page_count ?t1 < 2 ^ 31 - 1"
    "map_of (bp_page_ids (bt_pool ?t1)) (page_number (bt_page_count ?t1 + 1)) = None"
    using assms(8-10) ids by simp_all
  have num: "pid_page_num (node_id nd) \<in> {0..<2 ^ 31}" using l(2,3) by simp
  obtain s2 q p' bs' where split: "split_leaf K nd ?t1 =
      Some (Inl AttributeErr, ?t1\<lparr>bt_page_count := bt_page_count ?t1 + 1, bt_pool := s2\<rparr>)"
    and s2: "pool_inv s2" "get_page s2 (node_id nd) = Inr (Some q)" "page_sized q" "pg_size q = pg_size p"
      "node_bytes K (left_half nd (page_number (bt_page_count ?t1 + 1))) = Inr bs'"
      "\<exists>pre post. pg_data q = pre @ bs' @ post \<and> length pre = 24"
    by (rule split_leaf_raises [OF p(1,3) bytes leaf leaf_fits_bytes(1) [OF l(1)] nonempty num room count])
  let ?half = "left_half nd ?pid"
  let ?t2 = "?t1\<lparr>bt_page_count := bt_page_count t + 1, bt_pool := s2\<rparr>"
  have id: "node_id ?half = node_id nd" by (simp add: left_half_def node_id_def Let_def)
  have fits: "leaf_fits K ?half ?used"
    using leaf_fits_half [OF l(1), of "bt_page_count t + 1"] assms(8,9) by simp
  have "on_page ?t2 ?half q" using s2(1-4) p(2) id by (simp add: on_page_def HEADER_SIZE_def)
  then have page: "leaf_page K ?t2 ?half ?used"
    using fits s2(4-6) p(2) id parent by (intro leaf_page_again [OF nd(1), of _ _ bs' ?t2 q])
      (simp_all add: left_half_def Let_def)
  have keys: "nd_keys ?half = take (length (nd_keys nd) div 2) (nd_keys nd)"
    "nd_values ?half = take (length (nd_keys nd) div 2) (nd_values nd)"
    by (simp_all add: left_half_def Let_def)
  have sorted: "sorted_keys (nd_keys ?half)"
    using nd(2) by (auto simp: keys keys_sorted_def list_all_iff sorted_wrt_take dest: in_set_takeD)
  have "entries ?half \<subseteq>\<^sub>m m(k \<mapsto> Val v)"
    using map_of_take_le [OF sorted_keys_distinct [OF nd(2)] len] nd(3) by (simp add: entries_def keys)
  moreover have "card (dom (entries ?half)) = card (dom (m(k \<mapsto> Val v))) div 2"
    unfolding card using card_entries [OF sorted leaf_page_values [OF page]] by (simp add: keys)
  moreover have "bt_insert K k v t = Some (Inl AttributeErr, ?t2)" using ins full split by simp
  ultimately show ?thesis using leaf_mapI [OF page sorted refl] by blast
qed

end

section \<open>Integer keys\<close>

fun key_rank :: "('d, 'o) key \<Rightarrow> int" where
  "key_rank (VInt n) = n"
| "key_rank _ = 0"

definition int_key :: "('d, 'o) key \<Rightarrow> bool" where
  "int_key k \<longleftrightarrow> (\<exists>n. k = VInt n \<and> - (2 ^ 63) \<le> n \<and> n < 2 ^ 63)"

interpretation ik: key_order int_tree_env int_key key_rank
  by unfold_locales (auto simp: int_tree_env_def int_keys_def int_key_def)

lemma int_key_valid: "int_key k \<Longrightarrow> ser_valid (te_env int_tree_env) k \<and>
    ilen (ser_bytes (te_env int_tree_env) k) = 9"
  by (auto simp: int_key_def ser_valid_def ser_bytes_def pack_uint_tag pack_sint_def)

text \<open>The tree with integer keys on one leaf holds the map \<open>m\<close> in at most \<open>used\<close> bytes.\<close>

definition int_map :: "btree \<Rightarrow> ((pyfloat, unit) key \<rightharpoonup> (pyfloat, unit) db_value slot) \<Rightarrow> int \<Rightarrow> bool" where
  "int_map = leaf_map int_tree_env int_key key_rank"

text \<open>
  C32. A tree on one leaf is a finite map: with integer keys of 64 bits, \<^verbatim>\<open>search\<close> returns the value
  of the key, \<^verbatim>\<open>delete\<close> removes it and says whether it was there, and \<^verbatim>\<open>insert\<close> of a value that
  can be encoded and fits the page puts or replaces it, as long as the leaf does not reach twice the
  order; the size follows.
\<close>
theorem single_leaf_map:
  assumes "int_map t m used" and "int_key k"
  shows "(\<exists>t'. search int_tree_env k t = Some (Inr (m k), t') \<and> int_map t' m used \<and> bt_size t' = bt_size t) \<and>
    (\<exists>t'. bt_delete int_tree_env k t = Some (Inr (m k \<noteq> None), t') \<and> int_map t' (m(k := None)) used \<and>
       bt_size t' = bt_size t - (if m k = None then 0 else 1)) \<and>
    (\<forall>v bs. encode plain_env v = Inr bs \<and> storable plain_env v \<and> used + 9 + ilen bs \<le> 8192 \<and>
         int (card (dom (m(k \<mapsto> Val v)))) < 2 * bt_order t \<longrightarrow>
       (\<exists>t'. bt_insert int_tree_env k v t = Some (Inr (), t') \<and>
         int_map t' (m(k \<mapsto> Val v)) (used + 9 + ilen bs) \<and>
         bt_size t' = bt_size t + (if m k = None then 1 else 0)))"
proof (intro conjI allI impI)
  note k = int_key_valid [OF assms(2)]
  show "\<exists>t'. search int_tree_env k t = Some (Inr (m k), t') \<and> int_map t' m used \<and> bt_size t' = bt_size t"
    using ik.search_map [OF assms(1) [unfolded int_map_def] assms(2)] by (fastforce simp: int_map_def)
  show "\<exists>t'. bt_delete int_tree_env k t = Some (Inr (m k \<noteq> None), t') \<and> int_map t' (m(k := None)) used \<and>
       bt_size t' = bt_size t - (if m k = None then 0 else 1)"
    using ik.delete_map [OF assms(1) [unfolded int_map_def] assms(2)] by (simp add: int_map_def)
  fix v bs
  assume v: "encode plain_env v = Inr bs \<and> storable plain_env v \<and> used + 9 + ilen bs \<le> 8192 \<and>
         int (card (dom (m(k \<mapsto> Val v)))) < 2 * bt_order t"
  have env: "te_env int_tree_env = plain_env" by (simp add: int_tree_env_def)
  have valid: "ser_valid plain_env v" "ser_bytes plain_env v = bs"
    using v by (simp_all add: ser_valid_def ser_bytes_def)
  show "\<exists>t'. bt_insert int_tree_env k v t = Some (Inr (), t') \<and>
      int_map t' (m(k \<mapsto> Val v)) (used + 9 + ilen bs) \<and> bt_size t' = bt_size t + (if m k = None then 1 else 0)"
    using ik.insert_map [OF assms(1) [unfolded int_map_def] assms(2), of v] k v valid
    by (simp add: int_map_def env)
qed

text \<open>The example node on its page.\<close>

lemma example_map:
  obtains t where
    "int_map t [VInt 5 \<mapsto> Val (VInt 6), VInt 7 \<mapsto> Val VNull] 65" and "bt_order t = order"
    and "bt_page_count t = 1" and "pool_size (bt_pool t) < bp_capacity (bt_pool t)"
    and "map_of (bp_page_ids (bt_pool t)) (page_number 2) = None"
proof -
  let ?nd = "example_leaf order" and ?t = "example_tree order"
  obtain bs where bs: "node_bytes int_tree_env ?nd = Inr bs" "ilen bs = 41" using example_bytes by blast
  have size: "pg_size example_page = 8192" by (simp add: example_page_def)
  obtain s q where s: "updates (bt_pool ?t) q s" "pg_id q = node_id ?nd" "pg_size q = pg_size example_page"
      "page_sized q" "\<exists>pre post. pg_data q = pre @ bs @ post \<and> length pre = 24"
    by (rule node_serialize_ok [OF example_on_page bs(1)]) (use bs(2) size in \<open>auto simp: HEADER_SIZE_def\<close>)
  let ?t1 = "?t\<lparr>bt_pool := s\<rparr>"
  have page: "on_page ?t1 ?nd q" using updatesD(1,3) [OF s(1)] s(2-4) size by (simp add: on_page_def HEADER_SIZE_def)
  have nd: "nd_is_leaf ?nd" "nd_keys ?nd = [VInt 5, VInt 7]" "nd_values ?nd = map Val [VInt 6, VNull]"
    "nd_order ?nd = order" "nd_parent ?nd = None" "nd_next_leaf ?nd = None" "nd_prev_leaf ?nd = None"
    "node_id ?nd = page_number 1"
    by (simp_all add: example_leaf_def node_id_def example_page_def sample_page_def)
  have enc: "ser_valid plain_env (VInt n)" "ilen (ser_bytes plain_env (VInt n)) = 9" if "0 \<le> n" "n < 100" for n
    using that by (auto simp: ser_valid_def ser_bytes_def pack_uint_tag pack_sint_def)
  have null: "ser_valid plain_env VNull" "ilen (ser_bytes plain_env VNull) = 1"
    by (auto simp: ser_valid_def ser_bytes_def pack_uint_tag)
  have "encodable plain_env [VInt 5, VInt 7]" "encodable plain_env [VInt 6, VNull]"
      "total_size plain_env [VInt 5, VInt 7] = 18" "total_size plain_env [VInt 6, VNull] = 10"
    using enc [of 5] enc [of 6] enc [of 7] null by simp_all
  moreover have "\<exists>bs. link_bytes None = Inr bs" by (simp add: link_bytes_def pack_sint_def)
  ultimately have fits: "leaf_fits int_tree_env ?nd 65"
    unfolding leaf_fits_def by (simp add: nd link_storable_def int_tree_env_def)
      (intro exI [of _ "[VInt 6, VNull]"], simp)
  have "bt_order ?t1 = order" "bt_root ?t1 = Some (page_number 1)" by (simp_all add: example_tree_def)
  then have "leaf_page int_tree_env ?t1 ?nd 65"
    unfolding leaf_page_def using page fits bs(1) s(3,5) size by (auto simp: nd)
  moreover have "keys_sorted int_key key_rank (nd_keys ?nd)"
    by (simp add: nd keys_sorted_def int_key_def)
  moreover have "entries ?nd = [VInt 5 \<mapsto> Val (VInt 6), VInt 7 \<mapsto> Val VNull]"
    by (auto simp: entries_def nd fun_eq_iff)
  ultimately have "int_map ?t1 [VInt 5 \<mapsto> Val (VInt 6), VInt 7 \<mapsto> Val VNull] 65"
    unfolding int_map_def by (rule leaf_mapI)
  then show thesis
    using updatesD(2,5) [OF s(1)]
    by (intro that [of ?t1]) (simp_all add: pool_size_def, simp_all add: example_tree_def sample_pool_def
        example_page_def sample_page_def)
qed

theorem single_leaf_map_witness:
  "\<exists>t t'. bt_insert int_tree_env (VInt 9) VNull t = Some (Inr (), t') \<and>
    int_map t' [VInt 5 \<mapsto> Val (VInt 6), VInt 7 \<mapsto> Val VNull, VInt 9 \<mapsto> Val VNull] 75"
proof -
  obtain t where t: "int_map t [VInt 5 \<mapsto> Val (VInt 6), VInt 7 \<mapsto> Val VNull] 65" "bt_order t = 2"
    using example_map [of 2] by blast
  have key: "int_key (VInt 9 :: (pyfloat, unit) key)" by (simp add: int_key_def)
  let ?m = "[VInt 5 \<mapsto> Val (VInt 6), VInt 7 \<mapsto> Val VNull] ::
    (pyfloat, unit) key \<rightharpoonup> (pyfloat, unit) db_value slot"
  have "encode plain_env VNull = Inr [0] \<and> storable plain_env VNull \<and> 65 + 9 + ilen [0 :: byte] \<le> 8192 \<and>
      int (card (dom (?m(VInt 9 \<mapsto> Val VNull)))) < 2 * bt_order t"
    using t(2) by (simp add: pack_uint_tag card_insert_if)
  then have "\<exists>t'. bt_insert int_tree_env (VInt 9) VNull t = Some (Inr (), t') \<and>
      int_map t' (?m(VInt 9 \<mapsto> Val VNull)) (65 + 9 + ilen [0 :: byte]) \<and>
      bt_size t' = bt_size t + (if ?m (VInt 9) = None then 1 else 0)"
    by (rule single_leaf_map [OF t(1) key, THEN conjunct2, THEN conjunct2, THEN spec, THEN spec, THEN mp])
  then show ?thesis by auto
qed

text \<open>
  A leaf that becomes full loses half its entries: when the insertion brings the leaf to twice
  the order and there is room for a new page, \<^verbatim>\<open>insert\<close> raises \<^verbatim>\<open>AttributeError\<close> (the new leaf node
  takes itself for an inner node), and the tree then holds just the lower half of the map, rounded
  down; the other entries are nowhere.
\<close>
theorem full_leaf_loses_entries:
  assumes "int_map t m used" and "int_key k" and "encode plain_env v = Inr bs" and "storable plain_env v"
    and "used + 9 + ilen bs \<le> 8192" and "2 * bt_order t \<le> int (card (dom (m(k \<mapsto> Val v))))"
    and "pool_size (bt_pool t) < bp_capacity (bt_pool t)"
    and "0 \<le> bt_page_count t" and "bt_page_count t < 2 ^ 31 - 1"
    and "map_of (bp_page_ids (bt_pool t)) (page_number (bt_page_count t + 1)) = None"
  shows "\<exists>t' m'. bt_insert int_tree_env k v t = Some (Inl AttributeErr, t') \<and>
    int_map t' m' (used + 9 + ilen bs) \<and> m' \<subseteq>\<^sub>m m(k \<mapsto> Val v) \<and>
    card (dom m') = card (dom (m(k \<mapsto> Val v))) div 2"
proof -
  have env: "te_env int_tree_env = plain_env" by (simp add: int_tree_env_def)
  have "ser_valid plain_env v" "ser_bytes plain_env v = bs"
    using assms(3,4) by (simp_all add: ser_valid_def ser_bytes_def)
  then show ?thesis
    using ik.insert_full [OF assms(1) [unfolded int_map_def] assms(2) _ _ _ assms(6-10)] int_key_valid [OF assms(2)] assms(5)
    by (simp add: int_map_def env)
qed

theorem full_leaf_loses_entries_witness:
  "\<exists>t t' m'. bt_insert int_tree_env (VInt 7) VNull t = Some (Inl AttributeErr, t') \<and>
    int_map t' m' 75 \<and> card (dom m') = 1"
proof -
  obtain t where t: "int_map t [VInt 5 \<mapsto> Val (VInt 6), VInt 7 \<mapsto> Val VNull] 65" "bt_order t = 1"
    "bt_page_count t = 1" "pool_size (bt_pool t) < bp_capacity (bt_pool t)"
    "map_of (bp_page_ids (bt_pool t)) (page_number 2) = None"
    using example_map [of 1] by blast
  have key: "int_key (VInt 7 :: (pyfloat, unit) key)" by (simp add: int_key_def)
  have null: "encode plain_env VNull = Inr [0]" by (simp add: pack_uint_tag)
  show ?thesis
    using full_leaf_loses_entries [OF t(1) key null _ _ _ t(4)] t(2,3,5) by (auto simp: card_insert_if)
qed

end
