(* ===== verification/Leb128.thy ===== *)
theory Leb128
  imports Py_Struct
begin

text \<open>
  The variable-length integers of \<^verbatim>\<open>wasm/src/utils/leb128.py\<close>: the two decoders, the two
  encoders and the streaming \<^verbatim>\<open>LEB128Reader\<close>.
\<close>

section \<open>Decoding\<close>

text \<open>
  The \<^verbatim>\<open>while True\<close> loop that both decoders share: the accumulator, the shift and the number of
  bytes seen so far; it returns the accumulator, the shift, the last byte and the next offset.
\<close>

function leb128_loop :: "bytes \<Rightarrow> int \<Rightarrow> int \<Rightarrow> nat \<Rightarrow> nat \<Rightarrow> (int \<times> nat \<times> int \<times> int) result" where
  "leb128_loop data offset result shift byte_count =
     (if byte_count + 1 > 10 then Inl ValueError
      else res_bind (py_index data offset) (\<lambda>b.
        let byte_val = uint b;
            result' = result OR push_bit shift (byte_val AND 0x7F);
            shift' = shift + 7;
            offset' = offset + 1
        in if byte_val AND 0x80 = 0 then Inr (result', shift', byte_val, offset')
           else if offset' \<ge> ilen data \<and> byte_count + 1 < 10 then Inl ValueError
           else leb128_loop data offset' result' shift' (byte_count + 1)))"
  by pat_completeness auto
termination
  by (relation "measure (\<lambda>(_, _, _, _, byte_count). 11 - byte_count)") auto

declare leb128_loop.simps [simp del]

definition decode_unsigned_leb128 :: "bytes \<Rightarrow> int \<Rightarrow> (int \<times> int) result" where
  "decode_unsigned_leb128 data offset =
     (if offset \<ge> ilen data then Inl ValueError
      else res_bind (leb128_loop data offset 0 0 0)
        (\<lambda>(result, shift, byte_val, offset'). Inr (result, offset')))"

definition decode_signed_leb128 :: "bytes \<Rightarrow> int \<Rightarrow> (int \<times> int) result" where
  "decode_signed_leb128 data offset =
     (if offset \<ge> ilen data then Inl ValueError
      else res_bind (leb128_loop data offset 0 0 0)
        (\<lambda>(result, shift, byte_val, offset').
          if byte_val AND 0x40 \<noteq> 0
          then let mask = push_bit shift 1 - 1 in Inr (result OR (NOT mask), offset')
          else Inr (result, offset')))"

section \<open>Encoding\<close>

text \<open>
  The loop of the unsigned encoder, entered only with a value that is not negative.
\<close>

function encode_unsigned_loop :: "nat \<Rightarrow> bytes" where
  "encode_unsigned_loop value =
     (let byte_val = value AND 0x7F;
          value' = drop_bit 7 value;
          byte_val' = (if value' \<noteq> 0 then byte_val OR 0x80 else byte_val)
      in if value' = 0 then [word_of_nat byte_val']
         else word_of_nat byte_val' # encode_unsigned_loop value')"
  by pat_completeness auto
termination
  by (relation "measure id") (auto simp: drop_bit_eq_div)

declare encode_unsigned_loop.simps [simp del]

definition encode_unsigned_leb128 :: "int \<Rightarrow> bytes result" where
  "encode_unsigned_leb128 value =
     (if value < 0 then Inl ValueError else Inr (encode_unsigned_loop (nat value)))"

lemma shift_shrinks_neg:
  "(v :: int) mod 128 < 64 \<Longrightarrow> v < 0 \<Longrightarrow> v < v div 128 \<and> v < - 1"
proof -
  assume v: "v mod 128 < 64" "v < 0"
  have "v = 128 * (v div 128) + v mod 128" by simp
  moreover have "v div 128 < 0" using v(2) by simp
  ultimately show ?thesis using v by linarith
qed

text \<open>The local \<^verbatim>\<open>sign_bit\<close> of the source is never read.\<close>

function encode_signed_leb128 :: "int \<Rightarrow> bytes" where
  "encode_signed_leb128 value =
     (let byte_val = value AND 0x7F;
          value' = drop_bit 7 value
      in if (value' = 0 \<and> byte_val AND 0x40 = 0) \<or> (value' = -1 \<and> byte_val AND 0x40 \<noteq> 0)
         then [word_of_int byte_val]
         else word_of_int (byte_val OR 0x80) # encode_signed_leb128 value')"
  by pat_completeness auto
termination
  by (relation "measure (\<lambda>v. nat (if v < 0 then - v - 1 else v))")
     (auto simp: drop_bit_eq_div and_64_eq_0 shift_shrinks_neg split: if_splits)

declare encode_signed_leb128.simps [simp del]

definition decode_unsigned_leb128_from_buffer :: "bytes \<Rightarrow> int \<Rightarrow> (int \<times> int) result" where
  "decode_unsigned_leb128_from_buffer data offset = decode_unsigned_leb128 data offset"

definition decode_signed_leb128_from_buffer :: "bytes \<Rightarrow> int \<Rightarrow> (int \<times> int) result" where
  "decode_signed_leb128_from_buffer data offset = decode_signed_leb128 data offset"

definition encode_leb128 :: "int \<Rightarrow> bool \<Rightarrow> bytes result" where
  "encode_leb128 value is_signed =
     (if is_signed then Inr (encode_signed_leb128 value) else encode_unsigned_leb128 value)"

section \<open>The streaming reader\<close>

record leb128_reader =
  rd_data :: bytes
  rd_offset :: int

definition read_unsigned :: "leb128_reader \<Rightarrow> int result \<times> leb128_reader" where
  "read_unsigned r =
     (case decode_unsigned_leb128 (rd_data r) (rd_offset r) of
        Inl e \<Rightarrow> (Inl e, r)
      | Inr (v, off) \<Rightarrow> (Inr v, r\<lparr>rd_offset := off\<rparr>))"

definition read_signed :: "leb128_reader \<Rightarrow> int result \<times> leb128_reader" where
  "read_signed r =
     (case decode_signed_leb128 (rd_data r) (rd_offset r) of
        Inl e \<Rightarrow> (Inl e, r)
      | Inr (v, off) \<Rightarrow> (Inr v, r\<lparr>rd_offset := off\<rparr>))"

definition read_u32 :: "leb128_reader \<Rightarrow> int result \<times> leb128_reader" where
  "read_u32 r = read_unsigned r"

definition read_u64 :: "leb128_reader \<Rightarrow> int result \<times> leb128_reader" where
  "read_u64 r = read_unsigned r"

definition read_s32 :: "leb128_reader \<Rightarrow> int result \<times> leb128_reader" where
  "read_s32 r = read_signed r"

definition read_s64 :: "leb128_reader \<Rightarrow> int result \<times> leb128_reader" where
  "read_s64 r = read_signed r"

text \<open>\<^verbatim>\<open>skip\<close>: the loop over \<^verbatim>\<open>range(count)\<close>, which is empty for a negative count.\<close>

primrec skip_loop :: "nat \<Rightarrow> leb128_reader \<Rightarrow> unit result \<times> leb128_reader" where
  "skip_loop 0 r = (Inr (), r)"
| "skip_loop (Suc n) r =
     (case read_unsigned r of (Inl e, r') \<Rightarrow> (Inl e, r') | (Inr _, r') \<Rightarrow> skip_loop n r')"

definition skip :: "int \<Rightarrow> leb128_reader \<Rightarrow> unit result \<times> leb128_reader" where
  "skip count r = skip_loop (nat count) r"

definition remaining :: "leb128_reader \<Rightarrow> int" where
  "remaining r = max 0 (ilen (rd_data r) - rd_offset r)"

definition tell :: "leb128_reader \<Rightarrow> int" where
  "tell r = rd_offset r"

definition seek :: "int \<Rightarrow> leb128_reader \<Rightarrow> unit result \<times> leb128_reader" where
  "seek offset r =
     (if offset < 0 \<or> offset > ilen (rd_data r) then (Inl ValueError, r)
      else (Inr (), r\<lparr>rd_offset := offset\<rparr>))"

section \<open>Reference semantics\<close>

text \<open>
  The value of a run of LEB128 bytes read as base-128 digits, least significant first; the run at
  the front of a byte sequence (bytes with the continuation bit, then one without), if it ends
  within the budget; and the sign adjustment by bit 6 of the last byte.
\<close>

primrec leb_value :: "bytes \<Rightarrow> int" where
  "leb_value [] = 0"
| "leb_value (b # bs) = uint b mod 128 + 128 * leb_value bs"

fun leb_head :: "nat \<Rightarrow> bytes \<Rightarrow> bytes option" where
  "leb_head 0 bs = None"
| "leb_head (Suc n) [] = None"
| "leb_head (Suc n) (b # bs) =
     (if uint b < 128 then Some [b] else map_option ((#) b) (leb_head n bs))"

lemma leb_head_numeral [simp]:
  "leb_head (numeral k) [] = None"
  "leb_head (numeral k) (b # bs) =
     (if uint b < 128 then Some [b] else map_option ((#) b) (leb_head (pred_numeral k) bs))"
  by (simp_all add: numeral_eq_Suc)

definition leb_svalue :: "bytes \<Rightarrow> int" where
  "leb_svalue bs =
     (if 64 \<le> uint (last bs) mod 128 then leb_value bs - 128 ^ length bs else leb_value bs)"

fun leb_run :: "bytes \<Rightarrow> bool" where
  "leb_run [] = False"
| "leb_run [b] = (uint b < 128)"
| "leb_run (b # bs) = (128 \<le> uint b \<and> leb_run bs)"

lemma leb_value_bounds: "0 \<le> leb_value bs \<and> leb_value bs < 128 ^ length bs"
proof (induction bs)
  case (Cons b bs)
  have "0 \<le> uint b mod 128" "uint b mod 128 < 128" by simp_all
  moreover from Cons have "128 * leb_value bs + 128 \<le> 128 * 128 ^ length bs" by linarith
  ultimately have "uint b mod 128 + 128 * leb_value bs < 128 * 128 ^ length bs" by linarith
  with Cons show ?case by simp
qed simp

lemma leb_head_Some:
  "leb_head n bs = Some hs \<Longrightarrow>
   leb_run hs \<and> hs \<noteq> [] \<and> length hs \<le> n \<and> (\<exists>post. bs = hs @ post)"
proof (induction n bs arbitrary: hs rule: leb_head.induct)
  case (3 n b bs)
  then show ?case
    by (cases "uint b < 128") (auto simp: neq_Nil_conv)
qed auto

lemma leb_head_run:
  "leb_run hs \<Longrightarrow> length hs \<le> n \<Longrightarrow> leb_head n (hs @ post) = Some hs"
proof (induction hs arbitrary: n rule: leb_run.induct)
  case (2 b)
  then show ?case by (cases n) auto
next
  case (3 b v va)
  then show ?case by (cases n) auto
qed auto

lemma digit_bound:
  assumes "(d :: int) < 128" and "0 \<le> d" and "0 \<le> acc" and "acc < 2 ^ sh"
  shows "0 \<le> acc + 2 ^ sh * d \<and> acc + 2 ^ sh * d < 2 ^ (sh + 7)"
proof -
  have "(2 :: int) ^ sh * d \<le> 2 ^ sh * 127"
    using assms(1) by (intro mult_left_mono) simp_all
  moreover have "(2 :: int) ^ (sh + 7) = 2 ^ sh * 127 + 2 ^ sh"
    by (simp add: power_add)
  moreover have "0 \<le> (2 :: int) ^ sh * d" using assms(2) by simp
  ultimately show ?thesis using assms(3,4) by linarith
qed

text \<open>The shared loop computes the value of the run at its position, or raises.\<close>

lemma leb128_loop_eq:
  assumes "0 \<le> offset" and "offset < ilen data \<or> 10 \<le> k" and "0 \<le> acc" and "acc < 2 ^ sh"
  shows "leb128_loop data offset acc sh k =
    (case leb_head (10 - k) (drop (nat offset) data) of
       None \<Rightarrow> Inl ValueError
     | Some bs \<Rightarrow> Inr (acc + 2 ^ sh * leb_value bs, sh + 7 * length bs, uint (last bs),
                      offset + ilen bs))"
  using assms
proof (induction "10 - k" arbitrary: offset acc sh k)
  case 0
  then show ?case by (simp add: leb128_loop.simps)
next
  case (Suc n)
  then have k: "k < 10" and off: "offset < ilen data" by auto
  let ?b = "data ! nat offset"
  let ?acc = "acc + 2 ^ sh * (uint ?b mod 128)"
  have dr: "drop (nat offset) data = ?b # drop (nat (offset + 1)) data"
    using off Suc.prems(1) by (simp add: Cons_nth_drop_Suc nat_add_distrib)
  have acc': "acc OR push_bit sh (uint ?b mod 128) = ?acc"
    using Suc.prems by (intro or_push_bit_add)
  have hd: "leb_head (10 - k) (drop (nat offset) data) =
      (if uint ?b < 128 then Some [?b]
       else map_option ((#) ?b) (leb_head (10 - (k + 1)) (drop (nat (offset + 1)) data)))"
  proof -
    have "10 - k = Suc (10 - (k + 1))" using k by simp
    then show ?thesis by (simp only: dr leb_head.simps)
  qed
  show ?case
  proof (cases "uint ?b < 128")
    case True
    then show ?thesis
      using Suc.prems off k by (simp add: leb128_loop.simps [of data offset] py_index_in
          and_128_eq_0 hd Let_def or_push_bit_add)
  next
    case False
    then have cont: "\<not> uint ?b AND 0x80 = 0" by (simp add: and_128_eq_0)
    show ?thesis
    proof (cases "offset + 1 \<ge> ilen data \<and> k + 1 < 10")
      case True
      then have "leb_head (10 - (k + 1)) (drop (nat (offset + 1)) data) = None"
        by (cases "10 - (k + 1)") auto
      with True False cont show ?thesis
        using Suc.prems off k by (simp add: leb128_loop.simps [of data offset] py_index_in acc' hd)
    next
      case more: False
      have "uint ?b mod 128 < 128" "0 \<le> uint ?b mod 128" by simp_all
      then have bound: "0 \<le> ?acc \<and> ?acc < 2 ^ (sh + 7)"
        using Suc.prems(3,4) by (rule digit_bound)
      have "leb128_loop data offset acc sh k = leb128_loop data (offset + 1) ?acc (sh + 7) (k + 1)"
        using Suc.prems off k cont more
        by (auto simp: leb128_loop.simps [of data offset] py_index_in acc' Let_def)
      also have "\<dots> = (case leb_head (10 - (k + 1)) (drop (nat (offset + 1)) data) of
          None \<Rightarrow> Inl ValueError
        | Some bs \<Rightarrow> Inr (?acc + 2 ^ (sh + 7) * leb_value bs, sh + 7 + 7 * length bs,
                         uint (last bs), offset + 1 + ilen bs))"
        using Suc.hyps(2) Suc.prems more bound by (intro Suc.hyps(1)) auto
      finally show ?thesis
        using False by (auto simp: hd power_add algebra_simps dest!: leb_head_Some split: option.splits)
    qed
  qed
qed


section \<open>What the decoders compute\<close>
lemma decode_unsigned_leb128_eq:
  assumes "0 \<le> offset"
  shows "decode_unsigned_leb128 data offset =
    (case leb_head 10 (drop (nat offset) data) of
       None \<Rightarrow> Inl ValueError
     | Some bs \<Rightarrow> Inr (leb_value bs, offset + ilen bs))"
proof (cases "offset < ilen data")
  case True
  then show ?thesis
    using leb128_loop_eq [of offset data 0 0 0] assms
    by (auto simp: decode_unsigned_leb128_def split: option.splits)
next
  case False
  then show ?thesis by (simp add: decode_unsigned_leb128_def numeral_eq_Suc)
qed

lemma decode_signed_leb128_eq:
  assumes "0 \<le> offset"
  shows "decode_signed_leb128 data offset =
    (case leb_head 10 (drop (nat offset) data) of
       None \<Rightarrow> Inl ValueError
     | Some bs \<Rightarrow> Inr (leb_svalue bs, offset + ilen bs))"
proof (cases "offset < ilen data")
  case True
  have ext: "leb_value bs OR NOT (128 ^ length bs - 1) = leb_value bs - 128 ^ length bs" for bs
    using or_not_mask_sub [of "leb_value bs" "7 * length bs"] leb_value_bounds [of bs]
    by (simp add: power_mult push_bit_eq_mult)
  from True show ?thesis
    using leb128_loop_eq [of offset data 0 0 0] assms
    by (auto simp: decode_signed_leb128_def leb_svalue_def and_64_eq_0 ext power_mult push_bit_eq_mult
        not_less split: option.splits)
next
  case False
  then show ?thesis by (simp add: decode_signed_leb128_def numeral_eq_Suc)
qed

section \<open>What the encoders produce\<close>

lemma uint_byte_of_nat: "n < 256 \<Longrightarrow> uint (word_of_nat n :: byte) = int n"
  by (simp add: uint_word_of_int_eq unsigned_of_nat take_bit_eq_mod)

lemma uint_byte_of_int: "0 \<le> v \<Longrightarrow> v < 256 \<Longrightarrow> uint (word_of_int v :: byte) = v"
  by (simp add: uint_word_of_int)

lemma or_128_add: "0 \<le> x \<Longrightarrow> x < 128 \<Longrightarrow> x OR 0x80 = x + (0x80 :: int)"
  using or_push_bit_add [of x 7 1] by (simp add: push_bit_eq_mult)

lemma or_128_add_nat: "x < 128 \<Longrightarrow> x OR 0x80 = x + (0x80 :: nat)"
  using or_128_add [of "int x"] by (simp add: of_nat_or_eq flip: of_nat_eq_iff [where 'a = int])

lemma and_127_nat: "(x :: nat) AND 0x7F = x mod 128"
  using take_bit_eq_mask [of 7 x] by (simp add: take_bit_eq_mod mask_eq_exp_minus_1)

lemma uint_cont_byte: "n < 128 \<Longrightarrow> uint (word_of_nat n + 128 :: byte) = int n + 128"
  using uint_byte_of_nat [of "n + 128"] by simp

lemma encode_unsigned_loop_rec:
  "encode_unsigned_loop n =
     (if n < 128 then [word_of_nat n]
      else word_of_nat (n mod 128 + 128) # encode_unsigned_loop (n div 128))"
  by (subst encode_unsigned_loop.simps)
     (auto simp: Let_def drop_bit_eq_div and_127_nat or_128_add_nat div_eq_0_iff)

lemma encode_unsigned_loop_run:
  "leb_run (encode_unsigned_loop n) \<and> leb_value (encode_unsigned_loop n) = int n \<and>
   encode_unsigned_loop n \<noteq> []"
proof (induction n rule: less_induct)
  case (less n)
  show ?case
  proof (cases "n < 128")
    case True
    then show ?thesis
      by (simp add: encode_unsigned_loop_rec [of n] uint_byte_of_nat)
  next
    case False
    then have IH: "leb_run (encode_unsigned_loop (n div 128))"
        "leb_value (encode_unsigned_loop (n div 128)) = int (n div 128)"
        "encode_unsigned_loop (n div 128) \<noteq> []"
      using less.IH [of "n div 128"] by simp_all
    then obtain b bs where "encode_unsigned_loop (n div 128) = b # bs"
      by (cases "encode_unsigned_loop (n div 128)") auto
    with IH False show ?thesis
      by (simp add: encode_unsigned_loop_rec [of n] uint_cont_byte zmod_int zdiv_int)
  qed
qed

lemma encode_unsigned_loop_length:
  "0 < k \<Longrightarrow> n < 128 ^ k \<Longrightarrow> length (encode_unsigned_loop n) \<le> k"
proof (induction k arbitrary: n)
  case (Suc k)
  show ?case
  proof (cases "n < 128")
    case True
    then show ?thesis by (simp add: encode_unsigned_loop_rec [of n])
  next
    case False
    with Suc.prems have "k \<noteq> 0" and "n div 128 < 128 ^ k"
      by (auto simp: div_less_iff_less_mult mult.commute intro!: gr0I)
    with Suc.IH False show ?thesis by (simp add: encode_unsigned_loop_rec [of n])
  qed
qed simp


text \<open>The signed encoder: the same facts for the sign-adjusted value.\<close>

lemma small_div_mod:
  "0 \<le> v \<Longrightarrow> v < 64 \<Longrightarrow> v div 128 = 0 \<and> v mod 128 = (v :: int)"
  "- 64 \<le> v \<Longrightarrow> v < 0 \<Longrightarrow> v div 128 = - 1 \<and> v mod 128 = v + 128"
  by (simp_all add: int_div_pos_eq [of v 128 "- 1" "v + 128"] minus_div_mult_eq_mod [symmetric])

lemma encode_signed_leb128_rec:
  "encode_signed_leb128 v =
     (if - 64 \<le> v \<and> v < 64 then [word_of_int (v mod 128)]
      else word_of_int (v mod 128 + 128) # encode_signed_leb128 (v div 128))"
proof -
  have "- 64 \<le> v \<and> v < 64"
    if "(v div 128 = 0 \<and> v mod 128 < 64) \<or> (v div 128 = - 1 \<and> 64 \<le> v mod 128)"
    using that div_mult_mod_eq [of v 128] pos_mod_bound [of 128 v] pos_mod_sign [of 128 v] by linarith
  moreover have "(v div 128 = 0 \<and> v mod 128 < 64) \<or> (v div 128 = - 1 \<and> 64 \<le> v mod 128)"
    if "- 64 \<le> v" "v < 64"
    using that small_div_mod [of v] by (cases "v < 0") simp_all
  ultimately have "(v div 128 = 0 \<and> v mod 128 < 64) \<or> (v div 128 = - 1 \<and> 64 \<le> v mod 128) \<longleftrightarrow>
      - 64 \<le> v \<and> v < 64"
    by blast
  then show ?thesis
    by (subst encode_signed_leb128.simps)
       (simp add: Let_def drop_bit_eq_div and_64_eq_0 or_128_add not_less)
qed

lemma leb_svalue_Cons:
  "bs \<noteq> [] \<Longrightarrow> leb_svalue (b # bs) = uint b mod 128 + 128 * leb_svalue bs"
  by (simp add: leb_svalue_def)

lemma leb_svalue_single:
  "- 64 \<le> v \<Longrightarrow> v < 64 \<Longrightarrow> leb_svalue [word_of_int (v mod 128)] = v"
proof -
  assume v: "- 64 \<le> v" "v < 64"
  then have "v mod 128 = (if v < 0 then v + 128 else v)"
    using small_div_mod [of v] by auto
  with v show ?thesis by (simp add: leb_svalue_def uint_byte_of_int)
qed

lemma uint_cont_byte_int:
  "0 \<le> v \<Longrightarrow> v < 128 \<Longrightarrow> uint (word_of_int v + 128 :: byte) = v + 128"
  using uint_byte_of_int [of "v + 128"] by simp

lemma encode_signed_leb128_run:
  "leb_run (encode_signed_leb128 v) \<and> leb_svalue (encode_signed_leb128 v) = v \<and>
   encode_signed_leb128 v \<noteq> []"
proof (induction v rule: measure_induct_rule [where f = "\<lambda>v. nat (if v < 0 then - v - 1 else v)"])
  case (less v)
  show ?case
  proof (cases "- 64 \<le> v \<and> v < 64")
    case True
    then show ?thesis
      by (simp add: encode_signed_leb128_rec [of v] leb_svalue_single uint_byte_of_int)
  next
    case False
    then have "nat (if v div 128 < 0 then - (v div 128) - 1 else v div 128)
        < nat (if v < 0 then - v - 1 else v)"
      by auto
    note IH = less.IH [OF this]
    then obtain b bs where "encode_signed_leb128 (v div 128) = b # bs"
      by (cases "encode_signed_leb128 (v div 128)") auto
    with IH False show ?thesis
      by (auto simp: encode_signed_leb128_rec [of v] leb_svalue_Cons uint_cont_byte_int)
  qed
qed

lemma encode_signed_leb128_length:
  "- (64 * 128 ^ k) \<le> v \<Longrightarrow> v < 64 * 128 ^ k \<Longrightarrow> length (encode_signed_leb128 v) \<le> Suc k"
proof (induction k arbitrary: v)
  case 0
  then show ?case by (simp add: encode_signed_leb128_rec [of v])
next
  case (Suc k)
  show ?case
  proof (cases "- 64 \<le> v \<and> v < 64")
    case True
    then show ?thesis by (simp add: encode_signed_leb128_rec [of v])
  next
    case False
    have "- (64 * 128 ^ k) \<le> v div 128" "v div 128 < 64 * 128 ^ k"
      using Suc.prems by simp_all
    then have "length (encode_signed_leb128 (v div 128)) \<le> Suc k" by (rule Suc.IH)
    with False show ?thesis by (auto simp: encode_signed_leb128_rec [of v])
  qed
qed

section \<open>The codec laws\<close>

text \<open>The bytes of a value the unsigned encoder accepts.\<close>

abbreviation unsigned_bytes :: "int \<Rightarrow> bytes" where
  "unsigned_bytes v \<equiv> encode_unsigned_loop (nat v)"

interpretation leb_u: codec unsigned_bytes decode_unsigned_leb128 "\<lambda>v. 0 \<le> v \<and> v < 2 ^ 70"
proof (unfold_locales, goal_cases)
  case (1 v pre post)
  have "nat v < 128 ^ 10" using 1 by (simp add: nat_less_iff)
  then have "length (unsigned_bytes v) \<le> 10" by (intro encode_unsigned_loop_length) simp_all
  then have "leb_head 10 (unsigned_bytes v @ post) = Some (unsigned_bytes v)"
    using encode_unsigned_loop_run [of "nat v"] by (intro leb_head_run) simp_all
  then show ?case
    using 1 encode_unsigned_loop_run [of "nat v"] by (simp add: decode_unsigned_leb128_eq)
qed

interpretation leb_s: codec encode_signed_leb128 decode_signed_leb128
  "\<lambda>v. - (2 ^ 69) \<le> v \<and> v < 2 ^ 69"
proof (unfold_locales, goal_cases)
  case (1 v pre post)
  then have "length (encode_signed_leb128 v) \<le> Suc 9"
    by (intro encode_signed_leb128_length) simp_all
  then have "leb_head 10 (encode_signed_leb128 v @ post) = Some (encode_signed_leb128 v)"
    using encode_signed_leb128_run [of v] by (intro leb_head_run) simp_all
  then show ?case
    using encode_signed_leb128_run [of v] by (simp add: decode_signed_leb128_eq)
qed

text \<open>The length of a run bounds its value, so no run is shorter than the encoder's.\<close>

lemma encode_unsigned_loop_minimal:
  assumes "bs \<noteq> []"
  shows "length (encode_unsigned_loop (nat (leb_value bs))) \<le> length bs"
  using assms leb_value_bounds [of bs]
  by (intro encode_unsigned_loop_length) (auto simp: nat_less_iff)

lemma leb_run_beyond: "leb_run bs \<Longrightarrow> n < length bs \<Longrightarrow> leb_head n bs = None"
proof (induction bs arbitrary: n rule: leb_run.induct)
  case (3 b v va)
  then show ?case by (cases n) auto
qed auto

text \<open>Reading \<open>n\<close> values in a row with the reader is \<open>n\<close> steps of the decoder.\<close>

primrec read_unsigned_seq :: "nat \<Rightarrow> leb128_reader \<Rightarrow> int list result \<times> leb128_reader" where
  "read_unsigned_seq 0 r = (Inr [], r)"
| "read_unsigned_seq (Suc n) r =
     (case read_unsigned r of
        (Inl e, r') \<Rightarrow> (Inl e, r')
      | (Inr v, r') \<Rightarrow>
          (case read_unsigned_seq n r' of
             (Inl e, r'') \<Rightarrow> (Inl e, r'')
           | (Inr vs, r'') \<Rightarrow> (Inr (v # vs), r'')))"

lemma read_unsigned_seq_decode_many:
  "decode_many decode_unsigned_leb128 n (rd_data r) (rd_offset r) = Inr (vs, off) \<Longrightarrow>
   read_unsigned_seq n r = (Inr vs, r\<lparr>rd_offset := off\<rparr>)"
proof (induction n arbitrary: r vs)
  case (Suc n)
  then obtain v off' vs' where v: "decode_unsigned_leb128 (rd_data r) (rd_offset r) = Inr (v, off')"
    and vs': "decode_many decode_unsigned_leb128 n (rd_data r) off' = Inr (vs', off)"
    and "vs = v # vs'"
    by (auto simp: res_bind_eq_Inr)
  moreover have "read_unsigned_seq n (r\<lparr>rd_offset := off'\<rparr>) = (Inr vs', r\<lparr>rd_offset := off\<rparr>)"
    using Suc.IH [of "r\<lparr>rd_offset := off'\<rparr>" vs'] vs' by simp
  ultimately show ?case by (simp add: read_unsigned_def)
qed simp

section \<open>Properties\<close>

text \<open>
  C30. Unsigned round trip: every integer of \<open>0 .. 2^70 - 1\<close> is accepted by the encoder, and
  decoding at the place where its bytes start, in any surrounding buffer, gives the integer and the
  offset right behind the bytes.
\<close>
theorem leb128_unsigned_roundtrip:
  assumes "0 \<le> v" and "v < 2 ^ 70"
  shows "\<exists>bs. encode_unsigned_leb128 v = Inr bs \<and>
    (\<forall>pre post. decode_unsigned_leb128 (pre @ bs @ post) (ilen pre) = Inr (v, ilen pre + ilen bs))"
  using assms leb_u.dec_enc [of v] by (auto simp: encode_unsigned_leb128_def)

theorem leb128_unsigned_roundtrip_witness:
  "\<exists>bs. encode_unsigned_leb128 624485 = Inr bs \<and>
    (\<forall>pre post. decode_unsigned_leb128 (pre @ bs @ post) (ilen pre) =
      Inr (624485, ilen pre + ilen bs))"
  using leb128_unsigned_roundtrip [of 624485] by simp

text \<open>
  Signed round trip: every integer of \<open>-2^69 .. 2^69 - 1\<close> survives encoding and decoding,
  sign included, wherever its bytes stand in the buffer.
\<close>
theorem leb128_signed_roundtrip:
  assumes "- (2 ^ 69) \<le> v" and "v < 2 ^ 69"
  shows "decode_signed_leb128 (pre @ encode_signed_leb128 v @ post) (ilen pre) =
    Inr (v, ilen pre + ilen (encode_signed_leb128 v))"
  using assms by (intro leb_s.dec_enc) simp

theorem leb128_signed_roundtrip_witness:
  "decode_signed_leb128 ([7] @ encode_signed_leb128 (- 123456) @ [9]) (ilen [7 :: byte]) =
    Inr (- 123456, ilen [7 :: byte] + ilen (encode_signed_leb128 (- 123456)))"
  by (rule leb128_signed_roundtrip) simp_all

text \<open>
  Complete behaviour of the unsigned decoder at a non-negative offset: the value of the first
  run of at most ten bytes and the offset behind it, and \<^verbatim>\<open>ValueError\<close> (never an
  \<^verbatim>\<open>IndexError\<close>) when there is no such run.
\<close>
theorem decode_unsigned_leb128_correct:
  assumes "0 \<le> offset"
  shows "decode_unsigned_leb128 data offset =
    (case leb_head 10 (drop (nat offset) data) of
       None \<Rightarrow> Inl ValueError
     | Some bs \<Rightarrow> Inr (leb_value bs, offset + ilen bs))"
  using assms by (rule decode_unsigned_leb128_eq)

theorem decode_unsigned_leb128_correct_witness:
  "decode_unsigned_leb128 [0, 0xE5, 0x8E, 0x26] 1 = Inr (624485, 4) \<and>
   decode_unsigned_leb128 [0, 0xE5, 0x8E] 1 = Inl ValueError"
  using decode_unsigned_leb128_correct [of 1 "[0, 0xE5, 0x8E, 0x26]"]
    decode_unsigned_leb128_correct [of 1 "[0, 0xE5, 0x8E]"]
  by simp

text \<open>
  The unsigned encoding is canonical and its range is exact: it is the shortest byte run
  that denotes the value, and the decoder gives the value back if and only if it is below \<open>2^70\<close>;
  from there on the encoder still answers but the decoder refuses its output.
\<close>
theorem leb128_unsigned_canonical_range:
  assumes "0 \<le> v" and "encode_unsigned_leb128 v = Inr bs"
  shows "(\<forall>bs'. leb_run bs' \<and> leb_value bs' = v \<longrightarrow> length bs \<le> length bs') \<and>
    decode_unsigned_leb128 bs 0 = (if v < 2 ^ 70 then Inr (v, ilen bs) else Inl ValueError)"
proof -
  have bs: "bs = unsigned_bytes v" using assms by (simp add: encode_unsigned_leb128_def)
  have run: "leb_run bs" and val: "leb_value bs = v"
    using encode_unsigned_loop_run [of "nat v"] assms(1) by (simp_all add: bs)
  have "length bs \<le> length bs'" if "leb_run bs'" "leb_value bs' = v" for bs'
    using that encode_unsigned_loop_minimal [of bs'] by (cases bs') (simp_all add: bs)
  moreover have "leb_head 10 bs = None" if "\<not> v < 2 ^ 70"
  proof (rule leb_run_beyond [OF run])
    show "10 < length bs"
    proof (rule ccontr)
      assume "\<not> 10 < length bs"
      then have "(128 :: int) ^ length bs \<le> 128 ^ 10" by (intro power_increasing) simp_all
      with that leb_value_bounds [of bs] val show False by simp
    qed
  qed
  ultimately show ?thesis
    using assms(1) leb_u.dec_enc_whole [of v] by (simp add: decode_unsigned_leb128_eq bs)
qed

theorem leb128_unsigned_canonical_range_witness:
  "decode_unsigned_leb128 (unsigned_bytes (2 ^ 70)) 0 = Inl ValueError"
  using leb128_unsigned_canonical_range [of "2 ^ 70" "unsigned_bytes (2 ^ 70)"]
  by (simp add: encode_unsigned_leb128_def)

text \<open>
  The streaming reader: over a buffer that holds the encodings of a list of integers one after
  the other, that many calls of \<^verbatim>\<open>read_unsigned\<close> return exactly the list, in order, and leave the
  reader right behind the last one.
\<close>
theorem reader_reads_sequence:
  assumes "list_all (\<lambda>v. 0 \<le> v \<and> v < 2 ^ 70) vs"
    and "rd_data r = pre @ concat (map unsigned_bytes vs) @ post" and "rd_offset r = ilen pre"
  shows "read_unsigned_seq (length vs) r =
    (Inr vs, r\<lparr>rd_offset := ilen pre + ilen (concat (map unsigned_bytes vs))\<rparr>)"
  using leb_u.decode_many_concat [OF assms(1), of pre post] assms(2,3)
  by (intro read_unsigned_seq_decode_many) simp

theorem reader_reads_sequence_witness:
  "read_unsigned_seq 2 \<lparr>rd_data = [] @ concat (map unsigned_bytes [300, 5]) @ [9], rd_offset = 0\<rparr> =
    (Inr [300, 5], \<lparr>rd_data = [] @ concat (map unsigned_bytes [300, 5]) @ [9], rd_offset = 3\<rparr>)"
proof -
  have "length (encode_unsigned_loop 300) = 2" "length (encode_unsigned_loop 5) = 1"
    by (simp_all add: encode_unsigned_loop_rec [of 300] encode_unsigned_loop_rec [of 5]
        encode_unsigned_loop_rec [of 2])
  then show ?thesis
    using reader_reads_sequence [of "[300, 5]"
      "\<lparr>rd_data = [] @ concat (map unsigned_bytes [300, 5]) @ [9], rd_offset = 0\<rparr>" "[]" "[9]"]
    by (simp add: numeral_2_eq_2)
qed

end
