(* ===== verification/WasmMemory.thy ===== *)
theory WasmMemory
  imports Py_Float Region
begin

text \<open>
  The linear memory of the WebAssembly engine, \<^verbatim>\<open>wasm/src/engine/memory.py\<close>: every method of
  \<^verbatim>\<open>Memory\<close> and \<^verbatim>\<open>SharedMemory\<close> except the two \<^verbatim>\<open>__repr__\<close> strings.  A method that changes
  the memory returns how it ended and the memory afterwards, because a store that raises inside
  \<^verbatim>\<open>struct\<close> has already cleared its window.
\<close>

section \<open>The state\<close>

definition WASM_PAGE_SIZE :: int where
  "WASM_PAGE_SIZE = 65536"

definition MAX_PAGES :: int where
  "MAX_PAGES = 65536"

definition MAX_MEMORY_SIZE :: int where
  "MAX_MEMORY_SIZE = MAX_PAGES * WASM_PAGE_SIZE"

record memory =
  mem_initial_pages :: int
  mem_max_pages :: int
  mem_pages :: int
  mem_data :: bytes

definition memory_new :: "int \<Rightarrow> int option \<Rightarrow> memory result" where
  "memory_new initial_pages max_pages =
     (if initial_pages < 0 then Inl MemoryErr
      else if (case max_pages of None \<Rightarrow> False | Some mx \<Rightarrow> initial_pages > mx) then Inl MemoryErr
      else
        let max_pages' = (case max_pages of None \<Rightarrow> None
          | Some mx \<Rightarrow> Some (if mx > MAX_PAGES then MAX_PAGES else mx))
        in Inr \<lparr>mem_initial_pages = initial_pages,
                mem_max_pages = (case max_pages' of None \<Rightarrow> MAX_PAGES | Some mx \<Rightarrow> mx),
                mem_pages = initial_pages,
                mem_data = py_repeat 0 (initial_pages * WASM_PAGE_SIZE)\<rparr>)"

definition mem_size :: "memory \<Rightarrow> int" where
  "mem_size m = ilen (mem_data m)"

definition mem_grow :: "memory \<Rightarrow> int \<Rightarrow> int result \<times> memory" where
  "mem_grow m delta_pages =
     (if delta_pages = 0 then (Inr (mem_pages m), m)
      else
        let new_pages = mem_pages m + delta_pages
        in if new_pages > mem_max_pages m then (Inl MemoryErr, m)
           else if new_pages < 0 then (Inr (- 1), m)
           else
             let new_size = new_pages * WASM_PAGE_SIZE
             in if new_size > MAX_MEMORY_SIZE then (Inl MemoryErr, m)
                else (Inr (mem_pages m),
                      m\<lparr>mem_data := mem_data m @ py_repeat 0 (delta_pages * WASM_PAGE_SIZE),
                        mem_pages := new_pages\<rparr>))"

definition check_bounds :: "memory \<Rightarrow> int \<Rightarrow> int \<Rightarrow> unit result" where
  "check_bounds m address sz =
     (if address < 0 then Inl MemoryErr
      else if address + sz > ilen (mem_data m) then Inl MemoryErr
      else Inr ())"

section \<open>Loads\<close>

definition load_i32 :: "memory \<Rightarrow> int \<Rightarrow> int result" where
  "load_i32 m address =
     res_bind (check_bounds m address 4) (\<lambda>_.
     res_bind (unpack_from (mem_data m) address 4) (\<lambda>bs. Inr (unpack_sint False bs)))"

definition load_i64 :: "memory \<Rightarrow> int \<Rightarrow> int result" where
  "load_i64 m address =
     res_bind (check_bounds m address 8) (\<lambda>_.
     res_bind (unpack_from (mem_data m) address 8) (\<lambda>bs. Inr (unpack_sint False bs)))"

definition load_f32 :: "memory \<Rightarrow> int \<Rightarrow> pyfloat result" where
  "load_f32 m address =
     res_bind (check_bounds m address 4) (\<lambda>_.
     res_bind (unpack_from (mem_data m) address 4) (\<lambda>bs. Inr (unpack_f False bs)))"

definition load_f64 :: "memory \<Rightarrow> int \<Rightarrow> pyfloat result" where
  "load_f64 m address =
     res_bind (check_bounds m address 8) (\<lambda>_.
     res_bind (unpack_from (mem_data m) address 8) (\<lambda>bs. Inr (unpack_d False bs)))"

definition load_i32_8s :: "memory \<Rightarrow> int \<Rightarrow> int result" where
  "load_i32_8s m address =
     res_bind (check_bounds m address 1) (\<lambda>_.
     res_bind (py_index (mem_data m) address) (\<lambda>b.
       let val = uint b
       in Inr (if val AND 0x80 \<noteq> 0 then val OR 0xFFFFFF00 else val)))"

definition load_i32_8u :: "memory \<Rightarrow> int \<Rightarrow> int result" where
  "load_i32_8u m address =
     res_bind (check_bounds m address 1) (\<lambda>_.
     res_bind (py_index (mem_data m) address) (\<lambda>b. Inr (uint b)))"

definition load_i32_16s :: "memory \<Rightarrow> int \<Rightarrow> int result" where
  "load_i32_16s m address =
     res_bind (check_bounds m address 2) (\<lambda>_.
     res_bind (unpack_from (mem_data m) address 2) (\<lambda>bs. Inr (unpack_sint False bs)))"

definition load_i32_16u :: "memory \<Rightarrow> int \<Rightarrow> int result" where
  "load_i32_16u m address =
     res_bind (check_bounds m address 2) (\<lambda>_.
     res_bind (unpack_from (mem_data m) address 2) (\<lambda>bs. Inr (unpack_uint False bs)))"

definition load_i64_8s :: "memory \<Rightarrow> int \<Rightarrow> int result" where
  "load_i64_8s m address =
     res_bind (check_bounds m address 1) (\<lambda>_.
     res_bind (py_index (mem_data m) address) (\<lambda>b.
       let val = uint b
       in Inr (if val AND 0x80 \<noteq> 0 then val OR 0xFFFFFFFFFFFFFF00 else val)))"

definition load_i64_8u :: "memory \<Rightarrow> int \<Rightarrow> int result" where
  "load_i64_8u m address =
     res_bind (check_bounds m address 1) (\<lambda>_.
     res_bind (py_index (mem_data m) address) (\<lambda>b. Inr (uint b)))"

definition load_i64_16s :: "memory \<Rightarrow> int \<Rightarrow> int result" where
  "load_i64_16s m address =
     res_bind (check_bounds m address 2) (\<lambda>_.
     res_bind (unpack_from (mem_data m) address 2) (\<lambda>bs. Inr (unpack_sint False bs)))"

definition load_i64_16u :: "memory \<Rightarrow> int \<Rightarrow> int result" where
  "load_i64_16u m address =
     res_bind (check_bounds m address 2) (\<lambda>_.
     res_bind (unpack_from (mem_data m) address 2) (\<lambda>bs. Inr (unpack_uint False bs)))"

definition load_i64_32s :: "memory \<Rightarrow> int \<Rightarrow> int result" where
  "load_i64_32s m address =
     res_bind (check_bounds m address 4) (\<lambda>_.
     res_bind (unpack_from (mem_data m) address 4) (\<lambda>bs. Inr (unpack_sint False bs)))"

definition load_i64_32u :: "memory \<Rightarrow> int \<Rightarrow> int result" where
  "load_i64_32u m address =
     res_bind (check_bounds m address 4) (\<lambda>_.
     res_bind (unpack_from (mem_data m) address 4) (\<lambda>bs. Inr (unpack_uint False bs)))"

section \<open>Stores\<close>

text \<open>
  A method whose body starts with \<^verbatim>\<open>self._check_bounds(...)\<close>, and a statement that works on
  \<^verbatim>\<open>self._data\<close>.
\<close>

definition guarded :: "memory \<Rightarrow> unit result \<Rightarrow> 'a result \<times> memory \<Rightarrow> 'a result \<times> memory" where
  "guarded m check body = (case check of Inl e \<Rightarrow> (Inl e, m) | Inr _ \<Rightarrow> body)"

definition on_data :: "memory \<Rightarrow> 'a result \<times> bytes \<Rightarrow> 'a result \<times> memory" where
  "on_data m p = (fst p, m\<lparr>mem_data := snd p\<rparr>)"

text \<open>\<^verbatim>\<open>buf[i] = v\<close> on a \<^verbatim>\<open>bytearray\<close>: the value has to be a byte.\<close>

definition bytearray_set :: "bytes \<Rightarrow> int \<Rightarrow> int \<Rightarrow> unit result \<times> bytes" where
  "bytearray_set buf i v =
     (if \<not> (0 \<le> v \<and> v < 256) then (Inl ValueError, buf)
      else case py_update buf i (word_of_int v) of
          Inl e \<Rightarrow> (Inl e, buf)
        | Inr buf' \<Rightarrow> (Inr (), buf'))"

definition store_i32 :: "memory \<Rightarrow> int \<Rightarrow> int \<Rightarrow> unit result \<times> memory" where
  "store_i32 m address value =
     guarded m (check_bounds m address 4)
       (on_data m (pack_into (mem_data m) address [(4, pack_sint False 4 (value AND 0xFFFFFFFF))]))"

definition store_i64 :: "memory \<Rightarrow> int \<Rightarrow> int \<Rightarrow> unit result \<times> memory" where
  "store_i64 m address value =
     guarded m (check_bounds m address 8)
       (on_data m (pack_into (mem_data m) address
         [(8, pack_sint False 8 (value AND 0xFFFFFFFFFFFFFFFF))]))"

definition store_f32 :: "memory \<Rightarrow> int \<Rightarrow> pyfloat \<Rightarrow> unit result \<times> memory" where
  "store_f32 m address value =
     guarded m (check_bounds m address 4)
       (on_data m (pack_into (mem_data m) address [(4, pack_f False value)]))"

definition store_f64 :: "memory \<Rightarrow> int \<Rightarrow> pyfloat \<Rightarrow> unit result \<times> memory" where
  "store_f64 m address value =
     guarded m (check_bounds m address 8)
       (on_data m (pack_into (mem_data m) address [(8, Inr (pack_d False value))]))"

definition store_i32_8 :: "memory \<Rightarrow> int \<Rightarrow> int \<Rightarrow> unit result \<times> memory" where
  "store_i32_8 m address value =
     guarded m (check_bounds m address 1)
       (on_data m (bytearray_set (mem_data m) address (value AND 0xFF)))"

definition store_i32_16 :: "memory \<Rightarrow> int \<Rightarrow> int \<Rightarrow> unit result \<times> memory" where
  "store_i32_16 m address value =
     guarded m (check_bounds m address 2)
       (on_data m (pack_into (mem_data m) address [(2, pack_uint False 2 (value AND 0xFFFF))]))"

definition store_i64_8 :: "memory \<Rightarrow> int \<Rightarrow> int \<Rightarrow> unit result \<times> memory" where
  "store_i64_8 m address value =
     guarded m (check_bounds m address 1)
       (on_data m (bytearray_set (mem_data m) address (value AND 0xFF)))"

definition store_i64_16 :: "memory \<Rightarrow> int \<Rightarrow> int \<Rightarrow> unit result \<times> memory" where
  "store_i64_16 m address value =
     guarded m (check_bounds m address 2)
       (on_data m (pack_into (mem_data m) address [(2, pack_uint False 2 (value AND 0xFFFF))]))"

definition store_i64_32 :: "memory \<Rightarrow> int \<Rightarrow> int \<Rightarrow> unit result \<times> memory" where
  "store_i64_32 m address value =
     guarded m (check_bounds m address 4)
       (on_data m (pack_into (mem_data m) address [(4, pack_uint False 4 (value AND 0xFFFFFFFF))]))"

section \<open>Bulk operations\<close>

definition mem_copy :: "memory \<Rightarrow> int \<Rightarrow> int \<Rightarrow> int \<Rightarrow> unit result \<times> memory" where
  "mem_copy m dest src count =
     guarded m (check_bounds m dest count)
     (guarded m (check_bounds m src count)
       (if count > 0
        then (Inr (), m\<lparr>mem_data := py_slice_assign (mem_data m) dest (dest + count)
               (py_slice (mem_data m) src (src + count))\<rparr>)
        else (Inr (), m)))"

definition mem_fill :: "memory \<Rightarrow> int \<Rightarrow> int \<Rightarrow> int \<Rightarrow> unit result \<times> memory" where
  "mem_fill m dest value count =
     guarded m (check_bounds m dest count)
       (if count > 0
        then (Inr (), m\<lparr>mem_data := py_slice_assign (mem_data m) dest (dest + count)
               (py_repeat (word_of_int (value AND 0xFF)) count)\<rparr>)
        else (Inr (), m))"

definition mem_init :: "memory \<Rightarrow> int \<Rightarrow> bytes \<Rightarrow> int \<Rightarrow> int \<Rightarrow> unit result \<times> memory" where
  "mem_init m dest data src_offset count =
     guarded m (check_bounds m dest count)
       (if src_offset + count > ilen data then (Inl MemoryErr, m)
        else if count > 0
        then (Inr (), m\<lparr>mem_data := py_slice_assign (mem_data m) dest (dest + count)
               (py_slice data src_offset (src_offset + count))\<rparr>)
        else (Inr (), m))"

definition mem_read :: "memory \<Rightarrow> int \<Rightarrow> int \<Rightarrow> bytes result" where
  "mem_read m address sz =
     res_bind (check_bounds m address sz) (\<lambda>_.
       Inr (py_slice (mem_data m) address (address + sz)))"

definition mem_write :: "memory \<Rightarrow> int \<Rightarrow> bytes \<Rightarrow> unit result \<times> memory" where
  "mem_write m address data =
     guarded m (check_bounds m address (ilen data))
       (Inr (), m\<lparr>mem_data := py_slice_assign (mem_data m) address (address + ilen data) data\<rparr>)"

definition get_byte :: "memory \<Rightarrow> int \<Rightarrow> int result" where
  "get_byte m address =
     res_bind (check_bounds m address 1) (\<lambda>_.
     res_bind (py_index (mem_data m) address) (\<lambda>b. Inr (uint b)))"

definition set_byte :: "memory \<Rightarrow> int \<Rightarrow> int \<Rightarrow> unit result \<times> memory" where
  "set_byte m address value =
     guarded m (check_bounds m address 1)
       (on_data m (bytearray_set (mem_data m) address (value AND 0xFF)))"

definition get_bytes :: "memory \<Rightarrow> int \<Rightarrow> int \<Rightarrow> bytes result" where
  "get_bytes m address count =
     res_bind (check_bounds m address count) (\<lambda>_.
       Inr (py_slice (mem_data m) address (address + count)))"

definition set_bytes :: "memory \<Rightarrow> int \<Rightarrow> bytes \<Rightarrow> unit result \<times> memory" where
  "set_bytes m address data = mem_write m address data"

text \<open>
  The subscript operators: the index is an integer or a slice (of step 1), the assigned value an
  integer or bytes.
\<close>

datatype mem_index = At int | Slice int int

datatype mem_value = IntVal int | BytesVal bytes

definition getitem :: "memory \<Rightarrow> mem_index \<Rightarrow> mem_value result" where
  "getitem m index =
     (case index of
        Slice a b \<Rightarrow> Inr (BytesVal (py_slice (mem_data m) a b))
      | At i \<Rightarrow> res_bind (get_byte m i) (\<lambda>v. Inr (IntVal v)))"

definition setitem :: "memory \<Rightarrow> mem_index \<Rightarrow> mem_value \<Rightarrow> unit result \<times> memory" where
  "setitem m index value =
     (case index of
        Slice a b \<Rightarrow>
          (case value of
             BytesVal bs \<Rightarrow> (Inr (), m\<lparr>mem_data := py_slice_assign (mem_data m) a b bs\<rparr>)
           | IntVal _ \<Rightarrow> (Inl TypeError, m))
      | At i \<Rightarrow>
          (case value of
             IntVal v \<Rightarrow> set_byte m i v
           | BytesVal _ \<Rightarrow> guarded m (check_bounds m i 1) (Inl TypeError, m)))"

definition mem_contains :: "memory \<Rightarrow> int \<Rightarrow> bool" where
  "mem_contains m address \<longleftrightarrow> 0 \<le> address \<and> address < ilen (mem_data m)"

section \<open>Shared memory\<close>

record shared_memory =
  sh_memory :: memory
  sh_is_shared :: bool

definition shared_memory_new :: "int \<Rightarrow> int option \<Rightarrow> shared_memory result" where
  "shared_memory_new initial_pages max_pages =
     res_bind (memory_new initial_pages max_pages) (\<lambda>m.
       Inr \<lparr>sh_memory = m, sh_is_shared = True\<rparr>)"

definition on_memory :: "shared_memory \<Rightarrow> 'a result \<times> memory \<Rightarrow> 'a result \<times> shared_memory" where
  "on_memory s p = (fst p, s\<lparr>sh_memory := snd p\<rparr>)"

definition shared_grow :: "shared_memory \<Rightarrow> int \<Rightarrow> int result \<times> shared_memory" where
  "shared_grow s delta_pages = on_memory s (mem_grow (sh_memory s) delta_pages)"

definition atomic_load_i32 :: "shared_memory \<Rightarrow> int \<Rightarrow> int result" where
  "atomic_load_i32 s address = load_i32 (sh_memory s) address"

definition atomic_store_i32 :: "shared_memory \<Rightarrow> int \<Rightarrow> int \<Rightarrow> unit result \<times> shared_memory" where
  "atomic_store_i32 s address value = on_memory s (store_i32 (sh_memory s) address value)"

definition atomic_rmw_add :: "shared_memory \<Rightarrow> int \<Rightarrow> int \<Rightarrow> int result \<times> shared_memory" where
  "atomic_rmw_add s address value =
     (case load_i32 (sh_memory s) address of
        Inl e \<Rightarrow> (Inl e, s)
      | Inr prev \<Rightarrow>
          let (r, m') = store_i32 (sh_memory s) address ((prev + value) AND 0xFFFFFFFF)
          in (res_bind r (\<lambda>_. Inr prev), s\<lparr>sh_memory := m'\<rparr>))"

definition create_memory :: "int \<Rightarrow> int option \<Rightarrow> memory result" where
  "create_memory initial_pages max_pages = memory_new initial_pages max_pages"

section \<open>Evaluation inside and outside the bounds\<close>

lemma check_bounds_in [py_simps]:
  "in_region (mem_data m) address n \<Longrightarrow> check_bounds m address n = Inr ()"
  by (auto simp: check_bounds_def in_region_def)

lemma check_bounds_out [py_simps]:
  "0 \<le> n \<Longrightarrow> \<not> in_region (mem_data m) address n \<Longrightarrow> check_bounds m address n = Inl MemoryErr"
  by (auto simp: check_bounds_def in_region_def)

lemma guarded_simps [simp]:
  "guarded m (Inl e) body = (Inl e, m)"
  "guarded m (Inr u) body = body"
  by (simp_all add: guarded_def)

lemma guarded_failure [simp]:
  "guarded m (check_bounds m a n) (Inl MemoryErr, m) = (Inl MemoryErr, m)"
  by (simp add: guarded_def check_bounds_def)

lemma on_data_simps [simp]:
  "fst (on_data m p) = fst p"
  "mem_data (snd (on_data m p)) = snd p"
  by (simp_all add: on_data_def)

text \<open>The two shapes of a load and the two shapes of a store.\<close>

lemma load_window:
  "k = int n \<Longrightarrow>
   res_bind (check_bounds m a k) (\<lambda>_. res_bind (unpack_from (mem_data m) a n) (\<lambda>bs. Inr (f bs))) =
   (if in_region (mem_data m) a k then Inr (f (window (mem_data m) a k)) else Inl MemoryErr)"
  by (auto simp: py_simps check_bounds_def in_region_def window_def)

lemma load_byte:
  "res_bind (check_bounds m a 1) (\<lambda>_. res_bind (py_index (mem_data m) a) f) =
   (if in_region (mem_data m) a 1 then f (mem_data m ! nat a) else Inl MemoryErr)"
  by (auto simp: py_simps check_bounds_def in_region_def)

lemma store_window:
  "k = int n \<Longrightarrow>
   guarded m (check_bounds m a k) (on_data m (pack_into (mem_data m) a [(n, r)])) =
   (if in_region (mem_data m) a k
    then (case r of
            Inl e \<Rightarrow> (Inl e, m\<lparr>mem_data := overwrite (mem_data m) (nat a) (replicate n 0)\<rparr>)
          | Inr bs \<Rightarrow> (Inr (), m\<lparr>mem_data := overwrite (mem_data m) (nat a) bs\<rparr>))
    else (Inl MemoryErr, m))"
  by (auto simp: py_simps check_bounds_def in_region_def on_data_def split: sum.split)

lemma store_byte:
  "guarded m (check_bounds m a 1) (on_data m (bytearray_set (mem_data m) a (v mod 256))) =
   (if in_region (mem_data m) a 1
    then (Inr (), m\<lparr>mem_data := overwrite (mem_data m) (nat a) [word_of_int v]\<rparr>)
    else (Inl MemoryErr, m))"
proof -
  have "word_of_int (v mod 256) = (word_of_int v :: byte)"
    by (rule word_uint_eqI) (simp add: uint_word_of_int)
  then show ?thesis
    by (auto simp: py_simps check_bounds_def in_region_def on_data_def bytearray_set_def
        overwrite_def upd_conv_take_nth_drop)
qed

lemmas load_defs =
  load_i32_def load_i64_def load_f32_def load_f64_def load_i32_8s_def load_i32_8u_def
  load_i32_16s_def load_i32_16u_def load_i64_8s_def load_i64_8u_def load_i64_16s_def
  load_i64_16u_def load_i64_32s_def load_i64_32u_def get_byte_def

lemmas store_defs =
  store_i32_def store_i64_def store_f32_def store_f64_def store_i32_8_def store_i32_16_def
  store_i64_8_def store_i64_16_def store_i64_32_def set_byte_def

lemma load_in:
  "in_region (mem_data m) a 4 \<Longrightarrow> load_i32 m a = Inr (unpack_sint False (window (mem_data m) a 4))"
  "in_region (mem_data m) a 8 \<Longrightarrow> load_i64 m a = Inr (unpack_sint False (window (mem_data m) a 8))"
  "in_region (mem_data m) a 4 \<Longrightarrow> load_f32 m a = Inr (unpack_f False (window (mem_data m) a 4))"
  "in_region (mem_data m) a 8 \<Longrightarrow> load_f64 m a = Inr (unpack_d False (window (mem_data m) a 8))"
  "in_region (mem_data m) a 1 \<Longrightarrow> load_i32_8u m a = Inr (uint (mem_data m ! nat a))"
  "in_region (mem_data m) a 1 \<Longrightarrow> load_i64_8u m a = Inr (uint (mem_data m ! nat a))"
  "in_region (mem_data m) a 2 \<Longrightarrow> load_i32_16s m a = Inr (unpack_sint False (window (mem_data m) a 2))"
  "in_region (mem_data m) a 2 \<Longrightarrow> load_i32_16u m a = Inr (unpack_uint False (window (mem_data m) a 2))"
  "in_region (mem_data m) a 2 \<Longrightarrow> load_i64_16s m a = Inr (unpack_sint False (window (mem_data m) a 2))"
  "in_region (mem_data m) a 2 \<Longrightarrow> load_i64_16u m a = Inr (unpack_uint False (window (mem_data m) a 2))"
  "in_region (mem_data m) a 4 \<Longrightarrow> load_i64_32s m a = Inr (unpack_sint False (window (mem_data m) a 4))"
  "in_region (mem_data m) a 4 \<Longrightarrow> load_i64_32u m a = Inr (unpack_uint False (window (mem_data m) a 4))"
  by (simp_all add: load_defs load_window load_byte)

lemma window_byte: "in_region xs a 1 \<Longrightarrow> window xs a 1 = [xs ! nat a]"
  by (auto simp: in_region_def window_def take_Suc_conv_app_nth hd_drop_conv_nth
      intro: nth_equalityI)

section \<open>The memory as a region of bytes\<close>

interpretation mem: region "\<lambda>_. True" mem_data mem_read mem_write
proof unfold_locales
  fix m :: memory and a n :: int
  assume "in_region (mem_data m) a n"
  then show "mem_read m a n = Inr (window (mem_data m) a n)"
    by (simp add: mem_read_def check_bounds_in) (simp add: py_slice_in in_region_def window_def)
next
  fix m :: memory and a :: int and bs :: bytes
  assume "in_region (mem_data m) a (ilen bs)"
  then show "fst (mem_write m a bs) = Inr () \<and> True \<and>
      mem_data (snd (mem_write m a bs)) = overwrite (mem_data m) (nat a) bs"
    by (simp add: mem_write_def check_bounds_in) (simp add: py_slice_assign_overwrite in_region_def)
qed

section \<open>What an operation may change\<close>

text \<open>The page counts and the size stay; only bytes inside the memory change.\<close>

definition same_shape :: "memory \<Rightarrow> memory \<Rightarrow> bool" where
  "same_shape m m' \<longleftrightarrow>
     mem_initial_pages m' = mem_initial_pages m \<and> mem_max_pages m' = mem_max_pages m \<and>
     mem_pages m' = mem_pages m \<and> length (mem_data m') = length (mem_data m)"

lemma same_shape_refl [simp]: "same_shape m m"
  by (simp add: same_shape_def)

lemma same_shape_overwrite:
  "in_region (mem_data m) a (ilen bs) \<Longrightarrow>
   same_shape m (m\<lparr>mem_data := overwrite (mem_data m) (nat a) bs\<rparr>)"
  by (auto simp: same_shape_def in_region_def)

lemma same_shape_packed:
  "(\<And>bs. r = Inr bs \<Longrightarrow> ilen bs = k) \<Longrightarrow> k = int n \<Longrightarrow>
   same_shape m (snd (guarded m (check_bounds m a k) (on_data m (pack_into (mem_data m) a [(n, r)]))))"
  by (cases r) (auto simp: store_window intro!: same_shape_overwrite)

lemma same_shape_byte:
  "same_shape m (snd (guarded m (check_bounds m a 1)
     (on_data m (bytearray_set (mem_data m) a (v AND 0xFF)))))"
  by (auto simp: store_byte intro!: same_shape_overwrite)

lemma same_shape_stores:
  "same_shape m (snd (store_i32 m a v))" "same_shape m (snd (store_i64 m a v))"
  "same_shape m (snd (store_f32 m a x))" "same_shape m (snd (store_f64 m a x))"
  "same_shape m (snd (store_i32_8 m a v))" "same_shape m (snd (store_i32_16 m a v))"
  "same_shape m (snd (store_i64_8 m a v))" "same_shape m (snd (store_i64_16 m a v))"
  "same_shape m (snd (store_i64_32 m a v))" "same_shape m (snd (set_byte m a v))"
  unfolding store_defs
  by (rule same_shape_packed same_shape_byte;
      auto dest: pack_sint_length pack_uint_length pack_f_length)+

text \<open>The bulk operations, as one formula each.\<close>

lemma mem_write_eq:
  "mem_write m a bs =
   (if in_region (mem_data m) a (ilen bs)
    then (Inr (), m\<lparr>mem_data := overwrite (mem_data m) (nat a) bs\<rparr>) else (Inl MemoryErr, m))"
  by (auto simp: mem_write_def check_bounds_def in_region_def py_slice_assign_overwrite)

lemma slice_assign_window:
  "in_region xs a (ilen ys) \<Longrightarrow> n = ilen ys \<Longrightarrow>
   py_slice_assign xs a (a + n) ys = overwrite xs (nat a) ys"
  by (simp add: py_slice_assign_overwrite in_region_def)

lemma slice_window: "in_region xs a n \<Longrightarrow> py_slice xs a (a + n) = window xs a n"
  by (simp add: py_slice_in in_region_def window_def)

lemma mem_copy_eq:
  assumes "0 \<le> count"
  shows "mem_copy m dest src count =
   (if in_region (mem_data m) dest count \<and> in_region (mem_data m) src count
    then (Inr (), m\<lparr>mem_data := overwrite (mem_data m) (nat dest) (window (mem_data m) src count)\<rparr>)
    else (Inl MemoryErr, m))"
proof (cases "in_region (mem_data m) dest count \<and> in_region (mem_data m) src count")
  case True
  then show ?thesis
    using assms by (auto simp: mem_copy_def check_bounds_in slice_window slice_assign_window
        window_def [of _ _ 0] order.order_iff_strict)
next
  case False
  then show ?thesis using assms by (auto simp: mem_copy_def check_bounds_in check_bounds_out)
qed

lemma mem_fill_eq:
  assumes "0 \<le> count"
  shows "mem_fill m dest value count =
   (if in_region (mem_data m) dest count
    then (Inr (), m\<lparr>mem_data := overwrite (mem_data m) (nat dest)
                     (replicate (nat count) (word_of_int (value mod 256)))\<rparr>)
    else (Inl MemoryErr, m))"
  using assms
  by (auto simp: mem_fill_def check_bounds_in check_bounds_out slice_assign_window py_repeat_def
      order.order_iff_strict)

lemma mem_init_eq:
  assumes "0 \<le> count" and "0 \<le> src_offset"
  shows "mem_init m dest data src_offset count =
   (if in_region (mem_data m) dest count \<and> in_region data src_offset count
    then (Inr (), m\<lparr>mem_data := overwrite (mem_data m) (nat dest) (window data src_offset count)\<rparr>)
    else (Inl MemoryErr, m))"
proof (cases "in_region (mem_data m) dest count \<and> in_region data src_offset count")
  case True
  moreover from this have "\<not> src_offset + count > ilen data" by (simp add: in_region_def)
  ultimately show ?thesis
    using assms by (auto simp: mem_init_def check_bounds_in slice_window slice_assign_window
        window_def [of _ _ 0] order.order_iff_strict)
next
  case False
  then show ?thesis using assms
    by (auto simp: mem_init_def check_bounds_in check_bounds_out in_region_def [of data])
qed

section \<open>Reading back what was stored\<close>

text \<open>The signed reading of the low \<open>k\<close> bits of an integer.\<close>

definition sext :: "nat \<Rightarrow> int \<Rightarrow> int" where
  "sext k v = (v + 2 ^ (k - 1)) mod 2 ^ k - 2 ^ (k - 1)"

lemma centered_mod:
  fixes h v :: int
  assumes "0 < h"
  shows "(v + h) mod (2 * h) - h = (if v mod (2 * h) < h then v mod (2 * h) else v mod (2 * h) - 2 * h)"
proof -
  let ?u = "v mod (2 * h)"
  have u: "0 \<le> ?u" "?u < 2 * h" using assms by simp_all
  have "(v + h) mod (2 * h) = (?u + h) mod (2 * h)" by (simp add: mod_add_left_eq)
  also have "\<dots> = (if ?u < h then ?u + h else ?u - h)"
  proof (cases "?u < h")
    case False
    have "(?u + h) mod (2 * h) = (?u - h + 2 * h) mod (2 * h)" by (simp add: algebra_simps)
    also have "\<dots> = (?u - h) mod (2 * h)" by (rule mod_add_self2)
    finally show ?thesis using False u by (simp add: mod_pos_pos_trivial)
  qed (use u in \<open>simp add: mod_pos_pos_trivial\<close>)
  finally show ?thesis by simp
qed

lemma unpack_le_bytes:
  "unpack_uint False (le_bytes n v) = v mod 256 ^ n"
  "unpack_sint False (le_bytes 2 v) = sext 16 v"
  "unpack_sint False (le_bytes 4 v) = sext 32 v"
  using centered_mod [of "2 ^ 15" v] centered_mod [of "2 ^ 31" v]
  by (simp_all add: unpack_uint_def unpack_sint_def byte_order_def le_int_le_bytes Let_def sext_def)

lemma le_bytes_mod: "n \<le> k \<Longrightarrow> le_bytes n (v mod 256 ^ k) = le_bytes n v"
proof -
  assume "n \<le> k"
  then have "le_int (le_bytes n (v mod 256 ^ k)) = le_int (le_bytes n v)"
    by (simp add: le_int_le_bytes mod_mod_cancel le_imp_power_dvd)
  then show ?thesis using le_bytes_le_int [of "le_bytes n (v mod 256 ^ k)"] le_bytes_le_int [of "le_bytes n v"]
    by simp
qed

lemma pack_uint_masked: "pack_uint False n (v mod 256 ^ n) = Inr (le_bytes n v)"
  by (simp add: pack_uint_def byte_order_def le_bytes_mod)

lemma window_stored:
  "in_region xs a (int n) \<Longrightarrow> length bs = n \<Longrightarrow> window (overwrite xs (nat a) bs) a (int n) = bs"
  using window_overwrite_same [of xs a bs] by simp

lemma nth_stored: "in_region xs a 1 \<Longrightarrow> overwrite xs (nat a) [b] ! nat a = b"
  by (auto simp: nth_overwrite in_region_def)

lemma in_region_stored:
  "in_region xs a (int n) \<Longrightarrow> length bs = n \<Longrightarrow>
   in_region (overwrite xs (nat a) bs) b k = in_region xs b k"
  by auto

lemmas stored_simps =
  window_stored [of _ _ 2, simplified] window_stored [of _ _ 4, simplified]
  window_stored [of _ _ 8, simplified] in_region_stored [of _ _ 2, simplified]
  in_region_stored [of _ _ 4, simplified] in_region_stored [of _ _ 8, simplified]
  in_region_stored [of _ _ 1, simplified] nth_stored

lemma uint_byte_wrap: "uint (word_of_int v :: byte) = v mod 256"
  by (simp add: uint_word_of_int)

lemma load_8s_value:
  assumes "in_region (mem_data m) a 1" and "uint (mem_data m ! nat a) = v mod 256"
  shows "load_i32_8s m a = Inr (sext 8 v mod 2 ^ 32)" "load_i64_8s m a = Inr (sext 8 v mod 2 ^ 64)"
proof -
  let ?u = "v mod 256"
  have s: "sext 8 v = (if ?u < 128 then ?u else ?u - 256)"
    using centered_mod [of "2 ^ 7" v] by (simp add: sext_def)
  have u: "0 \<le> ?u" "?u < 256" by simp_all
  have "(?u - 256) mod 2 ^ n = ?u - 256 + 2 ^ n" if "8 \<le> n" for n
  proof -
    have "(2 :: int) ^ 8 \<le> 2 ^ n" using that by (intro power_increasing) simp_all
    then have "(?u - 256 + 2 ^ n) mod 2 ^ n = ?u - 256 + 2 ^ n"
      using u by (intro mod_pos_pos_trivial) simp_all
    then show ?thesis by simp
  qed
  from this [of 32] this [of 64] show "load_i32_8s m a = Inr (sext 8 v mod 2 ^ 32)"
    "load_i64_8s m a = Inr (sext 8 v mod 2 ^ 64)"
    using assms u by (simp_all add: load_defs load_byte and_128_eq_0 s or_high_bits Let_def)
qed

section \<open>Reachable memories\<close>

text \<open>A call of a method that changes the memory, with any arguments, and the memory after it.\<close>

datatype mem_call =
    Call_grow int
  | Call_store_i32 int int
  | Call_store_i64 int int
  | Call_store_f32 int pyfloat
  | Call_store_f64 int pyfloat
  | Call_store_i32_8 int int
  | Call_store_i32_16 int int
  | Call_store_i64_8 int int
  | Call_store_i64_16 int int
  | Call_store_i64_32 int int
  | Call_copy int int int
  | Call_fill int int int
  | Call_init int bytes int int
  | Call_write int bytes
  | Call_set_byte int int
  | Call_set_bytes int bytes
  | Call_setitem mem_index mem_value

fun mem_do :: "mem_call \<Rightarrow> memory \<Rightarrow> memory" where
  "mem_do (Call_grow delta) m = snd (mem_grow m delta)"
| "mem_do (Call_store_i32 a v) m = snd (store_i32 m a v)"
| "mem_do (Call_store_i64 a v) m = snd (store_i64 m a v)"
| "mem_do (Call_store_f32 a x) m = snd (store_f32 m a x)"
| "mem_do (Call_store_f64 a x) m = snd (store_f64 m a x)"
| "mem_do (Call_store_i32_8 a v) m = snd (store_i32_8 m a v)"
| "mem_do (Call_store_i32_16 a v) m = snd (store_i32_16 m a v)"
| "mem_do (Call_store_i64_8 a v) m = snd (store_i64_8 m a v)"
| "mem_do (Call_store_i64_16 a v) m = snd (store_i64_16 m a v)"
| "mem_do (Call_store_i64_32 a v) m = snd (store_i64_32 m a v)"
| "mem_do (Call_copy dest src count) m = snd (mem_copy m dest src count)"
| "mem_do (Call_fill dest v count) m = snd (mem_fill m dest v count)"
| "mem_do (Call_init dest data src_offset count) m = snd (mem_init m dest data src_offset count)"
| "mem_do (Call_write a bs) m = snd (mem_write m a bs)"
| "mem_do (Call_set_byte a v) m = snd (set_byte m a v)"
| "mem_do (Call_set_bytes a bs) m = snd (set_bytes m a bs)"
| "mem_do (Call_setitem i v) m = snd (setitem m i v)"

text \<open>
  The calls that make data and page count disagree: growing by a negative number of pages that the memory has; an
  \<^verbatim>\<open>init\<close> that is not refused and takes its bytes from a negative offset of which Python finds less than \<open>count\<close>;
  and assigning to a slice as many bytes as it does not have.
\<close>

definition init_short :: "memory \<Rightarrow> int \<Rightarrow> bytes \<Rightarrow> int \<Rightarrow> int \<Rightarrow> bool" where
  "init_short m dest data src_offset count \<longleftrightarrow>
     in_region (mem_data m) dest count \<and> 0 < count \<and> src_offset < 0 \<and> src_offset + count \<le> ilen data \<and>
     (src_offset < - ilen data \<or> 0 \<le> src_offset + count)"

fun upsets :: "memory \<Rightarrow> mem_call \<Rightarrow> bool" where
  "upsets m (Call_grow delta) = (delta < 0 \<and> 0 \<le> mem_pages m + delta)"
| "upsets m (Call_init dest data src_offset count) = init_short m dest data src_offset count"
| "upsets m (Call_setitem (Slice a b) (BytesVal bs)) = (ilen bs \<noteq> ilen (py_slice (mem_data m) a b))"
| "upsets m _ = False"

fun calm :: "mem_call list \<Rightarrow> memory \<Rightarrow> bool" where
  "calm [] m = True"
| "calm (c # cs) m = (\<not> upsets m c \<and> calm cs (mem_do c m))"

definition mem_inv :: "memory \<Rightarrow> bool" where
  "mem_inv m \<longleftrightarrow>
     0 \<le> mem_initial_pages m \<and> mem_initial_pages m \<le> mem_pages m \<and>
     mem_pages m \<le> mem_max_pages m \<and> mem_max_pages m \<le> MAX_PAGES \<and>
     mem_size m = mem_pages m * WASM_PAGE_SIZE"

lemma same_shape_inv: "same_shape m m' \<Longrightarrow> mem_inv m' = mem_inv m"
  by (simp add: same_shape_def mem_inv_def mem_size_def)

text \<open>A bulk operation on a negative number of bytes is checked and changes nothing.\<close>

lemma bulk_none:
  assumes "count \<le> 0"
  shows "snd (mem_copy m dest src count) = m" "snd (mem_fill m dest v count) = m"
    "snd (mem_init m dest data src_offset count) = m"
  using assms by (auto simp: mem_copy_def mem_fill_def mem_init_def guarded_def split: sum.split)

lemma same_shape_bulk:
  "same_shape m (snd (mem_copy m dest src count))"
  "same_shape m (snd (mem_fill m dest v count))"
  "same_shape m (snd (mem_write m a bs))"
  by (cases "0 \<le> count"; auto simp: mem_copy_eq mem_fill_eq mem_write_eq bulk_none intro!: same_shape_overwrite)+

lemma slice_assign_length:
  "length (py_slice_assign xs a b ys) + length (py_slice xs a b) = length xs + length ys"
proof -
  have "py_clamp (length xs) i \<le> length xs" for i by (auto simp: py_clamp_def)
  from this [of a] this [of b] show ?thesis by (auto simp: py_slice_assign_def py_slice_def Let_def max_def)
qed

lemma init_slice_length:
  assumes "0 < count" and "src_offset + count \<le> ilen data"
  shows "ilen (py_slice data src_offset (src_offset + count)) = count \<longleftrightarrow>
    \<not> (src_offset < 0 \<and> (src_offset < - ilen data \<or> 0 \<le> src_offset + count))"
  using assms by (auto simp: py_slice_def py_clamp_def Let_def)

lemma init_inv:
  assumes "mem_inv m"
  shows "mem_inv (snd (mem_init m dest data src_offset count)) \<longleftrightarrow> \<not> init_short m dest data src_offset count"
proof (cases "0 < count \<and> in_region (mem_data m) dest count \<and> src_offset + count \<le> ilen data")
  case True
  define bs where "bs = py_slice data src_offset (src_offset + count)"
  define m' where "m' = m\<lparr>mem_data := py_slice_assign (mem_data m) dest (dest + count) bs\<rparr>"
  have m': "snd (mem_init m dest data src_offset count) = m'"
    using True by (simp add: mem_init_def check_bounds_in bs_def m'_def)
  have "ilen (py_slice (mem_data m) dest (dest + count)) = count"
    using True slice_window [of "mem_data m" dest count] by (auto simp: window_def in_region_def)
  then have "mem_size m' + count = mem_size m + ilen bs"
    using slice_assign_length [of "mem_data m" dest "dest + count" bs] by (simp add: mem_size_def m'_def)
  then have "mem_inv m' \<longleftrightarrow> ilen bs = count" using assms by (auto simp: mem_inv_def m'_def)
  then show ?thesis
    using init_slice_length [of count src_offset data] True by (simp add: m' bs_def init_short_def)
next
  case False
  then have "snd (mem_init m dest data src_offset count) = m"
    by (auto simp: mem_init_def guarded_def check_bounds_def in_region_def split: sum.split)
  then show ?thesis using False assms by (auto simp: init_short_def)
qed

lemma grow_inv:
  assumes "mem_inv m"
  shows "mem_inv (snd (mem_grow m delta)) \<longleftrightarrow> \<not> (delta < 0 \<and> 0 \<le> mem_pages m + delta)"
  using assms by (auto simp: mem_grow_def mem_inv_def mem_size_def Let_def WASM_PAGE_SIZE_def MAX_PAGES_def
      MAX_MEMORY_SIZE_def algebra_simps)

lemma setitem_inv:
  assumes "mem_inv m"
  shows "mem_inv (snd (setitem m i v)) \<longleftrightarrow> \<not> upsets m (Call_setitem i v)"
proof (cases i)
  case (At a)
  have "same_shape m (snd (setitem m (At a) v))"
    by (auto simp: setitem_def check_bounds_def guarded_def same_shape_stores split: mem_value.split)
  from same_shape_inv [OF this] assms show ?thesis by (simp add: At)
next
  case (Slice a b)
  show ?thesis
  proof (cases v)
    case (BytesVal bs)
    have "mem_inv (m\<lparr>mem_data := py_slice_assign (mem_data m) a b bs\<rparr>) \<longleftrightarrow> ilen bs = ilen (py_slice (mem_data m) a b)"
      using assms slice_assign_length [of "mem_data m" a b bs] by (auto simp: mem_inv_def mem_size_def)
    then show ?thesis by (simp add: Slice BytesVal setitem_def)
  qed (use assms in \<open>simp add: Slice setitem_def\<close>)
qed

lemma mem_do_inv:
  assumes "mem_inv m"
  shows "mem_inv (mem_do c m) \<longleftrightarrow> \<not> upsets m c"
proof (cases c)
  case (Call_setitem i v)
  then show ?thesis using setitem_inv [OF assms] by simp
qed (use assms in \<open>simp_all add: grow_inv init_inv set_bytes_def same_shape_inv [OF same_shape_stores(1)]
    same_shape_inv [OF same_shape_stores(2)] same_shape_inv [OF same_shape_stores(3)]
    same_shape_inv [OF same_shape_stores(4)] same_shape_inv [OF same_shape_stores(5)]
    same_shape_inv [OF same_shape_stores(6)] same_shape_inv [OF same_shape_stores(7)]
    same_shape_inv [OF same_shape_stores(8)] same_shape_inv [OF same_shape_stores(9)]
    same_shape_inv [OF same_shape_stores(10)] same_shape_inv [OF same_shape_bulk(1)]
    same_shape_inv [OF same_shape_bulk(2)] same_shape_inv [OF same_shape_bulk(3)]\<close>)

lemma calm_inv: "mem_inv m \<Longrightarrow> calm cs m \<Longrightarrow> mem_inv (fold mem_do cs m)"
  by (induction cs arbitrary: m) (simp_all add: mem_do_inv)

lemma memory_new_inv:
  "memory_new i mx = Inr m \<Longrightarrow> mem_inv m \<longleftrightarrow> i \<le> MAX_PAGES"
  by (auto simp: memory_new_def mem_inv_def mem_size_def MAX_PAGES_def WASM_PAGE_SIZE_def Let_def
      split: option.splits if_splits)

text \<open>
  C29. The size invariant of the linear memory, and which calls break it.  The invariant: the data is exactly
  \<open>pages\<close> pages long, and the page count stays between its initial value and its maximum, which is at most
  \<open>65536\<close>.  It holds for a memory created with at most \<open>MAX_PAGES\<close> pages and after any sequence of calls with any
  arguments, successful or not, in which no call \<open>upsets\<close> the memory it meets; and the next call breaks it exactly if
  it upsets it: growing by a negative amount down to no less than zero pages, an \<^verbatim>\<open>init\<close> that is not refused whose
  source offset is negative and reaches back beyond the segment or forward to its start, and the assignment of
  bytes to a slice of another length.
\<close>
theorem memory_invariant:
  assumes "memory_new initial_pages max_pages = Inr m" and "initial_pages \<le> MAX_PAGES" and "calm cs m"
  shows "mem_inv (fold mem_do cs m) \<and>
    (\<forall>c. mem_inv (mem_do c (fold mem_do cs m)) \<longleftrightarrow> \<not> upsets (fold mem_do cs m) c)"
proof -
  have "mem_inv m" using memory_new_inv [OF assms(1)] assms(2) by simp
  from calm_inv [OF this assms(3)] show ?thesis by (simp add: mem_do_inv)
qed

text \<open>A page, a store in it, and an \<^verbatim>\<open>init\<close> of two bytes from five bytes before the end of a segment of one.\<close>

theorem memory_invariant_witness:
  "let m = \<lparr>mem_initial_pages = 0, mem_max_pages = 2, mem_pages = 0, mem_data = []\<rparr>;
       m' = fold mem_do [Call_store_i32 0 7, Call_grow 1] m
   in mem_inv m' \<and> mem_pages m' = 1 \<and> \<not> mem_inv (mem_do (Call_init 1 [9] (- 5) 2) m')"
proof -
  let ?m = "\<lparr>mem_initial_pages = 0, mem_max_pages = 2, mem_pages = 0, mem_data = []\<rparr>"
  have new: "memory_new 0 (Some 2) = Inr ?m"
    by (simp add: memory_new_def MAX_PAGES_def py_repeat_def)
  have "snd (store_i32 ?m 0 7) = ?m" by (simp add: store_i32_def guarded_def check_bounds_def)
  then have run: "fold mem_do [Call_store_i32 0 7, Call_grow 1] ?m =
      ?m\<lparr>mem_pages := 1, mem_data := replicate 65536 0\<rparr>"
    by (simp add: mem_grow_def Let_def py_repeat_def WASM_PAGE_SIZE_def MAX_MEMORY_SIZE_def MAX_PAGES_def)
  have "calm [Call_store_i32 0 7, Call_grow 1] ?m" by simp
  from memory_invariant [OF new _ this]
  have inv: "mem_inv (fold mem_do [Call_store_i32 0 7, Call_grow 1] ?m)"
    "\<And>c. mem_inv (mem_do c (fold mem_do [Call_store_i32 0 7, Call_grow 1] ?m)) \<longleftrightarrow>
      \<not> upsets (fold mem_do [Call_store_i32 0 7, Call_grow 1] ?m) c"
    by (simp_all add: MAX_PAGES_def)
  have "upsets (?m\<lparr>mem_pages := 1, mem_data := replicate 65536 0\<rparr>) (Call_init 1 [9] (- 5) 2)"
    by (simp add: init_short_def in_region_def)
  with inv show ?thesis unfolding Let_def run by (simp del: mem_do.simps)
qed

section \<open>Bounds checks\<close>

text \<open>
  A load of \<open>n\<close> bytes answers exactly inside the memory; a store of \<open>n\<close> bytes changes nothing
  outside its window, whether it succeeds or raises.
\<close>

definition load_checked :: "memory \<Rightarrow> int \<Rightarrow> (int \<Rightarrow> 'a result) \<Rightarrow> bool" where
  "load_checked m n ld \<longleftrightarrow>
     (\<forall>a. if in_region (mem_data m) a n then \<exists>v. ld a = Inr v else ld a = Inl MemoryErr)"

definition store_checked :: "memory \<Rightarrow> int \<Rightarrow> (int \<Rightarrow> unit result \<times> memory) \<Rightarrow> bool" where
  "store_checked m n st \<longleftrightarrow>
     (\<forall>a. if in_region (mem_data m) a n
          then fst (st a) \<noteq> Inl MemoryErr \<and> same_shape m (snd (st a)) \<and>
            (\<forall>b k. in_region (mem_data m) b k \<and> (b + k \<le> a \<or> a + n \<le> b) \<longrightarrow>
               window (mem_data (snd (st a))) b k = window (mem_data m) b k)
          else st a = (Inl MemoryErr, m))"

lemma load_checked_window:
  "k = int n \<Longrightarrow> load_checked m k (\<lambda>a. res_bind (check_bounds m a k) (\<lambda>_.
     res_bind (unpack_from (mem_data m) a n) (\<lambda>bs. Inr (f bs))))"
  by (simp add: load_checked_def load_window)

lemma load_checked_byte:
  "load_checked m 1 (\<lambda>a. res_bind (check_bounds m a 1) (\<lambda>_.
     res_bind (py_index (mem_data m) a) (\<lambda>b. Inr (f b))))"
  by (simp add: load_checked_def load_byte)

lemma store_checked_packed:
  assumes "\<And>bs. r = Inr bs \<Longrightarrow> length bs = n" and "r \<noteq> Inl MemoryErr" and "k = int n"
  shows "store_checked m k
    (\<lambda>a. guarded m (check_bounds m a k) (on_data m (pack_into (mem_data m) a [(n, r)])))"
proof -
  let ?st = "\<lambda>a. guarded m (check_bounds m a k) (on_data m (pack_into (mem_data m) a [(n, r)]))"
  have "\<exists>x bs. x \<noteq> Inl MemoryErr \<and> ilen bs = k \<and>
      ?st a = (x, m\<lparr>mem_data := overwrite (mem_data m) (nat a) bs\<rparr>)"
    if "in_region (mem_data m) a k" for a
  proof (cases r)
    case (Inl e)
    with that assms show ?thesis
      by (intro exI [of _ "Inl e"] exI [of _ "replicate n 0"]) (auto simp: store_window)
  next
    case (Inr bs)
    with that assms show ?thesis
      by (intro exI [of _ "Inr ()"] exI [of _ bs]) (auto simp: store_window)
  qed
  note ex = this
  have out: "?st a = (Inl MemoryErr, m)" if "\<not> in_region (mem_data m) a k" for a
    using that assms(3) by (simp add: store_window)
  show ?thesis
    unfolding store_checked_def
  proof (intro allI)
    fix a
    show "if in_region (mem_data m) a k
      then fst (?st a) \<noteq> Inl MemoryErr \<and> same_shape m (snd (?st a)) \<and>
        (\<forall>b j. in_region (mem_data m) b j \<and> (b + j \<le> a \<or> a + k \<le> b) \<longrightarrow>
           window (mem_data (snd (?st a))) b j = window (mem_data m) b j)
      else ?st a = (Inl MemoryErr, m)"
    proof (cases "in_region (mem_data m) a k")
      case True
      then obtain x bs where "x \<noteq> Inl MemoryErr" "k = ilen bs"
        "?st a = (x, m\<lparr>mem_data := overwrite (mem_data m) (nat a) bs\<rparr>)"
        using ex by metis
      then show ?thesis
        using True by (simp add: same_shape_overwrite window_overwrite_disjoint)
    next
      case False
      then show ?thesis by (simp only: out [OF False] if_False)
    qed
  qed
qed

lemma store_checked_byte:
  "store_checked m 1
    (\<lambda>a. guarded m (check_bounds m a 1) (on_data m (bytearray_set (mem_data m) a (v mod 256))))"
  by (auto simp: store_checked_def store_byte same_shape_overwrite window_overwrite_disjoint)

lemma pack_no_memory_error:
  "pack_sint big n v \<noteq> Inl MemoryErr" "pack_uint big n v \<noteq> Inl MemoryErr"
  "pack_f big x \<noteq> Inl MemoryErr"
  by (auto simp: pack_sint_def pack_uint_def pack_f_def f32_of_f64_def Let_def)

text \<open>
  Memory safety: each of the fourteen loads answers when its bytes lie inside the memory and
  raises \<^verbatim>\<open>MemoryError\<close> when they do not; each of the ten stores raises \<^verbatim>\<open>MemoryError\<close> and
  leaves the memory as it was when its window sticks out, and otherwise changes no byte outside the
  window and no page count, even when \<^verbatim>\<open>struct\<close> raises.
\<close>
theorem memory_access_checked:
  "load_checked m 4 (load_i32 m) \<and> load_checked m 8 (load_i64 m) \<and>
   load_checked m 4 (load_f32 m) \<and> load_checked m 8 (load_f64 m) \<and>
   load_checked m 1 (load_i32_8s m) \<and> load_checked m 1 (load_i32_8u m) \<and>
   load_checked m 2 (load_i32_16s m) \<and> load_checked m 2 (load_i32_16u m) \<and>
   load_checked m 1 (load_i64_8s m) \<and> load_checked m 1 (load_i64_8u m) \<and>
   load_checked m 2 (load_i64_16s m) \<and> load_checked m 2 (load_i64_16u m) \<and>
   load_checked m 4 (load_i64_32s m) \<and> load_checked m 4 (load_i64_32u m) \<and>
   store_checked m 4 (\<lambda>a. store_i32 m a v) \<and> store_checked m 8 (\<lambda>a. store_i64 m a v) \<and>
   store_checked m 4 (\<lambda>a. store_f32 m a x) \<and> store_checked m 8 (\<lambda>a. store_f64 m a x) \<and>
   store_checked m 1 (\<lambda>a. store_i32_8 m a v) \<and> store_checked m 2 (\<lambda>a. store_i32_16 m a v) \<and>
   store_checked m 1 (\<lambda>a. store_i64_8 m a v) \<and> store_checked m 2 (\<lambda>a. store_i64_16 m a v) \<and>
   store_checked m 4 (\<lambda>a. store_i64_32 m a v) \<and> store_checked m 1 (\<lambda>a. set_byte m a v)"
  unfolding load_defs store_defs and_255 Let_def
  by (intro conjI load_checked_window load_checked_byte store_checked_byte store_checked_packed)
    (auto simp: pack_no_memory_error dest: pack_sint_length pack_uint_length pack_f_length)

section \<open>Stores and loads\<close>

lemma pack_sint_masked:
  "0 < n \<Longrightarrow> pack_sint False n (v mod 256 ^ n) =
    (if v mod 256 ^ n < 256 ^ n div 2 then Inr (le_bytes n v) else Inl StructError)"
  using even_256_power [of n]
  by (auto simp: pack_sint_def byte_order_def le_bytes_mod intro: order_trans [of _ 0])

lemma unpack_sint_small:
  "v mod 256 ^ n < 256 ^ n div 2 \<Longrightarrow> unpack_sint False (le_bytes n v) = v mod 256 ^ n"
  by (simp add: unpack_sint_def byte_order_def le_int_le_bytes)

lemma store_i32_eq:
  "in_region (mem_data m) a 4 \<Longrightarrow>
   store_i32 m a v =
   (if v mod 2 ^ 32 < 2 ^ 31
    then (Inr (), m\<lparr>mem_data := overwrite (mem_data m) (nat a) (le_bytes 4 v)\<rparr>)
    else (Inl StructError, m\<lparr>mem_data := overwrite (mem_data m) (nat a) (replicate 4 0)\<rparr>))"
  using pack_sint_masked [of 4 v] by (simp add: store_i32_def store_window and_mask_mod)

lemma store_i64_eq:
  "in_region (mem_data m) a 8 \<Longrightarrow>
   store_i64 m a v =
   (if v mod 2 ^ 64 < 2 ^ 63
    then (Inr (), m\<lparr>mem_data := overwrite (mem_data m) (nat a) (le_bytes 8 v)\<rparr>)
    else (Inl StructError, m\<lparr>mem_data := overwrite (mem_data m) (nat a) (replicate 8 0)\<rparr>))"
  using pack_sint_masked [of 8 v] by (simp add: store_i64_def store_window and_mask_mod)

text \<open>
  Storing a full-width integer: \<^verbatim>\<open>store_i32\<close> and \<^verbatim>\<open>store_i64\<close> work exactly when the sign bit
  of the value is clear, and then the load at the same address returns the value modulo the width.
  When the sign bit is set (every negative number in particular) they raise \<^verbatim>\<open>struct.error\<close>,
  because the masked value is packed as a signed one, and the window is left cleared.
\<close>
theorem store_integer_exact:
  "(in_region (mem_data m) a 4 \<longrightarrow>
     (if v mod 2 ^ 32 < 2 ^ 31
      then fst (store_i32 m a v) = Inr () \<and> load_i32 (snd (store_i32 m a v)) a = Inr (v mod 2 ^ 32)
      else fst (store_i32 m a v) = Inl StructError \<and> load_i32 (snd (store_i32 m a v)) a = Inr 0)) \<and>
   (in_region (mem_data m) a 8 \<longrightarrow>
     (if v mod 2 ^ 64 < 2 ^ 63
      then fst (store_i64 m a v) = Inr () \<and> load_i64 (snd (store_i64 m a v)) a = Inr (v mod 2 ^ 64)
      else fst (store_i64 m a v) = Inl StructError \<and> load_i64 (snd (store_i64 m a v)) a = Inr 0))"
proof -
  have z: "unpack_sint False (replicate n 0) = 0" if "0 < n" for n
  proof -
    have "le_int (replicate n 0) = 0" by (induction n) simp_all
    moreover have "(0 :: int) < 256 ^ n div 2"
      using even_256_power [OF that] zero_less_power [of "256 :: int" n] by linarith
    ultimately show ?thesis by (auto simp: unpack_sint_def byte_order_def Let_def)
  qed
  show ?thesis
    using unpack_sint_small [of v 4] unpack_sint_small [of v 8]
    by (simp add: store_i32_eq store_i64_eq load_in stored_simps z)
qed

theorem store_integer_exact_witness:
  "fst (store_i32 \<lparr>mem_initial_pages = 0, mem_max_pages = 0, mem_pages = 0,
      mem_data = replicate 8 7\<rparr> 2 (- 1)) = Inl StructError"
  using store_integer_exact [of "\<lparr>mem_initial_pages = 0, mem_max_pages = 0, mem_pages = 0,
      mem_data = replicate 8 7\<rparr>" 2 "- 1"]
  by (simp add: in_region_def)

text \<open>
  The narrow stores keep exactly the low bits, and the loads extend them: zero extension gives
  the value modulo the width, the signed 16- and 32-bit loads give the sign-extended value as a
  negative integer, while the signed 8-bit loads give it as the unsigned 32- or 64-bit pattern.
\<close>
theorem narrow_store_load:
  "(in_region (mem_data m) a 1 \<longrightarrow>
      load_i32_8u (snd (store_i32_8 m a v)) a = Inr (v mod 2 ^ 8) \<and>
      load_i64_8u (snd (store_i64_8 m a v)) a = Inr (v mod 2 ^ 8) \<and>
      load_i32_8s (snd (store_i32_8 m a v)) a = Inr (sext 8 v mod 2 ^ 32) \<and>
      load_i64_8s (snd (store_i64_8 m a v)) a = Inr (sext 8 v mod 2 ^ 64)) \<and>
   (in_region (mem_data m) a 2 \<longrightarrow>
      load_i32_16u (snd (store_i32_16 m a v)) a = Inr (v mod 2 ^ 16) \<and>
      load_i64_16u (snd (store_i64_16 m a v)) a = Inr (v mod 2 ^ 16) \<and>
      load_i32_16s (snd (store_i32_16 m a v)) a = Inr (sext 16 v) \<and>
      load_i64_16s (snd (store_i64_16 m a v)) a = Inr (sext 16 v)) \<and>
   (in_region (mem_data m) a 4 \<longrightarrow>
      load_i64_32u (snd (store_i64_32 m a v)) a = Inr (v mod 2 ^ 32) \<and>
      load_i64_32s (snd (store_i64_32 m a v)) a = Inr (sext 32 v))"
  using pack_uint_masked [of 2 v] pack_uint_masked [of 4 v]
  by (simp add: store_defs store_byte store_window and_mask_mod stored_simps uint_byte_wrap
      load_8s_value [of _ _ v] load_in unpack_le_bytes)

theorem narrow_store_load_witness:
  "load_i32_8s (snd (store_i32_8 \<lparr>mem_initial_pages = 0, mem_max_pages = 0, mem_pages = 0,
      mem_data = [1, 2, 3]\<rparr> 1 (- 2))) 1 = Inr 0xFFFFFFFE \<and>
   load_i32_16s (snd (store_i32_16 \<lparr>mem_initial_pages = 0, mem_max_pages = 0, mem_pages = 0,
      mem_data = [1, 2, 3]\<rparr> 1 (- 2))) 1 = Inr (- 2)"
  using narrow_store_load [of "\<lparr>mem_initial_pages = 0, mem_max_pages = 0, mem_pages = 0,
      mem_data = [1, 2, 3]\<rparr>" 1 "- 2"]
  by (simp add: in_region_def sext_def)

text \<open>
  Floating point: a double survives \<^verbatim>\<open>store_f64\<close> and \<^verbatim>\<open>load_f64\<close> bit for bit; a value stored
  with \<^verbatim>\<open>store_f32\<close> is read back rounded to single precision, without any change if it is a single
  already, and a finite value that rounds out of range raises \<^verbatim>\<open>OverflowError\<close>.
\<close>
theorem float_store_load:
  "(in_region (mem_data m) a 8 \<longrightarrow>
      fst (store_f64 m a x) = Inr () \<and> load_f64 (snd (store_f64 m a x)) a = Inr x) \<and>
   (in_region (mem_data m) a 4 \<longrightarrow>
      (case round_f32 x of
         Inr y \<Rightarrow> fst (store_f32 m a x) = Inr () \<and> load_f32 (snd (store_f32 m a x)) a = Inr y
       | Inl e \<Rightarrow> e = OverflowError \<and> fst (store_f32 m a x) = Inl OverflowError) \<and>
      (\<forall>w. \<not> f32_is_nan w \<longrightarrow> load_f32 (snd (store_f32 m a (f64_of_f32 w))) a = Inr (f64_of_f32 w)))"
proof -
  have f64: "fst (store_f64 m a x) = Inr () \<and> load_f64 (snd (store_f64 m a x)) a = Inr x"
    if "in_region (mem_data m) a 8"
    using that by (simp add: store_f64_def store_window load_in stored_simps unpack_pack_d)
  have ok: "fst (store_f32 m a y) = Inr () \<and> load_f32 (snd (store_f32 m a y)) a = Inr (f64_of_f32 w)"
    if "in_region (mem_data m) a 4" "f32_of_f64 y = Inr w" for y w
    using that unpack_pack_f [OF that(2), of False]
    by (simp add: store_f32_def store_window load_in stored_simps)
  have bad: "e = OverflowError \<and> fst (store_f32 m a x) = Inl OverflowError"
    if "in_region (mem_data m) a 4" "f32_of_f64 x = Inl e" for e
  proof -
    have "e = OverflowError" using that(2) by (auto simp: f32_of_f64_def Let_def split: if_splits)
    then show ?thesis using that by (simp add: store_f32_def store_window pack_f_def)
  qed
  show ?thesis
    using f64 ok bad f32_of_f64_of_f32
    by (cases "f32_of_f64 x") (auto simp: round_f32_def)
qed

theorem float_store_load_witness:
  "load_f64 (snd (store_f64 \<lparr>mem_initial_pages = 0, mem_max_pages = 0, mem_pages = 0,
      mem_data = replicate 8 7\<rparr> 0 0x3FF8000000000000)) 0 = Inr 0x3FF8000000000000"
  using float_store_load [of "\<lparr>mem_initial_pages = 0, mem_max_pages = 0, mem_pages = 0,
      mem_data = replicate 8 7\<rparr>" 0 "0x3FF8000000000000"]
  by (simp add: in_region_def)

section \<open>Bulk operations, growth and the atomic addition\<close>

text \<open>
  \<^verbatim>\<open>memory.copy\<close> is a \<^emph>\<open>move\<close>: with both ranges inside the memory it succeeds, and every
  byte of the destination range holds what the source range held before the call, however the
  ranges overlap; all other bytes are unchanged.  With a range that sticks out it raises
  \<^verbatim>\<open>MemoryError\<close> and changes nothing.
\<close>
theorem memory_copy_moves:
  assumes "0 \<le> count"
  shows "if in_region (mem_data m) dest count \<and> in_region (mem_data m) src count
    then fst (mem_copy m dest src count) = Inr () \<and>
      same_shape m (snd (mem_copy m dest src count)) \<and>
      (\<forall>k < length (mem_data m).
        mem_data (snd (mem_copy m dest src count)) ! k =
          (if dest \<le> int k \<and> int k < dest + count
           then mem_data m ! nat (src + (int k - dest)) else mem_data m ! k))
    else mem_copy m dest src count = (Inl MemoryErr, m)"
proof (cases "in_region (mem_data m) dest count \<and> in_region (mem_data m) src count")
  case True
  let ?w = "window (mem_data m) src count"
  have len: "ilen ?w = count" using True by simp
  have "overwrite (mem_data m) (nat dest) ?w ! k =
      (if dest \<le> int k \<and> int k < dest + count
       then mem_data m ! nat (src + (int k - dest)) else mem_data m ! k)"
    if "k < length (mem_data m)" for k
  proof -
    have i: "nat dest + length ?w \<le> length (mem_data m)" using True len by (auto simp: in_region_def)
    have "?w ! (k - nat dest) = mem_data m ! nat (src + (int k - dest))"
      if "dest \<le> int k" "int k < dest + count"
      using True that by (subst nth_window) (auto simp: in_region_def nat_add_distrib nat_diff_distrib
          intro!: arg_cong [of _ _ "(!) (mem_data m)"])
    moreover have "(nat dest \<le> k \<and> k < nat dest + length ?w) = (dest \<le> int k \<and> int k < dest + count)"
      using True len by (simp add: in_region_def) linarith
    ultimately show ?thesis by (simp add: nth_overwrite [OF i that])
  qed
  moreover have "same_shape m (m\<lparr>mem_data := overwrite (mem_data m) (nat dest) ?w\<rparr>)"
    using True len by (simp add: same_shape_overwrite)
  ultimately show ?thesis
    using True assms by (simp add: mem_copy_eq)
next
  case False
  then show ?thesis by (simp only: mem_copy_eq [OF assms] if_False)
qed

theorem memory_copy_moves_witness:
  "mem_data (snd (mem_copy \<lparr>mem_initial_pages = 0, mem_max_pages = 0, mem_pages = 0,
      mem_data = [1, 2, 3, 4]\<rparr> 1 0 3)) ! 3 = 3"
proof -
  let ?m = "\<lparr>mem_initial_pages = 0, mem_max_pages = 0, mem_pages = 0, mem_data = [1, 2, 3, 4]\<rparr>"
  have r: "in_region (mem_data ?m) 1 3" "in_region (mem_data ?m) 0 3" by (simp_all add: in_region_def)
  have "\<forall>k < 4. mem_data (snd (mem_copy ?m 1 0 3)) ! k =
      (if 1 \<le> int k \<and> int k < 1 + 3 then mem_data ?m ! nat (0 + (int k - 1)) else mem_data ?m ! k)"
    using memory_copy_moves [of 3 ?m 1 0] r by simp
  then show ?thesis by simp
qed

text \<open>
  Filling and initialising: \<^verbatim>\<open>fill\<close> writes the low byte of the value over the range;
  \<^verbatim>\<open>init\<close> from a non-negative offset copies that part of the segment, and is refused when either
  range sticks out.  From a negative offset that stays below zero \<^verbatim>\<open>init\<close> is not refused: Python
  counts the offset from the end of the segment, and an offset further back than the segment is long
  copies too little, so that the memory itself becomes shorter.
\<close>
theorem memory_fill_init:
  assumes "0 \<le> count"
  shows "mem_fill m dest value count =
      (if in_region (mem_data m) dest count
       then (Inr (), m\<lparr>mem_data := overwrite (mem_data m) (nat dest)
              (replicate (nat count) (word_of_int (value mod 256)))\<rparr>)
       else (Inl MemoryErr, m)) \<and>
    (0 \<le> src_offset \<longrightarrow> mem_init m dest data src_offset count =
      (if in_region (mem_data m) dest count \<and> in_region data src_offset count
       then (Inr (), m\<lparr>mem_data := overwrite (mem_data m) (nat dest) (window data src_offset count)\<rparr>)
       else (Inl MemoryErr, m))) \<and>
    (0 < count \<and> in_region (mem_data m) dest count \<and> src_offset + count < - ilen data \<longrightarrow>
      fst (mem_init m dest data src_offset count) = Inr () \<and>
      mem_size (snd (mem_init m dest data src_offset count)) = mem_size m - count)"
proof (intro conjI impI)
  assume neg: "0 < count \<and> in_region (mem_data m) dest count \<and> src_offset + count < - ilen data"
  then have "py_slice data src_offset (src_offset + count) = []"
    by (simp add: py_slice_def py_clamp_def)
  moreover have "\<not> src_offset + count > ilen data" using neg by linarith
  moreover have "mem_size (m\<lparr>mem_data := py_slice_assign (mem_data m) dest (dest + count) []\<rparr>) =
      mem_size m - count"
    using neg by (auto simp: mem_size_def in_region_def py_slice_assign_in nat_add_distrib)
  ultimately show "fst (mem_init m dest data src_offset count) = Inr ()"
    "mem_size (snd (mem_init m dest data src_offset count)) = mem_size m - count"
    using neg by (simp_all add: mem_init_def check_bounds_in)
qed (use assms in \<open>simp_all add: mem_fill_eq mem_init_eq\<close>)

theorem memory_fill_init_witness:
  "mem_size (snd (mem_init \<lparr>mem_initial_pages = 0, mem_max_pages = 0, mem_pages = 0,
      mem_data = [1, 2, 3, 4]\<rparr> 1 [9] (- 5) 2)) = 2"
  using memory_fill_init [of 2 "\<lparr>mem_initial_pages = 0, mem_max_pages = 0, mem_pages = 0,
      mem_data = [1, 2, 3, 4]\<rparr>" 1 0 "- 5" "[9]"]
  by (simp add: in_region_def mem_size_def)

text \<open>
  \<^verbatim>\<open>memory.grow\<close> on a well-formed memory: by a non-negative amount it either raises
  \<^verbatim>\<open>MemoryError\<close> and changes nothing, exactly when the maximum would be exceeded, or returns the
  old page count, keeps all bytes and appends zeroed pages.  By a negative amount that leaves the
  page count non-negative it lowers the page count without releasing any byte, so that page count
  and size disagree afterwards; below zero it returns \<open>-1\<close>.
\<close>
theorem memory_grow_behaviour:
  assumes "mem_inv m"
  shows "mem_grow m delta =
    (if mem_pages m + delta > mem_max_pages m then (Inl MemoryErr, m)
     else if mem_pages m + delta < 0 then (Inr (- 1), m)
     else (Inr (mem_pages m),
       m\<lparr>mem_pages := mem_pages m + delta,
         mem_data := mem_data m @ replicate (nat (delta * 65536)) 0\<rparr>)) \<and>
    (- mem_pages m \<le> delta \<and> delta < 0 \<longrightarrow> \<not> mem_inv (snd (mem_grow m delta)))"
proof -
  have max: "\<not> mem_pages m + delta > mem_max_pages m \<Longrightarrow>
      \<not> (mem_pages m + delta) * WASM_PAGE_SIZE > MAX_MEMORY_SIZE"
    using assms by (simp add: mem_inv_def MAX_MEMORY_SIZE_def MAX_PAGES_def WASM_PAGE_SIZE_def)
  have eq: "mem_grow m delta =
    (if mem_pages m + delta > mem_max_pages m then (Inl MemoryErr, m)
     else if mem_pages m + delta < 0 then (Inr (- 1), m)
     else (Inr (mem_pages m),
       m\<lparr>mem_pages := mem_pages m + delta,
         mem_data := mem_data m @ replicate (nat (delta * 65536)) 0\<rparr>))"
    using assms max
    by (auto simp: mem_grow_def Let_def WASM_PAGE_SIZE_def py_repeat_def mem_inv_def)
  moreover have "\<not> mem_inv (snd (mem_grow m delta))" if "- mem_pages m \<le> delta \<and> delta < 0"
    using that assms unfolding eq by (auto simp: mem_inv_def mem_size_def WASM_PAGE_SIZE_def)
  ultimately show ?thesis by blast
qed

theorem memory_grow_behaviour_witness:
  "mem_grow \<lparr>mem_initial_pages = 0, mem_max_pages = 1, mem_pages = 0, mem_data = []\<rparr> 2 =
    (Inl MemoryErr, \<lparr>mem_initial_pages = 0, mem_max_pages = 1, mem_pages = 0, mem_data = []\<rparr>)"
  using memory_grow_behaviour [of
      "\<lparr>mem_initial_pages = 0, mem_max_pages = 1, mem_pages = 0, mem_data = []\<rparr>" 2]
  by (simp add: mem_inv_def mem_size_def MAX_PAGES_def)

text \<open>
  \<^verbatim>\<open>atomic_rmw_add\<close>: when the 32-bit sum has its sign bit clear, it returns the previous value
  and the cell holds the sum modulo \<open>2^32\<close>; otherwise it raises and the cell has lost its value.
\<close>
theorem atomic_rmw_add_behaviour:
  assumes "in_region (mem_data (sh_memory s)) a 4" and "load_i32 (sh_memory s) a = Inr prev"
  shows "if (prev + v) mod 2 ^ 32 < 2 ^ 31
    then fst (atomic_rmw_add s a v) = Inr prev \<and>
      atomic_load_i32 (snd (atomic_rmw_add s a v)) a = Inr ((prev + v) mod 2 ^ 32)
    else fst (atomic_rmw_add s a v) = Inl StructError \<and>
      mem_data (sh_memory (snd (atomic_rmw_add s a v))) =
        overwrite (mem_data (sh_memory s)) (nat a) (replicate 4 0)"
  using assms unpack_sint_small [of "prev + v" 4] le_bytes_mod [of 4 4 "prev + v"]
  by (simp add: atomic_rmw_add_def atomic_load_i32_def store_i32_eq and_mask_mod load_in stored_simps)

theorem atomic_rmw_add_behaviour_witness:
  "fst (atomic_rmw_add \<lparr>sh_memory = \<lparr>mem_initial_pages = 0, mem_max_pages = 0, mem_pages = 0,
      mem_data = [5, 0, 0, 0]\<rparr>, sh_is_shared = True\<rparr> 0 3) = Inr 5"
  using atomic_rmw_add_behaviour [of "\<lparr>sh_memory = \<lparr>mem_initial_pages = 0, mem_max_pages = 0,
      mem_pages = 0, mem_data = [5, 0, 0, 0]\<rparr>, sh_is_shared = True\<rparr>" 0 5 3]
  by (simp add: in_region_def load_in window_def unpack_sint_def byte_order_def)

end
