(* ===== verification/WasmTables.thy ===== *)
theory WasmTables
  imports Region
begin

text \<open>
  The tables of the WebAssembly engine, \<^verbatim>\<open>wasm/src/engine/tables.py\<close>: \<^verbatim>\<open>Table\<close> with all its
  methods, the two specialised tables and the factory functions.  An element is a reference or
  \<^verbatim>\<open>None\<close>.
\<close>

section \<open>The state and the operations\<close>

record 'a table =
  tbl_elem_type :: int
  tbl_initial_size :: int
  tbl_max_size :: "int option"
  tbl_elements :: "'a option list"

definition table_new ::
  "int \<Rightarrow> int \<Rightarrow> int option \<Rightarrow> 'a option \<Rightarrow> 'a table result" where
  "table_new elem_type initial_size max_size init_value =
     (if initial_size < 0 then Inl TableErr
      else if (case max_size of None \<Rightarrow> False | Some mx \<Rightarrow> initial_size > mx) then Inl TableErr
      else Inr \<lparr>tbl_elem_type = elem_type, tbl_initial_size = initial_size,
                tbl_max_size = max_size, tbl_elements = py_repeat init_value initial_size\<rparr>)"

definition table_size :: "'a table \<Rightarrow> int" where
  "table_size t = ilen (tbl_elements t)"

definition table_get :: "'a table \<Rightarrow> int \<Rightarrow> 'a option result" where
  "table_get t index =
     (if index < 0 \<or> index \<ge> ilen (tbl_elements t) then Inl TableErr
      else py_index (tbl_elements t) index)"

text \<open>A statement that works on \<^verbatim>\<open>self._elements\<close>.\<close>

definition on_elements :: "'a table \<Rightarrow> unit result \<times> 'a option list \<Rightarrow> unit result \<times> 'a table" where
  "on_elements t p = (fst p, t\<lparr>tbl_elements := snd p\<rparr>)"

definition table_set :: "'a table \<Rightarrow> int \<Rightarrow> 'a option \<Rightarrow> unit result \<times> 'a table" where
  "table_set t index value =
     (if index < 0 \<or> index \<ge> ilen (tbl_elements t) then (Inl TableErr, t)
      else on_elements t (for_loop (\<lambda>i xs. py_update xs i value) [index] (tbl_elements t)))"

definition table_grow :: "'a table \<Rightarrow> int \<Rightarrow> 'a option \<Rightarrow> int result \<times> 'a table" where
  "table_grow t delta init_value =
     (if delta = 0 then (Inr (table_size t), t)
      else
        let new_size = table_size t + delta
        in if (case tbl_max_size t of None \<Rightarrow> False | Some mx \<Rightarrow> new_size > mx) then (Inr (- 1), t)
           else (Inr (new_size - delta),
                 t\<lparr>tbl_elements := tbl_elements t @ py_repeat init_value delta\<rparr>))"

definition table_fill :: "'a table \<Rightarrow> int \<Rightarrow> 'a option \<Rightarrow> int \<Rightarrow> unit result \<times> 'a table" where
  "table_fill t index value count =
     (if index < 0 \<or> index + count > ilen (tbl_elements t) then (Inl TableErr, t)
      else on_elements t
        (for_loop (\<lambda>i xs. py_update xs (index + i) value) (py_range count) (tbl_elements t)))"

definition table_copy :: "'a table \<Rightarrow> int \<Rightarrow> int \<Rightarrow> int \<Rightarrow> unit result \<times> 'a table" where
  "table_copy t dest src count =
     (if dest < 0 \<or> src < 0 \<or> dest + count > ilen (tbl_elements t) \<or> src + count > ilen (tbl_elements t)
      then (Inl TableErr, t)
      else
        let move = (\<lambda>i xs. res_bind (py_index xs (src + i)) (\<lambda>v. py_update xs (dest + i) v))
        in if dest \<le> src then on_elements t (for_loop move (py_range count) (tbl_elements t))
           else on_elements t (for_loop move (rev (py_range count)) (tbl_elements t)))"

definition table_init ::
  "'a table \<Rightarrow> int \<Rightarrow> 'a option list \<Rightarrow> int \<Rightarrow> int \<Rightarrow> unit result \<times> 'a table" where
  "table_init t index elements src_offset count =
     (if index < 0 \<or> index + count > ilen (tbl_elements t) then (Inl TableErr, t)
      else if src_offset < 0 \<or> src_offset + count > ilen elements then (Inl TableErr, t)
      else on_elements t
        (for_loop (\<lambda>i xs. res_bind (py_index elements (src_offset + i)) (\<lambda>v. py_update xs (index + i) v))
          (py_range count) (tbl_elements t)))"

definition table_elements :: "'a table \<Rightarrow> 'a option list" where
  "table_elements t = tbl_elements t"

definition function_table_new :: "int \<Rightarrow> int option \<Rightarrow> int table result" where
  "function_table_new initial_size max_size = table_new 0x70 initial_size max_size None"

definition get_func :: "int table \<Rightarrow> int \<Rightarrow> int result" where
  "get_func t index =
     res_bind (table_get t index) (\<lambda>val. Inr (case val of None \<Rightarrow> - 1 | Some f \<Rightarrow> f))"

definition set_func :: "int table \<Rightarrow> int \<Rightarrow> int \<Rightarrow> unit result \<times> int table" where
  "set_func t index func_idx = table_set t index (Some func_idx)"

definition external_table_new :: "int \<Rightarrow> int option \<Rightarrow> int table result" where
  "external_table_new initial_size max_size = table_new 0x6F initial_size max_size None"

definition create_table :: "int \<Rightarrow> int \<Rightarrow> int option \<Rightarrow> int table result" where
  "create_table elem_type initial_size max_size =
     (if elem_type = 0x70 then function_table_new initial_size max_size
      else if elem_type = 0x6F then external_table_new initial_size max_size
      else table_new elem_type initial_size max_size None)"

definition create_function_table :: "int \<Rightarrow> int option \<Rightarrow> int table result" where
  "create_function_table initial_size max_size = function_table_new initial_size max_size"

section \<open>The loops\<close>

lemma nth_py_range [simp]: "k < nat n \<Longrightarrow> py_range n ! k = int k"
  by (simp add: py_range_def)

lemma length_py_range [simp]: "length (py_range n) = nat n"
  by (simp add: py_range_def)

lemma py_range_nonpos [simp]: "n \<le> 0 \<Longrightarrow> py_range n = []"
  by (simp add: py_range_def)

text \<open>
  Assigning \<open>ys\<close> one element after the other, in either direction.  The body only has to fetch the
  right element in the state the loop has reached so far.
\<close>

lemma assign_loop:
  fixes xs ys :: "'b list"
  assumes "0 \<le> a" and "a + ilen ys \<le> ilen xs"
    and "\<And>k zs. k < length ys \<Longrightarrow> zs = overwrite xs (nat a) (take k ys) \<Longrightarrow>
      f (int k) zs = py_update zs (a + int k) (ys ! k)"
  shows "for_loop f (py_range (ilen ys)) xs = (Inr (), overwrite xs (nat a) ys)"
proof -
  have "\<exists>s'. for_loop f (py_range (ilen ys)) xs = (Inr (), s') \<and>
      s' = overwrite xs (nat a) (take (length (py_range (ilen ys))) ys)"
  proof (rule for_loop_invariant)
    fix k s
    assume k: "k < length (py_range (ilen ys))" and s: "s = overwrite xs (nat a) (take k ys)"
    have ky: "k < length ys" using k by simp
    have len: "length s = length xs" using assms(1,2) ky unfolding s by (subst length_overwrite) auto
    have "f (py_range (ilen ys) ! k) s = py_update s (a + int k) (ys ! k)"
      using assms(3) [OF ky s] ky by simp
    also have "\<dots> = Inr (s[nat a + k := ys ! k])"
      using assms(1,2) ky len by (subst py_update_in) (auto simp: nat_add_distrib)
    also have "s[nat a + k := ys ! k] = overwrite xs (nat a) (take (Suc k) ys)"
      using assms(1,2) ky unfolding s
      by (intro nth_equalityI)
        (auto simp: nth_overwrite nth_list_update take_Suc_conv_app_nth nth_append less_Suc_eq)
    finally show "\<exists>s'. f (py_range (ilen ys) ! k) s = Inr s' \<and>
        s' = overwrite xs (nat a) (take (Suc k) ys)" by blast
  qed simp
  then show ?thesis by simp
qed

lemma assign_loop_rev:
  fixes xs ys :: "'b list"
  assumes "0 \<le> a" and "a + ilen ys \<le> ilen xs"
    and "\<And>k zs. k < length ys \<Longrightarrow>
      zs = overwrite xs (nat a + Suc k) (drop (Suc k) ys) \<Longrightarrow>
      f (int k) zs = py_update zs (a + int k) (ys ! k)"
  shows "for_loop f (rev (py_range (ilen ys))) xs = (Inr (), overwrite xs (nat a) ys)"
proof -
  let ?n = "length ys"
  have "\<exists>s'. for_loop f (rev (py_range (ilen ys))) xs = (Inr (), s') \<and>
      s' = overwrite xs (nat a + (?n - length (rev (py_range (ilen ys)))))
        (drop (?n - length (rev (py_range (ilen ys)))) ys)"
  proof (rule for_loop_invariant)
    fix j s
    assume j: "j < length (rev (py_range (ilen ys)))"
      and s: "s = overwrite xs (nat a + (?n - j)) (drop (?n - j) ys)"
    define k where "k = ?n - Suc j"
    have k: "k < ?n" "?n - j = Suc k" "?n - Suc j = k" using j by (auto simp: k_def)
    have len: "length s = length xs" using assms(1,2) k unfolding s by (subst length_overwrite) auto
    have "f (rev (py_range (ilen ys)) ! j) s = py_update s (a + int k) (ys ! k)"
      using assms(3) [OF k(1), of s] s j k by (simp add: rev_nth)
    also have "\<dots> = Inr (s[nat a + k := ys ! k])"
      using assms(1,2) k len by (subst py_update_in) (auto simp: nat_add_distrib)
    also have "s[nat a + k := ys ! k] = overwrite xs (nat a + (?n - Suc j)) (drop (?n - Suc j) ys)"
      using assms(1,2) k len unfolding s k(2,3)
      by (intro nth_equalityI)
        (auto simp: nth_overwrite nth_list_update intro: arg_cong [of _ _ "(!) ys"])
    finally show "\<exists>s'. f (rev (py_range (ilen ys)) ! j) s = Inr s' \<and>
        s' = overwrite xs (nat a + (?n - Suc j)) (drop (?n - Suc j) ys)" by blast
  qed simp
  then show ?thesis by simp
qed

lemma table_fill_eq:
  "table_fill t index value count =
    (if 0 \<le> index \<and> index + count \<le> table_size t
     then (Inr (), t\<lparr>tbl_elements :=
            overwrite (tbl_elements t) (nat index) (replicate (nat count) value)\<rparr>)
     else (Inl TableErr, t))"
proof (cases "0 \<le> index \<and> index + count \<le> table_size t \<and> 0 \<le> count")
  case True
  then have "for_loop (\<lambda>i xs. py_update xs (index + i) value) (py_range count) (tbl_elements t) =
      (Inr (), overwrite (tbl_elements t) (nat index) (replicate (nat count) value))"
    using assign_loop [of index "replicate (nat count) value" "tbl_elements t"]
    by (simp add: table_size_def)
  then show ?thesis using True by (simp add: table_fill_def on_elements_def table_size_def)
next
  case False
  then show ?thesis by (cases "0 \<le> count") (auto simp: table_fill_def on_elements_def table_size_def)
qed

lemma table_init_eq:
  assumes "0 \<le> count"
  shows "table_init t index elements src_offset count =
    (if in_region (tbl_elements t) index count \<and> in_region elements src_offset count
     then (Inr (), t\<lparr>tbl_elements :=
            overwrite (tbl_elements t) (nat index) (window elements src_offset count)\<rparr>)
     else (Inl TableErr, t))"
proof (cases "in_region (tbl_elements t) index count \<and> in_region elements src_offset count")
  case True
  have "for_loop (\<lambda>i xs. res_bind (py_index elements (src_offset + i)) (\<lambda>v. py_update xs (index + i) v))
      (py_range (ilen (window elements src_offset count))) (tbl_elements t) =
      (Inr (), overwrite (tbl_elements t) (nat index) (window elements src_offset count))"
  proof (rule assign_loop)
    fix k zs
    assume "k < length (window elements src_offset count)"
    then show "res_bind (py_index elements (src_offset + int k)) (\<lambda>v. py_update zs (index + int k) v) =
        py_update zs (index + int k) (window elements src_offset count ! k)"
      using True by (simp add: py_index_window [of _ _ count] nat_length_window zless_nat_eq_int_zless)
  qed (use True in \<open>auto simp: in_region_def\<close>)
  then show ?thesis using True by (simp add: table_init_def on_elements_def in_region_def)
next
  case False
  then show ?thesis using assms by (auto simp: table_init_def in_region_def)
qed

lemma table_copy_eq:
  assumes "0 \<le> count"
  shows "table_copy t dest src count =
    (if in_region (tbl_elements t) dest count \<and> in_region (tbl_elements t) src count
     then (Inr (), t\<lparr>tbl_elements :=
            overwrite (tbl_elements t) (nat dest) (window (tbl_elements t) src count)\<rparr>)
     else (Inl TableErr, t))"
proof (cases "in_region (tbl_elements t) dest count \<and> in_region (tbl_elements t) src count")
  case True
  let ?xs = "tbl_elements t"
  let ?w = "window ?xs src count"
  let ?move = "\<lambda>i xs. res_bind (py_index xs (src + i)) (\<lambda>v. py_update xs (dest + i) v)"
  have len: "ilen ?w = count" "length ?w = nat count" using True assms by (simp_all add: nat_length_window)
  have fetch: "?move (int k) zs = py_update zs (dest + int k) (?w ! k)"
    if "k < length ?w" "length zs = length ?xs" "zs ! (nat src + k) = ?xs ! (nat src + k)" for k zs
  proof -
    have "nat src + k < length ?xs" using that(1) True len(2) by (auto simp: in_region_def)
    then have "py_index zs (src + int k) = Inr (zs ! (nat src + k))"
      using that True by (subst py_index_in) (auto simp: in_region_def nat_add_distrib)
    moreover have "?w ! k = ?xs ! (nat src + k)" using that(1) True len(2) by (simp add: nth_window)
    ultimately show ?thesis using that(3) by simp
  qed
  have bounds: "0 \<le> dest" "dest + ilen ?w \<le> ilen ?xs" "0 \<le> src" "src + ilen ?w \<le> ilen ?xs"
    using True len by (auto simp: in_region_def)
  have fwd: "for_loop ?move (py_range (ilen ?w)) ?xs = (Inr (), overwrite ?xs (nat dest) ?w)"
    if "dest \<le> src"
  proof (rule assign_loop [OF bounds(1,2)])
    fix k zs
    assume k: "k < length ?w" and zs: "zs = overwrite ?xs (nat dest) (take k ?w)"
    show "?move (int k) zs = py_update zs (dest + int k) (?w ! k)"
      using k bounds that unfolding zs by (intro fetch) (auto simp: nth_overwrite)
  qed
  have bwd: "for_loop ?move (rev (py_range (ilen ?w))) ?xs = (Inr (), overwrite ?xs (nat dest) ?w)"
    if "\<not> dest \<le> src"
  proof (rule assign_loop_rev [OF bounds(1,2)])
    fix k zs
    assume k: "k < length ?w" and zs: "zs = overwrite ?xs (nat dest + Suc k) (drop (Suc k) ?w)"
    show "?move (int k) zs = py_update zs (dest + int k) (?w ! k)"
      using k bounds that unfolding zs by (intro fetch) (auto simp: nth_overwrite)
  qed
  show ?thesis
    using True fwd bwd unfolding len(1)
    by (simp add: table_copy_def on_elements_def in_region_def Let_def)
next
  case False
  then show ?thesis using assms by (auto simp: table_copy_def in_region_def)
qed

section \<open>The table as a region of references\<close>

interpretation tbl: region "\<lambda>_. True" tbl_elements
  "\<lambda>t a n. Inr (py_slice (table_elements t) a (a + n))"
  "\<lambda>t a xs. table_init t a xs 0 (ilen xs)"
proof unfold_locales
  fix t :: "'a table" and a n :: int
  assume "in_region (tbl_elements t) a n"
  then show "Inr (py_slice (table_elements t) a (a + n)) = Inr (window (tbl_elements t) a n)"
    by (simp add: table_elements_def py_slice_in in_region_def window_def)
next
  fix t :: "'a table" and a :: int and xs :: "'a option list"
  assume "in_region (tbl_elements t) a (ilen xs)"
  then show "fst (table_init t a xs 0 (ilen xs)) = Inr () \<and> True \<and>
      tbl_elements (snd (table_init t a xs 0 (ilen xs))) = overwrite (tbl_elements t) (nat a) xs"
    by (simp add: table_init_eq in_region_def window_def)
qed

section \<open>Properties\<close>

text \<open>One call of a method that changes the table, with any arguments.\<close>

inductive table_step :: "'a table \<Rightarrow> 'a table \<Rightarrow> bool" where
  step_set: "table_step t (snd (table_set t index value))"
| step_table_grow: "table_step t (snd (table_grow t delta value))"
| step_table_fill: "table_step t (snd (table_fill t index value count))"
| step_table_copy: "table_step t (snd (table_copy t dest src count))"
| step_table_init: "table_step t (snd (table_init t index elements src_offset count))"

inductive table_reach :: "'a table \<Rightarrow> bool" where
  table_reach_new: "table_new elem_type initial_size max_size value = Inr t \<Longrightarrow> table_reach t"
| table_reach_step: "table_reach t \<Longrightarrow> table_step t t' \<Longrightarrow> table_reach t'"

definition table_inv :: "'a table \<Rightarrow> bool" where
  "table_inv t \<longleftrightarrow>
     0 \<le> tbl_initial_size t \<and> tbl_initial_size t \<le> table_size t \<and>
     (case tbl_max_size t of None \<Rightarrow> True | Some mx \<Rightarrow> table_size t \<le> mx)"

definition same_table_shape :: "'a table \<Rightarrow> 'a table \<Rightarrow> bool" where
  "same_table_shape t t' \<longleftrightarrow>
     tbl_elem_type t' = tbl_elem_type t \<and> tbl_initial_size t' = tbl_initial_size t \<and>
     tbl_max_size t' = tbl_max_size t \<and> table_size t' = table_size t"

lemma same_table_shape_overwrite:
  "0 \<le> a \<Longrightarrow> a + ilen ys \<le> table_size t \<Longrightarrow>
   same_table_shape t (t\<lparr>tbl_elements := overwrite (tbl_elements t) (nat a) ys\<rparr>)"
  by (auto simp: same_table_shape_def table_size_def)

lemma same_table_shape_refl [simp]: "same_table_shape t t"
  by (simp add: same_table_shape_def)

lemma negative_count [simp]:
  "count < 0 \<Longrightarrow> snd (table_copy t dest src count) = t"
  "count < 0 \<Longrightarrow> snd (table_init t index elements src_offset count) = t"
  "count < 0 \<Longrightarrow> snd (table_fill t index value count) = t"
  by (auto simp: table_copy_def table_init_def table_fill_def on_elements_def Let_def)

lemma same_table_shape_ops:
  "same_table_shape t (snd (table_set t index value))"
  "same_table_shape t (snd (table_fill t index value count))"
  "same_table_shape t (snd (table_copy t dest src count))"
  "same_table_shape t (snd (table_init t index elements src_offset count))"
proof -
  show "same_table_shape t (snd (table_set t index value))"
    by (auto simp: table_set_def on_elements_def py_update_def same_table_shape_def table_size_def)
  show "same_table_shape t (snd (table_fill t index value count))"
    by (cases "0 \<le> count") (auto simp: table_fill_eq intro!: same_table_shape_overwrite)
  show "same_table_shape t (snd (table_copy t dest src count))"
    by (cases "0 \<le> count")
      (auto simp: table_copy_eq nat_length_window in_region_def table_size_def
        intro!: same_table_shape_overwrite)
  show "same_table_shape t (snd (table_init t index elements src_offset count))"
    by (cases "0 \<le> count")
      (auto simp: table_init_eq nat_length_window in_region_def table_size_def
        intro!: same_table_shape_overwrite)
qed

lemma table_inv_shape: "same_table_shape t t' \<Longrightarrow> table_inv t' = table_inv t"
  by (auto simp: same_table_shape_def table_inv_def split: option.split)

lemma table_grow_inv: "table_inv t \<Longrightarrow> table_inv (snd (table_grow t delta value))"
  by (auto simp: table_inv_def table_grow_def table_size_def Let_def split: option.splits)

text \<open>
  Table size: whatever sequence of calls a table has seen, with whatever arguments, its size is
  at least the initial size and never exceeds the maximum given at its creation.
\<close>
theorem table_size_invariant:
  assumes "table_reach t"
  shows "table_inv t"
  using assms
proof (induction rule: table_reach.induct)
  case table_reach_new
  then show ?case
    by (auto simp: table_new_def table_inv_def table_size_def split: option.splits if_splits)
next
  case (table_reach_step t t')
  from table_reach_step.hyps(2) show ?case
    using table_reach_step.IH
    by cases (simp_all add: table_grow_inv same_table_shape_ops [THEN table_inv_shape])
qed

theorem table_size_invariant_witness:
  "table_inv (snd (table_grow
     \<lparr>tbl_elem_type = 0x70, tbl_initial_size = 1, tbl_max_size = Some 3, tbl_elements = [Some (5 :: int)]\<rparr>
     2 None))"
proof (rule table_size_invariant)
  have "table_new 0x70 1 (Some 3) (Some (5 :: int)) =
      Inr \<lparr>tbl_elem_type = 0x70, tbl_initial_size = 1, tbl_max_size = Some 3, tbl_elements = [Some 5]\<rparr>"
    by (simp add: table_new_def py_repeat_def)
  then show "table_reach (snd (table_grow
     \<lparr>tbl_elem_type = 0x70, tbl_initial_size = 1, tbl_max_size = Some 3, tbl_elements = [Some (5 :: int)]\<rparr>
     2 None))"
    by (rule table_reach_step [OF table_reach_new step_table_grow])
qed

text \<open>
  The direction of \<^verbatim>\<open>Table.copy\<close> handles every overlap: the element-by-element loop, forwards
  or backwards, has the effect of moving the source range as it was before the call, never raises
  from inside the loop, and a range that sticks out is refused before anything is written.
\<close>
theorem table_copy_moves:
  assumes "0 \<le> count"
  shows "if in_region (tbl_elements t) dest count \<and> in_region (tbl_elements t) src count
    then fst (table_copy t dest src count) = Inr () \<and>
      (\<forall>k. table_get (snd (table_copy t dest src count)) k =
        (if dest \<le> k \<and> k < dest + count then table_get t (src + (k - dest)) else table_get t k))
    else table_copy t dest src count = (Inl TableErr, t)"
proof (cases "in_region (tbl_elements t) dest count \<and> in_region (tbl_elements t) src count")
  case True
  let ?xs = "tbl_elements t"
  let ?w = "window ?xs src count"
  have len: "length ?w = nat count" using True by (simp add: nat_length_window)
  have b: "0 \<le> dest" "0 \<le> src" "dest + count \<le> ilen ?xs" "src + count \<le> ilen ?xs"
    using True by (auto simp: in_region_def)
  have fits: "nat dest + length ?w \<le> length ?xs" using b len assms by linarith
  have "table_get (t\<lparr>tbl_elements := overwrite ?xs (nat dest) ?w\<rparr>) k =
      (if dest \<le> k \<and> k < dest + count then table_get t (src + (k - dest)) else table_get t k)" for k
  proof (cases "0 \<le> k \<and> k < ilen ?xs")
    case in_range: True
    have "?w ! (nat k - nat dest) = ?xs ! nat (src + (k - dest))" if "dest \<le> k" "k < dest + count"
      using that b True in_range
      by (subst nth_window [of _ _ count]) (auto simp: nat_diff_distrib nat_add_distrib)
    moreover have "(nat dest \<le> nat k \<and> nat k < nat dest + nat count) = (dest \<le> k \<and> k < dest + count)"
      using b in_range assms by linarith
    ultimately show ?thesis
      using in_range b fits len
      by (auto simp: table_get_def py_index_in nth_overwrite [OF fits])
  next
    case False
    then show ?thesis using b fits by (auto simp: table_get_def)
  qed
  then show ?thesis using True assms by (simp add: table_copy_eq)
next
  case False
  then show ?thesis by (simp only: table_copy_eq [OF assms] if_False)
qed

theorem table_copy_moves_witness:
  "table_get (snd (table_copy \<lparr>tbl_elem_type = 0x70, tbl_initial_size = 3, tbl_max_size = None,
      tbl_elements = [Some (5 :: int), Some 6, None]\<rparr> 1 0 2)) 2 = Inr (Some 6)"
proof -
  let ?t = "\<lparr>tbl_elem_type = 0x70, tbl_initial_size = 3, tbl_max_size = None,
      tbl_elements = [Some (5 :: int), Some 6, None]\<rparr>"
  have r: "in_region (tbl_elements ?t) 1 2" "in_region (tbl_elements ?t) 0 2"
    by (simp_all add: in_region_def)
  have "\<forall>k. table_get (snd (table_copy ?t 1 0 2)) k =
      (if 1 \<le> k \<and> k < 1 + 2 then table_get ?t (0 + (k - 1)) else table_get ?t k)"
    using table_copy_moves [of 2 ?t 1 0] r by simp
  from spec [OF this, of 2] have "table_get (snd (table_copy ?t 1 0 2)) 2 = table_get ?t 1" by simp
  also have "\<dots> = Inr (Some 6)" by (simp add: table_get_def py_index_def)
  finally show ?thesis .
qed

text \<open>
  Initialising from an element segment: after a successful \<^verbatim>\<open>init\<close> the written range reads back
  as the given elements and every disjoint range is unchanged.
\<close>
theorem table_init_reads_back:
  assumes "in_region (tbl_elements t) index (ilen xs)"
  shows "fst (table_init t index xs 0 (ilen xs)) = Inr () \<and>
    py_slice (table_elements (snd (table_init t index xs 0 (ilen xs)))) index (index + ilen xs) = xs \<and>
    (\<forall>b n. in_region (tbl_elements t) b n \<and> (b + n \<le> index \<or> index + ilen xs \<le> b) \<longrightarrow>
      py_slice (table_elements (snd (table_init t index xs 0 (ilen xs)))) b (b + n) =
      py_slice (table_elements t) b (b + n))"
  using tbl.read_back [of t index xs] tbl.read_other [of t index xs] tbl.wr_in [of t index xs] assms
  by simp

theorem table_init_reads_back_witness:
  "py_slice (table_elements (snd (table_init \<lparr>tbl_elem_type = 0x70, tbl_initial_size = 3,
      tbl_max_size = None, tbl_elements = [None, None, None]\<rparr> 1 [Some (7 :: int)] 0 1))) 1 2 = [Some 7]"
  using table_init_reads_back [of "\<lparr>tbl_elem_type = 0x70, tbl_initial_size = 3,
      tbl_max_size = None, tbl_elements = [None, None, None]\<rparr>" 1 "[Some (7 :: int)]"]
  by (simp add: in_region_def)

end
