(* ===== verification/Bounded_Stack.thy ===== *)
theory Bounded_Stack
  imports Py_Prelude
begin

text \<open>
  The interface of a stack with a height limit, and the reference machine it refines: a plain list
  whose last element is the top.  The value stack, the operand stack, the control stack and the call
  stack of the WebAssembly engine are instances.
\<close>

section \<open>The reference machine\<close>

datatype 'a stack_op = Push 'a | Pop

fun list_step :: "int \<Rightarrow> 'a stack_op \<Rightarrow> 'a list \<Rightarrow> 'a option result \<times> 'a list" where
  "list_step cap (Push x) xs =
     (if ilen xs < cap then (Inr None, xs @ [x]) else (Inl RuntimeError, xs))"
| "list_step cap Pop xs =
     (if xs = [] then (Inl IndexError, xs) else (Inr (Some (last xs)), butlast xs))"

fun list_run :: "int \<Rightarrow> 'a stack_op list \<Rightarrow> 'a list \<Rightarrow> 'a option result list \<times> 'a list" where
  "list_run cap [] xs = ([], xs)"
| "list_run cap (p # ps) xs =
     (let (r, xs') = list_step cap p xs; (rs, xs'') = list_run cap ps xs' in (r # rs, xs''))"

lemma list_step_bounded: "ilen xs \<le> cap \<Longrightarrow> ilen (snd (list_step cap p xs)) \<le> cap"
  by (cases p) auto

lemma list_run_bounded: "ilen xs \<le> cap \<Longrightarrow> ilen (snd (list_run cap ps xs)) \<le> cap"
proof (induction ps arbitrary: xs)
  case (Cons p ps)
  have "ilen (snd (list_run cap ps (snd (list_step cap p xs)))) \<le> cap"
    using Cons.prems by (intro Cons.IH list_step_bounded)
  then show ?case by (auto split: prod.splits)
qed simp

lemma list_run_append:
  "list_run cap (ps @ qs) xs =
    (let (rs, xs') = list_run cap ps xs; (rs', xs'') = list_run cap qs xs' in (rs @ rs', xs''))"
  by (induction ps arbitrary: xs) (auto split: prod.splits)

text \<open>What is pushed comes back in the opposite order.\<close>

lemma list_run_push_pop:
  "ilen xs + ilen ys \<le> cap \<Longrightarrow>
   list_run cap (map Push ys @ map (\<lambda>_. Pop) ys) xs =
     (map (\<lambda>_. Inr None) ys @ map (\<lambda>y. Inr (Some y)) (rev ys), xs)"
proof (induction ys arbitrary: xs)
  case (Cons y ys)
  have "map (\<lambda>_. Pop) (y # ys) = map (\<lambda>_. Pop) ys @ [Pop]"
    by (simp add: replicate_append_same map_replicate_const)
  then have step: "map Push (y # ys) @ map (\<lambda>_. Pop) (y # ys) =
      Push y # ((map Push ys @ map (\<lambda>_. Pop) ys) @ [Pop])"
    by simp
  have "list_run cap ((map Push ys @ map (\<lambda>_. Pop) ys) @ [Pop]) (xs @ [y]) =
      (map (\<lambda>_. Inr None) ys @ map (\<lambda>y. Inr (Some y)) (rev ys) @ [Inr (Some y)], xs)"
    using Cons.IH [of "xs @ [y]"] Cons.prems
    by (simp add: list_run_append [of cap "map Push ys @ map (\<lambda>_. Pop) ys"] del: append_assoc)
  then show ?case unfolding step using Cons.prems by simp
qed simp

section \<open>The interface\<close>

text \<open>A sequence of calls of a given push and pop operation, with the outcome of every call.\<close>

fun stack_exec ::
  "('s \<Rightarrow> 'a \<Rightarrow> unit result \<times> 's) \<Rightarrow> ('s \<Rightarrow> 'a result \<times> 's) \<Rightarrow> 'a stack_op \<Rightarrow> 's \<Rightarrow> 'a option result \<times> 's"
where
  "stack_exec push pop (Push x) s = (let (r, s') = push s x in (res_bind r (\<lambda>_. Inr None), s'))"
| "stack_exec push pop Pop s = (let (r, s') = pop s in (res_bind r (\<lambda>x. Inr (Some x)), s'))"

fun stack_run ::
  "('s \<Rightarrow> 'a \<Rightarrow> unit result \<times> 's) \<Rightarrow> ('s \<Rightarrow> 'a result \<times> 's) \<Rightarrow> 'a stack_op list \<Rightarrow> 's \<Rightarrow>
   'a option result list \<times> 's"
where
  "stack_run push pop [] s = ([], s)"
| "stack_run push pop (p # ps) s =
     (let (r, s') = stack_exec push pop p s; (rs, s'') = stack_run push pop ps s' in (r # rs, s''))"

locale bounded_stack =
  fixes ok :: "'s \<Rightarrow> bool"
    and items :: "'s \<Rightarrow> 'a list"
    and cap :: "'s \<Rightarrow> int"
    and push :: "'s \<Rightarrow> 'a \<Rightarrow> unit result \<times> 's"
    and pop :: "'s \<Rightarrow> 'a result \<times> 's"
  assumes push_room: "ok s \<Longrightarrow> ilen (items s) < cap s \<Longrightarrow>
      fst (push s x) = Inr () \<and> ok (snd (push s x)) \<and> cap (snd (push s x)) = cap s \<and>
      items (snd (push s x)) = items s @ [x]"
    and push_full: "ok s \<Longrightarrow> cap s \<le> ilen (items s) \<Longrightarrow> push s x = (Inl RuntimeError, s)"
    and pop_top: "ok s \<Longrightarrow> items s \<noteq> [] \<Longrightarrow>
      fst (pop s) = Inr (last (items s)) \<and> ok (snd (pop s)) \<and> cap (snd (pop s)) = cap s \<and>
      items (snd (pop s)) = butlast (items s)"
    and pop_empty: "ok s \<Longrightarrow> items s = [] \<Longrightarrow> pop s = (Inl IndexError, s)"
begin

lemma exec_refines:
  assumes "ok s"
  shows "ok (snd (stack_exec push pop p s)) \<and> cap (snd (stack_exec push pop p s)) = cap s \<and>
    (fst (stack_exec push pop p s), items (snd (stack_exec push pop p s))) = list_step (cap s) p (items s)"
proof (cases p)
  case (Push x)
  then show ?thesis
    using push_room [OF assms, of x] push_full [OF assms, of x]
    by (cases "ilen (items s) < cap s") (auto simp: assms split: prod.splits)
next
  case Pop
  then show ?thesis
    using pop_top [OF assms] pop_empty [OF assms]
    by (cases "items s = []") (auto simp: assms split: prod.splits)
qed

lemma run_refines:
  assumes "ok s"
  shows "ok (snd (stack_run push pop ps s)) \<and> cap (snd (stack_run push pop ps s)) = cap s \<and>
    (fst (stack_run push pop ps s), items (snd (stack_run push pop ps s))) = list_run (cap s) ps (items s)"
  using assms
proof (induction ps arbitrary: s)
  case (Cons p ps)
  obtain r s' where e: "stack_exec push pop p s = (r, s')" by fastforce
  with exec_refines [OF Cons.prems, of p] have s': "ok s'" "cap s' = cap s"
    "list_step (cap s) p (items s) = (r, items s')" by auto
  obtain rs s'' where r: "stack_run push pop ps s' = (rs, s'')" by fastforce
  with Cons.IH [OF s'(1)] show ?case using e s' by (auto split: prod.splits)
qed simp

lemma run_bounded: "ok s \<Longrightarrow> ilen (items s) \<le> cap s \<Longrightarrow> ilen (items (snd (stack_run push pop ps s))) \<le> cap s"
  using run_refines [of s ps] list_run_bounded [of "items s" "cap s" ps] by (metis snd_conv)

lemma run_push_pop:
  "ok s \<Longrightarrow> ilen (items s) + ilen ys \<le> cap s \<Longrightarrow>
   fst (stack_run push pop (map Push ys @ map (\<lambda>_. Pop) ys) s) =
     map (\<lambda>_. Inr None) ys @ map (\<lambda>y. Inr (Some y)) (rev ys) \<and>
   items (snd (stack_run push pop (map Push ys @ map (\<lambda>_. Pop) ys) s)) = items s"
  using run_refines [of s "map Push ys @ map (\<lambda>_. Pop) ys"] list_run_push_pop [of "items s" ys "cap s"]
  by simp

end

end
