(* ===== verification/WasmTypes.thy ===== *)
theory WasmTypes
  imports Py_Float Bounded_Stack
begin

text \<open>
  The type system of the WebAssembly runtime, \<^verbatim>\<open>wasm/src/module/types.py\<close>: the enumerations with
  their binary codes, the type descriptors, typed values and their conversions, the
  \<^verbatim>\<open>ValueStack\<close> and the utility functions.  The \<^verbatim>\<open>__str__\<close> and \<^verbatim>\<open>__repr__\<close> texts are left out.
\<close>

section \<open>Enumerations\<close>

datatype val_type = I32 | I64 | F32 | F64 | V128 | FUNCREF | EXTERNREF

fun valtype_code :: "val_type \<Rightarrow> int" where
  "valtype_code I32 = 0x7F"
| "valtype_code I64 = 0x7E"
| "valtype_code F32 = 0x7D"
| "valtype_code F64 = 0x7C"
| "valtype_code V128 = 0x7B"
| "valtype_code FUNCREF = 0x70"
| "valtype_code EXTERNREF = 0x6F"

text \<open>Members of an \<^verbatim>\<open>IntEnum\<close> compare as their codes.\<close>

lemma valtype_code_inject: "valtype_code s = valtype_code t \<Longrightarrow> s = t"
  by (cases s; cases t; simp)

instantiation val_type :: linorder
begin

definition less_eq_val_type :: "val_type \<Rightarrow> val_type \<Rightarrow> bool" where
  "less_eq_val_type s t \<longleftrightarrow> valtype_code s \<le> valtype_code t"

definition less_val_type :: "val_type \<Rightarrow> val_type \<Rightarrow> bool" where
  "less_val_type s t \<longleftrightarrow> valtype_code s < valtype_code t"

instance
  by standard (auto simp: less_eq_val_type_def less_val_type_def intro: valtype_code_inject)

end

fun vt_size :: "val_type \<Rightarrow> int" where
  "vt_size I32 = 4"
| "vt_size I64 = 8"
| "vt_size F32 = 4"
| "vt_size F64 = 8"
| "vt_size V128 = 16"
| "vt_size FUNCREF = 4"
| "vt_size EXTERNREF = 4"

definition is_integer :: "val_type \<Rightarrow> bool" where
  "is_integer t \<longleftrightarrow> t \<in> {I32, I64}"

definition is_float :: "val_type \<Rightarrow> bool" where
  "is_float t \<longleftrightarrow> t \<in> {F32, F64}"

definition is_reference :: "val_type \<Rightarrow> bool" where
  "is_reference t \<longleftrightarrow> t \<in> {FUNCREF, EXTERNREF}"

definition is_vector :: "val_type \<Rightarrow> bool" where
  "is_vector t \<longleftrightarrow> t = V128"

definition is_numeric :: "val_type \<Rightarrow> bool" where
  "is_numeric t \<longleftrightarrow> is_integer t \<or> is_float t"

text \<open>
  A raw Python value: an integer, a float, \<^verbatim>\<open>None\<close>, or an external object of the embedder (one
  without numeric conversions).
\<close>

datatype 'r raw = RInt int | RFloat pyfloat | RNone | RExtern 'r

fun default_value :: "val_type \<Rightarrow> 'r raw" where
  "default_value I32 = RInt 0"
| "default_value I64 = RInt 0"
| "default_value F32 = RFloat 0"
| "default_value F64 = RFloat 0"
| "default_value V128 = RInt 0"
| "default_value FUNCREF = RNone"
| "default_value EXTERNREF = RNone"

datatype mutability = IMMUTABLE | MUTABLE

fun mutability_code :: "mutability \<Rightarrow> int" where
  "mutability_code IMMUTABLE = 0"
| "mutability_code MUTABLE = 1"

datatype import_type = ImpFUNCTION | ImpTABLE | ImpMEMORY | ImpGLOBAL

fun import_type_code :: "import_type \<Rightarrow> int" where
  "import_type_code ImpFUNCTION = 0"
| "import_type_code ImpTABLE = 1"
| "import_type_code ImpMEMORY = 2"
| "import_type_code ImpGLOBAL = 3"

datatype export_type = ExpFUNCTION | ExpTABLE | ExpMEMORY | ExpGLOBAL

fun export_type_code :: "export_type \<Rightarrow> int" where
  "export_type_code ExpFUNCTION = 0"
| "export_type_code ExpTABLE = 1"
| "export_type_code ExpMEMORY = 2"
| "export_type_code ExpGLOBAL = 3"

datatype elem_type = ElemFUNCREF | ElemEXTERNREF

fun elem_type_code :: "elem_type \<Rightarrow> int" where
  "elem_type_code ElemFUNCREF = 0x70"
| "elem_type_code ElemEXTERNREF = 0x6F"

section \<open>Descriptors\<close>

record func_type =
  ft_params :: "val_type list"
  ft_results :: "val_type list"

definition functype_eq :: "func_type \<Rightarrow> func_type \<Rightarrow> bool" where
  "functype_eq f g \<longleftrightarrow> ft_params f = ft_params g \<and> ft_results f = ft_results g"

definition param_count :: "func_type \<Rightarrow> int" where
  "param_count f = ilen (ft_params f)"

definition result_count :: "func_type \<Rightarrow> int" where
  "result_count f = ilen (ft_results f)"

record block_type =
  bt_params :: "val_type list"
  bt_results :: "val_type list"
  bt_type_idx :: "int option"

text \<open>\<^verbatim>\<open>params or []\<close>: both a missing and an empty list give the empty list.\<close>

definition block_type_new ::
  "val_type list option \<Rightarrow> val_type list option \<Rightarrow> int option \<Rightarrow> block_type" where
  "block_type_new params results type_idx =
     \<lparr>bt_params = (case params of None \<Rightarrow> [] | Some ps \<Rightarrow> ps),
      bt_results = (case results of None \<Rightarrow> [] | Some rs \<Rightarrow> rs),
      bt_type_idx = type_idx\<rparr>"

definition block_empty :: block_type where
  "block_empty = block_type_new None None None"

definition block_from_valtype :: "val_type \<Rightarrow> block_type" where
  "block_from_valtype t = block_type_new None (Some [t]) None"

definition block_from_functype :: "func_type \<Rightarrow> block_type" where
  "block_from_functype f = block_type_new (Some (ft_params f)) (Some (ft_results f)) None"

record ref_type =
  rt_elem_type :: elem_type
  rt_nullable :: bool

definition reftype_eq :: "ref_type \<Rightarrow> ref_type \<Rightarrow> bool" where
  "reftype_eq a b \<longleftrightarrow> rt_elem_type a = rt_elem_type b \<and> rt_nullable a = rt_nullable b"

record global_type =
  gt_val_type :: val_type
  gt_mutability :: mutability

definition globaltype_eq :: "global_type \<Rightarrow> global_type \<Rightarrow> bool" where
  "globaltype_eq a b \<longleftrightarrow> gt_val_type a = gt_val_type b \<and> gt_mutability a = gt_mutability b"

record table_type =
  tt_elem_type :: elem_type
  tt_min_size :: int
  tt_max_size :: "int option"

definition tabletype_eq :: "table_type \<Rightarrow> table_type \<Rightarrow> bool" where
  "tabletype_eq a b \<longleftrightarrow>
     tt_elem_type a = tt_elem_type b \<and> tt_min_size a = tt_min_size b \<and> tt_max_size a = tt_max_size b"

record memory_type =
  mt_min_size :: int
  mt_max_size :: "int option"
  mt_is_shared :: bool

definition memorytype_eq :: "memory_type \<Rightarrow> memory_type \<Rightarrow> bool" where
  "memorytype_eq a b \<longleftrightarrow>
     mt_min_size a = mt_min_size b \<and> mt_max_size a = mt_max_size b \<and> mt_is_shared a = mt_is_shared b"

record limits =
  lim_min :: int
  lim_max :: "int option"

definition limits_eq :: "limits \<Rightarrow> limits \<Rightarrow> bool" where
  "limits_eq a b \<longleftrightarrow> lim_min a = lim_min b \<and> lim_max a = lim_max b"

record import =
  imp_module :: string
  imp_field :: string
  imp_import_type :: import_type
  imp_type_index :: "int option"
  imp_table_type :: "table_type option"
  imp_memory_type :: "memory_type option"
  imp_global_type :: "global_type option"

record export =
  exp_name :: string
  exp_export_type :: export_type
  exp_index :: int

section \<open>Typed values\<close>

record 'r wasm_value =
  val_value :: "'r raw"
  val_valtype :: val_type

definition value_i32 :: "int \<Rightarrow> 'r wasm_value" where
  "value_i32 v = \<lparr>val_value = RInt (v AND 0xFFFFFFFF), val_valtype = I32\<rparr>"

definition value_i64 :: "int \<Rightarrow> 'r wasm_value" where
  "value_i64 v = \<lparr>val_value = RInt (v AND 0xFFFFFFFFFFFFFFFF), val_valtype = I64\<rparr>"

definition value_f32 :: "pyfloat \<Rightarrow> 'r wasm_value result" where
  "value_f32 x = res_bind (round_f32 x) (\<lambda>y. Inr \<lparr>val_value = RFloat y, val_valtype = F32\<rparr>)"

definition value_f64 :: "pyfloat \<Rightarrow> 'r wasm_value" where
  "value_f64 x = \<lparr>val_value = RFloat x, val_valtype = F64\<rparr>"

definition value_funcref :: "int option \<Rightarrow> 'r wasm_value" where
  "value_funcref func_idx =
     \<lparr>val_value = (case func_idx of None \<Rightarrow> RNone | Some i \<Rightarrow> RInt i), val_valtype = FUNCREF\<rparr>"

definition value_externref :: "'r raw \<Rightarrow> 'r wasm_value" where
  "value_externref ref = \<lparr>val_value = ref, val_valtype = EXTERNREF\<rparr>"

text \<open>\<^verbatim>\<open>int(v)\<close> and \<^verbatim>\<open>float(v)\<close>.\<close>

fun raw_int :: "'r raw \<Rightarrow> int result" where
  "raw_int (RInt n) = Inr n"
| "raw_int (RFloat x) = int_of_float x"
| "raw_int RNone = Inl TypeError"
| "raw_int (RExtern _) = Inl TypeError"

fun raw_float :: "'r raw \<Rightarrow> pyfloat result" where
  "raw_float (RInt n) = float_of_int n"
| "raw_float (RFloat x) = Inr x"
| "raw_float RNone = Inl TypeError"
| "raw_float (RExtern _) = Inl TypeError"

definition to_i32 :: "'r wasm_value \<Rightarrow> int result" where
  "to_i32 v = res_bind (raw_int (val_value v)) (\<lambda>n. Inr (n AND 0xFFFFFFFF))"

definition to_i64 :: "'r wasm_value \<Rightarrow> int result" where
  "to_i64 v = res_bind (raw_int (val_value v)) (\<lambda>n. Inr (n AND 0xFFFFFFFFFFFFFFFF))"

definition to_f32 :: "'r wasm_value \<Rightarrow> pyfloat result" where
  "to_f32 v = res_bind (raw_float (val_value v)) round_f32"

definition to_f64 :: "'r wasm_value \<Rightarrow> pyfloat result" where
  "to_f64 v = raw_float (val_value v)"

section \<open>The value stack\<close>

text \<open>Two parallel lists, one of values and one of types.\<close>

record 'v typed_stack =
  st_max_height :: int
  st_values :: "'v list"
  st_types :: "val_type list"

text \<open>\<^verbatim>\<open>xs.pop()\<close> on a Python list.\<close>

definition list_pop :: "'a list \<Rightarrow> ('a \<times> 'a list) result" where
  "list_pop xs = (if xs = [] then Inl IndexError else Inr (last xs, butlast xs))"

definition stack_new :: "int \<Rightarrow> 'v typed_stack" where
  "stack_new max_height = \<lparr>st_max_height = max_height, st_values = [], st_types = []\<rparr>"

definition vs_push :: "'v typed_stack \<Rightarrow> 'v \<Rightarrow> val_type \<Rightarrow> unit result \<times> 'v typed_stack" where
  "vs_push s v t =
     (if ilen (st_values s) \<ge> st_max_height s then (Inl RuntimeError, s)
      else (Inr (), s\<lparr>st_values := st_values s @ [v], st_types := st_types s @ [t]\<rparr>))"

definition vs_pop :: "'v typed_stack \<Rightarrow> 'v result \<times> 'v typed_stack" where
  "vs_pop s =
     (if st_values s = [] then (Inl IndexError, s)
      else case list_pop (st_types s) of
          Inl e \<Rightarrow> (Inl e, s)
        | Inr (_, ts) \<Rightarrow>
            (case list_pop (st_values s) of
               Inl e \<Rightarrow> (Inl e, s\<lparr>st_types := ts\<rparr>)
             | Inr (v, vs) \<Rightarrow> (Inr v, s\<lparr>st_types := ts, st_values := vs\<rparr>)))"

definition vs_pop_typed :: "'v typed_stack \<Rightarrow> ('v \<times> val_type) result \<times> 'v typed_stack" where
  "vs_pop_typed s =
     (if st_values s = [] then (Inl IndexError, s)
      else case list_pop (st_types s) of
          Inl e \<Rightarrow> (Inl e, s)
        | Inr (t, ts) \<Rightarrow>
            (case list_pop (st_values s) of
               Inl e \<Rightarrow> (Inl e, s\<lparr>st_types := ts\<rparr>)
             | Inr (v, vs) \<Rightarrow> (Inr (v, t), s\<lparr>st_types := ts, st_values := vs\<rparr>)))"

definition vs_peek :: "'v typed_stack \<Rightarrow> int \<Rightarrow> 'v result" where
  "vs_peek s depth =
     (if depth \<ge> ilen (st_values s) then Inl IndexError
      else py_index (st_values s) (- (depth + 1)))"

definition vs_peek_type :: "'v typed_stack \<Rightarrow> int \<Rightarrow> val_type result" where
  "vs_peek_type s depth =
     (if depth \<ge> ilen (st_types s) then Inl IndexError
      else py_index (st_types s) (- (depth + 1)))"

text \<open>One round of the loop of \<^verbatim>\<open>pop_many\<close>: the value first, then the type.\<close>

fun vs_pop_rounds :: "nat \<Rightarrow> 'v list \<Rightarrow> 'v typed_stack \<Rightarrow> 'v list result \<times> 'v typed_stack" where
  "vs_pop_rounds 0 acc s = (Inr acc, s)"
| "vs_pop_rounds (Suc n) acc s =
     (case list_pop (st_values s) of
        Inl e \<Rightarrow> (Inl e, s)
      | Inr (v, vs) \<Rightarrow>
          (case list_pop (st_types s) of
             Inl e \<Rightarrow> (Inl e, s\<lparr>st_values := vs\<rparr>)
           | Inr (_, ts) \<Rightarrow> vs_pop_rounds n (acc @ [v]) (s\<lparr>st_values := vs, st_types := ts\<rparr>)))"

definition vs_pop_many :: "'v typed_stack \<Rightarrow> int \<Rightarrow> 'v list result \<times> 'v typed_stack" where
  "vs_pop_many s count =
     (if count > ilen (st_values s) then (Inl IndexError, s)
      else let (r, s') = vs_pop_rounds (nat count) [] s in (res_bind r (\<lambda>vs. Inr (rev vs)), s'))"

text \<open>The loop \<^verbatim>\<open>for v, t in zip(values, types): self.push(v, t)\<close>.\<close>

fun vs_push_pairs :: "('v \<times> val_type) list \<Rightarrow> 'v typed_stack \<Rightarrow> unit result \<times> 'v typed_stack" where
  "vs_push_pairs [] s = (Inr (), s)"
| "vs_push_pairs ((v, t) # ps) s =
     (case vs_push s v t of
        (Inl e, s') \<Rightarrow> (Inl e, s')
      | (Inr _, s') \<Rightarrow> vs_push_pairs ps s')"

definition vs_push_many ::
  "'v typed_stack \<Rightarrow> 'v list \<Rightarrow> val_type list \<Rightarrow> unit result \<times> 'v typed_stack" where
  "vs_push_many s values types =
     (if length values \<noteq> length types then (Inl ValueError, s)
      else vs_push_pairs (zip values types) s)"

definition vs_clear :: "'v typed_stack \<Rightarrow> 'v typed_stack" where
  "vs_clear s = s\<lparr>st_values := [], st_types := []\<rparr>"

definition vs_depth :: "'v typed_stack \<Rightarrow> int" where
  "vs_depth s = ilen (st_values s)"

definition vs_is_empty :: "'v typed_stack \<Rightarrow> bool" where
  "vs_is_empty s \<longleftrightarrow> ilen (st_values s) = 0"

section \<open>Utility functions\<close>

definition valtype_from_byte :: "int \<Rightarrow> val_type result" where
  "valtype_from_byte byte_val =
     (case find (\<lambda>t. valtype_code t = byte_val) [I32, I64, F32, F64, V128, FUNCREF, EXTERNREF] of
        None \<Rightarrow> Inl ValueError
      | Some t \<Rightarrow> Inr t)"

text \<open>A list comprehension whose element expression may raise.\<close>

fun map_result :: "('a \<Rightarrow> 'b result) \<Rightarrow> 'a list \<Rightarrow> 'b list result" where
  "map_result f [] = Inr []"
| "map_result f (x # xs) = res_bind (f x) (\<lambda>y. res_bind (map_result f xs) (\<lambda>ys. Inr (y # ys)))"

definition functype_from_bytes :: "int list \<Rightarrow> int list \<Rightarrow> func_type result" where
  "functype_from_bytes params_bytes results_bytes =
     res_bind (map_result valtype_from_byte params_bytes) (\<lambda>params.
     res_bind (map_result valtype_from_byte results_bytes) (\<lambda>results.
       Inr \<lparr>ft_params = params, ft_results = results\<rparr>))"

definition is_stack_type :: "val_type \<Rightarrow> bool" where
  "is_stack_type t \<longleftrightarrow> t \<in> {I32, I64, F32, F64, V128, FUNCREF, EXTERNREF}"

definition match_valtype :: "val_type \<Rightarrow> val_type \<Rightarrow> bool" where
  "match_valtype expected actual \<longleftrightarrow> expected = actual"

definition match_functype :: "func_type \<Rightarrow> func_type \<Rightarrow> bool" where
  "match_functype expected actual \<longleftrightarrow> functype_eq expected expected"

fun type_index_loop :: "func_type \<Rightarrow> func_type list \<Rightarrow> int \<Rightarrow> int result" where
  "type_index_loop functype [] i = Inl ValueError"
| "type_index_loop functype (t # ts) i =
     (if functype_eq t functype then Inr i else type_index_loop functype ts (i + 1))"

definition type_index_from_functype :: "func_type \<Rightarrow> func_type list \<Rightarrow> int result" where
  "type_index_from_functype functype types = type_index_loop functype types 0"

definition type_check_conversion :: "val_type \<Rightarrow> val_type \<Rightarrow> bool" where
  "type_check_conversion src_type dst_type =
     (if src_type = dst_type then True
      else if is_integer src_type \<and> is_integer dst_type then True
      else if is_float src_type \<and> is_float dst_type then True
      else if is_integer src_type \<and> is_float dst_type then True
      else if is_float src_type \<and> is_integer dst_type then True
      else False)"

section \<open>Codes and function types\<close>

lemma valtype_from_byte_iff: "valtype_from_byte b = Inr t \<longleftrightarrow> b = valtype_code t"
  by (cases t) (auto simp: valtype_from_byte_def split: option.splits if_splits)

lemma valtype_from_byte_error: "valtype_from_byte b = Inl e \<Longrightarrow> e = ValueError"
  by (auto simp: valtype_from_byte_def split: option.splits)

lemma map_result_valtype:
  "map_result valtype_from_byte bs = Inr ts \<longleftrightarrow> bs = map valtype_code ts"
  by (induction bs arbitrary: ts) (auto simp: res_bind_eq_Inr valtype_from_byte_iff)

lemma map_result_error:
  "(\<And>x e. x \<in> set xs \<Longrightarrow> f x = Inl e \<Longrightarrow> e = e0) \<Longrightarrow> map_result f xs = Inl e \<Longrightarrow> e = e0"
proof (induction xs)
  case (Cons x xs)
  then show ?case by (cases "f x"; cases "map_result f xs") auto
qed simp

text \<open>
  The binary codes of value types: \<^verbatim>\<open>functype_from_bytes\<close> accepts exactly the lists of the
  seven codes and inverts the encoding of a signature; on anything else it raises \<^verbatim>\<open>ValueError\<close>.
\<close>
theorem functype_codes_roundtrip:
  "(functype_from_bytes ps rs = Inr f \<longleftrightarrow>
      ps = map valtype_code (ft_params f) \<and> rs = map valtype_code (ft_results f)) \<and>
   ((\<forall>f. functype_from_bytes ps rs \<noteq> Inr f) \<longrightarrow> functype_from_bytes ps rs = Inl ValueError)"
proof
  show "functype_from_bytes ps rs = Inr f \<longleftrightarrow>
      ps = map valtype_code (ft_params f) \<and> rs = map valtype_code (ft_results f)"
    by (cases f) (auto simp: functype_from_bytes_def res_bind_eq_Inr map_result_valtype)
  have "map_result valtype_from_byte bs = Inl e \<Longrightarrow> e = ValueError" for bs e
    by (rule map_result_error [of bs valtype_from_byte]) (auto dest: valtype_from_byte_error)
  then show "(\<forall>f. functype_from_bytes ps rs \<noteq> Inr f) \<longrightarrow> functype_from_bytes ps rs = Inl ValueError"
    by (cases "map_result valtype_from_byte ps"; cases "map_result valtype_from_byte rs")
      (auto simp: functype_from_bytes_def)
qed

theorem functype_codes_roundtrip_witness:
  "functype_from_bytes [0x7F, 0x7C] [0x70] = Inr \<lparr>ft_params = [I32, F64], ft_results = [FUNCREF]\<rparr> \<and>
   functype_from_bytes [0x40] [] = Inl ValueError"
proof -
  have "functype_from_bytes [0x40] [] \<noteq> Inr f" for f
    using functype_codes_roundtrip [of "[0x40]" "[]" f]
    by (cases "ft_params f"; cases "hd (ft_params f)") auto
  then show ?thesis
    using functype_codes_roundtrip [of "[0x7F, 0x7C]" "[0x70]"
        "\<lparr>ft_params = [I32, F64], ft_results = [FUNCREF]\<rparr>"]
      functype_codes_roundtrip [of "[0x40]" "[]"] by simp
qed

lemma functype_eq_iff [simp]: "functype_eq f g \<longleftrightarrow> f = g"
  by (cases f; cases g) (auto simp: functype_eq_def)

lemma type_index_loop_Inr:
  "type_index_loop f ts k = Inr i \<longleftrightarrow>
   (k \<le> i \<and> i < k + ilen ts \<and> ts ! nat (i - k) = f \<and> (\<forall>j < nat (i - k). ts ! j \<noteq> f))"
proof (induction ts arbitrary: k)
  case (Cons t ts)
  show ?case
  proof (cases "t = f")
    case True
    then show ?thesis by (auto simp: nth_Cons' not_less le_less)
  next
    case False
    have "(k + 1 \<le> i \<and> ts ! nat (i - (k + 1)) = f \<and> (\<forall>j < nat (i - (k + 1)). ts ! j \<noteq> f)) \<longleftrightarrow>
        (k \<le> i \<and> (t # ts) ! nat (i - k) = f \<and> (\<forall>j < nat (i - k). (t # ts) ! j \<noteq> f))"
    proof (cases "k + 1 \<le> i")
      case True
      then obtain n where n: "nat (i - k) = Suc n" "nat (i - (k + 1)) = n"
        by (metis Suc_nat_eq_nat_zadd1 add_diff_cancel_left' diff_diff_add diff_ge_0_iff_ge
            diff_add_cancel add.commute)
      then show ?thesis using True False by (auto simp: less_Suc_eq_0_disj)
    next
      case notle: False
      then show ?thesis using False by (cases "k \<le> i") auto
    qed
    then show ?thesis using False Cons.IH [of "k + 1"] by auto
  qed
qed simp

lemma type_index_loop_Inl: "type_index_loop f ts k = Inl e \<longleftrightarrow> f \<notin> set ts \<and> e = ValueError"
  by (induction ts arbitrary: k) auto

text \<open>
  Looking up a signature: \<^verbatim>\<open>type_index_from_functype\<close> returns the least index at which the
  signature stands and raises \<^verbatim>\<open>ValueError\<close> exactly when it does not occur.  \<^verbatim>\<open>match_functype\<close>, on
  the other hand, compares its first argument with itself and accepts every pair of signatures.
\<close>
theorem functype_lookup:
  "(type_index_from_functype f types = Inr i \<longleftrightarrow>
      0 \<le> i \<and> i < ilen types \<and> types ! nat i = f \<and> (\<forall>j < nat i. types ! j \<noteq> f)) \<and>
   (type_index_from_functype f types = Inl e \<longleftrightarrow> f \<notin> set types \<and> e = ValueError) \<and>
   match_functype f g"
  by (simp add: type_index_from_functype_def type_index_loop_Inr type_index_loop_Inl match_functype_def)

theorem functype_lookup_witness:
  "type_index_from_functype \<lparr>ft_params = [I32], ft_results = []\<rparr>
     [\<lparr>ft_params = [], ft_results = []\<rparr>, \<lparr>ft_params = [I32], ft_results = []\<rparr>] = Inr 1"
  using functype_lookup [of "\<lparr>ft_params = [I32], ft_results = []\<rparr>"
      "[\<lparr>ft_params = [], ft_results = []\<rparr>, \<lparr>ft_params = [I32], ft_results = []\<rparr>]" 1 KeyError
      "\<lparr>ft_params = [], ft_results = []\<rparr>"]
  by simp

section \<open>Conversions of values\<close>

text \<open>
  Conversions: an integer wrapped as an i32 or i64 value is read back modulo the width; an
  integer below \<open>2^53\<close> in magnitude goes through \<^verbatim>\<open>float\<close> and back unchanged; and
  \<^verbatim>\<open>type_check_conversion\<close> allows exactly the conversions between numeric types besides the
  identity.
\<close>
lemma value_conversions:
  "to_i32 (value_i32 n :: 'r wasm_value) = Inr (n mod 2 ^ 32) \<and>
   to_i64 (value_i64 n :: 'r wasm_value) = Inr (n mod 2 ^ 64) \<and>
   (\<bar>n\<bar> < 2 ^ 53 \<longrightarrow>
      (\<exists>x. to_f64 (\<lparr>val_value = RInt n, val_valtype = t\<rparr> :: 'r wasm_value) = Inr x \<and>
           to_i64 (value_f64 x :: 'r wasm_value) = Inr (n mod 2 ^ 64))) \<and>
   (type_check_conversion src dst \<longleftrightarrow> src = dst \<or> is_numeric src \<and> is_numeric dst)"
proof (intro conjI impI)
  assume "\<bar>n\<bar> < 2 ^ 53"
  then obtain x where "float_of_int n = Inr x" "int_of_float x = Inr n"
    using int_of_float_of_int by blast
  then show "\<exists>x. to_f64 (\<lparr>val_value = RInt n, val_valtype = t\<rparr> :: 'r wasm_value) = Inr x \<and>
      to_i64 (value_f64 x :: 'r wasm_value) = Inr (n mod 2 ^ 64)"
    by (simp add: to_f64_def to_i64_def value_f64_def and_mask_mod)
qed (auto simp: to_i32_def to_i64_def value_i32_def value_i64_def and_mask_mod
    type_check_conversion_def is_numeric_def)

section \<open>The value stack as a bounded stack\<close>

definition in_step :: "'v typed_stack \<Rightarrow> bool" where
  "in_step s \<longleftrightarrow> length (st_values s) = length (st_types s)"

definition st_items :: "'v typed_stack \<Rightarrow> ('v \<times> val_type) list" where
  "st_items s = zip (st_values s) (st_types s)"

lemma length_st_items [simp]: "in_step s \<Longrightarrow> length (st_items s) = length (st_values s)"
  by (simp add: in_step_def st_items_def)

lemma in_step_snoc:
  assumes "in_step s" and "st_values s \<noteq> []"
  obtains vs v ts t where "st_values s = vs @ [v]" and "st_types s = ts @ [t]" and "length vs = length ts"
proof -
  from assms have "st_types s \<noteq> []" by (auto simp: in_step_def)
  with assms that show thesis
    by (cases "st_values s" rule: rev_cases; cases "st_types s" rule: rev_cases) (auto simp: in_step_def)
qed

lemma vs_pop_typed_in_step:
  assumes "in_step s" and "st_values s \<noteq> []"
  shows "vs_pop_typed s = (Inr (last (st_items s)),
    s\<lparr>st_types := butlast (st_types s), st_values := butlast (st_values s)\<rparr>)"
proof -
  obtain vs v ts t where "st_values s = vs @ [v]" "st_types s = ts @ [t]" "length vs = length ts"
    by (rule in_step_snoc [OF assms])
  then show ?thesis by (simp add: vs_pop_typed_def list_pop_def st_items_def)
qed

lemma st_items_butlast:
  "in_step s \<Longrightarrow> zip (butlast (st_values s)) (butlast (st_types s)) = butlast (st_items s)"
  by (simp add: in_step_def st_items_def butlast_conv_take min_def take_zip)

interpretation vs: bounded_stack in_step st_items st_max_height
  "\<lambda>s (v, t). vs_push s v t" vs_pop_typed
proof unfold_locales
  fix s :: "'a typed_stack" and x :: "'a \<times> val_type"
  assume s: "in_step s"
  show "ilen (st_items s) < st_max_height s \<Longrightarrow>
      fst (case x of (v, t) \<Rightarrow> vs_push s v t) = Inr () \<and>
      in_step (snd (case x of (v, t) \<Rightarrow> vs_push s v t)) \<and>
      st_max_height (snd (case x of (v, t) \<Rightarrow> vs_push s v t)) = st_max_height s \<and>
      st_items (snd (case x of (v, t) \<Rightarrow> vs_push s v t)) = st_items s @ [x]"
    using s by (auto simp: vs_push_def in_step_def st_items_def split: prod.split)
  show "st_max_height s \<le> ilen (st_items s) \<Longrightarrow>
      (case x of (v, t) \<Rightarrow> vs_push s v t) = (Inl RuntimeError, s)"
    using s by (auto simp: vs_push_def split: prod.split)
next
  fix s :: "'a typed_stack"
  assume s: "in_step s"
  show "st_items s \<noteq> [] \<Longrightarrow>
      fst (vs_pop_typed s) = Inr (last (st_items s)) \<and> in_step (snd (vs_pop_typed s)) \<and>
      st_max_height (snd (vs_pop_typed s)) = st_max_height s \<and>
      st_items (snd (vs_pop_typed s)) = butlast (st_items s)"
    using vs_pop_typed_in_step [OF s] st_items_butlast [OF s] s
    by (auto simp: in_step_def st_items_def)
  show "st_items s = [] \<Longrightarrow> vs_pop_typed s = (Inl IndexError, s)"
    using length_st_items [OF s] by (simp add: vs_pop_typed_def)
qed

end
