(* ===== verification/WasmStack.thy ===== *)
theory WasmStack
  imports WasmTypes
begin

text \<open>
  The stacks of the execution engine, \<^verbatim>\<open>wasm/src/engine/stack.py\<close>: operand stack, control stack
  and call stack with all their methods except \<^verbatim>\<open>__repr__\<close>.  The operand stack keeps the same two
  parallel lists as the \<^verbatim>\<open>ValueStack\<close> and shares its record.
\<close>

section \<open>The operand stack\<close>

definition os_push :: "'v typed_stack \<Rightarrow> 'v \<Rightarrow> val_type \<Rightarrow> unit result \<times> 'v typed_stack" where
  "os_push s v t =
     (if ilen (st_values s) \<ge> st_max_height s then (Inl RuntimeError, s)
      else (Inr (), s\<lparr>st_values := st_values s @ [v], st_types := st_types s @ [t]\<rparr>))"

definition push_i32 :: "'r raw typed_stack \<Rightarrow> int \<Rightarrow> unit result \<times> 'r raw typed_stack" where
  "push_i32 s v = os_push s (RInt (v AND 0xFFFFFFFF)) I32"

definition push_i64 :: "'r raw typed_stack \<Rightarrow> int \<Rightarrow> unit result \<times> 'r raw typed_stack" where
  "push_i64 s v = os_push s (RInt (v AND 0xFFFFFFFFFFFFFFFF)) I64"

definition push_f32 :: "'r raw typed_stack \<Rightarrow> pyfloat \<Rightarrow> unit result \<times> 'r raw typed_stack" where
  "push_f32 s x =
     (case round_f32 x of
        Inl e \<Rightarrow> (Inl e, s)
      | Inr y \<Rightarrow> os_push s (RFloat y) F32)"

definition push_f64 :: "'r raw typed_stack \<Rightarrow> pyfloat \<Rightarrow> unit result \<times> 'r raw typed_stack" where
  "push_f64 s x = os_push s (RFloat x) F64"

definition os_pop :: "'v typed_stack \<Rightarrow> 'v result \<times> 'v typed_stack" where
  "os_pop s =
     (if st_values s = [] then (Inl IndexError, s)
      else case list_pop (st_types s) of
          Inl e \<Rightarrow> (Inl e, s)
        | Inr (_, ts) \<Rightarrow>
            (case list_pop (st_values s) of
               Inl e \<Rightarrow> (Inl e, s\<lparr>st_types := ts\<rparr>)
             | Inr (v, vs) \<Rightarrow> (Inr v, s\<lparr>st_types := ts, st_values := vs\<rparr>)))"

text \<open>The body that the four typed pops share, with the type each of them names.\<close>

definition pop_expecting :: "val_type \<Rightarrow> 'v typed_stack \<Rightarrow> 'v result \<times> 'v typed_stack" where
  "pop_expecting expected s =
     (if st_values s = [] then (Inl IndexError, s)
      else case list_pop (st_types s) of
          Inl e \<Rightarrow> (Inl e, s)
        | Inr (t, ts) \<Rightarrow>
            if t \<noteq> expected then (Inl TypeError, s\<lparr>st_types := ts\<rparr>)
            else case list_pop (st_values s) of
                Inl e \<Rightarrow> (Inl e, s\<lparr>st_types := ts\<rparr>)
              | Inr (v, vs) \<Rightarrow> (Inr v, s\<lparr>st_types := ts, st_values := vs\<rparr>))"

definition pop_i32 :: "'v typed_stack \<Rightarrow> 'v result \<times> 'v typed_stack" where
  "pop_i32 s = pop_expecting I32 s"

definition pop_i64 :: "'v typed_stack \<Rightarrow> 'v result \<times> 'v typed_stack" where
  "pop_i64 s = pop_expecting I64 s"

definition pop_f32 :: "'v typed_stack \<Rightarrow> 'v result \<times> 'v typed_stack" where
  "pop_f32 s = pop_expecting F32 s"

definition pop_f64 :: "'v typed_stack \<Rightarrow> 'v result \<times> 'v typed_stack" where
  "pop_f64 s = pop_expecting F64 s"

text \<open>Here the value is popped before the type.\<close>

definition os_pop_typed :: "'v typed_stack \<Rightarrow> ('v \<times> val_type) result \<times> 'v typed_stack" where
  "os_pop_typed s =
     (if st_values s = [] then (Inl IndexError, s)
      else case list_pop (st_values s) of
          Inl e \<Rightarrow> (Inl e, s)
        | Inr (v, vs) \<Rightarrow>
            (case list_pop (st_types s) of
               Inl e \<Rightarrow> (Inl e, s\<lparr>st_values := vs\<rparr>)
             | Inr (t, ts) \<Rightarrow> (Inr (v, t), s\<lparr>st_values := vs, st_types := ts\<rparr>)))"

definition os_peek :: "'v typed_stack \<Rightarrow> int \<Rightarrow> 'v result" where
  "os_peek s depth =
     (if depth \<ge> ilen (st_values s) then Inl IndexError
      else py_index (st_values s) (- (depth + 1)))"

definition os_peek_type :: "'v typed_stack \<Rightarrow> int \<Rightarrow> val_type result" where
  "os_peek_type s depth =
     (if depth \<ge> ilen (st_types s) then Inl IndexError
      else py_index (st_types s) (- (depth + 1)))"

text \<open>\<^verbatim>\<open>[xs.pop() for _ in range(n)]\<close>: the popped elements and what is left, or where it raised.\<close>

fun pop_times :: "nat \<Rightarrow> 'a list \<Rightarrow> 'a list result \<times> 'a list" where
  "pop_times 0 xs = (Inr [], xs)"
| "pop_times (Suc n) xs =
     (case list_pop xs of
        Inl e \<Rightarrow> (Inl e, xs)
      | Inr (x, xs') \<Rightarrow> let (r, rest) = pop_times n xs' in (res_bind r (\<lambda>ys. Inr (x # ys)), rest))"

definition os_pop_many :: "'v typed_stack \<Rightarrow> int \<Rightarrow> 'v list result \<times> 'v typed_stack" where
  "os_pop_many s count =
     (if count > ilen (st_values s) then (Inl IndexError, s)
      else
        let (rv, vs) = pop_times (nat count) (st_values s)
        in case rv of
             Inl e \<Rightarrow> (Inl e, s\<lparr>st_values := vs\<rparr>)
           | Inr popped \<Rightarrow>
               (let (rt, ts) = pop_times (nat count) (st_types s)
                in (res_bind rt (\<lambda>_. Inr (rev popped)), s\<lparr>st_values := vs, st_types := ts\<rparr>)))"

fun os_push_pairs :: "('v \<times> val_type) list \<Rightarrow> 'v typed_stack \<Rightarrow> unit result \<times> 'v typed_stack" where
  "os_push_pairs [] s = (Inr (), s)"
| "os_push_pairs ((v, t) # ps) s =
     (case os_push s v t of
        (Inl e, s') \<Rightarrow> (Inl e, s')
      | (Inr _, s') \<Rightarrow> os_push_pairs ps s')"

definition os_push_many ::
  "'v typed_stack \<Rightarrow> 'v list \<Rightarrow> val_type list \<Rightarrow> unit result \<times> 'v typed_stack" where
  "os_push_many s values types = os_push_pairs (zip values types) s"

text \<open>\<^verbatim>\<open>del xs[height:]\<close> keeps the elements before the clamped position.\<close>

definition os_truncate :: "'v typed_stack \<Rightarrow> int \<Rightarrow> 'v typed_stack" where
  "os_truncate s height =
     (if height < ilen (st_values s)
      then s\<lparr>st_values := take (py_clamp (length (st_values s)) height) (st_values s),
             st_types := take (py_clamp (length (st_types s)) height) (st_types s)\<rparr>
      else s)"

definition os_clear :: "'v typed_stack \<Rightarrow> 'v typed_stack" where
  "os_clear s = s\<lparr>st_values := [], st_types := []\<rparr>"

definition os_height :: "'v typed_stack \<Rightarrow> int" where
  "os_height s = ilen (st_values s)"

definition os_is_empty :: "'v typed_stack \<Rightarrow> bool" where
  "os_is_empty s \<longleftrightarrow> ilen (st_values s) = 0"

section \<open>The control stack\<close>

record 'i control_entry =
  ce_kind :: string
  ce_block_type :: block_type
  ce_start_pc :: int
  ce_start_stack_height :: int
  ce_func_idx :: "int option"
  ce_end_pc :: "int option"
  ce_else_pc :: "int option"
  ce_unreachable :: bool
  ce_instructions :: "'i list"

definition control_entry_new ::
  "string \<Rightarrow> block_type \<Rightarrow> int \<Rightarrow> int \<Rightarrow> int option \<Rightarrow> 'i control_entry" where
  "control_entry_new kind block_type start_pc start_stack_height func_idx =
     \<lparr>ce_kind = kind, ce_block_type = block_type, ce_start_pc = start_pc,
      ce_start_stack_height = start_stack_height, ce_func_idx = func_idx,
      ce_end_pc = None, ce_else_pc = None, ce_unreachable = False, ce_instructions = []\<rparr>"

definition label_types :: "'i control_entry \<Rightarrow> val_type list" where
  "label_types e =
     (if ce_kind e = ''loop'' then bt_params (ce_block_type e) else bt_results (ce_block_type e))"

definition arity :: "'i control_entry \<Rightarrow> int" where
  "arity e = ilen (bt_results (ce_block_type e))"

record 'f frame_stack =
  fs_max_depth :: int
  fs_frames :: "'f list"

definition cs_push :: "'f frame_stack \<Rightarrow> 'f \<Rightarrow> unit result \<times> 'f frame_stack" where
  "cs_push s entry =
     (if ilen (fs_frames s) \<ge> fs_max_depth s then (Inl RuntimeError, s)
      else (Inr (), s\<lparr>fs_frames := fs_frames s @ [entry]\<rparr>))"

definition cs_pop :: "'f frame_stack \<Rightarrow> 'f result \<times> 'f frame_stack" where
  "cs_pop s =
     (if fs_frames s = [] then (Inl IndexError, s)
      else case list_pop (fs_frames s) of
          Inl e \<Rightarrow> (Inl e, s)
        | Inr (f, fs) \<Rightarrow> (Inr f, s\<lparr>fs_frames := fs\<rparr>))"

definition cs_peek :: "'f frame_stack \<Rightarrow> 'f result" where
  "cs_peek s = (if fs_frames s = [] then Inl IndexError else py_index (fs_frames s) (- 1))"

definition get_label :: "'f frame_stack \<Rightarrow> int \<Rightarrow> 'f result" where
  "get_label s depth =
     (if depth \<ge> ilen (fs_frames s) then Inl IndexError
      else py_index (fs_frames s) (- (depth + 1)))"

definition get_frame :: "'i control_entry frame_stack \<Rightarrow> int \<Rightarrow> 'i control_entry option" where
  "get_frame s func_idx = find (\<lambda>f. ce_func_idx f = Some func_idx) (rev (fs_frames s))"

definition cs_depth :: "'f frame_stack \<Rightarrow> int" where
  "cs_depth s = ilen (fs_frames s)"

definition cs_is_empty :: "'f frame_stack \<Rightarrow> bool" where
  "cs_is_empty s \<longleftrightarrow> ilen (fs_frames s) = 0"

section \<open>The call stack\<close>

record 'v call_frame =
  cf_func_idx :: int
  cf_locals :: "'v list"
  cf_arity :: int
  cf_return_pc :: int
  cf_return_height :: int
  cf_stack_height :: int

definition call_push :: "'v call_frame frame_stack \<Rightarrow> 'v call_frame \<Rightarrow> unit result \<times> 'v call_frame frame_stack" where
  "call_push s frame =
     (if ilen (fs_frames s) \<ge> fs_max_depth s then (Inl RuntimeError, s)
      else (Inr (), s\<lparr>fs_frames := fs_frames s @ [frame]\<rparr>))"

definition call_pop :: "'v call_frame frame_stack \<Rightarrow> 'v call_frame result \<times> 'v call_frame frame_stack" where
  "call_pop s =
     (if fs_frames s = [] then (Inl IndexError, s)
      else case list_pop (fs_frames s) of
          Inl e \<Rightarrow> (Inl e, s)
        | Inr (f, fs) \<Rightarrow> (Inr f, s\<lparr>fs_frames := fs\<rparr>))"

definition call_peek :: "'v call_frame frame_stack \<Rightarrow> 'v call_frame result" where
  "call_peek s = (if fs_frames s = [] then Inl IndexError else py_index (fs_frames s) (- 1))"

definition call_depth :: "'v call_frame frame_stack \<Rightarrow> int" where
  "call_depth s = ilen (fs_frames s)"

section \<open>The three stacks as bounded stacks\<close>

lemma os_pop_typed_in_step:
  assumes "in_step s" and "st_values s \<noteq> []"
  shows "os_pop_typed s = (Inr (last (st_items s)),
    s\<lparr>st_types := butlast (st_types s), st_values := butlast (st_values s)\<rparr>)"
proof -
  obtain vs v ts t where "st_values s = vs @ [v]" "st_types s = ts @ [t]" "length vs = length ts"
    by (rule in_step_snoc [OF assms])
  then show ?thesis by (simp add: os_pop_typed_def list_pop_def st_items_def)
qed

interpretation os: bounded_stack in_step st_items st_max_height
  "\<lambda>s (v, t). os_push s v t" os_pop_typed
proof unfold_locales
  fix s :: "'a typed_stack" and x :: "'a \<times> val_type"
  assume s: "in_step s"
  show "ilen (st_items s) < st_max_height s \<Longrightarrow>
      fst (case x of (v, t) \<Rightarrow> os_push s v t) = Inr () \<and>
      in_step (snd (case x of (v, t) \<Rightarrow> os_push s v t)) \<and>
      st_max_height (snd (case x of (v, t) \<Rightarrow> os_push s v t)) = st_max_height s \<and>
      st_items (snd (case x of (v, t) \<Rightarrow> os_push s v t)) = st_items s @ [x]"
    using s by (auto simp: os_push_def in_step_def st_items_def split: prod.split)
  show "st_max_height s \<le> ilen (st_items s) \<Longrightarrow>
      (case x of (v, t) \<Rightarrow> os_push s v t) = (Inl RuntimeError, s)"
    using s by (auto simp: os_push_def split: prod.split)
next
  fix s :: "'a typed_stack"
  assume s: "in_step s"
  show "st_items s \<noteq> [] \<Longrightarrow>
      fst (os_pop_typed s) = Inr (last (st_items s)) \<and> in_step (snd (os_pop_typed s)) \<and>
      st_max_height (snd (os_pop_typed s)) = st_max_height s \<and>
      st_items (snd (os_pop_typed s)) = butlast (st_items s)"
    using os_pop_typed_in_step [OF s] st_items_butlast [OF s] s
    by (auto simp: in_step_def st_items_def)
  show "st_items s = [] \<Longrightarrow> os_pop_typed s = (Inl IndexError, s)"
    using length_st_items [OF s] by (simp add: os_pop_typed_def list_pop_def)
qed

interpretation cs: bounded_stack "\<lambda>_. True" fs_frames fs_max_depth cs_push cs_pop
  by unfold_locales (auto simp: cs_push_def cs_pop_def list_pop_def)

interpretation call: bounded_stack "\<lambda>_. True" fs_frames fs_max_depth call_push call_pop
  by unfold_locales (auto simp: call_push_def call_pop_def list_pop_def)

section \<open>Typed pops\<close>

lemma pop_expecting_in_step:
  assumes "in_step s" and "st_items s = xs @ [(v, t)]"
  shows "pop_expecting expected s =
    (if t = expected
     then (Inr v, s\<lparr>st_types := butlast (st_types s), st_values := butlast (st_values s)\<rparr>)
     else (Inl TypeError, s\<lparr>st_types := butlast (st_types s)\<rparr>))"
proof -
  have "st_values s \<noteq> []" using assms length_st_items [OF assms(1)] by auto
  then obtain vs v' ts t' where "st_values s = vs @ [v']" "st_types s = ts @ [t']" "length vs = length ts"
    by (rule in_step_snoc [OF assms(1)])
  moreover from this assms(2) have "v' = v" "t' = t" by (simp_all add: st_items_def)
  ultimately show ?thesis by (simp add: pop_expecting_def list_pop_def)
qed

section \<open>All pushes and single pops\<close>

text \<open>The calls of the operand stack that push or pop one value, and their outcomes.\<close>

datatype 'r os_call =
    O_push "'r raw" val_type
  | O_push_i32 int
  | O_push_i64 int
  | O_push_f32 pyfloat
  | O_push_f64 pyfloat
  | O_pop
  | O_pop_typed
  | O_pop_i32
  | O_pop_i64
  | O_pop_f32
  | O_pop_f64

datatype 'r os_outcome = Done | Popped "'r raw" | Popped_typed "'r raw" val_type

definition outcome :: "('a \<Rightarrow> 'r os_outcome) \<Rightarrow> 'a result \<times> 's \<Rightarrow> 'r os_outcome result \<times> 's" where
  "outcome f p = (res_bind (fst p) (\<lambda>x. Inr (f x)), snd p)"

fun os_do :: "'r os_call \<Rightarrow> 'r raw typed_stack \<Rightarrow> 'r os_outcome result \<times> 'r raw typed_stack" where
  "os_do (O_push v t) s = outcome (\<lambda>_. Done) (os_push s v t)"
| "os_do (O_push_i32 n) s = outcome (\<lambda>_. Done) (push_i32 s n)"
| "os_do (O_push_i64 n) s = outcome (\<lambda>_. Done) (push_i64 s n)"
| "os_do (O_push_f32 x) s = outcome (\<lambda>_. Done) (push_f32 s x)"
| "os_do (O_push_f64 x) s = outcome (\<lambda>_. Done) (push_f64 s x)"
| "os_do O_pop s = outcome Popped (os_pop s)"
| "os_do O_pop_typed s = outcome (\<lambda>(v, t). Popped_typed v t) (os_pop_typed s)"
| "os_do O_pop_i32 s = outcome Popped (pop_i32 s)"
| "os_do O_pop_i64 s = outcome Popped (pop_i64 s)"
| "os_do O_pop_f32 s = outcome Popped (pop_f32 s)"
| "os_do O_pop_f64 s = outcome Popped (pop_f64 s)"

text \<open>The same on one list of typed values, the last one on top.\<close>

definition ref_push :: "int \<Rightarrow> 'r raw \<Rightarrow> val_type \<Rightarrow> ('r raw \<times> val_type) list \<Rightarrow> 'r os_outcome result \<times> ('r raw \<times> val_type) list" where
  "ref_push cap v t xs = (if ilen xs < cap then (Inr Done, xs @ [(v, t)]) else (Inl RuntimeError, xs))"

definition ref_pop :: "('r raw \<times> val_type \<Rightarrow> 'r os_outcome) \<Rightarrow> ('r raw \<times> val_type) list \<Rightarrow> 'r os_outcome result \<times> ('r raw \<times> val_type) list" where
  "ref_pop f xs = (if xs = [] then (Inl IndexError, xs) else (Inr (f (last xs)), butlast xs))"

fun ref_do :: "int \<Rightarrow> 'r os_call \<Rightarrow> ('r raw \<times> val_type) list \<Rightarrow> 'r os_outcome result \<times> ('r raw \<times> val_type) list" where
  "ref_do cap (O_push v t) xs = ref_push cap v t xs"
| "ref_do cap (O_push_i32 n) xs = ref_push cap (RInt (n mod 2 ^ 32)) I32 xs"
| "ref_do cap (O_push_i64 n) xs = ref_push cap (RInt (n mod 2 ^ 64)) I64 xs"
| "ref_do cap (O_push_f32 x) xs = (case round_f32 x of Inl e \<Rightarrow> (Inl e, xs) | Inr y \<Rightarrow> ref_push cap (RFloat y) F32 xs)"
| "ref_do cap (O_push_f64 x) xs = ref_push cap (RFloat x) F64 xs"
| "ref_do cap O_pop_typed xs = ref_pop (\<lambda>(v, t). Popped_typed v t) xs"
| "ref_do cap _ xs = ref_pop (\<lambda>(v, t). Popped v) xs"

text \<open>The pops that find a value of another type on top.\<close>

fun pop_type :: "'r os_call \<Rightarrow> val_type option" where
  "pop_type O_pop_i32 = Some I32"
| "pop_type O_pop_i64 = Some I64"
| "pop_type O_pop_f32 = Some F32"
| "pop_type O_pop_f64 = Some F64"
| "pop_type _ = None"

definition wrong_type :: "'r os_call \<Rightarrow> ('r raw \<times> val_type) list \<Rightarrow> bool" where
  "wrong_type c xs \<longleftrightarrow> xs \<noteq> [] \<and> pop_type c \<noteq> None \<and> pop_type c \<noteq> Some (snd (last xs))"

fun os_run :: "'r os_call list \<Rightarrow> 'r raw typed_stack \<Rightarrow> 'r os_outcome result list \<times> 'r raw typed_stack" where
  "os_run [] s = ([], s)"
| "os_run (c # cs) s = (let (r, s') = os_do c s; (rs, s'') = os_run cs s' in (r # rs, s''))"

fun ref_run :: "int \<Rightarrow> 'r os_call list \<Rightarrow> ('r raw \<times> val_type) list \<Rightarrow> 'r os_outcome result list \<times> ('r raw \<times> val_type) list" where
  "ref_run cap [] xs = ([], xs)"
| "ref_run cap (c # cs) xs = (let (r, xs') = ref_do cap c xs; (rs, xs'') = ref_run cap cs xs' in (r # rs, xs''))"

fun well_typed :: "int \<Rightarrow> 'r os_call list \<Rightarrow> ('r raw \<times> val_type) list \<Rightarrow> bool" where
  "well_typed cap [] xs = True"
| "well_typed cap (c # cs) xs = (\<not> wrong_type c xs \<and> well_typed cap cs (snd (ref_do cap c xs)))"

text \<open>One call: a push, a pop with the type that stands on top, and a pop with another.\<close>

definition refines :: "'r os_outcome result \<times> 'r raw typed_stack \<Rightarrow> int \<Rightarrow> 'r os_outcome result \<times> ('r raw \<times> val_type) list \<Rightarrow> bool" where
  "refines p cap q \<longleftrightarrow> in_step (snd p) \<and> st_max_height (snd p) = cap \<and> (fst p, st_items (snd p)) = q"

lemma os_push_refines:
  "in_step s \<Longrightarrow> refines (outcome (\<lambda>_. Done) (os_push s v t)) (st_max_height s) (ref_push (st_max_height s) v t (st_items s))"
  using length_st_items [of s]
  by (auto simp: refines_def outcome_def os_push_def ref_push_def in_step_def st_items_def)

lemma pop_refines:
  assumes "in_step s"
  shows "refines (outcome Popped (os_pop s)) (st_max_height s) (ref_pop (\<lambda>(v, t). Popped v) (st_items s))"
    and "refines (outcome (\<lambda>(v, t). Popped_typed v t) (os_pop_typed s)) (st_max_height s) (ref_pop (\<lambda>(v, t). Popped_typed v t) (st_items s))"
    and "st_items s = [] \<or> snd (last (st_items s)) = expected \<Longrightarrow>
      refines (outcome Popped (pop_expecting expected s)) (st_max_height s) (ref_pop (\<lambda>(v, t). Popped v) (st_items s))"
    and "st_items s \<noteq> [] \<Longrightarrow> snd (last (st_items s)) \<noteq> expected \<Longrightarrow>
      fst (pop_expecting expected s) = Inl TypeError \<and> \<not> in_step (snd (pop_expecting expected s))"
proof -
  consider (empty) "st_values s = []" "st_items s = []"
    | (top) vs v ts t where "st_values s = vs @ [v]" "st_types s = ts @ [t]" "length vs = length ts" "st_items s = zip vs ts @ [(v, t)]"
  proof (cases "st_values s = []")
    case True
    then show thesis using empty by (simp add: st_items_def)
  next
    case False
    then obtain vs v ts t where "st_values s = vs @ [v]" "st_types s = ts @ [t]" "length vs = length ts"
      by (rule in_step_snoc [OF assms])
    then show thesis using top by (simp add: st_items_def)
  qed
  note tops = this
  show "refines (outcome Popped (os_pop s)) (st_max_height s) (ref_pop (\<lambda>(v, t). Popped v) (st_items s))"
    by (rule tops) (use assms in \<open>auto simp: refines_def outcome_def os_pop_def ref_pop_def list_pop_def in_step_def st_items_def\<close>)
  show "refines (outcome (\<lambda>(v, t). Popped_typed v t) (os_pop_typed s)) (st_max_height s) (ref_pop (\<lambda>(v, t). Popped_typed v t) (st_items s))"
    by (rule tops) (use assms in \<open>auto simp: refines_def outcome_def os_pop_typed_def ref_pop_def list_pop_def in_step_def st_items_def\<close>)
  show "refines (outcome Popped (pop_expecting expected s)) (st_max_height s) (ref_pop (\<lambda>(v, t). Popped v) (st_items s))"
    if "st_items s = [] \<or> snd (last (st_items s)) = expected"
    by (rule tops) (use assms that in \<open>auto simp: refines_def outcome_def pop_expecting_def ref_pop_def list_pop_def in_step_def st_items_def\<close>)
  show "fst (pop_expecting expected s) = Inl TypeError \<and> \<not> in_step (snd (pop_expecting expected s))"
    if "st_items s \<noteq> []" "snd (last (st_items s)) \<noteq> expected"
    by (rule tops) (use assms that in \<open>auto simp: pop_expecting_def list_pop_def in_step_def\<close>)
qed

lemma masks: "n AND 0xFFFFFFFF = n mod 2 ^ 32" "n AND 0xFFFFFFFFFFFFFFFF = n mod (2 :: int) ^ 64" for n :: int
  using take_bit_eq_mask [of 32 n] take_bit_eq_mask [of 64 n] by (simp_all add: take_bit_eq_mod mask_eq_exp_minus_1)

lemma os_do_refines:
  assumes "in_step s"
  shows "\<not> wrong_type c (st_items s) \<Longrightarrow> refines (os_do c s) (st_max_height s) (ref_do (st_max_height s) c (st_items s))"
    and "wrong_type c (st_items s) \<Longrightarrow> fst (os_do c s) = Inl TypeError \<and> \<not> in_step (snd (os_do c s))"
proof -
  show "refines (os_do c s) (st_max_height s) (ref_do (st_max_height s) c (st_items s))" if typed: "\<not> wrong_type c (st_items s)"
  proof (cases c)
    case (O_push_f32 x)
    then show ?thesis
      using os_push_refines [OF assms, of "RFloat (projr (round_f32 x))" F32] assms
      by (cases "round_f32 x") (auto simp: push_f32_def refines_def outcome_def)
  qed (use os_push_refines [OF assms] pop_refines(1,2,3) [OF assms] typed in
      \<open>auto simp: push_i32_def push_i64_def push_f64_def masks pop_i32_def pop_i64_def pop_f32_def pop_f64_def wrong_type_def\<close>)
  show "fst (os_do c s) = Inl TypeError \<and> \<not> in_step (snd (os_do c s))" if "wrong_type c (st_items s)"
    using that pop_refines(4) [OF assms]
    by (cases c) (auto simp: wrong_type_def outcome_def pop_i32_def pop_i64_def pop_f32_def pop_f64_def)
qed

lemma os_run_refines:
  "in_step s \<Longrightarrow> well_typed (st_max_height s) cs (st_items s) \<Longrightarrow>
   in_step (snd (os_run cs s)) \<and> (fst (os_run cs s), st_items (snd (os_run cs s))) = ref_run (st_max_height s) cs (st_items s)"
proof (induction cs arbitrary: s)
  case (Cons c cs)
  have "refines (os_do c s) (st_max_height s) (ref_do (st_max_height s) c (st_items s))"
    using os_do_refines(1) [OF Cons.prems(1)] Cons.prems(2) by simp
  then have step: "in_step (snd (os_do c s))" "st_max_height (snd (os_do c s)) = st_max_height s"
    "ref_do (st_max_height s) c (st_items s) = (fst (os_do c s), st_items (snd (os_do c s)))"
    by (auto simp: refines_def)
  then have typed: "well_typed (st_max_height (snd (os_do c s))) cs (st_items (snd (os_do c s)))"
    using Cons.prems(2) by simp
  from Cons.IH [OF step(1) typed] have rest: "in_step (snd (os_run cs (snd (os_do c s))))"
    "ref_run (st_max_height s) cs (st_items (snd (os_do c s))) =
      (fst (os_run cs (snd (os_do c s))), st_items (snd (os_run cs (snd (os_do c s)))))"
    by (simp_all add: step(2))
  then show ?case by (simp add: case_prod_beta Let_def step(3) del: os_do.simps ref_do.simps)
qed simp

text \<open>
  C38. Refinement of the stacks.  On any sequence of pushes and pops of single values, \<^verbatim>\<open>push\<close>, \<^verbatim>\<open>push_i32\<close> and the
  other typed pushes, \<^verbatim>\<open>pop\<close>, \<^verbatim>\<open>pop_typed\<close>, \<^verbatim>\<open>pop_i32\<close> and the other pops by type, in which no pop by type meets a value of
  another type, and with every call's outcome compared (including overflow and underflow), the operand stack with its
  two parallel lists behaves as one bounded list of typed values.  A pop that meets a value of another type then
  raises \<^verbatim>\<open>TypeError\<close> and puts the two lists out of step for good.  The control stack and the call stack behave as
  bounded lists of frames on any sequence of pushes and pops.
\<close>
theorem stacks_refine_lists:
  fixes calls :: "'w call_frame frame_stack"
  assumes "in_step s" and "well_typed (st_max_height s) ps (st_items s)"
  shows "(\<lambda>(rs, s'). (rs, st_items s')) (os_run ps s) = ref_run (st_max_height s) ps (st_items s) \<and>
    in_step (snd (os_run ps s)) \<and>
    (\<forall>c. wrong_type c (st_items (snd (os_run ps s))) \<longrightarrow>
      fst (os_do c (snd (os_run ps s))) = Inl TypeError \<and> \<not> in_step (snd (os_do c (snd (os_run ps s))))) \<and>
    (\<lambda>(rs, s'). (rs, fs_frames s')) (stack_run cs_push cs_pop qs frames) =
      list_run (fs_max_depth frames) qs (fs_frames frames) \<and>
    (\<lambda>(rs, s'). (rs, fs_frames s')) (stack_run call_push call_pop cqs calls) =
      list_run (fs_max_depth calls) cqs (fs_frames calls)"
  using os_run_refines [OF assms] os_do_refines(2) [of "snd (os_run ps s)"] cs.run_refines [where s = frames and ps = qs]
    call.run_refines [where s = calls and ps = cqs]
  by (simp add: case_prod_beta)

theorem stacks_refine_lists_witness:
  "fst (os_run [O_push_i32 (- 1), O_push_i64 8, O_pop_i32] \<lparr>st_max_height = 1, st_values = [] :: nat raw list, st_types = []\<rparr>) =
   [Inr Done, Inl RuntimeError, Inr (Popped (RInt 4294967295))]"
  using stacks_refine_lists [of "\<lparr>st_max_height = 1, st_values = [] :: nat raw list, st_types = []\<rparr>"
      "[O_push_i32 (- 1), O_push_i64 8, O_pop_i32]" "[]" "\<lparr>fs_max_depth = 1, fs_frames = [] :: nat list\<rparr>"
      "[]" "\<lparr>fs_max_depth = 1, fs_frames = [] :: nat call_frame list\<rparr>"]
  by (simp add: in_step_def st_items_def case_prod_beta wrong_type_def ref_push_def ref_pop_def del: os_run.simps os_do.simps)

section \<open>Pops by type\<close>

text \<open>
  Typed pops: on a stack whose top entry has the expected type, \<^verbatim>\<open>pop_i32\<close> (and the other
  three) returns its value and removes the entry.  On a top entry of another type it raises
  \<^verbatim>\<open>TypeError\<close> after having removed only the type, so that values and types are out of step and the
  next pop reports the remaining entries with the wrong types.
\<close>
theorem typed_pop_behaviour:
  assumes "in_step s" and "st_items s = xs @ [(v, t)]"
    and "(expected, typed_pop) \<in> {(I32, pop_i32), (I64, pop_i64), (F32, pop_f32), (F64, pop_f64)}"
  shows "if t = expected
    then fst (typed_pop s) = Inr v \<and> in_step (snd (typed_pop s)) \<and> st_items (snd (typed_pop s)) = xs
    else fst (typed_pop s) = Inl TypeError \<and> \<not> in_step (snd (typed_pop s)) \<and>
      (xs \<noteq> [] \<longrightarrow> fst (os_pop_typed (snd (typed_pop s))) = Inr (v, snd (last xs)))"
proof -
  have tp: "typed_pop s = pop_expecting expected s"
    using assms(3) by (auto simp: pop_i32_def pop_i64_def pop_f32_def pop_f64_def)
  have ne: "st_values s \<noteq> []" using assms length_st_items [OF assms(1)] by auto
  obtain vs v' ts t' where s: "st_values s = vs @ [v']" "st_types s = ts @ [t']" "length vs = length ts"
    by (rule in_step_snoc [OF assms(1) ne])
  from s assms(2) have eqs: "v' = v" "t' = t" "zip vs ts = xs" by (simp_all add: st_items_def)
  have "xs \<noteq> [] \<Longrightarrow> ts \<noteq> [] \<and> snd (last xs) = last ts"
    using eqs(3) s(3) by (auto simp: last_zip)
  then show ?thesis
    using eqs s unfolding tp pop_expecting_in_step [OF assms(1,2)]
    by (auto simp: in_step_def st_items_def os_pop_typed_def list_pop_def)
qed

theorem typed_pop_behaviour_witness:
  "fst (pop_i32 \<lparr>st_max_height = 9, st_values = [1 :: nat, 2], st_types = [I64, F32]\<rparr>) = Inl TypeError \<and>
   fst (os_pop_typed (snd (pop_i32 \<lparr>st_max_height = 9, st_values = [1 :: nat, 2],
      st_types = [I64, F32]\<rparr>))) = Inr (2, I64)"
  using typed_pop_behaviour [of "\<lparr>st_max_height = 9, st_values = [1 :: nat, 2], st_types = [I64, F32]\<rparr>"
      "[(1, I64)]" 2 F32 I32 pop_i32]
  by (simp add: in_step_def st_items_def)

section \<open>Multi-value pushes, pops and truncation\<close>

lemma os_push_pairs_eq:
  assumes "ilen (st_values s) + ilen ps \<le> st_max_height s"
  shows "os_push_pairs ps s =
    (Inr (), s\<lparr>st_values := st_values s @ map fst ps, st_types := st_types s @ map snd ps\<rparr>)"
  using assms
proof (induction ps arbitrary: s)
  case (Cons p ps)
  obtain v t where p: "p = (v, t)" by fastforce
  let ?s = "s\<lparr>st_values := st_values s @ [v], st_types := st_types s @ [t]\<rparr>"
  have "os_push_pairs ps ?s =
      (Inr (), ?s\<lparr>st_values := st_values ?s @ map fst ps, st_types := st_types ?s @ map snd ps\<rparr>)"
    using Cons.prems by (intro Cons.IH) simp
  then show ?case using Cons.prems by (simp add: p os_push_def)
qed simp

lemma pop_times_append: "pop_times (length ys) (xs @ ys) = (Inr (rev ys), xs)"
  by (induction ys rule: rev_induct) (simp_all add: list_pop_def flip: append_assoc)

text \<open>
  Block results: pushing a list of typed values and popping as many returns them in the original
  order and restores the stack, and truncating to the old height also restores it.
\<close>
theorem push_many_pop_many:
  assumes "in_step s" and "length vs = length ts" and "os_height s + ilen vs \<le> st_max_height s"
  shows "fst (os_push_many s vs ts) = Inr () \<and>
    os_pop_many (snd (os_push_many s vs ts)) (ilen vs) = (Inr vs, s) \<and>
    os_truncate (snd (os_push_many s vs ts)) (os_height s) = s"
proof -
  have "os_push_many s vs ts = (Inr (), s\<lparr>st_values := st_values s @ vs, st_types := st_types s @ ts\<rparr>)"
    using assms by (simp add: os_push_many_def os_push_pairs_eq os_height_def)
  moreover have "pop_times (length vs) (st_types s @ ts) = (Inr (rev ts), st_types s)"
    using pop_times_append [of ts] assms(2) by simp
  ultimately show ?thesis
    using assms pop_times_append [of vs "st_values s"]
    by (cases vs; cases s)
      (auto simp: os_pop_many_def os_truncate_def os_height_def in_step_def py_clamp_def)
qed

theorem push_many_pop_many_witness:
  "os_pop_many (snd (os_push_many \<lparr>st_max_height = 9, st_values = [1 :: nat], st_types = [I64]\<rparr>
      [5, 6] [I32, I32])) 2 = (Inr [5, 6], \<lparr>st_max_height = 9, st_values = [1], st_types = [I64]\<rparr>)"
  using push_many_pop_many [of "\<lparr>st_max_height = 9, st_values = [1 :: nat], st_types = [I64]\<rparr>"
      "[5, 6]" "[I32, I32]"]
  by (simp add: in_step_def os_height_def)

section \<open>Labels\<close>

lemma find_append:
  "find P (xs @ ys) = (case find P xs of None \<Rightarrow> find P ys | Some x \<Rightarrow> Some x)"
  by (induction xs) auto

text \<open>
  Branch targets: label \<open>d\<close> is the \<open>d\<close>-th frame from the top, a depth beyond the stack raises
  \<^verbatim>\<open>IndexError\<close>, and a negative depth, which is not refused, addresses frames from the bottom;
  \<^verbatim>\<open>get_frame\<close> finds the innermost frame of a function.
\<close>
theorem control_labels:
  "get_label s d =
    (if 0 \<le> d \<and> d < cs_depth s then Inr (rev (fs_frames s) ! nat d)
     else if d < 0 \<and> - d - 1 < cs_depth s then Inr (fs_frames s ! nat (- d - 1))
     else Inl IndexError) \<and>
   (get_frame cs f = Some e \<longleftrightarrow>
     (\<exists>below above. fs_frames cs = below @ e # above \<and> ce_func_idx e = Some f \<and>
       (\<forall>e' \<in> set above. ce_func_idx e' \<noteq> Some f)))"
proof
  show "get_label s d =
    (if 0 \<le> d \<and> d < cs_depth s then Inr (rev (fs_frames s) ! nat d)
     else if d < 0 \<and> - d - 1 < cs_depth s then Inr (fs_frames s ! nat (- d - 1))
     else Inl IndexError)"
    using py_index_neg [of "d + 1" "fs_frames s"]
    by (auto simp: get_label_def cs_depth_def py_index_def algebra_simps minus_diff_commute
        intro!: arg_cong [of _ _ "(!) (fs_frames s)"] arg_cong [of _ _ nat])
  show "get_frame cs f = Some e \<longleftrightarrow>
     (\<exists>below above. fs_frames cs = below @ e # above \<and> ce_func_idx e = Some f \<and>
       (\<forall>e' \<in> set above. ce_func_idx e' \<noteq> Some f))"
  proof
    assume "get_frame cs f = Some e"
    then obtain i where i: "i < length (rev (fs_frames cs))" "ce_func_idx e = Some f"
      "e = rev (fs_frames cs) ! i" "\<forall>j < i. ce_func_idx (rev (fs_frames cs) ! j) \<noteq> Some f"
      unfolding get_frame_def find_Some_iff by blast
    let ?r = "rev (fs_frames cs)"
    have "?r = take i ?r @ e # drop (Suc i) ?r" using i(1,3) by (simp add: id_take_nth_drop)
    then have "fs_frames cs = rev (drop (Suc i) ?r) @ e # rev (take i ?r)"
      by (metis rev_rev_ident rev_append rev.simps(2) append.assoc append_Cons append_Nil)
    moreover have "\<forall>e' \<in> set (rev (take i ?r)). ce_func_idx e' \<noteq> Some f"
      using i(1,4) by (auto simp: in_set_conv_nth)
    ultimately show "\<exists>below above. fs_frames cs = below @ e # above \<and> ce_func_idx e = Some f \<and>
       (\<forall>e' \<in> set above. ce_func_idx e' \<noteq> Some f)" using i(2) by blast
  next
    assume "\<exists>below above. fs_frames cs = below @ e # above \<and> ce_func_idx e = Some f \<and>
       (\<forall>e' \<in> set above. ce_func_idx e' \<noteq> Some f)"
    then obtain below above where fr: "fs_frames cs = below @ e # above" "ce_func_idx e = Some f"
      "\<forall>e' \<in> set above. ce_func_idx e' \<noteq> Some f" by blast
    from fr(3) have "find (\<lambda>e'. ce_func_idx e' = Some f) (rev above) = None"
      by (simp add: find_None_iff)
    with fr(1,2) show "get_frame cs f = Some e" by (simp add: get_frame_def find_append)
  qed
qed

theorem control_labels_witness:
  "get_label \<lparr>fs_max_depth = 5, fs_frames = [10 :: nat, 20, 30]\<rparr> 1 = Inr 20 \<and>
   get_label \<lparr>fs_max_depth = 5, fs_frames = [10 :: nat, 20, 30]\<rparr> (- 1) = Inr 10"
  using control_labels [of "\<lparr>fs_max_depth = 5, fs_frames = [10 :: nat, 20, 30]\<rparr>" 1
      "\<lparr>fs_max_depth = 5, fs_frames = []\<rparr>" 0, THEN conjunct1]
    control_labels [of "\<lparr>fs_max_depth = 5, fs_frames = [10 :: nat, 20, 30]\<rparr>" "- 1"
      "\<lparr>fs_max_depth = 5, fs_frames = []\<rparr>" 0, THEN conjunct1]
  by (simp add: cs_depth_def)

end
