(* ===== verification/Transaction.thy ===== *)
theory Transaction
  imports Wal
begin

text \<open>
  Transactions of the database, \<^verbatim>\<open>database/src/sql/transaction.py\<close>.  A \<^verbatim>\<open>Transaction\<close> is an object
  shared between its client and the manager, so the manager's state holds a heap, a list of
  transactions, and a reference is an index into it.  The log of the manager is part of its state.
  The clock is an argument of \<^verbatim>\<open>begin\<close>.  The lock makes every method one step.
\<close>

section \<open>State\<close>

datatype isolation_level = READ_UNCOMMITTED | READ_COMMITTED | REPEATABLE_READ | SERIALIZABLE

abbreviation (input) "ACTIVE \<equiv> ''ACTIVE''"
abbreviation (input) "COMMITTED \<equiv> ''COMMITTED''"
abbreviation (input) "ABORTED \<equiv> ''ABORTED''"

record ('d, 'o) transaction =
  transaction_id :: int
  txn_isolation_level :: isolation_level
  txn_status :: string
  snapshot_lsn :: int
  start_time :: pyfloat
  modified_pages :: "page_id set"
  undo_log :: "('d, 'o) log_record list"

definition transaction_new :: "int \<Rightarrow> isolation_level \<Rightarrow> pyfloat \<Rightarrow> ('d, 'o) transaction" where
  "transaction_new txn_id isolation_level now =
     \<lparr>transaction_id = txn_id, txn_isolation_level = isolation_level, txn_status = ACTIVE,
      snapshot_lsn = 0, start_time = now, modified_pages = {}, undo_log = []\<rparr>"

record ('d, 'o) txn_manager =
  tm_heap :: "('d, 'o) transaction list"
  tm_wal :: "('d, 'o) wal option"
  tm_next_txn_id :: int
  tm_active_txns :: "(int \<times> nat) list"
  tm_committed_txns :: "int set"

definition tm_new :: "('d, 'o) wal option \<Rightarrow> ('d, 'o) txn_manager" where
  "tm_new wal =
     \<lparr>tm_heap = [], tm_wal = wal, tm_next_txn_id = 1, tm_active_txns = [], tm_committed_txns = {}\<rparr>"

section \<open>Operations\<close>

text \<open>An assignment to fields of the object behind a reference.\<close>

definition modify_txn ::
  "nat \<Rightarrow> (('d, 'o) transaction \<Rightarrow> ('d, 'o) transaction) \<Rightarrow> ('d, 'o) txn_manager \<Rightarrow> ('d, 'o) txn_manager" where
  "modify_txn a f s = s\<lparr>tm_heap := (tm_heap s)[a := f (tm_heap s ! a)]\<rparr>"

definition add_undo :: "nat \<Rightarrow> ('d, 'o) log_record \<Rightarrow> ('d, 'o) txn_manager \<Rightarrow> ('d, 'o) txn_manager" where
  "add_undo a r = modify_txn a (\<lambda>t. t\<lparr>undo_log := undo_log t @ [r]\<rparr>)"

text \<open>\<^verbatim>\<open>if self.wal: self.wal.<method>(txn_id)\<close>; without a log the result is not used.\<close>

definition log_marker ::
  "(('d, 'o) wal \<Rightarrow> int \<Rightarrow> int result \<times> ('d, 'o) wal) \<Rightarrow> int \<Rightarrow> ('d, 'o) txn_manager \<Rightarrow>
   int result \<times> ('d, 'o) txn_manager" where
  "log_marker method txn_id s =
     (case tm_wal s of
        None \<Rightarrow> (Inr 0, s)
      | Some w \<Rightarrow> (let (res, w') = method w txn_id in (res, s\<lparr>tm_wal := Some w'\<rparr>)))"

definition begin_txn ::
  "('d, 'o) env \<Rightarrow> isolation_level \<Rightarrow> pyfloat \<Rightarrow> ('d, 'o) txn_manager \<Rightarrow> nat result \<times> ('d, 'o) txn_manager"
where
  "begin_txn env isolation_level now s =
     (let txn_id = tm_next_txn_id s;
          a = length (tm_heap s);
          s1 = s\<lparr>tm_next_txn_id := tm_next_txn_id s + 1,
                 tm_heap := tm_heap s @ [transaction_new txn_id isolation_level now]\<rparr>
      in case log_marker (begin_transaction env) txn_id s1 of
           (Inl e, s2) \<Rightarrow> (Inl e, s2)
         | (Inr lsn, s2) \<Rightarrow>
             let s3 = modify_txn a (\<lambda>t. t\<lparr>snapshot_lsn := lsn\<rparr>) s2
             in (Inr a, s3\<lparr>tm_active_txns := AList.update txn_id a (tm_active_txns s3)\<rparr>))"

definition cleanup_committed :: "('d, 'o) txn_manager \<Rightarrow> ('d, 'o) txn_manager" where
  "cleanup_committed s =
     (let max_txns = 1000 in
      if card (tm_committed_txns s) > max_txns
      then let sorted_txns = sorted_list_of_set (tm_committed_txns s)
           in s\<lparr>tm_committed_txns := set (drop (length sorted_txns - max_txns) sorted_txns)\<rparr>
      else s)"

definition commit :: "('d, 'o) env \<Rightarrow> nat \<Rightarrow> ('d, 'o) txn_manager \<Rightarrow> unit result \<times> ('d, 'o) txn_manager" where
  "commit env a s =
     (let txn = tm_heap s ! a; txn_id = transaction_id txn in
      if txn_status txn \<noteq> ACTIVE then (Inl ValueError, s)
      else case log_marker (commit_transaction env) txn_id (modify_txn a (\<lambda>t. t\<lparr>txn_status := COMMITTED\<rparr>) s) of
             (Inl e, s2) \<Rightarrow> (Inl e, s2)
           | (Inr _, s2) \<Rightarrow>
               (Inr (), cleanup_committed
                  (s2\<lparr>tm_committed_txns := insert txn_id (tm_committed_txns s2),
                      tm_active_txns := AList.delete txn_id (tm_active_txns s2)\<rparr>)))"

text \<open>Every branch of \<^verbatim>\<open>_undo_record\<close> is \<^verbatim>\<open>pass\<close>.\<close>

definition undo_record :: "('d, 'o) log_record \<Rightarrow> ('d, 'o) txn_manager \<Rightarrow> ('d, 'o) txn_manager" where
  "undo_record r s =
     (if lr_log_type r = LogINSERT then s
      else if lr_log_type r = LogDELETE then s
      else if lr_log_type r = LogUPDATE then s
      else s)"

definition rollback :: "('d, 'o) env \<Rightarrow> nat \<Rightarrow> ('d, 'o) txn_manager \<Rightarrow> unit result \<times> ('d, 'o) txn_manager" where
  "rollback env a s =
     (let txn = tm_heap s ! a; txn_id = transaction_id txn in
      if txn_status txn \<noteq> ACTIVE then (Inl ValueError, s)
      else let s1 = modify_txn a (\<lambda>t. t\<lparr>txn_status := ABORTED\<rparr>) s;
               s2 = fold undo_record (rev (undo_log txn)) s1
           in case log_marker (abort_transaction env) txn_id s2 of
                (Inl e, s3) \<Rightarrow> (Inl e, s3)
              | (Inr _, s3) \<Rightarrow> (Inr (), s3\<lparr>tm_active_txns := AList.delete txn_id (tm_active_txns s3)\<rparr>))"

definition get_transaction :: "('d, 'o) txn_manager \<Rightarrow> int \<Rightarrow> nat option" where
  "get_transaction s txn_id = map_of (tm_active_txns s) txn_id"

definition is_active :: "('d, 'o) txn_manager \<Rightarrow> int \<Rightarrow> bool" where
  "is_active s txn_id \<longleftrightarrow> txn_id \<in> fst ` set (tm_active_txns s)"

definition is_visible :: "('d, 'o) txn_manager \<Rightarrow> int \<Rightarrow> nat \<Rightarrow> bool" where
  "is_visible s row_txn_id snapshot_txn =
     (if row_txn_id = transaction_id (tm_heap s ! snapshot_txn) then True
      else if row_txn_id \<in> tm_committed_txns s then True
      else if row_txn_id \<notin> fst ` set (tm_active_txns s) then True
      else False)"

definition get_active_transactions :: "('d, 'o) txn_manager \<Rightarrow> int list" where
  "get_active_transactions s = map fst (tm_active_txns s)"

definition get_snapshot :: "('d, 'o) txn_manager \<Rightarrow> int \<times> int set" where
  "get_snapshot s =
     (case tm_wal s of None \<Rightarrow> 0 | Some w \<Rightarrow> wal_current_lsn w, fst ` set (tm_active_txns s))"

definition active_count :: "('d, 'o) txn_manager \<Rightarrow> int" where
  "active_count s = ilen (tm_active_txns s)"

section \<open>The manager without a log\<close>

lemma fold_undo [simp]: "fold undo_record rs s = s"
  by (induction rs) (simp_all add: undo_record_def)

lemma modify_txn_fields [simp]:
  "tm_wal (modify_txn a f s) = tm_wal s"
  "tm_next_txn_id (modify_txn a f s) = tm_next_txn_id s"
  "tm_active_txns (modify_txn a f s) = tm_active_txns s"
  "tm_committed_txns (modify_txn a f s) = tm_committed_txns s"
  "length (tm_heap (modify_txn a f s)) = length (tm_heap s)"
  "a < length (tm_heap s) \<Longrightarrow> tm_heap (modify_txn a f s) ! b = (if b = a then f (tm_heap s ! a) else tm_heap s ! b)"
  by (simp_all add: modify_txn_def nth_list_update)

lemma log_marker_None [simp]: "tm_wal s = None \<Longrightarrow> log_marker m i s = (Inr 0, s)"
  by (simp add: log_marker_def)

lemma cleanup_fields [simp]:
  "tm_heap (cleanup_committed s) = tm_heap s" "tm_wal (cleanup_committed s) = tm_wal s"
  "tm_next_txn_id (cleanup_committed s) = tm_next_txn_id s"
  "tm_active_txns (cleanup_committed s) = tm_active_txns s"
  by (simp_all add: cleanup_committed_def Let_def)

text \<open>The identifiers of the transactions with a status, in the order of their creation.\<close>

definition with_status :: "string \<Rightarrow> ('d, 'o) transaction list \<Rightarrow> nat list" where
  "with_status st heap = filter (\<lambda>a. txn_status (heap ! a) = st) [0..<length heap]"

definition numbered :: "nat list \<Rightarrow> (int \<times> nat) list" where
  "numbered as = map (\<lambda>a. (int a + 1, a)) as"

lemma numbered_fst: "fst ` set (numbered as) = (\<lambda>a. int a + 1) ` set as"
  by (auto simp: numbered_def image_iff)

lemma delete_numbered: "AList.delete (int a + 1) (numbered as) = numbered (filter (\<lambda>b. b \<noteq> a) as)"
  by (induction as) (auto simp: numbered_def)

lemma update_numbered:
  "a \<notin> set as \<Longrightarrow> AList.update (int a + 1) a (numbered as) = numbered (as @ [a])"
  by (induction as) (auto simp: numbered_def)

text \<open>Of the transactions that committed, the newest are remembered.\<close>

definition newest_of :: "int set \<Rightarrow> int set \<Rightarrow> bool" where
  "newest_of kept done_ids \<longleftrightarrow>
     kept \<subseteq> done_ids \<and> finite done_ids \<and> card kept \<le> 1000 \<and>
     (kept = done_ids \<or> card kept = 1000 \<and> (\<forall>x\<in>done_ids - kept. \<forall>y\<in>kept. x < y))"

lemma newest_insert:
  assumes "newest_of kept all_ids" and "tm_committed_txns s = insert x kept"
  shows "newest_of (tm_committed_txns (cleanup_committed s)) (insert x all_ids)"
proof -
  let ?C = "insert x kept"
  have fin: "finite all_ids" "kept \<subseteq> all_ids" "card kept \<le> 1000" "finite ?C"
    using assms(1) by (auto simp: newest_of_def dest: finite_subset)
  have kept: "kept = all_ids \<or> card kept = 1000 \<and> (\<forall>z\<in>all_ids - kept. \<forall>y\<in>kept. z < y)"
    using assms(1) by (simp add: newest_of_def)
  show ?thesis
  proof (cases "card ?C > 1000")
    case False
    then have "tm_committed_txns (cleanup_committed s) = ?C"
      using assms(2) by (simp add: cleanup_committed_def)
    moreover have "x \<in> kept" if "card kept = 1000"
      using that False fin(4) by (auto simp: card_insert_if split: if_splits)
    ultimately show ?thesis using fin kept False by (auto simp: newest_of_def insert_absorb)
  next
    case True
    have new: "x \<notin> kept" using True fin(3) by (auto simp: insert_absorb)
    then have card: "card ?C = 1001" using True fin by (simp add: card_insert_if)
    then have "length (sorted_list_of_set ?C) = 1001" by simp
    then have "tm_committed_txns (cleanup_committed s) = ?C - {Min ?C}"
      using assms(2) True fin(4) sorted_list_of_set_nonempty [OF fin(4)]
      by (simp add: cleanup_committed_def Let_def)
    moreover have "card (?C - {Min ?C}) = 1000"
      using card fin(4) Min_in [OF fin(4)] by (simp add: card_Diff_singleton)
    moreover have "z < y" if "z \<in> insert x all_ids - (?C - {Min ?C})" and y: "y \<in> ?C - {Min ?C}" for y z
    proof -
      have less: "Min ?C < y" using y Min_le [OF fin(4), of y] by auto
      show ?thesis
      proof (cases "z = Min ?C")
        case False
        with that have z: "z \<in> all_ids - kept" by auto
        then have old: "z < w" if "w \<in> kept" for w using kept that by blast
        show ?thesis
        proof (cases "y = x")
          case True
          then have "Min ?C \<in> kept" using y Min_in [OF fin(4)] by auto
          then show ?thesis using old less by fastforce
        qed (use y old in auto)
      qed (use less in simp)
    qed
    ultimately show ?thesis using fin by (auto simp: newest_of_def)
  qed
qed

text \<open>What holds between calls; with a log no transaction can be begun or committed.\<close>

definition tm_inv :: "('d, 'o) txn_manager \<Rightarrow> bool" where
  "tm_inv s \<longleftrightarrow>
     tm_next_txn_id s = ilen (tm_heap s) + 1 \<and>
     list_all (\<lambda>a. transaction_id (tm_heap s ! a) = int a + 1) [0..<length (tm_heap s)] \<and>
     (if tm_wal s = None
      then tm_active_txns s = numbered (with_status ACTIVE (tm_heap s)) \<and>
        newest_of (tm_committed_txns s) ((\<lambda>a. int a + 1) ` set (with_status COMMITTED (tm_heap s)))
      else tm_active_txns s = [] \<and> tm_committed_txns s = {})"

lemma with_status_append [simp]:
  "with_status st (heap @ [t]) = with_status st heap @ (if txn_status t = st then [length heap] else [])"
  by (auto simp: with_status_def nth_append intro!: filter_cong)

lemma nth_updated: "b < length xs \<Longrightarrow> xs[a := x] ! b = (if b = a then x else xs ! b)"
  by (simp add: nth_list_update)

lemma with_status_left:
  "txn_status t \<noteq> st \<Longrightarrow> with_status st (heap[a := t]) = filter (\<lambda>b. b \<noteq> a) (with_status st heap)"
  by (auto simp: with_status_def nth_updated intro!: filter_cong)

lemma with_status_entered:
  "a < length heap \<Longrightarrow> txn_status t = st \<Longrightarrow>
   set (with_status st (heap[a := t])) = insert a (set (with_status st heap))"
  by (auto simp: with_status_def nth_list_update)

lemma with_status_same:
  "txn_status t = txn_status (heap ! a) \<Longrightarrow> with_status st (heap[a := t]) = with_status st heap"
  by (auto simp: with_status_def nth_updated intro!: filter_cong)

lemma with_status_other:
  "txn_status t \<noteq> st \<Longrightarrow> txn_status (heap ! a) \<noteq> st \<Longrightarrow> with_status st (heap[a := t]) = with_status st heap"
  by (auto simp: with_status_def nth_updated intro!: filter_cong)

lemma status_known: "b \<in> set (with_status st heap) \<Longrightarrow> b < length heap"
  by (simp add: with_status_def)

lemma tm_inv_id: "tm_inv s \<Longrightarrow> a < length (tm_heap s) \<Longrightarrow> transaction_id (tm_heap s ! a) = int a + 1"
  by (simp add: tm_inv_def list_all_iff)

text \<open>What a finished call does when there is no log.\<close>

lemma begin_without_log:
  assumes "tm_wal s = None"
  shows "begin_txn env level now s =
    (Inr (length (tm_heap s)),
     s\<lparr>tm_next_txn_id := tm_next_txn_id s + 1,
       tm_heap := tm_heap s @ [transaction_new (tm_next_txn_id s) level now],
       tm_active_txns := AList.update (tm_next_txn_id s) (length (tm_heap s)) (tm_active_txns s)\<rparr>)"
  using assms by (simp add: begin_txn_def Let_def modify_txn_def transaction_new_def)

lemma commit_without_log:
  "tm_wal s = None \<Longrightarrow> txn_status (tm_heap s ! a) = ACTIVE \<Longrightarrow>
   commit env a s = (Inr (), cleanup_committed
     (s\<lparr>tm_heap := (tm_heap s)[a := (tm_heap s ! a)\<lparr>txn_status := COMMITTED\<rparr>],
        tm_committed_txns := insert (transaction_id (tm_heap s ! a)) (tm_committed_txns s),
        tm_active_txns := AList.delete (transaction_id (tm_heap s ! a)) (tm_active_txns s)\<rparr>))"
  by (simp add: commit_def Let_def modify_txn_def)

lemma rollback_without_log:
  "tm_wal s = None \<Longrightarrow> txn_status (tm_heap s ! a) = ACTIVE \<Longrightarrow>
   rollback env a s = (Inr (),
     s\<lparr>tm_heap := (tm_heap s)[a := (tm_heap s ! a)\<lparr>txn_status := ABORTED\<rparr>],
       tm_active_txns := AList.delete (transaction_id (tm_heap s ! a)) (tm_active_txns s)\<rparr>)"
  by (simp add: rollback_def Let_def modify_txn_def)

lemma finished_raises:
  "txn_status (tm_heap s ! a) \<noteq> ACTIVE \<Longrightarrow>
   commit env a s = (Inl ValueError, s) \<and> rollback env a s = (Inl ValueError, s)"
  by (simp add: commit_def rollback_def Let_def)

section \<open>The manager with a log\<close>

lemma markers:
  "\<exists>w'. begin_transaction env w i = (Inl StructError, w')"
  "\<exists>w'. commit_transaction env w i = (Inl StructError, w')"
  "\<exists>w'. abort_transaction env w i = (Inl StructError, w')"
  by (auto simp: begin_transaction_def commit_transaction_def abort_transaction_def marker_append)

lemma begin_with_log:
  "tm_wal s = Some w \<Longrightarrow> \<exists>w'. begin_txn env level now s =
    (Inl StructError, s\<lparr>tm_next_txn_id := tm_next_txn_id s + 1,
       tm_heap := tm_heap s @ [transaction_new (tm_next_txn_id s) level now], tm_wal := Some w'\<rparr>)"
  using markers(1) [of env w "tm_next_txn_id s"] by (auto simp: begin_txn_def Let_def log_marker_def)

lemma end_with_log:
  assumes "tm_wal s = Some w" and "txn_status (tm_heap s ! a) = ACTIVE"
  shows "\<exists>w'. commit env a s = (Inl StructError,
      s\<lparr>tm_heap := (tm_heap s)[a := (tm_heap s ! a)\<lparr>txn_status := COMMITTED\<rparr>], tm_wal := Some w'\<rparr>)"
    and "\<exists>w'. rollback env a s = (Inl StructError,
      s\<lparr>tm_heap := (tm_heap s)[a := (tm_heap s ! a)\<lparr>txn_status := ABORTED\<rparr>], tm_wal := Some w'\<rparr>)"
  using markers(2,3) [of env w "transaction_id (tm_heap s ! a)"] assms
  by (auto simp: commit_def rollback_def Let_def log_marker_def modify_txn_def)

section \<open>Properties\<close>

text \<open>Any calls of the clients of one manager, on the transactions it made.\<close>

inductive tm_reach :: "('d, 'o) env \<Rightarrow> ('d, 'o) txn_manager \<Rightarrow> bool" where
  tm_start: "tm_reach env (tm_new wal)"
| tm_begun: "tm_reach env s \<Longrightarrow> tm_reach env (snd (begin_txn env level now s))"
| tm_commits: "tm_reach env s \<Longrightarrow> a < length (tm_heap s) \<Longrightarrow> tm_reach env (snd (commit env a s))"
| tm_rolls_back: "tm_reach env s \<Longrightarrow> a < length (tm_heap s) \<Longrightarrow> tm_reach env (snd (rollback env a s))"
| tm_undo: "tm_reach env s \<Longrightarrow> a < length (tm_heap s) \<Longrightarrow> tm_reach env (add_undo a r s)"

lemma ids_after_update:
  "list_all (\<lambda>b. transaction_id (heap ! b) = int b + 1) [0..<length heap] \<Longrightarrow>
   transaction_id t = transaction_id (heap ! a) \<Longrightarrow>
   list_all (\<lambda>b. transaction_id (heap[a := t] ! b) = int b + 1) [0..<length heap]"
  by (auto simp: list_all_iff nth_updated)

lemma begin_inv: "tm_inv s \<Longrightarrow> tm_inv (snd (begin_txn env level now s))"
proof (cases "tm_wal s")
  case None
  assume inv: "tm_inv s"
  then have next_id: "tm_next_txn_id s = int (length (tm_heap s)) + 1"
    and active: "tm_active_txns s = numbered (with_status ACTIVE (tm_heap s))"
    using None by (simp_all add: tm_inv_def)
  have "length (tm_heap s) \<notin> set (with_status ACTIVE (tm_heap s))"
    using status_known by blast
  then show ?thesis
    using inv None unfolding begin_without_log [OF None]
    by (auto simp: tm_inv_def transaction_new_def nth_append list_all_iff next_id active update_numbered)
next
  case (Some w)
  assume inv: "tm_inv s"
  obtain w' where b: "begin_txn env level now s = (Inl StructError, s\<lparr>tm_next_txn_id := tm_next_txn_id s + 1,
      tm_heap := tm_heap s @ [transaction_new (tm_next_txn_id s) level now], tm_wal := Some w'\<rparr>)"
    using begin_with_log [OF Some] by blast
  show ?thesis
    using inv Some unfolding b
    by (auto simp: tm_inv_def transaction_new_def nth_append list_all_iff)
qed

lemma commit_inv:
  assumes "tm_inv s" and "a < length (tm_heap s)"
  shows "tm_inv (snd (commit env a s))"
proof (cases "txn_status (tm_heap s ! a) = ACTIVE")
  case False
  then show ?thesis using finished_raises assms(1) by fastforce
next
  case True
  have i: "transaction_id (tm_heap s ! a) = int a + 1" using assms by (rule tm_inv_id)
  have ids: "list_all (\<lambda>b. transaction_id ((tm_heap s)[a := (tm_heap s ! a)\<lparr>txn_status := COMMITTED\<rparr>] ! b) =
      int b + 1) [0..<length (tm_heap s)]"
    using assms(1) by (intro ids_after_update) (simp_all add: tm_inv_def)
  show ?thesis
  proof (cases "tm_wal s")
    case None
    let ?s = "s\<lparr>tm_heap := (tm_heap s)[a := (tm_heap s ! a)\<lparr>txn_status := COMMITTED\<rparr>],
      tm_committed_txns := insert (int a + 1) (tm_committed_txns s),
      tm_active_txns := AList.delete (int a + 1) (tm_active_txns s)\<rparr>"
    have new: "newest_of (tm_committed_txns (cleanup_committed ?s))
        (insert (int a + 1) ((\<lambda>a. int a + 1) ` set (with_status COMMITTED (tm_heap s))))"
      by (rule newest_insert [of "tm_committed_txns s"]) (use assms None in \<open>simp_all add: tm_inv_def\<close>)
    show ?thesis
      using assms ids None new unfolding commit_without_log [OF None True] i
      by (simp add: tm_inv_def delete_numbered with_status_left with_status_entered)
  next
    case (Some w)
    then obtain w' where "commit env a s = (Inl StructError,
        s\<lparr>tm_heap := (tm_heap s)[a := (tm_heap s ! a)\<lparr>txn_status := COMMITTED\<rparr>], tm_wal := Some w'\<rparr>)"
      using end_with_log(1) True by blast
    then show ?thesis using assms ids Some by (simp add: tm_inv_def)
  qed
qed

lemma rollback_inv:
  assumes "tm_inv s" and "a < length (tm_heap s)"
  shows "tm_inv (snd (rollback env a s))"
proof (cases "txn_status (tm_heap s ! a) = ACTIVE")
  case False
  then show ?thesis using finished_raises assms(1) by fastforce
next
  case True
  have i: "transaction_id (tm_heap s ! a) = int a + 1" using assms by (rule tm_inv_id)
  have ids: "list_all (\<lambda>b. transaction_id ((tm_heap s)[a := (tm_heap s ! a)\<lparr>txn_status := ABORTED\<rparr>] ! b) =
      int b + 1) [0..<length (tm_heap s)]"
    using assms(1) by (intro ids_after_update) (simp_all add: tm_inv_def)
  show ?thesis
  proof (cases "tm_wal s")
    case None
    have "with_status COMMITTED ((tm_heap s)[a := (tm_heap s ! a)\<lparr>txn_status := ABORTED\<rparr>]) =
        with_status COMMITTED (tm_heap s)"
      using True by (intro with_status_other) simp_all
    then show ?thesis
      using assms ids None unfolding rollback_without_log [OF None True] i
      by (simp add: tm_inv_def delete_numbered with_status_left)
  next
    case (Some w)
    then obtain w' where "rollback env a s = (Inl StructError,
        s\<lparr>tm_heap := (tm_heap s)[a := (tm_heap s ! a)\<lparr>txn_status := ABORTED\<rparr>], tm_wal := Some w'\<rparr>)"
      using end_with_log(2) True by blast
    then show ?thesis using assms ids Some by (simp add: tm_inv_def)
  qed
qed

lemma undo_inv: "tm_inv s \<Longrightarrow> tm_inv (add_undo a r s)"
  using ids_after_update [of "tm_heap s" "(tm_heap s ! a)\<lparr>undo_log := undo_log (tm_heap s ! a) @ [r]\<rparr>" a]
  by (simp add: tm_inv_def add_undo_def modify_txn_def with_status_same)

lemma tm_reach_inv: "tm_reach env s \<Longrightarrow> tm_inv s"
proof (induction rule: tm_reach.induct)
  case (tm_start env wal)
  show ?case by (simp add: tm_inv_def tm_new_def with_status_def numbered_def newest_of_def)
qed (simp_all add: begin_inv commit_inv rollback_inv undo_inv)

text \<open>
  C36. The books of the manager: after any calls of a manager without a log, transactions are
  numbered from 1 in the order they began, the active ones are exactly those whose own status is
  active, listed in that order, and the remembered commits are the newest of the transactions that
  committed: all of them, or the 1000 with the largest numbers.
\<close>
theorem transaction_books:
  assumes "tm_reach env s" and "tm_wal s = None"
  shows "tm_next_txn_id s = ilen (tm_heap s) + 1 \<and>
    get_active_transactions s = map (\<lambda>a. int a + 1) (with_status ACTIVE (tm_heap s)) \<and>
    active_count s = ilen (with_status ACTIVE (tm_heap s)) \<and>
    (\<forall>a < length (tm_heap s). transaction_id (tm_heap s ! a) = int a + 1 \<and>
      get_transaction s (int a + 1) = (if txn_status (tm_heap s ! a) = ACTIVE then Some a else None) \<and>
      is_active s (int a + 1) = (txn_status (tm_heap s ! a) = ACTIVE)) \<and>
    newest_of (tm_committed_txns s) ((\<lambda>a. int a + 1) ` set (with_status COMMITTED (tm_heap s)))"
proof -
  have inv: "tm_inv s" using assms(1) by (rule tm_reach_inv)
  then have active: "tm_active_txns s = numbered (with_status ACTIVE (tm_heap s))"
    using assms(2) by (simp add: tm_inv_def)
  have find_id: "map_of (numbered as) (int a + 1) = (if a \<in> set as then Some a else None)" for as a
    by (induction as) (auto simp: numbered_def)
  have mem: "a \<in> set (with_status st (tm_heap s)) \<longleftrightarrow> txn_status (tm_heap s ! a) = st"
    if "a < length (tm_heap s)" for a st
    using that by (auto simp: with_status_def)
  have "map fst (numbered as) = map (\<lambda>a. int a + 1) as" "length (numbered as) = length as" for as
    by (simp_all add: numbered_def comp_def)
  moreover have "is_active s (int a + 1) \<longleftrightarrow> a \<in> set (with_status ACTIVE (tm_heap s))" for a
    by (auto simp: is_active_def active numbered_fst)
  ultimately show ?thesis
    using inv assms(2) tm_inv_id [OF inv] mem find_id
    by (simp add: tm_inv_def get_active_transactions_def active_count_def get_transaction_def active)
qed

theorem transaction_books_witness:
  "get_active_transactions (snd (begin_txn plain_env SERIALIZABLE 0 (tm_new None))) =
    map (\<lambda>a. int a + 1)
      (with_status ACTIVE (tm_heap (snd (begin_txn plain_env SERIALIZABLE 0 (tm_new None)))))"
  by (rule transaction_books [OF tm_begun [OF tm_start], THEN conjunct2, THEN conjunct1])
    (simp add: begin_without_log tm_new_def)

text \<open>
  Visibility: without a log, \<^verbatim>\<open>is_visible\<close> hides a row from a transaction exactly when another
  transaction created it that is active now.  So nothing depends on the isolation level or on the
  time of the snapshot, forgetting old commits changes no answer, and the rows of an aborted
  transaction, as of one that never existed, are visible to everyone.
\<close>
theorem transaction_visibility:
  assumes "tm_reach env s" and "tm_wal s = None" and "b < length (tm_heap s)"
  shows "is_visible s i b \<longleftrightarrow>
    \<not> (\<exists>a < length (tm_heap s). i = int a + 1 \<and> a \<noteq> b \<and> txn_status (tm_heap s ! a) = ACTIVE)"
proof -
  have inv: "tm_inv s" using assms(1) by (rule tm_reach_inv)
  have "i \<in> fst ` set (tm_active_txns s) \<longleftrightarrow> i \<in> (\<lambda>a. int a + 1) ` set (with_status ACTIVE (tm_heap s))"
    using inv assms(2) by (simp add: tm_inv_def numbered_fst)
  moreover have "i \<in> (\<lambda>a. int a + 1) ` set (with_status COMMITTED (tm_heap s))"
    if "i \<in> tm_committed_txns s"
    using that inv assms(2) by (auto simp: tm_inv_def newest_of_def)
  ultimately show ?thesis
    using tm_inv_id [OF inv assms(3)] by (auto simp: is_visible_def with_status_def)
qed

theorem transaction_visibility_witness:
  "is_visible (snd (rollback plain_env 0 (snd (begin_txn plain_env SERIALIZABLE 0 (tm_new None))))) 1 0"
proof -
  let ?s = "snd (rollback plain_env 0 (snd (begin_txn plain_env SERIALIZABLE 0 (tm_new None))))"
  have s: "tm_wal ?s = None" "length (tm_heap ?s) = 1"
    by (simp_all add: begin_without_log rollback_without_log tm_new_def transaction_new_def)
  have "tm_reach plain_env ?s"
    by (intro tm_rolls_back tm_begun tm_start) (simp add: begin_without_log tm_new_def)
  from transaction_visibility [OF this s(1), of 0 1] s(2) show ?thesis by simp
qed

text \<open>
  Ending a transaction: one that is not active any more is refused with \<^verbatim>\<open>ValueError\<close> and
  nothing changes.  Without a log, \<^verbatim>\<open>commit\<close> and \<^verbatim>\<open>rollback\<close> succeed on an active one, change the
  status of this object only, whatever is in its undo log, and the transaction is not active
  afterwards.  With a log, \<^verbatim>\<open>begin\<close>, \<^verbatim>\<open>commit\<close> and \<^verbatim>\<open>rollback\<close> all raise \<^verbatim>\<open>struct.error\<close>: a number
  is used up or the status has changed, but the books have not.
\<close>
theorem transaction_end:
  assumes reach: "tm_reach env s" and "a < length (tm_heap s)"
  shows "(txn_status (tm_heap s ! a) \<noteq> ACTIVE \<longrightarrow>
      commit env a s = (Inl ValueError, s) \<and> rollback env a s = (Inl ValueError, s)) \<and>
    (txn_status (tm_heap s ! a) = ACTIVE \<and> tm_wal s = None \<longrightarrow>
      (\<exists>s'. commit env a s = (Inr (), s') \<and> \<not> is_active s' (int a + 1) \<and>
        tm_heap s' = (tm_heap s)[a := (tm_heap s ! a)\<lparr>txn_status := COMMITTED\<rparr>]) \<and>
      (\<exists>s'. rollback env a s = (Inr (), s') \<and> \<not> is_active s' (int a + 1) \<and>
        tm_heap s' = (tm_heap s)[a := (tm_heap s ! a)\<lparr>txn_status := ABORTED\<rparr>] \<and>
        tm_committed_txns s' = tm_committed_txns s)) \<and>
    (tm_wal s \<noteq> None \<longrightarrow>
      fst (begin_txn env level now s) = Inl StructError \<and>
      tm_next_txn_id (snd (begin_txn env level now s)) = tm_next_txn_id s + 1 \<and>
      tm_active_txns (snd (begin_txn env level now s)) = [] \<and>
      (txn_status (tm_heap s ! a) = ACTIVE \<longrightarrow>
        fst (commit env a s) = Inl StructError \<and> fst (rollback env a s) = Inl StructError \<and>
        txn_status (tm_heap (snd (commit env a s)) ! a) = COMMITTED \<and>
        tm_committed_txns (snd (commit env a s)) = {}))"
proof (intro conjI impI)
  assume "txn_status (tm_heap s ! a) \<noteq> ACTIVE"
  then show "commit env a s = (Inl ValueError, s)" "rollback env a s = (Inl ValueError, s)"
    by (simp_all add: finished_raises)
next
  have i: "transaction_id (tm_heap s ! a) = int a + 1" using tm_reach_inv [OF reach] assms(2) by (rule tm_inv_id)
  assume "txn_status (tm_heap s ! a) = ACTIVE \<and> tm_wal s = None"
  then show "\<exists>s'. commit env a s = (Inr (), s') \<and> \<not> is_active s' (int a + 1) \<and>
      tm_heap s' = (tm_heap s)[a := (tm_heap s ! a)\<lparr>txn_status := COMMITTED\<rparr>]"
    and "\<exists>s'. rollback env a s = (Inr (), s') \<and> \<not> is_active s' (int a + 1) \<and>
      tm_heap s' = (tm_heap s)[a := (tm_heap s ! a)\<lparr>txn_status := ABORTED\<rparr>] \<and>
      tm_committed_txns s' = tm_committed_txns s"
    by (auto simp: commit_without_log rollback_without_log i is_active_def AList.delete_eq image_iff)
next
  assume log: "tm_wal s \<noteq> None"
  then obtain w where w: "tm_wal s = Some w" by auto
  have books: "tm_active_txns s = []" "tm_committed_txns s = {}" using tm_reach_inv [OF reach] log by (simp_all add: tm_inv_def)
  show "fst (begin_txn env level now s) = Inl StructError"
    "tm_next_txn_id (snd (begin_txn env level now s)) = tm_next_txn_id s + 1"
    "tm_active_txns (snd (begin_txn env level now s)) = []"
    using begin_with_log [OF w, of env level now] books by auto
  assume "txn_status (tm_heap s ! a) = ACTIVE"
  from end_with_log [OF w this, of env] show "fst (commit env a s) = Inl StructError"
    "fst (rollback env a s) = Inl StructError"
    "txn_status (tm_heap (snd (commit env a s)) ! a) = COMMITTED"
    "tm_committed_txns (snd (commit env a s)) = {}"
    using assms(2) books by auto
qed

theorem transaction_end_witness:
  "fst (commit plain_env 0 (snd (begin_txn plain_env SERIALIZABLE 0 (tm_new (Some (wal_new [])))))) =
    Inl StructError"
proof -
  let ?s = "snd (begin_txn plain_env SERIALIZABLE 0 (tm_new (Some (wal_new []))))"
  have s: "tm_reach plain_env ?s" by (rule tm_begun [OF tm_start])
  have "tm_wal (tm_new (Some (wal_new []))) = Some (wal_new [])" by (simp add: tm_new_def)
  from begin_with_log [OF this, of plain_env SERIALIZABLE 0]
  have "0 < length (tm_heap ?s)" "tm_wal ?s \<noteq> None" "txn_status (tm_heap ?s ! 0) = ACTIVE"
    by (auto simp: tm_new_def transaction_new_def)
  then show ?thesis using transaction_end [OF s, of 0] by blast
qed

end
