(* ===== verification/Checksum.thy ===== *)
theory Checksum
  imports Py_Struct
begin

text \<open>
  Checksums of the network stack, \<^verbatim>\<open>network/src/utils/checksum.py\<close>: the Internet checksum, CRC-8,
  CRC-16 and CRC-32 bit by bit, the table-driven frame check sequence and the incremental context.
  The hash functions of \<^verbatim>\<open>hashlib\<close> are an argument of the model: a function from the name of the
  algorithm and the bytes fed to a hash object to its hexadecimal digest.  Strings are ASCII.
\<close>

unbundle bit_operations_syntax

section \<open>The Internet checksum\<close>

text \<open>The sum of the big-endian words; the loop runs on data of even length.\<close>

fun add_words :: "int \<Rightarrow> bytes \<Rightarrow> int" where
  "add_words tot (a # b # rest) = add_words (tot + (push_bit 8 (uint a) + uint b)) rest"
| "add_words tot _ = tot"

lemma carry_step:
  "(tot :: int) AND 0xFFFF = tot mod 65536" "drop_bit 16 (tot :: int) = tot div 65536"
  using take_bit_eq_mask [of 16 tot] by (simp_all add: take_bit_eq_mod mask_eq_exp_minus_1 drop_bit_eq_div)

text \<open>The loop that adds the carries back.\<close>

function fold_carry :: "int \<Rightarrow> int" where
  "fold_carry tot =
     (if drop_bit 16 tot \<noteq> 0 then fold_carry ((tot AND 0xFFFF) + drop_bit 16 tot) else tot)"
  by pat_completeness auto

termination
proof (relation "measure (\<lambda>t. if 0 \<le> t then nat t else nat (65536 - t))")
  fix tot :: int
  assume "drop_bit 16 tot \<noteq> 0"
  then have q: "tot div 65536 \<noteq> 0" by (simp add: carry_step)
  have t: "tot = 65536 * (tot div 65536) + tot mod 65536" by simp
  have m: "0 \<le> tot mod 65536" "tot mod 65536 < 65536" by simp_all
  define a b where "a = tot div 65536" and "b = tot mod 65536"
  have "(tot, a, b) = (65536 * a + b, a, b)" using t by (simp add: a_def b_def)
  then show "((tot AND 0xFFFF) + drop_bit 16 tot, tot) \<in>
      measure (\<lambda>t. if 0 \<le> t then nat t else nat (65536 - t))"
    using q m unfolding carry_step in_measure a_def [symmetric] b_def [symmetric] by auto
qed simp

declare fold_carry.simps [simp del]

definition internet_compute :: "bytes \<Rightarrow> int \<Rightarrow> int" where
  "internet_compute data initial_value =
     (let data = (if length data mod 2 \<noteq> 0 then data @ [0] else data);
          tot = fold_carry (add_words initial_value data)
      in NOT tot AND 0xFFFF)"

definition internet_verify :: "bytes \<Rightarrow> int \<Rightarrow> bool" where
  "internet_verify data checksum \<longleftrightarrow> internet_compute data 0 = checksum"

definition compute_ipv4 :: "bytes \<Rightarrow> int result" where
  "compute_ipv4 header =
     (if length header < 20 then Inl (ChecksumErr)
      else Inr (internet_compute (py_slice header 0 10 @ [0, 0] @ py_slice header 12 (ilen header)) 0))"

text \<open>\<^verbatim>\<open>4s\<close> cuts its argument to four bytes or pads it with zeros.\<close>

definition pack_4s :: "bytes \<Rightarrow> bytes" where
  "pack_4s bs = take 4 (bs @ [0, 0, 0, 0])"

definition compute_pseudo_header :: "bytes \<Rightarrow> bytes \<Rightarrow> int \<Rightarrow> int \<Rightarrow> bytes result" where
  "compute_pseudo_header src_ip dst_ip protocol payload_length =
     struct_pack [(4, Inr (pack_4s src_ip)), (4, Inr (pack_4s dst_ip)), (1, pack_uint True 1 0),
                  (1, pack_uint True 1 protocol), (2, pack_uint True 2 payload_length)]"

definition compute_tcp_udp :: "bytes \<Rightarrow> bytes \<Rightarrow> int \<Rightarrow> bytes \<Rightarrow> bytes \<Rightarrow> int result" where
  "compute_tcp_udp src_ip dst_ip protocol header payload =
     res_bind (compute_pseudo_header src_ip dst_ip protocol (ilen header + ilen payload)) (\<lambda>pseudo_header.
       Inr (internet_compute (pseudo_header @ header @ payload) 0))"

section \<open>Cyclic redundancy checks\<close>

definition crc16_step :: "int \<Rightarrow> int \<Rightarrow> int" where
  "crc16_step polynomial crc =
     (if crc AND 0x8000 \<noteq> 0 then push_bit 1 crc XOR polynomial else push_bit 1 crc) AND 0xFFFF"

definition crc16 :: "int \<Rightarrow> bytes \<Rightarrow> int" where
  "crc16 polynomial data =
     fold (\<lambda>byte crc. (crc16_step polynomial ^^ 8) (crc XOR push_bit 8 (uint byte))) data 0xFFFF"

definition crc8_step :: "int \<Rightarrow> int \<Rightarrow> int" where
  "crc8_step polynomial crc =
     (if crc AND 0x80 \<noteq> 0 then push_bit 1 crc XOR polynomial else push_bit 1 crc) AND 0xFF"

definition crc8 :: "int \<Rightarrow> bytes \<Rightarrow> int" where
  "crc8 polynomial data = fold (\<lambda>byte crc. (crc8_step polynomial ^^ 8) (crc XOR uint byte)) data 0"

text \<open>
  The inner step of \<^verbatim>\<open>FCS32._build_table\<close>; the same step defines CRC-32, which the standard
  library computes.
\<close>

definition crc32_step :: "int \<Rightarrow> int" where
  "crc32_step crc = (if crc AND 1 \<noteq> 0 then drop_bit 1 crc XOR 0xEDB88320 else drop_bit 1 crc)"

definition zlib_crc32 :: "bytes \<Rightarrow> int" where
  "zlib_crc32 data =
     fold (\<lambda>byte crc. (crc32_step ^^ 8) (crc XOR uint byte)) data 0xFFFFFFFF XOR 0xFFFFFFFF"

definition crc32 :: "bytes \<Rightarrow> int" where
  "crc32 data = zlib_crc32 data AND 0xFFFFFFFF"

definition verify_crc32 :: "bytes \<Rightarrow> int \<Rightarrow> bool" where
  "verify_crc32 data expected \<longleftrightarrow> crc32 data = expected"

definition build_table :: "int list" where
  "build_table = map (\<lambda>i. (crc32_step ^^ 8) (int i)) [0..<256]"

definition fcs32_compute :: "bytes \<Rightarrow> int" where
  "fcs32_compute data =
     fold (\<lambda>byte crc. build_table ! nat ((crc XOR uint byte) AND 0xFF) XOR drop_bit 8 crc) data 0xFFFFFFFF
     XOR 0xFFFFFFFF"

definition fcs32_verify :: "bytes \<Rightarrow> int \<Rightarrow> bool" where
  "fcs32_verify data fcs \<longleftrightarrow> fcs32_compute data = fcs"

section \<open>Selection by name\<close>

definition lower_char :: "char \<Rightarrow> char" where
  "lower_char c = (if 65 \<le> (of_char c :: nat) \<and> (of_char c :: nat) \<le> 90 then char_of ((of_char c :: nat) + 32) else c)"

text \<open>\<^verbatim>\<open>int(digits, 16)\<close> for the digits of a digest.\<close>

definition hex_digit :: "char \<Rightarrow> int" where
  "hex_digit c = (let n = of_char c in if n \<le> 57 then n - 48 else if n \<le> 70 then n - 55 else n - 87)"

definition int_base16 :: "string \<Rightarrow> int" where
  "int_base16 digits = foldl (\<lambda>n c. 16 * n + hex_digit c) 0 digits"

type_synonym hashlib = "string \<Rightarrow> bytes \<Rightarrow> string"

definition compute_checksum :: "hashlib \<Rightarrow> bytes \<Rightarrow> string \<Rightarrow> int result" where
  "compute_checksum hexdigest data algorithm =
     (let algorithm = map lower_char algorithm in
      if algorithm = ''internet'' then Inr (internet_compute data 0)
      else if algorithm = ''crc32'' then Inr (crc32 data)
      else if algorithm = ''crc16'' then Inr (crc16 0x8005 data)
      else if algorithm = ''crc8'' then Inr (crc8 0x07 data)
      else if algorithm = ''md5'' then Inr (int_base16 (hexdigest ''md5'' data))
      else if algorithm = ''sha1'' then Inr (int_base16 (hexdigest ''sha1'' data))
      else if algorithm = ''sha256'' then Inr (int_base16 (hexdigest ''sha256'' data))
      else Inl ChecksumErr)"

definition verify_checksum :: "hashlib \<Rightarrow> bytes \<Rightarrow> int \<Rightarrow> string \<Rightarrow> bool result" where
  "verify_checksum hexdigest data expected algorithm =
     res_bind (compute_checksum hexdigest data algorithm) (\<lambda>computed. Inr (computed = expected))"

definition hash_funcs :: "string list" where
  "hash_funcs = [''md5'', ''sha1'', ''sha256'', ''sha512'']"

text \<open>
  \<^verbatim>\<open>f.read(chunk_size)\<close>: everything that is left for a negative size.  The loop over the chunks of
  a file with the bytes fed to the hash object so far; it ends with the first empty chunk.
\<close>

definition file_read :: "int \<Rightarrow> bytes \<Rightarrow> bytes \<times> bytes" where
  "file_read chunk_size f =
     (if chunk_size < 0 then (f, []) else (take (nat chunk_size) f, drop (nat chunk_size) f))"

function hash_chunks :: "int \<Rightarrow> bytes \<Rightarrow> bytes \<Rightarrow> bytes" where
  "hash_chunks chunk_size fed f =
     (let (chunk, f') = file_read chunk_size f
      in if chunk = [] then fed else hash_chunks chunk_size (fed @ chunk) f')"
  by pat_completeness auto
termination
  by (relation "measure (\<lambda>(_, _, f). length f)") (auto simp: file_read_def split: if_splits)

declare hash_chunks.simps [simp del]

definition compute_file_checksum :: "hashlib \<Rightarrow> bytes \<Rightarrow> string \<Rightarrow> int \<Rightarrow> string result" where
  "compute_file_checksum hexdigest file_bytes algorithm chunk_size =
     (if algorithm \<notin> set hash_funcs then Inl ChecksumErr
      else Inr (hexdigest algorithm (hash_chunks chunk_size [] file_bytes)))"

section \<open>The incremental context\<close>

text \<open>A hash object is its algorithm with the bytes fed to it.\<close>

record checksum_context =
  cc_algorithm :: string
  cc_is_internet :: bool
  cc_internet_total :: int
  cc_hash :: "(string \<times> bytes) option"

datatype digest_value = IntDigest int | HexDigest string

definition context_new :: "string \<Rightarrow> checksum_context" where
  "context_new algorithm =
     \<lparr>cc_algorithm = algorithm, cc_is_internet = (algorithm = ''internet''), cc_internet_total = 0,
      cc_hash = (if algorithm \<in> set hash_funcs then Some (algorithm, []) else None)\<rparr>"

fun add_chunk_words :: "int \<Rightarrow> bytes \<Rightarrow> int" where
  "add_chunk_words tot (a # b # rest) = add_chunk_words (tot + (push_bit 8 (uint a) + uint b)) rest"
| "add_chunk_words tot [a] = tot + push_bit 8 (uint a)"
| "add_chunk_words tot [] = tot"

definition context_update :: "checksum_context \<Rightarrow> bytes \<Rightarrow> checksum_context" where
  "context_update ctx data =
     (case cc_hash ctx of
        Some (algorithm, fed) \<Rightarrow> ctx\<lparr>cc_hash := Some (algorithm, fed @ data)\<rparr>
      | None \<Rightarrow>
          if cc_is_internet ctx
          then ctx\<lparr>cc_internet_total := add_chunk_words (cc_internet_total ctx) data\<rparr>
          else ctx)"

definition context_digest :: "hashlib \<Rightarrow> checksum_context \<Rightarrow> digest_value" where
  "context_digest hexdigest ctx =
     (case cc_hash ctx of
        Some (algorithm, fed) \<Rightarrow> HexDigest (hexdigest algorithm fed)
      | None \<Rightarrow>
          if cc_is_internet ctx
          then (let tot = fold_carry (cc_internet_total ctx) in IntDigest (NOT tot AND 0xFFFF))
          else IntDigest 0)"

section \<open>Sums of words\<close>

fun words :: "bytes \<Rightarrow> int" where
  "words (a # b # rest) = 256 * uint a + uint b + words rest"
| "words [a] = 256 * uint a"
| "words [] = 0"

lemma words_nonneg: "0 \<le> words xs"
  by (induction xs rule: words.induct) simp_all

lemma words_append: "even (length xs) \<Longrightarrow> words (xs @ ys) = words xs + words ys"
  by (induction xs rule: words.induct) simp_all

lemma words_pad: "odd (length xs) \<Longrightarrow> words (xs @ [0]) = words xs"
  by (induction xs rule: words.induct) simp_all

lemma add_words_eq: "even (length xs) \<Longrightarrow> add_words tot xs = tot + words xs"
  by (induction tot xs rule: add_words.induct) (simp_all add: push_bit_eq_mult)

lemma add_chunk_words_eq: "add_chunk_words tot xs = tot + words xs"
  by (induction tot xs rule: add_chunk_words.induct) (simp_all add: push_bit_eq_mult)

lemma fold_carry_spec:
  "0 \<le> tot \<Longrightarrow>
   0 \<le> fold_carry tot \<and> fold_carry tot < 65536 \<and> fold_carry tot mod 65535 = tot mod 65535 \<and>
   (fold_carry tot = 0 \<longleftrightarrow> tot = 0)"
proof (induction tot rule: fold_carry.induct)
  case (1 tot)
  show ?case
  proof (cases "tot div 65536 = 0")
    case True
    then have "tot < 65536" using 1 by (simp add: div_eq_0_iff)
    moreover have "fold_carry tot = tot" using True by (subst fold_carry.simps) (simp add: carry_step)
    ultimately show ?thesis using 1 by simp
  next
    case False
    define a b where "a = tot div 65536" and "b = tot mod 65536"
    have ab: "tot = 65536 * a + b" "0 \<le> b" "0 < a"
      using False 1 by (simp_all add: a_def b_def)
    have "fold_carry tot = fold_carry (b + a)"
      using False by (subst fold_carry.simps) (simp add: carry_step a_def b_def)
    moreover have "(b + a) mod 65535 = tot mod 65535"
    proof -
      have "tot = (b + a) + a * 65535" using ab by simp
      then show ?thesis by (simp only: mod_mult_self1)
    qed
    moreover have "0 \<le> fold_carry (b + a) \<and> fold_carry (b + a) < 65536 \<and>
        fold_carry (b + a) mod 65535 = (b + a) mod 65535 \<and> (fold_carry (b + a) = 0 \<longleftrightarrow> b + a = 0)"
      using "1.IH" [unfolded carry_step, folded a_def b_def] ab by simp
    ultimately show ?thesis using ab by simp
  qed
qed

lemma complement_16: "0 \<le> t \<Longrightarrow> t < 65536 \<Longrightarrow> NOT t AND 0xFFFF = 65535 - (t :: int)"
proof -
  assume "0 \<le> t" "t < 65536"
  moreover have "65535 - t = NOT t + 65536" by (simp add: not_int_def)
  then have "NOT t mod 65536 = (65535 - t) mod 65536" by (simp only: mod_add_self2)
  ultimately show ?thesis by (simp add: carry_step)
qed

lemma internet_compute_eq: "internet_compute data 0 = 65535 - fold_carry (words data)"
proof -
  have "add_words 0 (data @ [0]) = words data" if "odd (length data)"
    using that add_words_eq [of "data @ [0]" 0] words_pad by simp
  then have "internet_compute data 0 = NOT (fold_carry (words data)) AND 0xFFFF"
    by (cases "even (length data)")
      (auto simp: internet_compute_def add_words_eq odd_iff_mod_2_eq_one)
  then show ?thesis using fold_carry_spec [of "words data"] words_nonneg complement_16 by simp
qed

section \<open>Properties\<close>

definition be16 :: "int \<Rightarrow> bytes" where
  "be16 c = [word_of_int (c div 256), word_of_int c]"

lemma words_be16: "0 \<le> c \<Longrightarrow> c < 65536 \<Longrightarrow> words (be16 c @ xs) = c + words xs"
  by (simp add: be16_def uint_word_of_int div_pos_pos_trivial)

lemma multiple_65535: "t mod 65535 = 0 \<Longrightarrow> 0 < t \<Longrightarrow> t < 65536 \<Longrightarrow> t = (65535 :: int)"
  using zdvd_imp_le [of 65535 t] by (simp add: dvd_eq_mod_eq_0)

lemma carry_complement:
  assumes "0 \<le> t"
  shows "fold_carry (t + (65535 - fold_carry t)) = 65535"
proof -
  define f where "f = fold_carry t"
  have f: "0 \<le> f" "f < 65536" "f mod 65535 = t mod 65535" "f = 0 \<longleftrightarrow> t = 0"
    using fold_carry_spec [OF assms] by (simp_all add: f_def)
  define g where "g = t + (65535 - f)"
  have "g mod 65535 = (f + (65535 - f)) mod 65535"
    unfolding g_def by (rule mod_add_cong) (simp_all add: f(3))
  then have g: "g mod 65535 = 0" by simp
  have "0 \<le> g" "g \<noteq> 0" using f assms by (auto simp: g_def)
  then have "fold_carry g mod 65535 = 0 \<and> 0 < fold_carry g \<and> fold_carry g < 65536"
    using fold_carry_spec [of g] g by linarith
  then show ?thesis using multiple_65535 [of "fold_carry g"] by (simp add: g_def f_def)
qed

lemma checksum_installed:
  fixes pre post :: bytes
  assumes "even (length pre)"
  defines "c \<equiv> internet_compute (pre @ [0, 0] @ post) 0"
  shows "0 \<le> c \<and> c < 65536 \<and> internet_compute (pre @ be16 c @ post) 0 = 0"
proof -
  define t where "t = words (pre @ [0, 0] @ post)"
  have t: "0 \<le> t" by (simp only: t_def words_nonneg)
  have c: "c = 65535 - fold_carry t" by (simp only: c_def t_def internet_compute_eq)
  then have range: "0 \<le> c" "c < 65536" using fold_carry_spec [OF t] by simp_all
  have "words (pre @ be16 c @ post) = t + c"
    unfolding t_def words_append [OF assms(1)] words_be16 [OF range] by simp
  then have "internet_compute (pre @ be16 c @ post) 0 = 0"
    using carry_complement [OF t] by (simp only: internet_compute_eq c)
  with range show ?thesis by simp
qed

text \<open>
  C39. The Internet checksum verifies itself: written in network byte order over a zeroed field at an
  even position, the checksum of a message makes the checksum of the message 0, whatever its length;
  in particular the checksum that \<^verbatim>\<open>compute_ipv4\<close> returns for a header, written over bytes 10 and 11.
\<close>
theorem internet_checksum_verifies:
  "(even (length pre) \<longrightarrow>
      internet_verify (pre @ be16 (internet_compute (pre @ [0, 0] @ post) 0) @ post) 0) \<and>
   (case compute_ipv4 header of
      Inl e \<Rightarrow> length header < 20 \<and> e = ChecksumErr
    | Inr c \<Rightarrow> 0 \<le> c \<and> c < 65536 \<and> internet_verify (take 10 header @ be16 c @ drop 12 header) 0)"
proof (intro conjI impI)
  assume "even (length pre)"
  then show "internet_verify (pre @ be16 (internet_compute (pre @ [0, 0] @ post) 0) @ post) 0"
    using checksum_installed by (simp add: internet_verify_def)
next
  show "case compute_ipv4 header of
      Inl e \<Rightarrow> length header < 20 \<and> e = ChecksumErr
    | Inr c \<Rightarrow> 0 \<le> c \<and> c < 65536 \<and> internet_verify (take 10 header @ be16 c @ drop 12 header) 0"
  proof (cases "length header < 20")
    case False
    then have "compute_ipv4 header = Inr (internet_compute (take 10 header @ [0, 0] @ drop 12 header) 0)"
      by (simp add: compute_ipv4_def py_slice_in)
    with False checksum_installed [of "take 10 header" "drop 12 header"] show ?thesis
      by (simp add: internet_verify_def)
  qed (simp add: compute_ipv4_def)
qed

theorem internet_checksum_verifies_witness:
  "internet_verify ([0x45, 0x00] @ be16 (internet_compute ([0x45, 0x00] @ [0, 0] @ [7]) 0) @ [7]) 0"
  using internet_checksum_verifies [of "[0x45, 0x00]" "[7]"] by simp

lemma fold_context_internet:
  "cc_hash ctx = None \<Longrightarrow> cc_is_internet ctx \<Longrightarrow>
   fold (\<lambda>chunk ctx. context_update ctx chunk) chunks ctx =
     ctx\<lparr>cc_internet_total := cc_internet_total ctx + sum_list (map words chunks)\<rparr>"
  by (induction chunks arbitrary: ctx) (simp_all add: context_update_def add_chunk_words_eq)

lemma fold_context_hash:
  "cc_hash ctx = Some (name, fed) \<Longrightarrow>
   fold (\<lambda>chunk ctx. context_update ctx chunk) chunks ctx = ctx\<lparr>cc_hash := Some (name, fed @ concat chunks)\<rparr>"
  by (induction chunks arbitrary: ctx fed) (simp_all add: context_update_def)

definition padded :: "bytes \<Rightarrow> bytes" where
  "padded xs = (if even (length xs) then xs else xs @ [0])"

lemma words_concat_padded: "words (concat (map padded chunks)) = sum_list (map words chunks)"
  by (induction chunks) (auto simp: padded_def words_append words_pad)

lemma padded_concat:
  "list_all (\<lambda>xs. even (length xs)) (butlast chunks) \<Longrightarrow>
   words (concat (map padded chunks)) = words (concat chunks)"
  by (induction chunks rule: induct_list012) (auto simp: padded_def words_append words_pad)

definition digest_of :: "hashlib \<Rightarrow> string \<Rightarrow> bytes list \<Rightarrow> digest_value" where
  "digest_of hexdigest name chunks =
     context_digest hexdigest (fold (\<lambda>chunk ctx. context_update ctx chunk) chunks (context_new name))"

text \<open>
  Incremental use of \<^verbatim>\<open>ChecksumContext\<close>: for a hash algorithm the digest is that of the joined
  chunks.  For \<^verbatim>\<open>"internet"\<close> it is the checksum of the chunks each padded to an even length, so it
  is the checksum of the joined chunks when all chunks but the last have even lengths, and not in
  general otherwise.  Any other name, \<^verbatim>\<open>"crc32"\<close> as well, gives 0 without an error.
\<close>
theorem context_digest_chunks:
  "(if name \<in> set hash_funcs then digest_of hexdigest name chunks = HexDigest (hexdigest name (concat chunks))
    else if name \<noteq> ''internet'' then digest_of hexdigest name chunks = IntDigest 0
    else digest_of hexdigest name chunks = IntDigest (internet_compute (concat (map padded chunks)) 0) \<and>
      (list_all (\<lambda>xs. even (length xs)) (butlast chunks) \<longrightarrow>
        digest_of hexdigest name chunks = IntDigest (internet_compute (concat chunks) 0))) \<and>
   digest_of hexdigest ''internet'' [[1], [2]] \<noteq> IntDigest (internet_compute [1, 2] 0)"
proof -
  have i: "digest_of hexdigest ''internet'' chunks = IntDigest (internet_compute (concat (map padded chunks)) 0)"
    for chunks
    using fold_carry_spec [of "sum_list (map words chunks)"] words_nonneg [of "concat (map padded chunks)"]
    by (simp add: digest_of_def fold_context_internet context_new_def hash_funcs_def context_digest_def
        internet_compute_eq words_concat_padded complement_16)
  have other: "digest_of hexdigest name chunks = IntDigest 0"
    if "name \<notin> set hash_funcs" "name \<noteq> ''internet''"
  proof -
    have "fold (\<lambda>chunk ctx. context_update ctx chunk) chunks (context_new name) = context_new name"
      using that by (induction chunks) (simp_all add: context_update_def context_new_def)
    then show ?thesis using that by (simp add: digest_of_def context_digest_def context_new_def)
  qed
  have hash: "digest_of hexdigest name chunks = HexDigest (hexdigest name (concat chunks))"
    if "name \<in> set hash_funcs"
    using that by (simp add: digest_of_def context_new_def fold_context_hash context_digest_def)
  have "fold_carry 768 = 768" "fold_carry 258 = 258" by (subst fold_carry.simps; simp add: carry_step)+
  then have "digest_of hexdigest ''internet'' [[1], [2]] \<noteq> IntDigest (internet_compute [1, 2] 0)"
    by (simp add: i internet_compute_eq padded_def)
  then show ?thesis
    using i [of chunks] other hash padded_concat [of chunks] by (auto simp: internet_compute_eq)
qed

theorem context_digest_chunks_witness:
  "digest_of (\<lambda>_ _. []) ''internet'' [[1, 2], [3]] = IntDigest (internet_compute [1, 2, 3] 0)"
  using context_digest_chunks [of "''internet''" "\<lambda>_ _. []" "[[1, 2], [3]]"]
  by (simp add: hash_funcs_def padded_def internet_compute_eq)

section \<open>Cyclic redundancy checks, properties\<close>

lemma crc32_step_odd: "crc32_step x = (if odd x then drop_bit 1 x XOR 0xEDB88320 else drop_bit 1 x)"
  by (simp add: crc32_step_def and_one_eq odd_iff_mod_2_eq_one)

lemma crc32_step_xor: "crc32_step (a XOR b) = crc32_step a XOR crc32_step b"
  by (auto simp: crc32_step_odd drop_bit_xor even_xor_iff xor.assoc xor.commute xor.left_commute)

lemma crc32_step_shift: "crc32_step (push_bit (Suc k) x) = push_bit k x"
  by (simp add: crc32_step_odd drop_bit_eq_div push_bit_eq_mult)

lemma crc32_steps_xor: "(crc32_step ^^ n) (a XOR b) = (crc32_step ^^ n) a XOR (crc32_step ^^ n) b"
  by (induction n) (simp_all add: crc32_step_xor)

lemma crc32_steps_shift: "(crc32_step ^^ n) (push_bit n x) = x"
proof (induction n)
  case (Suc n)
  have "(crc32_step ^^ Suc n) (push_bit (Suc n) x) = (crc32_step ^^ n) (crc32_step (push_bit (Suc n) x))"
    by (simp only: funpow_Suc_right o_apply)
  then show ?case using Suc by (simp only: crc32_step_shift)
qed simp

lemma crc32_byte: "(crc32_step ^^ 8) x = build_table ! nat (x AND 0xFF) XOR drop_bit 8 x"
proof -
  have low: "x AND 0xFF = take_bit 8 x" by (simp add: take_bit_eq_mod)
  have "x = take_bit 8 x XOR push_bit 8 (drop_bit 8 x)"
    by (rule bit_eqI) (auto simp: bit_simps)
  then have "(crc32_step ^^ 8) x = (crc32_step ^^ 8) (take_bit 8 x) XOR drop_bit 8 x"
    by (metis crc32_steps_xor crc32_steps_shift)
  moreover have "build_table ! nat (take_bit 8 x) = (crc32_step ^^ 8) (take_bit 8 x)"
    using take_bit_int_less_exp [of 8 x] by (simp add: build_table_def nat_less_iff)
  ultimately show ?thesis by (simp only: low)
qed

lemma bit_step_zero: "(crc8_step p ^^ n) 0 = 0" "(crc16_step p ^^ n) 0 = 0"
  by (induction n) (simp_all add: crc8_step_def crc16_step_def)

lemma mask_bounds:
  "0 \<le> (x :: int) AND 0xFF" "(x :: int) AND 0xFF < 256"
  "0 \<le> (x :: int) AND 0xFFFF" "(x :: int) AND 0xFFFF < 65536"
  by (simp_all add: carry_step)

lemma crc8_steps_bounds: "0 \<le> (crc8_step p ^^ Suc n) x \<and> (crc8_step p ^^ Suc n) x < 256"
  by (simp only: funpow.simps o_apply crc8_step_def mask_bounds)

lemma crc16_steps_bounds: "0 \<le> (crc16_step p ^^ Suc n) x \<and> (crc16_step p ^^ Suc n) x < 65536"
  by (simp only: funpow.simps o_apply crc16_step_def mask_bounds)

lemma crc8_bounds: "0 \<le> crc8 p data \<and> crc8 p data < 256"
  by (cases data rule: rev_cases) (use crc8_steps_bounds [of 7 p] in \<open>simp_all add: crc8_def\<close>)

lemma crc16_bounds: "0 \<le> crc16 p data \<and> crc16 p data < 65536"
  by (cases data rule: rev_cases) (use crc16_steps_bounds [of 7 p] in \<open>simp_all add: crc16_def\<close>)

lemma split_byte: "(x :: int) = take_bit 8 x XOR push_bit 8 (drop_bit 8 x)"
  by (rule bit_eqI) (auto simp: bit_simps)

lemma crc16_step_small: "0 \<le> v \<Longrightarrow> v < 32768 \<Longrightarrow> crc16_step p v = 2 * v"
  using and_exp_eq_0_iff_mod [of v 15] by (simp add: crc16_step_def carry_step push_bit_eq_mult)

lemma crc16_low_byte:
  assumes "0 \<le> x" "x < 256"
  shows "k \<le> 8 \<Longrightarrow> (crc16_step p ^^ k) x = push_bit k x"
proof (induction k)
  case (Suc k)
  have "(2 :: int) ^ k \<le> 2 ^ 7" using Suc.prems by (intro power_increasing) simp_all
  then have "x * 2 ^ k \<le> 255 * 2 ^ 7" using assms by (intro mult_mono) simp_all
  then have b: "0 \<le> push_bit k x" "push_bit k x < 32768" using assms by (simp_all add: push_bit_eq_mult)
  then have "crc16_step p (push_bit k x) = 2 * push_bit k x" by (rule crc16_step_small)
  then show ?case using Suc by (simp add: push_bit_eq_mult)
qed simp

lemma crc16_appended:
  assumes "0 \<le> c" "c < 65536"
  shows "fold (\<lambda>byte crc. (crc16_step p ^^ 8) (crc XOR push_bit 8 (uint byte))) (be16 c) c = 0"
proof -
  have hi: "uint (word_of_int (c div 256) :: byte) = drop_bit 8 c"
    using assms by (simp add: uint_word_of_int drop_bit_eq_div)
  have lo: "uint (word_of_int c :: byte) = take_bit 8 c" by (simp add: uint_word_of_int take_bit_eq_mod)
  have "c XOR push_bit 8 (drop_bit 8 c) = take_bit 8 c"
    by (subst (1) split_byte) (simp add: xor.assoc)
  moreover have "(crc16_step p ^^ 8) (take_bit 8 c) = push_bit 8 (take_bit 8 c)"
    by (rule crc16_low_byte) (use take_bit_int_less_exp [of 8 c] in simp_all)
  ultimately show ?thesis by (simp only: be16_def fold.simps o_apply id_apply hi lo xor_self_eq bit_step_zero)
qed

lemma zlib_crc32_bounds: "zlib_crc32 data AND 0xFFFFFFFF = zlib_crc32 data"
proof -
  have mask: "x AND 0xFFFFFFFF = take_bit 32 x" for x :: int
    using take_bit_eq_mask [of 32 x] by (simp add: mask_eq_exp_minus_1)
  have step: "take_bit 32 (crc32_step x) = crc32_step x" if "take_bit 32 x = x" for x
  proof -
    have "0 \<le> x" "x < 2 ^ 32" using that by (simp_all add: take_bit_int_eq_self_iff)
    then have "take_bit 32 (drop_bit 1 x) = drop_bit 1 x"
      by (simp add: take_bit_int_eq_self_iff drop_bit_eq_div)
    moreover have "take_bit 32 0xEDB88320 = (0xEDB88320 :: int)"
      by (simp add: take_bit_int_eq_self_iff)
    ultimately show ?thesis by (simp only: crc32_step_odd take_bit_xor split: if_split) simp
  qed
  have steps: "take_bit 32 x = x \<Longrightarrow> take_bit 32 ((crc32_step ^^ n) x) = (crc32_step ^^ n) x" for x n
    by (induction n) (simp_all add: step)
  have "take_bit 32 (uint b) = uint b" for b :: byte
    using order.strict_trans [OF uint_byte_bounds(2) [of b], of "2 ^ 32"]
    by (simp add: take_bit_int_eq_self_iff)
  then have "take_bit 32 x = x \<Longrightarrow>
      take_bit 32 (fold (\<lambda>byte crc. (crc32_step ^^ 8) (crc XOR uint byte)) data x) =
      fold (\<lambda>byte crc. (crc32_step ^^ 8) (crc XOR uint byte)) data x" for x
    by (induction data arbitrary: x) (simp_all add: steps take_bit_xor)
  then show ?thesis by (simp add: mask zlib_crc32_def take_bit_xor)
qed

text \<open>
  C40. The cyclic redundancy checks: the table-driven frame check sequence equals the CRC-32 of the
  standard library on all data, and is what \<^verbatim>\<open>compute_checksum\<close> returns for \<^verbatim>\<open>"CRC32"\<close>; CRC-8 and
  CRC-16, for every polynomial, fit their width and are 0 for data followed by its own checksum.
\<close>
theorem crc_checks:
  "fcs32_compute data = crc32 data \<and> crc32 data = zlib_crc32 data \<and>
   compute_checksum hexdigest data ''CRC32'' = Inr (fcs32_compute data) \<and>
   crc8 p data \<in> {0..<256} \<and> crc8 p (data @ [word_of_int (crc8 p data)]) = 0 \<and>
   crc16 p data \<in> {0..<65536} \<and> crc16 p (data @ be16 (crc16 p data)) = 0"
proof -
  have high: "drop_bit 8 (uint b) = 0" for b :: byte
    using uint_byte_bounds [of b] by (simp add: drop_bit_eq_div)
  have table: "fcs32_compute data = zlib_crc32 data"
    unfolding fcs32_compute_def zlib_crc32_def
    by (intro arg_cong2 [where f = "(XOR)"] arg_cong2 [where f = "\<lambda>f x. fold f data x"] ext)
      (simp_all add: crc32_byte drop_bit_xor high)
  have eight: "crc8 p (data @ [word_of_int (crc8 p data)]) = 0"
  proof -
    have "uint (word_of_int (crc8 p data) :: byte) = crc8 p data"
      using crc8_bounds [of p data] by (simp add: uint_word_of_int)
    then show ?thesis by (simp only: crc8_def [of p "data @ _"] fold_append fold.simps o_apply id_apply
        crc8_def [of p data, symmetric] xor_self_eq bit_step_zero)
  qed
  have sixteen: "crc16 p (data @ be16 (crc16 p data)) = 0"
    unfolding crc16_def [of p "data @ _"] fold_append o_apply crc16_def [of p data, symmetric]
    by (rule crc16_appended) (use crc16_bounds [of p data] in simp_all)
  have "map lower_char ''CRC32'' = ''crc32''" by code_simp
  then have "compute_checksum hexdigest data ''CRC32'' = Inr (crc32 data)"
    by (simp add: compute_checksum_def)
  then show ?thesis
    using table zlib_crc32_bounds [of data] crc8_bounds [of p data] crc16_bounds [of p data] eight sixteen
    by (simp add: crc32_def)
qed

end
