(* ===== verification/Py_Text.thy ===== *)
theory Py_Text
  imports Py_Prelude
begin

text \<open>
  Python strings as far as the modules handle decimal numbers and separators: \<^verbatim>\<open>str(n)\<close>,
  \<^verbatim>\<open>int(s)\<close> for strings of ASCII digits, \<^verbatim>\<open>s.split(c)\<close> and \<^verbatim>\<open>c.join(parts)\<close>.
\<close>

section \<open>Decimal numbers\<close>

fun nat_str :: "nat \<Rightarrow> string" where
  "nat_str n =
     (if n < 10 then [char_of (48 + n)] else nat_str (n div 10) @ [char_of (48 + n mod 10)])"

declare nat_str.simps [simp del]

definition int_str :: "int \<Rightarrow> string" where
  "int_str n = (if n < 0 then ''-'' @ nat_str (nat (- n)) else nat_str (nat n))"

definition digit_char :: "char \<Rightarrow> bool" where
  "digit_char c \<longleftrightarrow> 48 \<le> (of_char c :: nat) \<and> (of_char c :: nat) \<le> 57"

text \<open>\<^verbatim>\<open>s.isascii() and s.isdigit()\<close>.\<close>

definition ascii_digits :: "string \<Rightarrow> bool" where
  "ascii_digits s \<longleftrightarrow> s \<noteq> [] \<and> list_all digit_char s"

definition digits_value :: "string \<Rightarrow> nat" where
  "digits_value s = foldl (\<lambda>n c. 10 * n + (of_char c - 48)) 0 s"

lemma digits_value_snoc: "digits_value (s @ [c]) = 10 * digits_value s + (of_char c - 48)"
  by (simp add: digits_value_def)

lemma nat_str_digits: "ascii_digits (nat_str n)"
proof (induction n rule: nat_str.induct)
  case (1 n)
  have "digit_char (char_of (48 + k))" if "k < 10" for k :: nat
    using that by (simp add: digit_char_def)
  then show ?case using 1 by (subst nat_str.simps) (auto simp: ascii_digits_def)
qed

lemma digits_value_nat_str: "digits_value (nat_str n) = n"
proof (induction n rule: nat_str.induct)
  case (1 n)
  show ?case
  proof (cases "n < 10")
    case True
    then show ?thesis by (subst nat_str.simps) (simp add: digits_value_def)
  next
    case False
    then show ?thesis using 1 by (subst nat_str.simps) (simp add: digits_value_snoc)
  qed
qed

lemma nat_str_value:
  "ascii_digits s \<Longrightarrow> s = ''0'' \<or> hd s \<noteq> CHR ''0'' \<Longrightarrow> nat_str (digits_value s) = s"
proof (induction s rule: rev_induct)
  case (snoc c s)
  have c: "48 \<le> (of_char c :: nat)" "(of_char c :: nat) \<le> 57"
    using snoc.prems(1) by (simp_all add: ascii_digits_def digit_char_def)
  then have again: "char_of (48 + (of_char c - 48 :: nat)) = c" "of_char c - 48 < (10 :: nat)" by auto
  show ?case
  proof (cases "s = []")
    case True
    then show ?thesis using c again by (subst nat_str.simps) (simp add: digits_value_def)
  next
    case False
    with snoc.prems have hd: "hd s \<noteq> CHR ''0''" "ascii_digits s" "hd (s @ [c]) \<noteq> CHR ''0''"
      by (auto simp: ascii_digits_def)
    have s: "nat_str (digits_value s) = s" using snoc.IH hd by blast
    have "digits_value s \<noteq> 0"
    proof
      assume "digits_value s = 0"
      moreover have "char_of (48 :: nat) = CHR ''0''" by code_simp
      ultimately have "s = ''0''" using s by (simp add: nat_str.simps)
      with hd show False by simp
    qed
    moreover obtain d :: nat where d: "of_char c - 48 = d" "d < 10" using again(2) by blast
    ultimately have "\<not> digits_value (s @ [c]) < 10" "digits_value (s @ [c]) div 10 = digits_value s"
        "digits_value (s @ [c]) mod 10 = of_char c - 48"
      unfolding digits_value_snoc d(1) by auto
    then show ?thesis using s again by (subst nat_str.simps) simp
  qed
qed (simp add: ascii_digits_def)

lemma length_nat_str:
  "n < 10 \<Longrightarrow> length (nat_str n) = 1" "10 \<le> n \<Longrightarrow> length (nat_str n) = Suc (length (nat_str (n div 10)))"
  by (subst nat_str.simps; simp)+

lemma hd_nat_str: "0 < n \<Longrightarrow> hd (nat_str n) \<noteq> CHR ''0''"
proof (induction n rule: nat_str.induct)
  case (1 n)
  show ?case
  proof (cases "n < 10")
    case True
    then have "of_char (char_of (48 + n) :: char) = 48 + n" by simp
    moreover have "of_char (CHR ''0'') = (48 :: nat)" by simp
    ultimately have "char_of (48 + n) \<noteq> CHR ''0''" using 1(2) by (metis add_cancel_left_right less_numeral_extra(3))
    then show ?thesis using True by (subst nat_str.simps) simp
  next
    case False
    then show ?thesis using 1 nat_str_digits [of "n div 10"] by (subst nat_str.simps) (simp add: ascii_digits_def)
  qed
qed

section \<open>Splitting and joining\<close>

fun split_on :: "'a \<Rightarrow> 'a list \<Rightarrow> 'a list list" where
  "split_on c [] = [[]]"
| "split_on c (x # xs) =
     (if x = c then [] # split_on c xs
      else case split_on c xs of [] \<Rightarrow> [[x]] | p # ps \<Rightarrow> (x # p) # ps)"

fun join_with :: "'a \<Rightarrow> 'a list list \<Rightarrow> 'a list" where
  "join_with c [] = []"
| "join_with c [p] = p"
| "join_with c (p # ps) = p @ c # join_with c ps"

lemma split_on_nonempty [simp]: "split_on c s \<noteq> []"
  by (induction s) (auto split: list.split)

lemma join_split: "join_with c (split_on c s) = s"
proof (induction s)
  case (Cons x xs)
  then show ?case
    by (cases "split_on c xs") (auto simp: neq_Nil_conv, (metis join_with.simps(2,3) list.exhaust append_Cons)?)
qed simp

lemma split_no_sep: "c \<notin> set p \<Longrightarrow> split_on c p = [p]"
  by (induction p) auto

lemma split_append_sep: "c \<notin> set p \<Longrightarrow> split_on c (p @ c # s) = p # split_on c s"
  by (induction p) auto

lemma split_join: "ps \<noteq> [] \<Longrightarrow> (\<And>p. p \<in> set ps \<Longrightarrow> c \<notin> set p) \<Longrightarrow> split_on c (join_with c ps) = ps"
  by (induction c ps rule: join_with.induct) (auto simp: split_no_sep split_append_sep)

section \<open>Letters, white space and numerals of ASCII text\<close>

definition upper_char :: "char \<Rightarrow> char" where
  "upper_char c = (if 97 \<le> (of_char c :: nat) \<and> (of_char c :: nat) \<le> 122 then char_of ((of_char c :: nat) - 32) else c)"

definition upper :: "string \<Rightarrow> string" where
  "upper s = map upper_char s"

definition space_char :: "char \<Rightarrow> bool" where
  "space_char c \<longleftrightarrow> (let n = (of_char c :: nat) in n = 32 \<or> 9 \<le> n \<and> n \<le> 13 \<or> 28 \<le> n \<and> n \<le> 31)"

definition strip :: "string \<Rightarrow> string" where
  "strip s = rev (dropWhile space_char (rev (dropWhile space_char s)))"

text \<open>\<^verbatim>\<open>int(s)\<close>: white space around, a sign, digits with single underscores between them.\<close>

definition int_of_text :: "string \<Rightarrow> int result" where
  "int_of_text s =
     (let t = strip s;
          (neg, digits) =
            (case t of
               c # cs \<Rightarrow> if c = CHR ''-'' then (True, cs) else if c = CHR ''+'' then (False, cs) else (False, t)
             | [] \<Rightarrow> (False, t));
          parts = split_on CHR ''_'' digits
      in if list_all ascii_digits parts
         then Inr (if neg then - int (digits_value (concat parts)) else int (digits_value (concat parts)))
         else Inl ValueError)"

lemma upper_idem [simp]: "upper (upper s) = upper s"
proof -
  have "upper_char (upper_char c) = upper_char c" for c
  proof (cases "97 \<le> (of_char c :: nat) \<and> (of_char c :: nat) \<le> 122")
    case True
    then have "(of_char c :: nat) - 32 < 256" by linarith
    then have "(of_char (char_of ((of_char c :: nat) - 32) :: char) :: nat) = of_char c - 32" by simp
    moreover have "\<not> 97 \<le> (of_char c :: nat) - 32" using True by linarith
    ultimately show ?thesis using True by (simp add: upper_char_def)
  next
    case False
    then have "upper_char c = c" by (auto simp: upper_char_def)
    then show ?thesis by simp
  qed
  then show ?thesis by (simp add: upper_def comp_def)
qed

lemma upper_append: "upper (s @ t) = upper s @ upper t"
  by (simp add: upper_def)

lemma strip_id:
  assumes "s \<noteq> []" and "\<not> space_char (hd s)" and "\<not> space_char (last s)"
  shows "strip s = s"
proof -
  have "dropWhile space_char s = s" using assms(1,2) by (cases s) auto
  moreover have "dropWhile space_char (rev s) = rev s" using assms(1,3) by (cases s rule: rev_cases) auto
  ultimately show ?thesis by (simp add: strip_def)
qed

lemma digit_char_facts:
  "digit_char c \<Longrightarrow> \<not> space_char c \<and> upper_char c = c \<and> c \<noteq> CHR ''-'' \<and> c \<noteq> CHR ''+'' \<and> c \<noteq> CHR ''_'' \<and>
   c \<noteq> CHR ''('' \<and> c \<noteq> CHR '')''"
  by (auto simp: digit_char_def space_char_def upper_char_def Let_def)

lemma int_of_int_str: "int_of_text (int_str n) = Inr n"
proof -
  have digits: "ascii_digits (nat_str m)" for m by (rule nat_str_digits)
  then have ne: "nat_str m \<noteq> []" and all: "c \<in> set (nat_str m) \<Longrightarrow> digit_char c" for m c
    by (auto simp: ascii_digits_def list_all_iff)
  note ends = ne all [OF hd_in_set [OF ne]] all [OF last_in_set [OF ne]]
  have parts: "split_on CHR ''_'' (nat_str m) = [nat_str m]" for m
    using digits [of m] by (intro split_no_sep) (auto simp: ascii_digits_def list_all_iff dest: digit_char_facts)
  show ?thesis
  proof (cases "n < 0")
    case True
    then have "strip (int_str n) = int_str n"
      using ends [of "nat (- n)"] digit_char_facts
      by (intro strip_id) (auto simp: int_str_def space_char_def)
    then show ?thesis
      using True parts digits [of "nat (- n)"] by (simp add: int_of_text_def int_str_def digits_value_nat_str)
  next
    case False
    then have "strip (int_str n) = int_str n"
      using ends [of "nat n"] digit_char_facts by (intro strip_id) (auto simp: int_str_def)
    moreover obtain c cs where "nat_str (nat n) = c # cs" "digit_char c"
      using ends [of "nat n"] by (cases "nat_str (nat n)") auto
    ultimately show ?thesis
      using False parts [of "nat n"] digits [of "nat n"] digit_char_facts [of c]
        digits_value_nat_str [of "nat n"] by (simp add: int_of_text_def int_str_def)
  qed
qed

end
