(* ===== verification/Tcp.thy ===== *)
theory Tcp
  imports Py_Text Py_Float "HOL-Library.AList"
begin

text \<open>
  The TCP layer of the network stack, \<^verbatim>\<open>network/src/protocol/tcp.py\<close>: packets with their binary
  form, connections, congestion control, the retransmission manager and the protocol object.

  Points of view: the objects \<^verbatim>\<open>CongestionControl\<close> and \<^verbatim>\<open>RetransmissionManager\<close> are created and
  dropped together with their connection and work on this very connection, so the three
  dictionaries of the protocol are one association list here.  The clock enters as the expiry
  times that \<^verbatim>\<open>time.time() + rto\<close> gives and as the set of expiries that have passed; random numbers
  are arguments.  Callbacks are opaque: the model records that they are called.  The
  floating-point estimates (\<^verbatim>\<open>rto\<close>, \<^verbatim>\<open>srtt\<close>, \<^verbatim>\<open>rttvar\<close> and the derived statistics) are left out.
  A coroutine that waits in a loop is modelled by one round of the loop.
\<close>

unbundle bit_operations_syntax

section \<open>Packets\<close>

datatype tcp_state =
    CLOSED | LISTEN | SYN_SENT | SYN_RECEIVED | ESTABLISHED | FIN_WAIT_1 | FIN_WAIT_2
  | CLOSE_WAIT | CLOSING | LAST_ACK | TIME_WAIT

datatype congestion_state = SLOW_START | CONGESTION_AVOIDANCE | FAST_RECOVERY

abbreviation (input) "FLAG_FIN \<equiv> 0x01 :: int"
abbreviation (input) "FLAG_SYN \<equiv> 0x02 :: int"
abbreviation (input) "FLAG_RST \<equiv> 0x04 :: int"
abbreviation (input) "FLAG_PSH \<equiv> 0x08 :: int"
abbreviation (input) "FLAG_ACK \<equiv> 0x10 :: int"
abbreviation (input) "FLAG_URG \<equiv> 0x20 :: int"

record tcp_packet =
  src_port :: int
  dst_port :: int
  sequence_number :: int
  acknowledgment_number :: int
  data_offset :: int
  flags :: int
  window_size :: int
  pkt_checksum :: int
  urgent_pointer :: int
  pkt_options :: bytes
  payload :: bytes
  retransmitted :: bool

text \<open>A packet built with the default values of the class for everything else.\<close>

definition tcp_packet_new :: "int \<Rightarrow> int \<Rightarrow> int \<Rightarrow> int \<Rightarrow> int \<Rightarrow> bytes \<Rightarrow> tcp_packet" where
  "tcp_packet_new src dst seq ack fl data =
     \<lparr>src_port = src, dst_port = dst, sequence_number = seq, acknowledgment_number = ack,
      data_offset = 5, flags = fl, window_size = 65535, pkt_checksum = 0, urgent_pointer = 0,
      pkt_options = [], payload = data, retransmitted = False\<rparr>"

definition header_length :: "tcp_packet \<Rightarrow> int" where
  "header_length p = data_offset p * 4"

definition is_syn :: "tcp_packet \<Rightarrow> bool" where
  "is_syn p \<longleftrightarrow> flags p AND FLAG_SYN \<noteq> 0"

definition is_ack :: "tcp_packet \<Rightarrow> bool" where
  "is_ack p \<longleftrightarrow> flags p AND FLAG_ACK \<noteq> 0"

definition is_fin :: "tcp_packet \<Rightarrow> bool" where
  "is_fin p \<longleftrightarrow> flags p AND FLAG_FIN \<noteq> 0"

definition is_rst :: "tcp_packet \<Rightarrow> bool" where
  "is_rst p \<longleftrightarrow> flags p AND FLAG_RST \<noteq> 0"

definition is_psh :: "tcp_packet \<Rightarrow> bool" where
  "is_psh p \<longleftrightarrow> flags p AND FLAG_PSH \<noteq> 0"

definition is_urg :: "tcp_packet \<Rightarrow> bool" where
  "is_urg p \<longleftrightarrow> flags p AND FLAG_URG \<noteq> 0"

definition tcp_encode :: "tcp_packet \<Rightarrow> bytes result" where
  "tcp_encode p =
     (let data_offset_byte = push_bit 4 (data_offset p) OR 0
      in res_bind (struct_pack
           [(2, pack_uint True 2 (src_port p)), (2, pack_uint True 2 (dst_port p)),
            (4, pack_uint True 4 (sequence_number p)), (4, pack_uint True 4 (acknowledgment_number p)),
            (1, pack_uint True 1 data_offset_byte), (1, pack_uint True 1 (flags p)),
            (2, pack_uint True 2 (window_size p)), (2, pack_uint True 2 (pkt_checksum p)),
            (2, pack_uint True 2 (urgent_pointer p))]) (\<lambda>h.
         let header = h @ pkt_options p
         in Inr (header @ py_repeat 0 (header_length p - ilen header) @ payload p)))"

text \<open>The fields of a decoded packet; \<^verbatim>\<open>struct.unpack\<close> gets slices of the right lengths.\<close>

definition tcp_decode :: "bytes \<Rightarrow> tcp_packet result" where
  "tcp_decode data =
     (if ilen data < 20 then Inl ValueError
      else
        let src = unpack_uint True (py_slice data 0 2); dst = unpack_uint True (py_slice data 2 4);
            seq = unpack_uint True (py_slice data 4 8); ack = unpack_uint True (py_slice data 8 12);
            data_offset_byte = unpack_uint True (py_slice data 12 13);
            fl = unpack_uint True (py_slice data 13 14);
            offset = drop_bit 4 data_offset_byte AND 0x0F;
            window = unpack_uint True (py_slice data 14 16);
            checksum = unpack_uint True (py_slice data 16 18);
            urgent = unpack_uint True (py_slice data 18 20);
            hlen = offset * 4
        in Inr \<lparr>src_port = src, dst_port = dst, sequence_number = seq, acknowledgment_number = ack,
             data_offset = offset, flags = fl, window_size = window, pkt_checksum = checksum,
             urgent_pointer = urgent,
             pkt_options = (if hlen > 20 then py_slice data 20 hlen else []),
             payload = (if ilen data > hlen then py_slice data hlen (ilen data) else []),
             retransmitted = False\<rparr>)"

section \<open>Connections\<close>

type_synonym addr = "string \<times> int"

record tcp_connection =
  local_addr :: addr
  remote_addr :: addr
  conn_state :: tcp_state
  send_next :: int
  send_window :: int
  iss :: int
  rcv_next :: int
  irs :: int
  mss :: int
  snd_cwnd :: int
  snd_ssthresh :: int
  cong_state :: congestion_state
  duplicate_acks :: int
  out_of_order_queue :: "(int \<times> tcp_packet) list"
  bytes_sent :: int
  bytes_received :: int
  packets_sent :: int
  packets_received :: int
  retransmissions :: int
  connection_id :: string

definition conn_id_of :: "addr \<Rightarrow> addr \<Rightarrow> string" where
  "conn_id_of l r = fst l @ '':'' @ int_str (snd l) @ ''-'' @ fst r @ '':'' @ int_str (snd r)"

definition tcp_connection_new :: "addr \<Rightarrow> addr \<Rightarrow> tcp_state \<Rightarrow> tcp_connection" where
  "tcp_connection_new l r st =
     \<lparr>local_addr = l, remote_addr = r, conn_state = st, send_next = 0, send_window = 65535, iss = 0,
      rcv_next = 0, irs = 0, mss = 1460, snd_cwnd = 1, snd_ssthresh = 65535,
      cong_state = SLOW_START, duplicate_acks = 0, out_of_order_queue = [], bytes_sent = 0,
      bytes_received = 0, packets_sent = 0, packets_received = 0, retransmissions = 0,
      connection_id = conn_id_of l r\<rparr>"

definition is_established :: "tcp_connection \<Rightarrow> bool" where
  "is_established c \<longleftrightarrow> conn_state c = ESTABLISHED"

definition is_closing :: "tcp_connection \<Rightarrow> bool" where
  "is_closing c \<longleftrightarrow>
     conn_state c \<in> {FIN_WAIT_1, FIN_WAIT_2, CLOSE_WAIT, CLOSING, LAST_ACK, TIME_WAIT}"

definition is_closed :: "tcp_connection \<Rightarrow> bool" where
  "is_closed c \<longleftrightarrow> conn_state c = CLOSED"

section \<open>Congestion control\<close>

text \<open>\<^verbatim>\<open>int(n * 0.5)\<close>: the conversion to a float rounds, halving and truncating is exact.\<close>

definition int_half :: "int \<Rightarrow> int result" where
  "int_half n =
     res_bind (float_of_int n) (\<lambda>x. res_bind (int_of_float x) (\<lambda>m.
       Inr (if m < 0 then - (- m div 2) else m div 2)))"

abbreviation (input) "MIN_CWND \<equiv> 1 :: int"
abbreviation (input) "MAX_CWND \<equiv> 131070 :: int"

definition halved_threshold :: "tcp_connection \<Rightarrow> int result" where
  "halved_threshold c = res_bind (int_half (snd_cwnd c)) (\<lambda>h. Inr (max h (MIN_CWND * 2)))"

definition on_packet_loss :: "tcp_connection \<Rightarrow> unit result \<times> tcp_connection" where
  "on_packet_loss c =
     (let c1 = c\<lparr>retransmissions := retransmissions c + 1\<rparr>
      in case halved_threshold c1 of
           Inl e \<Rightarrow> (Inl e, c1)
         | Inr t \<Rightarrow> (Inr (), c1\<lparr>snd_ssthresh := t, snd_cwnd := MIN_CWND, cong_state := SLOW_START,
                               duplicate_acks := 0\<rparr>))"

definition on_duplicate_ack :: "int \<Rightarrow> tcp_connection \<Rightarrow> unit result \<times> tcp_connection" where
  "on_duplicate_ack cnt c =
     (if cnt \<ge> 3
      then if cong_state c \<noteq> FAST_RECOVERY
           then (case halved_threshold c of
                   Inl e \<Rightarrow> (Inl e, c)
                 | Inr t \<Rightarrow> (Inr (), c\<lparr>snd_ssthresh := t, snd_cwnd := t + 3, cong_state := FAST_RECOVERY\<rparr>))
           else (Inr (), c\<lparr>snd_cwnd := snd_cwnd c + 1\<rparr>)
      else (Inr (), c))"

definition on_new_ack :: "int \<Rightarrow> tcp_connection \<Rightarrow> unit result \<times> tcp_connection" where
  "on_new_ack acked_bytes c =
     (let capped = (\<lambda>c. (Inr (), c\<lparr>snd_cwnd := min (snd_cwnd c) MAX_CWND\<rparr>)) in
      case cong_state c of
        SLOW_START \<Rightarrow>
          (let c1 = c\<lparr>snd_cwnd := snd_cwnd c + min acked_bytes (mss c)\<rparr>
           in capped (if snd_cwnd c1 \<ge> snd_ssthresh c1 then c1\<lparr>cong_state := CONGESTION_AVOIDANCE\<rparr> else c1))
      | CONGESTION_AVOIDANCE \<Rightarrow>
          if 2 * snd_cwnd c = 0 then (Inl ZeroDivisionError, c)
          else capped (c\<lparr>snd_cwnd := snd_cwnd c + (mss c * mss c) div (2 * snd_cwnd c)\<rparr>)
      | FAST_RECOVERY \<Rightarrow>
          capped (c\<lparr>snd_cwnd := snd_ssthresh c, cong_state := CONGESTION_AVOIDANCE, duplicate_acks := 0\<rparr>))"

definition on_timeout :: "tcp_connection \<Rightarrow> unit result \<times> tcp_connection" where
  "on_timeout c =
     (case halved_threshold c of
        Inl e \<Rightarrow> (Inl e, c)
      | Inr t \<Rightarrow> (Inr (), c\<lparr>snd_ssthresh := t, snd_cwnd := MIN_CWND, cong_state := SLOW_START,
                            duplicate_acks := 0\<rparr>))"

definition cc_send_window :: "tcp_connection \<Rightarrow> int" where
  "cc_send_window c = min (snd_cwnd c) (send_window c)"

section \<open>Retransmission\<close>

type_synonym 'e pending = "((int \<times> int) \<times> (tcp_packet \<times> 'e)) list"

definition add_packet :: "tcp_packet \<Rightarrow> 'e \<Rightarrow> 'e pending \<Rightarrow> 'e pending" where
  "add_packet p expiry = AList.update (sequence_number p, ilen (payload p)) (p, expiry)"

definition acked :: "int \<Rightarrow> tcp_packet \<Rightarrow> bool" where
  "acked ack_number p \<longleftrightarrow> sequence_number p + ilen (payload p) \<le> ack_number"

definition ack_received :: "int \<Rightarrow> 'e pending \<Rightarrow> tcp_packet list \<times> 'e pending" where
  "ack_received ack_number pend =
     (let hits = filter (\<lambda>(_, p, _). acked ack_number p) pend
      in (map (\<lambda>(_, p, _). p) hits, fold (\<lambda>(key, _, _). AList.delete key) hits pend))"

definition check_timeouts :: "('e \<Rightarrow> bool) \<Rightarrow> 'e pending \<Rightarrow> tcp_packet list \<times> 'e pending" where
  "check_timeouts passed pend =
     (let mark = (\<lambda>(key, p, expiry). (key, (if passed expiry then p\<lparr>retransmitted := True\<rparr> else p), expiry))
      in (map (\<lambda>(_, p, _). p\<lparr>retransmitted := True\<rparr>) (filter (\<lambda>(_, _, expiry). passed expiry) pend),
          map mark pend))"

definition get_pending_count :: "'e pending \<Rightarrow> int" where
  "get_pending_count pend = ilen pend"

section \<open>The protocol\<close>

record 'e tcp_protocol =
  tp_connections :: "(string \<times> (tcp_connection \<times> 'e pending)) list"
  tp_listeners :: "int list"
  tp_data_callbacks :: "string list"
  tp_close_callbacks :: "string list"
  tp_max_connections :: int
  tp_is_running :: bool
  tp_sequence_number :: int

datatype tcp_event =
    Accepted tcp_connection | DataArrived string bytes | ConnectionClosed string | ResetSent tcp_packet

definition tcp_protocol_new :: "int \<Rightarrow> 'e tcp_protocol" where
  "tcp_protocol_new start_sequence =
     \<lparr>tp_connections = [], tp_listeners = [], tp_data_callbacks = [], tp_close_callbacks = [],
      tp_max_connections = 1000, tp_is_running = False, tp_sequence_number = start_sequence\<rparr>"

definition active_connections :: "'e tcp_protocol \<Rightarrow> int" where
  "active_connections s = ilen (filter (\<lambda>(_, c, _). is_established c) (tp_connections s))"

definition total_connections :: "'e tcp_protocol \<Rightarrow> int" where
  "total_connections s = ilen (tp_connections s)"

definition tcp_start :: "'e tcp_protocol \<Rightarrow> 'e tcp_protocol" where
  "tcp_start s = s\<lparr>tp_is_running := True\<rparr>"

text \<open>The random increment is the argument.\<close>

definition next_sequence_number :: "int \<Rightarrow> 'e tcp_protocol \<Rightarrow> int \<times> 'e tcp_protocol" where
  "next_sequence_number increment s =
     (tp_sequence_number s, s\<lparr>tp_sequence_number := (tp_sequence_number s + increment) mod 2 ^ 32\<rparr>)"

definition create_connection ::
  "int \<Rightarrow> int \<Rightarrow> addr \<Rightarrow> addr \<Rightarrow> 'e tcp_protocol \<Rightarrow> tcp_connection result \<times> 'e tcp_protocol" where
  "create_connection inc1 inc2 l r s =
     (if total_connections s \<ge> tp_max_connections s then (Inl ConnectionErr, s)
      else
        let (seq1, s1) = next_sequence_number inc1 s;
            (seq2, s2) = next_sequence_number inc2 s1;
            c = (tcp_connection_new l r SYN_SENT)\<lparr>iss := seq1, send_next := seq2\<rparr>
        in (Inr c, s2\<lparr>tp_connections := AList.update (connection_id c) (c, []) (tp_connections s2)\<rparr>))"

definition listen :: "int \<Rightarrow> 'e tcp_protocol \<Rightarrow> 'e tcp_protocol" where
  "listen port s = s\<lparr>tp_listeners := List.insert port (tp_listeners s)\<rparr>"

definition unlisten :: "int \<Rightarrow> 'e tcp_protocol \<Rightarrow> bool \<times> 'e tcp_protocol" where
  "unlisten port s =
     (if port \<in> set (tp_listeners s) then (True, s\<lparr>tp_listeners := remove1 port (tp_listeners s)\<rparr>)
      else (False, s))"

text \<open>
  \<^verbatim>\<open>connect\<close> creates the connection and then calls the packet class with an argument \<^verbatim>\<open>mss\<close> that it
  does not have, which raises; the rest of the body is never reached.
\<close>

definition connect ::
  "int \<Rightarrow> int \<Rightarrow> int \<Rightarrow> string \<Rightarrow> int \<Rightarrow> 'e tcp_protocol \<Rightarrow> tcp_connection result \<times> 'e tcp_protocol" where
  "connect inc1 inc2 local_port host port s =
     (case create_connection inc1 inc2 (''0.0.0.0'', local_port) (host, port) s of
        (Inl e, s1) \<Rightarrow> (Inl e, s1)
      | (Inr c, s1) \<Rightarrow> (Inl TypeError, s1))"

definition cleanup_connection :: "string \<Rightarrow> 'e tcp_protocol \<Rightarrow> 'e tcp_protocol" where
  "cleanup_connection conn_id s =
     s\<lparr>tp_connections := AList.delete conn_id (tp_connections s),
       tp_data_callbacks := removeAll conn_id (tp_data_callbacks s),
       tp_close_callbacks := removeAll conn_id (tp_close_callbacks s)\<rparr>"

text \<open>The close callback is looked up after the clean-up.\<close>

definition close_connection :: "string \<Rightarrow> 'e tcp_protocol \<Rightarrow> bool \<times> tcp_event list \<times> 'e tcp_protocol" where
  "close_connection conn_id s =
     (case map_of (tp_connections s) conn_id of
        None \<Rightarrow> (False, [], s)
      | Some _ \<Rightarrow>
          let s1 = cleanup_connection conn_id s
          in (True, if conn_id \<in> set (tp_close_callbacks s1) then [ConnectionClosed conn_id] else [], s1))"

fun close_all :: "string list \<Rightarrow> 'e tcp_protocol \<Rightarrow> tcp_event list \<times> 'e tcp_protocol" where
  "close_all [] s = ([], s)"
| "close_all (conn_id # ids) s =
     (let (_, ev, s1) = close_connection conn_id s; (evs, s2) = close_all ids s1 in (ev @ evs, s2))"

definition tcp_stop :: "'e tcp_protocol \<Rightarrow> tcp_event list \<times> 'e tcp_protocol" where
  "tcp_stop s = close_all (map fst (tp_connections s)) (s\<lparr>tp_is_running := False\<rparr>)"

text \<open>
  The loop of \<^verbatim>\<open>send_data\<close> with the connection, its pending packets and the packets built so far;
  \<^term>\<open>None\<close> means that it does not end.  The expiry of a packet is given by its offset.
\<close>

partial_function (option) send_loop ::
  "(int \<Rightarrow> 'e) \<Rightarrow> bytes \<Rightarrow> int \<Rightarrow> tcp_connection \<Rightarrow> 'e pending \<Rightarrow> tcp_packet list \<Rightarrow>
   (int \<times> tcp_connection \<times> 'e pending \<times> tcp_packet list) option"
where
  "send_loop expiry data sent c pend out =
     (if sent < ilen data
      then
        let chunk = py_slice data sent (sent + mss c);
            p = tcp_packet_new (snd (local_addr c)) (snd (remote_addr c)) (send_next c) (rcv_next c)
                  (FLAG_ACK OR FLAG_PSH) chunk;
            c' = c\<lparr>send_next := send_next c + ilen chunk, bytes_sent := bytes_sent c + ilen chunk,
                   packets_sent := packets_sent c + 1\<rparr>
        in send_loop expiry data (sent + ilen chunk) c' (add_packet p (expiry sent) pend) (out @ [p])
      else Some (sent, c, pend, out))"

definition send_data ::
  "(int \<Rightarrow> 'e) \<Rightarrow> string \<Rightarrow> bytes \<Rightarrow> 'e tcp_protocol \<Rightarrow>
   (int result \<times> tcp_packet list \<times> 'e tcp_protocol) option" where
  "send_data expiry conn_id data s =
     (case map_of (tp_connections s) conn_id of
        None \<Rightarrow> Some (Inl ConnectionErr, [], s)
      | Some (c, pend) \<Rightarrow>
          if \<not> is_established c then Some (Inl ConnectionErr, [], s)
          else map_option (\<lambda>(sent, c', pend', out).
                 (Inr sent, out, s\<lparr>tp_connections := AList.update conn_id (c', pend') (tp_connections s)\<rparr>))
               (send_loop expiry data 0 c pend []))"

text \<open>
  One round of the loop of \<^verbatim>\<open>receive_data\<close>: an error, a payload, or (\<^term>\<open>Inr None\<close>) another
  round after the sleep.
\<close>

definition receive_poll ::
  "string \<Rightarrow> int \<Rightarrow> 'e tcp_protocol \<Rightarrow> bytes option result \<times> 'e tcp_protocol" where
  "receive_poll conn_id buffer_size s =
     (case map_of (tp_connections s) conn_id of
        None \<Rightarrow> (Inl ConnectionErr, s)
      | Some (c, pend) \<Rightarrow>
          if \<not> is_established c then (Inl ConnectionErr, s)
          else if out_of_order_queue c = [] then (Inr None, s)
          else
            let seq = Min (set (map fst (out_of_order_queue c)))
            in if seq = rcv_next c
               then (case map_of (out_of_order_queue c) seq of
                       None \<Rightarrow> (Inl KeyError, s)
                     | Some p \<Rightarrow>
                         let c' = c\<lparr>out_of_order_queue := AList.delete seq (out_of_order_queue c),
                                    rcv_next := rcv_next c + ilen (payload p),
                                    bytes_received := bytes_received c + ilen (payload p),
                                    packets_received := packets_received c + 1\<rparr>
                         in (Inr (Some (py_slice (payload p) 0 buffer_size)),
                             s\<lparr>tp_connections := AList.update conn_id (c', pend) (tp_connections s)\<rparr>))
               else (Inr None, s))"

definition on_data :: "string \<Rightarrow> 'e tcp_protocol \<Rightarrow> 'e tcp_protocol" where
  "on_data conn_id s = s\<lparr>tp_data_callbacks := List.insert conn_id (tp_data_callbacks s)\<rparr>"

definition on_close :: "string \<Rightarrow> 'e tcp_protocol \<Rightarrow> 'e tcp_protocol" where
  "on_close conn_id s = s\<lparr>tp_close_callbacks := List.insert conn_id (tp_close_callbacks s)\<rparr>"

definition send_rst :: "tcp_packet \<Rightarrow> tcp_packet" where
  "send_rst p =
     tcp_packet_new (dst_port p) (src_port p) 0 (sequence_number p + ilen (payload p) + 1)
       (FLAG_RST OR FLAG_ACK) []"

text \<open>The part of \<^verbatim>\<open>process_packet\<close> from the statistics on, for the connection found or made.\<close>

definition deliver ::
  "bool \<Rightarrow> tcp_packet \<Rightarrow> tcp_connection \<Rightarrow> 'e pending \<Rightarrow>
   unit result \<times> tcp_event list \<times> tcp_connection \<times> 'e pending" where
  "deliver has_callback p c pend =
     (let c1 = c\<lparr>packets_received := packets_received c + 1,
                 bytes_received := bytes_received c + ilen (payload p)\<rparr>;
          (res, c2, pend2) =
            (if is_ack p \<and> is_established c1
             then let c1a = c1\<lparr>send_window := window_size p\<rparr>;
                      pend1 = snd (ack_received (acknowledgment_number p) pend);
                      (res, c1b) = on_new_ack 1 c1a
                  in (res, c1b, pend1)
             else (Inr (), c1, pend))
      in case res of
           Inl e \<Rightarrow> (Inl e, [], c2, pend2)
         | Inr _ \<Rightarrow>
             if payload p = [] then (Inr (), [], c2, pend2)
             else if sequence_number p = rcv_next c2
             then (Inr (), if has_callback then [DataArrived (connection_id c) (payload p)] else [],
                   c2\<lparr>rcv_next := rcv_next c2 + ilen (payload p)\<rparr>, pend2)
             else (Inr (), [], c2\<lparr>out_of_order_queue :=
                     AList.update (sequence_number p) p (out_of_order_queue c2)\<rparr>, pend2))"

definition process_packet ::
  "tcp_packet \<Rightarrow> string \<Rightarrow> string \<Rightarrow> 'e tcp_protocol \<Rightarrow> unit result \<times> tcp_event list \<times> 'e tcp_protocol"
where
  "process_packet p src_ip dst_ip s =
     (let conn_id = conn_id_of (dst_ip, dst_port p) (src_ip, src_port p);
          finish = (\<lambda>evs c pend s.
            let (res, evs', c', pend') = deliver (conn_id \<in> set (tp_data_callbacks s)) p c pend
            in (res, evs @ evs',
                s\<lparr>tp_connections := AList.update conn_id (c', pend') (tp_connections s)\<rparr>))
      in case map_of (tp_connections s) conn_id of
           Some (c, pend) \<Rightarrow> finish [] c pend s
         | None \<Rightarrow>
             if is_syn p \<and> dst_port p \<in> set (tp_listeners s)
             then let c = (tcp_connection_new (dst_ip, dst_port p) (src_ip, src_port p) SYN_RECEIVED)
                            \<lparr>irs := sequence_number p, rcv_next := sequence_number p + 1\<rparr>
                  in finish [Accepted c] c [] s
             else (Inr (), [ResetSent (send_rst p)], s))"

definition get_connections_by_state :: "tcp_state \<Rightarrow> 'e tcp_protocol \<Rightarrow> tcp_connection list" where
  "get_connections_by_state st s =
     filter (\<lambda>c. conn_state c = st) (map (fst \<circ> snd) (tp_connections s))"

section \<open>What a connection can become\<close>

lemma update_subset: "set (AList.update k v xs) \<subseteq> insert (k, v) (set xs)"
  by (induction xs) auto

lemma delete_subset: "set (AList.delete k xs) \<subseteq> set xs"
  by (auto simp: AList.delete_eq)

definition half_open :: "string \<times> (tcp_connection \<times> 'e pending) \<Rightarrow> bool" where
  "half_open e \<longleftrightarrow>
     conn_state (fst (snd e)) \<in> {SYN_SENT, SYN_RECEIVED} \<and> snd (snd e) = [] \<and>
     connection_id (fst (snd e)) = fst e"

definition tcp_inv :: "'e tcp_protocol \<Rightarrow> bool" where
  "tcp_inv s \<longleftrightarrow> list_all half_open (tp_connections s)"

lemma half_open_update:
  "list_all half_open xs \<Longrightarrow> half_open (k, v) \<Longrightarrow> list_all half_open (AList.update k v xs)"
  using update_subset [of k v xs] by (auto simp: list_all_iff)

lemma half_open_delete: "list_all half_open xs \<Longrightarrow> list_all half_open (AList.delete k xs)"
  using delete_subset [of k xs] by (auto simp: list_all_iff)

lemma half_open_lookup:
  "list_all half_open xs \<Longrightarrow> map_of xs k = Some (c, pend) \<Longrightarrow> half_open (k, c, pend)"
  by (auto simp: list_all_iff dest: map_of_SomeD)

lemma half_open_not_established: "half_open (k, c, pend) \<Longrightarrow> \<not> is_established c"
  by (auto simp: half_open_def is_established_def)

lemma deliver_half_open:
  "half_open (k, c, pend) \<Longrightarrow>
   \<exists>evs c'. deliver cb p c pend = (Inr (), evs, c', pend) \<and> half_open (k, c', pend) \<and>
     set evs \<subseteq> {DataArrived k (payload p)}"
  by (auto simp: deliver_def half_open_def is_established_def Let_def)

lemma tcp_inv_lookup:
  "tcp_inv s \<Longrightarrow> map_of (tp_connections s) k = Some (c, pend) \<Longrightarrow> half_open (k, c, pend)"
  unfolding tcp_inv_def by (rule half_open_lookup)

lemma send_data_refused: "tcp_inv s \<Longrightarrow> send_data expiry k data s = Some (Inl ConnectionErr, [], s)"
  by (auto simp: send_data_def dest!: tcp_inv_lookup half_open_not_established split: option.split)

lemma receive_poll_refused: "tcp_inv s \<Longrightarrow> receive_poll k n s = (Inl ConnectionErr, s)"
  by (auto simp: receive_poll_def dest!: tcp_inv_lookup half_open_not_established split: option.split)

lemma create_connection_inv: "tcp_inv s \<Longrightarrow> tcp_inv (snd (create_connection i j l r s))"
  by (auto simp: create_connection_def Let_def next_sequence_number_def tcp_inv_def half_open_def
      tcp_connection_new_def intro!: half_open_update)

lemma connect_inv: "tcp_inv s \<Longrightarrow> tcp_inv (snd (connect i j lp h port s))"
  using create_connection_inv [of s i j "(''0.0.0.0'', lp)" "(h, port)"]
  by (auto simp: connect_def split: prod.split sum.split)

lemma close_connection_inv: "tcp_inv s \<Longrightarrow> tcp_inv (snd (snd (close_connection k s)))"
  by (auto simp: close_connection_def cleanup_connection_def Let_def tcp_inv_def half_open_delete
      split: option.split)

lemma close_all_inv: "tcp_inv s \<Longrightarrow> tcp_inv (snd (close_all ks s))"
proof (induction ks arbitrary: s)
  case (Cons k ks)
  then show ?case using close_connection_inv [OF Cons.prems, of k]
    by (auto simp: case_prod_beta Let_def)
qed simp

lemma process_packet_eq:
  fixes s :: "'e tcp_protocol"
  assumes "tcp_inv s" and "k = conn_id_of (dst_ip, dst_port p) (src_ip, src_port p)"
  shows "(map_of (tp_connections s) k = None \<and> \<not> (is_syn p \<and> dst_port p \<in> set (tp_listeners s)) \<and>
      process_packet p src_ip dst_ip s = (Inr (), [ResetSent (send_rst p)], s)) \<or>
    ((map_of (tp_connections s) k \<noteq> None \<or> is_syn p \<and> dst_port p \<in> set (tp_listeners s)) \<and>
     (\<exists>evs e. process_packet p src_ip dst_ip s =
        (Inr (), evs, s\<lparr>tp_connections := AList.update k e (tp_connections s)\<rparr>) \<and> half_open (k, e) \<and>
        (\<forall>i. ConnectionClosed i \<notin> set evs)))"
proof (cases "map_of (tp_connections s) k")
  case None
  show ?thesis
  proof (cases "is_syn p \<and> dst_port p \<in> set (tp_listeners s)")
    case True
    let ?c = "(tcp_connection_new (dst_ip, dst_port p) (src_ip, src_port p) SYN_RECEIVED)
      \<lparr>irs := sequence_number p, rcv_next := sequence_number p + 1\<rparr>"
    have "half_open (k, ?c, [] :: 'e pending)" by (simp add: half_open_def tcp_connection_new_def assms(2))
    from deliver_half_open [OF this, of "k \<in> set (tp_data_callbacks s)" p] obtain evs c' where
      d: "deliver (k \<in> set (tp_data_callbacks s)) p ?c ([] :: 'e pending) = (Inr (), evs, c', [])" "half_open (k, c', [] :: 'e pending)"
        "set evs \<subseteq> {DataArrived k (payload p)}" by blast
    have "process_packet p src_ip dst_ip s =
        (Inr (), Accepted ?c # evs, s\<lparr>tp_connections := AList.update k (c', []) (tp_connections s)\<rparr>)"
      using True None d(1) by (simp add: process_packet_def Let_def flip: assms(2))
    then show ?thesis using True d(2,3) by fastforce
  qed (use None in \<open>auto simp: process_packet_def Let_def simp flip: assms(2)\<close>)
next
  case (Some e)
  obtain c pend where e: "e = (c, pend)" by (cases e)
  then have "half_open (k, c, pend)" using Some assms(1) by (auto dest: tcp_inv_lookup)
  from deliver_half_open [OF this, of "k \<in> set (tp_data_callbacks s)" p] obtain evs c' where
    d: "deliver (k \<in> set (tp_data_callbacks s)) p c pend = (Inr (), evs, c', pend)" "half_open (k, c', pend)"
      "set evs \<subseteq> {DataArrived k (payload p)}" by blast
  have "process_packet p src_ip dst_ip s =
      (Inr (), evs, s\<lparr>tp_connections := AList.update k (c', pend) (tp_connections s)\<rparr>)"
    using Some d(1) e by (simp add: process_packet_def Let_def flip: assms(2))
  then show ?thesis using Some d(2,3) by fastforce
qed

lemma process_packet_inv: "tcp_inv s \<Longrightarrow> tcp_inv (snd (snd (process_packet p src_ip dst_ip s)))"
  using process_packet_eq [of s "conn_id_of (dst_ip, dst_port p) (src_ip, src_port p)" dst_ip p src_ip]
  by (auto simp: tcp_inv_def intro: half_open_update)

text \<open>The calls of the protocol, as its clients and the network make them.\<close>

inductive tcp_reach :: "'e tcp_protocol \<Rightarrow> bool" where
  tcp_initial: "tcp_reach (tcp_protocol_new n)"
| tcp_starts: "tcp_reach s \<Longrightarrow> tcp_reach (tcp_start s)"
| tcp_stops: "tcp_reach s \<Longrightarrow> tcp_reach (snd (tcp_stop s))"
| tcp_creates: "tcp_reach s \<Longrightarrow> tcp_reach (snd (create_connection i j l r s))"
| tcp_connects: "tcp_reach s \<Longrightarrow> tcp_reach (snd (connect i j lp h port s))"
| tcp_listens: "tcp_reach s \<Longrightarrow> tcp_reach (listen port s)"
| tcp_unlistens: "tcp_reach s \<Longrightarrow> tcp_reach (snd (unlisten port s))"
| tcp_closes: "tcp_reach s \<Longrightarrow> tcp_reach (snd (snd (close_connection k s)))"
| tcp_sends: "tcp_reach s \<Longrightarrow> send_data expiry k data s = Some (res, out, s') \<Longrightarrow> tcp_reach s'"
| tcp_receives: "tcp_reach s \<Longrightarrow> tcp_reach (snd (receive_poll k n s))"
| tcp_on_data: "tcp_reach s \<Longrightarrow> tcp_reach (on_data k s)"
| tcp_on_close: "tcp_reach s \<Longrightarrow> tcp_reach (on_close k s)"
| tcp_packets: "tcp_reach s \<Longrightarrow> tcp_reach (snd (snd (process_packet p src_ip dst_ip s)))"

lemma tcp_inv_bookkeeping:
  "tcp_inv (tcp_protocol_new n)" "tcp_inv (tcp_start s) = tcp_inv s" "tcp_inv (listen port s) = tcp_inv s"
  "tcp_inv (snd (unlisten port s)) = tcp_inv s" "tcp_inv (on_data k s) = tcp_inv s"
  "tcp_inv (on_close k s) = tcp_inv s"
  by (simp_all add: tcp_inv_def tcp_protocol_new_def tcp_start_def listen_def unlisten_def on_data_def
      on_close_def)

lemma tcp_reach_inv: "tcp_reach s \<Longrightarrow> tcp_inv s"
proof (induction rule: tcp_reach.induct)
  case (tcp_stops s)
  then have "tcp_inv (s\<lparr>tp_is_running := False\<rparr>)" by (simp add: tcp_inv_def)
  then show ?case unfolding tcp_stop_def by (rule close_all_inv)
next
  case (tcp_sends s expiry k data res out s')
  then show ?case using send_data_refused by fastforce
qed (simp_all add: create_connection_inv connect_inv close_connection_inv receive_poll_refused
    process_packet_inv tcp_inv_bookkeeping)

text \<open>
  C34. No connection is ever established: whatever calls are made and packets arrive, every registered
  connection is in \<^verbatim>\<open>SYN_SENT\<close> or \<^verbatim>\<open>SYN_RECEIVED\<close>, so none counts as active, \<^verbatim>\<open>send_data\<close> and
  \<^verbatim>\<open>receive_data\<close> raise \<^verbatim>\<open>ConnectionError\<close> on every identifier, and \<^verbatim>\<open>connect\<close> always raises, with
  the new connection left in the table when there was room for it.
\<close>
theorem tcp_never_established:
  assumes "tcp_reach s"
  shows "list_all (\<lambda>(_, c, _). conn_state c \<in> {SYN_SENT, SYN_RECEIVED}) (tp_connections s) \<and>
    active_connections s = 0 \<and>
    send_data expiry k data s = Some (Inl ConnectionErr, [], s) \<and>
    receive_poll k n s = (Inl ConnectionErr, s) \<and>
    (if total_connections s \<ge> tp_max_connections s then connect i j lp h port s = (Inl ConnectionErr, s)
     else fst (connect i j lp h port s) = Inl TypeError \<and>
       map_of (tp_connections (snd (connect i j lp h port s))) (conn_id_of (''0.0.0.0'', lp) (h, port)) \<noteq> None)"
proof -
  have inv: "tcp_inv s" using assms by (rule tcp_reach_inv)
  then have "active_connections s = 0"
    by (auto simp: active_connections_def tcp_inv_def list_all_iff filter_empty_conv
        dest!: half_open_not_established)
  moreover have "if total_connections s \<ge> tp_max_connections s then connect i j lp h port s = (Inl ConnectionErr, s)
     else fst (connect i j lp h port s) = Inl TypeError \<and>
       map_of (tp_connections (snd (connect i j lp h port s))) (conn_id_of (''0.0.0.0'', lp) (h, port)) \<noteq> None"
    by (simp add: connect_def create_connection_def Let_def next_sequence_number_def update_conv'
        tcp_connection_new_def)
  ultimately show ?thesis
    using inv by (auto simp: tcp_inv_def list_all_iff half_open_def
        send_data_refused [OF inv] receive_poll_refused [OF inv])
qed

theorem tcp_never_established_witness:
  "active_connections (snd (create_connection 5 7 (''10.0.0.1'', 80) (''10.0.0.2'', 81)
     (tcp_protocol_new 3 :: nat tcp_protocol))) = 0"
  by (rule tcp_never_established [THEN conjunct2, THEN conjunct1]) (intro tcp_creates tcp_initial)

text \<open>
  The table of connections: in every reachable state, \<^verbatim>\<open>close_connection\<close> removes the connection
  and calls no callback, since the callbacks are dropped before they are looked up; and while
  \<^verbatim>\<open>create_connection\<close> respects the limit, a SYN from a new address to a listening port adds a
  connection however many there are.
\<close>
theorem tcp_connection_table:
  assumes "tcp_reach s" and "is_syn p" and "dst_port p \<in> set (tp_listeners s)"
    and "map_of (tp_connections s) (conn_id_of (dst_ip, dst_port p) (src_ip, src_port p)) = None"
  shows "fst (snd (close_connection k s)) = [] \<and>
    map_of (tp_connections (snd (snd (close_connection k s)))) k = None \<and>
    total_connections (snd (snd (process_packet p src_ip dst_ip s))) = total_connections s + 1 \<and>
    (total_connections s \<ge> tp_max_connections s \<longrightarrow> create_connection i j l r s = (Inl ConnectionErr, s))"
proof -
  have grow: "length (AList.update a v xs) = Suc (length xs)" if "map_of xs a = None"
    for a :: string and v and xs :: "(string \<times> (tcp_connection \<times> 'a pending)) list"
    using that by (induction xs) (auto split: if_splits)
  have "total_connections (snd (snd (process_packet p src_ip dst_ip s))) = total_connections s + 1"
    using process_packet_eq [OF tcp_reach_inv [OF assms(1)] refl, of dst_ip p src_ip] assms(2-4)
    by (auto simp: total_connections_def grow)
  then show ?thesis
    by (auto simp: close_connection_def cleanup_connection_def Let_def delete_conv' create_connection_def
        split: option.split)
qed

definition syn_packet :: tcp_packet where
  "syn_packet = tcp_packet_new 4000 80 1 0 FLAG_SYN []"

theorem tcp_connection_table_witness:
  "total_connections (snd (snd (process_packet syn_packet ''10.0.0.2'' ''10.0.0.1''
     (listen 80 (tcp_protocol_new 3) :: nat tcp_protocol)))) = 1"
proof -
  have "tcp_reach (listen 80 (tcp_protocol_new 3) :: nat tcp_protocol)" by (intro tcp_listens tcp_initial)
  from tcp_connection_table [OF this, of syn_packet "''10.0.0.1''" "''10.0.0.2''"] show ?thesis
    by (simp add: syn_packet_def tcp_packet_new_def is_syn_def listen_def tcp_protocol_new_def
        total_connections_def)
qed

section \<open>The binary form of a packet\<close>

definition header_fields :: "tcp_packet \<Rightarrow> bytes" where
  "header_fields p =
     rev (le_bytes 2 (src_port p)) @ rev (le_bytes 2 (dst_port p)) @
     rev (le_bytes 4 (sequence_number p)) @ rev (le_bytes 4 (acknowledgment_number p)) @
     rev (le_bytes 1 (16 * data_offset p)) @ rev (le_bytes 1 (flags p)) @
     rev (le_bytes 2 (window_size p)) @ rev (le_bytes 2 (pkt_checksum p)) @
     rev (le_bytes 2 (urgent_pointer p))"

definition tcp_fits :: "tcp_packet \<Rightarrow> bool" where
  "tcp_fits p \<longleftrightarrow>
     src_port p \<in> {0..<65536} \<and> dst_port p \<in> {0..<65536} \<and>
     sequence_number p \<in> {0..<2 ^ 32} \<and> acknowledgment_number p \<in> {0..<2 ^ 32} \<and>
     data_offset p \<in> {0..<16} \<and> flags p \<in> {0..<256} \<and> window_size p \<in> {0..<65536} \<and>
     pkt_checksum p \<in> {0..<65536} \<and> urgent_pointer p \<in> {0..<65536}"

lemma length_header_fields [simp]: "length (header_fields p) = 20"
  by (simp add: header_fields_def)

lemma tcp_encode_eq:
  "tcp_encode p =
    (if tcp_fits p
     then Inr (header_fields p @ pkt_options p @
            replicate (nat (4 * data_offset p - 20 - ilen (pkt_options p))) 0 @ payload p)
     else Inl StructError)"
  by (simp add: tcp_encode_def tcp_fits_def pack_uint_def byte_order_def push_bit_eq_mult header_fields_def
      header_length_def py_repeat_def Let_def algebra_simps del: le_bytes.simps)

lemma header_slices:
  "py_slice (header_fields p @ xs) 0 2 = rev (le_bytes 2 (src_port p))"
  "py_slice (header_fields p @ xs) 2 4 = rev (le_bytes 2 (dst_port p))"
  "py_slice (header_fields p @ xs) 4 8 = rev (le_bytes 4 (sequence_number p))"
  "py_slice (header_fields p @ xs) 8 12 = rev (le_bytes 4 (acknowledgment_number p))"
  "py_slice (header_fields p @ xs) 12 13 = rev (le_bytes 1 (16 * data_offset p))"
  "py_slice (header_fields p @ xs) 13 14 = rev (le_bytes 1 (flags p))"
  "py_slice (header_fields p @ xs) 14 16 = rev (le_bytes 2 (window_size p))"
  "py_slice (header_fields p @ xs) 16 18 = rev (le_bytes 2 (pkt_checksum p))"
  "py_slice (header_fields p @ xs) 18 20 = rev (le_bytes 2 (urgent_pointer p))"
  by (simp_all add: header_fields_def py_slice_in del: le_bytes.simps)

lemma header_values:
  assumes "tcp_fits p"
  shows "unpack_uint True (py_slice (header_fields p @ xs) 0 2) = src_port p"
    and "unpack_uint True (py_slice (header_fields p @ xs) 2 4) = dst_port p"
    and "unpack_uint True (py_slice (header_fields p @ xs) 4 8) = sequence_number p"
    and "unpack_uint True (py_slice (header_fields p @ xs) 8 12) = acknowledgment_number p"
    and "drop_bit 4 (unpack_uint True (py_slice (header_fields p @ xs) 12 13)) AND 0x0F = data_offset p"
    and "unpack_uint True (py_slice (header_fields p @ xs) 13 14) = flags p"
    and "unpack_uint True (py_slice (header_fields p @ xs) 14 16) = window_size p"
    and "unpack_uint True (py_slice (header_fields p @ xs) 16 18) = pkt_checksum p"
    and "unpack_uint True (py_slice (header_fields p @ xs) 18 20) = urgent_pointer p"
proof -
  have "drop_bit 4 (16 * data_offset p) AND 0x0F = data_offset p"
    using assms take_bit_int_eq_self [of "data_offset p" 4]
    by (simp add: drop_bit_eq_div tcp_fits_def take_bit_eq_mask mask_eq_exp_minus_1)
  moreover have "unpack_uint True (rev (le_bytes 1 (16 * data_offset p))) = 16 * data_offset p"
    by (rule be_words) (use assms in \<open>simp_all add: tcp_fits_def\<close>)
  ultimately show "drop_bit 4 (unpack_uint True (py_slice (header_fields p @ xs) 12 13)) AND 0x0F = data_offset p"
    by (simp only: header_slices)
qed (unfold header_slices; rule be_words; use assms in \<open>simp add: tcp_fits_def\<close>)+

lemma tcp_decode_eq:
  assumes "tcp_fits p" and "5 \<le> data_offset p" and "ilen opts = 4 * data_offset p - 20"
  shows "tcp_decode (header_fields p @ opts @ data) =
    Inr (p\<lparr>pkt_options := opts, payload := data, retransmitted := False\<rparr>)"
proof -
  let ?buf = "header_fields p @ opts @ data"
  have len: "data_offset p * 4 = 20 + ilen opts" using assms(3) by simp
  have "py_slice ?buf 20 (20 + ilen opts) = opts"
    using slice_at [of "header_fields p" opts data] by simp
  then have opt: "(if 20 + ilen opts > 20 then py_slice ?buf 20 (20 + ilen opts) else []) = opts"
    by simp
  have "ilen ?buf = 20 + ilen opts + ilen data" by simp
  then have pay: "(if ilen ?buf > 20 + ilen opts then py_slice ?buf (20 + ilen opts) (ilen ?buf) else []) = data"
    using slice_at [of "header_fields p @ opts" data "[]"] by (simp add: add.assoc)
  have "\<not> ilen ?buf < 20" by simp
  then have "tcp_decode ?buf = Inr
    \<lparr>src_port = src_port p, dst_port = dst_port p, sequence_number = sequence_number p,
     acknowledgment_number = acknowledgment_number p, data_offset = data_offset p, flags = flags p,
     window_size = window_size p, pkt_checksum = pkt_checksum p, urgent_pointer = urgent_pointer p,
     pkt_options = opts, payload = data, retransmitted = False\<rparr>"
    unfolding tcp_decode_def Let_def header_values [OF assms(1)] len opt pay by (simp only: if_False)
  then show ?thesis by (cases p) simp
qed

text \<open>
  Packets over the wire: \<^verbatim>\<open>encode\<close> raises \<^verbatim>\<open>struct.error\<close> exactly when a field exceeds its
  width; with a data offset of at least 5, \<^verbatim>\<open>decode\<close> restores all header fields, the options padded
  with zeros to the length the offset announces, and the payload behind what does not fit of the
  options; so a packet whose options fill the announced length is restored exactly.
\<close>
theorem tcp_packet_roundtrip:
  assumes "5 \<le> data_offset p"
  defines "n \<equiv> nat (4 * data_offset p - 20)"
  shows "case tcp_encode p of
      Inl e \<Rightarrow> e = StructError \<and> \<not> tcp_fits p
    | Inr bs \<Rightarrow> tcp_fits p \<and>
        tcp_decode bs = Inr (p\<lparr>pkt_options := take n (pkt_options p @ replicate n 0),
          payload := drop n (pkt_options p) @ payload p, retransmitted := False\<rparr>) \<and>
        (length (pkt_options p) = n \<and> \<not> retransmitted p \<longrightarrow> tcp_decode bs = Inr p)"
proof (cases "tcp_fits p")
  case True
  let ?opts = "take n (pkt_options p @ replicate n 0)"
  let ?data = "drop n (pkt_options p) @ payload p"
  have pad: "pkt_options p @ replicate (n - length (pkt_options p)) 0 @ payload p = ?opts @ ?data"
    by (cases "n \<le> length (pkt_options p)") simp_all
  have "nat (4 * data_offset p - 20 - ilen (pkt_options p)) = n - length (pkt_options p)"
    by (simp add: n_def nat_diff_distrib')
  then have enc: "tcp_encode p = Inr (header_fields p @ ?opts @ ?data)"
    using True by (simp only: tcp_encode_eq if_True pad)
  have dec: "tcp_decode (header_fields p @ ?opts @ ?data) =
      Inr (p\<lparr>pkt_options := ?opts, payload := ?data, retransmitted := False\<rparr>)"
    by (rule tcp_decode_eq) (use True assms(1) in \<open>simp_all add: n_def\<close>)
  then show ?thesis using True enc by (cases p) auto
qed (simp add: tcp_encode_eq)

theorem tcp_packet_roundtrip_witness:
  "case tcp_encode (syn_packet\<lparr>data_offset := 6, pkt_options := [2, 4, 5, 180]\<rparr>) of
     Inl e \<Rightarrow> False
   | Inr bs \<Rightarrow> tcp_decode bs = Inr (syn_packet\<lparr>data_offset := 6, pkt_options := [2, 4, 5, 180]\<rparr>)"
  using tcp_packet_roundtrip [of "syn_packet\<lparr>data_offset := 6, pkt_options := [2, 4, 5, 180]\<rparr>"]
  by (simp add: syn_packet_def tcp_packet_new_def tcp_fits_def split: sum.splits)

section \<open>The congestion window\<close>

datatype cc_event = Loss | DuplicateAcks int | NewAck int | Timeout

fun cc_step :: "cc_event \<Rightarrow> tcp_connection \<Rightarrow> unit result \<times> tcp_connection" where
  "cc_step Loss c = on_packet_loss c"
| "cc_step (DuplicateAcks n) c = on_duplicate_ack n c"
| "cc_step (NewAck n) c = on_new_ack n c"
| "cc_step Timeout c = on_timeout c"

lemma int_half_small: "\<bar>n\<bar> < 2 ^ 53 \<Longrightarrow> 0 \<le> n \<Longrightarrow> int_half n = Inr (n div 2)"
  using int_of_float_of_int [of n] by (auto simp: int_half_def)

lemma int_half_result: "int_half n = Inl e \<Longrightarrow> e = OverflowError"
proof -
  have "float_of_int n = Inl e \<Longrightarrow> e = OverflowError" for e
    by (auto simp: float_of_int_def Let_def split: if_splits)
  moreover have "\<exists>m. int_of_float x = Inr m" if "float_of_int n = Inr x" for x
  proof (cases "n = 0")
    case False
    define s :: nat where "s = (if n < 0 then 1 else 0)"
    define a where "a = nat \<bar>n\<bar>"
    define bits where "bits = (bit_len a + 1021) * 2 ^ 52 +
      (if bit_len a \<le> 53 then a * 2 ^ (53 - bit_len a) else round_half_even a (bit_len a - 53))"
    have "a \<noteq> 0" using False by (simp add: a_def)
    then have sb: "s \<le> 1" "bits < 2047 * 2 ^ 52" "x = word_of_nat (s * 2 ^ 63 + bits)"
      using that unfolding float_of_int_def Let_def s_def [symmetric] a_def [symmetric] bits_def [symmetric]
      by (auto simp: s_def split: if_splits)
    then have "unat x = s * 2 ^ 63 + bits" unfolding sb(3) by (intro unat_of_nat_64) simp
    moreover have "(s * 2 ^ 63 + bits) div 2 ^ 52 mod 2 ^ 11 = bits div 2 ^ 52"
    proof -
      have "s * 2 ^ 63 + bits = bits + (s * 2 ^ 11) * 2 ^ 52" by simp
      then have "(s * 2 ^ 63 + bits) div 2 ^ 52 = s * 2 ^ 11 + bits div 2 ^ 52"
        by (simp only: div_mult_self1) simp
      moreover have "bits div 2 ^ 52 < 2 ^ 11"
        using sb(2) by (simp add: less_mult_imp_div_less)
      ultimately show ?thesis by simp
    qed
    moreover have "bits div 2 ^ 52 < 2047" using sb(2) by (rule less_mult_imp_div_less)
    ultimately show ?thesis by (simp add: int_of_float_def Let_def)
  qed (use that in \<open>simp add: float_of_int_def int_of_float_def\<close>)
  ultimately show "int_half n = Inl e \<Longrightarrow> e = OverflowError"
    by (cases "float_of_int n") (auto simp: int_half_def)
qed

definition cc_inv :: "tcp_connection \<Rightarrow> bool" where
  "cc_inv c \<longleftrightarrow> 1 \<le> snd_cwnd c \<and> 2 \<le> snd_ssthresh c \<and> 0 < mss c"

lemma halved_threshold_result:
  "(\<exists>t. halved_threshold c = Inr t \<and> 2 \<le> t) \<or> halved_threshold c = Inl OverflowError"
  by (cases "int_half (snd_cwnd c)") (auto simp: halved_threshold_def dest: int_half_result)

lemma cc_step_inv:
  assumes "cc_inv c" and "\<And>n. ev = NewAck n \<Longrightarrow> 0 \<le> n"
  shows "cc_inv (snd (cc_step ev c)) \<and> fst (cc_step ev c) \<in> {Inr (), Inl OverflowError}"
proof (cases ev)
  case (NewAck n)
  have "0 \<le> (mss c * mss c) div (2 * snd_cwnd c)" if "cc_inv c"
    using that by (simp add: cc_inv_def pos_imp_zdiv_nonneg_iff)
  then show ?thesis using assms NewAck
    by (auto simp: on_new_ack_def cc_inv_def Let_def min_def split: congestion_state.split)
qed (use assms(1) halved_threshold_result [of c] halved_threshold_result [of "c\<lparr>retransmissions := retransmissions c + 1\<rparr>"]
    in \<open>auto simp: on_packet_loss_def on_duplicate_ack_def on_timeout_def cc_inv_def Let_def\<close>)

lemma cc_run_inv:
  assumes "cc_inv c" and "\<forall>n. NewAck n \<in> set evs \<longrightarrow> 0 \<le> n"
  shows "cc_inv (fold (\<lambda>ev c. snd (cc_step ev c)) evs c)"
  using assms
proof (induction evs arbitrary: c)
  case (Cons ev evs)
  then have "cc_inv (snd (cc_step ev c))" using cc_step_inv [of c ev] by auto
  then show ?case using Cons by simp
qed simp

text \<open>
  The congestion window: after any events on a new connection (with non-negative numbers of
  acknowledged bytes) the window is at least 1 and the threshold at least 2, so no event divides by
  zero; the only error is the overflow of the conversion to a float.  A loss or a timeout on a
  window below \<open>2^53\<close> halves the threshold (to no less than 2), restarts slow start from 1, and a new
  acknowledgement never leaves the window above twice 65535.
\<close>
theorem congestion_window:
  fixes evs :: "cc_event list" and l r :: addr and st :: tcp_state
  assumes "\<forall>n. NewAck n \<in> set (evs @ [ev]) \<longrightarrow> 0 \<le> n"
  defines "c \<equiv> fold (\<lambda>ev c. snd (cc_step ev c)) evs (tcp_connection_new l r st)"
  shows "1 \<le> snd_cwnd c \<and> 2 \<le> snd_ssthresh c \<and> fst (cc_step ev c) \<in> {Inr (), Inl OverflowError} \<and>
    (ev \<in> {Loss, Timeout} \<and> snd_cwnd c < 2 ^ 53 \<longrightarrow>
      fst (cc_step ev c) = Inr () \<and> snd_ssthresh (snd (cc_step ev c)) = max (snd_cwnd c div 2) 2 \<and>
      snd_cwnd (snd (cc_step ev c)) = 1 \<and> cong_state (snd (cc_step ev c)) = SLOW_START) \<and>
    (\<forall>n. ev = NewAck n \<longrightarrow> snd_cwnd (snd (cc_step ev c)) \<le> 131070)"
proof -
  have "cc_inv (tcp_connection_new l r st)" by (simp add: cc_inv_def tcp_connection_new_def)
  then have inv: "cc_inv c" unfolding c_def by (rule cc_run_inv) (use assms(1) in simp)
  have "halved_threshold c' = Inr (max (snd_cwnd c' div 2) 2)" if "cc_inv c'" "snd_cwnd c' < 2 ^ 53" for c'
    using that int_half_small [of "snd_cwnd c'"] by (simp add: halved_threshold_def cc_inv_def)
  from this [of c] this [of "c\<lparr>retransmissions := retransmissions c + 1\<rparr>"]
  have "fst (cc_step ev c) = Inr () \<and> snd_ssthresh (snd (cc_step ev c)) = max (snd_cwnd c div 2) 2 \<and>
      snd_cwnd (snd (cc_step ev c)) = 1 \<and> cong_state (snd (cc_step ev c)) = SLOW_START"
    if "ev \<in> {Loss, Timeout}" "snd_cwnd c < 2 ^ 53"
    using that inv by (auto simp: on_packet_loss_def on_timeout_def cc_inv_def)
  moreover have "snd_cwnd (snd (on_new_ack n c)) \<le> 131070" for n
    using inv by (auto simp: on_new_ack_def Let_def cc_inv_def split: congestion_state.split)
  moreover have "fst (cc_step ev c) \<in> {Inr (), Inl OverflowError}"
    using cc_step_inv [OF inv, of ev] assms(1) by auto
  ultimately show ?thesis using inv by (auto simp: cc_inv_def)
qed

theorem congestion_window_witness:
  "snd_ssthresh (snd (cc_step Loss (fold (\<lambda>ev c. snd (cc_step ev c)) [NewAck 1000, NewAck 1]
      (tcp_connection_new (''a'', 1) (''b'', 2) ESTABLISHED)))) = 501"
  using congestion_window [of "[NewAck 1000, NewAck 1]" Loss "(''a'', 1)" "(''b'', 2)" ESTABLISHED]
  by (simp add: on_new_ack_def tcp_connection_new_def Let_def)

section \<open>Sending\<close>

fun consecutive :: "int \<Rightarrow> tcp_packet list \<Rightarrow> bool" where
  "consecutive seq [] \<longleftrightarrow> True"
| "consecutive seq (p # ps) \<longleftrightarrow> sequence_number p = seq \<and> consecutive (seq + ilen (payload p)) ps"

definition sent_from :: "tcp_connection \<Rightarrow> bytes \<Rightarrow> int \<Rightarrow> tcp_connection" where
  "sent_from c data n =
     c\<lparr>send_next := send_next c + ilen data, bytes_sent := bytes_sent c + ilen data,
       packets_sent := packets_sent c + n\<rparr>"

lemma send_loop_segments:
  assumes "0 < mss c" and "0 \<le> sent" and "sent \<le> ilen data"
  shows "\<exists>pend' ps. send_loop expiry data sent c pend out =
      Some (ilen data, sent_from c (drop (nat sent) data) (ilen ps), pend', out @ ps) \<and>
    concat (map payload ps) = drop (nat sent) data \<and> consecutive (send_next c) ps \<and>
    (\<forall>p\<in>set ps. payload p \<noteq> [] \<and> ilen (payload p) \<le> mss c) \<and>
    fst ` set pend' = fst ` set pend \<union> (\<lambda>p. (sequence_number p, ilen (payload p))) ` set ps"
  using assms
proof (induction "nat (ilen data - sent)" arbitrary: sent c pend out rule: less_induct)
  case less
  show ?case
  proof (cases "sent < ilen data")
    case False
    then have "send_loop expiry data sent c pend out = Some (sent, c, pend, out)"
      by (subst send_loop.simps) simp
    moreover have "sent = ilen data" using False less.prems by simp
    moreover have "sent_from c [] 0 = c" by (simp add: sent_from_def)
    ultimately show ?thesis by (intro exI [of _ pend] exI [of _ "[]"]) simp
  next
    case True
    define chunk where "chunk = py_slice data sent (sent + mss c)"
    have ch: "chunk = take (nat (mss c)) (drop (nat sent) data)"
    proof (cases "sent + mss c \<le> ilen data")
      case True
      then show ?thesis using less.prems by (simp add: chunk_def py_slice_in nat_add_distrib)
    next
      case False
      then show ?thesis using less.prems True
        by (simp add: chunk_def py_slice_def py_clamp_def)
    qed
    have ne: "0 < ilen chunk" "ilen chunk \<le> mss c" "sent + ilen chunk \<le> ilen data"
      using less.prems True by (simp_all add: ch)
    define p where "p = tcp_packet_new (snd (local_addr c)) (snd (remote_addr c)) (send_next c) (rcv_next c)
      (FLAG_ACK OR FLAG_PSH) chunk"
    define c' where "c' = sent_from c chunk 1"
    have p: "payload p = chunk" "sequence_number p = send_next c" by (simp_all add: p_def tcp_packet_new_def)
    have c': "mss c' = mss c" "send_next c' = send_next c + ilen chunk" by (simp_all add: c'_def sent_from_def)
    have step: "nat (ilen data - (sent + ilen chunk)) < nat (ilen data - sent)" "0 < mss c'"
      "0 \<le> sent + ilen chunk" "sent + ilen chunk \<le> ilen data"
      using less.prems ne c'(1) by linarith+
    obtain pend' ps where
      r: "send_loop expiry data (sent + ilen chunk) c' (add_packet p (expiry sent) pend) (out @ [p]) =
          Some (ilen data, sent_from c' (drop (nat (sent + ilen chunk)) data) (ilen ps), pend', (out @ [p]) @ ps)"
        "concat (map payload ps) = drop (nat (sent + ilen chunk)) data" "consecutive (send_next c') ps"
        "\<forall>p\<in>set ps. payload p \<noteq> [] \<and> ilen (payload p) \<le> mss c'"
        "fst ` set pend' = fst ` set (add_packet p (expiry sent) pend) \<union>
          (\<lambda>p. (sequence_number p, ilen (payload p))) ` set ps"
      using less.hyps [of "sent + ilen chunk" c' "add_packet p (expiry sent) pend" "out @ [p]", OF step]
      by blast
    have split: "chunk @ drop (nat (sent + ilen chunk)) data = drop (nat sent) data"
    proof -
      have "nat (sent + ilen chunk) = length chunk + nat sent" using less.prems by simp
      moreover have "take (length chunk) (drop (nat sent) data) = chunk" by (simp add: ch min_def)
      ultimately show ?thesis by (metis append_take_drop_id drop_drop)
    qed
    have "send_loop expiry data sent c pend out =
        send_loop expiry data (sent + ilen chunk) c' (add_packet p (expiry sent) pend) (out @ [p])"
      using True by (subst send_loop.simps) (simp add: chunk_def p_def c'_def sent_from_def Let_def)
    moreover have "sent_from c' (drop (nat (sent + ilen chunk)) data) (ilen ps) =
        sent_from c (drop (nat sent) data) (ilen (p # ps))"
      by (simp add: c'_def sent_from_def flip: split)
    moreover have "fst ` set (add_packet p (expiry sent) pend) =
        insert (sequence_number p, ilen (payload p)) (fst ` set pend)"
      by (simp add: add_packet_def dom_update)
    moreover have "consecutive (send_next c) (p # ps)" using r(3) p c' by simp
    moreover have "concat (map payload (p # ps)) = drop (nat sent) data" using r(2) split p by simp
    moreover have "\<forall>q\<in>set (p # ps). payload q \<noteq> [] \<and> ilen (payload q) \<le> mss c"
      using r(4) ne p c' by auto
    moreover have "fst ` set pend' = fst ` set pend \<union> (\<lambda>p. (sequence_number p, ilen (payload p))) ` set (p # ps)"
      using r(5) calculation(3) by auto
    ultimately show ?thesis
      using r(1) by (intro exI [of _ pend'] exI [of _ "p # ps"]) simp
  qed
qed

lemma send_loop_diverges:
  assumes "mss c = 0" and "sent < ilen data"
  shows "send_loop expiry data sent c pend out = None"
proof -
  have "\<not> (mss c = 0 \<and> sent < ilen data)" if returns: "send_loop expiry data sent c pend out = Some y"
    for expiry :: "int \<Rightarrow> 'a" and data sent c pend out y
  proof (rule send_loop.raw_induct [OF _ returns])
    fix loop :: "(int \<Rightarrow> 'a) \<Rightarrow> bytes \<Rightarrow> int \<Rightarrow> tcp_connection \<Rightarrow> 'a pending \<Rightarrow> tcp_packet list \<Rightarrow> _"
      and expiry data sent c pend out y
    assume IH: "\<And>expiry data sent c pend out y. loop expiry data sent c pend out = Some y \<Longrightarrow>
        \<not> (mss c = 0 \<and> sent < ilen data)"
      and body: "(if sent < ilen data
      then
        let chunk = py_slice data sent (sent + mss c);
            p = tcp_packet_new (snd (local_addr c)) (snd (remote_addr c)) (send_next c) (rcv_next c)
                  (FLAG_ACK OR FLAG_PSH) chunk;
            c' = c\<lparr>send_next := send_next c + ilen chunk, bytes_sent := bytes_sent c + ilen chunk,
                   packets_sent := packets_sent c + 1\<rparr>
        in loop expiry data (sent + ilen chunk) c' (add_packet p (expiry sent) pend) (out @ [p])
      else Some (sent, c, pend, out)) = Some y"
    show "\<not> (mss c = 0 \<and> sent < ilen data)"
    proof
      assume stuck: "mss c = 0 \<and> sent < ilen data"
      then have "py_slice data sent (sent + mss c) = []" by (simp add: py_slice_def)
      with body stuck obtain c' pend' out' where
        "loop expiry data sent c' pend' out' = Some y" "mss c' = 0"
        by (auto simp: Let_def)
      from IH [OF this(1)] this(2) stuck show False by simp
    qed
  qed
  then show ?thesis using assms by (cases "send_loop expiry data sent c pend out") auto
qed

text \<open>
  Sending: on an established connection with a positive maximum segment size, \<^verbatim>\<open>send_data\<close>
  returns the number of bytes given; the packets it builds carry exactly these bytes in order, none
  empty and none longer than the segment size, with consecutive sequence numbers from \<^verbatim>\<open>send_next\<close>,
  all registered for retransmission, and the counters advance by the bytes and packets sent.  With
  the segment size 0 the call never returns.
\<close>
theorem tcp_send_segments:
  assumes "map_of (tp_connections s) k = Some (c, pend)" and "is_established c" and "0 \<le> mss c" and "data \<noteq> []"
  shows "if mss c = 0 then send_data expiry k data s = None
    else \<exists>out s' pend'. send_data expiry k data s = Some (Inr (ilen data), out, s') \<and>
      concat (map payload out) = data \<and> consecutive (send_next c) out \<and>
      (\<forall>p\<in>set out. payload p \<noteq> [] \<and> ilen (payload p) \<le> mss c) \<and>
      map_of (tp_connections s') k = Some (sent_from c data (ilen out), pend') \<and>
      fst ` set pend' = fst ` set pend \<union> (\<lambda>p. (sequence_number p, ilen (payload p))) ` set out"
proof (cases "mss c = 0")
  case True
  then show ?thesis using assms send_loop_diverges [of c 0 data expiry pend "[]"]
    by (simp add: send_data_def)
next
  case False
  then obtain pend' ps where
    r: "send_loop expiry data 0 c pend [] = Some (ilen data, sent_from c data (ilen ps), pend', ps)"
      "concat (map payload ps) = data" "consecutive (send_next c) ps"
      "\<forall>p\<in>set ps. payload p \<noteq> [] \<and> ilen (payload p) \<le> mss c"
      "fst ` set pend' = fst ` set pend \<union> (\<lambda>p. (sequence_number p, ilen (payload p))) ` set ps"
    using send_loop_segments [of c 0 data expiry pend "[]"] assms(3) by auto
  let ?s = "s\<lparr>tp_connections := AList.update k (sent_from c data (ilen ps), pend') (tp_connections s)\<rparr>"
  have "send_data expiry k data s = Some (Inr (ilen data), ps, ?s)"
    using assms(1,2) r(1) by (simp add: send_data_def)
  then show ?thesis using False r by (auto simp: update_conv')
qed

theorem tcp_send_segments_witness:
  "\<exists>out s'. send_data (\<lambda>i. i) ''a'' [1, 2, 3] (tcp_protocol_new 0
     \<lparr>tp_connections := [(''a'', (tcp_connection_new (''h'', 1) (''g'', 2) ESTABLISHED)\<lparr>mss := 2\<rparr>, [])]\<rparr>) =
       Some (Inr 3, out, s') \<and> concat (map payload out) = [1, 2, 3]"
  using tcp_send_segments [of "tcp_protocol_new 0
     \<lparr>tp_connections := [(''a'', (tcp_connection_new (''h'', 1) (''g'', 2) ESTABLISHED)\<lparr>mss := 2\<rparr>, [])]\<rparr>"
     "''a''" "(tcp_connection_new (''h'', 1) (''g'', 2) ESTABLISHED)\<lparr>mss := 2\<rparr>" "[]" "[1, 2, 3]" "\<lambda>i. i"]
  by (auto simp: tcp_connection_new_def is_established_def)

end
