(* ===== verification/Py_Ipaddress.thy ===== *)
theory Py_Ipaddress
  imports Py_Text Py_Struct
begin

text \<open>
  What the network stack uses of the module \<^verbatim>\<open>ipaddress\<close>: IPv4 addresses as 32-bit integers, their
  text (Python 3.10: no leading zeros in an octet) and their four bytes; networks with a prefix length,
  a netmask or a host mask, not strict, so that host bits are dropped.
\<close>

section \<open>Addresses\<close>

text \<open>\<^verbatim>\<open>_parse_octet\<close>.\<close>

definition parse_octet :: "string \<Rightarrow> int result" where
  "parse_octet s =
     (if \<not> ascii_digits s \<or> length s > 3 \<or> s \<noteq> ''0'' \<and> hd s = CHR ''0'' \<or> digits_value s > 255
      then Inl ValueError else Inr (int (digits_value s)))"

text \<open>\<^verbatim>\<open>int(IPv4Address(s))\<close>.\<close>

definition parse_ip4 :: "string \<Rightarrow> int result" where
  "parse_ip4 s =
     (case split_on CHR ''.'' s of
        [a, b, c, d] \<Rightarrow>
          res_bind (parse_octet a) (\<lambda>a. res_bind (parse_octet b) (\<lambda>b.
          res_bind (parse_octet c) (\<lambda>c. res_bind (parse_octet d) (\<lambda>d.
            Inr (((a * 256 + b) * 256 + c) * 256 + d)))))
      | _ \<Rightarrow> Inl ValueError)"

text \<open>\<^verbatim>\<open>IPv4Address(s).packed\<close>, \<^verbatim>\<open>str(IPv4Address(n))\<close> and \<^verbatim>\<open>str(IPv4Address(four_bytes))\<close>.\<close>

definition ip4_packed :: "int \<Rightarrow> bytes" where
  "ip4_packed n = rev (le_bytes 4 n)"

definition ip4_str :: "int \<Rightarrow> string" where
  "ip4_str n = join_with CHR ''.'' (map (\<lambda>b. nat_str (nat (uint b))) (ip4_packed n))"

definition ip4_of_bytes :: "bytes \<Rightarrow> int result" where
  "ip4_of_bytes bs = (if length bs = 4 then Inr (unpack_uint True bs) else Inl ValueError)"

section \<open>Networks\<close>

definition netmask_of :: "nat \<Rightarrow> int" where
  "netmask_of prefixlen = 0xFFFFFFFF XOR drop_bit prefixlen 0xFFFFFFFF"

text \<open>\<^verbatim>\<open>_prefix_from_ip_int\<close>, and \<^verbatim>\<open>_make_netmask\<close> for a string.\<close>

definition prefix_from_ip_int :: "int \<Rightarrow> nat result" where
  "prefix_from_ip_int n =
     (case find (\<lambda>p. netmask_of p = n) [0..<33] of None \<Rightarrow> Inl ValueError | Some p \<Rightarrow> Inr p)"

definition prefix_from_string :: "string \<Rightarrow> nat result" where
  "prefix_from_string s =
     (if ascii_digits s \<and> digits_value s \<le> 32 then Inr (digits_value s)
      else
        res_bind (parse_ip4 s) (\<lambda>n.
          case prefix_from_ip_int n of
            Inr p \<Rightarrow> Inr p
          | Inl _ \<Rightarrow> prefix_from_ip_int (n XOR 0xFFFFFFFF)))"

record ip4_network =
  net_address :: int
  net_prefixlen :: nat

text \<open>\<^verbatim>\<open>IPv4Network(s, strict=False)\<close>.\<close>

definition parse_network :: "string \<Rightarrow> ip4_network result" where
  "parse_network s =
     (case split_on CHR ''/'' s of
        [host] \<Rightarrow> res_bind (parse_ip4 host) (\<lambda>n. Inr \<lparr>net_address = n, net_prefixlen = 32\<rparr>)
      | [host, suffix] \<Rightarrow>
          res_bind (parse_ip4 host) (\<lambda>n.
          res_bind (prefix_from_string suffix) (\<lambda>p.
            Inr \<lparr>net_address = n AND netmask_of p, net_prefixlen = p\<rparr>))
      | _ \<Rightarrow> Inl ValueError)"

text \<open>\<^verbatim>\<open>address in network\<close> and \<^verbatim>\<open>str(network)\<close>.\<close>

definition in_network :: "int \<Rightarrow> ip4_network \<Rightarrow> bool" where
  "in_network n net \<longleftrightarrow> n AND netmask_of (net_prefixlen net) = net_address net"

definition network_str :: "ip4_network \<Rightarrow> string" where
  "network_str net = ip4_str (net_address net) @ ''/'' @ nat_str (net_prefixlen net)"

section \<open>Properties\<close>

lemma parse_octet_Inr:
  assumes "parse_octet s = Inr n"
  shows "0 \<le> n" and "n < 256" and "nat_str (nat n) = s"
  using assms nat_str_value [of s] by (auto simp: parse_octet_def split: if_splits)

lemma parse_octet_nat_str:
  assumes "n < 256"
  shows "parse_octet (nat_str n) = Inr (int n)"
proof -
  have "length (nat_str n) \<le> 3"
    using assms length_nat_str [of n] length_nat_str [of "n div 10"] length_nat_str [of "n div 10 div 10"]
    by (cases "n < 10"; cases "n div 10 < 10"; simp)
  moreover have "nat_str n = ''0'' \<or> hd (nat_str n) \<noteq> CHR ''0''"
  proof (cases "n = 0")
    case True
    then have "nat_str n = ''0''" by (simp, subst nat_str.simps) code_simp
    then show ?thesis by blast
  qed (use hd_nat_str in blast)
  ultimately show ?thesis
    using assms nat_str_digits [of n] by (auto simp: parse_octet_def digits_value_nat_str)
qed

lemma no_dot: "ascii_digits s \<Longrightarrow> CHR ''.'' \<notin> set s" "ascii_digits s \<Longrightarrow> CHR ''/'' \<notin> set s"
  by (auto simp: ascii_digits_def list_all_iff digit_char_def)

text \<open>An address is its own text: parsing and printing are inverse.\<close>

lemma le_bytes_step:
  assumes "0 \<le> y" and "y < 256"
  shows "le_bytes (Suc n) (x * 256 + y) = word_of_int y # le_bytes n x"
proof -
  have "word_of_int (x * 256 + y) = (word_of_int y :: byte)"
    by (rule word_uint_eqI) (simp only: uint_word_of_int, simp)
  moreover have "(x * 256 + y) div 256 = x" using assms by simp
  ultimately show ?thesis by simp
qed

lemma packed_octets:
  assumes "0 \<le> a" "a < 256" "0 \<le> b" "b < 256" "0 \<le> c" "c < 256" "0 \<le> d" "d < (256 :: int)"
  shows "ip4_packed (((a * 256 + b) * 256 + c) * 256 + d) =
    [word_of_int a, word_of_int b, word_of_int c, word_of_int d]"
proof -
  have four: "(4 :: nat) = Suc (Suc (Suc (Suc 0)))" by simp
  show ?thesis
    unfolding ip4_packed_def four le_bytes_step [OF assms(7,8)] le_bytes_step [OF assms(5,6)]
      le_bytes_step [OF assms(3,4)] by simp
qed

text \<open>The text of an address from its octets.\<close>

lemma ip4_str_octets:
  assumes "0 \<le> a" "a < 256" "0 \<le> b" "b < 256" "0 \<le> c" "c < 256" "0 \<le> d" "d < (256 :: int)"
  shows "ip4_str (((a * 256 + b) * 256 + c) * 256 + d) =
    join_with CHR ''.'' [nat_str (nat a), nat_str (nat b), nat_str (nat c), nat_str (nat d)]"
proof -
  have octet: "nat (uint (word_of_int x :: byte)) = nat x" if "0 \<le> x" "x < 256" for x
    using that by (simp only: uint_word_of_int) simp
  show ?thesis
    unfolding ip4_str_def packed_octets [OF assms] list.map octet [OF assms(1,2)] octet [OF assms(3,4)]
      octet [OF assms(5,6)] octet [OF assms(7,8)] ..
qed

lemma parse_ip4_parts:
  assumes "parse_ip4 s = Inr n"
  obtains a b c d where "split_on CHR ''.'' s = [nat_str (nat a), nat_str (nat b), nat_str (nat c), nat_str (nat d)]"
    and "0 \<le> a" "a < 256" "0 \<le> b" "b < 256" "0 \<le> c" "c < 256" "0 \<le> d" "d < 256"
    and "n = ((a * 256 + b) * 256 + c) * 256 + d"
proof -
  from assms obtain p q r t where s: "split_on CHR ''.'' s = [p, q, r, t]"
    by (auto simp: parse_ip4_def split: list.splits)
  from assms obtain a b c d where o: "parse_octet p = Inr a" "parse_octet q = Inr b" "parse_octet r = Inr c"
      "parse_octet t = Inr d" "n = ((a * 256 + b) * 256 + c) * 256 + d"
    by (auto simp: parse_ip4_def s res_bind_eq_Inr)
  show thesis
    using parse_octet_Inr [OF o(1)] parse_octet_Inr [OF o(2)] parse_octet_Inr [OF o(3)] parse_octet_Inr [OF o(4)] s o(5)
    by (intro that [of a b c d]) simp_all
qed

lemma parse_ip4_Inr:
  assumes "parse_ip4 s = Inr n"
  shows "0 \<le> n" and "n < 2 ^ 32" and "ip4_str n = s"
proof -
  obtain a b c d where o: "split_on CHR ''.'' s = [nat_str (nat a), nat_str (nat b), nat_str (nat c), nat_str (nat d)]"
    "0 \<le> a" "a < 256" "0 \<le> b" "b < 256" "0 \<le> c" "c < 256" "0 \<le> d" "d < 256"
    "n = ((a * 256 + b) * 256 + c) * 256 + d"
    by (rule parse_ip4_parts [OF assms])
  then show "0 \<le> n" "n < 2 ^ 32" by simp_all
  have "s = join_with CHR ''.'' [nat_str (nat a), nat_str (nat b), nat_str (nat c), nat_str (nat d)]"
    using join_split [of "CHR ''.''" s] o(1) by simp
  then show "ip4_str n = s"
    unfolding o(10) by (simp only: ip4_str_octets [OF o(2-9)])
qed

lemma packed_value: "0 \<le> n \<Longrightarrow> n < 2 ^ 32 \<Longrightarrow> unpack_uint True (ip4_packed n) = n"
  by (simp add: ip4_packed_def be_words)

lemma length_ip4_packed [simp]: "length (ip4_packed n) = 4"
  by (simp add: ip4_packed_def)

lemma parse_ip4_str:
  assumes "0 \<le> n" and "n < 2 ^ 32"
  shows "parse_ip4 (ip4_str n) = Inr n"
proof -
  define q r where "q = n div 256" and "r = q div 256"
  define a b c d where "a = r div 256" and "b = r mod 256" and "c = q mod 256" and "d = n mod 256"
  have rest: "n = q * 256 + d" "q = r * 256 + c" "r = a * 256 + b"
    by (simp_all add: q_def r_def a_def b_def c_def d_def)
  have o: "0 \<le> b" "b < 256" "0 \<le> c" "c < 256" "0 \<le> d" "d < 256" by (simp_all add: b_def c_def d_def)
  moreover have "0 \<le> a" using assms(1) by (simp add: a_def r_def q_def)
  moreover have "n < 4294967296" using assms(2) by simp
  then have "a < 256" using rest o by linarith
  ultimately have o: "0 \<le> a" "a < 256" "0 \<le> b" "b < 256" "0 \<le> c" "c < 256" "0 \<le> d" "d < 256"
    by simp_all
  have n: "n = ((a * 256 + b) * 256 + c) * 256 + d" using rest by simp
  have str: "ip4_str n = join_with CHR ''.'' [nat_str (nat a), nat_str (nat b), nat_str (nat c), nat_str (nat d)]"
    unfolding n by (rule ip4_str_octets [OF o])
  have "split_on CHR ''.'' (ip4_str n) = [nat_str (nat a), nat_str (nat b), nat_str (nat c), nat_str (nat d)]"
    unfolding str by (rule split_join) (auto simp: no_dot(1) [OF nat_str_digits])
  moreover have "parse_octet (nat_str (nat x)) = Inr x" if "0 \<le> x" "x < 256" for x
    using that parse_octet_nat_str [of "nat x"] by simp
  ultimately show ?thesis using o n by (simp add: parse_ip4_def)
qed

text \<open>Masks.\<close>

lemma bit_netmask: "p \<le> 32 \<Longrightarrow> bit (netmask_of p) i \<longleftrightarrow> 32 - p \<le> i \<and> i < 32"
proof -
  assume "p \<le> 32"
  have "netmask_of p = mask 32 XOR drop_bit p (mask 32)" by (simp add: netmask_of_def mask_eq_exp_minus_1)
  then show ?thesis using \<open>p \<le> 32\<close> by (auto simp: bit_xor_iff bit_drop_bit_eq bit_mask_iff)
qed

lemma bit_bounded: "0 \<le> n \<Longrightarrow> n < 2 ^ 32 \<Longrightarrow> bit (n :: int) i \<Longrightarrow> i < 32"
  using bit_take_bit_iff [of 32 n i] take_bit_int_eq_self [of n 32] by simp

text \<open>An address is in a network when it agrees with it on the first bits.\<close>

lemma netmask_agree:
  assumes "p \<le> 32" and "0 \<le> n" and "n < 2 ^ 32" and "0 \<le> m" and "m < 2 ^ 32"
  shows "n AND netmask_of p = m AND netmask_of p \<longleftrightarrow> n div 2 ^ (32 - p) = m div 2 ^ (32 - p)"
proof -
  have "n AND netmask_of p = m AND netmask_of p \<longleftrightarrow> (\<forall>i. 32 - p \<le> i \<and> i < 32 \<longrightarrow> bit n i = bit m i)"
    using assms(1) by (auto simp: bit_eq_iff bit_and_iff bit_netmask)
  also have "\<dots> \<longleftrightarrow> (\<forall>i. 32 - p \<le> i \<longrightarrow> bit n i = bit m i)"
    using bit_bounded [OF assms(2,3)] bit_bounded [OF assms(4,5)] by blast
  also have "\<dots> \<longleftrightarrow> (\<forall>i. bit n (32 - p + i) = bit m (32 - p + i))"
    by (metis le_add1 le_Suc_ex)
  also have "\<dots> \<longleftrightarrow> drop_bit (32 - p) n = drop_bit (32 - p) m"
    by (simp add: bit_eq_iff bit_drop_bit_eq)
  finally show ?thesis by (simp add: drop_bit_eq_div)
qed

lemma prefix_from_ip_int_le: "prefix_from_ip_int n = Inr q \<Longrightarrow> q \<le> 32"
  by (auto simp: prefix_from_ip_int_def find_Some_iff split: option.splits)

lemma prefix_from_string_le:
  assumes "prefix_from_string s = Inr p"
  shows "p \<le> 32"
proof (cases "ascii_digits s \<and> digits_value s \<le> 32")
  case False
  with assms obtain n where "(case prefix_from_ip_int n of Inr p \<Rightarrow> Inr p
      | Inl _ \<Rightarrow> prefix_from_ip_int (n XOR 0xFFFFFFFF)) = Inr p"
    by (auto simp: prefix_from_string_def res_bind_eq_Inr)
  then show ?thesis by (cases "prefix_from_ip_int n") (simp_all add: prefix_from_ip_int_le)
qed (use assms in \<open>simp add: prefix_from_string_def\<close>)

lemma netmask_32: "0 \<le> n \<Longrightarrow> n < 2 ^ 32 \<Longrightarrow> n AND netmask_of 32 = n"
  using bit_bounded [of n] by (auto simp: bit_eq_iff bit_and_iff bit_netmask)

lemma parse_network_Inr:
  assumes "parse_network s = Inr net"
  obtains n where "net_prefixlen net \<le> 32" and "0 \<le> n" and "n < 2 ^ 32"
    and "net_address net = n AND netmask_of (net_prefixlen net)"
proof (cases "\<exists>host. split_on CHR ''/'' s = [host]")
  case True
  then obtain host where host: "split_on CHR ''/'' s = [host]" by blast
  with assms have "res_bind (parse_ip4 host) (\<lambda>n. Inr \<lparr>net_address = n, net_prefixlen = 32\<rparr>) = Inr net"
    by (simp add: parse_network_def)
  then obtain n where n: "parse_ip4 host = Inr n" "net = \<lparr>net_address = n, net_prefixlen = 32\<rparr>"
    by (auto simp: res_bind_eq_Inr)
  show ?thesis
    using parse_ip4_Inr(1,2) [OF n(1)] n(2) netmask_32 [of n] by (intro that [of n]) simp_all
next
  case False
  with assms obtain host suffix where hs: "split_on CHR ''/'' s = [host, suffix]"
    by (auto simp: parse_network_def split: list.splits)
  with assms have "res_bind (parse_ip4 host) (\<lambda>n. res_bind (prefix_from_string suffix) (\<lambda>p.
      Inr \<lparr>net_address = n AND netmask_of p, net_prefixlen = p\<rparr>)) = Inr net"
    by (simp add: parse_network_def)
  then obtain n p where n: "parse_ip4 host = Inr n" "prefix_from_string suffix = Inr p"
      "net = \<lparr>net_address = n AND netmask_of p, net_prefixlen = p\<rparr>"
    by (auto simp: res_bind_eq_Inr)
  show ?thesis
    using parse_ip4_Inr(1,2) [OF n(1)] n(3) prefix_from_string_le [OF n(2)] by (intro that [of n]) simp_all
qed

end
