(* ===== verification/Ip.thy ===== *)
theory Ip
  imports Py_Ipaddress Checksum "HOL-Library.AList"
begin

text \<open>
  The IPv4 layer of the network stack, \<^verbatim>\<open>network/src/protocol/ip.py\<close>: the header and its binary form,
  fragmentation and reassembly, the routing table and the protocol object with its receive path.

  Time stamps have a type of their own; the clock enters as the stamps of new packets and as the set
  of stamps that are too old.  Filters and protocol handlers are known by their names: what they return
  (or raise) is an argument, and that they are called is an event.  A packet is a value, so the model
  does not show that reassembling changes the header of the first fragment the caller passed.
\<close>

unbundle bit_operations_syntax

section \<open>The header\<close>

text \<open>\<^verbatim>\<open>IPProtocolNumber\<close> and \<^verbatim>\<open>IPFlag\<close>.\<close>

definition ip_protocol_numbers :: "(string \<times> int) list" where
  "ip_protocol_numbers =
     [(''ICMP'', 1), (''IGMP'', 2), (''TCP'', 6), (''UDP'', 17), (''GRE'', 47), (''ESP'', 50), (''AH'', 51),
      (''ICMPV6'', 58), (''EIGRP'', 88), (''OSPF'', 89), (''PIM'', 103), (''SCTP'', 132)]"

abbreviation (input) "FLAG_DF \<equiv> 0x02 :: int"
abbreviation (input) "FLAG_MF \<equiv> 0x01 :: int"

record ip_header =
  version :: int
  ihl :: int
  tos :: int
  total_length :: int
  identification :: int
  ip_flags :: int
  fragment_offset :: int
  ttl :: int
  protocol :: int
  header_checksum :: int
  src_ip :: string
  dst_ip :: string
  ip_options :: bytes

definition default_header :: ip_header where
  "default_header =
     \<lparr>version = 4, ihl = 5, tos = 0, total_length = 20, identification = 0, ip_flags = 0,
      fragment_offset = 0, ttl = 64, protocol = 6, header_checksum = 0, src_ip = ''0.0.0.0'',
      dst_ip = ''0.0.0.0'', ip_options = []\<rparr>"

definition ip_header_length :: "ip_header \<Rightarrow> int" where
  "ip_header_length h = ihl h * 4"

definition is_df :: "ip_header \<Rightarrow> bool" where
  "is_df h \<longleftrightarrow> ip_flags h AND FLAG_DF \<noteq> 0"

definition is_mf :: "ip_header \<Rightarrow> bool" where
  "is_mf h \<longleftrightarrow> ip_flags h AND FLAG_MF \<noteq> 0"

definition is_fragment :: "ip_header \<Rightarrow> bool" where
  "is_fragment h \<longleftrightarrow> is_mf h \<or> fragment_offset h > 0"

definition ip_compute_checksum :: "bytes \<Rightarrow> int" where
  "ip_compute_checksum data =
     (let data = (if length data mod 2 \<noteq> 0 then data @ [0] else data)
      in NOT (fold_carry (add_words 0 data)) AND 0xFFFF)"

text \<open>The addresses raise \<^verbatim>\<open>IPError\<close>, the fields \<^verbatim>\<open>struct.error\<close>.\<close>

definition ip_encode :: "ip_header \<Rightarrow> bytes result" where
  "ip_encode h =
     (let version_ihl = push_bit 4 (version h) OR ihl h;
          flags_fragment = push_bit 13 (ip_flags h) OR fragment_offset h
      in case (parse_ip4 (src_ip h), parse_ip4 (dst_ip h)) of
           (Inr src, Inr dst) \<Rightarrow>
             res_bind (struct_pack
               [(1, pack_uint True 1 version_ihl), (1, pack_uint True 1 (tos h)),
                (2, pack_uint True 2 (total_length h)), (2, pack_uint True 2 (identification h)),
                (2, pack_uint True 2 flags_fragment), (1, pack_uint True 1 (ttl h)),
                (1, pack_uint True 1 (protocol h)), (2, pack_uint True 2 (header_checksum h)),
                (4, Inr (ip4_packed src)), (4, Inr (ip4_packed dst))]) (\<lambda>packed.
             let opts = packed @ ip_options h;
                 header = opts @ py_repeat 0 (ip_header_length h - ilen opts)
             in if header_checksum h = 0
                then res_bind (pack_uint True 2 (ip_compute_checksum header)) (\<lambda>c.
                       Inr (py_slice header 0 10 @ c @ py_slice header 12 (ilen header)))
                else Inr header)
         | _ \<Rightarrow> Inl IPErr)"

definition ip_decode :: "bytes \<Rightarrow> ip_header result" where
  "ip_decode data =
     (if ilen data < 20 then Inl IPErr
      else
        let version_ihl = uint (data ! 0);
            vers = drop_bit 4 version_ihl;
            hl = version_ihl AND 0x0F
        in if vers \<noteq> 4 then Inl IPErr
           else if ilen data < hl * 4 then Inl IPErr
           else
             let flags_fragment = unpack_uint True (py_slice data 6 8)
             in Inr \<lparr>version = vers, ihl = hl, tos = uint (data ! 1),
                  total_length = unpack_uint True (py_slice data 2 4),
                  identification = unpack_uint True (py_slice data 4 6),
                  ip_flags = drop_bit 13 flags_fragment AND 0x07,
                  fragment_offset = flags_fragment AND 0x1FFF,
                  ttl = uint (data ! 8), protocol = uint (data ! 9),
                  header_checksum = unpack_uint True (py_slice data 10 12),
                  src_ip = ip4_str (unpack_uint True (py_slice data 12 16)),
                  dst_ip = ip4_str (unpack_uint True (py_slice data 16 20)),
                  ip_options = (if hl * 4 > 20 then py_slice data 20 (hl * 4) else [])\<rparr>)"

section \<open>Packets\<close>

record 't ip_packet =
  pk_header :: ip_header
  pk_payload :: bytes
  pk_timestamp :: 't
  pk_interface :: string

definition ip_packet_new :: "'t \<Rightarrow> ip_header \<Rightarrow> bytes \<Rightarrow> 't ip_packet" where
  "ip_packet_new now h data =
     \<lparr>pk_header = h, pk_payload = data, pk_timestamp = now, pk_interface = []\<rparr>"

definition packet_size :: "'t ip_packet \<Rightarrow> int" where
  "packet_size p = ip_header_length (pk_header p) + ilen (pk_payload p)"

text \<open>\<^verbatim>\<open>encode\<close> writes the total length into the header of the packet.\<close>

definition packet_encode :: "'t ip_packet \<Rightarrow> bytes result \<times> 't ip_packet" where
  "packet_encode p =
     (let p1 = p\<lparr>pk_header := (pk_header p)\<lparr>total_length := packet_size p\<rparr>\<rparr>
      in (res_bind (ip_encode (pk_header p1)) (\<lambda>h. Inr (h @ pk_payload p1)), p1))"

definition packet_decode :: "'t \<Rightarrow> bytes \<Rightarrow> 't ip_packet result" where
  "packet_decode now data =
     res_bind (ip_decode data) (\<lambda>h.
       Inr (ip_packet_new now h (py_slice data (ip_header_length h) (total_length h))))"

section \<open>Reassembly\<close>

record 't ip_fragment =
  fr_packet :: "'t ip_packet"
  fr_offset :: int
  fr_more :: bool
  fr_data :: bytes

type_synonym frag_key = "string \<times> string \<times> int \<times> int"

record 't assembler =
  as_fragments :: "(frag_key \<times> 't ip_fragment list) list"
  as_completed :: "(frag_key \<times> 't ip_packet) list"

definition assembler_new :: "'t assembler" where
  "assembler_new = \<lparr>as_fragments = [], as_completed = []\<rparr>"

definition packet_key :: "'t ip_packet \<Rightarrow> frag_key" where
  "packet_key p =
     (src_ip (pk_header p), dst_ip (pk_header p), identification (pk_header p), protocol (pk_header p))"

text \<open>The loop that looks for a missing fragment.\<close>

fun contiguous :: "int \<Rightarrow> 't ip_fragment list \<Rightarrow> bool" where
  "contiguous expected [] \<longleftrightarrow> True"
| "contiguous expected (f # fs) \<longleftrightarrow> fr_offset f = expected \<and> contiguous (expected + ilen (fr_data f)) fs"

text \<open>The fragments are sorted in place also when the packet is not complete.\<close>

definition try_assemble ::
  "'t \<Rightarrow> frag_key \<Rightarrow> 't assembler \<Rightarrow> 't ip_packet option \<times> 't assembler" where
  "try_assemble now key a =
     (case map_of (as_fragments a) key of
        None \<Rightarrow> (None, a)
      | Some fs0 \<Rightarrow>
          if fs0 = [] then (None, a)
          else
            let fs = sort_key fr_offset fs0;
                a1 = a\<lparr>as_fragments := AList.update key fs (as_fragments a)\<rparr>
            in if fr_more (last fs) then (None, a1)
               else if \<not> contiguous 0 fs then (None, a1)
               else
                 let data = concat (map fr_data fs);
                     h = (pk_header (fr_packet (hd fs)))\<lparr>ip_flags := 0, fragment_offset := 0\<rparr>;
                     p = ip_packet_new now h data
                 in (Some p, a1\<lparr>as_completed := AList.update key p (as_completed a1),
                                as_fragments := AList.delete key (as_fragments a1)\<rparr>))"

definition fragment_of :: "'t ip_packet \<Rightarrow> 't ip_fragment" where
  "fragment_of p =
     \<lparr>fr_packet = p, fr_offset = fragment_offset (pk_header p) * 8, fr_more = is_mf (pk_header p),
      fr_data = pk_payload p\<rparr>"

definition add_fragment ::
  "'t \<Rightarrow> 't ip_packet \<Rightarrow> 't assembler \<Rightarrow> 't ip_packet option \<times> 't assembler" where
  "add_fragment now p a =
     (let key = packet_key p;
          a1 = (if map_of (as_fragments a) key = None
                then a\<lparr>as_fragments := AList.update key [] (as_fragments a)\<rparr> else a);
          a2 = a1\<lparr>as_fragments := AList.update key (the (map_of (as_fragments a1) key) @ [fragment_of p])
                   (as_fragments a1)\<rparr>
      in try_assemble now key a2)"

definition assembler_cleanup :: "('t \<Rightarrow> bool) \<Rightarrow> 't assembler \<Rightarrow> int result \<times> 't assembler" where
  "assembler_cleanup expired a =
     (if list_ex (\<lambda>(_, fs). fs = []) (as_fragments a) then (Inl IndexError, a)
      else
        let keys = map fst (filter (\<lambda>(_, fs). expired (pk_timestamp (fr_packet (hd fs)))) (as_fragments a))
        in (Inr (ilen keys), a\<lparr>as_fragments := fold AList.delete keys (as_fragments a)\<rparr>))"

section \<open>The protocol object\<close>

record ip_route =
  rt_network :: ip4_network
  rt_gateway :: string
  rt_interface :: string
  rt_metric :: int
  rt_prefixlen :: nat

record ip_stats =
  st_packets_received :: int
  st_packets_sent :: int
  st_packets_forwarded :: int
  st_packets_dropped :: int
  st_fragments_received :: int
  st_fragments_created :: int
  st_fragments_reassembled :: int
  st_checksum_errors :: int
  st_ttl_exceeded :: int

record 't ip_protocol =
  ip_routes :: "ip_route list"
  ip_default_gateway :: "string option"
  ip_local_ips :: "string list"
  ip_assembler :: "'t assembler"
  ip_handlers :: "(int \<times> string) list"
  ip_filters :: "string list"
  ip_is_running :: bool
  ip_identification :: int
  ip_default_ttl :: int
  ip_mtu :: int
  ip_stats :: ip_stats

text \<open>The first identification is a random number below 65536.\<close>

definition ip_protocol_new :: "int \<Rightarrow> 't ip_protocol" where
  "ip_protocol_new start =
     \<lparr>ip_routes = [], ip_default_gateway = None, ip_local_ips = [], ip_assembler = assembler_new,
      ip_handlers = [], ip_filters = [], ip_is_running = False, ip_identification = start,
      ip_default_ttl = 64, ip_mtu = 1500,
      ip_stats = \<lparr>st_packets_received = 0, st_packets_sent = 0, st_packets_forwarded = 0,
        st_packets_dropped = 0, st_fragments_received = 0, st_fragments_created = 0,
        st_fragments_reassembled = 0, st_checksum_errors = 0, st_ttl_exceeded = 0\<rparr>\<rparr>"

definition ip_start :: "'t ip_protocol \<Rightarrow> 't ip_protocol" where
  "ip_start s = s\<lparr>ip_is_running := True\<rparr>"

definition ip_stop :: "('t \<Rightarrow> bool) \<Rightarrow> 't ip_protocol \<Rightarrow> unit result \<times> 't ip_protocol" where
  "ip_stop expired s =
     (let s1 = s\<lparr>ip_is_running := False\<rparr>;
          (res, a) = assembler_cleanup expired (ip_assembler s1)
      in (res_bind res (\<lambda>_. Inr ()), s1\<lparr>ip_assembler := a\<rparr>))"

text \<open>The log message looks the number up in the enumeration, after the handler is entered.\<close>

definition register_protocol :: "int \<Rightarrow> string \<Rightarrow> 't ip_protocol \<Rightarrow> unit result \<times> 't ip_protocol" where
  "register_protocol num handler s =
     (if num \<in> snd ` set ip_protocol_numbers then Inr () else Inl ValueError,
      s\<lparr>ip_handlers := AList.update num handler (ip_handlers s)\<rparr>)"

definition unregister_protocol :: "int \<Rightarrow> 't ip_protocol \<Rightarrow> bool \<times> 't ip_protocol" where
  "unregister_protocol num s =
     (if map_of (ip_handlers s) num \<noteq> None
      then (True, s\<lparr>ip_handlers := AList.delete num (ip_handlers s)\<rparr>) else (False, s))"

definition add_route ::
  "string \<Rightarrow> string \<Rightarrow> string \<Rightarrow> int \<Rightarrow> 't ip_protocol \<Rightarrow> bool result \<times> 't ip_protocol" where
  "add_route network gateway interface metric s =
     (case parse_network network of
        Inl e \<Rightarrow> (Inl IPErr, s)
      | Inr net \<Rightarrow>
          let r = \<lparr>rt_network = net, rt_gateway = gateway, rt_interface = interface, rt_metric = metric,
                   rt_prefixlen = net_prefixlen net\<rparr>
          in (Inr True, s\<lparr>ip_routes := sort_key (\<lambda>r. - int (rt_prefixlen r)) (ip_routes s @ [r])\<rparr>))"

fun drop_route :: "string \<Rightarrow> ip_route list \<Rightarrow> bool \<times> ip_route list" where
  "drop_route network [] = (False, [])"
| "drop_route network (r # rs) =
     (if network_str (rt_network r) = network then (True, rs)
      else let (found, rs') = drop_route network rs in (found, r # rs'))"

definition remove_route :: "string \<Rightarrow> 't ip_protocol \<Rightarrow> bool \<times> 't ip_protocol" where
  "remove_route network s =
     (let (found, rs) = drop_route network (ip_routes s) in (found, s\<lparr>ip_routes := rs\<rparr>))"

definition set_default_gateway :: "string \<Rightarrow> 't ip_protocol \<Rightarrow> 't ip_protocol" where
  "set_default_gateway gateway s = s\<lparr>ip_default_gateway := Some gateway\<rparr>"

definition add_local_ip :: "string \<Rightarrow> 't ip_protocol \<Rightarrow> bool result \<times> 't ip_protocol" where
  "add_local_ip ip s =
     (case parse_ip4 ip of
        Inl _ \<Rightarrow> (Inl IPErr, s)
      | Inr _ \<Rightarrow> (Inr True, s\<lparr>ip_local_ips := List.insert ip (ip_local_ips s)\<rparr>))"

text \<open>\<^verbatim>\<open>set.discard\<close> returns nothing, so the answer is always \<^verbatim>\<open>False\<close>.\<close>

definition remove_local_ip :: "string \<Rightarrow> 't ip_protocol \<Rightarrow> bool \<times> 't ip_protocol" where
  "remove_local_ip ip s = (False, s\<lparr>ip_local_ips := removeAll ip (ip_local_ips s)\<rparr>)"

definition is_local_ip :: "string \<Rightarrow> 't ip_protocol \<Rightarrow> bool" where
  "is_local_ip ip s \<longleftrightarrow> ip \<in> set (ip_local_ips s)"

definition add_filter :: "string \<Rightarrow> 't ip_protocol \<Rightarrow> 't ip_protocol" where
  "add_filter f s = s\<lparr>ip_filters := ip_filters s @ [f]\<rparr>"

definition remove_filter :: "string \<Rightarrow> 't ip_protocol \<Rightarrow> bool \<times> 't ip_protocol" where
  "remove_filter f s =
     (if f \<in> set (ip_filters s) then (True, s\<lparr>ip_filters := remove1 f (ip_filters s)\<rparr>) else (False, s))"

definition next_identification :: "'t ip_protocol \<Rightarrow> int \<times> 't ip_protocol" where
  "next_identification s =
     (ip_identification s, s\<lparr>ip_identification := (ip_identification s + 1) mod 65536\<rparr>)"

definition create_packet ::
  "'t \<Rightarrow> string \<Rightarrow> string \<Rightarrow> int \<Rightarrow> bytes \<Rightarrow> int \<Rightarrow> int \<Rightarrow> bool \<Rightarrow> 't ip_protocol \<Rightarrow>
   't ip_packet \<times> 't ip_protocol" where
  "create_packet now src dst proto data time_to_live service df s =
     (let (ident, s1) = next_identification s;
          h = default_header\<lparr>identification := ident, ip_flags := (if df then FLAG_DF else 0),
                ttl := (if time_to_live > 0 then time_to_live else ip_default_ttl s),
                protocol := proto, src_ip := src, dst_ip := dst, tos := service\<rparr>
      in (ip_packet_new now h data, s1))"

section \<open>Sending\<close>

text \<open>
  The loop of \<^verbatim>\<open>_fragment_packet\<close>; \<^term>\<open>None\<close> means that it does not end.  The time stamp of a
  fragment is given by its offset.
\<close>

partial_function (option) fragment_loop ::
  "(int \<Rightarrow> 't) \<Rightarrow> ip_header \<Rightarrow> int \<Rightarrow> bytes \<Rightarrow> int \<Rightarrow> 't ip_packet list \<Rightarrow> 't ip_packet list option"
where
  "fragment_loop stamp h max_payload data offset out =
     (let chunk = py_slice data 0 max_payload;
          rest = py_slice data max_payload (ilen data);
          more = rest \<noteq> [];
          fh = default_header\<lparr>identification := identification h, ip_flags := (if more then FLAG_MF else 0),
                 fragment_offset := offset div 8, ttl := ttl h, protocol := protocol h,
                 src_ip := src_ip h, dst_ip := dst_ip h, tos := tos h\<rparr>;
          out' = out @ [ip_packet_new (stamp offset) fh chunk]
      in if more then fragment_loop stamp h max_payload rest (offset + ilen chunk) out' else Some out')"

definition max_payload_of :: "int \<Rightarrow> ip_header \<Rightarrow> int" where
  "max_payload_of mtu h = (let m = mtu - ip_header_length h in m - m mod 8)"

definition fragment_packet :: "(int \<Rightarrow> 't) \<Rightarrow> int \<Rightarrow> 't ip_packet \<Rightarrow> 't ip_packet list option" where
  "fragment_packet stamp mtu p =
     fragment_loop stamp (pk_header p) (max_payload_of mtu (pk_header p)) (pk_payload p) 0 []"

text \<open>\<^verbatim>\<open>send_packet\<close> with the packets given to \<^verbatim>\<open>_send_raw\<close>.\<close>

definition send_packet ::
  "(int \<Rightarrow> 't) \<Rightarrow> 't ip_packet \<Rightarrow> 't ip_protocol \<Rightarrow> (bool \<times> 't ip_packet list \<times> 't ip_protocol) option" where
  "send_packet stamp p s =
     (let sent = (\<lambda>s. s\<lparr>ip_stats := (ip_stats s)\<lparr>st_packets_sent := st_packets_sent (ip_stats s) + 1\<rparr>\<rparr>)
      in if packet_size p > ip_mtu s \<and> \<not> is_df (pk_header p)
         then map_option (\<lambda>frags.
                (True, frags,
                 sent (s\<lparr>ip_stats := (ip_stats s)\<lparr>st_fragments_created :=
                         st_fragments_created (ip_stats s) + ilen frags\<rparr>\<rparr>)))
              (fragment_packet stamp (ip_mtu s) p)
         else Some (True, [p], sent s))"

section \<open>Receiving\<close>

definition ip_verify_checksum :: "ip_header \<Rightarrow> bool result" where
  "ip_verify_checksum h =
     res_bind (ip_encode h) (\<lambda>bs.
       let header_data = py_slice bs 0 (ip_header_length h);
           field = py_slice header_data 10 12
       in if length field \<noteq> 2 then Inl StructError
          else
            let checksum = unpack_uint True field;
                zeroed = py_slice header_data 0 10 @ [0, 0] @ py_slice header_data 12 (ilen header_data)
            in Inr (checksum = ip_compute_checksum zeroed \<or> checksum = 0))"

text \<open>Where a packet is forwarded to; the code only logs it.\<close>

datatype route_choice = Via ip_route | ViaDefault string | NoRoute

definition find_route :: "int \<Rightarrow> ip_route list \<Rightarrow> ip_route option" where
  "find_route dst rs = find (\<lambda>r. in_network dst (rt_network r)) rs"

definition forward_packet :: "string \<Rightarrow> 't ip_protocol \<Rightarrow> route_choice result" where
  "forward_packet dst s =
     res_bind (parse_ip4 dst) (\<lambda>n.
       Inr (case find_route n (ip_routes s) of
              Some r \<Rightarrow> Via r
            | None \<Rightarrow>
                (case ip_default_gateway s of
                   Some g \<Rightarrow> if g \<noteq> [] then ViaDefault g else NoRoute
                 | None \<Rightarrow> NoRoute)))"

datatype 't ip_event = Delivered string "'t ip_packet" | Unhandled "'t ip_packet" | Forwarded route_choice "'t ip_packet"

fun filters_pass :: "(string \<Rightarrow> 't ip_packet \<Rightarrow> bool result) \<Rightarrow> 't ip_packet \<Rightarrow> string list \<Rightarrow> bool result" where
  "filters_pass run_filter p [] = Inr True"
| "filters_pass run_filter p (f # fs) =
     res_bind (run_filter f p) (\<lambda>b. if b then filters_pass run_filter p fs else Inr False)"

abbreviation bump :: "(ip_stats \<Rightarrow> ip_stats) \<Rightarrow> 't ip_protocol \<Rightarrow> 't ip_protocol" where
  "bump f s \<equiv> s\<lparr>ip_stats := f (ip_stats s)\<rparr>"

text \<open>The last part of \<^verbatim>\<open>receive_packet\<close>: to the handler of the protocol, or on to another host.\<close>

definition hand_over ::
  "(string \<Rightarrow> 't ip_packet \<Rightarrow> unit result) \<Rightarrow> 't ip_packet \<Rightarrow> 't ip_protocol \<Rightarrow>
   unit result \<times> 't ip_event list \<times> 't ip_protocol" where
  "hand_over run_handler p s =
     (if is_local_ip (dst_ip (pk_header p)) s
      then case map_of (ip_handlers s) (protocol (pk_header p)) of
             Some handler \<Rightarrow> (run_handler handler p, [Delivered handler p], s)
           | None \<Rightarrow> (Inr (), [Unhandled p], s)
      else case forward_packet (dst_ip (pk_header p)) s of
             Inl e \<Rightarrow> (Inl e, [], s)
           | Inr choice \<Rightarrow>
               (Inr (), [Forwarded choice p],
                bump (\<lambda>st. st\<lparr>st_packets_forwarded := st_packets_forwarded st + 1\<rparr>) s))"

text \<open>The part of \<^verbatim>\<open>receive_packet\<close> behind the filters.\<close>

definition accept_packet ::
  "(string \<Rightarrow> 't ip_packet \<Rightarrow> unit result) \<Rightarrow> 't \<Rightarrow> 't ip_packet \<Rightarrow> 't ip_protocol \<Rightarrow>
   unit result \<times> 't ip_event list \<times> 't ip_protocol" where
  "accept_packet run_handler now p s =
     (if is_fragment (pk_header p)
      then
        let s1 = bump (\<lambda>st. st\<lparr>st_fragments_received := st_fragments_received st + 1\<rparr>) s;
            (whole, a) = add_fragment now p (ip_assembler s1);
            s2 = s1\<lparr>ip_assembler := a\<rparr>
        in case whole of
             None \<Rightarrow> (Inr (), [], s2)
           | Some q \<Rightarrow>
               hand_over run_handler q
                 (bump (\<lambda>st. st\<lparr>st_fragments_reassembled := st_fragments_reassembled st + 1\<rparr>) s2)
      else hand_over run_handler p s)"

definition receive_packet ::
  "(string \<Rightarrow> 't ip_packet \<Rightarrow> bool result) \<Rightarrow> (string \<Rightarrow> 't ip_packet \<Rightarrow> unit result) \<Rightarrow> 't \<Rightarrow>
   't ip_packet \<Rightarrow> 't ip_protocol \<Rightarrow> unit result \<times> 't ip_event list \<times> 't ip_protocol" where
  "receive_packet run_filter run_handler now p s =
     (let s1 = bump (\<lambda>st. st\<lparr>st_packets_received := st_packets_received st + 1\<rparr>) s in
      case ip_verify_checksum (pk_header p) of
        Inl e \<Rightarrow> (Inl e, [], s1)
      | Inr False \<Rightarrow> (Inr (), [], bump (\<lambda>st. st\<lparr>st_checksum_errors := st_checksum_errors st + 1\<rparr>) s1)
      | Inr True \<Rightarrow>
          if ttl (pk_header p) \<le> 0
          then (Inr (), [], bump (\<lambda>st. st\<lparr>st_ttl_exceeded := st_ttl_exceeded st + 1\<rparr>) s1)
          else
            (case filters_pass run_filter p (ip_filters s1) of
               Inl e \<Rightarrow> (Inl e, [], s1)
             | Inr False \<Rightarrow> (Inr (), [], bump (\<lambda>st. st\<lparr>st_packets_dropped := st_packets_dropped st + 1\<rparr>) s1)
             | Inr True \<Rightarrow> accept_packet run_handler now p s1))"

text \<open>\<^verbatim>\<open>get_routing_table\<close>, and the count of waiting fragments in \<^verbatim>\<open>get_statistics\<close>.\<close>

definition get_routing_table :: "'t ip_protocol \<Rightarrow> (string \<times> string \<times> string \<times> int \<times> nat) list" where
  "get_routing_table s =
     map (\<lambda>r. (network_str (rt_network r), rt_gateway r, rt_interface r, rt_metric r, rt_prefixlen r))
       (ip_routes s)"

definition assembler_pending :: "'t ip_protocol \<Rightarrow> int" where
  "assembler_pending s = sum_list (map (\<lambda>(_, fs). ilen fs) (as_fragments (ip_assembler s)))"

end
