(* ===== verification/Ip_Wire.thy ===== *)
theory Ip_Wire
  imports Ip
begin

text \<open>
  The binary form of IPv4 headers and packets: what \<^verbatim>\<open>encode\<close> writes, when it fails, and what
  \<^verbatim>\<open>decode\<close> and the checksum test make of it.
\<close>

section \<open>What \<^verbatim>\<open>encode\<close> writes\<close>

text \<open>The fields of the header with an arbitrary checksum.\<close>

definition front_fields :: "ip_header \<Rightarrow> bytes" where
  "front_fields h =
     rev (le_bytes 1 (16 * version h + ihl h)) @ rev (le_bytes 1 (tos h)) @
     rev (le_bytes 2 (total_length h)) @ rev (le_bytes 2 (identification h)) @
     rev (le_bytes 2 (8192 * ip_flags h + fragment_offset h)) @ rev (le_bytes 1 (ttl h)) @
     rev (le_bytes 1 (protocol h))"

definition ip_fields :: "ip_header \<Rightarrow> int \<Rightarrow> int \<Rightarrow> int \<Rightarrow> bytes" where
  "ip_fields h c src dst = front_fields h @ rev (le_bytes 2 c) @ ip4_packed src @ ip4_packed dst"

text \<open>Every field has a value of its width.\<close>

definition ip_fits :: "ip_header \<Rightarrow> bool" where
  "ip_fits h \<longleftrightarrow>
     version h \<in> {0..<16} \<and> tos h \<in> {0..<256} \<and> total_length h \<in> {0..<65536} \<and>
     identification h \<in> {0..<65536} \<and> ip_flags h \<in> {0..<8} \<and> ttl h \<in> {0..<256} \<and>
     protocol h \<in> {0..<256} \<and> header_checksum h \<in> {0..<65536}"

definition narrow :: "ip_header \<Rightarrow> bool" where
  "narrow h \<longleftrightarrow> ihl h \<in> {0..<16} \<and> fragment_offset h \<in> {0..<8192}"

text \<open>The options with the padding that the header length asks for.\<close>

definition padded_options :: "ip_header \<Rightarrow> bytes" where
  "padded_options h = ip_options h @ replicate (nat (4 * ihl h - 20 - ilen (ip_options h))) 0"

text \<open>The checksum field on the wire.\<close>

definition wire_checksum :: "ip_header \<Rightarrow> int \<Rightarrow> int \<Rightarrow> int" where
  "wire_checksum h src dst =
     (if header_checksum h = 0 then internet_compute (ip_fields h 0 src dst @ padded_options h) 0
      else header_checksum h)"

lemma length_front_fields [simp]: "length (front_fields h) = 10"
  by (simp add: front_fields_def)

lemma length_ip_fields [simp]: "length (ip_fields h c src dst) = 20"
  by (simp add: ip_fields_def)

lemma ip_compute_checksum_eq: "ip_compute_checksum data = internet_compute data 0"
  by (simp add: ip_compute_checksum_def internet_compute_def)

lemma le_bytes_2: "le_bytes 2 c = [word_of_int c, word_of_int (c div 256)]"
  by (simp add: numeral_2_eq_2)

lemma nibbles: "0 \<le> i \<Longrightarrow> i < 2 ^ n \<Longrightarrow> push_bit n v OR i = 2 ^ n * v + (i :: int)"
  using or_push_bit_add [of i n v] by (simp add: or.commute)

lemma checksum_range: "0 \<le> internet_compute data 0" "internet_compute data 0 < 65536"
  using fold_carry_spec [OF words_nonneg, of data] by (simp_all add: internet_compute_eq)

lemma install_checksum:
  "py_slice (ip_fields h 0 src dst @ opts) 0 10 @ rev (le_bytes 2 c) @
     py_slice (ip_fields h 0 src dst @ opts) 12 (ilen (ip_fields h 0 src dst @ opts)) =
   ip_fields h c src dst @ opts"
  by (simp add: ip_fields_def py_slice_in del: le_bytes.simps)

text \<open>\<^verbatim>\<open>encode\<close> in one equation.\<close>

lemma ip_encode_eq:
  assumes "narrow h"
  shows "ip_encode h =
    (case (parse_ip4 (src_ip h), parse_ip4 (dst_ip h)) of
       (Inr src, Inr dst) \<Rightarrow>
         if ip_fits h then Inr (ip_fields h (wire_checksum h src dst) src dst @ padded_options h)
         else Inl StructError
     | _ \<Rightarrow> Inl IPErr)"
proof -
  have words: "push_bit 4 (version h) OR ihl h = 16 * version h + ihl h"
      "push_bit 13 (ip_flags h) OR fragment_offset h = 8192 * ip_flags h + fragment_offset h"
    using assms nibbles [of "ihl h" 4] nibbles [of "fragment_offset h" 13] by (simp_all add: narrow_def)
  have fits: "0 \<le> 16 * version h + ihl h \<and> 16 * version h + ihl h < 256 \<longleftrightarrow> version h \<in> {0..<16}"
      "0 \<le> 8192 * ip_flags h + fragment_offset h \<and> 8192 * ip_flags h + fragment_offset h < 65536 \<longleftrightarrow> ip_flags h \<in> {0..<8}"
    using assms by (auto simp: narrow_def)
  show ?thesis
  proof (cases "parse_ip4 (src_ip h)"; cases "parse_ip4 (dst_ip h)")
    fix src dst
    assume addr: "parse_ip4 (src_ip h) = Inr src" "parse_ip4 (dst_ip h) = Inr dst"
    define packed where "packed = struct_pack
       [(1, pack_uint True 1 (push_bit 4 (version h) OR ihl h)), (1, pack_uint True 1 (tos h)),
        (2, pack_uint True 2 (total_length h)), (2, pack_uint True 2 (identification h)),
        (2, pack_uint True 2 (push_bit 13 (ip_flags h) OR fragment_offset h)), (1, pack_uint True 1 (ttl h)),
        (1, pack_uint True 1 (protocol h)), (2, pack_uint True 2 (header_checksum h)),
        (4, Inr (ip4_packed src)), (4, Inr (ip4_packed dst))]"
    have packed: "packed = (if ip_fits h then Inr (ip_fields h (header_checksum h) src dst) else Inl StructError)"
      unfolding packed_def words
      using fits by (auto simp: ip_fits_def pack_uint_def byte_order_def ip_fields_def front_fields_def simp del: le_bytes.simps)
    have pad: "ip_fields h c src dst @ ip_options h @
        py_repeat 0 (ip_header_length h - ilen (ip_fields h c src dst @ ip_options h)) =
        ip_fields h c src dst @ padded_options h" for c
      by (simp add: padded_options_def py_repeat_def ip_header_length_def algebra_simps)
    have enc: "ip_encode h = res_bind packed (\<lambda>packed.
        let opts = packed @ ip_options h; header = opts @ py_repeat 0 (ip_header_length h - ilen opts)
        in if header_checksum h = 0
           then res_bind (pack_uint True 2 (ip_compute_checksum header)) (\<lambda>c.
                  Inr (py_slice header 0 10 @ c @ py_slice header 12 (ilen header)))
           else Inr header)"
      unfolding ip_encode_def Let_def packed_def addr by (simp only: prod.case sum.case)
    have summed: "pack_uint True 2 (internet_compute data 0) = Inr (rev (le_bytes 2 (internet_compute data 0)))" for data
      using checksum_range [of data] by (simp add: pack_uint_Inr del: le_bytes.simps)
    show ?thesis
      unfolding enc packed Let_def addr
      using pad install_checksum [of h src dst "padded_options h"]
      by (simp add: ip_compute_checksum_eq summed wire_checksum_def del: le_bytes.simps)
  qed (simp_all add: ip_encode_def Let_def)
qed

section \<open>What \<^verbatim>\<open>decode\<close> reads\<close>

lemma front_slices:
  "(ip_fields h c src dst @ xs) ! 0 = word_of_int (16 * version h + ihl h)"
  "(ip_fields h c src dst @ xs) ! 1 = word_of_int (tos h)"
  "(ip_fields h c src dst @ xs) ! 8 = word_of_int (ttl h)"
  "(ip_fields h c src dst @ xs) ! 9 = word_of_int (protocol h)"
  "py_slice (ip_fields h c src dst @ xs) 2 4 = rev (le_bytes 2 (total_length h))"
  "py_slice (ip_fields h c src dst @ xs) 4 6 = rev (le_bytes 2 (identification h))"
  "py_slice (ip_fields h c src dst @ xs) 6 8 = rev (le_bytes 2 (8192 * ip_flags h + fragment_offset h))"
  "py_slice (ip_fields h c src dst @ xs) 10 12 = rev (le_bytes 2 c)"
  "py_slice (ip_fields h c src dst @ xs) 12 16 = ip4_packed src"
  "py_slice (ip_fields h c src dst @ xs) 16 20 = ip4_packed dst"
  by (simp_all add: ip_fields_def front_fields_def py_slice_in nth_append numeral_2_eq_2)

lemma split_16:
  assumes "narrow h"
  shows "drop_bit 4 (16 * version h + ihl h) = version h" "(16 * version h + ihl h) AND 0x0F = ihl h"
    and "drop_bit 13 (8192 * ip_flags h + fragment_offset h) = ip_flags h"
    and "(8192 * ip_flags h + fragment_offset h) AND 0x1FFF = fragment_offset h"
  using assms take_bit_eq_mask [of 4 "16 * version h + ihl h"]
    take_bit_eq_mask [of 13 "8192 * ip_flags h + fragment_offset h"]
  by (simp_all add: narrow_def drop_bit_eq_div take_bit_eq_mod mask_eq_exp_minus_1)

text \<open>The header as it arrives: with the checksum of the wire, and the options cut or padded.\<close>

definition arrived :: "ip_header \<Rightarrow> int \<Rightarrow> bytes \<Rightarrow> ip_header" where
  "arrived h c opts = h\<lparr>header_checksum := c, ip_options := opts\<rparr>"

lemma ip_decode_eq:
  assumes "narrow h" and "ip_fits h" and "version h = 4" and "5 \<le> ihl h"
    and "parse_ip4 (src_ip h) = Inr src" and "parse_ip4 (dst_ip h) = Inr dst"
    and "0 \<le> c" and "c < 65536" and "ilen opts = 4 * ihl h - 20"
  shows "ip_decode (ip_fields h c src dst @ opts @ rest) = Inr (arrived h c opts)"
proof -
  let ?xs = "opts @ rest" and ?data = "ip_fields h c src dst @ opts @ rest"
  have fits: "ihl h < 16" "0 \<le> tos h" "tos h < 256" "0 \<le> ttl h" "ttl h < 256" "0 \<le> protocol h" "protocol h < 256"
      "0 \<le> ip_flags h" "ip_flags h < 8"
    using assms(1,2) by (simp_all add: narrow_def ip_fits_def)
  have byte: "uint (word_of_int x :: byte) = x" if "0 \<le> x" "x < 256" for x
    using that by (simp add: uint_word_of_int)
  have nths: "uint (?data ! 0) = 16 * version h + ihl h" "uint (?data ! 1) = tos h"
      "uint (?data ! 8) = ttl h" "uint (?data ! 9) = protocol h"
    unfolding front_slices by (rule byte; use fits assms(3,4) in simp)+
  have vals: "unpack_uint True (py_slice ?data 2 4) = total_length h"
      "unpack_uint True (py_slice ?data 4 6) = identification h"
      "unpack_uint True (py_slice ?data 6 8) = 8192 * ip_flags h + fragment_offset h"
      "unpack_uint True (py_slice ?data 10 12) = c"
      "unpack_uint True (py_slice ?data 12 16) = src" "unpack_uint True (py_slice ?data 16 20) = dst"
    unfolding front_slices
    using assms(1,2,7,8) parse_ip4_Inr(1,2) [OF assms(5)] parse_ip4_Inr(1,2) [OF assms(6)]
    by (auto simp: narrow_def ip_fits_def packed_value intro!: be_words simp del: le_bytes.simps)
  have flags7: "ip_flags h AND 7 = ip_flags h"
    using fits take_bit_int_eq_self [of "ip_flags h" 3] by (simp add: take_bit_eq_mask mask_eq_exp_minus_1)
  have opt: "(if ihl h * 4 > 20 then py_slice ?data 20 (ihl h * 4) else []) = opts"
    using slice_at [of "ip_fields h c src dst" opts rest] assms(9)
    by (cases opts) (simp_all add: algebra_simps)
  have "\<not> ilen ?data < 20" "\<not> ilen ?data < ihl h * 4" using assms(9) by simp_all
  then have "ip_decode ?data = Inr \<lparr>version = version h, ihl = ihl h, tos = tos h, total_length = total_length h,
      identification = identification h, ip_flags = ip_flags h, fragment_offset = fragment_offset h,
      ttl = ttl h, protocol = protocol h, header_checksum = c, src_ip = src_ip h, dst_ip = dst_ip h,
      ip_options = opts\<rparr>"
    unfolding ip_decode_def Let_def nths vals split_16 [OF assms(1)] opt flags7
      parse_ip4_Inr(3) [OF assms(5)] parse_ip4_Inr(3) [OF assms(6)]
    by (simp only: assms(3) if_False not_True_eq_False simp_thms)
  then show ?thesis by (cases h) (simp add: arrived_def)
qed

lemma padded_options_split:
  assumes "5 \<le> ihl h"
  defines "n \<equiv> nat (4 * ihl h - 20)"
  shows "padded_options h = take n (padded_options h) @ drop n (ip_options h)"
    and "ilen (take n (padded_options h)) = 4 * ihl h - 20"
proof -
  have "drop n (padded_options h) = drop n (ip_options h)"
    by (simp add: padded_options_def n_def nat_diff_distrib')
  then show "padded_options h = take n (padded_options h) @ drop n (ip_options h)"
    using append_take_drop_id [of n "padded_options h"] by simp
  show "ilen (take n (padded_options h)) = 4 * ihl h - 20"
    using assms(1) by (simp add: padded_options_def n_def)
qed

lemma ip_verify_checksum_eq:
  assumes "narrow h" and "ip_fits h" and "5 \<le> ihl h" and "ilen (ip_options h) \<le> 4 * ihl h - 20"
    and "parse_ip4 (src_ip h) = Inr src" and "parse_ip4 (dst_ip h) = Inr dst"
  shows "ip_verify_checksum h = Inr (header_checksum h = 0 \<or>
    header_checksum h = internet_compute (ip_fields h 0 src dst @ padded_options h) 0)"
proof -
  let ?w = "wire_checksum h src dst" and ?opts = "padded_options h"
  have w: "0 \<le> ?w" "?w < 65536"
    using assms(2) checksum_range by (simp_all add: wire_checksum_def ip_fits_def)
  have enc: "ip_encode h = Inr (ip_fields h ?w src dst @ ?opts)"
    using assms by (simp add: ip_encode_eq)
  have len: "ip_header_length h = ilen (ip_fields h ?w src dst @ ?opts)"
    using assms(3,4) by (simp add: ip_header_length_def padded_options_def)
  have whole: "py_slice bs 0 (ilen bs) = bs" for bs :: bytes by (simp add: py_slice_in)
  have zeroed: "py_slice (ip_fields h ?w src dst @ ?opts) 0 10 @ [0, 0] @
      py_slice (ip_fields h ?w src dst @ ?opts) 12 (ilen (ip_fields h ?w src dst @ ?opts)) =
      ip_fields h 0 src dst @ ?opts"
    by (simp add: ip_fields_def py_slice_in numeral_2_eq_2)
  have "unpack_uint True (rev (le_bytes 2 ?w)) = ?w" by (rule be_words) (use w in simp_all)
  then show ?thesis
    unfolding ip_verify_checksum_def enc res_bind_Inr Let_def len whole front_slices zeroed ip_compute_checksum_eq
    by (simp add: wire_checksum_def del: le_bytes.simps)
qed

text \<open>A header that fits, over the wire.\<close>

lemma ip_header_wire:
  assumes "narrow h" and "ip_fits h" and "version h = 4" and "5 \<le> ihl h"
    and "ilen (ip_options h) \<le> 4 * ihl h - 20"
    and addrs: "parse_ip4 (src_ip h) = Inr src" "parse_ip4 (dst_ip h) = Inr dst"
  defines "c \<equiv> wire_checksum h src dst" and "bs \<equiv> ip_fields h (wire_checksum h src dst) src dst @ padded_options h"
  shows "ip_encode h = Inr bs" and "ilen bs = ip_header_length h"
    and "ip_decode (bs @ data) = Inr (arrived h c (padded_options h))"
    and "header_checksum h = 0 \<Longrightarrow> internet_verify bs 0"
    and "header_checksum h = 0 \<Longrightarrow> ip_verify_checksum (arrived h c (padded_options h)) = Inr True"
proof -
  let ?opts = "padded_options h"
  have c: "0 \<le> c" "c < 65536"
    using assms(2) checksum_range by (simp_all add: c_def wire_checksum_def ip_fits_def)
  have opts: "ilen ?opts = 4 * ihl h - 20" using assms(4,5) by (simp add: padded_options_def)
  show "ip_encode h = Inr bs" using assms(1,2) addrs by (simp add: ip_encode_eq bs_def)
  show "ilen bs = ip_header_length h" using opts by (simp add: bs_def ip_header_length_def)
  show "ip_decode (bs @ data) = Inr (arrived h c ?opts)"
    using ip_decode_eq [OF assms(1-4) addrs c opts] by (simp add: bs_def c_def)
  assume zero: "header_checksum h = 0"
  then show "internet_verify bs 0"
    using checksum_installed [of "front_fields h" "ip4_packed src @ ip4_packed dst @ ?opts"]
    by (simp add: bs_def internet_verify_def ip_fields_def wire_checksum_def be16_def le_bytes_2)
  have "padded_options (arrived h c ?opts) = ?opts" "ip_fields (arrived h c ?opts) 0 src dst = ip_fields h 0 src dst"
    using opts by (simp_all add: arrived_def padded_options_def [of "_\<lparr>ip_options := _\<rparr>"] ip_fields_def front_fields_def)
  then show "ip_verify_checksum (arrived h c ?opts) = Inr True"
    using ip_verify_checksum_eq [of "arrived h c ?opts" src dst] assms(1,2,4) addrs opts c zero
    by (simp add: arrived_def narrow_def ip_fits_def wire_checksum_def c_def)
qed

text \<open>
  Flags and offset share 16 bits, and \<^verbatim>\<open>encode\<close> joins them by \<^verbatim>\<open>(flags << 13) | fragment_offset\<close> without a test: an
  offset of 8192 or more runs into the flags.  The header whose bytes are written:
\<close>

definition on_wire :: "ip_header \<Rightarrow> ip_header" where
  "on_wire h =
     (let w = push_bit 13 (ip_flags h) OR fragment_offset h
      in h\<lparr>ip_flags := drop_bit 13 w, fragment_offset := take_bit 13 w\<rparr>)"

lemma on_wire_keeps [simp]:
  "version (on_wire h) = version h" "ihl (on_wire h) = ihl h" "ip_options (on_wire h) = ip_options h"
  "src_ip (on_wire h) = src_ip h" "dst_ip (on_wire h) = dst_ip h" "header_checksum (on_wire h) = header_checksum h"
  "tos (on_wire h) = tos h" "total_length (on_wire h) = total_length h" "identification (on_wire h) = identification h"
  "ttl (on_wire h) = ttl h" "protocol (on_wire h) = protocol h"
  "ip_header_length (on_wire h) = ip_header_length h" "padded_options (on_wire h) = padded_options h"
  by (simp_all add: on_wire_def Let_def ip_header_length_def padded_options_def)

lemma on_wire_narrow: "ihl h \<in> {0..<16} \<Longrightarrow> narrow (on_wire h)"
  using take_bit_int_less_exp [of 13 "push_bit 13 (ip_flags h) OR fragment_offset h"]
  by (simp add: narrow_def on_wire_def Let_def)

lemma on_wire_word: "push_bit 13 (ip_flags (on_wire h)) OR fragment_offset (on_wire h) = push_bit 13 (ip_flags h) OR fragment_offset h"
proof -
  let ?w = "push_bit 13 (ip_flags h) OR fragment_offset h"
  have "push_bit 13 (drop_bit 13 ?w) OR take_bit 13 ?w = ?w" by (rule bit_eqI) (auto simp: bit_simps)
  then show ?thesis by (simp add: on_wire_def Let_def)
qed

lemma encode_on_wire: "ip_encode (on_wire h) = ip_encode h"
  unfolding ip_encode_def on_wire_word on_wire_keeps ..

lemma on_wire_same: "on_wire h = h \<longleftrightarrow> fragment_offset h \<in> {0..<8192}"
proof
  assume "on_wire h = h"
  then have "fragment_offset (on_wire h) = fragment_offset h" by simp
  then have "take_bit 13 (push_bit 13 (ip_flags h) OR fragment_offset h) = fragment_offset h" by (simp add: on_wire_def Let_def)
  then show "fragment_offset h \<in> {0..<8192}"
    using take_bit_int_less_exp [of 13 "push_bit 13 (ip_flags h) OR fragment_offset h"]
      take_bit_nonnegative [of 13 "push_bit 13 (ip_flags h) OR fragment_offset h"] by simp
next
  assume "fragment_offset h \<in> {0..<8192}"
  then have w: "push_bit 13 (ip_flags h) OR fragment_offset h = 8192 * ip_flags h + fragment_offset h"
      "0 \<le> fragment_offset h" "fragment_offset h < 8192"
    using nibbles [of "fragment_offset h" 13] by simp_all
  show "on_wire h = h"
    unfolding on_wire_def Let_def w(1) using w(2,3) by (cases h) (simp add: drop_bit_eq_div take_bit_eq_mod)
qed

text \<open>
  C13. The IPv4 header over the wire, for version 4, a header length of 20 to 60 bytes (\<^verbatim>\<open>ihl\<close> from 5 to 15) and
  options that fit in it: \<^verbatim>\<open>encode\<close> raises \<^verbatim>\<open>IPError\<close> exactly for an address that does not parse, and
  \<^verbatim>\<open>struct.error\<close> exactly when the flags joined with the offset, or another field, exceed their width; else, whatever
  follows the header, \<^verbatim>\<open>decode\<close> restores all fields, with the options padded to the announced length, of the header
  that was written.  That is the given header exactly when the fragment offset is below 8192: a larger offset raises
  nothing as long as the joined word fits, and comes back with other flags and another offset.  A checksum that was
  given is kept; a checksum of 0 is replaced by one that verifies, over the bytes and by the test of the receiver.
\<close>
theorem ip_header_roundtrip:
  assumes "version h = 4" and "5 \<le> ihl h" and "ihl h < 16" and "ilen (ip_options h) \<le> 4 * ihl h - 20"
  shows "(case ip_encode h of
      Inl e \<Rightarrow>
        if (\<exists>src. parse_ip4 (src_ip h) = Inr src) \<and> (\<exists>dst. parse_ip4 (dst_ip h) = Inr dst)
        then e = StructError \<and> \<not> ip_fits (on_wire h) else e = IPErr
    | Inr bs \<Rightarrow> ip_fits (on_wire h) \<and> ilen bs = ip_header_length h \<and>
        (\<exists>c. ip_decode (bs @ data) = Inr (arrived (on_wire h) c (padded_options h)) \<and>
          (if header_checksum h = 0
           then internet_verify bs 0 \<and> ip_verify_checksum (arrived (on_wire h) c (padded_options h)) = Inr True
           else c = header_checksum h))) \<and>
    (on_wire h = h \<longleftrightarrow> fragment_offset h \<in> {0..<8192})"
proof (rule conjI [OF _ on_wire_same])
  have narrow: "narrow (on_wire h)" using assms(2,3) by (intro on_wire_narrow) simp
  have bounds: "version (on_wire h) = 4" "5 \<le> ihl (on_wire h)" "ilen (ip_options (on_wire h)) \<le> 4 * ihl (on_wire h) - 20"
    using assms by simp_all
  show "case ip_encode h of
      Inl e \<Rightarrow>
        if (\<exists>src. parse_ip4 (src_ip h) = Inr src) \<and> (\<exists>dst. parse_ip4 (dst_ip h) = Inr dst)
        then e = StructError \<and> \<not> ip_fits (on_wire h) else e = IPErr
    | Inr bs \<Rightarrow> ip_fits (on_wire h) \<and> ilen bs = ip_header_length h \<and>
        (\<exists>c. ip_decode (bs @ data) = Inr (arrived (on_wire h) c (padded_options h)) \<and>
          (if header_checksum h = 0
           then internet_verify bs 0 \<and> ip_verify_checksum (arrived (on_wire h) c (padded_options h)) = Inr True
           else c = header_checksum h))"
  proof (cases "parse_ip4 (src_ip h)"; cases "parse_ip4 (dst_ip h)")
    fix src dst
    assume addrs: "parse_ip4 (src_ip h) = Inr src" "parse_ip4 (dst_ip h) = Inr dst"
    then have addrs': "parse_ip4 (src_ip (on_wire h)) = Inr src" "parse_ip4 (dst_ip (on_wire h)) = Inr dst" by simp_all
    show ?thesis
    proof (cases "ip_fits (on_wire h)")
      case True
      from ip_header_wire [OF narrow True bounds addrs'] True show ?thesis
        by (auto simp: wire_checksum_def encode_on_wire)
    qed (use ip_encode_eq [OF narrow] addrs in \<open>simp add: encode_on_wire\<close>)
  qed (use ip_encode_eq [OF narrow] in \<open>simp_all add: encode_on_wire\<close>)
qed

definition ping_header :: ip_header where
  "ping_header = default_header\<lparr>protocol := 1, src_ip := ''10.0.0.1'', dst_ip := ''10.0.0.255'', identification := 7\<rparr>"

lemma ping_addresses:
  "parse_ip4 ''10.0.0.1'' = Inr 0x0A000001" "parse_ip4 ''10.0.0.255'' = Inr 0x0A0000FF"
  by code_simp+

theorem ip_header_roundtrip_witness:
  "(\<exists>bs c. ip_encode ping_header = Inr bs \<and> ip_decode (bs @ [8, 0]) = Inr (arrived ping_header c []) \<and>
     ip_verify_checksum (arrived ping_header c []) = Inr True) \<and>
   (\<exists>bs c. ip_encode (ping_header\<lparr>fragment_offset := 8192\<rparr>) = Inr bs \<and>
     ip_decode (bs @ [8, 0]) = Inr (arrived (ping_header\<lparr>ip_flags := 1\<rparr>) c []))"
proof
  let ?far = "ping_header\<lparr>fragment_offset := 8192\<rparr>"
  have opts: "padded_options ping_header = []" "padded_options ?far = []"
    by (simp_all add: padded_options_def ping_header_def default_header_def)
  have wire: "on_wire ping_header = ping_header" "on_wire ?far = ping_header\<lparr>ip_flags := 1\<rparr>"
    by (simp_all add: on_wire_def ping_header_def default_header_def)
  show "\<exists>bs c. ip_encode ping_header = Inr bs \<and> ip_decode (bs @ [8, 0]) = Inr (arrived ping_header c []) \<and>
      ip_verify_checksum (arrived ping_header c []) = Inr True"
    using ip_header_roundtrip [of ping_header "[8, 0]"] ping_addresses opts wire
    by (auto simp: ping_header_def default_header_def ip_fits_def split: sum.splits)
  show "\<exists>bs c. ip_encode ?far = Inr bs \<and> ip_decode (bs @ [8, 0]) = Inr (arrived (ping_header\<lparr>ip_flags := 1\<rparr>) c [])"
    using ip_header_roundtrip [of ?far "[8, 0]"] ping_addresses opts wire
    by (auto simp: ping_header_def default_header_def ip_fits_def split: sum.splits)
qed

section \<open>Bytes that are accepted\<close>

lemma rev_le_unpack: "length bs = n \<Longrightarrow> rev (le_bytes n (unpack_uint True bs)) = bs"
  using pack_unpack_uint [of True bs] by (auto simp: pack_uint_Inr)

lemma packed_unpack: "length bs = 4 \<Longrightarrow> ip4_packed (unpack_uint True bs) = bs"
  by (simp add: ip4_packed_def rev_le_unpack)

lemma twenty:
  assumes "20 \<le> length xs"
  obtains a b c d e f g h i j k l m n p q r s t u rest
  where "xs = a # b # c # d # e # f # g # h # i # j # k # l # m # n # p # q # r # s # t # u # rest"
proof -
  have "20 = Suc (Suc (Suc (Suc (Suc (Suc (Suc (Suc (Suc (Suc (Suc (Suc (Suc (Suc (Suc (Suc (Suc (Suc (Suc (Suc 0)))))))))))))))))))"
    by simp
  with assms show thesis by (clarsimp simp only: Suc_le_length_iff) (rule that, simp)
qed

text \<open>The header that \<^verbatim>\<open>decode\<close> returns for bytes whose first one starts with the nibble 4.\<close>

lemma ip_decode_cases:
  "ip_decode data =
    (if length data < 20 \<or> uint (data ! 0) div 16 \<noteq> 4 \<or> ilen data < 4 * (uint (data ! 0) mod 16)
     then Inl IPErr else ip_decode data)"
proof -
  have "uint (data ! 0) AND 0x0F = uint (data ! 0) mod 16"
    using take_bit_eq_mask [of 4 "uint (data ! 0)"] by (simp add: take_bit_eq_mod mask_eq_exp_minus_1)
  then show ?thesis by (auto simp: ip_decode_def Let_def drop_bit_eq_div)
qed

lemma unpack_2: "0 \<le> unpack_uint True [a, b]" "unpack_uint True [a, b] < 65536"
  using unpack_uint_bounds [of True "[a, b]"] by simp_all

lemma unpack_4: "0 \<le> unpack_uint True [a, b, c, d]" "unpack_uint True [a, b, c, d] < 4294967296"
  using unpack_uint_bounds [of True "[a, b, c, d]"] by simp_all

lemma flags_word:
  fixes w :: int
  assumes "0 \<le> w" and "w < 65536"
  shows "8192 * (drop_bit 13 w AND 7) + (w AND 0x1FFF) = w"
    and "0 \<le> drop_bit 13 w AND 7" "drop_bit 13 w AND 7 < 8" "0 \<le> w AND 0x1FFF" "w AND 0x1FFF < 8192"
proof -
  have "drop_bit 13 w AND 7 = w div 8192 mod 8" "w AND 0x1FFF = w mod 8192"
    using take_bit_eq_mask [of 3 "drop_bit 13 w"] take_bit_eq_mask [of 13 w]
    by (simp_all add: take_bit_eq_mod mask_eq_exp_minus_1 drop_bit_eq_div)
  then show "8192 * (drop_bit 13 w AND 7) + (w AND 0x1FFF) = w"
      "0 \<le> drop_bit 13 w AND 7" "drop_bit 13 w AND 7 < 8" "0 \<le> w AND 0x1FFF" "w AND 0x1FFF < 8192"
    using assms by simp_all
qed

lemma nibble_word:
  fixes w :: int
  shows "16 * (w div 16) + (w AND 15) = w" "0 \<le> w AND 15" "w AND 15 < 16" "w AND 15 = w mod 16"
proof -
  show n: "w AND 15 = w mod 16"
    using take_bit_eq_mask [of 4 w] by (simp add: take_bit_eq_mod mask_eq_exp_minus_1)
  then show "16 * (w div 16) + (w AND 15) = w" "0 \<le> w AND 15" "w AND 15 < 16" by simp_all
qed

lemma word_uint_1: "rev (le_bytes (Suc 0) (uint b)) = [b]"
  by simp

text \<open>The decoded header gives back the bytes it was read from.\<close>

lemma decoded_header:
  assumes "20 \<le> length data" and "uint (data ! 0) div 16 = 4" and "4 * (uint (data ! 0) mod 16) \<le> ilen data"
  obtains h src dst where "ip_decode data = Inr h" and "narrow h" and "ip_fits h" and "version h = 4"
    and "ihl h = uint (data ! 0) mod 16" and "parse_ip4 (src_ip h) = Inr src" and "parse_ip4 (dst_ip h) = Inr dst"
    and "header_checksum h = unpack_uint True (take 2 (drop 10 data))"
    and "ip_options h = take (nat (4 * ihl h - 20)) (drop 20 data)"
    and "\<And>c. ip_fields h c src dst = take 10 data @ rev (le_bytes 2 c) @ take 8 (drop 12 data)"
proof -
  obtain b0 b1 b2 b3 b4 b5 b6 b7 b8 b9 b10 b11 b12 b13 b14 b15 b16 b17 b18 b19 rest where
    data: "data = b0 # b1 # b2 # b3 # b4 # b5 # b6 # b7 # b8 # b9 # b10 # b11 # b12 # b13 # b14 # b15 #
      b16 # b17 # b18 # b19 # rest"
    using assms(1) by (rule twenty)
  let ?flags = "unpack_uint True [b6, b7]"
    and ?src = "unpack_uint True [b12, b13, b14, b15]" and ?dst = "unpack_uint True [b16, b17, b18, b19]"
  define h where "h = \<lparr>version = 4, ihl = uint b0 AND 0x0F, tos = uint b1,
      total_length = unpack_uint True [b2, b3], identification = unpack_uint True [b4, b5],
      ip_flags = drop_bit 13 ?flags AND 7, fragment_offset = ?flags AND 0x1FFF, ttl = uint b8,
      protocol = uint b9, header_checksum = unpack_uint True [b10, b11],
      src_ip = ip4_str ?src, dst_ip = ip4_str ?dst,
      ip_options = take (nat (4 * (uint b0 mod 16) - 20)) rest\<rparr>"
  have slices: "py_slice data 2 4 = [b2, b3]" "py_slice data 4 6 = [b4, b5]" "py_slice data 6 8 = [b6, b7]"
      "py_slice data 10 12 = [b10, b11]" "py_slice data 12 16 = [b12, b13, b14, b15]"
      "py_slice data 16 20 = [b16, b17, b18, b19]"
    by (simp_all add: data py_slice_in)
  have opts: "(if (uint b0 AND 0x0F) * 4 > 20 then py_slice data 20 ((uint b0 AND 0x0F) * 4) else []) =
      take (nat (4 * (uint b0 mod 16) - 20)) rest"
    using assms(3) by (simp add: nibble_word(4) data py_slice_in mult.commute)
  have "\<not> ilen data < 20" "\<not> ilen data < (uint b0 AND 0x0F) * 4" "drop_bit 4 (uint b0) = 4"
    using assms by (simp_all add: data nibble_word(4) drop_bit_eq_div)
  then have dec: "ip_decode data = Inr h"
    unfolding ip_decode_def Let_def slices h_def
    using opts by (simp only: data nth_Cons_0 if_False not_True_eq_False simp_thms) (simp add: data numeral_eq_Suc)
  have b0: "16 * 4 + (uint b0 AND 15) = uint b0" using assms(2) nibble_word(1) [of "uint b0"] by (simp add: data)
  show thesis
  proof (rule that [of h ?src ?dst])
    show "narrow h" "ip_fits h"
      using flags_word [of ?flags] unpack_2 nibble_word(2,3) by (simp_all add: h_def narrow_def ip_fits_def del: and_numerals)
    show "parse_ip4 (src_ip h) = Inr ?src" "parse_ip4 (dst_ip h) = Inr ?dst"
      using parse_ip4_str unpack_4 by (simp_all add: h_def)
    have "front_fields h = take 10 data"
      using b0 flags_word(1) [of ?flags] unpack_2
      by (simp add: h_def front_fields_def data rev_le_unpack word_uint_1 del: le_bytes.simps)
    then show "ip_fields h c ?src ?dst = take 10 data @ rev (le_bytes 2 c) @ take 8 (drop 12 data)" for c
      by (simp add: ip_fields_def data packed_unpack)
  qed (simp_all add: dec, simp_all add: h_def data nibble_word(4))
qed

text \<open>
  Bytes as they arrive: \<^verbatim>\<open>decode\<close> fails with \<^verbatim>\<open>IPError\<close> exactly for less than 20 bytes, another
  version and fewer bytes than the header length announces.  It accepts header lengths below 20.  For
  lengths of at least 20, encoding the decoded header gives back the bytes when the checksum
  is not 0, and the receiver's test holds exactly when the checksum is 0 or the one of the bytes with a
  zeroed field; for a length of at most 8 the test raises \<^verbatim>\<open>struct.error\<close> instead.
\<close>
theorem ip_decode_accepts:
  fixes data :: bytes
  defines "nibble \<equiv> uint (data ! 0) mod 16"
  defines "header \<equiv> take (nat (4 * nibble)) data"
  shows "case ip_decode data of
      Inl e \<Rightarrow> e = IPErr \<and>
        (length data < 20 \<or> uint (data ! 0) div 16 \<noteq> 4 \<or> ilen data < 4 * nibble)
    | Inr h \<Rightarrow> 20 \<le> length data \<and> uint (data ! 0) div 16 = 4 \<and> 4 * nibble \<le> ilen data \<and>
        version h = 4 \<and> ihl h = nibble \<and>
        (if 5 \<le> nibble
         then (header_checksum h \<noteq> 0 \<longrightarrow> ip_encode h = Inr header) \<and>
           ip_verify_checksum h = Inr (header_checksum h = 0 \<or>
             header_checksum h = internet_compute (take 10 header @ [0, 0] @ drop 12 header) 0)
         else nibble < 3 \<longrightarrow> ip_verify_checksum h = Inl StructError)"
proof (cases "length data < 20 \<or> uint (data ! 0) div 16 \<noteq> 4 \<or> ilen data < 4 * nibble")
  case True
  then have "ip_decode data = Inl IPErr" by (subst ip_decode_cases) (simp add: nibble_def)
  then show ?thesis using True by simp
next
  case False
  then obtain h src dst where h: "ip_decode data = Inr h" "narrow h" "ip_fits h" "version h = 4"
      "ihl h = nibble" "parse_ip4 (src_ip h) = Inr src" "parse_ip4 (dst_ip h) = Inr dst"
      "header_checksum h = unpack_uint True (take 2 (drop 10 data))"
      "ip_options h = take (nat (4 * ihl h - 20)) (drop 20 data)"
      "\<And>c. ip_fields h c src dst = take 10 data @ rev (le_bytes 2 c) @ take 8 (drop 12 data)"
    using decoded_header [of data thesis] by (auto simp: nibble_def)
  have enc: "ip_encode h = Inr (ip_fields h (wire_checksum h src dst) src dst @ padded_options h)"
    using h(2,3,6,7) by (simp add: ip_encode_eq)
  show ?thesis
  proof (cases "5 \<le> nibble")
    case True
    define n where "n = nat (4 * nibble - 20)"
    have n: "nat (4 * nibble) = 20 + n" "20 + n \<le> length data"
      using True False unfolding n_def by linarith+
    have opts: "padded_options h = take n (drop 20 data)"
      using h(5,9) n(2) True by (simp add: padded_options_def n_def)
    have head: "header = take 10 data @ take 2 (drop 10 data) @ take 8 (drop 12 data) @ take n (drop 20 data)"
      using take_add [of 10 2 data] take_add [of 12 8 data] by (simp add: header_def n(1) take_add)
    have sum: "rev (le_bytes 2 (header_checksum h)) = take 2 (drop 10 data)"
      unfolding h(8) by (rule rev_le_unpack) (use n(2) in simp)
    have "ip_encode h = Inr header" if "header_checksum h \<noteq> 0"
      using that enc by (simp add: wire_checksum_def h(10) opts head sum)
    moreover have "ip_fields h 0 src dst @ padded_options h = take 10 header @ [0, 0] @ drop 12 header"
      using n(2) by (simp add: h(10) opts head le_bytes_2)
    moreover have "ip_verify_checksum h = Inr (header_checksum h = 0 \<or>
        header_checksum h = internet_compute (ip_fields h 0 src dst @ padded_options h) 0)"
      by (rule ip_verify_checksum_eq) (use h(2,3,5-7,9) True in simp_all)
    ultimately show ?thesis using h(1,4,5) True False by simp
  next
    case small: False
    have "ip_verify_checksum h = Inl StructError" if "nibble < 3"
    proof -
      have "4 * nibble \<le> 8" "0 \<le> nibble" using that by (simp_all add: nibble_def)
      then have "py_slice (py_slice bs 0 (ip_header_length h)) 10 12 = []" for bs :: bytes
        by (simp add: ip_header_length_def h(5) py_slice_def py_clamp_def)
      then show ?thesis by (simp add: ip_verify_checksum_def enc Let_def)
    qed
    then show ?thesis using h(1,4,5) small False by simp
  qed
qed

theorem ip_decode_accepts_witness:
  "(case ip_decode (0x45 # replicate 19 0) of Inl e \<Rightarrow> False | Inr h \<Rightarrow> ip_verify_checksum h = Inr True) \<and>
   (case ip_decode (0x41 # replicate 19 0) of Inl e \<Rightarrow> False | Inr h \<Rightarrow> ip_verify_checksum h = Inl StructError)"
proof -
  have "ip_decode (0x45 # replicate 19 0) \<noteq> Inl IPErr" "ip_decode (0x41 # replicate 19 0) \<noteq> Inl IPErr"
    by (simp_all add: ip_decode_def Let_def drop_bit_eq_div nibble_word(4))
  moreover have "\<And>h. ip_decode (0x45 # replicate 19 0) = Inr h \<Longrightarrow> header_checksum h = 0"
    by (auto simp: ip_decode_def Let_def drop_bit_eq_div nibble_word(4) py_slice_in unpack_uint_def byte_order_def
        numeral_eq_Suc split: if_splits)
  ultimately show ?thesis
    using ip_decode_accepts [of "0x45 # replicate 19 0"] ip_decode_accepts [of "0x41 # replicate 19 0"]
    by (auto split: sum.splits)
qed

end
