(* ===== verification/Ip_Fragments.thy ===== *)
theory Ip_Fragments
  imports Ip "HOL-Library.Multiset"
begin

text \<open>
  Fragmentation and reassembly: what \<^verbatim>\<open>_fragment_packet\<close> makes of a packet and when its loop ends, and
  that the assembler gives the packet back when the last missing fragment arrives, whatever the order
  of arrival and whatever other fragments arrive in between.
\<close>

section \<open>The fragments of a packet\<close>

definition frag_header :: "ip_header \<Rightarrow> int \<Rightarrow> bool \<Rightarrow> ip_header" where
  "frag_header h offset mf =
     default_header\<lparr>identification := identification h, ip_flags := (if mf then 1 else 0),
       fragment_offset := offset div 8, ttl := ttl h, protocol := protocol h, src_ip := src_ip h,
       dst_ip := dst_ip h, tos := tos h\<rparr>"

fun frag_list :: "(int \<Rightarrow> 't) \<Rightarrow> ip_header \<Rightarrow> int \<Rightarrow> bytes list \<Rightarrow> 't ip_packet list" where
  "frag_list stamp h offset [] = []"
| "frag_list stamp h offset (c # cs) =
     ip_packet_new (stamp offset) (frag_header h offset (cs \<noteq> [])) c # frag_list stamp h (offset + ilen c) cs"

function pieces :: "nat \<Rightarrow> bytes \<Rightarrow> bytes list" where
  "pieces n xs = (if n = 0 \<or> length xs \<le> n then [xs] else take n xs # pieces n (drop n xs))"
  by pat_completeness auto

termination
  by (relation "measure (\<lambda>(_, xs). length xs)") auto

declare pieces.simps [simp del]

lemma pieces_nonempty [simp]: "pieces n xs \<noteq> []"
  by (subst pieces.simps) simp

lemma concat_pieces [simp]: "concat (pieces n xs) = xs"
  by (induction n xs rule: pieces.induct) (subst pieces.simps, simp)

lemma pieces_short: "length xs \<le> n \<Longrightarrow> pieces n xs = [xs]"
  by (subst pieces.simps) simp

lemma pieces_long: "0 < n \<Longrightarrow> n < length xs \<Longrightarrow> pieces n xs = take n xs # pieces n (drop n xs)"
  by (subst pieces.simps) simp

lemma pieces_lengths:
  assumes "0 < n"
  shows "(\<forall>c \<in> set (pieces n xs). length c \<le> n) \<and> (\<forall>c \<in> set (butlast (pieces n xs)). length c = n) \<and>
    (xs \<noteq> [] \<longrightarrow> [] \<notin> set (pieces n xs))"
proof (induction "length xs" arbitrary: xs rule: less_induct)
  case less
  show ?case
  proof (cases "length xs \<le> n")
    case False
    then have eq: "pieces n xs = take n xs # pieces n (drop n xs)" by (intro pieces_long assms) simp
    have "length (drop n xs) < length xs" "drop n xs \<noteq> []" using assms False by auto
    moreover have "butlast (take n xs # pieces n (drop n xs)) = take n xs # butlast (pieces n (drop n xs))" by simp
    moreover have "length (take n xs) = n" "take n xs \<noteq> []" using assms False by auto
    ultimately show ?thesis
      using less unfolding eq by (metis insertE list.simps(15) order_refl)
  qed (auto simp: pieces_short)
qed

lemma py_slice_front: "0 \<le> n \<Longrightarrow> py_slice xs 0 n = take (nat n) xs"
  by (simp add: py_slice_def py_clamp_def min_def nat_le_iff)

lemma py_slice_rest: "0 \<le> n \<Longrightarrow> py_slice xs n (ilen xs) = drop (nat n) xs"
  by (auto simp: py_slice_def py_clamp_def min_def)

lemma fragment_loop_pieces:
  assumes "0 < m"
  shows "fragment_loop stamp h m xs offset out = Some (out @ frag_list stamp h offset (pieces (nat m) xs))"
proof (induction "length xs" arbitrary: xs offset out rule: less_induct)
  case less
  have slices: "py_slice xs 0 m = take (nat m) xs" "py_slice xs m (ilen xs) = drop (nat m) xs"
    using assms by (simp_all add: py_slice_front py_slice_rest)
  show ?case
  proof (cases "length xs \<le> nat m")
    case True
    then show ?thesis
      by (subst fragment_loop.simps, subst pieces.simps) (simp add: slices frag_header_def Let_def)
  next
    case False
    with assms less [of "drop (nat m) xs"]
    have "fragment_loop stamp h m (drop (nat m) xs) (offset + ilen (take (nat m) xs))
        (out @ [ip_packet_new (stamp offset) (frag_header h offset True) (take (nat m) xs)]) =
        Some (out @ frag_list stamp h offset (pieces (nat m) xs))"
      by (simp add: pieces_long)
    then show ?thesis using False
      by (subst fragment_loop.simps) (simp add: slices frag_header_def Let_def)
  qed
qed

text \<open>With no room for a payload the loop only ends when there is none.\<close>

lemma py_slice_tail: "m \<le> 0 \<Longrightarrow> py_slice xs m (ilen xs) = [] \<longleftrightarrow> xs = []"
  by (auto simp: py_slice_def py_clamp_def max_def)

lemma fragment_loop_stuck:
  assumes "fragment_loop stamp h m xs offset out = Some fs"
  shows "0 < m \<or> xs = []"
  using assms
proof (rule fragment_loop.raw_induct [where P = "\<lambda>_ _ m xs _ _ _. 0 < m \<or> xs = []", rotated])
  fix loop stamp h and m :: int and xs :: bytes and offset out fs
  assume ih: "\<And>stamp h m xs offset out fs. loop stamp h m xs offset out = Some fs \<Longrightarrow> 0 < m \<or> xs = []"
    and body: "(let chunk = py_slice xs 0 m; rest = py_slice xs m (ilen xs); more = rest \<noteq> [];
        fh = default_header\<lparr>identification := identification h, ip_flags := (if more then FLAG_MF else 0),
               fragment_offset := offset div 8, ttl := ttl h, protocol := protocol h,
               src_ip := src_ip h, dst_ip := dst_ip h, tos := tos h\<rparr>;
        out' = out @ [ip_packet_new (stamp offset) fh chunk]
      in if more then loop stamp h m rest (offset + ilen chunk) out' else Some out') = Some fs"
  show "0 < m \<or> xs = []"
  proof (cases "m \<le> 0 \<and> xs \<noteq> []")
    case True
    then have tail: "py_slice xs m (ilen xs) \<noteq> []" by (simp add: py_slice_tail)
    with body obtain offset' out' where "loop stamp h m (py_slice xs m (ilen xs)) offset' out' = Some fs"
      by (auto simp: Let_def)
    from ih [OF this] tail show ?thesis by simp
  qed auto
qed

lemma fragment_loop_empty:
  "fragment_loop stamp h m [] offset out = Some (out @ frag_list stamp h offset [[]])"
  by (subst fragment_loop.simps) (simp add: py_slice_def frag_header_def Let_def)

lemma max_payload_8: "8 dvd max_payload_of mtu h"
  by (simp add: max_payload_of_def Let_def mod_eq_dvd_iff [symmetric])

lemma fragments_shape:
  assumes "fragment_packet stamp mtu p = Some fs"
  obtains cs where "fs = frag_list stamp (pk_header p) 0 cs" and "cs \<noteq> []" and "concat cs = pk_payload p"
    and "\<forall>c \<in> set (butlast cs). 8 dvd length c" and "length cs = 1 \<or> [] \<notin> set cs"
    and "0 < max_payload_of mtu (pk_header p) \<longrightarrow> (\<forall>c \<in> set cs. ilen c \<le> max_payload_of mtu (pk_header p))"
proof (cases "pk_payload p = []")
  case True
  with assms show thesis
    by (intro that [of "[[]]"]) (simp_all add: fragment_packet_def fragment_loop_empty)
next
  case False
  define m where "m = max_payload_of mtu (pk_header p)"
  have m: "0 < m" using assms False by (auto simp: fragment_packet_def m_def dest: fragment_loop_stuck)
  then have fs: "fs = frag_list stamp (pk_header p) 0 (pieces (nat m) (pk_payload p))"
    using assms by (simp add: fragment_packet_def fragment_loop_pieces m_def)
  obtain k where "m = 8 * k" using max_payload_8 [of mtu "pk_header p"] by (auto simp: m_def)
  with m have "8 dvd nat m" by (simp add: nat_mult_distrib)
  with m pieces_lengths [of "nat m" "pk_payload p"] False fs show thesis
    by (intro that [of "pieces (nat m) (pk_payload p)"]) (auto simp: m_def [symmetric] nat_le_iff zless_nat_eq_int_zless)
qed

section \<open>The loop ends\<close>

lemma room_for_payload: "0 < max_payload_of mtu h \<longleftrightarrow> ip_header_length h + 8 \<le> mtu"
proof -
  define m where "m = mtu - ip_header_length h"
  have "0 < m - m mod 8 \<longleftrightarrow> 8 \<le> m" by presburger
  then show ?thesis by (simp add: max_payload_of_def Let_def m_def) linarith
qed

text \<open>
  The loop of \<^verbatim>\<open>_fragment_packet\<close> ends exactly when the packet has no payload or the header leaves
  room for eight bytes; so \<^verbatim>\<open>send_packet\<close> hangs exactly for a payload that needs fragments behind a
  header of more than \<^verbatim>\<open>mtu - 8\<close> bytes, which no four-bit header length gives with the MTU of 1500.
\<close>
theorem fragmentation_terminates:
  "(fragment_packet stamp mtu p = None \<longleftrightarrow> pk_payload p \<noteq> [] \<and> mtu < ip_header_length (pk_header p) + 8) \<and>
   (send_packet stamp p s = None \<longleftrightarrow>
      packet_size p > ip_mtu s \<and> \<not> is_df (pk_header p) \<and> pk_payload p \<noteq> [] \<and>
      ip_mtu s < ip_header_length (pk_header p) + 8) \<and>
   (ihl (pk_header p) < 16 \<and> ip_mtu s = 1500 \<longrightarrow> send_packet stamp p s \<noteq> None)"
proof -
  have frag: "fragment_packet stamp mtu p = None \<longleftrightarrow>
      pk_payload p \<noteq> [] \<and> mtu < ip_header_length (pk_header p) + 8" for mtu
  proof (cases "0 < max_payload_of mtu (pk_header p) \<or> pk_payload p = []")
    case True
    then have "fragment_packet stamp mtu p \<noteq> None"
      by (auto simp: fragment_packet_def fragment_loop_pieces fragment_loop_empty)
    then show ?thesis using True room_for_payload [of mtu "pk_header p"] by auto
  next
    case False
    then have "fragment_packet stamp mtu p = None"
      using fragment_loop_stuck unfolding fragment_packet_def by (metis option.exhaust)
    then show ?thesis using False room_for_payload [of mtu "pk_header p"] by auto
  qed
  then have "send_packet stamp p s = None \<longleftrightarrow>
      packet_size p > ip_mtu s \<and> \<not> is_df (pk_header p) \<and> pk_payload p \<noteq> [] \<and>
      ip_mtu s < ip_header_length (pk_header p) + 8"
    by (auto simp: send_packet_def Let_def)
  with frag show ?thesis by (auto simp: ip_header_length_def)
qed

definition big_packet :: "nat ip_packet" where
  "big_packet = ip_packet_new 0 (default_header\<lparr>src_ip := ''10.0.0.1'', dst_ip := ''10.0.0.2'', identification := 9\<rparr>)
     (replicate 1481 7)"

theorem fragmentation_terminates_witness:
  "send_packet (\<lambda>_. 0) big_packet (ip_protocol_new 5) \<noteq> None \<and>
   send_packet (\<lambda>_. 0) (big_packet\<lparr>pk_header := default_header\<lparr>ihl := 375\<rparr>\<rparr>) (ip_protocol_new 5) = None"
  using fragmentation_terminates [of "\<lambda>_. 0" 1500 big_packet "ip_protocol_new 5"]
    fragmentation_terminates [of "\<lambda>_. 0" 1500 "big_packet\<lparr>pk_header := default_header\<lparr>ihl := 375\<rparr>\<rparr>" "ip_protocol_new 5"]
  by (simp add: ip_protocol_new_def big_packet_def ip_packet_new_def default_header_def packet_size_def
      ip_header_length_def is_df_def)

section \<open>What the fragments are\<close>

lemma frag_list_Nil [simp]: "frag_list stamp h offset cs = [] \<longleftrightarrow> cs = []"
  by (cases cs) simp_all

lemma length_frag_list [simp]: "length (frag_list stamp h offset cs) = length cs"
  by (induction cs arbitrary: offset) simp_all

lemma nth_frag_list:
  "i < length cs \<Longrightarrow> frag_list stamp h offset cs ! i =
    (let o' = offset + ilen (concat (take i cs))
     in ip_packet_new (stamp o') (frag_header h o' (Suc i < length cs)) (cs ! i))"
  by (induction cs arbitrary: offset i) (auto simp: nth_Cons Let_def add.assoc split: nat.split)

lemma payloads_frag_list [simp]: "map pk_payload (frag_list stamp h offset cs) = cs"
  by (induction cs arbitrary: offset) (simp_all add: ip_packet_new_def)

lemma frag_header_simps [simp]:
  "is_mf (frag_header h offset b) = b" "\<not> is_df (frag_header h offset b)"
  "fragment_offset (frag_header h offset b) = offset div 8"
  "src_ip (frag_header h offset b) = src_ip h" "dst_ip (frag_header h offset b) = dst_ip h"
  "identification (frag_header h offset b) = identification h" "protocol (frag_header h offset b) = protocol h"
  "ttl (frag_header h offset b) = ttl h" "tos (frag_header h offset b) = tos h"
  "ihl (frag_header h offset b) = 5" "ip_options (frag_header h offset b) = []"
  by (simp_all add: frag_header_def default_header_def is_mf_def is_df_def)

lemma dvd_concat: "\<forall>c \<in> set cs. n dvd length c \<Longrightarrow> n dvd length (concat cs)"
  by (induction cs) auto

lemma concat_aligned:
  assumes "\<forall>c \<in> set (butlast cs). (8::nat) dvd length c" and "i < length cs"
  shows "8 dvd length (concat (take i cs))"
proof -
  have "set (take i cs) \<subseteq> set (butlast cs)"
    using assms(2) set_take_subset_set_take [of i "length cs - 1" cs] by (simp add: butlast_conv_take)
  then show ?thesis using assms(1) by (intro dvd_concat) blast
qed

text \<open>
  C14. The fragments of a packet: their payloads make up the payload in order; fragment \<open>i\<close> carries the
  addresses, identification, protocol, time to live and type of service of the packet, its offset times
  eight is the length of the payloads before it, all but the last announce more fragments, and each fits
  the MTU.  The options of the packet are in no fragment, and cutting a packet that is itself a
  fragment starts again at offset 0 and announces an end.
\<close>
theorem fragments_of_packet:
  assumes "fragment_packet stamp mtu p = Some fs" and "5 \<le> ihl (pk_header p)" and "28 \<le> mtu"
  shows "fs \<noteq> [] \<and> concat (map pk_payload fs) = pk_payload p \<and>
    (\<forall>i < length fs. let h = pk_header (fs ! i) in
       packet_key (fs ! i) = packet_key p \<and> ttl h = ttl (pk_header p) \<and> tos h = tos (pk_header p) \<and>
       8 * fragment_offset h = ilen (concat (map pk_payload (take i fs))) \<and>
       (is_mf h \<longleftrightarrow> Suc i < length fs) \<and> packet_size (fs ! i) \<le> mtu \<and> ip_options h = [])"
proof -
  let ?m = "max_payload_of mtu (pk_header p)"
  obtain cs where cs: "fs = frag_list stamp (pk_header p) 0 cs" "cs \<noteq> []" "concat cs = pk_payload p"
      "\<forall>c \<in> set (butlast cs). 8 dvd length c" "length cs = 1 \<or> [] \<notin> set cs"
      "0 < ?m \<longrightarrow> (\<forall>c \<in> set cs. ilen c \<le> ?m)"
    by (rule fragments_shape [OF assms(1)])
  have pay: "map pk_payload (take i fs) = take i cs" for i
    by (simp add: cs(1) take_map [symmetric])
  have size: "20 + ilen (cs ! i) \<le> mtu" if "i < length cs" for i
  proof (cases "0 < ?m")
    case True
    then have "ilen (cs ! i) \<le> ?m" using cs(6) that by simp
    moreover have "?m \<le> mtu - 4 * ihl (pk_header p)"
      by (simp add: max_payload_of_def Let_def ip_header_length_def)
    ultimately show ?thesis using assms(2) by linarith
  next
    case False
    then have "pk_payload p = []" using assms(1) by (auto simp: fragment_packet_def dest: fragment_loop_stuck)
    then have "cs ! i = []" using cs(3) that by (auto simp: concat_eq_Nil_conv)
    then show ?thesis using assms(3) by simp
  qed
  have "8 * (ilen (concat (take i cs)) div 8) = ilen (concat (take i cs))" if "i < length cs" for i
    using concat_aligned [OF cs(4) that] by (simp add: int_dvd_int_iff [symmetric])
  then show ?thesis
    using cs(2,3) size unfolding pay
    by (auto simp: cs(1) nth_frag_list Let_def ip_packet_new_def packet_key_def packet_size_def ip_header_length_def)
qed

theorem fragments_of_packet_witness:
  "\<exists>fs. fragment_packet (\<lambda>_. 0 :: nat) 1500 big_packet = Some fs \<and> concat (map pk_payload fs) = replicate 1481 7"
proof -
  obtain fs where fs: "fragment_packet (\<lambda>_. 0 :: nat) 1500 big_packet = Some fs"
    by (auto simp: fragment_packet_def big_packet_def ip_packet_new_def default_header_def max_payload_of_def
        ip_header_length_def fragment_loop_pieces)
  moreover have "5 \<le> ihl (pk_header big_packet)" "pk_payload big_packet = replicate 1481 7"
    by (simp_all add: big_packet_def ip_packet_new_def default_header_def)
  ultimately show ?thesis using fragments_of_packet [OF fs] by auto
qed

section \<open>Reassembly\<close>

text \<open>A complete family of fragments in order.\<close>

definition complete_family :: "'t ip_fragment list \<Rightarrow> bool" where
  "complete_family fs \<longleftrightarrow> fs \<noteq> [] \<and> contiguous 0 fs \<and> \<not> fr_more (last fs) \<and>
     (\<forall>f \<in> set (butlast fs). fr_more f) \<and> (length fs = 1 \<or> (\<forall>f \<in> set fs. fr_data f \<noteq> []))"

abbreviation data_size :: "'t ip_fragment list \<Rightarrow> int" where
  "data_size fs \<equiv> sum_list (map (\<lambda>f. ilen (fr_data f)) fs)"

lemma contiguous_last:
  "contiguous e fs \<Longrightarrow> fs \<noteq> [] \<Longrightarrow> fr_offset (last fs) + ilen (fr_data (last fs)) = e + data_size fs"
  by (induction e fs rule: contiguous.induct) (auto simp: add.assoc)

lemma contiguous_sorted:
  "contiguous e fs \<Longrightarrow> \<forall>f \<in> set fs. fr_data f \<noteq> [] \<Longrightarrow>
   sorted_wrt (<) (map fr_offset fs) \<and> (\<forall>f \<in> set fs. e \<le> fr_offset f)"
proof (induction e fs rule: contiguous.induct)
  case (2 e f fs)
  then have "sorted_wrt (<) (map fr_offset fs)" and le: "\<forall>g \<in> set fs. e + ilen (fr_data f) \<le> fr_offset g" by auto
  moreover have "0 < ilen (fr_data f)" "fr_offset f = e" using 2(2,3) by simp_all
  then have "fr_offset f < fr_offset g" if "g \<in> set fs" for g
    using bspec [OF le that] by linarith
  ultimately show ?case using \<open>fr_offset f = e\<close> by force
qed simp

lemma complete_sort:
  assumes "complete_family F" and "mset L = mset F"
  shows "sort_key fr_offset L = F"
proof (cases "length F = 1")
  case True
  then obtain f where "F = [f]" by (auto simp: length_Suc_conv)
  then show ?thesis using assms(2) by simp
next
  case False
  then have s: "sorted_wrt (<) (map fr_offset F)"
    using assms(1) contiguous_sorted [of 0 F] by (simp add: complete_family_def)
  then have "inj_on fr_offset (set F)"
    using strict_sorted_iff [of "map fr_offset F"] by (simp add: distinct_map)
  moreover have "sorted (map fr_offset F)" using s strict_sorted_iff by blast
  ultimately show ?thesis
    using assms(2) by (intro sort_key_inj_key_eq) (simp_all add: mset_eq_setD [OF assms(2)])
qed

text \<open>A part of a complete family is not complete.\<close>

lemma part_incomplete:
  assumes "complete_family F" and "mset L \<subset># mset F" and "L \<noteq> []"
  shows "fr_more (last (sort_key fr_offset L)) \<or> \<not> contiguous 0 (sort_key fr_offset L)"
proof (rule ccontr)
  let ?S = "sort_key fr_offset L"
  assume c: "\<not> ?thesis"
  define D where "D = mset F - mset L"
  have D: "mset F = mset L + D" "D \<noteq> {#}"
    using assms(2) by (auto simp: D_def Diff_eq_empty_iff_mset)
  have S: "?S \<noteq> []" "mset ?S = mset L" using assms(3) by (auto simp flip: set_empty)
  have "length F = length L + size D" using D(1) by (metis size_mset size_union)
  moreover have "length L > 0" "size D > 0" using assms(3) D(2) by (simp_all add: nonempty_has_size)
  ultimately have "length F \<noteq> 1" by linarith
  then have data: "\<forall>f \<in> set F. fr_data f \<noteq> []"
    using assms(1) by (simp add: complete_family_def)
  have members: "set F = set L \<union> set_mset D" using arg_cong [OF D(1), of set_mset] by simp
  then have "last ?S \<in> set F" using last_in_set [OF S(1)] by simp
  moreover have "set (butlast F @ [last F]) = set F"
    using assms(1) by (simp only: complete_family_def append_butlast_last_id not_False_eq_True)
  then have "set F = insert (last F) (set (butlast F))" by simp
  ultimately have "last ?S = last F" using c assms(1) by (auto simp: complete_family_def)
  then have "data_size ?S = data_size F"
    using c S(1) assms(1) contiguous_last [of 0 ?S] contiguous_last [of 0 F] by (simp add: complete_family_def)
  moreover have "data_size fs = (\<Sum>f \<in># mset fs. ilen (fr_data f))" for fs :: "'a ip_fragment list"
    by (simp flip: sum_mset_sum_list)
  then have "data_size F = data_size ?S + (\<Sum>f \<in># D. ilen (fr_data f))"
    by (simp only: S(2) D(1) image_mset_union sum_mset.union)
  moreover have "0 < (\<Sum>f \<in># D. ilen (fr_data f))"
  proof -
    obtain f D' where f: "D = add_mset f D'" using D(2) by (metis multiset_cases)
    then have "f \<in> set F" using members by simp
    have "0 \<le> (\<Sum>f \<in># D'. ilen (fr_data f))" by (induction D') simp_all
    then show ?thesis using data \<open>f \<in> set F\<close> f by (simp add: add_pos_nonneg)
  qed
  ultimately show False by simp
qed

text \<open>The fragments that wait under a key, and one more arrival.\<close>

definition waiting :: "'t assembler \<Rightarrow> frag_key \<Rightarrow> 't ip_fragment list" where
  "waiting a key = (case map_of (as_fragments a) key of None \<Rightarrow> [] | Some fs \<Rightarrow> fs)"

definition assembled :: "'t \<Rightarrow> 't ip_fragment list \<Rightarrow> 't ip_packet" where
  "assembled now fs =
     ip_packet_new now ((pk_header (fr_packet (hd fs)))\<lparr>ip_flags := 0, fragment_offset := 0\<rparr>) (concat (map fr_data fs))"

lemma sort_key_Nil_iff [simp]: "sort_key f xs = [] \<longleftrightarrow> xs = []"
  by (simp flip: set_empty)

lemma add_fragment_waiting:
  fixes a :: "'t assembler"
  assumes "key = packet_key p"
  defines "fs \<equiv> sort_key fr_offset (waiting a key @ [fragment_of p])"
  shows "if fr_more (last fs) \<or> \<not> contiguous 0 fs
    then fst (add_fragment now p a) = None \<and> map_of (as_fragments (snd (add_fragment now p a))) key = Some fs
    else fst (add_fragment now p a) = Some (assembled now fs) \<and>
      map_of (as_fragments (snd (add_fragment now p a))) key = None"
proof -
  define a1 where "a1 = (if map_of (as_fragments a) key = None
      then a\<lparr>as_fragments := AList.update key [] (as_fragments a)\<rparr> else a)"
  define a2 where "a2 = a1\<lparr>as_fragments := AList.update key (waiting a key @ [fragment_of p]) (as_fragments a1)\<rparr>"
  have "the (map_of (as_fragments a1) key) = waiting a key"
    by (auto simp: a1_def waiting_def update_conv')
  then have step: "add_fragment now p a = try_assemble now key a2"
    unfolding add_fragment_def Let_def assms(1) [symmetric] a1_def [symmetric] a2_def by simp
  have "map_of (as_fragments a2) key = Some (waiting a key @ [fragment_of p])"
    by (simp add: a2_def update_conv')
  then show ?thesis
    unfolding step try_assemble_def
    by (simp add: fs_def [symmetric] assembled_def update_conv' delete_conv' Let_def)
qed

lemma add_fragment_other:
  "key \<noteq> packet_key p \<Longrightarrow>
   map_of (as_fragments (snd (add_fragment now p a))) key = map_of (as_fragments a) key"
  by (simp add: add_fragment_def try_assemble_def Let_def update_conv' delete_conv' split: option.split)

text \<open>A sequence of arrivals, each with the packet that \<^verbatim>\<open>add_fragment\<close> returns for it.\<close>

fun arrivals :: "'t \<Rightarrow> 't ip_packet list \<Rightarrow> 't assembler \<Rightarrow> ('t ip_packet \<times> 't ip_packet option) list \<times> 't assembler" where
  "arrivals now [] a = ([], a)"
| "arrivals now (g # gs) a =
     (let (r, a1) = add_fragment now g a; (rs, a2) = arrivals now gs a1 in ((g, r) # rs, a2))"

definition results_for :: "frag_key \<Rightarrow> ('t ip_packet \<times> 't ip_packet option) list \<Rightarrow> 't ip_packet option list" where
  "results_for key rs = map snd (filter (\<lambda>(g, _). packet_key g = key) rs)"

lemma arrivals_Cons:
  "arrivals now (g # gs) a =
    ((g, fst (add_fragment now g a)) # fst (arrivals now gs (snd (add_fragment now g a))),
     snd (arrivals now gs (snd (add_fragment now g a))))"
  by (simp split: prod.split)

lemma results_Cons:
  "results_for key ((g, r) # rs) = (if packet_key g = key then r # results_for key rs else results_for key rs)"
  by (simp add: results_for_def)

lemma arrivals_other:
  "filter (\<lambda>g. packet_key g = key) gs = [] \<Longrightarrow>
   results_for key (fst (arrivals now gs a)) = [] \<and>
   map_of (as_fragments (snd (arrivals now gs a))) key = map_of (as_fragments a) key"
proof (induction gs arbitrary: a)
  case (Cons g gs)
  then have "packet_key g \<noteq> key" "filter (\<lambda>g. packet_key g = key) gs = []" by (auto split: if_splits)
  then show ?case
    using Cons.IH [of "snd (add_fragment now g a)"] add_fragment_other [of key g now a]
    by (simp only: arrivals_Cons results_Cons fst_conv snd_conv if_False) simp
qed (simp add: results_for_def)

declare arrivals.simps(2) [simp del]

lemma arrivals_complete:
  assumes "complete_family F"
    and "mset (waiting a key) + image_mset fragment_of (mset (filter (\<lambda>g. packet_key g = key) gs)) = mset F"
    and "filter (\<lambda>g. packet_key g = key) gs \<noteq> []"
  shows "results_for key (fst (arrivals now gs a)) =
      replicate (length (filter (\<lambda>g. packet_key g = key) gs) - 1) None @ [Some (assembled now F)] \<and>
    map_of (as_fragments (snd (arrivals now gs a))) key = None"
  using assms(2,3)
proof (induction gs arbitrary: a)
  case (Cons g gs)
  let ?mine = "filter (\<lambda>g. packet_key g = key)"
  let ?a = "snd (add_fragment now g a)"
  show ?case
  proof (cases "packet_key g = key")
    case False
    then have "waiting ?a key = waiting a key"
      using add_fragment_other [of key g now a] by (simp add: waiting_def)
    then show ?thesis
      using Cons.IH [of ?a] Cons.prems False by (simp add: arrivals_Cons results_Cons)
  next
    case True
    define L where "L = waiting a key @ [fragment_of g]"
    have sum: "mset L + image_mset fragment_of (mset (?mine gs)) = mset F"
      using Cons.prems(1) True by (simp add: L_def)
    have step: "if fr_more (last (sort_key fr_offset L)) \<or> \<not> contiguous 0 (sort_key fr_offset L)
      then fst (add_fragment now g a) = None \<and> map_of (as_fragments ?a) key = Some (sort_key fr_offset L)
      else fst (add_fragment now g a) = Some (assembled now (sort_key fr_offset L)) \<and>
        map_of (as_fragments ?a) key = None"
      unfolding L_def by (rule add_fragment_waiting) (simp add: True)
    show ?thesis
    proof (cases "?mine gs = []")
      case last: True
      then have "sort_key fr_offset L = F" using sum by (intro complete_sort assms(1)) simp
      with step assms(1) have "fst (add_fragment now g a) = Some (assembled now F)" "map_of (as_fragments ?a) key = None"
        by (simp_all add: complete_family_def)
      then show ?thesis
        using arrivals_other [OF last, of now ?a] True last by (simp add: arrivals_Cons results_Cons)
    next
      case more: False
      then have "mset L \<subset># mset F"
        unfolding sum [symmetric] by (auto simp: subset_mset.less_le filter_empty_conv)
      then have "fr_more (last (sort_key fr_offset L)) \<or> \<not> contiguous 0 (sort_key fr_offset L)"
        by (intro part_incomplete [OF assms(1)]) (simp_all add: L_def)
      with step have none: "fst (add_fragment now g a) = None" "map_of (as_fragments ?a) key = Some (sort_key fr_offset L)"
        by simp_all
      then have "waiting ?a key = sort_key fr_offset L" by (simp add: waiting_def)
      then have "results_for key (fst (arrivals now gs ?a)) =
          replicate (length (?mine gs) - 1) None @ [Some (assembled now F)] \<and>
          map_of (as_fragments (snd (arrivals now gs ?a))) key = None"
        using sum more by (intro Cons.IH) simp_all
      then show ?thesis
        using True none more by (cases "length (?mine gs)") (simp_all add: arrivals_Cons results_Cons)
    qed
  qed
qed simp

lemma contiguous_frags:
  assumes "\<forall>c \<in> set (butlast cs). 8 dvd length c" and "8 dvd offset"
  shows "contiguous offset (map fragment_of (frag_list stamp h offset cs))"
  using assms
proof (induction stamp h offset cs rule: frag_list.induct)
  case (2 stamp h offset c cs)
  show ?case
  proof (cases "cs = []")
    case False
    then have "8 dvd length c" using 2(2) by simp
    then have "8 dvd offset + ilen c" using 2(3) int_dvd_int_iff [of 8 "length c"] by simp
    then show ?thesis using 2 False by (simp add: fragment_of_def ip_packet_new_def)
  qed (use 2(3) in \<open>simp add: fragment_of_def ip_packet_new_def\<close>)
qed simp

lemma frags_more:
  "cs \<noteq> [] \<Longrightarrow> \<not> fr_more (last (map fragment_of (frag_list stamp h offset cs))) \<and>
   (\<forall>f \<in> set (butlast (map fragment_of (frag_list stamp h offset cs))). fr_more f)"
proof (induction stamp h offset cs rule: frag_list.induct)
  case (2 stamp h offset c cs)
  have "fr_more (fragment_of (ip_packet_new t (frag_header h offset b) c)) = b" for t :: 'a and b
    by (simp add: fragment_of_def ip_packet_new_def)
  then show ?case using 2 by (cases "cs = []") auto
qed simp

lemma frags_data: "map fr_data (map fragment_of (frag_list stamp h offset cs)) = cs"
  using payloads_frag_list [of stamp h offset cs] by (simp add: fragment_of_def comp_def)

lemma frags_complete:
  assumes "cs \<noteq> []" and "\<forall>c \<in> set (butlast cs). 8 dvd length c" and "length cs = 1 \<or> [] \<notin> set cs"
  shows "complete_family (map fragment_of (frag_list stamp h 0 cs))"
proof -
  let ?F = "map fragment_of (frag_list stamp h 0 cs)"
  have "fr_data ` set ?F = set cs" using arg_cong [OF frags_data [of stamp h 0 cs], of set] by (simp add: image_image)
  then have "length cs = 1 \<or> (\<forall>f \<in> set ?F. fr_data f \<noteq> [])" using assms(3) by force
  then show ?thesis
    using contiguous_frags [OF assms(2), of 0 stamp h] frags_more [OF assms(1), of stamp h 0] assms(1)
    unfolding complete_family_def by simp
qed

lemma frags_assembled:
  fixes stamp :: "int \<Rightarrow> 't" and h :: ip_header and now :: 't
  assumes "cs \<noteq> []"
  defines "q \<equiv> assembled now (map fragment_of (frag_list stamp h 0 cs))"
  shows "pk_payload q = concat cs" and "pk_header q = (frag_header h 0 False)"
proof -
  obtain c cs' where cs: "cs = c # cs'" using assms(1) by (cases cs) auto
  show "pk_payload q = concat cs" by (simp only: q_def assembled_def ip_packet_new_def ip_packet.simps frags_data)
  show "pk_header q = frag_header h 0 False"
    by (simp add: q_def assembled_def ip_packet_new_def cs fragment_of_def frag_header_def default_header_def)
qed

text \<open>
  C11. Reassembly: give the assembler the fragments of a packet in any order, each once, with any
  other fragments in between, starting with none under the key of the packet.  Then it returns nothing
  for all of them but the last to arrive, and for that one a packet with the payload, addresses,
  identification, protocol, time to live and type of service of the original, which is not a fragment;
  and nothing is left under the key.
\<close>
theorem reassembly_any_order:
  assumes "fragment_packet stamp mtu p = Some fs"
    and "mset (filter (\<lambda>g. packet_key g = packet_key p) gs) = mset fs"
    and "map_of (as_fragments a) (packet_key p) = None"
  shows "\<exists>q. results_for (packet_key p) (fst (arrivals now gs a)) = replicate (length fs - 1) None @ [Some q] \<and>
    pk_payload q = pk_payload p \<and> packet_key q = packet_key p \<and> ttl (pk_header q) = ttl (pk_header p) \<and>
    tos (pk_header q) = tos (pk_header p) \<and> \<not> is_fragment (pk_header q) \<and>
    map_of (as_fragments (snd (arrivals now gs a))) (packet_key p) = None"
proof -
  obtain cs where cs: "fs = frag_list stamp (pk_header p) 0 cs" "cs \<noteq> []" "concat cs = pk_payload p"
      "\<forall>c \<in> set (butlast cs). 8 dvd length c" "length cs = 1 \<or> [] \<notin> set cs"
    using fragments_shape [OF assms(1)] by metis
  let ?F = "map fragment_of fs" and ?mine = "filter (\<lambda>g. packet_key g = packet_key p)"
  have F: "complete_family ?F" unfolding cs(1) by (rule frags_complete [OF cs(2,4,5)])
  have len: "length (?mine gs) = length fs" using assms(2) by (metis size_mset)
  have "?mine gs \<noteq> []" using len cs(1,2) by force
  moreover have "mset (waiting a (packet_key p)) + image_mset fragment_of (mset (?mine gs)) = mset ?F"
    unfolding assms(2) using assms(3) by (simp add: waiting_def)
  ultimately have "results_for (packet_key p) (fst (arrivals now gs a)) =
        replicate (length fs - 1) None @ [Some (assembled now ?F)] \<and>
      map_of (as_fragments (snd (arrivals now gs a))) (packet_key p) = None"
    using arrivals_complete [OF F, of a "packet_key p" gs now] len by simp
  then show ?thesis
    using frags_assembled [OF cs(2), of now stamp "pk_header p"] cs(3) unfolding cs(1)
    by (intro exI [of _ "assembled now (map fragment_of (frag_list stamp (pk_header p) 0 cs))"])
      (simp add: packet_key_def is_fragment_def)
qed

theorem reassembly_any_order_witness:
  "\<exists>f1 f2 q. fragment_packet (\<lambda>_. 0 :: nat) 1500 big_packet = Some [f1, f2] \<and>
     map snd (fst (arrivals 0 [f2, f1] assembler_new)) = [None, Some q] \<and> pk_payload q = pk_payload big_packet"
proof -
  have "pieces 1480 (replicate 1481 7) = [replicate 1480 7, [7]]"
    by (simp add: pieces_long pieces_short)
  then have f: "fragment_packet (\<lambda>_. 0 :: nat) 1500 big_packet =
      Some (frag_list (\<lambda>_. 0 :: nat) (pk_header big_packet) 0 [replicate 1480 7, [7]])"
    by (simp add: fragment_packet_def big_packet_def ip_packet_new_def default_header_def max_payload_of_def
        ip_header_length_def fragment_loop_pieces)
  obtain f1 f2 where fs: "frag_list (\<lambda>_. 0 :: nat) (pk_header big_packet) 0 [replicate 1480 7, [7]] = [f1, f2]"
      "packet_key f1 = packet_key big_packet" "packet_key f2 = packet_key big_packet"
    by (simp add: ip_packet_new_def packet_key_def)
  have "\<exists>q. results_for (packet_key big_packet) (fst (arrivals 0 [f2, f1] assembler_new)) = [None, Some q] \<and>
      pk_payload q = pk_payload big_packet"
    using reassembly_any_order [OF f, of "[f2, f1]" assembler_new 0] fs
    by (auto simp: assembler_new_def add_mset_commute)
  then show ?thesis
    unfolding f fs(1) using fs(2,3)
    by (auto simp: results_for_def arrivals_Cons)
qed

end
