(* ===== verification/Ip_Router.thy ===== *)
theory Ip_Router
  imports Ip_Wire Ip_Fragments
begin

text \<open>
  The IPv4 protocol object as a state machine: the runs of its operations, the invariant of the routing
  table and of the assembler, the routes it chooses, the accounts of its statistics, and the way of a
  packet from \<^verbatim>\<open>send_packet\<close> over the wire to the handler of the receiver.
\<close>

section \<open>Runs\<close>

text \<open>The operations that configure the object or send.\<close>

inductive ip_config :: "'t ip_protocol \<Rightarrow> 't ip_protocol \<Rightarrow> bool" where
  config_start: "ip_config s (ip_start s)"
| config_stop: "ip_config s (snd (ip_stop expired s))"
| config_register: "ip_config s (snd (register_protocol num handler s))"
| config_unregister: "ip_config s (snd (unregister_protocol num s))"
| config_add_route: "ip_config s (snd (add_route network gateway interface metric s))"
| config_remove_route: "ip_config s (snd (remove_route network s))"
| config_gateway: "ip_config s (set_default_gateway gateway s)"
| config_add_local: "ip_config s (snd (add_local_ip ip s))"
| config_remove_local: "ip_config s (snd (remove_local_ip ip s))"
| config_add_filter: "ip_config s (add_filter f s)"
| config_remove_filter: "ip_config s (snd (remove_filter f s))"
| config_create: "ip_config s (snd (create_packet now src dst proto data time_to_live service df s))"
| config_send: "send_packet stamp p s = Some (b, raws, s') \<Longrightarrow> ip_config s s'"

text \<open>A state with the events so far and the number of received packets that ended in an exception.\<close>

inductive ip_reach :: "'t ip_protocol \<Rightarrow> 't ip_event list \<Rightarrow> int \<Rightarrow> bool" where
  reach_initial: "0 \<le> start \<Longrightarrow> start < 65536 \<Longrightarrow> ip_reach (ip_protocol_new start) [] 0"
| reach_config: "ip_reach s evs raised \<Longrightarrow> ip_config s s' \<Longrightarrow> ip_reach s' evs raised"
| reach_receive:
    "ip_reach s evs raised \<Longrightarrow> receive_packet run_filter run_handler now p s = (res, new, s') \<Longrightarrow>
     ip_reach s' (evs @ new) (raised + (if res \<noteq> Inr () \<and> new = [] then 1 else 0))"

section \<open>The invariant\<close>

definition route_ok :: "ip_route \<Rightarrow> bool" where
  "route_ok r \<longleftrightarrow>
     rt_prefixlen r = net_prefixlen (rt_network r) \<and> rt_prefixlen r \<le> 32 \<and>
     0 \<le> net_address (rt_network r) \<and> net_address (rt_network r) < 2 ^ 32 \<and>
     net_address (rt_network r) AND netmask_of (rt_prefixlen r) = net_address (rt_network r)"

definition routes_ok :: "ip_route list \<Rightarrow> bool" where
  "routes_ok rs \<longleftrightarrow> sorted (map (\<lambda>r. - int (rt_prefixlen r)) rs) \<and> list_all route_ok rs"

definition assembler_ok :: "'t assembler \<Rightarrow> bool" where
  "assembler_ok a \<longleftrightarrow> list_all (\<lambda>(_, fs). fs \<noteq> []) (as_fragments a)"

definition ip_inv :: "'t ip_protocol \<Rightarrow> bool" where
  "ip_inv s \<longleftrightarrow> routes_ok (ip_routes s) \<and> assembler_ok (ip_assembler s) \<and> ip_mtu s = 1500 \<and>
     ip_default_ttl s = 64 \<and> 0 \<le> ip_identification s \<and> ip_identification s < 65536"

lemma netmask_idem:
  "(n AND netmask_of p) AND netmask_of p = n AND netmask_of p"
  by (simp add: and.assoc)

lemma bit_netmask_bounds:
  assumes "0 \<le> n" and "n < 2 ^ 32"
  shows "0 \<le> n AND netmask_of p" and "n AND netmask_of p < 2 ^ 32"
proof -
  show "0 \<le> n AND netmask_of p" using assms(1) by simp
  show "n AND netmask_of p < 2 ^ 32" using assms AND_upper1 [of n "netmask_of p"] by simp
qed

lemma parse_network_route_ok:
  assumes "parse_network network = Inr net"
  shows "route_ok \<lparr>rt_network = net, rt_gateway = g, rt_interface = i, rt_metric = m, rt_prefixlen = net_prefixlen net\<rparr>"
  using assms
  by (rule parse_network_Inr) (simp add: route_ok_def netmask_idem bit_netmask_bounds)

lemma drop_route_subseq: "sorted (map f rs) \<Longrightarrow> sorted (map f (snd (drop_route network rs)))"
  "set (snd (drop_route network rs)) \<subseteq> set rs"
proof (induction rs)
  case (Cons r rs)
  { case 1
    have "set (snd (drop_route network rs)) \<subseteq> set rs" by fact
    with 1 Cons(1) show ?case by (auto split: prod.split)
  next
    case 2
    with Cons(2) show ?case by (auto split: prod.split)
  }
qed simp_all

lemma add_fragment_ok: "assembler_ok a \<Longrightarrow> assembler_ok (snd (add_fragment now p a))"
proof -
  have update: "list_all P (AList.update k v xs)" if "list_all P xs" "P (k, v)" for P k v and xs :: "('k \<times> 'v) list"
    using that by (induction xs) auto
  have twice: "AList.update k w (AList.update k v xs) = AList.update k w xs" for k v w and xs :: "('k \<times> 'v) list"
    by (induction xs) auto
  have delete: "list_all P (AList.delete k xs)" if "list_all P xs" for P k and xs :: "('k \<times> 'v) list"
    using that by (simp add: AList.delete_eq list_all_iff)
  assume ok: "assembler_ok a"
  then have "fs \<noteq> []" if "map_of (as_fragments a) k = Some fs" for k fs
    using map_of_SomeD [OF that] by (auto simp: assembler_ok_def list_all_iff)
  then show ?thesis
    using ok
    by (auto simp: add_fragment_def try_assemble_def assembler_ok_def twice Let_def update_conv'
        intro!: update delete split: option.split)
qed

lemma cleanup_ok: "assembler_ok a \<Longrightarrow> assembler_ok (snd (assembler_cleanup expired a))"
proof -
  have one: "list_all P (AList.delete k xs)" if "list_all P xs" for P k and xs :: "('k \<times> 'v) list"
    using that by (simp add: AList.delete_eq list_all_iff)
  have delete: "list_all P (fold AList.delete ks xs)" if "list_all P xs" for P ks and xs :: "('k \<times> 'v) list"
    using that by (induction ks arbitrary: xs) (simp_all add: one)
  assume "assembler_ok a"
  then show ?thesis by (auto simp: assembler_cleanup_def assembler_ok_def Let_def intro!: delete)
qed

text \<open>What receiving a packet does not touch.\<close>

lemmas receive_defs =
  receive_packet_def accept_packet_def hand_over_def forward_packet_def

lemma receive_keeps:
  assumes "receive_packet run_filter run_handler now p s = (res, new, s')"
  shows "ip_routes s' = ip_routes s" and "ip_local_ips s' = ip_local_ips s" and "ip_handlers s' = ip_handlers s"
    and "ip_filters s' = ip_filters s" and "ip_default_gateway s' = ip_default_gateway s"
    and "ip_mtu s' = ip_mtu s" and "ip_default_ttl s' = ip_default_ttl s"
    and "ip_identification s' = ip_identification s"
  using assms
  by (auto simp: receive_defs Let_def res_bind_def split: sum.splits bool.splits if_splits prod.splits option.splits)

lemma receive_assembler:
  assumes "receive_packet run_filter run_handler now p s = (res, new, s')"
  shows "ip_assembler s' = ip_assembler s \<or> ip_assembler s' = snd (add_fragment now p (ip_assembler s))"
  using assms
  by (auto simp: receive_defs Let_def res_bind_def split: sum.splits bool.splits if_splits prod.splits option.splits)

lemma ip_inv_receive:
  "ip_inv s \<Longrightarrow> receive_packet run_filter run_handler now p s = (res, new, s') \<Longrightarrow> ip_inv s'"
  using receive_keeps [of run_filter run_handler now p s res new s']
    receive_assembler [of run_filter run_handler now p s res new s'] add_fragment_ok [of "ip_assembler s" now p]
  by (auto simp: ip_inv_def)

lemma ip_inv_config: "ip_config s s' \<Longrightarrow> ip_inv s \<Longrightarrow> ip_inv s'"
proof (induction rule: ip_config.induct)
  case (config_stop s expired)
  then show ?case
    using cleanup_ok [of "ip_assembler s" expired] by (auto simp: ip_inv_def ip_stop_def Let_def split: prod.split)
next
  case (config_add_route s network gateway interface metric)
  then show ?case
    using parse_network_route_ok [of network]
    by (auto simp: ip_inv_def add_route_def routes_ok_def Let_def list_all_iff split: sum.split)
next
  case (config_remove_route s network)
  then show ?case
    using drop_route_subseq [where rs = "ip_routes s" and network = network]
    by (auto simp: ip_inv_def remove_route_def routes_ok_def list_all_iff split: prod.split)
next
  case (config_send stamp p s b raws s')
  then show ?case by (auto simp: ip_inv_def send_packet_def Let_def split: if_splits)
qed (auto simp: ip_inv_def ip_start_def register_protocol_def unregister_protocol_def set_default_gateway_def
    add_local_ip_def remove_local_ip_def add_filter_def remove_filter_def create_packet_def
    next_identification_def split: sum.split)

lemma ip_reach_inv: "ip_reach s evs raised \<Longrightarrow> ip_inv s"
proof (induction rule: ip_reach.induct)
  case (reach_initial start)
  then show ?case
    by (simp add: ip_inv_def ip_protocol_new_def routes_ok_def assembler_ok_def assembler_new_def)
qed (auto intro: ip_inv_config ip_inv_receive)

section \<open>Routing\<close>

lemma find_first:
  "find P xs = Some x \<Longrightarrow> sorted (map f xs) \<Longrightarrow> P x \<and> x \<in> set xs \<and> (\<forall>y \<in> set xs. P y \<longrightarrow> f x \<le> f y)"
  by (induction xs) (auto split: if_splits)

lemma in_network_prefix:
  assumes "route_ok r" and "0 \<le> n" and "n < 2 ^ 32"
  shows "in_network n (rt_network r) \<longleftrightarrow>
    n div 2 ^ (32 - rt_prefixlen r) = net_address (rt_network r) div 2 ^ (32 - rt_prefixlen r)"
  using assms netmask_agree [of "rt_prefixlen r" n "net_address (rt_network r)"]
  by (auto simp: route_ok_def in_network_def)

text \<open>
  C12. Routing is by longest prefix: in every reachable state, for a destination that parses, the route
  that \<^verbatim>\<open>_forward_packet\<close> takes is in the table, agrees with the destination on the bits of its prefix,
  and no other route that agrees has a longer prefix; the default gateway is taken only when it is set
  and no route agrees, and the packet goes nowhere only when neither is there.
\<close>
theorem longest_prefix_match:
  assumes "ip_reach s evs raised" and "parse_ip4 dst = Inr n"
  defines "agrees \<equiv> \<lambda>r. n div 2 ^ (32 - rt_prefixlen r) = net_address (rt_network r) div 2 ^ (32 - rt_prefixlen r)"
  shows "case forward_packet dst s of
      Inl e \<Rightarrow> False
    | Inr (Via r) \<Rightarrow> r \<in> set (ip_routes s) \<and> agrees r \<and>
        (\<forall>r' \<in> set (ip_routes s). agrees r' \<longrightarrow> rt_prefixlen r' \<le> rt_prefixlen r)
    | Inr (ViaDefault g) \<Rightarrow> (\<forall>r \<in> set (ip_routes s). \<not> agrees r) \<and> ip_default_gateway s = Some g \<and> g \<noteq> []
    | Inr NoRoute \<Rightarrow> (\<forall>r \<in> set (ip_routes s). \<not> agrees r) \<and> ip_default_gateway s \<in> {None, Some []}"
proof -
  have rs: "sorted (map (\<lambda>r. - int (rt_prefixlen r)) (ip_routes s))" "\<forall>r \<in> set (ip_routes s). route_ok r"
    using ip_reach_inv [OF assms(1)] by (auto simp: ip_inv_def routes_ok_def list_all_iff)
  have match: "\<forall>r \<in> set (ip_routes s). in_network n (rt_network r) = agrees r"
    using rs(2) in_network_prefix parse_ip4_Inr(1,2) [OF assms(2)] by (simp add: agrees_def)
  show ?thesis
  proof (cases "find_route n (ip_routes s)")
    case None
    then have "\<forall>r \<in> set (ip_routes s). \<not> agrees r"
      using match by (auto simp: find_route_def find_None_iff)
    then show ?thesis
      using None assms(2) by (auto simp: forward_packet_def split: option.split)
  next
    case (Some r)
    then show ?thesis
      using find_first [of "\<lambda>r. in_network n (rt_network r)", OF Some [unfolded find_route_def] rs(1)] match assms(2)
      by (auto simp: forward_packet_def)
  qed
qed

definition two_routes :: "nat ip_protocol" where
  "two_routes =
     snd (add_route ''10.0.0.0/8'' ''10.0.0.1'' ''eth0'' 0
       (snd (add_route ''10.1.2.3/16'' ''10.1.0.1'' ''eth1'' 0 (ip_protocol_new 7))))"

lemma two_routes_reach: "ip_reach two_routes [] 0"
  unfolding two_routes_def
  by (intro reach_config [OF _ config_add_route] reach_initial) simp_all

theorem longest_prefix_match_witness:
  "\<exists>r. forward_packet ''10.1.9.9'' two_routes = Inr (Via r) \<and> rt_prefixlen r = 16"
proof -
  have ip: "parse_ip4 ''10.1.9.9'' = Inr 0x0A010909" by code_simp
  have nets: "parse_network ''10.0.0.0/8'' = Inr \<lparr>net_address = 0x0A000000, net_prefixlen = 8\<rparr>"
    "parse_network ''10.1.2.3/16'' = Inr \<lparr>net_address = 0x0A010000, net_prefixlen = 16\<rparr>"
    by code_simp+
  have "ip_routes two_routes =
     [\<lparr>rt_network = \<lparr>net_address = 0x0A010000, net_prefixlen = 16\<rparr>, rt_gateway = ''10.1.0.1'', rt_interface = ''eth1'',
       rt_metric = 0, rt_prefixlen = 16\<rparr>,
      \<lparr>rt_network = \<lparr>net_address = 0x0A000000, net_prefixlen = 8\<rparr>, rt_gateway = ''10.0.0.1'', rt_interface = ''eth0'',
       rt_metric = 0, rt_prefixlen = 8\<rparr>]"
    by (simp add: two_routes_def add_route_def nets ip_protocol_new_def)
  with longest_prefix_match [OF two_routes_reach ip] show ?thesis
    by (auto split: sum.splits route_choice.splits)
qed

section \<open>The accounts\<close>

text \<open>Packets that the statistics account for, and those handed to a local handler, known or not.\<close>

definition accounted :: "ip_stats \<Rightarrow> int" where
  "accounted st =
     st_checksum_errors st + st_ttl_exceeded st + st_packets_dropped st +
     (st_fragments_received st - st_fragments_reassembled st) + st_packets_forwarded st"

fun is_local :: "'t ip_event \<Rightarrow> bool" where
  "is_local (Forwarded _ _) = False"
| "is_local _ = True"

definition locals :: "'t ip_event list \<Rightarrow> int" where
  "locals evs = ilen (filter is_local evs)"

definition forwards :: "'t ip_event list \<Rightarrow> int" where
  "forwards evs = ilen (filter (\<lambda>e. \<not> is_local e) evs)"

lemma events_append [simp]:
  "locals (xs @ ys) = locals xs + locals ys" "forwards (xs @ ys) = forwards xs + forwards ys"
  by (simp_all add: locals_def forwards_def)

lemma events_Nil [simp]: "locals [] = 0" "forwards [] = 0"
  by (simp_all add: locals_def forwards_def)

text \<open>One packet more is accounted for, or the call has raised without an event.\<close>

definition one_more :: "ip_stats \<Rightarrow> unit result \<times> 't ip_event list \<times> 't ip_protocol \<Rightarrow> bool" where
  "one_more st = (\<lambda>(res, new, s').
     accounted (ip_stats s') + locals new + (if res \<noteq> Inr () \<and> new = [] then 1 else 0) = accounted st + 1 \<and>
     st_packets_forwarded (ip_stats s') = st_packets_forwarded st + forwards new \<and>
     st_packets_received (ip_stats s') = st_packets_received st)"

lemma one_more_cong:
  "one_more st r \<Longrightarrow> accounted st = accounted st' \<Longrightarrow> st_packets_forwarded st = st_packets_forwarded st' \<Longrightarrow>
   st_packets_received st = st_packets_received st' \<Longrightarrow> one_more st' r"
  by (simp add: one_more_def case_prod_beta)

lemma hand_over_account: "one_more (ip_stats s) (hand_over run_handler p s)"
  by (auto simp: hand_over_def one_more_def accounted_def locals_def forwards_def split: option.splits sum.splits)

lemma accept_account: "one_more (ip_stats s) (accept_packet run_handler now p s)"
proof (cases "is_fragment (pk_header p)")
  case True
  obtain whole a where added: "add_fragment now p (ip_assembler s) = (whole, a)" by (cases "add_fragment now p (ip_assembler s)")
  show ?thesis
  proof (cases whole)
    case None
    then show ?thesis using True added by (simp add: accept_packet_def Let_def one_more_def accounted_def)
  next
    case (Some q)
    then show ?thesis
      using True added
      by (simp add: accept_packet_def Let_def) (rule one_more_cong [OF hand_over_account], simp_all add: accounted_def)
  qed
qed (simp add: accept_packet_def hand_over_account)

lemma receive_account:
  "one_more ((ip_stats s)\<lparr>st_packets_received := st_packets_received (ip_stats s) + 1\<rparr>)
    (receive_packet run_filter run_handler now p s)"
proof -
  define s1 where "s1 = bump (\<lambda>st. st\<lparr>st_packets_received := st_packets_received st + 1\<rparr>) s"
  have "one_more (ip_stats s1) (receive_packet run_filter run_handler now p s)"
    using accept_account [of s1]
    by (auto simp: receive_packet_def Let_def s1_def [symmetric] one_more_def accounted_def split: sum.split bool.split)
  then show ?thesis by (simp add: s1_def)
qed

lemma config_account: "ip_config s s' \<Longrightarrow>
  accounted (ip_stats s') = accounted (ip_stats s) \<and>
  st_packets_forwarded (ip_stats s') = st_packets_forwarded (ip_stats s) \<and>
  st_packets_received (ip_stats s') = st_packets_received (ip_stats s)"
proof (induction rule: ip_config.induct)
  case (config_send stamp p s b raws s')
  then show ?case by (auto simp: send_packet_def Let_def accounted_def split: if_splits)
qed (auto simp: ip_start_def ip_stop_def register_protocol_def unregister_protocol_def add_route_def
    remove_route_def set_default_gateway_def add_local_ip_def remove_local_ip_def add_filter_def
    remove_filter_def create_packet_def next_identification_def Let_def split: sum.split prod.split)

text \<open>
  The accounts of the receiver: in every run, each received packet is counted once, as a checksum
  error, as expired, as dropped by a filter, as a fragment that waits or was merged, as forwarded, as
  handed to a local handler or, outside the statistics, as a call that raised before it got that far;
  and \<^verbatim>\<open>packets_forwarded\<close> counts all packets for other hosts, those without a route as well.
\<close>
theorem receive_accounts:
  assumes "ip_reach s evs raised"
  shows "st_packets_received (ip_stats s) = accounted (ip_stats s) + locals evs + raised \<and>
    st_packets_forwarded (ip_stats s) = forwards evs"
  using assms
proof (induction rule: ip_reach.induct)
  case (reach_initial start)
  then show ?case by (simp add: ip_protocol_new_def accounted_def locals_def forwards_def)
next
  case (reach_config s evs raised s')
  then show ?case using config_account by fastforce
next
  case (reach_receive s evs raised run_filter run_handler now p res new s')
  then show ?case
    using receive_account [of s run_filter run_handler now p]
    by (simp add: one_more_def accounted_def)
qed

theorem receive_accounts_witness:
  "st_packets_forwarded (ip_stats two_routes) = 0"
  using receive_accounts [OF two_routes_reach] by (simp add: forwards_def)

end
