(* ===== verification/Ip_Delivery.thy ===== *)
theory Ip_Delivery
  imports Ip_Router
begin

text \<open>
  A packet on its whole way: \<^verbatim>\<open>create_packet\<close> and \<^verbatim>\<open>send_packet\<close> at the sender, the binary form of each
  packet sent, \<^verbatim>\<open>decode\<close> and \<^verbatim>\<open>receive_packet\<close> at the receiver, with the packets arriving in any order.
\<close>

section \<open>One packet over the wire\<close>

definition transmit :: "'t \<Rightarrow> 't ip_packet \<Rightarrow> 't ip_packet result" where
  "transmit now p = res_bind (fst (packet_encode p)) (packet_decode now)"

definition sendable :: "'t ip_packet \<Rightarrow> bool" where
  "sendable p \<longleftrightarrow>
     (let h = pk_header p
      in version h = 4 \<and> ihl h = 5 \<and> ip_options h = [] \<and> header_checksum h = 0 \<and>
         tos h \<in> {0..<256} \<and> identification h \<in> {0..<65536} \<and> ip_flags h \<in> {0..<8} \<and>
         fragment_offset h \<in> {0..<8192} \<and> ttl h \<in> {0..<256} \<and> protocol h \<in> {0..<256} \<and>
         (\<exists>src. parse_ip4 (src_ip h) = Inr src) \<and> (\<exists>dst. parse_ip4 (dst_ip h) = Inr dst) \<and>
         length (pk_payload p) \<le> 65515)"

text \<open>The packet at the other end, with the checksum of the wire.\<close>

definition over_wire :: "'t \<Rightarrow> int \<Rightarrow> 't ip_packet \<Rightarrow> 't ip_packet" where
  "over_wire now c p =
     ip_packet_new now ((pk_header p)\<lparr>total_length := packet_size p, header_checksum := c\<rparr>) (pk_payload p)"

lemma transmit_sendable:
  assumes "sendable p"
  obtains c where "transmit now p = Inr (over_wire now c p)"
    and "ip_verify_checksum (pk_header (over_wire now c p)) = Inr True"
proof -
  define h where "h = (pk_header p)\<lparr>total_length := packet_size p\<rparr>"
  obtain src dst where addrs: "parse_ip4 (src_ip h) = Inr src" "parse_ip4 (dst_ip h) = Inr dst"
    using assms by (auto simp: sendable_def h_def Let_def)
  have h: "narrow h" "ip_fits h" "version h = 4" "5 \<le> ihl h" "ilen (ip_options h) \<le> 4 * ihl h - 20"
      "header_checksum h = 0" and pad: "padded_options h = []" and size: "total_length h = 20 + ilen (pk_payload p)"
    using assms by (simp_all add: sendable_def h_def Let_def narrow_def ip_fits_def packet_size_def
        ip_header_length_def padded_options_def)
  let ?c = "wire_checksum h src dst"
  define bs where "bs = ip_fields h ?c src dst @ padded_options h"
  note wire = ip_header_wire [OF h(1-5) addrs, folded bs_def]
  have dec: "ip_decode (bs @ pk_payload p) = Inr (arrived h ?c [])" using wire(3) by (simp add: pad)
  have "ilen bs = 20" by (simp add: bs_def pad)
  then have slice: "py_slice (bs @ pk_payload p) 20 (20 + ilen (pk_payload p)) = pk_payload p"
    using slice_at [of bs "pk_payload p" "[]"] by simp
  have hlen: "ip_header_length (arrived h ?c []) = 20" "total_length (arrived h ?c []) = 20 + ilen (pk_payload p)"
    using assms size by (simp_all add: arrived_def ip_header_length_def h_def sendable_def Let_def)
  have "arrived h ?c [] = pk_header (over_wire now ?c p)"
    using assms by (simp add: over_wire_def arrived_def h_def ip_packet_new_def sendable_def Let_def)
  moreover have "transmit now p = Inr (ip_packet_new now (arrived h ?c []) (pk_payload p))"
    using wire(1) dec slice hlen
    by (simp add: transmit_def packet_encode_def packet_decode_def h_def [symmetric] Let_def)
  ultimately show thesis
    using wire(5) [OF h(6)] by (intro that [of ?c]) (simp_all add: pad over_wire_def ip_packet_new_def)
qed

section \<open>Receiving several packets\<close>

fun receive_all ::
  "(string \<Rightarrow> 't ip_packet \<Rightarrow> bool result) \<Rightarrow> (string \<Rightarrow> 't ip_packet \<Rightarrow> unit result) \<Rightarrow> 't \<Rightarrow>
   't ip_packet list \<Rightarrow> 't ip_protocol \<Rightarrow> 't ip_event list \<times> 't ip_protocol" where
  "receive_all run_filter run_handler now [] s = ([], s)"
| "receive_all run_filter run_handler now (g # gs) s =
     (let (_, new, s1) = receive_packet run_filter run_handler now g s;
          (evs, s2) = receive_all run_filter run_handler now gs s1
      in (new @ evs, s2))"

lemma receive_accepted:
  assumes "ip_filters s = []" and "ip_verify_checksum (pk_header g) = Inr True" and "0 < ttl (pk_header g)"
  shows "receive_packet run_filter run_handler now g s = accept_packet run_handler now g
    (bump (\<lambda>st. st\<lparr>st_packets_received := st_packets_received st + 1\<rparr>) s)"
  using assms by (simp add: receive_packet_def Let_def)

definition delivered :: "string \<Rightarrow> 't ip_packet option \<Rightarrow> 't ip_event list" where
  "delivered handler r = (case r of None \<Rightarrow> [] | Some q \<Rightarrow> [Delivered handler q])"

text \<open>Fragments for this host reach the handler as the assembler completes packets.\<close>

lemma receive_fragments:
  fixes s :: "'t ip_protocol"
  assumes "\<forall>g \<in> set gs. is_fragment (pk_header g) \<and> ip_verify_checksum (pk_header g) = Inr True \<and> 0 < ttl (pk_header g)"
    and "ip_filters s = []"
    and "\<forall>q. Some q \<in> set (map snd (fst (arrivals now gs (ip_assembler s)))) \<longrightarrow>
      is_local_ip (dst_ip (pk_header q)) s \<and> map_of (ip_handlers s) (protocol (pk_header q)) = Some handler"
  shows "fst (receive_all run_filter run_handler now gs s) =
      concat (map (delivered handler) (map snd (fst (arrivals now gs (ip_assembler s))))) \<and>
    ip_assembler (snd (receive_all run_filter run_handler now gs s)) = snd (arrivals now gs (ip_assembler s))"
  using assms
proof (induction gs arbitrary: s)
  case (Cons g gs)
  obtain res new s1 where step: "receive_packet run_filter run_handler now g s = (res, new, s1)"
    by (cases "receive_packet run_filter run_handler now g s") auto
  obtain whole a where added: "add_fragment now g (ip_assembler s) = (whole, a)"
    by (cases "add_fragment now g (ip_assembler s)")
  have "\<forall>q. whole = Some q \<longrightarrow> is_local_ip (dst_ip (pk_header q)) s \<and>
      map_of (ip_handlers s) (protocol (pk_header q)) = Some handler"
    using Cons.prems(3) added by (simp add: arrivals_Cons)
  then have s1: "new = delivered handler whole" "ip_assembler s1 = a"
    using Cons.prems(1,2) step added
    by (auto simp: receive_accepted accept_packet_def hand_over_def Let_def delivered_def is_local_ip_def split: option.splits)
  have keep: "ip_filters s1 = ip_filters s" "ip_local_ips s1 = ip_local_ips s" "ip_handlers s1 = ip_handlers s"
    using receive_keeps [OF step] by simp_all
  have "fst (receive_all run_filter run_handler now gs s1) =
      concat (map (delivered handler) (map snd (fst (arrivals now gs (ip_assembler s1))))) \<and>
    ip_assembler (snd (receive_all run_filter run_handler now gs s1)) = snd (arrivals now gs (ip_assembler s1))"
    using Cons.prems added keep s1(2) by (intro Cons.IH) (auto simp: arrivals_Cons is_local_ip_def)
  then show ?case
    using s1 added
    by (cases "receive_all run_filter run_handler now gs s1") (simp add: step arrivals_Cons)
qed simp

section \<open>From sender to receiver\<close>

lemma complete_family_over:
  assumes "\<And>f. fr_offset (u f) = fr_offset f \<and> fr_more (u f) = fr_more f \<and> fr_data (u f) = fr_data f"
  shows "complete_family (map u F) = complete_family F"
proof -
  have "contiguous e (map u F) = contiguous e F" for e
    using assms by (induction e F rule: contiguous.induct) simp_all
  then show ?thesis
    using assms by (cases "F = []") (simp_all add: complete_family_def last_map map_butlast [symmetric])
qed

lemma over_wire_simps [simp]:
  "pk_payload (over_wire now c p) = pk_payload p" "packet_key (over_wire now c p) = packet_key p"
  "ttl (pk_header (over_wire now c p)) = ttl (pk_header p)"
  "is_fragment (pk_header (over_wire now c p)) = is_fragment (pk_header p)"
  "src_ip (pk_header (over_wire now c p)) = src_ip (pk_header p)"
  "dst_ip (pk_header (over_wire now c p)) = dst_ip (pk_header p)"
  "protocol (pk_header (over_wire now c p)) = protocol (pk_header p)"
  "identification (pk_header (over_wire now c p)) = identification (pk_header p)"
  by (simp_all add: over_wire_def ip_packet_new_def packet_key_def is_fragment_def is_mf_def)

lemma fragment_of_over_wire:
  "fragment_of (over_wire now c p) = (fragment_of p)\<lparr>fr_packet := over_wire now c p\<rparr>"
  by (simp add: fragment_of_def over_wire_def ip_packet_new_def is_mf_def)

text \<open>The fragments that a sendable packet is cut into.\<close>

lemma frag_list_sendable:
  assumes "sendable p" and "fs = frag_list stamp (pk_header p) 0 cs" and "concat cs = pk_payload p"
    and "[] \<notin> set cs" and "2 \<le> length cs" and "\<forall>c \<in> set (butlast cs). 8 dvd length c" and "f \<in> set fs"
  shows "sendable f" and "is_fragment (pk_header f)" and "packet_key f = packet_key p" and "ttl (pk_header f) = ttl (pk_header p)"
proof -
  obtain i where i: "i < length cs" "f = fs ! i" using assms(2,7) by (auto simp: in_set_conv_nth)
  let ?o = "ilen (concat (take i cs))"
  have f: "f = ip_packet_new (stamp ?o) (frag_header (pk_header p) ?o (Suc i < length cs)) (cs ! i)"
    using i assms(2) by (simp add: nth_frag_list Let_def)
  have split: "pk_payload p = concat (take i cs) @ cs ! i @ concat (drop (Suc i) cs)"
    using assms(3) id_take_nth_drop [OF i(1)] by (metis concat.simps(2) concat_append)
  then have size: "length (concat (take i cs)) + length (cs ! i) \<le> 65515"
    using assms(1) by (simp add: sendable_def Let_def)
  have "0 \<le> ?o div 8" "?o div 8 < 8192" using size by linarith+
  then show "sendable f"
    using assms(1) size unfolding f
    by (simp add: sendable_def Let_def ip_packet_new_def, simp add: frag_header_def default_header_def)
  show "is_fragment (pk_header f)"
  proof (cases "Suc i < length cs")
    case False
    then have "0 < i" using i(1) assms(5) by simp
    then have "cs ! 0 \<in> set (take i cs)" using i(1) by (auto simp: in_set_conv_nth)
    moreover have "cs ! 0 \<noteq> []" using assms(4) i(1) \<open>0 < i\<close> by (metis nth_mem order.strict_trans)
    ultimately have "concat (take i cs) \<noteq> []" by auto
    moreover have "8 dvd length (concat (take i cs))" by (rule concat_aligned [OF assms(6) i(1)])
    ultimately have "0 < length (concat (take i cs)) div 8"
      using dvd_imp_le [of 8 "length (concat (take i cs))"] by (simp add: div_greater_zero_iff)
    then have "0 < ?o div 8" by (simp add: zdiv_int [symmetric])
    then show ?thesis unfolding f by (simp add: ip_packet_new_def is_fragment_def)
  qed (simp add: f ip_packet_new_def is_fragment_def)
  show "packet_key f = packet_key p" "ttl (pk_header f) = ttl (pk_header p)"
    by (simp_all add: f ip_packet_new_def packet_key_def)
qed

lemma send_packet_cases:
  assumes "send_packet stamp p s = Some (b, raws, s')"
  shows "raws = [p] \<or>
    packet_size p > ip_mtu s \<and> \<not> is_df (pk_header p) \<and> fragment_packet stamp (ip_mtu s) p = Some raws"
  using assms by (auto simp: send_packet_def Let_def split: if_splits)

lemma fragments_at_least_two:
  assumes "concat cs = pk_payload p" and "cs \<noteq> []" and "packet_size p > mtu"
    and "0 < max_payload_of mtu (pk_header p) \<longrightarrow> (\<forall>c \<in> set cs. ilen c \<le> max_payload_of mtu (pk_header p))"
    and "ip_header_length (pk_header p) + 8 \<le> mtu"
  shows "2 \<le> length cs"
proof (rule ccontr)
  assume "\<not> 2 \<le> length cs"
  moreover have "length cs \<noteq> 0" using assms(2) by simp
  ultimately have "length cs = 1" by linarith
  then have cs: "cs = [pk_payload p]" using assms(1) by (auto simp: length_Suc_conv)
  have "ilen (pk_payload p) \<le> max_payload_of mtu (pk_header p)"
    using assms(4,5) room_for_payload [of mtu "pk_header p"] by (simp add: cs)
  moreover have "max_payload_of mtu (pk_header p) \<le> mtu - ip_header_length (pk_header p)"
    by (simp add: max_payload_of_def Let_def)
  ultimately show False using assms(3) by (simp add: packet_size_def)
qed

lemma results_for_all:
  "\<forall>g \<in> set gs. packet_key g = key \<Longrightarrow>
   results_for key (fst (arrivals now gs a)) = map snd (fst (arrivals now gs a))"
proof (induction gs arbitrary: a)
  case (Cons g gs)
  then show ?case by (simp add: arrivals_Cons results_Cons)
qed (simp add: results_for_def)

text \<open>
  The fragments as they arrive at the receiver, in the order \<open>gs\<close>: the assembler returns the packet for
  the last of them.
\<close>

lemma wire_fragments_assembled:
  fixes p :: "'t ip_packet" and now :: 't and w :: "'t ip_packet \<Rightarrow> 't ip_packet"
  assumes cs: "fs = frag_list stamp (pk_header p) 0 cs" "cs \<noteq> []" "concat cs = pk_payload p"
      "\<forall>c \<in> set (butlast cs). 8 dvd length c" "length cs = 1 \<or> [] \<notin> set cs"
    and w: "\<And>f. f \<in> set fs \<Longrightarrow> \<exists>c. w f = over_wire now c f"
    and gs: "mset gs = mset fs" and none: "map_of (as_fragments a) (packet_key p) = None"
  obtains q where "map snd (fst (arrivals now (map w gs) a)) = replicate (length gs - 1) None @ [Some q]"
    and "map_of (as_fragments (snd (arrivals now (map w gs) a))) (packet_key p) = None"
    and "pk_payload q = pk_payload p" and "packet_key q = packet_key p"
proof -
  define F where "F = map fragment_of (map w fs)"
  have over: "fragment_of (w f) = (fragment_of f)\<lparr>fr_packet := w f\<rparr>" "packet_key (w f) = packet_key f"
    if "f \<in> set fs" for f
    using w [OF that] by (auto simp: fragment_of_over_wire)
  then have "F = map (\<lambda>f. f\<lparr>fr_packet := w (fr_packet f)\<rparr>) (map fragment_of fs)"
    by (simp add: F_def) (simp add: fragment_of_def)
  then have F: "complete_family F" "map fr_data F = cs"
    using complete_family_over [of "\<lambda>f. f\<lparr>fr_packet := w (fr_packet f)\<rparr>" "map fragment_of fs"]
      frags_complete [OF cs(2,4,5), of stamp "pk_header p"] frags_data [of stamp "pk_header p" 0 cs]
    by (simp_all add: cs(1) comp_def)
  have key: "packet_key f = packet_key p" if "f \<in> set fs" for f
    using that by (auto simp: cs(1) in_set_conv_nth nth_frag_list Let_def ip_packet_new_def packet_key_def)
  have set: "set gs = set fs" using gs by (metis set_mset_mset)
  have len: "length gs = length fs" using gs by (metis size_mset)
  have keys: "\<forall>g \<in> set (map w gs). packet_key g = packet_key p" using key over(2) set by simp
  then have mine: "filter (\<lambda>g. packet_key g = packet_key p) (map w gs) = map w gs" by (simp add: filter_id_conv)
  have "image_mset fragment_of (mset (map w gs)) = mset F"
    using arg_cong [OF gs, of "image_mset (fragment_of \<circ> w)"] by (simp add: F_def multiset.map_comp)
  moreover have "gs \<noteq> []" using len cs(1,2) by force
  ultimately have "results_for (packet_key p) (fst (arrivals now (map w gs) a)) =
        replicate (length gs - 1) None @ [Some (assembled now F)] \<and>
      map_of (as_fragments (snd (arrivals now (map w gs) a))) (packet_key p) = None"
    using arrivals_complete [OF F(1), of a "packet_key p" "map w gs" now] mine none by (simp add: waiting_def)
  moreover have "fs \<noteq> []" by (simp add: cs(1,2))
  then obtain f fs' where fs: "fs = f # fs'" by (meson neq_Nil_conv)
  then have "packet_key (assembled now F) = packet_key p"
    using over(2) [of f] key [of f]
    by (simp add: F_def assembled_def ip_packet_new_def packet_key_def fragment_of_def)
  moreover have "pk_payload (assembled now F) = pk_payload p"
    using F(2) cs(3) by (simp add: assembled_def ip_packet_new_def)
  ultimately show thesis
    using results_for_all [OF keys, of now a] by (intro that [of "assembled now F"]) simp_all
qed

text \<open>A packet that is sent whole.\<close>

lemma whole_delivered:
  assumes "sendable p" and "0 < ttl (pk_header p)" and "\<not> is_fragment (pk_header p)"
    and "ip_filters r = []" and "is_local_ip (dst_ip (pk_header p)) r"
    and "map_of (ip_handlers r) (protocol (pk_header p)) = Some handler"
  obtains q where "transmit now p = Inr q"
    and "fst (receive_all run_filter run_handler now [q] r) = [Delivered handler q]"
    and "ip_assembler (snd (receive_all run_filter run_handler now [q] r)) = ip_assembler r"
    and "pk_payload q = pk_payload p" and "packet_key q = packet_key p"
proof -
  obtain c where c: "transmit now p = Inr (over_wire now c p)"
      "ip_verify_checksum (pk_header (over_wire now c p)) = Inr True"
    by (rule transmit_sendable [OF assms(1)])
  show thesis
    using c assms(2-6)
    by (intro that [of "over_wire now c p"])
      (simp_all add: receive_accepted accept_packet_def hand_over_def is_local_ip_def)
qed

text \<open>A packet that is sent in fragments.\<close>

lemma fragments_delivered:
  fixes p :: "'t ip_packet" and r :: "'t ip_protocol"
  assumes "sendable p" and "0 < ttl (pk_header p)" and "fragment_packet stamp mtu p = Some fs"
    and "packet_size p > mtu" and "28 \<le> mtu" and "mset gs = mset fs"
    and "ip_filters r = []" and "is_local_ip (dst_ip (pk_header p)) r"
    and "map_of (ip_handlers r) (protocol (pk_header p)) = Some handler"
    and "map_of (as_fragments (ip_assembler r)) (packet_key p) = None"
  obtains qs q where "map (transmit now) gs = map Inr qs"
    and "fst (receive_all run_filter run_handler now qs r) = [Delivered handler q]"
    and "map_of (as_fragments (ip_assembler (snd (receive_all run_filter run_handler now qs r)))) (packet_key p) = None"
    and "pk_payload q = pk_payload p" and "packet_key q = packet_key p"
proof -
  have hl: "ip_header_length (pk_header p) + 8 \<le> mtu"
    using assms(1,5) by (simp add: sendable_def Let_def ip_header_length_def)
  obtain cs where cs: "fs = frag_list stamp (pk_header p) 0 cs" "cs \<noteq> []" "concat cs = pk_payload p"
      "\<forall>c \<in> set (butlast cs). 8 dvd length c" "length cs = 1 \<or> [] \<notin> set cs"
      "0 < max_payload_of mtu (pk_header p) \<longrightarrow> (\<forall>c \<in> set cs. ilen c \<le> max_payload_of mtu (pk_header p))"
    by (rule fragments_shape [OF assms(3)])
  have two: "2 \<le> length cs" by (rule fragments_at_least_two [OF cs(3,2) assms(4) cs(6) hl])
  with cs(5) have ne: "[] \<notin> set cs" by auto
  note frag = frag_list_sendable [OF assms(1) cs(1,3) ne two cs(4)]
  define w where "w f = projr (transmit now f)" for f
  have w: "transmit now f = Inr (w f) \<and> ip_verify_checksum (pk_header (w f)) = Inr True \<and> (\<exists>c. w f = over_wire now c f)"
    if "f \<in> set fs" for f
    using transmit_sendable [OF frag(1) [OF that], of now] by (metis w_def sum.sel(2))
  have set: "set gs = set fs" using assms(6) by (metis set_mset_mset)
  obtain q where q: "map snd (fst (arrivals now (map w gs) (ip_assembler r))) = replicate (length gs - 1) None @ [Some q]"
      "map_of (as_fragments (snd (arrivals now (map w gs) (ip_assembler r)))) (packet_key p) = None"
      "pk_payload q = pk_payload p" "packet_key q = packet_key p"
    by (rule wire_fragments_assembled [OF cs(1-5), of w now gs "ip_assembler r"]) (use w assms(6,10) in blast)+
  have "\<forall>g \<in> set (map w gs). is_fragment (pk_header g) \<and> ip_verify_checksum (pk_header g) = Inr True \<and> 0 < ttl (pk_header g)"
  proof
    fix g assume "g \<in> set (map w gs)"
    then obtain f where f: "f \<in> set fs" "g = w f" using set by auto
    moreover obtain c where "w f = over_wire now c f" using w [OF f(1)] by blast
    ultimately show "is_fragment (pk_header g) \<and> ip_verify_checksum (pk_header g) = Inr True \<and> 0 < ttl (pk_header g)"
      using w [of f] frag(2,4) [of f] assms(2) by simp
  qed
  moreover have "\<forall>q'. Some q' \<in> set (map snd (fst (arrivals now (map w gs) (ip_assembler r)))) \<longrightarrow>
      is_local_ip (dst_ip (pk_header q')) r \<and> map_of (ip_handlers r) (protocol (pk_header q')) = Some handler"
    unfolding q(1) using q(4) assms(8,9) by (auto simp: packet_key_def)
  ultimately have "fst (receive_all run_filter run_handler now (map w gs) r) = [Delivered handler q]"
      "ip_assembler (snd (receive_all run_filter run_handler now (map w gs) r)) =
        snd (arrivals now (map w gs) (ip_assembler r))"
    using receive_fragments [of "map w gs" r now handler run_filter run_handler] assms(7) q(1)
    by (simp_all add: delivered_def)
  moreover have "map (transmit now) gs = map Inr (map w gs)" using w set by simp
  ultimately show thesis using q by (intro that [of "map w gs" q]) simp_all
qed

text \<open>The packets that \<^verbatim>\<open>create_packet\<close> makes.\<close>

lemma created_sendable:
  assumes "ip_reach s evs raised"
    and "create_packet now src dst proto data time_to_live service df s = (p, s1)"
    and "parse_ip4 src = Inr m" and "parse_ip4 dst = Inr n"
    and "0 \<le> proto" "proto < 256" "time_to_live < 256" "0 \<le> service" "service < 256" "length data \<le> 65515"
  shows "sendable p" and "0 < ttl (pk_header p)" and "\<not> is_fragment (pk_header p)"
    and "pk_payload p = data" and "dst_ip (pk_header p) = dst" and "protocol (pk_header p) = proto"
    and "packet_key p = (src, dst, ip_identification s, proto)"
  using assms ip_reach_inv [OF assms(1)]
  by (auto simp: create_packet_def next_identification_def ip_inv_def sendable_def Let_def ip_packet_new_def
      default_header_def is_fragment_def is_mf_def packet_key_def)

text \<open>
  C10. From host to host: a sender in any reachable state creates a packet from addresses that parse and
  fields of their widths, with a payload of at most 65515 bytes, and sends it; the packets sent are encoded,
  arrive in any order, are decoded and received by a host that has the destination as local address, a
  handler for the protocol, no filters and no fragments under the packet's key.  Then every one decodes,
  the handler is called exactly once, with the payload and the addresses that were sent, and nothing is
  left in the assembler.
\<close>
theorem packet_delivered:
  assumes "ip_reach s evs raised"
    and "create_packet now src dst proto data time_to_live service df s = (p, s1)"
    and "send_packet stamp p s1 = Some (True, raws, s2)"
    and "parse_ip4 src = Inr m" "parse_ip4 dst = Inr n" "0 \<le> proto" "proto < 256" "time_to_live < 256"
      "0 \<le> service" "service < 256" "length data \<le> 65515"
    and "mset gs = mset raws"
    and "ip_filters r = []" and "is_local_ip dst r" and "map_of (ip_handlers r) proto = Some handler"
    and "map_of (as_fragments (ip_assembler r)) (src, dst, ip_identification s, proto) = None"
  shows "\<exists>qs q. map (transmit later) gs = map Inr qs \<and>
    fst (receive_all run_filter run_handler later qs r) = [Delivered handler q] \<and> pk_payload q = data \<and>
    src_ip (pk_header q) = src \<and> dst_ip (pk_header q) = dst \<and> protocol (pk_header q) = proto \<and>
    map_of (as_fragments (ip_assembler (snd (receive_all run_filter run_handler later qs r))))
      (src, dst, ip_identification s, proto) = None"
proof -
  note made = created_sendable [OF assms(1,2,4-11)]
  have mtu: "ip_mtu s1 = 1500"
    using ip_inv_config [OF config_create ip_reach_inv [OF assms(1)], of later src dst proto data time_to_live service df]
    assms(2) ip_reach_inv [OF assms(1)] by (auto simp: ip_inv_def create_packet_def next_identification_def)
  consider (whole) "raws = [p]" | (frags) "packet_size p > 1500" "fragment_packet stamp 1500 p = Some raws"
    using send_packet_cases [OF assms(3)] mtu by auto
  then show ?thesis
  proof cases
    case whole
    then have "gs = [p]" using assms(12) by simp
    moreover obtain q where "transmit later p = Inr q"
      "fst (receive_all run_filter run_handler later [q] r) = [Delivered handler q]"
      "ip_assembler (snd (receive_all run_filter run_handler later [q] r)) = ip_assembler r"
      "pk_payload q = pk_payload p" "packet_key q = packet_key p"
      by (rule whole_delivered [OF made(1-3) assms(13)]) (use assms(14,15) made(5,6) in simp_all)
    ultimately show ?thesis
      using made(4,7) assms(16) by (intro exI [of _ "[q]"] exI [of _ q]) (simp add: packet_key_def)
  next
    case frags
    obtain qs q where "map (transmit later) gs = map Inr qs"
      "fst (receive_all run_filter run_handler later qs r) = [Delivered handler q]"
      "map_of (as_fragments (ip_assembler (snd (receive_all run_filter run_handler later qs r)))) (packet_key p) = None"
      "pk_payload q = pk_payload p" "packet_key q = packet_key p"
      by (rule fragments_delivered [OF made(1,2) frags(2,1) _ assms(12,13)])
        (use assms(14-16) made(5-7) in simp_all)
    then show ?thesis
      using made(4,7) by (intro exI [of _ qs] exI [of _ q]) (simp add: packet_key_def)
  qed
qed

definition receiver :: "nat ip_protocol" where
  "receiver = snd (register_protocol 17 ''udp'' (snd (add_local_ip ''10.0.0.255'' (ip_protocol_new 0))))"

theorem packet_delivered_witness:
  "\<exists>raws qs q.
     send_packet (\<lambda>_. 0) (fst (create_packet 0 ''10.0.0.1'' ''10.0.0.255'' 17 (replicate 1481 7) 0 0 False (ip_protocol_new 5)))
       (snd (create_packet 0 ''10.0.0.1'' ''10.0.0.255'' 17 (replicate 1481 7) 0 0 False (ip_protocol_new 5))) =
       Some (True, raws, ip_protocol_new 6\<lparr>ip_stats := (ip_stats (ip_protocol_new 0))
         \<lparr>st_fragments_created := 2, st_packets_sent := 1\<rparr>\<rparr>) \<and>
     map (transmit 0) (rev raws) = map Inr qs \<and>
     fst (receive_all (\<lambda>_ _. Inr True) (\<lambda>_ _. Inr ()) 0 qs receiver) = [Delivered ''udp'' q] \<and>
     pk_payload q = replicate 1481 7"
proof -
  let ?c = "create_packet (0 :: nat) ''10.0.0.1'' ''10.0.0.255'' 17 (replicate 1481 7) 0 0 False (ip_protocol_new 5)"
  have two: "pieces 1480 (replicate 1481 7) = [replicate 1480 7, [7]]"
    by (simp add: pieces_long pieces_short)
  have "\<exists>raws. length raws = 2 \<and> fragment_packet (\<lambda>_. 0) 1500 (fst ?c) = Some raws"
    by (simp add: fragment_packet_def create_packet_def next_identification_def ip_packet_new_def default_header_def
        max_payload_of_def ip_header_length_def fragment_loop_pieces two)
  then obtain raws where "length raws = 2" "fragment_packet (\<lambda>_. 0) 1500 (fst ?c) = Some raws" by blast
  then have sent: "send_packet (\<lambda>_. 0) (fst ?c) (snd ?c) =
      Some (True, raws, ip_protocol_new 6\<lparr>ip_stats := (ip_stats (ip_protocol_new 0))
        \<lparr>st_fragments_created := 2, st_packets_sent := 1\<rparr>\<rparr>)"
    by (simp add: send_packet_def create_packet_def next_identification_def ip_packet_new_def default_header_def
        ip_header_length_def packet_size_def is_df_def ip_protocol_new_def)
  have rec: "ip_filters receiver = []" "is_local_ip ''10.0.0.255'' receiver" "map_of (ip_handlers receiver) 17 = Some ''udp''"
      "map_of (as_fragments (ip_assembler receiver)) k = None" for k
    by (simp_all add: receiver_def register_protocol_def add_local_ip_def ping_addresses ip_protocol_new_def
        assembler_new_def is_local_ip_def)
  have "\<exists>qs q. map (transmit 0) (rev raws) = map Inr qs \<and>
      fst (receive_all (\<lambda>_ _. Inr True) (\<lambda>_ _. Inr ()) 0 qs receiver) = [Delivered ''udp'' q] \<and>
      pk_payload q = replicate 1481 7"
    using packet_delivered [OF reach_initial [of 5] surjective_pairing [of ?c] sent ping_addresses,
        of "rev raws" receiver "''udp''" 0 "\<lambda>_ _. Inr True" "\<lambda>_ _. Inr ()"] rec
    by (auto simp only: mset_rev length_replicate) fastforce+
  with sent show ?thesis by blast
qed

end
