(* ===== verification/SqlTypes.thy ===== *)
theory SqlTypes
  imports Py_Float Py_Utf8 Py_Text "HOL-Library.List_Lexorder"
begin

text \<open>
  The column types of the SQL engine, \<^verbatim>\<open>database/src/sql/types.py\<close>: validation, coercion, binary form,
  comparison and the names of types.

  Values are those that the types tell apart.  A \<^verbatim>\<open>bool\<close> is an \<^verbatim>\<open>int\<close> and a \<^verbatim>\<open>datetime\<close> is a \<^verbatim>\<open>date\<close>, as in Python.
  Conversions of the standard library between text, numbers and moments are arguments (the record
  \<^verbatim>\<open>sql_lib\<close>); \<^verbatim>\<open>str\<close> of an integer is its decimal numeral, without Python's limit of 4300 digits.
\<close>

section \<open>Values and types\<close>

datatype ('d, 'o) sql_value =
    SqlNull
  | SqlBool bool
  | SqlInt int
  | SqlFloat pyfloat
  | SqlStr pystr
  | SqlDate int
  | SqlDatetime 'd
  | SqlList "('d, 'o) sql_value list"
  | SqlTuple "('d, 'o) sql_value list"
  | SqlOther 'o

datatype sql_type =
    NullType
  | IntegerType
  | FloatType
  | VarcharType int
  | TextType
  | BooleanType
  | TimestampType
  | DateType
  | ArrayType sql_type

record 'd sql_lib =
  int_of_str :: "pystr \<Rightarrow> int option"
  float_of_str :: "pystr \<Rightarrow> pyfloat option"
  str_of_float :: "pyfloat \<Rightarrow> pystr"
  str_lower :: "pystr \<Rightarrow> pystr"
  dt_of_int :: "int \<Rightarrow> 'd result"
  dt_of_float :: "pyfloat \<Rightarrow> 'd result"
  dt_of_iso :: "pystr \<Rightarrow> 'd option"
  date_of_iso :: "pystr \<Rightarrow> int option"
  dt_micros :: "'d \<Rightarrow> int result"
  dt_of_micros :: "int \<Rightarrow> 'd result"
  dt_ordinal :: "'d \<Rightarrow> int"
  dt_less :: "'d \<Rightarrow> 'd \<Rightarrow> bool result"
  dt_equal :: "'d \<Rightarrow> 'd \<Rightarrow> bool"

text \<open>\<^verbatim>\<open>type_id\<close>, and the class that \<^verbatim>\<open>get_type\<close> finds under it, named by one of its instances.\<close>

fun type_id :: "sql_type \<Rightarrow> int" where
  "type_id NullType = 0"
| "type_id IntegerType = 1"
| "type_id FloatType = 2"
| "type_id (VarcharType _) = 3"
| "type_id TextType = 4"
| "type_id BooleanType = 5"
| "type_id TimestampType = 6"
| "type_id DateType = 7"
| "type_id (ArrayType _) = 8"

definition type_registry :: "(int \<times> sql_type) list" where
  "type_registry =
     [(0, NullType), (1, IntegerType), (2, FloatType), (3, VarcharType 255), (4, TextType),
      (5, BooleanType), (6, TimestampType), (7, DateType)]"

definition get_type :: "int \<Rightarrow> sql_type result" where
  "get_type i = (case map_of type_registry i of None \<Rightarrow> Inl ValueError | Some t \<Rightarrow> Inr t)"

section \<open>Validation and coercion\<close>

definition in_int32 :: "int \<Rightarrow> bool" where
  "in_int32 n \<longleftrightarrow> - 2147483648 \<le> n \<and> n \<le> 2147483647"

text \<open>\<^verbatim>\<open>validate\<close> class by class.\<close>

definition validate_null :: "('d, 'o) sql_value \<Rightarrow> bool" where
  "validate_null v = (v = SqlNull)"

definition validate_integer ::
  "('d, 'o) sql_value \<Rightarrow> bool" where
  "validate_integer v =
     (case v of SqlInt n \<Rightarrow> in_int32 n | SqlBool _ \<Rightarrow> True | _ \<Rightarrow> False)"

definition validate_float ::
  "('d, 'o) sql_value \<Rightarrow> bool" where
  "validate_float v =
     (case v of SqlInt _ \<Rightarrow> True | SqlBool _ \<Rightarrow> True | SqlFloat _ \<Rightarrow> True | _ \<Rightarrow> False)"

definition validate_varchar :: "int \<Rightarrow> ('d, 'o) sql_value \<Rightarrow> bool" where
  "validate_varchar m v = (case v of SqlStr s \<Rightarrow> ilen s \<le> m | _ \<Rightarrow> False)"

definition validate_text :: "('d, 'o) sql_value \<Rightarrow> bool" where
  "validate_text v = (case v of SqlStr _ \<Rightarrow> True | _ \<Rightarrow> False)"

definition validate_boolean :: "('d, 'o) sql_value \<Rightarrow> bool" where
  "validate_boolean v = (case v of SqlBool _ \<Rightarrow> True | _ \<Rightarrow> False)"

definition validate_timestamp :: "('d, 'o) sql_value \<Rightarrow> bool" where
  "validate_timestamp v = (case v of SqlDatetime _ \<Rightarrow> True | _ \<Rightarrow> False)"

definition validate_date ::
  "('d, 'o) sql_value \<Rightarrow> bool" where
  "validate_date v =
     (case v of SqlDate _ \<Rightarrow> True | SqlDatetime _ \<Rightarrow> True | _ \<Rightarrow> False)"

definition validate_array ::
  "(('d, 'o) sql_value \<Rightarrow> bool) \<Rightarrow> ('d, 'o) sql_value \<Rightarrow> bool" where
  "validate_array validate_element v =
     (case v of
        SqlList vs \<Rightarrow> list_all validate_element vs
      | SqlTuple vs \<Rightarrow> list_all validate_element vs
      | _ \<Rightarrow> False)"

declare validate_null_def [simp] validate_integer_def [simp] validate_float_def [simp]
  validate_varchar_def [simp] validate_text_def [simp] validate_boolean_def [simp]
  validate_timestamp_def [simp] validate_date_def [simp] validate_array_def [simp]

fun sql_validate :: "sql_type \<Rightarrow> ('d, 'o) sql_value \<Rightarrow> bool" where
  "sql_validate NullType v = validate_null v"
| "sql_validate IntegerType v = validate_integer v"
| "sql_validate FloatType v = validate_float v"
| "sql_validate (VarcharType m) v = validate_varchar m v"
| "sql_validate TextType v = validate_text v"
| "sql_validate BooleanType v = validate_boolean v"
| "sql_validate TimestampType v = validate_timestamp v"
| "sql_validate DateType v = validate_date v"
| "sql_validate (ArrayType t) v = validate_array (sql_validate t) v"

definition integer_value :: "int \<Rightarrow> ('d, 'o) sql_value result" where
  "integer_value n = (if in_int32 n then Inr (SqlInt n) else Inl TypeError)"

definition coerce_integer :: "'d sql_lib \<Rightarrow> ('d, 'o) sql_value \<Rightarrow> ('d, 'o) sql_value result" where
  "coerce_integer lib v =
     (case v of
        SqlInt n \<Rightarrow> integer_value n
      | SqlBool b \<Rightarrow> Inr (SqlBool b)
      | SqlFloat x \<Rightarrow> res_bind (int_of_float x) integer_value
      | SqlStr s \<Rightarrow> (case int_of_str lib s of None \<Rightarrow> Inl TypeError | Some n \<Rightarrow> integer_value n)
      | _ \<Rightarrow> Inl TypeError)"

definition coerce_float :: "'d sql_lib \<Rightarrow> ('d, 'o) sql_value \<Rightarrow> ('d, 'o) sql_value result" where
  "coerce_float lib v =
     (case v of
        SqlInt n \<Rightarrow> res_bind (float_of_int n) (\<lambda>x. Inr (SqlFloat x))
      | SqlBool b \<Rightarrow> res_bind (float_of_int (of_bool b)) (\<lambda>x. Inr (SqlFloat x))
      | SqlFloat x \<Rightarrow> Inr (SqlFloat x)
      | SqlStr s \<Rightarrow> (case float_of_str lib s of None \<Rightarrow> Inl TypeError | Some x \<Rightarrow> Inr (SqlFloat x))
      | _ \<Rightarrow> Inl TypeError)"

text \<open>\<^verbatim>\<open>str(value)\<close> of a string, an integer, a boolean or a float.\<close>

definition text_of :: "'d sql_lib \<Rightarrow> ('d, 'o) sql_value \<Rightarrow> pystr result" where
  "text_of lib v =
     (case v of
        SqlStr s \<Rightarrow> Inr s
      | SqlInt n \<Rightarrow> Inr (map of_char (int_str n))
      | SqlBool b \<Rightarrow> Inr (map of_char (if b then ''True'' else ''False''))
      | SqlFloat x \<Rightarrow> Inr (str_of_float lib x)
      | _ \<Rightarrow> Inl TypeError)"

definition coerce_varchar :: "'d sql_lib \<Rightarrow> int \<Rightarrow> ('d, 'o) sql_value \<Rightarrow> ('d, 'o) sql_value result" where
  "coerce_varchar lib m v =
     res_bind (text_of lib v) (\<lambda>s. Inr (SqlStr (if ilen s \<le> m then s else py_slice s 0 m)))"

definition coerce_boolean :: "'d sql_lib \<Rightarrow> ('d, 'o) sql_value \<Rightarrow> ('d, 'o) sql_value result" where
  "coerce_boolean lib v =
     (case v of
        SqlBool b \<Rightarrow> Inr (SqlBool b)
      | SqlInt n \<Rightarrow> Inr (SqlBool (n \<noteq> 0))
      | SqlStr s \<Rightarrow>
          if str_lower lib s \<in> set (map (map of_char) [''true'', ''1'', ''yes'']) then Inr (SqlBool True)
          else if str_lower lib s \<in> set (map (map of_char) [''false'', ''0'', ''no'']) then Inr (SqlBool False)
          else Inl TypeError
      | _ \<Rightarrow> Inl TypeError)"

definition coerce_timestamp :: "'d sql_lib \<Rightarrow> ('d, 'o) sql_value \<Rightarrow> ('d, 'o) sql_value result" where
  "coerce_timestamp lib v =
     (case v of
        SqlDatetime d \<Rightarrow> Inr (SqlDatetime d)
      | SqlInt n \<Rightarrow> res_bind (dt_of_int lib n) (\<lambda>d. Inr (SqlDatetime d))
      | SqlBool b \<Rightarrow> res_bind (dt_of_int lib (of_bool b)) (\<lambda>d. Inr (SqlDatetime d))
      | SqlFloat x \<Rightarrow> res_bind (dt_of_float lib x) (\<lambda>d. Inr (SqlDatetime d))
      | SqlStr s \<Rightarrow> (case dt_of_iso lib s of None \<Rightarrow> Inl TypeError | Some d \<Rightarrow> Inr (SqlDatetime d))
      | _ \<Rightarrow> Inl TypeError)"

text \<open>\<^verbatim>\<open>date.fromordinal\<close>: its argument has to be a C integer, and a day of the calendar.\<close>

definition date_of_ordinal :: "int \<Rightarrow> ('d, 'o) sql_value result" where
  "date_of_ordinal n =
     (if \<not> in_int32 n then Inl OverflowError
      else if 1 \<le> n \<and> n \<le> 3652059 then Inr (SqlDate n) else Inl ValueError)"

definition coerce_date :: "'d sql_lib \<Rightarrow> ('d, 'o) sql_value \<Rightarrow> ('d, 'o) sql_value result" where
  "coerce_date lib v =
     (case v of
        SqlDate n \<Rightarrow> Inr (SqlDate n)
      | SqlDatetime d \<Rightarrow> Inr (SqlDatetime d)
      | SqlStr s \<Rightarrow> (case date_of_iso lib s of None \<Rightarrow> Inl TypeError | Some n \<Rightarrow> Inr (SqlDate n))
      | SqlInt n \<Rightarrow> date_of_ordinal n
      | SqlBool b \<Rightarrow> date_of_ordinal (of_bool b)
      | SqlFloat x \<Rightarrow> res_bind (int_of_float x) date_of_ordinal
      | _ \<Rightarrow> Inl TypeError)"

text \<open>A list comprehension whose body may raise.\<close>

fun res_map :: "('a \<Rightarrow> 'b result) \<Rightarrow> 'a list \<Rightarrow> 'b list result" where
  "res_map f [] = Inr []"
| "res_map f (x # xs) = res_bind (f x) (\<lambda>y. res_bind (res_map f xs) (\<lambda>ys. Inr (y # ys)))"

definition coerce_null :: "('d, 'o) sql_value \<Rightarrow> ('d, 'o) sql_value result" where
  "coerce_null v = (if v \<noteq> SqlNull then Inl TypeError else Inr SqlNull)"

definition coerce_text :: "'d sql_lib \<Rightarrow> ('d, 'o) sql_value \<Rightarrow> ('d, 'o) sql_value result" where
  "coerce_text lib v = res_bind (text_of lib v) (\<lambda>s. Inr (SqlStr s))"

definition coerce_array :: "(('d, 'o) sql_value \<Rightarrow> ('d, 'o) sql_value result) \<Rightarrow> ('d, 'o) sql_value \<Rightarrow> ('d, 'o) sql_value result" where
  "coerce_array coerce_element v =
     (case v of
        SqlList vs \<Rightarrow> res_bind (res_map coerce_element vs) (\<lambda>ws. Inr (SqlList ws))
      | SqlTuple vs \<Rightarrow> res_bind (res_map coerce_element vs) (\<lambda>ws. Inr (SqlList ws))
      | _ \<Rightarrow> Inl TypeError)"

declare coerce_null_def [simp] coerce_text_def [simp] coerce_array_def [simp]

fun sql_coerce :: "'d sql_lib \<Rightarrow> sql_type \<Rightarrow> ('d, 'o) sql_value \<Rightarrow> ('d, 'o) sql_value result" where
  "sql_coerce lib NullType v = coerce_null v"
| "sql_coerce lib IntegerType v = coerce_integer lib v"
| "sql_coerce lib FloatType v = coerce_float lib v"
| "sql_coerce lib (VarcharType m) v = coerce_varchar lib m v"
| "sql_coerce lib TextType v = coerce_text lib v"
| "sql_coerce lib BooleanType v = coerce_boolean lib v"
| "sql_coerce lib TimestampType v = coerce_timestamp lib v"
| "sql_coerce lib DateType v = coerce_date lib v"
| "sql_coerce lib (ArrayType t) v = coerce_array (sql_coerce lib t) v"

section \<open>The binary form\<close>

definition pack_text :: "nat \<Rightarrow> ('d, 'o) sql_value \<Rightarrow> bytes result" where
  "pack_text n v =
     (case v of
        SqlStr s \<Rightarrow> res_bind (utf8_encode s) (\<lambda>bs.
          res_bind (struct_pack [(n, pack_uint True n (ilen bs))]) (\<lambda>h. Inr (h @ bs)))
      | _ \<Rightarrow> Inl AttributeErr)"

text \<open>The number that \<^verbatim>\<open>struct\<close> packs for an integer or a boolean.\<close>

fun as_int :: "('d, 'o) sql_value \<Rightarrow> int option" where
  "as_int (SqlInt n) = Some n"
| "as_int (SqlBool b) = Some (of_bool b)"
| "as_int _ = None"

definition serialize_null :: "'d sql_lib \<Rightarrow> ('d, 'o) sql_value \<Rightarrow> bytes result" where
  "serialize_null lib v = Inr [0]"

definition serialize_integer ::
  "'d sql_lib \<Rightarrow> ('d, 'o) sql_value \<Rightarrow> bytes result" where
  "serialize_integer lib v =
     res_bind (sql_coerce lib IntegerType v) (\<lambda>w.
       case as_int w of Some n \<Rightarrow> struct_pack [(4, pack_sint True 4 n)] | None \<Rightarrow> Inl StructError)"

definition serialize_float ::
  "'d sql_lib \<Rightarrow> ('d, 'o) sql_value \<Rightarrow> bytes result" where
  "serialize_float lib v =
     res_bind (sql_coerce lib FloatType v) (\<lambda>w.
       case w of SqlFloat x \<Rightarrow> Inr (pack_d True x) | _ \<Rightarrow> Inl StructError)"

definition serialize_varchar :: "'d sql_lib \<Rightarrow> int \<Rightarrow> ('d, 'o) sql_value \<Rightarrow> bytes result" where
  "serialize_varchar lib m v = res_bind (sql_coerce lib (VarcharType m) v) (pack_text 2)"

definition serialize_text :: "'d sql_lib \<Rightarrow> ('d, 'o) sql_value \<Rightarrow> bytes result" where
  "serialize_text lib v = res_bind (sql_coerce lib TextType v) (pack_text 4)"

definition serialize_boolean ::
  "'d sql_lib \<Rightarrow> ('d, 'o) sql_value \<Rightarrow> bytes result" where
  "serialize_boolean lib v =
     res_bind (sql_coerce lib BooleanType v) (\<lambda>w.
       case w of SqlBool b \<Rightarrow> Inr [of_bool b] | _ \<Rightarrow> Inl StructError)"

definition serialize_timestamp ::
  "'d sql_lib \<Rightarrow> ('d, 'o) sql_value \<Rightarrow> bytes result" where
  "serialize_timestamp lib v =
     res_bind (sql_coerce lib TimestampType v) (\<lambda>w.
       case w of
         SqlDatetime d \<Rightarrow> res_bind (dt_micros lib d) (\<lambda>n. struct_pack [(8, pack_sint True 8 n)])
       | _ \<Rightarrow> Inl AttributeErr)"

definition serialize_date ::
  "'d sql_lib \<Rightarrow> ('d, 'o) sql_value \<Rightarrow> bytes result" where
  "serialize_date lib v =
     res_bind (sql_coerce lib DateType v) (\<lambda>w.
       case w of
         SqlDate n \<Rightarrow> struct_pack [(4, pack_sint True 4 n)]
       | SqlDatetime d \<Rightarrow> struct_pack [(4, pack_sint True 4 (dt_ordinal lib d))]
       | _ \<Rightarrow> Inl AttributeErr)"

definition serialize_array ::
  "'d sql_lib \<Rightarrow> sql_type \<Rightarrow> (('d, 'o) sql_value \<Rightarrow> bytes result) \<Rightarrow> ('d, 'o) sql_value \<Rightarrow> bytes result" where
  "serialize_array lib t serialize_element v =
     res_bind (sql_coerce lib (ArrayType t) v) (\<lambda>w.
       case w of
         SqlList ws \<Rightarrow>
           res_bind (struct_pack [(4, pack_uint True 4 (ilen ws))]) (\<lambda>h.
           res_bind (res_map serialize_element ws) (\<lambda>bss. Inr (h @ concat bss)))
       | _ \<Rightarrow> Inl TypeError)"

declare serialize_null_def [simp] serialize_integer_def [simp] serialize_float_def [simp]
  serialize_varchar_def [simp] serialize_text_def [simp] serialize_boolean_def [simp]
  serialize_timestamp_def [simp] serialize_date_def [simp] serialize_array_def [simp]

fun sql_serialize :: "'d sql_lib \<Rightarrow> sql_type \<Rightarrow> ('d, 'o) sql_value \<Rightarrow> bytes result" where
  "sql_serialize lib NullType v = serialize_null lib v"
| "sql_serialize lib IntegerType v = serialize_integer lib v"
| "sql_serialize lib FloatType v = serialize_float lib v"
| "sql_serialize lib (VarcharType m) v = serialize_varchar lib m v"
| "sql_serialize lib TextType v = serialize_text lib v"
| "sql_serialize lib BooleanType v = serialize_boolean lib v"
| "sql_serialize lib TimestampType v = serialize_timestamp lib v"
| "sql_serialize lib DateType v = serialize_date lib v"
| "sql_serialize lib (ArrayType t) v = serialize_array lib t (sql_serialize lib t) v"

definition unpack_text :: "nat \<Rightarrow> bytes \<Rightarrow> int \<Rightarrow> (('d, 'o) sql_value \<times> int) result" where
  "unpack_text n data offset =
     res_bind (unpack_from data offset n) (\<lambda>w.
       let len = unpack_uint True w; offset' = offset + int n
       in res_bind (utf8_decode (py_slice data offset' (offset' + len))) (\<lambda>s.
            Inr (SqlStr s, offset' + len)))"

definition deserialize_null :: "'d sql_lib \<Rightarrow> bytes \<Rightarrow> int \<Rightarrow> (('d, 'o) sql_value \<times> int) result" where
  "deserialize_null lib data offset = Inr (SqlNull, offset + 1)"

definition deserialize_integer ::
  "'d sql_lib \<Rightarrow> bytes \<Rightarrow> int \<Rightarrow> (('d, 'o) sql_value \<times> int) result" where
  "deserialize_integer lib data offset =
     res_bind (unpack_from data offset 4) (\<lambda>w. Inr (SqlInt (unpack_sint True w), offset + 4))"

definition deserialize_float ::
  "'d sql_lib \<Rightarrow> bytes \<Rightarrow> int \<Rightarrow> (('d, 'o) sql_value \<times> int) result" where
  "deserialize_float lib data offset =
     res_bind (unpack_from data offset 8) (\<lambda>w. Inr (SqlFloat (unpack_d True w), offset + 8))"

definition deserialize_varchar :: "'d sql_lib \<Rightarrow> int \<Rightarrow> bytes \<Rightarrow> int \<Rightarrow> (('d, 'o) sql_value \<times> int) result" where
  "deserialize_varchar lib m data offset = unpack_text 2 data offset"

definition deserialize_text :: "'d sql_lib \<Rightarrow> bytes \<Rightarrow> int \<Rightarrow> (('d, 'o) sql_value \<times> int) result" where
  "deserialize_text lib data offset = unpack_text 4 data offset"

definition deserialize_boolean ::
  "'d sql_lib \<Rightarrow> bytes \<Rightarrow> int \<Rightarrow> (('d, 'o) sql_value \<times> int) result" where
  "deserialize_boolean lib data offset =
     res_bind (unpack_from data offset 1) (\<lambda>w. Inr (SqlBool (unpack_uint True w \<noteq> 0), offset + 1))"

definition deserialize_timestamp ::
  "'d sql_lib \<Rightarrow> bytes \<Rightarrow> int \<Rightarrow> (('d, 'o) sql_value \<times> int) result" where
  "deserialize_timestamp lib data offset =
     res_bind (unpack_from data offset 8) (\<lambda>w.
     res_bind (dt_of_micros lib (unpack_sint True w)) (\<lambda>d. Inr (SqlDatetime d, offset + 8)))"

definition deserialize_date ::
  "'d sql_lib \<Rightarrow> bytes \<Rightarrow> int \<Rightarrow> (('d, 'o) sql_value \<times> int) result" where
  "deserialize_date lib data offset =
     res_bind (unpack_from data offset 4) (\<lambda>w.
     res_bind (date_of_ordinal (unpack_sint True w)) (\<lambda>v. Inr (v, offset + 4)))"

definition deserialize_array ::
  "'d sql_lib \<Rightarrow> (bytes \<Rightarrow> int \<Rightarrow> (('d, 'o) sql_value \<times> int) result) \<Rightarrow> bytes \<Rightarrow> int \<Rightarrow> (('d, 'o) sql_value \<times> int) result" where
  "deserialize_array lib deserialize_element data offset =
     res_bind (unpack_from data offset 4) (\<lambda>w.
     res_bind (decode_many deserialize_element (nat (unpack_uint True w)) data (offset + 4))
       (\<lambda>(vs, offset'). Inr (SqlList vs, offset')))"

declare deserialize_null_def [simp] deserialize_integer_def [simp] deserialize_float_def [simp]
  deserialize_varchar_def [simp] deserialize_text_def [simp] deserialize_boolean_def [simp]
  deserialize_timestamp_def [simp] deserialize_date_def [simp] deserialize_array_def [simp]

fun sql_deserialize ::
  "'d sql_lib \<Rightarrow> sql_type \<Rightarrow> bytes \<Rightarrow> int \<Rightarrow> (('d, 'o) sql_value \<times> int) result" where
  "sql_deserialize lib NullType data offset = deserialize_null lib data offset"
| "sql_deserialize lib IntegerType data offset = deserialize_integer lib data offset"
| "sql_deserialize lib FloatType data offset = deserialize_float lib data offset"
| "sql_deserialize lib (VarcharType m) data offset = deserialize_varchar lib m data offset"
| "sql_deserialize lib TextType data offset = deserialize_text lib data offset"
| "sql_deserialize lib BooleanType data offset = deserialize_boolean lib data offset"
| "sql_deserialize lib TimestampType data offset = deserialize_timestamp lib data offset"
| "sql_deserialize lib DateType data offset = deserialize_date lib data offset"
| "sql_deserialize lib (ArrayType t) data offset = deserialize_array lib (sql_deserialize lib t) data offset"

section \<open>Comparison\<close>

text \<open>
  \<^verbatim>\<open>==\<close> and \<^verbatim>\<open><\<close> of Python on values of one type; a \<^verbatim>\<open>datetime\<close> and a \<^verbatim>\<open>date\<close> differ and cannot be
  ordered.  Lists and tuples compare by their first different elements (two NaNs count as different objects).
\<close>

fun lex_less :: "('a \<Rightarrow> 'a \<Rightarrow> bool) \<Rightarrow> ('a \<Rightarrow> 'a \<Rightarrow> bool result) \<Rightarrow> 'a list \<Rightarrow> 'a list \<Rightarrow> bool result" where
  "lex_less same lt xs [] = Inr False"
| "lex_less same lt [] (y # ys) = Inr True"
| "lex_less same lt (x # xs) (y # ys) = (if same x y then lex_less same lt xs ys else lt x y)"

lemma lex_less_cong [fundef_cong]:
  "xs = xs' \<Longrightarrow> ys = ys' \<Longrightarrow> (\<And>x y. x \<in> set xs' \<Longrightarrow> y \<in> set ys' \<Longrightarrow> same x y = same' x y) \<Longrightarrow>
   (\<And>x y. x \<in> set xs' \<Longrightarrow> y \<in> set ys' \<Longrightarrow> lt x y = lt' x y) \<Longrightarrow>
   lex_less same lt xs ys = lex_less same' lt' xs' ys'"
  by (induction same lt xs ys arbitrary: xs' ys' rule: lex_less.induct) auto

fun value_equal :: "'d sql_lib \<Rightarrow> ('d, 'o) sql_value \<Rightarrow> ('d, 'o) sql_value \<Rightarrow> bool" where
  "value_equal lib v w =
     (case (v, w) of
        (SqlFloat x, SqlFloat y) \<Rightarrow> float_eq x y
      | (SqlStr s, SqlStr t) \<Rightarrow> s = t
      | (SqlDate m, SqlDate n) \<Rightarrow> m = n
      | (SqlDatetime d, SqlDatetime e) \<Rightarrow> dt_equal lib d e
      | (SqlList vs, SqlList ws) \<Rightarrow> list_all2 (\<lambda>v w. value_equal lib v w) vs ws
      | (SqlTuple vs, SqlTuple ws) \<Rightarrow> list_all2 (\<lambda>v w. value_equal lib v w) vs ws
      | (SqlNull, SqlNull) \<Rightarrow> True
      | _ \<Rightarrow> as_int v \<noteq> None \<and> as_int v = as_int w)"

fun value_less :: "'d sql_lib \<Rightarrow> ('d, 'o) sql_value \<Rightarrow> ('d, 'o) sql_value \<Rightarrow> bool result" where
  "value_less lib v w =
     (case (v, w) of
        (SqlFloat x, SqlFloat y) \<Rightarrow> Inr (float_less x y)
      | (SqlStr s, SqlStr t) \<Rightarrow> Inr (s < t)
      | (SqlDate m, SqlDate n) \<Rightarrow> Inr (m < n)
      | (SqlDatetime d, SqlDatetime e) \<Rightarrow> dt_less lib d e
      | (SqlList vs, SqlList ws) \<Rightarrow> lex_less (value_equal lib) (\<lambda>v w. value_less lib v w) vs ws
      | (SqlTuple vs, SqlTuple ws) \<Rightarrow> lex_less (value_equal lib) (\<lambda>v w. value_less lib v w) vs ws
      | _ \<Rightarrow> (case (as_int v, as_int w) of (Some m, Some n) \<Rightarrow> Inr (m < n) | _ \<Rightarrow> Inl TypeError))"

declare value_equal.simps [simp del] value_less.simps [simp del]

definition sql_compare :: "'d sql_lib \<Rightarrow> sql_type \<Rightarrow> ('d, 'o) sql_value \<Rightarrow> ('d, 'o) sql_value \<Rightarrow> int result" where
  "sql_compare lib t a b =
     (if a = SqlNull \<and> b = SqlNull then Inr 0
      else if a = SqlNull then Inr (- 1)
      else if b = SqlNull then Inr 1
      else
        res_bind (sql_coerce lib t a) (\<lambda>a.
        res_bind (sql_coerce lib t b) (\<lambda>b.
        res_bind (value_less lib a b) (\<lambda>lt.
          if lt then Inr (- 1)
          else res_bind (value_less lib b a) (\<lambda>gt. if gt then Inr 1 else Inr 0)))))"

section \<open>Names of types\<close>

fun type_name :: "sql_type \<Rightarrow> string" where
  "type_name NullType = ''NULL''"
| "type_name IntegerType = ''INTEGER''"
| "type_name FloatType = ''FLOAT''"
| "type_name (VarcharType m) = ''VARCHAR('' @ int_str m @ '')''"
| "type_name TextType = ''TEXT''"
| "type_name BooleanType = ''BOOLEAN''"
| "type_name TimestampType = ''TIMESTAMP''"
| "type_name DateType = ''DATE''"
| "type_name (ArrayType t) = ''ARRAY<'' @ type_name t @ ''>''"

text \<open>\<^verbatim>\<open>s.startswith(p)\<close>.\<close>

definition starts_with :: "string \<Rightarrow> string \<Rightarrow> bool" where
  "starts_with p s \<longleftrightarrow> take (length p) s = p"

definition parse_type_string :: "string \<Rightarrow> sql_type result" where
  "parse_type_string s =
     (let u = upper (strip s) in
      if u \<in> {''INT'', ''INTEGER'', ''INT4''} then Inr IntegerType
      else if u \<in> {''FLOAT'', ''FLOAT8'', ''DOUBLE'', ''REAL''} then Inr FloatType
      else if u \<in> {''TEXT'', ''STRING''} then Inr TextType
      else if u \<in> {''BOOL'', ''BOOLEAN''} then Inr BooleanType
      else if u = ''NULL'' then Inr NullType
      else if u \<in> {''TIMESTAMP'', ''DATETIME''} then Inr TimestampType
      else if u = ''DATE'' then Inr DateType
      else if starts_with ''VARCHAR'' u \<or> starts_with ''CHAR'' u
      then if CHR ''('' \<in> set u \<and> CHR '')'' \<in> set u
           then res_bind (int_of_text (hd (split_on CHR '')'' (split_on CHR ''('' u ! 1))))
                  (\<lambda>m. Inr (VarcharType m))
           else Inr (VarcharType 255)
      else Inl ValueError)"

end
