(* ===== verification/SqlExpr.thy ===== *)
theory SqlExpr
  imports SqlTypes
begin

text \<open>
  Expressions of the SQL engine: the syntax trees of \<^verbatim>\<open>database/src/sql/parser.py\<close> and their evaluation
  on a row in \<^verbatim>\<open>database/src/sql/executor.py\<close> (\<^verbatim>\<open>_evaluate_expression\<close>, \<^verbatim>\<open>_evaluate_aggregate\<close>,
  \<^verbatim>\<open>_match_like\<close>).

  Values are those of Python: \<^verbatim>\<open>None\<close>, booleans, integers, floats, text, rows (the value of a star) and other
  objects.  What the operators of Python do with a float or another object is an argument (the record
  \<^verbatim>\<open>py_ops\<close>), and so is the execution of a subquery.  Names are ASCII texts, rows association lists in
  insertion order.
\<close>

section \<open>Values and Python's operators\<close>

datatype 'o pval =
    PNone
  | PBool bool
  | PInt int
  | PFloat pyfloat
  | PStr pystr
  | PRow "(string \<times> 'o pval) list"
  | PObj 'o

type_synonym 'o row = "(string \<times> 'o pval) list"

record 'o py_ops =
  op_arith :: "string \<Rightarrow> 'o pval \<Rightarrow> 'o pval \<Rightarrow> 'o pval result"
  op_negate :: "'o pval \<Rightarrow> 'o pval result"
  op_equal :: "'o pval \<Rightarrow> 'o pval \<Rightarrow> bool"
  op_less :: "'o pval \<Rightarrow> 'o pval \<Rightarrow> bool result"
  op_less_eq :: "'o pval \<Rightarrow> 'o pval \<Rightarrow> bool result"
  op_is :: "'o pval \<Rightarrow> 'o pval \<Rightarrow> bool"
  op_truth :: "'o pval \<Rightarrow> bool"
  op_str :: "'o pval \<Rightarrow> pystr"
  op_repr :: "'o pval \<Rightarrow> string"
  op_hashable :: "'o pval \<Rightarrow> bool"

text \<open>The number that a boolean or an integer is; and the operands that the record decides about.\<close>

fun number_of :: "'o pval \<Rightarrow> int option" where
  "number_of (PInt n) = Some n"
| "number_of (PBool b) = Some (of_bool b)"
| "number_of _ = None"

fun foreign :: "'o pval \<Rightarrow> bool" where
  "foreign (PFloat _) = True"
| "foreign (PObj _) = True"
| "foreign _ = False"

definition py_add :: "'o py_ops \<Rightarrow> 'o pval \<Rightarrow> 'o pval \<Rightarrow> 'o pval result" where
  "py_add ops v w =
     (case (number_of v, number_of w) of
        (Some m, Some n) \<Rightarrow> Inr (PInt (m + n))
      | _ \<Rightarrow>
          if (foreign v \<or> foreign w) \<and> v \<noteq> PNone \<and> w \<noteq> PNone then op_arith ops ''+'' v w
          else (case (v, w) of (PStr s, PStr t) \<Rightarrow> Inr (PStr (s @ t)) | _ \<Rightarrow> Inl TypeError))"

definition py_sub :: "'o py_ops \<Rightarrow> 'o pval \<Rightarrow> 'o pval \<Rightarrow> 'o pval result" where
  "py_sub ops v w =
     (case (number_of v, number_of w) of
        (Some m, Some n) \<Rightarrow> Inr (PInt (m - n))
      | _ \<Rightarrow> if (foreign v \<or> foreign w) \<and> v \<noteq> PNone \<and> w \<noteq> PNone then op_arith ops ''-'' v w else Inl TypeError)"

definition py_mul :: "'o py_ops \<Rightarrow> 'o pval \<Rightarrow> 'o pval \<Rightarrow> 'o pval result" where
  "py_mul ops v w =
     (case (number_of v, number_of w) of
        (Some m, Some n) \<Rightarrow> Inr (PInt (m * n))
      | (Some m, None) \<Rightarrow>
          if foreign w then op_arith ops ''*'' v w
          else (case w of PStr s \<Rightarrow> Inr (PStr (concat (replicate (nat m) s))) | _ \<Rightarrow> Inl TypeError)
      | (None, Some n) \<Rightarrow>
          if foreign v then op_arith ops ''*'' v w
          else (case v of PStr s \<Rightarrow> Inr (PStr (concat (replicate (nat n) s))) | _ \<Rightarrow> Inl TypeError)
      | _ \<Rightarrow> if (foreign v \<or> foreign w) \<and> v \<noteq> PNone \<and> w \<noteq> PNone then op_arith ops ''*'' v w else Inl TypeError)"

text \<open>True division gives a float.\<close>

definition py_div :: "'o py_ops \<Rightarrow> 'o pval \<Rightarrow> 'o pval \<Rightarrow> 'o pval result" where
  "py_div ops v w =
     (if number_of v \<noteq> None \<and> number_of w \<noteq> None \<or>
         (foreign v \<or> foreign w) \<and> v \<noteq> PNone \<and> w \<noteq> PNone
      then op_arith ops ''/'' v w else Inl TypeError)"

definition py_neg :: "'o py_ops \<Rightarrow> 'o pval \<Rightarrow> 'o pval result" where
  "py_neg ops v =
     (case number_of v of
        Some n \<Rightarrow> Inr (PInt (- n))
      | None \<Rightarrow> if foreign v then op_negate ops v else Inl TypeError)"

definition py_eq :: "'o py_ops \<Rightarrow> 'o pval \<Rightarrow> 'o pval \<Rightarrow> bool" where
  "py_eq ops v w =
     (case (number_of v, number_of w) of
        (Some m, Some n) \<Rightarrow> m = n
      | _ \<Rightarrow>
          if foreign v \<or> foreign w then op_equal ops v w
          else (case (v, w) of
                  (PNone, PNone) \<Rightarrow> True
                | (PStr s, PStr t) \<Rightarrow> s = t
                | (PRow _, PRow _) \<Rightarrow> op_equal ops v w
                | _ \<Rightarrow> False))"

definition py_less :: "'o py_ops \<Rightarrow> 'o pval \<Rightarrow> 'o pval \<Rightarrow> bool result" where
  "py_less ops v w =
     (case (number_of v, number_of w) of
        (Some m, Some n) \<Rightarrow> Inr (m < n)
      | _ \<Rightarrow>
          if (foreign v \<or> foreign w) \<and> v \<noteq> PNone \<and> w \<noteq> PNone then op_less ops v w
          else (case (v, w) of (PStr s, PStr t) \<Rightarrow> Inr (s < t) | _ \<Rightarrow> Inl TypeError))"

definition py_less_eq :: "'o py_ops \<Rightarrow> 'o pval \<Rightarrow> 'o pval \<Rightarrow> bool result" where
  "py_less_eq ops v w =
     (case (number_of v, number_of w) of
        (Some m, Some n) \<Rightarrow> Inr (m \<le> n)
      | _ \<Rightarrow>
          if (foreign v \<or> foreign w) \<and> v \<noteq> PNone \<and> w \<noteq> PNone then op_less_eq ops v w
          else (case (v, w) of (PStr s, PStr t) \<Rightarrow> Inr (s \<le> t) | _ \<Rightarrow> Inl TypeError))"

text \<open>\<^verbatim>\<open>is\<close>: \<^verbatim>\<open>None\<close>, \<^verbatim>\<open>True\<close> and \<^verbatim>\<open>False\<close> are single objects.\<close>

definition py_is :: "'o py_ops \<Rightarrow> 'o pval \<Rightarrow> 'o pval \<Rightarrow> bool" where
  "py_is ops v w =
     (case (v, w) of
        (PNone, PNone) \<Rightarrow> True
      | (PBool a, PBool b) \<Rightarrow> a = b
      | (PInt _, PInt _) \<Rightarrow> op_is ops v w
      | (PStr _, PStr _) \<Rightarrow> op_is ops v w
      | (PFloat _, PFloat _) \<Rightarrow> op_is ops v w
      | (PRow _, PRow _) \<Rightarrow> op_is ops v w
      | (PObj _, PObj _) \<Rightarrow> op_is ops v w
      | _ \<Rightarrow> False)"

definition py_bool :: "'o py_ops \<Rightarrow> 'o pval \<Rightarrow> bool" where
  "py_bool ops v =
     (case v of
        PNone \<Rightarrow> False
      | PBool b \<Rightarrow> b
      | PInt n \<Rightarrow> n \<noteq> 0
      | PStr s \<Rightarrow> s \<noteq> []
      | PRow r \<Rightarrow> r \<noteq> []
      | _ \<Rightarrow> op_truth ops v)"

definition py_str :: "'o py_ops \<Rightarrow> 'o pval \<Rightarrow> pystr" where
  "py_str ops v =
     (case v of
        PNone \<Rightarrow> map of_char ''None''
      | PBool b \<Rightarrow> map of_char (if b then ''True'' else ''False'')
      | PInt n \<Rightarrow> map of_char (int_str n)
      | PStr s \<Rightarrow> s
      | _ \<Rightarrow> op_str ops v)"

definition py_hashable :: "'o py_ops \<Rightarrow> 'o pval \<Rightarrow> bool" where
  "py_hashable ops v = (case v of PRow _ \<Rightarrow> False | PObj _ \<Rightarrow> op_hashable ops v | _ \<Rightarrow> True)"

section \<open>Syntax\<close>

datatype 'o expr =
    LiteralExpr "'o pval"
  | ColumnExpr string "string option"
  | BinaryExpr string "'o expr" "'o expr"
  | UnaryExpr string "'o expr"
  | FunctionExpr string "'o expr list" bool
  | BetweenExpr "'o expr" "'o expr" "'o expr"
  | InExpr "'o expr" "'o expr list"
  | LikeExpr "'o expr" "'o expr"
  | CaseExpr "'o expr list" "'o expr list" "'o expr option"
  | StarExpr "string option"
  | SubqueryExpr "'o select_stmt"
and 'o select_stmt =
    SelectStmt (sel_columns: "'o expr list") (sel_from: "string option") (sel_alias: "string option")
      (sel_joins: "'o join_clause list") (sel_where: "'o expr option") (sel_group_by: "'o expr list")
      (sel_having: "'o expr option") (sel_order_by: "'o order_item list") (sel_limit: "int option")
      (sel_offset: "int option") (sel_distinct: bool)
and 'o join_clause =
    JoinClause (join_kind: string) (join_table: string) (join_alias: "string option") (join_on: "'o expr option")
and 'o order_item = OrderByItem (order_expr: "'o expr") (order_direction: string)

text \<open>\<^verbatim>\<open>__repr__\<close>, which names the columns of a result.\<close>

definition list_str :: "string list \<Rightarrow> string" where
  "list_str xs = ''['' @ (case xs of [] \<Rightarrow> [] | y # ys \<Rightarrow> y @ concat (map (\<lambda>z. '', '' @ z) ys)) @ '']''"

fun expr_str :: "'o py_ops \<Rightarrow> 'o expr \<Rightarrow> string" and select_str :: "'o py_ops \<Rightarrow> 'o select_stmt \<Rightarrow> string" where
  "expr_str ops (LiteralExpr v) = ''Literal('' @ op_repr ops v @ '')''"
| "expr_str ops (ColumnExpr name table) =
     (case table of
        None \<Rightarrow> ''Column('' @ name @ '')''
      | Some t \<Rightarrow> if t \<noteq> [] then ''Column('' @ t @ ''.'' @ name @ '')'' else ''Column('' @ name @ '')'')"
| "expr_str ops (BinaryExpr oper l r) = ''Binary('' @ expr_str ops l @ '' '' @ oper @ '' '' @ expr_str ops r @ '')''"
| "expr_str ops (UnaryExpr oper e) = ''Unary('' @ oper @ '' '' @ expr_str ops e @ '')''"
| "expr_str ops (FunctionExpr name args _) = ''Func('' @ name @ ''('' @ list_str (map (expr_str ops) args) @ ''))''"
| "expr_str ops (BetweenExpr e l h) =
     ''Between('' @ expr_str ops e @ '' BETWEEN '' @ expr_str ops l @ '' AND '' @ expr_str ops h @ '')''"
| "expr_str ops (InExpr e es) = ''In('' @ expr_str ops e @ '' IN '' @ list_str (map (expr_str ops) es) @ '')''"
| "expr_str ops (LikeExpr e p) = ''Like('' @ expr_str ops e @ '' LIKE '' @ expr_str ops p @ '')''"
| "expr_str ops (CaseExpr conds _ otherwise) =
     ''CASE('' @ list_str (map (expr_str ops) conds) @ ''...'' @
       (case otherwise of None \<Rightarrow> ''None'' | Some e \<Rightarrow> expr_str ops e) @ '')''"
| "expr_str ops (StarExpr table) =
     (case table of
        None \<Rightarrow> ''Star(*)'' | Some t \<Rightarrow> if t \<noteq> [] then ''Star('' @ t @ ''.*)'' else ''Star(*)'')"
| "expr_str ops (SubqueryExpr s) = ''Subquery('' @ select_str ops s @ '')''"
| "select_str ops (SelectStmt columns from_table _ _ _ _ _ _ _ _ _) =
     ''SELECT('' @ list_str (map (expr_str ops) columns) @ '' FROM '' @
       (case from_table of None \<Rightarrow> ''None'' | Some t \<Rightarrow> t) @ '')''"

section \<open>Evaluation\<close>

text \<open>A column: the exact name unless its value is \<^verbatim>\<open>None\<close>, else the first name equal up to case.\<close>

definition column_value :: "string \<Rightarrow> 'o row \<Rightarrow> 'o pval" where
  "column_value name row =
     (case map_of row name of
        Some v \<Rightarrow> if v \<noteq> PNone then v
                  else (case find (\<lambda>(k, _). upper k = upper name) row of Some (_, w) \<Rightarrow> w | None \<Rightarrow> PNone)
      | None \<Rightarrow> (case find (\<lambda>(k, _). upper k = upper name) row of Some (_, w) \<Rightarrow> w | None \<Rightarrow> PNone))"

text \<open>The comparison operators answer false when an operand is \<^verbatim>\<open>None\<close>, the arithmetic ones \<^verbatim>\<open>None\<close>.\<close>

definition unless_none :: "'a result \<Rightarrow> 'o pval \<Rightarrow> 'o pval \<Rightarrow> 'a \<Rightarrow> 'a result" where
  "unless_none r v w d = (if v \<noteq> PNone \<and> w \<noteq> PNone then r else Inr d)"

definition truth :: "bool result \<Rightarrow> 'o pval result" where
  "truth r = res_bind r (\<lambda>b. Inr (PBool b))"

definition eval_binary :: "'o py_ops \<Rightarrow> string \<Rightarrow> 'o pval \<Rightarrow> 'o pval \<Rightarrow> 'o pval result" where
  "eval_binary ops oper left right =
     (if oper = ''='' then Inr (PBool (py_eq ops left right))
      else if oper = ''!='' then Inr (PBool (\<not> py_eq ops left right))
      else if oper = ''<'' then truth (unless_none (py_less ops left right) left right False)
      else if oper = ''>'' then truth (unless_none (py_less ops right left) left right False)
      else if oper = ''<='' then truth (unless_none (py_less_eq ops left right) left right False)
      else if oper = ''>='' then truth (unless_none (py_less_eq ops right left) left right False)
      else if oper = ''+'' then unless_none (py_add ops left right) left right PNone
      else if oper = ''-'' then unless_none (py_sub ops left right) left right PNone
      else if oper = ''*'' then unless_none (py_mul ops left right) left right PNone
      else if oper = ''/'' then
        if py_eq ops right (PInt 0) then Inr PNone else unless_none (py_div ops left right) left right PNone
      else if oper = ''AND'' then Inr (PBool (py_bool ops left \<and> py_bool ops right))
      else if oper = ''OR'' then Inr (PBool (py_bool ops left \<or> py_bool ops right))
      else if oper = ''IS'' then Inr (PBool (py_is ops left right))
      else if oper = ''IS NOT'' then Inr (PBool (\<not> py_is ops left right))
      else Inr PNone)"

definition eval_unary :: "'o py_ops \<Rightarrow> string \<Rightarrow> 'o pval \<Rightarrow> 'o pval result" where
  "eval_unary ops oper v =
     (if oper = ''NOT'' then Inr (PBool (\<not> py_bool ops v))
      else if oper = ''-'' then if v \<noteq> PNone then py_neg ops v else Inr PNone
      else Inr v)"

text \<open>
  \<^verbatim>\<open>_match_like\<close>: the regular expression \<^verbatim>\<open>^...$\<close> in which a percent sign stands for any run without line
  feeds and an underscore for one character but a line feed; the end may be before a final line feed.
\<close>

fun match_like :: "pystr \<Rightarrow> pystr \<Rightarrow> bool" where
  "match_like [] s \<longleftrightarrow> s = [] \<or> s = [10]"
| "match_like (c # p) [] \<longleftrightarrow> c = 37 \<and> match_like p []"
| "match_like (c # p) (d # s) \<longleftrightarrow>
     (if c = 37 then match_like p (d # s) \<or> d \<noteq> 10 \<and> match_like (c # p) s
      else if c = 95 then d \<noteq> 10 \<and> match_like p s
      else c = d \<and> match_like p s)"

text \<open>The aggregate functions, over the values of the arguments on the rows, \<^verbatim>\<open>None\<close> left out.\<close>

fun py_sum :: "'o py_ops \<Rightarrow> 'o pval \<Rightarrow> 'o pval list \<Rightarrow> 'o pval result" where
  "py_sum ops acc [] = Inr acc"
| "py_sum ops acc (v # vs) = res_bind (py_add ops acc v) (\<lambda>acc. py_sum ops acc vs)"

fun py_min :: "'o py_ops \<Rightarrow> 'o pval \<Rightarrow> 'o pval list \<Rightarrow> 'o pval result" where
  "py_min ops best [] = Inr best"
| "py_min ops best (v # vs) = res_bind (py_less ops v best) (\<lambda>b. py_min ops (if b then v else best) vs)"

fun py_max :: "'o py_ops \<Rightarrow> 'o pval \<Rightarrow> 'o pval list \<Rightarrow> 'o pval result" where
  "py_max ops best [] = Inr best"
| "py_max ops best (v # vs) = res_bind (py_less ops best v) (\<lambda>b. py_max ops (if b then v else best) vs)"

text \<open>Sets keep the first of equal values.\<close>

fun distinct_values :: "'o py_ops \<Rightarrow> 'o pval list \<Rightarrow> 'o pval list \<Rightarrow> 'o pval list" where
  "distinct_values ops acc [] = acc"
| "distinct_values ops acc (v # vs) =
     distinct_values ops (if list_ex (\<lambda>w. w = v \<or> py_eq ops w v) acc then acc else acc @ [v]) vs"

definition aggregates :: "string set" where
  "aggregates = {''COUNT'', ''SUM'', ''AVG'', ''MIN'', ''MAX''}"

definition aggregate_values ::
  "'o py_ops \<Rightarrow> string \<Rightarrow> 'o pval list \<Rightarrow> 'o pval result" where
  "aggregate_values ops name vals =
     (let vs = filter (\<lambda>v. v \<noteq> PNone) vals in
      if vs = [] then Inr PNone
      else if name = ''SUM'' then py_sum ops (PInt 0) vs
      else if name = ''AVG'' then res_bind (py_sum ops (PInt 0) vs) (\<lambda>s. py_div ops s (PInt (ilen vs)))
      else if name = ''MIN'' then py_min ops (hd vs) (tl vs)
      else if name = ''MAX'' then py_max ops (hd vs) (tl vs)
      else Inr PNone)"

text \<open>\<^verbatim>\<open>_evaluate_aggregate\<close>, its evaluation of the arguments on the rows given as a function.\<close>

definition evaluate_aggregate ::
  "'o py_ops \<Rightarrow> ('e \<Rightarrow> 'r \<Rightarrow> 'o pval result) \<Rightarrow> string \<Rightarrow> 'e list \<Rightarrow> bool \<Rightarrow> 'r list \<Rightarrow> 'o pval result" where
  "evaluate_aggregate ops ev name args dist rows =
     (if upper name = ''COUNT'' then
        if dist \<and> args \<noteq> []
        then res_bind (res_map (\<lambda>(arg, row). res_bind (ev arg row) (\<lambda>v.
               if py_hashable ops v then Inr v else Inl TypeError)) (List.product args rows))
               (\<lambda>vs. Inr (PInt (ilen (distinct_values ops [] vs))))
        else Inr (PInt (ilen rows))
      else res_bind (res_map (\<lambda>(arg, row). ev arg row) (List.product args rows))
             (aggregate_values ops (upper name)))"

text \<open>\<^verbatim>\<open>list(results[0].values())[0]\<close>, or \<^verbatim>\<open>None\<close> without results.\<close>

definition scalar_of :: "'o row list \<Rightarrow> 'o pval result" where
  "scalar_of results =
     (case results of [] \<Rightarrow> Inr PNone | [] # _ \<Rightarrow> Inl IndexError | ((_, v) # _) # _ \<Rightarrow> Inr v)"

text \<open>The loops of \<^verbatim>\<open>IN\<close> and \<^verbatim>\<open>CASE\<close>, with the evaluation of the parts given as a function.\<close>

fun in_loop :: "'o py_ops \<Rightarrow> ('e \<Rightarrow> 'o pval result) \<Rightarrow> 'o pval \<Rightarrow> 'e list \<Rightarrow> bool result" where
  "in_loop ops ev val [] = Inr False"
| "in_loop ops ev val (e # es) =
     res_bind (ev e) (\<lambda>v. if py_eq ops v val then Inr True else in_loop ops ev val es)"

fun case_loop ::
  "'o py_ops \<Rightarrow> ('e \<Rightarrow> 'o pval result) \<Rightarrow> 'e list \<Rightarrow> 'e list \<Rightarrow> 'e option \<Rightarrow> 'o pval result" where
  "case_loop ops ev [] results otherwise = (case otherwise of None \<Rightarrow> Inr PNone | Some e \<Rightarrow> ev e)"
| "case_loop ops ev (c # cs) results otherwise =
     res_bind (ev c) (\<lambda>v.
       if py_bool ops v then (case results of [] \<Rightarrow> Inl IndexError | r # _ \<Rightarrow> ev r)
       else case_loop ops ev cs (tl results) otherwise)"

lemma res_map_cong [fundef_cong]:
  "xs = ys \<Longrightarrow> (\<And>x. x \<in> set ys \<Longrightarrow> f x = g x) \<Longrightarrow> res_map f xs = res_map g ys"
  by (induction xs arbitrary: ys) auto

lemma evaluate_aggregate_cong [fundef_cong]:
  "args = args' \<Longrightarrow> rows = rows' \<Longrightarrow> (\<And>a r. a \<in> set args' \<Longrightarrow> r \<in> set rows' \<Longrightarrow> ev a r = ev' a r) \<Longrightarrow>
   evaluate_aggregate ops ev name args dist rows = evaluate_aggregate ops ev' name args' dist rows'"
  by (auto simp: evaluate_aggregate_def intro!: arg_cong2 [where f = res_bind] res_map_cong)

lemma in_loop_cong [fundef_cong]:
  "val = val' \<Longrightarrow> es = es' \<Longrightarrow> (\<And>e. e \<in> set es' \<Longrightarrow> ev e = ev' e) \<Longrightarrow>
   in_loop ops ev val es = in_loop ops ev' val' es'"
  by (induction es arbitrary: es') (auto intro!: arg_cong2 [where f = res_bind] ext)

lemma case_loop_cong [fundef_cong]:
  assumes "cs = cs'" and "rs = rs'" and "d = d'"
    and "\<And>e. e \<in> set cs' \<Longrightarrow> ev e = ev' e" and "\<And>e. e \<in> set rs' \<Longrightarrow> ev e = ev' e"
    and "\<And>e. d' = Some e \<Longrightarrow> ev e = ev' e"
  shows "case_loop ops ev cs rs d = case_loop ops ev' cs' rs' d'"
proof -
  have "(\<forall>e \<in> set cs. ev e = ev' e) \<Longrightarrow> (\<forall>e \<in> set rs. ev e = ev' e) \<Longrightarrow> (\<forall>e. d = Some e \<longrightarrow> ev e = ev' e) \<Longrightarrow>
      case_loop ops ev cs rs d = case_loop ops ev' cs rs d"
  proof (induction cs arbitrary: rs)
    case (Cons c cs)
    have "case_loop ops ev cs (tl rs) d = case_loop ops ev' cs (tl rs) d"
      using Cons.prems by (intro Cons.IH) (auto dest: list.set_sel(2) [rotated], (cases rs; simp)?)
    then show ?case
      using Cons.prems by (auto split: list.split intro!: arg_cong2 [where f = res_bind] ext)
  qed (auto split: option.split)
  with assms show ?thesis by simp
qed

text \<open>\<^verbatim>\<open>_evaluate_expression\<close>; \<open>sub\<close> executes the plan of a subquery.\<close>

fun evaluate_expression ::
  "'o py_ops \<Rightarrow> ('o select_stmt \<Rightarrow> 'o row list result) \<Rightarrow> 'o expr \<Rightarrow> 'o row \<Rightarrow> 'o pval result" where
  "evaluate_expression ops sub (LiteralExpr v) row = Inr v"
| "evaluate_expression ops sub (ColumnExpr name _) row = Inr (column_value name row)"
| "evaluate_expression ops sub (BinaryExpr oper l r) row =
     res_bind (evaluate_expression ops sub l row) (\<lambda>left.
     res_bind (evaluate_expression ops sub r row) (\<lambda>right. eval_binary ops oper left right))"
| "evaluate_expression ops sub (UnaryExpr oper e) row =
     res_bind (evaluate_expression ops sub e row) (eval_unary ops oper)"
| "evaluate_expression ops sub (FunctionExpr name args dist) row =
     (if upper name \<in> aggregates
      then evaluate_aggregate ops (evaluate_expression ops sub) name args dist [row]
      else Inr PNone)"
| "evaluate_expression ops sub (BetweenExpr e low high) row =
     res_bind (evaluate_expression ops sub e row) (\<lambda>v.
     res_bind (evaluate_expression ops sub low row) (\<lambda>l.
     res_bind (evaluate_expression ops sub high row) (\<lambda>h.
     truth (res_bind (py_less_eq ops l v) (\<lambda>b. if b then py_less_eq ops v h else Inr False)))))"
| "evaluate_expression ops sub (InExpr e es) row =
     res_bind (evaluate_expression ops sub e row) (\<lambda>v.
     truth (in_loop ops (\<lambda>e. evaluate_expression ops sub e row) v es))"
| "evaluate_expression ops sub (LikeExpr e p) row =
     res_bind (evaluate_expression ops sub e row) (\<lambda>v.
     res_bind (evaluate_expression ops sub p row) (\<lambda>pat.
       if v = PNone \<or> pat = PNone then Inr (PBool False)
       else Inr (PBool (match_like (py_str ops pat) (py_str ops v)))))"
| "evaluate_expression ops sub (CaseExpr conds results otherwise) row =
     case_loop ops (\<lambda>e. evaluate_expression ops sub e row) conds results otherwise"
| "evaluate_expression ops sub (StarExpr _) row = Inr (PRow row)"
| "evaluate_expression ops sub (SubqueryExpr s) row = res_bind (sub s) scalar_of"

end
