(* ===== verification/SqlPlan.thy ===== *)
theory SqlPlan
  imports SqlExpr
begin

text \<open>
  Statements, plans, the planner (\<^verbatim>\<open>database/src/sql/planner.py\<close>) and the optimizer
  (\<^verbatim>\<open>database/src/sql/optimizer.py\<close>).  Estimated costs, cardinalities and output schemas of plan nodes are
  left out: execution does not look at them.  The optimizer changes plans and expressions in place; the model
  returns the changed plan.
\<close>

section \<open>Statements\<close>

record 'o column_def =
  cd_name :: string
  cd_data_type :: string
  cd_nullable :: bool
  cd_primary_key :: bool
  cd_unique :: bool
  cd_default :: "'o expr option"

datatype 'o statement =
    SelectStatement "'o select_stmt"
  | InsertStatement string "string list" "'o expr list list"
  | CreateStatement string string "'o column_def list" bool
  | DropStatement string string bool
  | DeleteStatement string "'o expr option"
  | UpdateStatement string "(string \<times> 'o expr) list" "'o expr option"
  | AlterStatement string string "'o column_def option" "string option"
  | UseStatement string
  | ShowStatement string
  | TransactionStatement string
  | ExplainStatement "'o statement"
  | OtherStatement

section \<open>Plans\<close>

datatype plan_type =
    SEQUENTIAL_SCAN | INDEX_SCAN | FILTER | PROJECTION | INSERT | CREATE_TABLE | CREATE_DATABASE
  | DROP_TABLE | DROP_DATABASE | DELETE | UPDATE | NESTED_LOOP_JOIN | HASH_JOIN | SORT | LIMIT | AGGREGATE
  | DISTINCT | EXPLAIN | USE_DATABASE | SHOW | TRANSACTION | ALTER_TABLE | VECTOR_INDEX_SCAN | DOCUMENT_SCAN

record 'o plan_attrs =
  pa_table_name :: "string option"
  pa_table_alias :: "string option"
  pa_database_name :: "string option"
  pa_columns :: "string list"
  pa_expressions :: "'o expr list"
  pa_where_clause :: "'o expr option"
  pa_set_clauses :: "(string \<times> 'o expr) list"
  pa_values :: "'o expr list list"
  pa_column_defs :: "'o column_def list"
  pa_join_type :: "string option"
  pa_join_condition :: "'o expr option"
  pa_order_by :: "'o order_item list"
  pa_limit_count :: "int option"
  pa_offset_count :: "int option"
  pa_group_by :: "'o expr list"
  pa_having :: "'o expr option"
  pa_is_distinct :: bool
  pa_object_type :: "string option"
  pa_action :: "string option"
  pa_column_name :: "string option"
  pa_statement :: "'o statement option"

datatype 'o plan_node = PlanNode (node_type: plan_type) (node_children: "'o plan_node list") (node_attrs: "'o plan_attrs")

definition plan_defaults :: "'o plan_attrs" where
  "plan_defaults =
     \<lparr>pa_table_name = None, pa_table_alias = None, pa_database_name = None, pa_columns = [], pa_expressions = [],
      pa_where_clause = None, pa_set_clauses = [], pa_values = [], pa_column_defs = [], pa_join_type = None,
      pa_join_condition = None, pa_order_by = [], pa_limit_count = None, pa_offset_count = None, pa_group_by = [],
      pa_having = None, pa_is_distinct = False, pa_object_type = None, pa_action = None, pa_column_name = None,
      pa_statement = None\<rparr>"

section \<open>The planner\<close>

fun expr_has_aggregates :: "'o expr \<Rightarrow> bool" where
  "expr_has_aggregates (FunctionExpr name _ _) \<longleftrightarrow> upper name \<in> aggregates"
| "expr_has_aggregates (BinaryExpr _ l r) \<longleftrightarrow> expr_has_aggregates l \<or> expr_has_aggregates r"
| "expr_has_aggregates (UnaryExpr _ e) \<longleftrightarrow> expr_has_aggregates e"
| "expr_has_aggregates (CaseExpr conds results otherwise) \<longleftrightarrow>
     list_ex expr_has_aggregates conds \<or> list_ex expr_has_aggregates results \<or>
     (case otherwise of None \<Rightarrow> False | Some e \<Rightarrow> expr_has_aggregates e)"
| "expr_has_aggregates _ \<longleftrightarrow> False"

definition has_aggregates :: "'o expr list \<Rightarrow> bool" where
  "has_aggregates es \<longleftrightarrow> list_ex expr_has_aggregates es"

text \<open>The layers that \<^verbatim>\<open>_plan_select\<close> puts around the scan, each if its clause is there.\<close>

definition plan_scan :: "'o select_stmt \<Rightarrow> 'o plan_node" where
  "plan_scan stmt =
     PlanNode SEQUENTIAL_SCAN []
       (plan_defaults\<lparr>pa_table_name := sel_from stmt, pa_table_alias := sel_alias stmt\<rparr>)"

definition plan_where :: "'o select_stmt \<Rightarrow> 'o plan_node \<Rightarrow> 'o plan_node" where
  "plan_where stmt node =
     (if sel_where stmt \<noteq> None
      then PlanNode FILTER [node] (plan_defaults\<lparr>pa_where_clause := sel_where stmt\<rparr>) else node)"

definition plan_join :: "'o join_clause \<Rightarrow> 'o plan_node \<Rightarrow> 'o plan_node" where
  "plan_join join node =
     PlanNode NESTED_LOOP_JOIN [node]
       (plan_defaults\<lparr>pa_table_name := Some (join_table join), pa_join_type := Some (join_kind join),
                      pa_join_condition := join_on join\<rparr>)"

definition plan_aggregate :: "'o select_stmt \<Rightarrow> 'o plan_node \<Rightarrow> 'o plan_node" where
  "plan_aggregate stmt node =
     (if sel_group_by stmt \<noteq> [] \<or> has_aggregates (sel_columns stmt)
      then PlanNode AGGREGATE [node]
             (plan_defaults\<lparr>pa_expressions := sel_columns stmt, pa_group_by := sel_group_by stmt,
                            pa_having := sel_having stmt\<rparr>)
      else node)"

definition plan_sort :: "'o select_stmt \<Rightarrow> 'o plan_node \<Rightarrow> 'o plan_node" where
  "plan_sort stmt node =
     (if sel_order_by stmt \<noteq> []
      then PlanNode SORT [node] (plan_defaults\<lparr>pa_order_by := sel_order_by stmt\<rparr>) else node)"

definition plan_distinct :: "'o select_stmt \<Rightarrow> 'o plan_node \<Rightarrow> 'o plan_node" where
  "plan_distinct stmt node =
     (if sel_distinct stmt then PlanNode DISTINCT [node] (plan_defaults\<lparr>pa_is_distinct := True\<rparr>) else node)"

definition plan_projection :: "'o select_stmt \<Rightarrow> 'o plan_node \<Rightarrow> 'o plan_node" where
  "plan_projection stmt node =
     (if sel_columns stmt \<noteq> []
      then PlanNode PROJECTION [node] (plan_defaults\<lparr>pa_expressions := sel_columns stmt\<rparr>) else node)"

definition plan_limit :: "'o select_stmt \<Rightarrow> 'o plan_node \<Rightarrow> 'o plan_node" where
  "plan_limit stmt node =
     (if sel_limit stmt \<noteq> None \<or> sel_offset stmt \<noteq> None
      then PlanNode LIMIT [node]
             (plan_defaults\<lparr>pa_limit_count := sel_limit stmt, pa_offset_count := sel_offset stmt\<rparr>)
      else node)"

definition plan_select :: "'o select_stmt \<Rightarrow> 'o plan_node" where
  "plan_select stmt =
     plan_limit stmt (plan_projection stmt (plan_distinct stmt (plan_sort stmt (plan_aggregate stmt
       (fold plan_join (sel_joins stmt) (plan_where stmt (plan_scan stmt)))))))"

definition plan_insert :: "string \<Rightarrow> string list \<Rightarrow> 'o expr list list \<Rightarrow> 'o plan_node" where
  "plan_insert table_name columns vals =
     PlanNode INSERT [] (plan_defaults\<lparr>pa_table_name := Some table_name, pa_columns := columns, pa_values := vals\<rparr>)"

definition plan_delete :: "string \<Rightarrow> 'o expr option \<Rightarrow> 'o plan_node" where
  "plan_delete table_name cond =
     PlanNode DELETE [] (plan_defaults\<lparr>pa_table_name := Some table_name, pa_where_clause := cond\<rparr>)"

definition plan_update :: "string \<Rightarrow> (string \<times> 'o expr) list \<Rightarrow> 'o expr option \<Rightarrow> 'o plan_node" where
  "plan_update table_name clauses cond =
     PlanNode UPDATE []
       (plan_defaults\<lparr>pa_table_name := Some table_name, pa_set_clauses := clauses, pa_where_clause := cond\<rparr>)"

text \<open>\<^verbatim>\<open>_plan_create\<close> and \<^verbatim>\<open>_plan_drop\<close> pass the argument \<^verbatim>\<open>name\<close>, which \<^verbatim>\<open>PlanNode\<close> does not have.\<close>

definition plan_create :: "string \<Rightarrow> string \<Rightarrow> 'o column_def list \<Rightarrow> bool \<Rightarrow> 'o plan_node result" where
  "plan_create object_type name columns if_not_exists = Inl TypeError"

definition plan_drop :: "string \<Rightarrow> string \<Rightarrow> bool \<Rightarrow> 'o plan_node result" where
  "plan_drop object_type name if_exists = Inl TypeError"

definition plan_alter :: "string \<Rightarrow> string \<Rightarrow> 'o column_def option \<Rightarrow> string option \<Rightarrow> 'o plan_node" where
  "plan_alter table_name action column column_name =
     PlanNode ALTER_TABLE []
       (plan_defaults\<lparr>pa_table_name := Some table_name, pa_action := Some action,
          pa_column_name := (case column_name of Some n \<Rightarrow> if n \<noteq> [] then Some n else None | None \<Rightarrow> None),
          pa_column_defs := (case column of Some c \<Rightarrow> [c] | None \<Rightarrow> [])\<rparr>)"

definition plan_use :: "string \<Rightarrow> 'o plan_node" where
  "plan_use name = PlanNode USE_DATABASE [] (plan_defaults\<lparr>pa_database_name := Some name\<rparr>)"

definition plan_show :: "string \<Rightarrow> 'o plan_node" where
  "plan_show object_type = PlanNode SHOW [] (plan_defaults\<lparr>pa_object_type := Some object_type\<rparr>)"

definition plan_transaction :: "string \<Rightarrow> 'o plan_node" where
  "plan_transaction action = PlanNode TRANSACTION [] (plan_defaults\<lparr>pa_action := Some action\<rparr>)"

fun create_plan :: "'o statement \<Rightarrow> 'o plan_node result" where
  "create_plan (SelectStatement s) = Inr (plan_select s)"
| "create_plan (InsertStatement t columns vals) = Inr (plan_insert t columns vals)"
| "create_plan (CreateStatement ty name columns ine) = plan_create ty name columns ine"
| "create_plan (DeleteStatement t cond) = Inr (plan_delete t cond)"
| "create_plan (UpdateStatement t clauses cond) = Inr (plan_update t clauses cond)"
| "create_plan (DropStatement ty name ie) = plan_drop ty name ie"
| "create_plan (AlterStatement t action column name) = Inr (plan_alter t action column name)"
| "create_plan (UseStatement name) = Inr (plan_use name)"
| "create_plan (ShowStatement ty) = Inr (plan_show ty)"
| "create_plan (TransactionStatement action) = Inr (plan_transaction action)"
| "create_plan (ExplainStatement s) =
     res_bind (create_plan s) (\<lambda>inner.
       Inr (PlanNode EXPLAIN [inner] (plan_defaults\<lparr>pa_statement := Some s\<rparr>)))"
| "create_plan OtherStatement = Inl ValueError"

section \<open>The optimizer\<close>

text \<open>The body of the \<^verbatim>\<open>try\<close> in \<^verbatim>\<open>_fold_expression\<close>: the literal, or nothing if no branch applies.\<close>

definition fold_binary :: "'o py_ops \<Rightarrow> string \<Rightarrow> 'o pval \<Rightarrow> 'o pval \<Rightarrow> 'o pval option result" where
  "fold_binary ops oper left right =
     (if oper = ''+'' then res_bind (py_add ops left right) (\<lambda>v. Inr (Some v))
      else if oper = ''-'' then res_bind (py_sub ops left right) (\<lambda>v. Inr (Some v))
      else if oper = ''*'' then res_bind (py_mul ops left right) (\<lambda>v. Inr (Some v))
      else if oper = ''/'' then
        if \<not> py_eq ops right (PInt 0) then res_bind (py_div ops left right) (\<lambda>v. Inr (Some v)) else Inr None
      else if oper = ''='' then Inr (Some (PBool (py_eq ops left right)))
      else if oper = ''!='' then Inr (Some (PBool (\<not> py_eq ops left right)))
      else if oper = ''<'' then res_bind (truth (py_less ops left right)) (\<lambda>v. Inr (Some v))
      else if oper = ''>'' then res_bind (truth (py_less ops right left)) (\<lambda>v. Inr (Some v))
      else if oper = ''<='' then res_bind (truth (py_less_eq ops left right)) (\<lambda>v. Inr (Some v))
      else if oper = ''>='' then res_bind (truth (py_less_eq ops right left)) (\<lambda>v. Inr (Some v))
      else if oper = ''AND'' then Inr (Some (PBool (py_bool ops left \<and> py_bool ops right)))
      else if oper = ''OR'' then Inr (Some (PBool (py_bool ops left \<or> py_bool ops right)))
      else Inr None)"

fun fold_expression :: "'o py_ops \<Rightarrow> 'o expr \<Rightarrow> 'o expr result" where
  "fold_expression ops (BinaryExpr oper l r) =
     res_bind (fold_expression ops l) (\<lambda>left.
     res_bind (fold_expression ops r) (\<lambda>right.
       case (left, right) of
         (LiteralExpr v, LiteralExpr w) \<Rightarrow>
           (case fold_binary ops oper v w of
              Inr (Some x) \<Rightarrow> Inr (LiteralExpr x)
            | Inr None \<Rightarrow> Inr (BinaryExpr oper left right)
            | Inl e \<Rightarrow> if e \<in> {TypeError, ValueError} then Inr (BinaryExpr oper left right) else Inl e)
       | _ \<Rightarrow> Inr (BinaryExpr oper left right)))"
| "fold_expression ops (UnaryExpr oper e) =
     res_bind (fold_expression ops e) (\<lambda>operand.
       case operand of
         LiteralExpr v \<Rightarrow>
           if oper = ''-'' then res_bind (py_neg ops v) (\<lambda>w. Inr (LiteralExpr w))
           else if oper = ''NOT'' then Inr (LiteralExpr (PBool (\<not> py_bool ops v)))
           else Inr (UnaryExpr oper operand)
       | _ \<Rightarrow> Inr (UnaryExpr oper operand))"
| "fold_expression ops e = Inr e"

definition constant_folding :: "'o py_ops \<Rightarrow> 'o plan_node \<Rightarrow> 'o plan_node result" where
  "constant_folding ops node =
     (let a = node_attrs node in
      res_bind (case pa_where_clause a of
                  None \<Rightarrow> Inr None
                | Some e \<Rightarrow> res_bind (fold_expression ops e) (\<lambda>e. Inr (Some e))) (\<lambda>w.
      res_bind (res_map (fold_expression ops) (pa_expressions a)) (\<lambda>es.
        Inr (PlanNode (node_type node) (node_children node) (a\<lparr>pa_where_clause := w, pa_expressions := es\<rparr>)))))"

text \<open>The conjunction that replaces two adjacent filters.\<close>

definition conjoin :: "'o expr \<Rightarrow> 'o expr \<Rightarrow> 'o expr" where
  "conjoin outer inner = BinaryExpr ''AND'' outer inner"

definition set_where :: "'o expr option \<Rightarrow> 'o plan_node \<Rightarrow> 'o plan_node" where
  "set_where w node = PlanNode (node_type node) (node_children node) ((node_attrs node)\<lparr>pa_where_clause := w\<rparr>)"

definition combine_filters :: "'o plan_node \<Rightarrow> 'o plan_node" where
  "combine_filters node =
     (case node_children node of
        [] \<Rightarrow> node
      | child # _ \<Rightarrow>
          if node_type node = FILTER \<and> node_type child = FILTER
          then (case (pa_where_clause (node_attrs node), pa_where_clause (node_attrs child)) of
                  (Some w, Some v) \<Rightarrow> set_where (Some (conjoin w v)) child
                | _ \<Rightarrow> node)
          else node)"

definition predicate_pushdown :: "'o plan_node \<Rightarrow> 'o plan_node" where
  "predicate_pushdown node =
     (case node_children node of
        [] \<Rightarrow> node
      | child # _ \<Rightarrow>
          if node_type node = FILTER
          then (case (pa_where_clause (node_attrs node), pa_where_clause (node_attrs child)) of
                  (Some w, Some v) \<Rightarrow>
                    if node_type child = FILTER then set_where (Some (conjoin w v)) child
                    else if node_type child \<in> {SEQUENTIAL_SCAN, INDEX_SCAN} then set_where (Some w) child
                    else node
                | (w, _) \<Rightarrow>
                    if node_type child \<in> {SEQUENTIAL_SCAN, INDEX_SCAN} then set_where w child else node)
          else node)"

fun optimize_node :: "'o py_ops \<Rightarrow> 'o plan_node \<Rightarrow> 'o plan_node result" where
  "optimize_node ops (PlanNode ty cs a) =
     res_bind (res_map (optimize_node ops) cs) (\<lambda>cs.
     res_bind (constant_folding ops (predicate_pushdown (PlanNode ty cs a))) (\<lambda>node.
       Inr (combine_filters node)))"

text \<open>\<^verbatim>\<open>optimize\<close>, without the sum of the costs.\<close>

definition optimize :: "'o py_ops \<Rightarrow> 'o plan_node \<Rightarrow> 'o plan_node result" where
  "optimize ops root = optimize_node ops root"

end
