(* ===== verification/SqlCatalog.thy ===== *)
theory SqlCatalog
  imports SqlTypes Py_State "HOL-Library.AList"
begin

text \<open>
  The system catalog of the SQL engine, \<^verbatim>\<open>database/src/sql/catalog.py\<close>: databases, tables and columns in
  memory, and the JSON document on disk that every change rewrites.

  Names are ASCII texts; dictionaries are association lists in insertion order.  Default values of columns are
  opaque: \<^verbatim>\<open>default_json\<close> says what a JSON document makes of one, or that it has no JSON form, and
  \<^verbatim>\<open>default_same\<close> is Python's identity or equality on them.  A document that cannot be parsed is
  \<^verbatim>\<open>Broken\<close>; a parsed one has the shape that \<^verbatim>\<open>to_dict\<close> gives it, but any key may be missing.  Methods
  work on the objects that the catalog owns: the list of columns that a caller passes is copied into it.
  The file system does not fail, and one thread at a time is inside the lock.
\<close>

section \<open>Columns, tables and databases\<close>

record 'v column_info =
  ci_name :: string
  ci_type :: sql_type
  ci_nullable :: bool
  ci_default :: 'v
  ci_primary_key :: bool
  ci_unique :: bool
  ci_indexed :: bool

record 'v table_info =
  ti_name :: string
  ti_columns :: "'v column_info list"
  ti_primary_key :: "string option"
  ti_row_count :: int
  ti_storage_path :: "string option"
  ti_table_id :: int
  ti_column_map :: "(string \<times> 'v column_info) list"

record 'v database_info =
  di_name :: string
  di_tables :: "(string \<times> 'v table_info) list"
  di_path :: "string option"

record 'v catalog_env =
  default_json :: "'v \<Rightarrow> 'v option"
  default_same :: "'v \<Rightarrow> 'v \<Rightarrow> bool"
  no_default :: 'v

text \<open>The documents: what \<^verbatim>\<open>to_dict\<close> writes, each key present or not.\<close>

record 'v saved_column =
  sc_name :: "string option"
  sc_type :: "string option"
  sc_nullable :: "bool option"
  sc_default :: "'v option"
  sc_primary_key :: "bool option"
  sc_unique :: "bool option"
  sc_indexed :: "bool option"

record 'v saved_table =
  st_name :: "string option"
  st_columns :: "'v saved_column list option"
  st_primary_key :: "string option"
  st_row_count :: "int option"
  st_table_id :: "int option"

record 'v saved_database =
  sd_name :: "string option"
  sd_tables :: "(string \<times> 'v saved_table) list option"

record 'v saved_catalog =
  sv_databases :: "'v saved_database list option"
  sv_next_table_id :: "int option"

datatype 'v disk = Absent | Broken | Document "'v saved_catalog"

definition column_to_dict :: "'v column_info \<Rightarrow> 'v saved_column" where
  "column_to_dict c =
     \<lparr>sc_name = Some (ci_name c), sc_type = Some (type_name (ci_type c)), sc_nullable = Some (ci_nullable c),
      sc_default = Some (ci_default c), sc_primary_key = Some (ci_primary_key c),
      sc_unique = Some (ci_unique c), sc_indexed = Some (ci_indexed c)\<rparr>"

text \<open>\<^verbatim>\<open>data[key]\<close> and \<^verbatim>\<open>data.get(key, default)\<close>.\<close>

definition required :: "'a option \<Rightarrow> 'a result" where
  "required x = (case x of None \<Rightarrow> Inl KeyError | Some v \<Rightarrow> Inr v)"

definition get_or :: "'a \<Rightarrow> 'a option \<Rightarrow> 'a" where
  "get_or d x = (case x of None \<Rightarrow> d | Some v \<Rightarrow> v)"

definition column_from_dict :: "'v catalog_env \<Rightarrow> 'v saved_column \<Rightarrow> 'v column_info result" where
  "column_from_dict env d =
     res_bind (required (sc_name d)) (\<lambda>name.
     res_bind (required (sc_type d)) (\<lambda>ty.
     res_bind (parse_type_string ty) (\<lambda>data_type.
       Inr \<lparr>ci_name = name, ci_type = data_type, ci_nullable = get_or True (sc_nullable d),
            ci_default = get_or (no_default env) (sc_default d), ci_primary_key = get_or False (sc_primary_key d),
            ci_unique = get_or False (sc_unique d), ci_indexed = get_or False (sc_indexed d)\<rparr>)))"

text \<open>\<^verbatim>\<open>TableInfo(...)\<close> with \<^verbatim>\<open>__post_init__\<close>: a later column of the same name takes the entry of the map.\<close>

definition column_map_of :: "'v column_info list \<Rightarrow> (string \<times> 'v column_info) list" where
  "column_map_of cols = fold (\<lambda>c. AList.update (upper (ci_name c)) c) cols []"

definition table_info_new ::
  "string \<Rightarrow> 'v column_info list \<Rightarrow> string option \<Rightarrow> int \<Rightarrow> int \<Rightarrow> 'v table_info" where
  "table_info_new name cols pk rows tid =
     \<lparr>ti_name = name, ti_columns = cols, ti_primary_key = pk, ti_row_count = rows, ti_storage_path = None,
      ti_table_id = tid, ti_column_map = column_map_of cols\<rparr>"

definition get_column :: "string \<Rightarrow> 'v table_info \<Rightarrow> 'v column_info option" where
  "get_column name t = map_of (ti_column_map t) (upper name)"

definition has_column :: "string \<Rightarrow> 'v table_info \<Rightarrow> bool" where
  "has_column name t \<longleftrightarrow> upper name \<in> fst ` set (ti_column_map t)"

fun index_from :: "string \<Rightarrow> int \<Rightarrow> 'v column_info list \<Rightarrow> int result" where
  "index_from name i [] = Inl ValueError"
| "index_from name i (c # cols) = (if upper (ci_name c) = upper name then Inr i else index_from name (i + 1) cols)"

definition column_index :: "string \<Rightarrow> 'v table_info \<Rightarrow> int result" where
  "column_index name t = index_from name 0 (ti_columns t)"

definition table_to_dict :: "'v table_info \<Rightarrow> 'v saved_table" where
  "table_to_dict t =
     \<lparr>st_name = Some (ti_name t), st_columns = Some (map column_to_dict (ti_columns t)),
      st_primary_key = ti_primary_key t, st_row_count = Some (ti_row_count t), st_table_id = Some (ti_table_id t)\<rparr>"

definition table_from_dict :: "'v catalog_env \<Rightarrow> 'v saved_table \<Rightarrow> 'v table_info result" where
  "table_from_dict env d =
     res_bind (required (st_name d)) (\<lambda>name.
     res_bind (res_map (column_from_dict env) (get_or [] (st_columns d))) (\<lambda>cols.
       Inr (table_info_new name cols (st_primary_key d) (get_or 0 (st_row_count d)) (get_or 0 (st_table_id d)))))"

definition db_get_table :: "string \<Rightarrow> 'v database_info \<Rightarrow> 'v table_info option" where
  "db_get_table name db = map_option snd (find (\<lambda>(k, _). upper k = upper name) (di_tables db))"

definition database_to_dict :: "'v database_info \<Rightarrow> 'v saved_database" where
  "database_to_dict db =
     \<lparr>sd_name = Some (di_name db), sd_tables = Some (map (\<lambda>(k, t). (k, table_to_dict t)) (di_tables db))\<rparr>"

definition database_from_dict :: "'v catalog_env \<Rightarrow> 'v saved_database \<Rightarrow> 'v database_info result" where
  "database_from_dict env d =
     res_bind (required (sd_name d)) (\<lambda>name.
     res_bind (res_map (\<lambda>(k, t). res_bind (table_from_dict env t) (\<lambda>t. Inr (k, t))) (get_or [] (sd_tables d)))
       (\<lambda>tables. Inr \<lparr>di_name = name, di_tables = tables, di_path = None\<rparr>))"

section \<open>The catalog\<close>

record 'v catalog =
  cat_databases :: "(string \<times> 'v database_info) list"
  cat_current :: "string option"
  cat_next_id :: int
  cat_disk :: "'v disk"

fun load_databases :: "'v catalog_env \<Rightarrow> 'v saved_database list \<Rightarrow> ('v catalog, unit) st" where
  "load_databases env [] = st_return ()"
| "load_databases env (d # ds) =
     st_bind (st_result (database_from_dict env d)) (\<lambda>db.
     st_bind (st_update (\<lambda>s. s\<lparr>cat_databases := AList.update (upper (di_name db)) db (cat_databases s)\<rparr>)) (\<lambda>_.
     load_databases env ds))"

text \<open>\<^verbatim>\<open>_load\<close>: a document that does not parse or lacks a key is left as far as it was read.\<close>

definition catalog_load :: "'v catalog_env \<Rightarrow> ('v catalog, unit) st" where
  "catalog_load env s =
     (case cat_disk s of
        Document d \<Rightarrow>
          (case st_bind (load_databases env (get_or [] (sv_databases d)))
                  (\<lambda>_. st_update (\<lambda>s. s\<lparr>cat_next_id := get_or 1 (sv_next_table_id d)\<rparr>)) s of
             (Inl KeyError, s') \<Rightarrow> (Inr (), s')
           | (r, s') \<Rightarrow> (r, s'))
      | _ \<Rightarrow> (Inr (), s))"

text \<open>The constructor over the contents of the disk; an exception leaves no object.\<close>

definition catalog_new :: "'v catalog_env \<Rightarrow> 'v disk \<Rightarrow> 'v catalog result" where
  "catalog_new env d =
     (case catalog_load env \<lparr>cat_databases = [], cat_current = None, cat_next_id = 1, cat_disk = d\<rparr> of
        (Inl e, _) \<Rightarrow> Inl e
      | (Inr _, s) \<Rightarrow> Inr s)"

text \<open>The document with the defaults as JSON keeps them, if all of them have a JSON form.\<close>

definition json_column :: "'v catalog_env \<Rightarrow> 'v saved_column \<Rightarrow> 'v saved_column result" where
  "json_column env d =
     (case sc_default d of
        None \<Rightarrow> Inr d
      | Some v \<Rightarrow> (case default_json env v of None \<Rightarrow> Inl TypeError | Some w \<Rightarrow> Inr (d\<lparr>sc_default := Some w\<rparr>)))"

definition json_table :: "'v catalog_env \<Rightarrow> 'v saved_table \<Rightarrow> 'v saved_table result" where
  "json_table env d =
     res_bind (res_map (json_column env) (get_or [] (st_columns d))) (\<lambda>cols. Inr (d\<lparr>st_columns := Some cols\<rparr>))"

definition json_database :: "'v catalog_env \<Rightarrow> 'v saved_database \<Rightarrow> 'v saved_database result" where
  "json_database env d =
     res_bind (res_map (\<lambda>(k, t). res_bind (json_table env t) (\<lambda>t. Inr (k, t))) (get_or [] (sd_tables d)))
       (\<lambda>tables. Inr (d\<lparr>sd_tables := Some tables\<rparr>))"

text \<open>\<^verbatim>\<open>_save\<close>: the file is opened for writing, and so emptied, before \<^verbatim>\<open>json.dump\<close> meets such a default.\<close>

definition catalog_save :: "'v catalog_env \<Rightarrow> ('v catalog, unit) st" where
  "catalog_save env s =
     (case res_map (json_database env) (map (\<lambda>(_, db). database_to_dict db) (cat_databases s)) of
        Inl e \<Rightarrow> (Inl e, s\<lparr>cat_disk := Broken\<rparr>)
      | Inr dbs \<Rightarrow>
          (Inr (), s\<lparr>cat_disk := Document \<lparr>sv_databases = Some dbs, sv_next_table_id = Some (cat_next_id s)\<rparr>\<rparr>))"

definition create_database :: "'v catalog_env \<Rightarrow> string \<Rightarrow> ('v catalog, 'v database_info) st" where
  "create_database env name s =
     (let key = upper name in
      if key \<in> fst ` set (cat_databases s) then (Inl ValueError, s)
      else
        let db = \<lparr>di_name = name, di_tables = [], di_path = None\<rparr>
        in st_bind (catalog_save env) (\<lambda>_. st_return db)
             (s\<lparr>cat_databases := AList.update key db (cat_databases s)\<rparr>))"

definition drop_database :: "'v catalog_env \<Rightarrow> string \<Rightarrow> ('v catalog, unit) st" where
  "drop_database env name s =
     (let key = upper name in
      if key \<notin> fst ` set (cat_databases s) then (Inl ValueError, s)
      else
        let s1 = s\<lparr>cat_databases := AList.delete key (cat_databases s)\<rparr>;
            s2 = (case cat_current s1 of
                    Some c \<Rightarrow> if c \<noteq> [] \<and> upper c = key then s1\<lparr>cat_current := None\<rparr> else s1
                  | None \<Rightarrow> s1)
        in catalog_save env s2)"

definition get_database :: "string \<Rightarrow> 'v catalog \<Rightarrow> 'v database_info option" where
  "get_database name s = map_of (cat_databases s) (upper name)"

definition list_databases :: "'v catalog \<Rightarrow> string list" where
  "list_databases s = map (\<lambda>(_, db). di_name db) (cat_databases s)"

definition use_database :: "string \<Rightarrow> ('v catalog, unit) st" where
  "use_database name s =
     (if upper name \<notin> fst ` set (cat_databases s) then (Inl ValueError, s)
      else (Inr (), s\<lparr>cat_current := Some name\<rparr>))"

definition get_current_db :: "'v catalog \<Rightarrow> 'v database_info option" where
  "get_current_db s =
     (case cat_current s of None \<Rightarrow> None | Some c \<Rightarrow> map_of (cat_databases s) (upper c))"

text \<open>A change of the current database object.\<close>

definition change_current_db :: "('v database_info \<Rightarrow> 'v database_info) \<Rightarrow> 'v catalog \<Rightarrow> 'v catalog" where
  "change_current_db f s =
     (case cat_current s of
        None \<Rightarrow> s
      | Some c \<Rightarrow> s\<lparr>cat_databases := AList.map_entry (upper c) f (cat_databases s)\<rparr>)"

definition create_table ::
  "'v catalog_env \<Rightarrow> string \<Rightarrow> 'v column_info list \<Rightarrow> string option \<Rightarrow> ('v catalog, 'v table_info) st" where
  "create_table env table_name cols pk s =
     (case get_current_db s of
        None \<Rightarrow> (Inl ValueError, s)
      | Some db \<Rightarrow>
          let key = upper table_name in
          if key \<in> fst ` set (di_tables db) then (Inl ValueError, s)
          else
            let t = table_info_new table_name cols pk 0 (cat_next_id s);
                s1 = s\<lparr>cat_next_id := cat_next_id s + 1\<rparr>;
                s2 = change_current_db (\<lambda>db. db\<lparr>di_tables := AList.update key t (di_tables db)\<rparr>) s1
            in st_bind (catalog_save env) (\<lambda>_. st_return t) s2)"

definition drop_table :: "'v catalog_env \<Rightarrow> string \<Rightarrow> ('v catalog, unit) st" where
  "drop_table env table_name s =
     (case get_current_db s of
        None \<Rightarrow> (Inl ValueError, s)
      | Some db \<Rightarrow>
          let key = upper table_name in
          if key \<notin> fst ` set (di_tables db) then (Inl ValueError, s)
          else catalog_save env (change_current_db (\<lambda>db. db\<lparr>di_tables := AList.delete key (di_tables db)\<rparr>) s))"

definition get_table :: "string \<Rightarrow> 'v catalog \<Rightarrow> 'v table_info option" where
  "get_table table_name s = Option.bind (get_current_db s) (db_get_table table_name)"

definition list_tables :: "'v catalog \<Rightarrow> string list" where
  "list_tables s = (case get_current_db s of None \<Rightarrow> [] | Some db \<Rightarrow> map (\<lambda>(_, t). ti_name t) (di_tables db))"

text \<open>A change of the table object that \<^verbatim>\<open>get_table\<close> finds.\<close>

fun update_first :: "('a \<Rightarrow> bool) \<Rightarrow> ('a \<Rightarrow> 'a) \<Rightarrow> 'a list \<Rightarrow> 'a list" where
  "update_first P f [] = []"
| "update_first P f (x # xs) = (if P x then f x # xs else x # update_first P f xs)"

definition change_table :: "string \<Rightarrow> ('v table_info \<Rightarrow> 'v table_info) \<Rightarrow> 'v catalog \<Rightarrow> 'v catalog" where
  "change_table name f =
     change_current_db (\<lambda>db. db\<lparr>di_tables :=
       update_first (\<lambda>(k, _). upper k = upper name) (\<lambda>(k, t). (k, f t)) (di_tables db)\<rparr>)"

definition add_column :: "'v catalog_env \<Rightarrow> string \<Rightarrow> 'v column_info \<Rightarrow> ('v catalog, unit) st" where
  "add_column env table_name col s =
     (case get_table table_name s of
        None \<Rightarrow> (Inl ValueError, s)
      | Some t \<Rightarrow>
          if has_column (ci_name col) t then (Inl ValueError, s)
          else catalog_save env
            (change_table table_name (\<lambda>t. t\<lparr>ti_columns := ti_columns t @ [col],
               ti_column_map := AList.update (upper (ci_name col)) col (ti_column_map t)\<rparr>) s))"

text \<open>Equality of two columns, and \<^verbatim>\<open>columns.remove(col)\<close>.\<close>

definition column_same :: "'v catalog_env \<Rightarrow> 'v column_info \<Rightarrow> 'v column_info \<Rightarrow> bool" where
  "column_same env c d \<longleftrightarrow>
     c\<lparr>ci_default := ci_default d\<rparr> = d \<and> default_same env (ci_default c) (ci_default d)"

fun remove_column :: "'v catalog_env \<Rightarrow> 'v column_info \<Rightarrow> 'v column_info list \<Rightarrow> 'v column_info list result" where
  "remove_column env col [] = Inl ValueError"
| "remove_column env col (c # cols) =
     (if column_same env c col then Inr cols
      else res_bind (remove_column env col cols) (\<lambda>rest. Inr (c # rest)))"

definition drop_column :: "'v catalog_env \<Rightarrow> string \<Rightarrow> string \<Rightarrow> ('v catalog, unit) st" where
  "drop_column env table_name column_name s =
     (case get_table table_name s of
        None \<Rightarrow> (Inl ValueError, s)
      | Some t \<Rightarrow>
          (case get_column column_name t of
             None \<Rightarrow> (Inl ValueError, s)
           | Some col \<Rightarrow>
               (case remove_column env col (ti_columns t) of
                  Inl e \<Rightarrow> (Inl e, s)
                | Inr cols \<Rightarrow> catalog_save env
                    (change_table table_name (\<lambda>t. t\<lparr>ti_columns := cols,
                       ti_column_map := AList.delete (upper column_name) (ti_column_map t)\<rparr>) s))))"

definition update_row_count :: "string \<Rightarrow> int \<Rightarrow> 'v catalog \<Rightarrow> 'v catalog" where
  "update_row_count table_name delta s =
     (case get_table table_name s of
        None \<Rightarrow> s
      | Some _ \<Rightarrow> change_table table_name (\<lambda>t. t\<lparr>ti_row_count := max 0 (ti_row_count t + delta)\<rparr>) s)"

definition get_table_id :: "string \<Rightarrow> 'v catalog \<Rightarrow> int result" where
  "get_table_id table_name s =
     (case get_table table_name s of None \<Rightarrow> Inl ValueError | Some t \<Rightarrow> Inr (ti_table_id t))"

definition catalog_close :: "'v catalog_env \<Rightarrow> ('v catalog, unit) st" where
  "catalog_close env = catalog_save env"

end
