(* ===== verification/SqlExecutor.thy ===== *)
theory SqlExecutor
  imports SqlPlan SqlCatalog Transaction Py_Text
begin

text \<open>
  The executor of the SQL engine, \<^verbatim>\<open>database/src/sql/executor.py\<close>, over the catalog and the transaction
  manager.  The iterator of a query node is a stream: the rows it yields and the exception it ends with, if
  any; a consumer that stops early never sees the exception.  The data store, the vector and document stores
  and the clock are arguments, and so is the text of the estimated cost and cardinality of a node, which
  \<^verbatim>\<open>EXPLAIN\<close> prints.
\<close>

section \<open>Streams\<close>

type_synonym 'a stream = "'a list \<times> py_error option"

definition stream_of :: "'a list result \<Rightarrow> 'a stream" where
  "stream_of r = (case r of Inl e \<Rightarrow> ([], Some e) | Inr xs \<Rightarrow> (xs, None))"

text \<open>\<^verbatim>\<open>list(stream)\<close>.\<close>

definition list_of :: "'a stream \<Rightarrow> 'a list result" where
  "list_of s = (case snd s of None \<Rightarrow> Inr (fst s) | Some e \<Rightarrow> Inl e)"

text \<open>A generator that loops over a stream, yielding what \<open>f\<close> makes of each element, or raising.\<close>

fun stream_loop :: "('a \<Rightarrow> 'b list result) \<Rightarrow> 'a list \<Rightarrow> py_error option \<Rightarrow> 'b stream" where
  "stream_loop f [] e = ([], e)"
| "stream_loop f (x # xs) e =
     (case f x of
        Inl err \<Rightarrow> ([], Some err)
      | Inr ys \<Rightarrow> (let (zs, e') = stream_loop f xs e in (ys @ zs, e')))"

definition stream_map :: "('a \<Rightarrow> 'b list result) \<Rightarrow> 'a stream \<Rightarrow> 'b stream" where
  "stream_map f s = stream_loop f (fst s) (snd s)"

section \<open>The context\<close>

record ('o, 't) data_store =
  ds_rows :: "'t \<Rightarrow> string \<Rightarrow> 'o row list result"
  ds_insert :: "string \<Rightarrow> 'o row \<Rightarrow> 't \<Rightarrow> unit result \<times> 't"
  ds_delete :: "string \<Rightarrow> ('o row \<Rightarrow> bool result) \<Rightarrow> 't \<Rightarrow> int result \<times> 't"
  ds_update :: "string \<Rightarrow> (string \<times> 'o expr) list \<Rightarrow> ('o row \<Rightarrow> bool result) \<Rightarrow> 't \<Rightarrow> int result \<times> 't"

record ('o, 't, 'd, 'p) exec_env =
  ee_ops :: "'o py_ops"
  ee_catalog :: "'o pval catalog_env"
  ee_transactions :: "('d, 'p) env"
  ee_now :: pyfloat
  ee_store :: "('o, 't) data_store option"
  ee_vectors :: "(string \<Rightarrow> 'o row list result) option"
  ee_documents :: "(string \<Rightarrow> 'o expr option \<Rightarrow> 'o row list result) option"
  ee_expr_object :: "'o expr \<Rightarrow> 'o"
  ee_estimate :: "'o plan_node \<Rightarrow> string"

record ('o, 't, 'd, 'p) exec_state =
  ex_catalog :: "'o pval catalog"
  ex_store :: 't
  ex_manager :: "('d, 'p) txn_manager option"
  ex_current :: "nat option"

definition get_table_data :: "('o, 't, 'd, 'p) exec_env \<Rightarrow> 't \<Rightarrow> string \<Rightarrow> 'o row list result" where
  "get_table_data env st name = (case ee_store env of None \<Rightarrow> Inr [] | Some ds \<Rightarrow> ds_rows ds st name)"

section \<open>Query nodes\<close>

text \<open>Rows are dictionaries: assignment, and \<^verbatim>\<open>update\<close>.\<close>

definition row_set :: "string \<Rightarrow> 'o pval \<Rightarrow> 'o row \<Rightarrow> 'o row" where
  "row_set = AList.update"

definition row_merge :: "'o row \<Rightarrow> 'o row \<Rightarrow> 'o row" where
  "row_merge r s = fold (\<lambda>(k, v). row_set k v) s r"

type_synonym 'o evaluator = "'o expr \<Rightarrow> 'o row \<Rightarrow> 'o pval result"

definition execute_scan ::
  "('o, 't, 'd, 'p) exec_env \<Rightarrow> ('o, 't, 'd, 'p) exec_state \<Rightarrow> 'o plan_attrs \<Rightarrow> 'o row stream" where
  "execute_scan env s a =
     (case pa_table_name a of
        None \<Rightarrow> ([], None)
      | Some name \<Rightarrow>
          if get_table name (ex_catalog s) = None then ([], Some ValueError)
          else stream_of (get_table_data env (ex_store s) name))"

definition keep_row :: "'o py_ops \<Rightarrow> 'o evaluator \<Rightarrow> 'o expr option \<Rightarrow> 'o row \<Rightarrow> bool result" where
  "keep_row ops ev cond row =
     (case cond of None \<Rightarrow> Inr True | Some e \<Rightarrow> res_bind (ev e row) (\<lambda>v. Inr (py_bool ops v)))"

definition execute_filter :: "'o py_ops \<Rightarrow> 'o evaluator \<Rightarrow> 'o plan_attrs \<Rightarrow> 'o row stream \<Rightarrow> 'o row stream" where
  "execute_filter ops ev a =
     stream_map (\<lambda>row. res_bind (keep_row ops ev (pa_where_clause a) row) (\<lambda>b. Inr (if b then [row] else [])))"

definition project_one :: "'o py_ops \<Rightarrow> 'o evaluator \<Rightarrow> 'o row \<Rightarrow> 'o expr \<Rightarrow> 'o row \<Rightarrow> 'o row result" where
  "project_one ops ev row e projected =
     (case e of
        StarExpr _ \<Rightarrow> Inr (row_merge projected row)
      | ColumnExpr name prefix \<Rightarrow>
          if prefix \<noteq> None \<and> prefix \<noteq> Some []
          then (case find (\<lambda>(k, _). upper k = upper (the prefix @ ''.'' @ name) \<or> upper k = upper name) row of
                  Some (k, v) \<Rightarrow> Inr (row_set k v projected)
                | None \<Rightarrow> Inr projected)
          else Inr (row_set name (case map_of row name of Some v \<Rightarrow> v | None \<Rightarrow> PNone) projected)
      | FunctionExpr name _ _ \<Rightarrow> res_bind (ev e row) (\<lambda>v. Inr (row_set name v projected))
      | LiteralExpr v \<Rightarrow> Inr (row_set ''literal'' v projected)
      | _ \<Rightarrow> res_bind (ev e row) (\<lambda>v. Inr (row_set (expr_str ops e) v projected)))"

fun project :: "'o py_ops \<Rightarrow> 'o evaluator \<Rightarrow> 'o row \<Rightarrow> 'o expr list \<Rightarrow> 'o row \<Rightarrow> 'o row result" where
  "project ops ev row [] projected = Inr projected"
| "project ops ev row (e # es) projected =
     res_bind (project_one ops ev row e projected) (project ops ev row es)"

definition execute_projection :: "'o py_ops \<Rightarrow> 'o evaluator \<Rightarrow> 'o plan_attrs \<Rightarrow> 'o row stream \<Rightarrow> 'o row stream" where
  "execute_projection ops ev a =
     stream_map (\<lambda>row. res_bind (project ops ev row (pa_expressions a) []) (\<lambda>r. Inr [r]))"

definition execute_nested_loop_join ::
  "'o py_ops \<Rightarrow> 'o evaluator \<Rightarrow> (string \<Rightarrow> 'o row list result) \<Rightarrow> 'o plan_attrs \<Rightarrow> 'o row stream \<Rightarrow> 'o row stream" where
  "execute_nested_loop_join ops ev table_data a child =
     (case list_of child of
        Inl e \<Rightarrow> ([], Some e)
      | Inr left_rows \<Rightarrow>
          (case (case pa_table_name a of
                   Some n \<Rightarrow> if n \<noteq> [] then table_data n else Inr [] | None \<Rightarrow> Inr []) of
             Inl e \<Rightarrow> ([], Some e)
           | Inr right_rows \<Rightarrow>
               stream_map (\<lambda>(l, r). let joined = row_merge l r in
                   res_bind (keep_row ops ev (pa_join_condition a) joined) (\<lambda>b. Inr (if b then [joined] else [])))
                 (List.product left_rows right_rows, None)))"

text \<open>
  \<^verbatim>\<open>list.sort\<close> by lists of keys: stable, and \<^verbatim>\<open>TypeError\<close> when keys cannot be compared.  The comparison of
  lists looks for the first elements that are not equal.
\<close>

fun keys_less :: "'o py_ops \<Rightarrow> 'o pval list \<Rightarrow> 'o pval list \<Rightarrow> bool result" where
  "keys_less ops xs [] = Inr False"
| "keys_less ops [] (y # ys) = Inr True"
| "keys_less ops (x # xs) (y # ys) = (if x = y \<or> py_eq ops x y then keys_less ops xs ys else py_less ops x y)"

fun insert_by :: "('k \<Rightarrow> 'k \<Rightarrow> bool result) \<Rightarrow> 'k \<times> 'r \<Rightarrow> ('k \<times> 'r) list \<Rightarrow> ('k \<times> 'r) list result" where
  "insert_by lt x [] = Inr [x]"
| "insert_by lt x (y # ys) =
     res_bind (lt (fst y) (fst x)) (\<lambda>b.
       if b then res_bind (insert_by lt x ys) (\<lambda>zs. Inr (y # zs)) else Inr (x # y # ys))"

fun sort_by :: "('k \<Rightarrow> 'k \<Rightarrow> bool result) \<Rightarrow> ('k \<times> 'r) list \<Rightarrow> ('k \<times> 'r) list result" where
  "sort_by lt [] = Inr []"
| "sort_by lt (x # xs) = res_bind (sort_by lt xs) (insert_by lt x)"

definition sort_key_of :: "'o evaluator \<Rightarrow> 'o order_item list \<Rightarrow> 'o row \<Rightarrow> 'o pval list result" where
  "sort_key_of ev items row =
     res_map (\<lambda>item. res_bind (ev (order_expr item) row) (\<lambda>v. Inr (if v \<noteq> PNone then v else PStr []))) items"

definition sort_rows :: "'o py_ops \<Rightarrow> 'o evaluator \<Rightarrow> 'o order_item list \<Rightarrow> 'o row list \<Rightarrow> 'o row list result" where
  "sort_rows ops ev items rows =
     (let backwards = list_ex (\<lambda>item. upper (order_direction item) = ''DESC'') items in
      res_bind (res_map (\<lambda>row. res_bind (sort_key_of ev items row) (\<lambda>k. Inr (k, row))) rows) (\<lambda>keyed.
        if backwards then res_bind (sort_by (keys_less ops) (rev keyed)) (\<lambda>ps. Inr (rev (map snd ps)))
        else res_bind (sort_by (keys_less ops) keyed) (\<lambda>ps. Inr (map snd ps))))"

definition execute_sort :: "'o py_ops \<Rightarrow> 'o evaluator \<Rightarrow> 'o plan_attrs \<Rightarrow> 'o row stream \<Rightarrow> 'o row stream" where
  "execute_sort ops ev a child =
     stream_of (res_bind (list_of child) (\<lambda>rows.
       if pa_order_by a \<noteq> [] then sort_rows ops ev (pa_order_by a) rows else Inr rows))"

text \<open>The loop stops at the first row beyond the limit, before any exception behind it.\<close>

definition execute_limit :: "'o plan_attrs \<Rightarrow> 'a stream \<Rightarrow> 'a stream" where
  "execute_limit a child =
     (let offset = (case pa_offset_count a of None \<Rightarrow> 0 | Some n \<Rightarrow> n); (rows, e) = child in
      case pa_limit_count a of
        None \<Rightarrow> (drop (nat offset) rows, e)
      | Some limit \<Rightarrow>
          let stop = nat (if limit \<le> 0 then max 0 offset else max 0 (offset + limit)) in
          if stop < length rows then (take (stop - nat offset) (drop (nat offset) rows), None)
          else (drop (nat offset) rows, e))"

definition row_hashable :: "'o py_ops \<Rightarrow> 'o pval list \<Rightarrow> unit result" where
  "row_hashable ops vs = (if list_all (py_hashable ops) vs then Inr () else Inl TypeError)"

text \<open>Equality of tuples: element by element, identical or equal.\<close>

definition same_values :: "'o py_ops \<Rightarrow> 'o pval list \<Rightarrow> 'o pval list \<Rightarrow> bool" where
  "same_values ops = list_all2 (\<lambda>v w. v = w \<or> py_eq ops v w)"

fun group_insert :: "'o py_ops \<Rightarrow> 'o pval list \<Rightarrow> 'r \<Rightarrow> ('o pval list \<times> 'r list) list \<Rightarrow> ('o pval list \<times> 'r list) list" where
  "group_insert ops k r [] = [(k, [r])]"
| "group_insert ops k r ((k', rs) # gs) =
     (if same_values ops k' k then (k', rs @ [r]) # gs else (k', rs) # group_insert ops k r gs)"

fun group_rows ::
  "'o py_ops \<Rightarrow> 'o evaluator \<Rightarrow> 'o expr list \<Rightarrow> 'o row list \<Rightarrow> ('o pval list \<times> 'o row list) list \<Rightarrow>
   ('o pval list \<times> 'o row list) list result" where
  "group_rows ops ev es [] gs = Inr gs"
| "group_rows ops ev es (row # rows) gs =
     res_bind (res_map (\<lambda>e. ev e row) es) (\<lambda>k.
     res_bind (row_hashable ops k) (\<lambda>_. group_rows ops ev es rows (group_insert ops k row gs)))"

text \<open>The row of a group: the grouping columns, then the aggregates.\<close>

fun group_columns :: "'o expr list \<Rightarrow> 'o pval list \<Rightarrow> 'o row \<Rightarrow> 'o row" where
  "group_columns (ColumnExpr name _ # es) (v # vs) acc = group_columns es vs (row_set name v acc)"
| "group_columns (_ # es) (_ # vs) acc = group_columns es vs acc"
| "group_columns _ _ acc = acc"

fun aggregate_columns ::
  "'o py_ops \<Rightarrow> 'o evaluator \<Rightarrow> bool \<Rightarrow> 'o row list \<Rightarrow> 'o expr list \<Rightarrow> 'o row \<Rightarrow> 'o row result" where
  "aggregate_columns ops ev grouped rows [] acc = Inr acc"
| "aggregate_columns ops ev grouped rows (e # es) acc =
     (case e of
        FunctionExpr name args dist \<Rightarrow>
          res_bind (evaluate_aggregate ops ev name args dist rows) (\<lambda>v.
            aggregate_columns ops ev grouped rows es (row_set name v acc))
      | ColumnExpr name _ \<Rightarrow>
          aggregate_columns ops ev grouped rows es
            (if grouped then acc
             else row_set name (case map_of (hd rows) name of Some v \<Rightarrow> v | None \<Rightarrow> PNone) acc)
      | _ \<Rightarrow> aggregate_columns ops ev grouped rows es acc)"

definition having_row :: "'o py_ops \<Rightarrow> 'o evaluator \<Rightarrow> 'o expr option \<Rightarrow> 'o row \<Rightarrow> 'o row list result" where
  "having_row ops ev having r = res_bind (keep_row ops ev having r) (\<lambda>b. Inr (if b then [r] else []))"

definition execute_aggregate :: "'o py_ops \<Rightarrow> 'o evaluator \<Rightarrow> 'o plan_attrs \<Rightarrow> 'o row stream \<Rightarrow> 'o row stream" where
  "execute_aggregate ops ev a child =
     (case list_of child of
        Inl e \<Rightarrow> ([], Some e)
      | Inr rows \<Rightarrow>
          if rows = [] then ([], None)
          else if pa_group_by a \<noteq> []
          then (case group_rows ops ev (pa_group_by a) rows [] of
                  Inl e \<Rightarrow> ([], Some e)
                | Inr groups \<Rightarrow>
                    stream_map (\<lambda>(k, rs).
                      res_bind (aggregate_columns ops ev True rs (pa_expressions a) (group_columns (pa_group_by a) k []))
                        (having_row ops ev (pa_having a))) (groups, None))
          else stream_of (res_bind (aggregate_columns ops ev False rows (pa_expressions a) [])
                 (having_row ops ev (pa_having a))))"

text \<open>\<^verbatim>\<open>tuple(sorted(row.items()))\<close>: the names are different, so the values are not compared.\<close>

definition same_rows :: "'o py_ops \<Rightarrow> 'o row \<Rightarrow> 'o row \<Rightarrow> bool" where
  "same_rows ops r s \<longleftrightarrow>
     length r = length s \<and>
     list_all (\<lambda>(k, v). case map_of s k of None \<Rightarrow> False | Some w \<Rightarrow> v = w \<or> py_eq ops v w) r"

fun distinct_loop :: "'o py_ops \<Rightarrow> 'o row list \<Rightarrow> 'o row list \<Rightarrow> py_error option \<Rightarrow> 'o row stream" where
  "distinct_loop ops seen [] e = ([], e)"
| "distinct_loop ops seen (row # rows) e =
     (case row_hashable ops (map snd row) of
        Inl err \<Rightarrow> ([], Some err)
      | Inr _ \<Rightarrow>
          if list_ex (\<lambda>s. same_rows ops s row) seen then distinct_loop ops seen rows e
          else (let (out, e') = distinct_loop ops (seen @ [row]) rows e in (row # out, e')))"

definition execute_distinct :: "'o py_ops \<Rightarrow> 'o row stream \<Rightarrow> 'o row stream" where
  "execute_distinct ops child = distinct_loop ops [] (fst child) (snd child)"

definition execute_vector_scan :: "('o, 't, 'd, 'p) exec_env \<Rightarrow> 'o plan_attrs \<Rightarrow> 'o row stream" where
  "execute_vector_scan env a =
     (case (ee_vectors env, pa_table_name a) of
        (Some search, Some name) \<Rightarrow> if name \<noteq> [] then stream_of (search name) else ([], None)
      | _ \<Rightarrow> ([], None))"

definition execute_document_scan :: "('o, 't, 'd, 'p) exec_env \<Rightarrow> 'o plan_attrs \<Rightarrow> 'o row stream" where
  "execute_document_scan env a =
     (case (ee_documents env, pa_table_name a) of
        (Some query, Some name) \<Rightarrow> if name \<noteq> [] then stream_of (query name (pa_where_clause a)) else ([], None)
      | _ \<Rightarrow> ([], None))"


section \<open>Query plans\<close>

text \<open>
  \<^verbatim>\<open>_execute_node\<close> on the nodes of a query; \<open>sub\<close> executes subqueries.  The nodes of commands are not below
  other nodes.
\<close>

fun execute_query ::
  "('o, 't, 'd, 'p) exec_env \<Rightarrow> ('o, 't, 'd, 'p) exec_state \<Rightarrow> ('o select_stmt \<Rightarrow> 'o row list result) \<Rightarrow>
   'o plan_node \<Rightarrow> 'o row stream" where
  "execute_query env s sub (PlanNode ty cs a) =
     (let ops = ee_ops env; ev = evaluate_expression ops sub in
      if ty = SEQUENTIAL_SCAN \<or> ty = INDEX_SCAN then execute_scan env s a
      else if ty = VECTOR_INDEX_SCAN then execute_vector_scan env a
      else if ty = DOCUMENT_SCAN then execute_document_scan env a
      else if ty \<notin> {FILTER, PROJECTION, NESTED_LOOP_JOIN, SORT, LIMIT, AGGREGATE, DISTINCT} then ([], Some ValueError)
      else
        case cs of
          [] \<Rightarrow> ([], None)
        | c # _ \<Rightarrow>
            let child = execute_query env s sub c in
            if ty = FILTER then execute_filter ops ev a child
            else if ty = PROJECTION then execute_projection ops ev a child
            else if ty = NESTED_LOOP_JOIN
            then execute_nested_loop_join ops ev (get_table_data env (ex_store s)) a child
            else if ty = SORT then execute_sort ops ev a child
            else if ty = LIMIT then execute_limit a child
            else if ty = AGGREGATE then execute_aggregate ops ev a child
            else execute_distinct ops child)"

text \<open>The subqueries of an expression and of a statement, those inside a subquery left out.\<close>

fun expr_subs :: "'o expr \<Rightarrow> 'o select_stmt list" where
  "expr_subs (LiteralExpr _) = []"
| "expr_subs (ColumnExpr _ _) = []"
| "expr_subs (BinaryExpr _ l r) = expr_subs l @ expr_subs r"
| "expr_subs (UnaryExpr _ e) = expr_subs e"
| "expr_subs (FunctionExpr _ args _) = concat (map expr_subs args)"
| "expr_subs (BetweenExpr e l h) = expr_subs e @ expr_subs l @ expr_subs h"
| "expr_subs (InExpr e es) = expr_subs e @ concat (map expr_subs es)"
| "expr_subs (LikeExpr e p) = expr_subs e @ expr_subs p"
| "expr_subs (CaseExpr conds results otherwise) =
     concat (map expr_subs conds) @ concat (map expr_subs results) @
     (case otherwise of None \<Rightarrow> [] | Some e \<Rightarrow> expr_subs e)"
| "expr_subs (StarExpr _) = []"
| "expr_subs (SubqueryExpr s) = [s]"

definition opt_subs :: "'o expr option \<Rightarrow> 'o select_stmt list" where
  "opt_subs e = (case e of None \<Rightarrow> [] | Some e \<Rightarrow> expr_subs e)"

definition select_subs :: "'o select_stmt \<Rightarrow> 'o select_stmt list" where
  "select_subs s =
     concat (map expr_subs (sel_columns s)) @ concat (map (\<lambda>j. opt_subs (join_on j)) (sel_joins s)) @
     opt_subs (sel_where s) @ concat (map expr_subs (sel_group_by s)) @ opt_subs (sel_having s) @
     concat (map (\<lambda>i. expr_subs (order_expr i)) (sel_order_by s))"

lemma size_in_list: "x \<in> set xs \<Longrightarrow> f x < Suc (size_list f xs)"
  by (induction xs) auto

lemma expr_subs_size: "s \<in> set (expr_subs e) \<Longrightarrow> size s < size e"
proof (induction e rule: expr_subs.induct)
  case (5 name args dist)
  then obtain a where a: "a \<in> set args" "s \<in> set (expr_subs a)" by auto
  then have "size s < size a" using 5 by blast
  then show ?case using size_in_list [OF a(1), of size] by simp
next
  case (7 e es)
  show ?case
  proof (cases "s \<in> set (expr_subs e)")
    case False
    then obtain a where a: "a \<in> set es" "s \<in> set (expr_subs a)" using 7 by auto
    then have "size s < size a" using 7 by blast
    then show ?thesis using size_in_list [OF a(1), of size] by simp
  qed (use 7 in force)
next
  case (9 conds results otherwise)
  then consider (c) a where "a \<in> set conds" "s \<in> set (expr_subs a)" | (r) a where "a \<in> set results" "s \<in> set (expr_subs a)"
    | (d) e where "otherwise = Some e" "s \<in> set (expr_subs e)" by (auto split: option.splits)
  then show ?case
  proof cases
    case c
    then have "size s < size a" using 9 by blast
    then show ?thesis using size_in_list [OF c(1), of size] by simp
  next
    case r
    then have "size s < size a" using 9 by blast
    then show ?thesis using size_in_list [OF r(1), of size] by simp
  next
    case d
    then have "size s < size e" using 9 by blast
    then show ?thesis using d by simp
  qed
qed force+

lemma opt_subs_size: "s \<in> set (opt_subs e) \<Longrightarrow> size s < size_option size e"
  by (auto simp: opt_subs_def intro!: less_SucI expr_subs_size split: option.splits)

lemma select_subs_size: "s' \<in> set (select_subs s) \<Longrightarrow> size s' < size s"
proof (cases s)
  case (SelectStmt columns from_table al joins cond groups having order limit offset dist)
  assume "s' \<in> set (select_subs s)"
  then consider (a) e where "e \<in> set columns" "s' \<in> set (expr_subs e)"
    | (b) j where "j \<in> set joins" "s' \<in> set (opt_subs (join_on j))" | (c) "s' \<in> set (opt_subs cond)"
    | (d) e where "e \<in> set groups" "s' \<in> set (expr_subs e)" | (e) "s' \<in> set (opt_subs having)"
    | (f) i where "i \<in> set order" "s' \<in> set (expr_subs (order_expr i))"
    by (auto simp: select_subs_def SelectStmt)
  then show ?thesis
  proof cases
    case a
    then show ?thesis using expr_subs_size [OF a(2)] size_in_list [OF a(1), of size] by (simp add: SelectStmt)
  next
    case b
    have "size s' < size j" using opt_subs_size [OF b(2)] by (cases j) simp
    then show ?thesis using size_in_list [OF b(1), of size] by (simp add: SelectStmt)
  next
    case c
    then show ?thesis using opt_subs_size [OF c] by (simp add: SelectStmt)
  next
    case d
    then show ?thesis using expr_subs_size [OF d(2)] size_in_list [OF d(1), of size] by (simp add: SelectStmt)
  next
    case e
    then show ?thesis using opt_subs_size [OF e] by (simp add: SelectStmt)
  next
    case f
    have "size s' < size i" using expr_subs_size [OF f(2)] by (cases i) simp
    then show ?thesis using size_in_list [OF f(1), of size] by (simp add: SelectStmt)
  qed
qed

text \<open>
  A subquery is planned and executed with its own subqueries executed the same way; \<^verbatim>\<open>_create_subquery_plan\<close>
  does not optimize.  Only subqueries of the statement can be asked for, which is why this ends.
\<close>

function execute_select ::
  "('o, 't, 'd, 'p) exec_env \<Rightarrow> ('o, 't, 'd, 'p) exec_state \<Rightarrow> 'o select_stmt \<Rightarrow> 'o row list result" where
  "execute_select env s stmt =
     list_of (execute_query env s
       (\<lambda>stmt'. if stmt' \<in> set (select_subs stmt) then execute_select env s stmt' else Inl RuntimeError)
       (plan_select stmt))"
  by pat_completeness auto
termination
  by (relation "measure (\<lambda>(_, _, stmt). size stmt)") (auto dest: select_subs_size)

declare execute_select.simps [simp del]

section \<open>Commands\<close>

type_synonym ('o, 't, 'd, 'p) command = "('o, 't, 'd, 'p) exec_state \<Rightarrow> 'o row list result \<times> ('o, 't, 'd, 'p) exec_state"

definition text_row :: "string \<Rightarrow> string \<Rightarrow> 'o row" where
  "text_row key value = [(key, PStr (map of_char value))]"

text \<open>A method of the catalog, called for its effect.\<close>

definition call_catalog ::
  "('o pval catalog \<Rightarrow> 'a result \<times> 'o pval catalog) \<Rightarrow> 'o row list \<Rightarrow> ('o, 't, 'd, 'p) command" where
  "call_catalog f rows s =
     (let (r, c) = f (ex_catalog s) in (res_bind r (\<lambda>_. Inr rows), s\<lparr>ex_catalog := c\<rparr>))"

text \<open>The values of one row of an \<^verbatim>\<open>INSERT\<close>: later ones are evaluated on the row built so far.\<close>

fun named_values ::
  "'o evaluator \<Rightarrow> string list \<Rightarrow> 'o expr list \<Rightarrow> 'o row \<Rightarrow> 'o row result" where
  "named_values ev (n # ns) (e # es) row = res_bind (ev e row) (\<lambda>v. named_values ev ns es (row_set n v row))"
| "named_values ev _ _ row = Inr row"

fun fill_defaults :: "'o pval column_info list \<Rightarrow> 'o row \<Rightarrow> 'o row" where
  "fill_defaults [] row = row"
| "fill_defaults (c # cols) row =
     fill_defaults cols (if ci_name c \<in> fst ` set row then row else row_set (ci_name c) (ci_default c) row)"

fun positional_values ::
  "'o evaluator \<Rightarrow> 'o pval column_info list \<Rightarrow> 'o expr list \<Rightarrow> 'o row \<Rightarrow> 'o row result" where
  "positional_values ev [] es row = Inr row"
| "positional_values ev (c # cols) [] row = positional_values ev cols [] (row_set (ci_name c) (ci_default c) row)"
| "positional_values ev (c # cols) (e # es) row =
     res_bind (ev e row) (\<lambda>v. positional_values ev cols es (row_set (ci_name c) v row))"

definition insert_values ::
  "'o evaluator \<Rightarrow> string list \<Rightarrow> 'o pval column_info list \<Rightarrow> 'o expr list \<Rightarrow> 'o row result" where
  "insert_values ev columns cols es =
     (if columns \<noteq> [] then res_bind (named_values ev columns es []) (\<lambda>row. Inr (fill_defaults cols row))
      else positional_values ev cols es [])"

definition insert_row ::
  "('o, 't, 'd, 'p) exec_env \<Rightarrow> string \<Rightarrow> 'o row \<Rightarrow> ('o, 't, 'd, 'p) exec_state \<Rightarrow> unit result \<times> ('o, 't, 'd, 'p) exec_state" where
  "insert_row env name row s =
     (case ee_store env of
        None \<Rightarrow> (Inr (), s)
      | Some ds \<Rightarrow> (let (r, t) = ds_insert ds name row (ex_store s) in (r, s\<lparr>ex_store := t\<rparr>)))"

fun insert_loop ::
  "('o, 't, 'd, 'p) exec_env \<Rightarrow> string \<Rightarrow> string list \<Rightarrow> 'o pval column_info list \<Rightarrow> 'o expr list list \<Rightarrow>
   int \<Rightarrow> ('o, 't, 'd, 'p) command" where
  "insert_loop env name columns cols [] n s =
     (Inr [[(''_inserted'', PInt n), (''table'', PStr (map of_char name))]], s)"
| "insert_loop env name columns cols (es # ess) n s =
     (case insert_values (evaluate_expression (ee_ops env) (execute_select env s)) columns cols es of
        Inl e \<Rightarrow> (Inl e, s)
      | Inr row \<Rightarrow>
          (case insert_row env name row s of
             (Inl e, s') \<Rightarrow> (Inl e, s')
           | (Inr _, s') \<Rightarrow>
               insert_loop env name columns cols ess (n + 1)
                 (s'\<lparr>ex_catalog := update_row_count name 1 (ex_catalog s')\<rparr>)))"

definition execute_insert :: "('o, 't, 'd, 'p) exec_env \<Rightarrow> 'o plan_attrs \<Rightarrow> ('o, 't, 'd, 'p) command" where
  "execute_insert env a s =
     (case pa_table_name a of
        None \<Rightarrow> (Inr [], s)
      | Some name \<Rightarrow>
          (case get_table name (ex_catalog s) of
             None \<Rightarrow> (Inl ValueError, s)
           | Some t \<Rightarrow> insert_loop env name (pa_columns a) (ti_columns t) (pa_values a) 0 s))"

text \<open>\<^verbatim>\<open>node.name\<close> is no attribute of a plan node.\<close>

definition execute_create_table :: "'o plan_attrs \<Rightarrow> ('o, 't, 'd, 'p) command" where
  "execute_create_table a s =
     (res_bind (res_map (\<lambda>c. parse_type_string (cd_data_type c)) (pa_column_defs a)) (\<lambda>_. Inl AttributeErr), s)"

definition execute_create_database :: "('o, 't, 'd, 'p) command" where
  "execute_create_database s = (Inl AttributeErr, s)"

definition execute_drop_table :: "('o, 't, 'd, 'p) command" where
  "execute_drop_table s = (Inl AttributeErr, s)"

definition execute_drop_database :: "('o, 't, 'd, 'p) command" where
  "execute_drop_database s = (Inl AttributeErr, s)"

text \<open>\<^verbatim>\<open>_build_predicate\<close>.\<close>

definition build_predicate :: "'o py_ops \<Rightarrow> 'o evaluator \<Rightarrow> 'o expr option \<Rightarrow> 'o row \<Rightarrow> bool result" where
  "build_predicate ops ev cond = (\<lambda>row. keep_row ops ev cond row)"

definition execute_delete :: "('o, 't, 'd, 'p) exec_env \<Rightarrow> 'o plan_attrs \<Rightarrow> ('o, 't, 'd, 'p) command" where
  "execute_delete env a s =
     (case pa_table_name a of
        None \<Rightarrow> (Inr [], s)
      | Some name \<Rightarrow>
          if get_table name (ex_catalog s) = None then (Inl ValueError, s)
          else
            let pred = build_predicate (ee_ops env) (evaluate_expression (ee_ops env) (execute_select env s)) (pa_where_clause a);
                (r, s1) = (case ee_store env of
                             None \<Rightarrow> (Inr 0, s)
                           | Some ds \<Rightarrow> (let (r, t) = ds_delete ds name pred (ex_store s) in (r, s\<lparr>ex_store := t\<rparr>)))
            in case r of
                 Inl e \<Rightarrow> (Inl e, s1)
               | Inr n \<Rightarrow>
                   (Inr [[(''_deleted'', PInt n), (''table'', PStr (map of_char name))]],
                    s1\<lparr>ex_catalog := update_row_count name (- n) (ex_catalog s1)\<rparr>))"

definition execute_update :: "('o, 't, 'd, 'p) exec_env \<Rightarrow> 'o plan_attrs \<Rightarrow> ('o, 't, 'd, 'p) command" where
  "execute_update env a s =
     (case pa_table_name a of
        None \<Rightarrow> (Inr [], s)
      | Some name \<Rightarrow>
          if get_table name (ex_catalog s) = None then (Inl ValueError, s)
          else
            let clauses = fold (\<lambda>(k, e). AList.update k e) (pa_set_clauses a) [];
                pred = build_predicate (ee_ops env) (evaluate_expression (ee_ops env) (execute_select env s)) (pa_where_clause a);
                (r, s1) = (case ee_store env of
                             None \<Rightarrow> (Inr 0, s)
                           | Some ds \<Rightarrow>
                               (let (r, t) = ds_update ds name clauses pred (ex_store s) in (r, s\<lparr>ex_store := t\<rparr>)))
            in (res_bind r (\<lambda>n. Inr [[(''_updated'', PInt n), (''table'', PStr (map of_char name))]]), s1))"

definition execute_use :: "'o plan_attrs \<Rightarrow> ('o, 't, 'd, 'p) command" where
  "execute_use a s =
     (case pa_database_name a of
        Some name \<Rightarrow>
          if name \<noteq> [] then call_catalog (use_database name) [text_row ''_result'' (''Using database '' @ name)] s
          else (Inr [], s)
      | None \<Rightarrow> (Inr [], s))"

definition execute_show :: "'o plan_attrs \<Rightarrow> ('o, 't, 'd, 'p) command" where
  "execute_show a s =
     (Inr (if pa_object_type a = Some ''DATABASES'' then map (text_row ''Database'') (list_databases (ex_catalog s))
           else if pa_object_type a = Some ''TABLES'' then map (text_row ''Table'') (list_tables (ex_catalog s))
           else []), s)"

text \<open>\<^verbatim>\<open>commit\<close> or \<^verbatim>\<open>rollback\<close> of the current transaction, which is forgotten when that returns.\<close>

definition end_transaction ::
  "(nat \<Rightarrow> ('d, 'p) txn_manager \<Rightarrow> unit result \<times> ('d, 'p) txn_manager) \<Rightarrow> string \<Rightarrow> ('o, 't, 'd, 'p) command" where
  "end_transaction f label s =
     (case (ex_current s, ex_manager s) of
        (Some t, Some m) \<Rightarrow>
          (case f t m of
             (Inl e, m') \<Rightarrow> (Inl e, s\<lparr>ex_manager := Some m'\<rparr>)
           | (Inr _, m') \<Rightarrow> (Inr [text_row ''_result'' label], s\<lparr>ex_manager := Some m', ex_current := None\<rparr>))
      | _ \<Rightarrow> (Inr [text_row ''_result'' label], s))"

definition execute_transaction :: "('o, 't, 'd, 'p) exec_env \<Rightarrow> 'o plan_attrs \<Rightarrow> ('o, 't, 'd, 'p) command" where
  "execute_transaction env a s =
     (if pa_action a = Some ''BEGIN'' then
        (case ex_manager s of
           None \<Rightarrow> (Inr [text_row ''_result'' ''BEGIN''], s)
         | Some m \<Rightarrow>
             (case begin_txn (ee_transactions env) READ_COMMITTED (ee_now env) m of
                (Inl e, m') \<Rightarrow> (Inl e, s\<lparr>ex_manager := Some m'\<rparr>)
              | (Inr t, m') \<Rightarrow>
                  (Inr [text_row ''_result'' ''BEGIN''], s\<lparr>ex_manager := Some m', ex_current := Some t\<rparr>)))
      else if pa_action a = Some ''COMMIT'' then end_transaction (commit (ee_transactions env)) ''COMMIT'' s
      else if pa_action a = Some ''ROLLBACK'' then end_transaction (rollback (ee_transactions env)) ''ROLLBACK'' s
      else (Inr [], s))"

text \<open>A default is stored as the expression object that the parser made.\<close>

definition column_of_def :: "('o, 't, 'd, 'p) exec_env \<Rightarrow> 'o column_def \<Rightarrow> 'o pval column_info result" where
  "column_of_def env c =
     res_bind (parse_type_string (cd_data_type c)) (\<lambda>ty.
       Inr \<lparr>ci_name = cd_name c, ci_type = ty, ci_nullable = cd_nullable c,
            ci_default = (case cd_default c of None \<Rightarrow> PNone | Some e \<Rightarrow> PObj (ee_expr_object env e)),
            ci_primary_key = False, ci_unique = False, ci_indexed = False\<rparr>)"

definition execute_alter_table :: "('o, 't, 'd, 'p) exec_env \<Rightarrow> 'o plan_attrs \<Rightarrow> ('o, 't, 'd, 'p) command" where
  "execute_alter_table env a s =
     (let table = (case pa_table_name a of Some n \<Rightarrow> n | None \<Rightarrow> []) in
      if pa_action a = Some ''ADD COLUMN'' \<and> pa_column_defs a \<noteq> [] then
        (case column_of_def env (hd (pa_column_defs a)) of
           Inl e \<Rightarrow> (Inl e, s)
         | Inr col \<Rightarrow>
             call_catalog (add_column (ee_catalog env) table col)
               [text_row ''_altered'' (''TABLE '' @ table @ '', ADD COLUMN '' @ ci_name col)] s)
      else if pa_action a = Some ''DROP COLUMN'' \<and> pa_column_name a \<noteq> None \<and> pa_column_name a \<noteq> Some [] then
        call_catalog (drop_column (ee_catalog env) table (the (pa_column_name a)))
          [text_row ''_altered'' (''TABLE '' @ table @ '', DROP COLUMN '' @ the (pa_column_name a))] s
      else (Inr [], s))"

text \<open>\<^verbatim>\<open>EXPLAIN\<close>: one line per node, children indented.\<close>

fun plan_type_name :: "plan_type \<Rightarrow> string" where
  "plan_type_name SEQUENTIAL_SCAN = ''SEQUENTIAL_SCAN''"
| "plan_type_name INDEX_SCAN = ''INDEX_SCAN''"
| "plan_type_name FILTER = ''FILTER''"
| "plan_type_name PROJECTION = ''PROJECTION''"
| "plan_type_name INSERT = ''INSERT''"
| "plan_type_name CREATE_TABLE = ''CREATE_TABLE''"
| "plan_type_name CREATE_DATABASE = ''CREATE_DATABASE''"
| "plan_type_name DROP_TABLE = ''DROP_TABLE''"
| "plan_type_name DROP_DATABASE = ''DROP_DATABASE''"
| "plan_type_name DELETE = ''DELETE''"
| "plan_type_name UPDATE = ''UPDATE''"
| "plan_type_name NESTED_LOOP_JOIN = ''NESTED_LOOP_JOIN''"
| "plan_type_name HASH_JOIN = ''HASH_JOIN''"
| "plan_type_name SORT = ''SORT''"
| "plan_type_name LIMIT = ''LIMIT''"
| "plan_type_name AGGREGATE = ''AGGREGATE''"
| "plan_type_name DISTINCT = ''DISTINCT''"
| "plan_type_name EXPLAIN = ''EXPLAIN''"
| "plan_type_name USE_DATABASE = ''USE_DATABASE''"
| "plan_type_name SHOW = ''SHOW''"
| "plan_type_name TRANSACTION = ''TRANSACTION''"
| "plan_type_name ALTER_TABLE = ''ALTER_TABLE''"
| "plan_type_name VECTOR_INDEX_SCAN = ''VECTOR_INDEX_SCAN''"
| "plan_type_name DOCUMENT_SCAN = ''DOCUMENT_SCAN''"

fun format_plan :: "('o, 't, 'd, 'p) exec_env \<Rightarrow> nat \<Rightarrow> 'o plan_node \<Rightarrow> string list" where
  "format_plan env depth (PlanNode ty cs a) =
     (concat (replicate depth ''  '') @ plan_type_name ty @
       (case pa_table_name a of None \<Rightarrow> [] | Some n \<Rightarrow> if n \<noteq> [] then '' on '' @ n else []) @
       (case pa_where_clause a of None \<Rightarrow> [] | Some e \<Rightarrow> '' [filter: '' @ expr_str (ee_ops env) e @ '']'') @
       ee_estimate env (PlanNode ty cs a)) #
     concat (map (format_plan env (depth + 1)) cs)"

definition execute_explain :: "('o, 't, 'd, 'p) exec_env \<Rightarrow> 'o plan_node \<Rightarrow> ('o, 't, 'd, 'p) command" where
  "execute_explain env node s =
     (Inr [text_row ''QUERY PLAN'' (join_with (CHR 0x0A)
        (case node_children node of [] \<Rightarrow> [] | c # _ \<Rightarrow> format_plan env 0 c))], s)"

text \<open>\<^verbatim>\<open>execute\<close> of a plan.\<close>

definition execute :: "('o, 't, 'd, 'p) exec_env \<Rightarrow> 'o plan_node \<Rightarrow> ('o, 't, 'd, 'p) command" where
  "execute env node s =
     (let a = node_attrs node in
      case node_type node of
        INSERT \<Rightarrow> execute_insert env a s
      | CREATE_TABLE \<Rightarrow> execute_create_table a s
      | CREATE_DATABASE \<Rightarrow> execute_create_database s
      | DROP_TABLE \<Rightarrow> execute_drop_table s
      | DROP_DATABASE \<Rightarrow> execute_drop_database s
      | DELETE \<Rightarrow> execute_delete env a s
      | UPDATE \<Rightarrow> execute_update env a s
      | USE_DATABASE \<Rightarrow> execute_use a s
      | SHOW \<Rightarrow> execute_show a s
      | TRANSACTION \<Rightarrow> execute_transaction env a s
      | ALTER_TABLE \<Rightarrow> execute_alter_table env a s
      | EXPLAIN \<Rightarrow> execute_explain env node s
      | _ \<Rightarrow> (list_of (execute_query env s (execute_select env s) node), s))"

end
