(* ===== verification/SqlTypes_Facts.thy ===== *)
theory SqlTypes_Facts
  imports SqlTypes
begin

text \<open>
  What the column types promise: coercion is idempotent and lands in the type, the binary form can be read
  back from anywhere in a buffer, names of types are parsed back, and which comparisons order the values.
\<close>

section \<open>Coercion\<close>

text \<open>No negative length limit anywhere in the type; and no floats.\<close>

fun proper :: "sql_type \<Rightarrow> bool" where
  "proper (VarcharType m) \<longleftrightarrow> 0 \<le> m"
| "proper (ArrayType t) \<longleftrightarrow> proper t"
| "proper _ \<longleftrightarrow> True"

fun exact :: "sql_type \<Rightarrow> bool" where
  "exact FloatType \<longleftrightarrow> False"
| "exact (ArrayType t) \<longleftrightarrow> exact t"
| "exact _ \<longleftrightarrow> True"

lemma res_map_eq:
  "res_map f xs = Inr ys \<longleftrightarrow> length ys = length xs \<and> (\<forall>i < length xs. f (xs ! i) = Inr (ys ! i))"
proof (induction xs arbitrary: ys)
  case (Cons x xs)
  show ?case
    by (cases ys) (auto simp: Cons res_bind_eq_Inr All_less_Suc2)
qed auto

lemma res_map_id: "(\<And>x. x \<in> set xs \<Longrightarrow> f x = Inr x) \<Longrightarrow> res_map f xs = Inr xs"
  by (simp add: res_map_eq)

lemma res_map_set: "res_map f xs = Inr ys \<Longrightarrow> y \<in> set ys \<Longrightarrow> \<exists>x \<in> set xs. f x = Inr y"
  by (auto simp: res_map_eq in_set_conv_nth) (metis nth_mem)

lemma integer_value_eq: "integer_value n = Inr w \<longleftrightarrow> in_int32 n \<and> w = SqlInt n"
  by (auto simp: integer_value_def)

lemma py_slice_length: "0 \<le> m \<Longrightarrow> m \<le> ilen s \<Longrightarrow> ilen (py_slice s 0 m) = m"
  by (simp add: py_slice_in)

lemma date_of_ordinal_eq: "date_of_ordinal n = Inr w \<longleftrightarrow> 1 \<le> n \<and> n \<le> 3652059 \<and> w = SqlDate n"
  by (auto simp: date_of_ordinal_def in_int32_def)

lemma coerce_scalar:
  "coerce_integer lib v = Inr w \<Longrightarrow> (\<exists>b. w = SqlBool b) \<or> (\<exists>n. w = SqlInt n \<and> in_int32 n)"
  "coerce_float lib v = Inr w \<Longrightarrow> \<exists>x. w = SqlFloat x"
  "0 \<le> m \<Longrightarrow> coerce_varchar lib m v = Inr w \<Longrightarrow> \<exists>s. w = SqlStr s \<and> ilen s \<le> m"
  "coerce_boolean lib v = Inr w \<Longrightarrow> \<exists>b. w = SqlBool b"
  "coerce_timestamp lib v = Inr w \<Longrightarrow> \<exists>d. w = SqlDatetime d"
  "coerce_date lib v = Inr w \<Longrightarrow> (\<exists>n. w = SqlDate n) \<or> (\<exists>d. w = SqlDatetime d)"
proof -
  show "coerce_integer lib v = Inr w \<Longrightarrow> (\<exists>b. w = SqlBool b) \<or> (\<exists>n. w = SqlInt n \<and> in_int32 n)"
    by (auto simp: coerce_integer_def res_bind_eq_Inr integer_value_eq split: sql_value.splits option.splits)
  show "coerce_float lib v = Inr w \<Longrightarrow> \<exists>x. w = SqlFloat x"
    by (auto simp: coerce_float_def res_bind_eq_Inr split: sql_value.splits option.splits)
  show "0 \<le> m \<Longrightarrow> coerce_varchar lib m v = Inr w \<Longrightarrow> \<exists>s. w = SqlStr s \<and> ilen s \<le> m"
    by (auto simp: coerce_varchar_def res_bind_eq_Inr py_slice_length)
  show "coerce_boolean lib v = Inr w \<Longrightarrow> \<exists>b. w = SqlBool b"
    by (auto simp: coerce_boolean_def split: sql_value.splits if_splits)
  show "coerce_timestamp lib v = Inr w \<Longrightarrow> \<exists>d. w = SqlDatetime d"
    by (auto simp: coerce_timestamp_def res_bind_eq_Inr split: sql_value.splits option.splits)
  show "coerce_date lib v = Inr w \<Longrightarrow> (\<exists>n. w = SqlDate n) \<or> (\<exists>d. w = SqlDatetime d)"
    by (auto simp: coerce_date_def res_bind_eq_Inr date_of_ordinal_eq split: sql_value.splits option.splits)
qed

lemma coerced_text: "res_bind (text_of lib v) (\<lambda>s. Inr (SqlStr s)) = Inr w \<Longrightarrow> \<exists>s. w = SqlStr s"
  by (auto simp: res_bind_eq_Inr)

lemma coerce_result:
  assumes "proper t" and "sql_coerce lib t v = Inr w"
  shows "sql_validate t w" and "sql_coerce lib t w = Inr w"
proof -
  have "sql_validate t w \<and> sql_coerce lib t w = Inr w"
    using assms
  proof (induction t arbitrary: v w)
    case (ArrayType t)
    then obtain vs ws where ws: "w = SqlList ws" "res_map (sql_coerce lib t) vs = Inr ws"
      by (auto simp: res_bind_eq_Inr split: sql_value.splits)
    have "sql_validate t x \<and> sql_coerce lib t x = Inr x" if "x \<in> set ws" for x
      using res_map_set [OF ws(2) that] ArrayType.IH ArrayType.prems(1) by auto
    then show ?case by (simp add: ws(1) list_all_iff res_map_id)
  qed (use coerce_scalar coerced_text in \<open>(fastforce simp: coerce_integer_def coerce_float_def coerce_varchar_def
      coerce_boolean_def coerce_timestamp_def coerce_date_def text_of_def integer_value_def split: if_splits)+\<close>)
  then show "sql_validate t w" and "sql_coerce lib t w = Inr w" by simp_all
qed

text \<open>A value with every tuple in it as a list, which is what \<^verbatim>\<open>coerce\<close> of an array gives.\<close>

primrec listed :: "('d, 'o) sql_value \<Rightarrow> ('d, 'o) sql_value" where
  "listed SqlNull = SqlNull"
| "listed (SqlBool b) = SqlBool b"
| "listed (SqlInt n) = SqlInt n"
| "listed (SqlFloat x) = SqlFloat x"
| "listed (SqlStr s) = SqlStr s"
| "listed (SqlDate n) = SqlDate n"
| "listed (SqlDatetime d) = SqlDatetime d"
| "listed (SqlList vs) = SqlList (map listed vs)"
| "listed (SqlTuple vs) = SqlList (map listed vs)"
| "listed (SqlOther x) = SqlOther x"

primrec no_tuples :: "('d, 'o) sql_value \<Rightarrow> bool" where
  "no_tuples SqlNull = True"
| "no_tuples (SqlBool b) = True"
| "no_tuples (SqlInt n) = True"
| "no_tuples (SqlFloat x) = True"
| "no_tuples (SqlStr s) = True"
| "no_tuples (SqlDate n) = True"
| "no_tuples (SqlDatetime d) = True"
| "no_tuples (SqlList vs) = list_all no_tuples vs"
| "no_tuples (SqlTuple vs) = False"
| "no_tuples (SqlOther x) = True"

lemma listed_same: "listed v = v \<longleftrightarrow> no_tuples v"
  by (induction v) (auto simp: list_all_iff map_idI intro: map_idI dest: map_eq_conv [THEN iffD1, of listed _ id, simplified, rule_format])

lemma validate_coerce:
  fixes v :: "('d, 'o) sql_value"
  shows "exact t \<Longrightarrow> sql_validate t v \<Longrightarrow> sql_coerce lib t v = Inr (listed v)"
proof (induction t arbitrary: v)
  case (ArrayType t)
  have "res_map (sql_coerce lib t) vs = Inr (map listed vs)" if "list_all (sql_validate t) vs"
    for vs :: "('d, 'o) sql_value list"
  proof -
    have "sql_coerce lib t x = Inr (listed x)" if "x \<in> set vs" for x
      using ArrayType.IH ArrayType.prems(1) \<open>list_all (sql_validate t) vs\<close> that by (simp add: list_all_iff)
    then show ?thesis by (simp add: res_map_eq)
  qed
  then show ?case using ArrayType.prems(2) by (auto split: sql_value.splits)
qed (auto simp: coerce_integer_def integer_value_def coerce_varchar_def text_of_def coerce_boolean_def
    coerce_timestamp_def coerce_date_def split: sql_value.splits)

text \<open>
  C28. Coercion.  For a type without negative length limits, whatever \<^verbatim>\<open>coerce\<close> returns passes \<^verbatim>\<open>validate\<close> and is
  returned unchanged when it is coerced again; a \<^verbatim>\<open>VARCHAR\<close> with a negative limit accepts no value at all.  A value
  that passes \<^verbatim>\<open>validate\<close> of a type without floats is returned with every tuple in it turned into a list, and so
  unchanged exactly when there is no tuple in it.  A type with floats accepts integers in \<^verbatim>\<open>validate\<close>, among them
  such that \<^verbatim>\<open>coerce\<close> cannot convert.
\<close>
theorem coercion:
  fixes v :: "('d, 'o) sql_value" and lib :: "'d sql_lib"
  shows "(proper t \<longrightarrow> (\<forall>w. sql_coerce lib t v = Inr w \<longrightarrow> sql_validate t w \<and> sql_coerce lib t w = Inr w)) \<and>
    (\<forall>m < 0. \<not> sql_validate (VarcharType m) v) \<and>
    (exact t \<and> sql_validate t v \<longrightarrow>
      sql_coerce lib t v = Inr (listed v) \<and> (sql_coerce lib t v = Inr v \<longleftrightarrow> no_tuples v)) \<and>
    sql_validate FloatType (SqlInt (2 ^ 1024) :: ('d, 'o) sql_value) \<and>
    sql_coerce lib FloatType (SqlInt (2 ^ 1024) :: ('d, 'o) sql_value) = Inl OverflowError"
proof -
  have "0 < bit_len (2 ^ 1024)" "(2 :: nat) ^ (bit_len (2 ^ 1024) - 1) \<le> 2 ^ 1024" "(2 :: nat) ^ 1024 < 2 ^ bit_len (2 ^ 1024)"
    using bit_len_bounds [of "2 ^ 1024"] by simp_all
  then have len: "bit_len (2 ^ 1024) = 1025"
    by (simp add: power_increasing_iff power_strict_increasing_iff del: power_numeral)
  have "round_half_even (2 ^ 1024) 972 = 2 ^ 52"
    using round_half_even_exact [of "2 ^ 52" 972] by (simp flip: power_add del: power_numeral)
  moreover have "nat \<bar>2 ^ 1024 :: int\<bar> = 2 ^ 1024" by (simp add: nat_power_eq del: power_numeral)
  ultimately have "float_of_int (2 ^ 1024) = Inl OverflowError"
    unfolding float_of_int_def Let_def by (simp only: len) simp
  then have "sql_coerce lib FloatType (SqlInt (2 ^ 1024) :: ('d, 'o) sql_value) = Inl OverflowError"
    by (simp add: coerce_float_def)
  moreover have "\<forall>m < 0. \<not> sql_validate (VarcharType m) v" by (cases v) simp_all
  moreover have "sql_coerce lib t v = Inr (listed v) \<and> (sql_coerce lib t v = Inr v \<longleftrightarrow> no_tuples v)"
    if "exact t" "sql_validate t v"
    using validate_coerce [OF that] by (simp add: listed_same)
  moreover have "sql_validate FloatType (SqlInt (2 ^ 1024) :: ('d, 'o) sql_value)" by simp
  ultimately show ?thesis using coerce_result [of t lib v] by blast
qed


section \<open>The binary form read back\<close>

text \<open>
  What reading back a stored value gives: the coerced value, a boolean of an integer column as an integer, a
  moment of a date column as its day, and a moment of a timestamp column as the conversions through
  microseconds leave it.  The type NULL stores whatever it is given as a null.
\<close>

fun stored :: "'d sql_lib \<Rightarrow> sql_type \<Rightarrow> ('d, 'o) sql_value \<Rightarrow> ('d, 'o) sql_value result" where
  "stored lib t v =
     (if t = NullType then Inr SqlNull
      else res_bind (sql_coerce lib t v) (\<lambda>w.
        case (t, w) of
          (IntegerType, SqlBool b) \<Rightarrow> Inr (SqlInt (of_bool b))
        | (TimestampType, SqlDatetime d) \<Rightarrow>
            res_bind (dt_micros lib d) (\<lambda>n. res_bind (dt_of_micros lib n) (\<lambda>d. Inr (SqlDatetime d)))
        | (DateType, SqlDate n) \<Rightarrow> date_of_ordinal n
        | (DateType, SqlDatetime d) \<Rightarrow> date_of_ordinal (dt_ordinal lib d)
        | (ArrayType u, SqlList ws) \<Rightarrow> res_bind (res_map (stored lib u) ws) (\<lambda>vs. Inr (SqlList vs))
        | _ \<Rightarrow> Inr w))"

declare stored.simps [simp del]

lemma struct_pack_one: "struct_pack [(n, r)] = r"
  by (cases r) simp_all

lemmas pack_simps = struct_pack_one res_bind_eq_Inr

lemma unpack_text_at:
  assumes "pack_text n v = Inr bs"
  shows "unpack_text n (pre @ bs @ post) (ilen pre) = Inr (v, ilen pre + ilen bs)"
proof -
  from assms obtain s data h where b: "v = SqlStr s" "utf8_encode s = Inr data"
      "pack_uint True n (ilen data) = Inr h" "bs = h @ data"
    by (cases v) (auto simp: pack_text_def pack_simps simp del: struct_pack_Cons)
  note h = pack_uint_length [OF b(3)] unpack_pack_uint [OF b(3)]
  have "unpack_from (pre @ h @ data @ post) (ilen pre) n = Inr h"
    by (rule unpack_at [OF h(1)])
  moreover have "py_slice ((pre @ h) @ data @ post) (ilen (pre @ h)) (ilen (pre @ h) + ilen data) = data"
    by (rule slice_at)
  ultimately show ?thesis
    using utf8_decode_encode [OF b(2)] h by (simp add: unpack_text_def b(1,4))
qed

lemma coerced_array: "sql_coerce lib (ArrayType t) v = Inr w \<Longrightarrow> \<exists>ws. w = SqlList ws"
  by (auto simp: res_bind_eq_Inr split: sql_value.splits)

lemma deserialize_array:
  fixes v :: "('d, 'o) sql_value"
  assumes "\<And>(v :: ('d, 'o) sql_value) w bs pre post. sql_serialize lib t v = Inr bs \<Longrightarrow> stored lib t v = Inr w \<Longrightarrow>
      sql_deserialize lib t (pre @ bs @ post) (ilen pre) = Inr (w, ilen pre + ilen bs)"
    and "sql_serialize lib (ArrayType t) v = Inr bs" and "stored lib (ArrayType t) v = Inr w"
  shows "sql_deserialize lib (ArrayType t) (pre @ bs @ post) (ilen pre) = Inr (w, ilen pre + ilen bs)"
proof -
  from assms(2) obtain xs where xs: "sql_coerce lib (ArrayType t) v = Inr (SqlList xs)"
    using coerced_array [of lib t v] by (auto simp: res_bind_eq_Inr simp del: sql_coerce.simps)
  from assms(2,3) obtain ys h bss where
      x: "pack_uint True 4 (ilen xs) = Inr h" "res_map (sql_serialize lib t) xs = Inr bss"
      "res_map (stored lib t) xs = Inr ys" "bs = h @ concat bss" "w = SqlList ys"
    by (auto simp: stored.simps [of lib "ArrayType t"] xs pack_simps simp del: struct_pack_Cons sql_coerce.simps)
  define enc f where "enc = (\<lambda>x :: ('d, 'o) sql_value. projr (sql_serialize lib t x))"
    and "f = (\<lambda>x :: ('d, 'o) sql_value. projr (stored lib t x))"
  have maps: "bss = map enc xs" "ys = map f xs"
    using x(2,3) by (auto simp: res_map_eq enc_def f_def list_eq_iff_nth_eq)
  have each: "sql_deserialize lib t (pre @ enc x @ post) (ilen pre) = Inr (f x, ilen pre + ilen (enc x))"
    if "x \<in> set xs" for x pre post
    using that x(2,3) by (intro assms(1) [of x]) (auto simp: res_map_eq enc_def f_def in_set_conv_nth)
  have "decode_many (sql_deserialize lib t) (length xs) ((pre @ h) @ concat (map enc xs) @ post) (ilen (pre @ h)) =
      Inr (map f xs, ilen (pre @ h) + ilen (concat (map enc xs)))"
    by (rule decode_many_map) (rule each)
  moreover have "unpack_from (pre @ h @ concat bss @ post) (ilen pre) 4 = Inr h"
    by (rule unpack_at) (rule pack_uint_length [OF x(1)])
  ultimately show ?thesis
    using unpack_pack_uint [OF x(1)] pack_uint_length [OF x(1)] by (simp add: x(4,5) maps add.assoc)
qed

lemma deserialize_serialize:
  fixes v :: "('d, 'o) sql_value"
  assumes "sql_serialize lib t v = Inr bs" and "stored lib t v = Inr w"
  shows "sql_deserialize lib t (pre @ bs @ post) (ilen pre) = Inr (w, ilen pre + ilen bs)"
  using assms
proof (induction t arbitrary: v w bs pre post)
  case (ArrayType t)
  show ?case by (rule deserialize_array [OF ArrayType.IH ArrayType.prems])
next
  case IntegerType
  then obtain u n where u: "coerce_integer lib v = Inr u" "as_int u = Some n" "pack_sint True 4 n = Inr bs" "w = SqlInt n"
    using coerce_scalar(1) [of lib v]
    by (fastforce simp: stored.simps pack_simps simp del: struct_pack_Cons split: option.splits)
  then show ?case using pack_sint_Inr [OF u(3)] unpack_at [of bs 4 pre post] by simp
next
  case FloatType
  then obtain x where "bs = pack_d True x" "w = SqlFloat x"
    by (auto simp: stored.simps res_bind_eq_Inr split: sql_value.splits)
  then show ?case using unpack_at [of bs 8 pre post] by (simp add: unpack_pack_d)
next
  case BooleanType
  then obtain b where "bs = [of_bool b]" "w = SqlBool b"
    by (auto simp: stored.simps res_bind_eq_Inr split: sql_value.splits)
  then show ?case using unpack_at [of bs 1 pre post] by (auto simp: unpack_uint_def byte_order_def)
next
  case TimestampType
  then obtain d n d' where d: "pack_sint True 8 n = Inr bs" "dt_of_micros lib n = Inr d'" "w = SqlDatetime d'"
    using coerce_scalar(5) [of lib v]
    by (fastforce simp: stored.simps pack_simps simp del: struct_pack_Cons)
  then show ?case using pack_sint_Inr [OF d(1)] unpack_at [of bs 8 pre post] by simp
next
  case DateType
  then obtain n where n: "pack_sint True 4 n = Inr bs" "date_of_ordinal n = Inr w"
    using coerce_scalar(6) [of lib v]
    by (fastforce simp: stored.simps pack_simps simp del: struct_pack_Cons)
  then show ?case using pack_sint_Inr [OF n(1)] unpack_at [of bs 4 pre post] by simp
qed (auto simp: stored.simps res_bind_eq_Inr unpack_text_at)


section \<open>What was stored compares equal\<close>

text \<open>No type of moments in it: their read back form depends on the calendar of the platform.\<close>

fun plain :: "sql_type \<Rightarrow> bool" where
  "plain TimestampType \<longleftrightarrow> False"
| "plain DateType \<longleftrightarrow> False"
| "plain (ArrayType t) \<longleftrightarrow> plain t"
| "plain _ \<longleftrightarrow> True"

text \<open>Neither value is less than the other.\<close>

definition tie :: "'d sql_lib \<Rightarrow> ('d, 'o) sql_value \<Rightarrow> ('d, 'o) sql_value \<Rightarrow> bool" where
  "tie lib v w \<longleftrightarrow> value_less lib v w = Inr False \<and> value_less lib w v = Inr False"

lemma lex_less_tie:
  "list_all2 (\<lambda>x y. same x y \<or> lt x y = Inr False) xs ys \<Longrightarrow> lex_less same lt xs ys = Inr False"
  by (induction xs ys rule: list_all2_induct) auto

lemma tie_list:
  assumes "list_all2 (\<lambda>v w. v = SqlNull \<and> w = SqlNull \<or> tie lib v w) vs ws"
  shows "tie lib (SqlList vs) (SqlList ws)"
proof -
  have "list_all2 (\<lambda>v w. value_equal lib v w \<or> value_less lib v w = Inr False) vs ws"
    using assms by (rule list_all2_mono) (auto simp: tie_def value_equal.simps)
  moreover have "list_all2 (\<lambda>v w. value_equal lib v w \<or> value_less lib v w = Inr False) ws vs"
    using assms by (subst list_all2_conv_all_nth) (auto simp: list_all2_conv_all_nth tie_def value_equal.simps)
  ultimately show ?thesis by (simp add: tie_def value_less.simps [of lib "SqlList _"] lex_less_tie)
qed

lemma tie_scalar [simp]:
  "tie lib (SqlInt m) (SqlInt n) \<longleftrightarrow> m = n" "tie lib (SqlBool a) (SqlInt n) \<longleftrightarrow> of_bool a = n"
  "tie lib (SqlBool a) (SqlBool b) \<longleftrightarrow> a = b" "tie lib (SqlStr s) (SqlStr s)" "tie lib (SqlFloat x) (SqlFloat x)"
  by (auto simp: tie_def value_less.simps float_less_def)

lemma stored_tie_array:
  fixes v :: "('d, 'o) sql_value"
  assumes "\<And>(v :: ('d, 'o) sql_value) x. sql_coerce lib t v = Inr x \<Longrightarrow>
      \<exists>w. stored lib t v = Inr w \<and> sql_coerce lib t w = Inr w \<and>
        (if t = NullType then x = SqlNull \<and> w = SqlNull else tie lib x w)"
    and "proper t" and "sql_coerce lib (ArrayType t) v = Inr x"
  shows "\<exists>w. stored lib (ArrayType t) v = Inr w \<and> sql_coerce lib (ArrayType t) w = Inr w \<and> tie lib x w"
proof -
  obtain xs where xs: "x = SqlList xs" using coerced_array [OF assms(3)] by blast
  have "\<exists>w. stored lib t y = Inr w \<and> sql_coerce lib t w = Inr w \<and> (y = SqlNull \<and> w = SqlNull \<or> tie lib y w)"
    if "y \<in> set xs" for y
  proof -
    have "sql_coerce lib t y = Inr y"
      using coerce_result(2) [OF _ assms(3)] assms(2) that xs by (auto simp: res_map_eq res_bind_eq_Inr in_set_conv_nth)
    then show ?thesis using assms(1) [of y y] assms(2) by (auto split: if_splits)
  qed
  then obtain f where f: "\<And>y. y \<in> set xs \<Longrightarrow> stored lib t y = Inr (f y) \<and> sql_coerce lib t (f y) = Inr (f y) \<and>
      (y = SqlNull \<and> f y = SqlNull \<or> tie lib y (f y))" by metis
  then have "res_map (stored lib t) xs = Inr (map f xs)" "res_map (sql_coerce lib t) (map f xs) = Inr (map f xs)"
    by (auto simp: res_map_eq)
  moreover have "tie lib (SqlList xs) (SqlList (map f xs))"
    by (rule tie_list) (use f in \<open>auto simp: list_all2_conv_all_nth\<close>)
  ultimately show ?thesis
    using assms(3) by (auto simp: stored.simps [of lib "ArrayType t"] xs simp del: sql_coerce.simps
        simp add: sql_coerce.simps(9) [of lib t "SqlList (map f xs)"])
qed

lemma stored_tie:
  fixes v :: "('d, 'o) sql_value"
  assumes "plain t" and "proper t" and "sql_coerce lib t v = Inr x"
  shows "\<exists>w. stored lib t v = Inr w \<and> sql_coerce lib t w = Inr w \<and>
    (if t = NullType then x = SqlNull \<and> w = SqlNull else tie lib x w)"
  using assms
proof (induction t arbitrary: v x)
  case NullType
  then show ?case by (auto simp: stored.simps split: if_splits)
next
  case IntegerType
  then show ?case
    using coerce_scalar(1) [of lib v x]
    by (auto simp: stored.simps coerce_integer_def integer_value_def in_int32_def)
next
  case FloatType
  then show ?case using coerce_scalar(2) [of lib v x] by (auto simp: stored.simps coerce_float_def)
next
  case (VarcharType m)
  then show ?case
    using coerce_scalar(3) [of m lib v x] by (auto simp: stored.simps coerce_varchar_def text_of_def)
next
  case TextType
  then show ?case
    using coerced_text [of lib v x] by (auto simp: stored.simps res_bind_eq_Inr text_of_def)
next
  case BooleanType
  then show ?case using coerce_scalar(4) [of lib v x] by (auto simp: stored.simps coerce_boolean_def)
next
  case (ArrayType t)
  then show ?case using stored_tie_array [of lib t v x] by (simp del: sql_coerce.simps)
qed (simp_all)

lemma serialize_coerces:
  "sql_serialize lib t v = Inr bs \<Longrightarrow> t \<noteq> NullType \<Longrightarrow> \<exists>x. sql_coerce lib t v = Inr x"
  by (cases t) (auto simp: res_bind_eq_Inr simp del: sql_coerce.simps)

lemma stored_equal:
  assumes "plain t" and "proper t" and "sql_serialize lib t v = Inr bs" and "t = NullType \<longrightarrow> v = SqlNull"
  shows "\<exists>w. stored lib t v = Inr w \<and> sql_compare lib t v w = Inr 0"
proof (cases "t = NullType")
  case True
  then show ?thesis using assms(4) by (simp add: stored.simps sql_compare_def)
next
  case False
  with serialize_coerces [OF assms(3)] obtain x where x: "sql_coerce lib t v = Inr x" by blast
  from stored_tie [OF assms(1,2) x] False obtain w where
      w: "stored lib t v = Inr w" "sql_coerce lib t w = Inr w" "tie lib x w" by auto
  have "v \<noteq> SqlNull" "w \<noteq> SqlNull"
    using x w(2) False by (cases t; auto simp: coerce_integer_def coerce_float_def coerce_varchar_def text_of_def
        coerce_boolean_def coerce_timestamp_def coerce_date_def)+
  then show ?thesis using w x by (simp add: sql_compare_def tie_def)
qed


lemma date_read_back:
  fixes lib :: "'d sql_lib" and d :: 'd
  assumes "sql_serialize lib DateType (SqlDatetime d :: ('d, 'o) sql_value) = Inr bs" and "1 \<le> dt_ordinal lib d" and "dt_ordinal lib d \<le> 3652059"
  shows "sql_deserialize lib DateType (pre @ bs @ post) (ilen pre) =
      Inr (SqlDate (dt_ordinal lib d) :: ('d, 'o) sql_value, ilen pre + ilen bs)"
    and "sql_compare lib DateType (SqlDatetime d :: ('d, 'o) sql_value) (SqlDate (dt_ordinal lib d)) = Inl TypeError"
proof -
  have "stored lib DateType (SqlDatetime d :: ('d, 'o) sql_value) = Inr (SqlDate (dt_ordinal lib d))"
    using assms(2,3) by (simp add: stored.simps coerce_date_def date_of_ordinal_eq)
  then show "sql_deserialize lib DateType (pre @ bs @ post) (ilen pre) =
      Inr (SqlDate (dt_ordinal lib d) :: ('d, 'o) sql_value, ilen pre + ilen bs)"
    by (rule deserialize_serialize [OF assms(1)])
  show "sql_compare lib DateType (SqlDatetime d :: ('d, 'o) sql_value) (SqlDate (dt_ordinal lib d)) = Inl TypeError"
    by (simp add: sql_compare_def coerce_date_def value_less.simps)
qed

text \<open>
  C27. The binary form: what \<^verbatim>\<open>serialize\<close> returns is read back by \<^verbatim>\<open>deserialize\<close> wherever it stands in a
  buffer, and the offset returned is the byte behind it; the value read back is the one \<^verbatim>\<open>stored\<close> describes, where
  there is one: for a timestamp it is what the conversions of the platform to microseconds and back leave of it.
  For types without dates and timestamps and without negative length limits there is always such a value, and
  \<^verbatim>\<open>compare\<close> finds it equal to the one stored (the type NULL given a null).  This fails for dates: a moment that a
  \<^verbatim>\<open>DATE\<close> column accepts comes back as its day, and comparing it with that day raises \<^verbatim>\<open>TypeError\<close>.
\<close>
theorem serialized_read_back:
  fixes v :: "('d, 'o) sql_value"
  assumes "sql_serialize lib t v = Inr bs"
  shows "(\<forall>w. stored lib t v = Inr w \<longrightarrow>
      sql_deserialize lib t (pre @ bs @ post) (ilen pre) = Inr (w, ilen pre + ilen bs)) \<and>
    (plain t \<and> proper t \<and> (t = NullType \<longrightarrow> v = SqlNull) \<longrightarrow>
      (\<exists>w. sql_deserialize lib t (pre @ bs @ post) (ilen pre) = Inr (w, ilen pre + ilen bs) \<and>
        sql_compare lib t v w = Inr 0)) \<and>
    (\<forall>d. t = DateType \<and> v = SqlDatetime d \<and> 1 \<le> dt_ordinal lib d \<and> dt_ordinal lib d \<le> 3652059 \<longrightarrow>
      sql_deserialize lib t (pre @ bs @ post) (ilen pre) = Inr (SqlDate (dt_ordinal lib d) :: ('d, 'o) sql_value, ilen pre + ilen bs) \<and>
      sql_compare lib t v (SqlDate (dt_ordinal lib d)) = Inl TypeError)"
  using deserialize_serialize [OF assms] stored_equal [OF _ _ assms] date_read_back [of lib _ bs] assms by (intro conjI) blast+

text \<open>
  Values that come back as they are form a codec: their binary forms can be laid behind one another.
\<close>

definition reads_back :: "'d sql_lib \<Rightarrow> sql_type \<Rightarrow> ('d, 'o) sql_value \<Rightarrow> bool" where
  "reads_back lib t v \<longleftrightarrow> (\<exists>bs. sql_serialize lib t v = Inr bs) \<and> stored lib t v = Inr v"

interpretation sql_codec: codec "\<lambda>v. projr (sql_serialize lib t v)" "sql_deserialize lib t" "reads_back lib t"
  for lib :: "'d sql_lib" and t :: sql_type
  by unfold_locales (auto simp: reads_back_def deserialize_serialize)

text \<open>
  Rows: the binary forms of values of a type that come back unchanged are prefix free, and those of a whole
  list of them laid end to end are read back one after the other.
\<close>
theorem serialized_rows:
  assumes "reads_back lib t v" and "reads_back lib t w" and "list_all (reads_back lib t) vs"
  shows "(\<forall>p q. projr (sql_serialize lib t v) @ p = projr (sql_serialize lib t w) @ q \<longrightarrow> v = w \<and> p = q) \<and>
    decode_many (sql_deserialize lib t) (length vs)
      (pre @ concat (map (\<lambda>v. projr (sql_serialize lib t v)) vs) @ post) (ilen pre) =
    Inr (vs, ilen pre + ilen (concat (map (\<lambda>v. projr (sql_serialize lib t v)) vs)))"
  using sql_codec.enc_prefix_free [OF assms(1,2)] sql_codec.decode_many_concat [OF assms(3)] by blast

section \<open>Order\<close>

text \<open>
  The types whose values the model can order: numbers, text and booleans.  The key of a value of such a type
  is a number and a text.
\<close>

fun ordered :: "sql_type \<Rightarrow> bool" where
  "ordered IntegerType \<longleftrightarrow> True"
| "ordered FloatType \<longleftrightarrow> True"
| "ordered (VarcharType _) \<longleftrightarrow> True"
| "ordered TextType \<longleftrightarrow> True"
| "ordered BooleanType \<longleftrightarrow> True"
| "ordered _ \<longleftrightarrow> False"

fun order_key :: "('d, 'o) sql_value \<Rightarrow> int \<times> pystr" where
  "order_key (SqlInt n) = (n, [])"
| "order_key (SqlBool b) = (of_bool b, [])"
| "order_key (SqlFloat x) = (float_key x, [])"
| "order_key (SqlStr s) = (0, s)"
| "order_key _ = (0, [])"

definition not_a_number :: "('d, 'o) sql_value \<Rightarrow> bool" where
  "not_a_number v \<longleftrightarrow> (\<exists>x. v = SqlFloat x \<and> float_is_nan x)"

definition less_key :: "int \<times> pystr \<Rightarrow> int \<times> pystr \<Rightarrow> bool" where
  "less_key a b \<longleftrightarrow> fst a < fst b \<or> fst a = fst b \<and> snd a < snd b"

lemma value_less_key:
  assumes "ordered t" and "sql_coerce lib t a = Inr x" and "sql_coerce lib t b = Inr y"
  shows "value_less lib x y =
    Inr (\<not> not_a_number x \<and> \<not> not_a_number y \<and> less_key (order_key x) (order_key y))"
proof -
  have strs: "\<exists>s. x = SqlStr s" "\<exists>s. y = SqlStr s" if "t = TextType \<or> (\<exists>m. t = VarcharType m)"
    using that assms(2,3) by (auto simp: coerce_varchar_def res_bind_eq_Inr)
  show ?thesis
    using assms strs coerce_scalar(1,2,4) [of lib a x] coerce_scalar(1,2,4) [of lib b y]
    by (cases t) (auto simp: value_less.simps not_a_number_def float_less_def less_key_def)
qed

lemma compare_key:
  assumes "ordered t" and "sql_coerce lib t a = Inr x" and "sql_coerce lib t b = Inr y"
  shows "sql_compare lib t a b = Inr
    (if not_a_number x \<or> not_a_number y \<or> order_key x = order_key y then 0
     else if less_key (order_key x) (order_key y) then - 1 else 1)"
proof -
  have "a \<noteq> SqlNull" "b \<noteq> SqlNull"
    using assms by (cases t; auto simp: coerce_integer_def coerce_float_def coerce_varchar_def text_of_def
        coerce_boolean_def)+
  moreover have "less_key k l \<or> k = l \<or> less_key l k" for k l :: "int \<times> pystr"
    by (cases k; cases l) (auto simp: less_key_def)
  moreover have "\<not> less_key k k" for k by (simp add: less_key_def)
  ultimately show ?thesis
    using value_less_key [OF assms] value_less_key [OF assms(1,3,2)] assms(2,3)
    by (simp add: sql_compare_def) metis
qed


text \<open>The comparison of keys, a missing one (of a null) first.\<close>

definition key_compare :: "(int \<times> pystr) option \<Rightarrow> (int \<times> pystr) option \<Rightarrow> int" where
  "key_compare k l =
     (case (k, l) of
        (None, None) \<Rightarrow> 0
      | (None, Some _) \<Rightarrow> - 1
      | (Some _, None) \<Rightarrow> 1
      | (Some x, Some y) \<Rightarrow> if x = y then 0 else if less_key x y then - 1 else 1)"

lemma less_key_order:
  "less_key k l \<Longrightarrow> less_key l m \<Longrightarrow> less_key k m" "\<not> less_key k k" "less_key k l \<or> k = l \<or> less_key l k"
  by (cases k; cases l; cases m; auto simp: less_key_def)+

lemma key_compare_swap: "key_compare l k = - key_compare k l"
  by (cases k; cases l; use less_key_order(1) [of "the k" "the l" "the k"] less_key_order(2) [of "the k"]
      less_key_order(3) [of "the k" "the l"] in \<open>force simp: key_compare_def\<close>)

lemma key_compare_values: "key_compare k l \<in> {-1, 0, 1}"
  by (auto simp: key_compare_def split: option.split)

lemma key_compare_trans:
  assumes "key_compare k l \<le> 0" and "key_compare l m \<le> 0"
  shows "key_compare k m \<le> 0 \<and> (key_compare k m = 0 \<longleftrightarrow> key_compare k l = 0 \<and> key_compare l m = 0)"
proof (cases "k = None \<or> l = None \<or> m = None")
  case True
  then show ?thesis using assms by (auto simp: key_compare_def split: option.splits if_splits)
next
  case False
  then obtain x y z where "k = Some x" "l = Some y" "m = Some z" by auto
  then show ?thesis
    using assms less_key_order(1) [of x y z] less_key_order(2) [of x] less_key_order(1) [of x y x]
    by (auto simp: key_compare_def split: if_splits)
qed

lemma compare_keys:
  assumes "ordered t"
    and "v = SqlNull \<or> (\<exists>x. sql_coerce lib t v = Inr x \<and> \<not> not_a_number x)"
    and "w = SqlNull \<or> (\<exists>x. sql_coerce lib t w = Inr x \<and> \<not> not_a_number x)"
  defines "key \<equiv> \<lambda>v. if v = SqlNull then None else Some (order_key (projr (sql_coerce lib t v)))"
  shows "sql_compare lib t v w = Inr (key_compare (key v) (key w))"
proof (cases "v = SqlNull \<or> w = SqlNull")
  case True
  then show ?thesis by (auto simp: sql_compare_def key_def key_compare_def)
next
  case False
  with assms(2,3) obtain x y where
      "sql_coerce lib t v = Inr x" "\<not> not_a_number x" "sql_coerce lib t w = Inr y" "\<not> not_a_number y" by auto
  then show ?thesis using compare_key [OF assms(1), of lib v x w y] False by (simp add: key_def key_compare_def)
qed

text \<open>
  Order: among nulls and the numbers (NaN left out), texts or booleans of a column, \<^verbatim>\<open>compare\<close> is a
  total preorder with the nulls first: swapping the values negates the answer, and it is transitive.  A NaN
  instead compares equal to every number of a float column, so that there \<^verbatim>\<open>compare\<close> orders nothing.
\<close>
theorem compare_total_order:
  fixes a b c :: "('d, 'o) sql_value" and lib :: "'d sql_lib"
  assumes "ordered t"
    and "\<And>v. v \<in> {a, b, c} \<Longrightarrow> v = SqlNull \<or> (\<exists>x. sql_coerce lib t v = Inr x \<and> \<not> not_a_number x)"
  shows "(\<exists>i. sql_compare lib t a b = Inr i \<and> sql_compare lib t b a = Inr (- i) \<and> i \<in> {-1, 0, 1}) \<and>
    (\<forall>i j. sql_compare lib t a b = Inr i \<and> sql_compare lib t b c = Inr j \<and> i \<le> 0 \<and> j \<le> 0 \<longrightarrow>
      (\<exists>k \<le> 0. sql_compare lib t a c = Inr k \<and> (k = 0 \<longleftrightarrow> i = 0 \<and> j = 0))) \<and>
    (\<forall>d x. sql_coerce lib FloatType d = Inr x \<longrightarrow>
      sql_compare lib FloatType (SqlFloat 0x7FF8000000000000) d = Inr 0)"
proof -
  define key where "key = (\<lambda>v :: ('d, 'o) sql_value. if v = SqlNull then None else Some (order_key (projr (sql_coerce lib t v))))"
  have cmp: "sql_compare lib t v w = Inr (key_compare (key v) (key w))" if "v \<in> {a, b, c}" "w \<in> {a, b, c}" for v w
    unfolding key_def by (rule compare_keys [OF assms(1) assms(2) [OF that(1)] assms(2) [OF that(2)]])
  have "sql_compare lib FloatType (SqlFloat 0x7FF8000000000000) d = Inr 0"
    if "sql_coerce lib FloatType d = Inr x" for d :: "('d, 'c) sql_value" and x
    using compare_key [of FloatType lib "SqlFloat 0x7FF8000000000000" "SqlFloat 0x7FF8000000000000" d x] that
    by (simp add: coerce_float_def not_a_number_def float_is_nan_def)
  then show ?thesis
    using key_compare_swap [of "key b" "key a"] key_compare_values [of "key a" "key b"]
      key_compare_trans [of "key a" "key b" "key c"] by (auto simp: cmp)
qed


section \<open>Names of types\<close>

lemma int_str_chars:
  assumes "c \<in> set (int_str n)"
  shows "upper_char c = c" and "c \<noteq> CHR ''(''" and "c \<noteq> CHR '')''"
proof -
  have "digit_char c" if "c \<in> set (nat_str k)" for k
    using nat_str_digits [of k] that by (simp add: ascii_digits_def list_all_iff)
  with assms have "digit_char c \<or> c = CHR ''-''"
    by (auto simp: int_str_def split: if_splits)
  then show "upper_char c = c" and "c \<noteq> CHR ''(''" and "c \<noteq> CHR '')''"
    using digit_char_facts [of c] by (auto simp: upper_char_def)
qed

lemma parse_varchar:
  assumes "upper (strip s) = type_name (VarcharType m)"
  shows "parse_type_string s = Inr (VarcharType m)"
proof -
  have no: "CHR ''('' \<notin> set (int_str m)" "CHR '')'' \<notin> set (int_str m)" by (auto dest: int_str_chars)
  have "split_on CHR ''('' (''VARCHAR('' @ int_str m @ '')'') = [''VARCHAR'', int_str m @ '')'']"
    using split_append_sep [of "CHR ''(''" "''VARCHAR''" "int_str m @ '')''"] no by (simp add: split_no_sep)
  moreover have "split_on CHR '')'' (int_str m @ '')'') = [int_str m, '''']"
    using split_append_sep [of "CHR '')''" "int_str m" "[]"] no by simp
  ultimately show ?thesis
    by (simp add: parse_type_string_def assms starts_with_def int_of_int_str)
qed

lemma parse_type_name:
  assumes "upper (strip s) = upper (type_name t)"
  shows "parse_type_string s = (case t of ArrayType _ \<Rightarrow> Inl ValueError | _ \<Rightarrow> Inr t)"
proof (cases t)
  case (VarcharType m)
  have "upper (int_str m) = int_str m" unfolding upper_def by (rule map_idI) (rule int_str_chars)
  then have "upper (type_name t) = type_name t"
    by (simp add: VarcharType upper_def upper_char_def)
  then show ?thesis using assms parse_varchar [of s m] by (simp add: VarcharType)
next
  case (ArrayType u)
  have "upper (type_name t) = ''ARRAY<'' @ upper (type_name u @ ''>'')"
    by (simp add: ArrayType upper_def upper_char_def)
  then show ?thesis using assms by (simp add: ArrayType parse_type_string_def starts_with_def)
qed (use assms in \<open>simp_all add: parse_type_string_def upper_def upper_char_def\<close>)

lemma parse_printed_name: "parse_type_string (type_name t) = (case t of ArrayType _ \<Rightarrow> Inl ValueError | _ \<Rightarrow> Inr t)"
proof -
  have "strip (type_name t) = type_name t"
    by (rule strip_id) (cases t; simp add: space_char_def)+
  then show ?thesis by (intro parse_type_name) simp
qed

text \<open>
  Names: whatever the case of its letters and the white space around it, the name that a type prints is
  parsed to that type with its length limit, whichever integer that is; the name of an array type, and only
  that, is refused by \<^verbatim>\<open>parse_type_string\<close>.
\<close>
theorem type_names_parsed:
  assumes "upper (strip s) = upper (type_name t)"
  shows "parse_type_string s = (case t of ArrayType _ \<Rightarrow> Inl ValueError | _ \<Rightarrow> Inr t)"
  using assms by (rule parse_type_name)

section \<open>The size of a VARCHAR\<close>

lemma utf8_char_length: "utf8_char c = Inr bs \<Longrightarrow> length bs \<le> 4"
  by (auto simp: utf8_char_def split: if_splits)

lemma utf8_encode_length: "utf8_encode s = Inr bs \<Longrightarrow> length bs \<le> 4 * length s"
proof -
  have "utf8_encode_nats s = Inr ns \<Longrightarrow> length ns \<le> 4 * length s" for ns
    by (induction s arbitrary: ns) (force simp: res_bind_eq_Inr dest!: utf8_char_length)+
  then show "utf8_encode s = Inr bs \<Longrightarrow> length bs \<le> 4 * length s"
    by (auto simp: utf8_encode_def res_bind_eq_Inr)
qed

lemma utf8_encode_exact:
  "(\<And>c. c \<in> set s \<Longrightarrow> \<exists>bs. utf8_char c = Inr bs \<and> length bs = k) \<Longrightarrow>
   \<exists>bs. utf8_encode s = Inr bs \<and> length bs = k * length s"
proof -
  assume a: "\<And>c. c \<in> set s \<Longrightarrow> \<exists>bs. utf8_char c = Inr bs \<and> length bs = k"
  then have "\<exists>ns. utf8_encode_nats s = Inr ns \<and> length ns = k * length s"
    by (induction s) fastforce+
  then show ?thesis by (auto simp: utf8_encode_def)
qed

text \<open>
  Length of text: a value that a \<^verbatim>\<open>VARCHAR(m)\<close> column accepts and UTF-8 can encode is always
  serialized when \<open>m\<close> is at most 16383, in at most two bytes and four per character; the limit of \<^verbatim>\<open>m\<close>
  counts characters, though, and the length field bytes: with a larger limit the type accepts a text that
  it cannot serialize.
\<close>
theorem varchar_bytes:
  "(m \<le> 16383 \<and> sql_validate (VarcharType m) (SqlStr s) \<and> utf8_encode s = Inr data \<longrightarrow>
      (\<exists>h. sql_serialize lib (VarcharType m) (SqlStr s) = Inr (h @ data) \<and> length h = 2 \<and>
        ilen (h @ data) \<le> 2 + 4 * m)) \<and>
    (16384 \<le> n \<and> int n \<le> m \<longrightarrow>
      sql_validate (VarcharType m) (SqlStr (replicate n 0x1F600)) \<and>
      sql_serialize lib (VarcharType m) (SqlStr (replicate n 0x1F600)) = Inl StructError)"
proof -
  have "\<exists>h. sql_serialize lib (VarcharType m) (SqlStr s) = Inr (h @ data) \<and> length h = 2 \<and> ilen (h @ data) \<le> 2 + 4 * m"
    if m: "m \<le> 16383" "ilen s \<le> m" "utf8_encode s = Inr data"
  proof -
    have "ilen data \<le> 4 * ilen s" using utf8_encode_length [OF m(3)] by simp
    then have "ilen data < 256 ^ 2" "ilen data \<le> 4 * m" using m by simp_all
    then show ?thesis using m by (simp add: coerce_varchar_def text_of_def pack_text_def pack_uint_def)
  qed
  moreover have "sql_serialize lib (VarcharType m) (SqlStr (replicate n 0x1F600)) = Inl StructError"
    if "16384 \<le> n" "int n \<le> m"
  proof -
    have "\<exists>bs. utf8_encode (replicate n 0x1F600) = Inr bs \<and> length bs = 4 * length (replicate n (0x1F600 :: nat))"
      by (rule utf8_encode_exact) (simp add: utf8_char_def surrogate_def)
    then obtain bs where "utf8_encode (replicate n 0x1F600) = Inr bs" "length bs = 4 * n" by auto
    then show ?thesis using that by (simp add: coerce_varchar_def text_of_def pack_text_def pack_uint_def)
  qed
  ultimately show ?thesis by auto
qed


section \<open>Instances\<close>

text \<open>A platform whose texts are never numbers or moments and whose moments are single points.\<close>

definition bare_lib :: "unit sql_lib" where
  "bare_lib =
     \<lparr>int_of_str = (\<lambda>_. None), float_of_str = (\<lambda>_. None), str_of_float = (\<lambda>_. []), str_lower = (\<lambda>s. s),
      dt_of_int = (\<lambda>_. Inr ()), dt_of_float = (\<lambda>_. Inr ()), dt_of_iso = (\<lambda>_. None), date_of_iso = (\<lambda>_. None),
      dt_micros = (\<lambda>_. Inr 5), dt_of_micros = (\<lambda>_. Inr ()), dt_ordinal = (\<lambda>_. 719163),
      dt_less = (\<lambda>_ _. Inr False), dt_equal = (\<lambda>_ _. True)\<rparr>"

theorem coercion_witness:
  "sql_coerce bare_lib (VarcharType 2) (SqlInt 1234 :: (unit, unit) sql_value) = Inr (SqlStr [49, 50]) \<and>
   sql_validate (VarcharType 2) (SqlStr [49, 50] :: (unit, unit) sql_value) \<and>
   sql_coerce bare_lib (VarcharType 2) (SqlStr [49, 50] :: (unit, unit) sql_value) = Inr (SqlStr [49, 50]) \<and>
   sql_coerce bare_lib (ArrayType IntegerType) (SqlTuple [SqlInt 1, SqlInt 2] :: (unit, unit) sql_value) =
     Inr (SqlList [SqlInt 1, SqlInt 2])"
proof -
  have cut: "sql_coerce bare_lib (VarcharType 2) (SqlInt 1234 :: (unit, unit) sql_value) = Inr (SqlStr [49, 50])"
    by code_simp
  have "proper (VarcharType 2)" by simp
  from coercion [THEN conjunct1, rule_format, OF this cut] cut
  have "sql_coerce bare_lib (VarcharType 2) (SqlInt 1234 :: (unit, unit) sql_value) = Inr (SqlStr [49, 50]) \<and>
      sql_validate (VarcharType 2) (SqlStr [49, 50] :: (unit, unit) sql_value) \<and>
      sql_coerce bare_lib (VarcharType 2) (SqlStr [49, 50] :: (unit, unit) sql_value) = Inr (SqlStr [49, 50])" by blast
  moreover have "exact (ArrayType IntegerType) \<and>
      sql_validate (ArrayType IntegerType) (SqlTuple [SqlInt 1, SqlInt 2] :: (unit, unit) sql_value)"
    by (simp add: in_int32_def)
  then have "sql_coerce bare_lib (ArrayType IntegerType) (SqlTuple [SqlInt 1, SqlInt 2] :: (unit, unit) sql_value) =
      Inr (listed (SqlTuple [SqlInt 1, SqlInt 2]))"
    by (rule coercion [THEN conjunct2, THEN conjunct2, THEN conjunct1, THEN mp, THEN conjunct1])
  moreover have "listed (SqlTuple [SqlInt 1, SqlInt 2] :: (unit, unit) sql_value) = SqlList [SqlInt 1, SqlInt 2]" by simp
  ultimately show ?thesis by (simp only:)
qed

theorem serialized_read_back_witness:
  "sql_serialize bare_lib (ArrayType IntegerType) (SqlList [SqlInt 1, SqlBool True] :: (unit, unit) sql_value) =
     Inr [0, 0, 0, 2, 0, 0, 0, 1, 0, 0, 0, 1] \<and>
   sql_deserialize bare_lib (ArrayType IntegerType) [7, 0, 0, 0, 2, 0, 0, 0, 1, 0, 0, 0, 1, 9] 1 =
     Inr (SqlList [SqlInt 1, SqlInt 1] :: (unit, unit) sql_value, 13)"
proof -
  let ?v = "SqlList [SqlInt 1, SqlBool True] :: (unit, unit) sql_value"
  have s: "sql_serialize bare_lib (ArrayType IntegerType) ?v = Inr [0, 0, 0, 2, 0, 0, 0, 1, 0, 0, 0, 1]" by code_simp
  have "stored bare_lib (ArrayType IntegerType) ?v = Inr (SqlList [SqlInt 1, SqlInt 1])" by code_simp
  then show ?thesis using serialized_read_back [OF s, of "[7]" "[9]"] s by simp
qed

theorem serialized_rows_witness:
  "decode_many (sql_deserialize bare_lib TextType) 2 [0, 0, 0, 1, 65, 0, 0, 0, 0] 0 =
   Inr ([SqlStr [65], SqlStr [] :: (unit, unit) sql_value], 9)"
proof -
  have v: "reads_back bare_lib TextType (SqlStr [65] :: (unit, unit) sql_value)"
      "reads_back bare_lib TextType (SqlStr [] :: (unit, unit) sql_value)"
    unfolding reads_back_def by (auto simp: stored.simps text_of_def pack_text_def pack_uint_def
        utf8_encode_def utf8_char_def)
  have b: "projr (sql_serialize bare_lib TextType (SqlStr [65] :: (unit, unit) sql_value)) = [0, 0, 0, 1, 65]"
      "projr (sql_serialize bare_lib TextType (SqlStr [] :: (unit, unit) sql_value)) = [0, 0, 0, 0]"
    by code_simp+
  have "list_all (reads_back bare_lib TextType) [SqlStr [65], SqlStr [] :: (unit, unit) sql_value]" using v by simp
  from serialized_rows [OF v this, of "[]" "[]"] show ?thesis
    unfolding list.map b by (simp del: sql_deserialize.simps add: numeral_2_eq_2)
qed

theorem compare_total_order_witness:
  "sql_compare bare_lib IntegerType (SqlInt 1 :: (unit, unit) sql_value) SqlNull = Inr 1 \<and>
   sql_compare bare_lib IntegerType SqlNull (SqlInt 1 :: (unit, unit) sql_value) = Inr (- 1)"
proof -
  have "\<And>v. v \<in> {SqlInt 1, SqlNull, SqlNull :: (unit, unit) sql_value} \<Longrightarrow>
      v = SqlNull \<or> (\<exists>x. sql_coerce bare_lib IntegerType v = Inr x \<and> \<not> not_a_number x)"
    by (auto simp: coerce_integer_def integer_value_def in_int32_def not_a_number_def)
  then show ?thesis
    using compare_total_order [of IntegerType "SqlInt 1 :: (unit, unit) sql_value" SqlNull SqlNull bare_lib]
    by (auto simp: sql_compare_def)
qed

theorem type_names_parsed_witness:
  "parse_type_string '' varchar(20) '' = Inr (VarcharType 20) \<and>
   parse_type_string ''array<int>'' = Inl ValueError"
proof -
  have "upper (strip '' varchar(20) '') = upper (type_name (VarcharType 20))" by code_simp
  then have "parse_type_string '' varchar(20) '' = Inr (VarcharType 20)"
    using type_names_parsed [of "'' varchar(20) ''" "VarcharType 20"] by simp
  moreover have "parse_type_string ''array<int>'' = Inl ValueError" by code_simp
  ultimately show ?thesis by simp
qed

theorem varchar_bytes_witness:
  "sql_serialize bare_lib (VarcharType 16384) (SqlStr (replicate 16384 0x1F600) :: (unit, unit) sql_value) =
   Inl StructError"
  using varchar_bytes [of 16384 "[]" "[]" bare_lib 16384] by (simp del: sql_serialize.simps)

end
