(* ===== verification/SqlCatalog_Facts.thy ===== *)
theory SqlCatalog_Facts
  imports SqlCatalog SqlTypes_Facts
begin

text \<open>
  What the catalog promises: its invariant over all runs, restarts included, the effect of its operations on
  the tables, what a restart finds on the disk, and how the operations fail.
\<close>

section \<open>The catalog as a map of tables\<close>

abbreviation column_key :: "'v column_info \<Rightarrow> string" where
  "column_key c \<equiv> upper (ci_name c)"

definition table_at :: "'v catalog \<Rightarrow> string \<Rightarrow> string \<Rightarrow> 'v table_info option" where
  "table_at s k j = Option.bind (map_of (cat_databases s) k) (\<lambda>db. map_of (di_tables db) j)"

definition names_ok :: "'v column_info list \<Rightarrow> bool" where
  "names_ok cols \<longleftrightarrow> distinct (map column_key cols)"

abbreviation keyed :: "'v column_info list \<Rightarrow> (string \<times> 'v column_info) list" where
  "keyed cols \<equiv> map (\<lambda>c. (column_key c, c)) cols"

definition table_ok :: "'v table_info \<Rightarrow> bool" where
  "table_ok t \<longleftrightarrow> names_ok (ti_columns t) \<and> map_of (ti_column_map t) = map_of (keyed (ti_columns t)) \<and>
     0 \<le> ti_row_count t"

definition database_ok :: "string \<Rightarrow> 'v database_info \<Rightarrow> bool" where
  "database_ok k db \<longleftrightarrow> k = upper (di_name db) \<and> distinct (map fst (di_tables db)) \<and>
     (\<forall>j t. map_of (di_tables db) j = Some t \<longrightarrow> j = upper (ti_name t) \<and> table_ok t)"

definition catalog_ok :: "'v catalog \<Rightarrow> bool" where
  "catalog_ok s \<longleftrightarrow> distinct (map fst (cat_databases s)) \<and>
     (\<forall>k db. map_of (cat_databases s) k = Some db \<longrightarrow> database_ok k db) \<and>
     (\<forall>k j t. table_at s k j = Some t \<longrightarrow> 0 < ti_table_id t \<and> ti_table_id t < cat_next_id s) \<and>
     (\<forall>k j t k' j' t'. table_at s k j = Some t \<and> table_at s k' j' = Some t' \<and> ti_table_id t = ti_table_id t' \<longrightarrow>
        k = k' \<and> j = j') \<and> 0 < cat_next_id s"

lemma distinct_map_entry: "map fst (AList.map_entry k f xs) = map fst xs"
  by (induction xs) auto

lemma key_in_dom: "k \<in> fst ` set al \<longleftrightarrow> map_of al k \<noteq> None"
  by (simp add: map_of_eq_None_iff)

lemma update_new: "k \<notin> fst ` set al \<Longrightarrow> AList.update k v al = al @ [(k, v)]"
  by (induction al) auto

text \<open>Column maps.\<close>

lemma column_map_new:
  assumes "names_ok cols"
  shows "column_map_of cols = keyed cols"
proof -
  have "fold (\<lambda>c. AList.update (column_key c) c) cols acc = acc @ keyed cols"
    if "distinct (map column_key cols)" "fst ` set acc \<inter> column_key ` set cols = {}" for acc
    using that
  proof (induction cols arbitrary: acc)
    case (Cons c cols)
    have "AList.update (column_key c) c acc = acc @ [(column_key c, c)]"
      using Cons.prems(2) by (intro update_new) auto
    moreover have "fold (\<lambda>c. AList.update (column_key c) c) cols (acc @ [(column_key c, c)]) =
        (acc @ [(column_key c, c)]) @ keyed cols"
      using Cons.prems by (intro Cons.IH) auto
    ultimately show ?case by simp
  qed simp
  from this [of "[]"] assms show ?thesis by (simp add: column_map_of_def names_ok_def)
qed

lemma table_new_ok: "names_ok cols \<Longrightarrow> 0 \<le> n \<Longrightarrow> table_ok (table_info_new name cols pk n i)"
  by (simp add: table_ok_def table_info_new_def column_map_new)

lemma has_column_ok: "table_ok t \<Longrightarrow> has_column name t \<longleftrightarrow> upper name \<in> column_key ` set (ti_columns t)"
proof -
  have "map_of (keyed cols) k \<noteq> None \<longleftrightarrow> k \<in> column_key ` set cols" for k and cols :: "'a column_info list"
    by (simp add: image_image map_of_eq_None_iff)
  then show "table_ok t \<Longrightarrow> has_column name t \<longleftrightarrow> upper name \<in> column_key ` set (ti_columns t)"
    unfolding has_column_def key_in_dom table_ok_def by (simp del: not_None_eq)
qed

lemma get_column_ok:
  "table_ok t \<Longrightarrow> get_column name t = Some c \<longleftrightarrow> c \<in> set (ti_columns t) \<and> column_key c = upper name"
proof -
  assume "table_ok t"
  then have "distinct (map fst (keyed (ti_columns t)))" "map_of (ti_column_map t) = map_of (keyed (ti_columns t))"
    by (simp_all add: table_ok_def names_ok_def comp_def)
  then show ?thesis by (auto simp: get_column_def image_iff)
qed

lemma add_column_ok:
  assumes "table_ok t" and "\<not> has_column (ci_name c) t"
  shows "table_ok (t\<lparr>ti_columns := ti_columns t @ [c],
    ti_column_map := AList.update (column_key c) c (ti_column_map t)\<rparr>)"
proof -
  have "column_key c \<notin> column_key ` set (ti_columns t)" using assms has_column_ok by blast
  moreover from this have "map_of (keyed (ti_columns t)) (column_key c) = None"
    by (auto simp: map_of_eq_None_iff)
  ultimately show ?thesis
    using assms(1) by (auto simp: table_ok_def names_ok_def update_conv' map_add_def fun_eq_iff split: option.split)
qed

lemma remove_column_eq:
  assumes "names_ok cols" and "c \<in> set cols" and "default_same env (ci_default c) (ci_default c)"
  shows "remove_column env c cols = Inr (filter (\<lambda>d. column_key d \<noteq> column_key c) cols)"
  using assms
proof (induction cols)
  case (Cons d cols)
  have name: "ci_name d = ci_name c" if "column_same env d c"
    using that by (auto simp: column_same_def dest: arg_cong [where f = ci_name])
  show ?case
  proof (cases "d = c")
    case True
    moreover have "filter (\<lambda>d. column_key d \<noteq> column_key c) cols = cols"
      using Cons.prems(1) True by (auto simp: names_ok_def filter_id_conv image_iff)
    ultimately show ?thesis using Cons.prems(3) by (simp add: column_same_def)
  next
    case False
    then have "column_key d \<noteq> column_key c" "c \<in> set cols"
      using Cons.prems(1,2) by (auto simp: names_ok_def)
    then show ?thesis using Cons name by (auto simp: names_ok_def)
  qed
qed simp

lemma drop_column_ok:
  assumes "table_ok t"
  shows "table_ok (t\<lparr>ti_columns := filter (\<lambda>d. column_key d \<noteq> k) (ti_columns t),
    ti_column_map := AList.delete k (ti_column_map t)\<rparr>)"
proof -
  have "keyed (filter (\<lambda>d. column_key d \<noteq> k) cols) = AList.delete k (keyed cols)" for cols :: "'a column_info list"
    by (induction cols) (auto simp: AList.delete_eq)
  then show ?thesis
    using assms by (simp add: table_ok_def names_ok_def distinct_map_filter delete_conv')
qed

section \<open>The invariant step by step\<close>

lemma saved_state: "\<exists>d. snd (catalog_save env s) = s\<lparr>cat_disk := d\<rparr>"
  by (auto simp: catalog_save_def split: sum.splits)

lemma table_at_disk [simp]: "table_at (s\<lparr>cat_disk := d\<rparr>) = table_at s"
  by (simp add: table_at_def fun_eq_iff)

lemma catalog_ok_disk [simp]: "catalog_ok (s\<lparr>cat_disk := d\<rparr>) = catalog_ok s"
  by (simp add: catalog_ok_def)

lemma catalog_ok_current [simp]: "catalog_ok (s\<lparr>cat_current := c\<rparr>) = catalog_ok s"
  by (simp add: catalog_ok_def table_at_def)

lemma save_ok: "catalog_ok (snd (catalog_save env s)) = catalog_ok s"
  using saved_state [of env s] by auto

lemma current_db_iff:
  "get_current_db s = Some db \<longleftrightarrow> (\<exists>c. cat_current s = Some c \<and> map_of (cat_databases s) (upper c) = Some db)"
  by (auto simp: get_current_db_def split: option.split)

lemma catalog_okD:
  assumes "catalog_ok s"
  shows "map_of (cat_databases s) k = Some db \<Longrightarrow> database_ok k db"
    and "table_at s k j = Some t \<Longrightarrow> 0 < ti_table_id t \<and> ti_table_id t < cat_next_id s"
    and "table_at s k j = Some t \<Longrightarrow> table_at s k' j' = Some t' \<Longrightarrow> ti_table_id t = ti_table_id t' \<Longrightarrow>
      k = k' \<and> j = j'"
  using assms unfolding catalog_ok_def by blast+

lemma database_lookup:
  assumes "database_ok k db"
  shows "db_get_table name db = map_of (di_tables db) (upper name)"
    and "update_first (\<lambda>(k, _). upper k = upper name) (\<lambda>(k, t). (k, f t)) (di_tables db) =
      AList.map_entry (upper name) f (di_tables db)"
proof -
  have up: "upper j = j" if "j \<in> fst ` set (di_tables db)" for j
  proof -
    from that obtain t where "map_of (di_tables db) j = Some t" by (auto simp: key_in_dom)
    then have "j = upper (ti_name t)" using assms by (simp add: database_ok_def)
    then show ?thesis by simp
  qed
  then have "map_option snd (find (\<lambda>(k, _). upper k = upper name) xs) = map_of xs (upper name) \<and>
      update_first (\<lambda>(k, _). upper k = upper name) (\<lambda>(k, t). (k, f t)) xs = AList.map_entry (upper name) f xs"
    if "set xs \<subseteq> set (di_tables db)" for xs
    using that by (induction xs) (force split: prod.splits)+
  then show "db_get_table name db = map_of (di_tables db) (upper name)"
    and "update_first (\<lambda>(k, _). upper k = upper name) (\<lambda>(k, t). (k, f t)) (di_tables db) =
      AList.map_entry (upper name) f (di_tables db)"
    by (auto simp: db_get_table_def)
qed

lemma get_table_at:
  "catalog_ok s \<Longrightarrow> get_table name s =
     (case cat_current s of None \<Rightarrow> None | Some c \<Rightarrow> table_at s (upper c) (upper name))"
  by (auto simp: get_table_def get_current_db_def table_at_def database_lookup [OF catalog_okD(1)]
      split: option.split Option.bind_split simp del: map_of_eq_Some_iff)

lemma change_current_ok:
  assumes "catalog_ok s" and "cat_current s = Some c" and "map_of (cat_databases s) (upper c) = Some db"
    and "cat_databases s' = AList.map_entry (upper c) f (cat_databases s)"
    and "cat_next_id s \<le> cat_next_id s'" and "database_ok (upper c) (f db)"
    and "\<And>j t. map_of (di_tables (f db)) j = Some t \<Longrightarrow>
      (\<exists>t0. map_of (di_tables db) j = Some t0 \<and> ti_table_id t = ti_table_id t0) \<or>
      ti_table_id t = cat_next_id s \<and> cat_next_id s < cat_next_id s' \<and> j = new"
  shows "catalog_ok s'"
proof -
  have at: "table_at s' k j = (if k = upper c then map_of (di_tables (f db)) j else table_at s k j)" for k j
    using assms(3) by (simp add: table_at_def assms(4) AList.map_of_map_entry)
  have old: "table_at s (upper c) j = map_of (di_tables db) j" for j
    using assms(3) by (simp add: table_at_def)
  have id: "(\<exists>t0. table_at s k j = Some t0 \<and> ti_table_id t = ti_table_id t0) \<or>
      ti_table_id t = cat_next_id s \<and> cat_next_id s < cat_next_id s' \<and> k = upper c \<and> j = new"
    if "table_at s' k j = Some t" for k j t
    using that assms(7) [of j t] by (auto simp: at old split: if_splits)
  have bound: "0 < ti_table_id t \<and> ti_table_id t < cat_next_id s" if "table_at s k j = Some t" for k j t
    using that assms(1) by (simp add: catalog_ok_def)
  have pos: "0 < cat_next_id s" using assms(1) by (simp add: catalog_ok_def)
  show ?thesis
    unfolding catalog_ok_def
  proof (intro conjI allI impI)
    show "distinct (map fst (cat_databases s'))"
      using assms(1) by (simp add: catalog_ok_def assms(4) distinct_map_entry)
    show "database_ok k d" if "map_of (cat_databases s') k = Some d" for k d
      using that assms(1,3,6) by (auto simp: catalog_ok_def assms(4) AList.map_of_map_entry split: if_splits)
    show "0 < cat_next_id s'" using pos assms(5) by simp
    fix k j t
    assume t: "table_at s' k j = Some t"
    show "0 < ti_table_id t" and "ti_table_id t < cat_next_id s'"
      using id [OF t] bound pos assms(5) by fastforce+
  next
    fix k j t k' j' t'
    assume "table_at s' k j = Some t \<and> table_at s' k' j' = Some t' \<and> ti_table_id t = ti_table_id t'"
    then have t: "table_at s' k j = Some t" and t': "table_at s' k' j' = Some t'" "ti_table_id t = ti_table_id t'"
      by simp_all
    have "k = k' \<and> j = j'" if "table_at s k j = Some u" "table_at s k' j' = Some u'" "ti_table_id u = ti_table_id u'" for u u'
      using catalog_okD(3) [OF assms(1) that] .
    then show "k = k'" and "j = j'"
      using id [OF t] id [OF t'(1)] t'(2) bound by (auto, (metis order_less_irrefl)+)
  qed
qed


lemma map_entry_cong:
  "(\<And>v. map_of xs k = Some v \<Longrightarrow> f v = g v) \<Longrightarrow> AList.map_entry k f xs = AList.map_entry k g xs"
  by (induction xs) auto

lemma change_table_databases:
  assumes "catalog_ok s" and "cat_current s = Some c"
  shows "change_table name f s = s\<lparr>cat_databases := AList.map_entry (upper c)
    (\<lambda>db. db\<lparr>di_tables := AList.map_entry (upper name) f (di_tables db)\<rparr>) (cat_databases s)\<rparr>"
proof -
  let ?g = "\<lambda>db. db\<lparr>di_tables := update_first (\<lambda>(k, _). upper k = upper name) (\<lambda>(k, t). (k, f t)) (di_tables db)\<rparr>"
  have "AList.map_entry (upper c) ?g (cat_databases s) = AList.map_entry (upper c)
      (\<lambda>db. db\<lparr>di_tables := AList.map_entry (upper name) f (di_tables db)\<rparr>) (cat_databases s)"
    by (rule map_entry_cong) (simp only: database_lookup(2) [OF catalog_okD(1) [OF assms(1)]])
  then show ?thesis by (simp add: change_table_def change_current_db_def assms(2))
qed

lemma current_table:
  assumes "catalog_ok s" and "get_table name s = Some t"
  obtains c db where "cat_current s = Some c" "map_of (cat_databases s) (upper c) = Some db"
    "map_of (di_tables db) (upper name) = Some t" "database_ok (upper c) db" "table_ok t"
proof -
  from assms obtain c db where c: "cat_current s = Some c" "map_of (cat_databases s) (upper c) = Some db"
      "map_of (di_tables db) (upper name) = Some t"
    by (auto simp: get_table_at table_at_def bind_eq_Some_conv split: option.splits)
  with catalog_okD(1) [OF assms(1) c(2)] show ?thesis
    by (intro that) (auto simp: database_ok_def)
qed

lemma change_table_ok:
  assumes "catalog_ok s" and "get_table name s = Some t"
    and "table_ok t \<Longrightarrow> table_ok (f t) \<and> ti_name (f t) = ti_name t \<and> ti_table_id (f t) = ti_table_id t"
  shows "catalog_ok (change_table name f s)"
proof -
  from current_table [OF assms(1,2)] obtain c db where c: "cat_current s = Some c"
      "map_of (cat_databases s) (upper c) = Some db" "map_of (di_tables db) (upper name) = Some t"
      "database_ok (upper c) db" "table_ok t" by blast
  show ?thesis
    unfolding change_table_databases [OF assms(1) c(1)]
  proof (rule change_current_ok [OF assms(1) c(1,2)])
    show "database_ok (upper c) (db\<lparr>di_tables := AList.map_entry (upper name) f (di_tables db)\<rparr>)"
      using c(3-5) assms(3) by (auto simp: database_ok_def AList.map_of_map_entry distinct_map_entry
          split: if_splits)
  qed (use c(3,5) assms(3) in \<open>auto simp: AList.map_of_map_entry split: if_splits\<close>)
qed

lemma create_database_ok: "catalog_ok s \<Longrightarrow> catalog_ok (snd (create_database env name s))"
proof -
  assume ok: "catalog_ok s"
  define s' where "s' = s\<lparr>cat_databases := AList.update (upper name)
    \<lparr>di_name = name, di_tables = [], di_path = None\<rparr> (cat_databases s)\<rparr>"
  have "table_at s' k j = (if k = upper name then None else table_at s k j)" for k j
    by (simp add: table_at_def s'_def AList.update_conv')
  moreover have "distinct (map fst (cat_databases s'))"
    using ok by (simp add: catalog_ok_def s'_def AList.distinct_update)
  ultimately have "catalog_ok s'"
    using ok unfolding catalog_ok_def
    by (auto simp: s'_def AList.update_conv' database_ok_def split: if_splits simp del: map_of_eq_Some_iff)
  then show ?thesis
    using ok saved_state [of env s'] unfolding create_database_def Let_def s'_def
    by (auto simp: st_bind_def split: prod.splits sum.splits)
qed

lemma drop_database_ok: "catalog_ok s \<Longrightarrow> catalog_ok (snd (drop_database env name s))"
proof -
  assume ok: "catalog_ok s"
  define s' where "s' = s\<lparr>cat_databases := AList.delete (upper name) (cat_databases s)\<rparr>"
  have "table_at s' k j = (if k = upper name then None else table_at s k j)" for k j
    by (simp add: table_at_def s'_def AList.delete_conv')
  moreover have "distinct (map fst (cat_databases s'))"
    using ok by (simp add: catalog_ok_def s'_def AList.distinct_delete)
  ultimately have "catalog_ok s'"
    using ok unfolding catalog_ok_def
    by (auto simp: s'_def AList.delete_conv' split: if_splits simp del: map_of_eq_Some_iff)
  then show ?thesis
    using ok unfolding drop_database_def Let_def s'_def by (auto simp: save_ok split: option.splits)
qed

lemma use_database_ok: "catalog_ok s \<Longrightarrow> catalog_ok (snd (use_database name s))"
  by (simp add: use_database_def)

text \<open>The result of a method that saves last, and the state it leaves.\<close>

lemma save_then:
  "st_bind (catalog_save env) (\<lambda>_. st_return x) s = (res, s') \<Longrightarrow>
   catalog_ok s' = catalog_ok s \<and> (\<exists>d. s' = s\<lparr>cat_disk := d\<rparr>)"
  using saved_state [of env s] by (auto simp: st_bind_def split: prod.splits sum.splits)

lemma create_table_ok:
  assumes "catalog_ok s" and "names_ok cols"
  shows "catalog_ok (snd (create_table env name cols pk s))"
proof (cases "get_current_db s")
  case (Some db)
  show ?thesis
  proof (cases "upper name \<in> fst ` set (di_tables db)")
    case False
    from Some obtain c where c: "cat_current s = Some c" "map_of (cat_databases s) (upper c) = Some db"
      by (auto simp: current_db_iff)
    have db: "database_ok (upper c) db" by (rule catalog_okD(1) [OF assms(1) c(2)])
    define t where "t = table_info_new name cols pk 0 (cat_next_id s)"
    have t: "table_ok t" "ti_name t = name" "ti_table_id t = cat_next_id s"
      using table_new_ok [OF assms(2)] by (simp_all add: t_def table_info_new_def)
    define s' where "s' = change_current_db (\<lambda>db. db\<lparr>di_tables := AList.update (upper name) t (di_tables db)\<rparr>)
      (s\<lparr>cat_next_id := cat_next_id s + 1\<rparr>)"
    have "catalog_ok s'"
    proof (rule change_current_ok [OF assms(1) c, where new = "upper name"])
      show "database_ok (upper c) (db\<lparr>di_tables := AList.update (upper name) t (di_tables db)\<rparr>)"
        using db t by (auto simp: database_ok_def AList.update_conv' AList.distinct_update split: if_splits)
    qed (use c t in \<open>auto simp: s'_def change_current_db_def AList.update_conv' split: if_splits\<close>)
    then show ?thesis
      using Some False save_then [of env t s', OF prod.collapse [symmetric]]
      by (simp add: create_table_def Let_def s'_def t_def)
  qed (use Some assms(1) in \<open>simp add: create_table_def Let_def\<close>)
qed (use assms(1) in \<open>simp add: create_table_def\<close>)

lemma drop_table_ok: "catalog_ok s \<Longrightarrow> catalog_ok (snd (drop_table env name s))"
proof -
  assume ok: "catalog_ok s"
  have "catalog_ok (change_current_db (\<lambda>db. db\<lparr>di_tables := AList.delete (upper name) (di_tables db)\<rparr>) s)"
    if "get_current_db s = Some db" for db
  proof -
    from that obtain c where c: "cat_current s = Some c" "map_of (cat_databases s) (upper c) = Some db"
      by (auto simp: current_db_iff)
    show ?thesis
    proof (rule change_current_ok [OF ok c])
      show "database_ok (upper c) (db\<lparr>di_tables := AList.delete (upper name) (di_tables db)\<rparr>)"
        using catalog_okD(1) [OF ok c(2)]
        by (auto simp: database_ok_def AList.delete_conv' AList.distinct_delete split: if_splits)
    qed (auto simp: change_current_db_def c AList.delete_conv' split: if_splits)
  qed
  then show ?thesis using ok by (auto simp: drop_table_def Let_def save_ok split: option.split)
qed

lemma add_column_catalog_ok: "catalog_ok s \<Longrightarrow> catalog_ok (snd (add_column env name col s))"
  by (auto simp: add_column_def save_ok add_column_ok intro!: change_table_ok split: option.split)

lemma drop_column_catalog_ok:
  assumes "catalog_ok s" and "\<And>v. default_same env v v"
  shows "catalog_ok (snd (drop_column env name column s))"
proof -
  have "catalog_ok (change_table name (\<lambda>t. t\<lparr>ti_columns := cols,
      ti_column_map := AList.delete (upper column) (ti_column_map t)\<rparr>) s)"
    if t: "get_table name s = Some t" "get_column column t = Some c" "remove_column env c (ti_columns t) = Inr cols"
    for t c cols
  proof -
    from current_table [OF assms(1) t(1)] have ok: "table_ok t" by blast
    then have c: "c \<in> set (ti_columns t)" "column_key c = upper column" using t(2) get_column_ok by blast+
    have "cols = filter (\<lambda>d. column_key d \<noteq> upper column) (ti_columns t)"
      using remove_column_eq [of "ti_columns t" c env] ok c assms(2) t(3) by (simp add: table_ok_def)
    then show ?thesis
      using drop_column_ok [OF ok, of "upper column"] by (intro change_table_ok [OF assms(1) t(1)]) auto
  qed
  then show ?thesis
    using assms(1) by (auto simp: drop_column_def save_ok split: option.split sum.split)
qed

lemma update_row_count_ok: "catalog_ok s \<Longrightarrow> catalog_ok (update_row_count name delta s)"
  by (auto simp: update_row_count_def table_ok_def intro!: change_table_ok split: option.split)


section \<open>What a restart finds\<close>

text \<open>The catalog that a restart makes of a saved one: defaults as JSON keeps them, maps built anew, no database selected.\<close>

definition reload_column :: "'v catalog_env \<Rightarrow> 'v column_info \<Rightarrow> 'v column_info" where
  "reload_column env c = c\<lparr>ci_default := the (default_json env (ci_default c))\<rparr>"

definition reload_table :: "'v catalog_env \<Rightarrow> 'v table_info \<Rightarrow> 'v table_info" where
  "reload_table env t =
     table_info_new (ti_name t) (map (reload_column env) (ti_columns t)) (ti_primary_key t) (ti_row_count t) (ti_table_id t)"

definition reload_database :: "'v catalog_env \<Rightarrow> 'v database_info \<Rightarrow> 'v database_info" where
  "reload_database env db =
     \<lparr>di_name = di_name db, di_tables = map (\<lambda>(k, t). (k, reload_table env t)) (di_tables db), di_path = None\<rparr>"

definition reloaded :: "'v catalog_env \<Rightarrow> 'v catalog \<Rightarrow> 'v catalog" where
  "reloaded env s =
     \<lparr>cat_databases = map (\<lambda>(k, db). (k, reload_database env db)) (cat_databases s), cat_current = None,
      cat_next_id = cat_next_id s, cat_disk = cat_disk s\<rparr>"

fun is_array :: "sql_type \<Rightarrow> bool" where
  "is_array (ArrayType _) = True"
| "is_array _ = False"

definition every_column :: "('v column_info \<Rightarrow> bool) \<Rightarrow> 'v database_info \<Rightarrow> bool" where
  "every_column P db \<longleftrightarrow> (\<forall>(_, t) \<in> set (di_tables db). \<forall>c \<in> set (ti_columns t). P c)"

definition all_columns :: "('v column_info \<Rightarrow> bool) \<Rightarrow> 'v catalog \<Rightarrow> bool" where
  "all_columns P s \<longleftrightarrow> (\<forall>(_, db) \<in> set (cat_databases s). every_column P db)"

definition has_json :: "'v catalog_env \<Rightarrow> 'v column_info \<Rightarrow> bool" where
  "has_json env c \<longleftrightarrow> default_json env (ci_default c) \<noteq> None"

abbreviation scalar_column :: "'v column_info \<Rightarrow> bool" where
  "scalar_column c \<equiv> \<not> is_array (ci_type c)"

lemma res_map_uniform:
  "(\<And>x. x \<in> set xs \<Longrightarrow> f (h x) = (if P x then Inr (g x) else Inl e)) \<Longrightarrow>
   res_map f (map h xs) = (if \<forall>x \<in> set xs. P x then Inr (map g xs) else Inl e)"
  by (induction xs) auto

lemma column_saved:
  "json_column env (column_to_dict c) =
     (if has_json env c then Inr (column_to_dict (reload_column env c)) else Inl TypeError)"
  "column_from_dict env (column_to_dict c) = (if scalar_column c then Inr c else Inl ValueError)"
  by (auto simp: json_column_def column_to_dict_def column_from_dict_def has_json_def reload_column_def required_def
      get_or_def parse_printed_name split: option.split sql_type.split)

lemma reload_again: "reload_table env t = table_info_new (ti_name (reload_table env t)) (ti_columns (reload_table env t))
    (ti_primary_key (reload_table env t)) (ti_row_count (reload_table env t)) (ti_table_id (reload_table env t))"
  by (simp add: reload_table_def table_info_new_def)

lemma table_saved:
  "json_table env (table_to_dict t) =
     (if \<forall>c \<in> set (ti_columns t). has_json env c then Inr (table_to_dict (reload_table env t)) else Inl TypeError)"
  "table_from_dict env (table_to_dict (reload_table env t)) =
     (if \<forall>c \<in> set (ti_columns t). scalar_column c then Inr (reload_table env t) else Inl ValueError)"
proof -
  have "res_map (json_column env) (map column_to_dict (ti_columns t)) =
      (if \<forall>c \<in> set (ti_columns t). has_json env c then Inr (map (\<lambda>c. column_to_dict (reload_column env c)) (ti_columns t))
       else Inl TypeError)"
    by (rule res_map_uniform) (rule column_saved)
  then show "json_table env (table_to_dict t) =
     (if \<forall>c \<in> set (ti_columns t). has_json env c then Inr (table_to_dict (reload_table env t)) else Inl TypeError)"
    by (simp add: json_table_def table_to_dict_def get_or_def reload_table_def table_info_new_def comp_def)
  have "res_map (column_from_dict env) (map column_to_dict cols) =
      (if \<forall>c \<in> set cols. scalar_column c then Inr (map (\<lambda>c. c) cols) else Inl ValueError)" for cols
    by (rule res_map_uniform) (rule column_saved)
  moreover have "(\<forall>c \<in> set (ti_columns (reload_table env t)). scalar_column c) = (\<forall>c \<in> set (ti_columns t). scalar_column c)"
    by (simp add: reload_table_def table_info_new_def reload_column_def)
  ultimately show "table_from_dict env (table_to_dict (reload_table env t)) =
     (if \<forall>c \<in> set (ti_columns t). scalar_column c then Inr (reload_table env t) else Inl ValueError)"
    using reload_again [of env t, symmetric]
    by (simp add: table_from_dict_def table_to_dict_def get_or_def required_def)
qed

lemma database_saved:
  "json_database env (database_to_dict db) =
     (if every_column (has_json env) db then Inr (database_to_dict (reload_database env db)) else Inl TypeError)"
  "database_from_dict env (database_to_dict (reload_database env db)) =
     (if every_column scalar_column db then Inr (reload_database env db) else Inl ValueError)"
proof -
  have "res_map (\<lambda>(k, t). res_bind (json_table env t) (\<lambda>t. Inr (k, t))) (map (\<lambda>(k, t). (k, table_to_dict t)) (di_tables db)) =
      (if \<forall>x \<in> set (di_tables db). \<forall>c \<in> set (ti_columns (snd x)). has_json env c
       then Inr (map (\<lambda>(k, t). (k, table_to_dict (reload_table env t))) (di_tables db)) else Inl TypeError)"
    by (rule res_map_uniform) (auto simp: table_saved split: prod.split)
  then show "json_database env (database_to_dict db) =
     (if every_column (has_json env) db then Inr (database_to_dict (reload_database env db)) else Inl TypeError)"
    by (simp add: json_database_def database_to_dict_def get_or_def reload_database_def every_column_def
        case_prod_unfold comp_def)
  have "res_map (\<lambda>(k, t). res_bind (table_from_dict env t) (\<lambda>t. Inr (k, t)))
      (map (\<lambda>(k, t). (k, table_to_dict (reload_table env t))) (di_tables db)) =
      (if \<forall>x \<in> set (di_tables db). \<forall>c \<in> set (ti_columns (snd x)). scalar_column c
       then Inr (map (\<lambda>(k, t). (k, reload_table env t)) (di_tables db)) else Inl ValueError)"
    by (rule res_map_uniform) (auto simp: table_saved split: prod.split)
  then show "database_from_dict env (database_to_dict (reload_database env db)) =
     (if every_column scalar_column db then Inr (reload_database env db) else Inl ValueError)"
    by (simp add: database_from_dict_def database_to_dict_def get_or_def required_def reload_database_def
        every_column_def case_prod_unfold comp_def)
qed

lemma save_state:
  "catalog_save env s =
     (if all_columns (has_json env) s
      then (Inr (), s\<lparr>cat_disk := Document
              \<lparr>sv_databases = Some (map (\<lambda>(_, db). database_to_dict (reload_database env db)) (cat_databases s)),
               sv_next_table_id = Some (cat_next_id s)\<rparr>\<rparr>)
      else (Inl TypeError, s\<lparr>cat_disk := Broken\<rparr>))"
proof -
  have "res_map (json_database env) (map (\<lambda>(_, db). database_to_dict db) (cat_databases s)) =
      (if \<forall>x \<in> set (cat_databases s). every_column (has_json env) (snd x)
       then Inr (map (\<lambda>(_, db). database_to_dict (reload_database env db)) (cat_databases s)) else Inl TypeError)"
    by (rule res_map_uniform) (auto simp: database_saved split: prod.split)
  then show ?thesis by (auto simp: catalog_save_def all_columns_def split: prod.splits)
qed

lemma load_saved:
  assumes "distinct (map (\<lambda>db. upper (di_name db)) dbs)"
    and "(\<lambda>db. upper (di_name db)) ` set dbs \<inter> fst ` set (cat_databases s) = {}"
  shows "\<exists>r. load_databases env (map (\<lambda>db. database_to_dict (reload_database env db)) dbs) s =
     (if \<forall>db \<in> set dbs. every_column scalar_column db
      then (Inr (), s\<lparr>cat_databases := cat_databases s @ map (\<lambda>db. (upper (di_name db), reload_database env db)) dbs\<rparr>)
      else (Inl ValueError, r))"
  using assms
proof (induction dbs arbitrary: s)
  case (Cons db dbs)
  define s' where "s' = s\<lparr>cat_databases := cat_databases s @ [(upper (di_name db), reload_database env db)]\<rparr>"
  show ?case
  proof (cases "every_column scalar_column db")
    case True
    have "AList.update (upper (di_name db)) (reload_database env db) (cat_databases s) = cat_databases s'"
      unfolding s'_def using Cons.prems(2) by (subst update_new) auto
    moreover have "di_name (reload_database env db) = di_name db" by (simp add: reload_database_def)
    ultimately have "load_databases env (map (\<lambda>db. database_to_dict (reload_database env db)) (db # dbs)) s =
        load_databases env (map (\<lambda>db. database_to_dict (reload_database env db)) dbs) s'"
      by (simp add: database_saved True st_bind_def s'_def)
    moreover have "\<exists>r. load_databases env (map (\<lambda>db. database_to_dict (reload_database env db)) dbs) s' =
        (if \<forall>db \<in> set dbs. every_column scalar_column db
         then (Inr (), s'\<lparr>cat_databases := cat_databases s' @ map (\<lambda>db. (upper (di_name db), reload_database env db)) dbs\<rparr>)
         else (Inl ValueError, r))"
      using Cons.prems by (intro Cons.IH) (auto simp: s'_def)
    ultimately show ?thesis using True by (auto simp: s'_def)
  next
    case False
    then show ?thesis by (simp add: database_saved st_bind_def)
  qed
qed simp


lemma restart_saved:
  assumes "catalog_ok s" and "catalog_save env s = (Inr (), s')"
  shows "catalog_new env (cat_disk s') = (if all_columns scalar_column s then Inr (reloaded env s') else Inl ValueError)"
proof -
  let ?dbs = "map snd (cat_databases s)"
  have key: "k = upper (di_name db)" if "(k, db) \<in> set (cat_databases s)" for k db
    using that assms(1) by (auto simp: catalog_ok_def database_ok_def)
  have keys: "map (\<lambda>db. (upper (di_name db), reload_database env db)) ?dbs =
      map (\<lambda>(k, db). (k, reload_database env db)) (cat_databases s)"
    using key by (auto simp: case_prod_unfold)
  have "map (\<lambda>db. upper (di_name db)) ?dbs = map fst (cat_databases s)" using key by auto
  then have d: "distinct (map (\<lambda>db. upper (di_name db)) ?dbs)" using assms(1) by (simp only: catalog_ok_def)
  from assms(2) have s': "s' = s\<lparr>cat_disk := Document
      \<lparr>sv_databases = Some (map (\<lambda>(_, db). database_to_dict (reload_database env db)) (cat_databases s)),
       sv_next_table_id = Some (cat_next_id s)\<rparr>\<rparr>"
    by (auto simp: save_state split: if_splits)
  define s0 where "s0 = \<lparr>cat_databases = [], cat_current = None, cat_next_id = 1, cat_disk = cat_disk s'\<rparr>"
  have e: "cat_databases s0 = []" by (simp add: s0_def)
  then have "(\<lambda>db. upper (di_name db)) ` set ?dbs \<inter> fst ` set (cat_databases s0) = {}" by simp
  from load_saved [OF d this, of env] obtain r where load: "load_databases env (map (\<lambda>db. database_to_dict (reload_database env db)) ?dbs) s0 =
      (if \<forall>db \<in> set ?dbs. every_column scalar_column db
       then (Inr (), s0\<lparr>cat_databases := [] @ map (\<lambda>db. (upper (di_name db), reload_database env db)) ?dbs\<rparr>)
       else (Inl ValueError, r))"
    unfolding e by blast
  have all: "(\<forall>db \<in> set ?dbs. every_column scalar_column db) = all_columns scalar_column s"
    by (auto simp: all_columns_def)
  have docs: "map (\<lambda>(_, db). database_to_dict (reload_database env db)) (cat_databases s) =
      map (\<lambda>db. database_to_dict (reload_database env db)) ?dbs" by (simp add: case_prod_unfold)
  have "cat_disk s' = Document \<lparr>sv_databases = Some (map (\<lambda>db. database_to_dict (reload_database env db)) ?dbs),
      sv_next_table_id = Some (cat_next_id s)\<rparr>" by (simp add: s' docs del: map_map)
  then have "catalog_load env s0 =
      (if all_columns scalar_column s then (Inr (), s0\<lparr>cat_databases :=
          map (\<lambda>(k, db). (k, reload_database env db)) (cat_databases s), cat_next_id := cat_next_id s\<rparr>)
       else (Inl ValueError, r))"
    using load unfolding all keys
    by (simp add: catalog_load_def s0_def get_or_def st_bind_def del: map_map)
  then have "catalog_new env (cat_disk s') = (if all_columns scalar_column s then
      Inr (s0\<lparr>cat_databases := map (\<lambda>(k, db). (k, reload_database env db)) (cat_databases s), cat_next_id := cat_next_id s\<rparr>)
      else Inl ValueError)"
    unfolding catalog_new_def s0_def [symmetric] by simp
  also have "s0\<lparr>cat_databases := map (\<lambda>(k, db). (k, reload_database env db)) (cat_databases s), cat_next_id := cat_next_id s\<rparr> =
      reloaded env s'" by (simp add: s0_def reloaded_def s')
  finally show ?thesis .
qed

lemma map_of_map_snd: "map_of (map (\<lambda>(k, v). (k, f v)) xs) k = map_option f (map_of xs k)"
  by (induction xs) auto

lemma reloaded_table_at: "table_at (reloaded env s) k j = map_option (reload_table env) (table_at s k j)"
  by (auto simp: table_at_def reloaded_def reload_database_def map_of_map_snd split: Option.bind_splits)

lemma reload_table_ok: "table_ok t \<Longrightarrow> table_ok (reload_table env t)"
proof -
  have "names_ok (map (reload_column env) cols) = names_ok cols" for cols
    by (simp add: names_ok_def reload_column_def comp_def)
  then show "table_ok t \<Longrightarrow> table_ok (reload_table env t)"
    unfolding reload_table_def by (intro table_new_ok) (simp_all add: table_ok_def)
qed

lemma reloaded_ok:
  assumes "catalog_ok s"
  shows "catalog_ok (reloaded env s)"
proof -
  note m = map_of_map_snd
  have database: "database_ok k (reload_database env db)" if "database_ok k db" for k db
    using that reload_table_ok
    by (auto simp: database_ok_def reload_database_def m comp_def case_prod_unfold)
      (auto simp: reload_table_def table_info_new_def)
  have tid: "ti_table_id (reload_table env t) = ti_table_id t" for t
    by (simp add: reload_table_def table_info_new_def)
  have dbs: "map_of (cat_databases (reloaded env s)) k = map_option (reload_database env) (map_of (cat_databases s) k)" for k
    by (simp add: reloaded_def m)
  show ?thesis
    unfolding catalog_ok_def
  proof (intro conjI allI impI)
    show "distinct (map fst (cat_databases (reloaded env s)))" "0 < cat_next_id (reloaded env s)"
      using assms by (simp_all add: catalog_ok_def reloaded_def comp_def case_prod_unfold)
    show "database_ok k db" if "map_of (cat_databases (reloaded env s)) k = Some db" for k db
      using that database catalog_okD(1) [OF assms] by (auto simp: dbs)
    show "0 < ti_table_id t" "ti_table_id t < cat_next_id (reloaded env s)" if "table_at (reloaded env s) k j = Some t" for k j t
      using that catalog_okD(2) [OF assms] by (auto simp: reloaded_table_at tid) (simp_all add: reloaded_def)
    show "k = k'" "j = j'" if "table_at (reloaded env s) k j = Some t \<and> table_at (reloaded env s) k' j' = Some t' \<and>
        ti_table_id t = ti_table_id t'" for k j t k' j' t'
      using that catalog_okD(3) [OF assms] by (auto simp: reloaded_table_at tid)
  qed
qed


section \<open>Runs\<close>

text \<open>A call of the catalog, its result reduced to whether it raised.\<close>

datatype 'v catalog_op =
    OpCreateDatabase string
  | OpDropDatabase string
  | OpUseDatabase string
  | OpCreateTable string "'v column_info list" "string option"
  | OpDropTable string
  | OpAddColumn string "'v column_info"
  | OpDropColumn string string
  | OpUpdateRowCount string int
  | OpClose

definition forget :: "'a result \<times> 'v catalog \<Rightarrow> unit result \<times> 'v catalog" where
  "forget p = (case fst p of Inl e \<Rightarrow> Inl e | Inr _ \<Rightarrow> Inr (), snd p)"

fun catalog_step :: "'v catalog_env \<Rightarrow> 'v catalog_op \<Rightarrow> ('v catalog, unit) st" where
  "catalog_step env (OpCreateDatabase name) s = forget (create_database env name s)"
| "catalog_step env (OpDropDatabase name) s = drop_database env name s"
| "catalog_step env (OpUseDatabase name) s = use_database name s"
| "catalog_step env (OpCreateTable name cols pk) s = forget (create_table env name cols pk s)"
| "catalog_step env (OpDropTable name) s = drop_table env name s"
| "catalog_step env (OpAddColumn name col) s = add_column env name col s"
| "catalog_step env (OpDropColumn name column) s = drop_column env name column s"
| "catalog_step env (OpUpdateRowCount name delta) s = (Inr (), update_row_count name delta s)"
| "catalog_step env OpClose s = catalog_close env s"

text \<open>\<^verbatim>\<open>create_table\<close> does not look for columns of the same name; a careful client does.\<close>

fun careful :: "'v catalog_op \<Rightarrow> bool" where
  "careful (OpCreateTable _ cols _) \<longleftrightarrow> names_ok cols"
| "careful _ \<longleftrightarrow> True"

inductive catalog_run :: "'v catalog_env \<Rightarrow> 'v catalog \<Rightarrow> bool" for env where
  run_new: "catalog_new env Absent = Inr s \<Longrightarrow> catalog_run env s"
| run_step: "catalog_run env s \<Longrightarrow> careful op \<Longrightarrow> catalog_run env (snd (catalog_step env op s))"
| run_restart: "catalog_run env s \<Longrightarrow> catalog_new env (cat_disk s) = Inr s' \<Longrightarrow> catalog_run env s'"

inductive_cases catalog_run_cases: "catalog_run env s"

lemma forget_snd [simp]: "snd (forget p) = snd p"
  by (simp add: forget_def)

lemma step_ok:
  assumes "catalog_ok s" and "careful op" and "\<And>v. default_same env v v"
  shows "catalog_ok (snd (catalog_step env op s))"
  using assms
  by (cases op) (simp_all add: create_database_ok drop_database_ok use_database_ok create_table_ok drop_table_ok
      add_column_catalog_ok drop_column_catalog_ok update_row_count_ok catalog_close_def save_ok)

text \<open>Every call leaves the disk alone or ends with a save.\<close>

lemma change_disk [simp]: "cat_disk (change_table name f s) = cat_disk s"
  by (simp add: change_table_def change_current_db_def split: option.split)

lemma bind_save: "st_bind (catalog_save env) (\<lambda>_. st_return x) s =
    (case fst (catalog_save env s) of Inl e \<Rightarrow> Inl e | Inr _ \<Rightarrow> Inr x, snd (catalog_save env s))"
  by (auto simp: st_bind_def split: prod.split sum.split)

lemma step_form:
  "(\<exists>r. catalog_step env op s = (r, s) \<and> (r = Inr () \<or> r = Inl ValueError)) \<or>
   (\<exists>u. catalog_step env op s = (Inr (), u) \<and> cat_disk u = cat_disk s) \<or>
   (\<exists>u. catalog_step env op s = catalog_save env u)"
proof -
  have form: "forget (st_bind (catalog_save env) (\<lambda>_. st_return x) u) = catalog_save env u" for x :: 'x and u
    by (cases "catalog_save env u") (auto simp: bind_save forget_def split: sum.split)
  have remove: "remove_column env c cols = Inl e \<Longrightarrow> e = ValueError" for c cols e
    by (induction cols) (auto simp: res_bind_def split: if_splits sum.splits)
  show ?thesis
  proof (cases op)
    case (OpCreateDatabase name)
    then show ?thesis by (auto simp: create_database_def Let_def form) (simp add: forget_def)
  next
    case (OpDropDatabase name)
    then show ?thesis by (auto simp: drop_database_def Let_def)
  next
    case (OpCreateTable name cols pk)
    then show ?thesis
      by (auto simp: create_table_def Let_def form split: option.split) (simp_all add: forget_def)
  next
    case (OpDropColumn name column)
    then show ?thesis by (auto simp: drop_column_def split: option.split sum.split dest: remove)
  qed (auto simp: use_database_def drop_table_def add_column_def update_row_count_def catalog_close_def Let_def
      split: option.split)
qed

lemma save_disk_ok:
  assumes "catalog_ok u" and "catalog_new env (cat_disk (snd (catalog_save env u))) = Inr s"
  shows "catalog_ok s"
proof (cases "all_columns (has_json env) u")
  case True
  then obtain u' where u': "catalog_save env u = (Inr (), u')" by (simp add: save_state)
  have "catalog_ok u'" using save_ok [of env u] assms(1) u' by simp
  then show ?thesis
    using restart_saved [OF assms(1) u'] assms(2) u' reloaded_ok by (auto split: if_splits)
next
  case False
  then have "catalog_new env Broken = Inr s" using assms(2) by (simp add: save_state)
  then show ?thesis by (auto simp: catalog_new_def catalog_load_def catalog_ok_def table_at_def)
qed

lemma load_disk: "load_databases env ds s = (r, s') \<Longrightarrow> cat_disk s' = cat_disk s"
proof (induction ds arbitrary: s)
  case (Cons d ds)
  show ?case
  proof (cases "database_from_dict env d")
    case (Inr db)
    then have "load_databases env (d # ds) s = load_databases env ds
        (s\<lparr>cat_databases := AList.update (upper (di_name db)) db (cat_databases s)\<rparr>)" by (simp add: st_bind_def)
    then show ?thesis using Cons.IH Cons.prems by fastforce
  qed (use Cons.prems in \<open>simp add: st_bind_def\<close>)
qed simp

lemma new_disk:
  assumes "catalog_new env d = Inr s"
  shows "cat_disk s = d"
proof (cases d)
  case (Document doc)
  define s0 where "s0 = \<lparr>cat_databases = [], cat_current = None, cat_next_id = 1, cat_disk = d\<rparr>"
  obtain r s1 where l: "load_databases env (get_or [] (sv_databases doc)) s0 = (r, s1)" by fastforce
  have "cat_disk s1 = d" using load_disk [OF l] by (simp add: s0_def)
  moreover have "s = s1 \<or> s = s1\<lparr>cat_next_id := get_or 1 (sv_next_table_id doc)\<rparr>"
    using assms l unfolding catalog_new_def s0_def [symmetric] catalog_load_def
    by (cases r) (auto simp: s0_def Document st_bind_def split: py_error.splits)
  ultimately show ?thesis by auto
qed (use assms in \<open>auto simp: catalog_new_def catalog_load_def\<close>)

lemma run_ok:
  assumes "catalog_run env s" and "\<And>v. default_same env v v"
  shows "catalog_ok s \<and> (\<forall>s'. catalog_new env (cat_disk s) = Inr s' \<longrightarrow> catalog_ok s')"
  using assms(1)
proof (induction rule: catalog_run.induct)
  case (run_new s)
  then show ?case by (auto simp: catalog_new_def catalog_load_def catalog_ok_def table_at_def)
next
  case (run_step s op)
  then have ok: "catalog_ok (snd (catalog_step env op s))" using step_ok assms(2) by blast
  from step_form [of env op s] show ?case
  proof (elim disjE exE)
    fix u
    assume u: "catalog_step env op s = catalog_save env u"
    then have "catalog_ok u" using ok save_ok [of env u] by simp
    then show ?thesis using ok save_disk_ok [of u env] u by simp
  qed (use ok run_step.IH in auto)
next
  case (run_restart s s')
  have "cat_disk s' = cat_disk s" by (rule new_disk [OF run_restart.hyps(2)])
  then show ?case using run_restart by simp
qed


section \<open>Properties\<close>

lemma created_table:
  assumes "catalog_ok s" and "create_table env name cols pk s = (Inr t, s')"
  obtains c db d where "cat_current s = Some c" "map_of (cat_databases s) (upper c) = Some db"
    "map_of (di_tables db) (upper name) = None" "t = table_info_new name cols pk 0 (cat_next_id s)"
    "s' = s\<lparr>cat_next_id := cat_next_id s + 1, cat_disk := d, cat_databases :=
      AList.map_entry (upper c) (\<lambda>db. db\<lparr>di_tables := AList.update (upper name) t (di_tables db)\<rparr>) (cat_databases s)\<rparr>"
proof -
  from assms(2) obtain db where db: "get_current_db s = Some db" by (auto simp: create_table_def split: option.splits)
  then obtain c where c: "cat_current s = Some c" "map_of (cat_databases s) (upper c) = Some db"
    by (auto simp: current_db_iff)
  define t' u where "t' = table_info_new name cols pk 0 (cat_next_id s)"
    and "u = change_current_db (\<lambda>db. db\<lparr>di_tables := AList.update (upper name) t' (di_tables db)\<rparr>)
      (s\<lparr>cat_next_id := cat_next_id s + 1\<rparr>)"
  have b: "upper name \<notin> fst ` set (di_tables db)" "st_bind (catalog_save env) (\<lambda>_. st_return t') u = (Inr t, s')"
    using assms(2) db by (auto simp: create_table_def Let_def t'_def u_def split: if_splits)
  then obtain d where "s' = u\<lparr>cat_disk := d\<rparr>" "t = t'"
    using save_then [OF b(2)] by (auto simp: st_bind_def split: prod.splits sum.splits)
  with b(1) c show ?thesis
    by (intro that [of c db d]) (auto simp: u_def t'_def change_current_db_def key_in_dom)
qed

text \<open>
  C24. The invariant: in every run of the catalog, through any mixture of calls, failing ones included, and
  restarts from the disk, in which no table is created with two columns of the same name, tables and databases
  stand under their own names in capitals, no two tables of the catalog have the same id, ids are below the
  next one, row counts are not negative, and the column map of a table finds exactly its columns.
\<close>
theorem catalog_invariant:
  assumes "catalog_run env s" and "\<And>v. default_same env v v"
    and "table_at s k j = Some t" and "table_at s k' j' = Some t'"
  shows "j = upper (ti_name t) \<and> 0 \<le> ti_row_count t \<and> 0 < ti_table_id t \<and> ti_table_id t < cat_next_id s \<and>
    (ti_table_id t = ti_table_id t' \<longleftrightarrow> k = k' \<and> j = j') \<and>
    distinct (map (\<lambda>c. upper (ci_name c)) (ti_columns t)) \<and>
    (\<forall>name c. get_column name t = Some c \<longleftrightarrow> c \<in> set (ti_columns t) \<and> upper (ci_name c) = upper name) \<and>
    (\<forall>name. has_column name t \<longleftrightarrow> column_index name t \<noteq> Inl ValueError)"
proof -
  have ok: "catalog_ok s" using run_ok [OF assms(1,2)] by blast
  obtain db where "map_of (cat_databases s) k = Some db" "map_of (di_tables db) j = Some t"
    using assms(3) by (auto simp: table_at_def bind_eq_Some_conv)
  with catalog_okD(1) [OF ok this(1)] have t: "table_ok t" "j = upper (ti_name t)"
    by (auto simp: database_ok_def simp del: map_of_eq_Some_iff)
  have index: "index_from name i cols = Inl ValueError \<longleftrightarrow> upper name \<notin> column_key ` set cols" for name i and cols :: "'a column_info list"
    by (induction cols arbitrary: i) auto
  have "ti_table_id t = ti_table_id t' \<longleftrightarrow> k = k' \<and> j = j'"
    using catalog_okD(3) [OF ok assms(3,4)] assms(3,4) by auto
  then show ?thesis
    using t catalog_okD(2) [OF ok assms(3)] get_column_ok [OF t(1)] has_column_ok [OF t(1)]
    by (auto simp: table_ok_def names_ok_def column_index_def index)
qed

text \<open>
  C25. Restart: a catalog that saved itself is found again by a new one on the same disk: the same databases and
  tables in the same order with the same ids, columns, types, keys and row counts, the defaults as JSON keeps
  them, no database selected and the ids continued; unless some column has an array type: then the document
  that was written cannot be opened any more.
\<close>
theorem catalog_restart:
  assumes "catalog_run env s" and "\<And>v. default_same env v v" and "catalog_close env s = (Inr (), s')"
  shows "catalog_new env (cat_disk s') =
      (if all_columns (\<lambda>c. \<not> is_array (ci_type c)) s then Inr (reloaded env s') else Inl ValueError) \<and>
    table_at (reloaded env s') k j = map_option (reload_table env) (table_at s k j) \<and>
    cat_next_id (reloaded env s') = cat_next_id s"
proof -
  have ok: "catalog_ok s" using run_ok [OF assms(1,2)] by blast
  have save: "catalog_save env s = (Inr (), s')" using assms(3) by (simp add: catalog_close_def)
  then obtain d where d: "s' = s\<lparr>cat_disk := d\<rparr>" using saved_state [of env s] by auto
  show ?thesis
    using restart_saved [OF ok save] by (simp add: reloaded_table_at d) (simp add: reloaded_def)
qed

text \<open>
  New tables: after \<^verbatim>\<open>create_table\<close> the table is found under every spelling of its name in the
  current database, empty, with the columns given and an id no table had; all other tables of all databases
  are as before.
\<close>
theorem created_table_found:
  assumes "catalog_run env s" and "\<And>v. default_same env v v" and "names_ok cols"
    and "create_table env name cols pk s = (Inr t, s')"
  shows "(\<forall>n. get_table n s' = (if upper n = upper name then Some t else get_table n s)) \<and>
    ti_columns t = cols \<and> ti_row_count t = 0 \<and> ti_primary_key t = pk \<and> get_table_id name s' = Inr (cat_next_id s) \<and>
    (\<forall>k j u. table_at s k j = Some u \<longrightarrow> ti_table_id u \<noteq> ti_table_id t) \<and>
    (\<forall>k j. cat_current s \<noteq> None \<and> (k, j) \<noteq> (upper (the (cat_current s)), upper name) \<longrightarrow> table_at s' k j = table_at s k j)"
proof -
  have ok: "catalog_ok s" using run_ok [OF assms(1,2)] by blast
  have "snd (create_table env name cols pk s) = s'" using assms(4) by simp
  then have ok': "catalog_ok s'" using create_table_ok [OF ok assms(3), of env name pk] by simp
  from created_table [OF ok assms(4)] obtain c db d where c: "cat_current s = Some c"
      "map_of (cat_databases s) (upper c) = Some db" "map_of (di_tables db) (upper name) = None"
      "t = table_info_new name cols pk 0 (cat_next_id s)"
      "s' = s\<lparr>cat_next_id := cat_next_id s + 1, cat_disk := d, cat_databases :=
        AList.map_entry (upper c) (\<lambda>db. db\<lparr>di_tables := AList.update (upper name) t (di_tables db)\<rparr>) (cat_databases s)\<rparr>"
    by blast
  have at: "table_at s' k j = (if k = upper c \<and> j = upper name then Some t else table_at s k j)" for k j
    using c(2) by (simp add: table_at_def c(5) AList.map_of_map_entry AList.update_conv')
  have cur: "cat_current s' = Some c" by (simp add: c(1,5))
  have "get_table n s' = (if upper n = upper name then Some t else get_table n s)" for n
    by (simp add: get_table_at [OF ok] get_table_at [OF ok'] at c(1) cur)
  moreover have "ti_columns t = cols" "ti_row_count t = 0" "ti_primary_key t = pk" "ti_table_id t = cat_next_id s"
    by (simp_all add: c(4) table_info_new_def)
  moreover have "ti_table_id u \<noteq> cat_next_id s" if "table_at s k j = Some u" for k j u
    using catalog_okD(2) [OF ok that] by simp
  ultimately show ?thesis by (simp add: get_table_id_def at c(1))
qed

text \<open>
  C26. Failures: a call that raises \<^verbatim>\<open>ValueError\<close> has changed nothing, neither in memory nor on disk.  The
  only other exception is the \<^verbatim>\<open>TypeError\<close> of a default value without JSON form in some table: the change
  in memory stays, the document on the disk is destroyed, and a restart finds no database at all.
\<close>
theorem catalog_failures:
  assumes "catalog_step env op s = (Inl e, s')"
  shows "e = ValueError \<and> s' = s \<or>
    e = TypeError \<and> \<not> all_columns (has_json env) s' \<and> cat_disk s' = Broken \<and>
      catalog_new env (cat_disk s') = Inr \<lparr>cat_databases = [], cat_current = None, cat_next_id = 1, cat_disk = Broken\<rparr>"
proof -
  have "all_columns P (s\<lparr>cat_disk := d\<rparr>) = all_columns P s" for P s d by (simp add: all_columns_def)
  then show ?thesis
    using step_form [of env op s] assms
    by (auto simp: save_state catalog_new_def catalog_load_def split: if_splits)
qed


lemma changed_table:
  assumes "catalog_ok s" and "get_table name s = Some t" and "catalog_ok (change_table name f s)"
  shows "get_table n ((change_table name f s)\<lparr>cat_disk := d\<rparr>) = (if upper n = upper name then Some (f t) else get_table n s)"
proof -
  from current_table [OF assms(1,2)] obtain c db where c: "cat_current s = Some c"
      "map_of (cat_databases s) (upper c) = Some db" "map_of (di_tables db) (upper name) = Some t" by blast
  have "table_at (change_table name f s) (upper c) j = (if j = upper name then Some (f t) else table_at s (upper c) j)" for j
    using c by (simp add: change_table_databases [OF assms(1) c(1)] table_at_def AList.map_of_map_entry)
  moreover have "cat_current (change_table name f s) = Some c"
    by (simp add: change_table_databases [OF assms(1) c(1)] c(1))
  ultimately show ?thesis
    using assms(3) by (simp add: get_table_at [OF assms(1)] get_table_at c(1))
qed

lemma index_from_append:
  "index_from name i (cols @ [c]) =
     (if upper name \<in> column_key ` set cols then index_from name i cols
      else if column_key c = upper name then Inr (i + ilen cols) else Inl ValueError)"
  by (induction cols arbitrary: i) auto

lemma added_column:
  fixes s :: "'v catalog"
  assumes "catalog_ok s" and "get_table name s = Some t" and "add_column env name col s = (Inr (), s1)"
  shows "column_key col \<notin> column_key ` set (ti_columns t) \<and> catalog_ok s1 \<and>
    (\<exists>t1. (\<forall>n. get_table n s1 = (if upper n = upper name then Some t1 else get_table n s)) \<and> table_ok t1 \<and>
      ti_columns t1 = ti_columns t @ [col])"
proof -
  define f where "f = (\<lambda>t :: 'v table_info. t\<lparr>ti_columns := ti_columns t @ [col],
    ti_column_map := AList.update (column_key col) col (ti_column_map t)\<rparr>)"
  have t: "table_ok t" using current_table [OF assms(1,2)] by blast
  have new: "\<not> has_column (ci_name col) t" "catalog_save env (change_table name f s) = (Inr (), s1)"
    using assms(2,3) by (auto simp: add_column_def f_def split: if_splits)
  have ok: "catalog_ok (change_table name f s)"
    using add_column_ok [OF t new(1)] by (intro change_table_ok [OF assms(1,2)]) (simp add: f_def)
  obtain d where d: "s1 = (change_table name f s)\<lparr>cat_disk := d\<rparr>"
    using saved_state [of env "change_table name f s"] new(2) by auto
  have "get_table n s1 = (if upper n = upper name then Some (f t) else get_table n s)" for n
    unfolding d by (rule changed_table [OF assms(1,2) ok])
  moreover have "table_ok (f t)" "ti_columns (f t) = ti_columns t @ [col]"
    using add_column_ok [OF t new(1)] by (simp_all add: f_def)
  moreover have "catalog_ok s1" using ok by (simp add: d)
  ultimately show ?thesis using new(1) has_column_ok [OF t] by blast
qed

lemma dropped_column:
  fixes s :: "'v catalog"
  assumes "catalog_ok s" and "\<And>v. default_same env v v" and "get_table name s = Some t"
    and "drop_column env name column s = (Inr (), s1)"
  shows "\<exists>c \<in> set (ti_columns t). column_key c = upper column"
    and "\<exists>t1. (\<forall>n. get_table n s1 = (if upper n = upper name then Some t1 else get_table n s)) \<and> table_ok t1 \<and>
      ti_columns t1 = filter (\<lambda>c. column_key c \<noteq> upper column) (ti_columns t)"
proof -
  have t: "table_ok t" using current_table [OF assms(1,3)] by blast
  from assms(3,4) obtain c cols where c: "get_column column t = Some c" "remove_column env c (ti_columns t) = Inr cols"
      "catalog_save env (change_table name (\<lambda>t. t\<lparr>ti_columns := cols,
        ti_column_map := AList.delete (upper column) (ti_column_map t)\<rparr>) s) = (Inr (), s1)"
    by (auto simp: drop_column_def split: option.splits sum.splits)
  have col: "c \<in> set (ti_columns t)" "column_key c = upper column" using c(1) get_column_ok [OF t] by blast+
  then show "\<exists>c \<in> set (ti_columns t). column_key c = upper column" by blast
  define f where "f = (\<lambda>t :: 'v table_info. t\<lparr>ti_columns := cols, ti_column_map := AList.delete (upper column) (ti_column_map t)\<rparr>)"
  have cols: "cols = filter (\<lambda>c. column_key c \<noteq> upper column) (ti_columns t)"
    using remove_column_eq [of "ti_columns t" c env] t col c(2) assms(2) by (simp add: table_ok_def)
  have ft: "table_ok (f t)" using drop_column_ok [OF t, of "upper column"] by (simp add: f_def cols)
  then have ok: "catalog_ok (change_table name f s)"
    by (intro change_table_ok [OF assms(1,3)]) (simp add: f_def)
  obtain d where d: "s1 = (change_table name f s)\<lparr>cat_disk := d\<rparr>"
    using saved_state [of env "change_table name f s"] c(3) by (auto simp: f_def)
  have "get_table n s1 = (if upper n = upper name then Some (f t) else get_table n s)" for n
    unfolding d by (rule changed_table [OF assms(1,3) ok])
  then show "\<exists>t1. (\<forall>n. get_table n s1 = (if upper n = upper name then Some t1 else get_table n s)) \<and> table_ok t1 \<and>
      ti_columns t1 = filter (\<lambda>c. column_key c \<noteq> upper column) (ti_columns t)"
    using ft cols by (intro exI [of _ "f t"]) (simp add: f_def)
qed

lemma filter_one:
  "distinct (map f xs) \<Longrightarrow> x \<in> set xs \<Longrightarrow> length (filter (\<lambda>y. f y \<noteq> f x) xs) + 1 = length xs"
proof (induction xs)
  case (Cons y xs)
  then show ?case
    by (cases "x \<in> set xs") (auto simp: filter_id_conv intro!: arg_cong [where f = length], (metis image_eqI)?)
qed simp

text \<open>
  Columns: \<^verbatim>\<open>add_column\<close> and \<^verbatim>\<open>drop_column\<close>, when they return, change the one table named, in
  whatever spelling.  Adding refuses a column whose name the table has, in any spelling, and puts it last;
  dropping takes exactly the column of the name out and keeps the order of the others; and so dropping the
  column just added gives the old list of columns back.
\<close>
theorem columns_changed:
  assumes "catalog_run env s" and "\<And>v. default_same env v v" and "get_table name s = Some t"
  shows "(add_column env name col s = (Inr (), s1) \<longrightarrow>
      (\<forall>c \<in> set (ti_columns t). upper (ci_name c) \<noteq> upper (ci_name col)) \<and>
      (\<exists>t1. (\<forall>n. get_table n s1 = (if upper n = upper name then Some t1 else get_table n s)) \<and>
        ti_columns t1 = ti_columns t @ [col] \<and> column_index (ci_name col) t1 = Inr (ilen (ti_columns t)) \<and>
        get_column (ci_name col) t1 = Some col)) \<and>
    (drop_column env name column s = (Inr (), s1) \<longrightarrow>
      (\<exists>t1. (\<forall>n. get_table n s1 = (if upper n = upper name then Some t1 else get_table n s)) \<and>
        ti_columns t1 = filter (\<lambda>c. upper (ci_name c) \<noteq> upper column) (ti_columns t) \<and>
        length (ti_columns t1) + 1 = length (ti_columns t) \<and> \<not> has_column column t1)) \<and>
    (add_column env name col s = (Inr (), s1) \<and> drop_column env name (ci_name col) s1 = (Inr (), s2) \<longrightarrow>
      (\<exists>t2. get_table name s2 = Some t2 \<and> ti_columns t2 = ti_columns t))"
proof -
  have ok: "catalog_ok s" and t: "table_ok t"
    using run_ok [OF assms(1,2)] current_table [of s name t] assms(3) by blast+
  have index: "column_index (ci_name col) t1 = Inr (ilen (ti_columns t))"
    if "column_key col \<notin> column_key ` set (ti_columns t)" "ti_columns t1 = ti_columns t @ [col]" for t1
    using that by (simp add: column_index_def index_from_append)
  have add: "(\<forall>c \<in> set (ti_columns t). upper (ci_name c) \<noteq> upper (ci_name col)) \<and>
      (\<exists>t1. (\<forall>n. get_table n s1 = (if upper n = upper name then Some t1 else get_table n s)) \<and>
        ti_columns t1 = ti_columns t @ [col] \<and> column_index (ci_name col) t1 = Inr (ilen (ti_columns t)) \<and>
        get_column (ci_name col) t1 = Some col)" if "add_column env name col s = (Inr (), s1)"
  proof -
    from added_column [OF ok assms(3) that] obtain t1 where
        "\<forall>n. get_table n s1 = (if upper n = upper name then Some t1 else get_table n s)" "table_ok t1"
        "ti_columns t1 = ti_columns t @ [col]" "column_key col \<notin> column_key ` set (ti_columns t)" by blast
    moreover from this have "column_index (ci_name col) t1 = Inr (ilen (ti_columns t))"
        "get_column (ci_name col) t1 = Some col"
      using index by (simp_all add: get_column_ok)
    ultimately show ?thesis by (intro conjI exI [of _ t1]) (auto simp: image_iff)
  qed
  have drop: "\<exists>t1. (\<forall>n. get_table n s1 = (if upper n = upper name then Some t1 else get_table n s)) \<and>
        ti_columns t1 = filter (\<lambda>c. upper (ci_name c) \<noteq> upper column) (ti_columns t) \<and>
        length (ti_columns t1) + 1 = length (ti_columns t) \<and> \<not> has_column column t1"
    if "drop_column env name column s = (Inr (), s1)"
  proof -
    from dropped_column [OF ok assms(2,3) that] obtain c t1 where c: "c \<in> set (ti_columns t)" "column_key c = upper column"
        "\<forall>n. get_table n s1 = (if upper n = upper name then Some t1 else get_table n s)" "table_ok t1"
        "ti_columns t1 = filter (\<lambda>c. column_key c \<noteq> upper column) (ti_columns t)" by blast
    moreover have "length (ti_columns t1) + 1 = length (ti_columns t)"
      using filter_one [of column_key "ti_columns t" c] t c(1,2,5) by (simp add: table_ok_def names_ok_def)
    moreover have "\<not> has_column column t1" using has_column_ok [OF c(4)] c(5) by auto
    ultimately show ?thesis by blast
  qed
  have both: "\<exists>t2. get_table name s2 = Some t2 \<and> ti_columns t2 = ti_columns t"
    if a: "add_column env name col s = (Inr (), s1)" "drop_column env name (ci_name col) s1 = (Inr (), s2)"
  proof -
    from added_column [OF ok assms(3) a(1)] obtain t1 where t1: "column_key col \<notin> column_key ` set (ti_columns t)"
        "catalog_ok s1" "get_table name s1 = Some t1" "ti_columns t1 = ti_columns t @ [col]" by auto
    from dropped_column(2) [OF t1(2) assms(2) t1(3) a(2)] obtain t2 where
        "get_table name s2 = Some t2" "ti_columns t2 = filter (\<lambda>c. column_key c \<noteq> column_key col) (ti_columns t1)" by auto
    moreover have "filter (\<lambda>c. column_key c \<noteq> column_key col) (ti_columns t1) = ti_columns t"
      using t1(1) by (auto simp: t1(4) filter_id_conv image_iff)
    ultimately show ?thesis by simp
  qed
  from add drop both show ?thesis by blast
qed


section \<open>An instance\<close>

text \<open>Defaults are integers of which only those from zero on have a JSON form; a database with one table of two columns.\<close>

definition demo_env :: "int catalog_env" where
  "demo_env = \<lparr>default_json = (\<lambda>v. if 0 \<le> v then Some v else None), default_same = (=), no_default = 0\<rparr>"

definition demo_column :: "string \<Rightarrow> sql_type \<Rightarrow> int \<Rightarrow> int column_info" where
  "demo_column name t v =
     \<lparr>ci_name = name, ci_type = t, ci_nullable = True, ci_default = v, ci_primary_key = False, ci_unique = False,
      ci_indexed = False\<rparr>"

definition demo_used :: "int catalog" where
  "demo_used = snd (catalog_step demo_env (OpUseDatabase ''Shop'') (snd (catalog_step demo_env (OpCreateDatabase ''shop'')
     \<lparr>cat_databases = [], cat_current = None, cat_next_id = 1, cat_disk = Absent\<rparr>)))"

definition demo_catalog :: "int catalog" where
  "demo_catalog = snd (catalog_step demo_env
     (OpCreateTable ''items'' [demo_column ''id'' IntegerType 0, demo_column ''name'' (VarcharType 20) 0] (Some ''id'')) demo_used)"

lemma returned: "isl (fst p) = False \<Longrightarrow> \<exists>x s. p = (Inr x, s)"
  by (cases p; cases "fst p") auto

lemma demo_same: "default_same demo_env v v"
  by (simp add: demo_env_def)

lemma demo_names: "names_ok [demo_column ''id'' IntegerType 0, demo_column ''name'' (VarcharType 20) 0]"
  by code_simp

lemma demo_used_run: "catalog_run demo_env demo_used"
proof -
  have "catalog_new demo_env Absent = Inr \<lparr>cat_databases = [], cat_current = None, cat_next_id = 1, cat_disk = Absent\<rparr>"
    by (simp add: catalog_new_def catalog_load_def)
  then show ?thesis unfolding demo_used_def by (intro run_step run_new) simp_all
qed

lemma demo_run: "catalog_run demo_env demo_catalog"
  unfolding demo_catalog_def by (rule run_step [OF demo_used_run]) (simp add: demo_names)

theorem catalog_invariant_witness:
  "\<exists>t. table_at demo_catalog ''SHOP'' ''ITEMS'' = Some t \<and> ti_table_id t < cat_next_id demo_catalog \<and>
    ti_name t = ''items'' \<and> column_index ''NAME'' t = Inr 1"
proof -
  obtain t where t: "table_at demo_catalog ''SHOP'' ''ITEMS'' = Some t" "ti_name t = ''items''" "column_index ''NAME'' t = Inr 1"
  proof (rule that)
    show "table_at demo_catalog ''SHOP'' ''ITEMS'' = Some (the (table_at demo_catalog ''SHOP'' ''ITEMS''))"
      "ti_name (the (table_at demo_catalog ''SHOP'' ''ITEMS'')) = ''items''"
      "column_index ''NAME'' (the (table_at demo_catalog ''SHOP'' ''ITEMS'')) = Inr 1" by code_simp+
  qed
  with catalog_invariant [OF demo_run demo_same t(1) t(1)] show ?thesis by blast
qed

theorem catalog_restart_witness:
  "\<exists>s'. catalog_close demo_env demo_catalog = (Inr (), s') \<and>
    catalog_new demo_env (cat_disk s') = Inr (reloaded demo_env s')"
proof -
  have "isl (fst (catalog_close demo_env demo_catalog)) = False" by code_simp
  from returned [OF this] obtain s' where s': "catalog_close demo_env demo_catalog = (Inr (), s')" by auto
  have "all_columns (\<lambda>c. \<not> is_array (ci_type c)) demo_catalog" by code_simp
  then show ?thesis using catalog_restart [OF demo_run demo_same s', of "''SHOP''" "''ITEMS''"] s' by auto
qed

theorem created_table_found_witness:
  "get_table_id ''Items'' demo_catalog = Inr 1 \<and> get_table ''ITEMS'' demo_catalog = get_table ''items'' demo_catalog"
proof -
  let ?cols = "[demo_column ''id'' IntegerType 0, demo_column ''name'' (VarcharType 20) 0]"
  have "isl (fst (create_table demo_env ''items'' ?cols (Some ''id'') demo_used)) = False" by code_simp
  from returned [OF this] obtain t s' where t: "create_table demo_env ''items'' ?cols (Some ''id'') demo_used = (Inr t, s')"
    by blast
  have s': "s' = demo_catalog" unfolding demo_catalog_def catalog_step.simps forget_snd t by (rule snd_conv [symmetric])
  have "cat_next_id demo_used = 1" by code_simp
  moreover have "upper ''ITEMS'' = upper ''items''" "upper ''Items'' = upper ''items''" by code_simp+
  moreover have "(\<forall>n. get_table n s' = (if upper n = upper ''items'' then Some t else get_table n demo_used)) \<and>
      get_table_id ''items'' s' = Inr (cat_next_id demo_used)"
    using created_table_found [OF demo_used_run demo_same demo_names t] by (elim conjE) (intro conjI)
  ultimately have "get_table ''items'' demo_catalog = Some t" "get_table ''ITEMS'' demo_catalog = Some t"
      "get_table ''Items'' demo_catalog = Some t" "get_table_id ''items'' demo_catalog = Inr 1"
    unfolding s' by metis+
  then show ?thesis unfolding get_table_id_def by simp
qed

theorem catalog_failures_witness:
  "\<exists>s'. catalog_step demo_env (OpAddColumn ''items'' (demo_column ''price'' FloatType (- 1))) demo_catalog = (Inl TypeError, s') \<and>
    cat_disk s' = Broken"
proof -
  let ?r = "catalog_step demo_env (OpAddColumn ''items'' (demo_column ''price'' FloatType (- 1))) demo_catalog"
  have "fst ?r = Inl TypeError" by code_simp
  then have "?r = (Inl TypeError, snd ?r)" by (metis prod.collapse)
  from catalog_failures [OF this] this show ?thesis by auto
qed

theorem columns_changed_witness:
  "\<exists>t. get_table ''items'' demo_catalog = Some t \<and>
    (\<exists>t2. get_table ''items'' (snd (drop_column demo_env ''items'' ''price''
        (snd (add_column demo_env ''items'' (demo_column ''price'' FloatType 0) demo_catalog)))) = Some t2 \<and>
      ti_columns t2 = ti_columns t)"
proof -
  let ?c = "demo_column ''price'' FloatType 0"
  let ?a = "add_column demo_env ''items'' ?c demo_catalog"
  let ?d = "drop_column demo_env ''items'' (ci_name ?c) (snd ?a)"
  have t: "get_table ''items'' demo_catalog = Some (the (get_table ''items'' demo_catalog))" by code_simp
  have r: "r = Inr ()" if "isl r = False" for r :: "unit result" using that by (cases r) auto
  have "isl (fst ?a) = False" "isl (fst ?d) = False" by code_simp+
  then have "?a = (Inr (), snd ?a)" "?d = (Inr (), snd ?d)" by (metis r prod.collapse)+
  moreover have "ci_name ?c = ''price''" by (simp add: demo_column_def)
  ultimately show ?thesis
    using columns_changed [OF demo_run demo_same t, of ?c "snd ?a" _ "snd ?d"] t by metis
qed

end
