(* ===== verification/SqlQuery_Facts.thy ===== *)
theory SqlQuery_Facts
  imports SqlExecutor SqlCatalog_Facts
begin

text \<open>
  What planner, optimizer and executor of the SQL engine do with queries and commands: constant folding
  against evaluation, optimized against unoptimized plans, subqueries, the layers of a query, and what
  commands can do to the catalog.
\<close>

section \<open>Results\<close>

lemma res_bind_return [simp]: "res_bind r Inr = r"
  by (cases r) auto

lemma res_bind_assoc: "res_bind (res_bind r f) g = res_bind r (\<lambda>x. res_bind (f x) g)"
  by (cases r) auto

lemma res_bind_eq_Inl: "res_bind r f = Inl e \<longleftrightarrow> r = Inl e \<or> (\<exists>x. r = Inr x \<and> f x = Inl e)"
  by (cases r) auto

lemma res_map_Inl: "res_map f xs = Inl e \<Longrightarrow> \<exists>x \<in> set xs. f x = Inl e"
  by (induction xs) (auto simp: res_bind_eq_Inl)

section \<open>Constant folding\<close>

lemma none_raises [simp]:
  "py_add ops PNone w = Inl TypeError" "py_add ops v PNone = Inl TypeError"
  "py_sub ops PNone w = Inl TypeError" "py_sub ops v PNone = Inl TypeError"
  "py_mul ops PNone w = Inl TypeError" "py_mul ops v PNone = Inl TypeError"
  "py_div ops PNone w = Inl TypeError" "py_div ops v PNone = Inl TypeError"
  "py_less ops PNone w = Inl TypeError" "py_less ops v PNone = Inl TypeError"
  "py_less_eq ops PNone w = Inl TypeError" "py_less_eq ops v PNone = Inl TypeError"
  "py_neg ops PNone = Inl TypeError"
  by (auto simp: py_add_def py_sub_def py_mul_def py_div_def py_less_def py_less_eq_def py_neg_def
      split: option.splits pval.splits)

lemma fold_binary_sound: "fold_binary ops oper v w = Inr (Some x) \<Longrightarrow> eval_binary ops oper v w = Inr x"
  by (cases "v = PNone"; cases "w = PNone")
    (auto simp: fold_binary_def eval_binary_def unless_none_def truth_def res_bind_eq_Inr split: if_splits)

lemma fold_binary_error:
  "fold_binary ops oper v w = Inl e \<Longrightarrow> e \<notin> {TypeError, ValueError} \<Longrightarrow> eval_binary ops oper v w = Inl e"
  by (cases "v = PNone"; cases "w = PNone")
    (auto simp: fold_binary_def eval_binary_def unless_none_def truth_def res_bind_def split: if_splits sum.splits)

lemma fold_sound:
  "fold_expression ops e = Inr e' \<Longrightarrow> evaluate_expression ops sub e' row = evaluate_expression ops sub e row"
proof (induction e arbitrary: e')
  case (BinaryExpr oper l r)
  then obtain l' r' where f: "fold_expression ops l = Inr l'" "fold_expression ops r = Inr r'"
    by (auto simp: res_bind_eq_Inr)
  have same: "evaluate_expression ops sub (BinaryExpr oper l' r') row = evaluate_expression ops sub (BinaryExpr oper l r) row"
    using BinaryExpr.IH f by simp
  show ?case
  proof (cases "e' = BinaryExpr oper l' r'")
    case False
    then obtain v w x where "l' = LiteralExpr v" "r' = LiteralExpr w" "fold_binary ops oper v w = Inr (Some x)"
        "e' = LiteralExpr x"
      using BinaryExpr.prems f by (auto split: expr.splits sum.splits option.splits if_splits)
    then show ?thesis using same fold_binary_sound by fastforce
  qed (use same in simp)
next
  case (UnaryExpr oper e)
  then obtain f where f: "fold_expression ops e = Inr f" by (auto simp: res_bind_eq_Inr)
  have same: "evaluate_expression ops sub (UnaryExpr oper f) row = evaluate_expression ops sub (UnaryExpr oper e) row"
    using UnaryExpr.IH f by simp
  show ?case
  proof (cases "e' = UnaryExpr oper f")
    case False
    then obtain v where v: "f = LiteralExpr v" using UnaryExpr.prems f by (cases f) auto
    then have "v = PNone \<longrightarrow> oper \<noteq> ''-''" using UnaryExpr.prems f by auto
    then obtain w where "e' = LiteralExpr w" "eval_unary ops oper v = Inr w"
      using UnaryExpr.prems f v False by (auto simp: eval_unary_def res_bind_eq_Inr split: if_splits)
    with v show ?thesis using same by simp
  qed (use same in simp)
qed auto

lemma fold_raises:
  "fold_expression ops e = Inl err \<Longrightarrow> err \<noteq> TypeError \<Longrightarrow> \<exists>err'. evaluate_expression ops sub e row = Inl err'"
proof (induction e)
  case (BinaryExpr oper l r)
  have "\<exists>err'. res_bind r1 (\<lambda>x. res_bind r2 (g x)) = Inl err'" if "r1 = Inl a \<or> r2 = Inl a" for r1 :: "'a result" and r2 :: "'b result" and g :: "'a \<Rightarrow> 'b \<Rightarrow> 'c result" and a
    using that by (cases r1) auto
  then have bind: "\<exists>err'. evaluate_expression ops sub (BinaryExpr oper l r) row = Inl err'"
    if "evaluate_expression ops sub l row = Inl a \<or> evaluate_expression ops sub r row = Inl a" for a
    using that by (cases "evaluate_expression ops sub l row") auto
  show ?case
  proof (cases "fold_expression ops l")
    case (Inl a)
    then show ?thesis using BinaryExpr bind by fastforce
  next
    case l: (Inr l')
    show ?thesis
    proof (cases "fold_expression ops r")
      case (Inl a)
      then show ?thesis using BinaryExpr l bind by fastforce
    next
      case r: (Inr r')
      then obtain v w where "l' = LiteralExpr v" "r' = LiteralExpr w" "fold_binary ops oper v w = Inl err"
          "err \<notin> {TypeError, ValueError}"
        using BinaryExpr.prems l by (auto split: expr.splits sum.splits option.splits if_splits)
      moreover from this have "evaluate_expression ops sub l row = Inr v" "evaluate_expression ops sub r row = Inr w"
        using fold_sound [OF l, of sub row] fold_sound [OF r, of sub row] by simp_all
      ultimately show ?thesis using fold_binary_error [of ops oper v w err] by auto
    qed
  qed
next
  case (UnaryExpr oper e)
  show ?case
  proof (cases "fold_expression ops e")
    case (Inl a)
    then show ?thesis using UnaryExpr by fastforce
  next
    case (Inr f)
    then obtain v where "f = LiteralExpr v" "oper = ''-''" "py_neg ops v = Inl err"
      using UnaryExpr.prems by (cases f) (auto simp: res_bind_def split: if_splits sum.splits)
    moreover from this have "v \<noteq> PNone" using UnaryExpr.prems(2) by auto
    moreover have "evaluate_expression ops sub e row = evaluate_expression ops sub f row"
      using fold_sound [OF Inr, of sub row] by simp
    ultimately show ?thesis by (simp add: eval_unary_def)
  qed
qed auto

text \<open>
  C3. Constant folding: the expression that \<^verbatim>\<open>_fold_expression\<close> returns evaluates on every row to the same
  value as the original, or raises the same exception.  If folding raises another exception than
  \<^verbatim>\<open>TypeError\<close>, evaluation raises on every row as well; but folding the negation of a null raises
  \<^verbatim>\<open>TypeError\<close> where evaluation gives null.
\<close>
theorem constant_folding_sound:
  "(\<forall>e'. fold_expression ops e = Inr e' \<longrightarrow>
      (\<forall>row. evaluate_expression ops sub e' row = evaluate_expression ops sub e row)) \<and>
    (\<forall>err row. fold_expression ops e = Inl err \<and> err \<noteq> TypeError \<longrightarrow>
      (\<exists>err'. evaluate_expression ops sub e row = Inl err')) \<and>
    fold_expression ops (UnaryExpr ''-'' (LiteralExpr PNone)) = Inl TypeError \<and>
    evaluate_expression ops sub (UnaryExpr ''-'' (LiteralExpr PNone)) row0 = Inr PNone"
  using fold_sound fold_raises by (auto simp: eval_unary_def)


section \<open>Subqueries\<close>

lemma evaluate_subs:
  "(\<And>s. s \<in> set (expr_subs e) \<Longrightarrow> sub s = sub' s) \<Longrightarrow>
   evaluate_expression ops sub e row = evaluate_expression ops sub' e row"
proof (induction ops sub e row rule: evaluate_expression.induct)
  case (5 ops sub name args dist row)
  have same: "evaluate_expression ops sub a r = evaluate_expression ops sub' a r"
    if "upper name \<in> aggregates" "a \<in> set args" "r \<in> set [row]" for a r
    using that 5 by auto
  show ?case
  proof (cases "upper name \<in> aggregates")
    case True
    then have "evaluate_aggregate ops (evaluate_expression ops sub) name args dist [row] =
        evaluate_aggregate ops (evaluate_expression ops sub') name args dist [row]"
      using same by (intro evaluate_aggregate_cong) auto
    then show ?thesis by simp
  qed simp
next
  case (7 ops sub e es row)
  then have "in_loop ops (\<lambda>e. evaluate_expression ops sub e row) v es =
      in_loop ops (\<lambda>e. evaluate_expression ops sub' e row) v es" for v
    by (intro in_loop_cong) auto
  then show ?case using 7 by simp
next
  case (9 ops sub conds results otherwise row)
  then have "case_loop ops (\<lambda>e. evaluate_expression ops sub e row) conds results otherwise =
      case_loop ops (\<lambda>e. evaluate_expression ops sub' e row) conds results otherwise"
  proof (intro case_loop_cong)
    fix e
    show "e \<in> set conds \<Longrightarrow> evaluate_expression ops sub e row = evaluate_expression ops sub' e row"
      by (rule 9(1), assumption, rule 9(4)) auto
    show "e \<in> set results \<Longrightarrow> evaluate_expression ops sub e row = evaluate_expression ops sub' e row"
      by (rule 9(2), assumption, rule 9(4)) auto
    show "otherwise = Some e \<Longrightarrow> evaluate_expression ops sub e row = evaluate_expression ops sub' e row"
      by (rule 9(3), assumption, rule 9(4)) auto
  qed auto
  then show ?case by simp
qed (auto intro!: arg_cong2 [where f = res_bind] ext)

text \<open>The subqueries that the attributes of a node and a plan mention.\<close>

definition attrs_subs :: "'o plan_attrs \<Rightarrow> 'o select_stmt list" where
  "attrs_subs a =
     concat (map expr_subs (pa_expressions a)) @ opt_subs (pa_where_clause a) @ opt_subs (pa_join_condition a) @
     concat (map (\<lambda>i. expr_subs (order_expr i)) (pa_order_by a)) @ concat (map expr_subs (pa_group_by a)) @
     opt_subs (pa_having a)"

fun plan_subs :: "'o plan_node \<Rightarrow> 'o select_stmt list" where
  "plan_subs (PlanNode ty cs a) = attrs_subs a @ (case cs of [] \<Rightarrow> [] | c # _ \<Rightarrow> plan_subs c)"

lemma keep_row_cong:
  "(\<And>s. s \<in> set (opt_subs cond) \<Longrightarrow> sub s = sub' s) \<Longrightarrow>
   keep_row ops (evaluate_expression ops sub) cond row = keep_row ops (evaluate_expression ops sub') cond row"
  by (auto simp: keep_row_def opt_subs_def split: option.split intro!: arg_cong2 [where f = res_bind] evaluate_subs)

lemma project_cong:
  "(\<And>e. e \<in> set es \<Longrightarrow> ev e row = ev' e row) \<Longrightarrow> project ops ev row es acc = project ops ev' row es acc"
proof (induction es arbitrary: acc)
  case (Cons e es)
  have "project_one ops ev row e acc = project_one ops ev' row e acc"
    using Cons.prems [of e] by (auto simp: project_one_def split: expr.split)
  then show ?case using Cons by (auto intro!: arg_cong2 [where f = res_bind] ext)
qed simp

lemma aggregate_columns_cong:
  assumes "\<And>e r. e \<in> set es \<Longrightarrow> (\<forall>a \<in> set (case e of FunctionExpr _ args _ \<Rightarrow> args | _ \<Rightarrow> []). ev a r = ev' a r)"
  shows "aggregate_columns ops ev grouped rows es acc = aggregate_columns ops ev' grouped rows es acc"
  using assms
proof (induction es arbitrary: acc)
  case (Cons e es)
  have IH: "aggregate_columns ops ev grouped rows es acc = aggregate_columns ops ev' grouped rows es acc" for acc
    by (rule Cons.IH, rule Cons.prems) simp
  show ?case
  proof (cases e)
    case (FunctionExpr name args dist)
    then have "evaluate_aggregate ops ev name args dist rows = evaluate_aggregate ops ev' name args dist rows"
      using Cons.prems [of e] by (intro evaluate_aggregate_cong) auto
    then show ?thesis using FunctionExpr IH by simp
  qed (use IH in auto)
qed simp

lemma group_rows_cong:
  "(\<And>e r. e \<in> set es \<Longrightarrow> ev e r = ev' e r) \<Longrightarrow> group_rows ops ev es rows gs = group_rows ops ev' es rows gs"
proof (induction rows arbitrary: gs)
  case (Cons row rows)
  have "res_map (\<lambda>e. ev e row) es = res_map (\<lambda>e. ev' e row) es" using Cons.prems by (intro res_map_cong) auto
  then show ?case using Cons by simp
qed simp

lemma sort_rows_cong:
  assumes "\<And>i r. i \<in> set items \<Longrightarrow> ev (order_expr i) r = ev' (order_expr i) r"
  shows "sort_rows ops ev items rows = sort_rows ops ev' items rows"
proof -
  have "sort_key_of ev items = sort_key_of ev' items"
    unfolding sort_key_of_def using assms by (intro ext res_map_cong) auto
  then show ?thesis by (simp add: sort_rows_def)
qed

lemma execute_query_subs:
  "(\<And>s. s \<in> set (plan_subs p) \<Longrightarrow> sub s = sub' s) \<Longrightarrow> execute_query env st sub p = execute_query env st sub' p"
proof (induction env st sub p rule: execute_query.induct)
  case (1 env st sub ty cs a)
  let ?ops = "ee_ops env"
  let ?ev = "evaluate_expression ?ops sub" and ?ev' = "evaluate_expression ?ops sub'"
  have ev: "?ev e row = ?ev' e row" if "set (expr_subs e) \<subseteq> set (attrs_subs a)" for e row
    using 1(2) that by (intro evaluate_subs) auto
  have keep: "keep_row ?ops ?ev c = keep_row ?ops ?ev' c" if "c \<in> {pa_where_clause a, pa_join_condition a, pa_having a}" for c
    using 1(2) that by (intro ext keep_row_cong) (auto simp: attrs_subs_def)
  have exprs: "e \<in> set (pa_expressions a) \<Longrightarrow> ?ev e row = ?ev' e row"
    and args: "e \<in> set (pa_expressions a) \<Longrightarrow> \<forall>x \<in> set (case e of FunctionExpr _ args _ \<Rightarrow> args | _ \<Rightarrow> []). ?ev x row = ?ev' x row"
    and groups: "e \<in> set (pa_group_by a) \<Longrightarrow> ?ev e row = ?ev' e row"
    and orders: "i \<in> set (pa_order_by a) \<Longrightarrow> ?ev (order_expr i) row = ?ev' (order_expr i) row" for e i row
    by (intro ev; force simp: attrs_subs_def)
      (fastforce split: expr.split intro!: ev simp: attrs_subs_def, (intro ev; force simp: attrs_subs_def)+)
  have projects: "project ?ops ?ev row (pa_expressions a) = project ?ops ?ev' row (pa_expressions a)" for row
    using exprs by (intro ext project_cong)
  have sorts: "sort_rows ?ops ?ev (pa_order_by a) = sort_rows ?ops ?ev' (pa_order_by a)"
    using orders by (intro ext sort_rows_cong)
  have columns: "aggregate_columns ?ops ?ev g rows (pa_expressions a) = aggregate_columns ?ops ?ev' g rows (pa_expressions a)" for g rows
    using args by (intro ext aggregate_columns_cong)
  have groups: "group_rows ?ops ?ev (pa_group_by a) = group_rows ?ops ?ev' (pa_group_by a)"
    using groups by (intro ext group_rows_cong)
  have having: "having_row ?ops ?ev (pa_having a) = having_row ?ops ?ev' (pa_having a)"
    using keep [of "pa_having a"] by (simp add: having_row_def fun_eq_iff)
  have nodes: "execute_filter ?ops ?ev a = execute_filter ?ops ?ev' a"
    "execute_projection ?ops ?ev a = execute_projection ?ops ?ev' a"
    "execute_nested_loop_join ?ops ?ev td a = execute_nested_loop_join ?ops ?ev' td a"
    "execute_sort ?ops ?ev a = execute_sort ?ops ?ev' a"
    "execute_aggregate ?ops ?ev a = execute_aggregate ?ops ?ev' a" for td
    unfolding execute_filter_def execute_projection_def execute_nested_loop_join_def
      execute_sort_def execute_aggregate_def
    by (simp_all only: keep [of "pa_where_clause a", simplified] keep [of "pa_join_condition a", simplified]
        projects sorts columns groups having)
  show ?case
  proof (cases cs)
    case (Cons c cs')
    show ?thesis
    proof (cases "ty \<in> {FILTER, PROJECTION, NESTED_LOOP_JOIN, SORT, LIMIT, AGGREGATE, DISTINCT}")
      case True
      then have "execute_query env st sub c = execute_query env st sub' c"
        using 1 Cons by (intro "1.IH") auto
      then show ?thesis by (simp only: execute_query.simps Let_def Cons list.case nodes)
    qed (simp add: Cons Let_def)
  qed (simp add: Let_def)
qed

lemma plan_layers_subs:
  "plan_subs (plan_limit stmt n) = plan_subs n"
  "set (plan_subs (plan_projection stmt n)) = set (concat (map expr_subs (sel_columns stmt))) \<union> set (plan_subs n)"
  "plan_subs (plan_distinct stmt n) = plan_subs n"
  "set (plan_subs (plan_sort stmt n)) =
     set (concat (map (\<lambda>i. expr_subs (order_expr i)) (sel_order_by stmt))) \<union> set (plan_subs n)"
  "set (plan_subs (plan_aggregate stmt n)) \<subseteq>
     set (concat (map expr_subs (sel_columns stmt)) @ concat (map expr_subs (sel_group_by stmt)) @
          opt_subs (sel_having stmt)) \<union> set (plan_subs n)"
  "set (plan_subs (plan_where stmt n)) = set (opt_subs (sel_where stmt)) \<union> set (plan_subs n)"
  "plan_subs (plan_join j n) = opt_subs (join_on j) @ plan_subs n"
  "plan_subs (plan_scan stmt) = []"
  by (auto simp: plan_limit_def plan_projection_def plan_distinct_def plan_sort_def plan_aggregate_def
      plan_where_def plan_join_def plan_scan_def attrs_subs_def plan_defaults_def opt_subs_def)

lemma plan_joins_subs:
  "set (plan_subs (fold plan_join joins n)) = set (concat (map (\<lambda>j. opt_subs (join_on j)) joins)) \<union> set (plan_subs n)"
  by (induction joins arbitrary: n) (auto simp: plan_layers_subs)

lemma plan_select_subs: "set (plan_subs (plan_select stmt)) \<subseteq> set (select_subs stmt)"
  using plan_layers_subs(5) [of stmt "fold plan_join (sel_joins stmt) (plan_where stmt (plan_scan stmt))"]
  by (auto simp: plan_select_def plan_layers_subs(1-4,6-) plan_joins_subs select_subs_def)

text \<open>The guard of \<^const>\<open>execute_select\<close> is never hit.\<close>

lemma execute_select_eq:
  "execute_select env s stmt = list_of (execute_query env s (execute_select env s) (plan_select stmt))"
proof -
  have "execute_query env s
      (\<lambda>stmt'. if stmt' \<in> set (select_subs stmt) then execute_select env s stmt' else Inl RuntimeError)
      (plan_select stmt) = execute_query env s (execute_select env s) (plan_select stmt)"
    using plan_select_subs by (intro execute_query_subs) auto
  then show ?thesis by (simp add: execute_select.simps [of env s stmt])
qed

text \<open>
  Executing a query always ends: each subquery is planned and executed by the same function that
  executes the query, and the answer of a query is the list of what its plan yields, or the exception that
  the plan raises.
\<close>
theorem query_execution:
  "execute_select env s stmt = list_of (execute_query env s (execute_select env s) (plan_select stmt))"
  by (rule execute_select_eq)

section \<open>The optimizer\<close>

text \<open>
  A plan without filters over a scan keeps its shape: only the expressions of projections and aggregates are
  folded.
\<close>

lemma fold_aggregates: "fold_expression ops e = Inr e' \<Longrightarrow> expr_has_aggregates e' = expr_has_aggregates e"
proof (induction e arbitrary: e')
  case (BinaryExpr oper l r)
  then obtain l' r' where f: "fold_expression ops l = Inr l'" "fold_expression ops r = Inr r'"
    by (auto simp: res_bind_eq_Inr)
  then have agg: "expr_has_aggregates l' = expr_has_aggregates l" "expr_has_aggregates r' = expr_has_aggregates r"
    using BinaryExpr.IH by auto
  show ?case
    using BinaryExpr.prems f agg by (auto split: expr.splits sum.splits option.splits if_splits)
next
  case (UnaryExpr oper e)
  then obtain f where f: "fold_expression ops e = Inr f" by (auto simp: res_bind_eq_Inr)
  then have "expr_has_aggregates f = expr_has_aggregates e" using UnaryExpr.IH by auto
  then show ?case using UnaryExpr.prems f by (auto simp: res_bind_eq_Inr split: expr.splits if_splits)
qed auto

lemma fold_has_aggregates:
  "res_map (fold_expression ops) es = Inr es' \<Longrightarrow> has_aggregates es' = has_aggregates es"
proof (induction es arbitrary: es')
  case (Cons e es)
  then obtain f fs where "fold_expression ops e = Inr f" "res_map (fold_expression ops) es = Inr fs" "es' = f # fs"
    by (auto simp: res_bind_eq_Inr)
  then show ?case using Cons.IH fold_aggregates by (fastforce simp: has_aggregates_def)
qed (simp add: has_aggregates_def)

definition unfiltered :: "'o select_stmt \<Rightarrow> 'o expr list \<Rightarrow> 'o select_stmt" where
  "unfiltered stmt cols =
     SelectStmt cols (sel_from stmt) (sel_alias stmt) (sel_joins stmt) None (sel_group_by stmt) (sel_having stmt)
       (sel_order_by stmt) (sel_limit stmt) (sel_offset stmt) (sel_distinct stmt)"

lemma unfiltered_layers:
  "plan_limit (unfiltered stmt cols) = plan_limit stmt"
  "plan_distinct (unfiltered stmt cols) = plan_distinct stmt"
  "plan_sort (unfiltered stmt cols) = plan_sort stmt"
  "plan_scan (unfiltered stmt cols) = plan_scan stmt"
  "plan_where (unfiltered stmt cols) n = n"
  "sel_joins (unfiltered stmt cols) = sel_joins stmt"
  by (simp_all add: fun_eq_iff unfiltered_def plan_limit_def plan_distinct_def plan_sort_def plan_scan_def plan_where_def)

lemma optimize_above:
  fixes a :: "'o plan_attrs"
  assumes "ty \<noteq> FILTER" and "pa_where_clause a = None"
  shows "optimize_node ops (PlanNode ty [c] a) =
    res_bind (optimize_node ops c) (\<lambda>c'. res_bind (res_map (fold_expression ops) (pa_expressions a)) (\<lambda>es.
      Inr (PlanNode ty [c'] (a\<lparr>pa_expressions := es\<rparr>))))"
proof -
  have "a\<lparr>pa_where_clause := None, pa_expressions := es\<rparr> = a\<lparr>pa_expressions := es\<rparr>" for es
    using assms(2) by (cases a) simp
  moreover have "combine_filters (PlanNode ty [c'] b) = PlanNode ty [c'] b" for c' and b :: "'o plan_attrs"
    using assms(1) by (simp add: combine_filters_def)
  ultimately show ?thesis
    using assms
    by (auto simp: predicate_pushdown_def constant_folding_def res_bind_assoc intro!: arg_cong2 [where f = res_bind] ext)
qed

lemma no_expressions: "a\<lparr>pa_expressions := []\<rparr> = a" if "pa_expressions a = []"
  using that by (cases a) simp

lemma optimize_layers:
  "optimize_node ops (plan_limit stmt n) = res_bind (optimize_node ops n) (\<lambda>n'. Inr (plan_limit stmt n'))"
  "optimize_node ops (plan_distinct stmt n) = res_bind (optimize_node ops n) (\<lambda>n'. Inr (plan_distinct stmt n'))"
  "optimize_node ops (plan_sort stmt n) = res_bind (optimize_node ops n) (\<lambda>n'. Inr (plan_sort stmt n'))"
  "optimize_node ops (plan_join j n) = res_bind (optimize_node ops n) (\<lambda>n'. Inr (plan_join j n'))"
  by (auto simp: plan_limit_def plan_distinct_def plan_sort_def plan_join_def optimize_above plan_defaults_def
      simp del: optimize_node.simps)

lemma optimize_projection:
  "optimize_node ops (plan_projection stmt n) =
     res_bind (optimize_node ops n) (\<lambda>n'. res_bind (res_map (fold_expression ops) (sel_columns stmt)) (\<lambda>cols.
       Inr (plan_projection (unfiltered stmt cols) n')))"
proof (cases "sel_columns stmt")
  case (Cons e es)
  then have "cols \<noteq> []" if "res_map (fold_expression ops) (sel_columns stmt) = Inr cols" for cols
    using that by (auto simp: res_bind_eq_Inr)
  then show ?thesis
    using Cons
    by (auto simp: plan_projection_def optimize_above unfiltered_def plan_defaults_def res_bind_def
        simp del: optimize_node.simps res_map.simps split: sum.split)
qed (auto simp: plan_projection_def unfiltered_def)

lemma optimize_aggregate:
  assumes "optimize_node ops (plan_aggregate stmt n) = Inr p"
    and "res_map (fold_expression ops) (sel_columns stmt) = Inr cols"
  obtains n' where "optimize_node ops n = Inr n'" and "p = plan_aggregate (unfiltered stmt cols) n'"
  using assms fold_has_aggregates [OF assms(2)] that
  by (auto simp: plan_aggregate_def unfiltered_def optimize_above plan_defaults_def res_bind_eq_Inr
      simp del: optimize_node.simps split: if_splits)

lemma optimize_joins:
  "optimize_node ops (fold plan_join joins n) = res_bind (optimize_node ops n) (\<lambda>n'. Inr (fold plan_join joins n'))"
  by (induction joins arbitrary: n) (auto simp: optimize_layers res_bind_assoc simp del: optimize_node.simps)

lemma optimize_scan:
  assumes "optimize_node ops (plan_where stmt (plan_scan stmt)) = Inr p"
  shows "execute_query env s sub p = execute_query env s sub (plan_scan stmt)"
proof -
  have "\<exists>w. p = set_where w (plan_scan stmt)"
    using assms by (auto simp: plan_where_def plan_scan_def predicate_pushdown_def constant_folding_def
        combine_filters_def set_where_def plan_defaults_def res_bind_eq_Inr split: if_splits option.splits)
  then show ?thesis
    by (auto simp: set_where_def plan_scan_def execute_scan_def Let_def)
qed

lemma execute_above:
  assumes "execute_query env s sub n = execute_query env s sub n'"
  shows "execute_query env s sub (PlanNode ty [n] a) = execute_query env s sub (PlanNode ty [n'] a)"
  using assms by (simp add: Let_def)

lemma execute_layers:
  assumes "execute_query env s sub n = execute_query env s sub n'"
  shows "execute_query env s sub (plan_limit stmt n) = execute_query env s sub (plan_limit stmt n')"
    "execute_query env s sub (plan_distinct stmt n) = execute_query env s sub (plan_distinct stmt n')"
    "execute_query env s sub (plan_sort stmt n) = execute_query env s sub (plan_sort stmt n')"
    "execute_query env s sub (plan_join j n) = execute_query env s sub (plan_join j n')"
    "execute_query env s sub (plan_projection stmt n) = execute_query env s sub (plan_projection stmt n')"
    "execute_query env s sub (plan_aggregate stmt n) = execute_query env s sub (plan_aggregate stmt n')"
  using assms execute_above [OF assms]
  by (simp_all add: plan_limit_def plan_distinct_def plan_sort_def plan_join_def plan_projection_def
      plan_aggregate_def del: execute_query.simps)

lemma execute_joins:
  "execute_query env s sub n = execute_query env s sub n' \<Longrightarrow>
   execute_query env s sub (fold plan_join joins n) = execute_query env s sub (fold plan_join joins n')"
proof (induction joins arbitrary: n n')
  case (Cons j joins)
  show ?case using Cons.IH [OF execute_layers(4) [OF Cons.prems]] by (simp only: fold_Cons o_apply)
qed simp

lemma optimize_raises:
  assumes "optimize ops (plan_select stmt) = Inl err"
  shows "\<exists>e \<in> set (sel_columns stmt) \<union> set_option (sel_where stmt). fold_expression ops e = Inl err"
proof -
  have scan: "\<exists>e \<in> set_option (sel_where stmt). fold_expression ops e = Inl err"
    if "optimize_node ops (plan_where stmt (plan_scan stmt)) = Inl err"
    using that by (auto simp: plan_where_def plan_scan_def predicate_pushdown_def constant_folding_def
        combine_filters_def set_where_def plan_defaults_def res_bind_eq_Inl split: if_splits option.splits)
  have agg: "optimize_node ops n = Inl err \<or> res_map (fold_expression ops) (sel_columns stmt) = Inl err"
    if "optimize_node ops (plan_aggregate stmt n) = Inl err" for n
    using that by (auto simp: plan_aggregate_def optimize_above plan_defaults_def res_bind_eq_Inl
        simp del: optimize_node.simps split: if_splits)
  have "optimize_node ops (plan_where stmt (plan_scan stmt)) = Inl err \<or>
      res_map (fold_expression ops) (sel_columns stmt) = Inl err"
    using assms by (auto simp: optimize_def plan_select_def optimize_layers optimize_projection optimize_joins
        res_bind_eq_Inl simp del: optimize_node.simps dest!: agg)
  then show ?thesis using scan res_map_Inl by fastforce
qed

text \<open>
  C2. The optimizer loses the \<^verbatim>\<open>WHERE\<close> clause of every query: an optimized plan yields what the plan of the
  query without the clause yields (its constant columns folded), because the condition is moved into the scan
  and scans do not look at conditions.  The optimizer raises only what folding the clause or a column raises.
\<close>
theorem optimized_query_unfiltered:
  "(\<forall>p. optimize ops (plan_select stmt) = Inr p \<longrightarrow>
     (\<exists>cols. res_map (fold_expression ops) (sel_columns stmt) = Inr cols \<and>
       execute_query env s sub p = execute_query env s sub (plan_select (unfiltered stmt cols)))) \<and>
   (\<forall>err. optimize ops (plan_select stmt) = Inl err \<longrightarrow>
     (\<exists>e \<in> set (sel_columns stmt) \<union> set_option (sel_where stmt). fold_expression ops e = Inl err))"
proof (intro conjI allI impI)
  fix p
  assume "optimize ops (plan_select stmt) = Inr p"
  then obtain n1 cols where n1: "optimize_node ops (plan_distinct stmt (plan_sort stmt (plan_aggregate stmt
       (fold plan_join (sel_joins stmt) (plan_where stmt (plan_scan stmt)))))) = Inr n1"
    and cols: "res_map (fold_expression ops) (sel_columns stmt) = Inr cols"
    and p: "p = plan_limit stmt (plan_projection (unfiltered stmt cols) n1)"
    by (auto simp: optimize_def plan_select_def optimize_layers optimize_projection res_bind_eq_Inr
        simp del: optimize_node.simps)
  from n1 obtain n2 where n2: "optimize_node ops (plan_aggregate stmt
       (fold plan_join (sel_joins stmt) (plan_where stmt (plan_scan stmt)))) = Inr n2"
    and n1_def: "n1 = plan_distinct stmt (plan_sort stmt n2)"
    by (auto simp: optimize_layers res_bind_eq_Inr simp del: optimize_node.simps)
  from optimize_aggregate [OF n2 cols] obtain n3 where
    "optimize_node ops (fold plan_join (sel_joins stmt) (plan_where stmt (plan_scan stmt))) = Inr n3"
    and n2_def: "n2 = plan_aggregate (unfiltered stmt cols) n3" .
  then obtain n4 where "optimize_node ops (plan_where stmt (plan_scan stmt)) = Inr n4"
    and n3_def: "n3 = fold plan_join (sel_joins stmt) n4"
    by (auto simp: optimize_joins res_bind_eq_Inr simp del: optimize_node.simps)
  then have "execute_query env s sub n4 = execute_query env s sub (plan_scan stmt)" by (intro optimize_scan)
  then have "execute_query env s sub p = execute_query env s sub (plan_select (unfiltered stmt cols))"
    unfolding p n1_def n2_def n3_def plan_select_def unfiltered_layers
    by (intro execute_layers execute_joins)
  with cols show "\<exists>cols. res_map (fold_expression ops) (sel_columns stmt) = Inr cols \<and>
      execute_query env s sub p = execute_query env s sub (plan_select (unfiltered stmt cols))" by blast
qed (rule optimize_raises)

section \<open>An instance\<close>

text \<open>A table of two columns with a few rows, in a store that keeps lists of rows.\<close>

definition shop_ops :: "unit py_ops" where
  "shop_ops =
     \<lparr>op_arith = (\<lambda>_ _ _. Inl TypeError), op_negate = (\<lambda>_. Inl TypeError), op_equal = (=),
      op_less = (\<lambda>_ _. Inl TypeError), op_less_eq = (\<lambda>_ _. Inl TypeError), op_is = (=), op_truth = (\<lambda>_. True),
      op_str = (\<lambda>_. []), op_repr = (\<lambda>v. case v of PInt n \<Rightarrow> int_str n | _ \<Rightarrow> ''...''), op_hashable = (\<lambda>_. True)\<rparr>"

fun split_rows :: "('r \<Rightarrow> bool result) \<Rightarrow> 'r list \<Rightarrow> ('r list \<times> int) result" where
  "split_rows p [] = Inr ([], 0)"
| "split_rows p (r # rs) =
     res_bind (p r) (\<lambda>b. res_bind (split_rows p rs) (\<lambda>(keep, n). Inr (if b then (keep, n + 1) else (r # keep, n))))"

definition shop_store :: "(unit, (string \<times> unit row list) list) data_store" where
  "shop_store =
     \<lparr>ds_rows = (\<lambda>t n. case map_of t n of None \<Rightarrow> Inl KeyError | Some rs \<Rightarrow> Inr rs),
      ds_insert = (\<lambda>n r t. (Inr (), AList.map_entry n (\<lambda>rs. rs @ [r]) t)),
      ds_delete = (\<lambda>n p t. case map_of t n of None \<Rightarrow> (Inl KeyError, t)
         | Some rs \<Rightarrow> (case split_rows p rs of Inl e \<Rightarrow> (Inl e, t) | Inr (keep, k) \<Rightarrow> (Inr k, AList.update n keep t))),
      ds_update = (\<lambda>n _ p t. case map_of t n of None \<Rightarrow> (Inl KeyError, t)
         | Some rs \<Rightarrow> (res_bind (split_rows p rs) (\<lambda>(_, k). Inr k), t))\<rparr>"

definition shop_env :: "(unit, (string \<times> unit row list) list, 64 word, unit) exec_env" where
  "shop_env =
     \<lparr>ee_ops = shop_ops, ee_catalog = \<lparr>default_json = (\<lambda>v. case v of PObj _ \<Rightarrow> None | _ \<Rightarrow> Some v),
        default_same = (=), no_default = PNone\<rparr>,
      ee_transactions = plain_env, ee_now = 0, ee_store = Some shop_store, ee_vectors = None, ee_documents = None,
      ee_expr_object = (\<lambda>_. ()), ee_estimate = (\<lambda>_. [])\<rparr>"

definition shop_column :: "string \<Rightarrow> unit pval column_info" where
  "shop_column name =
     \<lparr>ci_name = name, ci_type = IntegerType, ci_nullable = True, ci_default = PNone, ci_primary_key = False,
      ci_unique = False, ci_indexed = False\<rparr>"

definition shop_catalog :: "unit pval catalog" where
  "shop_catalog =
     \<lparr>cat_databases = [(''SHOP'', \<lparr>di_name = ''shop'', di_tables =
        [(''ITEMS'', table_info_new ''items'' [shop_column ''kind'', shop_column ''price''] None 3 1)], di_path = None\<rparr>)],
      cat_current = Some ''shop'', cat_next_id = 2, cat_disk = Absent\<rparr>"

definition shop_row :: "int \<Rightarrow> int \<Rightarrow> unit row" where
  "shop_row k p = [(''kind'', PInt k), (''price'', PInt p)]"

definition shop_rows :: "unit row list" where
  "shop_rows = [shop_row 1 30, shop_row 2 10, shop_row 1 20]"

definition shop_state :: "(unit, (string \<times> unit row list) list, 64 word, unit) exec_state" where
  "shop_state = \<lparr>ex_catalog = shop_catalog, ex_store = [(''items'', shop_rows)], ex_manager = None, ex_current = None\<rparr>"

text \<open>\<^verbatim>\<open>SELECT * FROM items WHERE kind = 1 + 1\<close>.\<close>

definition shop_query :: "unit select_stmt" where
  "shop_query =
     SelectStmt [StarExpr None] (Some ''items'') None []
       (Some (BinaryExpr ''='' (ColumnExpr ''kind'' None) (BinaryExpr ''+'' (LiteralExpr (PInt 1)) (LiteralExpr (PInt 1)))))
       [] None [] None None False"

text \<open>Folding \<^verbatim>\<open>1 + 1\<close>.\<close>

theorem constant_folding_sound_witness:
  "evaluate_expression shop_ops (\<lambda>_. Inl KeyError) (LiteralExpr (PInt 2)) (shop_row 1 2) =
   evaluate_expression shop_ops (\<lambda>_. Inl KeyError) (BinaryExpr ''+'' (LiteralExpr (PInt 1)) (LiteralExpr (PInt 1)))
     (shop_row 1 2)"
proof -
  have "fold_expression shop_ops (BinaryExpr ''+'' (LiteralExpr (PInt 1)) (LiteralExpr (PInt 1))) = Inr (LiteralExpr (PInt 2))"
    by code_simp
  then show ?thesis
    using constant_folding_sound [of shop_ops "BinaryExpr ''+'' (LiteralExpr (PInt 1)) (LiteralExpr (PInt 1))"
        "\<lambda>_. Inl KeyError" "[]"] by blast
qed

text \<open>The query finds one item; optimized, it finds all three.\<close>

theorem optimized_query_unfiltered_witness:
  "execute_select shop_env shop_state shop_query = Inr [shop_row 2 10] \<and>
   (\<exists>p. optimize shop_ops (plan_select shop_query) = Inr p \<and>
      list_of (execute_query shop_env shop_state (execute_select shop_env shop_state) p) = Inr shop_rows)"
proof -
  have "isl (optimize shop_ops (plan_select shop_query)) = False" by code_simp
  then obtain p where p: "optimize shop_ops (plan_select shop_query) = Inr p"
    by (cases "optimize shop_ops (plan_select shop_query)") auto
  then obtain cols where cols: "res_map (fold_expression shop_ops) (sel_columns shop_query) = Inr cols"
    and same: "execute_query shop_env shop_state (execute_select shop_env shop_state) p =
      execute_query shop_env shop_state (execute_select shop_env shop_state) (plan_select (unfiltered shop_query cols))"
    using optimized_query_unfiltered by blast
  have "cols = [StarExpr None]" using cols by (simp add: shop_query_def)
  moreover have "list_of (execute_query shop_env shop_state (execute_select shop_env shop_state)
      (plan_select (unfiltered shop_query [StarExpr None]))) = Inr shop_rows" by code_simp
  moreover have "execute_select shop_env shop_state shop_query = Inr [shop_row 2 10]"
    by (subst execute_select_eq) code_simp
  ultimately show ?thesis using p same by auto
qed

end
