(* ===== verification/SqlRows_Facts.thy ===== *)
theory SqlRows_Facts
  imports SqlQuery_Facts "HOL-Library.List_Lexorder" "HOL-Library.Product_Lexorder"
begin

text \<open>
  What the layers of a query do to the rows: a query without joins, aggregates and order as filter, slice and
  map; \<^verbatim>\<open>ORDER BY\<close>, \<^verbatim>\<open>GROUP BY\<close> and \<^verbatim>\<open>LIKE\<close>.
\<close>

section \<open>Filter, projection and limit\<close>

lemma loop_filter:
  "(\<And>x. x \<in> set xs \<Longrightarrow> f x = Inr (if P x then [g x] else [])) \<Longrightarrow>
   stream_loop f xs e = (map g (filter P xs), e)"
  by (induction xs) auto

lemma filter_rows:
  assumes "\<And>r. r \<in> set rows \<Longrightarrow> keep_row ops ev w r = Inr (P r)"
  shows "execute_filter ops ev (a\<lparr>pa_where_clause := w\<rparr>) (rows, None) = (filter P rows, None)"
  using loop_filter [of rows "\<lambda>row. res_bind (keep_row ops ev w row) (\<lambda>b. Inr (if b then [row] else []))" P "\<lambda>r. r" None] assms
  by (simp add: execute_filter_def stream_map_def)

lemma project_rows:
  assumes "\<And>r. r \<in> set rows \<Longrightarrow> project ops ev r es [] = Inr (g r)"
  shows "execute_projection ops ev (a\<lparr>pa_expressions := es\<rparr>) (rows, None) = (map g rows, None)"
  using loop_filter [of rows "\<lambda>row. res_bind (project ops ev row es []) (\<lambda>r. Inr [r])" "\<lambda>_. True" g None] assms
  by (simp add: execute_projection_def stream_map_def)

text \<open>What \<^verbatim>\<open>LIMIT\<close> and \<^verbatim>\<open>OFFSET\<close> cut out.\<close>

definition limited :: "int option \<Rightarrow> int option \<Rightarrow> 'a list \<Rightarrow> 'a list" where
  "limited lim off xs =
     (let ys = drop (nat (case off of None \<Rightarrow> 0 | Some n \<Rightarrow> n)) xs
      in case lim of None \<Rightarrow> ys | Some n \<Rightarrow> take (nat n) ys)"

lemma limit_rows:
  assumes "pred_option (\<lambda>n. 0 \<le> n) off"
  shows "execute_limit (a\<lparr>pa_limit_count := lim, pa_offset_count := off\<rparr>) (xs, None) = (limited lim off xs, None)"
proof -
  define m where "m = (case off of None \<Rightarrow> 0 | Some n \<Rightarrow> n)"
  have m: "0 \<le> m" using assms by (auto simp: m_def split: option.split)
  have stop: "nat (max 0 (m + n)) = nat m + nat n" if "\<not> n \<le> 0" for n
    using m that by (simp add: nat_add_distrib)
  show ?thesis
  proof (cases lim)
    case None
    then show ?thesis by (simp add: execute_limit_def limited_def Let_def m_def)
  next
    case (Some n)
    then show ?thesis
      using stop [of n] m by (simp add: execute_limit_def limited_def Let_def m_def [symmetric])
  qed
qed

lemma limited_map: "limited lim off (map f xs) = map f (limited lim off xs)"
  by (simp add: limited_def Let_def drop_map take_map split: option.split)

text \<open>
  C1. A query \<^verbatim>\<open>SELECT columns FROM table WHERE condition LIMIT n OFFSET m\<close> without aggregates yields, when neither
  the condition nor the columns raise on a row, the rows that satisfy the condition, in the order of the table,
  from the offset on and up to the limit, each projected to the columns.
\<close>
theorem select_rows:
  assumes "get_table name (ex_catalog s) \<noteq> None" and "get_table_data env (ex_store s) name = Inr rows"
    and "columns \<noteq> []" and "\<not> has_aggregates columns"
    and "\<And>r. r \<in> set rows \<Longrightarrow> keep_row (ee_ops env) (evaluate_expression (ee_ops env) (execute_select env s)) cond r = Inr (P r)"
    and "\<And>r. r \<in> set rows \<Longrightarrow> P r \<Longrightarrow>
      project (ee_ops env) (evaluate_expression (ee_ops env) (execute_select env s)) r columns [] = Inr (g r)"
    and "pred_option (\<lambda>n. 0 \<le> n) off"
  shows "execute_select env s (SelectStmt columns (Some name) al [] cond [] None [] lim off False) =
    Inr (map g (limited lim off (filter P rows)))"
proof -
  let ?stmt = "SelectStmt columns (Some name) al [] cond [] None [] lim off False"
  let ?ev = "evaluate_expression (ee_ops env) (execute_select env s)"
  let ?run = "execute_query env s (execute_select env s)"
  have scan: "?run (plan_scan ?stmt) = (rows, None)"
    using assms(1,2) by (simp add: plan_scan_def execute_scan_def stream_of_def)
  have all: "P r" if "cond = None" "r \<in> set rows" for r using assms(5) [OF that(2)] that(1) by (simp add: keep_row_def)
  have filtered: "?run (plan_where ?stmt (plan_scan ?stmt)) = (filter P rows, None)"
  proof (cases cond)
    case None
    then have "filter P rows = rows" using all by simp
    then show ?thesis using scan None by (simp add: plan_where_def)
  next
    case (Some w)
    then show ?thesis using filter_rows [OF assms(5), of rows plan_defaults] scan
      by (simp add: plan_where_def Let_def)
  qed
  have "?run (plan_projection ?stmt (plan_where ?stmt (plan_scan ?stmt))) = (map g (filter P rows), None)"
    using project_rows [of "filter P rows" "ee_ops env" ?ev columns g plan_defaults] filtered assms(3,6)
    by (simp add: plan_projection_def Let_def del: set_filter) (simp add: set_filter)
  then have "?run (plan_select ?stmt) = (limited lim off (map g (filter P rows)), None)"
    using limit_rows [OF assms(7), where a = plan_defaults and lim = lim and xs = "map g (filter P rows)"] assms(4)
    by (auto simp: plan_select_def plan_limit_def plan_distinct_def plan_sort_def plan_aggregate_def Let_def limited_def)
  then show ?thesis by (simp add: execute_select_eq [of env s ?stmt] list_of_def limited_map)
qed

section \<open>ORDER BY\<close>

text \<open>The order of keys: integers by size, strings by code points, a null as the empty string.\<close>

definition rank :: "'o pval \<Rightarrow> int \<times> nat list" where
  "rank v = (case v of PInt n \<Rightarrow> (n, []) | PStr s \<Rightarrow> (0, s) | _ \<Rightarrow> (0, []))"

definition sort_value :: "'o pval \<Rightarrow> 'o pval" where
  "sort_value v = (if v \<noteq> PNone then v else PStr [])"

definition comparable :: "'o pval set \<Rightarrow> bool" where
  "comparable vs \<longleftrightarrow> (\<forall>v \<in> vs. \<exists>n. v = PInt n) \<or> (\<forall>v \<in> vs. v = PNone \<or> (\<exists>s. v = PStr s))"

lemma rank_less:
  assumes "comparable vs" and "v \<in> vs" and "w \<in> vs"
  shows "py_less ops (sort_value v) (sort_value w) = Inr (rank v < rank w)"
    and "sort_value v = sort_value w \<or> py_eq ops (sort_value v) (sort_value w) \<longleftrightarrow> rank v = rank w"
proof -
  from assms consider m n where "v = PInt m" "w = PInt n"
    | "v = PNone \<or> (\<exists>s. v = PStr s)" "w = PNone \<or> (\<exists>s. w = PStr s)"
    unfolding comparable_def by blast
  then have "py_less ops (sort_value v) (sort_value w) = Inr (rank v < rank w) \<and>
      (sort_value v = sort_value w \<or> py_eq ops (sort_value v) (sort_value w) \<longleftrightarrow> rank v = rank w)"
    by cases (auto simp: py_less_def py_eq_def sort_value_def rank_def)
  then show "py_less ops (sort_value v) (sort_value w) = Inr (rank v < rank w)"
    and "sort_value v = sort_value w \<or> py_eq ops (sort_value v) (sort_value w) \<longleftrightarrow> rank v = rank w" by blast+
qed

lemma keys_less_ranks:
  assumes "\<And>i. i \<in> set items \<Longrightarrow> comparable (vs i) \<and> f i \<in> vs i \<and> g i \<in> vs i"
  shows "keys_less ops (map (\<lambda>i. sort_value (f i)) items) (map (\<lambda>i. sort_value (g i)) items) =
    Inr (map (\<lambda>i. rank (f i)) items < map (\<lambda>i. rank (g i)) items)"
  using assms
proof (induction items)
  case (Cons i items)
  then have IH: "keys_less ops (map (\<lambda>i. sort_value (f i)) items) (map (\<lambda>i. sort_value (g i)) items) =
      Inr (map (\<lambda>i. rank (f i)) items < map (\<lambda>i. rank (g i)) items)" by simp
  have i: "comparable (vs i)" "f i \<in> vs i" "g i \<in> vs i" using Cons.prems [of i] by simp_all
  show ?case by (auto simp: IH rank_less [OF i] simp del: less_prod_simp)
qed simp

lemma insert_by_insort:
  "(\<And>y. y \<in> set ys \<Longrightarrow> lt (fst y) (fst x) = Inr (K y < K x)) \<Longrightarrow> insert_by lt x ys = Inr (insort_key K x ys)"
  by (induction ys) (auto simp: not_le)

lemma sort_by_sort:
  "(\<And>x y. x \<in> set xs \<Longrightarrow> y \<in> set xs \<Longrightarrow> lt (fst y) (fst x) = Inr (K y < K x)) \<Longrightarrow> sort_by lt xs = Inr (sort_key K xs)"
proof (induction xs)
  case (Cons x xs)
  then have "sort_by lt xs = Inr (sort_key K xs)" by simp
  moreover have "insert_by lt x (sort_key K xs) = Inr (insort_key K x (sort_key K xs))"
    using Cons.prems by (intro insert_by_insort) simp
  ultimately show ?case by simp
qed simp

lemma map_insort: "(\<And>x. K (f x) = L x) \<Longrightarrow> map f (insort_key L x xs) = insort_key K (f x) (map f xs)"
  by (induction xs) auto

lemma map_sort: "(\<And>x. K (f x) = L x) \<Longrightarrow> map f (sort_key L xs) = sort_key K (map f xs)"
  by (induction xs) (simp_all add: map_insort [of K f L])

lemma res_map_Inr: "(\<And>x. x \<in> set xs \<Longrightarrow> f x = Inr (g x)) \<Longrightarrow> res_map f xs = Inr (map g xs)"
  by (induction xs) auto

text \<open>Rows of two kinds that cannot be compared with each other: the sort meets a pair of them.\<close>

lemma insert_by_kind:
  assumes "\<forall>y \<in> set ys. \<exists>b. lt (fst y) (fst x) = Inr b"
  shows "\<exists>zs. insert_by lt x ys = Inr zs \<and> set zs = insert x (set ys)"
  using assms
proof (induction ys)
  case (Cons y ys)
  then have "\<exists>zs. insert_by lt x ys = Inr zs \<and> set zs = insert x (set ys)" "\<exists>b. lt (fst y) (fst x) = Inr b" by simp_all
  then obtain b zs where "lt (fst y) (fst x) = Inr b" "insert_by lt x ys = Inr zs" "set zs = insert x (set ys)" by blast
  then show ?case by (cases b) auto
qed simp

lemma sort_by_kinds:
  assumes "\<forall>x \<in> set xs. \<forall>y \<in> set xs. if P x = P y then \<exists>b. lt (fst y) (fst x) = Inr b else lt (fst y) (fst x) = Inl e"
  shows "if (\<exists>x \<in> set xs. P x) \<and> (\<exists>x \<in> set xs. \<not> P x) then sort_by lt xs = Inl e
    else \<exists>ys. sort_by lt xs = Inr ys \<and> set ys = set xs"
  using assms
proof (induction xs)
  case (Cons x xs)
  then have IH: "if (\<exists>x \<in> set xs. P x) \<and> (\<exists>x \<in> set xs. \<not> P x) then sort_by lt xs = Inl e
      else \<exists>ys. sort_by lt xs = Inr ys \<and> set ys = set xs" by simp
  show ?case
  proof (cases "(\<exists>x \<in> set xs. P x) \<and> (\<exists>x \<in> set xs. \<not> P x)")
    case True
    with IH show ?thesis by auto
  next
    case False
    with IH obtain ys where ys: "sort_by lt xs = Inr ys" "set ys = set xs" by (simp only: if_False) blast
    show ?thesis
    proof (cases "\<forall>y \<in> set xs. P x = P y")
      case True
      then have "\<forall>y \<in> set ys. \<exists>b. lt (fst y) (fst x) = Inr b" using Cons.prems ys(2) by simp
      then obtain zs where "insert_by lt x ys = Inr zs" "set zs = insert x (set ys)" using insert_by_kind by blast
      then show ?thesis using ys True by (cases "P x") auto
    next
      case False
      then obtain y' where y': "y' \<in> set xs" "P x \<noteq> P y'" by blast
      then obtain y ys' where y: "ys = y # ys'" using ys(2) by (cases ys) auto
      then have "y \<in> set xs" using ys(2) by auto
      moreover have "P y = P y'" using \<open>\<not> ((\<exists>x \<in> set xs. P x) \<and> (\<exists>x \<in> set xs. \<not> P x))\<close> y'(1) \<open>y \<in> set xs\<close> by blast
      ultimately have "lt (fst y) (fst x) = Inl e" using Cons.prems y'(2) by simp
      then show ?thesis using ys(1) y y' by auto
    qed
  qed
qed simp
definition plain_key :: "'o pval \<Rightarrow> bool" where
  "plain_key v \<longleftrightarrow> v = PNone \<or> (\<exists>n. v = PInt n) \<or> (\<exists>s. v = PStr s)"

lemma keys_less_plain:
  assumes "plain_key v" and "plain_key w"
  shows "((\<exists>n. v = PInt n) \<longleftrightarrow> (\<exists>n. w = PInt n)) \<Longrightarrow> \<exists>b. keys_less ops [sort_value v] [sort_value w] = Inr b"
    and "((\<exists>n. v = PInt n) \<noteq> (\<exists>n. w = PInt n)) \<Longrightarrow> keys_less ops [sort_value v] [sort_value w] = Inl TypeError"
  using assms by (auto simp: plain_key_def sort_value_def py_less_def py_eq_def)

lemma sort_rows_keyed:
  assumes "\<And>i r. i \<in> set items \<Longrightarrow> r \<in> set rows \<Longrightarrow> ev (order_expr i) r = Inr (f i r)"
  shows "sort_rows ops ev items rows =
    (if \<exists>i \<in> set items. upper (order_direction i) = ''DESC''
     then res_bind (sort_by (keys_less ops) (map (\<lambda>r. (map (\<lambda>i. sort_value (f i r)) items, r)) (rev rows))) (\<lambda>ps. Inr (rev (map snd ps)))
     else res_bind (sort_by (keys_less ops) (map (\<lambda>r. (map (\<lambda>i. sort_value (f i r)) items, r)) rows)) (\<lambda>ps. Inr (map snd ps)))"
proof -
  let ?key = "\<lambda>r. map (\<lambda>i. sort_value (f i r)) items"
  have "sort_key_of ev items r = Inr (?key r)" if "r \<in> set rows" for r
    unfolding sort_key_of_def using assms that by (intro res_map_Inr) (simp add: sort_value_def)
  then have "res_map (\<lambda>row. res_bind (sort_key_of ev items row) (\<lambda>k. Inr (k, row))) rows = Inr (map (\<lambda>r. (?key r, r)) rows)"
    by (intro res_map_Inr) simp
  then show ?thesis by (simp add: sort_rows_def rev_map [where f = "\<lambda>r. (?key r, r)"] list_ex_iff)
qed

text \<open>
  C7. \<^verbatim>\<open>ORDER BY\<close>, for keys that are integers, strings and nulls.  When every key is an integer on all rows, or a
  string or null on all rows, sorting does not fail and returns the rows ordered by the list of their keys,
  lexicographically, and rows with the same keys in their order; nulls sort as empty strings, and one descending key
  reverses the order of all keys.  With a single key that is an integer on some row and a null or a string on
  another, the query fails with \<^verbatim>\<open>TypeError\<close>: a numeric column with a null cannot be sorted.
\<close>
theorem order_by_sorts:
  assumes "\<And>i r. i \<in> set items \<Longrightarrow> r \<in> set rows \<Longrightarrow> ev (order_expr i) r = Inr (f i r)"
  shows "((\<forall>i \<in> set items. comparable (f i ` set rows)) \<longrightarrow>
      sort_rows ops ev items rows =
      Inr (if \<exists>i \<in> set items. upper (order_direction i) = ''DESC''
           then rev (sort_key (\<lambda>r. map (\<lambda>i. rank (f i r)) items) (rev rows))
           else sort_key (\<lambda>r. map (\<lambda>i. rank (f i r)) items) rows)) \<and>
    (\<forall>i. items = [i] \<and> (\<forall>r \<in> set rows. plain_key (f i r)) \<and>
        (\<exists>r \<in> set rows. \<exists>n. f i r = PInt n) \<and> (\<exists>r \<in> set rows. \<not> (\<exists>n. f i r = PInt n)) \<longrightarrow>
      sort_rows ops ev items rows = Inl TypeError)"
proof (intro conjI impI allI)
  assume comparable: "\<forall>i \<in> set items. comparable (f i ` set rows)"
  let ?key = "\<lambda>r. map (\<lambda>i. sort_value (f i r)) items" and ?K = "\<lambda>r. map (\<lambda>i. rank (f i r)) items"
  have less: "keys_less ops (?key r) (?key r') = Inr (?K r < ?K r')" if "r \<in> set rows" "r' \<in> set rows" for r r'
    using comparable that by (intro keys_less_ranks [where vs = "\<lambda>i. f i ` set rows"]) auto
  have sorted: "sort_by (keys_less ops) (map (\<lambda>r. (?key r, r)) rs) = Inr (sort_key (\<lambda>p. ?K (snd p)) (map (\<lambda>r. (?key r, r)) rs))"
    if "set rs \<subseteq> set rows" for rs
    using that by (intro sort_by_sort) (auto intro!: less)
  have "map snd (sort_key (\<lambda>p. ?K (snd p)) (map (\<lambda>r. (?key r, r)) rs)) = sort_key ?K rs" for rs
    by (subst map_sort [where K = ?K]) (simp_all add: o_def)
  with sorted [of rows] sorted [of "rev rows"] show "sort_rows ops ev items rows =
      Inr (if \<exists>i \<in> set items. upper (order_direction i) = ''DESC''
           then rev (sort_key (\<lambda>r. map (\<lambda>i. rank (f i r)) items) (rev rows))
           else sort_key (\<lambda>r. map (\<lambda>i. rank (f i r)) items) rows)"
    by (simp add: sort_rows_keyed [of items rows ev f, OF assms])
next
  fix i
  assume mixed: "items = [i] \<and> (\<forall>r \<in> set rows. plain_key (f i r)) \<and>
    (\<exists>r \<in> set rows. \<exists>n. f i r = PInt n) \<and> (\<exists>r \<in> set rows. \<not> (\<exists>n. f i r = PInt n))"
  let ?P = "\<lambda>p :: _ \<times> _. \<exists>n. f i (snd p) = PInt n" and ?pairs = "map (\<lambda>r. (map (\<lambda>i. sort_value (f i r)) items, r))"
  have step: "\<forall>p \<in> set (?pairs rs). \<forall>q \<in> set (?pairs rs).
      if ?P p = ?P q then \<exists>b. keys_less ops (fst q) (fst p) = Inr b else keys_less ops (fst q) (fst p) = Inl TypeError"
    if rs: "set rs = set rows" for rs
  proof (intro ballI)
    fix p q
    assume "p \<in> set (?pairs rs)" "q \<in> set (?pairs rs)"
    then obtain r r' where p: "p = ([sort_value (f i r)], r)" "q = ([sort_value (f i r')], r')" "r \<in> set rows" "r' \<in> set rows"
      using mixed rs by auto
    then have "plain_key (f i r)" "plain_key (f i r')" using mixed by blast+
    from keys_less_plain [OF this(2,1), of ops]
    show "if ?P p = ?P q then \<exists>b. keys_less ops (fst q) (fst p) = Inr b else keys_less ops (fst q) (fst p) = Inl TypeError"
      unfolding p fst_conv snd_conv by (simp only: eq_commute split: if_split) blast
  qed
  have "sort_by (keys_less ops) (?pairs rs) = Inl TypeError" if rs: "set rs = set rows" for rs
  proof -
    from mixed rs obtain r r' where "r \<in> set rs" "r' \<in> set rs" "\<exists>n. f i r = PInt n" "\<not> (\<exists>n. f i r' = PInt n)" by auto
    then have "\<exists>p \<in> set (?pairs rs). ?P p" "\<exists>p \<in> set (?pairs rs). \<not> ?P p" by force+
    then show ?thesis using sort_by_kinds [OF step [OF rs]] by simp
  qed
  from this [of rows] this [of "rev rows"] show "sort_rows ops ev items rows = Inl TypeError"
    by (simp add: sort_rows_keyed [of items rows ev f, OF assms])
qed

section \<open>GROUP BY\<close>

lemma group_insert_map:
  "distinct ks \<Longrightarrow> (\<And>k'. k' \<in> set ks \<Longrightarrow> same_values ops k' k \<longleftrightarrow> k' = k) \<Longrightarrow>
   group_insert ops k r (map (\<lambda>k'. (k', F k')) ks) =
     map (\<lambda>k'. (k', if k' = k then F k' @ [r] else F k')) ks @ (if k \<in> set ks then [] else [(k, [r])])"
proof (induction ks)
  case (Cons k' ks)
  then have IH: "group_insert ops k r (map (\<lambda>k'. (k', F k')) ks) =
      map (\<lambda>k'. (k', if k' = k then F k' @ [r] else F k')) ks @ (if k \<in> set ks then [] else [(k, [r])])" by simp
  show ?case using Cons.prems IH by (cases "k' = k") auto
qed simp

text \<open>Keys in the order of their first rows, each with its rows.\<close>

definition groups_of :: "('r \<Rightarrow> 'k) \<Rightarrow> 'r list \<Rightarrow> ('k \<times> 'r list) list" where
  "groups_of key rows = map (\<lambda>k. (k, filter (\<lambda>r. key r = k) rows)) (rev (remdups (rev (map key rows))))"

lemma groups_of_snoc:
  assumes "\<And>r. r \<in> set rows \<Longrightarrow> same_values ops (key r) (key row) \<longleftrightarrow> key r = key row"
  shows "group_insert ops (key row) row (groups_of key rows) = groups_of key (rows @ [row])"
proof -
  have none: "filter (\<lambda>r. key r = key row) rows = []" if "key row \<notin> key ` set rows"
    using that by (auto simp: filter_empty_conv image_iff)
  have "group_insert ops (key row) row (groups_of key rows) =
      map (\<lambda>k. (k, if k = key row then filter (\<lambda>r. key r = k) rows @ [row] else filter (\<lambda>r. key r = k) rows))
        (rev (remdups (rev (map key rows)))) @ (if key row \<in> key ` set rows then [] else [(key row, [row])])"
    unfolding groups_of_def using assms by (subst group_insert_map) auto
  also have "\<dots> = groups_of key (rows @ [row])"
    using none by (auto simp: groups_of_def)
  finally show ?thesis .
qed

definition plain_values :: "'o pval list \<Rightarrow> bool" where
  "plain_values = list_all (\<lambda>v. case v of PInt _ \<Rightarrow> True | PStr _ \<Rightarrow> True | PNone \<Rightarrow> True | _ \<Rightarrow> False)"

lemma plain_same: "plain_values vs \<Longrightarrow> plain_values ws \<Longrightarrow> same_values ops vs ws \<longleftrightarrow> vs = ws"
proof (induction vs arbitrary: ws)
  case (Cons v vs)
  then show ?case
    by (cases ws) (auto simp: plain_values_def same_values_def py_eq_def split: pval.splits)
qed (auto simp: same_values_def)

lemma plain_hashable: "plain_values vs \<Longrightarrow> row_hashable ops vs = Inr ()"
  by (auto simp: plain_values_def row_hashable_def py_hashable_def list_all_iff split: pval.splits)

lemma group_rows_from:
  assumes "\<And>r. r \<in> set (before @ rows) \<Longrightarrow> plain_values (key r)"
    and "\<And>r. r \<in> set rows \<Longrightarrow> res_map (\<lambda>e. ev e r) es = Inr (key r)"
  shows "group_rows ops ev es rows (groups_of key before) = Inr (groups_of key (before @ rows))"
  using assms
proof (induction rows arbitrary: before)
  case (Cons row rows)
  have "group_insert ops (key row) row (groups_of key before) = groups_of key (before @ [row])"
    using Cons.prems(1) by (intro groups_of_snoc plain_same) auto
  moreover have "group_rows ops ev es rows (groups_of key (before @ [row])) = Inr (groups_of key ((before @ [row]) @ rows))"
    using Cons.prems by (intro Cons.IH) auto
  ultimately show ?case using Cons.prems by (simp add: plain_hashable)
qed simp

text \<open>
  \<^verbatim>\<open>GROUP BY\<close> on integers, strings and nulls: the groups are the different lists of key values, in the order
  in which they first occur, each with exactly the rows that have it, in the order of the table.
\<close>
theorem group_by_partitions:
  assumes "\<And>r. r \<in> set rows \<Longrightarrow> res_map (\<lambda>e. ev e r) es = Inr (key r) \<and> plain_values (key r)"
  shows "group_rows ops ev es rows [] = Inr (groups_of key rows) \<and>
    distinct (map fst (groups_of key rows)) \<and> set (map fst (groups_of key rows)) = key ` set rows \<and>
    (\<forall>(k, rs) \<in> set (groups_of key rows). rs = filter (\<lambda>r. key r = k) rows \<and> rs \<noteq> [])"
proof -
  have "group_rows ops ev es rows (groups_of key []) = Inr (groups_of key ([] @ rows))"
    using assms by (intro group_rows_from) auto
  then show ?thesis by (auto simp: groups_of_def o_def filter_empty_conv)
qed

section \<open>LIKE\<close>

text \<open>
  The texts that a pattern describes: a percent sign stands for any text, an underscore for one character,
  both without line feeds; every other character stands for itself.
\<close>

definition piece :: "nat \<Rightarrow> pystr set" where
  "piece c = (if c = 37 then {u. 10 \<notin> set u} else if c = 95 then {[d] | d. d \<noteq> 10} else {[c]})"

fun described :: "pystr \<Rightarrow> pystr set" where
  "described [] = {[]}"
| "described (c # p) = {u @ v | u v. u \<in> piece c \<and> v \<in> described p}"

lemma described_percent:
  "d # s \<in> described (37 # p) \<longleftrightarrow> d # s \<in> described p \<or> d \<noteq> 10 \<and> s \<in> described (37 # p)"
proof
  assume "d # s \<in> described (37 # p)"
  then obtain u v where uv: "d # s = u @ v" "10 \<notin> set u" "v \<in> described p" by (auto simp: piece_def)
  show "d # s \<in> described p \<or> d \<noteq> 10 \<and> s \<in> described (37 # p)"
  proof (cases u)
    case (Cons d' u')
    with uv have "d \<noteq> 10" "s = u' @ v" "10 \<notin> set u'" by auto
    with uv(3) show ?thesis by (auto simp: piece_def)
  qed (use uv in simp)
next
  assume "d # s \<in> described p \<or> d \<noteq> 10 \<and> s \<in> described (37 # p)"
  then obtain u v where "d # s = u @ v" "10 \<notin> set u" "v \<in> described p"
  proof
    assume "d # s \<in> described p"
    then show thesis by (intro that [of "[]" "d # s"]) auto
  next
    assume "d \<noteq> 10 \<and> s \<in> described (37 # p)"
    then obtain u v where "d \<noteq> 10" "s = u @ v" "10 \<notin> set u" "v \<in> described p" by (auto simp: piece_def)
    then show thesis by (intro that [of "d # u" v]) auto
  qed
  then show "d # s \<in> described (37 # p)" by (auto simp: piece_def)
qed

lemma described_other:
  "c \<noteq> 37 \<Longrightarrow> d # s \<in> described (c # p) \<longleftrightarrow> (if c = 95 then d \<noteq> 10 else c = d) \<and> s \<in> described p"
proof -
  assume "c \<noteq> 37"
  then have piece: "u \<in> piece c \<longleftrightarrow> (\<exists>x. u = [x] \<and> (if c = 95 then x \<noteq> 10 else c = x))" for u
    by (auto simp: piece_def)
  have "d # s \<in> described (c # p) \<longleftrightarrow> (\<exists>u v. d # s = u @ v \<and> u \<in> piece c \<and> v \<in> described p)" by auto
  also have "\<dots> \<longleftrightarrow> (\<exists>x v. d = x \<and> s = v \<and> (if c = 95 then x \<noteq> 10 else c = x) \<and> v \<in> described p)"
    unfolding piece by (metis append_Cons append_Nil list.inject)
  finally show ?thesis by simp
qed

lemma described_empty: "[] \<in> described (c # p) \<longleftrightarrow> c = 37 \<and> [] \<in> described p"
  by (auto simp: piece_def)

definition ends_described :: "pystr \<Rightarrow> pystr \<Rightarrow> bool" where
  "ends_described p s \<longleftrightarrow> s \<in> described p \<or> (\<exists>t. s = t @ [10] \<and> t \<in> described p)"

lemma ends_described_Cons:
  "ends_described q (d # s) \<longleftrightarrow> d # s \<in> described q \<or> (s = [] \<and> d = 10 \<and> [] \<in> described q) \<or>
    (\<exists>t. s = t @ [10] \<and> d # t \<in> described q)"
  by (auto simp: ends_described_def Cons_eq_append_conv)

lemma ends_percent: "ends_described (37 # p) (d # s) \<longleftrightarrow> ends_described p (d # s) \<or> d \<noteq> 10 \<and> ends_described (37 # p) s"
  unfolding ends_described_Cons ends_described_def [of _ s] described_percent described_empty by blast

lemma ends_other:
  "c \<noteq> 37 \<Longrightarrow> ends_described (c # p) (d # s) \<longleftrightarrow> (if c = 95 then d \<noteq> 10 else c = d) \<and> ends_described p s"
  unfolding ends_described_Cons ends_described_def [of _ s] by (auto simp: described_other described_empty simp del: described.simps(2))

lemma match_ends_described: "match_like p s \<longleftrightarrow> ends_described p s"
proof (induction p s rule: match_like.induct)
  case (1 s)
  show ?case by (auto simp: ends_described_def)
next
  case (2 c p)
  then show ?case by (auto simp: ends_described_def described_empty simp del: described.simps(2))
next
  case (3 c p d s)
  then show ?case by (cases "c = 37") (simp_all add: ends_percent ends_other)
qed

text \<open>
  C8. \<^verbatim>\<open>LIKE\<close>: a value matches exactly when the pattern describes it, or describes what is left of it without a
  line feed at its end.
\<close>
theorem like_matches:
  "match_like p s \<longleftrightarrow> s \<in> described p \<or> (\<exists>t. s = t @ [10] \<and> t \<in> described p)"
  using match_ends_described [of p s] by (simp add: ends_described_def)

section \<open>Instances\<close>

abbreviation shop_ev :: "unit evaluator" where
  "shop_ev \<equiv> evaluate_expression shop_ops (execute_select shop_env shop_state)"

text \<open>\<^verbatim>\<open>SELECT price FROM items WHERE kind = 1 LIMIT 1 OFFSET 1\<close>.\<close>

theorem select_rows_witness:
  "execute_select shop_env shop_state
     (SelectStmt [ColumnExpr ''price'' None] (Some ''items'') None []
       (Some (BinaryExpr ''='' (ColumnExpr ''kind'' None) (LiteralExpr (PInt 1)))) [] None [] (Some 1) (Some 1) False) =
   Inr [[(''price'', PInt 20)]]"
proof -
  let ?P = "\<lambda>r :: unit row. map_of r ''kind'' = Some (PInt 1)"
  let ?g = "\<lambda>r :: unit row. [(''price'', the (map_of r ''price''))]"
  have "execute_select shop_env shop_state
      (SelectStmt [ColumnExpr ''price'' None] (Some ''items'') None []
        (Some (BinaryExpr ''='' (ColumnExpr ''kind'' None) (LiteralExpr (PInt 1)))) [] None [] (Some 1) (Some 1) False) =
    Inr (map ?g (limited (Some 1) (Some 1) (filter ?P shop_rows)))"
  proof (rule select_rows)
    have "get_table ''items'' shop_catalog = None \<longleftrightarrow> False" by code_simp
    then show "get_table ''items'' (ex_catalog shop_state) \<noteq> None" by (simp add: shop_state_def)
    have "has_aggregates [ColumnExpr ''price'' None :: unit expr] = False" by code_simp
    then show "\<not> has_aggregates [ColumnExpr ''price'' None :: unit expr]" by simp
    show "get_table_data shop_env (ex_store shop_state) ''items'' = Inr shop_rows" by code_simp
    fix r
    assume "r \<in> set shop_rows"
    then have r: "r \<in> {shop_row 1 30, shop_row 2 10, shop_row 1 20}" by (simp add: shop_rows_def)
    then show "keep_row (ee_ops shop_env) (evaluate_expression (ee_ops shop_env) (execute_select shop_env shop_state))
        (Some (BinaryExpr ''='' (ColumnExpr ''kind'' None) (LiteralExpr (PInt 1)))) r = Inr (?P r)"
      by (elim insertE emptyE) (simp_all add: shop_row_def keep_row_def eval_binary_def py_eq_def shop_env_def column_value_def py_bool_def)
    show "project (ee_ops shop_env) (evaluate_expression (ee_ops shop_env) (execute_select shop_env shop_state)) r
        [ColumnExpr ''price'' None] [] = Inr (?g r)"
      using r by (elim insertE emptyE) (simp_all add: shop_row_def project_one_def row_set_def column_value_def)
  qed simp_all
  then show ?thesis by (simp add: limited_def shop_rows_def shop_row_def)
qed

text \<open>\<^verbatim>\<open>ORDER BY kind, price DESC\<close>: the direction of the price is the direction of the kind too.\<close>

theorem order_by_sorts_witness:
  "sort_rows shop_ops shop_ev
     [OrderByItem (ColumnExpr ''kind'' None) ''ASC'', OrderByItem (ColumnExpr ''price'' None) ''DESC''] shop_rows =
   Inr [shop_row 2 10, shop_row 1 30, shop_row 1 20] \<and>
   sort_rows shop_ops shop_ev [OrderByItem (ColumnExpr ''kind'' None) ''ASC''] (shop_rows @ [[(''kind'', PNone)]]) = Inl TypeError"
proof
  let ?v = "\<lambda>(i :: unit order_item) (r :: unit row). the (map_of r (case order_expr i of ColumnExpr n _ \<Rightarrow> n))"
  let ?items = "[OrderByItem (ColumnExpr ''kind'' None) ''ASC'', OrderByItem (ColumnExpr ''price'' None) ''DESC''] :: unit order_item list"
  have "sort_rows shop_ops shop_ev ?items shop_rows =
      Inr (if \<exists>i \<in> set ?items. upper (order_direction i) = ''DESC''
           then rev (sort_key (\<lambda>r. map (\<lambda>i. rank (?v i r)) ?items) (rev shop_rows))
           else sort_key (\<lambda>r. map (\<lambda>i. rank (?v i r)) ?items) shop_rows)"
    by (rule order_by_sorts [where f = ?v, THEN conjunct1, rule_format])
      (auto simp: shop_rows_def shop_row_def comparable_def column_value_def)
  moreover have "upper ''DESC'' = ''DESC''" by code_simp
  ultimately show "sort_rows shop_ops shop_ev ?items shop_rows = Inr [shop_row 2 10, shop_row 1 30, shop_row 1 20]"
    by (simp add: shop_rows_def shop_row_def rank_def)
  show "sort_rows shop_ops shop_ev [OrderByItem (ColumnExpr ''kind'' None) ''ASC''] (shop_rows @ [[(''kind'', PNone)]]) = Inl TypeError"
    by (rule order_by_sorts [where f = ?v, THEN conjunct2, rule_format])
      (auto simp: shop_rows_def shop_row_def plain_key_def column_value_def)
qed

text \<open>\<^verbatim>\<open>GROUP BY kind\<close>.\<close>

theorem group_by_partitions_witness:
  "group_rows shop_ops shop_ev [ColumnExpr ''kind'' None] shop_rows [] =
   Inr [([PInt 1], [shop_row 1 30, shop_row 1 20]), ([PInt 2], [shop_row 2 10])]"
proof -
  have "group_rows shop_ops shop_ev [ColumnExpr ''kind'' None] shop_rows [] =
      Inr (groups_of (\<lambda>r. [the (map_of r ''kind'')]) shop_rows)"
    by (intro group_by_partitions [THEN conjunct1])
      (auto simp: shop_rows_def shop_row_def plain_values_def column_value_def)
  then show ?thesis by (simp add: groups_of_def shop_rows_def shop_row_def)
qed

end
