(* ===== verification/SqlLexer.thy ===== *)
theory SqlLexer
  imports Py_Text
begin

text \<open>
  The tokens and the lexer of \<^verbatim>\<open>database/src/sql/parser.py\<close>.  The state is the source from the current
  position on, with line and column; sources are ASCII texts.  A keyword is written as the value of its
  \<^verbatim>\<open>Keyword\<close> member, which is also its name.
\<close>

section \<open>Tokens\<close>

datatype token_type = KEYWORD | IDENTIFIER | NUMBER | STRING | OPERATOR | PUNCTUATION | EOF

record token =
  tok_type :: token_type
  tok_value :: string
  tok_keyword :: "string option"
  tok_line :: int
  tok_column :: int

definition keyword_map :: "string list" where
  "keyword_map =
     [''SELECT'', ''FROM'', ''WHERE'', ''INSERT'', ''INTO'', ''VALUES'', ''UPDATE'', ''SET'', ''DELETE'', ''CREATE'',
      ''TABLE'', ''DATABASE'', ''DROP'', ''ALTER'', ''ADD'', ''COLUMN'', ''PRIMARY'', ''KEY'', ''NOT'', ''NULL'',
      ''DEFAULT'', ''UNIQUE'', ''INDEX'', ''AND'', ''OR'', ''IN'', ''LIKE'', ''BETWEEN'', ''IS'', ''TRUE'', ''FALSE'',
      ''AS'', ''ON'', ''JOIN'', ''LEFT'', ''RIGHT'', ''INNER'', ''OUTER'', ''CROSS'', ''FULL'', ''ORDER'', ''BY'',
      ''ASC'', ''DESC'', ''LIMIT'', ''OFFSET'', ''GROUP'', ''HAVING'', ''DISTINCT'', ''COUNT'', ''SUM'', ''AVG'',
      ''MIN'', ''MAX'', ''EXISTS'', ''CASE'', ''WHEN'', ''THEN'', ''ELSE'', ''END'', ''USE'', ''SHOW'', ''EXPLAIN'',
      ''BEGIN'', ''COMMIT'', ''ROLLBACK'', ''TRANSACTION'', ''VECTOR'', ''DOCUMENT'']"

text \<open>\<^verbatim>\<open>Token(token_type, value, keyword)\<close> with the default position.\<close>

definition mk_token :: "token_type \<Rightarrow> string \<Rightarrow> string option \<Rightarrow> token" where
  "mk_token ty v k = \<lparr>tok_type = ty, tok_value = v, tok_keyword = k, tok_line = 0, tok_column = 0\<rparr>"

section \<open>The lexer\<close>

record lexer =
  lx_text :: string
  lx_line :: int
  lx_column :: int

definition newline :: char where "newline = CHR 0x0A"
definition backslash :: char where "backslash = CHR 0x5C"
definition quotes :: "char list" where "quotes = [CHR 0x27, CHR 0x22]"

definition single_char_tokens :: "char list" where
  "single_char_tokens = ''+-*/=<>(),;.''"

definition alpha_char :: "char \<Rightarrow> bool" where
  "alpha_char c \<longleftrightarrow> (let n = (of_char c :: nat) in 65 \<le> n \<and> n \<le> 90 \<or> 97 \<le> n \<and> n \<le> 122)"

definition ident_char :: "char \<Rightarrow> bool" where
  "ident_char c \<longleftrightarrow> alpha_char c \<or> digit_char c \<or> c = CHR ''_''"

definition lx_advance :: "nat \<Rightarrow> lexer \<Rightarrow> lexer" where
  "lx_advance n s = s\<lparr>lx_text := drop n (lx_text s), lx_column := lx_column s + int n\<rparr>"

text \<open>\<^verbatim>\<open>_peek(ahead)\<close>: one character, or the empty string behind the end.\<close>

definition lx_peek :: "nat \<Rightarrow> lexer \<Rightarrow> string" where
  "lx_peek ahead s = (if ahead < length (lx_text s) then [lx_text s ! ahead] else [])"

definition make_token :: "token_type \<Rightarrow> string \<Rightarrow> lexer \<Rightarrow> token" where
  "make_token ty v s =
     (let t = \<lparr>tok_type = ty, tok_value = v, tok_keyword = None, tok_line = lx_line s,
               tok_column = lx_column s - ilen v + 1\<rparr>
      in if ty = IDENTIFIER \<and> upper v \<in> set keyword_map
         then t\<lparr>tok_type := KEYWORD, tok_keyword := Some (upper v)\<rparr> else t)"

text \<open>The loops that advance while a condition holds are given by the number of characters they pass.\<close>

definition skip_line :: "lexer \<Rightarrow> lexer" where
  "skip_line s = lx_advance (length (takeWhile (\<lambda>c. c \<noteq> newline) (lx_text s))) s"

fun block_loop :: "string \<Rightarrow> int \<Rightarrow> int \<Rightarrow> lexer" where
  "block_loop [] l c = \<lparr>lx_text = [], lx_line = l, lx_column = c\<rparr>"
| "block_loop (x # xs) l c =
     (if x = CHR ''*'' \<and> take 1 xs = ''/'' then \<lparr>lx_text = drop 1 xs, lx_line = l, lx_column = c + 2\<rparr>
      else if x = newline then block_loop xs (l + 1) 2
      else block_loop xs l (c + 1))"

definition skip_block_comment :: "lexer \<Rightarrow> lexer" where
  "skip_block_comment s = (let s1 = lx_advance 2 s in block_loop (lx_text s1) (lx_line s1) (lx_column s1))"

fun number_span :: "bool \<Rightarrow> string \<Rightarrow> nat" where
  "number_span is_float [] = 0"
| "number_span is_float (c # cs) =
     (if digit_char c then Suc (number_span is_float cs)
      else if c = CHR ''.'' \<and> \<not> is_float then Suc (number_span True cs)
      else 0)"

definition read_number :: "lexer \<Rightarrow> token \<times> lexer" where
  "read_number s =
     (let n = number_span False (lx_text s) in (mk_token NUMBER (take n (lx_text s)) None, lx_advance n s))"

text \<open>A backslash passes the character behind it; the string may end with the source.\<close>

fun string_span :: "char \<Rightarrow> string \<Rightarrow> nat" where
  "string_span q [] = 0"
| "string_span q [c] = (if c = q then 0 else if c = backslash then 2 else 1)"
| "string_span q (c # d # cs) =
     (if c = q then 0
      else if c = backslash then Suc (Suc (string_span q cs))
      else Suc (string_span q (d # cs)))"

definition read_string :: "char \<Rightarrow> lexer \<Rightarrow> token \<times> lexer" where
  "read_string q s =
     (let s1 = lx_advance 1 s; n = string_span q (lx_text s1)
      in (mk_token STRING (take n (lx_text s1)) None, lx_advance 1 (lx_advance n s1)))"

definition read_identifier :: "lexer \<Rightarrow> token \<times> lexer" where
  "read_identifier s =
     (let v = takeWhile ident_char (lx_text s)
      in (if upper v \<in> set keyword_map then mk_token KEYWORD v (Some (upper v)) else mk_token IDENTIFIER v None,
          lx_advance (length v) s))"

text \<open>One round of the loop of \<^verbatim>\<open>tokenize\<close>, at the character \<open>c\<close>: the tokens appended and the state behind.\<close>

definition lex_operator :: "char \<Rightarrow> lexer \<Rightarrow> token list \<times> lexer" where
  "lex_operator c s =
     (if c = CHR ''<'' \<and> lx_peek 1 s = ''='' then ([make_token OPERATOR ''<='' s], lx_advance 2 s)
      else if c = CHR ''>'' \<and> lx_peek 1 s = ''='' then ([make_token OPERATOR ''>='' s], lx_advance 2 s)
      else if c = CHR ''!'' \<and> lx_peek 1 s = ''='' then ([make_token OPERATOR ''!='' s], lx_advance 2 s)
      else ([make_token OPERATOR [c] s], lx_advance 1 s))"

definition lex_step :: "char \<Rightarrow> lexer \<Rightarrow> (token list \<times> lexer) result" where
  "lex_step c s =
     (if c = CHR '' '' \<or> c = CHR 0x09 \<or> c = CHR 0x0D then Inr ([], lx_advance 1 s)
      else if c = newline then
        Inr ([], s\<lparr>lx_text := drop 1 (lx_text s), lx_line := lx_line s + 1, lx_column := 1\<rparr>)
      else if c = CHR ''-'' \<and> lx_peek 1 s = ''-'' then Inr ([], skip_line s)
      else if c = CHR ''/'' \<and> lx_peek 1 s = ''*'' then Inr ([], skip_block_comment s)
      else if c \<in> set single_char_tokens then Inr (lex_operator c s)
      else if digit_char c \<or> c = CHR ''.'' \<and> lx_peek 1 s \<noteq> [] \<and> list_all digit_char (lx_peek 1 s) then
        (let (t, s') = read_number s in Inr ([t], s'))
      else if c \<in> set quotes then (let (t, s') = read_string c s in Inr ([t], s'))
      else if alpha_char c \<or> c = CHR ''_'' then (let (t, s') = read_identifier s in Inr ([t], s'))
      else Inl SyntaxErr)"

lemma block_loop_length: "length (lx_text (block_loop xs l c)) \<le> length xs"
  by (induction xs l c rule: block_loop.induct) auto

lemma lex_parts_shorter:
  assumes "lx_text s = c # cs"
  shows "length (lx_text (skip_block_comment s)) < length (lx_text s)"
    and "c \<noteq> newline \<Longrightarrow> length (lx_text (skip_line s)) < length (lx_text s)"
    and "length (lx_text (snd (lex_operator c s))) < length (lx_text s)"
    and "0 < number_span False (lx_text s) \<Longrightarrow> length (lx_text (snd (read_number s))) < length (lx_text s)"
    and "length (lx_text (snd (read_string q s))) < length (lx_text s)"
    and "ident_char c \<Longrightarrow> length (lx_text (snd (read_identifier s))) < length (lx_text s)"
proof -
  show "length (lx_text (skip_block_comment s)) < length (lx_text s)"
    using block_loop_length [of "drop 2 (lx_text s)" "lx_line s" "lx_column s + 2"] assms
    by (simp add: skip_block_comment_def lx_advance_def Let_def)
  show "c \<noteq> newline \<Longrightarrow> length (lx_text (skip_line s)) < length (lx_text s)"
    using assms by (simp add: skip_line_def lx_advance_def)
  show "length (lx_text (snd (lex_operator c s))) < length (lx_text s)"
    using assms by (auto simp: lex_operator_def lx_advance_def)
  show "0 < number_span False (lx_text s) \<Longrightarrow> length (lx_text (snd (read_number s))) < length (lx_text s)"
    using assms by (simp add: read_number_def Let_def lx_advance_def)
  show "length (lx_text (snd (read_string q s))) < length (lx_text s)"
    using assms by (simp add: read_string_def Let_def lx_advance_def)
  show "ident_char c \<Longrightarrow> length (lx_text (snd (read_identifier s))) < length (lx_text s)"
    using assms by (simp add: read_identifier_def Let_def lx_advance_def)
qed

text \<open>The state behind a step is shorter, which is seen branch by branch.\<close>

definition returns_only :: "('a \<Rightarrow> bool) \<Rightarrow> 'a result \<Rightarrow> bool" where
  "returns_only P r \<longleftrightarrow> (\<forall>p. r = Inr p \<longrightarrow> P p)"

lemma returns_only_intros:
  "(b \<Longrightarrow> returns_only P r) \<Longrightarrow> (\<not> b \<Longrightarrow> returns_only P r') \<Longrightarrow> returns_only P (if b then r else r')"
  "P p \<Longrightarrow> returns_only P (Inr p)"
  "returns_only P (Inl e)"
  by (simp_all add: returns_only_def)

lemma lex_step_shorter:
  assumes "lex_step c s = Inr (ts, s')" and "lx_text s = c # cs"
  shows "length (lx_text s') < length (lx_text s)"
proof -
  have advanced: "length (lx_text (lx_advance 1 s)) < length (lx_text s)" using assms(2) by (simp add: lx_advance_def)
  have digit: "0 < number_span False (lx_text s)" if "digit_char c \<or> c = CHR ''.''"
    using that assms(2) by auto
  have ident: "ident_char c" if "alpha_char c \<or> c = CHR ''_''" using that by (auto simp: ident_char_def)
  have dash: "CHR ''-'' \<noteq> newline" by (simp add: newline_def)
  have rest: "length (drop 1 (lx_text s)) < length (lx_text s)" using assms(2) by simp
  note parts = lex_parts_shorter [OF assms(2)]
  note number = parts(4) [OF digit]
  have "returns_only (\<lambda>p. length (lx_text (snd p)) < length (lx_text s)) (lex_step c s)"
    unfolding lex_step_def Let_def split_beta
  proof (intro returns_only_intros)
  qed (use parts(1-3,5-) number advanced ident dash rest in auto)
  with assms(1) show ?thesis by (simp add: returns_only_def)
qed

function lex_loop :: "lexer \<Rightarrow> token list \<Rightarrow> token list result" where
  "lex_loop s tokens =
     (case lx_text s of
        [] \<Rightarrow> Inr (tokens @ [\<lparr>tok_type = EOF, tok_value = [], tok_keyword = None, tok_line = lx_line s,
                             tok_column = lx_column s\<rparr>])
      | c # _ \<Rightarrow>
          (case lex_step c s of
             Inl e \<Rightarrow> Inl e
           | Inr (ts, s') \<Rightarrow> lex_loop s' (tokens @ ts)))"
  by pat_completeness auto
termination
  by (relation "measure (\<lambda>(s, _). length (lx_text s))") (auto dest: lex_step_shorter)

declare lex_loop.simps [simp del]

definition tokenize :: "string \<Rightarrow> token list result" where
  "tokenize source = lex_loop \<lparr>lx_text = source, lx_line = 1, lx_column = 1\<rparr> []"

end
