(* ===== verification/SqlParser.thy ===== *)
theory SqlParser
  imports SqlLexer SqlPlan Py_State
begin

text \<open>
  The recursive descent parser of \<^verbatim>\<open>database/src/sql/parser.py\<close>.  Its state is the list of tokens from the
  current position on.  References to members that \<^verbatim>\<open>Keyword\<close> does not have (\<^verbatim>\<open>IF\<close>, \<^verbatim>\<open>FOREIGN\<close>,
  \<^verbatim>\<open>TABLES\<close>, \<^verbatim>\<open>DATABASES\<close>) raise \<^verbatim>\<open>AttributeError\<close>.  \<^verbatim>\<open>float(text)\<close> is an argument, \<open>fl\<close>.

  The parsers below \<^verbatim>\<open>_parse_expression\<close> take it as an argument, \<open>pe\<close>; recursive calls and loops carry a guard
  that the rest of the tokens has become shorter, which makes them total.
\<close>

type_synonym 'a parser = "(token list, 'a) st"

section \<open>Tokens\<close>

text \<open>\<^verbatim>\<open>_peek\<close>, \<^verbatim>\<open>_advance\<close>, \<^verbatim>\<open>_expect\<close>, \<^verbatim>\<open>_expect_keyword\<close>, \<^verbatim>\<open>_maybe_keyword\<close>.\<close>

fun peek :: "token list \<Rightarrow> token" where
  "peek [] = mk_token EOF [] None"
| "peek (t # _) = t"

fun p_advance :: "token parser" where
  "p_advance [] = (Inl IndexError, [])"
| "p_advance (t # ts) = (Inr t, ts)"

definition p_expect :: "token_type \<Rightarrow> string option \<Rightarrow> token parser" where
  "p_expect ty v ts =
     (if tok_type (peek ts) \<noteq> ty then (Inl SyntaxErr, ts)
      else if v \<noteq> None \<and> upper (tok_value (peek ts)) \<noteq> upper (the v) then (Inl SyntaxErr, ts)
      else p_advance ts)"

definition is_keyword :: "string \<Rightarrow> token list \<Rightarrow> bool" where
  "is_keyword k ts \<longleftrightarrow> tok_type (peek ts) = KEYWORD \<and> tok_keyword (peek ts) = Some k"

definition expect_keyword :: "string \<Rightarrow> token parser" where
  "expect_keyword k ts = (if is_keyword k ts then p_advance ts else (Inl SyntaxErr, ts))"

definition maybe_keyword :: "string \<Rightarrow> bool parser" where
  "maybe_keyword k ts = (if is_keyword k ts then (Inr True, tl ts) else (Inr False, ts))"

definition is_token :: "token_type \<Rightarrow> string \<Rightarrow> token list \<Rightarrow> bool" where
  "is_token ty v ts \<longleftrightarrow> tok_type (peek ts) = ty \<and> tok_value (peek ts) = v"

definition p_ident :: "string parser" where
  "p_ident = st_bind (p_expect IDENTIFIER None) (\<lambda>t. st_return (tok_value t))"

text \<open>A branch on the tokens ahead, and \<^verbatim>\<open>if self._maybe_keyword(k)\<close>.\<close>

definition p_if :: "(token list \<Rightarrow> bool) \<Rightarrow> 'a parser \<Rightarrow> 'a parser \<Rightarrow> 'a parser" where
  "p_if cond p q ts = (if cond ts then p ts else q ts)"

definition if_keyword :: "string \<Rightarrow> 'a parser \<Rightarrow> 'a parser \<Rightarrow> 'a parser" where
  "if_keyword k p q = st_bind (maybe_keyword k) (\<lambda>b. if b then p else q)"

text \<open>\<^verbatim>\<open>while\<close> loops; the body always takes a token.\<close>

function p_while :: "(token list \<Rightarrow> bool) \<Rightarrow> ('a \<Rightarrow> 'a parser) \<Rightarrow> 'a \<Rightarrow> 'a parser" where
  "p_while cond body x ts =
     (if cond ts
      then (case body x ts of
              (Inl e, ts') \<Rightarrow> (Inl e, ts')
            | (Inr y, ts') \<Rightarrow>
                if length ts' < length ts then p_while cond body y ts' else (Inl RuntimeError, ts'))
      else (Inr x, ts))"
  by pat_completeness auto
termination
  by (relation "measure (\<lambda>(_, _, _, ts). length ts)") auto

declare p_while.simps [simp del]

text \<open>One item, and one more behind each comma.\<close>

definition comma_list :: "'a parser \<Rightarrow> 'a list parser" where
  "comma_list item =
     st_bind item (\<lambda>x.
     p_while (is_token PUNCTUATION '','')
       (\<lambda>xs. st_bind p_advance (\<lambda>_. st_bind item (\<lambda>y. st_return (xs @ [y])))) [x])"

definition parens :: "'a parser \<Rightarrow> 'a parser" where
  "parens p =
     st_bind (p_expect PUNCTUATION (Some ''('')) (\<lambda>_. st_bind p (\<lambda>x.
     st_bind (p_expect PUNCTUATION (Some '')'')) (\<lambda>_. st_return x)))"

section \<open>Literals and clauses around expressions\<close>

definition parse_literal :: "(string \<Rightarrow> pyfloat) \<Rightarrow> 'o expr parser" where
  "parse_literal fl =
     p_if (\<lambda>ts. tok_type (peek ts) = NUMBER)
       (st_bind p_advance (\<lambda>t.
          if CHR ''.'' \<in> set (tok_value t) then st_return (LiteralExpr (PFloat (fl (tok_value t))))
          else st_bind (st_result (int_of_text (tok_value t))) (\<lambda>n. st_return (LiteralExpr (PInt n)))))
     (p_if (\<lambda>ts. tok_type (peek ts) = STRING)
       (st_bind p_advance (\<lambda>t. st_return (LiteralExpr (PStr (map of_char (tok_value t))))))
     (if_keyword ''TRUE'' (st_return (LiteralExpr (PBool True)))
     (if_keyword ''FALSE'' (st_return (LiteralExpr (PBool False)))
     (if_keyword ''NULL'' (st_return (LiteralExpr PNone))
     (st_raise SyntaxErr)))))"

text \<open>An optional clause: a keyword and what follows it.\<close>

definition clause :: "string \<Rightarrow> 'a parser \<Rightarrow> 'a option parser" where
  "clause k p = if_keyword k (st_bind p (\<lambda>x. st_return (Some x))) (st_return None)"

definition select_column :: "'o expr parser \<Rightarrow> 'o expr parser" where
  "select_column pe =
     p_if (is_token OPERATOR ''*'') (st_bind p_advance (\<lambda>_. st_return (StarExpr None)))
       (st_bind pe (\<lambda>e. if_keyword ''AS'' (st_bind p_ident (\<lambda>_. st_return e)) (st_return e)))"

definition parse_select_columns :: "'o expr parser \<Rightarrow> 'o expr list parser" where
  "parse_select_columns pe = comma_list (select_column pe)"

definition parse_from :: "(string option \<times> string option) parser" where
  "parse_from =
     if_keyword ''FROM''
       (st_bind p_ident (\<lambda>table.
        if_keyword ''AS'' (st_bind p_ident (\<lambda>a. st_return (Some table, Some a)))
          (p_if (\<lambda>ts. tok_type (peek ts) = IDENTIFIER \<and>
               upper (tok_value (peek ts)) \<notin> {''WHERE'', ''JOIN'', ''LEFT'', ''RIGHT'', ''INNER'', ''OUTER'', ''CROSS'',
                 ''FULL'', ''ORDER'', ''GROUP'', ''LIMIT'', ''HAVING'', ''ON''})
             (st_bind p_advance (\<lambda>t. st_return (Some table, Some (tok_value t))))
             (st_return (Some table, None)))))
       (st_return (None, None))"

definition join_side :: "string parser" where
  "join_side =
     p_if (\<lambda>ts. tok_keyword (peek ts) \<in> Some ` {''LEFT'', ''RIGHT'', ''FULL'', ''CROSS''})
       (st_bind p_advance (\<lambda>t.
        if_keyword ''OUTER'' (st_return (upper (tok_value t)))
          (if_keyword ''INNER'' (st_return (upper (tok_value t))) (st_return (upper (tok_value t))))))
       (st_return ''INNER'')"

definition parse_join :: "'o expr parser \<Rightarrow> 'o join_clause parser" where
  "parse_join pe =
     st_bind join_side (\<lambda>kind.
     st_bind (maybe_keyword ''JOIN'') (\<lambda>_.
     st_bind p_ident (\<lambda>table.
     st_bind (clause ''AS'' p_ident) (\<lambda>a.
     st_bind (clause ''ON'' pe) (\<lambda>on.
       st_return (JoinClause kind table a on))))))"

definition at_keyword :: "string set \<Rightarrow> token list \<Rightarrow> bool" where
  "at_keyword ks ts \<longleftrightarrow> tok_type (peek ts) = KEYWORD \<and> tok_keyword (peek ts) \<in> Some ` ks"

definition at_join :: "token list \<Rightarrow> bool" where
  "at_join = at_keyword {''JOIN'', ''LEFT'', ''RIGHT'', ''INNER'', ''OUTER'', ''CROSS'', ''FULL''}"

definition order_item :: "'o expr parser \<Rightarrow> 'o order_item parser" where
  "order_item pe =
     st_bind pe (\<lambda>e.
     if_keyword ''DESC'' (st_return (OrderByItem e ''DESC''))
       (if_keyword ''ASC'' (st_return (OrderByItem e ''ASC'')) (st_return (OrderByItem e ''ASC''))))"

definition parse_order_by :: "'o expr parser \<Rightarrow> 'o order_item list parser" where
  "parse_order_by pe = comma_list (order_item pe)"

definition parse_expression_list :: "'o expr parser \<Rightarrow> 'o expr list parser" where
  "parse_expression_list pe = comma_list pe"

definition parse_count :: "int parser" where
  "parse_count = st_bind (p_expect NUMBER None) (\<lambda>t. st_result (int_of_text (tok_value t)))"

definition by_clause :: "string \<Rightarrow> 'a list parser \<Rightarrow> 'a list parser" where
  "by_clause k p = if_keyword k (st_bind (expect_keyword ''BY'') (\<lambda>_. p)) (st_return [])"

definition parse_select :: "'o expr parser \<Rightarrow> 'o select_stmt parser" where
  "parse_select pe =
     st_bind p_advance (\<lambda>_.
     st_bind (maybe_keyword ''DISTINCT'') (\<lambda>dist.
     st_bind (parse_select_columns pe) (\<lambda>columns.
     st_bind parse_from (\<lambda>(from_table, from_alias).
     st_bind (p_while at_join (\<lambda>js. st_bind (parse_join pe) (\<lambda>j. st_return (js @ [j]))) []) (\<lambda>joins.
     st_bind (clause ''WHERE'' pe) (\<lambda>cond.
     st_bind (by_clause ''GROUP'' (parse_expression_list pe)) (\<lambda>groups.
     st_bind (clause ''HAVING'' pe) (\<lambda>having.
     st_bind (by_clause ''ORDER'' (parse_order_by pe)) (\<lambda>order.
     st_bind (clause ''LIMIT'' parse_count) (\<lambda>limit.
     st_bind (clause ''OFFSET'' parse_count) (\<lambda>offset.
       st_return (SelectStmt columns from_table from_alias joins cond groups having order limit offset dist))))))))))))"

section \<open>Expressions\<close>

text \<open>\<^verbatim>\<open>_parse_function_call\<close> without and with the name, \<^verbatim>\<open>_parse_case\<close>, \<^verbatim>\<open>_parse_exists\<close>.\<close>

definition parse_function_call :: "'o expr parser \<Rightarrow> string option \<Rightarrow> 'o expr parser" where
  "parse_function_call pe name =
     st_bind (case name of None \<Rightarrow> st_bind p_advance (\<lambda>t. st_return (upper (tok_value t))) | Some n \<Rightarrow> st_return n)
       (\<lambda>name.
     st_bind (p_expect PUNCTUATION (Some ''('')) (\<lambda>_.
     st_bind (maybe_keyword ''DISTINCT'') (\<lambda>dist.
     st_bind (p_if (is_token PUNCTUATION '')'') (st_return []) (comma_list pe)) (\<lambda>args.
     st_bind (p_expect PUNCTUATION (Some '')'')) (\<lambda>_.
       st_return (FunctionExpr name args dist))))))"

definition parse_case :: "'o expr parser \<Rightarrow> 'o expr parser" where
  "parse_case pe =
     st_bind p_advance (\<lambda>_.
     st_bind (p_while (is_keyword ''WHEN'')
       (\<lambda>(cs, rs). st_bind p_advance (\<lambda>_. st_bind pe (\<lambda>c. st_bind (expect_keyword ''THEN'') (\<lambda>_.
          st_bind pe (\<lambda>r. st_return (cs @ [c], rs @ [r])))))) ([], [])) (\<lambda>(conds, results).
     st_bind (clause ''ELSE'' pe) (\<lambda>otherwise.
     st_bind (expect_keyword ''END'') (\<lambda>_.
       st_return (CaseExpr conds results otherwise)))))"

definition parse_exists :: "'o expr parser \<Rightarrow> 'o expr parser" where
  "parse_exists pe =
     st_bind p_advance (\<lambda>_. st_bind (parens (parse_select pe)) (\<lambda>s. st_return (SubqueryExpr s)))"

definition parse_column_ref :: "'o expr parser \<Rightarrow> 'o expr parser" where
  "parse_column_ref pe =
     st_bind p_advance (\<lambda>t. let name = tok_value t in
     p_if (is_token PUNCTUATION ''('') (parse_function_call pe (Some name))
       (p_if (is_token PUNCTUATION ''.'')
          (st_bind p_advance (\<lambda>_.
             p_if (is_token OPERATOR ''*'') (st_bind p_advance (\<lambda>_. st_return (StarExpr (Some name))))
               (st_bind p_ident (\<lambda>col. st_return (ColumnExpr col (Some name))))))
          (st_return (ColumnExpr name None))))"

definition parse_primary :: "(string \<Rightarrow> pyfloat) \<Rightarrow> 'o expr parser \<Rightarrow> 'o expr parser" where
  "parse_primary fl pe =
     p_if (\<lambda>ts. tok_type (peek ts) \<in> {NUMBER, STRING}) (parse_literal fl)
     (p_if (at_keyword {''TRUE'', ''FALSE'', ''NULL''}) (parse_literal fl)
     (p_if (at_keyword aggregates) (parse_function_call pe None)
     (p_if (is_keyword ''CASE'') (parse_case pe)
     (p_if (is_keyword ''EXISTS'') (parse_exists pe)
     (p_if (\<lambda>ts. tok_type (peek ts) = IDENTIFIER) (parse_column_ref pe)
     (p_if (is_token OPERATOR ''*'') (st_bind p_advance (\<lambda>_. st_return (StarExpr None)))
     (p_if (is_token PUNCTUATION ''('') (parens pe)
     (p_if (is_keyword ''SELECT'') (st_bind (parse_select pe) (\<lambda>s. st_return (SubqueryExpr s)))
     (st_raise SyntaxErr)))))))))"

lemma is_token_rest: "is_token ty v ts \<Longrightarrow> ty \<noteq> EOF \<Longrightarrow> length (tl ts) < length ts"
  by (cases ts) (auto simp: is_token_def mk_token_def)

lemma is_keyword_rest: "is_keyword k ts \<Longrightarrow> length (tl ts) < length ts"
  by (cases ts) (auto simp: is_keyword_def mk_token_def)

function parse_unary :: "(string \<Rightarrow> pyfloat) \<Rightarrow> 'o expr parser \<Rightarrow> 'o expr parser" where
  "parse_unary fl pe ts =
     (if is_token OPERATOR ''-'' ts
      then st_bind (\<lambda>_. parse_unary fl pe (tl ts)) (\<lambda>e. st_return (UnaryExpr ''-'' e)) (tl ts)
      else parse_primary fl pe ts)"
  by pat_completeness auto
termination
  by (relation "measure (\<lambda>(_, _, ts). length ts)") (auto dest: is_token_rest)

declare parse_unary.simps [simp del]

text \<open>Operators that associate to the left.\<close>

definition binary_loop :: "(token list \<Rightarrow> bool) \<Rightarrow> (token \<Rightarrow> string) \<Rightarrow> 'o expr parser \<Rightarrow> 'o expr parser" where
  "binary_loop at_oper oper operand =
     st_bind operand (p_while at_oper (\<lambda>left.
       st_bind p_advance (\<lambda>t. st_bind operand (\<lambda>right. st_return (BinaryExpr (oper t) left right)))))"

definition at_operator :: "string set \<Rightarrow> token list \<Rightarrow> bool" where
  "at_operator vs ts \<longleftrightarrow> tok_type (peek ts) = OPERATOR \<and> tok_value (peek ts) \<in> vs"

definition parse_multiplication :: "(string \<Rightarrow> pyfloat) \<Rightarrow> 'o expr parser \<Rightarrow> 'o expr parser" where
  "parse_multiplication fl pe = binary_loop (at_operator {''*'', ''/''}) tok_value (parse_unary fl pe)"

definition parse_addition :: "(string \<Rightarrow> pyfloat) \<Rightarrow> 'o expr parser \<Rightarrow> 'o expr parser" where
  "parse_addition fl pe = binary_loop (at_operator {''+'', ''-''}) tok_value (parse_multiplication fl pe)"

text \<open>What may follow the first operand of a comparison.\<close>

definition comparison_tail :: "(string \<Rightarrow> pyfloat) \<Rightarrow> 'o expr parser \<Rightarrow> 'o expr \<Rightarrow> 'o expr parser" where
  "comparison_tail fl pe left =
     p_if (at_operator {''='', ''!='', ''<'', ''>'', ''<='', ''>=''})
       (st_bind p_advance (\<lambda>t. st_bind (parse_addition fl pe) (\<lambda>right.
          st_return (BinaryExpr (tok_value t) left right))))
     (if_keyword ''IN'' (st_bind (parens (comma_list pe)) (\<lambda>es. st_return (InExpr left es)))
     (if_keyword ''LIKE'' (st_bind (parse_addition fl pe) (\<lambda>p. st_return (LikeExpr left p)))
     (if_keyword ''BETWEEN''
        (st_bind (parse_addition fl pe) (\<lambda>low. st_bind (expect_keyword ''AND'') (\<lambda>_.
         st_bind (parse_addition fl pe) (\<lambda>high. st_return (BetweenExpr left low high)))))
     (if_keyword ''IS''
        (if_keyword ''NOT''
           (if_keyword ''NULL'' (st_return (BinaryExpr ''IS NOT'' left (LiteralExpr PNone))) (st_return left))
           (if_keyword ''NULL'' (st_return (BinaryExpr ''IS'' left (LiteralExpr PNone))) (st_return left)))
     (st_return left)))))"

definition parse_comparison :: "(string \<Rightarrow> pyfloat) \<Rightarrow> 'o expr parser \<Rightarrow> 'o expr parser" where
  "parse_comparison fl pe = st_bind (parse_addition fl pe) (comparison_tail fl pe)"

function parse_not :: "(string \<Rightarrow> pyfloat) \<Rightarrow> 'o expr parser \<Rightarrow> 'o expr parser" where
  "parse_not fl pe ts =
     (if is_keyword ''NOT'' ts
      then st_bind (\<lambda>_. parse_not fl pe (tl ts)) (\<lambda>e. st_return (UnaryExpr ''NOT'' e)) (tl ts)
      else parse_comparison fl pe ts)"
  by pat_completeness auto
termination
  by (relation "measure (\<lambda>(_, _, ts). length ts)") (auto dest: is_keyword_rest)

declare parse_not.simps [simp del]

definition parse_and :: "(string \<Rightarrow> pyfloat) \<Rightarrow> 'o expr parser \<Rightarrow> 'o expr parser" where
  "parse_and fl pe = binary_loop (is_keyword ''AND'') (\<lambda>_. ''AND'') (parse_not fl pe)"

definition parse_or :: "(string \<Rightarrow> pyfloat) \<Rightarrow> 'o expr parser \<Rightarrow> 'o expr parser" where
  "parse_or fl pe = binary_loop (is_keyword ''OR'') (\<lambda>_. ''OR'') (parse_and fl pe)"

function parse_expression :: "(string \<Rightarrow> pyfloat) \<Rightarrow> 'o expr parser" where
  "parse_expression fl ts =
     parse_or fl (\<lambda>ts'. if length ts' < length ts then parse_expression fl ts' else (Inl RuntimeError, ts')) ts"
  by pat_completeness auto
termination
  by (relation "measure (\<lambda>(_, ts). length ts)") auto

declare parse_expression.simps [simp del]

section \<open>Statements\<close>

definition p_ident_list :: "string list parser" where
  "p_ident_list = parens (comma_list p_ident)"

definition parse_insert :: "(string \<Rightarrow> pyfloat) \<Rightarrow> 'o statement parser" where
  "parse_insert fl =
     st_bind p_advance (\<lambda>_.
     st_bind (expect_keyword ''INTO'') (\<lambda>_.
     st_bind p_ident (\<lambda>table.
     st_bind (p_if (is_token PUNCTUATION ''('') p_ident_list (st_return [])) (\<lambda>columns.
     st_bind (expect_keyword ''VALUES'') (\<lambda>_.
     st_bind (comma_list (parens (comma_list (parse_expression fl)))) (\<lambda>rows.
       st_return (InsertStatement table columns rows)))))))"

text \<open>\<^verbatim>\<open>self._maybe_keyword(k1) and self._maybe_keyword(k2)\<close>.\<close>

definition both_keywords :: "string \<Rightarrow> string \<Rightarrow> bool parser" where
  "both_keywords k1 k2 = if_keyword k1 (maybe_keyword k2) (st_return False)"

text \<open>The attributes of a column: nullable, primary key, unique, default.\<close>

definition column_attribute ::
  "(string \<Rightarrow> pyfloat) \<Rightarrow> 'o column_def \<Rightarrow> 'o column_def parser" where
  "column_attribute fl c =
     if_keyword ''NOT''
       (if_keyword ''NULL'' (st_return (c\<lparr>cd_nullable := False\<rparr>))
          (if_keyword ''EXISTS'' (st_return c) (st_return c)))
     (if_keyword ''PRIMARY'' (st_bind (expect_keyword ''KEY'') (\<lambda>_. st_return (c\<lparr>cd_primary_key := True\<rparr>)))
     (if_keyword ''UNIQUE'' (st_return (c\<lparr>cd_unique := True\<rparr>))
     (if_keyword ''DEFAULT'' (st_bind (parse_literal fl) (\<lambda>e. st_return (c\<lparr>cd_default := Some e\<rparr>)))
     (if_keyword ''NULL'' (st_return (c\<lparr>cd_nullable := True\<rparr>)) (st_return c)))))"

text \<open>The loop goes on while one of its keywords is ahead; at any other token it breaks.\<close>

definition at_attribute :: "token list \<Rightarrow> bool" where
  "at_attribute ts \<longleftrightarrow> list_ex (\<lambda>k. is_keyword k ts) [''NOT'', ''PRIMARY'', ''UNIQUE'', ''DEFAULT'', ''NULL'']"

text \<open>A column definition; at a keyword the look for a table constraint raises.\<close>

definition parse_column_def :: "(string \<Rightarrow> pyfloat) \<Rightarrow> 'o column_def parser" where
  "parse_column_def fl =
     p_if (\<lambda>ts. tok_type (peek ts) = KEYWORD) (st_raise AttributeErr)
       (st_bind p_ident (\<lambda>name.
        st_bind p_advance (\<lambda>t.
        st_bind (if tok_type t = KEYWORD \<and> tok_keyword t = Some ''NOT'' then p_advance else st_return t) (\<lambda>t.
        st_bind (p_if (is_token PUNCTUATION ''('')
          (st_bind (parens (p_expect NUMBER None)) (\<lambda>n.
             st_return (upper (tok_value t) @ ''('' @ tok_value n @ '')'')))
          (st_return (upper (tok_value t)))) (\<lambda>data_type.
        p_while at_attribute (column_attribute fl)
          \<lparr>cd_name = name, cd_data_type = data_type, cd_nullable = True, cd_primary_key = False,
           cd_unique = False, cd_default = None\<rparr>)))))"

definition parse_column_defs :: "(string \<Rightarrow> pyfloat) \<Rightarrow> 'o column_def list parser" where
  "parse_column_defs fl = comma_list (parse_column_def fl)"

definition parse_create :: "(string \<Rightarrow> pyfloat) \<Rightarrow> 'o statement parser" where
  "parse_create fl =
     st_bind p_advance (\<lambda>_.
     if_keyword ''TABLE''
       (st_bind (both_keywords ''NOT'' ''EXISTS'') (\<lambda>ine.
        st_bind p_ident (\<lambda>name.
        st_bind (p_if (is_token PUNCTUATION ''('') (parens (parse_column_defs fl)) (st_return [])) (\<lambda>columns.
          st_return (CreateStatement ''TABLE'' name columns ine)))))
     (if_keyword ''DATABASE''
       (st_bind (both_keywords ''NOT'' ''EXISTS'') (\<lambda>ine.
        st_bind p_ident (\<lambda>name. st_return (CreateStatement ''DATABASE'' name [] ine))))
     (if_keyword ''INDEX''
       (st_bind p_ident (\<lambda>name.
        st_bind (expect_keyword ''ON'') (\<lambda>_.
        st_bind p_ident (\<lambda>_.
        st_bind p_ident_list (\<lambda>_. st_return (CreateStatement ''INDEX'' name [] False))))))
     (st_raise SyntaxErr))))"

text \<open>\<^verbatim>\<open>Keyword.IF\<close>, \<^verbatim>\<open>Keyword.DATABASES\<close> and \<^verbatim>\<open>Keyword.TABLES\<close> do not exist.\<close>

definition parse_drop :: "'o statement parser" where
  "parse_drop =
     st_bind p_advance (\<lambda>_.
     if_keyword ''TABLE'' (st_raise AttributeErr)
       (if_keyword ''DATABASE'' (st_raise AttributeErr) (st_raise SyntaxErr)))"

definition parse_delete :: "(string \<Rightarrow> pyfloat) \<Rightarrow> 'o statement parser" where
  "parse_delete fl =
     st_bind p_advance (\<lambda>_.
     st_bind (expect_keyword ''FROM'') (\<lambda>_.
     st_bind p_ident (\<lambda>table.
     st_bind (clause ''WHERE'' (parse_expression fl)) (\<lambda>cond. st_return (DeleteStatement table cond)))))"

definition set_clause :: "(string \<Rightarrow> pyfloat) \<Rightarrow> (string \<times> 'o expr) parser" where
  "set_clause fl =
     st_bind p_ident (\<lambda>name.
     st_bind (p_expect OPERATOR (Some ''='')) (\<lambda>_.
     st_bind (parse_expression fl) (\<lambda>e. st_return (name, e))))"

definition parse_update :: "(string \<Rightarrow> pyfloat) \<Rightarrow> 'o statement parser" where
  "parse_update fl =
     st_bind p_advance (\<lambda>_.
     st_bind p_ident (\<lambda>table.
     st_bind (expect_keyword ''SET'') (\<lambda>_.
     st_bind (comma_list (set_clause fl)) (\<lambda>clauses.
     st_bind (clause ''WHERE'' (parse_expression fl)) (\<lambda>cond.
       st_return (UpdateStatement table clauses cond))))))"

definition parse_alter :: "(string \<Rightarrow> pyfloat) \<Rightarrow> 'o statement parser" where
  "parse_alter fl =
     st_bind p_advance (\<lambda>_.
     st_bind (expect_keyword ''TABLE'') (\<lambda>_.
     st_bind p_ident (\<lambda>table.
     if_keyword ''ADD''
       (st_bind (maybe_keyword ''COLUMN'') (\<lambda>_.
        st_bind (parse_column_defs fl) (\<lambda>cols.
          st_return (AlterStatement table ''ADD COLUMN'' (Some (hd cols)) None))))
     (if_keyword ''DROP''
       (st_bind (maybe_keyword ''COLUMN'') (\<lambda>_.
        st_bind p_ident (\<lambda>name. st_return (AlterStatement table ''DROP COLUMN'' None (Some name)))))
     (st_raise SyntaxErr)))))"

definition parse_use :: "'o statement parser" where
  "parse_use = st_bind p_advance (\<lambda>_. st_bind p_ident (\<lambda>name. st_return (UseStatement name)))"

definition parse_show :: "'o statement parser" where
  "parse_show = st_bind p_advance (\<lambda>_. st_raise AttributeErr)"

definition parse_transaction :: "'o statement parser" where
  "parse_transaction =
     st_bind p_advance (\<lambda>t.
     st_bind (maybe_keyword ''TRANSACTION'') (\<lambda>_. st_return (TransactionStatement (upper (tok_value t)))))"

text \<open>\<^verbatim>\<open>parse\<close>; the tokens behind the statement are not looked at.\<close>

definition parse_simple :: "(string \<Rightarrow> pyfloat) \<Rightarrow> 'o statement parser" where
  "parse_simple fl =
     p_if (is_keyword ''SELECT'') (st_bind (parse_select (parse_expression fl)) (\<lambda>s. st_return (SelectStatement s)))
     (p_if (is_keyword ''INSERT'') (parse_insert fl)
     (p_if (is_keyword ''CREATE'') (parse_create fl)
     (p_if (is_keyword ''DROP'') parse_drop
     (p_if (is_keyword ''DELETE'') (parse_delete fl)
     (p_if (is_keyword ''UPDATE'') (parse_update fl)
     (p_if (is_keyword ''ALTER'') (parse_alter fl)
     (p_if (is_keyword ''USE'') parse_use
     (p_if (is_keyword ''SHOW'') parse_show
     (p_if (at_keyword {''BEGIN'', ''COMMIT'', ''ROLLBACK''}) parse_transaction
     (st_raise SyntaxErr))))))))))"

function parse :: "(string \<Rightarrow> pyfloat) \<Rightarrow> 'o statement parser" where
  "parse fl ts =
     (if is_keyword ''EXPLAIN'' ts
      then st_bind (\<lambda>_. parse fl (tl ts)) (\<lambda>s. st_return (ExplainStatement s)) (tl ts)
      else parse_simple fl ts)"
  by pat_completeness auto
termination
  by (relation "measure (\<lambda>(_, ts). length ts)") (auto dest: is_keyword_rest)

declare parse.simps [simp del]

definition parse_sql :: "(string \<Rightarrow> pyfloat) \<Rightarrow> string \<Rightarrow> 'o statement result" where
  "parse_sql fl sql = res_bind (tokenize sql) (\<lambda>ts. fst (parse fl ts))"

end
