(* ===== verification/SqlLexer_Facts.thy ===== *)
theory SqlLexer_Facts
  imports SqlLexer
begin

text \<open>What tokens the SQL lexer can produce, and that it reads back texts of tokens with blanks behind them.\<close>

section \<open>The tokens of the lexer\<close>

definition operators :: "string set" where
  "operators = {''<='', ''>='', ''!=''} \<union> (\<lambda>c. [c]) ` set single_char_tokens"

text \<open>A number starts with a digit and has at most one point.\<close>

definition number_text :: "string \<Rightarrow> bool" where
  "number_text v \<longleftrightarrow> v \<noteq> [] \<and> digit_char (hd v) \<and> number_span False v = length v"

definition word_text :: "string \<Rightarrow> bool" where
  "word_text v \<longleftrightarrow> v \<noteq> [] \<and> \<not> digit_char (hd v) \<and> list_all ident_char v"

definition lexed :: "token \<Rightarrow> bool" where
  "lexed t \<longleftrightarrow>
     (case tok_type t of
        KEYWORD \<Rightarrow> tok_keyword t = Some (upper (tok_value t)) \<and> upper (tok_value t) \<in> set keyword_map \<and> word_text (tok_value t)
      | IDENTIFIER \<Rightarrow> tok_keyword t = None \<and> upper (tok_value t) \<notin> set keyword_map \<and> word_text (tok_value t)
      | NUMBER \<Rightarrow> tok_keyword t = None \<and> number_text (tok_value t)
      | OPERATOR \<Rightarrow> tok_keyword t = None \<and> tok_value t \<in> operators - {''!=''}
      | STRING \<Rightarrow> tok_keyword t = None
      | PUNCTUATION \<Rightarrow> False
      | EOF \<Rightarrow> False)"

lemma number_span_take: "number_span f (take (number_span f s) s) = number_span f s"
  by (induction f s rule: number_span.induct) auto

lemma number_span_length: "number_span f s \<le> length s"
  by (induction f s rule: number_span.induct) auto

lemma digit_not_alpha: "alpha_char c \<or> c = CHR ''_'' \<Longrightarrow> \<not> digit_char c"
  by (auto simp: alpha_char_def digit_char_def Let_def)

lemma lex_parts_lexed:
  assumes "lx_text s = c # cs"
  shows "c \<in> set single_char_tokens \<Longrightarrow> list_all lexed (fst (lex_operator c s))"
    and "digit_char c \<Longrightarrow> lexed (fst (read_number s))"
    and "lexed (fst (read_string q s))"
    and "alpha_char c \<or> c = CHR ''_'' \<Longrightarrow> lexed (fst (read_identifier s))"
proof -
  have "c \<noteq> CHR ''!''" if "c \<in> set single_char_tokens" using that by (auto simp: single_char_tokens_def)
  then show "c \<in> set single_char_tokens \<Longrightarrow> list_all lexed (fst (lex_operator c s))"
    by (auto simp: lex_operator_def make_token_def lexed_def operators_def)
  show "digit_char c \<Longrightarrow> lexed (fst (read_number s))"
    using assms number_span_take [of False "lx_text s"] number_span_length [of False "lx_text s"]
    by (auto simp: read_number_def mk_token_def lexed_def number_text_def Let_def)
  show "lexed (fst (read_string q s))"
    by (simp add: read_string_def mk_token_def lexed_def Let_def)
  show "alpha_char c \<or> c = CHR ''_'' \<Longrightarrow> lexed (fst (read_identifier s))"
    using assms digit_not_alpha [of c]
    by (auto simp: read_identifier_def mk_token_def lexed_def word_text_def ident_char_def Let_def list_all_iff
        dest!: set_takeWhileD)
qed

lemma lex_step_lexed:
  assumes "lex_step c s = Inr (ts, s')" and "lx_text s = c # cs"
  shows "list_all lexed ts"
proof -
  have point: "CHR ''.'' \<in> set single_char_tokens" by (simp add: single_char_tokens_def)
  note parts = lex_parts_lexed [OF assms(2)]
  have "returns_only (\<lambda>p. list_all lexed (fst p)) (lex_step c s)"
    unfolding lex_step_def Let_def split_beta
  proof (intro returns_only_intros)
  qed (use parts point in auto)
  with assms(1) show ?thesis by (simp add: returns_only_def)
qed

lemma lex_loop_lexed:
  assumes "list_all lexed tokens" and "lex_loop s tokens = Inr ts"
  obtains ts' t where "ts = ts' @ [t]" and "list_all lexed ts'" and "tok_type t = EOF"
  using assms
proof (induction s tokens arbitrary: thesis rule: lex_loop.induct)
  case (1 s tokens)
  show ?case
  proof (cases "lx_text s")
    case Nil
    then show ?thesis using 1(2-) by (auto simp: lex_loop.simps [of s])
  next
    case (Cons c cs)
    show ?thesis
    proof (cases "lex_step c s")
      case (Inr p)
      obtain new s' where step: "lex_step c s = Inr (new, s')" using Inr by (cases p) auto
      have "list_all lexed (tokens @ new)" using "1.prems"(2) lex_step_lexed [OF step Cons] by simp
      moreover have "lex_loop s' (tokens @ new) = Inr ts"
        using "1.prems"(3) Cons step by (simp add: lex_loop.simps [of s])
      ultimately show ?thesis using 1(1) [OF Cons Inr _ "1.prems"(1)] Inr step by auto
    qed (use 1(4) Cons in \<open>auto simp: lex_loop.simps [of s]\<close>)
  qed
qed

text \<open>
  The tokens of a text: each but the last, which is \<^verbatim>\<open>EOF\<close>, is a keyword, an identifier, a number, a string
  or an operator.  None is of the type \<^verbatim>\<open>PUNCTUATION\<close>, which the parser expects of parentheses, commas and
  points, and no operator is \<^verbatim>\<open>!=\<close>.
\<close>
theorem lexer_tokens:
  "tokenize source = Inr ts \<Longrightarrow>
   ts \<noteq> [] \<and> tok_type (last ts) = EOF \<and> list_all lexed (butlast ts) \<and>
   (\<forall>t \<in> set ts. tok_type t \<noteq> PUNCTUATION \<and> \<not> (tok_type t = OPERATOR \<and> tok_value t = ''!=''))"
proof -
  assume "tokenize source = Inr ts"
  then have run: "lex_loop \<lparr>lx_text = source, lx_line = 1, lx_column = 1\<rparr> [] = Inr ts" by (simp add: tokenize_def)
  have none: "list_all lexed []" by simp
  obtain ts' t where "ts = ts' @ [t]" "list_all lexed ts'" "tok_type t = EOF"
    by (rule lex_loop_lexed [OF none run])
  moreover have "tok_type t \<noteq> PUNCTUATION \<and> \<not> (tok_type t = OPERATOR \<and> tok_value t = ''!='')" if "lexed t" for t
    using that by (auto simp: lexed_def split: token_type.splits)
  ultimately show ?thesis by (auto simp: list_all_iff)
qed

section \<open>Reading back\<close>

text \<open>A token as text: a string between apostrophes, all others as their value.\<close>

definition token_text :: "token \<Rightarrow> string" where
  "token_text t = (if tok_type t = STRING then CHR 0x27 # tok_value t @ [CHR 0x27] else tok_value t)"

definition tokens_text :: "token list \<Rightarrow> string" where
  "tokens_text ts = concat (map (\<lambda>t. token_text t @ '' '') ts)"

definition printable :: "token \<Rightarrow> bool" where
  "printable t \<longleftrightarrow> lexed t \<and> (tok_type t = STRING \<longrightarrow> CHR 0x27 \<notin> set (tok_value t) \<and> backslash \<notin> set (tok_value t))"

text \<open>A token without its position.\<close>

definition bare :: "token \<Rightarrow> token" where
  "bare t = mk_token (tok_type t) (tok_value t) (tok_keyword t)"

lemma blank_step:
  "lx_text s = CHR '' '' # cs \<Longrightarrow> lex_loop s acc = lex_loop (lx_advance 1 s) acc"
  by (simp add: lex_loop.simps [of s] lex_step_def)

lemma number_span_blank: "number_span f v = length v \<Longrightarrow> number_span f (v @ CHR '' '' # rest) = length v"
  by (induction f v rule: number_span.induct) (auto simp: digit_char_def split: if_splits)

lemma string_span_plain:
  "q \<notin> set v \<Longrightarrow> backslash \<notin> set v \<Longrightarrow> string_span q (v @ q # rest) = length v"
proof (induction v)
  case Nil
  then show ?case by (cases rest) auto
next
  case (Cons c v)
  then show ?case by (cases "v @ q # rest") auto
qed

lemma word_chars:
  "word_text v \<Longrightarrow> takeWhile ident_char (v @ CHR '' '' # rest) = v"
  by (auto simp: word_text_def list_all_iff ident_char_def alpha_char_def digit_char_def)

text \<open>A character that starts a word or a number starts nothing else.\<close>

lemma ident_char_apart:
  "ident_char c \<Longrightarrow> c \<notin> {CHR '' '', CHR 0x09, CHR 0x0D, newline, CHR ''-'', CHR ''/''} \<union> set single_char_tokens \<union> set quotes"
  by (auto simp: ident_char_def alpha_char_def digit_char_def newline_def quotes_def single_char_tokens_def)

lemma operator_step:
  assumes "v \<in> operators - {''!=''}" and "lx_text s = v @ CHR '' '' # rest"
  shows "lex_step (hd v) s = Inr ([make_token OPERATOR v s], lx_advance (length v) s)"
proof -
  have ops: "operators = {''+'', ''-'', ''*'', ''/'', ''='', ''<'', ''>'', ''('', '')'', '','', '';'', ''.'', ''<='', ''>='', ''!=''}"
    by (simp add: operators_def single_char_tokens_def)
  have "v \<in> operators" "v \<noteq> ''!=''" using assms(1) by auto
  then show ?thesis
    using assms(2) unfolding ops
    by (elim insertE emptyE)
      (simp_all add: lex_step_def lex_operator_def newline_def single_char_tokens_def lx_peek_def numeral_2_eq_2)
qed

lemma printed_step:
  assumes "printable t" and "lx_text s = token_text t @ CHR '' '' # rest"
  obtains c cs t' s' where "lx_text s = c # cs" and "lex_step c s = Inr ([t'], s')" and "bare t' = bare t"
    and "lx_text s' = CHR '' '' # rest"
proof -
  have "tok_type t \<noteq> EOF" "tok_type t \<noteq> PUNCTUATION" using assms(1) by (auto simp: printable_def lexed_def)
  then consider (string) "tok_type t = STRING" | (number) "tok_type t = NUMBER"
    | (word) "tok_type t = KEYWORD \<or> tok_type t = IDENTIFIER" | (operator) "tok_type t = OPERATOR"
    by (cases "tok_type t") auto
  then show ?thesis
  proof cases
    case string
    then have v: "CHR 0x27 \<notin> set (tok_value t)" "backslash \<notin> set (tok_value t)" "tok_keyword t = None"
      using assms(1) by (auto simp: printable_def lexed_def)
    have src: "lx_text s = CHR 0x27 # tok_value t @ CHR 0x27 # CHR '' '' # rest"
      using assms(2) string by (simp add: token_text_def)
    moreover from this have "lex_step (CHR 0x27) s = Inr ([mk_token STRING (tok_value t) None],
        lx_advance 1 (lx_advance (length (tok_value t)) (lx_advance 1 s)))"
      using string_span_plain [OF v(1,2), of "CHR '' '' # rest"]
      by (simp add: lex_step_def newline_def single_char_tokens_def quotes_def digit_char_def read_string_def Let_def
          lx_advance_def)
    ultimately show ?thesis
      by (rule that) (use string v src in \<open>auto simp: bare_def mk_token_def lx_advance_def\<close>)
  next
    case number
    then obtain c cs where v: "tok_value t = c # cs" "digit_char c" "number_span False (c # cs) = length (c # cs)"
        "tok_keyword t = None"
      using assms(1) by (cases "tok_value t") (auto simp: printable_def lexed_def number_text_def)
    then have "ident_char c" by (simp add: ident_char_def)
    then have c: "c \<notin> {CHR '' '', CHR 0x09, CHR 0x0D, newline, CHR ''-'', CHR ''/''} \<union> set single_char_tokens \<union> set quotes"
      by (rule ident_char_apart)
    have src: "lx_text s = (c # cs) @ CHR '' '' # rest" using assms(2) number v by (simp add: token_text_def)
    have "number_span False (lx_text s) = length (c # cs)"
      unfolding src by (rule number_span_blank [OF v(3)])
    then have "read_number s = (mk_token NUMBER (c # cs) None, lx_advance (length (c # cs)) s)"
      by (simp add: read_number_def src del: number_span.simps)
    then have "lex_step c s = Inr ([mk_token NUMBER (c # cs) None], lx_advance (length (c # cs)) s)"
      using c v(2) by (simp add: lex_step_def)
    then show ?thesis
      by (rule that [rotated]) (use src number v in \<open>auto simp: bare_def mk_token_def lx_advance_def\<close>)
  next
    case word
    then have w: "word_text (tok_value t)"
      and k: "tok_keyword t = (if upper (tok_value t) \<in> set keyword_map then Some (upper (tok_value t)) else None)"
        "tok_type t = (if upper (tok_value t) \<in> set keyword_map then KEYWORD else IDENTIFIER)"
      using assms(1) by (auto simp: printable_def lexed_def)
    obtain c cs where v: "tok_value t = c # cs" using w by (cases "tok_value t") (auto simp: word_text_def)
    then have id: "ident_char c" "\<not> digit_char c" using w by (auto simp: word_text_def)
    then have c: "c \<notin> {CHR '' '', CHR 0x09, CHR 0x0D, newline, CHR ''-'', CHR ''/''} \<union> set single_char_tokens \<union> set quotes"
      using ident_char_apart by blast
    have src: "lx_text s = tok_value t @ CHR '' '' # rest" using assms(2) word by (auto simp: token_text_def)
    have "c \<noteq> CHR ''.''" using c by (auto simp: single_char_tokens_def)
    moreover have "alpha_char c \<or> c = CHR ''_''" using id by (auto simp: ident_char_def)
    ultimately have "lex_step c s = (let (t, s') = read_identifier s in Inr ([t], s'))"
      using c id(2) by (auto simp: lex_step_def)
    then have "lex_step c s = Inr ([bare t], lx_advance (length (tok_value t)) s)"
      using k word_chars [OF w, of rest] by (simp add: read_identifier_def src bare_def Let_def)
    then show ?thesis
      by (rule that [rotated]) (use src v in \<open>auto simp: bare_def mk_token_def lx_advance_def\<close>)
  next
    case operator
    then have "tok_value t \<in> operators - {''!=''}" "tok_keyword t = None" using assms(1) by (auto simp: printable_def lexed_def)
    then have step: "lex_step (hd (tok_value t)) s =
        Inr ([make_token OPERATOR (tok_value t) s], lx_advance (length (tok_value t)) s)"
      and v: "tok_value t \<noteq> []"
      using operator_step [of "tok_value t" s rest] assms(2) operator by (auto simp: token_text_def operators_def)
    have "lx_text s = hd (tok_value t) # tl (tok_value t) @ CHR '' '' # rest"
      using v assms(2) operator by (simp add: token_text_def)
    then show ?thesis
      using step by (rule that)
        (use operator v \<open>tok_keyword t = None\<close> assms(2) in \<open>auto simp: token_text_def make_token_def bare_def mk_token_def lx_advance_def\<close>)
  qed
qed

lemma printed_loop:
  assumes "list_all printable ts" and "lx_text s = tokens_text ts"
  shows "\<exists>ts' e. lex_loop s acc = Inr (acc @ ts' @ [e]) \<and> map bare ts' = map bare ts \<and> tok_type e = EOF"
  using assms
proof (induction ts arbitrary: s acc)
  case Nil
  then show ?case by (simp add: lex_loop.simps [of s] tokens_text_def)
next
  case (Cons t ts)
  have "printable t" "lx_text s = token_text t @ CHR '' '' # tokens_text ts" using Cons.prems by (auto simp: tokens_text_def)
  then obtain c cs t' s' where step: "lx_text s = c # cs" "lex_step c s = Inr ([t'], s')" "bare t' = bare t"
      "lx_text s' = CHR '' '' # tokens_text ts"
    by (rule printed_step)
  have "lx_text (lx_advance 1 s') = tokens_text ts" using step(4) by (simp add: lx_advance_def)
  then obtain ts' e where rest: "lex_loop (lx_advance 1 s') (acc @ [t']) = Inr ((acc @ [t']) @ ts' @ [e])"
      "map bare ts' = map bare ts" "tok_type e = EOF"
    using Cons.IH [of "lx_advance 1 s'" "acc @ [t']"] Cons.prems(1) by auto
  have "lex_loop s acc = lex_loop s' (acc @ [t'])" using step by (simp add: lex_loop.simps [of s])
  then have "lex_loop s acc = Inr (acc @ (t' # ts') @ [e])" using blank_step [OF step(4)] rest(1) by simp
  moreover have "map bare (t' # ts') = map bare (t # ts)" using step(3) rest(2) by simp
  ultimately show ?case using rest(3) by blast
qed

text \<open>
  The lexer reads back: the texts of keywords, identifiers, numbers, operators and strings (without
  apostrophe and backslash), each with a blank behind it, give the same tokens up to their positions, and \<^verbatim>\<open>EOF\<close>.
\<close>
theorem lexer_roundtrip:
  "list_all printable ts \<Longrightarrow>
   \<exists>ts' e. tokenize (tokens_text ts) = Inr (ts' @ [e]) \<and> map bare ts' = map bare ts \<and> tok_type e = EOF"
proof -
  assume "list_all printable ts"
  then show ?thesis
    using printed_loop [of ts "\<lparr>lx_text = tokens_text ts, lx_line = 1, lx_column = 1\<rparr>" "[]"] by (simp add: tokenize_def)
qed

text \<open>A line with a comparison, lexed as it is and after printing; \<^verbatim>\<open>!=\<close> has no token.\<close>

definition demo_tokens :: "token list" where
  "demo_tokens =
     [mk_token KEYWORD ''Select'' (Some ''SELECT''), mk_token IDENTIFIER ''a_1'' None, mk_token OPERATOR ''<='' None,
      mk_token NUMBER ''10.5'' None, mk_token OPERATOR ''('' None, mk_token STRING ''x y'' None]"

theorem lexer_tokens_witness:
  "tokenize ''a != 1'' = Inl SyntaxErr \<and>
   (\<exists>ts. tokenize ''select count(*) -- all'' = Inr ts \<and> tok_type (last ts) = EOF \<and>
      map tok_value ts = [''select'', ''count'', ''('', ''*'', '')'', []] \<and>
      (\<forall>t \<in> set ts. tok_type t \<noteq> PUNCTUATION))"
proof -
  have "isl (tokenize ''select count(*) -- all'') = False" by code_simp
  then obtain ts where ts: "tokenize ''select count(*) -- all'' = Inr ts"
    by (cases "tokenize ''select count(*) -- all''") auto
  moreover have "map tok_value (projr (tokenize ''select count(*) -- all'')) = [''select'', ''count'', ''('', ''*'', '')'', []]"
    by code_simp
  moreover have "tokenize ''a != 1'' = Inl SyntaxErr" by code_simp
  ultimately show ?thesis using lexer_tokens [OF ts] by auto
qed

theorem lexer_roundtrip_witness:
  "\<exists>ts' e. tokenize (tokens_text demo_tokens) = Inr (ts' @ [e]) \<and> map bare ts' = map bare demo_tokens \<and>
     tok_type e = EOF"
proof -
  have "list_all printable demo_tokens"
    by (simp add: demo_tokens_def printable_def lexed_def mk_token_def keyword_map_def number_text_def word_text_def
        operators_def single_char_tokens_def ident_char_def alpha_char_def digit_char_def backslash_def upper_def
        upper_char_def Let_def) code_simp
  then show ?thesis by (rule lexer_roundtrip)
qed

end
