(* ===== verification/SqlParser_Facts.thy ===== *)
theory SqlParser_Facts
  imports SqlParser SqlLexer_Facts
begin

text \<open>
  Facts about the SQL parser: it ends and its guards are never hit; what it can make of the texts that the
  lexer accepts; and it reads back the tokens of expressions.
\<close>

section \<open>Parsers that take tokens\<close>

text \<open>
  Two parsers are alike on inputs of up to \<open>n\<close> tokens: they do the same, leave at most the tokens they got, less
  one if \<open>b\<close> holds, and do not raise the exception of a guard.
\<close>

definition alike :: "bool \<Rightarrow> nat \<Rightarrow> 'a parser \<Rightarrow> 'a parser \<Rightarrow> bool" where
  "alike b n p q \<longleftrightarrow>
     (\<forall>ts. length ts \<le> n \<longrightarrow>
        p ts = q ts \<and> (\<forall>x ts'. p ts = (Inr x, ts') \<longrightarrow> length ts' + of_bool b \<le> length ts) \<and>
        fst (p ts) \<noteq> Inl RuntimeError)"

lemma alikeI:
  "(\<And>ts. length ts \<le> n \<Longrightarrow> p ts = q ts) \<Longrightarrow>
   (\<And>ts x ts'. length ts \<le> n \<Longrightarrow> p ts = (Inr x, ts') \<Longrightarrow> length ts' + of_bool b \<le> length ts) \<Longrightarrow>
   (\<And>ts. length ts \<le> n \<Longrightarrow> fst (p ts) \<noteq> Inl RuntimeError) \<Longrightarrow> alike b n p q"
  by (simp add: alike_def)

lemma alikeD:
  "alike b n p q \<Longrightarrow> length ts \<le> n \<Longrightarrow> p ts = q ts"
  "alike b n p q \<Longrightarrow> length ts \<le> n \<Longrightarrow> p ts = (Inr x, ts') \<Longrightarrow> length ts' + of_bool b \<le> length ts"
  "alike b n p q \<Longrightarrow> length ts \<le> n \<Longrightarrow> fst (p ts) \<noteq> Inl RuntimeError"
  by (auto simp: alike_def)

lemma alike_flag: "alike c n p q \<Longrightarrow> (b \<longrightarrow> c) \<Longrightarrow> alike b n p q"
  by (fastforce simp: alike_def)

lemma alike_bound: "alike b m p q \<Longrightarrow> n \<le> m \<Longrightarrow> alike b n p q"
  unfolding alike_def by (meson order_trans)

lemma alike_bind:
  assumes "alike b n p q" and "\<And>x. alike c (n - of_bool b) (f x) (g x)"
  shows "alike (b \<or> c) n (st_bind p f) (st_bind q g)"
proof (rule alikeI)
  fix ts :: "token list"
  assume ts: "length ts \<le> n"
  have rest: "length ts' \<le> n - of_bool b" if "p ts = (Inr x, ts')" for x ts'
    using alikeD(2) [OF assms(1) ts that] ts by simp
  show "st_bind p f ts = st_bind q g ts"
    using alikeD(1) [OF assms(1) ts] alikeD(1) [OF assms(2) rest]
    by (auto simp: st_bind_def split: prod.split sum.split)
  show "fst (st_bind p f ts) \<noteq> Inl RuntimeError"
    using alikeD(3) [OF assms(1) ts] alikeD(3) [OF assms(2) rest]
    by (auto simp: st_bind_def split: prod.split sum.split)
  fix y ts''
  assume "st_bind p f ts = (Inr y, ts'')"
  then obtain x ts' where x: "p ts = (Inr x, ts')" and y: "f x ts' = (Inr y, ts'')"
    by (auto simp: st_bind_def split: prod.splits sum.splits)
  show "length ts'' + of_bool (b \<or> c) \<le> length ts"
    using alikeD(2) [OF assms(1) ts x] alikeD(2) [OF assms(2) rest [OF x] y] by (auto split: if_splits)
qed

lemma alike_basic:
  "alike False n (st_return x) (st_return x)"
  "e \<noteq> RuntimeError \<Longrightarrow> alike True n (st_raise e) (st_raise e)"
  "r \<noteq> Inl RuntimeError \<Longrightarrow> alike False n (st_result r) (st_result r)"
  "alike True n p_advance p_advance"
  "alike True n (p_expect ty v) (p_expect ty v)"
  "alike True n (expect_keyword k) (expect_keyword k)"
  "alike False n (maybe_keyword k) (maybe_keyword k)"
proof -
  have shorter: "length ts' + 1 \<le> length ts" if "p_advance ts = (Inr x, ts')" for ts x ts'
    using that by (cases ts) auto
  moreover have "fst (p_advance ts) \<noteq> Inl RuntimeError" for ts by (cases ts) auto
  ultimately show "alike True n p_advance p_advance" "alike True n (p_expect ty v) (p_expect ty v)"
    "alike True n (expect_keyword k) (expect_keyword k)"
    by (auto simp: alike_def p_expect_def expect_keyword_def split: if_splits)
qed (auto simp: alike_def maybe_keyword_def split: if_splits)

lemma alike_if:
  "alike b n p q \<Longrightarrow> alike c n p' q' \<Longrightarrow> alike (b \<and> c) n (p_if cond p p') (p_if cond q q')"
  "alike b n p q \<Longrightarrow> alike c n p' q' \<Longrightarrow> alike (b \<and> c) n (if z then p else p') (if z then q else q')"
  by (fastforce simp: alike_def p_if_def)+

lemma alike_case: "(\<And>a b. alike c n (f a b) (g a b)) \<Longrightarrow> alike c n (case_prod f z) (case_prod g z)"
  by (simp add: split_beta)

lemma alike_keyword:
  assumes "alike b (n - 1) p q" and "alike c n p' q'"
  shows "alike c n (if_keyword k p p') (if_keyword k q q')"
proof (rule alikeI)
  fix ts :: "token list"
  assume ts: "length ts \<le> n"
  have tl: "length (tl ts) \<le> n - 1" "is_keyword k ts \<Longrightarrow> length (tl ts) + 1 \<le> length ts"
    using ts is_keyword_rest [of k ts] by auto
  show "if_keyword k p p' ts = if_keyword k q q' ts"
    using alikeD(1) [OF assms(1) tl(1)] alikeD(1) [OF assms(2) ts]
    by (simp add: if_keyword_def maybe_keyword_def st_bind_def)
  show "fst (if_keyword k p p' ts) \<noteq> Inl RuntimeError"
    using alikeD(3) [OF assms(1) tl(1)] alikeD(3) [OF assms(2) ts]
    by (simp add: if_keyword_def maybe_keyword_def st_bind_def)
  fix x ts'
  assume "if_keyword k p p' ts = (Inr x, ts')"
  then show "length ts' + of_bool c \<le> length ts"
    using alikeD(2) [OF assms(1) tl(1)] alikeD(2) [OF assms(2) ts] tl(2)
    by (fastforce simp: if_keyword_def maybe_keyword_def st_bind_def split: if_splits)
qed

lemma alike_while:
  assumes "\<And>x. alike c n (body x) (body' x)" and "c = True"
  shows "alike False n (p_while cond body x) (p_while cond body' x)"
proof (rule alikeI)
  fix ts :: "token list"
  assume "length ts \<le> n"
  then show "p_while cond body x ts = p_while cond body' x ts"
  proof (induction "length ts" arbitrary: x ts rule: less_induct)
    case less
    have same: "body x ts = body' x ts" using alikeD(1) [OF assms(1) less.prems] .
    have "p_while cond body y ts' = p_while cond body' y ts'" if "length ts' < length ts" for y ts'
      using less that by simp
    then show ?case
      by (simp add: p_while.simps [of _ _ x ts] same split: prod.split sum.split)
  qed
next
  fix ts y ts'
  assume "length ts \<le> n" "p_while cond body x ts = (Inr y, ts')"
  then show "length ts' + of_bool False \<le> length ts"
  proof (induction "length ts" arbitrary: x ts rule: less_induct)
    case less
    show ?case
    proof (cases "cond ts")
      case True
      then obtain z ts1 where "body x ts = (Inr z, ts1)" "length ts1 < length ts" "p_while cond body z ts1 = (Inr y, ts')"
        using less.prems(2) by (auto simp: p_while.simps [of _ _ x ts] split: prod.splits sum.splits if_splits)
      then show ?thesis using less.hyps [of ts1 z] less.prems(1) by simp
    qed (use less.prems(2) in \<open>simp add: p_while.simps [of _ _ x ts]\<close>)
  qed
next
  fix ts :: "token list"
  assume "length ts \<le> n"
  then show "fst (p_while cond body x ts) \<noteq> Inl RuntimeError"
  proof (induction "length ts" arbitrary: x ts rule: less_induct)
    case less
    have "fst (body x ts) \<noteq> Inl RuntimeError" using alikeD(3) [OF assms(1) less.prems] .
    moreover have "length ts' < length ts" if "body x ts = (Inr y, ts')" for y ts'
      using alikeD(2) [OF assms(1) less.prems that] assms(2) by simp
    ultimately show ?case
      using less.hyps less.prems
      by (auto simp: p_while.simps [of _ _ x ts] split: prod.split sum.split)
  qed
qed

text \<open>
  \<open>pe\<close> is asked only behind the first token.  The flags and bounds of the parts are computed on the way; the
  bounds are checked at the end.
\<close>

lemmas alike_intros = alike_basic alike_case alike_keyword alike_if alike_while alike_bind

lemma alike_comma_list:
  assumes "alike b n p q"
  shows "alike b n (comma_list p) (comma_list q)"
  unfolding comma_list_def
  by (rule alike_flag, (rule alike_intros alike_bound [OF assms] | (simp; fail))+)

lemma alike_parens:
  assumes "alike b (n - 1) p q"
  shows "alike True n (parens p) (parens q)"
  unfolding parens_def
  by (rule alike_flag, (rule alike_intros alike_bound [OF assms] | (simp; fail))+)

lemma alike_clause:
  assumes "alike b (n - 1) p q"
  shows "alike False n (clause k p) (clause k q)"
  unfolding clause_def
  by (rule alike_flag, (rule alike_intros alike_bound [OF assms] | (simp; fail))+)

lemma alike_by_clause:
  assumes "alike b (n - 1) p q"
  shows "alike False n (by_clause k p) (by_clause k q)"
  unfolding by_clause_def
  by (rule alike_flag, (rule alike_intros alike_bound [OF assms] | (simp; fail))+)

lemmas alike_parts = alike_intros alike_comma_list alike_parens alike_clause alike_by_clause

lemma int_of_text_error: "int_of_text s \<noteq> Inl RuntimeError"
  by (simp add: int_of_text_def Let_def split: prod.split)

lemma alike_leaves:
  "alike True n p_ident p_ident"
  "alike False n parse_from parse_from"
  "alike True n parse_count parse_count"
  "alike False n join_side join_side"
  "alike True n (parse_literal fl) (parse_literal fl)"
proof -
  note rules = alike_parts
  show ident: "alike True n p_ident p_ident" for n
    unfolding p_ident_def by (rule alike_flag, (rule rules | (simp; fail))+)
  show "alike False n parse_from parse_from"
    unfolding parse_from_def by (rule alike_flag, (rule rules ident | (simp; fail))+)
  show "alike True n parse_count parse_count"
    unfolding parse_count_def by (rule alike_flag, (rule rules int_of_text_error | (simp; fail))+)
  show "alike False n join_side join_side"
    unfolding join_side_def by (rule alike_flag, (rule rules | (simp; fail))+)
  show "alike True n (parse_literal fl) (parse_literal fl)"
    unfolding parse_literal_def by (rule alike_flag, (rule rules int_of_text_error | (simp; fail))+)
qed

text \<open>The parsers around expressions.\<close>

lemma alike_around:
  assumes "alike True n pe pe'"
  shows "alike True n (select_column pe) (select_column pe')"
    and "alike True n (parse_select_columns pe) (parse_select_columns pe')"
    and "alike True n (parse_join pe) (parse_join pe')"
    and "alike True n (parse_order_by pe) (parse_order_by pe')"
    and "alike True n (parse_expression_list pe) (parse_expression_list pe')"
proof -
  note rules = alike_parts alike_leaves alike_bound [OF assms]
  show column: "alike True n (select_column pe) (select_column pe')"
    unfolding select_column_def by (rule alike_flag, (rule rules | (simp; fail))+)
  show "alike True n (parse_select_columns pe) (parse_select_columns pe')"
    unfolding parse_select_columns_def using column by (rule alike_comma_list)
  show "alike True n (parse_join pe) (parse_join pe')"
    unfolding parse_join_def by (rule alike_flag, (rule rules | (simp; fail))+)
  show "alike True n (parse_order_by pe) (parse_order_by pe')"
    unfolding parse_order_by_def order_item_def by (rule alike_flag, (rule rules | (simp; fail))+)
  show "alike True n (parse_expression_list pe) (parse_expression_list pe')"
    unfolding parse_expression_list_def using assms by (rule alike_comma_list)
qed

lemma alike_behind:
  assumes "alike True (n - 1) pe pe'"
  shows "alike True n (parse_select pe) (parse_select pe')"
    and "alike True n (parse_function_call pe None) (parse_function_call pe' None)"
    and "alike True (n - 1) (parse_function_call pe (Some f)) (parse_function_call pe' (Some f))"
    and "alike True n (parse_case pe) (parse_case pe')"
    and "alike True n (parse_column_ref pe) (parse_column_ref pe')"
proof -
  note rules = alike_around alike_parts alike_leaves alike_bound [OF assms]
  show "alike True n (parse_select pe) (parse_select pe')"
    unfolding parse_select_def by (rule alike_flag, (rule rules | (simp; fail))+)
  have call: "alike True m (parse_function_call pe (Some f)) (parse_function_call pe' (Some f))" if "m \<le> n - 1" for f m
    unfolding parse_function_call_def option.case by (rule alike_flag, (rule rules | (use that in simp; fail))+)
  then show "alike True (n - 1) (parse_function_call pe (Some f)) (parse_function_call pe' (Some f))" by simp
  show "alike True n (parse_function_call pe None) (parse_function_call pe' None)"
    unfolding parse_function_call_def option.case by (rule alike_flag, (rule rules | (simp; fail))+)
  show "alike True n (parse_case pe) (parse_case pe')"
    unfolding parse_case_def by (rule alike_flag, (rule rules | (simp; fail))+)
  show "alike True n (parse_column_ref pe) (parse_column_ref pe')"
    unfolding parse_column_ref_def Let_def by (rule alike_flag, (rule rules call | (simp; fail))+)
qed

lemma alike_recursion:
  assumes "alike True n p q"
    and "\<And>ts. f ts = (if cond ts then st_bind (\<lambda>_. f (tl ts)) g (tl ts) else p ts)"
    and "\<And>ts. f' ts = (if cond ts then st_bind (\<lambda>_. f' (tl ts)) g (tl ts) else q ts)"
    and "\<And>x. alike False n (g x) (g x)" and "\<And>ts. cond ts \<Longrightarrow> length (tl ts) < length ts"
  shows "alike True n f f'"
proof -
  have "f ts = f' ts \<and> (\<forall>x ts'. f ts = (Inr x, ts') \<longrightarrow> length ts' + 1 \<le> length ts) \<and> fst (f ts) \<noteq> Inl RuntimeError"
    if "length ts \<le> n" for ts
    using that
  proof (induction "length ts" arbitrary: ts rule: less_induct)
    case less
    show ?case
    proof (cases "cond ts")
      case True
      then obtain us where us: "tl ts = us" "length us < length ts" using assms(5) by blast
      then have "length us \<le> n" using less.prems by linarith
      note IH = less.hyps [OF us(2) this]
      show ?thesis
      proof (cases "f us")
        case (Pair res ts')
        have run: "f ts = st_bind (\<lambda>_. f us) g us" "f' ts = st_bind (\<lambda>_. f us) g us"
          using IH True us(1) by (simp_all add: assms(2,3) [of ts])
        show ?thesis
        proof (cases res)
          case (Inr x)
          then have len: "length ts' + 1 \<le> length us" using IH Pair by simp
          then have "length ts' \<le> n" using \<open>length us \<le> n\<close> by linarith
          then have "fst (g x ts') \<noteq> Inl RuntimeError"
            and "\<And>y ts''. g x ts' = (Inr y, ts'') \<Longrightarrow> length ts'' \<le> length ts'"
            using alikeD(2,3) [OF assms(4)] by fastforce+
          then show ?thesis using Pair Inr us(2) len by (fastforce simp: run)
        next
          case (Inl a)
          then have "f us = (Inl a, ts')" "a \<noteq> RuntimeError" using IH Pair by auto
          then show ?thesis unfolding run st_bind_def by simp
        qed
      qed
    next
      case False
      then show ?thesis using alikeD [OF assms(1) less.prems] by (auto simp: assms(2,3) [of ts])
    qed
  qed
  then show ?thesis unfolding alike_def of_bool_eq by blast
qed

lemma alike_binary:
  assumes "alike True n p q"
  shows "alike True n (binary_loop at oper p) (binary_loop at oper q)"
  unfolding binary_loop_def by (rule alike_flag, (rule alike_parts alike_bound [OF assms] | (simp; fail))+)

lemma alike_expression:
  assumes "alike True (n - 1) pe pe'"
  shows "alike True n (parse_or fl pe) (parse_or fl pe')"
proof -
  note rules = alike_behind alike_around alike_parts alike_leaves alike_bound [OF assms]
  have exists: "alike True n (parse_exists pe) (parse_exists pe')"
  proof -
    have "alike True (n - 1) (parse_select pe) (parse_select pe')"
      by (rule alike_behind(1), rule alike_bound [OF assms], rule diff_le_self)
    then have "alike True (n - 1 - 1) (parse_select pe) (parse_select pe')" by (rule alike_bound) simp
    note parens = alike_bound [OF alike_parens [OF this]]
    show ?thesis
      unfolding parse_exists_def by (rule alike_flag, (rule alike_basic alike_bind parens | (simp; fail))+)
  qed
  have primary: "alike True n (parse_primary fl pe) (parse_primary fl pe')"
    unfolding parse_primary_def by (rule alike_flag, (rule exists rules | (simp; fail))+)
  have unary: "alike True n (parse_unary fl pe) (parse_unary fl pe')"
    by (rule alike_recursion [OF primary parse_unary.simps parse_unary.simps alike_basic(1)])
      (auto dest: is_token_rest)
  have mult: "alike True n (parse_multiplication fl pe) (parse_multiplication fl pe')"
    unfolding parse_multiplication_def by (rule alike_binary [OF unary])
  have add: "alike True n (parse_addition fl pe) (parse_addition fl pe')"
    unfolding parse_addition_def by (rule alike_binary [OF mult])
  have "alike False n (comparison_tail fl pe e) (comparison_tail fl pe' e)" for e
    unfolding comparison_tail_def by (rule alike_flag, (rule rules alike_bound [OF add] | (simp; fail))+)
  then have "alike False m (comparison_tail fl pe e) (comparison_tail fl pe' e)" if "m \<le> n" for e m
    using that by (rule alike_bound)
  note tail = this
  have comparison: "alike True n (parse_comparison fl pe) (parse_comparison fl pe')"
    unfolding parse_comparison_def by (rule alike_flag, (rule alike_bind add tail | (simp; fail))+)
  have negation: "alike True n (parse_not fl pe) (parse_not fl pe')"
    by (rule alike_recursion [OF comparison parse_not.simps parse_not.simps alike_basic(1)])
      (auto dest: is_keyword_rest)
  show ?thesis
    unfolding parse_or_def parse_and_def by (intro alike_binary negation)
qed

text \<open>The guard of \<^const>\<open>parse_expression\<close> is never hit.\<close>

lemma parse_or_empty: "parse_or fl pe [] = (Inl SyntaxErr, [])"
  by (simp add: parse_or_def parse_and_def parse_not.simps [of fl pe "[]"] parse_comparison_def parse_addition_def
      parse_multiplication_def parse_unary.simps [of fl pe "[]"] parse_primary_def binary_loop_def p_if_def st_bind_def
      is_keyword_def is_token_def at_keyword_def mk_token_def)

lemma alike_knot:
  "alike True n (parse_expression fl :: 'o expr parser) (parse_or fl (parse_expression fl))"
proof (induction n)
  case 0
  have "(parse_expression fl :: 'o expr parser) [] = (Inl SyntaxErr, [])"
    by (subst parse_expression.simps) (rule parse_or_empty)
  then show ?case by (simp add: alike_def parse_or_empty)
next
  case (Suc n)
  have "(parse_expression fl :: 'o expr parser) ts = parse_or fl (parse_expression fl) ts \<and>
      (\<forall>x ts'. (parse_expression fl :: 'o expr parser) ts = (Inr x, ts') \<longrightarrow> length ts' + 1 \<le> length ts) \<and>
      fst ((parse_expression fl :: 'o expr parser) ts) \<noteq> Inl RuntimeError"
    if ts: "length ts = Suc n" for ts :: "token list"
  proof -
    define guarded :: "'o expr parser" where
      "guarded ts' = (if length ts' < length ts then parse_expression fl ts' else (Inl RuntimeError, ts'))" for ts'
    have "alike True n guarded (parse_expression fl)"
      using Suc by (fastforce simp: alike_def guarded_def ts)
    then have "alike True (Suc n) (parse_or fl guarded) (parse_or fl (parse_expression fl))"
      by (intro alike_expression) simp
    then have "parse_or fl guarded ts = parse_or fl (parse_expression fl :: 'o expr parser) ts"
      "\<And>x ts'. parse_or fl guarded ts = (Inr x, ts') \<Longrightarrow> length ts' + 1 \<le> length ts"
      "fst (parse_or fl guarded ts) \<noteq> Inl RuntimeError"
      using alikeD [of True "Suc n" "parse_or fl guarded" _ ts] ts by fastforce+
    moreover have "(parse_expression fl :: 'o expr parser) ts = parse_or fl guarded ts"
      by (subst parse_expression.simps) (simp add: guarded_def [abs_def])
    ultimately show ?thesis by metis
  qed
  with Suc show ?case unfolding alike_def of_bool_eq by (metis le_Suc_eq)
qed

text \<open>
  C9. Parsing an expression always ends, and is the recursive descent of the code: \<^verbatim>\<open>_parse_expression\<close> is
  \<^verbatim>\<open>_parse_or\<close> over itself, without any bound on the nesting.  An expression that is parsed takes at least one
  token, and what is left is not longer than the rest.
\<close>
theorem expression_descent:
  "(parse_expression fl :: 'o expr parser) ts = parse_or fl (parse_expression fl) ts \<and>
   (case (parse_expression fl :: 'o expr parser) ts of
      (Inr e, ts') \<Rightarrow> length ts' < length ts | (Inl err, ts') \<Rightarrow> err \<noteq> RuntimeError)"
proof (intro conjI)
  show "(parse_expression fl :: 'o expr parser) ts = parse_or fl (parse_expression fl) ts"
    using alikeD(1) [OF alike_knot order_refl] .
  obtain res us where run: "(parse_expression fl :: 'o expr parser) ts = (res, us)" by fastforce
  then show "case (parse_expression fl :: 'o expr parser) ts of
      (Inr e, ts') \<Rightarrow> length ts' < length ts | (Inl err, ts') \<Rightarrow> err \<noteq> RuntimeError"
    using alikeD(2,3) [OF alike_knot [where 'o = 'o] order_refl, of fl ts] unfolding run by (cases res) force+
qed

section \<open>What texts can say\<close>

text \<open>
  The lexer has no punctuation for the parser.  A parser yields results with a property from tokens that are
  plain in this sense.
\<close>

definition plain :: "token \<Rightarrow> bool" where
  "plain t \<longleftrightarrow> tok_type t \<noteq> PUNCTUATION"

definition yields :: "('a \<Rightarrow> bool) \<Rightarrow> 'a parser \<Rightarrow> bool" where
  "yields P p \<longleftrightarrow> (\<forall>ts x ts'. list_all plain ts \<longrightarrow> p ts = (Inr x, ts') \<longrightarrow> P x \<and> list_all plain ts')"

lemma yieldsI: "(\<And>ts x ts'. list_all plain ts \<Longrightarrow> p ts = (Inr x, ts') \<Longrightarrow> P x \<and> list_all plain ts') \<Longrightarrow> yields P p"
  by (simp add: yields_def)

lemma yieldsD: "yields P p \<Longrightarrow> list_all plain ts \<Longrightarrow> p ts = (Inr x, ts') \<Longrightarrow> P x \<and> list_all plain ts'"
  by (simp add: yields_def)

lemma yields_weaken: "yields Q p \<Longrightarrow> (\<And>x. Q x \<Longrightarrow> P x) \<Longrightarrow> yields P p"
  by (auto simp: yields_def)

lemma plain_tl: "list_all plain ts \<Longrightarrow> list_all plain (tl ts)"
  by (cases ts) auto

lemma not_punctuation: "list_all plain ts \<Longrightarrow> \<not> is_token PUNCTUATION v ts"
  by (cases ts) (auto simp: is_token_def plain_def mk_token_def)

lemma yields_bind:
  assumes "yields Q p" and "\<And>x. Q x \<Longrightarrow> yields P (f x)"
  shows "yields P (st_bind p f)"
proof (rule yieldsI)
  fix ts y ts''
  assume ts: "list_all plain ts" and "st_bind p f ts = (Inr y, ts'')"
  then obtain x ts' where x: "p ts = (Inr x, ts')" and y: "f x ts' = (Inr y, ts'')"
    by (auto simp: st_bind_def split: prod.splits sum.splits)
  have "Q x" "list_all plain ts'" using yieldsD [OF assms(1) ts x] by auto
  then show "P y \<and> list_all plain ts''" using yieldsD [OF assms(2) _ y] by simp
qed

lemma yields_return: "P x \<Longrightarrow> yields P (st_return x)"
  by (simp add: yields_def)

lemma yields_raise: "yields P (st_raise e)"
  by (simp add: yields_def)

lemma yields_result: "yields (\<lambda>_. True) (st_result r)"
  by (simp add: yields_def)

lemma yields_advance: "yields (\<lambda>_. True) p_advance"
proof (rule yieldsI)
  fix ts x ts'
  assume "list_all plain ts" "p_advance ts = (Inr x, ts')"
  then show "True \<and> list_all plain ts'" by (cases ts) auto
qed

lemma yields_tokens:
  "yields P (p_expect PUNCTUATION v)"
  "yields (\<lambda>_. True) (p_expect ty v)"
  "yields (\<lambda>_. True) (expect_keyword k)"
  "yields (\<lambda>_. True) (maybe_keyword k)"
proof -
  show "yields P (p_expect PUNCTUATION v)"
  proof (rule yieldsI)
    fix ts x ts'
    assume "list_all plain ts" "p_expect PUNCTUATION v ts = (Inr x, ts')"
    then show "P x \<and> list_all plain ts'" by (cases ts) (auto simp: p_expect_def plain_def mk_token_def)
  qed
  show "yields (\<lambda>_. True) (p_expect ty v)" "yields (\<lambda>_. True) (expect_keyword k)"
    using yields_advance by (auto simp: yields_def p_expect_def expect_keyword_def split: if_splits)
  show "yields (\<lambda>_. True) (maybe_keyword k)"
    by (auto simp: yields_def maybe_keyword_def plain_tl split: if_splits)
qed

lemma yields_if: "yields P p \<Longrightarrow> yields P q \<Longrightarrow> yields P (p_if cond p q)"
  "yields P q \<Longrightarrow> yields P (p_if (is_token PUNCTUATION v) p q)"
  "(z \<Longrightarrow> yields P p) \<Longrightarrow> (\<not> z \<Longrightarrow> yields P q) \<Longrightarrow> yields P (if z then p else q)"
proof -
  show both: "yields P (p_if cond p q)" if "yields P p" "yields P q" for cond
    by (rule yieldsI) (metis that p_if_def yieldsD)
  show "yields P (p_if (is_token PUNCTUATION v) p q)" if "yields P q"
    by (rule yieldsI) (metis that not_punctuation p_if_def yieldsD)
qed simp

lemma yields_keyword: "yields P p \<Longrightarrow> yields P q \<Longrightarrow> yields P (if_keyword k p q)"
  unfolding if_keyword_def by (rule yields_bind [OF yields_tokens(4)]) simp

lemma yields_case: "(\<And>a b. z = (a, b) \<Longrightarrow> yields P (f a b)) \<Longrightarrow> yields P (case_prod f z)"
  by (cases z) simp

lemma yields_while:
  assumes "P x" and "\<And>x. P x \<Longrightarrow> yields P (body x)"
  shows "yields P (p_while cond body x)"
proof (rule yieldsI)
  fix ts y ts'
  assume "list_all plain ts" "p_while cond body x ts = (Inr y, ts')"
  then show "P y \<and> list_all plain ts'"
    using assms(1)
  proof (induction "length ts" arbitrary: x ts rule: less_induct)
    case less
    show ?case
    proof (cases "cond ts")
      case True
      then obtain z ts1 where body: "body x ts = (Inr z, ts1)" and "length ts1 < length ts"
          "p_while cond body z ts1 = (Inr y, ts')"
        using less.prems(2) by (auto simp: p_while.simps [of _ _ x ts] split: prod.splits sum.splits if_splits)
      then show ?thesis
        using less.hyps yieldsD [OF assms(2) [OF less.prems(3)] less.prems(1) body] by blast
    qed (use less.prems in \<open>simp add: p_while.simps [of _ _ x ts]\<close>)
  qed
qed

lemma yields_comma_list: "yields P p \<Longrightarrow> yields (\<lambda>xs. length xs = 1 \<and> list_all P xs) (comma_list p)"
  unfolding comma_list_def
proof (erule yields_bind, rule yieldsI)
  fix x ts y ts'
  assume "P x" "list_all plain ts"
    "p_while (is_token PUNCTUATION '','') (\<lambda>xs. st_bind p_advance (\<lambda>_. st_bind p (\<lambda>y. st_return (xs @ [y])))) [x] ts =
       (Inr y, ts')"
  then show "(length y = 1 \<and> list_all P y) \<and> list_all plain ts'"
    using not_punctuation [of ts "'',''"] by (auto simp: p_while.simps [of _ _ "[x]" ts])
qed

lemma yields_parens: "yields P (parens p)"
  unfolding parens_def by (rule yields_bind [OF yields_tokens(1) [of "\<lambda>_. False"]]) simp

lemma yields_clause: "yields P p \<Longrightarrow> yields (pred_option P) (clause k p)"
  unfolding clause_def by (intro yields_keyword yields_bind [of P p] yields_return) auto

lemma yields_by_clause: "yields P p \<Longrightarrow> P [] \<Longrightarrow> yields P (by_clause k p)"
  unfolding by_clause_def by (intro yields_keyword yields_bind [OF yields_tokens(3)] yields_return)

text \<open>Expressions and queries without lists, calls, prefixes and parentheses.\<close>

fun flat_expr :: "'o expr \<Rightarrow> bool" and flat_select :: "'o select_stmt \<Rightarrow> bool"
  and flat_join :: "'o join_clause \<Rightarrow> bool" and flat_order :: "'o order_item \<Rightarrow> bool" where
  "flat_expr (LiteralExpr _) \<longleftrightarrow> True"
| "flat_expr (ColumnExpr _ table) \<longleftrightarrow> table = None"
| "flat_expr (BinaryExpr _ l r) \<longleftrightarrow> flat_expr l \<and> flat_expr r"
| "flat_expr (UnaryExpr _ e) \<longleftrightarrow> flat_expr e"
| "flat_expr (FunctionExpr _ _ _) \<longleftrightarrow> False"
| "flat_expr (BetweenExpr e l h) \<longleftrightarrow> flat_expr e \<and> flat_expr l \<and> flat_expr h"
| "flat_expr (InExpr _ _) \<longleftrightarrow> False"
| "flat_expr (LikeExpr e p) \<longleftrightarrow> flat_expr e \<and> flat_expr p"
| "flat_expr (CaseExpr cs rs d) \<longleftrightarrow> list_all flat_expr cs \<and> list_all flat_expr rs \<and> pred_option flat_expr d"
| "flat_expr (StarExpr table) \<longleftrightarrow> table = None"
| "flat_expr (SubqueryExpr s) \<longleftrightarrow> flat_select s"
| "flat_select (SelectStmt columns _ _ joins cond groups having order _ _ _) \<longleftrightarrow>
     length columns = 1 \<and> list_all flat_expr columns \<and> list_all flat_join joins \<and> pred_option flat_expr cond \<and>
     length groups \<le> 1 \<and> list_all flat_expr groups \<and> pred_option flat_expr having \<and>
     length order \<le> 1 \<and> list_all flat_order order"
| "flat_join (JoinClause _ _ _ on) \<longleftrightarrow> pred_option flat_expr on"
| "flat_order (OrderByItem e _) \<longleftrightarrow> flat_expr e"

lemmas yields_intros = yields_return yields_raise yields_result yields_case yields_keyword yields_if(1,3) yields_while
  yields_parens

lemma yields_leaves:
  "yields (\<lambda>_. True) p_ident"
  "yields (\<lambda>_. True) parse_from"
  "yields (\<lambda>_. True) parse_count"
  "yields (\<lambda>_. True) join_side"
  "yields flat_expr (parse_literal fl)"
proof -
  note rules = yields_advance yields_tokens(2-) yields_intros yields_bind
  show ident: "yields (\<lambda>_. True) p_ident"
    unfolding p_ident_def by (rule rules | (simp; fail))+
  show "yields (\<lambda>_. True) parse_from"
    unfolding parse_from_def by (rule ident rules | (simp; fail))+
  show "yields (\<lambda>_. True) parse_count"
    unfolding parse_count_def by (rule rules | (simp; fail))+
  show "yields (\<lambda>_. True) join_side"
    unfolding join_side_def by (rule rules | (simp; fail))+
  show "yields flat_expr (parse_literal fl)"
    unfolding parse_literal_def by (rule rules | (simp; fail))+
qed

lemma yields_around:
  assumes pe: "yields flat_expr pe"
  shows "yields (\<lambda>es. length es = 1 \<and> list_all flat_expr es) (parse_select_columns pe)"
    and "yields flat_join (parse_join pe)"
    and "yields (\<lambda>is. length is = 1 \<and> list_all flat_order is) (parse_order_by pe)"
    and "yields (\<lambda>es. length es = 1 \<and> list_all flat_expr es) (parse_expression_list pe)"
proof -
  note rules = pe yields_leaves yields_advance yields_tokens(2-) yields_clause [OF pe] yields_clause [OF yields_leaves(1)]
    yields_intros yields_bind
  have "yields flat_expr (select_column pe)"
    unfolding select_column_def by (rule rules | (simp; fail))+
  then show "yields (\<lambda>es. length es = 1 \<and> list_all flat_expr es) (parse_select_columns pe)"
    unfolding parse_select_columns_def by (rule yields_comma_list)
  show "yields flat_join (parse_join pe)"
    unfolding parse_join_def by (rule rules | (simp; fail))+
  have "yields flat_order (order_item pe)"
    unfolding order_item_def by (rule rules | (simp; fail))+
  then show "yields (\<lambda>is. length is = 1 \<and> list_all flat_order is) (parse_order_by pe)"
    unfolding parse_order_by_def by (rule yields_comma_list)
  show "yields (\<lambda>es. length es = 1 \<and> list_all flat_expr es) (parse_expression_list pe)"
    unfolding parse_expression_list_def using pe by (rule yields_comma_list)
qed

lemma yields_select:
  assumes pe: "yields flat_expr pe"
  shows "yields flat_select (parse_select pe)"
proof -
  have joins: "yields (list_all flat_join) (p_while at_join (\<lambda>js. st_bind (parse_join pe) (\<lambda>j. st_return (js @ [j]))) [])"
    by (rule yields_while yields_bind yields_around [OF pe] yields_return | (simp; fail))+
  have groups: "yields (\<lambda>es. length es \<le> 1 \<and> list_all flat_expr es) (by_clause k (parse_expression_list pe))" for k
    by (rule yields_by_clause, rule yields_weaken [OF yields_around(4) [OF pe]]) auto
  have order: "yields (\<lambda>es. length es \<le> 1 \<and> list_all flat_order es) (by_clause k (parse_order_by pe))" for k
    by (rule yields_by_clause, rule yields_weaken [OF yields_around(3) [OF pe]]) auto
  show ?thesis
    unfolding parse_select_def
    by (rule yields_around [OF pe] joins groups order yields_clause [OF pe] yields_clause [OF yields_leaves(3)]
        yields_leaves yields_advance yields_tokens(4) yields_bind yields_case yields_return | (simp; fail))+
qed

lemma yields_calls: "yields P (parse_function_call pe f)"
proof -
  have "yields (\<lambda>_. True) (case f of None \<Rightarrow> st_bind p_advance (\<lambda>t. st_return (upper (tok_value t))) | Some n \<Rightarrow> st_return n)"
    by (cases f) (simp_all add: yields_return yields_bind [OF yields_advance])
  then show ?thesis
    unfolding parse_function_call_def
    by (rule yields_bind) (rule yields_bind [OF yields_tokens(1) [of "\<lambda>_. False"]], simp)
qed

lemma yields_column_ref: "yields flat_expr (parse_column_ref pe)"
  unfolding parse_column_ref_def Let_def
  by (rule yields_advance yields_if(2) yields_return yields_bind | (simp; fail))+

lemma yields_case_expr:
  assumes pe: "yields flat_expr pe"
  shows "yields flat_expr (parse_case pe)"
proof -
  have loop: "yields (\<lambda>(cs, rs). list_all flat_expr cs \<and> list_all flat_expr rs)
      (p_while (is_keyword ''WHEN'')
       (\<lambda>(cs, rs). st_bind p_advance (\<lambda>_. st_bind pe (\<lambda>c. st_bind (expect_keyword ''THEN'') (\<lambda>_.
          st_bind pe (\<lambda>r. st_return (cs @ [c], rs @ [r])))))) ([], []))"
    by (rule yields_while yields_case pe yields_advance yields_tokens(3) yields_bind yields_return | (simp; fail))+
  show ?thesis
    unfolding parse_case_def
    by (rule loop yields_case pe yields_advance yields_tokens(3) yields_clause [OF pe] yields_bind yields_return | (simp; fail))+
qed

lemma yields_binary:
  "yields flat_expr p \<Longrightarrow> yields flat_expr (binary_loop at oper p)"
  unfolding binary_loop_def
  by (rule yields_advance yields_while yields_bind yields_return | assumption | (simp; fail))+

lemma yields_recursion:
  assumes "yields P p"
    and "\<And>ts. f ts = (if cond ts then st_bind (\<lambda>_. f (tl ts)) g (tl ts) else p ts)"
    and "\<And>x. P x \<Longrightarrow> yields P (g x)" and "\<And>ts. cond ts \<Longrightarrow> length (tl ts) < length ts"
  shows "yields P f"
proof (rule yieldsI)
  fix ts y ts'
  assume "list_all plain ts" "f ts = (Inr y, ts')"
  then show "P y \<and> list_all plain ts'"
  proof (induction "length ts" arbitrary: ts y ts' rule: less_induct)
    case less
    show ?case
    proof (cases "cond ts")
      case True
      then obtain x ts1 where x: "f (tl ts) = (Inr x, ts1)" and y: "g x ts1 = (Inr y, ts')"
        using less.prems(2) by (auto simp: assms(2) [of ts] st_bind_def split: prod.splits sum.splits)
      have "P x \<and> list_all plain ts1" using less.hyps [OF assms(4) [OF True] plain_tl [OF less.prems(1)] x] .
      then show ?thesis using yieldsD [OF assms(3) _ y] by simp
    next
      case False
      then show ?thesis using yieldsD [OF assms(1) less.prems(1)] less.prems(2) by (simp add: assms(2) [of ts])
    qed
  qed
qed

lemma yields_or:
  assumes pe: "yields flat_expr pe"
  shows "yields flat_expr (parse_or fl pe)"
proof -
  note rules = pe yields_leaves yields_advance yields_tokens(2-) yields_intros yields_bind
  have exists: "yields flat_expr (parse_exists pe)"
    unfolding parse_exists_def
    by (rule yields_bind [OF yields_advance], rule yields_bind [OF yields_parens [of "\<lambda>_. False"]]) simp
  have primary: "yields flat_expr (parse_primary fl pe)"
    unfolding parse_primary_def
    by (rule exists yields_calls yields_column_ref yields_case_expr [OF pe] yields_select [OF pe] rules | (simp; fail))+
  have unary: "yields flat_expr (parse_unary fl pe)"
    by (rule yields_recursion [OF primary parse_unary.simps yields_return]) (auto dest: is_token_rest)
  have add: "yields flat_expr (parse_addition fl pe)"
    unfolding parse_addition_def parse_multiplication_def by (intro yields_binary unary)
  have "yields flat_expr (comparison_tail fl pe e)" if "flat_expr e" for e
    unfolding comparison_tail_def
    by (rule add yields_advance yields_tokens(3) yields_parens [of "\<lambda>_. False"] yields_if(1) yields_keyword yields_bind
        yields_return | (use that in simp; fail))+
  then have comparison: "yields flat_expr (parse_comparison fl pe)"
    unfolding parse_comparison_def using add by (rule yields_bind [rotated])
  have "yields flat_expr (parse_not fl pe)"
    by (rule yields_recursion [OF comparison parse_not.simps yields_return]) (auto dest: is_keyword_rest)
  then show ?thesis unfolding parse_or_def parse_and_def by (intro yields_binary)
qed

lemma yields_expression: "yields flat_expr (parse_expression fl :: 'o expr parser)"
proof (rule yieldsI)
  fix ts ts' and e :: "'o expr"
  assume "list_all plain ts" "parse_expression fl ts = (Inr e, ts')"
  then show "flat_expr e \<and> list_all plain ts'"
  proof (induction "length ts" arbitrary: ts e ts' rule: less_induct)
    case less
    have "yields flat_expr 
        (\<lambda>ts'. if length ts' < length ts then parse_expression fl ts' :: 'o expr result \<times> token list else (Inl RuntimeError, ts'))"
    proof (rule yieldsI)
      fix us us' and e :: "'o expr"
      assume us: "list_all plain us"
        and "(if length us < length ts then parse_expression fl us else (Inl RuntimeError, us)) = (Inr e, us')"
      then have "length us < length ts" "parse_expression fl us = (Inr e, us')" by (auto split: if_splits)
      then show "flat_expr e \<and> list_all plain us'" using less.hyps us by blast
    qed
    then show ?case using less.prems yieldsD [OF yields_or] by (simp add: parse_expression.simps [of fl ts])
  qed
qed


text \<open>Statements.\<close>

fun flat_statement :: "'o statement \<Rightarrow> bool" where
  "flat_statement (SelectStatement s) \<longleftrightarrow> flat_select s"
| "flat_statement (InsertStatement _ _ _) \<longleftrightarrow> False"
| "flat_statement (CreateStatement ty _ cols _) \<longleftrightarrow> ty \<in> {''TABLE'', ''DATABASE''} \<and> cols = []"
| "flat_statement (DropStatement _ _ _) \<longleftrightarrow> False"
| "flat_statement (DeleteStatement _ cond) \<longleftrightarrow> pred_option flat_expr cond"
| "flat_statement (UpdateStatement _ clauses cond) \<longleftrightarrow>
     length clauses = 1 \<and> list_all (\<lambda>(_, e). flat_expr e) clauses \<and> pred_option flat_expr cond"
| "flat_statement (AlterStatement _ action col name) \<longleftrightarrow>
     action = ''ADD COLUMN'' \<and> col \<noteq> None \<and> name = None \<or> action = ''DROP COLUMN'' \<and> col = None \<and> name \<noteq> None"
| "flat_statement (UseStatement _) \<longleftrightarrow> True"
| "flat_statement (ShowStatement _) \<longleftrightarrow> False"
| "flat_statement (TransactionStatement _) \<longleftrightarrow> True"
| "flat_statement (ExplainStatement s) \<longleftrightarrow> flat_statement s"
| "flat_statement OtherStatement \<longleftrightarrow> False"

lemma yields_optional: "yields (\<lambda>y. y = x) (p_if (is_token PUNCTUATION v) p (st_return x))"
  by (intro yields_if(2) yields_return refl)

lemma yields_rows: "yields (\<lambda>_. False) (comma_list (parens p))"
  by (rule yields_weaken [OF yields_comma_list [OF yields_parens [of "\<lambda>_. False"]]]) (auto simp: length_Suc_conv)

lemma yields_column_defs: "yields (\<lambda>_. True) (parse_column_defs fl)"
proof -
  have attribute: "yields (\<lambda>_. True) (column_attribute fl c)" for c
    unfolding column_attribute_def
    by (rule yields_keyword yields_tokens(3) yields_leaves(5) yields_bind yields_return | (simp; fail))+
  have negated: "yields (\<lambda>_. True) (if z then p_advance else st_return t)" for z t
    by (simp add: yields_advance yields_return)
  have "yields (\<lambda>_. True) (parse_column_def fl)"
    unfolding parse_column_def_def
    by (rule attribute negated yields_optional yields_leaves(1) yields_advance yields_raise yields_if(1)
        yields_while yields_bind yields_return | (simp; fail))+
  then show ?thesis unfolding parse_column_defs_def by (rule yields_weaken [OF yields_comma_list]) simp
qed

lemma yields_statements:
  "yields flat_statement (parse_insert fl)"
  "yields flat_statement (parse_create fl)"
  "yields flat_statement parse_drop"
  "yields flat_statement (parse_delete fl)"
  "yields flat_statement (parse_update fl)"
  "yields flat_statement (parse_alter fl)"
  "yields flat_statement parse_use"
  "yields flat_statement parse_show"
  "yields flat_statement parse_transaction"
proof -
  note rules = yields_leaves(1) yields_advance yields_clause [OF yields_expression] yields_tokens(3,4) yields_optional
    yields_keyword yields_raise yields_bind yields_return
  have both: "yields (\<lambda>_. True) (both_keywords k1 k2)" for k1 k2
    unfolding both_keywords_def by (rule rules | (simp; fail))+
  have idents: "yields P p_ident_list" for P
    unfolding p_ident_list_def by (rule yields_parens)
  have clauses: "yields (\<lambda>cs. length cs = 1 \<and> list_all (\<lambda>(_, e). flat_expr e) cs) (comma_list (set_clause fl))"
    unfolding set_clause_def
    by (rule yields_comma_list) (rule yields_leaves(1) yields_expression yields_tokens(2) yields_bind yields_return | (simp; fail))+
  show "yields flat_statement (parse_insert fl)"
    unfolding parse_insert_def by (rule yields_rows rules | (simp; fail))+
  show "yields flat_statement (parse_create fl)"
    unfolding parse_create_def by (rule both idents rules | (simp; fail))+
  show "yields flat_statement parse_drop"
    unfolding parse_drop_def by (rule rules | (simp; fail))+
  show "yields flat_statement (parse_delete fl)"
    unfolding parse_delete_def by (rule rules | (simp; fail))+
  show "yields flat_statement (parse_update fl)"
    unfolding parse_update_def by (rule clauses rules | (simp; fail))+
  show "yields flat_statement (parse_alter fl)"
    unfolding parse_alter_def by (rule yields_column_defs rules | (simp; fail))+
  show "yields flat_statement parse_use"
    unfolding parse_use_def by (rule rules | (simp; fail))+
  show "yields flat_statement parse_show"
    unfolding parse_show_def by (rule rules | (simp; fail))+
  show "yields flat_statement parse_transaction"
    unfolding parse_transaction_def by (rule rules | (simp; fail))+
qed

lemma yields_parse: "yields flat_statement (parse fl)"
proof -
  have "yields flat_statement (parse_simple fl)"
    unfolding parse_simple_def
    by (rule yields_statements yields_select [OF yields_expression] yields_if(1) yields_bind yields_return yields_raise | (simp; fail))+
  then show ?thesis
    by (rule yields_recursion [OF _ parse.simps yields_return]) (auto dest: is_keyword_rest)
qed

lemma parsed_flat: "parse_sql fl sql = Inr stmt \<Longrightarrow> flat_statement stmt"
proof -
  assume "parse_sql fl sql = Inr stmt"
  then obtain ts ts' where lexed: "tokenize sql = Inr ts" and parsed: "parse fl ts = (Inr stmt, ts')"
    by (auto simp: parse_sql_def res_bind_eq_Inr prod_eq_iff)
  have "list_all plain ts" using lexer_tokens [OF lexed] by (auto simp: list_all_iff plain_def)
  then show ?thesis using yieldsD [OF yields_parse _ parsed] by simp
qed

text \<open>
  C5. What a text can say: since the lexer has no punctuation, no text is parsed as an \<^verbatim>\<open>INSERT\<close>, \<^verbatim>\<open>DROP\<close> or \<^verbatim>\<open>SHOW\<close>
  statement; a \<^verbatim>\<open>CREATE\<close> has no columns; a query has a single column, at most one expression in \<^verbatim>\<open>GROUP BY\<close> and
  \<^verbatim>\<open>ORDER BY\<close>, and neither aggregates, other calls, lists behind \<^verbatim>\<open>IN\<close> nor table prefixes anywhere.
\<close>
theorem parsed_texts: "parse_sql fl sql = Inr stmt \<Longrightarrow> flat_statement stmt"
  by (rule parsed_flat)

section \<open>Reading back expressions\<close>

text \<open>
  The tokens of an expression, with parentheses around everything that is put together by operators; a
  punctuation token stands for what the parser expects of parentheses, commas and points.
\<close>

abbreviation kw :: "string \<Rightarrow> token" where "kw k \<equiv> mk_token KEYWORD k (Some k)"
abbreviation opr :: "string \<Rightarrow> token" where "opr v \<equiv> mk_token OPERATOR v None"
abbreviation pun :: "string \<Rightarrow> token" where "pun v \<equiv> mk_token PUNCTUATION v None"
abbreviation idn :: "string \<Rightarrow> token" where "idn v \<equiv> mk_token IDENTIFIER v None"

definition arithmetic :: "string set" where "arithmetic = {''+'', ''-'', ''*'', ''/''}"
definition comparisons :: "string set" where "comparisons = {''='', ''!='', ''<'', ''>'', ''<='', ''>=''}"

fun literal_tokens :: "'o pval \<Rightarrow> token list" where
  "literal_tokens (PInt n) = [mk_token NUMBER (nat_str (nat n)) None]"
| "literal_tokens (PStr s) = [mk_token STRING (map char_of s) None]"
| "literal_tokens (PBool b) = [kw (if b then ''TRUE'' else ''FALSE'')]"
| "literal_tokens PNone = [kw ''NULL'']"
| "literal_tokens _ = []"

definition operator_tokens :: "string \<Rightarrow> token list" where
  "operator_tokens oper =
     (if oper \<in> {''AND'', ''OR'', ''IS''} then [kw oper]
      else if oper = ''IS NOT'' then [kw ''IS'', kw ''NOT'']
      else [opr oper])"

fun separated :: "token list list \<Rightarrow> token list" where
  "separated [] = []"
| "separated [ts] = ts"
| "separated (ts # tss) = ts @ pun '','' # separated tss"

fun expr_tokens :: "'o expr \<Rightarrow> token list" where
  "expr_tokens (LiteralExpr v) = literal_tokens v"
| "expr_tokens (ColumnExpr name table) = (case table of None \<Rightarrow> [idn name] | Some t \<Rightarrow> [idn t, pun ''.'', idn name])"
| "expr_tokens (BinaryExpr oper l r) =
     pun ''('' # expr_tokens l @ operator_tokens oper @ expr_tokens r @ [pun '')'']"
| "expr_tokens (UnaryExpr oper e) =
     pun ''('' # (if oper = ''NOT'' then kw ''NOT'' else opr ''-'') # expr_tokens e @ [pun '')'']"
| "expr_tokens (FunctionExpr name args dist) =
     (if name \<in> aggregates then kw name else idn name) # pun ''('' #
       (if dist then [kw ''DISTINCT''] else []) @ separated (map expr_tokens args) @ [pun '')'']"
| "expr_tokens (BetweenExpr e l h) =
     pun ''('' # expr_tokens e @ kw ''BETWEEN'' # expr_tokens l @ kw ''AND'' # expr_tokens h @ [pun '')'']"
| "expr_tokens (InExpr e es) =
     pun ''('' # expr_tokens e @ kw ''IN'' # pun ''('' # separated (map expr_tokens es) @ [pun '')'', pun '')'']"
| "expr_tokens (LikeExpr e p) = pun ''('' # expr_tokens e @ kw ''LIKE'' # expr_tokens p @ [pun '')'']"
| "expr_tokens (CaseExpr _ _ _) = []"
| "expr_tokens (StarExpr table) = (case table of None \<Rightarrow> [opr ''*''] | Some t \<Rightarrow> [idn t, pun ''.'', opr ''*''])"
| "expr_tokens (SubqueryExpr _) = []"

fun readable :: "'o expr \<Rightarrow> bool" where
  "readable (LiteralExpr v) \<longleftrightarrow>
     (case v of PInt n \<Rightarrow> 0 \<le> n | PStr s \<Rightarrow> list_all (\<lambda>c. c < 256) s | PBool _ \<Rightarrow> True | PNone \<Rightarrow> True | _ \<Rightarrow> False)"
| "readable (ColumnExpr _ _) \<longleftrightarrow> True"
| "readable (BinaryExpr oper l r) \<longleftrightarrow>
     readable l \<and> readable r \<and>
     (oper \<in> arithmetic \<union> comparisons \<union> {''AND'', ''OR''} \<or> oper \<in> {''IS'', ''IS NOT''} \<and> r = LiteralExpr PNone)"
| "readable (UnaryExpr oper e) \<longleftrightarrow> readable e \<and> oper \<in> {''NOT'', ''-''}"
| "readable (FunctionExpr _ args _) \<longleftrightarrow> list_all readable args"
| "readable (BetweenExpr e l h) \<longleftrightarrow> readable e \<and> readable l \<and> readable h"
| "readable (InExpr e es) \<longleftrightarrow> readable e \<and> es \<noteq> [] \<and> list_all readable es"
| "readable (LikeExpr e p) \<longleftrightarrow> readable e \<and> readable p"
| "readable (CaseExpr _ _ _) \<longleftrightarrow> False"
| "readable (StarExpr _) \<longleftrightarrow> True"
| "readable (SubqueryExpr _) \<longleftrightarrow> False"

text \<open>What does not go on with a primary expression, and with any expression.\<close>

definition stops :: "token list \<Rightarrow> bool" where
  "stops ts \<longleftrightarrow> \<not> is_token PUNCTUATION ''('' ts \<and> \<not> is_token PUNCTUATION ''.'' ts"

definition ends :: "token list \<Rightarrow> bool" where
  "ends ts \<longleftrightarrow> stops ts \<and> \<not> at_operator (arithmetic \<union> comparisons) ts \<and>
     \<not> at_keyword {''AND'', ''OR'', ''IN'', ''LIKE'', ''BETWEEN'', ''IS''} ts"

lemma peek_simps [simp]:
  "is_keyword k (mk_token ty v k' # ts) \<longleftrightarrow> ty = KEYWORD \<and> k' = Some k"
  "is_token ty v (mk_token ty' v' k' # ts) \<longleftrightarrow> ty' = ty \<and> v' = v"
  "at_operator vs (mk_token ty v k' # ts) \<longleftrightarrow> ty = OPERATOR \<and> v \<in> vs"
  "at_keyword ks (mk_token ty v k' # ts) \<longleftrightarrow> ty = KEYWORD \<and> k' \<in> Some ` ks"
  "tok_type (mk_token ty v k') = ty" "tok_value (mk_token ty v k') = v" "tok_keyword (mk_token ty v k') = k'"
  by (auto simp: is_keyword_def is_token_def at_operator_def at_keyword_def mk_token_def)

text \<open>Token parsers on the tokens they expect.\<close>

lemma expect_simps [simp]:
  "p_expect ty None (mk_token ty v k' # ts) = (Inr (mk_token ty v k'), ts)"
  "p_expect ty (Some v) (mk_token ty v k' # ts) = (Inr (mk_token ty v k'), ts)"
  "expect_keyword k (kw k # ts) = (Inr (kw k), ts)"
  "p_ident (idn v # ts) = (Inr v, ts)"
  "parens p (pun ''('' # ts) = st_bind p (\<lambda>x. st_bind (p_expect PUNCTUATION (Some '')'')) (\<lambda>_. st_return x)) ts"
  by (auto simp: p_expect_def expect_keyword_def p_ident_def parens_def)

lemma if_keyword_simp [simp]:
  "if_keyword k p q ts = (if is_keyword k ts then p (tl ts) else q ts)"
  by (simp add: if_keyword_def maybe_keyword_def st_bind_def)

lemma p_if_simp [simp]: "p_if cond p q ts = (if cond ts then p ts else q ts)"
  by (simp add: p_if_def)

lemma binary_one: "p ts = (Inr x, us) \<Longrightarrow> \<not> at us \<Longrightarrow> binary_loop at oper p ts = (Inr x, us)"
  by (simp add: binary_loop_def p_while.simps [of _ _ _ us])

lemma binary_two:
  "p ts = (Inr x, t # us) \<Longrightarrow> at (t # us) \<Longrightarrow> p us = (Inr y, vs) \<Longrightarrow> \<not> at vs \<Longrightarrow> length vs \<le> length us \<Longrightarrow>
   binary_loop at oper p ts = (Inr (BinaryExpr (oper t) x y), vs)"
  by (simp add: binary_loop_def p_while.simps [of _ _ _ "t # us"] p_while.simps [of _ _ _ vs])


lemma expression_eq: "parse_expression fl ts = parse_or fl (parse_expression fl) ts"
  using alikeD(1) [OF alike_knot order_refl] .

lemma ends_stops: "ends ts \<Longrightarrow> stops ts"
  by (simp add: ends_def)

lemma ends_apart:
  assumes "ends ts"
  shows "\<not> at_operator {''*'', ''/''} ts" "\<not> at_operator {''+'', ''-''} ts" "\<not> at_operator comparisons ts"
    "\<not> is_keyword ''AND'' ts" "\<not> is_keyword ''OR'' ts" "\<not> is_keyword ''IN'' ts" "\<not> is_keyword ''LIKE'' ts"
    "\<not> is_keyword ''BETWEEN'' ts" "\<not> is_keyword ''IS'' ts"
  using assms by (auto simp: ends_def at_operator_def arithmetic_def at_keyword_def is_keyword_def)

lemma ends_simps [simp]:
  "ends (mk_token PUNCTUATION v k # ts) \<longleftrightarrow> v \<noteq> ''('' \<and> v \<noteq> ''.''"
  "stops (mk_token PUNCTUATION v k # ts) \<longleftrightarrow> v \<noteq> ''('' \<and> v \<noteq> ''.''"
  "stops (mk_token KEYWORD v k # ts)" "stops (mk_token OPERATOR v k # ts)"
  by (auto simp: ends_def stops_def)

text \<open>A result of one layer is the result of the layers above when nothing goes on.\<close>

lemma lift_multiplication:
  "parse_multiplication fl pe ts = (Inr e, us) \<Longrightarrow> \<not> at_operator {''+'', ''-''} us \<Longrightarrow> parse_addition fl pe ts = (Inr e, us)"
  unfolding parse_addition_def by (rule binary_one)

lemma lift_addition:
  assumes "parse_addition fl pe ts = (Inr e, us)" and "\<not> is_keyword ''NOT'' ts"
    and "\<not> at_operator comparisons us" and "\<not> at_keyword {''IN'', ''LIKE'', ''BETWEEN'', ''IS''} us"
  shows "parse_not fl pe ts = (Inr e, us)"
proof -
  have "\<not> is_keyword ''IN'' us" "\<not> is_keyword ''LIKE'' us" "\<not> is_keyword ''BETWEEN'' us" "\<not> is_keyword ''IS'' us"
    using assms(4) by (auto simp: at_keyword_def is_keyword_def)
  then show ?thesis
    using assms(1-3)
    by (simp add: parse_not.simps [of fl pe ts] parse_comparison_def comparison_tail_def comparisons_def)
qed

lemma lift_not:
  assumes "parse_not fl (parse_expression fl) ts = (Inr e, us)" and "ends us"
  shows "parse_expression fl ts = (Inr e, us)"
proof -
  have "parse_and fl (parse_expression fl) ts = (Inr e, us)"
    unfolding parse_and_def using assms ends_apart(4) by (intro binary_one)
  then show ?thesis
    unfolding expression_eq [of fl ts] parse_or_def using assms(2) ends_apart(5) by (intro binary_one)
qed

lemma lift_all:
  assumes "parse_addition fl (parse_expression fl) ts = (Inr e, us)" and "\<not> is_keyword ''NOT'' ts" and "ends us"
  shows "parse_expression fl ts = (Inr e, us)"
proof -
  have "\<not> at_keyword {''IN'', ''LIKE'', ''BETWEEN'', ''IS''} us" using assms(3) by (auto simp: ends_def at_keyword_def)
  then show ?thesis using assms ends_apart(3) by (intro lift_not lift_addition)
qed

text \<open>An expression is read back as a primary expression; then it is as any operand.\<close>

definition reads :: "(string \<Rightarrow> pyfloat) \<Rightarrow> 'o expr \<Rightarrow> bool" where
  "reads fl e \<longleftrightarrow>
     (\<forall>us. stops us \<longrightarrow> parse_primary fl (parse_expression fl) (expr_tokens e @ us) = (Inr e, us))"

lemma first_token:
  "readable e \<Longrightarrow> \<not> is_token OPERATOR ''-'' (expr_tokens e @ us) \<and> \<not> is_keyword ''NOT'' (expr_tokens e @ us)"
  by (cases e) (auto split: option.split pval.splits simp: aggregates_def)

lemma operand:
  assumes "readable e" and "reads fl e" and "stops us"
  shows "parse_unary fl (parse_expression fl) (expr_tokens e @ us) = (Inr e, us)"
    and "\<not> at_operator {''*'', ''/''} us \<Longrightarrow> parse_multiplication fl (parse_expression fl) (expr_tokens e @ us) = (Inr e, us)"
    and "\<not> at_operator arithmetic us \<Longrightarrow> parse_addition fl (parse_expression fl) (expr_tokens e @ us) = (Inr e, us)"
    and "\<not> at_operator (arithmetic \<union> comparisons) us \<Longrightarrow> \<not> at_keyword {''IN'', ''LIKE'', ''BETWEEN'', ''IS''} us \<Longrightarrow>
      parse_not fl (parse_expression fl) (expr_tokens e @ us) = (Inr e, us)"
    and "ends us \<Longrightarrow> parse_expression fl (expr_tokens e @ us) = (Inr e, us)"
proof -
  have at: "at_operator A us \<Longrightarrow> A \<subseteq> B \<Longrightarrow> at_operator B us" for A B by (auto simp: at_operator_def)
  note first = first_token [OF assms(1), of us]
  show unary: "parse_unary fl (parse_expression fl) (expr_tokens e @ us) = (Inr e, us)"
    using assms(2,3) first by (simp add: reads_def parse_unary.simps [of _ _ "expr_tokens e @ us"])
  show mult: "parse_multiplication fl (parse_expression fl) (expr_tokens e @ us) = (Inr e, us)"
    if "\<not> at_operator {''*'', ''/''} us"
    unfolding parse_multiplication_def using unary that by (rule binary_one)
  show add: "parse_addition fl (parse_expression fl) (expr_tokens e @ us) = (Inr e, us)" if "\<not> at_operator arithmetic us"
    using that at by (intro lift_multiplication mult) (auto simp: arithmetic_def)
  show negation: "parse_not fl (parse_expression fl) (expr_tokens e @ us) = (Inr e, us)"
    if "\<not> at_operator (arithmetic \<union> comparisons) us" "\<not> at_keyword {''IN'', ''LIKE'', ''BETWEEN'', ''IS''} us"
    using that at first by (intro lift_addition add) auto
  show "ends us \<Longrightarrow> parse_expression fl (expr_tokens e @ us) = (Inr e, us)"
    using first by (intro lift_all add) (auto simp: ends_def at_operator_def)
qed

lemma reads_list:
  fixes es :: "'o expr list"
  assumes "es \<noteq> []" and "\<And>e. e \<in> set es \<Longrightarrow> readable e \<and> reads fl e"
  shows "comma_list (parse_expression fl) (separated (map expr_tokens es) @ pun '')'' # us) = (Inr es, pun '')'' # us)"
proof -
  define loop :: "'o expr list \<Rightarrow> 'o expr list parser" where "loop = p_while (is_token PUNCTUATION '','')
    (\<lambda>xs. st_bind p_advance (\<lambda>_. st_bind (parse_expression fl) (\<lambda>y. st_return (xs @ [y]))))"
  have rest: "loop acc (concat (map (\<lambda>e. pun '','' # expr_tokens e) es) @ pun '')'' # us) = (Inr (acc @ es), pun '')'' # us)"
    if "\<And>e. e \<in> set es \<Longrightarrow> readable e \<and> reads fl e" for es acc
    using that
  proof (induction es arbitrary: acc)
    case Nil
    then show ?case by (simp add: loop_def p_while.simps)
  next
    case (Cons e es)
    let ?us = "concat (map (\<lambda>e. pun '','' # expr_tokens e) es) @ pun '')'' # us"
    have "ends ?us" by (cases es) auto
    then have "parse_expression fl (expr_tokens e @ ?us) = (Inr e, ?us)"
      using Cons.prems [of e] by (intro operand ends_stops) auto
    then have "loop acc (pun '','' # expr_tokens e @ ?us) = loop (acc @ [e]) ?us"
      by (simp add: loop_def p_while.simps [of _ _ acc])
    then show ?case using Cons by simp
  qed
  obtain e es' where es: "es = e # es'" using assms(1) by (cases es) auto
  have sep: "separated (map expr_tokens (e # es')) = expr_tokens e @ concat (map (\<lambda>e. pun '','' # expr_tokens e) es')"
    for e :: "'o expr" and es'
    by (induction es' arbitrary: e) auto
  let ?us = "concat (map (\<lambda>e. pun '','' # expr_tokens e) es') @ pun '')'' # us"
  have "ends ?us" by (cases es') auto
  then have "parse_expression fl (expr_tokens e @ ?us) = (Inr e, ?us)"
    using assms(2) [of e] es by (intro operand ends_stops) auto
  then show ?thesis
    using rest [of es' "[e]"] assms(2) es sep by (simp add: comma_list_def loop_def)
qed


text \<open>Behind an opening parenthesis.\<close>

lemma reads_parens:
  assumes "\<And>us. parse_expression fl (ts @ pun '')'' # us) = (Inr e, pun '')'' # us)"
    and "expr_tokens e = pun ''('' # ts @ [pun '')'']"
  shows "reads fl e"
  using assms by (simp add: reads_def parse_primary_def)

lemma reads_binary:
  assumes l: "readable l" "reads fl l" and r: "readable r" "reads fl r"
    and oper: "oper \<in> arithmetic \<union> comparisons \<union> {''AND'', ''OR''}"
  shows "reads fl (BinaryExpr oper l r)"
proof (rule reads_parens)
  fix us
  let ?pe = "parse_expression fl"
  let ?behind = "pun '')'' # us"
  let ?right = "expr_tokens r @ ?behind"
  let ?all = "expr_tokens l @ operator_tokens oper @ ?right"
  have stop: "stops (operator_tokens oper @ ?right)"
    using oper by (auto simp: operator_tokens_def)
  have first: "\<not> is_keyword ''NOT'' ?all" using first_token [OF l(1)] by simp
  consider (mul) "oper \<in> {''*'', ''/''}" | (add) "oper \<in> {''+'', ''-''}" | (cmp) "oper \<in> comparisons"
    | (con) "oper = ''AND''" | (dis) "oper = ''OR''"
    using oper by (auto simp: arithmetic_def)
  then have "?pe ?all = (Inr (BinaryExpr oper l r), ?behind)"
  proof cases
    case mul
    then have op: "operator_tokens oper = [opr oper]" by (auto simp: operator_tokens_def)
    have "parse_multiplication fl ?pe ?all = (Inr (BinaryExpr (tok_value (opr oper)) l r), ?behind)"
      unfolding parse_multiplication_def using operand(1) [OF l stop] operand(1) [OF r, of ?behind] mul
      by (intro binary_two) (auto simp: op)
    then show ?thesis using first by (intro lift_all lift_multiplication) (auto simp: at_operator_def)
  next
    case add
    then have op: "operator_tokens oper = [opr oper]" "\<not> at_operator {''*'', ''/''} (operator_tokens oper @ ?right)"
      by (auto simp: operator_tokens_def)
    have "parse_addition fl ?pe ?all = (Inr (BinaryExpr (tok_value (opr oper)) l r), ?behind)"
      unfolding parse_addition_def using operand(2) [OF l stop op(2)] operand(2) [OF r, of ?behind] add
      by (intro binary_two) (auto simp: op)
    then show ?thesis using first by (intro lift_all) auto
  next
    case cmp
    then have op: "operator_tokens oper = [opr oper]" "\<not> at_operator arithmetic (operator_tokens oper @ ?right)"
      by (auto simp: operator_tokens_def comparisons_def arithmetic_def)
    have "parse_addition fl ?pe ?all = (Inr l, opr oper # ?right)"
      using operand(3) [OF l stop op(2)] by (simp add: op)
    moreover have "parse_addition fl ?pe ?right = (Inr r, ?behind)" using r by (intro operand) auto
    ultimately have "parse_not fl ?pe ?all = (Inr (BinaryExpr oper l r), ?behind)"
      using first cmp by (simp add: parse_not.simps [of _ _ ?all] parse_comparison_def comparison_tail_def comparisons_def)
    then show ?thesis by (rule lift_not) simp
  next
    case con
    then have op: "operator_tokens oper = [kw ''AND'']" by (simp add: operator_tokens_def)
    have "parse_not fl ?pe ?all = (Inr l, kw ''AND'' # ?right)"
      using operand(4) [OF l stop] by (simp add: op)
    moreover have "parse_not fl ?pe ?right = (Inr r, ?behind)" using r by (intro operand) auto
    ultimately have "parse_and fl ?pe ?all = (Inr (BinaryExpr ''AND'' l r), ?behind)"
      unfolding parse_and_def by (intro binary_two) auto
    then have "parse_or fl ?pe ?all = (Inr (BinaryExpr ''AND'' l r), ?behind)"
      unfolding parse_or_def by (rule binary_one) simp
    then show ?thesis using con expression_eq by metis
  next
    case dis
    then have op: "operator_tokens oper = [kw ''OR'']" by (simp add: operator_tokens_def)
    have "parse_and fl ?pe ?all = (Inr l, kw ''OR'' # ?right)"
      unfolding parse_and_def using operand(4) [OF l stop] by (intro binary_one) (auto simp: op)
    moreover have "parse_and fl ?pe ?right = (Inr r, ?behind)"
      unfolding parse_and_def using r by (intro binary_one operand) auto
    ultimately have "parse_or fl ?pe ?all = (Inr (BinaryExpr ''OR'' l r), ?behind)"
      unfolding parse_or_def by (intro binary_two) auto
    then show ?thesis using dis expression_eq by metis
  qed
  then show "?pe ((expr_tokens l @ operator_tokens oper @ expr_tokens r) @ ?behind) = (Inr (BinaryExpr oper l r), ?behind)" by simp
qed simp

text \<open>The other forms start with an operand of a comparison.\<close>

lemma reads_comparison:
  assumes e: "readable e" "reads fl e"
    and tail: "\<And>us. comparison_tail fl (parse_expression fl) e (ts @ pun '')'' # us) = (Inr x, pun '')'' # us)"
    and start: "\<And>us. stops (ts @ us)" "\<And>us. \<not> at_operator arithmetic (ts @ us)"
    and printed: "expr_tokens x = pun ''('' # expr_tokens e @ ts @ [pun '')'']"
  shows "reads fl x"
proof (rule reads_parens)
  fix us
  have "parse_addition fl (parse_expression fl) (expr_tokens e @ ts @ pun '')'' # us) = (Inr e, ts @ pun '')'' # us)"
    using e start by (intro operand)
  then have "parse_not fl (parse_expression fl) (expr_tokens e @ ts @ pun '')'' # us) = (Inr x, pun '')'' # us)"
    using first_token [OF e(1)] tail
    by (simp add: parse_not.simps [of _ _ "expr_tokens e @ ts @ pun '')'' # us"] parse_comparison_def)
  then show "parse_expression fl ((expr_tokens e @ ts) @ pun '')'' # us) = (Inr x, pun '')'' # us)"
    by (simp add: lift_not)
qed (simp add: printed)

lemma reads_unary:
  assumes "readable e" and "reads fl e" and "oper \<in> {''NOT'', ''-''}"
  shows "reads fl (UnaryExpr oper e)"
proof (rule reads_parens)
  fix us
  let ?in = "expr_tokens e @ pun '')'' # us"
  let ?all = "(if oper = ''NOT'' then kw ''NOT'' else opr ''-'') # ?in"
  have "parse_not fl (parse_expression fl) ?in = (Inr e, pun '')'' # us)" using assms(1,2) by (intro operand) auto
  then have neg: "oper = ''NOT'' \<Longrightarrow> parse_expression fl ?all = (Inr (UnaryExpr oper e), pun '')'' # us)"
    by (intro lift_not) (simp_all add: parse_not.simps [of _ _ "kw ''NOT'' # ?in"])
  have "parse_unary fl (parse_expression fl) ?in = (Inr e, pun '')'' # us)" using assms(1,2) by (intro operand) auto
  then have "parse_unary fl (parse_expression fl) (opr ''-'' # ?in) = (Inr (UnaryExpr ''-'' e), pun '')'' # us)"
    by (simp add: parse_unary.simps [of _ _ "opr ''-'' # ?in"])
  then have "parse_multiplication fl (parse_expression fl) (opr ''-'' # ?in) = (Inr (UnaryExpr ''-'' e), pun '')'' # us)"
    unfolding parse_multiplication_def by (rule binary_one) simp
  then have "parse_expression fl (opr ''-'' # ?in) = (Inr (UnaryExpr ''-'' e), pun '')'' # us)"
    by (intro lift_all lift_multiplication) auto
  with neg show "parse_expression fl (((if oper = ''NOT'' then kw ''NOT'' else opr ''-'') # expr_tokens e) @ pun '')'' # us) =
      (Inr (UnaryExpr oper e), pun '')'' # us)" using assms(3) by auto
qed simp


lemma reads_literal:
  assumes "readable (LiteralExpr v)"
  shows "reads fl (LiteralExpr v)"
proof -
  have digits: "CHR ''.'' \<notin> set (nat_str n)" for n
    using nat_str_digits [of n] by (auto simp: ascii_digits_def list_all_iff digit_char_def)
  have number: "int_of_text (nat_str (nat n)) = Inr n" if "0 \<le> n" for n
    using that int_of_int_str [of n] by (simp add: int_str_def)
  have chars: "map (of_char \<circ> char_of) s = s" if "list_all (\<lambda>c. c < 256) s" for s :: "nat list"
    using that by (induction s) auto
  show ?thesis
    using assms
    by (cases v) (simp_all add: reads_def parse_primary_def parse_literal_def digits number chars)
qed

lemma reads_call:
  assumes "\<And>e. e \<in> set args \<Longrightarrow> readable e \<and> reads fl e"
  shows "reads fl (FunctionExpr name args dist)"
  unfolding reads_def
proof (intro allI impI)
  fix us
  let ?rest = "separated (map expr_tokens args) @ pun '')'' # us"
  have args: "st_bind (p_if (is_token PUNCTUATION '')'') (st_return []) (comma_list (parse_expression fl)))
      (\<lambda>args. st_bind (p_expect PUNCTUATION (Some '')'')) (\<lambda>_. st_return (FunctionExpr name args dist))) ?rest =
      (Inr (FunctionExpr name args dist), us)"
  proof (cases args)
    case (Cons e es)
    have "\<not> is_token PUNCTUATION '')'' ?rest"
      using assms [of e] Cons by (cases es; cases e) (auto split: option.split pval.splits)
    then show ?thesis using reads_list [of args fl us] assms Cons by simp
  qed simp
  have kw: "\<not> is_keyword ''DISTINCT'' ?rest"
  proof (cases args)
    case (Cons e es)
    then show ?thesis using assms [of e] by (cases es; cases e) (auto simp: aggregates_def split: option.split pval.splits)
  qed simp
  have upper: "upper name = name" if "name \<in> aggregates"
    using that by (auto simp: aggregates_def upper_def upper_char_def)
  have "parse_function_call (parse_expression fl) (Some name) (pun ''('' # (if dist then [kw ''DISTINCT''] else []) @ ?rest) =
      (Inr (FunctionExpr name args dist), us)"
    using args kw by (cases dist) (simp_all add: parse_function_call_def maybe_keyword_def)
  then show "parse_primary fl (parse_expression fl) (expr_tokens (FunctionExpr name args dist) @ us) =
      (Inr (FunctionExpr name args dist), us)"
    using upper
    by (auto simp: parse_primary_def parse_function_call_def parse_column_ref_def Let_def aggregates_def)
qed

lemma reads_null_test:
  assumes "readable l" and "reads fl l"
  shows "reads fl (BinaryExpr ''IS'' l (LiteralExpr PNone))" "reads fl (BinaryExpr ''IS NOT'' l (LiteralExpr PNone))"
  using assms
  by (rule reads_comparison [where ts = "[kw ''IS'', kw ''NULL'']"]; simp add: comparison_tail_def operator_tokens_def)
    (rule reads_comparison [OF assms, where ts = "[kw ''IS'', kw ''NOT'', kw ''NULL'']"];
      simp add: comparison_tail_def operator_tokens_def)

lemma reads_between:
  assumes "readable e" "reads fl e" "readable l" "reads fl l" "readable h" "reads fl h"
  shows "reads fl (BetweenExpr e l h)"
proof (rule reads_comparison [OF assms(1,2), where ts = "kw ''BETWEEN'' # expr_tokens l @ kw ''AND'' # expr_tokens h"])
  fix us
  have "parse_addition fl (parse_expression fl) (expr_tokens l @ kw ''AND'' # expr_tokens h @ pun '')'' # us) =
      (Inr l, kw ''AND'' # expr_tokens h @ pun '')'' # us)"
    by (rule operand(3) [OF assms(3,4)]) simp_all
  moreover have "parse_addition fl (parse_expression fl) (expr_tokens h @ pun '')'' # us) = (Inr h, pun '')'' # us)"
    by (rule operand(3) [OF assms(5,6)]) simp_all
  ultimately show "comparison_tail fl (parse_expression fl) e
      ((kw ''BETWEEN'' # expr_tokens l @ kw ''AND'' # expr_tokens h) @ pun '')'' # us) =
      (Inr (BetweenExpr e l h), pun '')'' # us)"
    by (simp add: comparison_tail_def)
qed simp_all

lemma reads_in:
  assumes "readable e" "reads fl e" "es \<noteq> []" "\<And>x. x \<in> set es \<Longrightarrow> readable x \<and> reads fl x"
  shows "reads fl (InExpr e es)"
proof (rule reads_comparison [OF assms(1,2), where ts = "kw ''IN'' # pun ''('' # separated (map expr_tokens es) @ [pun '')'']"])
  fix us
  show "comparison_tail fl (parse_expression fl) e
      ((kw ''IN'' # pun ''('' # separated (map expr_tokens es) @ [pun '')'']) @ pun '')'' # us) =
      (Inr (InExpr e es), pun '')'' # us)"
    using reads_list [OF assms(3,4)] by (simp add: comparison_tail_def)
qed simp_all

lemma reads_like:
  assumes "readable e" "reads fl e" "readable p" "reads fl p"
  shows "reads fl (LikeExpr e p)"
proof (rule reads_comparison [OF assms(1,2), where ts = "kw ''LIKE'' # expr_tokens p"])
  fix us
  have "parse_addition fl (parse_expression fl) (expr_tokens p @ pun '')'' # us) = (Inr p, pun '')'' # us)"
    by (rule operand(3) [OF assms(3,4)]) simp_all
  then show "comparison_tail fl (parse_expression fl) e ((kw ''LIKE'' # expr_tokens p) @ pun '')'' # us) =
      (Inr (LikeExpr e p), pun '')'' # us)"
    by (simp add: comparison_tail_def)
qed simp_all

lemma readable_reads: "readable e \<Longrightarrow> reads fl e"
proof (induction e)
  case (LiteralExpr v)
  then show ?case by (rule reads_literal)
next
  case (ColumnExpr name table)
  show ?case
    by (cases table) (auto simp: reads_def parse_primary_def parse_column_ref_def stops_def)
next
  case (BinaryExpr oper l r)
  then have l: "readable l" "reads fl l" and r: "readable r" "reads fl r"
    and "oper \<in> arithmetic \<union> comparisons \<union> {''AND'', ''OR''} \<or> oper \<in> {''IS'', ''IS NOT''} \<and> r = LiteralExpr PNone"
    by simp_all
  then show ?case using reads_binary [OF l r] reads_null_test [OF l] by blast
next
  case (UnaryExpr oper e)
  then show ?case by (intro reads_unary) simp_all
next
  case (FunctionExpr name args dist)
  then show ?case by (intro reads_call) (simp add: list_all_iff)
next
  case (InExpr e es)
  then show ?case by (intro reads_in) (simp_all add: list_all_iff)
next
  case (StarExpr table)
  show ?case
    by (cases table) (auto simp: reads_def parse_primary_def parse_column_ref_def stops_def)
qed (simp_all add: reads_between reads_like)

text \<open>
  C4. Reading back: the parser turns the tokens of an expression (literals, columns, stars, the operators, calls,
  \<^verbatim>\<open>BETWEEN\<close>, \<^verbatim>\<open>IN\<close>, \<^verbatim>\<open>LIKE\<close>; compound parts in parentheses) into the same expression and leaves what follows,
  unless an operator, a parenthesis or a point follows.
\<close>
theorem expression_roundtrip:
  "readable e \<Longrightarrow> ends us \<Longrightarrow> parse_expression fl (expr_tokens e @ us) = (Inr e, us)"
  by (rule operand(5)) (auto intro: readable_reads ends_stops)

section \<open>Instances\<close>

text \<open>The comma ends the query; \<^verbatim>\<open>INSERT\<close>, \<^verbatim>\<open>COUNT\<close>, \<^verbatim>\<open>DROP\<close> and \<^verbatim>\<open>SHOW\<close> are refused.\<close>

theorem parsed_texts_witness:
  "parse_sql (\<lambda>_. 0) ''SELECT a, b FROM t WHERE a = 1'' =
     (Inr (SelectStatement (SelectStmt [ColumnExpr ''a'' None] None None [] None [] None [] None None False))
       :: unit statement result) \<and>
   flat_statement (SelectStatement (SelectStmt [ColumnExpr ''a'' None] None None [] None [] None [] None None False)
       :: unit statement) \<and>
   parse_sql (\<lambda>_. 0) ''INSERT INTO t VALUES (1)'' = (Inl SyntaxErr :: unit statement result) \<and>
   parse_sql (\<lambda>_. 0) ''SELECT COUNT(*) FROM t'' = (Inl SyntaxErr :: unit statement result) \<and>
   parse_sql (\<lambda>_. 0) ''DROP TABLE t'' = (Inl AttributeErr :: unit statement result) \<and>
   parse_sql (\<lambda>_. 0) ''SHOW TABLES'' = (Inl AttributeErr :: unit statement result)"
proof -
  have q: "parse_sql (\<lambda>_. 0) ''SELECT a, b FROM t WHERE a = 1'' =
     (Inr (SelectStatement (SelectStmt [ColumnExpr ''a'' None] None None [] None [] None [] None None False))
       :: unit statement result)" by code_simp
  moreover have "parse_sql (\<lambda>_. 0) ''INSERT INTO t VALUES (1)'' = (Inl SyntaxErr :: unit statement result)" by code_simp
  moreover have "parse_sql (\<lambda>_. 0) ''SELECT COUNT(*) FROM t'' = (Inl SyntaxErr :: unit statement result)" by code_simp
  moreover have "parse_sql (\<lambda>_. 0) ''DROP TABLE t'' = (Inl AttributeErr :: unit statement result)" by code_simp
  moreover have "parse_sql (\<lambda>_. 0) ''SHOW TABLES'' = (Inl AttributeErr :: unit statement result)" by code_simp
  ultimately show ?thesis using parsed_texts [OF q] by blast
qed

text \<open>\<^verbatim>\<open>((a + 1) < t.b) AND (NOT MAX(c, 2))\<close> in parentheses, followed by a comma.\<close>

definition demo_expression :: "unit expr" where
  "demo_expression =
     BinaryExpr ''AND''
       (BinaryExpr ''<'' (BinaryExpr ''+'' (ColumnExpr ''a'' None) (LiteralExpr (PInt 1))) (ColumnExpr ''b'' (Some ''t'')))
       (UnaryExpr ''NOT'' (FunctionExpr ''MAX'' [ColumnExpr ''c'' None, LiteralExpr (PInt 2)] False))"

theorem expression_roundtrip_witness:
  "parse_expression (\<lambda>_. 0) (expr_tokens demo_expression @ [pun '','']) = (Inr demo_expression, [pun '',''])"
proof -
  have "readable demo_expression" "ends [pun '','']"
    by (simp_all add: demo_expression_def arithmetic_def comparisons_def)
  then show ?thesis by (rule expression_roundtrip)
qed


end
