(* ===== verification/SqlCommand_Facts.thy ===== *)
theory SqlCommand_Facts
  imports SqlParser_Facts SqlQuery_Facts
begin

text \<open>
  What commands, from the text to the executor, can do to the tables of the catalog and to the rows of the store.
\<close>

section \<open>The names in the catalog\<close>

text \<open>The databases with their tables, by keys and names.\<close>

definition names :: "'v catalog \<Rightarrow> (string \<times> string \<times> (string \<times> string) list) list" where
  "names c = map (\<lambda>(k, db). (k, di_name db, map (\<lambda>(j, t). (j, ti_name t)) (di_tables db))) (cat_databases c)"

lemma names_save: "names (snd (catalog_save env c)) = names c"
  using saved_state [of env c] by (auto simp: names_def)

lemma names_use: "names (snd (use_database name c)) = names c"
  by (simp add: use_database_def names_def)

lemma map_update_first:
  "(\<And>x. P x \<Longrightarrow> g (f x) = g x) \<Longrightarrow> map g (update_first P f xs) = map g xs"
  by (induction xs) auto

lemma map_map_entry:
  "(\<And>v. g (k, f v) = g (k, v)) \<Longrightarrow> map g (AList.map_entry k f xs) = map g xs"
  by (induction xs) auto

lemma names_change_table:
  assumes "\<And>t. ti_name (f t) = ti_name t"
  shows "names (change_table name f c) = names c"
proof -
  have "map (\<lambda>(j, t). (j, ti_name t)) (update_first P (\<lambda>(k, t). (k, f t)) ts) = map (\<lambda>(j, t). (j, ti_name t)) ts" for P ts
    by (rule map_update_first) (auto simp: assms)
  then show ?thesis
    by (cases "cat_current c") (auto simp: names_def change_table_def change_current_db_def intro!: map_map_entry)
qed

lemma names_add: "names (snd (add_column env name col c)) = names c"
  by (auto simp: add_column_def names_save names_change_table split: option.split)

lemma names_drop: "names (snd (drop_column env name col c)) = names c"
  by (auto simp: drop_column_def names_save names_change_table split: option.split sum.split)

lemma names_row_count: "names (update_row_count name n c) = names c"
  by (auto simp: update_row_count_def names_change_table split: option.split)

section \<open>Commands\<close>

text \<open>What a command keeps: the names, and the store up to a relation.\<close>

definition keeps ::
  "('t \<Rightarrow> 't \<Rightarrow> bool) \<Rightarrow> ('o, 't, 'd, 'p) exec_state \<Rightarrow> ('o, 't, 'd, 'p) exec_state \<Rightarrow> bool" where
  "keeps R s s' \<longleftrightarrow> names (ex_catalog s') = names (ex_catalog s) \<and> R (ex_store s) (ex_store s')"

text \<open>A relation that deletions and updates of the store respect.\<close>

definition allowed :: "('t \<Rightarrow> 't \<Rightarrow> bool) \<Rightarrow> ('o, 't, 'd, 'p) exec_env \<Rightarrow> bool" where
  "allowed R env \<longleftrightarrow> (\<forall>t. R t t) \<and>
     (\<forall>ds. ee_store env = Some ds \<longrightarrow>
        (\<forall>n p t. R t (snd (ds_delete ds n p t))) \<and> (\<forall>n cs p t. R t (snd (ds_update ds n cs p t))))"

lemma call_catalog_keeps:
  "allowed R env \<Longrightarrow> (\<And>c. names (snd (f c)) = names c) \<Longrightarrow> keeps R s (snd (call_catalog f rows s))"
  by (simp add: call_catalog_def keeps_def allowed_def case_prod_beta)

lemma end_transaction_keeps: "allowed R env \<Longrightarrow> keeps R s (snd (end_transaction f l s))"
  by (auto simp: end_transaction_def keeps_def allowed_def split: option.split prod.split sum.split)

lemma execute_transaction_keeps: "allowed R env \<Longrightarrow> keeps R s (snd (execute_transaction env' a s))"
  using end_transaction_keeps [of R env s]
  by (auto simp: execute_transaction_def split: option.split prod.split sum.split)
    (auto simp: keeps_def allowed_def)

lemma execute_delete_keeps: "allowed R env \<Longrightarrow> keeps R s (snd (execute_delete env a s))"
  by (auto simp: execute_delete_def keeps_def allowed_def names_row_count Let_def case_prod_beta
      split: option.split sum.split)

lemma execute_update_keeps: "allowed R env \<Longrightarrow> keeps R s (snd (execute_update env a s))"
  by (auto simp: execute_update_def keeps_def allowed_def Let_def case_prod_beta split: option.split)

lemma execute_alter_keeps: "allowed R env \<Longrightarrow> keeps R s (snd (execute_alter_table env a s))"
  unfolding execute_alter_table_def
  by (auto simp: Let_def call_catalog_keeps names_add names_drop split: sum.split)
    (auto simp: keeps_def allowed_def)

lemma execute_use_keeps: "allowed R env \<Longrightarrow> keeps R s (snd (execute_use a s))"
  unfolding execute_use_def
  by (auto simp: call_catalog_keeps names_use split: option.split) (auto simp: keeps_def allowed_def)

lemma execute_keeps:
  assumes "allowed R env" and "node_type p \<noteq> INSERT"
  shows "keeps R s (snd (execute env p s))"
proof -
  have "keeps R s s" using assms(1) by (simp add: keeps_def allowed_def)
  with assms show ?thesis
    by (cases "node_type p")
      (simp_all add: execute_def Let_def execute_create_table_def execute_create_database_def execute_drop_table_def
        execute_drop_database_def execute_show_def execute_explain_def execute_delete_keeps execute_update_keeps
        execute_alter_keeps execute_use_keeps execute_transaction_keeps)
qed

lemma names_insert: "names (ex_catalog (snd (insert_loop env name columns cols ess n s))) = names (ex_catalog s)"
proof (induction env name columns cols ess n s rule: insert_loop.induct)
  case (2 env name columns cols es ess n s)
  then show ?case
    by (auto simp: insert_row_def Let_def case_prod_beta names_row_count split: sum.split option.split prod.split)
qed simp

lemma layer_types:
  assumes "node_type n \<noteq> INSERT"
  shows "node_type (plan_where s n) \<noteq> INSERT" and "node_type (plan_join j n) \<noteq> INSERT"
    and "node_type (plan_aggregate s n) \<noteq> INSERT" and "node_type (plan_sort s n) \<noteq> INSERT"
    and "node_type (plan_distinct s n) \<noteq> INSERT" and "node_type (plan_projection s n) \<noteq> INSERT"
    and "node_type (plan_limit s n) \<noteq> INSERT"
  using assms
  by (auto simp: plan_where_def plan_join_def plan_aggregate_def plan_sort_def plan_distinct_def
      plan_projection_def plan_limit_def split: option.split)

lemma select_type: "node_type (plan_select (s :: 'o select_stmt)) \<noteq> INSERT"
proof -
  have "node_type (fold plan_join joins n) \<noteq> INSERT" if "node_type n \<noteq> INSERT" for joins and n :: "'o plan_node"
    using that by (induction joins arbitrary: n) (auto simp: layer_types)
  moreover have "node_type (plan_scan s) \<noteq> INSERT" by (auto simp: plan_scan_def split: option.split)
  ultimately show ?thesis by (simp add: plan_select_def layer_types)
qed

lemma create_plan_insert: "create_plan stmt = Inr p \<Longrightarrow> flat_statement stmt \<Longrightarrow> node_type p \<noteq> INSERT"
  by (cases stmt)
    (auto simp: select_type plan_create_def plan_delete_def plan_update_def plan_alter_def plan_use_def
      plan_transaction_def res_bind_eq_Inr)

text \<open>
  C6. No command of the engine changes which databases and tables there are, whatever plan is executed:
  \<^verbatim>\<open>CREATE\<close> and \<^verbatim>\<open>DROP\<close> fail, and the others only change columns, row counts and the current database.  A
  statement that comes from a text adds no row either: it can only reach the deletions and the updates of the
  store, so whatever these keep of the store is kept.
\<close>
theorem texts_add_nothing:
  "names (ex_catalog (snd (execute env p s))) = names (ex_catalog s) \<and>
   (\<forall>R sql stmt. allowed R env \<and> parse_sql fl sql = Inr stmt \<and> create_plan stmt = Inr p \<longrightarrow>
      R (ex_store s) (ex_store (snd (execute env p s))))"
proof (intro conjI allI impI)
  show "names (ex_catalog (snd (execute env p s))) = names (ex_catalog s)"
  proof (cases "node_type p = INSERT")
    case True
    then show ?thesis
      by (auto simp: execute_def Let_def execute_insert_def names_insert split: option.split)
  next
    case False
    have "allowed (\<lambda>_ _. True) env" by (simp add: allowed_def)
    from execute_keeps [OF this False] show ?thesis by (simp add: keeps_def)
  qed
next
  fix R sql stmt
  assume *: "allowed R env \<and> parse_sql fl sql = Inr stmt \<and> create_plan stmt = Inr p"
  then have "flat_statement stmt" using parsed_flat by blast
  then have "allowed R env" "node_type p \<noteq> INSERT" using * create_plan_insert by blast+
  then show "R (ex_store s) (ex_store (snd (execute env p s)))"
    using execute_keeps [of R env p s] by (simp add: keeps_def)
qed

section \<open>An instance\<close>

text \<open>No table has a row that it did not have.\<close>

definition fewer_rows :: "(string \<times> unit row list) list \<Rightarrow> (string \<times> unit row list) list \<Rightarrow> bool" where
  "fewer_rows t u \<longleftrightarrow> (\<forall>n rs. map_of u n = Some rs \<longrightarrow> (\<exists>rs'. map_of t n = Some rs' \<and> set rs \<subseteq> set rs'))"

lemma split_rows_subset: "split_rows p rs = Inr (keep, n) \<Longrightarrow> set keep \<subseteq> set rs"
proof (induction rs arbitrary: keep n)
  case (Cons r rs)
  then obtain b keep' m where "p r = Inr b" "split_rows p rs = Inr (keep', m)" "keep = (if b then keep' else r # keep')"
    by (auto simp: res_bind_eq_Inr split: if_splits)
  then show ?case using Cons.IH [of keep' m] by auto
qed simp

lemma allowed_shop: "allowed fewer_rows shop_env"
proof -
  have "fewer_rows t (snd (ds_delete shop_store n p t))" for n p t
    by (auto simp: fewer_rows_def shop_store_def update_conv' dest!: split_rows_subset
        split: option.splits sum.splits if_splits)
  then show ?thesis by (auto simp: allowed_def shop_env_def fewer_rows_def shop_store_def split: option.split sum.split)
qed

definition delete_text :: string where "delete_text = ''DELETE FROM items WHERE kind = 1''"

definition delete_stmt :: "unit statement" where
  "delete_stmt = DeleteStatement ''items'' (Some (BinaryExpr ''='' (ColumnExpr ''kind'' None) (LiteralExpr (PInt 1))))"

theorem texts_add_nothing_witness:
  "parse_sql (\<lambda>_. 0) delete_text = Inr delete_stmt \<and>
   (\<exists>p. create_plan delete_stmt = Inr p \<and> fst (execute shop_env p shop_state) =
        Inr [[(''_deleted'', PInt 2), (''table'', PStr (map of_char ''items''))]] \<and>
      fewer_rows (ex_store shop_state) (ex_store (snd (execute shop_env p shop_state))))"
proof -
  have parsed: "parse_sql (\<lambda>_. 0) delete_text = Inr delete_stmt" by code_simp
  obtain p where p: "create_plan delete_stmt = Inr p" by (simp add: delete_stmt_def)
  then have "fewer_rows (ex_store shop_state) (ex_store (snd (execute shop_env p shop_state)))"
    using texts_add_nothing [of shop_env p shop_state "\<lambda>_. 0"] parsed allowed_shop by blast
  moreover have "map_sum id (\<lambda>p. fst (execute shop_env p shop_state)) (create_plan delete_stmt) =
      Inr (Inr [[(''_deleted'', PInt 2), (''table'', PStr (map of_char ''items''))]])" by code_simp
  ultimately show ?thesis using parsed p by auto
qed

end
