(* ===== verification/WebSocket.thy ===== *)
theory WebSocket
  imports Py_Struct Py_State Py_Utf8
begin

text \<open>
  WebSocket frames and connections, \<^verbatim>\<open>network/src/protocol/websocket.py\<close>.  The reader of a connection is the bytes
  that are still to come before the end of the stream, the writer the bytes written so far; writing does not
  fail.  Masking keys, the time and the accept key (\<^verbatim>\<open>hashlib\<close>, \<^verbatim>\<open>base64\<close>) are arguments.  Callbacks
  are opaque and left out, and so is the opening handshake of a client.
\<close>

section \<open>Frames\<close>

datatype ws_opcode = CONTINUATION | TEXT | BINARY | CLOSE | PING | PONG

fun opcode_value :: "ws_opcode \<Rightarrow> int" where
  "opcode_value CONTINUATION = 0x0"
| "opcode_value TEXT = 0x1"
| "opcode_value BINARY = 0x2"
| "opcode_value CLOSE = 0x8"
| "opcode_value PING = 0x9"
| "opcode_value PONG = 0xA"

text \<open>\<^verbatim>\<open>WebSocketOpcode(n)\<close>.\<close>

definition opcode_of :: "int \<Rightarrow> ws_opcode result" where
  "opcode_of n =
     (if n = 0x0 then Inr CONTINUATION
      else if n = 0x1 then Inr TEXT
      else if n = 0x2 then Inr BINARY
      else if n = 0x8 then Inr CLOSE
      else if n = 0x9 then Inr PING
      else if n = 0xA then Inr PONG
      else Inl ValueError)"

record ws_frame =
  wf_fin :: bool
  wf_rsv1 :: bool
  wf_rsv2 :: bool
  wf_rsv3 :: bool
  wf_opcode :: ws_opcode
  wf_mask :: bool
  wf_masking_key :: bytes
  wf_payload :: bytes
  wf_length :: int

text \<open>The constructor; \<^verbatim>\<open>__post_init__\<close> overrides the length.\<close>

definition ws_frame_new ::
  "bool \<Rightarrow> bool \<Rightarrow> bool \<Rightarrow> bool \<Rightarrow> ws_opcode \<Rightarrow> bool \<Rightarrow> bytes \<Rightarrow> bytes \<Rightarrow> ws_frame" where
  "ws_frame_new fin rsv1 rsv2 rsv3 opcode masked masking_key payload =
     \<lparr>wf_fin = fin, wf_rsv1 = rsv1, wf_rsv2 = rsv2, wf_rsv3 = rsv3, wf_opcode = opcode, wf_mask = masked,
      wf_masking_key = masking_key, wf_payload = payload, wf_length = ilen payload\<rparr>"

definition is_control_frame :: "ws_frame \<Rightarrow> bool" where
  "is_control_frame f \<longleftrightarrow> wf_opcode f \<in> {CLOSE, PING, PONG}"

definition is_data_frame :: "ws_frame \<Rightarrow> bool" where
  "is_data_frame f \<longleftrightarrow> wf_opcode f \<in> {TEXT, BINARY, CONTINUATION}"

definition apply_mask :: "bytes \<Rightarrow> bytes \<Rightarrow> bytes" where
  "apply_mask data mask_key =
     (if length mask_key \<noteq> 4 then data
      else map2 (\<lambda>i b. b XOR mask_key ! (i mod 4)) [0..<length data] data)"

text \<open>\<^verbatim>\<open>bytes([first, second])\<close>.\<close>

definition byte_pair :: "int \<Rightarrow> int \<Rightarrow> bytes result" where
  "byte_pair a b =
     (if 0 \<le> a \<and> a < 256 \<and> 0 \<le> b \<and> b < 256 then Inr [word_of_int a, word_of_int b] else Inl ValueError)"

definition first_byte :: "ws_frame \<Rightarrow> int" where
  "first_byte f =
     (((((0 OR (if wf_fin f then 0x80 else 0)) OR (if wf_rsv1 f then 0x40 else 0)) OR (if wf_rsv2 f then 0x20 else 0))
       OR (if wf_rsv3 f then 0x10 else 0)) OR opcode_value (wf_opcode f))"

definition frame_encode :: "ws_frame \<Rightarrow> bytes result" where
  "frame_encode f =
     (let first = first_byte f; second = (0 OR (if wf_mask f then 0x80 else 0));
          payload = (if wf_mask f \<and> wf_masking_key f \<noteq> [] then apply_mask (wf_payload f) (wf_masking_key f)
                     else wf_payload f)
      in res_bind
          (if wf_length f < 126 then byte_pair first (second OR wf_length f)
           else if wf_length f < 65536 then
             res_bind (byte_pair first (second OR 126)) (\<lambda>h.
             res_bind (pack_uint True 2 (wf_length f)) (\<lambda>l. Inr (h @ l)))
           else
             res_bind (byte_pair first (second OR 127)) (\<lambda>h.
             res_bind (pack_uint True 8 (wf_length f)) (\<lambda>l. Inr (h @ l))))
          (\<lambda>header. Inr ((if wf_mask f then header @ wf_masking_key f else header) @ payload)))"

text \<open>The extended length and the masking key; both give the offset behind them.\<close>

definition decode_length :: "bytes \<Rightarrow> int \<Rightarrow> (int \<times> int) result" where
  "decode_length data second =
     (let length = second AND 0x7F; offset = 2 in
      if length = 126 then
        if ilen data < 4 then Inl WebSocketProtocolErr
        else Inr (unpack_uint True (py_slice data offset (offset + 2)), offset + 2)
      else if length = 127 then
        if ilen data < 10 then Inl WebSocketProtocolErr
        else Inr (unpack_uint True (py_slice data offset (offset + 8)), offset + 8)
      else Inr (length, offset))"

definition decode_key :: "bytes \<Rightarrow> bool \<Rightarrow> int \<Rightarrow> (bytes \<times> int) result" where
  "decode_key data masked offset =
     (if masked then
        if ilen data < offset + 4 then Inl WebSocketProtocolErr
        else Inr (py_slice data offset (offset + 4), offset + 4)
      else Inr ([], offset))"

definition frame_decode :: "bytes \<Rightarrow> ws_frame result" where
  "frame_decode data =
     (if ilen data < 2 then Inl WebSocketProtocolErr
      else
        let first = uint (data ! 0); second = uint (data ! 1) in
        res_bind (opcode_of (first AND 0x0F)) (\<lambda>opcode.
        let masked = (second AND 0x80 \<noteq> 0) in
        res_bind (decode_length data second) (\<lambda>(length, offset1).
        res_bind (decode_key data masked offset1) (\<lambda>(masking_key, offset).
          if ilen data < offset + length then Inl WebSocketProtocolErr
          else
            let payload = py_slice data offset (offset + length) in
            Inr (ws_frame_new (first AND 0x80 \<noteq> 0) (first AND 0x40 \<noteq> 0) (first AND 0x20 \<noteq> 0) (first AND 0x10 \<noteq> 0)
              opcode masked masking_key (if masked then apply_mask payload masking_key else payload))))))"

section \<open>Connections\<close>

datatype ws_message = TextMessage pystr | BytesMessage bytes

record ws =
  ws_max_message_size :: int
  ws_reader :: "bytes option"
  ws_writer :: "bytes option"
  ws_is_closed :: bool
  ws_is_server :: bool
  ws_message_buffer :: bytes
  ws_message_opcode :: "ws_opcode option"
  ws_close_code :: "int option"
  ws_close_reason :: pystr
  ws_bytes_sent :: int
  ws_bytes_received :: int
  ws_frames_sent :: int
  ws_frames_received :: int
  ws_messages_sent :: int
  ws_messages_received :: int
  ws_pings_sent :: int
  ws_pongs_received :: int

definition ws_new :: "int \<Rightarrow> ws" where
  "ws_new max_message_size =
     \<lparr>ws_max_message_size = max_message_size, ws_reader = None, ws_writer = None, ws_is_closed = False,
      ws_is_server = False, ws_message_buffer = [], ws_message_opcode = None, ws_close_code = None,
      ws_close_reason = [], ws_bytes_sent = 0, ws_bytes_received = 0, ws_frames_sent = 0, ws_frames_received = 0,
      ws_messages_sent = 0, ws_messages_received = 0, ws_pings_sent = 0, ws_pongs_received = 0\<rparr>"

definition ws_is_connected :: "ws \<Rightarrow> bool" where
  "ws_is_connected s \<longleftrightarrow> \<not> ws_is_closed s \<and> ws_writer s \<noteq> None"

definition ascii_bytes :: "string \<Rightarrow> bytes" where
  "ascii_bytes = map of_char"

definition crlf :: string where "crlf = [CHR 0x0D, CHR 0x0A]"

definition ws_write :: "bytes \<Rightarrow> (ws, unit) st" where
  "ws_write bs s =
     (case ws_writer s of
        None \<Rightarrow> (Inl AttributeErr, s)
      | Some out \<Rightarrow> (Inr (), s\<lparr>ws_writer := Some (out @ bs)\<rparr>))"

text \<open>\<^verbatim>\<open>accept\<close> on the server, over a connection with its reader and writer.\<close>

definition ws_accept :: "(string \<Rightarrow> string) \<Rightarrow> bytes \<Rightarrow> bytes \<Rightarrow> string \<Rightarrow> (ws, bool) st" where
  "ws_accept compute_accept_key reader writer request_key s =
     (let s1 = s\<lparr>ws_reader := Some reader, ws_writer := Some writer, ws_is_server := True, ws_is_closed := False\<rparr>
      in if request_key \<noteq> [] then
           st_bind (ws_write (ascii_bytes
             (''HTTP/1.1 101 Switching Protocols'' @ crlf @ ''Upgrade: websocket'' @ crlf @ ''Connection: Upgrade'' @ crlf @
              ''Sec-WebSocket-Accept: '' @ compute_accept_key request_key @ crlf @ crlf))) (\<lambda>_. st_return True) s1
         else (Inr True, s1))"

text \<open>\<^verbatim>\<open>send\<close>; the masking key is what the random numbers give.\<close>

definition message_payload :: "ws_message \<Rightarrow> (ws_opcode \<times> bytes) result" where
  "message_payload data =
     (case data of
        TextMessage text \<Rightarrow> res_bind (utf8_encode text) (\<lambda>bs. Inr (TEXT, bs))
      | BytesMessage bs \<Rightarrow> Inr (BINARY, bs))"

definition ws_send :: "bytes \<Rightarrow> ws_message \<Rightarrow> (ws, bool) st" where
  "ws_send random_key data s =
     (if ws_is_closed s \<or> ws_writer s = None then (Inl WebSocketClosed, s)
      else
        st_bind (st_result (message_payload data)) (\<lambda>(opcode, payload).
        if ilen payload > ws_max_message_size s then st_raise WebSocketErr
        else
          let masked = \<not> ws_is_server s; masking_key = (if masked then random_key else []) in
          st_bind (st_result (frame_encode (ws_frame_new True False False False opcode masked masking_key payload))) (\<lambda>bs.
          st_bind (ws_write bs) (\<lambda>_.
          st_bind (st_update (\<lambda>s. s\<lparr>ws_bytes_sent := ws_bytes_sent s + ilen payload,
                                   ws_frames_sent := ws_frames_sent s + 1,
                                   ws_messages_sent := ws_messages_sent s + 1\<rparr>)) (\<lambda>_.
            st_return True)))) s)"

text \<open>\<^verbatim>\<open>readexactly(n)\<close>: at the end of the stream the bytes that are left are lost.\<close>

definition read_exactly :: "int \<Rightarrow> ws \<Rightarrow> bytes option \<times> ws" where
  "read_exactly n s =
     (let input = (case ws_reader s of None \<Rightarrow> [] | Some bs \<Rightarrow> bs) in
      if n \<le> ilen input then (Some (take (nat n) input), s\<lparr>ws_reader := Some (drop (nat n) input)\<rparr>)
      else (None, s\<lparr>ws_reader := Some []\<rparr>))"

text \<open>An incomplete read behind the first two bytes.\<close>

definition read_part :: "int \<Rightarrow> (ws, bytes) st" where
  "read_part n s =
     (case read_exactly n s of (None, s') \<Rightarrow> (Inl WebSocketClosed, s') | (Some bs, s') \<Rightarrow> (Inr bs, s'))"

definition read_header :: "(ws, bytes) st" where
  "read_header s =
     (case read_exactly 2 s of
        (None, s') \<Rightarrow> (Inl WebSocketClosed, s'\<lparr>ws_is_closed := True\<rparr>)
      | (Some bs, s') \<Rightarrow> (Inr bs, s'))"

definition read_length :: "int \<Rightarrow> (ws, int) st" where
  "read_length len =
     (if len = 126 then st_bind (read_part 2) (\<lambda>bs. st_return (unpack_uint True bs))
      else if len = 127 then st_bind (read_part 8) (\<lambda>bs. st_return (unpack_uint True bs))
      else st_return len)"

definition read_frame :: "(ws, ws_frame) st" where
  "read_frame s =
     (if ws_is_closed s \<or> ws_reader s = None then (Inl WebSocketClosed, s)
      else
        st_bind read_header (\<lambda>header.
        let first = uint (header ! 0); second = uint (header ! 1) in
        st_bind (st_result (opcode_of (first AND 0x0F))) (\<lambda>opcode.
        let masked = (second AND 0x80 \<noteq> 0) in
        st_bind (read_length (second AND 0x7F)) (\<lambda>length.
        st_bind (if masked then read_part 4 else st_return []) (\<lambda>masking_key.
        st_bind (read_part length) (\<lambda>payload.
          st_return (ws_frame_new (first AND 0x80 \<noteq> 0) False False False opcode masked masking_key
            (if masked then apply_mask payload masking_key else payload))))))) s)"

definition send_control :: "ws_opcode \<Rightarrow> bytes \<Rightarrow> (ws, unit) st" where
  "send_control opcode payload =
     st_bind (st_result (frame_encode (ws_frame_new True False False False opcode False [] payload))) ws_write"

definition send_pong :: "bytes \<Rightarrow> (ws, unit) st" where
  "send_pong payload s =
     (if ws_writer s \<noteq> None \<and> \<not> ws_is_closed s then send_control PONG payload s else (Inr (), s))"

definition ws_ping :: "int \<Rightarrow> (ws, bool) st" where
  "ws_ping now s =
     (if ws_is_closed s \<or> ws_writer s = None then (Inr False, s)
      else
        st_bind (st_result (pack_uint True 8 now)) (\<lambda>payload.
        st_bind (send_control PING payload) (\<lambda>_.
        st_bind (st_update (\<lambda>s. s\<lparr>ws_pings_sent := ws_pings_sent s + 1\<rparr>)) (\<lambda>_.
          st_return True))) s)"

definition close_payload :: "bytes \<Rightarrow> int \<times> pystr" where
  "close_payload payload =
     (if ilen payload \<ge> 2 then
        (unpack_uint True (py_slice payload 0 2),
         if ilen payload > 2 then utf8_replace (py_slice payload 2 (ilen payload)) else [])
      else (1000, []))"

definition handle_close :: "bytes \<Rightarrow> (ws, unit) st" where
  "handle_close payload s =
     (let (code, reason) = close_payload payload;
          s1 = s\<lparr>ws_close_code := Some code, ws_close_reason := reason\<rparr>
      in st_bind
           (if \<not> ws_is_closed s1 then
              st_bind (st_result (pack_uint True 2 code)) (send_control CLOSE)
            else st_return ())
           (\<lambda>_. st_update (\<lambda>s. s\<lparr>ws_is_closed := True\<rparr>)) s1)"

text \<open>\<^verbatim>\<open>close\<close>: the reason is cut to 123 bytes.\<close>

definition ws_close :: "int \<Rightarrow> pystr \<Rightarrow> (ws, unit) st" where
  "ws_close code reason s =
     (if ws_is_closed s then (Inr (), s)
      else
        st_bind (st_result (pack_uint True 2 code)) (\<lambda>payload.
        st_bind (if reason \<noteq> []
                 then st_bind (st_result (utf8_encode reason)) (\<lambda>bs. st_return (payload @ take 123 bs))
                 else st_return payload) (\<lambda>payload.
        st_bind (send_control CLOSE payload) (\<lambda>_.
          st_update (\<lambda>s. s\<lparr>ws_is_closed := True, ws_close_code := Some code, ws_close_reason := reason\<rparr>)))) s)"

text \<open>What a message is returned as.\<close>

definition message_of :: "ws_opcode option \<Rightarrow> bytes \<Rightarrow> ws_message" where
  "message_of opcode bs = (if opcode = Some TEXT then TextMessage (utf8_replace bs) else BytesMessage bs)"

text \<open>One round of the loop of \<^verbatim>\<open>recv\<close>: a message, or nothing yet.\<close>

definition recv_frame :: "ws_frame \<Rightarrow> (ws, ws_message option) st" where
  "recv_frame f s =
     (let s = s\<lparr>ws_frames_received := ws_frames_received s + 1,
                ws_bytes_received := ws_bytes_received s + ilen (wf_payload f)\<rparr>
      in case wf_opcode f of
        CONTINUATION \<Rightarrow>
          let s1 = s\<lparr>ws_message_buffer := ws_message_buffer s @ wf_payload f\<rparr>
          in if wf_fin f
             then (Inr (Some (message_of (ws_message_opcode s1) (ws_message_buffer s1))),
                   s1\<lparr>ws_message_buffer := [], ws_message_opcode := None,
                      ws_messages_received := ws_messages_received s1 + 1\<rparr>)
             else (Inr None, s1)
      | PING \<Rightarrow> st_bind (send_pong (wf_payload f)) (\<lambda>_. st_return None) s
      | PONG \<Rightarrow> (Inr None, s\<lparr>ws_pongs_received := ws_pongs_received s + 1\<rparr>)
      | CLOSE \<Rightarrow> st_bind (handle_close (wf_payload f)) (\<lambda>_. st_raise WebSocketClosed) s
      | opcode \<Rightarrow>
          if wf_fin f
          then (Inr (Some (message_of (Some opcode) (wf_payload f))),
                s\<lparr>ws_messages_received := ws_messages_received s + 1\<rparr>)
          else (Inr None, s\<lparr>ws_message_buffer := wf_payload f, ws_message_opcode := Some opcode\<rparr>))"

definition input_length :: "ws \<Rightarrow> nat" where
  "input_length s = (case ws_reader s of None \<Rightarrow> 0 | Some bs \<Rightarrow> length bs)"

lemma read_part_le: "input_length (snd (read_part n s)) \<le> input_length s"
  by (auto simp: read_part_def read_exactly_def input_length_def Let_def split: option.splits if_splits)

lemma input_bind:
  assumes "input_length (snd (m s)) \<le> n" and "\<And>x t. input_length t \<le> n \<Longrightarrow> input_length (snd (f x t)) \<le> n"
  shows "input_length (snd (st_bind m f s)) \<le> n"
  using assms by (auto simp: st_bind_def split: prod.split sum.split)

text \<open>Methods that leave the reader alone.\<close>

definition same_reader :: "(ws, 'a) st \<Rightarrow> bool" where
  "same_reader m \<longleftrightarrow> (\<forall>s. ws_reader (snd (m s)) = ws_reader s)"

lemma same_readerD: "same_reader m \<Longrightarrow> ws_reader (snd (m s)) = ws_reader s"
  by (simp add: same_reader_def)

lemma same_reader_bind: "same_reader m \<Longrightarrow> (\<And>x. same_reader (f x)) \<Longrightarrow> same_reader (st_bind m f)"
  unfolding same_reader_def st_bind_def by (auto split: prod.split sum.split) (metis snd_conv)+

lemma same_reader_basic:
  "same_reader (st_result r)" "same_reader (st_return x)" "same_reader (st_raise e)" "same_reader (ws_write bs)"
  by (auto simp: same_reader_def ws_write_def split: option.split)

lemma same_reader_update: "(\<And>s. ws_reader (g s) = ws_reader s) \<Longrightarrow> same_reader (st_update g)"
  by (simp add: same_reader_def)

lemma same_reader_control: "same_reader (send_control opcode p)"
  unfolding send_control_def by (intro same_reader_bind same_reader_basic)

lemma same_reader_pong: "same_reader (send_pong p)"
  using same_reader_control [of PONG p] by (simp add: same_reader_def send_pong_def)

lemma same_reader_close: "same_reader (handle_close p)"
proof -
  have "same_reader (st_bind (st_bind (st_result (pack_uint True 2 c)) (send_control CLOSE))
      (\<lambda>_. st_update (\<lambda>s. s\<lparr>ws_is_closed := True\<rparr>)))" for c
    by (intro same_reader_bind same_reader_basic same_reader_control same_reader_update) simp
  moreover have "same_reader (st_bind (st_return ()) (\<lambda>_. st_update (\<lambda>s. s\<lparr>ws_is_closed := True\<rparr>)))"
    by (intro same_reader_bind same_reader_basic same_reader_update) simp
  ultimately show ?thesis by (auto simp: same_reader_def handle_close_def Let_def case_prod_beta)
qed

lemma recv_frame_reader: "ws_reader (snd (recv_frame f s)) = ws_reader s"
proof -
  have "same_reader (st_bind (handle_close p) (\<lambda>_. st_raise e :: (ws, ws_message option) st))" for p e
    by (intro same_reader_bind same_reader_close same_reader_basic)
  moreover have "same_reader (st_bind (send_pong p) (\<lambda>_. st_return None :: (ws, ws_message option) st))" for p
    by (intro same_reader_bind same_reader_pong same_reader_basic)
  ultimately show ?thesis
    by (auto simp: recv_frame_def Let_def same_reader_def split: ws_opcode.split)
qed

lemma read_frame_shorter:
  assumes "read_frame s = (Inr f, s')"
  shows "input_length s' < input_length s"
proof -
  from assms obtain input where input: "ws_reader s = Some input" and opened: "\<not> ws_is_closed s"
    by (auto simp: read_frame_def split: if_splits)
  show ?thesis
  proof (cases "2 \<le> length input")
    case False
    then have "read_header s = (Inl WebSocketClosed, s\<lparr>ws_reader := Some [], ws_is_closed := True\<rparr>)"
      using input by (simp add: read_header_def read_exactly_def)
    then show ?thesis using assms input opened by (simp add: read_frame_def)
  next
    case True
    define t where "t = s\<lparr>ws_reader := Some (drop 2 input)\<rparr>"
    have t: "read_header s = (Inr (take 2 input), t)" "input_length t < input_length s"
      using True input by (auto simp: read_header_def read_exactly_def t_def input_length_def)
    let ?n = "input_length t"
    have "input_length (snd (read_frame s)) \<le> ?n"
      unfolding read_frame_def
      using input opened
      by (auto simp: t(1) Let_def read_length_def read_part_le
          intro!: input_bind read_part_le [THEN order_trans])
    with t(2) assms show ?thesis by simp
  qed
qed

lemma recv_round_shorter:
  assumes "(Inr f, s') = read_frame s" and "(r, s'') = recv_frame f s'"
  shows "input_length s'' < input_length s"
  using read_frame_shorter [OF assms(1) [symmetric]] recv_frame_reader [of f s'] assms(2) [symmetric]
  by (simp add: input_length_def)

text \<open>\<^verbatim>\<open>recv\<close>: the loop ends, since every round takes bytes from the stream.\<close>

function recv_loop :: "ws \<Rightarrow> ws_message result \<times> ws" where
  "recv_loop s =
     (case read_frame s of
        (Inl e, s') \<Rightarrow> (Inl e, s')
      | (Inr f, s') \<Rightarrow>
          (case recv_frame f s' of
             (Inl e, s'') \<Rightarrow> (Inl e, s'')
           | (Inr (Some m), s'') \<Rightarrow> (Inr m, s'')
           | (Inr None, s'') \<Rightarrow> recv_loop s''))"
  by pat_completeness auto
termination
  by (relation "measure input_length") (auto dest: recv_round_shorter)

declare recv_loop.simps [simp del]

definition ws_recv :: "(ws, ws_message) st" where
  "ws_recv s = (if ws_is_closed s then (Inl WebSocketClosed, s) else recv_loop s)"

end
