(* ===== verification/WebSocket_Facts.thy ===== *)
theory WebSocket_Facts
  imports WebSocket
begin

text \<open>
  Frames are read back from bytes and from streams; messages, whole or in fragments, arrive as they were sent;
  the closing handshake.
\<close>

section \<open>Frames\<close>

lemma opcode_of_value [simp]: "opcode_of (opcode_value c) = Inr c"
  by (cases c) (simp_all add: opcode_of_def)

text \<open>The code of the length in the second byte, and the bytes of an extended length.\<close>

definition length_code :: "int \<Rightarrow> int" where
  "length_code n = (if n < 126 then n else if n < 65536 then 126 else 127)"

definition length_bytes :: "int \<Rightarrow> bytes" where
  "length_bytes n = (if n < 126 then [] else rev (le_bytes (if n < 65536 then 2 else 8) n))"

lemma length_code_range: "0 \<le> n \<Longrightarrow> 0 \<le> length_code n \<and> length_code n < 128"
  by (simp add: length_code_def)

lemma length_length_bytes [simp]:
  "length (length_bytes n) = (if n < 126 then 0 else if n < 65536 then 2 else 8)"
  by (simp add: length_bytes_def)

definition second_value :: "bool \<Rightarrow> int \<Rightarrow> int" where
  "second_value masked n = (if masked then 128 else 0) + length_code n"

lemma second_value_or: "0 \<le> c \<Longrightarrow> c < 128 \<Longrightarrow> (0x80 :: int) OR c = 128 + c"
  using or_push_bit_add [of c 7 1] by (simp add: or.commute)

lemma second_value_bits:
  assumes "0 \<le> n"
  shows "0 \<le> second_value masked n" "second_value masked n < 256"
    and "second_value masked n AND 0x7F = length_code n"
    and "second_value masked n AND 0x80 \<noteq> 0 \<longleftrightarrow> masked"
  using length_code_range [OF assms] by (auto simp: second_value_def and_128_eq_0)

lemma second_value_mod: "0 \<le> n \<Longrightarrow> second_value masked n mod 128 = length_code n"
  using second_value_bits(3) [of n masked] by simp

lemma first_byte_bits:
  "0 \<le> first_byte f" "first_byte f < 256"
  "first_byte f AND 0x0F = opcode_value (wf_opcode f)"
  "first_byte f AND 0x80 \<noteq> 0 \<longleftrightarrow> wf_fin f" "first_byte f AND 0x40 \<noteq> 0 \<longleftrightarrow> wf_rsv1 f"
  "first_byte f AND 0x20 \<noteq> 0 \<longleftrightarrow> wf_rsv2 f" "first_byte f AND 0x10 \<noteq> 0 \<longleftrightarrow> wf_rsv3 f"
  by (cases "wf_fin f"; cases "wf_rsv1 f"; cases "wf_rsv2 f"; cases "wf_rsv3 f"; cases "wf_opcode f";
      simp add: first_byte_def)+

lemma length_apply_mask [simp]: "length (apply_mask data key) = length data"
  by (simp add: apply_mask_def)

lemma apply_mask_twice [simp]: "apply_mask (apply_mask data key) key = data"
  by (cases "length key = 4") (auto simp: apply_mask_def xor.assoc intro!: nth_equalityI)

lemma apply_mask_Nil [simp]: "apply_mask data [] = data"
  by (simp add: apply_mask_def)

definition frame_ok :: "ws_frame \<Rightarrow> bool" where
  "frame_ok f \<longleftrightarrow> length (wf_masking_key f) = (if wf_mask f then 4 else 0) \<and> wf_length f = ilen (wf_payload f) \<and>
     wf_length f < 2 ^ 64"

text \<open>The bytes of a frame.\<close>

definition frame_bytes :: "ws_frame \<Rightarrow> bytes" where
  "frame_bytes f =
     [word_of_int (first_byte f), word_of_int (second_value (wf_mask f) (wf_length f))] @ length_bytes (wf_length f) @
     wf_masking_key f @ apply_mask (wf_payload f) (wf_masking_key f)"

lemma frame_encode_ok: "frame_ok f \<Longrightarrow> frame_encode f = Inr (frame_bytes f)"
proof -
  assume f: "frame_ok f"
  let ?n = "wf_length f"
  have n: "0 \<le> ?n" "?n < 256 ^ 8" using f by (auto simp: frame_ok_def)
  have key: "(if wf_mask f \<and> wf_masking_key f \<noteq> [] then apply_mask (wf_payload f) (wf_masking_key f) else wf_payload f) =
      apply_mask (wf_payload f) (wf_masking_key f)"
    using f by (auto simp: frame_ok_def)
  have second: "(0 OR (if wf_mask f then 0x80 else 0)) OR c = (if wf_mask f then 128 else 0) + c"
    if "0 \<le> c" "c < 128" for c :: int
    using that second_value_or by simp
  have pair: "byte_pair (first_byte f) (second_value (wf_mask f) ?n) =
      Inr [word_of_int (first_byte f), word_of_int (second_value (wf_mask f) ?n)]"
    using first_byte_bits(1,2) second_value_bits(1,2) [OF n(1)] by (simp add: byte_pair_def)
  consider "?n < 126" | "126 \<le> ?n" "?n < 65536" | "65536 \<le> ?n" by linarith
  then show ?thesis
  proof cases
    case 1
    then show ?thesis using n pair f second [of ?n]
      by (auto simp: frame_encode_def frame_bytes_def Let_def key second_value_def length_code_def length_bytes_def frame_ok_def)
  next
    case 2
    then have "pack_uint True 2 ?n = Inr (rev (le_bytes 2 ?n))" by (simp add: pack_uint_Inr)
    then show ?thesis using 2 pair f second [of 126]
      by (auto simp: frame_encode_def frame_bytes_def Let_def key second_value_def length_code_def length_bytes_def frame_ok_def)
  next
    case 3
    then have "pack_uint True 8 ?n = Inr (rev (le_bytes 8 ?n))" using n by (simp add: pack_uint_Inr)
    then show ?thesis using 3 pair f second [of 127]
      by (auto simp: frame_encode_def frame_bytes_def Let_def key second_value_def length_code_def length_bytes_def frame_ok_def)
  qed
qed

lemma frame_header_values:
  assumes "frame_ok f"
  shows "uint (word_of_int (first_byte f) :: byte) = first_byte f"
    and "uint (word_of_int (second_value (wf_mask f) (wf_length f)) :: byte) = second_value (wf_mask f) (wf_length f)"
proof -
  have "0 \<le> wf_length f" using assms by (simp add: frame_ok_def)
  then show "uint (word_of_int (first_byte f) :: byte) = first_byte f"
    and "uint (word_of_int (second_value (wf_mask f) (wf_length f)) :: byte) = second_value (wf_mask f) (wf_length f)"
    using first_byte_bits(1,2) [of f] second_value_bits(1,2) by (simp_all add: uint_word_of_int)
qed

lemma length_bytes_value: "126 \<le> n \<Longrightarrow> n < 2 ^ 64 \<Longrightarrow> unpack_uint True (length_bytes n) = n"
  using be_words [of n 2] be_words [of n 8] by (simp add: length_bytes_def)

lemma decode_length_at:
  assumes "0 \<le> n" and "n < 2 ^ 64" and "second AND 0x7F = length_code n" and "length h = 2"
  shows "decode_length (h @ length_bytes n @ post) second = Inr (n, 2 + ilen (length_bytes n))"
proof -
  have "py_slice (h @ length_bytes n @ post) (ilen h) (ilen h + ilen (length_bytes n)) = length_bytes n" by (rule slice_at)
  then show ?thesis
    using assms length_bytes_value [of n] by (auto simp: decode_length_def Let_def length_code_def split: if_splits)
qed

lemma frame_decode_parts:
  assumes "2 \<le> ilen data" and "uint (data ! 0) = first_byte f" and "uint (data ! 1) = second"
    and "(second AND 0x80 \<noteq> 0) = wf_mask f"
    and "decode_length data second = Inr (n, off1)" and "decode_key data (wf_mask f) off1 = Inr (key, off2)"
    and "off2 + n \<le> ilen data" and "py_slice data off2 (off2 + n) = p"
  shows "frame_decode data =
    Inr (ws_frame_new (wf_fin f) (wf_rsv1 f) (wf_rsv2 f) (wf_rsv3 f) (wf_opcode f) (wf_mask f) key
      (if wf_mask f then apply_mask p key else p))"
  using assms by (simp add: frame_decode_def Let_def first_byte_bits)

lemma frame_ok_new:
  "frame_ok f \<Longrightarrow> ws_frame_new (wf_fin f) (wf_rsv1 f) (wf_rsv2 f) (wf_rsv3 f) (wf_opcode f) (wf_mask f) (wf_masking_key f)
     (wf_payload f) = f"
  by (cases f) (simp add: ws_frame_new_def frame_ok_def)

lemma frame_decode_bytes:
  assumes "frame_ok f"
  shows "frame_decode (frame_bytes f @ post) = Inr f"
proof -
  let ?h = "[word_of_int (first_byte f), word_of_int (second_value (wf_mask f) (wf_length f))] :: bytes"
  let ?l = "length_bytes (wf_length f)" and ?k = "wf_masking_key f" and ?p = "apply_mask (wf_payload f) (wf_masking_key f)"
  let ?data = "frame_bytes f @ post"
  have n: "0 \<le> wf_length f" "wf_length f < 2 ^ 64" "wf_length f = ilen ?p" and k: "length ?k = (if wf_mask f then 4 else 0)"
    using assms by (auto simp: frame_ok_def)
  have data: "?data = ?h @ ?l @ ?k @ ?p @ post" by (simp add: frame_bytes_def)
  have "frame_decode ?data =
    Inr (ws_frame_new (wf_fin f) (wf_rsv1 f) (wf_rsv2 f) (wf_rsv3 f) (wf_opcode f) (wf_mask f) ?k
      (if wf_mask f then apply_mask ?p ?k else ?p))"
  proof (rule frame_decode_parts)
    show "2 \<le> ilen ?data" "uint (?data ! 0) = first_byte f" "uint (?data ! 1) = second_value (wf_mask f) (wf_length f)"
      by (simp_all add: frame_bytes_def frame_header_values [OF assms])
    show "(second_value (wf_mask f) (wf_length f) AND 0x80 \<noteq> 0) = wf_mask f" by (rule second_value_bits(4) [OF n(1)])
    show "decode_length ?data (second_value (wf_mask f) (wf_length f)) = Inr (wf_length f, ilen ?h + ilen ?l)"
      using decode_length_at [OF n(1,2) second_value_bits(3) [OF n(1), of "wf_mask f"], where h = ?h and post = "?k @ ?p @ post"]
      unfolding data by simp
    show "decode_key ?data (wf_mask f) (ilen ?h + ilen ?l) = Inr (?k, ilen (?h @ ?l @ ?k))"
      unfolding data using slice_at [of "?h @ ?l" ?k "?p @ post"] k
      by (auto simp: decode_key_def simp del: length_length_bytes)
    show "ilen (?h @ ?l @ ?k) + wf_length f \<le> ilen ?data" unfolding data using n by simp
    show "py_slice ?data (ilen (?h @ ?l @ ?k)) (ilen (?h @ ?l @ ?k) + wf_length f) = ?p"
      unfolding data using slice_at [of "?h @ ?l @ ?k" ?p post] n by simp
  qed
  then show ?thesis using frame_ok_new [OF assms] k by (cases "wf_mask f") simp_all
qed

text \<open>
  A frame whose key has four bytes if it is masked and none otherwise, with less than 2 to the 64 bytes, is
  encoded, and decoding gives the frame back, whatever follows it.
\<close>
theorem websocket_frame_roundtrip:
  assumes "length key = (if masked then 4 else 0)" and "ilen payload < 2 ^ 64"
  shows "\<exists>bs. frame_encode (ws_frame_new fin rsv1 rsv2 rsv3 opcode masked key payload) = Inr bs \<and>
    (\<forall>post. frame_decode (bs @ post) = Inr (ws_frame_new fin rsv1 rsv2 rsv3 opcode masked key payload))"
proof -
  have "frame_ok (ws_frame_new fin rsv1 rsv2 rsv3 opcode masked key payload)"
    using assms by (simp add: frame_ok_def ws_frame_new_def)
  then show ?thesis using frame_encode_ok frame_decode_bytes by blast
qed

theorem websocket_frame_roundtrip_witness:
  "\<exists>bs. frame_encode (ws_frame_new True False False False TEXT True [1, 2, 3, 4] [72, 105]) = Inr bs \<and>
    (\<forall>post. frame_decode (bs @ post) = Inr (ws_frame_new True False False False TEXT True [1, 2, 3, 4] [72, 105]))"
  by (rule websocket_frame_roundtrip) simp_all

section \<open>Streams\<close>

lemma read_exactly_at:
  "ws_reader s = Some (xs @ ys) \<Longrightarrow> n = ilen xs \<Longrightarrow> read_exactly n s = (Some xs, s\<lparr>ws_reader := Some ys\<rparr>)"
  by (simp add: read_exactly_def)

lemma read_part_at:
  "ws_reader s = Some (xs @ ys) \<Longrightarrow> n = ilen xs \<Longrightarrow> read_part n s = (Inr xs, s\<lparr>ws_reader := Some ys\<rparr>)"
  by (simp add: read_part_def read_exactly_at)

lemma read_length_at:
  assumes "ws_reader s = Some (length_bytes n @ ys)" and "0 \<le> n" and "n < 2 ^ 64"
  shows "read_length (length_code n) s = (Inr n, s\<lparr>ws_reader := Some ys\<rparr>)"
proof (cases "n < 126")
  case True
  then have "s\<lparr>ws_reader := Some ys\<rparr> = s" using assms(1) by (cases s) (simp add: length_bytes_def)
  with True show ?thesis by (simp add: read_length_def length_code_def)
next
  case False
  then have "unpack_uint True (length_bytes n) = n" using assms by (intro length_bytes_value) auto
  then show ?thesis using assms(1) False
    by (auto simp: read_length_def length_code_def st_bind_def read_part_at [OF assms(1)])
qed

text \<open>The reserved bits are not read.\<close>

definition unreserved :: "ws_frame \<Rightarrow> ws_frame" where
  "unreserved f = ws_frame_new (wf_fin f) False False False (wf_opcode f) (wf_mask f) (wf_masking_key f) (wf_payload f)"

lemma unreserved_simps [simp]:
  "wf_fin (unreserved f) = wf_fin f" "wf_opcode (unreserved f) = wf_opcode f" "wf_payload (unreserved f) = wf_payload f"
  by (simp_all add: unreserved_def ws_frame_new_def)

lemma read_frame_bytes:
  assumes "frame_ok f" and "\<not> ws_is_closed s" and "ws_reader s = Some (frame_bytes f @ post)"
  shows "read_frame s = (Inr (unreserved f), s\<lparr>ws_reader := Some post\<rparr>)"
proof -
  let ?h = "[word_of_int (first_byte f), word_of_int (second_value (wf_mask f) (wf_length f))] :: bytes"
  let ?l = "length_bytes (wf_length f)" and ?k = "wf_masking_key f" and ?p = "apply_mask (wf_payload f) (wf_masking_key f)"
  have n: "0 \<le> wf_length f" "wf_length f < 2 ^ 64" "wf_length f = ilen ?p" and k: "length ?k = (if wf_mask f then 4 else 0)"
    using assms(1) by (auto simp: frame_ok_def)
  define s1 s2 s3 where "s1 = s\<lparr>ws_reader := Some (?l @ ?k @ ?p @ post)\<rparr>"
    and "s2 = s\<lparr>ws_reader := Some (?k @ ?p @ post)\<rparr>" and "s3 = s\<lparr>ws_reader := Some (?p @ post)\<rparr>"
  have "read_header s = (Inr ?h, s1)"
    using read_exactly_at [of s ?h "?l @ ?k @ ?p @ post" 2] assms(3)
    by (simp add: read_header_def frame_bytes_def s1_def)
  moreover have "read_length (length_code (wf_length f)) s1 = (Inr (wf_length f), s2)"
    using read_length_at [of s1 "wf_length f" "?k @ ?p @ post"] n by (simp add: s1_def s2_def)
  moreover have "(if wf_mask f then read_part 4 else st_return []) s2 = (Inr ?k, s3)"
    using read_part_at [of s2 ?k "?p @ post" 4] k by (cases "wf_mask f") (simp_all add: s2_def s3_def)
  moreover have "read_part (wf_length f) s3 = (Inr ?p, s\<lparr>ws_reader := Some post\<rparr>)"
    using read_part_at [of s3 ?p post "wf_length f"] n by (simp add: s3_def)
  moreover have "(if wf_mask f then apply_mask ?p ?k else ?p) = wf_payload f" using k by (cases "wf_mask f") simp_all
  ultimately show ?thesis
    using assms(2,3)
    by (simp add: read_frame_def Let_def frame_header_values [OF assms(1)] first_byte_bits second_value_bits [OF n(1)] second_value_mod [OF n(1)] unreserved_def)
qed

section \<open>Messages\<close>

text \<open>The frame of a message.\<close>

definition message_frame :: "bool \<Rightarrow> bytes \<Rightarrow> ws_message \<Rightarrow> ws_frame" where
  "message_frame server key m =
     (case message_payload m of
        Inr (opcode, p) \<Rightarrow> ws_frame_new True False False False opcode (\<not> server) (if server then [] else key) p
      | Inl _ \<Rightarrow> ws_frame_new True False False False TEXT False [] [])"

definition sendable :: "int \<Rightarrow> bytes \<times> ws_message \<Rightarrow> bool" where
  "sendable bound = (\<lambda>(key, m). length key = 4 \<and> (case message_payload m of Inl _ \<Rightarrow> False | Inr (_, p) \<Rightarrow> ilen p \<le> bound))"

lemma message_frame_ok: "sendable bound (key, m) \<Longrightarrow> bound < 2 ^ 64 \<Longrightarrow> frame_ok (message_frame server key m)"
  by (auto simp: sendable_def message_frame_def frame_ok_def ws_frame_new_def split: sum.splits)

lemma ws_send_ok:
  assumes "\<not> ws_is_closed s" and "ws_writer s = Some out" and "sendable (ws_max_message_size s) (key, m)"
    and "ws_max_message_size s < 2 ^ 64"
  obtains s' where "ws_send key m s = (Inr True, s')" and "ws_writer s' = Some (out @ frame_bytes (message_frame (ws_is_server s) key m))"
    and "\<not> ws_is_closed s'" and "ws_max_message_size s' = ws_max_message_size s" and "ws_is_server s' = ws_is_server s"
proof -
  from assms(3) obtain opcode p where p: "message_payload m = Inr (opcode, p)" "ilen p \<le> ws_max_message_size s" "length key = 4"
    by (auto simp: sendable_def split: sum.splits)
  have "frame_encode (message_frame (ws_is_server s) key m) = Inr (frame_bytes (message_frame (ws_is_server s) key m))"
    by (rule frame_encode_ok [OF message_frame_ok [OF assms(3,4)]])
  then have enc: "frame_encode (ws_frame_new True False False False opcode (\<not> ws_is_server s) (if \<not> ws_is_server s then key else []) p) =
      Inr (frame_bytes (message_frame (ws_is_server s) key m))"
    by (simp add: message_frame_def p(1) split: if_splits)
  show thesis
    by (rule that [of "s\<lparr>ws_writer := Some (out @ frame_bytes (message_frame (ws_is_server s) key m)),
          ws_bytes_sent := ws_bytes_sent s + ilen p, ws_frames_sent := ws_frames_sent s + 1, ws_messages_sent := ws_messages_sent s + 1\<rparr>"])
      (use assms(1,2) p enc in \<open>auto simp: ws_send_def ws_write_def st_bind_def Let_def\<close>)
qed

lemma ws_recv_ok:
  assumes "sendable bound (key, m)" and "bound < 2 ^ 64" and "\<not> ws_is_closed s"
    and "ws_reader s = Some (frame_bytes (message_frame server key m) @ post)"
  obtains s' where "ws_recv s = (Inr m, s')" and "ws_reader s' = Some post" and "\<not> ws_is_closed s'"
    and "ws_messages_received s' = ws_messages_received s + 1"
proof -
  let ?f = "message_frame server key m"
  from assms(1) obtain opcode p where p: "message_payload m = Inr (opcode, p)"
    by (auto simp: sendable_def split: sum.splits)
  have f: "wf_fin ?f" "wf_opcode ?f = opcode" "wf_payload ?f = p"
    by (simp_all add: message_frame_def p ws_frame_new_def)
  have opcode: "opcode = TEXT \<or> opcode = BINARY" and m: "message_of (Some opcode) p = m"
    using p utf8_lenient_encode(1)
    by (auto simp: message_payload_def message_of_def res_bind_eq_Inr split: ws_message.splits)
  let ?s = "s\<lparr>ws_reader := Some post, ws_frames_received := ws_frames_received s + 1,
      ws_bytes_received := ws_bytes_received s + ilen p, ws_messages_received := ws_messages_received s + 1\<rparr>"
  have "read_frame s = (Inr (unreserved ?f), s\<lparr>ws_reader := Some post\<rparr>)"
    by (rule read_frame_bytes [OF message_frame_ok [OF assms(1,2)] assms(3,4)])
  then have "recv_loop s = (Inr m, ?s)"
    using opcode m f by (subst recv_loop.simps) (auto simp: recv_frame_def Let_def)
  then show thesis using assms(3) by (intro that [of ?s]) (simp_all add: ws_recv_def)
qed

definition send_messages :: "(bytes \<times> ws_message) list \<Rightarrow> (ws, unit) st" where
  "send_messages ms = st_for ms (\<lambda>(key, m). st_bind (ws_send key m) (\<lambda>_. st_return ()))"

fun recv_messages :: "nat \<Rightarrow> (ws, ws_message list) st" where
  "recv_messages 0 = st_return []"
| "recv_messages (Suc n) = st_bind ws_recv (\<lambda>m. st_bind (recv_messages n) (\<lambda>ms. st_return (m # ms)))"

definition sent_bytes :: "bool \<Rightarrow> (bytes \<times> ws_message) list \<Rightarrow> bytes" where
  "sent_bytes server ms = concat (map (\<lambda>(key, m). frame_bytes (message_frame server key m)) ms)"

lemma send_messages_ok:
  assumes "list_all (sendable (ws_max_message_size s)) ms" and "ws_max_message_size s < 2 ^ 64"
    and "\<not> ws_is_closed s" and "ws_writer s = Some out"
  shows "\<exists>s'. send_messages ms s = (Inr (), s') \<and> ws_writer s' = Some (out @ sent_bytes (ws_is_server s) ms)"
  using assms
proof (induction ms arbitrary: s out)
  case Nil
  then show ?case by (simp add: send_messages_def sent_bytes_def)
next
  case (Cons km ms)
  obtain key m where km: "km = (key, m)" by fastforce
  from Cons.prems obtain s1 where s1: "ws_send key m s = (Inr True, s1)"
      "ws_writer s1 = Some (out @ frame_bytes (message_frame (ws_is_server s) key m))"
      "\<not> ws_is_closed s1" "ws_max_message_size s1 = ws_max_message_size s" "ws_is_server s1 = ws_is_server s"
    by (auto simp: km elim: ws_send_ok)
  then have "\<exists>s'. send_messages ms s1 = (Inr (), s') \<and>
      ws_writer s' = Some ((out @ frame_bytes (message_frame (ws_is_server s) key m)) @ sent_bytes (ws_is_server s1) ms)"
    using Cons.prems by (intro Cons.IH) simp_all
  with s1 show ?case by (auto simp: send_messages_def sent_bytes_def st_bind_def km)
qed

lemma recv_messages_ok:
  assumes "list_all (sendable bound) ms" and "bound < 2 ^ 64" and "\<not> ws_is_closed r"
    and "ws_reader r = Some (sent_bytes server ms @ post)"
  shows "\<exists>r'. recv_messages (length ms) r = (Inr (map snd ms), r') \<and> ws_reader r' = Some post \<and>
    ws_messages_received r' = ws_messages_received r + ilen ms"
  using assms
proof (induction ms arbitrary: r)
  case Nil
  then show ?case by (simp add: sent_bytes_def)
next
  case (Cons km ms)
  obtain key m where km: "km = (key, m)" by fastforce
  from Cons.prems have "sendable bound (key, m)"
    "ws_reader r = Some (frame_bytes (message_frame server key m) @ sent_bytes server ms @ post)"
    by (simp_all add: km sent_bytes_def)
  then obtain r1 where r1: "ws_recv r = (Inr m, r1)" "ws_reader r1 = Some (sent_bytes server ms @ post)" "\<not> ws_is_closed r1"
      "ws_messages_received r1 = ws_messages_received r + 1"
    using ws_recv_ok [OF _ Cons.prems(2,3)] by metis
  then have "\<exists>r'. recv_messages (length ms) r1 = (Inr (map snd ms), r') \<and> ws_reader r' = Some post \<and>
      ws_messages_received r' = ws_messages_received r1 + ilen ms"
    using Cons.prems by (intro Cons.IH) simp_all
  with r1 show ?case by (auto simp: st_bind_def km)
qed

text \<open>
  C21. Messages arrive: texts and byte strings that an open connection sends, each within its limit, are received
  in their order by an open connection that reads the bytes written, and exactly these bytes are taken from
  the stream.
\<close>
theorem websocket_messages_delivered:
  assumes "list_all (sendable (ws_max_message_size s)) ms" and "ws_max_message_size s < 2 ^ 64"
    and "ws_is_connected s" and "ws_writer s = Some []"
  shows "\<exists>s' out. send_messages ms s = (Inr (), s') \<and> ws_writer s' = Some out \<and>
    (\<forall>r post. \<not> ws_is_closed r \<and> ws_reader r = Some (out @ post) \<longrightarrow>
      (\<exists>r'. recv_messages (length ms) r = (Inr (map snd ms), r') \<and> ws_reader r' = Some post \<and>
        ws_messages_received r' = ws_messages_received r + ilen ms))"
proof -
  from send_messages_ok [OF assms(1,2) _ assms(4)] assms(3)
  obtain s' where "send_messages ms s = (Inr (), s')" "ws_writer s' = Some (sent_bytes (ws_is_server s) ms)"
    by (auto simp: ws_is_connected_def)
  moreover have "\<exists>r'. recv_messages (length ms) r = (Inr (map snd ms), r') \<and> ws_reader r' = Some post \<and>
      ws_messages_received r' = ws_messages_received r + ilen ms"
    if "\<not> ws_is_closed r" "ws_reader r = Some (sent_bytes (ws_is_server s) ms @ post)" for r post
    using recv_messages_ok [OF assms(1,2)] that by blast
  ultimately show ?thesis by blast
qed

definition demo_client :: ws where "demo_client = (ws_new 1048576)\<lparr>ws_writer := Some []\<rparr>"

definition demo_messages :: "(bytes \<times> ws_message) list" where
  "demo_messages = [([1, 2, 3, 4], TextMessage [72, 105]), ([5, 6, 7, 8], BytesMessage [0, 255])]"

theorem websocket_messages_delivered_witness:
  "\<exists>s' out. send_messages demo_messages demo_client = (Inr (), s') \<and> ws_writer s' = Some out \<and>
    (\<exists>r'. recv_messages 2 ((ws_new 1048576)\<lparr>ws_reader := Some (out @ [])\<rparr>) =
      (Inr [TextMessage [72, 105], BytesMessage [0, 255]], r'))"
proof -
  have "list_all (sendable (ws_max_message_size demo_client)) demo_messages"
    by (simp add: demo_messages_def demo_client_def ws_new_def sendable_def message_payload_def utf8_encode_def utf8_char_def)
  moreover have "ws_max_message_size demo_client < 2 ^ 64" "ws_is_connected demo_client" "ws_writer demo_client = Some []"
    by (simp_all add: demo_client_def ws_new_def ws_is_connected_def)
  ultimately obtain s' out where sent: "send_messages demo_messages demo_client = (Inr (), s')" "ws_writer s' = Some out"
    and received: "\<And>r post. \<not> ws_is_closed r \<and> ws_reader r = Some (out @ post) \<Longrightarrow>
      \<exists>r'. recv_messages (length demo_messages) r = (Inr (map snd demo_messages), r')"
    using websocket_messages_delivered [of demo_client demo_messages] by blast
  have "\<exists>r'. recv_messages (length demo_messages) ((ws_new 1048576)\<lparr>ws_reader := Some (out @ [])\<rparr>) =
      (Inr (map snd demo_messages), r')"
    by (rule received) (simp add: ws_new_def)
  then have "\<exists>r'. recv_messages 2 ((ws_new 1048576)\<lparr>ws_reader := Some (out @ [])\<rparr>) =
      (Inr [TextMessage [72, 105], BytesMessage [0, 255]], r')"
    by (simp add: demo_messages_def numeral_2_eq_2)
  with sent show ?thesis by blast
qed

section \<open>Fragments and control frames\<close>

text \<open>What may stand between the first and the last fragment of a message.\<close>

definition between :: "ws_frame \<Rightarrow> bool" where
  "between f \<longleftrightarrow> frame_ok f \<and> (wf_opcode f = CONTINUATION \<and> \<not> wf_fin f \<or> wf_opcode f \<in> {PING, PONG})"

definition fragment_payload :: "ws_frame \<Rightarrow> bytes" where
  "fragment_payload f = (if wf_opcode f = CONTINUATION then wf_payload f else [])"

definition answer :: "ws_frame \<Rightarrow> bytes" where
  "answer f = (if wf_opcode f = PING then frame_bytes (ws_frame_new True False False False PONG False [] (wf_payload f)) else [])"

text \<open>The state in the middle of a message.\<close>

definition amid :: "bytes \<Rightarrow> bytes \<Rightarrow> ws_opcode option \<Rightarrow> bytes \<Rightarrow> ws \<Rightarrow> bool" where
  "amid input out opcode buffer s \<longleftrightarrow> \<not> ws_is_closed s \<and> ws_reader s = Some input \<and> ws_writer s = Some out \<and>
     ws_message_opcode s = opcode \<and> ws_message_buffer s = buffer"

lemma send_control_ok:
  "ilen p < 2 ^ 64 \<Longrightarrow> ws_writer s = Some out \<Longrightarrow>
   send_control opcode p s =
     (Inr (), s\<lparr>ws_writer := Some (out @ frame_bytes (ws_frame_new True False False False opcode False [] p))\<rparr>)"
  by (subst send_control_def, subst frame_encode_ok) (simp_all add: frame_ok_def ws_frame_new_def ws_write_def)

lemma recv_between:
  assumes "amid (frame_bytes f @ input) out opcode buffer s" and "between f"
  obtains s' where "amid input (out @ answer f) opcode (buffer @ fragment_payload f) s'" and "recv_loop s = recv_loop s'"
proof -
  have f: "frame_ok f" "ilen (wf_payload f) < 2 ^ 64" using assms(2) by (auto simp: between_def frame_ok_def)
  have s: "\<not> ws_is_closed s" "ws_reader s = Some (frame_bytes f @ input)" "ws_writer s = Some out"
    using assms(1) by (simp_all add: amid_def)
  note read = read_frame_bytes [OF f(1) s(1,2)]
  consider "wf_opcode f = CONTINUATION" "\<not> wf_fin f" | "wf_opcode f = PING" | "wf_opcode f = PONG"
    using assms(2) by (auto simp: between_def)
  then have "\<exists>s'. recv_frame (unreserved f) (s\<lparr>ws_reader := Some input\<rparr>) = (Inr None, s') \<and>
      amid input (out @ answer f) opcode (buffer @ fragment_payload f) s'"
  proof cases
    case 1
    then show ?thesis using assms(1) by (auto simp: recv_frame_def Let_def amid_def answer_def fragment_payload_def)
  next
    case 2
    then show ?thesis using assms(1) s f
      by (auto simp: recv_frame_def Let_def amid_def answer_def fragment_payload_def send_pong_def send_control_ok st_bind_def)
  next
    case 3
    then show ?thesis using assms(1) by (auto simp: recv_frame_def Let_def amid_def answer_def fragment_payload_def)
  qed
  then obtain s' where s': "recv_frame (unreserved f) (s\<lparr>ws_reader := Some input\<rparr>) = (Inr None, s')"
      "amid input (out @ answer f) opcode (buffer @ fragment_payload f) s'" by blast
  moreover have "recv_loop s = recv_loop s'" by (subst recv_loop.simps) (simp add: read s'(1))
  ultimately show thesis by (intro that) 
qed

lemma recv_betweens:
  assumes "list_all between fs" and "amid (concat (map frame_bytes fs) @ input) out opcode buffer s"
  shows "\<exists>s'. amid input (out @ concat (map answer fs)) opcode (buffer @ concat (map fragment_payload fs)) s' \<and>
    recv_loop s = recv_loop s'"
  using assms
proof (induction fs arbitrary: out buffer s)
  case (Cons f fs)
  from Cons.prems have "amid (frame_bytes f @ concat (map frame_bytes fs) @ input) out opcode buffer s" "between f" by simp_all
  then obtain s1 where s1: "amid (concat (map frame_bytes fs) @ input) (out @ answer f) opcode (buffer @ fragment_payload f) s1"
      "recv_loop s = recv_loop s1" by (rule recv_between)
  from Cons.IH [OF _ s1(1)] Cons.prems(1) s1(2) show ?case by simp
qed auto

text \<open>
  C22. A message in fragments: a first frame, any continuations with pings and pongs among them, and a final
  continuation are received as one message, the payloads one after the other; every ping is answered by a
  pong with its payload, in their order.  The limit of the message size is not applied.
\<close>
theorem websocket_fragments:
  assumes "frame_ok first" and "\<not> wf_fin first" and "wf_opcode first \<in> {TEXT, BINARY}" and "list_all between fs"
    and "frame_ok final" and "wf_fin final" and "wf_opcode final = CONTINUATION"
    and "\<not> ws_is_closed s" and "ws_writer s = Some out"
    and "ws_reader s = Some (concat (map frame_bytes (first # fs @ [final])) @ post)"
  shows "\<exists>s'. ws_recv s = (Inr (message_of (Some (wf_opcode first))
        (wf_payload first @ concat (map fragment_payload fs) @ wf_payload final)), s') \<and>
    ws_reader s' = Some post \<and> ws_writer s' = Some (out @ concat (map answer fs)) \<and>
    ws_message_buffer s' = [] \<and> ws_message_opcode s' = None"
proof -
  let ?mid = "concat (map frame_bytes fs) @ frame_bytes final @ post"
  have s: "ws_reader s = Some (frame_bytes first @ ?mid)" using assms(10) by simp
  have "\<exists>s1. recv_frame (unreserved first) (s\<lparr>ws_reader := Some ?mid\<rparr>) = (Inr None, s1) \<and>
      amid ?mid out (Some (wf_opcode first)) (wf_payload first) s1"
    using assms(2,3,8,9) by (auto simp: recv_frame_def Let_def amid_def)
  then obtain s1 where s1: "recv_frame (unreserved first) (s\<lparr>ws_reader := Some ?mid\<rparr>) = (Inr None, s1)"
      "amid ?mid out (Some (wf_opcode first)) (wf_payload first) s1" by blast
  from recv_betweens [OF assms(4) s1(2)] obtain s2 where
    s2: "amid (frame_bytes final @ post) (out @ concat (map answer fs)) (Some (wf_opcode first))
      (wf_payload first @ concat (map fragment_payload fs)) s2" "recv_loop s1 = recv_loop s2" by blast
  have "recv_loop s = recv_loop s2"
    using s1(1) s2(2) by (subst recv_loop.simps) (simp add: read_frame_bytes [OF assms(1,8) s])
  moreover have "read_frame s2 = (Inr (unreserved final), s2\<lparr>ws_reader := Some post\<rparr>)"
    using s2(1) by (intro read_frame_bytes [OF assms(5)]) (simp_all add: amid_def)
  then have "\<exists>s'. recv_loop s2 = (Inr (message_of (Some (wf_opcode first))
        (wf_payload first @ concat (map fragment_payload fs) @ wf_payload final)), s') \<and>
    ws_reader s' = Some post \<and> ws_writer s' = Some (out @ concat (map answer fs)) \<and>
    ws_message_buffer s' = [] \<and> ws_message_opcode s' = None"
    using assms(6,7) s2(1) by (subst recv_loop.simps) (auto simp: recv_frame_def Let_def amid_def)
  ultimately show ?thesis using assms(8) by (simp add: ws_recv_def)
qed

text \<open>A text in three fragments with a ping after the first.\<close>

definition demo_fragments :: "ws_frame list" where
  "demo_fragments =
     [ws_frame_new False False False False TEXT False [] [97], ws_frame_new True False False False PING True [1, 2, 3, 4] [7],
      ws_frame_new False False False False CONTINUATION True [9, 9, 9, 9] [98],
      ws_frame_new True False False False CONTINUATION False [] [99]]"

theorem websocket_fragments_witness:
  "\<exists>s'. ws_recv (demo_client\<lparr>ws_reader := Some (concat (map frame_bytes demo_fragments) @ [])\<rparr>) =
      (Inr (TextMessage [97, 98, 99]), s') \<and>
    ws_writer s' = Some (frame_bytes (ws_frame_new True False False False PONG False [] [7]))"
proof -
  let ?fs = "[demo_fragments ! 1, demo_fragments ! 2]"
  have "\<exists>s'. ws_recv (demo_client\<lparr>ws_reader := Some (concat (map frame_bytes demo_fragments) @ [])\<rparr>) =
      (Inr (message_of (Some (wf_opcode (demo_fragments ! 0)))
        (wf_payload (demo_fragments ! 0) @ concat (map fragment_payload ?fs) @ wf_payload (demo_fragments ! 3))), s') \<and>
    ws_reader s' = Some [] \<and> ws_writer s' = Some ([] @ concat (map answer ?fs)) \<and>
    ws_message_buffer s' = [] \<and> ws_message_opcode s' = None"
    by (rule websocket_fragments)
      (simp_all add: demo_fragments_def demo_client_def ws_new_def frame_ok_def ws_frame_new_def between_def)
  moreover have "utf8_replace [97, 98, 99] = [97, 98, 99]"
    by (rule utf8_lenient_encode(1)) (simp add: utf8_encode_def utf8_char_def)
  ultimately show ?thesis
    by (auto simp: demo_fragments_def ws_frame_new_def message_of_def fragment_payload_def answer_def)
qed

section \<open>Closing\<close>

text \<open>
  C23. The closing handshake: a close frame with a code is remembered with its reason, answered by a close frame
  with the same code, and ends the call; from then on sending and receiving raise, and nothing more is
  written.
\<close>
theorem websocket_close:
  assumes "frame_ok f" and "wf_opcode f = CLOSE" and "2 \<le> length (wf_payload f)"
    and "\<not> ws_is_closed s" and "ws_writer s = Some out" and "ws_reader s = Some (frame_bytes f @ post)"
  shows "\<exists>s'. ws_recv s = (Inl WebSocketClosed, s') \<and> ws_is_closed s' \<and>
    ws_close_code s' = Some (unpack_uint True (take 2 (wf_payload f))) \<and>
    ws_close_reason s' = utf8_replace (drop 2 (wf_payload f)) \<and>
    ws_writer s' = Some (out @ frame_bytes (ws_frame_new True False False False CLOSE False [] (take 2 (wf_payload f)))) \<and>
    (\<forall>key m. ws_send key m s' = (Inl WebSocketClosed, s')) \<and> ws_recv s' = (Inl WebSocketClosed, s') \<and>
    (\<forall>code reason. ws_close code reason s' = (Inr (), s')) \<and> (\<forall>now. ws_ping now s' = (Inr False, s'))"
proof -
  let ?code = "unpack_uint True (take 2 (wf_payload f))"
  let ?s1 = "s\<lparr>ws_reader := Some post, ws_frames_received := ws_frames_received s + 1,
      ws_bytes_received := ws_bytes_received s + ilen (wf_payload f), ws_close_code := Some ?code,
      ws_close_reason := utf8_replace (drop 2 (wf_payload f))\<rparr>"
  have payload: "close_payload (wf_payload f) = (?code, utf8_replace (drop 2 (wf_payload f)))"
    using assms(3) by (auto simp: close_payload_def py_slice_in utf8_replace_def lenient_nats.simps)
  have pack: "pack_uint True 2 ?code = Inr (take 2 (wf_payload f))"
    using pack_unpack_uint [of True "take 2 (wf_payload f)"] assms(3) by simp
  have "handle_close (wf_payload f) (s\<lparr>ws_reader := Some post, ws_frames_received := ws_frames_received s + 1,
      ws_bytes_received := ws_bytes_received s + ilen (wf_payload f)\<rparr>) =
    (Inr (), ?s1\<lparr>ws_writer := Some (out @ frame_bytes (ws_frame_new True False False False CLOSE False [] (take 2 (wf_payload f)))),
      ws_is_closed := True\<rparr>)"
    using assms(4,5) by (simp add: handle_close_def payload pack st_bind_def send_control_ok)
  then have "recv_loop s = (Inl WebSocketClosed,
      ?s1\<lparr>ws_writer := Some (out @ frame_bytes (ws_frame_new True False False False CLOSE False [] (take 2 (wf_payload f)))),
      ws_is_closed := True\<rparr>)"
    using assms(2)
    by (subst recv_loop.simps) (simp add: read_frame_bytes [OF assms(1,4,6)] recv_frame_def Let_def)
  then show ?thesis
    using assms(4) by (simp add: ws_recv_def ws_send_def ws_close_def ws_ping_def)
qed

theorem websocket_close_witness:
  "\<exists>s'. ws_recv (demo_client\<lparr>ws_reader := Some (frame_bytes (ws_frame_new True False False False CLOSE False [] [3, 232, 33]) @ [])\<rparr>) =
      (Inl WebSocketClosed, s') \<and> ws_close_code s' = Some 1000"
proof -
  have "\<exists>s'. ws_recv (demo_client\<lparr>ws_reader := Some (frame_bytes (ws_frame_new True False False False CLOSE False [] [3, 232, 33]) @ [])\<rparr>) =
      (Inl WebSocketClosed, s') \<and> ws_close_code s' = Some (unpack_uint True (take 2 [3, 232, 33]))"
    using websocket_close [of "ws_frame_new True False False False CLOSE False [] [3, 232, 33]"
        "demo_client\<lparr>ws_reader := Some (frame_bytes (ws_frame_new True False False False CLOSE False [] [3, 232, 33]) @ [])\<rparr>" "[]" "[]"]
    by (auto simp: frame_ok_def ws_frame_new_def demo_client_def ws_new_def)
  then show ?thesis by (simp add: unpack_uint_def byte_order_def)
qed

end
