(* ===== verification/Py_Ip6.thy ===== *)
theory Py_Ip6
  imports Py_Ipaddress Py_Utf8
begin

text \<open>
  IPv6 addresses of the module \<^verbatim>\<open>ipaddress\<close> (Python 3.10): the compressed text of an address of 128 bits, and
  reading such texts, with a run of zeros left out, a tail in dotted form and a scope.  Reading gives back what
  was printed.
\<close>

section \<open>Hexadecimal digits\<close>

definition hex_char :: "nat \<Rightarrow> char" where
  "hex_char d = (if d < 10 then char_of (48 + d) else char_of (87 + d))"

definition hex_value :: "char \<Rightarrow> nat option" where
  "hex_value c =
     (let n = (of_char c :: nat) in
      if 48 \<le> n \<and> n \<le> 57 then Some (n - 48)
      else if 97 \<le> n \<and> n \<le> 102 then Some (n - 87)
      else if 65 \<le> n \<and> n \<le> 70 then Some (n - 55)
      else None)"

text \<open>\<^verbatim>\<open>'%x' % n\<close>.\<close>

fun hex_str :: "nat \<Rightarrow> string" where
  "hex_str n = (if n < 16 then [hex_char n] else hex_str (n div 16) @ [hex_char (n mod 16)])"

declare hex_str.simps [simp del]

text \<open>\<^verbatim>\<open>int(s, 16)\<close> of a non-empty string of digits.\<close>

definition digits16 :: "string \<Rightarrow> nat" where
  "digits16 s = foldl (\<lambda>n c. 16 * n + the (hex_value c)) 0 s"

text \<open>\<^verbatim>\<open>_parse_hextet\<close>.\<close>

definition parse_hextet :: "string \<Rightarrow> int result" where
  "parse_hextet s =
     (if s = [] \<or> \<not> list_all (\<lambda>c. hex_value c \<noteq> None) s \<or> length s > 4 then Inl ValueError
      else Inr (int (digits16 s)))"

lemma hex_value_char [simp]: "d < 16 \<Longrightarrow> hex_value (hex_char d) = Some d"
  by (simp add: hex_value_def hex_char_def Let_def)

lemma hex_char_no_sep: "d < 16 \<Longrightarrow> hex_char d \<noteq> CHR '':'' \<and> hex_char d \<noteq> CHR ''.''"
proof -
  assume d: "d < 16"
  have "hex_value CHR '':'' = None" "hex_value CHR ''.'' = None" by (simp_all add: hex_value_def)
  with hex_value_char [OF d] show ?thesis by auto
qed

lemma hex_str_digits: "list_all (\<lambda>c. hex_value c \<noteq> None) (hex_str n) \<and> hex_str n \<noteq> []"
proof (induction n rule: hex_str.induct)
  case (1 n)
  then show ?case by (cases "n < 16") (simp_all add: hex_str.simps [of n])
qed

lemma hex_str_nonempty [simp]: "hex_str n \<noteq> []" "[] \<noteq> hex_str n"
  using hex_str_digits by metis+

lemma hex_str_no_sep: "CHR '':'' \<notin> set (hex_str n)" "CHR ''.'' \<notin> set (hex_str n)"
  using hex_str_digits [of n] by (auto simp: list_all_iff hex_value_def)

lemma digits16_hex_str: "digits16 (hex_str n) = n"
proof (induction n rule: hex_str.induct)
  case (1 n)
  then show ?case by (cases "n < 16") (simp_all add: hex_str.simps [of n] digits16_def)
qed

lemma length_hex_str: "n < 16 ^ Suc k \<Longrightarrow> length (hex_str n) \<le> Suc k"
proof (induction k arbitrary: n)
  case (Suc k)
  then have "n div 16 < 16 ^ Suc k" by (simp add: less_mult_imp_div_less)
  from Suc.IH [OF this] show ?case by (simp add: hex_str.simps [of n])
qed (simp add: hex_str.simps)

lemma parse_hextet_str: "n < 65536 \<Longrightarrow> parse_hextet (hex_str n) = Inr (int n)"
  using hex_str_digits [of n] length_hex_str [of n 3] by (simp add: parse_hextet_def digits16_hex_str)

lemma hex_str_zero: "hex_str n = ''0'' \<longleftrightarrow> n = 0"
proof
  assume "hex_str n = ''0''"
  then have "digits16 (hex_str n) = digits16 ''0''" by simp
  then show "n = 0" unfolding digits16_hex_str by (simp add: digits16_def hex_value_def)
next
  have "char_of (of_char CHR ''0'' :: nat) = CHR ''0''" by (rule char_of_char)
  then show "n = 0 \<Longrightarrow> hex_str n = ''0''" by (simp add: hex_str.simps hex_char_def)
qed

section \<open>Printing\<close>

text \<open>
  \<^verbatim>\<open>_compress_hextets\<close>: the first longest run of zeros.  The state has the start and the length of the best
  run and of the current one.
\<close>

fun zero_runs :: "nat \<Rightarrow> string list \<Rightarrow> int \<times> int \<times> int \<times> int \<Rightarrow> int \<times> int \<times> int \<times> int" where
  "zero_runs i [] st = st"
| "zero_runs i (h # hs) (best_start, best_len, start, len) =
     (if h = ''0'' then
        let len = len + 1; start = (if start = -1 then int i else start) in
        zero_runs (Suc i) hs (if len > best_len then (start, len, start, len) else (best_start, best_len, start, len))
      else zero_runs (Suc i) hs (best_start, best_len, -1, 0))"

definition compress_hextets :: "string list \<Rightarrow> string list" where
  "compress_hextets hextets =
     (let (best_start, best_len, _, _) = zero_runs 0 hextets (-1, 0, -1, 0) in
      if best_len > 1 then
        let best_end = best_start + best_len;
            hextets = (if best_end = ilen hextets then hextets @ [''''] else hextets);
            hextets = py_slice_assign hextets best_start best_end [''''];
            hextets = (if best_start = 0 then '''' # hextets else hextets)
        in hextets
      else hextets)"

text \<open>\<^verbatim>\<open>str(IPv6Address(n))\<close>.\<close>

definition hextet_of :: "int \<Rightarrow> nat \<Rightarrow> nat" where
  "hextet_of n i = nat (n div 65536 ^ (7 - i) mod 65536)"

definition ip6_str :: "int \<Rightarrow> string" where
  "ip6_str n = join_with CHR '':'' (compress_hextets (map (\<lambda>i. hex_str (hextet_of n i)) [0..<8]))"

section \<open>Reading\<close>

fun hextets_value :: "int \<Rightarrow> string list \<Rightarrow> int result" where
  "hextets_value v [] = Inr v"
| "hextets_value v (p # ps) = res_bind (parse_hextet p) (\<lambda>h. hextets_value (v * 65536 + h) ps)"

text \<open>A tail in dotted form stands for two parts.\<close>

definition dotted_tail :: "string list \<Rightarrow> string list result" where
  "dotted_tail parts =
     (if CHR ''.'' \<in> set (last parts) then
        res_bind (parse_ip4 (last parts)) (\<lambda>v.
          Inr (butlast parts @ [hex_str (nat (v div 65536 mod 65536)), hex_str (nat (v mod 65536))]))
      else Inr parts)"

text \<open>How many parts stand before and behind the double colon.\<close>

definition part_counts :: "string list \<Rightarrow> (nat \<times> nat \<times> nat) result" where
  "part_counts parts =
     (case filter (\<lambda>i. parts ! i = []) [1..<length parts - 1] of
        [] \<Rightarrow>
          if length parts \<noteq> 8 \<or> hd parts = [] \<or> last parts = [] then Inl ValueError else Inr (8, 0, 0)
      | [skip] \<Rightarrow>
          let hi = (if hd parts = [] then skip - 1 else skip);
              lo = (if last parts = [] then length parts - skip - 2 else length parts - skip - 1)
          in if hd parts = [] \<and> hi \<noteq> 0 \<or> last parts = [] \<and> lo \<noteq> 0 \<or> hi + lo \<ge> 8 then Inl ValueError
             else Inr (hi, lo, 8 - (hi + lo))
      | _ \<Rightarrow> Inl ValueError)"

text \<open>\<^verbatim>\<open>_ip_int_from_string\<close>.\<close>

definition parse_ip6 :: "string \<Rightarrow> int result" where
  "parse_ip6 s =
     (if s = [] then Inl ValueError
      else
        let parts = split_on CHR '':'' s in
        if length parts < 3 then Inl ValueError
        else
          res_bind (dotted_tail parts) (\<lambda>parts.
          if length parts > 9 then Inl ValueError
          else
            res_bind (part_counts parts) (\<lambda>(hi, lo, skipped).
            res_bind (hextets_value 0 (take hi parts)) (\<lambda>v.
              hextets_value (v * 65536 ^ skipped) (drop (length parts - lo) parts)))))"

text \<open>\<^verbatim>\<open>int(IPv6Address(s))\<close>, with a scope behind a percent sign.\<close>

definition ip6_of_text :: "pystr \<Rightarrow> int result" where
  "ip6_of_text s =
     (let addr = takeWhile (\<lambda>c. c \<noteq> 37) s; scope = dropWhile (\<lambda>c. c \<noteq> 37) s in
      if 47 \<in> set s \<or> scope = [37] \<or> 37 \<in> set (tl scope) \<or> \<not> list_all (\<lambda>c. c < 128) addr then Inl ValueError
      else parse_ip6 (map char_of addr))"

section \<open>Reading what was printed\<close>

text \<open>A run of zeros from \<open>start\<close> on, ending before \<open>stop\<close>.\<close>

definition zeros :: "string list \<Rightarrow> int \<Rightarrow> int \<Rightarrow> bool" where
  "zeros hs start stop \<longleftrightarrow> (\<forall>j. start \<le> int j \<and> int j < stop \<longrightarrow> hs ! j = ''0'')"

lemma zeros_extend: "zeros hs start (int i) \<Longrightarrow> hs ! i = ''0'' \<Longrightarrow> zeros hs start (1 + int i)"
  unfolding zeros_def by (metis add.commute less_irrefl linorder_neqE_linordered_idom of_nat_eq_iff zle_add1_eq_le order_le_less)

lemma zero_runs_best:
  assumes "zero_runs (length pre) hs (b, n, s, l) = (b', n', s', l')"
    and "0 < n \<Longrightarrow> 0 \<le> b \<and> b + n \<le> ilen pre \<and> zeros (pre @ hs) b (b + n)"
    and "0 \<le> l" and "if s = -1 then l = 0 else 0 \<le> s \<and> s + l = ilen pre \<and> zeros (pre @ hs) s (s + l)"
    and "0 < n'"
  shows "0 \<le> b' \<and> b' + n' \<le> ilen (pre @ hs) \<and> zeros (pre @ hs) b' (b' + n')"
  using assms
proof (induction hs arbitrary: pre b n s l)
  case Nil
  then show ?case by auto
next
  case (Cons h hs)
  let ?pre = "pre @ [h]"
  have IH: "0 \<le> b' \<and> b' + n' \<le> ilen (?pre @ hs) \<and> zeros (?pre @ hs) b' (b' + n')"
    if "zero_runs (length ?pre) hs (b1, n1, s1, l1) = (b', n', s', l')"
      and "0 < n1 \<Longrightarrow> 0 \<le> b1 \<and> b1 + n1 \<le> ilen ?pre \<and> zeros (?pre @ hs) b1 (b1 + n1)"
      and "0 \<le> l1" and "if s1 = -1 then l1 = 0 else 0 \<le> s1 \<and> s1 + l1 = ilen ?pre \<and> zeros (?pre @ hs) s1 (s1 + l1)"
    for b1 n1 s1 l1
    by (rule Cons.IH [of ?pre, OF that Cons.prems(5)])
  show ?case
  proof (cases "h = ''0''")
    case False
    then have "zero_runs (length ?pre) hs (b, n, -1, 0) = (b', n', s', l')" using Cons.prems(1) by simp
    from IH [OF this] Cons.prems(2) show ?thesis by (cases "0 < n") auto
  next
    case True
    define s1 where "s1 = (if s = -1 then ilen pre else s)"
    have at: "(pre @ h # hs) ! length pre = ''0''" using True by simp
    have s1: "0 \<le> s1" "s1 + (l + 1) = ilen ?pre"
      using Cons.prems(3,4) by (auto simp: s1_def split: if_splits)
    have stop: "s1 + (l + 1) = 1 + int (length pre)" using s1(2) by simp
    have z: "zeros (pre @ h # hs) s1 (s1 + (l + 1))"
      unfolding stop
    proof (cases "s = -1")
      case True
      then have "zeros (pre @ h # hs) s1 (int (length pre))" by (auto simp: s1_def zeros_def)
      then show "zeros (pre @ h # hs) s1 (1 + int (length pre))" using at by (rule zeros_extend)
    next
      case False
      then have "zeros (pre @ h # hs) s1 (int (length pre))" using Cons.prems(4) by (auto simp: s1_def)
      then show "zeros (pre @ h # hs) s1 (1 + int (length pre))" using at by (rule zeros_extend)
    qed
    from True Cons.prems(1)
    have run: "zero_runs (length ?pre) hs (if l + 1 > n then (s1, l + 1, s1, l + 1) else (b, n, s1, l + 1)) = (b', n', s', l')"
      by (auto simp: s1_def Let_def split: if_splits)
    have cur: "if s1 = -1 then l + 1 = 0 else 0 \<le> s1 \<and> s1 + (l + 1) = ilen ?pre \<and> zeros (?pre @ hs) s1 (s1 + (l + 1))"
      using s1 z by simp
    show ?thesis
    proof (cases "l + 1 > n")
      case True
      then show ?thesis using IH [of s1 "l + 1" s1 "l + 1"] run s1 z cur Cons.prems(3) by simp
    next
      case False
      then show ?thesis using IH [of b n s1 "l + 1"] run cur Cons.prems(2,3) by simp
    qed
  qed
qed

text \<open>The parts with \<open>l\<close> of them left out from position \<open>s\<close> on.\<close>

definition left_out :: "nat \<Rightarrow> nat \<Rightarrow> string list \<Rightarrow> string list" where
  "left_out s l hs =
     (if s = 0 then [''''] else []) @ take s hs @ [''''] @ drop (s + l) hs @ (if s + l = length hs then [''''] else [])"

lemma compress_cases:
  obtains "compress_hextets hs = hs"
  | s l where "2 \<le> l" "s + l \<le> length hs" "\<And>j. s \<le> j \<Longrightarrow> j < s + l \<Longrightarrow> hs ! j = ''0''" "compress_hextets hs = left_out s l hs"
proof (cases "zero_runs 0 hs (-1, 0, -1, 0)")
  case (fields b n s' l')
  show thesis
  proof (cases "n > 1")
    case False
    then show thesis using fields by (intro that(1)) (simp add: compress_hextets_def)
  next
    case True
    have best: "0 \<le> b" "b + n \<le> ilen hs" "zeros hs b (b + n)"
      using zero_runs_best [of "[]" hs "-1" 0 "-1" 0 b n s' l'] fields True by (simp_all add: zeros_def)
    define s l where "s = nat b" and "l = nat n"
    have sl: "b = int s" "n = int l" "2 \<le> l" "s + l \<le> length hs" using best True by (auto simp: s_def l_def)
    have "py_slice_assign hs (int s) (int s + int l) [''''] = take s hs @ [''''] @ drop (s + l) hs"
      "s + l = length hs \<Longrightarrow> py_slice_assign (hs @ ['''']) (int s) (int s + int l) [''''] = take s hs @ [''''] @ drop (s + l) (hs @ [''''])"
      using sl by (simp_all add: py_slice_assign_in nat_add_distrib)
    then have "compress_hextets hs = left_out s l hs"
      using fields True sl by (auto simp: compress_hextets_def Let_def left_out_def)
    moreover have "hs ! j = ''0''" if "s \<le> j" "j < s + l" for j
      using best(3) that sl by (simp add: zeros_def)
    ultimately show thesis using sl by (intro that(2)) auto
  qed
qed


lemma part_counts_whole:
  assumes "length hs = 8" and "[] \<notin> set hs"
  shows "part_counts hs = Inr (8, 0, 0)"
proof -
  have "filter (\<lambda>i. hs ! i = []) [1..<length hs - 1] = []"
    using assms by (auto simp: filter_empty_conv in_set_conv_nth)
  moreover have "hs \<noteq> []" "hd hs \<noteq> []" "last hs \<noteq> []" using assms by (metis hd_in_set last_in_set list.size(3) zero_neq_numeral)+
  ultimately show ?thesis using assms(1) by (simp add: part_counts_def)
qed

lemma filter_upt_single:
  assumes "a \<le> k" and "k < b" and "P k" and "\<And>i. a \<le> i \<Longrightarrow> i < b \<Longrightarrow> P i \<Longrightarrow> i = k"
  shows "filter P [a..<b] = [k]"
proof -
  have "[a..<b] = [a..<k] @ k # [Suc k..<b]" using assms(1,2) upt_add_eq_append [of a k "b - k"] by (simp add: upt_conv_Cons)
  moreover have "filter P [a..<k] = []"
    unfolding filter_empty_conv set_upt using assms(2,4) by force
  moreover have "\<not> P i" if "Suc k \<le> i" "i < b" for i
    using assms(4) [of i] assms(1) that by auto
  then have "filter P [Suc k..<b] = []" by (simp add: filter_empty_conv)
  ultimately show ?thesis using assms(3) by simp
qed

lemma filter_gap:
  assumes "\<And>i. 1 \<le> i \<Longrightarrow> i < length A \<Longrightarrow> A ! i \<noteq> []" and "[] \<notin> set D" and "length T \<le> 1" and "A \<noteq> []" and "D @ T \<noteq> []"
  shows "filter (\<lambda>i. (A @ [] # D @ T) ! i = []) [1..<length (A @ [] # D @ T) - 1] = [length A]"
proof (rule filter_upt_single)
  show "1 \<le> length A" using assms(4) by (simp add: Suc_le_eq)
  have "0 < length (D @ T)" using assms(5) by blast
  then show "length A < length (A @ [] # D @ T) - 1" by simp
  fix i assume i: "1 \<le> i" "i < length (A @ [] # D @ T) - 1" "(A @ [] # D @ T) ! i = []"
  show "i = length A"
  proof (rule ccontr)
    assume "i \<noteq> length A"
    then consider "i < length A" | j where "i = length A + Suc j" by (metis add_Suc_right less_imp_Suc_add nat_neq_iff)
    then show False
    proof cases
      case 1
      then show False using assms(1) [OF i(1)] i(3) by (simp add: nth_append)
    next
      case 2
      then have "j < length D" "D ! j = []" using i assms(3) by (auto simp: nth_append split: if_splits)
      then show False using assms(2) nth_mem by metis
    qed
  qed
qed simp

lemma part_counts_left_out:
  assumes "length hs = 8" and "[] \<notin> set hs" and "2 \<le> l" and "s + l \<le> 8"
  shows "part_counts (left_out s l hs) = Inr (s, 8 - (s + l), l)" "3 \<le> length (left_out s l hs)" "length (left_out s l hs) \<le> 9"
    and "take s (left_out s l hs) = take s hs"
    and "drop (length (left_out s l hs) - (8 - (s + l))) (left_out s l hs) = drop (s + l) hs"
proof -
  define A where "A = (if s = 0 then [[]] else take s hs)"
  define D where "D = drop (s + l) hs"
  define T :: "string list" where "T = (if s + l = 8 then [[]] else [])"
  have parts: "left_out s l hs = A @ [] # D @ T" using assms(1) by (simp add: left_out_def A_def D_def T_def)
  have AD: "A \<noteq> []" "D @ T \<noteq> []" "[] \<notin> set D" "length D = 8 - (s + l)" "length T \<le> 1"
    using assms by (auto simp: A_def D_def T_def dest: in_set_dropD)
  have A: "A ! i \<noteq> []" if "1 \<le> i" "i < length A" for i
  proof -
    have "A ! i \<in> set hs" using that by (auto simp: A_def split: if_splits)
    then show ?thesis using assms(2) by metis
  qed
  have length_A: "length A = (if s = 0 then 1 else s)" using assms(1,4) by (simp add: A_def)
  have "hs \<noteq> []" using assms(1) by (metis list.size(3) zero_neq_numeral)
  then have "hd hs \<noteq> []" using assms(2) by (metis hd_in_set)
  then have hd_A: "hd A = [] \<longleftrightarrow> s = 0" by (simp add: A_def)
  have last_D: "last D \<noteq> []" if "s + l \<noteq> 8"
  proof -
    have "D \<noteq> []" using that assms(1,4) by (simp add: D_def)
    then show ?thesis using AD(3) by (metis last_in_set)
  qed
  have len: "length (left_out s l hs) = length A + 1 + (8 - (s + l)) + (if s + l = 8 then 1 else 0)"
    using AD(4) by (simp add: parts T_def)
  have first: "hd (left_out s l hs) = [] \<longleftrightarrow> s = 0" using AD(1) hd_A by (simp add: parts)
  have last: "last (left_out s l hs) = [] \<longleftrightarrow> s + l = 8"
    using AD(4) last_D assms(4) by (cases "s + l = 8") (auto simp: parts T_def)
  have gap: "filter (\<lambda>i. left_out s l hs ! i = []) [1..<length (left_out s l hs) - 1] = [length A]"
    unfolding parts by (rule filter_gap [OF A AD(3,5,1,2)])
  have counts: "(if s = 0 then length A - 1 else length A) = s"
    "(if s + l = 8 then length (left_out s l hs) - length A - 2 else length (left_out s l hs) - length A - 1) = 8 - (s + l)"
    unfolding len length_A by simp_all
  show "part_counts (left_out s l hs) = Inr (s, 8 - (s + l), l)"
    unfolding part_counts_def gap list.case Let_def first last counts using assms(3,4) by (simp, arith)
  show "3 \<le> length (left_out s l hs)" "length (left_out s l hs) \<le> 9"
    unfolding len length_A using assms(3,4) by auto
  show "take s (left_out s l hs) = take s hs" using length_A by (simp add: parts A_def)
  have "length (left_out s l hs) - (8 - (s + l)) = length A + 1 + (if s + l = 8 then 1 else 0)" by (simp add: len)
  then show "drop (length (left_out s l hs) - (8 - (s + l))) (left_out s l hs) = drop (s + l) hs"
    using assms(1) AD(4) by (simp add: parts T_def D_def)
qed

definition hextets_int :: "int \<Rightarrow> nat list \<Rightarrow> int" where
  "hextets_int = foldl (\<lambda>v h. v * 65536 + int h)"

lemma hextets_value_strs: "list_all (\<lambda>h. h < 65536) xs \<Longrightarrow> hextets_value v (map hex_str xs) = Inr (hextets_int v xs)"
  by (induction xs arbitrary: v) (simp_all add: hextets_int_def parse_hextet_str)

lemma hextets_int_append: "hextets_int v (xs @ ys) = hextets_int (hextets_int v xs) ys"
  by (simp add: hextets_int_def)

lemma hextets_int_zeros: "hextets_int v (replicate l 0) = v * 65536 ^ l"
  by (induction l arbitrary: v) (simp_all add: hextets_int_def)

lemma hextets_int_step: "hextets_int (n div 65536 ^ Suc k) [nat (n div 65536 ^ k mod 65536)] = n div 65536 ^ k"
  for n :: int
proof -
  have "n div 65536 ^ Suc k = n div 65536 ^ k div 65536" by (simp only: power_Suc2 zdiv_zmult2_eq)
  then show ?thesis by (simp add: hextets_int_def)
qed

lemma hextets_int_of:
  assumes "0 \<le> n" and "n < 2 ^ 128"
  shows "hextets_int 0 (map (hextet_of n) [0..<8]) = n"
proof -
  have "i \<le> 8 \<Longrightarrow> hextets_int 0 (map (hextet_of n) [0..<i]) = n div 65536 ^ (8 - i)" for i
  proof (induction i)
    case 0
    then show ?case using assms by (simp add: hextets_int_def)
  next
    case (Suc i)
    then have "8 - i = Suc (7 - i)" "8 - Suc i = 7 - i" by simp_all
    then show ?case
      using Suc hextets_int_step [of n "7 - i"] by (simp add: hextets_int_append hextet_of_def del: power_Suc)
  qed
  from this [of 8] show ?thesis by simp
qed

lemma parse_ip6_left_out:
  assumes "length xs = 8" and "list_all (\<lambda>h. h < 65536) xs" and "2 \<le> l" and "s + l \<le> 8"
    and "\<And>j. s \<le> j \<Longrightarrow> j < s + l \<Longrightarrow> map hex_str xs ! j = ''0''"
  shows "parse_ip6 (join_with CHR '':'' (left_out s l (map hex_str xs))) = Inr (hextets_int 0 xs)"
proof -
  let ?hs = "map hex_str xs" and ?parts = "left_out s l (map hex_str xs)"
  have hs: "length ?hs = 8" "[] \<notin> set ?hs" using assms(1) by auto
  note parts = part_counts_left_out [OF hs assms(3,4)]
  have elems: "set ?parts \<subseteq> insert [] (set ?hs)"
    by (auto simp: left_out_def dest: in_set_takeD in_set_dropD)
  have split: "split_on CHR '':'' (join_with CHR '':'' ?parts) = ?parts"
    using elems hex_str_no_sep by (intro split_join) (auto simp: left_out_def)
  have "join_with CHR '':'' ?parts \<noteq> []"
  proof
    assume "join_with CHR '':'' ?parts = []"
    with split have "?parts = [[]]" by simp
    with parts(2) show False by simp
  qed
  moreover have "dotted_tail ?parts = Inr ?parts"
  proof -
    have "last ?parts \<in> insert [] (set ?hs)" using elems parts(2) by (metis last_in_set list.size(3) not_numeral_le_zero subsetD)
    then show ?thesis using hex_str_no_sep by (auto simp: dotted_tail_def)
  qed
  moreover have zeros: "take (s + l) xs = take s xs @ replicate l 0"
  proof (rule nth_equalityI)
    show "length (take (s + l) xs) = length (take s xs @ replicate l 0)" using assms(1,4) by simp
    fix i assume "i < length (take (s + l) xs)"
    then show "take (s + l) xs ! i = (take s xs @ replicate l 0) ! i"
      using assms(1,4) assms(5) [of i] by (auto simp: nth_append hex_str_zero)
  qed
  have "xs = (take s xs @ replicate l 0) @ drop (s + l) xs"
    using append_take_drop_id [of "s + l" xs] unfolding zeros by simp
  then have "hextets_int 0 xs = hextets_int 0 ((take s xs @ replicate l 0) @ drop (s + l) xs)" by (rule arg_cong)
  then have "hextets_int 0 xs = hextets_int (hextets_int 0 (take s xs) * 65536 ^ l) (drop (s + l) xs)"
    unfolding hextets_int_append hextets_int_zeros .
  moreover have "hextets_value 0 (take s ?hs) = Inr (hextets_int 0 (take s xs))"
    unfolding take_map using assms(2) by (intro hextets_value_strs) (auto simp: list_all_iff dest: in_set_takeD)
  moreover have "hextets_value v (drop (s + l) ?hs) = Inr (hextets_int v (drop (s + l) xs))" for v
    unfolding drop_map using assms(2) by (intro hextets_value_strs) (auto simp: list_all_iff dest: in_set_dropD)
  ultimately show ?thesis
    using split parts by (simp add: parse_ip6_def Let_def)
qed

lemma parse_ip6_str:
  assumes "0 \<le> n" and "n < 2 ^ 128"
  shows "parse_ip6 (ip6_str n) = Inr n"
proof -
  define xs where "xs = map (hextet_of n) [0..<8]"
  let ?hs = "map hex_str xs"
  have str: "ip6_str n = join_with CHR '':'' (compress_hextets ?hs)" by (simp add: ip6_str_def xs_def comp_def)
  have xs: "length xs = 8" "list_all (\<lambda>h. h < 65536) xs" "hextets_int 0 xs = n"
    using hextets_int_of [OF assms] by (simp_all add: xs_def list_all_iff hextet_of_def nat_less_iff)
  show ?thesis
  proof (cases rule: compress_cases [of ?hs])
    case 1
    have hs: "length ?hs = 8" "[] \<notin> set ?hs" using xs by auto
    have split: "split_on CHR '':'' (join_with CHR '':'' ?hs) = ?hs"
      using hex_str_no_sep xs(1) by (intro split_join) auto
    moreover have "join_with CHR '':'' ?hs \<noteq> []" using split hs by auto
    moreover have "last ?hs \<in> set ?hs" using xs(1) by (intro last_in_set) auto
    then have "dotted_tail ?hs = Inr ?hs" using hex_str_no_sep by (auto simp: dotted_tail_def)
    moreover have "hextets_value 0 ?hs = Inr n" using xs hextets_value_strs [of xs 0] by simp
    ultimately show ?thesis
      using hs part_counts_whole [OF hs] by (simp add: str 1 parse_ip6_def Let_def)
  next
    case (2 s l)
    then show ?thesis using parse_ip6_left_out [of xs l s] xs by (simp add: str)
  qed
qed

lemma join_with_chars: "set (join_with c ps) \<subseteq> insert c (\<Union>(set ` set ps))"
  by (induction c ps rule: join_with.induct) auto

lemma compress_elems: "set (compress_hextets hs) \<subseteq> insert [] (set hs)"
  by (cases rule: compress_cases [of hs]) (auto simp: left_out_def dest: in_set_takeD in_set_dropD)

lemma ip6_str_chars:
  assumes "c \<in> set (ip6_str n)"
  shows "c = CHR '':'' \<or> hex_value c \<noteq> None"
proof -
  define hs where "hs = map (\<lambda>i. hex_str (hextet_of n i)) [0..<8]"
  have "c = CHR '':'' \<or> (\<exists>h \<in> set (compress_hextets hs). c \<in> set h)"
    using assms join_with_chars [of "CHR '':''" "compress_hextets hs"] unfolding ip6_str_def hs_def by blast
  moreover have "hex_value c \<noteq> None" if "h \<in> set hs" "c \<in> set h" for h
    using that hex_str_digits unfolding hs_def list_all_iff by auto
  ultimately show ?thesis using compress_elems [of hs] by fastforce
qed

text \<open>The same for texts of code points.\<close>

lemma ip6_of_text_str:
  assumes "0 \<le> n" and "n < 2 ^ 128"
  shows "ip6_of_text (map of_char (ip6_str n)) = Inr n"
proof -
  have chars: "of_char c < (128 :: nat) \<and> of_char c \<noteq> (37 :: nat) \<and> of_char c \<noteq> (47 :: nat)" if "c \<in> set (ip6_str n)" for c
    using ip6_str_chars [OF that] by (auto simp: hex_value_def Let_def split: if_splits)
  have spans: "takeWhile (\<lambda>c. c \<noteq> 37) (map of_char (ip6_str n)) = (map of_char (ip6_str n) :: pystr)"
    "dropWhile (\<lambda>c. c \<noteq> 37) (map of_char (ip6_str n)) = ([] :: pystr)"
    using chars by auto
  have chars_of: "map char_of (map of_char (ip6_str n) :: nat list) = ip6_str n" by (simp add: comp_def)
  have "list_all (\<lambda>c. c < 128) (map of_char (ip6_str n) :: pystr)" "47 \<notin> set (map of_char (ip6_str n) :: pystr)"
    using chars by (fastforce simp: list_all_iff)+
  then show ?thesis
    unfolding ip6_of_text_def Let_def spans chars_of using parse_ip6_str [OF assms] by simp
qed

end
