(* ===== verification/Dns.thy ===== *)
theory Dns
  imports Py_Ip6 Py_Struct Py_State "HOL-Library.AList"
begin

text \<open>
  The DNS resolver, \<^verbatim>\<open>network/src/protocol/dns.py\<close>: names, questions, records and messages with their binary
  form, the LRU cache, and the resolver.  Decoding follows compression pointers without a bound, so decoders
  are methods on the offset that may not return.  Arguments are the clock (in whole seconds), the replies of the
  servers, the identifiers of messages and \<^verbatim>\<open>int\<close> on texts beyond ASCII.
\<close>

section \<open>Types, classes and codes\<close>

datatype dns_type =
    T_A | T_NS | T_MD | T_MF | T_CNAME | T_SOA | T_MB | T_MG | T_MR | T_NULL | T_WKS | T_PTR | T_HINFO | T_MINFO | T_MX | T_TXT
  | T_RP | T_AFSDB | T_SIG | T_KEY | T_AAAA | T_LOC | T_SRV | T_NAPTR | T_KX | T_CERT | T_DNAME | T_OPT | T_DS | T_RRSIG
  | T_NSEC | T_DNSKEY | T_NSEC3 | T_NSEC3PARAM | T_TLSA | T_CAA

definition dns_types :: "(int \<times> dns_type) list" where
  "dns_types =
     [(1, T_A), (2, T_NS), (3, T_MD), (4, T_MF), (5, T_CNAME), (6, T_SOA), (7, T_MB), (8, T_MG), (9, T_MR), (10, T_NULL),
      (11, T_WKS), (12, T_PTR), (13, T_HINFO), (14, T_MINFO), (15, T_MX), (16, T_TXT), (17, T_RP), (18, T_AFSDB), (24, T_SIG),
      (25, T_KEY), (28, T_AAAA), (29, T_LOC), (33, T_SRV), (35, T_NAPTR), (36, T_KX), (37, T_CERT), (39, T_DNAME), (41, T_OPT),
      (43, T_DS), (46, T_RRSIG), (47, T_NSEC), (48, T_DNSKEY), (50, T_NSEC3), (51, T_NSEC3PARAM), (52, T_TLSA), (257, T_CAA)]"

datatype dns_class = C_IN | C_CS | C_CH | C_HS | C_ANY

definition dns_classes :: "(int \<times> dns_class) list" where
  "dns_classes = [(1, C_IN), (2, C_CS), (3, C_CH), (4, C_HS), (255, C_ANY)]"

text \<open>\<^verbatim>\<open>DNSType(n)\<close> and the value of a member.\<close>

definition member_of :: "(int \<times> 'a) list \<Rightarrow> int \<Rightarrow> 'a result" where
  "member_of members n = (case map_of members n of None \<Rightarrow> Inl ValueError | Some t \<Rightarrow> Inr t)"

definition value_of :: "(int \<times> 'a) list \<Rightarrow> 'a \<Rightarrow> int" where
  "value_of members t = the (map_of (map (\<lambda>(n, t). (t, n)) members) t)"

abbreviation type_code :: "dns_type \<Rightarrow> int" where "type_code \<equiv> value_of dns_types"
abbreviation class_code :: "dns_class \<Rightarrow> int" where "class_code \<equiv> value_of dns_classes"

section \<open>Names\<close>

definition codes :: "string \<Rightarrow> pystr" where
  "codes s = map of_char s"

text \<open>The full stop, and \<^verbatim>\<open>s.rstrip(".")\<close>.\<close>

abbreviation dot :: nat where "dot \<equiv> 46"

definition rstrip_dots :: "pystr \<Rightarrow> pystr" where
  "rstrip_dots s = rev (dropWhile (\<lambda>c. c = dot) (rev s))"

text \<open>\<^verbatim>\<open>encode\<close> and \<^verbatim>\<open>decode\<close> with \<^verbatim>\<open>"ascii"\<close>, errors ignored; \<^verbatim>\<open>bytes([n])\<close>.\<close>

definition ascii_encode :: "pystr \<Rightarrow> bytes" where
  "ascii_encode s = map of_nat (filter (\<lambda>c. c < 128) s)"

definition ascii_decode :: "bytes \<Rightarrow> pystr" where
  "ascii_decode bs = filter (\<lambda>c. c < 128) (map unat bs)"

definition one_byte :: "int \<Rightarrow> bytes result" where
  "one_byte n = (if 0 \<le> n \<and> n < 256 then Inr [word_of_int n] else Inl ValueError)"

fun encode_labels :: "pystr list \<Rightarrow> bytes result" where
  "encode_labels [] = Inr [0]"
| "encode_labels (l # ls) =
     res_bind (one_byte (ilen l)) (\<lambda>n. res_bind (encode_labels ls) (\<lambda>bs. Inr (n @ ascii_encode l @ bs)))"

definition encode_name :: "pystr \<Rightarrow> bytes result" where
  "encode_name name = (if name = [dot] then Inr [0] else encode_labels (split_on dot (rstrip_dots name)))"

text \<open>
  The loop of \<^verbatim>\<open>_decode_name\<close>.  Its branch for a zero length behind a pointer is never taken, since a pointer has
  one of the upper bits set.
\<close>

partial_function (option) name_loop :: "bytes \<Rightarrow> pystr list \<Rightarrow> bool \<Rightarrow> int \<Rightarrow> int \<Rightarrow> (pystr result \<times> int) option" where
  "name_loop data labels jumped original offset =
     (if offset \<ge> ilen data then Some (Inl DNSResolverErr, offset)
      else
        let length = uint (data ! nat offset) in
        if length AND 0xC0 \<noteq> 0 then
          (case py_index data (offset + 1) of
             Inl e \<Rightarrow> Some (Inl e, offset)
           | Inr low \<Rightarrow>
               name_loop data labels True (if jumped then original else offset + 2)
                 (push_bit 8 (length AND 0x3F) OR uint low))
        else if length = 0 then
          Some (Inr (join_with dot labels @ [dot]), if jumped then original else offset + 1)
        else if offset + 1 + length > ilen data then Some (Inl DNSResolverErr, offset)
        else
          name_loop data (labels @ [ascii_decode (py_slice data (offset + 1) (offset + 1 + length))]) jumped original
            (offset + 1 + length))"

definition decode_name :: "bytes \<Rightarrow> (int, pystr) dv" where
  "decode_name data offset = name_loop data [] False offset offset"

section \<open>Questions, records and messages\<close>

record dns_question =
  qu_name :: pystr
  qu_type :: dns_type
  qu_class :: dns_class

record dns_record =
  rr_name :: pystr
  rr_type :: dns_type
  rr_data :: pystr
  rr_ttl :: int
  rr_class :: dns_class
  rr_priority :: int
  rr_created_at :: int

record dns_message =
  dm_id :: int
  dm_flags :: int
  dm_questions :: "dns_question list"
  dm_answers :: "dns_record list"
  dm_authorities :: "dns_record list"
  dm_additionals :: "dns_record list"

definition is_expired :: "int \<Rightarrow> dns_record \<Rightarrow> bool" where
  "is_expired now r \<longleftrightarrow> now - rr_created_at r > rr_ttl r"

definition time_to_live :: "int \<Rightarrow> dns_record \<Rightarrow> int" where
  "time_to_live now r = max 0 (rr_ttl r - (now - rr_created_at r))"

definition is_response :: "dns_message \<Rightarrow> bool" where
  "is_response m \<longleftrightarrow> dm_flags m AND 0x8000 \<noteq> 0"

definition rcode :: "dns_message \<Rightarrow> int" where
  "rcode m = dm_flags m AND 0x000F"

definition is_error :: "dns_message \<Rightarrow> bool" where
  "is_error m \<longleftrightarrow> rcode m \<noteq> 0"

definition question_encode :: "dns_question \<Rightarrow> bytes result" where
  "question_encode q =
     res_bind (encode_name (qu_name q)) (\<lambda>name.
     res_bind (struct_pack [(2, pack_uint True 2 (type_code (qu_type q))), (2, pack_uint True 2 (class_code (qu_class q)))])
       (\<lambda>bs. Inr (name @ bs)))"

text \<open>\<^verbatim>\<open>struct.unpack\<close> of the slice of \<open>n\<close> bytes at the offset, which then moves on.\<close>

definition take_struct :: "bytes \<Rightarrow> nat \<Rightarrow> (int, bytes) dv" where
  "take_struct data n offset =
     (let w = py_slice data offset (offset + int n) in
      Some (if length w = n then (Inr w, offset + int n) else (Inl StructError, offset)))"

definition question_decode :: "bytes \<Rightarrow> (int, dns_question) dv" where
  "question_decode data =
     dv_bind (decode_name data) (\<lambda>name.
     dv_bind (take_struct data 4) (\<lambda>w.
       dv_lift (st_result (res_bind (member_of dns_types (unpack_uint True (take 2 w))) (\<lambda>t.
         res_bind (member_of dns_classes (unpack_uint True (drop 2 w))) (\<lambda>c.
           Inr \<lparr>qu_name = name, qu_type = t, qu_class = c\<rparr>))))))"

text \<open>\<^verbatim>\<open>int(p)\<close>, and \<^verbatim>\<open>bytes([int(p) for p in parts])\<close>.\<close>

definition int_of_codes :: "(pystr \<Rightarrow> int result) \<Rightarrow> pystr \<Rightarrow> int result" where
  "int_of_codes wide_int p = (if list_all (\<lambda>c. c < 128) p then int_of_text (map char_of p) else wide_int p)"

fun parts_ints :: "(pystr \<Rightarrow> int result) \<Rightarrow> pystr list \<Rightarrow> int list result" where
  "parts_ints wide_int [] = Inr []"
| "parts_ints wide_int (p # ps) =
     res_bind (int_of_codes wide_int p) (\<lambda>n. res_bind (parts_ints wide_int ps) (\<lambda>ns. Inr (n # ns)))"

definition int_bytes :: "int list \<Rightarrow> bytes result" where
  "int_bytes ns = (if list_all (\<lambda>n. 0 \<le> n \<and> n < 256) ns then Inr (map word_of_int ns) else Inl ValueError)"

definition encode_rdata :: "(pystr \<Rightarrow> int result) \<Rightarrow> dns_record \<Rightarrow> bytes result" where
  "encode_rdata wide_int r =
     (case rr_type r of
        T_A \<Rightarrow> res_bind (parts_ints wide_int (split_on dot (rr_data r))) int_bytes
      | T_AAAA \<Rightarrow> res_bind (ip6_of_text (rr_data r)) (\<lambda>n. Inr (rev (le_bytes 16 n)))
      | T_CNAME \<Rightarrow> encode_name (rr_data r)
      | T_NS \<Rightarrow> encode_name (rr_data r)
      | T_MX \<Rightarrow>
          res_bind (pack_uint True 2 (rr_priority r)) (\<lambda>p. res_bind (encode_name (rr_data r)) (\<lambda>n. Inr (p @ n)))
      | T_TXT \<Rightarrow>
          res_bind (utf8_encode (rr_data r)) (\<lambda>bs. res_bind (one_byte (ilen bs)) (\<lambda>n. Inr (n @ bs)))
      | T_PTR \<Rightarrow> encode_name (rr_data r)
      | T_SOA \<Rightarrow> Inr [0]
      | _ \<Rightarrow> Inr [])"

text \<open>\<^verbatim>\<open>rdata.hex()\<close>.\<close>

definition hex_text :: "bytes \<Rightarrow> pystr" where
  "hex_text bs = concat (map (\<lambda>b. codes [hex_char (unat b div 16), hex_char (unat b mod 16)]) bs)"

text \<open>\<^verbatim>\<open>_decode_rdata\<close>, with the priority of the record.\<close>

definition name_at :: "bytes \<Rightarrow> int \<Rightarrow> (pystr result) option" where
  "name_at data offset = map_option fst (decode_name data offset)"

definition decode_rdata :: "int \<Rightarrow> bytes \<Rightarrow> ((int \<times> pystr) result) option" where
  "decode_rdata rtype rdata =
     (let plain = (\<lambda>s. Inr (0, s)) in
      if rtype = type_code T_A then
        Some (plain (codes (if length rdata \<ge> 4
                            then join_with CHR ''.'' (map (\<lambda>b. nat_str (nat (uint b))) (take 4 rdata)) else ''0.0.0.0'')))
      else if rtype = type_code T_AAAA then
        Some (plain (codes (if length rdata \<ge> 16 then ip6_str (unpack_uint True (take 16 rdata)) else ''::'')))
      else if rtype = type_code T_CNAME \<or> rtype = type_code T_NS then
        map_option (\<lambda>r. res_bind r plain) (name_at rdata 0)
      else if rtype = type_code T_MX then
        (if length (take 2 rdata) \<noteq> 2 then Some (Inl StructError)
         else map_option (\<lambda>r. res_bind r (\<lambda>s. Inr (unpack_uint True (take 2 rdata), s))) (name_at rdata 2))
      else if rtype = type_code T_TXT then
        Some (plain (if rdata = [] then [] else utf8_ignore (py_slice rdata 1 (1 + uint (hd rdata)))))
      else if rtype = type_code T_PTR then
        map_option (\<lambda>r. res_bind r plain) (name_at rdata 0)
      else Some (plain (hex_text rdata)))"

definition encode_rr :: "(pystr \<Rightarrow> int result) \<Rightarrow> dns_record \<Rightarrow> bytes result" where
  "encode_rr wide_int r =
     res_bind (encode_name (rr_name r)) (\<lambda>name.
     res_bind (encode_rdata wide_int r) (\<lambda>rdata.
     res_bind (struct_pack [(2, pack_uint True 2 (type_code (rr_type r))), (2, pack_uint True 2 (class_code (rr_class r))),
                            (4, pack_uint True 4 (rr_ttl r)), (2, pack_uint True 2 (ilen rdata))])
       (\<lambda>head. Inr (name @ head @ rdata))))"

text \<open>\<^verbatim>\<open>_decode_rr\<close>: the slice of the data is not checked for its length.\<close>

definition decode_rr :: "int \<Rightarrow> bytes \<Rightarrow> (int, dns_record) dv" where
  "decode_rr now data =
     dv_bind (decode_name data) (\<lambda>name.
     dv_bind (take_struct data 10) (\<lambda>w.
       let rtype = unpack_uint True (take 2 w); rclass = unpack_uint True (take 2 (drop 2 w));
           ttl = unpack_uint True (take 4 (drop 4 w)); rdlength = unpack_uint True (drop 8 w)
       in dv_bind (\<lambda>offset. map_option (\<lambda>r. (r, offset + rdlength))
                    (decode_rdata rtype (py_slice data offset (offset + rdlength)))) (\<lambda>(priority, rdata).
            dv_lift (st_result (res_bind (member_of dns_types rtype) (\<lambda>t. res_bind (member_of dns_classes rclass) (\<lambda>c.
              Inr \<lparr>rr_name = name, rr_type = t, rr_data = rdata, rr_ttl = ttl, rr_class = c, rr_priority = priority,
                   rr_created_at = now\<rparr>)))))))"

fun encode_each :: "('a \<Rightarrow> bytes result) \<Rightarrow> 'a list \<Rightarrow> bytes result" where
  "encode_each enc [] = Inr []"
| "encode_each enc (x # xs) = res_bind (enc x) (\<lambda>b. res_bind (encode_each enc xs) (\<lambda>bs. Inr (b @ bs)))"

text \<open>The counts tell of all four sections; only the first two are written.\<close>

definition message_encode :: "(pystr \<Rightarrow> int result) \<Rightarrow> dns_message \<Rightarrow> bytes result" where
  "message_encode wide_int m =
     res_bind (struct_pack [(2, pack_uint True 2 (dm_id m)), (2, pack_uint True 2 (dm_flags m)),
                            (2, pack_uint True 2 (ilen (dm_questions m))), (2, pack_uint True 2 (ilen (dm_answers m))),
                            (2, pack_uint True 2 (ilen (dm_authorities m))), (2, pack_uint True 2 (ilen (dm_additionals m)))])
       (\<lambda>header.
     res_bind (encode_each question_encode (dm_questions m)) (\<lambda>qs.
     res_bind (encode_each (encode_rr wide_int) (dm_answers m)) (\<lambda>rs.
       Inr (header @ qs @ rs))))"

fun decode_each :: "nat \<Rightarrow> (int, 'a) dv \<Rightarrow> (int, 'a list) dv" where
  "decode_each 0 dec = dv_lift (st_return [])"
| "decode_each (Suc n) dec = dv_bind dec (\<lambda>x. dv_bind (decode_each n dec) (\<lambda>xs. dv_lift (st_return (x # xs))))"

definition word_at :: "bytes \<Rightarrow> nat \<Rightarrow> int" where
  "word_at data i = unpack_uint True (take 2 (drop i data))"

definition message_decode :: "int \<Rightarrow> bytes \<Rightarrow> (dns_message result) option" where
  "message_decode now data =
     (if length data < 12 then Some (Inl DNSResolverErr)
      else
        map_option fst
          (dv_bind (decode_each (nat (word_at data 4)) (question_decode data)) (\<lambda>qs.
           dv_bind (decode_each (nat (word_at data 6)) (decode_rr now data)) (\<lambda>an.
           dv_bind (decode_each (nat (word_at data 8)) (decode_rr now data)) (\<lambda>ns.
           dv_bind (decode_each (nat (word_at data 10)) (decode_rr now data)) (\<lambda>ar.
             dv_lift (st_return \<lparr>dm_id = word_at data 0, dm_flags = word_at data 2, dm_questions = qs, dm_answers = an,
                                 dm_authorities = ns, dm_additionals = ar\<rparr>))))) 12))"

section \<open>The LRU cache\<close>

text \<open>An ordered dictionary, the least recently used entry first.\<close>

record ('k, 'v) lru =
  lru_cache :: "('k \<times> 'v) list"
  lru_maxsize :: int

definition lru_new :: "int \<Rightarrow> ('k, 'v) lru" where
  "lru_new maxsize = \<lparr>lru_cache = [], lru_maxsize = maxsize\<rparr>"

definition move_to_end :: "'k \<Rightarrow> ('k \<times> 'v) list \<Rightarrow> ('k \<times> 'v) list" where
  "move_to_end k xs = (case map_of xs k of None \<Rightarrow> xs | Some v \<Rightarrow> AList.delete k xs @ [(k, v)])"

definition lru_get :: "'k \<Rightarrow> ('k, 'v) lru \<Rightarrow> 'v option \<times> ('k, 'v) lru" where
  "lru_get k c =
     (case map_of (lru_cache c) k of
        None \<Rightarrow> (None, c)
      | Some v \<Rightarrow> (Some v, c\<lparr>lru_cache := move_to_end k (lru_cache c)\<rparr>))"

definition lru_put :: "'k \<Rightarrow> 'v \<Rightarrow> ('k, 'v) lru \<Rightarrow> ('k, 'v) lru" where
  "lru_put k v c =
     (let xs = move_to_end k (AList.update k v (lru_cache c))
      in c\<lparr>lru_cache := (if ilen xs > lru_maxsize c then tl xs else xs)\<rparr>)"

definition lru_remove :: "'k \<Rightarrow> ('k, 'v) lru \<Rightarrow> bool \<times> ('k, 'v) lru" where
  "lru_remove k c =
     (if map_of (lru_cache c) k = None then (False, c)
      else (True, c\<lparr>lru_cache := AList.delete k (lru_cache c)\<rparr>))"

definition lru_clear :: "('k, 'v) lru \<Rightarrow> ('k, 'v) lru" where
  "lru_clear c = c\<lparr>lru_cache := []\<rparr>"

definition lru_len :: "('k, 'v) lru \<Rightarrow> int" where
  "lru_len c = ilen (lru_cache c)"

definition lru_contains :: "'k \<Rightarrow> ('k, 'v) lru \<Rightarrow> bool" where
  "lru_contains k c \<longleftrightarrow> k \<in> fst ` set (lru_cache c)"

section \<open>The resolver\<close>

text \<open>
  A query that is running is entered in the table of pending queries with its future; a future is named by the
  number of the call that created it.
\<close>

record resolver =
  dr_servers :: "string list"
  dr_retries :: nat
  dr_cache :: "(pystr, dns_record list) lru"
  dr_pending :: "(pystr \<times> nat) list"
  dr_queries :: int
  dr_cache_hits :: int
  dr_cache_misses :: int
  dr_errors :: int

definition resolver_new :: resolver where
  "resolver_new =
     \<lparr>dr_servers = [''8.8.8.8'', ''8.8.4.4'', ''114.114.114.114''], dr_retries = 3, dr_cache = lru_new 1000, dr_pending = [],
      dr_queries = 0, dr_cache_hits = 0, dr_cache_misses = 0, dr_errors = 0\<rparr>"

definition set_servers :: "(string \<Rightarrow> bool) \<Rightarrow> string list \<Rightarrow> (resolver, unit) st" where
  "set_servers inet_aton servers r =
     (if servers = [] then (Inl ValueError, r)
      else if \<not> list_all inet_aton servers then (Inl ValueError, r)
      else (Inr (), r\<lparr>dr_servers := servers\<rparr>))"

text \<open>\<^verbatim>\<open>hostname.rstrip(".") + "."\<close>, and the key of cache and pending queries.\<close>

definition absolute :: "pystr \<Rightarrow> pystr" where
  "absolute hostname = rstrip_dots hostname @ [dot]"

definition query_key :: "pystr \<Rightarrow> dns_type \<Rightarrow> pystr" where
  "query_key hostname rtype = hostname @ codes ('':'' @ int_str (type_code rtype))"

text \<open>
  What the network does: the identifier chosen for the message and the reply, if one comes in time, for the
  \<open>n\<close>th try of a call.
\<close>

record network =
  nw_id :: "nat \<Rightarrow> int"
  nw_reply :: "nat \<Rightarrow> string \<Rightarrow> bytes \<Rightarrow> bytes option"
  nw_wide_int :: "pystr \<Rightarrow> int result"

definition query_server :: "network \<Rightarrow> int \<Rightarrow> nat \<Rightarrow> string \<Rightarrow> pystr \<Rightarrow> dns_type \<Rightarrow> (dns_record list result) option" where
  "query_server net now n server hostname rtype =
     (let question = \<lparr>qu_name = hostname, qu_type = rtype, qu_class = C_IN\<rparr>;
          message = \<lparr>dm_id = nw_id net n, dm_flags = 0x0100, dm_questions = [question], dm_answers = [],
                     dm_authorities = [], dm_additionals = []\<rparr>
      in case message_encode (nw_wide_int net) message of
           Inl e \<Rightarrow> Some (Inl e)
         | Inr query \<Rightarrow>
             (case nw_reply net n server query of
                None \<Rightarrow> Some (Inl DNSTimeoutErr)
              | Some response \<Rightarrow>
                  map_option (\<lambda>r. res_bind r (\<lambda>m. if is_error m then Inl DNSResolverErr else Inr (dm_answers m)))
                    (message_decode now response)))"

fun query_tries :: "network \<Rightarrow> int \<Rightarrow> pystr \<Rightarrow> dns_type \<Rightarrow> nat \<Rightarrow> string list \<Rightarrow> (resolver, dns_record list) dv" where
  "query_tries net now hostname rtype n [] =
     (\<lambda>s. Some (Inl DNSResolverErr, s\<lparr>dr_errors := dr_errors s + 1\<rparr>))"
| "query_tries net now hostname rtype n (server # rest) =
     (\<lambda>s. case query_server net now n server hostname rtype of
        None \<Rightarrow> None
      | Some (Inl e) \<Rightarrow>
          if e = DNSTimeoutErr then query_tries net now hostname rtype (Suc n) rest s else Some (Inl e, s)
      | Some (Inr rs) \<Rightarrow> Some (Inr rs, s))"

text \<open>\<^verbatim>\<open>_query_with_retry\<close>: all servers, as often as there are retries.\<close>

definition query_with_retry :: "network \<Rightarrow> int \<Rightarrow> pystr \<Rightarrow> dns_type \<Rightarrow> (resolver, dns_record list) dv" where
  "query_with_retry net now hostname rtype s =
     query_tries net now hostname rtype 0 (concat (replicate (dr_retries s) (dr_servers s))) s"

text \<open>The records of the cache that have not expired.\<close>

definition cached_records :: "int \<Rightarrow> bool \<Rightarrow> pystr \<Rightarrow> resolver \<Rightarrow> dns_record list \<times> resolver" where
  "cached_records now use_cache key s =
     (if use_cache then
        let (cached, cache) = lru_get key (dr_cache s)
        in (filter (\<lambda>r. \<not> is_expired now r) (case cached of None \<Rightarrow> [] | Some rs \<Rightarrow> rs), s\<lparr>dr_cache := cache\<rparr>)
      else ([], s))"

text \<open>
  \<^verbatim>\<open>resolve\<close> up to the point where it waits: for nothing, for the future of another call, or for its own
  query, which from then on is pending.
\<close>

datatype started = Answered "dns_record list" | Joined nat | Querying

definition resolve_start :: "nat \<Rightarrow> int \<Rightarrow> pystr \<Rightarrow> dns_type \<Rightarrow> bool \<Rightarrow> resolver \<Rightarrow> started \<times> resolver" where
  "resolve_start call now hostname rtype use_cache s =
     (let key = query_key (absolute hostname) rtype;
          (valid, s1) = cached_records now use_cache key (s\<lparr>dr_queries := dr_queries s + 1\<rparr>)
      in if valid \<noteq> [] then (Answered valid, s1\<lparr>dr_cache_hits := dr_cache_hits s1 + 1\<rparr>)
         else
           let s2 = s1\<lparr>dr_cache_misses := dr_cache_misses s1 + 1\<rparr>
           in case map_of (dr_pending s2) key of
                Some future \<Rightarrow> (Joined future, s2)
              | None \<Rightarrow> (Querying, s2\<lparr>dr_pending := AList.update key call (dr_pending s2)\<rparr>))"

text \<open>The rest of \<^verbatim>\<open>resolve\<close>, when the query has ended.\<close>

definition resolve_end :: "pystr \<Rightarrow> dns_type \<Rightarrow> bool \<Rightarrow> dns_record list result \<Rightarrow> resolver \<Rightarrow> resolver" where
  "resolve_end hostname rtype use_cache result s =
     (let key = query_key (absolute hostname) rtype;
          s1 = (case result of
                  Inr records \<Rightarrow> if use_cache \<and> records \<noteq> [] then s\<lparr>dr_cache := lru_put key records (dr_cache s)\<rparr> else s
                | Inl _ \<Rightarrow> s)
      in s1\<lparr>dr_pending := AList.delete key (dr_pending s1)\<rparr>)"

text \<open>A call while no other is running; a future that nobody completes is waited for for ever.\<close>

definition resolve :: "network \<Rightarrow> nat \<Rightarrow> int \<Rightarrow> pystr \<Rightarrow> dns_type \<Rightarrow> bool \<Rightarrow> (resolver, dns_record list) dv" where
  "resolve net call now hostname rtype use_cache s =
     (case resolve_start call now hostname rtype use_cache s of
        (Answered rs, s1) \<Rightarrow> Some (Inr rs, s1)
      | (Joined _, _) \<Rightarrow> None
      | (Querying, s1) \<Rightarrow>
          map_option (\<lambda>(result, s2). (result, resolve_end hostname rtype use_cache result s2))
            (query_with_retry net now (absolute hostname) rtype s1))"

definition resolve_data :: "network \<Rightarrow> nat \<Rightarrow> int \<Rightarrow> dns_type \<Rightarrow> pystr \<Rightarrow> (resolver, pystr list) dv" where
  "resolve_data net call now rtype hostname =
     dv_bind (resolve net call now hostname rtype True) (\<lambda>rs.
       dv_lift (st_return (map rr_data (filter (\<lambda>r. rr_type r = rtype) rs))))"

definition resolve_a :: "network \<Rightarrow> nat \<Rightarrow> int \<Rightarrow> pystr \<Rightarrow> (resolver, pystr list) dv" where
  "resolve_a net call now = resolve_data net call now T_A"

definition resolve_aaaa :: "network \<Rightarrow> nat \<Rightarrow> int \<Rightarrow> pystr \<Rightarrow> (resolver, pystr list) dv" where
  "resolve_aaaa net call now = resolve_data net call now T_AAAA"

definition resolve_ns :: "network \<Rightarrow> nat \<Rightarrow> int \<Rightarrow> pystr \<Rightarrow> (resolver, pystr list) dv" where
  "resolve_ns net call now = resolve_data net call now T_NS"

definition resolve_txt :: "network \<Rightarrow> nat \<Rightarrow> int \<Rightarrow> pystr \<Rightarrow> (resolver, pystr list) dv" where
  "resolve_txt net call now = resolve_data net call now T_TXT"

definition resolve_mx :: "network \<Rightarrow> nat \<Rightarrow> int \<Rightarrow> pystr \<Rightarrow> (resolver, (int \<times> pystr) list) dv" where
  "resolve_mx net call now hostname =
     dv_bind (resolve net call now hostname T_MX True) (\<lambda>rs.
       dv_lift (st_return (map (\<lambda>r. (rr_priority r, rr_data r)) (filter (\<lambda>r. rr_type r = T_MX) rs))))"

definition first_data :: "dns_record list \<Rightarrow> pystr option" where
  "first_data rs = (case rs of [] \<Rightarrow> None | r # _ \<Rightarrow> Some (rr_data r))"

definition resolve_cname :: "network \<Rightarrow> nat \<Rightarrow> int \<Rightarrow> pystr \<Rightarrow> (resolver, pystr option) dv" where
  "resolve_cname net call now hostname =
     dv_bind (resolve net call now hostname T_CNAME True) (\<lambda>rs. dv_lift (st_return (first_data rs)))"

definition resolve_ptr :: "network \<Rightarrow> nat \<Rightarrow> int \<Rightarrow> pystr \<Rightarrow> (resolver, pystr option) dv" where
  "resolve_ptr net call now ip_address =
     (case split_on dot ip_address of
        [a, b, c, d] \<Rightarrow>
          dv_bind (resolve net call now (join_with dot [d, c, b, a] @ codes ''.in-addr.arpa.'') T_PTR True)
            (\<lambda>rs. dv_lift (st_return (first_data rs)))
      | _ \<Rightarrow> dv_lift (st_return None))"

definition clear_cache :: "resolver \<Rightarrow> resolver" where
  "clear_cache s = s\<lparr>dr_cache := lru_clear (dr_cache s)\<rparr>"

text \<open>The name is used as it is, without the dot that \<^verbatim>\<open>resolve\<close> puts at its end.\<close>

definition remove_from_cache :: "pystr \<Rightarrow> dns_type \<Rightarrow> resolver \<Rightarrow> bool \<times> resolver" where
  "remove_from_cache hostname rtype s =
     (let (removed, cache) = lru_remove (query_key hostname rtype) (dr_cache s) in (removed, s\<lparr>dr_cache := cache\<rparr>))"

section \<open>Queries by the name of the type\<close>

definition type_map :: "string \<Rightarrow> dns_type option" where
  "type_map =
     map_of [(''A'', T_A), (''AAAA'', T_AAAA), (''CNAME'', T_CNAME), (''MX'', T_MX), (''NS'', T_NS), (''TXT'', T_TXT),
             (''PTR'', T_PTR), (''SOA'', T_SOA)]"

definition dns_query :: "network \<Rightarrow> nat \<Rightarrow> int \<Rightarrow> pystr \<Rightarrow> string \<Rightarrow> (resolver, pystr list) dv" where
  "dns_query net call now hostname record_type =
     (case type_map (upper record_type) of
        None \<Rightarrow> dv_lift (st_raise ValueError)
      | Some rtype \<Rightarrow>
          dv_bind (resolve net call now hostname rtype True) (\<lambda>rs. dv_lift (st_return (map rr_data rs))))"

text \<open>\<^verbatim>\<open>check\<close>: an exception is recorded as the result of its type.\<close>

fun check_types :: "(nat \<Rightarrow> network) \<Rightarrow> nat \<Rightarrow> int \<Rightarrow> pystr \<Rightarrow> (string \<times> dns_type) list \<Rightarrow>
  resolver \<Rightarrow> ((string \<times> pystr list result) list \<times> resolver) option" where
  "check_types nets call now hostname [] s = Some ([], s)"
| "check_types nets call now hostname ((name, rtype) # ts) s =
     (case resolve (nets call) call now hostname rtype True s of
        None \<Rightarrow> None
      | Some (r, s1) \<Rightarrow>
          map_option (\<lambda>(results, s2). ((name, res_bind r (\<lambda>rs. Inr (map rr_data rs))) # results, s2))
            (check_types nets (Suc call) now hostname ts s1))"

definition dns_check :: "(nat \<Rightarrow> network) \<Rightarrow> nat \<Rightarrow> int \<Rightarrow> pystr \<Rightarrow> resolver \<Rightarrow> ((string \<times> pystr list result) list \<times> resolver) option" where
  "dns_check nets call now hostname =
     check_types nets call now hostname
       [(''A'', T_A), (''AAAA'', T_AAAA), (''MX'', T_MX), (''NS'', T_NS), (''TXT'', T_TXT), (''CNAME'', T_CNAME)]"

end
