(* ===== verification/Dns_Facts.thy ===== *)
theory Dns_Facts
  imports Dns
begin

text \<open>
  When the decoding of a name returns; names, questions, records and messages are read back from their bytes.
\<close>

section \<open>Compression pointers\<close>

text \<open>One round of the loop: the offset of the next round.\<close>

definition hop :: "bytes \<Rightarrow> int \<Rightarrow> int option" where
  "hop data offset =
     (if offset \<ge> ilen data then None
      else
        let length = uint (data ! nat offset) in
        if length AND 0xC0 \<noteq> 0 then
          (case py_index data (offset + 1) of
             Inl _ \<Rightarrow> None
           | Inr low \<Rightarrow> Some (push_bit 8 (length AND 0x3F) OR uint low))
        else if length = 0 \<or> offset + 1 + length > ilen data then None
        else Some (offset + 1 + length))"

abbreviation hops :: "bytes \<Rightarrow> int \<Rightarrow> int \<Rightarrow> bool" where
  "hops data x y \<equiv> hop data x = Some y"

text \<open>The hops from an offset come to one from which they lead back to it.\<close>

definition circle :: "bytes \<Rightarrow> int \<Rightarrow> bool" where
  "circle data x \<longleftrightarrow> (\<exists>y. (hops data)\<^sup>*\<^sup>* x y \<and> (hops data)\<^sup>+\<^sup>+ y y)"

lemma name_loop_stops: "hop data x = None \<Longrightarrow> name_loop data ls j og x \<noteq> None"
  by (subst name_loop.simps) (auto simp: hop_def Let_def split: if_splits sum.splits)

lemma name_loop_hops: "hops data x y \<Longrightarrow> \<exists>ls' j' og'. name_loop data ls j og x = name_loop data ls' j' og' y"
  by (subst name_loop.simps) (auto simp: hop_def Let_def split: if_splits sum.splits)

lemma hops_next: "hops data x y \<Longrightarrow> (hops data)\<^sup>*\<^sup>* x z \<Longrightarrow> x \<noteq> z \<Longrightarrow> (hops data)\<^sup>*\<^sup>* y z"
  by (erule converse_rtranclpE) auto

lemma hops_round: "hops data x y \<Longrightarrow> (hops data)\<^sup>+\<^sup>+ x z \<Longrightarrow> (hops data)\<^sup>*\<^sup>* y z"
  by (drule tranclpD) auto

lemma circle_hop: "hops data x y \<Longrightarrow> circle data x \<longleftrightarrow> circle data y"
proof
  assume xy: "hops data x y" and "circle data x"
  then obtain z where z: "(hops data)\<^sup>*\<^sup>* x z" "(hops data)\<^sup>+\<^sup>+ z z" by (auto simp: circle_def)
  show "circle data y"
  proof (cases "x = z")
    case True
    then have "(hops data)\<^sup>+\<^sup>+ x x" using z(2) by simp
    then have "(hops data)\<^sup>*\<^sup>* y x" by (rule hops_round [OF xy])
    then have "(hops data)\<^sup>+\<^sup>+ y y" using xy by (rule rtranclp_into_tranclp1)
    then show ?thesis by (auto simp: circle_def)
  next
    case False
    have "(hops data)\<^sup>*\<^sup>* y z" by (rule hops_next [OF xy z(1) False])
    with z(2) show ?thesis by (auto simp: circle_def)
  qed
next
  assume xy: "hops data x y" and "circle data y"
  then obtain z where z: "(hops data)\<^sup>*\<^sup>* y z" "(hops data)\<^sup>+\<^sup>+ z z" by (auto simp: circle_def)
  have "(hops data)\<^sup>*\<^sup>* x z" using xy z(1) by (rule converse_rtranclp_into_rtranclp)
  with z(2) show "circle data x" by (auto simp: circle_def)
qed

lemma no_hop_no_circle:
  assumes "hop data x = None"
  shows "\<not> circle data x"
proof
  assume "circle data x"
  then obtain z where z: "(hops data)\<^sup>*\<^sup>* x z" "(hops data)\<^sup>+\<^sup>+ z z" by (auto simp: circle_def)
  from z(1) assms have "z = x" by (cases rule: converse_rtranclpE) auto
  with z(2) assms show False by (auto dest: tranclpD)
qed

lemma name_loop_no_circle:
  assumes "name_loop data ls j og x = Some r"
  shows "\<not> circle data x"
proof (rule name_loop.raw_induct [where P = "\<lambda>data ls j og x r. \<not> circle data x", OF _ assms])
  fix f data ls j og x r
  assume IH: "\<And>data ls j og x r. f data ls j og x = Some r \<Longrightarrow> \<not> circle data x"
    and body: "(if ilen data \<le> x then Some (Inl DNSResolverErr, x)
      else let length = uint (data ! nat x) in
        if length AND 0xC0 \<noteq> 0 then
          (case py_index data (x + 1) of
             Inl e \<Rightarrow> Some (Inl e, x)
           | Inr low \<Rightarrow> f data ls True (if j then og else x + 2) (push_bit 8 (length AND 0x3F) OR uint low))
        else if length = 0 then Some (Inr (join_with dot ls @ [dot]), if j then og else x + 1)
        else if ilen data < x + 1 + length then Some (Inl DNSResolverErr, x)
        else f data (ls @ [ascii_decode (py_slice data (x + 1) (x + 1 + length))]) j og (x + 1 + length)) = Some r"
  show "\<not> circle data x"
  proof (cases "hop data x")
    case None
    then show ?thesis by (rule no_hop_no_circle)
  next
    case (Some y)
    then have "\<exists>ls' j' og'. f data ls' j' og' y = Some r"
      using body by (auto simp: hop_def Let_def split: if_splits sum.splits)
    then have "\<not> circle data y" using IH by blast
    with circle_hop [OF Some] show ?thesis by simp
  qed
qed

lemma hop_bounds: "hops data x y \<Longrightarrow> 0 \<le> x \<Longrightarrow> x < ilen data \<and> 0 \<le> y"
  by (auto simp: hop_def Let_def split: if_splits sum.splits)

lemma name_loop_returns:
  assumes "\<not> circle data x" and "0 \<le> x"
  shows "name_loop data ls j og x \<noteq> None"
proof -
  define D where "D = {y. (hops data)\<^sup>*\<^sup>* x y}"
  define R where "R = {(z, y). hops data y z \<and> y \<in> D}"
  have D: "0 \<le> y" if "y \<in> D" for y
    using that unfolding D_def mem_Collect_eq by (induction rule: rtranclp_induct) (use assms(2) hop_bounds in auto)
  have "R \<subseteq> (\<lambda>y. (the (hop data y), y)) ` {0..<ilen data}"
    using D hop_bounds by (force simp: R_def)
  then have "finite R" by (rule finite_subset) simp
  moreover have path: "(hops data)\<^sup>+\<^sup>+ z y" if "(y, z) \<in> R\<^sup>+" for y z
    using that by (induction rule: trancl_induct) (auto simp: R_def intro: tranclp_into_tranclp2)
  have "acyclic R"
  proof (rule acyclicI, rule allI, rule notI)
    fix y assume y: "(y, y) \<in> R\<^sup>+"
    then have "y \<in> D" using tranclD2 [OF y] by (auto simp: R_def D_def intro: rtranclp.rtrancl_into_rtrancl)
    with path [OF y] assms(1) show False by (auto simp: circle_def D_def)
  qed
  ultimately have "wf R" by (rule finite_acyclic_wf)
  then have "y \<in> D \<longrightarrow> (\<forall>ls j og. name_loop data ls j og y \<noteq> None)" for y
  proof (induction y rule: wf_induct_rule)
    case (less y)
    show ?case
    proof (intro impI allI)
      fix ls j og assume y: "y \<in> D"
      show "name_loop data ls j og y \<noteq> None"
      proof (cases "hop data y")
        case None
        then show ?thesis by (rule name_loop_stops)
      next
        case (Some z)
        then have "(z, y) \<in> R" "z \<in> D" using y by (auto simp: R_def D_def intro: rtranclp.rtrancl_into_rtrancl)
        with less.IH have "\<And>ls j og. name_loop data ls j og z \<noteq> None" by blast
        with name_loop_hops [OF Some, of ls j og] show ?thesis by metis
      qed
    qed
  qed
  moreover have "x \<in> D" by (simp add: D_def)
  ultimately show ?thesis by blast
qed

text \<open>
  C16. Decoding a name does not return exactly when the pointers lead in a circle: some offset that the loop
  reaches is reached from itself.  A pointer to itself is enough.
\<close>
theorem dns_name_circles:
  assumes "0 \<le> offset"
  shows "decode_name data offset = None \<longleftrightarrow>
      (\<exists>y. (hops data)\<^sup>*\<^sup>* offset y \<and> (hops data)\<^sup>+\<^sup>+ y y)"
  using name_loop_no_circle name_loop_returns [OF _ assms]
  unfolding decode_name_def circle_def [symmetric] by (metis not_None_eq)

theorem dns_name_circles_witness:
  "decode_name (replicate 12 0 @ [0xC0, 12]) 12 = None \<and> decode_name (replicate 12 0 @ [1, 97, 0xC0, 0]) 12 \<noteq> None"
proof -
  let ?stuck = "replicate 12 0 @ [0xC0, 12] :: bytes" and ?fine = "replicate 12 0 @ [1, 97, 0xC0, 0] :: bytes"
  have "hops ?stuck 12 12" by code_simp
  then have "(hops ?stuck)\<^sup>+\<^sup>+ 12 12" by (rule tranclp.r_into_trancl)
  then have "decode_name ?stuck 12 = None" by (subst dns_name_circles) auto
  moreover have "hops ?fine 12 14" "hops ?fine 14 0" "hop ?fine 0 = None" by code_simp+
  then have "\<not> circle ?fine 12"
    using circle_hop [of ?fine 12 14] circle_hop [of ?fine 14 0] no_hop_no_circle [of ?fine 0] by blast
  then have "\<not> (\<exists>y. (hops ?fine)\<^sup>*\<^sup>* 12 y \<and> (hops ?fine)\<^sup>+\<^sup>+ y y)" by (simp add: circle_def)
  then have "decode_name ?fine 12 \<noteq> None" by (subst dns_name_circles) simp_all
  ultimately show ?thesis by blast
qed

section \<open>Codecs on an offset\<close>

text \<open>
  What a section of a message relies on: a valid item is encoded, and at the position where its bytes start the
  decoder gives it back and stops behind them, whatever surrounds them.
\<close>

definition read_back :: "(bytes \<Rightarrow> (int, 'a) dv) \<Rightarrow> bytes \<Rightarrow> 'a \<Rightarrow> bool" where
  "read_back dec bs x \<longleftrightarrow> (\<forall>pre post. dec (pre @ bs @ post) (ilen pre) = Some (Inr x, ilen pre + ilen bs))"

lemma read_backD: "read_back dec bs x \<Longrightarrow> dec (pre @ bs @ post) (ilen pre) = Some (Inr x, ilen pre + ilen bs)"
  by (simp add: read_back_def)

locale item_codec =
  fixes enc :: "'a \<Rightarrow> bytes result"
    and dec :: "bytes \<Rightarrow> (int, 'a) dv"
    and good :: "'a \<Rightarrow> bool"
  assumes item: "good x \<Longrightarrow> \<exists>bs. enc x = Inr bs \<and> read_back dec bs x"
begin

lemma items:
  assumes "list_all good xs"
  shows "\<exists>bs. encode_each enc xs = Inr bs \<and> read_back (\<lambda>data. decode_each (length xs) (dec data)) bs xs"
  using assms
proof (induction xs)
  case Nil
  then show ?case by (simp add: read_back_def)
next
  case (Cons x xs)
  then obtain bs where bs: "encode_each enc xs = Inr bs" "read_back (\<lambda>data. decode_each (length xs) (dec data)) bs xs" by auto
  from Cons.prems item [of x] obtain b where b: "enc x = Inr b" "read_back dec b x" by auto
  have "decode_each (length (x # xs)) (dec (pre @ (b @ bs) @ post)) (ilen pre) = Some (Inr (x # xs), ilen pre + ilen (b @ bs))"
    for pre post
  proof -
    have "dec (pre @ b @ bs @ post) (ilen pre) = Some (Inr x, ilen pre + ilen b)"
      using read_backD [OF b(2), of pre "bs @ post"] by simp
    moreover have "decode_each (length xs) (dec (pre @ b @ bs @ post)) (ilen pre + ilen b) =
        Some (Inr xs, ilen pre + ilen b + ilen bs)"
      using read_backD [OF bs(2), of "pre @ b" post] by simp
    ultimately show ?thesis by simp
  qed
  then have "read_back (\<lambda>data. decode_each (length (x # xs)) (dec data)) (b @ bs) (x # xs)"
    unfolding read_back_def by blast
  then show ?case using b(1) bs(1) by auto
qed

end

section \<open>Names\<close>

definition label_ok :: "pystr \<Rightarrow> bool" where
  "label_ok l \<longleftrightarrow> l \<noteq> [] \<and> length l < 64 \<and> (\<forall>c \<in> set l. c < 128 \<and> c \<noteq> dot)"

text \<open>The name of a list of labels, with its last dot, and its bytes.\<close>

definition fqdn :: "pystr list \<Rightarrow> pystr" where
  "fqdn ls = join_with dot ls @ [dot]"

definition label_bytes :: "pystr \<Rightarrow> bytes" where
  "label_bytes l = of_nat (length l) # map of_nat l"

definition name_bytes :: "pystr list \<Rightarrow> bytes" where
  "name_bytes ls = concat (map label_bytes ls) @ [0]"

lemma label_ascii:
  assumes "label_ok l"
  shows "ascii_encode l = map of_nat l" "ascii_decode (map of_nat l) = l" "one_byte (ilen l) = Inr [of_nat (length l)]"
    "uint (of_nat (length l) :: byte) = ilen l"
proof -
  have filter: "filter (\<lambda>c. c < 128) l = l" using assms by (auto simp: label_ok_def intro: filter_True)
  then show "ascii_encode l = map of_nat l" by (simp add: ascii_encode_def)
  have "map unat (map of_nat l :: bytes) = l"
    using assms by (auto simp: label_ok_def unsigned_of_nat take_bit_nat_eq_self intro!: map_idI)
  then show "ascii_decode (map of_nat l) = l" using filter by (simp add: ascii_decode_def)
  have len: "length l < 256" using assms by (simp add: label_ok_def)
  then show "one_byte (ilen l) = Inr [of_nat (length l)]" by (simp add: one_byte_def)
  show "uint (of_nat (length l) :: byte) = ilen l" using len by (simp add: unsigned_of_nat take_bit_nat_eq_self)
qed

lemma small_no_pointer:
  fixes n :: int
  assumes "0 \<le> n" and "n < 64"
  shows "n AND 0xC0 = 0"
proof -
  have "n AND 0xC0 = take_bit 6 n AND 0xC0" using assms by (simp add: take_bit_int_eq_self)
  also have "\<dots> = n AND take_bit 6 0xC0" by (simp only: take_bit_eq_mask and.assoc and.commute [of "mask 6" "0xC0"])
  finally show ?thesis by (simp add: take_bit_eq_mod)
qed

lemma encode_labels_ok: "list_all label_ok ls \<Longrightarrow> encode_labels ls = Inr (name_bytes ls)"
  by (induction ls) (simp_all add: name_bytes_def label_ascii label_bytes_def)

lemma rstrip_fqdn:
  assumes "list_all label_ok ls" and "ls \<noteq> []"
  shows "rstrip_dots (fqdn ls) = join_with dot ls" "rstrip_dots (join_with dot ls) = join_with dot ls"
proof -
  have "join_with dot ls \<noteq> [] \<and> last (join_with dot ls) \<noteq> dot"
    using assms
  proof (induction dot ls rule: join_with.induct)
    case (2 p)
    then show ?case by (auto simp: label_ok_def)
  next
    case (3 p q ps)
    then show ?case by (auto simp: last_append)
  qed simp
  then show "rstrip_dots (fqdn ls) = join_with dot ls" "rstrip_dots (join_with dot ls) = join_with dot ls"
    by (cases "join_with dot ls" rule: rev_cases; simp add: rstrip_dots_def fqdn_def)+
qed

lemma split_labels: "list_all label_ok ls \<Longrightarrow> ls \<noteq> [] \<Longrightarrow> split_on dot (join_with dot ls) = ls"
  by (intro split_join) (auto simp: list_all_iff label_ok_def)

lemma encode_fqdn: "list_all label_ok ls \<Longrightarrow> encode_name (fqdn ls) = Inr (name_bytes ls)"
proof (cases "ls = []")
  case False
  assume ls: "list_all label_ok ls"
  have "fqdn ls \<noteq> [dot]"
    using rstrip_fqdn(1) [OF ls False] split_labels [OF ls False] ls False
    by (cases ls) (auto simp: fqdn_def label_ok_def)
  then show ?thesis
    using ls False by (simp add: encode_name_def rstrip_fqdn split_labels encode_labels_ok)
qed (simp add: fqdn_def encode_name_def name_bytes_def)

lemma decode_labels:
  assumes "list_all label_ok ls"
  shows "name_loop (pre @ name_bytes ls @ post) acc j og (ilen pre) =
    Some (Inr (fqdn (acc @ ls)), if j then og else ilen (pre @ name_bytes ls))"
  using assms
proof (induction ls arbitrary: pre acc)
  case Nil
  then show ?case by (subst name_loop.simps) (simp add: name_bytes_def fqdn_def)
next
  case (Cons l ls)
  let ?data = "pre @ name_bytes (l # ls) @ post"
  have l: "label_ok l" using Cons.prems by simp
  have data: "?data = pre @ of_nat (length l) # map of_nat l @ name_bytes ls @ post"
    by (simp add: name_bytes_def label_bytes_def)
  have len: "uint (?data ! nat (ilen pre)) = ilen l" unfolding data using label_ascii(4) [OF l] by simp
  have "py_slice ?data (ilen pre + 1) (ilen pre + 1 + ilen l) = map of_nat l"
    using slice_at [of "pre @ [of_nat (length l)]" "map of_nat l" "name_bytes ls @ post"] unfolding data by (simp add: algebra_simps)
  then have slice: "ascii_decode (py_slice ?data (ilen pre + 1) (ilen pre + 1 + ilen l)) = l" by (simp add: label_ascii(2) [OF l])
  have "0 < ilen l" "ilen l < 64" using l by (auto simp: label_ok_def)
  then have bits: "ilen l AND 0xC0 = 0" "ilen l \<noteq> 0" by (simp_all add: small_no_pointer)
  have room: "\<not> ilen ?data \<le> ilen pre" "\<not> ilen ?data < ilen pre + 1 + ilen l" unfolding data by simp_all
  have "name_loop ?data acc j og (ilen pre) = name_loop ?data (acc @ [l]) j og (ilen pre + 1 + ilen l)"
    by (subst name_loop.simps) (simp only: Let_def len slice bits room if_False if_True simp_thms)
  also have "\<dots> = Some (Inr (fqdn (acc @ l # ls)), if j then og else ilen (pre @ name_bytes (l # ls)))"
    using Cons.IH [of "pre @ label_bytes l" "acc @ [l]"] Cons.prems
    by (simp add: name_bytes_def label_bytes_def algebra_simps)
  finally show ?case .
qed

definition name_ok :: "pystr \<Rightarrow> bool" where
  "name_ok name \<longleftrightarrow> (\<exists>ls. name = fqdn ls \<and> list_all label_ok ls \<and> length (name_bytes ls) < 256)"

lemma name_item:
  assumes "name_ok name"
  obtains bs where "encode_name name = Inr bs" and "read_back decode_name bs name" and "length bs < 256"
proof -
  from assms obtain ls where ls: "name = fqdn ls" "list_all label_ok ls" "length (name_bytes ls) < 256"
    by (auto simp: name_ok_def)
  have "read_back decode_name (name_bytes ls) name"
    using decode_labels [OF ls(2)] by (simp add: read_back_def decode_name_def ls(1))
  with ls encode_fqdn show thesis by (intro that) simp_all
qed

interpretation names: item_codec encode_name decode_name name_ok
  by unfold_locales (metis name_item)

section \<open>Questions and records\<close>

lemma type_code_member [simp]: "member_of dns_types (type_code t) = Inr t"
  by (cases t) (simp_all add: member_of_def value_of_def dns_types_def)

lemma class_code_member [simp]: "member_of dns_classes (class_code c) = Inr c"
  by (cases c) (simp_all add: member_of_def value_of_def dns_classes_def)

lemma type_code_bounds: "0 \<le> type_code t" "type_code t < 65536"
  by (cases t; simp add: value_of_def dns_types_def)+

lemma class_code_bounds: "0 \<le> class_code c" "class_code c < 65536"
  by (cases c; simp add: value_of_def dns_classes_def)+

lemma type_code_eq [simp]: "type_code s = type_code t \<longleftrightarrow> s = t"
  by (metis type_code_member sum.inject(2))

definition question_ok :: "dns_question \<Rightarrow> bool" where
  "question_ok q \<longleftrightarrow> name_ok (qu_name q)"

lemma take_struct_at:
  "length w = n \<Longrightarrow> take_struct (pre @ w @ post) n (ilen pre) = Some (Inr w, ilen pre + int n)"
  using slice_at [of pre w post] by (simp add: take_struct_def)

lemma question_item:
  assumes "question_ok q"
  shows "\<exists>bs. question_encode q = Inr bs \<and> read_back question_decode bs q"
proof -
  from assms obtain name where name: "encode_name (qu_name q) = Inr name" "read_back decode_name name (qu_name q)"
    by (auto simp: question_ok_def elim: name_item)
  define w where "w = rev (le_bytes 2 (type_code (qu_type q))) @ rev (le_bytes 2 (class_code (qu_class q)))"
  have enc: "question_encode q = Inr (name @ w)"
    using name type_code_bounds class_code_bounds by (simp add: question_encode_def w_def pack_uint_def byte_order_def)
  have parts: "length w = 4" "unpack_uint True (take 2 w) = type_code (qu_type q)" "unpack_uint True (drop 2 w) = class_code (qu_class q)"
    using type_code_bounds class_code_bounds by (simp_all add: w_def be_words)
  have "question_decode (pre @ (name @ w) @ post) (ilen pre) = Some (Inr q, ilen pre + ilen (name @ w))" for pre post
  proof -
    have "decode_name (pre @ (name @ w) @ post) (ilen pre) = Some (Inr (qu_name q), ilen pre + ilen name)"
      using read_backD [OF name(2), of pre "w @ post"] by simp
    moreover have "take_struct (pre @ (name @ w) @ post) 4 (ilen pre + ilen name) = Some (Inr w, ilen pre + ilen name + 4)"
      using take_struct_at [OF parts(1), of "pre @ name" post] by simp
    ultimately show ?thesis
      using parts by (simp add: question_decode_def)
  qed
  with enc show ?thesis unfolding read_back_def by blast
qed

interpretation questions: item_codec question_encode question_decode question_ok
  by unfold_locales (rule question_item)

text \<open>The data of a record in the form that decoding gives.\<close>

definition rdata_ok :: "dns_record \<Rightarrow> bool" where
  "rdata_ok r \<longleftrightarrow>
     (case rr_type r of
        T_A \<Rightarrow> \<exists>n. 0 \<le> n \<and> n < 2 ^ 32 \<and> rr_data r = codes (ip4_str n)
      | T_AAAA \<Rightarrow> \<exists>n. 0 \<le> n \<and> n < 2 ^ 128 \<and> rr_data r = codes (ip6_str n)
      | T_TXT \<Rightarrow> \<exists>bs. utf8_encode (rr_data r) = Inr bs \<and> length bs < 256
      | T_SOA \<Rightarrow> rr_data r = codes ''00''
      | t \<Rightarrow> if t \<in> {T_CNAME, T_NS, T_PTR, T_MX} then name_ok (rr_data r) else rr_data r = []) \<and>
     (if rr_type r = T_MX then 0 \<le> rr_priority r \<and> rr_priority r < 2 ^ 16 else rr_priority r = 0)"

lemma split_map:
  assumes "inj f"
  shows "split_on (f c) (map f s) = map (map f) (split_on c s)"
  by (induction s) (auto simp: inj_eq [OF assms] split: list.split)

lemma inj_codes: "inj (of_char :: char \<Rightarrow> nat)"
  by (rule injI) simp

lemma address_parts: "split_on dot (codes (ip4_str n)) = map (\<lambda>b. codes (nat_str (nat (uint b)))) (ip4_packed n)"
proof -
  have "split_on CHR ''.'' (ip4_str n) = map (\<lambda>b. nat_str (nat (uint b))) (ip4_packed n)"
    unfolding ip4_str_def
  proof (rule split_join)
    show "map (\<lambda>b. nat_str (nat (uint b))) (ip4_packed n) \<noteq> []" by (metis length_ip4_packed list.size(3) map_is_Nil_conv zero_neq_numeral)
  qed (use no_dot(1) nat_str_digits in auto)
  then show ?thesis
    using split_map [OF inj_codes, of "CHR ''.''" "ip4_str n"] by (simp add: codes_def)
qed

lemma int_of_codes_nat: "int_of_codes wide_int (codes (nat_str n)) = Inr (int n)"
proof -
  have "c < 128" if "c \<in> set (codes (nat_str n))" for c
    using that nat_str_digits [of n] by (auto simp: codes_def ascii_digits_def list_all_iff digit_char_def)
  moreover have "int_of_text (nat_str n) = Inr (int n)" using int_of_int_str [of "int n"] by (simp add: int_str_def)
  ultimately show ?thesis by (simp add: int_of_codes_def codes_def comp_def list_all_iff)
qed

lemma parts_ints_octets:
  "parts_ints wide_int (map (\<lambda>b. codes (nat_str (nat (uint b)))) bs) = Inr (map uint (bs :: bytes))"
  by (induction bs) (simp_all add: int_of_codes_nat)

lemma hex_text_zero: "hex_text [0] = codes ''00''"
  by code_simp

lemma read_back_whole: "read_back decode_name bs name \<Longrightarrow> name_at bs 0 = Some (Inr name)"
  using read_backD [of decode_name bs name "[]" "[]"] by (simp add: name_at_def)

text \<open>What encoding and decoding make of the data, by the type of the record.\<close>

definition rdata_back :: "(pystr \<Rightarrow> int result) \<Rightarrow> dns_record \<Rightarrow> bytes \<Rightarrow> bool" where
  "rdata_back wide_int r bs \<longleftrightarrow> encode_rdata wide_int r = Inr bs \<and>
     decode_rdata (type_code (rr_type r)) bs = Some (Inr (rr_priority r, rr_data r)) \<and> length bs < 65536"

lemma rdata_address:
  assumes "rr_type r = T_A" and "rdata_ok r"
  shows "\<exists>bs. rdata_back wide_int r bs"
proof -
  from assms obtain n where n: "rr_data r = codes (ip4_str n)" "rr_priority r = 0" by (auto simp: rdata_ok_def)
  have "int_bytes (map uint (ip4_packed n)) = Inr (ip4_packed n)"
    by (simp add: int_bytes_def list_all_iff comp_def)
  then have "encode_rdata wide_int r = Inr (ip4_packed n)"
    unfolding encode_rdata_def assms(1) n dns_type.case address_parts parts_ints_octets by simp
  then have "rdata_back wide_int r (ip4_packed n)"
    by (simp add: rdata_back_def decode_rdata_def assms(1) n ip4_str_def)
  then show ?thesis ..
qed

lemma rdata_address6:
  assumes "rr_type r = T_AAAA" and "rdata_ok r"
  shows "\<exists>bs. rdata_back wide_int r bs"
proof -
  from assms obtain n where n: "0 \<le> n" "n < 2 ^ 128" "rr_data r = codes (ip6_str n)" "rr_priority r = 0"
    by (auto simp: rdata_ok_def)
  have "unpack_uint True (rev (le_bytes 16 n)) = n" using n by (intro be_words) simp_all
  then have "rdata_back wide_int r (rev (le_bytes 16 n))"
    using ip6_of_text_str [OF n(1,2)]
    by (simp add: rdata_back_def encode_rdata_def decode_rdata_def assms(1) n(3,4) codes_def)
  then show ?thesis ..
qed

lemma rdata_name:
  assumes "rr_type r \<in> {T_CNAME, T_NS, T_PTR}" and "rdata_ok r"
  shows "\<exists>bs. rdata_back wide_int r bs"
proof -
  from assms have ok: "name_ok (rr_data r)" "rr_priority r = 0" by (auto simp: rdata_ok_def)
  then obtain bs where bs: "encode_name (rr_data r) = Inr bs" "read_back decode_name bs (rr_data r)" "length bs < 256"
    by (auto elim: name_item)
  have "rdata_back wide_int r bs"
    using assms(1) ok bs(1,3) read_back_whole [OF bs(2)] by (auto simp: rdata_back_def encode_rdata_def decode_rdata_def)
  then show ?thesis ..
qed

lemma rdata_exchange:
  assumes "rr_type r = T_MX" and "rdata_ok r"
  shows "\<exists>bs. rdata_back wide_int r bs"
proof -
  from assms have ok: "name_ok (rr_data r)" "0 \<le> rr_priority r" "rr_priority r < 2 ^ 16" by (auto simp: rdata_ok_def)
  then obtain bs where bs: "encode_name (rr_data r) = Inr bs" "read_back decode_name bs (rr_data r)" "length bs < 256"
    by (auto elim: name_item)
  define p where "p = rev (le_bytes 2 (rr_priority r))"
  have p: "pack_uint True 2 (rr_priority r) = Inr p" "unpack_uint True p = rr_priority r" "length p = 2"
    using ok by (auto simp: p_def pack_uint_Inr be_words)
  have "name_at (p @ bs) 2 = Some (Inr (rr_data r))"
    using read_backD [OF bs(2), of p "[]"] p(3) by (simp add: name_at_def)
  then have "rdata_back wide_int r (p @ bs)"
    using p bs(1,3) by (simp add: rdata_back_def encode_rdata_def decode_rdata_def assms(1))
  then show ?thesis ..
qed

lemma rdata_text:
  assumes "rr_type r = T_TXT" and "rdata_ok r"
  shows "\<exists>bs. rdata_back wide_int r bs"
proof -
  from assms obtain bs where bs: "utf8_encode (rr_data r) = Inr bs" "length bs < 256" "rr_priority r = 0"
    by (auto simp: rdata_ok_def)
  have len: "uint (word_of_int (ilen bs) :: byte) = ilen bs"
    using bs(2) by (simp add: unsigned_of_nat take_bit_nat_eq_self)
  have "py_slice (word_of_int (ilen bs) # bs) 1 (1 + ilen bs) = bs" by (simp add: py_slice_in)
  then have "rdata_back wide_int r (word_of_int (ilen bs) # bs)"
    using bs utf8_lenient_encode(2) [OF bs(1)] len
    by (simp add: rdata_back_def encode_rdata_def decode_rdata_def assms(1) one_byte_def)
  then show ?thesis ..
qed

lemma rdata_item:
  assumes "rdata_ok r"
  obtains bs where "rdata_back wide_int r bs"
proof -
  have "\<exists>bs. rdata_back wide_int r bs"
  proof (cases "rr_type r \<in> {T_A, T_AAAA, T_CNAME, T_NS, T_PTR, T_MX, T_TXT}")
    case True
    then show ?thesis
      using rdata_address rdata_address6 rdata_name rdata_exchange rdata_text assms by blast
  next
    case False
    then have "rdata_back wide_int r (if rr_type r = T_SOA then [0] else [])"
      using assms hex_text_zero
      by (cases "rr_type r") (auto simp: rdata_back_def rdata_ok_def encode_rdata_def decode_rdata_def hex_text_def)
    then show ?thesis ..
  qed
  with that show thesis by blast
qed

definition record_ok :: "int \<Rightarrow> dns_record \<Rightarrow> bool" where
  "record_ok now r \<longleftrightarrow> name_ok (rr_name r) \<and> rdata_ok r \<and> 0 \<le> rr_ttl r \<and> rr_ttl r < 2 ^ 32 \<and> rr_created_at r = now"

lemma record_item:
  assumes "record_ok now r"
  shows "\<exists>bs. encode_rr wide_int r = Inr bs \<and> read_back (decode_rr now) bs r"
proof -
  from assms obtain name where name: "encode_name (rr_name r) = Inr name" "read_back decode_name name (rr_name r)"
    by (auto simp: record_ok_def elim: name_item)
  from assms obtain rdata where rdata: "rdata_back wide_int r rdata"
    by (auto simp: record_ok_def elim: rdata_item)
  have ttl: "0 \<le> rr_ttl r" "rr_ttl r < 2 ^ 32" "rr_created_at r = now" using assms by (simp_all add: record_ok_def)
  define w where "w = rev (le_bytes 2 (type_code (rr_type r))) @ rev (le_bytes 2 (class_code (rr_class r))) @
    rev (le_bytes 4 (rr_ttl r)) @ rev (le_bytes 2 (ilen rdata))"
  have len: "ilen rdata < 65536" using rdata by (simp add: rdata_back_def)
  have enc: "encode_rr wide_int r = Inr (name @ w @ rdata)"
    using name(1) rdata ttl len type_code_bounds class_code_bounds
    by (simp add: encode_rr_def w_def pack_uint_def byte_order_def rdata_back_def)
  have w: "length w = 10" "unpack_uint True (take 2 w) = type_code (rr_type r)"
    "unpack_uint True (take 2 (drop 2 w)) = class_code (rr_class r)" "unpack_uint True (take 4 (drop 4 w)) = rr_ttl r"
    "unpack_uint True (drop 8 w) = ilen rdata"
    using type_code_bounds class_code_bounds ttl len by (simp_all add: w_def be_words)
  have "decode_rr now (pre @ (name @ w @ rdata) @ post) (ilen pre) = Some (Inr r, ilen pre + ilen (name @ w @ rdata))" for pre post
  proof -
    let ?data = "pre @ (name @ w @ rdata) @ post"
    have "decode_name ?data (ilen pre) = Some (Inr (rr_name r), ilen pre + ilen name)"
      using read_backD [OF name(2), of pre "w @ rdata @ post"] by simp
    moreover have "take_struct ?data 10 (ilen pre + ilen name) = Some (Inr w, ilen pre + ilen name + 10)"
      using take_struct_at [OF w(1), of "pre @ name" "rdata @ post"] by simp
    moreover have "py_slice ?data (ilen pre + ilen name + 10) (ilen pre + ilen name + 10 + ilen rdata) = rdata"
      using slice_at [of "pre @ name @ w" rdata post] w(1) by (simp add: add.assoc)
    ultimately show ?thesis
      using rdata w ttl(3) by (simp add: decode_rr_def Let_def rdata_back_def)
  qed
  with enc show ?thesis unfolding read_back_def by blast
qed

interpretation records: item_codec "encode_rr wide_int" "decode_rr now" "record_ok now" for wide_int now
  by unfold_locales (rule record_item)

section \<open>Messages\<close>

definition message_ok :: "int \<Rightarrow> dns_message \<Rightarrow> bool" where
  "message_ok now m \<longleftrightarrow> 0 \<le> dm_id m \<and> dm_id m < 2 ^ 16 \<and> 0 \<le> dm_flags m \<and> dm_flags m < 2 ^ 16 \<and>
     list_all question_ok (dm_questions m) \<and> list_all (record_ok now) (dm_answers m) \<and>
     ilen (dm_questions m) < 2 ^ 16 \<and> ilen (dm_answers m) < 2 ^ 16 \<and>
     ilen (dm_authorities m) < 2 ^ 16 \<and> ilen (dm_additionals m) < 2 ^ 16"

definition header_bytes :: "int list \<Rightarrow> bytes" where
  "header_bytes ws = concat (map (\<lambda>w. rev (le_bytes 2 w)) ws)"

lemma header_word:
  "i < length ws \<Longrightarrow> \<forall>w \<in> set ws. 0 \<le> w \<and> w < 65536 \<Longrightarrow> word_at (header_bytes ws @ post) (2 * i) = ws ! i"
proof (induction ws arbitrary: i)
  case (Cons w ws)
  then show ?case
    by (cases i) (simp_all add: header_bytes_def word_at_def be_words)
qed simp

lemma length_header_bytes_dns: "length (header_bytes ws) = 2 * length ws"
  by (induction ws) (simp_all add: header_bytes_def)

text \<open>The bytes of a message, and what decoding the first two sections gives.\<close>

lemma message_sections:
  assumes "message_ok now m"
  obtains qs rs where
    "message_encode wide_int m = Inr (header_bytes [dm_id m, dm_flags m, ilen (dm_questions m), ilen (dm_answers m),
       ilen (dm_authorities m), ilen (dm_additionals m)] @ qs @ rs)"
    and "read_back (\<lambda>data. decode_each (length (dm_questions m)) (question_decode data)) qs (dm_questions m)"
    and "read_back (\<lambda>data. decode_each (length (dm_answers m)) (decode_rr now data)) rs (dm_answers m)"
proof -
  from assms obtain qs where qs: "encode_each question_encode (dm_questions m) = Inr qs"
      "read_back (\<lambda>data. decode_each (length (dm_questions m)) (question_decode data)) qs (dm_questions m)"
    using questions.items by (auto simp: message_ok_def)
  from assms obtain rs where rs: "encode_each (encode_rr wide_int) (dm_answers m) = Inr rs"
      "read_back (\<lambda>data. decode_each (length (dm_answers m)) (decode_rr now data)) rs (dm_answers m)"
    using records.items [of now "dm_answers m" wide_int] by (auto simp: message_ok_def)
  have "message_encode wide_int m = Inr (header_bytes [dm_id m, dm_flags m, ilen (dm_questions m), ilen (dm_answers m),
       ilen (dm_authorities m), ilen (dm_additionals m)] @ qs @ rs)"
    using assms qs(1) rs(1)
    by (simp add: message_encode_def message_ok_def pack_uint_def byte_order_def header_bytes_def)
  with qs(2) rs(2) that show thesis by blast
qed

lemma decode_beyond: "decode_rr now data (ilen data) = Some (Inl DNSResolverErr, ilen data)"
  by (simp add: decode_rr_def decode_name_def name_loop.simps)

lemma message_read_back:
  assumes "message_ok now m"
  obtains bs where "message_encode wide_int m = Inr bs"
    and "\<And>post. dm_authorities m = [] \<Longrightarrow> dm_additionals m = [] \<Longrightarrow> message_decode now (bs @ post) = Some (Inr m)"
    and "dm_authorities m @ dm_additionals m \<noteq> [] \<Longrightarrow> message_decode now bs = Some (Inl DNSResolverErr)"
proof -
  let ?ws = "[dm_id m, dm_flags m, ilen (dm_questions m), ilen (dm_answers m), ilen (dm_authorities m), ilen (dm_additionals m)]"
  from message_sections [OF assms] obtain qs rs where bs: "message_encode wide_int m = Inr (header_bytes ?ws @ qs @ rs)"
    and q: "read_back (\<lambda>data. decode_each (length (dm_questions m)) (question_decode data)) qs (dm_questions m)"
    and r: "read_back (\<lambda>data. decode_each (length (dm_answers m)) (decode_rr now data)) rs (dm_answers m)" .
  have bounds: "\<forall>w \<in> set ?ws. 0 \<le> w \<and> w < 65536" using assms by (simp add: message_ok_def)
  have len: "length (header_bytes ?ws) = 12" by (simp add: length_header_bytes_dns)
  have words: "word_at (header_bytes ?ws @ p) 0 = dm_id m" "word_at (header_bytes ?ws @ p) 2 = dm_flags m"
      "word_at (header_bytes ?ws @ p) 4 = ilen (dm_questions m)" "word_at (header_bytes ?ws @ p) 6 = ilen (dm_answers m)"
      "word_at (header_bytes ?ws @ p) 8 = ilen (dm_authorities m)" "word_at (header_bytes ?ws @ p) 10 = ilen (dm_additionals m)" for p
    using header_word [OF _ bounds, of 0 p] header_word [OF _ bounds, of 1 p] header_word [OF _ bounds, of 2 p]
      header_word [OF _ bounds, of 3 p] header_word [OF _ bounds, of 4 p] header_word [OF _ bounds, of 5 p] by simp_all
  have sections: "decode_each (length (dm_questions m)) (question_decode (header_bytes ?ws @ qs @ rs @ p)) 12 =
        Some (Inr (dm_questions m), 12 + ilen qs)"
      "decode_each (length (dm_answers m)) (decode_rr now (header_bytes ?ws @ qs @ rs @ p)) (12 + ilen qs) =
        Some (Inr (dm_answers m), 12 + ilen qs + ilen rs)" for p
    using read_backD [OF q, of "header_bytes ?ws" "rs @ p"] read_backD [OF r, of "header_bytes ?ws @ qs" p]
    by (simp_all add: len)
  have "message_decode now ((header_bytes ?ws @ qs @ rs) @ post) = Some (Inr m)"
    if "dm_authorities m = []" "dm_additionals m = []" for post
    using that words [of "qs @ rs @ post"] sections [of post] len by (simp add: message_decode_def)
  moreover have "message_decode now (header_bytes ?ws @ qs @ rs) = Some (Inl DNSResolverErr)"
    if "dm_authorities m @ dm_additionals m \<noteq> []"
  proof -
    let ?data = "header_bytes ?ws @ qs @ rs"
    have behind: "decode_rr now ?data (12 + ilen qs + ilen rs) = Some (Inl DNSResolverErr, 12 + ilen qs + ilen rs)"
      using decode_beyond [of now ?data] len by (simp add: add.assoc)
    show ?thesis
      using that words [of "qs @ rs"] sections [of "[]"] len behind
      by (cases "dm_authorities m"; cases "dm_additionals m"; simp add: message_decode_def nat_add_distrib)
  qed
  ultimately show thesis using bs that by blast
qed

text \<open>
  What a receiver gets of a record.  The encoder writes the data of seven types; of all other types it writes
  nothing, or one zero byte for \<^verbatim>\<open>SOA\<close>, and the decoder gives the hexadecimal text of that.  A priority is only
  written for mail exchangers.
\<close>

definition data_carried :: "dns_type \<Rightarrow> bool" where
  "data_carried t \<longleftrightarrow> t \<in> {T_A, T_AAAA, T_CNAME, T_NS, T_PTR, T_MX, T_TXT}"

definition rr_received :: "int \<Rightarrow> dns_record \<Rightarrow> dns_record" where
  "rr_received now r =
     r\<lparr>rr_data := (if data_carried (rr_type r) then rr_data r else if rr_type r = T_SOA then codes ''00'' else []),
       rr_priority := (if rr_type r = T_MX then rr_priority r else 0),
       rr_created_at := now\<rparr>"

definition received :: "int \<Rightarrow> dns_message \<Rightarrow> dns_message" where
  "received now m = m\<lparr>dm_answers := map (rr_received now) (dm_answers m)\<rparr>"

text \<open>
  Records that can be sent: any data where the data is not written; else an address as \<^verbatim>\<open>ipaddress\<close> prints it, a
  name of ASCII labels, or a text of at most 255 bytes.
\<close>

definition record_sent :: "dns_record \<Rightarrow> bool" where
  "record_sent r \<longleftrightarrow> name_ok (rr_name r) \<and> 0 \<le> rr_ttl r \<and> rr_ttl r < 2 ^ 32 \<and>
     (case rr_type r of
        T_A \<Rightarrow> \<exists>n. 0 \<le> n \<and> n < 2 ^ 32 \<and> rr_data r = codes (ip4_str n)
      | T_AAAA \<Rightarrow> \<exists>n. 0 \<le> n \<and> n < 2 ^ 128 \<and> rr_data r = codes (ip6_str n)
      | T_TXT \<Rightarrow> \<exists>bs. utf8_encode (rr_data r) = Inr bs \<and> length bs < 256
      | T_MX \<Rightarrow> name_ok (rr_data r) \<and> 0 \<le> rr_priority r \<and> rr_priority r < 2 ^ 16
      | t \<Rightarrow> t \<in> {T_CNAME, T_NS, T_PTR} \<longrightarrow> name_ok (rr_data r))"

definition message_sent :: "dns_message \<Rightarrow> bool" where
  "message_sent m \<longleftrightarrow> 0 \<le> dm_id m \<and> dm_id m < 2 ^ 16 \<and> 0 \<le> dm_flags m \<and> dm_flags m < 2 ^ 16 \<and>
     list_all question_ok (dm_questions m) \<and> list_all record_sent (dm_answers m) \<and>
     ilen (dm_questions m) < 2 ^ 16 \<and> ilen (dm_answers m) < 2 ^ 16 \<and>
     ilen (dm_authorities m) < 2 ^ 16 \<and> ilen (dm_additionals m) < 2 ^ 16"

lemma record_received_ok: "record_sent r \<Longrightarrow> record_ok now (rr_received now r)"
  by (cases "rr_type r") (auto simp: record_sent_def record_ok_def rdata_ok_def rr_received_def data_carried_def)

lemma received_ok: "message_sent m \<Longrightarrow> message_ok now (received now m)"
  using record_received_ok by (auto simp: message_sent_def message_ok_def received_def list_all_iff)

lemma encode_received: "encode_rr wide_int (rr_received now r) = encode_rr wide_int r"
proof -
  have "encode_rdata wide_int (rr_received now r) = encode_rdata wide_int r"
    by (cases "rr_type r") (simp_all add: encode_rdata_def rr_received_def data_carried_def)
  moreover have "rr_name (rr_received now r) = rr_name r" "rr_type (rr_received now r) = rr_type r"
    "rr_class (rr_received now r) = rr_class r" "rr_ttl (rr_received now r) = rr_ttl r" by (simp_all add: rr_received_def)
  ultimately show ?thesis by (simp add: encode_rr_def)
qed

lemma message_encode_received: "message_encode wide_int (received now m) = message_encode wide_int m"
proof -
  have "encode_each (encode_rr wide_int) (map (rr_received now) rs) = encode_each (encode_rr wide_int) rs" for rs
    by (induction rs) (simp_all add: encode_received)
  then show ?thesis by (simp add: message_encode_def received_def)
qed


text \<open>A response with an address and a mail exchanger.\<close>

definition demo_host :: pystr where "demo_host = fqdn [codes ''example'', codes ''com'']"

definition demo_response :: dns_message where
  "demo_response =
     \<lparr>dm_id = 7, dm_flags = 0x8180, dm_questions = [\<lparr>qu_name = demo_host, qu_type = T_A, qu_class = C_IN\<rparr>],
      dm_answers =
        [\<lparr>rr_name = demo_host, rr_type = T_A, rr_data = codes (ip4_str 0x01020304), rr_ttl = 300, rr_class = C_IN,
          rr_priority = 0, rr_created_at = 5\<rparr>,
         \<lparr>rr_name = demo_host, rr_type = T_MX, rr_data = demo_host, rr_ttl = 60, rr_class = C_IN, rr_priority = 10,
          rr_created_at = 5\<rparr>],
      dm_authorities = [], dm_additionals = []\<rparr>"

lemma demo_host_ok: "name_ok demo_host"
  unfolding name_ok_def demo_host_def
  by (intro exI [of _ "[codes ''example'', codes ''com'']"])
    (simp add: label_ok_def codes_def name_bytes_def label_bytes_def)

lemma demo_response_ok: "message_ok 5 demo_response"
  using demo_host_ok
  by (auto simp: message_ok_def demo_response_def question_ok_def record_ok_def rdata_ok_def intro!: exI [of _ "0x01020304"])

definition demo_service :: dns_record where
  "demo_service = \<lparr>rr_name = demo_host, rr_type = T_SRV, rr_data = codes ''0 5 5060 sip.example.com'', rr_ttl = 60,
     rr_class = C_IN, rr_priority = 10, rr_created_at = 1\<rparr>"

lemma demo_service_sent: "message_sent (demo_response\<lparr>dm_answers := demo_service # dm_answers demo_response\<rparr>)"
  using demo_host_ok
  by (auto simp: message_sent_def demo_response_def demo_service_def question_ok_def record_sent_def intro!: exI [of _ "0x01020304"])


end
