(* ===== verification/Dns_Resolver.thy ===== *)
theory Dns_Resolver
  imports Dns_Facts
begin

text \<open>
  The cache shows the most recently used keys; a call of the resolver asks the servers in turn and remembers the
  first reply.
\<close>

section \<open>The cache\<close>

datatype ('k, 'v) lru_op = Get 'k | Put 'k 'v | Remove 'k | Clear

definition lru_step :: "('k, 'v) lru_op \<Rightarrow> ('k, 'v) lru \<Rightarrow> 'v option \<times> ('k, 'v) lru" where
  "lru_step op c =
     (case op of
        Get k \<Rightarrow> lru_get k c
      | Put k v \<Rightarrow> (None, lru_put k v c)
      | Remove k \<Rightarrow> (None, snd (lru_remove k c))
      | Clear \<Rightarrow> (None, lru_clear c))"

text \<open>
  The specification: all values that were put, and the keys in the order of their last use, the latest first;
  a lookup sees the first \<open>n\<close> of them.
\<close>

record ('k, 'v) recent =
  rc_order :: "'k list"
  rc_value :: "'k \<Rightarrow> 'v option"

definition use_key :: "'k \<Rightarrow> 'k list \<Rightarrow> 'k list" where
  "use_key k ks = k # removeAll k ks"

definition recent_step :: "nat \<Rightarrow> ('k, 'v) lru_op \<Rightarrow> ('k, 'v) recent \<Rightarrow> 'v option \<times> ('k, 'v) recent" where
  "recent_step n op a =
     (case op of
        Get k \<Rightarrow>
          if k \<in> set (take n (rc_order a)) then (rc_value a k, a\<lparr>rc_order := use_key k (rc_order a)\<rparr>) else (None, a)
      | Put k v \<Rightarrow> (None, a\<lparr>rc_order := use_key k (rc_order a), rc_value := (rc_value a)(k \<mapsto> v)\<rparr>)
      | Remove k \<Rightarrow> (None, a\<lparr>rc_order := removeAll k (take n (rc_order a))\<rparr>)
      | Clear \<Rightarrow> (None, a\<lparr>rc_order := []\<rparr>))"

fun run_ops :: "('op \<Rightarrow> 's \<Rightarrow> 'r \<times> 's) \<Rightarrow> 'op list \<Rightarrow> 's \<Rightarrow> 'r list \<times> 's" where
  "run_ops step [] s = ([], s)"
| "run_ops step (op # ops) s = (let (r, s') = step op s; (rs, s'') = run_ops step ops s' in (r # rs, s''))"

text \<open>How a cache implements a state of the specification.\<close>

definition lru_shows :: "nat \<Rightarrow> ('k, 'v) lru \<Rightarrow> ('k, 'v) recent \<Rightarrow> bool" where
  "lru_shows n c a \<longleftrightarrow> lru_maxsize c = int n \<and> distinct (rc_order a) \<and>
     map fst (lru_cache c) = rev (take n (rc_order a)) \<and>
     (\<forall>k \<in> set (take n (rc_order a)). map_of (lru_cache c) k = rc_value a k)"

lemma removeAll_notin: "k \<notin> set xs \<Longrightarrow> removeAll k (take m xs) = take m xs"
  by (rule removeAll_id) (auto dest: in_set_takeD)

lemma take_removeAll: "distinct ks \<Longrightarrow> take m (removeAll k (take (Suc m) ks)) = take m (removeAll k ks)"
proof (induction ks arbitrary: m)
  case (Cons x ks)
  then show ?case by (cases m) (auto simp: removeAll_notin removeAll_id)
qed simp

lemma take_use_key: "distinct ks \<Longrightarrow> take n (use_key k (take n ks)) = take n (use_key k ks)"
  by (cases n) (simp_all add: use_key_def take_removeAll)

lemma take_use_key_seen: "distinct ks \<Longrightarrow> k \<in> set (take n ks) \<Longrightarrow> take n (use_key k ks) = use_key k (take n ks)"
  using take_use_key [of ks n k] length_removeAll_less [of k "take n ks"] by (simp add: use_key_def)

lemma distinct_use_key: "distinct ks \<Longrightarrow> distinct (use_key k ks)"
  by (simp add: use_key_def distinct_removeAll)

lemma set_use_key: "set (use_key k ks) = insert k (set ks)"
  by (auto simp: use_key_def)

lemma rev_removeAll: "rev (removeAll k xs) = removeAll k (rev xs)"
  by (simp add: removeAll_filter_not_eq rev_filter)

lemma move_to_end_keys: "k \<in> set (map fst xs) \<Longrightarrow> rev (map fst (move_to_end k xs)) = use_key k (rev (map fst xs))"
  using map_of_eq_None_iff [of xs k]
  by (auto simp: move_to_end_def AList.delete_keys rev_removeAll use_key_def split: option.split)

lemma move_to_end_map_of: "map_of (move_to_end k xs) = map_of xs"
  by (rule ext) (auto simp: move_to_end_def AList.delete_conv' map_add_def split: option.split)

text \<open>Entries with the keys of an order, the latest first.\<close>

lemma showsI:
  assumes "lru_maxsize c = int n" and "distinct order" and "rev (map fst (lru_cache c)) = take n order"
    and "\<And>k. k \<in> set (take n order) \<Longrightarrow> map_of (lru_cache c) k = v k"
  shows "lru_shows n c \<lparr>rc_order = order, rc_value = v\<rparr>"
  using assms by (simp add: lru_shows_def) (metis rev_rev_ident)

lemma showsD:
  assumes "lru_shows n c \<lparr>rc_order = order, rc_value = v\<rparr>"
  shows "lru_maxsize c = int n" "distinct order" "rev (map fst (lru_cache c)) = take n order"
    "set (map fst (lru_cache c)) = set (take n order)" "k \<in> set (take n order) \<Longrightarrow> map_of (lru_cache c) k = v k"
    "k \<in> set (take n order) \<longleftrightarrow> map_of (lru_cache c) k \<noteq> None"
proof -
  show keys: "rev (map fst (lru_cache c)) = take n order" using assms by (simp add: lru_shows_def)
  show set: "set (map fst (lru_cache c)) = set (take n order)" by (subst keys [symmetric]) simp
  show "lru_maxsize c = int n" "distinct order" "k \<in> set (take n order) \<Longrightarrow> map_of (lru_cache c) k = v k"
    using assms by (simp_all add: lru_shows_def)
  show "k \<in> set (take n order) \<longleftrightarrow> map_of (lru_cache c) k \<noteq> None"
    unfolding set [symmetric] map_of_eq_None_iff by simp
qed

lemma shows_get:
  assumes "lru_shows n c \<lparr>rc_order = order, rc_value = v\<rparr>"
  shows "fst (lru_get k c) = (if k \<in> set (take n order) then v k else None)"
    and "lru_shows n (snd (lru_get k c)) \<lparr>rc_order = (if k \<in> set (take n order) then use_key k order else order), rc_value = v\<rparr>"
proof -
  note c = showsD [OF assms]
  show "fst (lru_get k c) = (if k \<in> set (take n order) then v k else None)"
    using c(5,6) [of k] by (auto simp: lru_get_def split: option.split)
  show "lru_shows n (snd (lru_get k c)) \<lparr>rc_order = (if k \<in> set (take n order) then use_key k order else order), rc_value = v\<rparr>"
  proof (cases "k \<in> set (take n order)")
    case False
    then show ?thesis using assms c(6) [of k] by (auto simp: lru_get_def)
  next
    case True
    then have cache: "snd (lru_get k c) = c\<lparr>lru_cache := move_to_end k (lru_cache c)\<rparr>"
      using c(6) [of k] by (auto simp: lru_get_def)
    have order: "take n (use_key k order) = use_key k (take n order)" by (rule take_use_key_seen [OF c(2) True])
    have "rev (map fst (move_to_end k (lru_cache c))) = take n (use_key k order)"
      using move_to_end_keys [of k "lru_cache c"] True c(3,4) order by simp
    moreover have "map_of (move_to_end k (lru_cache c)) j = v j" if "j \<in> set (take n (use_key k order))" for j
      using that True c(5) by (auto simp: move_to_end_map_of order set_use_key)
    ultimately show ?thesis
      using True cache c(1,2) by (auto intro!: showsI distinct_use_key)
  qed
qed

lemma map_of_tl: "j \<in> set (map fst (tl xs)) \<Longrightarrow> distinct (map fst xs) \<Longrightarrow> map_of (tl xs) j = map_of xs j"
  by (cases xs) force+

lemma shows_put:
  assumes "lru_shows n c \<lparr>rc_order = order, rc_value = v\<rparr>" and "0 < n"
  shows "lru_shows n (lru_put k x c) \<lparr>rc_order = use_key k order, rc_value = v(k \<mapsto> x)\<rparr>"
proof -
  note c = showsD [OF assms(1)]
  let ?xs = "move_to_end k (AList.update k x (lru_cache c))" and ?used = "use_key k (take n order)"
  have keys: "rev (map fst ?xs) = ?used"
  proof -
    have "use_key k (rev (map fst (AList.update k x (lru_cache c)))) = use_key k (rev (map fst (lru_cache c)))"
      by (simp add: AList.update_keys use_key_def)
    then show ?thesis using c(3) by (subst move_to_end_keys) (simp_all add: AList.update_keys)
  qed
  have dist: "distinct ?used" using c(2) by (simp add: distinct_use_key)
  then have dist_xs: "distinct (map fst ?xs)" by (metis keys distinct_rev)
  have len: "length ?xs = length ?used" by (metis keys length_map length_rev)
  have short: "length ?used \<le> Suc n"
    using length_removeAll_less_eq [of k "take n order"] by (simp add: use_key_def le_trans)
  have value_of: "map_of ?xs j = (v(k \<mapsto> x)) j" if "j \<in> set ?used" for j
    using that c(5) by (auto simp: move_to_end_map_of AList.update_conv' set_use_key)
  have "rev (map fst (lru_cache (lru_put k x c))) = take n ?used"
  proof (cases "length ?used \<le> n")
    case True
    then show ?thesis using len c(1) keys by (simp add: lru_put_def Let_def)
  next
    case False
    then have "length ?used = Suc n" using short by simp
    moreover have "lru_cache (lru_put k x c) = tl ?xs" using False len c(1) by (simp add: lru_put_def Let_def)
    moreover have "rev (map fst (tl ?xs)) = butlast (rev (map fst ?xs))" by (simp add: map_tl butlast_rev)
    ultimately show ?thesis by (simp add: keys butlast_conv_take)
  qed
  then have order: "rev (map fst (lru_cache (lru_put k x c))) = take n (use_key k order)"
    by (simp add: take_use_key [OF c(2)])
  have "map_of (lru_cache (lru_put k x c)) j = (v(k \<mapsto> x)) j" if "j \<in> set (take n (use_key k order))" for j
  proof -
    have "j \<in> set (map fst (lru_cache (lru_put k x c)))" using that order by (metis set_rev)
    moreover from this map_of_tl [of j ?xs, OF _ dist_xs] have "map_of (lru_cache (lru_put k x c)) j = map_of ?xs j"
      by (simp add: lru_put_def Let_def del: set_map split: if_splits)
    moreover have "j \<in> set ?used" using that take_use_key [OF c(2)] by (metis in_set_takeD)
    ultimately show ?thesis using value_of by simp
  qed
  with order c(1,2) show ?thesis
    by (intro showsI) (auto simp: lru_put_def Let_def distinct_use_key)
qed

lemma shows_remove:
  assumes "lru_shows n c \<lparr>rc_order = order, rc_value = v\<rparr>"
  shows "lru_shows n (snd (lru_remove k c)) \<lparr>rc_order = removeAll k (take n order), rc_value = v\<rparr>"
proof -
  note c = showsD [OF assms]
  have order: "take n (removeAll k (take n order)) = removeAll k (take n order)"
    using length_removeAll_less_eq [of k "take n order"] by (simp add: take_all_iff le_trans)
  have cache: "lru_cache (snd (lru_remove k c)) = AList.delete k (lru_cache c)" "lru_maxsize (snd (lru_remove k c)) = lru_maxsize c"
    by (auto simp: lru_remove_def AList.delete_idem map_of_eq_None_iff)
  have "rev (map fst (lru_cache (snd (lru_remove k c)))) = removeAll k (take n order)"
    using c(3) by (simp add: cache AList.delete_keys rev_removeAll)
  moreover have "map_of (lru_cache (snd (lru_remove k c))) j = v j" if "j \<in> set (removeAll k (take n order))" for j
    using that c(5) [of j] by (simp add: cache AList.delete_conv')
  ultimately show ?thesis
    using c(1,2) by (intro showsI) (simp_all add: cache order distinct_removeAll)
qed

lemma lru_step_shows:
  assumes "lru_shows n c a" and "0 < n"
  shows "fst (lru_step op c) = fst (recent_step n op a) \<and> lru_shows n (snd (lru_step op c)) (snd (recent_step n op a))"
proof -
  obtain order v where a: "a = \<lparr>rc_order = order, rc_value = v\<rparr>" by (cases a) auto
  note c = assms(1) [unfolded a]
  show ?thesis
  proof (cases op)
    case (Get k)
    then show ?thesis using shows_get [OF c, of k] by (auto simp: a lru_step_def recent_step_def)
  next
    case (Put k x)
    then show ?thesis using shows_put [OF c assms(2)] by (simp add: a lru_step_def recent_step_def)
  next
    case (Remove k)
    then show ?thesis using shows_remove [OF c] by (simp add: a lru_step_def recent_step_def)
  next
    case Clear
    then show ?thesis using showsD(1) [OF c] by (simp add: a lru_step_def recent_step_def lru_clear_def lru_shows_def)
  qed
qed

text \<open>
  C17. The cache refines its specification: after any calls it holds the \<open>n\<close> keys used last, a use being an
  insertion or a lookup that succeeds, each with the value put last, and the lookups return what the
  specification returns.  A cache of at least one entry never holds more than its size.
\<close>
theorem lru_keeps_recent:
  fixes ops :: "('k, 'v) lru_op list"
  assumes "0 < n"
  shows "fst (run_ops lru_step ops (lru_new (int n))) =
      fst (run_ops (recent_step n) ops \<lparr>rc_order = [], rc_value = (\<lambda>_. None)\<rparr>) \<and>
    lru_shows n (snd (run_ops lru_step ops (lru_new (int n))))
      (snd (run_ops (recent_step n) ops \<lparr>rc_order = [], rc_value = (\<lambda>_. None)\<rparr>)) \<and>
    lru_len (snd (run_ops lru_step ops (lru_new (int n)))) \<le> int n"
proof -
  have run: "fst (run_ops lru_step ops c) = fst (run_ops (recent_step n) ops a) \<and>
      lru_shows n (snd (run_ops lru_step ops c)) (snd (run_ops (recent_step n) ops a))"
    if "lru_shows n c a" for c :: "('k, 'v) lru" and a and ops
    using that
  proof (induction ops arbitrary: c a)
    case (Cons op ops)
    from lru_step_shows [OF Cons.prems assms, of op] Cons.IH [of "snd (lru_step op c)" "snd (recent_step n op a)"]
    show ?case by (simp add: case_prod_beta Let_def)
  qed simp
  have bound: "lru_len c \<le> int n" if "lru_shows n c a" for c :: "('k, 'v) lru" and a
  proof -
    have "length (lru_cache c) = length (take n (rc_order a))"
      using that unfolding lru_shows_def by (metis length_map length_rev)
    then show ?thesis by (simp add: lru_len_def)
  qed
  have "lru_shows n (lru_new (int n) :: ('k, 'v) lru) \<lparr>rc_order = [], rc_value = (\<lambda>_. None)\<rparr>"
    by (simp add: lru_shows_def lru_new_def)
  from run [OF this] bound show ?thesis by blast
qed

theorem lru_keeps_recent_witness:
  "fst (run_ops lru_step [Put ''a'' (1 :: int), Put ''b'' 2, Get ''a'', Put ''c'' 3, Get ''b'', Get ''a''] (lru_new (int 2))) =
    [None, None, Some 1, None, None, Some 1]"
proof -
  let ?ops = "[Put ''a'' (1 :: int), Put ''b'' 2, Get ''a'', Put ''c'' 3, Get ''b'', Get ''a'']"
  have "fst (run_ops lru_step ?ops (lru_new (int 2))) =
    fst (run_ops (recent_step 2) ?ops \<lparr>rc_order = [], rc_value = (\<lambda>_. None)\<rparr>)"
    by (rule conjunct1 [OF lru_keeps_recent]) simp
  then show ?thesis by (simp add: recent_step_def use_key_def Let_def)
qed

section \<open>A call of its own\<close>

lemma lru_put_found:
  assumes "map_of (lru_cache c) k = None" and "0 < lru_maxsize c"
  shows "map_of (lru_cache (lru_put k v c)) k = Some v"
proof -
  have absent: "k \<notin> fst ` set (lru_cache c)" using assms(1) by (simp add: map_of_eq_None_iff)
  have "map_of (AList.update k v (lru_cache c)) k = Some v" by (simp add: AList.update_conv')
  moreover have "AList.delete k (AList.update k v (lru_cache c)) = lru_cache c"
    using absent by (simp add: AList.delete_update_same AList.delete_idem)
  ultimately have "move_to_end k (AList.update k v (lru_cache c)) = lru_cache c @ [(k, v)]" by (simp add: move_to_end_def)
  then show ?thesis
    using assms
    by (cases "lru_cache c") (auto simp: lru_put_def Let_def map_add_def split: option.split if_splits)
qed

lemma query_tries_skip:
  assumes "n \<le> length servers" and "\<And>i server. i < n \<Longrightarrow> query_server net now (k + i) server host rtype = Some (Inl DNSTimeoutErr)"
  shows "query_tries net now host rtype k servers s = query_tries net now host rtype (k + n) (drop n servers) s"
  using assms
proof (induction n arbitrary: k servers)
  case (Suc n)
  from Suc.prems(1) obtain server rest where servers: "servers = server # rest" by (cases servers) auto
  have "query_server net now k server host rtype = Some (Inl DNSTimeoutErr)" using Suc.prems(2) [of 0] by simp
  moreover have "query_tries net now host rtype (Suc k) rest s = query_tries net now host rtype (Suc k + n) (drop n rest) s"
    using Suc.prems servers Suc.prems(2) [of "Suc i" for i] by (intro Suc.IH) auto
  ultimately show ?case by (simp add: servers)
qed simp

lemma length_tries: "length (concat (replicate k xs)) = k * length xs"
  by (induction k) simp_all

lemma query_item:
  assumes "name_ok host" and "0 \<le> nw_id net n" and "nw_id net n < 2 ^ 16"
  obtains q where "message_encode (nw_wide_int net)
      \<lparr>dm_id = nw_id net n, dm_flags = 0x0100, dm_questions = [\<lparr>qu_name = host, qu_type = rtype, qu_class = C_IN\<rparr>],
       dm_answers = [], dm_authorities = [], dm_additionals = []\<rparr> = Inr q"
  using message_read_back [of 0 "\<lparr>dm_id = nw_id net n, dm_flags = 0x0100, dm_questions = [\<lparr>qu_name = host, qu_type = rtype, qu_class = C_IN\<rparr>],
       dm_answers = [], dm_authorities = [], dm_additionals = []\<rparr>" "nw_wide_int net"] assms
  by (auto simp: message_ok_def question_ok_def)

text \<open>
  C18. A call that finds nothing in the cache asks the servers in turn, as often as there are retries; the first
  reply decides, whatever identifier and question it carries: its answers are returned and put into the cache.
  From then on, until one of the answers expires, calls for the name are answered with them without a query.
\<close>
theorem dns_first_reply:
  assumes "name_ok (absolute h)" and "\<And>i. 0 \<le> nw_id net i \<and> nw_id net i < 2 ^ 16"
    and "dr_pending s = []" and "map_of (lru_cache (dr_cache s)) (query_key (absolute h) t) = None"
    and "0 < lru_maxsize (dr_cache s)" and "n < dr_retries s * length (dr_servers s)"
    and "\<And>i server q. i < n \<Longrightarrow> nw_reply net i server q = None"
    and "\<And>server q. nw_reply net n server q = Some (bs @ post)"
    and "message_encode wide_int m = Inr bs" and "message_ok now m" and "dm_authorities m = []" and "dm_additionals m = []"
    and "\<not> is_error m" and "dm_answers m \<noteq> []"
  shows "\<exists>s'. resolve net call now h t True s = Some (Inr (dm_answers m), s') \<and> dr_pending s' = [] \<and>
    (\<forall>net' call' now'. (\<forall>r \<in> set (dm_answers m). \<not> is_expired now' r) \<longrightarrow>
      (\<exists>s''. resolve net' call' now' h t True s' = Some (Inr (dm_answers m), s'') \<and> dr_pending s'' = [] \<and>
        dr_cache_hits s'' = dr_cache_hits s' + 1))"
proof -
  let ?key = "query_key (absolute h) t" and ?tries = "concat (replicate (dr_retries s) (dr_servers s))"
  define s1 where "s1 = s\<lparr>dr_queries := dr_queries s + 1, dr_cache_misses := dr_cache_misses s + 1, dr_pending := [(?key, call)]\<rparr>"
  define s2 where "s2 = s1\<lparr>dr_cache := lru_put ?key (dm_answers m) (dr_cache s1), dr_pending := []\<rparr>"
  have start: "resolve_start call now h t True s = (Querying, s1)"
    using assms(3,4) by (simp add: resolve_start_def cached_records_def s1_def lru_get_def Let_def)
  have decoded: "message_decode now (bs @ post) = Some (Inr m)"
    using message_read_back [OF assms(10), of wide_int] assms(9,11,12) by (metis sum.inject(2))
  have none: "query_server net now i server (absolute h) t = Some (Inl DNSTimeoutErr)" if "i < n" for i server
  proof -
    obtain q where "message_encode (nw_wide_int net)
      \<lparr>dm_id = nw_id net i, dm_flags = 0x0100, dm_questions = [\<lparr>qu_name = absolute h, qu_type = t, qu_class = C_IN\<rparr>],
       dm_answers = [], dm_authorities = [], dm_additionals = []\<rparr> = Inr q"
      using query_item [OF assms(1)] assms(2) by metis
    then show ?thesis using assms(7) [OF that] by (simp add: query_server_def)
  qed
  have some: "query_server net now n server (absolute h) t = Some (Inr (dm_answers m))" for server
  proof -
    obtain q where "message_encode (nw_wide_int net)
      \<lparr>dm_id = nw_id net n, dm_flags = 0x0100, dm_questions = [\<lparr>qu_name = absolute h, qu_type = t, qu_class = C_IN\<rparr>],
       dm_answers = [], dm_authorities = [], dm_additionals = []\<rparr> = Inr q"
      using query_item [OF assms(1)] assms(2) by metis
    then show ?thesis using assms(8,13) decoded by (simp add: query_server_def)
  qed
  have "n < length ?tries" using assms(6) by (simp add: length_tries)
  then obtain server rest where tries: "drop n ?tries = server # rest" by (metis Cons_nth_drop_Suc)
  have "query_tries net now (absolute h) t 0 ?tries s1 = query_tries net now (absolute h) t (0 + n) (drop n ?tries) s1"
    using \<open>n < length ?tries\<close> none by (intro query_tries_skip) simp_all
  then have "query_with_retry net now (absolute h) t s1 = Some (Inr (dm_answers m), s1)"
    by (simp add: query_with_retry_def tries some s1_def)
  then have first: "resolve net call now h t True s = Some (Inr (dm_answers m), s2)"
    using assms(14) by (simp add: resolve_def start resolve_end_def s2_def s1_def Let_def)
  have cached: "map_of (lru_cache (dr_cache s2)) ?key = Some (dm_answers m)"
    using lru_put_found [OF assms(4,5)] by (simp add: s2_def s1_def)
  have "\<exists>s''. resolve net' call' now' h t True s2 = Some (Inr (dm_answers m), s'') \<and> dr_pending s'' = [] \<and>
        dr_cache_hits s'' = dr_cache_hits s2 + 1" if "\<forall>r \<in> set (dm_answers m). \<not> is_expired now' r" for net' call' now'
  proof -
    have "filter (\<lambda>r. \<not> is_expired now' r) (dm_answers m) = dm_answers m" using that by (intro filter_True) blast
    then have "fst (resolve_start call' now' h t True s2) = Answered (dm_answers m)"
      "dr_pending (snd (resolve_start call' now' h t True s2)) = []"
      "dr_cache_hits (snd (resolve_start call' now' h t True s2)) = dr_cache_hits s2 + 1"
      using cached assms(14) by (simp_all add: resolve_start_def cached_records_def lru_get_def Let_def s2_def)
    then show ?thesis by (cases "resolve_start call' now' h t True s2") (simp add: resolve_def)
  qed
  with first show ?thesis by (intro exI [of _ s2]) (simp add: s2_def)
qed

text \<open>The second server answers.\<close>

definition demo_network :: "bytes \<Rightarrow> network" where
  "demo_network bs =
     \<lparr>nw_id = (\<lambda>_. 99), nw_reply = (\<lambda>n _ _. if n = 0 then None else Some (bs @ [])), nw_wide_int = (\<lambda>_. Inl ValueError)\<rparr>"


lemma demo_host_absolute: "absolute (codes ''example.com'') = demo_host"
  by (simp add: absolute_def rstrip_dots_def codes_def demo_host_def fqdn_def)

theorem dns_first_reply_witness:
  "\<exists>bs s'. resolve (demo_network bs) 0 5 (codes ''example.com'') T_A True resolver_new = Some (Inr (dm_answers demo_response), s') \<and>
    (\<exists>s''. resolve (demo_network bs) 1 60 (codes ''example.com'') T_A True s' = Some (Inr (dm_answers demo_response), s'') \<and>
      dr_cache_hits s'' = dr_cache_hits s' + 1)"
proof -
  obtain bs where bs: "message_encode (\<lambda>_. Inl ValueError) demo_response = Inr bs"
    using message_read_back [OF demo_response_ok] by metis
  have "\<exists>s'. resolve (demo_network bs) 0 5 (codes ''example.com'') T_A True resolver_new = Some (Inr (dm_answers demo_response), s') \<and>
      dr_pending s' = [] \<and>
    (\<forall>net' call' now'. (\<forall>r \<in> set (dm_answers demo_response). \<not> is_expired now' r) \<longrightarrow>
      (\<exists>s''. resolve net' call' now' (codes ''example.com'') T_A True s' = Some (Inr (dm_answers demo_response), s'') \<and>
        dr_pending s'' = [] \<and> dr_cache_hits s'' = dr_cache_hits s' + 1))"
  proof (rule dns_first_reply [OF _ _ _ _ _ _ _ _ bs demo_response_ok])
    show "name_ok (absolute (codes ''example.com''))" using demo_host_ok by (simp add: demo_host_absolute)
    show "1 < dr_retries resolver_new * length (dr_servers resolver_new)" by (simp add: resolver_new_def)
    show "nw_reply (demo_network bs) 1 server q = Some (bs @ [])" for server q
      by (simp add: demo_network_def)
  qed (simp_all add: resolver_new_def lru_new_def demo_network_def demo_response_def is_error_def rcode_def)
  then obtain s' where s': "resolve (demo_network bs) 0 5 (codes ''example.com'') T_A True resolver_new =
      Some (Inr (dm_answers demo_response), s')"
    and again: "\<And>net' call' now'. \<forall>r \<in> set (dm_answers demo_response). \<not> is_expired now' r \<Longrightarrow>
      \<exists>s''. resolve net' call' now' (codes ''example.com'') T_A True s' = Some (Inr (dm_answers demo_response), s'') \<and>
        dr_pending s'' = [] \<and> dr_cache_hits s'' = dr_cache_hits s' + 1" by blast
  have "\<forall>r \<in> set (dm_answers demo_response). \<not> is_expired 60 r" by (simp add: demo_response_def is_expired_def)
  from again [OF this] s' show ?thesis by blast
qed

end
