(* ===== verification/Dns_Calls.thy ===== *)
theory Dns_Calls
  imports Dns_Resolver "HOL-Library.Multiset"
begin

text \<open>
  Calls of the resolver that run at the same time share their queries; what happens when one of them is
  cancelled.
\<close>

section \<open>Calls at the same time\<close>

text \<open>
  The calls that wait at some moment: those with a query of their own, and those that wait for the future of
  another call.  Calls are numbered in the order of their start, and a future has the number of its owner.  A call
  has ended with a result or an exception (\<^verbatim>\<open>sy_done\<close>) or by \<^verbatim>\<open>CancelledError\<close> (\<^verbatim>\<open>sy_cancelled\<close>); the futures in
  \<^verbatim>\<open>sy_dead\<close> were cancelled.
\<close>

record dns_call =
  cl_number :: nat
  cl_host :: pystr
  cl_type :: dns_type
  cl_use_cache :: bool

definition call_key :: "dns_call \<Rightarrow> pystr" where
  "call_key t = query_key (absolute (cl_host t)) (cl_type t)"

record dns_sys =
  sy_resolver :: resolver
  sy_next :: nat
  sy_querying :: "dns_call list"
  sy_joined :: "(nat \<times> nat) list"
  sy_done :: "(nat \<times> dns_record list result) list"
  sy_cancelled :: "nat list"
  sy_dead :: "nat list"

definition sys_new :: dns_sys where
  "sys_new = \<lparr>sy_resolver = resolver_new, sy_next = 0, sy_querying = [], sy_joined = [], sy_done = [],
     sy_cancelled = [], sy_dead = []\<rparr>"

text \<open>
  A query ends with its result, which all calls receive that have joined it.  Its call may be cancelled where it
  waits: \<^verbatim>\<open>CancelledError\<close> is no \<^verbatim>\<open>Exception\<close>, so that only the \<^verbatim>\<open>finally\<close> clause runs.  A call that has joined waits
  for the future itself, and cancelling the call cancels the future: all calls that have joined it end with
  \<^verbatim>\<open>CancelledError\<close>, as does at once every call that joins it later; and the owner cannot complete it any more, so
  that both \<^verbatim>\<open>set_result\<close> and \<^verbatim>\<open>set_exception\<close> raise \<^verbatim>\<open>InvalidStateError\<close>, after the records went into the cache.
\<close>

inductive dns_step :: "dns_sys \<Rightarrow> dns_sys \<Rightarrow> bool" where
  hit: "resolve_start (sy_next s) now h t c (sy_resolver s) = (Answered rs, r) \<Longrightarrow>
    dns_step s (s\<lparr>sy_resolver := r, sy_next := Suc (sy_next s), sy_done := (sy_next s, Inr rs) # sy_done s\<rparr>)"
| join: "resolve_start (sy_next s) now h t c (sy_resolver s) = (Joined f, r) \<Longrightarrow> f \<notin> set (sy_dead s) \<Longrightarrow>
    dns_step s (s\<lparr>sy_resolver := r, sy_next := Suc (sy_next s), sy_joined := (sy_next s, f) # sy_joined s\<rparr>)"
| join_dead: "resolve_start (sy_next s) now h t c (sy_resolver s) = (Joined f, r) \<Longrightarrow> f \<in> set (sy_dead s) \<Longrightarrow>
    dns_step s (s\<lparr>sy_resolver := r, sy_next := Suc (sy_next s), sy_cancelled := sy_next s # sy_cancelled s\<rparr>)"
| query: "resolve_start (sy_next s) now h t c (sy_resolver s) = (Querying, r) \<Longrightarrow>
    dns_step s (s\<lparr>sy_resolver := r, sy_next := Suc (sy_next s),
      sy_querying := sy_querying s @ [\<lparr>cl_number = sy_next s, cl_host = h, cl_type = t, cl_use_cache = c\<rparr>]\<rparr>)"
| finish: "q \<in> set (sy_querying s) \<Longrightarrow> cl_number q \<notin> set (sy_dead s) \<Longrightarrow>
    query_with_retry net now (absolute (cl_host q)) (cl_type q) (sy_resolver s) = Some (result, r) \<Longrightarrow>
    dns_step s (s\<lparr>sy_resolver := resolve_end (cl_host q) (cl_type q) (cl_use_cache q) result r,
      sy_querying := remove1 q (sy_querying s),
      sy_joined := filter (\<lambda>(w, f). f \<noteq> cl_number q) (sy_joined s),
      sy_done := (cl_number q, result) # map (\<lambda>(w, f). (w, result)) (filter (\<lambda>(w, f). f = cl_number q) (sy_joined s)) @ sy_done s\<rparr>)"
| finish_dead: "q \<in> set (sy_querying s) \<Longrightarrow> cl_number q \<in> set (sy_dead s) \<Longrightarrow>
    query_with_retry net now (absolute (cl_host q)) (cl_type q) (sy_resolver s) = Some (result, r) \<Longrightarrow>
    dns_step s (s\<lparr>sy_resolver := resolve_end (cl_host q) (cl_type q) (cl_use_cache q) result r,
      sy_querying := remove1 q (sy_querying s), sy_done := (cl_number q, Inl InvalidStateErr) # sy_done s\<rparr>)"
| cancel: "q \<in> set (sy_querying s) \<Longrightarrow>
    dns_step s (s\<lparr>sy_resolver := (sy_resolver s)\<lparr>dr_pending := AList.delete (call_key q) (dr_pending (sy_resolver s))\<rparr>,
      sy_querying := remove1 q (sy_querying s), sy_cancelled := cl_number q # sy_cancelled s\<rparr>)"
| cancel_joined: "(w, f) \<in> set (sy_joined s) \<Longrightarrow>
    dns_step s (s\<lparr>sy_joined := filter (\<lambda>(v, g). g \<noteq> f) (sy_joined s),
      sy_cancelled := map fst (filter (\<lambda>(v, g). g = f) (sy_joined s)) @ sy_cancelled s, sy_dead := f # sy_dead s\<rparr>)"
| remove: "remove_from_cache h t (sy_resolver s) = (b, r) \<Longrightarrow> dns_step s (s\<lparr>sy_resolver := r\<rparr>)"
| clear: "dns_step s (s\<lparr>sy_resolver := clear_cache (sy_resolver s)\<rparr>)"

inductive dns_reach :: "dns_sys \<Rightarrow> bool" where
  new: "dns_reach sys_new"
| step: "dns_reach s \<Longrightarrow> dns_step s s' \<Longrightarrow> dns_reach s'"

inductive_cases dns_stepE: "dns_step s s'"

section \<open>What the parts of a call change\<close>

abbreviation keys_of :: "('k \<times> 'v) list \<Rightarrow> 'k set" where
  "keys_of xs \<equiv> set (map fst xs)"

definition absolute_keys :: "pystr set" where
  "absolute_keys = {query_key (absolute h) t | h t. True}"

text \<open>The counters add up, and the names in the cache are absolute.\<close>

definition counted :: "int \<Rightarrow> resolver \<Rightarrow> bool" where
  "counted n r \<longleftrightarrow> dr_queries r = n \<and> dr_queries r = dr_cache_hits r + dr_cache_misses r \<and>
     keys_of (lru_cache (dr_cache r)) \<subseteq> absolute_keys"

lemma update_absent: "k \<notin> keys_of xs \<Longrightarrow> AList.update k v xs = xs @ [(k, v)]"
  by (induction xs) auto

lemma move_to_end_set: "keys_of (move_to_end k xs) \<subseteq> keys_of xs"
proof (cases "map_of xs k")
  case None
  then show ?thesis by (simp add: move_to_end_def)
next
  case (Some v)
  then have "k \<in> keys_of xs" by (force dest: map_of_SomeD)
  then show ?thesis by (auto simp: move_to_end_def Some AList.delete_keys simp del: set_map)
qed

lemma get_keys: "keys_of (lru_cache (snd (lru_get k c))) \<subseteq> keys_of (lru_cache c)"
  using move_to_end_set [of k "lru_cache c"] by (simp add: lru_get_def del: set_map split: option.split)

lemma put_keys: "keys_of (lru_cache (lru_put k v c)) \<subseteq> insert k (keys_of (lru_cache c))"
proof -
  define xs where "xs = move_to_end k (AList.update k v (lru_cache c))"
  have "keys_of (AList.update k v (lru_cache c)) \<subseteq> insert k (keys_of (lru_cache c))"
    unfolding AList.update_keys by auto
  then have "keys_of xs \<subseteq> insert k (keys_of (lru_cache c))"
    unfolding xs_def by (rule subset_trans [OF move_to_end_set])
  moreover have "keys_of (tl xs) \<subseteq> keys_of xs" by (cases xs) auto
  ultimately have "keys_of (if b then tl xs else xs) \<subseteq> insert k (keys_of (lru_cache c))" for b
    by (cases b) (simp_all del: set_map)
  moreover have "lru_cache (lru_put k v c) = (if ilen xs > lru_maxsize c then tl xs else xs)"
    by (simp add: lru_put_def Let_def xs_def)
  ultimately show ?thesis by metis
qed

lemma remove_keys: "keys_of (lru_cache (snd (lru_remove k c))) \<subseteq> keys_of (lru_cache c)"
  by (auto simp: lru_remove_def AList.delete_keys simp del: set_map)

lemma counted_change:
  assumes "counted m r" and "dr_queries r' = dr_queries r + d" and "dr_cache_hits r' + dr_cache_misses r' = dr_cache_hits r + dr_cache_misses r + d"
    and "keys_of (lru_cache (dr_cache r')) \<subseteq> absolute_keys \<union> keys_of (lru_cache (dr_cache r))"
  shows "counted (m + d) r'"
  using assms unfolding counted_def by (auto simp del: set_map)

lemma cached_records_keep:
  assumes "cached_records now c key r = (v, r')"
  shows "dr_pending r' = dr_pending r" "dr_queries r' = dr_queries r" "dr_cache_hits r' = dr_cache_hits r"
    "dr_cache_misses r' = dr_cache_misses r" "keys_of (lru_cache (dr_cache r')) \<subseteq> keys_of (lru_cache (dr_cache r))"
proof -
  have r': "r' = (if c then r\<lparr>dr_cache := snd (lru_get key (dr_cache r))\<rparr> else r)"
    using assms unfolding cached_records_def case_prod_beta Let_def by (cases c) simp_all
  show "dr_pending r' = dr_pending r" "dr_queries r' = dr_queries r" "dr_cache_hits r' = dr_cache_hits r"
    "dr_cache_misses r' = dr_cache_misses r" by (simp_all add: r')
  show "keys_of (lru_cache (dr_cache r')) \<subseteq> keys_of (lru_cache (dr_cache r))"
    using get_keys [of key "dr_cache r"] unfolding r' by (cases c) simp_all
qed

lemma start_cases:
  assumes "resolve_start n now h t c r = (a, r')"
  obtains (answered) rs where "a = Answered rs" "dr_pending r' = dr_pending r"
  | (joined) f where "a = Joined f" "map_of (dr_pending r) (query_key (absolute h) t) = Some f" "dr_pending r' = dr_pending r"
  | (querying) "a = Querying" "map_of (dr_pending r) (query_key (absolute h) t) = None"
    "dr_pending r' = AList.update (query_key (absolute h) t) n (dr_pending r)"
proof -
  obtain v r1 where v: "cached_records now c (query_key (absolute h) t) (r\<lparr>dr_queries := dr_queries r + 1\<rparr>) = (v, r1)" by fastforce
  note keep = cached_records_keep(1) [OF v]
  show thesis
  proof (cases "v = []")
    case False
    then show thesis using assms v keep by (intro answered [of v]) (auto simp: resolve_start_def Let_def)
  next
    case True
    show thesis
    proof (cases "map_of (dr_pending r) (query_key (absolute h) t)")
      case None
      then show thesis using assms v keep True by (intro querying) (auto simp: resolve_start_def Let_def)
    next
      case (Some f)
      then show thesis using assms v keep True by (intro joined [of f]) (auto simp: resolve_start_def Let_def)
    qed
  qed
qed

lemma start_pending:
  assumes "resolve_start n now h t c r = (a, r')"
  shows "a = Querying \<Longrightarrow> query_key (absolute h) t \<notin> keys_of (dr_pending r) \<and>
      dr_pending r' = dr_pending r @ [(query_key (absolute h) t, n)]"
    and "a = Joined f \<Longrightarrow> (query_key (absolute h) t, f) \<in> set (dr_pending r)"
    and "a \<noteq> Querying \<Longrightarrow> dr_pending r' = dr_pending r"
  by (rule start_cases [OF assms]; simp add: update_absent map_of_eq_None_iff map_of_SomeD)+

lemma start_counted:
  assumes "resolve_start n now h t c r = (a, r')" and "counted m r"
  shows "counted (1 + m) r'"
proof -
  obtain v r1 where v: "cached_records now c (query_key (absolute h) t) (r\<lparr>dr_queries := dr_queries r + 1\<rparr>) = (v, r1)" by fastforce
  have change: "dr_queries r' = dr_queries r1" "dr_cache_hits r' + dr_cache_misses r' = dr_cache_hits r1 + dr_cache_misses r1 + 1"
    "dr_cache r' = dr_cache r1"
    using assms(1) v by (auto simp: resolve_start_def Let_def split: if_splits option.splits)
  have "keys_of (lru_cache (dr_cache r')) \<subseteq> absolute_keys \<union> keys_of (lru_cache (dr_cache r))"
    using cached_records_keep(5) [OF v] by (simp add: change(3) del: set_map) blast
  then have "counted (m + 1) r'"
    using counted_change [OF assms(2), of r' 1] change cached_records_keep(2,3,4) [OF v] by simp
  then show ?thesis by (simp add: add.commute)
qed

lemma tries_keep:
  "query_tries net now h t n servers r = Some (x, r') \<Longrightarrow>
   dr_pending r' = dr_pending r \<and> (counted m r' \<longleftrightarrow> counted m r)"
  by (induction servers arbitrary: n) (auto simp: counted_def simp del: set_map split: option.splits sum.splits if_splits)

lemma retry_keep:
  "query_with_retry net now h t r = Some (x, r') \<Longrightarrow>
   dr_pending r' = dr_pending r \<and> (counted m r' \<longleftrightarrow> counted m r)"
  unfolding query_with_retry_def by (rule tries_keep)

lemma end_keep:
  "dr_pending (resolve_end h t c x r) = AList.delete (query_key (absolute h) t) (dr_pending r)"
  "counted m r \<Longrightarrow> counted m (resolve_end h t c x r)"
proof -
  show "dr_pending (resolve_end h t c x r) = AList.delete (query_key (absolute h) t) (dr_pending r)"
    by (auto simp: resolve_end_def Let_def split: sum.splits)
  have change: "dr_queries (resolve_end h t c x r) = dr_queries r + 0"
    "dr_cache_hits (resolve_end h t c x r) + dr_cache_misses (resolve_end h t c x r) = dr_cache_hits r + dr_cache_misses r + 0"
    "dr_cache (resolve_end h t c x r) = dr_cache r \<or> (\<exists>rs. dr_cache (resolve_end h t c x r) = lru_put (query_key (absolute h) t) rs (dr_cache r))"
    by (auto simp: resolve_end_def Let_def split: sum.splits)
  have "query_key (absolute h) t \<in> absolute_keys" by (auto simp: absolute_keys_def)
  then have "keys_of (lru_cache (dr_cache (resolve_end h t c x r))) \<subseteq> absolute_keys \<union> keys_of (lru_cache (dr_cache r))"
    using change(3) put_keys [of "query_key (absolute h) t" _ "dr_cache r"] by (elim disjE exE) (simp_all del: set_map, blast)
  from counted_change [OF _ change(1,2) this] show "counted m r \<Longrightarrow> counted m (resolve_end h t c x r)" by simp
qed

lemma remove_keep:
  assumes "remove_from_cache h t r = (b, r')"
  shows "dr_pending r' = dr_pending r" "counted m r \<Longrightarrow> counted m r'"
proof -
  have r': "r' = r\<lparr>dr_cache := snd (lru_remove (query_key h t) (dr_cache r))\<rparr>"
    using assms by (auto simp: remove_from_cache_def case_prod_beta Let_def)
  then show "dr_pending r' = dr_pending r" by simp
  show "counted m r \<Longrightarrow> counted m r'"
    using remove_keys [of "query_key h t" "dr_cache r"] by (auto simp: counted_def r' simp del: set_map)
qed

section \<open>The invariant\<close>

definition sys_calls :: "dns_sys \<Rightarrow> nat list" where
  "sys_calls s = map cl_number (sy_querying s) @ map fst (sy_joined s) @ map fst (sy_done s) @ sy_cancelled s"

definition sys_ok :: "dns_sys \<Rightarrow> bool" where
  "sys_ok s \<longleftrightarrow>
     dr_pending (sy_resolver s) = map (\<lambda>q. (call_key q, cl_number q)) (sy_querying s) \<and>
     distinct (map call_key (sy_querying s)) \<and>
     mset (sys_calls s) = mset [0..<sy_next s] \<and>
     (\<forall>(w, f) \<in> set (sy_joined s). f \<notin> set (sy_dead s) \<and> (f \<in> cl_number ` set (sy_querying s) \<or> f \<in> set (sy_cancelled s))) \<and>
     (\<forall>f \<in> set (sy_dead s). f \<in> cl_number ` set (sy_querying s) \<or> (f, Inl InvalidStateErr) \<in> set (sy_done s) \<or> f \<in> set (sy_cancelled s)) \<and>
     counted (int (sy_next s)) (sy_resolver s)"

lemma delete_remove1:
  "distinct (map call_key qs) \<Longrightarrow> q \<in> set qs \<Longrightarrow>
   AList.delete (call_key q) (map (\<lambda>q. (call_key q, cl_number q)) qs) = map (\<lambda>q. (call_key q, cl_number q)) (remove1 q qs)"
proof (induction qs)
  case (Cons p qs)
  show ?case
  proof (cases "p = q")
    case True
    then have "call_key q \<notin> call_key ` set qs" using Cons.prems by auto
    then show ?thesis using True by (simp add: AList.delete_idem image_image)
  next
    case False
    then show ?thesis using Cons by (auto simp: image_iff)
  qed
qed simp

lemma remove1_calls:
  assumes "q \<in> set qs"
  shows "mset (map cl_number qs) = add_mset (cl_number q) (mset (map cl_number (remove1 q qs)))"
  using assms by (induction qs) auto

lemma distinct_remove1_keys: "distinct (map f qs) \<Longrightarrow> distinct (map f (remove1 q qs))"
  using set_remove1_subset by (induction qs) fastforce+

lemma joined_split:
  "mset (map fst (filter (\<lambda>(w, f). f \<noteq> n) js)) + mset (map fst (map (\<lambda>(w, f). (w, x)) (filter (\<lambda>(w, f). f = n) js))) =
   mset (map fst js)"
  by (induction js) auto

lemma other_owner:
  assumes "f \<in> cl_number ` set qs" and "f \<noteq> cl_number q"
  shows "f \<in> cl_number ` set (remove1 q qs)"
proof -
  from assms(1) obtain p where p: "p \<in> set qs" "f = cl_number p" by blast
  then have "p \<in> set (remove1 q qs)" using assms(2) by (metis in_set_remove1)
  then show ?thesis using p(2) by blast
qed

text \<open>What the end of a query leaves of the table of pending queries and of the owners.\<close>

lemma end_query:
  assumes "q \<in> set (sy_querying s)" and "query_with_retry net now (absolute (cl_host q)) (cl_type q) (sy_resolver s) = Some (x, r)"
    and "sys_ok s"
  shows "dr_pending (resolve_end (cl_host q) (cl_type q) (cl_use_cache q) x r) =
      map (\<lambda>q. (call_key q, cl_number q)) (remove1 q (sy_querying s))"
    and "counted (int (sy_next s)) (resolve_end (cl_host q) (cl_type q) (cl_use_cache q) x r)"
    and "distinct (map call_key (remove1 q (sy_querying s)))"
proof -
  have keep: "dr_pending r = dr_pending (sy_resolver s)" "counted (int (sy_next s)) r"
    using retry_keep [OF assms(2)] assms(3) by (simp_all add: sys_ok_def)
  show "dr_pending (resolve_end (cl_host q) (cl_type q) (cl_use_cache q) x r) =
      map (\<lambda>q. (call_key q, cl_number q)) (remove1 q (sy_querying s))"
    using assms(1,3) keep(1) delete_remove1 [of "sy_querying s" q] by (simp add: end_keep(1) call_key_def [symmetric] sys_ok_def)
  show "counted (int (sy_next s)) (resolve_end (cl_host q) (cl_type q) (cl_use_cache q) x r)"
    using keep(2) by (rule end_keep(2))
  show "distinct (map call_key (remove1 q (sy_querying s)))"
    using assms(3) by (intro distinct_remove1_keys) (simp add: sys_ok_def)
qed

lemma joined_owner:
  assumes "sys_ok s" and "(w, f) \<in> set (sy_joined s)"
  shows "f \<notin> set (sy_dead s)" "f \<noteq> cl_number q \<Longrightarrow> f \<in> cl_number ` set (remove1 q (sy_querying s)) \<or> f \<in> set (sy_cancelled s)"
proof -
  have owner: "f \<notin> set (sy_dead s) \<and> (f \<in> cl_number ` set (sy_querying s) \<or> f \<in> set (sy_cancelled s))"
    using assms unfolding sys_ok_def by fast
  then show "f \<notin> set (sy_dead s)" ..
  assume "f \<noteq> cl_number q"
  with owner other_owner [OF _ this] show "f \<in> cl_number ` set (remove1 q (sy_querying s)) \<or> f \<in> set (sy_cancelled s)" by blast
qed

lemma dead_owner:
  assumes "sys_ok s" and "f \<in> set (sy_dead s)" and "f \<noteq> cl_number q"
  shows "f \<in> cl_number ` set (remove1 q (sy_querying s)) \<or> (f, Inl InvalidStateErr) \<in> set (sy_done s) \<or> f \<in> set (sy_cancelled s)"
proof -
  have "f \<in> cl_number ` set (sy_querying s) \<or> (f, Inl InvalidStateErr) \<in> set (sy_done s) \<or> f \<in> set (sy_cancelled s)"
    using assms unfolding sys_ok_def by fast
  with other_owner [OF _ assms(3)] show ?thesis by blast
qed

lemma sys_okI:
  assumes "dr_pending (sy_resolver s) = map (\<lambda>q. (call_key q, cl_number q)) (sy_querying s)"
    and "distinct (map call_key (sy_querying s))" and "mset (sys_calls s) = mset [0..<sy_next s]"
    and "\<And>w f. (w, f) \<in> set (sy_joined s) \<Longrightarrow> f \<notin> set (sy_dead s)"
    and "\<And>w f. (w, f) \<in> set (sy_joined s) \<Longrightarrow> f \<in> cl_number ` set (sy_querying s) \<or> f \<in> set (sy_cancelled s)"
    and "\<And>f. f \<in> set (sy_dead s) \<Longrightarrow>
      f \<in> cl_number ` set (sy_querying s) \<or> (f, Inl InvalidStateErr) \<in> set (sy_done s) \<or> f \<in> set (sy_cancelled s)"
    and "counted (int (sy_next s)) (sy_resolver s)"
  shows "sys_ok s"
  using assms unfolding sys_ok_def by blast

lemma sys_ok_step:
  assumes "dns_step s s'" and "sys_ok s"
  shows "sys_ok s'"
  using assms
proof (induction rule: dns_step.induct)
  case (hit s now h t c rs r)
  then show ?case
    using start_pending(3) [OF hit(1)] start_counted [OF hit(1)] by (auto simp: sys_ok_def sys_calls_def)
next
  case (join s now h t c f r)
  then show ?case
    using start_pending(2) [OF join(1)] start_pending(3) [OF join(1)] start_counted [OF join(1)]
    by (auto simp: sys_ok_def sys_calls_def)
next
  case (join_dead s now h t c f r)
  then show ?case
    using start_pending(3) [OF join_dead(1)] start_counted [OF join_dead(1)]
    by (auto simp: sys_ok_def sys_calls_def)
next
  case (query s now h t c r)
  then show ?case
    using start_pending(1) [OF query(1)] start_counted [OF query(1)]
    by (auto simp: sys_ok_def sys_calls_def call_key_def image_image)
next
  case (finish q s net now result r)
  note ended = end_query [OF finish(1,3,4)]
  have calls: "mset (sys_calls (s\<lparr>sy_resolver := r', sy_querying := remove1 q (sy_querying s),
      sy_joined := filter (\<lambda>(w, f). f \<noteq> cl_number q) (sy_joined s),
      sy_done := (cl_number q, result) # map (\<lambda>(w, f). (w, result)) (filter (\<lambda>(w, f). f = cl_number q) (sy_joined s)) @ sy_done s\<rparr>)) =
    mset (sys_calls s)" for r'
    using remove1_calls [OF finish(1)] joined_split [of "cl_number q" "sy_joined s" result, symmetric]
    by (simp add: sys_calls_def ac_simps del: mset_map map_map mset_filter)
  show ?case
  proof (rule sys_okI)
    show "mset (sys_calls (s\<lparr>sy_resolver := resolve_end (cl_host q) (cl_type q) (cl_use_cache q) result r,
        sy_querying := remove1 q (sy_querying s), sy_joined := filter (\<lambda>(w, f). f \<noteq> cl_number q) (sy_joined s),
        sy_done := (cl_number q, result) # map (\<lambda>(w, f). (w, result)) (filter (\<lambda>(w, f). f = cl_number q) (sy_joined s)) @ sy_done s\<rparr>)) =
      mset [0..<sy_next (s\<lparr>sy_resolver := resolve_end (cl_host q) (cl_type q) (cl_use_cache q) result r,
        sy_querying := remove1 q (sy_querying s), sy_joined := filter (\<lambda>(w, f). f \<noteq> cl_number q) (sy_joined s),
        sy_done := (cl_number q, result) # map (\<lambda>(w, f). (w, result)) (filter (\<lambda>(w, f). f = cl_number q) (sy_joined s)) @ sy_done s\<rparr>)]"
      unfolding calls using finish(4) by (simp add: sys_ok_def)
  qed (use ended finish(2) joined_owner(1) [OF finish(4)] joined_owner(2) [OF finish(4), of _ _ q] dead_owner [OF finish(4), of _ q] in
      \<open>((simp; fail) | (simp, blast))+\<close>)
next
  case (finish_dead q s net now result r)
  note ended = end_query [OF finish_dead(1,3,4)]
  have "f \<noteq> cl_number q" if "(w, f) \<in> set (sy_joined s)" for w f
    using joined_owner(1) [OF finish_dead(4) that] finish_dead(2) by blast
  note owners = this joined_owner(1) [OF finish_dead(4)] joined_owner(2) [OF finish_dead(4), of _ _ q] dead_owner [OF finish_dead(4), of _ q]
  have "mset (sys_calls s) = mset [0..<sy_next s]" using finish_dead(4) by (simp add: sys_ok_def)
  then have calls: "mset (sys_calls (s\<lparr>sy_resolver := r', sy_querying := remove1 q (sy_querying s),
      sy_done := (cl_number q, Inl InvalidStateErr) # sy_done s\<rparr>)) = mset [0..<sy_next s]" for r'
    using remove1_calls [OF finish_dead(1)] by (simp add: sys_calls_def del: mset_map)
  show ?case
    by (rule sys_okI) (use ended calls owners in \<open>((simp; fail) | (simp, blast))+\<close>)
next
  case (cancel q s)
  have ok: "distinct (map call_key (sy_querying s))" "mset (sys_calls s) = mset [0..<sy_next s]"
      "dr_pending (sy_resolver s) = map (\<lambda>q. (call_key q, cl_number q)) (sy_querying s)" "counted (int (sy_next s)) (sy_resolver s)"
    using cancel(2) by (simp_all add: sys_ok_def)
  note pending = delete_remove1 [OF ok(1) cancel(1)]
  have calls: "mset (sys_calls (s\<lparr>sy_resolver := r', sy_querying := remove1 q (sy_querying s),
      sy_cancelled := cl_number q # sy_cancelled s\<rparr>)) = mset [0..<sy_next s]" for r'
    using ok(2) remove1_calls [OF cancel(1)] by (simp add: sys_calls_def del: mset_map)
  have counted: "counted (int (sy_next s)) (sy_resolver s\<lparr>dr_pending := p\<rparr>)" for p
    using ok(4) by (simp add: counted_def)
  show ?case
    by (rule sys_okI) (use ok pending calls counted distinct_remove1_keys [OF ok(1)] joined_owner(1) [OF cancel(2)] joined_owner(2) [OF cancel(2), of _ _ q]
        dead_owner [OF cancel(2), of _ q] in \<open>((simp; fail) | (simp, blast))+\<close>)
next
  case (cancel_joined w f s)
  have ok: "distinct (map call_key (sy_querying s))" "mset (sys_calls s) = mset [0..<sy_next s]"
      "dr_pending (sy_resolver s) = map (\<lambda>q. (call_key q, cl_number q)) (sy_querying s)" "counted (int (sy_next s)) (sy_resolver s)"
      "f \<in> cl_number ` set (sy_querying s) \<or> f \<in> set (sy_cancelled s)"
      "\<And>w f. (w, f) \<in> set (sy_joined s) \<Longrightarrow> f \<in> cl_number ` set (sy_querying s) \<or> f \<in> set (sy_cancelled s)"
      "\<And>f. f \<in> set (sy_dead s) \<Longrightarrow>
        f \<in> cl_number ` set (sy_querying s) \<or> (f, Inl InvalidStateErr) \<in> set (sy_done s) \<or> f \<in> set (sy_cancelled s)"
    using cancel_joined unfolding sys_ok_def by blast+
  have calls: "mset (sys_calls (s\<lparr>sy_joined := filter (\<lambda>(v, g). g \<noteq> f) (sy_joined s),
      sy_cancelled := map fst (filter (\<lambda>(v, g). g = f) (sy_joined s)) @ sy_cancelled s, sy_dead := f # sy_dead s\<rparr>)) =
    mset [0..<sy_next s]"
    using ok(2) joined_split [of f "sy_joined s" undefined, symmetric]
    by (simp add: sys_calls_def ac_simps comp_def case_prod_unfold del: mset_map mset_filter)
  show ?case
    by (rule sys_okI) (use ok calls joined_owner(1) [OF cancel_joined(2)] in \<open>((simp; fail) | (simp, blast))+\<close>)
next
  case (remove h t s b r)
  then show ?case
    using remove_keep [OF remove(1)] by (auto simp: sys_ok_def sys_calls_def)
next
  case (clear s)
  then show ?case by (simp add: sys_ok_def sys_calls_def counted_def clear_cache_def lru_clear_def)
qed

lemma reach_ok: "dns_reach s \<Longrightarrow> sys_ok s"
proof (induction rule: dns_reach.induct)
  case new
  then show ?case by (simp add: sys_ok_def sys_new_def sys_calls_def resolver_new_def lru_new_def counted_def)
next
  case (step s s')
  from \<open>dns_step s s'\<close> \<open>sys_ok s\<close> show ?case by (rule sys_ok_step)
qed

text \<open>
  C19. In every run of calls that overlap in any way, with cancellations of querying and of waiting calls: there is
  at most one query for a name and type at a time, and the table of pending queries lists exactly these; every call
  that was started is either querying, waiting, ended once with a result or an exception, or cancelled; a call that
  waits does so for a future that was not cancelled, of a call that is querying or was cancelled; the owner of a
  cancelled future is still querying, or has ended with \<^verbatim>\<open>InvalidStateError\<close>, or was cancelled, and so never gives
  the records it got; and every call is counted once, as a hit or as a miss.
\<close>
theorem dns_calls_accounted:
  assumes "dns_reach s"
  shows "distinct (map call_key (sy_querying s)) \<and>
    dr_pending (sy_resolver s) = map (\<lambda>q. (call_key q, cl_number q)) (sy_querying s) \<and>
    mset (map cl_number (sy_querying s) @ map fst (sy_joined s) @ map fst (sy_done s) @ sy_cancelled s) = mset [0..<sy_next s] \<and>
    (\<forall>(w, f) \<in> set (sy_joined s). f \<notin> set (sy_dead s) \<and> (f \<in> cl_number ` set (sy_querying s) \<or> f \<in> set (sy_cancelled s))) \<and>
    (\<forall>f \<in> set (sy_dead s). f \<in> cl_number ` set (sy_querying s) \<or> (f, Inl InvalidStateErr) \<in> set (sy_done s) \<or> f \<in> set (sy_cancelled s)) \<and>
    dr_cache_hits (sy_resolver s) + dr_cache_misses (sy_resolver s) = int (sy_next s)"
  using reach_ok [OF assms] by (simp add: sys_ok_def sys_calls_def counted_def)

text \<open>Two calls for the same name, the first of which is cancelled.\<close>

definition demo_call :: dns_call where
  "demo_call = \<lparr>cl_number = 0, cl_host = codes ''example.com'', cl_type = T_A, cl_use_cache = True\<rparr>"

definition demo_asked :: resolver where
  "demo_asked = resolver_new\<lparr>dr_queries := 1, dr_cache_misses := 1, dr_pending := [(call_key demo_call, 0)]\<rparr>"

definition demo_two :: dns_sys where
  "demo_two = sys_new\<lparr>sy_resolver := demo_asked\<lparr>dr_queries := 2, dr_cache_misses := 2\<rparr>, sy_next := 2,
     sy_querying := [demo_call], sy_joined := [(1, 0)]\<rparr>"

definition demo_orphan :: dns_sys where
  "demo_orphan = demo_two\<lparr>sy_resolver := demo_asked\<lparr>dr_queries := 2, dr_cache_misses := 2, dr_pending := []\<rparr>,
     sy_querying := [], sy_cancelled := [0]\<rparr>"

lemma demo_two_reach: "dns_reach demo_two"
proof -
  let ?one = "sys_new\<lparr>sy_resolver := demo_asked, sy_next := 1, sy_querying := [demo_call]\<rparr>"
  have "resolve_start (sy_next sys_new) 0 (codes ''example.com'') T_A True (sy_resolver sys_new) = (Querying, demo_asked)"
    by (simp add: resolve_start_def cached_records_def lru_get_def sys_new_def resolver_new_def lru_new_def Let_def
        demo_asked_def call_key_def demo_call_def)
  from dns_step.query [OF this] have "dns_step sys_new ?one" by (simp add: sys_new_def demo_call_def)
  moreover have "resolve_start (sy_next ?one) 0 (codes ''example.com'') T_A True (sy_resolver ?one) =
      (Joined 0, demo_asked\<lparr>dr_queries := 2, dr_cache_misses := 2\<rparr>)"
    by (simp add: resolve_start_def cached_records_def lru_get_def resolver_new_def lru_new_def Let_def
        demo_asked_def call_key_def demo_call_def)
  from dns_step.join [OF this] have "dns_step ?one demo_two" by (simp add: demo_two_def sys_new_def numeral_2_eq_2)
  ultimately show ?thesis by (blast intro: dns_reach.intros)
qed

lemma demo_orphan_reach: "dns_reach demo_orphan"
proof -
  have "demo_call \<in> set (sy_querying demo_two)" by (simp add: demo_two_def)
  from dns_step.cancel [OF this] have "dns_step demo_two demo_orphan"
    by (simp add: demo_two_def demo_orphan_def demo_asked_def demo_call_def call_key_def sys_new_def)
  with demo_two_reach show ?thesis by (rule dns_reach.step)
qed

text \<open>The second call is cancelled instead, and with it the future of the first.\<close>

definition demo_dead :: dns_sys where
  "demo_dead = demo_two\<lparr>sy_joined := [], sy_cancelled := [1], sy_dead := [0]\<rparr>"

lemma demo_dead_reach: "dns_reach demo_dead"
proof -
  have "(1, 0) \<in> set (sy_joined demo_two)" by (simp add: demo_two_def)
  from dns_step.cancel_joined [OF this] have "dns_step demo_two demo_dead"
    by (simp add: demo_two_def demo_dead_def demo_asked_def demo_call_def call_key_def sys_new_def)
  with demo_two_reach show ?thesis by (rule dns_reach.step)
qed

theorem dns_calls_accounted_witness:
  "dr_pending (sy_resolver demo_dead) = [(call_key demo_call, 0)] \<and> 0 \<in> set (sy_dead demo_dead) \<and>
   mset ([0] @ [] @ [] @ [1]) = mset [0..<2]"
  using dns_calls_accounted [OF demo_dead_reach] by (simp add: demo_dead_def demo_two_def sys_new_def demo_call_def)

lemma calls_distinct: "sys_ok s \<Longrightarrow> distinct (sys_calls s)"
  using mset_eq_imp_distinct_iff [of "sys_calls s" "[0..<sy_next s]"] by (simp add: sys_ok_def)

text \<open>A call that waits for a call that was cancelled: it goes on waiting, or is cancelled with the future.\<close>

definition orphan :: "nat \<Rightarrow> nat \<Rightarrow> dns_sys \<Rightarrow> bool" where
  "orphan w f s \<longleftrightarrow> f \<in> set (sy_cancelled s) \<and>
     (if f \<in> set (sy_dead s) then w \<in> set (sy_cancelled s) else (w, f) \<in> set (sy_joined s))"

lemma orphan_step:
  assumes "dns_step s s'" and "sys_ok s" and "orphan w f s"
  shows "orphan w f s'"
  using assms
proof (induction rule: dns_step.induct)
  case (finish q s net now result r)
  have "distinct (sys_calls s)" using finish(4) by (rule calls_distinct)
  then have "f \<noteq> cl_number q" using finish(1,5) by (auto simp: sys_calls_def orphan_def)
  then show ?case using finish(5) by (auto simp: orphan_def)
next
  case (cancel_joined v g s)
  have "v \<in> set (map fst (filter (\<lambda>(v, g). g = f) (sy_joined s)))" if "(v, f) \<in> set (sy_joined s)" for v
    using that by force
  then show ?case using cancel_joined(3) by (cases "g = f") (auto simp: orphan_def simp del: set_map split: if_splits)
qed (auto simp: orphan_def)

text \<open>
  C20. A call that waits for the query of a call that was cancelled is never answered: it waits in every state
  that follows, also when a later call has asked for the same name and got its answer, unless the future itself is
  cancelled with one of the calls that wait for it, and then it has ended by cancellation.
\<close>
theorem dns_cancel_orphans:
  assumes "dns_reach s" and "(w, f) \<in> set (sy_joined s)" and "f \<in> set (sy_cancelled s)" and "dns_step\<^sup>*\<^sup>* s s'"
  shows "w \<notin> fst ` set (sy_done s') \<and>
    (if f \<in> set (sy_dead s') then w \<in> set (sy_cancelled s') else (w, f) \<in> set (sy_joined s'))"
proof -
  have "orphan w f s" using joined_owner(1) [OF reach_ok [OF assms(1)] assms(2)] assms(2,3) by (simp add: orphan_def)
  with assms(1,4) have "dns_reach s' \<and> orphan w f s'"
    by (induction rule: rtranclp_induct [OF assms(4)]) (use orphan_step reach_ok dns_reach.step in blast)+
  then have orphan: "orphan w f s'" and "distinct (sys_calls s')"
    using calls_distinct reach_ok by blast+
  then have "(set (map fst (sy_joined s')) \<union> set (sy_cancelled s')) \<inter> set (map fst (sy_done s')) = {}"
    by (auto simp: sys_calls_def)
  moreover have "w \<in> set (map fst (sy_joined s')) \<union> set (sy_cancelled s')"
    using orphan by (force simp: orphan_def split: if_splits)
  ultimately show ?thesis using orphan by (auto simp: orphan_def)
qed

theorem dns_cancel_orphans_witness:
  "(1, 0) \<in> set (sy_joined (demo_orphan\<lparr>sy_resolver := clear_cache (sy_resolver demo_orphan)\<rparr>)) \<and>
   1 \<notin> fst ` set (sy_done (demo_orphan\<lparr>sy_resolver := clear_cache (sy_resolver demo_orphan)\<rparr>))"
proof -
  let ?later = "demo_orphan\<lparr>sy_resolver := clear_cache (sy_resolver demo_orphan)\<rparr>"
  have "(1, 0) \<in> set (sy_joined demo_orphan)" "0 \<in> set (sy_cancelled demo_orphan)"
    by (simp_all add: demo_orphan_def demo_two_def)
  moreover have "dns_step\<^sup>*\<^sup>* demo_orphan ?later"
    by (rule r_into_rtranclp) (rule dns_step.clear)
  ultimately have "1 \<notin> fst ` set (sy_done ?later) \<and>
      (if 0 \<in> set (sy_dead ?later) then 1 \<in> set (sy_cancelled ?later) else (1, 0) \<in> set (sy_joined ?later))"
    by (rule dns_cancel_orphans [OF demo_orphan_reach])
  then show ?thesis by (simp add: demo_orphan_def demo_two_def sys_new_def)
qed

section \<open>Removing from the cache\<close>

lemma query_key_name:
  assumes "query_key h t = query_key h' t'"
  shows "h = h'"
proof -
  have digits: "\<forall>c \<in> set (rev (codes (int_str (type_code t)))). c \<noteq> 58" for t
    using type_code_bounds(1) [of t] nat_str_digits [of "nat (type_code t)"]
    by (auto simp: codes_def int_str_def ascii_digits_def list_all_iff digit_char_def)
  have key: "dropWhile (\<lambda>c. c \<noteq> 58) (rev (query_key h t)) = 58 # rev h" for h t
    using dropWhile_append2 [of "rev (codes (int_str (type_code t)))" "\<lambda>c. c \<noteq> 58" "58 # rev h"] digits [of t]
    by (simp add: query_key_def codes_def)
  from assms have "58 # rev h = 58 # rev h'" by (metis key)
  then show ?thesis by simp
qed

text \<open>
  Removing an entry from the cache needs the dot that the resolver puts behind every name: for a name without
  it nothing is found and nothing changes, whatever was resolved before.
\<close>
theorem dns_remove_needs_dot:
  assumes "dns_reach s" and "h = [] \<or> last h \<noteq> dot"
  shows "remove_from_cache h t (sy_resolver s) = (False, sy_resolver s)"
proof -
  have "query_key h t \<notin> absolute_keys"
  proof
    assume "query_key h t \<in> absolute_keys"
    then obtain h' t' where "query_key h t = query_key (absolute h') t'" by (auto simp: absolute_keys_def)
    then have "h = absolute h'" by (rule query_key_name)
    then show False using assms(2) by (auto simp: absolute_def)
  qed
  then have "query_key h t \<notin> keys_of (lru_cache (dr_cache (sy_resolver s)))"
    using reach_ok [OF assms(1)] unfolding sys_ok_def counted_def by blast
  then have "map_of (lru_cache (dr_cache (sy_resolver s))) (query_key h t) = None"
    by (simp add: map_of_eq_None_iff)
  then show ?thesis by (simp add: remove_from_cache_def lru_remove_def)
qed

theorem dns_remove_needs_dot_witness:
  "remove_from_cache (codes ''example.com'') T_A (sy_resolver demo_two) = (False, sy_resolver demo_two)"
  using demo_two_reach by (rule dns_remove_needs_dot) (simp add: codes_def)

end
