(* ===== verification/Spec2Isabelle.thy ===== *)
theory Spec2Isabelle
  imports BTree_Leaf Leb128 WasmMemory WasmTables WasmStack Transaction Checksum Tcp Ip_Delivery SqlRows_Facts SqlCommand_Facts SqlLexer_Facts WebSocket_Facts Dns_Calls
begin

text \<open>
  AinosOS, the Python parts that carry logic of their own: a development that models the code function
  by function and proves what makes it correct, or shows where it is not.

  \<^bold>\<open>The program.\<close>  The repository is an operating system project of loosely coupled subsystems.  Three of
  them hold algorithms and state machines in Python and are modelled here.
  \<^item> \<^verbatim>\<open>src/database\<close>: a page store.  The B+ tree (\<^verbatim>\<open>storage/btree.py\<close>) keeps its nodes on pages
    (\<^verbatim>\<open>storage/page.py\<close>) that it gets from the buffer pool (\<^verbatim>\<open>storage/buffer.py\<close>) and writes keys and values
    with the serializer (\<^verbatim>\<open>utils/serializer.py\<close>); transactions (\<^verbatim>\<open>sql/transaction.py\<close>) append to the
    write-ahead log (\<^verbatim>\<open>storage/wal.py\<close>); the SQL engine above keeps its tables in a catalog (\<^verbatim>\<open>sql/catalog.py\<close>)
    with columns of the types of \<^verbatim>\<open>sql/types.py\<close>; a text goes through lexer and parser (\<^verbatim>\<open>sql/parser.py\<close>),
    planner (\<^verbatim>\<open>sql/planner.py\<close>), optimizer (\<^verbatim>\<open>sql/optimizer.py\<close>) and executor (\<^verbatim>\<open>sql/executor.py\<close>).
  \<^item> \<^verbatim>\<open>src/wasm\<close>: parts of a WebAssembly engine, namely the LEB128 codec (\<^verbatim>\<open>utils/leb128.py\<close>), linear memory,
    tables and stacks (\<^verbatim>\<open>engine\<close>) and the value types (\<^verbatim>\<open>module/types.py\<close>).
  \<^item> \<^verbatim>\<open>src/network\<close>: the IPv4 layer (\<^verbatim>\<open>protocol/ip.py\<close>), the TCP layer (\<^verbatim>\<open>protocol/tcp.py\<close>), WebSocket
    connections (\<^verbatim>\<open>protocol/websocket.py\<close>), the DNS resolver (\<^verbatim>\<open>protocol/dns.py\<close>) and the checksums (\<^verbatim>\<open>utils/checksum.py\<close>).

  \<^bold>\<open>Theories.\<close>  The theories \<open>Py_*\<close> hold what the code uses of Python and its standard library, and the
  lemmas every component shares.  \<open>Py_Prelude\<close>: exceptions as values (\<^typ>\<open>py_error\<close>, results as sums),
  indexing and slicing with negative and out-of-range positions, loops that may raise, bytes of integers.
  \<open>Py_State\<close>: methods as functions on the object that return a result and the object after the call.
  \<open>Py_Struct\<close>: \<^verbatim>\<open>struct\<close> and the locale of self-delimiting codecs.  \<open>Py_Float\<close>: the integer part of binary64.
  \<open>Py_Utf8\<close>: UTF-8.  \<open>Py_Text\<close>: decimal numerals, splitting and joining.  \<open>Py_Ipaddress\<close>: IPv4 addresses and
  networks.  \<open>Region\<close> and \<open>Bounded_Stack\<close> hold the interfaces (locales) of byte windows in a
  buffer and of stacks with a limit, and their client lemmas; the components interpret them.

  \<^item> \<open>Leb128\<close>: decoders, encoders and the reader.  Round trips over the whole decodable range.
  \<^item> \<open>WasmMemory\<close>: \<^verbatim>\<open>Memory\<close> and \<^verbatim>\<open>SharedMemory\<close>.  Size invariant over sequences of calls and which
    calls break it, every access checked, copy as a move, exact behaviour of the integer stores.
  \<^item> \<open>WasmTables\<close>, \<open>WasmTypes\<close>, \<open>WasmStack\<close>: tables, types and stacks; the stacks refine bounded lists.
  \<^item> \<open>DbPage\<close>, \<open>BufferPool\<close>: pages and the CLOCK buffer pool.  Invariant of dictionary, slots, dirty marks
    and hand; when an insertion returns and when the sweep runs for ever.
  \<^item> \<open>DbSerializer\<close>: tagged values; round trip and prefix freedom.
  \<^item> \<open>BTree\<close> (model), \<open>BTree_Facts\<close> (nodes on pages), \<open>BTree_Leaf\<close> (a tree on one leaf refines a finite map;
    what happens when the leaf fills).
  \<^item> \<open>Wal\<close>, \<open>Transaction\<close>: the log with its index and replay; the books of the transaction manager,
    visibility, and how transactions end with and without a log.
  \<^item> \<open>Checksum\<close>: Internet checksum, cyclic redundancy checks, incremental digests.
  \<^item> \<open>Tcp\<close>: packets, connections, congestion control, retransmission and the protocol object.
  \<^item> \<open>Ip\<close> (model), \<open>Ip_Wire\<close> (binary form), \<open>Ip_Fragments\<close> (fragmentation and reassembly), \<open>Ip_Router\<close>
    (runs of the protocol object, routing, statistics), \<open>Ip_Delivery\<close> (from the sender to the handler of the
    receiver).
  \<^item> \<open>SqlTypes\<close> (model of \<^verbatim>\<open>sql/types.py\<close>), \<open>SqlTypes_Facts\<close>: the column types, one definition per method and
    class.  Coercion and validation, the binary form, the order of values, names of types, sizes of text.
  \<^item> \<open>SqlCatalog\<close> (model of \<^verbatim>\<open>sql/catalog.py\<close>), \<open>SqlCatalog_Facts\<close>: databases, tables and columns with the document
    on disk.  Invariant over all runs with restarts, what a restart finds, how calls fail.
  \<^item> \<open>SqlLexer\<close>, \<open>SqlParser\<close> (models of \<^verbatim>\<open>sql/parser.py\<close>), \<open>SqlLexer_Facts\<close>, \<open>SqlParser_Facts\<close>: tokens and the
    recursive descent parser, one definition per method; parsers are functions on the list of tokens, and recursive
    calls carry a guard that the list has become shorter.  The guard never acts, expressions are read back
    from their tokens, and what a text can be parsed as.
  \<^item> \<open>SqlExpr\<close> (syntax trees, their evaluation on a row), \<open>SqlPlan\<close> (models of \<^verbatim>\<open>sql/planner.py\<close> and
    \<^verbatim>\<open>sql/optimizer.py\<close>), \<open>SqlExecutor\<close> (model of \<^verbatim>\<open>sql/executor.py\<close>): the iterator of a query node is a
    stream, that is the rows it yields and the exception it ends with.
  \<^item> \<open>SqlQuery_Facts\<close>, \<open>SqlRows_Facts\<close>, \<open>SqlCommand_Facts\<close>: subqueries, constant folding, what the optimizer does to a query;
    filter, projection and limit, \<^verbatim>\<open>ORDER BY\<close>, \<^verbatim>\<open>GROUP BY\<close> and \<^verbatim>\<open>LIKE\<close>; what commands can
    change, from the text to the store.
  \<^item> \<open>WebSocket\<close> (model of \<^verbatim>\<open>protocol/websocket.py\<close>), \<open>WebSocket_Facts\<close>: frames and connections over a stream of bytes.
    Messages arrive whole or in fragments, control frames, the closing handshake.
  \<^item> \<open>Dns\<close> (model of \<^verbatim>\<open>protocol/dns.py\<close>), \<open>Dns_Facts\<close> (when decoding returns, messages are read back),
    \<open>Dns_Resolver\<close> (the cache refines its specification, a single call), \<open>Dns_Calls\<close> (calls that overlap: a step
    relation on the points where \<^verbatim>\<open>resolve\<close> waits).  \<open>Py_Ip6\<close>: IPv6 addresses of \<^verbatim>\<open>ipaddress\<close>.

  \<^bold>\<open>How code becomes definitions.\<close>  A class is a record with one field per attribute; a method is a
  function that takes the object and returns its result and the object afterwards, so that what was changed
  before an exception stays visible.  Every \<^verbatim>\<open>raise\<close> and every exception of the library is a branch that
  returns \<^term>\<open>Inl e\<close>.  Python integers are \<^typ>\<open>int\<close>, bytes are lists of \<^typ>\<open>byte\<close>, dictionaries are
  association lists in insertion order where the order is observable.  Loops are structural recursion, or
  recursion with a measure; a loop that may not end is a \<open>partial_function\<close> with \<^term>\<open>None\<close> for divergence, and
  then a theorem says exactly when it returns (\<^verbatim>\<open>_evict_page\<close>, \<^verbatim>\<open>_find_leaf\<close>, \<^verbatim>\<open>send_data\<close>,
  \<^verbatim>\<open>_fragment_packet\<close>, \<^verbatim>\<open>_decode_name\<close>).  No fuel is used.

  \<^bold>\<open>Parameters.\<close>  What is not under \<^verbatim>\<open>src/\<close> is an argument: the digests of \<^verbatim>\<open>hashlib\<close>, the loader of pages
  and the file system behind pool and log as far as they are observed, clocks and expiry, random numbers and
  masking keys, the replies of name servers, filters, handlers and callbacks, the data stores of the SQL engine and the operators of Python
  on floats and other objects.  No law is assumed of any of them but in the premises of a theorem.

  \<^bold>\<open>Properties.\<close>  Each property carries its number \<open>C<n>\<close> in the text before the theorem.  A
  witness follows each theorem that has hypotheses.

  \<^bold>\<open>What modelling showed.\<close>  Several properties state defects, because that is what the code does:
  a new B+ tree never answers and a full leaf loses entries; markers in the write-ahead log cannot be
  serialized and records lose their values on replay; rollback undoes nothing and rows of aborted
  transactions are visible; eviction drops dirty pages and hangs when every page is pinned; 32-bit stores
  reject values with the sign bit; TCP never reaches \<^verbatim>\<open>ESTABLISHED\<close>; IPv4 accepts header lengths below 20
  bytes and counts packets without a route as forwarded.  In the SQL catalog a default value without
  JSON form destroys the document on disk, and a column of an array type makes it impossible to open.  The SQL engine
  parses neither insertions nor lists, since its lexer has no punctuation; its optimizer loses the \<^verbatim>\<open>WHERE\<close> clause of
  every query; \<^verbatim>\<open>CREATE\<close> and \<^verbatim>\<open>DROP\<close> always fail; and one descending key reverses the whole order.  One DNS
  response with a circular pointer hangs the resolver, responses with a foreign identifier are accepted, and calls
  that joined a cancelled query wait for ever.

  \<^bold>\<open>Not modelled.\<close>  Logging, \<^verbatim>\<open>__repr__\<close> and \<^verbatim>\<open>__hash__\<close>, locks and threads (each call is atomic, but for the
  overlapping calls of the DNS resolver), and
  failures of the file system.  The floating-point estimates of TCP round-trip times.  \<^verbatim>\<open>ObjectSerializer\<close>
  walks arbitrary Python objects.  \<^verbatim>\<open>src/wasm/src/module/decoder.py\<close> cannot be imported, since one of its
  enumerations repeats a member, and parser and validator depend on it.  Costs, cardinalities and output schemas of
  query plans, which execution does not look at.  The opening handshake of WebSocket clients and
  the server around the connections, and the datagram endpoint of DNS.  The compiler, UDP and HTTP and the
  internationalisation are left for extensions.
  The userland tools, plugins, training scripts, container runtime and SDK bindings are
  glue around the operating system and external services; kernel, firmware and AI runtime are not Python.
\<close>

end
